(* ===== verification/Prelude.thy ===== *)
theory Prelude
  imports Main "HOL-Library.List_Lexorder" "HOL-Library.Char_ord"
begin

text \<open>
  Shared vocabulary of the development: Python exceptions as values, the sequencing of
  fallible code, the operations on \<open>str\<close>, \<open>dict\<close> and \<open>tuple\<close> that the sources use,
  and the list lemmas every component proof needs.

  A Python \<open>str\<close> is a list of characters with code points below 256 (Latin-1); the UTF-8
  encoding used before hashing is written out in theory \<open>Json\<close>. White space, case mapping and
  code-point order are those of Python on this range.
\<close>

named_theorems guard_simps \<open>guards of the sources, unfolded\<close>
named_theorems wf_intros \<open>well-formedness of what the operations build\<close>

section \<open>Exceptions and fallible code\<close>

datatype exc_class =
    ValueError | TypeError | KeyError | RuntimeError | PermissionError
  | WorkflowDesignError | TaskContractError | TaskContextError | CapabilityAuthorityDenied
  | ExecutionPlanError | ExecutionObservationError | RuntimeSchedulerError
  | ExecutionSchedulerError | ExecutionBudgetExceeded | ExecutionCheckpointError
  | OperationalError | IntegrityError | OverflowError | AssertionError
  | HarnessTaskCompilationError | ContextManifestError
  | StopIteration | AttributeError | ExecutionDispatchBudgetError | ExecutionWriterFenceError | RuntimeWriterLeaseError
  | ExecutionRuntimeCompositionError | WorkflowStateError | RuntimeCheckpointError | RuntimeDispatchRecoveryError

type_synonym exn = "exc_class \<times> string"
type_synonym 'a result = "exn + 'a"

text \<open>The part of the class hierarchy that \<open>except\<close> clauses of the sources rely on.\<close>

fun is_value_error :: "exc_class \<Rightarrow> bool" where
  "is_value_error ValueError = True"
| "is_value_error WorkflowDesignError = True"
| "is_value_error TaskContractError = True"
| "is_value_error TaskContextError = True"
| "is_value_error ExecutionPlanError = True"
| "is_value_error ExecutionObservationError = True"
| "is_value_error RuntimeSchedulerError = True"
| "is_value_error HarnessTaskCompilationError = True"
| "is_value_error ContextManifestError = True"
| "is_value_error WorkflowStateError = True"
| "is_value_error RuntimeCheckpointError = True"
| "is_value_error RuntimeDispatchRecoveryError = True"
| "is_value_error _ = False"

fun is_runtime_error :: "exc_class \<Rightarrow> bool" where
  "is_runtime_error RuntimeError = True"
| "is_runtime_error ExecutionSchedulerError = True"
| "is_runtime_error ExecutionBudgetExceeded = True"
| "is_runtime_error ExecutionCheckpointError = True"
| "is_runtime_error ExecutionDispatchBudgetError = True"
| "is_runtime_error ExecutionWriterFenceError = True"
| "is_runtime_error RuntimeWriterLeaseError = True"
| "is_runtime_error ExecutionRuntimeCompositionError = True"
| "is_runtime_error _ = False"

abbreviation raise :: "exc_class \<Rightarrow> string \<Rightarrow> 'a result" where
  "raise c m \<equiv> Inl (c, m)"

definition bindE :: "'a result \<Rightarrow> ('a \<Rightarrow> 'b result) \<Rightarrow> 'b result" where
  "bindE m k = (case m of Inl e \<Rightarrow> Inl e | Inr x \<Rightarrow> k x)"

text \<open>\<open>try: m except <classes matching p> as exc: raise c(msg)\<close>\<close>

definition reraise :: "(exc_class \<Rightarrow> bool) \<Rightarrow> exc_class \<Rightarrow> string \<Rightarrow> 'a result \<Rightarrow> 'a result" where
  "reraise p c msg m = (case m of Inl (d, t) \<Rightarrow> (if p d then Inl (c, msg) else Inl (d, t)) | Inr x \<Rightarrow> Inr x)"

text \<open>A comprehension or loop that stops at the first exception.\<close>

fun mapE :: "('a \<Rightarrow> 'b result) \<Rightarrow> 'a list \<Rightarrow> 'b list result" where
  "mapE f [] = Inr []"
| "mapE f (x # xs) = bindE (f x) (\<lambda>y. bindE (mapE f xs) (\<lambda>ys. Inr (y # ys)))"

fun foldE :: "('s \<Rightarrow> 'a \<Rightarrow> 's result) \<Rightarrow> 's \<Rightarrow> 'a list \<Rightarrow> 's result" where
  "foldE f s [] = Inr s"
| "foldE f s (x # xs) = bindE (f s x) (\<lambda>s'. foldE f s' xs)"

lemma bindE_simps [simp]: "bindE (Inl e) k = Inl e" "bindE (Inr x) k = k x"
  by (simp_all add: bindE_def)

lemma bindE_Inr_iff: "bindE m k = Inr y \<longleftrightarrow> (\<exists>x. m = Inr x \<and> k x = Inr y)"
  by (cases m) auto

lemma bindE_InrE [elim!]:
  assumes "bindE m k = Inr y"
  obtains x where "m = Inr x" "k x = Inr y"
  using assms by (auto simp: bindE_Inr_iff)

lemma bindE_Inl_iff: "bindE m k = Inl e \<longleftrightarrow> m = Inl e \<or> (\<exists>x. m = Inr x \<and> k x = Inl e)"
  by (cases m) auto

lemma bindE_cong [fundef_cong]:
  "m = m' \<Longrightarrow> (\<And>x. m' = Inr x \<Longrightarrow> k x = k' x) \<Longrightarrow> bindE m k = bindE m' k'"
  by (cases m') auto

lemma if_raise_iff: "(if c then raise x m else y) = Inr z \<longleftrightarrow> \<not> c \<and> y = Inr z"
  by simp

lemma reraise_Inr_iff [simp]: "reraise p c msg m = Inr x \<longleftrightarrow> m = Inr x"
  by (auto simp: reraise_def split: sum.splits)

lemma reraise_Inr [simp]: "reraise p c msg (Inr x) = Inr x"
  by (simp add: reraise_def)

lemma reraise_Inl [simp]:
  "reraise p c msg (Inl e) = (if p (fst e) then Inl (c, msg) else Inl e)"
  by (simp add: reraise_def split: prod.split)

lemma mapE_cong [fundef_cong]:
  "xs = ys \<Longrightarrow> (\<And>x. x \<in> set ys \<Longrightarrow> f x = g x) \<Longrightarrow> mapE f xs = mapE g ys"
  by (induction xs arbitrary: ys) auto

lemma mapE_Inr_iff: "mapE f xs = Inr ys \<longleftrightarrow> list_all2 (\<lambda>x y. f x = Inr y) xs ys"
proof (induction xs arbitrary: ys)
  case Nil
  then show ?case by auto
next
  case (Cons x xs)
  then show ?case
    by (cases ys) (auto simp: bindE_Inr_iff)
qed

lemma mapE_length: "mapE f xs = Inr ys \<Longrightarrow> length ys = length xs"
  by (auto simp: mapE_Inr_iff dest: list_all2_lengthD)

lemma mapE_set: "mapE f xs = Inr ys \<Longrightarrow> y \<in> set ys \<Longrightarrow> \<exists>x \<in> set xs. f x = Inr y"
  by (fastforce simp: mapE_Inr_iff list_all2_conv_all_nth in_set_conv_nth)

lemma mapE_map: "(\<And>x. x \<in> set xs \<Longrightarrow> f x = Inr (g x)) \<Longrightarrow> mapE f xs = Inr (map g xs)"
  by (induction xs) auto

lemma mapE_ident: "(\<And>x. x \<in> set xs \<Longrightarrow> f x = Inr x) \<Longrightarrow> mapE f xs = Inr xs"
  using mapE_map [of xs f id] by simp

lemma mapE_Inl: "mapE f xs = Inl e \<Longrightarrow> \<exists>x \<in> set xs. f x = Inl e"
  by (induction xs) (auto simp: bindE_Inl_iff)

lemma foldE_append: "foldE f s (xs @ ys) = bindE (foldE f s xs) (\<lambda>t. foldE f t ys)"
proof (induction xs arbitrary: s)
  case (Cons x xs)
  then show ?case by (cases "f s x") auto
qed simp

text \<open>Invariants of a loop that may raise.\<close>

lemma foldE_invariant:
  assumes "foldE f s xs = Inr t" and "P s"
    and "\<And>s x s'. x \<in> set xs \<Longrightarrow> P s \<Longrightarrow> f s x = Inr s' \<Longrightarrow> P s'"
  shows "P t"
  using assms
proof (induction xs arbitrary: s)
  case (Cons x xs)
  from Cons.prems(1) obtain s' where "f s x = Inr s'" "foldE f s' xs = Inr t"
    by auto
  with Cons.IH [of s'] Cons.prems(2,3) show ?case
    by (meson list.set_intros)
qed simp

text \<open>A sequence of guards, run in order: the first violated one raises.\<close>

definition fail_if :: "exc_class \<Rightarrow> bool \<Rightarrow> string \<Rightarrow> unit result" where
  "fail_if c bad m = (if bad then raise c m else Inr ())"

definition void :: "'a result \<Rightarrow> unit result" where
  "void r = bindE r (\<lambda>_. Inr ())"

definition checked :: "unit result list \<Rightarrow> 'a \<Rightarrow> 'a result" where
  "checked gs x = bindE (mapE id gs) (\<lambda>_. Inr x)"

lemma fail_if_iff [simp]: "fail_if c bad m = Inr u \<longleftrightarrow> \<not> bad"
  by (simp add: fail_if_def)

lemma void_iff [simp]: "void r = Inr u \<longleftrightarrow> (\<exists>x. r = Inr x)"
  by (cases r) (simp_all add: void_def)

lemma mapE_id_ok: "(\<exists>u. mapE id xs = Inr u) \<longleftrightarrow> (\<forall>x \<in> set xs. \<exists>u. x = Inr u)"
  by (induction xs) (auto simp: bindE_Inr_iff)

lemma bindE_checks_Inr:
  "bindE (mapE id xs) (\<lambda>_. k) = Inr y \<longleftrightarrow> (\<forall>x \<in> set xs. \<exists>u. x = Inr u) \<and> k = Inr y"
  unfolding mapE_id_ok [symmetric] by (auto simp: bindE_Inr_iff)

lemma checked_iff: "checked gs x = Inr y \<longleftrightarrow> x = y \<and> list_all (\<lambda>g. g = Inr ()) gs"
  by (auto simp: checked_def bindE_checks_Inr list_all_iff)

lemma checked_simps:
  "checked [] x = Inr x" "checked (g # gs) x = bindE g (\<lambda>_. checked gs x)"
  by (cases g; auto simp: checked_def bindE_def split: sum.splits)+

section \<open>Ordered duplicate-free sequences: \<open>dict.fromkeys\<close>\<close>

fun fromkeys :: "'a list \<Rightarrow> 'a list" where
  "fromkeys [] = []"
| "fromkeys (x # xs) = x # filter (\<lambda>y. y \<noteq> x) (fromkeys xs)"

lemma set_fromkeys [simp]: "set (fromkeys xs) = set xs"
  by (induction xs) auto

lemma distinct_fromkeys [simp]: "distinct (fromkeys xs)"
  by (induction xs) auto

lemma fromkeys_distinct [simp]: "distinct xs \<Longrightarrow> fromkeys xs = xs"
proof (induction xs)
  case (Cons x xs)
  then have "fromkeys xs = xs" "x \<notin> set xs"
    by auto
  then show ?case
    by (auto simp: filter_id_conv)
qed simp

lemma length_fromkeys: "length (fromkeys xs) \<le> length xs"
proof (induction xs)
  case (Cons x xs)
  have "length (filter (\<lambda>y. y \<noteq> x) (fromkeys xs)) \<le> length (fromkeys xs)"
    by (rule length_filter_le)
  with Cons.IH have "length (filter (\<lambda>y. y \<noteq> x) (fromkeys xs)) \<le> length xs"
    by (rule le_trans [rotated])
  then show ?case by simp
qed simp

lemma fromkeys_snoc:
  "fromkeys (xs @ [y]) = (if y \<in> set xs then fromkeys xs else fromkeys xs @ [y])"
  by (induction xs) auto

lemma fromkeys_append_subset: "set ys \<subseteq> set xs \<Longrightarrow> fromkeys (xs @ ys) = fromkeys xs"
proof (induction ys rule: rev_induct)
  case (snoc y ys)
  then have "fromkeys ((xs @ ys) @ [y]) = fromkeys (xs @ ys)"
    unfolding fromkeys_snoc by auto
  with snoc show ?case by simp
qed simp

section \<open>Python strings\<close>

abbreviation chr_code :: "char \<Rightarrow> nat" where
  "chr_code c \<equiv> of_char c"

text \<open>\<open>str.isspace\<close> on Latin-1: tab to carriage return, the separators 28 to 31, space,
  next line and no-break space.\<close>

definition is_space :: "char \<Rightarrow> bool" where
  "is_space c \<longleftrightarrow> c \<in> {CHR 0x09, CHR 0x0A, CHR 0x0B, CHR 0x0C, CHR 0x0D, CHR 0x1C, CHR 0x1D,
     CHR 0x1E, CHR 0x1F, CHR '' '', CHR 0x85, CHR 0xA0}"

definition strip :: "string \<Rightarrow> string" where
  "strip s = rev (dropWhile is_space (rev (dropWhile is_space s)))"

text \<open>\<open>str.split()\<close> without a separator: the maximal runs of non-space characters.\<close>

fun words_acc :: "string \<Rightarrow> string \<Rightarrow> string list" where
  "words_acc acc [] = (if acc = [] then [] else [rev acc])"
| "words_acc acc (c # cs) =
     (if is_space c then (if acc = [] then words_acc [] cs else rev acc # words_acc [] cs)
      else words_acc (c # acc) cs)"

definition split_ws :: "string \<Rightarrow> string list" where
  "split_ws s = words_acc [] s"

fun join :: "string \<Rightarrow> string list \<Rightarrow> string" where
  "join sep [] = []"
| "join sep [x] = x"
| "join sep (x # y # ys) = x @ sep @ join sep (y # ys)"

text \<open>\<open>" ".join(s.split()).strip()\<close>, the sources' way to collapse white space.\<close>

definition collapse :: "string \<Rightarrow> string" where
  "collapse s = strip (join '' '' (split_ws s))"

text \<open>\<open>str.lower\<close>: ASCII capitals and the Latin-1 capitals other than the multiplication sign.\<close>

definition lower_char :: "char \<Rightarrow> char" where
  "lower_char c = (let n = chr_code c in
     if (65 \<le> n \<and> n \<le> 90) \<or> (192 \<le> n \<and> n \<le> 222 \<and> n \<noteq> 215) then char_of (n + 32) else c)"

definition lower :: "string \<Rightarrow> string" where
  "lower s = map lower_char s"

text \<open>\<open>str.upper\<close>: the sharp s becomes two letters, and the two characters whose upper case lies
outside the model's characters (micro sign, y with diaeresis) are left alone.\<close>

definition upper_char :: "char \<Rightarrow> string" where
  "upper_char c = (let n = chr_code c in
     if n = 223 then ''SS''
     else if (97 \<le> n \<and> n \<le> 122) \<or> (224 \<le> n \<and> n \<le> 254 \<and> n \<noteq> 247) then [char_of (n - 32)] else [c])"

definition upper :: "string \<Rightarrow> string" where
  "upper s = concat (map upper_char s)"

text \<open>The ASCII case folding of SQLite's \<open>LIKE\<close>.\<close>

definition ascii_upper_char :: "char \<Rightarrow> char" where
  "ascii_upper_char c = (let n = chr_code c in if 97 \<le> n \<and> n \<le> 122 then char_of (n - 32) else c)"

definition ascii_upper :: "string \<Rightarrow> string" where
  "ascii_upper s = map ascii_upper_char s"

fun starts_with :: "string \<Rightarrow> string \<Rightarrow> bool" where
  "starts_with s [] = True"
| "starts_with [] (p # ps) = False"
| "starts_with (c # cs) (p # ps) = (c = p \<and> starts_with cs ps)"

definition ends_with :: "string \<Rightarrow> string \<Rightarrow> bool" where
  "ends_with s t = starts_with (rev s) (rev t)"

fun contains :: "string \<Rightarrow> string \<Rightarrow> bool" where
  "contains p [] = (p = [])"
| "contains p (c # cs) = (starts_with (c # cs) p \<or> contains p cs)"

text \<open>\<open>s.split(sep)\<close> for a one-character separator.\<close>

fun split_on :: "char \<Rightarrow> string \<Rightarrow> string list" where
  "split_on d [] = [[]]"
| "split_on d (c # cs) =
     (if c = d then [] # split_on d cs
      else (case split_on d cs of [] \<Rightarrow> [[c]] | w # ws \<Rightarrow> (c # w) # ws))"

definition is_digit :: "char \<Rightarrow> bool" where
  "is_digit c \<longleftrightarrow> CHR ''0'' \<le> c \<and> c \<le> CHR ''9''"

definition is_lower :: "char \<Rightarrow> bool" where
  "is_lower c \<longleftrightarrow> CHR ''a'' \<le> c \<and> c \<le> CHR ''z''"

definition is_upper :: "char \<Rightarrow> bool" where
  "is_upper c \<longleftrightarrow> CHR ''A'' \<le> c \<and> c \<le> CHR ''Z''"

definition is_alnum :: "char \<Rightarrow> bool" where
  "is_alnum c \<longleftrightarrow> is_digit c \<or> is_lower c \<or> is_upper c"

text \<open>Full match of a pattern \<open>[first][rest]{lo,hi}\<close>.\<close>

definition ident_match :: "(char \<Rightarrow> bool) \<Rightarrow> (char \<Rightarrow> bool) \<Rightarrow> nat \<Rightarrow> nat \<Rightarrow> string \<Rightarrow> bool" where
  "ident_match first rest lo hi s =
     (case s of [] \<Rightarrow> False | c # cs \<Rightarrow> first c \<and> list_all rest cs \<and> lo \<le> length cs \<and> length cs \<le> hi)"

text \<open>Decimal digits of a natural number and \<open>str\<close> of an integer.\<close>

definition digit_char :: "nat \<Rightarrow> char" where
  "digit_char n = char_of (48 + n)"

fun show_nat :: "nat \<Rightarrow> string" where
  "show_nat n = (if n < 10 then [digit_char n] else show_nat (n div 10) @ [digit_char (n mod 10)])"

declare show_nat.simps [simp del]

definition show_int :: "int \<Rightarrow> string" where
  "show_int i = (if i < 0 then CHR ''-'' # show_nat (nat (- i)) else show_nat (nat i))"

subsection \<open>Facts on strings\<close>

lemma starts_with_iff: "starts_with s p \<longleftrightarrow> (\<exists>t. s = p @ t)"
  by (induction s p rule: starts_with.induct) auto

lemma starts_with_append [simp]: "starts_with (p @ t) p"
  by (auto simp: starts_with_iff)

lemma starts_with_trans: "starts_with a b \<Longrightarrow> starts_with b c \<Longrightarrow> starts_with a c"
  by (auto simp: starts_with_iff)

lemma ends_with_iff: "ends_with s t \<longleftrightarrow> (\<exists>u. s = u @ t)"
  unfolding ends_with_def starts_with_iff
  by (metis rev_append rev_rev_ident)

lemma strip_id:
  assumes "s = [] \<or> (\<not> is_space (hd s) \<and> \<not> is_space (last s))"
  shows "strip s = s"
proof (cases s)
  case (Cons c cs)
  with assms have "dropWhile is_space s = s" by auto
  moreover from Cons have "rev s \<noteq> []" "hd (rev s) = last s"
    by (auto simp: hd_rev)
  with assms Cons have "dropWhile is_space (rev s) = rev s"
    by (cases "rev s") auto
  ultimately show ?thesis by (simp add: strip_def)
qed (simp add: strip_def)

lemma strip_subset: "set (strip s) \<subseteq> set s"
  by (auto simp: strip_def dest!: set_dropWhileD)

lemma strip_ends: "strip s = [] \<or> (\<not> is_space (hd (strip s)) \<and> \<not> is_space (last (strip s)))"
proof (cases "strip s = []")
  case False
  define t where "t = dropWhile is_space s"
  have st: "strip s = rev (dropWhile is_space (rev t))"
    by (simp add: strip_def t_def)
  from False st have ne: "dropWhile is_space (rev t) \<noteq> []" by auto
  then have l: "\<not> is_space (last (strip s))"
    by (simp add: st last_rev hd_dropWhile)
  obtain u where u: "rev t = u @ dropWhile is_space (rev t)"
    by (metis takeWhile_dropWhile_id)
  then have "t = strip s @ rev u"
    by (metis rev_append rev_rev_ident st)
  with False have "hd t = hd (strip s)" "t \<noteq> []"
    by auto
  moreover from \<open>t \<noteq> []\<close> have "\<not> is_space (hd t)"
    unfolding t_def by (rule hd_dropWhile)
  ultimately show ?thesis using l by simp
qed simp

lemma strip_idem [simp]: "strip (strip s) = strip s"
  by (rule strip_id) (rule strip_ends)

lemma lower_char_idem [simp]: "lower_char (lower_char c) = lower_char c"
proof -
  have "\<forall>n < 256. (65 \<le> n \<and> n \<le> 90 \<or> 192 \<le> n \<and> n \<le> 222 \<and> n \<noteq> 215) \<longrightarrow>
      \<not> (65 \<le> n + 32 \<and> n + 32 \<le> 90 \<or> 192 \<le> n + 32 \<and> n + 32 \<le> (222::nat) \<and> n + 32 \<noteq> 215)
      \<and> n + 32 < 256"
    by auto
  then show ?thesis
    by (auto simp: lower_char_def Let_def)
qed

lemma lower_idem [simp]: "lower (lower s) = lower s"
  by (simp add: lower_def)

lemma length_lower [simp]: "length (lower s) = length s"
  by (simp add: lower_def)

lemma digit_char_simps [simp]:
  "digit_char 0 = CHR ''0''" "digit_char 1 = CHR ''1''" "digit_char 2 = CHR ''2''" "digit_char 3 = CHR ''3''"
  "digit_char 4 = CHR ''4''" "digit_char 5 = CHR ''5''" "digit_char 6 = CHR ''6''" "digit_char 7 = CHR ''7''"
  "digit_char 8 = CHR ''8''" "digit_char 9 = CHR ''9''"
  "digit_char (Suc 0) = CHR ''1''"
  by code_simp+

subsection \<open>White space is collapsed once\<close>

definition is_word :: "string \<Rightarrow> bool" where
  "is_word w \<longleftrightarrow> w \<noteq> [] \<and> (\<forall>c \<in> set w. \<not> is_space c)"

lemma words_acc_words:
  "\<forall>c \<in> set acc. \<not> is_space c \<Longrightarrow> w \<in> set (words_acc acc s) \<Longrightarrow> is_word w"
proof (induction acc s rule: words_acc.induct)
  case (1 acc)
  then show ?case by (simp add: is_word_def split: if_splits)
next
  case (2 acc c cs)
  show ?case
  proof (cases "is_space c")
    case True
    from 2(5) True have "acc \<noteq> [] \<and> w = rev acc \<or> w \<in> set (words_acc [] cs)"
      by (auto split: if_splits)
    with 2(1,2) [OF True] 2(4) show ?thesis
      by (cases "acc = []") (auto simp: is_word_def)
  next
    case False
    with 2(3) [OF False] 2(4) 2(5) show ?thesis by simp
  qed
qed

lemma split_ws_words: "w \<in> set (split_ws s) \<Longrightarrow> is_word w"
  unfolding split_ws_def by (rule words_acc_words [rotated]) auto

lemma words_acc_word: "\<forall>c \<in> set w. \<not> is_space c \<Longrightarrow> words_acc acc (w @ s) = words_acc (rev w @ acc) s"
  by (induction w arbitrary: acc) auto

lemma space_is_space [simp]: "is_space CHR '' ''"
  by (simp add: is_space_def)

lemma split_ws_join:
  assumes "\<forall>w \<in> set ws. is_word w"
  shows "split_ws (join '' '' ws) = ws"
  using assms
proof (induction "'' ''" ws rule: join.induct)
  case (2 x)
  then show ?case
    using words_acc_word [of x "[]" "[]"] by (simp add: split_ws_def is_word_def)
next
  case (3 x y ys)
  then have "words_acc [] (x @ CHR '' '' # join '' '' (y # ys)) = x # split_ws (join '' '' (y # ys))"
    using words_acc_word [of x "[]" "CHR '' '' # join '' '' (y # ys)"]
    by (simp add: split_ws_def is_word_def)
  with 3 show ?case by (simp add: split_ws_def)
qed (simp add: split_ws_def)

lemma join_words_ends:
  assumes "ws \<noteq> []" "\<forall>w \<in> set ws. is_word w"
  shows "join '' '' ws \<noteq> [] \<and> \<not> is_space (hd (join '' '' ws)) \<and> \<not> is_space (last (join '' '' ws))"
  using assms
proof (induction "'' ''" ws rule: join.induct)
  case (3 x y ys)
  then show ?case by (auto simp: is_word_def hd_append)
qed (auto simp: is_word_def)

lemma collapse_eq: "collapse s = join '' '' (split_ws s)"
proof -
  have "strip (join '' '' ws) = join '' '' ws" if "\<forall>w \<in> set ws. is_word w" for ws
    using join_words_ends [of ws] that by (cases "ws = []") (auto intro!: strip_id)
  then show ?thesis
    using split_ws_words by (simp add: collapse_def)
qed

lemma collapse_idem [simp]: "collapse (collapse s) = collapse s"
  using split_ws_words by (simp add: collapse_eq split_ws_join)

text \<open>No line break survives.\<close>

lemma set_join: "set (join sep ws) \<subseteq> set sep \<union> \<Union> (set ` set ws)"
  by (induction sep ws rule: join.induct) auto

lemma set_split_join: "c \<in> set (join '' '' (split_ws s)) \<Longrightarrow> is_space c \<Longrightarrow> c = CHR '' ''"
  using set_join [of "'' ''" "split_ws s"] split_ws_words [of _ s] by (auto simp: is_word_def)

text \<open>Splitting undoes joining when the separator does not occur.\<close>

lemma split_on_word: "d \<notin> set w \<Longrightarrow> split_on d w = [w]"
  by (induction w) auto

lemma split_on_nonempty [simp]: "split_on d s \<noteq> []"
  by (induction s) (auto split: list.splits)

lemma split_on_append: "d \<notin> set w \<Longrightarrow> split_on d (w @ d # s) = w # split_on d s"
  by (induction w) auto

lemma split_on_join:
  "ws \<noteq> [] \<Longrightarrow> \<forall>w \<in> set ws. d \<notin> set w \<Longrightarrow> split_on d (join [d] ws) = ws"
  by (induction "[d]" ws rule: join.induct) (auto simp: split_on_word split_on_append)

subsection \<open>Substrings, splitting and joining\<close>

lemma contains_iff: "contains p s \<longleftrightarrow> (\<exists>u w. s = u @ p @ w)"
proof (induction s)
  case (Cons c cs)
  have "contains p (c # cs) \<longleftrightarrow> (\<exists>w. c # cs = p @ w) \<or> (\<exists>u w. cs = u @ p @ w)"
    using Cons.IH by (simp add: starts_with_iff)
  also have "\<dots> \<longleftrightarrow> (\<exists>u w. c # cs = u @ p @ w)"
    by (metis append_Cons append_Nil list.exhaust list.inject)
  finally show ?case .
qed simp

lemma split_on_concat: "split_on d (a @ d # b) = split_on d a @ split_on d b"
  by (induction a) (auto split: list.splits)

lemma split_on_parts: "p \<in> set (split_on d s) \<Longrightarrow> d \<notin> set p"
proof (induction s arbitrary: p)
  case (Cons c cs)
  then show ?case by (cases "split_on d cs") (auto split: if_splits)
qed simp

lemma join_cons: "ws \<noteq> [] \<Longrightarrow> join sep (w # ws) = w @ sep @ join sep ws"
  by (cases ws) auto

lemma join_split_on: "join [d] (split_on d s) = s"
proof (induction s)
  case (Cons c cs)
  obtain w ws where s: "split_on d cs = w # ws" by (meson split_on_nonempty neq_Nil_conv)
  with Cons show ?case by (cases ws) auto
qed simp

lemma split_on_set: "p \<in> set (split_on d s) \<Longrightarrow> set p \<subseteq> set s"
proof (induction s arbitrary: p)
  case (Cons c cs)
  then show ?case by (cases "split_on d cs") (fastforce split: if_splits)+
qed simp

lemma length_join_filter: "length (join [d] (filter P ws)) \<le> length (join [d] ws)"
proof (induction ws)
  case (Cons w ws)
  show ?case
  proof (cases "filter P ws = []")
    case True
    then show ?thesis by (cases ws) auto
  next
    case False
    then have "ws \<noteq> []" by auto
    with False Cons show ?thesis by (simp add: join_cons)
  qed
qed simp

subsection \<open>Identifiers are their own normal form\<close>

lemma lower_char_id: "is_lower c \<or> is_digit c \<or> c = CHR ''_'' \<Longrightarrow> lower_char c = c"
  by (auto simp: is_lower_def is_digit_def lower_char_def Let_def less_eq_char_def)

lemma ident_not_space: "is_lower c \<or> is_digit c \<or> c = CHR ''_'' \<Longrightarrow> \<not> is_space c"
  by (auto simp: is_lower_def is_digit_def is_space_def)

lemma lower_strip_id:
  assumes "\<forall>c \<in> set s. is_lower c \<or> is_digit c \<or> c = CHR ''_''"
  shows "lower (strip s) = s"
proof -
  have "strip s = s"
    using assms ident_not_space by (intro strip_id) (metis hd_in_set last_in_set)
  moreover have "lower s = s"
    using assms lower_char_id by (simp add: lower_def map_idI)
  ultimately show ?thesis by simp
qed

end
