(* ===== verification/PyFloat.thy ===== *)
theory PyFloat
  imports Prelude
begin

text \<open>
  Python floats. A finite \<open>float\<close> is identified with the text \<open>repr\<close> prints for it (the
  shortest decimal that reads back as the same binary64 value), so JSON numbers with a fraction
  or an exponent are carried as that text. This theory computes the text from a decimal literal:
  rounding to 53 bits (half to even, with gradual underflow) and the search for the shortest
  decimal, as \<open>float(text)\<close> and \<open>repr\<close> do. Everything is exact integer arithmetic.
\<close>

text \<open>The number of bits of a natural number, and rounding of a quotient half to even.\<close>

fun bit_length :: "nat \<Rightarrow> nat" where
  "bit_length n = (if n = 0 then 0 else Suc (bit_length (n div 2)))"

declare bit_length.simps [simp del]

definition round_half_even :: "nat \<Rightarrow> nat \<Rightarrow> nat" where
  "round_half_even a b = (let q = a div b; r = a mod b in
     if 2 * r < b then q else if b < 2 * r then Suc q else if even q then q else Suc q)"

text \<open>Positive rationals are pairs of numerator and denominator.\<close>

type_synonym posrat = "nat \<times> nat"

definition rat_mult_pow :: "nat \<Rightarrow> int \<Rightarrow> posrat \<Rightarrow> posrat" where
  "rat_mult_pow b e x = (if 0 \<le> e then (fst x * b ^ nat e, snd x) else (fst x, snd x * b ^ nat (- e)))"

definition rat_eq :: "posrat \<Rightarrow> posrat \<Rightarrow> bool" where
  "rat_eq x y \<longleftrightarrow> fst x * snd y = fst y * snd x"

text \<open>The largest \<open>k\<close> with \<open>2 ^ k \<le> x\<close>.\<close>

definition floor_log2 :: "posrat \<Rightarrow> int" where
  "floor_log2 x = (let k = int (bit_length (fst x)) - int (bit_length (snd x));
       y = rat_mult_pow 2 (- k) x
     in if snd y \<le> fst y then k else k - 1)"

text \<open>Rounding to binary64: the value of the nearest double, as a rational.\<close>

definition round_double :: "posrat \<Rightarrow> posrat" where
  "round_double x = (if fst x = 0 then (0, 1) else
     (let q = max (floor_log2 x - 52) (- 1074); y = rat_mult_pow 2 (- q) x
      in rat_mult_pow 2 q (round_half_even (fst y) (snd y), 1)))"

definition double_overflow :: "posrat \<Rightarrow> bool" where
  "double_overflow x \<longleftrightarrow> snd x * 2 ^ 1024 \<le> fst x"

text \<open>The decimal exponent: the largest \<open>k\<close> with \<open>10 ^ k \<le> x\<close>, from an estimate below it.\<close>

fun log10_up :: "nat \<Rightarrow> int \<Rightarrow> posrat \<Rightarrow> int" where
  "log10_up 0 k x = k"
| "log10_up (Suc n) k x = (let y = rat_mult_pow 10 (- (k + 1)) x in
     if snd y \<le> fst y then log10_up n (k + 1) x else k)"

definition floor_log10 :: "posrat \<Rightarrow> int" where
  "floor_log10 x = log10_up 5 (floor_log2 x * 30103 div 100000 - 1) x"

text \<open>The shortest decimal \<open>d * 10 ^ e\<close> that rounds to the double \<open>x\<close>; 17 digits always do.\<close>

definition reads_back :: "posrat \<Rightarrow> nat \<Rightarrow> int \<Rightarrow> bool" where
  "reads_back x d e = rat_eq (round_double (rat_mult_pow 10 e (d, 1))) x"

fun shortest_from :: "nat \<Rightarrow> nat \<Rightarrow> int \<Rightarrow> posrat \<Rightarrow> nat \<times> int" where
  "shortest_from 0 n k x = (let e = k - 16; y = rat_mult_pow 10 (- e) x in (round_half_even (fst y) (snd y), e))"
| "shortest_from (Suc m) n k x =
     (let e = k + 1 - int n; y = rat_mult_pow 10 (- e) x; d = round_half_even (fst y) (snd y);
          lo = fst y div snd y
      in if reads_back x d e then (d, e)
         else if reads_back x lo e then (lo, e)
         else if reads_back x (Suc lo) e then (Suc lo, e)
         else shortest_from m (Suc n) k x)"

definition strip_zeros :: "string \<Rightarrow> string" where
  "strip_zeros ds = rev (dropWhile (\<lambda>c. c = CHR ''0'') (rev ds))"

definition two_digits :: "nat \<Rightarrow> string" where
  "two_digits n = (if n < 10 then CHR ''0'' # show_nat n else show_nat n)"

text \<open>\<open>repr\<close> of a positive double from its digits and the position of the decimal point.\<close>

definition format_repr :: "string \<Rightarrow> int \<Rightarrow> string" where
  "format_repr ds p = (
     if - 4 < p \<and> p \<le> 16 then
       (if p \<le> 0 then ''0.'' @ replicate (nat (- p)) (CHR ''0'') @ ds
        else if int (length ds) \<le> p then ds @ replicate (nat p - length ds) (CHR ''0'') @ ''.0''
        else take (nat p) ds @ ''.'' @ drop (nat p) ds)
     else
       (let e = p - 1; m = (case ds of [] \<Rightarrow> [] | [c] \<Rightarrow> [c] | c # cs \<Rightarrow> c # CHR ''.'' # cs)
        in m @ (if e < 0 then ''e-'' else ''e+'') @ two_digits (nat \<bar>e\<bar>)))"

definition repr_double :: "posrat \<Rightarrow> string" where
  "repr_double x = (if fst x = 0 then ''0.0'' else
     (let (d, e) = shortest_from 17 1 (floor_log10 x) x; ds = show_nat d
      in format_repr (strip_zeros ds) (int (length ds) + e)))"

text \<open>\<open>repr(float(lit))\<close> for a literal given by its sign, its digits read as one number and the
  power of ten they are scaled by.\<close>

definition float_repr :: "bool \<Rightarrow> nat \<Rightarrow> int \<Rightarrow> string" where
  "float_repr neg m e = (let x = round_double (rat_mult_pow 10 e (m, 1)) in
     (if neg then ''-'' else '''') @ (if double_overflow x then ''inf'' else repr_double x))"

end
