(* ===== verification/Sha256.thy ===== *)
theory Sha256
  imports "HOL-Library.Word"
begin

text \<open>
  The hash function behind every fingerprint of the runtime: \<open>hashlib.sha256(data).hexdigest()\<close>
  of Python's standard library, written out from FIPS 180-4. Bytes are values of type
  \<^typ>\<open>char\<close>; the message schedule is kept as a sliding window of sixteen words. The only
  facts the development needs are that a digest is always 64 lowercase hexadecimal digits; no
  collision resistance is claimed anywhere.
\<close>

unbundle bit_operations_syntax

type_synonym word32 = "32 word"
type_synonym sha_regs = "word32 \<times> word32 \<times> word32 \<times> word32 \<times> word32 \<times> word32 \<times> word32 \<times> word32"

text \<open>The round constants with the primes whose cube roots they are the fractional bits of.\<close>

definition sha_primes :: "(nat \<times> word32) list" where
  "sha_primes = [
    (2, 0x428a2f98), (3, 0x71374491), (5, 0xb5c0fbcf), (7, 0xe9b5dba5),
    (11, 0x3956c25b), (13, 0x59f111f1), (17, 0x923f82a4), (19, 0xab1c5ed5),
    (23, 0xd807aa98), (29, 0x12835b01), (31, 0x243185be), (37, 0x550c7dc3),
    (41, 0x72be5d74), (43, 0x80deb1fe), (47, 0x9bdc06a7), (53, 0xc19bf174),
    (59, 0xe49b69c1), (61, 0xefbe4786), (67, 0x0fc19dc6), (71, 0x240ca1cc),
    (73, 0x2de92c6f), (79, 0x4a7484aa), (83, 0x5cb0a9dc), (89, 0x76f988da),
    (97, 0x983e5152), (101, 0xa831c66d), (103, 0xb00327c8), (107, 0xbf597fc7),
    (109, 0xc6e00bf3), (113, 0xd5a79147), (127, 0x06ca6351), (131, 0x14292967),
    (137, 0x27b70a85), (139, 0x2e1b2138), (149, 0x4d2c6dfc), (151, 0x53380d13),
    (157, 0x650a7354), (163, 0x766a0abb), (167, 0x81c2c92e), (173, 0x92722c85),
    (179, 0xa2bfe8a1), (181, 0xa81a664b), (191, 0xc24b8b70), (193, 0xc76c51a3),
    (197, 0xd192e819), (199, 0xd6990624), (211, 0xf40e3585), (223, 0x106aa070),
    (227, 0x19a4c116), (229, 0x1e376c08), (233, 0x2748774c), (239, 0x34b0bcb5),
    (241, 0x391c0cb3), (251, 0x4ed8aa4a), (257, 0x5b9cca4f), (263, 0x682e6ff3),
    (269, 0x748f82ee), (271, 0x78a5636f), (277, 0x84c87814), (281, 0x8cc70208),
    (283, 0x90befffa), (293, 0xa4506ceb), (307, 0xbef9a3f7), (311, 0xc67178f2)]"

definition sha_K :: "word32 list" where
  "sha_K = map snd sha_primes"

definition sha_init :: sha_regs where
  "sha_init = (0x6a09e667, 0xbb67ae85, 0x3c6ef372, 0xa54ff53a, 0x510e527f, 0x9b05688c, 0x1f83d9ab, 0x5be0cd19)"

definition rotr :: "nat \<Rightarrow> word32 \<Rightarrow> word32" where
  "rotr n x = (drop_bit n x) OR (push_bit (32 - n) x)"

definition sha_next :: "word32 list \<Rightarrow> word32" where
  "sha_next w = (let a = w ! 1; b = w ! 14 in
     (rotr 17 b XOR rotr 19 b XOR drop_bit 10 b) + w ! 9
     + (rotr 7 a XOR rotr 18 a XOR drop_bit 3 a) + w ! 0)"

definition sha_step :: "word32 \<Rightarrow> word32 \<Rightarrow> sha_regs \<Rightarrow> sha_regs" where
  "sha_step k w r = (case r of (a, b, c, d, e, f, g, h) \<Rightarrow>
     let t1 = h + (rotr 6 e XOR rotr 11 e XOR rotr 25 e) + ((e AND f) XOR (NOT e AND g)) + k + w;
         t2 = (rotr 2 a XOR rotr 13 a XOR rotr 22 a) + ((a AND b) XOR (a AND c) XOR (b AND c))
     in (t1 + t2, a, b, c, d + t1, e, f, g))"

fun sha_rounds :: "word32 list \<Rightarrow> word32 list \<Rightarrow> sha_regs \<Rightarrow> sha_regs" where
  "sha_rounds [] ws r = r"
| "sha_rounds (k # ks) [] r = r"
| "sha_rounds (k # ks) (w # ws) r = sha_rounds ks (ws @ [sha_next (w # ws)]) (sha_step k w r)"

definition sha_add :: "sha_regs \<Rightarrow> sha_regs \<Rightarrow> sha_regs" where
  "sha_add r s = (case r of (a, b, c, d, e, f, g, h) \<Rightarrow> case s of (a', b', c', d', e', f', g', h') \<Rightarrow>
     (a + a', b + b', c + c', d + d', e + e', f + f', g + g', h + h'))"

fun be_words :: "char list \<Rightarrow> word32 list" where
  "be_words (a # b # c # d # r) =
     (push_bit 24 (of_char a) OR push_bit 16 (of_char b) OR push_bit 8 (of_char c) OR of_char d) # be_words r"
| "be_words _ = []"

fun sha_blocks :: "nat \<Rightarrow> word32 list \<Rightarrow> sha_regs \<Rightarrow> sha_regs" where
  "sha_blocks 0 ws r = r"
| "sha_blocks (Suc n) ws r = sha_blocks n (drop 16 ws) (sha_add r (sha_rounds sha_K (take 16 ws) r))"

definition be_bytes :: "nat \<Rightarrow> int \<Rightarrow> char list" where
  "be_bytes k n = map (\<lambda>i. char_of (drop_bit (8 * (k - Suc i)) n)) [0..<k]"

definition sha_pad :: "char list \<Rightarrow> char list" where
  "sha_pad m = m @ char_of (128::int) # replicate ((119 - length m mod 64) mod 64) (char_of (0::int))
     @ be_bytes 8 (8 * int (length m))"

definition hex_digit :: "nat \<Rightarrow> char" where
  "hex_digit n = ''0123456789abcdef'' ! n"

definition hex_word :: "word32 \<Rightarrow> string" where
  "hex_word w = map (\<lambda>i. hex_digit (unat (take_bit 4 (drop_bit (28 - 4 * i) w)))) [0..<8]"

definition sha256_hexdigest :: "char list \<Rightarrow> string" where
  "sha256_hexdigest m = (let p = sha_pad m in
     case sha_blocks (length p div 64) (be_words p) sha_init of (a, b, c, d, e, f, g, h) \<Rightarrow>
       concat (map hex_word [a, b, c, d, e, f, g, h]))"


subsection \<open>Every digest is 64 lowercase hexadecimal digits\<close>

definition is_hex :: "char \<Rightarrow> bool" where
  "is_hex c \<longleftrightarrow> c \<in> set ''0123456789abcdef''"

lemma hex_digit_is_hex: "n < 16 \<Longrightarrow> is_hex (hex_digit n)"
  unfolding is_hex_def hex_digit_def by (rule nth_mem) simp

lemma nibble_less: "unat (take_bit 4 (w :: word32)) < 16"
proof -
  have "unat (take_bit 4 w) = take_bit 4 (unat w)"
    by (simp add: unsigned_take_bit_eq)
  then show ?thesis
    by (simp add: take_bit_eq_mod)
qed

lemma length_hex_word: "length (hex_word w) = 8"
  by (simp add: hex_word_def)

lemma hex_word_is_hex: "list_all is_hex (hex_word w)"
  by (auto simp: hex_word_def list_all_iff intro: hex_digit_is_hex nibble_less)

lemma length_sha256_hexdigest [simp]: "length (sha256_hexdigest m) = 64"
  by (simp add: sha256_hexdigest_def Let_def length_hex_word split: prod.split)

lemma sha256_hexdigest_is_hex [simp]: "list_all is_hex (sha256_hexdigest m)"
  using hex_word_is_hex
  by (auto simp: sha256_hexdigest_def Let_def list_all_iff split: prod.split)

end
