(* ===== verification/Json.thy ===== *)
theory Json
  imports PyFloat Sha256 "HOL-Library.AList" "HOL-Library.Multiset"
begin

text \<open>
  JSON values as the Python objects \<open>json.loads\<close> builds, the canonical printer used for every
  fingerprint (\<open>json.dumps(x, ensure_ascii=False, sort_keys=True, separators=(",", ":"))\<close>), the
  parser, and \<open>sha256:\<close> digests of canonical texts. A dict is an association list in insertion
  order. The main result is that the parser reads back what the printer wrote, so canonical texts
  determine their payload up to the order of keys.
\<close>

datatype json =
    JNull | JBool bool | JInt int | JFloat string | JStr string
  | JList "json list" | JObj "(string \<times> json) list"

lemma size_json_member [termination_simp]:
  "(k, v) \<in> set kvs \<Longrightarrow> size v < Suc (size_list (size_prod (\<lambda>x. 0) size) kvs)"
  by (induction kvs) (auto simp: size_prod_def)

section \<open>Python's view of a value\<close>

fun truthy :: "json \<Rightarrow> bool" where
  "truthy JNull = False"
| "truthy (JBool b) = b"
| "truthy (JInt i) = (i \<noteq> 0)"
| "truthy (JFloat t) = (t \<noteq> ''0.0'' \<and> t \<noteq> ''-0.0'')"
| "truthy (JStr s) = (s \<noteq> [])"
| "truthy (JList xs) = (xs \<noteq> [])"
| "truthy (JObj kvs) = (kvs \<noteq> [])"

text \<open>\<open>d.get(key)\<close> and \<open>d.get(key, default)\<close> on a dict.\<close>

definition dict_get :: "(string \<times> json) list \<Rightarrow> string \<Rightarrow> json \<Rightarrow> json" where
  "dict_get d k dflt = (case map_of d k of None \<Rightarrow> dflt | Some v \<Rightarrow> v)"

text \<open>\<open>repr\<close> of a string: the quote is double only if the text has a single one and no double one.\<close>

definition hex2 :: "nat \<Rightarrow> string" where
  "hex2 n = [hex_digit (n div 16), hex_digit (n mod 16)]"

definition repr_char :: "char \<Rightarrow> char \<Rightarrow> string" where
  "repr_char q c = (
     if c = CHR 0x5C \<or> c = q then [CHR 0x5C, c]
     else if c = CHR 0x0A then [CHR 0x5C, CHR ''n'']
     else if c = CHR 0x0D then [CHR 0x5C, CHR ''r'']
     else if c = CHR 0x09 then [CHR 0x5C, CHR ''t'']
     else if chr_code c < 32 \<or> (127 \<le> chr_code c \<and> chr_code c \<le> 160) \<or> chr_code c = 173
       then [CHR 0x5C, CHR ''x''] @ hex2 (chr_code c)
     else [c])"

definition repr_str :: "string \<Rightarrow> string" where
  "repr_str s = (let q = (if CHR 0x27 \<in> set s \<and> CHR 0x22 \<notin> set s then CHR 0x22 else CHR 0x27)
     in q # concat (map (repr_char q) s) @ [q])"

fun py_repr :: "json \<Rightarrow> string" where
  "py_repr JNull = ''None''"
| "py_repr (JBool b) = (if b then ''True'' else ''False'')"
| "py_repr (JInt i) = show_int i"
| "py_repr (JFloat t) = t"
| "py_repr (JStr s) = repr_str s"
| "py_repr (JList xs) = ''['' @ join '', '' (map py_repr xs) @ '']''"
| "py_repr (JObj kvs) = ''{'' @ join '', '' (map (\<lambda>(k, v). repr_str k @ '': '' @ py_repr v) kvs) @ ''}''"

fun py_str :: "json \<Rightarrow> string" where
  "py_str (JStr s) = s"
| "py_str v = py_repr v"

text \<open>\<open>str(value or "")\<close>\<close>

definition str_or_empty :: "json \<Rightarrow> string" where
  "str_or_empty v = (if truthy v then py_str v else [])"

lemma str_or_empty_JStr [simp]: "str_or_empty (JStr s) = s"
  by (simp add: str_or_empty_def)

section \<open>Canonical texts and digests\<close>

definition escape_char :: "char \<Rightarrow> string" where
  "escape_char c = (
     if c = CHR 0x22 then [CHR 0x5C, CHR 0x22]
     else if c = CHR 0x5C then [CHR 0x5C, CHR 0x5C]
     else if c = CHR 0x0A then [CHR 0x5C, CHR ''n'']
     else if c = CHR 0x0D then [CHR 0x5C, CHR ''r'']
     else if c = CHR 0x09 then [CHR 0x5C, CHR ''t'']
     else if c = CHR 0x0C then [CHR 0x5C, CHR ''f'']
     else if c = CHR 0x08 then [CHR 0x5C, CHR ''b'']
     else if chr_code c < 32 then [CHR 0x5C, CHR ''u'', CHR ''0'', CHR ''0''] @ hex2 (chr_code c)
     else [c])"

definition dump_str :: "string \<Rightarrow> string" where
  "dump_str s = CHR 0x22 # concat (map escape_char s) @ [CHR 0x22]"

fun dumps :: "json \<Rightarrow> string" where
  "dumps JNull = ''null''"
| "dumps (JBool b) = (if b then ''true'' else ''false'')"
| "dumps (JInt i) = show_int i"
| "dumps (JFloat t) = t"
| "dumps (JStr s) = dump_str s"
| "dumps (JList xs) = ''['' @ join '','' (map dumps xs) @ '']''"
| "dumps (JObj kvs) =
     ''{'' @ join '','' (map (\<lambda>(k, v). dump_str k @ '':'' @ dumps v) (sort_key fst kvs)) @ ''}''"

definition utf8_char :: "char \<Rightarrow> char list" where
  "utf8_char c = (if chr_code c < 128 then [c]
     else [char_of (192 + chr_code c div 64), char_of (128 + chr_code c mod 64)])"

definition utf8 :: "string \<Rightarrow> char list" where
  "utf8 s = concat (map utf8_char s)"

definition sha256_ref :: "string \<Rightarrow> string" where
  "sha256_ref text = ''sha256:'' @ sha256_hexdigest (utf8 text)"

definition digest :: "json \<Rightarrow> string" where
  "digest payload = sha256_ref (dumps payload)"

text \<open>The pattern \<open>^sha256:[0-9a-f]{64}$\<close> that every fingerprint is checked against.\<close>

definition is_sha256_ref :: "string \<Rightarrow> bool" where
  "is_sha256_ref s \<longleftrightarrow>
     starts_with s ''sha256:'' \<and> length s = 71 \<and> list_all is_hex (drop 7 s)"

lemma is_sha256_ref_sha256_ref [simp]: "is_sha256_ref (sha256_ref t)"
  by (simp add: is_sha256_ref_def sha256_ref_def)

lemma is_sha256_ref_digest [simp]: "is_sha256_ref (digest p)"
  by (simp add: digest_def)

text \<open>\<open>digest.split(":", 1)[1][:24]\<close>, the identifier suffix built from a digest.\<close>

definition short_id :: "json \<Rightarrow> string" where
  "short_id p = take 24 (drop 7 (digest p))"

section \<open>The parser\<close>

definition json_space :: "char \<Rightarrow> bool" where
  "json_space c \<longleftrightarrow> c \<in> {CHR '' '', CHR 0x09, CHR 0x0A, CHR 0x0D}"

definition skip_ws :: "string \<Rightarrow> string" where
  "skip_ws s = dropWhile json_space s"

definition unescape :: "char \<Rightarrow> char option" where
  "unescape e = (
     if e = CHR 0x22 \<or> e = CHR 0x5C \<or> e = CHR ''/'' then Some e
     else if e = CHR ''b'' then Some (CHR 0x08) else if e = CHR ''f'' then Some (CHR 0x0C)
     else if e = CHR ''n'' then Some (CHR 0x0A) else if e = CHR ''r'' then Some (CHR 0x0D)
     else if e = CHR ''t'' then Some (CHR 0x09) else None)"

definition hex_val :: "char \<Rightarrow> nat option" where
  "hex_val c = (let n = chr_code c in
     if 48 \<le> n \<and> n \<le> 57 then Some (n - 48)
     else if 97 \<le> n \<and> n \<le> 102 then Some (n - 87)
     else if 65 \<le> n \<and> n \<le> 70 then Some (n - 55) else None)"

text \<open>A \<open>\u\<close> escape; code points above 255 are outside the modelled alphabet.\<close>

definition hex4 :: "string \<Rightarrow> char option" where
  "hex4 ds = (case map hex_val ds of
     [Some a, Some b, Some c, Some d] \<Rightarrow>
       (if a = 0 \<and> b = 0 then Some (char_of (16 * c + d)) else None)
   | _ \<Rightarrow> None)"

definition cons_fst :: "'a \<Rightarrow> ('a list \<times> 'b) option \<Rightarrow> ('a list \<times> 'b) option" where
  "cons_fst c r = map_option (\<lambda>(t, rest). (c # t, rest)) r"

text \<open>The body of a string literal, after its opening quote.\<close>

fun scan_string :: "string \<Rightarrow> (string \<times> string) option" where
  "scan_string [] = None"
| "scan_string (c # cs) = (
     if c = CHR 0x22 then Some ([], cs)
     else if c = CHR 0x5C then
       (case cs of [] \<Rightarrow> None
        | e # r \<Rightarrow>
            if e = CHR ''u'' then
              (case hex4 (take 4 r) of None \<Rightarrow> None | Some x \<Rightarrow> cons_fst x (scan_string (drop 4 r)))
            else (case unescape e of None \<Rightarrow> None | Some x \<Rightarrow> cons_fst x (scan_string r)))
     else if chr_code c < 32 then None
     else cons_fst c (scan_string cs))"

definition digit_val :: "char \<Rightarrow> nat" where
  "digit_val c = chr_code c - 48"

definition nat_of_digits :: "string \<Rightarrow> nat" where
  "nat_of_digits ds = foldl (\<lambda>n c. 10 * n + digit_val c) 0 ds"

text \<open>The number pattern \<open>(-?(?:0|[1-9]\d*))(\.\d+)?([eE][-+]?\d+)?\<close>.\<close>

definition int_part :: "string \<Rightarrow> (string \<times> string) option" where
  "int_part s = (case s of [] \<Rightarrow> None
     | c # cs \<Rightarrow> if c = CHR ''0'' then Some ([c], cs)
         else if is_digit c then Some (takeWhile is_digit s, dropWhile is_digit s) else None)"

definition frac_part :: "string \<Rightarrow> string \<times> string" where
  "frac_part s = (case s of c # d # r \<Rightarrow>
       if c = CHR ''.'' \<and> is_digit d then (takeWhile is_digit (d # r), dropWhile is_digit (d # r)) else ([], s)
     | _ \<Rightarrow> ([], s))"

definition exp_digits :: "bool \<Rightarrow> string \<Rightarrow> (int \<times> string) option" where
  "exp_digits neg s = (let ds = takeWhile is_digit s; e = int (nat_of_digits ds) in
     if ds = [] then None else Some (if neg then - e else e, dropWhile is_digit s))"

definition exp_part :: "string \<Rightarrow> (int \<times> string) option" where
  "exp_part s = (case s of [] \<Rightarrow> None
     | c # r \<Rightarrow> if c = CHR ''e'' \<or> c = CHR ''E'' then
           (case r of [] \<Rightarrow> None
            | d # r2 \<Rightarrow> if d = CHR ''+'' then exp_digits False r2
                else if d = CHR ''-'' then exp_digits True r2 else exp_digits False r)
         else None)"

definition parse_number :: "string \<Rightarrow> (json \<times> string) option" where
  "parse_number s = (let neg = starts_with s ''-''; s1 = (if neg then drop 1 s else s) in
     case int_part s1 of None \<Rightarrow> None
     | Some (ds, s2) \<Rightarrow>
        (case frac_part s2 of (fs, s3) \<Rightarrow>
          (case exp_part s3 of
             None \<Rightarrow> if fs = [] then Some (JInt (if neg then - int (nat_of_digits ds) else int (nat_of_digits ds)), s3)
               else Some (JFloat (float_repr neg (nat_of_digits (ds @ fs)) (- int (length fs))), s3)
           | Some (e, s4) \<Rightarrow>
               Some (JFloat (float_repr neg (nat_of_digits (ds @ fs)) (e - int (length fs))), s4))))"

text \<open>A dict from pairs: the position of the first occurrence, the value of the last.\<close>

definition dict_of :: "(string \<times> json) list \<Rightarrow> (string \<times> json) list" where
  "dict_of ps = fold (\<lambda>(k, v) d. AList.update k v d) ps []"

fun parse_value :: "nat \<Rightarrow> string \<Rightarrow> (json \<times> string) option"
and parse_items :: "nat \<Rightarrow> string \<Rightarrow> (json list \<times> string) option"
and parse_members :: "nat \<Rightarrow> string \<Rightarrow> ((string \<times> json) list \<times> string) option" where
  "parse_value 0 s = None"
| "parse_value (Suc n) s = (case s of [] \<Rightarrow> None
     | c # cs \<Rightarrow>
         if c = CHR 0x22 then map_option (\<lambda>(t, r). (JStr t, r)) (scan_string cs)
         else if c = CHR ''['' then
           (if starts_with (skip_ws cs) '']'' then Some (JList [], drop 1 (skip_ws cs))
            else map_option (\<lambda>(vs, r). (JList vs, r)) (parse_items n (skip_ws cs)))
         else if c = CHR ''{'' then
           (if starts_with (skip_ws cs) ''}'' then Some (JObj [], drop 1 (skip_ws cs))
            else map_option (\<lambda>(ps, r). (JObj (dict_of ps), r)) (parse_members n (skip_ws cs)))
         else if starts_with s ''null'' then Some (JNull, drop 4 s)
         else if starts_with s ''true'' then Some (JBool True, drop 4 s)
         else if starts_with s ''false'' then Some (JBool False, drop 5 s)
         else (case parse_number s of Some r \<Rightarrow> Some r
           | None \<Rightarrow>
              if starts_with s ''NaN'' then Some (JFloat ''nan'', drop 3 s)
              else if starts_with s ''Infinity'' then Some (JFloat ''inf'', drop 8 s)
              else if starts_with s ''-Infinity'' then Some (JFloat ''-inf'', drop 9 s)
              else None))"
| "parse_items 0 s = None"
| "parse_items (Suc n) s = (case parse_value n s of None \<Rightarrow> None
     | Some (v, r) \<Rightarrow> (case skip_ws r of [] \<Rightarrow> None
         | d # r2 \<Rightarrow> if d = CHR '']'' then Some ([v], r2)
             else if d = CHR '','' then cons_fst v (parse_items n (skip_ws r2))
             else None))"
| "parse_members 0 s = None"
| "parse_members (Suc n) s = (case s of [] \<Rightarrow> None
     | q # s1 \<Rightarrow> if q \<noteq> CHR 0x22 then None else
        (case scan_string s1 of None \<Rightarrow> None
         | Some (k, r1) \<Rightarrow> (case skip_ws r1 of [] \<Rightarrow> None
            | c # r2 \<Rightarrow> if c \<noteq> CHR '':'' then None else
               (case parse_value n (skip_ws r2) of None \<Rightarrow> None
                | Some (v, r3) \<Rightarrow> (case skip_ws r3 of [] \<Rightarrow> None
                   | d # r4 \<Rightarrow> if d = CHR ''}'' then Some ([(k, v)], r4)
                       else if d = CHR '','' then cons_fst (k, v) (parse_members n (skip_ws r4))
                       else None)))))"

text \<open>\<open>json.loads(text)\<close>; \<open>None\<close> is \<open>json.JSONDecodeError\<close>. Two units of fuel per character are
  enough: every second call consumes one.\<close>

definition loads :: "string \<Rightarrow> json option" where
  "loads s = (case parse_value (2 * length s + 2) (skip_ws s) of None \<Rightarrow> None
     | Some (v, r) \<Rightarrow> if skip_ws r = [] then Some v else None)"

section \<open>The parser reads back canonical texts\<close>

text \<open>A float text that reads back as itself, which every \<open>repr\<close> of a finite float does.\<close>

definition float_ok :: "string \<Rightarrow> bool" where
  "float_ok t \<longleftrightarrow> parse_number t = Some (JFloat t, [])"

text \<open>Payloads with stable floats and distinct keys; the value read back has its keys sorted.\<close>

fun plain_json :: "json \<Rightarrow> bool" where
  "plain_json (JFloat t) = float_ok t"
| "plain_json (JList xs) = list_all plain_json xs"
| "plain_json (JObj kvs) = (distinct (map fst kvs) \<and> list_all (\<lambda>(k, v). plain_json v) kvs)"
| "plain_json _ = True"

fun norm_json :: "json \<Rightarrow> json" where
  "norm_json (JList xs) = JList (map norm_json xs)"
| "norm_json (JObj kvs) = JObj (map (\<lambda>(k, v). (k, norm_json v)) (sort_key fst kvs))"
| "norm_json j = j"

subsection \<open>Strings\<close>

lemma hex_val_hex_digit: "n < 16 \<Longrightarrow> hex_val (hex_digit n) = Some n"
proof -
  have "\<forall>n \<in> set [0..<16]. hex_val (hex_digit n) = Some n"
    by code_simp
  then show "n < 16 \<Longrightarrow> hex_val (hex_digit n) = Some n" by auto
qed

lemma hex4_hex2:
  assumes "chr_code c < 32"
  shows "hex4 (CHR ''0'' # CHR ''0'' # hex2 (chr_code c)) = Some c"
proof -
  have z: "hex_val (CHR ''0'') = Some 0" by code_simp
  from assms have "chr_code c div 16 < 16" by simp
  then show ?thesis
    by (simp add: hex4_def hex2_def z hex_val_hex_digit)
qed

lemma unescape_simps [simp]:
  "unescape (CHR 0x22) = Some (CHR 0x22)" "unescape (CHR 0x5C) = Some (CHR 0x5C)"
  "unescape (CHR ''n'') = Some (CHR 0x0A)" "unescape (CHR ''r'') = Some (CHR 0x0D)"
  "unescape (CHR ''t'') = Some (CHR 0x09)" "unescape (CHR ''f'') = Some (CHR 0x0C)"
  "unescape (CHR ''b'') = Some (CHR 0x08)"
  by (simp_all add: unescape_def)

lemma scan_string_escape: "scan_string (escape_char c @ t) = cons_fst c (scan_string t)"
  using hex4_hex2 [of c]
  by (auto simp: escape_char_def hex2_def)

lemma scan_string_dump:
  "scan_string (concat (map escape_char s) @ CHR 0x22 # r) = Some (s, r)"
proof (induction s)
  case (Cons c s)
  have "scan_string (concat (map escape_char (c # s)) @ CHR 0x22 # r)
      = cons_fst c (scan_string (concat (map escape_char s) @ CHR 0x22 # r))"
    by (simp add: scan_string_escape)
  with Cons.IH show ?case by (simp add: cons_fst_def)
qed simp

subsection \<open>Numbers\<close>

lemma digit_char_props:
  assumes "n < 10"
  shows "is_digit (digit_char n)" "digit_val (digit_char n) = n"
    "digit_char n = CHR ''0'' \<longleftrightarrow> n = 0"
proof -
  have "\<forall>n \<in> set [0..<10]. is_digit (digit_char n) \<and> digit_val (digit_char n) = n
      \<and> (digit_char n = CHR ''0'' \<longleftrightarrow> n = 0)"
    by code_simp
  with assms show "is_digit (digit_char n)" "digit_val (digit_char n) = n"
    "digit_char n = CHR ''0'' \<longleftrightarrow> n = 0"
    by auto
qed

lemma show_nat_digits: "list_all is_digit (show_nat n)"
proof (induction n rule: show_nat.induct)
  case (1 n)
  then show ?case
    by (subst show_nat.simps) (auto simp: digit_char_props)
qed

lemma show_nat_nonempty: "show_nat n \<noteq> []"
  by (subst show_nat.simps) simp

lemma show_nat_hd: "hd (show_nat n) = CHR ''0'' \<longleftrightarrow> n = 0"
proof (induction n rule: show_nat.induct)
  case (1 n)
  show ?case
  proof (cases "n < 10")
    case True
    then show ?thesis by (subst show_nat.simps) (simp add: digit_char_props)
  next
    case False
    with "1.IH" have "hd (show_nat (n div 10)) = CHR ''0'' \<longleftrightarrow> n div 10 = 0" by simp
    with False show ?thesis
      by (subst show_nat.simps) (simp add: show_nat_nonempty)
  qed
qed

lemma show_nat_0: "show_nat 0 = ''0''"
  by (subst show_nat.simps) (simp add: digit_char_props)

lemma nat_of_digits_snoc: "nat_of_digits (ds @ [c]) = 10 * nat_of_digits ds + digit_val c"
  by (simp add: nat_of_digits_def)

lemma nat_of_digits_show_nat: "nat_of_digits (show_nat n) = n"
proof (induction n rule: show_nat.induct)
  case (1 n)
  show ?case
  proof (cases "n < 10")
    case True
    then show ?thesis
      by (subst show_nat.simps) (simp add: digit_char_props nat_of_digits_def)
  next
    case False
    with "1.IH" show ?thesis
      by (subst show_nat.simps) (simp add: nat_of_digits_snoc digit_char_props)
  qed
qed

text \<open>What may follow a printed value: the end, a comma or a closing bracket.\<close>

definition stops :: "string \<Rightarrow> bool" where
  "stops r \<longleftrightarrow> r = [] \<or> hd r \<in> {CHR '','', CHR '']'', CHR ''}''}"

lemma stops_simps [simp]:
  "stops []" "stops (CHR '','' # r)" "stops (CHR '']'' # r)" "stops (CHR ''}'' # r)"
  by (simp_all add: stops_def)

lemma stops_takeWhile:
  assumes "stops r" "list_all is_digit ds"
  shows "takeWhile is_digit (ds @ r) = ds" "dropWhile is_digit (ds @ r) = r"
proof -
  from assms(1) have "takeWhile is_digit r = []" "dropWhile is_digit r = r"
    by (cases r; auto simp: stops_def is_digit_def)+
  moreover from assms(2) have "\<forall>c \<in> set ds. is_digit c" by (simp add: list_all_iff)
  ultimately show "takeWhile is_digit (ds @ r) = ds" "dropWhile is_digit (ds @ r) = r"
    by (simp_all add: takeWhile_append dropWhile_append)
qed

lemma int_part_show_nat:
  assumes "stops r"
  shows "int_part (show_nat n @ r) = Some (show_nat n, r)"
proof (cases "n = 0")
  case True
  then show ?thesis by (simp add: show_nat_0 int_part_def)
next
  case False
  obtain c cs where sn: "show_nat n = c # cs"
    using show_nat_nonempty by (cases "show_nat n") auto
  with False show_nat_hd [of n] have "c \<noteq> CHR ''0''" by simp
  moreover from sn show_nat_digits [of n] have "is_digit c" by simp
  ultimately show ?thesis
    using stops_takeWhile [OF assms show_nat_digits, of n] sn
    by (simp add: int_part_def)
qed

lemma parse_number_show_int:
  assumes "stops r"
  shows "parse_number (show_int i @ r) = Some (JInt i, r)"
proof -
  from assms have f: "frac_part r = ([], r)" and e: "exp_part r = None"
    by (auto simp: stops_def frac_part_def exp_part_def split: list.split)
  have nm: "\<not> starts_with (show_nat n @ r) ''-''" for n
  proof -
    obtain c cs where "show_nat n = c # cs"
      using show_nat_nonempty by (cases "show_nat n") auto
    with show_nat_digits [of n] show ?thesis
      by (auto simp: is_digit_def)
  qed
  show ?thesis
    using int_part_show_nat [OF assms] nm f e
    by (auto simp: parse_number_def show_int_def Let_def nat_of_digits_show_nat)
qed

text \<open>Reading a number is not influenced by what follows it, if that stops a number.\<close>

lemma digits_stop:
  assumes "stops r"
  shows "takeWhile is_digit (s @ r) = takeWhile is_digit s" "dropWhile is_digit (s @ r) = dropWhile is_digit s @ r"
proof -
  from assms have "takeWhile is_digit r = []" "dropWhile is_digit r = r"
    by (cases r; auto simp: stops_def is_digit_def)+
  then show "takeWhile is_digit (s @ r) = takeWhile is_digit s" "dropWhile is_digit (s @ r) = dropWhile is_digit s @ r"
    by (induction s) auto
qed

lemma stops_hd: "stops (c # r) \<Longrightarrow> \<not> is_digit c \<and> c \<notin> {CHR ''.'', CHR ''e'', CHR ''E'', CHR ''+'', CHR ''-''}"
  by (auto simp: stops_def is_digit_def)

lemma int_part_stop: "stops r \<Longrightarrow> int_part (s @ r) = map_option (\<lambda>(d, u). (d, u @ r)) (int_part s)"
  using digits_stop [of r s]
  by (cases s; cases r) (auto simp: int_part_def stops_def is_digit_def)

lemma frac_part_stop: "stops r \<Longrightarrow> frac_part (s @ r) = (fst (frac_part s), snd (frac_part s) @ r)"
proof (cases s)
  case Nil
  then show "stops r \<Longrightarrow> ?thesis" using stops_hd by (auto simp: frac_part_def split: list.split)
next
  case (Cons c cs)
  assume r: "stops r"
  show ?thesis
  proof (cases cs)
    case Nil
    with Cons r show ?thesis using stops_hd by (auto simp: frac_part_def split: list.split)
  next
    case (Cons d ds)
    with \<open>s = c # cs\<close> digits_stop [OF r, of cs] show ?thesis by (auto simp: frac_part_def)
  qed
qed

lemma exp_digits_stop: "stops r \<Longrightarrow> exp_digits n (s @ r) = map_option (\<lambda>(d, u). (d, u @ r)) (exp_digits n s)"
  by (auto simp: exp_digits_def digits_stop Let_def)

lemma exp_part_stop: "stops r \<Longrightarrow> exp_part (s @ r) = map_option (\<lambda>(d, u). (d, u @ r)) (exp_part s)"
proof (cases s)
  case Nil
  then show "stops r \<Longrightarrow> ?thesis" using stops_hd by (auto simp: exp_part_def split: list.split)
next
  case (Cons c cs)
  assume r: "stops r"
  have er: "exp_digits n r = None" for n
    using digits_stop [OF r, of "[]"] by (simp add: exp_digits_def)
  have [simp]: "exp_digits n (d # ds @ r) = map_option (\<lambda>(d, u). (d, u @ r)) (exp_digits n (d # ds))" for n d ds
    using exp_digits_stop [OF r, of n "d # ds"] by simp
  show ?thesis
  proof (cases cs)
    case Nil
    with Cons show ?thesis using stops_hd r er by (cases r) (auto simp: exp_part_def)
  next
    case (Cons d ds)
    with \<open>s = c # cs\<close> r show ?thesis by (simp add: exp_part_def exp_digits_stop)
  qed
qed

lemma parse_number_stop:
  assumes "stops r" "parse_number t = Some (v, u)"
  shows "parse_number (t @ r) = Some (v, u @ r)"
proof -
  from assms(2) have "t \<noteq> []" by (auto simp: parse_number_def int_part_def)
  then have neg: "starts_with (t @ r) ''-'' = starts_with t ''-''" "drop 1 (t @ r) = drop 1 t @ r"
    by (cases t; auto)+
  show ?thesis
    using assms(2) unfolding parse_number_def neg
    by (auto simp: int_part_stop [OF assms(1)] frac_part_stop [OF assms(1)] exp_part_stop [OF assms(1)] Let_def
        split: option.splits prod.splits if_splits)
qed

lemma parse_number_hd: "parse_number t = Some x \<Longrightarrow> t \<noteq> [] \<and> (is_digit (hd t) \<or> hd t = CHR ''-'')"
  by (cases t) (auto simp: parse_number_def int_part_def Let_def is_digit_def split: if_splits option.splits)

subsection \<open>Values\<close>

lemma dict_of_distinct: "distinct (map fst ps) \<Longrightarrow> dict_of ps = ps"
proof -
  have upd: "k \<notin> fst ` set d \<Longrightarrow> AList.update k v d = d @ [(k, v)]" for k :: string and v :: json and d
    by (induction d) auto
  have "distinct (map fst (d @ ps)) \<Longrightarrow> fold (\<lambda>(k, v) d. AList.update k v d) ps d = d @ ps" for d
    by (induction ps arbitrary: d) (auto simp: upd)
  from this [of "[]"] show "distinct (map fst ps) \<Longrightarrow> dict_of ps = ps"
    by (simp add: dict_of_def)
qed

lemma dumps_hd:
  assumes "plain_json j"
  shows "dumps j \<noteq> []" "\<not> json_space (hd (dumps j))"
    "hd (dumps j) \<noteq> CHR '']''" "hd (dumps j) \<noteq> CHR ''}''"
proof -
  have d: "show_nat n \<noteq> [] \<and> is_digit (hd (show_nat n))" for n
    using show_nat_nonempty [of n] show_nat_digits [of n] by (cases "show_nat n") auto
  have "dumps j \<noteq> [] \<and> \<not> json_space (hd (dumps j)) \<and> hd (dumps j) \<noteq> CHR '']''
      \<and> hd (dumps j) \<noteq> CHR ''}''"
  proof (cases j)
    case (JInt i)
    with d [of "nat i"] show ?thesis
      by (auto simp: show_int_def json_space_def is_digit_def)
  next
    case (JFloat t)
    with assms parse_number_hd [of t] show ?thesis
      by (auto simp: float_ok_def json_space_def is_digit_def)
  qed (use assms in \<open>auto simp: json_space_def dump_str_def\<close>)
  then show "dumps j \<noteq> []" "\<not> json_space (hd (dumps j))"
    "hd (dumps j) \<noteq> CHR '']''" "hd (dumps j) \<noteq> CHR ''}''"
    by auto
qed

lemma skip_ws_hd: "s \<noteq> [] \<Longrightarrow> \<not> json_space (hd s) \<Longrightarrow> skip_ws s = s"
  by (cases s) (auto simp: skip_ws_def)

lemma skip_ws_dumps: "plain_json j \<Longrightarrow> skip_ws (dumps j @ r) = dumps j @ r"
  using dumps_hd [of j] by (intro skip_ws_hd) auto

lemma skip_ws_stop [simp]:
  "skip_ws (CHR '','' # r) = CHR '','' # r" "skip_ws (CHR '']'' # r) = CHR '']'' # r"
  "skip_ws (CHR ''}'' # r) = CHR ''}'' # r" "skip_ws (CHR '':'' # r) = CHR '':'' # r"
  "skip_ws (CHR 0x22 # r) = CHR 0x22 # r" "skip_ws [] = []"
  by (simp_all add: skip_ws_def json_space_def)

text \<open>What the induction hypothesis says of an element, with the fuel it needs.\<close>

definition reads :: "json \<Rightarrow> bool" where
  "reads j \<longleftrightarrow> (\<forall>n r. stops r \<longrightarrow> 2 * length (dumps j) \<le> n \<longrightarrow>
     parse_value n (dumps j @ r) = Some (norm_json j, r))"

lemma readsD:
  "reads j \<Longrightarrow> stops r \<Longrightarrow> 2 * length (dumps j) \<le> n \<Longrightarrow>
   parse_value n (dumps j @ r) = Some (norm_json j, r)"
  by (simp add: reads_def)

lemma parse_items_dumps:
  assumes "xs \<noteq> []" "\<forall>x \<in> set xs. plain_json x \<and> reads x"
    and "2 * length (join '','' (map dumps xs)) + 1 \<le> n"
  shows "parse_items n (join '','' (map dumps xs) @ CHR '']'' # r) = Some (map norm_json xs, r)"
  using assms
proof (induction xs arbitrary: n rule: list_nonempty_induct)
  case (single x)
  then obtain m where "n = Suc m" "2 * length (dumps x) \<le> m" by (cases n) auto
  with single show ?case by (simp add: readsD)
next
  case (cons x xs)
  then obtain y ys where xs: "xs = y # ys" by (cases xs) auto
  define rest where "rest = join '','' (map dumps xs) @ CHR '']'' # r"
  from cons.prems xs obtain m where m: "n = Suc m" "2 * length (dumps x) \<le> m"
    "2 * length (join '','' (map dumps xs)) + 1 \<le> m" by (cases n) auto
  have tx: "join '','' (map dumps (x # xs)) @ CHR '']'' # r = dumps x @ CHR '','' # rest"
    by (simp add: xs rest_def)
  have "skip_ws rest = rest"
    using cons.prems(1) xs skip_ws_dumps [of y]
    by (cases ys) (auto simp: rest_def)
  moreover have "parse_items m rest = Some (map norm_json xs, r)"
    unfolding rest_def using cons m by auto
  moreover have "parse_value m (dumps x @ CHR '','' # rest) = Some (norm_json x, CHR '','' # rest)"
    using cons.prems m by (intro readsD) auto
  ultimately show ?case
    unfolding tx m(1) by (simp add: cons_fst_def)
qed

abbreviation dump_member :: "string \<times> json \<Rightarrow> string" where
  "dump_member kv \<equiv> (case kv of (k, v) \<Rightarrow> dump_str k @ '':'' @ dumps v)"

lemma parse_members_step:
  assumes "plain_json v" "reads v" "stops t" "2 * length (dumps v) \<le> n"
  shows "parse_members (Suc n) (dump_member (k, v) @ t) =
    (case skip_ws t of [] \<Rightarrow> None
     | d # u \<Rightarrow> if d = CHR ''}'' then Some ([(k, norm_json v)], u)
         else if d = CHR '','' then cons_fst (k, norm_json v) (parse_members n (skip_ws u))
         else None)"
  using assms
  by (simp add: dump_str_def scan_string_dump skip_ws_dumps readsD)

lemma parse_members_dumps:
  assumes "kvs \<noteq> []" "\<forall>(k, v) \<in> set kvs. plain_json v \<and> reads v"
    and "2 * length (join '','' (map dump_member kvs)) + 1 \<le> n"
  shows "parse_members n (join '','' (map dump_member kvs) @ CHR ''}'' # r)
    = Some (map (\<lambda>(k, v). (k, norm_json v)) kvs, r)"
  using assms
proof (induction kvs arbitrary: n rule: list_nonempty_induct)
  case (single x)
  obtain k v where x: "x = (k, v)" by (cases x)
  with single obtain m where "n = Suc m" "2 * length (dumps v) \<le> m" by (cases n) auto
  with single x show ?case using parse_members_step [of v "CHR ''}'' # r" m k] by simp
next
  case (cons x kvs)
  obtain k v where x: "x = (k, v)" by (cases x)
  from cons obtain y ys where kvs: "kvs = y # ys" by (cases kvs) auto
  define rest where "rest = join '','' (map dump_member kvs) @ CHR ''}'' # r"
  from cons.prems kvs x obtain m where m: "n = Suc m" "2 * length (dumps v) \<le> m"
    "2 * length (join '','' (map dump_member kvs)) + 1 \<le> m" by (cases n) auto
  have tx: "join '','' (map dump_member (x # kvs)) @ CHR ''}'' # r
      = dump_member (k, v) @ CHR '','' # rest"
    by (simp add: kvs rest_def x)
  have "skip_ws rest = rest"
    by (cases y; cases ys) (auto simp: rest_def kvs dump_str_def)
  moreover have "parse_members m rest = Some (map (\<lambda>(k, v). (k, norm_json v)) kvs, r)"
    unfolding rest_def using cons m by auto
  ultimately show ?case
    using parse_members_step [of v "CHR '','' # rest" m k] cons.prems x m
    unfolding tx m(1) by (simp add: cons_fst_def)
qed

lemma parse_value_reads: "plain_json j \<Longrightarrow> reads j"
proof (induction j rule: dumps.induct)
  case (3 i)
  show ?case unfolding reads_def
  proof (intro allI impI)
    fix n r assume "stops r" "2 * length (dumps (JInt i)) \<le> n"
    moreover from dumps_hd [of "JInt i"] obtain c cs where c: "show_int i = c # cs"
      by (cases "show_int i") auto
    ultimately obtain m where "n = Suc m" by (cases n) auto
    moreover have "is_digit c \<or> c = CHR ''-''"
      using c show_nat_digits [of "nat i"] by (auto simp: show_int_def split: if_splits)
    then have "c \<notin> {CHR 0x22, CHR ''['', CHR ''{'', CHR ''n'', CHR ''t'', CHR ''f''}"
      by (auto simp: is_digit_def)
    ultimately show "parse_value n (dumps (JInt i) @ r) = Some (norm_json (JInt i), r)"
      using parse_number_show_int [OF \<open>stops r\<close>, of i] c
      by simp
  qed
next
  case (4 t)
  then have t: "parse_number t = Some (JFloat t, [])" by (simp add: float_ok_def)
  show ?case unfolding reads_def
  proof (intro allI impI)
    fix n r assume r: "stops r" "2 * length (dumps (JFloat t)) \<le> n"
    from parse_number_hd [OF t] obtain c cs where c: "t = c # cs" "is_digit c \<or> c = CHR ''-''"
      by (cases t) auto
    with r obtain m where "n = Suc m" by (cases n) auto
    moreover from c(2) have "c \<notin> {CHR 0x22, CHR ''['', CHR ''{'', CHR ''n'', CHR ''t'', CHR ''f''}"
      by (auto simp: is_digit_def)
    ultimately show "parse_value n (dumps (JFloat t) @ r) = Some (norm_json (JFloat t), r)"
      using parse_number_stop [OF r(1) t] c(1) by simp
  qed
next
  case (5 s)
  show ?case unfolding reads_def
  proof (intro allI impI)
    fix n r assume "2 * length (dumps (JStr s)) \<le> n"
    then obtain m where "n = Suc m" by (cases n) (auto simp: dump_str_def)
    then show "parse_value n (dumps (JStr s) @ r) = Some (norm_json (JStr s), r)"
      by (simp add: dump_str_def scan_string_dump)
  qed
next
  case (6 xs)
  then have IH: "\<forall>x \<in> set xs. plain_json x \<and> reads x"
    by (auto simp: list_all_iff)
  show ?case unfolding reads_def
  proof (intro allI impI)
    fix n r assume n: "2 * length (dumps (JList xs)) \<le> n"
    then obtain m where m: "n = Suc m" "2 * length (join '','' (map dumps xs)) + 1 \<le> m"
      by (cases n) auto
    show "parse_value n (dumps (JList xs) @ r) = Some (norm_json (JList xs), r)"
    proof (cases xs)
      case (Cons y ys)
      with IH have y: "plain_json y" by simp
      let ?s = "join '','' (map dumps xs) @ CHR '']'' # r"
      have "?s \<noteq> [] \<and> hd ?s = hd (dumps y)"
        using dumps_hd(1) [OF y] Cons by (cases ys) auto
      then have "skip_ws ?s = ?s" "\<not> starts_with ?s '']''"
        using dumps_hd [OF y] by (auto intro: skip_ws_hd simp: starts_with_iff)
      then show ?thesis
        using parse_items_dumps [OF _ IH m(2)] Cons m(1) by simp
    qed (simp add: m(1))
  qed
next
  case (7 kvs)
  then have IH: "\<forall>(k, v) \<in> set (sort_key fst kvs). plain_json v \<and> reads v"
    by (fastforce simp: list_all_iff)
  have dist: "distinct (map fst (map (\<lambda>(k, v). (k, norm_json v)) (sort_key fst kvs)))"
  proof -
    have "mset (map fst (sort_key fst kvs)) = mset (map fst kvs)"
      by simp
    moreover from "7.prems" have "distinct (map fst kvs)" by simp
    ultimately have "distinct (map fst (sort_key fst kvs))"
      by (metis mset_eq_imp_distinct_iff)
    then show ?thesis by (simp add: case_prod_beta' comp_def)
  qed
  show ?case unfolding reads_def
  proof (intro allI impI)
    fix n r assume n: "2 * length (dumps (JObj kvs)) \<le> n"
    let ?sk = "sort_key fst kvs"
    from n obtain m where m: "n = Suc m" "2 * length (join '','' (map dump_member ?sk)) + 1 \<le> m"
      by (cases n) auto
    show "parse_value n (dumps (JObj kvs) @ r) = Some (norm_json (JObj kvs), r)"
    proof (cases ?sk)
      case Nil
      then show ?thesis by (simp add: m(1))
    next
      case (Cons y ys)
      let ?s = "join '','' (map dump_member ?sk) @ CHR ''}'' # r"
      have "?s \<noteq> [] \<and> hd ?s = CHR 0x22"
        using Cons by (cases y; cases ys) (auto simp: dump_str_def)
      then have "skip_ws ?s = ?s" "\<not> starts_with ?s ''}''"
        by (auto intro!: skip_ws_hd simp: starts_with_iff json_space_def)
      then show ?thesis
        using parse_members_dumps [OF _ IH m(2)] Cons m(1) dict_of_distinct [OF dist]
        by simp
    qed
  qed
qed (auto simp: reads_def numeral_eq_Suc dest!: Suc_le_D)

theorem loads_dumps:
  assumes "plain_json j"
  shows "loads (dumps j) = Some (norm_json j)"
proof -
  have "parse_value (2 * length (dumps j) + 2) (dumps j @ []) = Some (norm_json j, [])"
    by (rule readsD [OF parse_value_reads [OF assms]]) simp_all
  then show ?thesis
    using skip_ws_dumps [OF assms, of "[]"] by (simp add: loads_def)
qed

subsection \<open>Canonical texts determine the payload\<close>

lemma sort_key_sorted: "sorted (map f xs) \<Longrightarrow> sort_key f xs = xs"
  by (induction xs) (auto simp: insort_is_Cons)

lemma sort_key_map_values:
  "sort_key fst (map (\<lambda>(k, v). (k, f v)) kvs) = map (\<lambda>(k, v). (k, f v)) (sort_key fst kvs)"
proof -
  have "insort_key fst (k, f v) (map (\<lambda>(k, v). (k, f v)) xs) = map (\<lambda>(k, v). (k, f v)) (insort_key fst (k, v) xs)"
    for k :: "'a::linorder" and v and xs
    by (induction xs) auto
  then show ?thesis by (induction kvs) auto
qed

lemma dumps_norm_json: "dumps (norm_json j) = dumps j"
proof (induction j rule: norm_json.induct)
  case (1 xs)
  then show ?case by (simp add: o_def cong: map_cong)
next
  case (2 kvs)
  let ?s = "sort_key fst kvs"
  have "sort_key fst (map (\<lambda>(k, v). (k, norm_json v)) ?s) = map (\<lambda>(k, v). (k, norm_json v)) ?s"
    unfolding sort_key_map_values by (simp add: sort_key_sorted)
  moreover have "map (\<lambda>(k, v). dump_str k @ '':'' @ dumps v) (map (\<lambda>(k, v). (k, norm_json v)) ?s)
      = map (\<lambda>(k, v). dump_str k @ '':'' @ dumps v) ?s"
    using 2 by (auto simp: case_prod_beta)
  ultimately show ?case by (simp del: map_map)
qed simp_all

lemma dumps_inject:
  assumes "plain_json a" "plain_json b"
  shows "dumps a = dumps b \<longleftrightarrow> norm_json a = norm_json b"
  using loads_dumps [OF assms(1)] loads_dumps [OF assms(2)] dumps_norm_json by (metis option.inject)

lemma map_of_sort_key: "distinct (map fst kvs) \<Longrightarrow> map_of (sort_key fst kvs) = map_of kvs"
proof -
  assume d: "distinct (map fst kvs)"
  then have "distinct (map fst (sort_key fst kvs))"
    by (metis mset_eq_imp_distinct_iff mset_map mset_sort)
  with d show ?thesis by (intro map_of_eqI) (auto intro!: map_of_inject_set [THEN iffD2])
qed

text \<open>Reading a field of the normal form.\<close>

lemma dict_get_norm:
  assumes "distinct (map fst kvs)"
  shows "dict_get (map (\<lambda>(k, v). (k, norm_json v)) (sort_key fst kvs)) k JNull = norm_json (dict_get kvs k JNull)"
proof -
  have "map_of (map (\<lambda>(k, v). (k, norm_json v)) xs) = map_option norm_json \<circ> map_of xs" for xs :: "(string \<times> json) list"
    by (induction xs) (auto simp: fun_eq_iff)
  then show ?thesis
    using map_of_sort_key [OF assms] by (simp add: dict_get_def split: option.split)
qed

end
