(* ===== verification/PyDatetime.thy ===== *)
theory PyDatetime
  imports Json
begin

text \<open>
  Python's \<open>datetime\<close> as far as the sources use it: calendar arithmetic, \<open>datetime.fromisoformat\<close> with
  everything CPython 3.11 accepts (calendar and week dates, basic and extended notation, any separator
  character, its quirks on trailing characters included), comparison of aware values, conversion to UTC
  and \<open>isoformat\<close>. A value is its local clock reading in microseconds since 0001-01-01 and, when it is
  aware, its offset from UTC in microseconds.
\<close>

section \<open>Calendar\<close>

definition is_leap :: "int \<Rightarrow> bool" where
  "is_leap y \<longleftrightarrow> y mod 4 = 0 \<and> (y mod 100 \<noteq> 0 \<or> y mod 400 = 0)"

definition days_before_year :: "int \<Rightarrow> int" where
  "days_before_year y = (let p = y - 1 in p * 365 + p div 4 - p div 100 + p div 400)"

definition month_days :: "int \<Rightarrow> int list" where
  "month_days y = [31, if is_leap y then 29 else 28, 31, 30, 31, 30, 31, 31, 30, 31, 30, 31]"

definition days_in_month :: "int \<Rightarrow> int \<Rightarrow> int" where
  "days_in_month y m = month_days y ! nat (m - 1)"

definition days_before_month :: "int \<Rightarrow> int \<Rightarrow> int" where
  "days_before_month y m = sum_list (take (nat (m - 1)) (month_days y))"

text \<open>The proleptic Gregorian ordinal (0001-01-01 is day 1) and its inverse.\<close>

definition ymd2ord :: "int \<Rightarrow> int \<Rightarrow> int \<Rightarrow> int" where
  "ymd2ord y m d = days_before_year y + days_before_month y m + d"

fun month_of :: "int list \<Rightarrow> int \<Rightarrow> int \<Rightarrow> int \<times> int" where
  "month_of [] m n = (m, n + 1)"
| "month_of (k # ks) m n = (if n < k then (m, n + 1) else month_of ks (m + 1) (n - k))"

definition ord2ymd :: "int \<Rightarrow> int \<times> int \<times> int" where
  "ord2ymd ordinal = (
     let n = ordinal - 1; n400 = n div 146097; a = n mod 146097;
         n100 = a div 36524; b = a mod 36524; n4 = b div 1461; c = b mod 1461;
         n1 = c div 365; d = c mod 365; y = n400 * 400 + n100 * 100 + n4 * 4 + n1 + 1
     in if n1 = 4 \<or> n100 = 4 then (y - 1, 12, 31)
        else (case month_of (month_days y) 1 d of (m, day) \<Rightarrow> (y, m, day)))"

definition iso_week1_monday :: "int \<Rightarrow> int" where
  "iso_week1_monday y = (let first_day = ymd2ord y 1 1; wd = (first_day + 6) mod 7
     in first_day - wd + (if wd > 3 then 7 else 0))"

definition iso_to_ymd :: "int \<Rightarrow> int \<Rightarrow> int \<Rightarrow> (int \<times> int \<times> int) option" where
  "iso_to_ymd y week day = (
     let wd = (ymd2ord y 1 1 + 6) mod 7 in
     if week \<le> 0 \<or> 53 < week \<or> (week = 53 \<and> wd \<noteq> 3 \<and> \<not> (wd = 2 \<and> is_leap y)) then None
     else if day \<le> 0 \<or> 8 \<le> day then None
     else Some (ord2ymd (iso_week1_monday y + (week - 1) * 7 + day - 1)))"

section \<open>Reading ISO texts\<close>

text \<open>The parser works on the NUL-terminated UTF-8 bytes.\<close>

definition at :: "string \<Rightarrow> nat \<Rightarrow> char" where
  "at s i = (if i < length s then s ! i else CHR 0x00)"

definition int_of_digits :: "string \<Rightarrow> int" where
  "int_of_digits ds = foldl (\<lambda>n c. 10 * n + int (digit_val c)) 0 ds"

definition digits_at :: "string \<Rightarrow> nat \<Rightarrow> nat \<Rightarrow> int option" where
  "digits_at s i n = (let ds = map (at s) [i..<i + n] in
     if list_all is_digit ds then Some (int_of_digits ds) else None)"

definition find_separator :: "string \<Rightarrow> nat option" where
  "find_separator s = (
     if length s = 7 then Some 7
     else if at s 4 = CHR ''-'' then
       (if at s 5 = CHR ''W'' then
          (if at s 8 = CHR ''-'' then
             (if length s = 9 then None else if is_digit (at s 10) then Some 8 else Some 10)
           else Some 8)
        else Some 10)
     else if at s 4 = CHR ''W'' then
       (let pos = 7 + length (takeWhile is_digit (drop 7 s)) in
        if pos < 9 then Some pos else if even pos then Some 7 else Some 8)
     else Some 8)"

definition parse_date :: "string \<Rightarrow> nat \<Rightarrow> (int \<times> int \<times> int) option" where
  "parse_date s len = (case digits_at s 0 4 of None \<Rightarrow> None | Some y \<Rightarrow>
     (let sep = (at s 4 = CHR ''-''); p = (if sep then 5 else 4) in
      if at s p = CHR ''W'' then
        (case digits_at s (p + 1) 2 of None \<Rightarrow> None | Some week \<Rightarrow>
           if p + 3 < len then
             (if sep \<and> at s (p + 3) \<noteq> CHR ''-'' then None
              else (case digits_at s (if sep then p + 4 else p + 3) 1 of None \<Rightarrow> None
                | Some day \<Rightarrow> iso_to_ymd y week day))
           else iso_to_ymd y week 1)
      else
        (case digits_at s p 2 of None \<Rightarrow> None | Some m \<Rightarrow>
           if sep \<and> at s (p + 2) \<noteq> CHR ''-'' then None
           else (case digits_at s (if sep then p + 3 else p + 2) 2 of None \<Rightarrow> None
             | Some d \<Rightarrow> Some (y, m, d)))))"

datatype hms = Bad | Done "int list" bool | Frac "int list" nat

text \<open>Up to three pairs of digits; \<open>Done\<close> carries whether something other than NUL follows.\<close>

fun hms_loop :: "nat \<Rightarrow> string \<Rightarrow> nat \<Rightarrow> bool \<Rightarrow> nat \<Rightarrow> int list \<Rightarrow> hms" where
  "hms_loop 0 s e has_sep p vals = Frac vals p"
| "hms_loop (Suc k) s e has_sep p vals = (case digits_at s p 2 of None \<Rightarrow> Bad
     | Some v \<Rightarrow>
       (let c = at s (p + 2); hs = (if vals = [] then c = CHR '':'' else has_sep); vals' = vals @ [v] in
        if e \<le> p + 3 then Done vals' (c \<noteq> CHR 0x00)
        else if hs \<and> c = CHR '':'' then hms_loop k s e hs (p + 3) vals'
        else if c = CHR ''.'' \<or> c = CHR '','' then Frac vals' (p + 3)
        else if \<not> hs then hms_loop k s e hs (p + 2) vals'
        else Bad))"

definition clock_seconds :: "int list \<Rightarrow> int" where
  "clock_seconds vals = (case vals of [h] \<Rightarrow> h * 3600 | [h, m] \<Rightarrow> h * 3600 + m * 60
     | [h, m, sec] \<Rightarrow> h * 3600 + m * 60 + sec | _ \<Rightarrow> 0)"

definition clock_ok :: "int list \<Rightarrow> bool" where
  "clock_ok vals = (case vals of h # ms \<Rightarrow> h < 24 \<and> list_all (\<lambda>m. m < 60) ms | [] \<Rightarrow> True)"

text \<open>The fields, the microseconds and whether characters are left.\<close>

definition hh_mm_ss_ff :: "string \<Rightarrow> nat \<Rightarrow> nat \<Rightarrow> (int list \<times> int \<times> bool) option" where
  "hh_mm_ss_ff s p e = (case hms_loop 3 s e True p [] of
     Bad \<Rightarrow> None
   | Done vals more \<Rightarrow> Some (vals, 0, more)
   | Frac vals q \<Rightarrow>
       (let k = min 6 (e - q) in
        case digits_at s q k of None \<Rightarrow> None
        | Some v \<Rightarrow> Some (vals, v * 10 ^ (6 - k),
            at s (q + k + length (takeWhile is_digit (drop (q + k) s))) \<noteq> CHR 0x00)))"

definition is_zone :: "char \<Rightarrow> bool" where
  "is_zone c \<longleftrightarrow> c \<in> {CHR ''+'', CHR ''-'', CHR ''Z''}"

text \<open>Clock fields, microseconds and the offset from UTC in seconds and microseconds.\<close>

definition parse_time :: "string \<Rightarrow> nat \<Rightarrow> (int list \<times> int \<times> (int \<times> int) option) option" where
  "parse_time s p = (
     let z = p + length (takeWhile (\<lambda>c. \<not> is_zone c) (drop p s)) in
     case hh_mm_ss_ff s p z of None \<Rightarrow> None
     | Some (vals, us, more) \<Rightarrow>
         if length s \<le> z then (if more then None else Some (vals, us, None))
         else if at s z = CHR ''Z'' then
           (if at s (z + 1) \<noteq> CHR 0x00 then None else Some (vals, us, Some (0, 0)))
         else (case hh_mm_ss_ff s (z + 1) (length s) of None \<Rightarrow> None
           | Some (zs, zus, zmore) \<Rightarrow>
               (let sign = (if at s z = CHR ''-'' then - 1 else 1) in
                if zmore then None else Some (vals, us, Some (sign * clock_seconds zs, sign * zus)))))"

record pydt =
  dt_local :: int
  dt_offset :: "int option"

abbreviation DAY :: int where "DAY \<equiv> 86400000000"

definition mk_datetime :: "int \<times> int \<times> int \<Rightarrow> int list \<Rightarrow> int \<Rightarrow> int option \<Rightarrow> pydt option" where
  "mk_datetime ymd vals us off = (case ymd of (y, m, d) \<Rightarrow>
     if 1 \<le> y \<and> y \<le> 9999 \<and> 1 \<le> m \<and> m \<le> 12 \<and> 1 \<le> d \<and> d \<le> days_in_month y m \<and> clock_ok vals
     then Some \<lparr>dt_local = (ymd2ord y m d - 1) * DAY + clock_seconds vals * 1000000 + us, dt_offset = off\<rparr>
     else None)"

text \<open>\<open>datetime.fromisoformat(text)\<close>; \<open>None\<close> is \<open>ValueError\<close>.\<close>

definition fromisoformat :: "string \<Rightarrow> pydt option" where
  "fromisoformat txt0 = (if length txt0 < 7 then None else
     (let s = utf8 txt0 in
      case find_separator s of None \<Rightarrow> None
      | Some sep \<Rightarrow>
        (case parse_date s sep of None \<Rightarrow> None
         | Some ymd \<Rightarrow>
           if sep < length s then
             (case parse_time s (if chr_code (at s sep) < 128 then sep + 1 else sep + 2) of None \<Rightarrow> None
              | Some (vals, us, None) \<Rightarrow> mk_datetime ymd vals us None
              | Some (vals, us, Some (zsec, zus)) \<Rightarrow>
                  (if zsec = 0 then mk_datetime ymd vals us (Some 0)
                   else if \<bar>zsec * 1000000 + zus\<bar> < DAY then mk_datetime ymd vals us (Some (zsec * 1000000 + zus))
                   else None))
           else mk_datetime ymd [] 0 None)))"

section \<open>Instants\<close>

definition instant :: "pydt \<Rightarrow> int" where
  "instant t = dt_local t - (case dt_offset t of None \<Rightarrow> 0 | Some off \<Rightarrow> off)"

definition MAX_LOCAL :: int where
  "MAX_LOCAL = 3652059 * DAY"

definition astimezone_utc :: "pydt \<Rightarrow> pydt result" where
  "astimezone_utc t = (if 0 \<le> instant t \<and> instant t < MAX_LOCAL then Inr \<lparr>dt_local = instant t, dt_offset = Some 0\<rparr>
     else raise OverflowError ''date value out of range'')"

definition pad :: "nat \<Rightarrow> int \<Rightarrow> string" where
  "pad w n = (let ds = show_int n in replicate (w - length ds) (CHR ''0'') @ ds)"

definition isoformat_local :: "int \<Rightarrow> string" where
  "isoformat_local u = (
     let t = u mod DAY; sec = t div 1000000; us = t mod 1000000 in
     case ord2ymd (u div DAY + 1) of (y, m, d) \<Rightarrow>
       pad 4 y @ ''-'' @ pad 2 m @ ''-'' @ pad 2 d @ ''T'' @ pad 2 (sec div 3600) @ '':''
       @ pad 2 (sec div 60 mod 60) @ '':'' @ pad 2 (sec mod 60)
       @ (if us = 0 then '''' else ''.'' @ pad 6 us))"

text \<open>\<open>value.astimezone(timezone.utc).isoformat().replace("+00:00", "Z")\<close>\<close>

definition utc_text :: "pydt \<Rightarrow> string result" where
  "utc_text t = bindE (astimezone_utc t) (\<lambda>u. Inr (isoformat_local (dt_local u) @ ''Z''))"

section \<open>The calendar is consistent\<close>

lemma month_of_split:
  "0 \<le> n \<Longrightarrow> n < sum_list ks \<Longrightarrow> \<exists>j < length ks. month_of ks m n = (m + int j, n - sum_list (take j ks) + 1)
     \<and> 0 \<le> n - sum_list (take j ks) \<and> n - sum_list (take j ks) < ks ! j"
proof (induction ks m n rule: month_of.induct)
  case (2 k ks m n)
  show ?case
  proof (cases "n < k")
    case True
    with 2 show ?thesis by (intro exI [of _ 0]) auto
  next
    case False
    with 2 obtain j where "j < length ks" "month_of ks (m + 1) (n - k) = (m + 1 + int j, n - k - sum_list (take j ks) + 1)"
      "0 \<le> n - k - sum_list (take j ks)" "n - k - sum_list (take j ks) < ks ! j" by auto
    with False show ?thesis by (intro exI [of _ "Suc j"]) auto
  qed
qed simp

lemma sum_month_days: "365 \<le> sum_list (month_days y)"
  by (simp add: month_days_def)

lemma month_of_year:
  assumes "0 \<le> d" "d < 365" "month_of (month_days y) 1 d = (m, day)"
  shows "1 \<le> m \<and> m \<le> 12 \<and> 1 \<le> day \<and> day \<le> days_in_month y m \<and> days_before_month y m + day = d + 1"
proof -
  have "d < sum_list (month_days y)" using assms(2) sum_month_days [of y] by linarith
  from month_of_split [OF assms(1) this, of 1] assms(3) obtain j where j: "j < 12" "m = 1 + int j"
    "day = d - sum_list (take j (month_days y)) + 1" "0 \<le> d - sum_list (take j (month_days y))"
    "d - sum_list (take j (month_days y)) < month_days y ! j"
    by (auto simp: month_days_def)
  then show ?thesis by (simp add: days_in_month_def days_before_month_def)
qed

text \<open>The year \<open>400 a + 100 b + 4 c + d + 1\<close> starts after that many days.\<close>

lemma days_before_split:
  assumes "0 \<le> b" "b < 4" "0 \<le> c" "c < 25" "0 \<le> d" "d < 4"
  shows "days_before_year (400 * a + 100 * b + 4 * c + d + 1) = 146097 * a + 36524 * b + 1461 * c + 365 * d"
proof -
  have q: "(k * x + r) div k = x" if "0 \<le> r" "r < k" for k x r :: int
    using that by (simp add: mult.commute)
  have "(4 * (100 * a + 25 * b + c) + d) div 4 = 100 * a + 25 * b + c" using assms by (intro q) auto
  moreover have "(100 * (4 * a + b) + (4 * c + d)) div 100 = 4 * a + b" using assms by (intro q) auto
  moreover have "(400 * a + (100 * b + 4 * c + d)) div 400 = a" using assms by (intro q) auto
  ultimately show ?thesis by (simp add: days_before_year_def Let_def algebra_simps)
qed

lemma leap_year:
  fixes k i j :: int
  assumes that: "0 \<le> i" "i < 4" "0 \<le> j" "j < 25" "j < 24 \<or> i = 3"
  shows "is_leap (400 * k + 100 * i + 4 * (j + 1))"
proof -
  have "400 * k + 100 * i + 4 * (j + 1) = 4 * (100 * k + 25 * i + (j + 1))" by simp
  then have four: "(400 * k + 100 * i + 4 * (j + 1)) mod 4 = 0" by (metis mod_mult_self1_is_0)
  show ?thesis
  proof (cases "j < 24")
    case True
    have "(100 * (4 * k + i) + 4 * (j + 1)) mod 100 = 4 * (j + 1)"
      unfolding mod_mult_self4 using True that by (intro mod_pos_pos_trivial) auto
    moreover have "100 * (4 * k + i) + 4 * (j + 1) = 400 * k + 100 * i + 4 * (j + 1)" by simp
    ultimately show ?thesis using four that(3) by (simp only: is_leap_def) simp
  next
    case False
    with that have "400 * k + 100 * i + 4 * (j + 1) = 400 * (k + 1)" by auto
    then have "(400 * k + 100 * i + 4 * (j + 1)) mod 400 = 0" by (metis mod_mult_self1_is_0)
    with four show ?thesis by (simp only: is_leap_def) simp
  qed
qed

lemma december_31:
  fixes k i j :: int
  assumes that: "0 \<le> i" "i < 4" "0 \<le> j" "j < 25" "j < 24 \<or> i = 3"
  shows "ymd2ord (400 * k + 100 * i + 4 * (j + 1)) 12 31 = 146097 * k + 36524 * i + 1461 * j + 1461
    \<and> days_in_month (400 * k + 100 * i + 4 * (j + 1)) 12 = 31"
proof -
  have "400 * k + 100 * i + 4 * (j + 1) = 400 * k + 100 * i + 4 * j + 3 + 1" by simp
  then have "days_before_year (400 * k + 100 * i + 4 * (j + 1)) = 146097 * k + 36524 * i + 1461 * j + 365 * 3"
    using days_before_split [of i j 3 k] that by (simp only:)
  with leap_year [OF that] show ?thesis
    by (simp add: ymd2ord_def days_before_month_def month_days_def days_in_month_def)
qed

lemma ord2ymd_inverse:
  assumes "1 \<le> n" "ord2ymd n = (y, m, d)"
  shows "ymd2ord y m d = n \<and> 1 \<le> m \<and> m \<le> 12 \<and> 1 \<le> d \<and> d \<le> days_in_month y m
    \<and> 1 \<le> y \<and> (n \<le> 3652059 \<longrightarrow> y \<le> 9999)"
proof -
  define n400 where "n400 = (n - 1) div 146097"
  define a where "a = (n - 1) mod 146097"
  define n100 where "n100 = a div 36524"
  define b where "b = a mod 36524"
  define n4 where "n4 = b div 1461"
  define c where "c = b mod 1461"
  define n1 where "n1 = c div 365"
  define e where "e = c mod 365"
  note defs = n400_def a_def n100_def b_def n4_def c_def n1_def e_def
  have n: "n - 1 = 146097 * n400 + a" "0 \<le> a" "a < 146097" "a = 36524 * n100 + b" "0 \<le> b" "b < 36524"
    "b = 1461 * n4 + c" "0 \<le> c" "c < 1461" "c = 365 * n1 + e" "0 \<le> e" "e < 365"
    unfolding defs by (simp_all add: minus_mult_div_eq_mod)
  have nn: "0 \<le> n400" "0 \<le> n100" "n100 \<le> 4" "0 \<le> n4" "n4 \<le> 24" "0 \<le> n1" "n1 \<le> 4"
    using n assms(1) by linarith+
  let ?y = "n400 * 400 + n100 * 100 + n4 * 4 + n1 + 1"
  have r: "ord2ymd n = (if n1 = 4 \<or> n100 = 4 then (?y - 1, 12, 31)
      else (case month_of (month_days ?y) 1 e of (m, day) \<Rightarrow> (?y, m, day)))"
    unfolding ord2ymd_def Let_def defs by simp
  consider (d400) "n100 = 4" | (d4) "n100 < 4" "n1 = 4" | (std) "n100 < 4" "n1 < 4" using nn by force
  then show ?thesis
  proof cases
    case d400
    with n nn have z: "b = 0" "n4 = 0" "n1 = 0" by linarith+
    with d400 r assms have "y = 400 * n400 + 100 * 3 + 4 * (24 + 1)" "m = 12" "d = 31" by auto
    with december_31 [of 3 24 n400] n(1,4) z d400 nn show ?thesis by auto
  next
    case d4
    with n nn have z: "n4 < 24" "e = 0" by linarith+
    with d4 r assms have "y = 400 * n400 + 100 * n100 + 4 * (n4 + 1)" "m = 12" "d = 31" by auto
    with december_31 [of n100 n4 n400] n z d4 nn show ?thesis by auto
  next
    case std
    then have s: "y = 400 * n400 + 100 * n100 + 4 * n4 + n1 + 1" "month_of (month_days y) 1 e = (m, d)"
      using r assms by (auto split: prod.splits)
    from month_of_year [OF n(11,12) s(2)] days_before_split [of n100 n4 n1 n400] n nn std s(1)
    show ?thesis by (auto simp: ymd2ord_def)
  qed
qed

section \<open>Decimal fields\<close>

lemma digit_val_bound: "is_digit c \<Longrightarrow> digit_val c < 10"
  by (auto simp: digit_val_def is_digit_def less_eq_char_def)

lemma nat_of_digits_Cons: "nat_of_digits (c # cs) = digit_val c * 10 ^ length cs + nat_of_digits cs"
proof (induction cs rule: rev_induct)
  case (snoc d ds)
  then show ?case using nat_of_digits_snoc [of "c # ds" d] by (simp add: nat_of_digits_snoc)
qed (simp add: nat_of_digits_def)

lemma nat_of_digits_bound: "list_all is_digit ds \<Longrightarrow> nat_of_digits ds < 10 ^ length ds"
proof (induction ds)
  case (Cons c cs)
  then have "digit_val c \<le> 9" "nat_of_digits cs < 10 ^ length cs" using digit_val_bound [of c] by auto
  then have "digit_val c * 10 ^ length cs + nat_of_digits cs < 9 * 10 ^ length cs + 10 ^ length cs"
    by (meson add_le_less_mono mult_le_mono1)
  then show ?case by (simp add: nat_of_digits_Cons)
qed (simp add: nat_of_digits_def)

lemma nat_of_digits_zeros: "nat_of_digits (replicate k (CHR ''0'') @ ds) = nat_of_digits ds"
  by (induction k) (simp_all add: nat_of_digits_Cons digit_val_def)

lemma length_show_nat: "n < 10 ^ k \<Longrightarrow> 0 < k \<Longrightarrow> length (show_nat n) \<le> k"
proof (induction n arbitrary: k rule: show_nat.induct)
  case (1 n)
  show ?case
  proof (cases "n < 10")
    case True
    with 1 show ?thesis by (subst show_nat.simps) simp
  next
    case False
    with 1 obtain j where j: "k = Suc j" "0 < j" by (cases k; cases "k - 1") auto
    with False 1 have "length (show_nat (n div 10)) \<le> j" by (intro "1.IH") auto
    with False j show ?thesis by (subst show_nat.simps) simp
  qed
qed

lemma pad_digits:
  assumes "0 \<le> n" "n < 10 ^ w" "0 < w"
  shows "length (pad w n) = w" "list_all is_digit (pad w n)" "nat_of_digits (pad w n) = nat n"
proof -
  have s: "show_int n = show_nat (nat n)" using assms by (simp add: show_int_def)
  have "nat n < 10 ^ w" using assms by (simp add: nat_less_iff)
  then have "length (show_nat (nat n)) \<le> w" using assms by (intro length_show_nat)
  then show "length (pad w n) = w" by (simp add: pad_def s Let_def)
  show "list_all is_digit (pad w n)"
    using show_nat_digits [of "nat n"] by (auto simp: pad_def s Let_def list_all_iff is_digit_def)
  show "nat_of_digits (pad w n) = nat n"
    by (simp add: pad_def s Let_def nat_of_digits_zeros nat_of_digits_show_nat)
qed

lemma int_of_digits_nat: "int_of_digits ds = int (nat_of_digits ds)"
proof -
  have "foldl (\<lambda>n c. 10 * n + int (digit_val c)) (int m) ds = int (foldl (\<lambda>n c. 10 * n + digit_val c) m ds)" for m
  proof (induction ds arbitrary: m)
    case (Cons c ds)
    from Cons [of "10 * m + digit_val c"] show ?case by simp
  qed simp
  from this [of 0] show ?thesis by (simp add: int_of_digits_def nat_of_digits_def)
qed

lemma pad_value: "0 \<le> n \<Longrightarrow> n < 10 ^ w \<Longrightarrow> 0 < w \<Longrightarrow> int_of_digits (pad w n) = n"
  using pad_digits(3) [of n w] by (simp add: int_of_digits_nat)

section \<open>Reading back what \<open>isoformat\<close> prints\<close>

lemma digit_ne [simp]:
  "is_digit c \<Longrightarrow> (c = CHR ''-'') = False" "is_digit c \<Longrightarrow> (c = CHR ''W'') = False"
  "is_digit c \<Longrightarrow> (c = CHR ''Z'') = False" "is_digit c \<Longrightarrow> (c = CHR '':'') = False"
  "is_digit c \<Longrightarrow> (c = CHR ''.'') = False" "is_digit c \<Longrightarrow> \<not> is_zone c"
  by (auto simp: is_digit_def is_zone_def)

lemma utf8_char_ascii: "chr_code c < 128 \<Longrightarrow> utf8_char c = [c]"
  by (simp add: utf8_char_def)

lemma utf8_char_digit [simp]: "is_digit c \<Longrightarrow> utf8_char c = [c]"
  by (rule utf8_char_ascii) (auto simp: is_digit_def less_eq_char_def)

lemma digit_consts [simp]:
  "is_digit (CHR ''0'')" "is_digit (CHR ''9'')" "\<not> is_digit (CHR ''.'')" "\<not> is_digit (CHR '':'')" "\<not> is_digit (CHR ''+'')"
  by (simp_all add: is_digit_def)

lemma utf8_consts [simp]: "utf8_char (CHR ''9'') = ''9''"
  "utf8_char (CHR ''-'') = ''-''" "utf8_char (CHR ''T'') = ''T''" "utf8_char (CHR '':'') = '':''"
  "utf8_char (CHR ''+'') = ''+''" "utf8_char (CHR ''0'') = ''0''" "utf8_char (CHR ''.'') = ''.''"
  by (simp_all add: utf8_char_def)

lemma utf8_simps [simp]: "utf8 [] = []" "utf8 (c # cs) = utf8_char c @ utf8 cs"
  by (simp_all add: utf8_def)

lemma zone_consts [simp]: "is_zone (CHR ''+'')" "\<not> is_zone (CHR '':'')" "\<not> is_zone (CHR ''.'')"
  by (simp_all add: is_zone_def)

text \<open>The two offsets that the program prints: UTC and Tokyo.\<close>

definition zone_text :: "int \<Rightarrow> string \<Rightarrow> bool" where
  "zone_text off z \<longleftrightarrow> off = 0 \<and> z = ''+00:00'' \<or> off = 32400000000 \<and> z = ''+09:00''"

lemma parse_zone_text:
  assumes "list_all is_digit [y1, y2, y3, y4, m1, m2, d1, d2, h1, h2, n1, n2, s1, s2]"
    and "f = [] \<or> (\<exists>u1 u2 u3 u4 u5 u6. f = [CHR ''.'', u1, u2, u3, u4, u5, u6] \<and> list_all is_digit [u1, u2, u3, u4, u5, u6])"
    and z: "zone_text off z"
  shows "fromisoformat ([y1, y2, y3, y4, CHR ''-'', m1, m2, CHR ''-'', d1, d2, CHR ''T'', h1, h2, CHR '':'', n1, n2, CHR '':'', s1, s2]
            @ f @ z)
    = mk_datetime (int_of_digits [y1, y2, y3, y4], int_of_digits [m1, m2], int_of_digits [d1, d2])
        [int_of_digits [h1, h2], int_of_digits [n1, n2], int_of_digits [s1, s2]] (int_of_digits (drop 1 f)) (Some off)"
  using assms(2)
proof
  assume "f = []"
  with assms(1) z show ?thesis
    by (auto simp: zone_text_def fromisoformat_def find_separator_def parse_date_def digits_at_def at_def upt_rec parse_time_def hh_mm_ss_ff_def
        numeral_3_eq_3 clock_seconds_def int_of_digits_def digit_val_def)
qed (use assms(1) z in \<open>auto simp: zone_text_def fromisoformat_def find_separator_def parse_date_def digits_at_def at_def upt_rec parse_time_def hh_mm_ss_ff_def
        numeral_3_eq_3 clock_seconds_def int_of_digits_def digit_val_def\<close>)

lemma pad2:
  assumes "0 \<le> n" "n < 100"
  obtains a b where "pad 2 n = [a, b]" "is_digit a" "is_digit b" "int_of_digits [a, b] = n"
proof -
  have "length (pad 2 n) = 2" "list_all is_digit (pad 2 n)" "int_of_digits (pad 2 n) = n"
    using pad_digits [of n 2] pad_value [of n 2] assms by simp_all
  with that show ?thesis by (auto simp: numeral_2_eq_2 length_Suc_conv)
qed

lemma pad4:
  assumes "0 \<le> n" "n < 10000"
  obtains a b c d where "pad 4 n = [a, b, c, d]" "list_all is_digit [a, b, c, d]" "int_of_digits [a, b, c, d] = n"
proof -
  have "length (pad 4 n) = 4" "list_all is_digit (pad 4 n)" "int_of_digits (pad 4 n) = n"
    using pad_digits [of n 4] pad_value [of n 4] assms by simp_all
  with that show ?thesis by (auto simp: eval_nat_numeral length_Suc_conv)
qed

lemma pad6:
  assumes "0 \<le> n" "n < 1000000"
  obtains a b c d e f where "pad 6 n = [a, b, c, d, e, f]" "list_all is_digit [a, b, c, d, e, f]"
    "int_of_digits [a, b, c, d, e, f] = n"
proof -
  have "length (pad 6 n) = 6" "list_all is_digit (pad 6 n)" "int_of_digits (pad 6 n) = n"
    using pad_digits [of n 6] pad_value [of n 6] assms by simp_all
  with that show ?thesis by (auto simp: eval_nat_numeral length_Suc_conv)
qed

lemma fromisoformat_zone:
  assumes "0 \<le> u" "u < MAX_LOCAL" "zone_text off z"
  shows "fromisoformat (isoformat_local u @ z) = Some \<lparr>dt_local = u, dt_offset = Some off\<rparr>"
proof -
  define sec where "sec = u mod DAY div 1000000"
  define us where "us = u mod DAY mod 1000000"
  have b: "0 \<le> sec" "sec < 86400" "0 \<le> us" "us < 1000000" "u mod DAY = sec * 1000000 + us"
    unfolding sec_def us_def using pos_mod_bound [of DAY u] pos_mod_sign [of DAY u]
    by (auto simp: pos_imp_zdiv_nonneg_iff)
  obtain y m d where o: "ord2ymd (u div DAY + 1) = (y, m, d)" by (metis prod_cases3)
  have q: "0 \<le> u div DAY" "u div DAY < 3652059" using assms by (auto simp: MAX_LOCAL_def)
  with ord2ymd_inverse [OF _ o] have ymd: "ymd2ord y m d = u div DAY + 1" "1 \<le> m" "m \<le> 12" "1 \<le> d"
    "d \<le> days_in_month y m" "1 \<le> y" "y \<le> 9999" by auto
  have "days_in_month y m \<le> 31"
  proof -
    have "nat (m - 1) < 12" using ymd by auto
    then have "month_days y ! nat (m - 1) \<in> set (month_days y)" by (intro nth_mem) (simp add: month_days_def)
    then show ?thesis by (auto simp: days_in_month_def month_days_def)
  qed
  with ymd have dm: "d < 100" "m < 100" by auto
  have yb: "0 \<le> y" "y < 10000" "0 \<le> m" "0 \<le> d" using ymd by auto
  obtain y1 y2 y3 y4 where Y: "pad 4 y = [y1, y2, y3, y4]" "list_all is_digit [y1, y2, y3, y4]" "int_of_digits [y1, y2, y3, y4] = y"
    using yb(1,2) by (rule pad4)
  obtain m1 m2 where M: "pad 2 m = [m1, m2]" "is_digit m1" "is_digit m2" "int_of_digits [m1, m2] = m"
    using yb(3) dm(2) by (rule pad2)
  obtain d1 d2 where D: "pad 2 d = [d1, d2]" "is_digit d1" "is_digit d2" "int_of_digits [d1, d2] = d"
    using yb(4) dm(1) by (rule pad2)
  define hh where "hh = sec div 3600"
  define mi where "mi = sec div 60 mod 60"
  define ss where "ss = sec mod 60"
  have c: "0 \<le> hh" "hh < 24" "hh < 100" "0 \<le> mi" "mi < 60" "mi < 100" "0 \<le> ss" "ss < 60" "ss < 100"
    "hh * 3600 + mi * 60 + ss = sec"
  proof -
    have "hh = sec div 60 div 60" by (simp add: hh_def zdiv_zmult2_eq [symmetric])
    then show "hh * 3600 + mi * 60 + ss = sec"
      using div_mult_mod_eq [of sec 60] div_mult_mod_eq [of "sec div 60" 60] unfolding mi_def ss_def by linarith
  qed (use b(1,2) pos_mod_bound [of 60 "sec div 60"] pos_mod_bound [of 60 sec]
      in \<open>auto simp: hh_def mi_def ss_def pos_imp_zdiv_nonneg_iff\<close>)
  obtain h1 h2 where H: "pad 2 hh = [h1, h2]" "is_digit h1" "is_digit h2" "int_of_digits [h1, h2] = hh"
    using c(1,3) by (rule pad2)
  obtain n1 n2 where N: "pad 2 mi = [n1, n2]" "is_digit n1" "is_digit n2" "int_of_digits [n1, n2] = mi"
    using c(4,6) by (rule pad2)
  obtain s1 s2 where S: "pad 2 ss = [s1, s2]" "is_digit s1" "is_digit s2" "int_of_digits [s1, s2] = ss"
    using c(7,9) by (rule pad2)
  define f where "f = (if us = 0 then [] else CHR ''.'' # pad 6 us)"
  have F: "f = [] \<or> (\<exists>u1 u2 u3 u4 u5 u6. f = [CHR ''.'', u1, u2, u3, u4, u5, u6] \<and> list_all is_digit [u1, u2, u3, u4, u5, u6])"
    "int_of_digits (drop 1 f) = us"
    by (rule pad6 [OF b(3,4)]; simp add: f_def int_of_digits_def)+
  have "isoformat_local u @ z = [y1, y2, y3, y4, CHR ''-'', m1, m2, CHR ''-'', d1, d2, CHR ''T'', h1, h2, CHR '':'',
      n1, n2, CHR '':'', s1, s2] @ f @ z"
    by (simp add: isoformat_local_def Let_def o Y M D sec_def [symmetric] us_def [symmetric] hh_def [symmetric]
        mi_def [symmetric] ss_def [symmetric] H N S f_def)
  moreover have "(u div DAY) * DAY + (sec * 1000000 + us) = u" unfolding b(5) [symmetric] by simp
  ultimately show ?thesis
    using parse_zone_text [of y1 y2 y3 y4 m1 m2 d1 d2 h1 h2 n1 n2 s1 s2 f off z] assms(3) Y M D H N S F c ymd
    by (simp add: mk_datetime_def clock_ok_def clock_seconds_def c(10))
qed

lemma fromisoformat_isoformat:
  "0 \<le> u \<Longrightarrow> u < MAX_LOCAL \<Longrightarrow> fromisoformat (isoformat_local u @ ''+00:00'') = Some \<lparr>dt_local = u, dt_offset = Some 0\<rparr>"
  by (rule fromisoformat_zone) (simp_all add: zone_text_def)

text \<open>\<open>str.replace(old, new)\<close> for a one-character pattern.\<close>

definition replace_char :: "char \<Rightarrow> string \<Rightarrow> string \<Rightarrow> string" where
  "replace_char c new s = concat (map (\<lambda>d. if d = c then new else [d]) s)"

lemma pad_all_digits: "0 \<le> n \<Longrightarrow> list_all is_digit (pad w n)"
  using show_nat_digits [of "nat n"] by (auto simp: pad_def Let_def show_int_def list_all_iff)

lemma ymd_nonneg: "0 \<le> u \<Longrightarrow> ord2ymd (u div DAY + 1) = (y, m, d) \<Longrightarrow> 0 \<le> y \<and> 0 \<le> m \<and> 0 \<le> d"
  using ord2ymd_inverse [of "u div DAY + 1" y m d] by (auto simp: pos_imp_zdiv_nonneg_iff)

lemma isoformat_chars:
  assumes "0 \<le> u" "c \<in> set (isoformat_local u)"
  shows "is_digit c \<or> c \<in> {CHR ''-'', CHR ''T'', CHR '':'', CHR ''.''}"
proof -
  obtain y m d where o: "ord2ymd (u div DAY + 1) = (y, m, d)" by (metis prod_cases3)
  from ymd_nonneg [OF assms(1) o] have "0 \<le> y" "0 \<le> m" "0 \<le> d" by auto
  moreover have "0 \<le> u mod DAY div 1000000 div 3600" "0 \<le> u mod DAY div 1000000 div 60 mod 60"
    "0 \<le> u mod DAY div 1000000 mod 60" "0 \<le> u mod DAY mod 1000000"
    by (simp_all add: pos_imp_zdiv_nonneg_iff)
  note nonneg = calculation
  let ?P = "\<lambda>c. is_digit c \<or> c \<in> {CHR ''-'', CHR ''T'', CHR '':'', CHR ''.''}"
  have p: "list_all ?P (pad w n)" if "0 \<le> n" for w n
    using pad_all_digits [OF that, of w] by (rule list.pred_mono_strong) simp
  have "list_all ?P (isoformat_local u)"
    using nonneg by (simp add: isoformat_local_def Let_def o p del: insert_iff) simp
  with assms(2) show ?thesis by (simp only: list_all_iff)
qed

lemma replace_char_id: "c \<notin> set s \<Longrightarrow> replace_char c new s = s"
  by (induction s) (auto simp: replace_char_def)

lemma replace_char_append [simp]: "replace_char c new (s @ t) = replace_char c new s @ replace_char c new t"
  by (simp add: replace_char_def)

lemma digit_not_space: "is_digit c \<Longrightarrow> \<not> is_space c"
  using ident_not_space by blast

text \<open>A normalised UTC text: it is its own stripped form, and reading it back gives the instant.\<close>

lemma utc_text_reads:
  assumes "utc_text t = Inr s"
  shows "strip s = s" "s \<noteq> []"
    "fromisoformat (replace_char (CHR ''Z'') ''+00:00'' s) = Some \<lparr>dt_local = instant t, dt_offset = Some 0\<rparr>"
    "utc_text \<lparr>dt_local = instant t, dt_offset = Some 0\<rparr> = Inr s"
proof -
  from assms have r: "0 \<le> instant t" "instant t < MAX_LOCAL" "s = isoformat_local (instant t) @ ''Z''"
    by (auto simp: utc_text_def astimezone_utc_def split: if_splits)
  have nz: "CHR ''Z'' \<notin> set (isoformat_local (instant t))"
    using isoformat_chars [OF r(1), of "CHR ''Z''"] by (auto simp: is_digit_def)
  have "\<not> is_space c" if "c \<in> set s" for c
  proof -
    from that isoformat_chars [OF r(1), of c] have "is_digit c \<or> c \<in> set ''-T:.Z''" unfolding r(3) by auto
    moreover have "\<not> is_space c" if "c \<in> set ''-T:.Z''" using that by (auto simp: is_space_def)
    ultimately show ?thesis using digit_not_space by blast
  qed
  moreover show "s \<noteq> []" by (simp add: r(3))
  ultimately show "strip s = s" by (intro strip_id) auto
  show "fromisoformat (replace_char (CHR ''Z'') ''+00:00'' s) = Some \<lparr>dt_local = instant t, dt_offset = Some 0\<rparr>"
    using fromisoformat_isoformat [OF r(1,2)] replace_char_id [OF nz, of "''+00:00''"]
    by (simp add: r(3)) (simp add: replace_char_def)
  show "utc_text \<lparr>dt_local = instant t, dt_offset = Some 0\<rparr> = Inr s"
    using r by (simp add: utc_text_def astimezone_utc_def instant_def)
qed

end
