(* ===== verification/Field_Checks.thy ===== *)
theory Field_Checks
  imports PyDatetime
begin

text \<open>
  The field checks that the runtime modules share: identifiers, single lines, references, SHA-256
  references and timestamps. \<open>task_context.py\<close>, \<open>harness_context_manifest.py\<close>, \<open>execution_plan.py\<close>,
  \<open>execution_observation.py\<close> and \<open>runtime_scheduler.py\<close> each carry a copy that differs only in the
  exception raised, which is a parameter here. Arguments have the types the signatures declare.
\<close>

definition invalid :: "exc_class \<Rightarrow> string \<Rightarrow> 'a result" where
  "invalid e field = raise e (''INVALID_'' @ upper field)"

text \<open>\<open>^[A-Za-z0-9][A-Za-z0-9._:-]{0,127}$\<close>\<close>

definition ID_RE :: "string \<Rightarrow> bool" where
  "ID_RE s = ident_match is_alnum (\<lambda>c. is_alnum c \<or> c \<in> {CHR ''.'', CHR ''_'', CHR '':'', CHR ''-''}) 0 127 s"

definition id_field :: "exc_class \<Rightarrow> string \<Rightarrow> string \<Rightarrow> string result" where
  "id_field e v field = (if v \<noteq> strip v \<or> \<not> ID_RE v then invalid e field else Inr v)"

definition single_line :: "exc_class \<Rightarrow> string \<Rightarrow> string \<Rightarrow> nat \<Rightarrow> string result" where
  "single_line e v field max_len = (
     if v = [] \<or> v \<noteq> strip v then invalid e field
     else if max_len < length v \<or> CHR 0x0A \<in> set v \<or> CHR 0x0D \<in> set v then invalid e field
     else Inr v)"

definition sha256_field :: "exc_class \<Rightarrow> string \<Rightarrow> string \<Rightarrow> string result" where
  "sha256_field e v field = (if \<not> is_sha256_ref v then invalid e field else Inr v)"

text \<open>\<open>text[:-1] + "+00:00" if text.endswith("Z") else text\<close>\<close>

definition zulu :: "string \<Rightarrow> string" where
  "zulu v = (if ends_with v ''Z'' then butlast v @ ''+00:00'' else v)"

definition timestamp_field :: "exc_class \<Rightarrow> string \<Rightarrow> string \<Rightarrow> string result" where
  "timestamp_field e v field = bindE (single_line e v field 64) (\<lambda>t.
     case fromisoformat (zulu t) of None \<Rightarrow> invalid e field
     | Some p \<Rightarrow> if dt_offset p = None then raise e (upper field @ ''_MUST_BE_TIMEZONE_AWARE'') else Inr t)"

definition as_datetime :: "string \<Rightarrow> pydt result" where
  "as_datetime v = (case fromisoformat (zulu v) of None \<Rightarrow> raise ValueError ''Invalid isoformat string'' | Some p \<Rightarrow> Inr p)"

section \<open>What the checks accept\<close>

definition line_ok :: "nat \<Rightarrow> string \<Rightarrow> bool" where
  "line_ok max_len v \<longleftrightarrow> v \<noteq> [] \<and> strip v = v \<and> length v \<le> max_len \<and> CHR 0x0A \<notin> set v \<and> CHR 0x0D \<notin> set v"

definition time_ok :: "string \<Rightarrow> bool" where
  "time_ok v \<longleftrightarrow> line_ok 64 v \<and> (case fromisoformat (zulu v) of None \<Rightarrow> False | Some p \<Rightarrow> dt_offset p \<noteq> None)"

lemma invalid_neq [simp]: "invalid e field \<noteq> Inr x"
  by (simp add: invalid_def)

lemma single_line_iff [simp]: "single_line e v field n = Inr x \<longleftrightarrow> x = v \<and> line_ok n v"
  by (auto simp: single_line_def line_ok_def)

lemma sha256_field_iff [simp]: "sha256_field e v field = Inr x \<longleftrightarrow> x = v \<and> is_sha256_ref v"
  by (auto simp: sha256_field_def)

lemma timestamp_field_iff [simp]: "timestamp_field e v field = Inr x \<longleftrightarrow> x = v \<and> time_ok v"
  by (auto simp: timestamp_field_def time_ok_def bindE_Inr_iff split: option.splits)

lemma as_datetime_iff [simp]: "as_datetime v = Inr p \<longleftrightarrow> fromisoformat (zulu v) = Some p"
  by (auto simp: as_datetime_def split: option.splits)

lemma ID_RE_not_space:
  assumes "ID_RE s" "c \<in> set s"
  shows "\<not> is_space c"
proof -
  have "is_alnum c \<or> c \<in> {CHR ''.'', CHR ''_'', CHR '':'', CHR ''-''}"
    using assms by (auto simp: ID_RE_def ident_match_def list_all_iff split: list.splits)
  then show ?thesis
    by (auto simp: is_alnum_def is_digit_def is_lower_def is_upper_def is_space_def)
qed

lemma ID_RE_strip: "ID_RE s \<Longrightarrow> strip s = s"
proof (rule strip_id)
  assume "ID_RE s"
  then show "s = [] \<or> \<not> is_space (hd s) \<and> \<not> is_space (last s)"
    using ID_RE_not_space [of s "hd s"] ID_RE_not_space [of s "last s"] by (cases s) auto
qed

lemma id_field_iff [simp]: "id_field e v field = Inr x \<longleftrightarrow> x = v \<and> ID_RE v"
  using ID_RE_strip [of v] by (auto simp: id_field_def)

text \<open>The same facts as rewrite rules for a field that passes.\<close>

lemma field_pass [simp]:
  "ID_RE v \<Longrightarrow> id_field e v field = Inr v"
  "line_ok n v \<Longrightarrow> single_line e v field n = Inr v"
  "is_sha256_ref v \<Longrightarrow> sha256_field e v field = Inr v"
  "time_ok v \<Longrightarrow> timestamp_field e v field = Inr v"
  by simp_all

section \<open>Digests of arbitrary payloads\<close>

text \<open>\<open>json.dumps(..., allow_nan=False)\<close> refuses non-finite floats.\<close>

fun finite_json :: "json \<Rightarrow> bool" where
  "finite_json (JFloat t) = (t \<notin> {''nan'', ''inf'', ''-inf''})"
| "finite_json (JList xs) = list_all finite_json xs"
| "finite_json (JObj kvs) = list_all (\<lambda>(k, v). finite_json v) kvs"
| "finite_json _ = True"

definition canonical_text :: "exc_class \<Rightarrow> string \<Rightarrow> json \<Rightarrow> string result" where
  "canonical_text e msg payload = (if finite_json payload then Inr (dumps payload) else raise e msg)"

definition canonical_digest :: "exc_class \<Rightarrow> string \<Rightarrow> json \<Rightarrow> string result" where
  "canonical_digest e msg payload = bindE (canonical_text e msg payload) (\<lambda>t. Inr (sha256_ref t))"

lemma canonical_digest_iff [simp]:
  "canonical_digest e msg payload = Inr d \<longleftrightarrow> finite_json payload \<and> d = digest payload"
  by (auto simp: canonical_digest_def canonical_text_def digest_def)

end
