(* ===== verification/Task_Store.thy ===== *)
theory Task_Store
  imports PyDatetime
begin

text \<open>
  Model of \<open>src/three_agent/store.py\<close> and \<open>src/three_agent/models.py\<close>: the task database. A table is
  a list of rows in insertion order or a map from its primary key. Every method of the store runs its
  statements in one transaction that commits as a whole or rolls back as a whole, so an operation
  returns either an exception, with the database unchanged, or a value and the new database. SQLite
  does not enforce the declared foreign keys here (the pragma is off by default). A method that also
  writes the activity log does so in a transaction of its own after the first; here the two are one
  operation. No modelled operation reads the log, and other parties may append to it at any time, so what differs is
  its order and, if the second transaction fails, one missing entry.

  Time is the instant read from the clock, in microseconds since the epoch; \<open>At t\<close> stands for the ISO
  text that \<open>datetime.isoformat\<close> prints for it, which \<open>datetime.fromisoformat\<close> reads back. The clock
  readings of \<open>create_task\<close> are three arguments; in the other operations the log entry carries the
  instant of the operation. Schema creation, the column migration and the three report queries by date are
  not modelled.
\<close>

section \<open>Rows\<close>

datatype task_status = NEW | RESEARCHING | RESEARCH_COMPLETED | PRESENTATION_CREATING
  | PRESENTATION_COMPLETED | DONE | FAILED | WAITING_HUMAN

datatype stamp = At int | Blank | Malformed string

record task =
  tk_task_id :: string
  tk_title :: string
  tk_request :: string
  tk_status :: task_status
  tk_created_at :: int
  tk_updated_at :: int

record activity =
  ac_timestamp :: int
  ac_task_id :: "string option"
  ac_agent_id :: string
  ac_action :: string
  ac_status :: string
  ac_details :: string

record artifact =
  ar_timestamp :: int
  ar_task_id :: "string option"
  ar_agent_id :: string
  ar_artifact_type :: string
  ar_path :: string
  ar_metadata :: string

record contract_row =
  ct_schema_version :: string
  ct_contract_json :: string
  ct_contract_sha256 :: string
  ct_bound_at :: int

record budget_row =
  bu_max_steps :: int
  bu_max_tool_calls :: int
  bu_max_retries :: int
  bu_max_escalations :: int
  bu_max_wall_time_ms :: int
  bu_steps_used :: int
  bu_tool_calls_used :: int
  bu_retries_used :: int
  bu_escalations_used :: int
  bu_deadline_at :: stamp
  bu_bound_at :: stamp
  bu_updated_at :: int

record validator_row =
  vr_id :: nat
  vr_timestamp :: int
  vr_task_id :: string
  vr_validator :: string
  vr_validator_version :: string
  vr_status :: string
  vr_reason_code :: string
  vr_evidence_refs :: string
  vr_attempt :: int

record revocation =
  rv_task_id :: string
  rv_capability :: string
  rv_reason_code :: string
  rv_revoked_at :: int

record store =
  st_tasks :: "task list"
  st_activities :: "activity list"
  st_artifacts :: "artifact list"
  st_uploads :: "(string \<times> string \<times> int) list"
  st_contracts :: "string \<rightharpoonup> contract_row"
  st_budgets :: "string \<rightharpoonup> budget_row"
  st_validators :: "validator_row list"
  st_revocations :: "revocation list"

definition empty_store :: store where
  "empty_store = \<lparr>st_tasks = [], st_activities = [], st_artifacts = [], st_uploads = [],
     st_contracts = Map.empty, st_budgets = Map.empty, st_validators = [], st_revocations = []\<rparr>"

type_synonym 'a op = "store \<Rightarrow> ('a \<times> store) result"

section \<open>Calendar\<close>

text \<open>The Tokyo date of an instant.\<close>

definition tokyo_day :: "int \<Rightarrow> int" where
  "tokyo_day now = (now + 9 * 3600 * 1000000) div (86400 * 1000000)"

definition date_compact :: "int \<Rightarrow> string" where
  "date_compact now = (case ord2ymd (tokyo_day now + 719163) of (y, m, d) \<Rightarrow> pad 4 y @ pad 2 m @ pad 2 d)"

section \<open>Tasks\<close>

definition record_activity :: "int \<Rightarrow> string option \<Rightarrow> string \<Rightarrow> string \<Rightarrow> string \<Rightarrow> string \<Rightarrow> store \<Rightarrow> store" where
  "record_activity now task_id agent action status details s = s\<lparr>st_activities := st_activities s @
     [\<lparr>ac_timestamp = now, ac_task_id = task_id, ac_agent_id = agent, ac_action = action,
       ac_status = status, ac_details = details\<rparr>]\<rparr>"

definition record_artifact :: "int \<Rightarrow> string option \<Rightarrow> string \<Rightarrow> string \<Rightarrow> string \<Rightarrow> string \<Rightarrow> store \<Rightarrow> store" where
  "record_artifact now task_id agent kind path metadata s = s\<lparr>st_artifacts := st_artifacts s @
     [\<lparr>ar_timestamp = now, ar_task_id = task_id, ar_agent_id = agent, ar_artifact_type = kind,
       ar_path = path, ar_metadata = metadata\<rparr>]\<rparr>"

definition find_task :: "store \<Rightarrow> string \<Rightarrow> task option" where
  "find_task s task_id = List.find (\<lambda>t. tk_task_id t = task_id) (st_tasks s)"

definition get_task :: "string \<Rightarrow> store \<Rightarrow> task result" where
  "get_task task_id s = (case find_task s task_id of
     None \<Rightarrow> raise KeyError (''Unknown task_id: '' @ task_id) | Some t \<Rightarrow> Inr t)"

text \<open>\<open>int(text)\<close>: optional white space and sign, digits with single underscores between them.\<close>

fun digits_ok :: "bool \<Rightarrow> string \<Rightarrow> bool" where
  "digits_ok prev [] = prev"
| "digits_ok prev (c # cs) = (if is_digit c then digits_ok True cs
     else c = CHR ''_'' \<and> prev \<and> cs \<noteq> [] \<and> digits_ok False cs)"

definition py_int :: "string \<Rightarrow> int option" where
  "py_int t = (let u = strip t; neg = starts_with u ''-'';
       ds = (if neg \<or> starts_with u ''+'' then drop 1 u else u) in
     if digits_ok False ds then Some ((if neg then -1 else 1) * int (nat_of_digits (filter is_digit ds))) else None)"

text \<open>\<open>LIKE prefix%\<close> (ASCII letters compare without case), the greatest match in binary order, and the
  number after its last dash plus one.\<close>

definition id_prefix :: "int \<Rightarrow> string" where
  "id_prefix now = ''TASK-'' @ date_compact now @ ''-''"

definition like_prefix :: "string \<Rightarrow> string \<Rightarrow> bool" where
  "like_prefix p t = starts_with (ascii_upper t) (ascii_upper p)"

definition next_task_id :: "int \<Rightarrow> store \<Rightarrow> string result" where
  "next_task_id now s = (
     case filter (like_prefix (id_prefix now)) (map tk_task_id (st_tasks s)) of
       [] \<Rightarrow> Inr (id_prefix now @ pad 4 1)
     | i # is \<Rightarrow> (let top = fold max is i in
         case py_int (last (split_on (CHR ''-'') top)) of
           None \<Rightarrow> raise ValueError (''invalid literal for int() with base 10: ''
              @ repr_str (last (split_on (CHR ''-'') top)))
         | Some n \<Rightarrow> Inr (id_prefix now @ pad 4 (n + 1))))"

text \<open>The clock is read for the row, for the date of the id, and for the log entry.\<close>

definition create_task :: "int \<Rightarrow> int \<Rightarrow> int \<Rightarrow> string \<Rightarrow> string \<Rightarrow> task op" where
  "create_task now today logged title request s = bindE (next_task_id today s) (\<lambda>i.
     if i \<in> tk_task_id ` set (st_tasks s) then raise IntegrityError ''UNIQUE constraint failed: tasks.task_id''
     else (let t = \<lparr>tk_task_id = i, tk_title = title, tk_request = request, tk_status = NEW,
                    tk_created_at = now, tk_updated_at = now\<rparr> in
       Inr (t, record_activity logged (Some i) ''harness'' ''task_created'' ''ok'' title
                 (s\<lparr>st_tasks := st_tasks s @ [t]\<rparr>))))"

definition list_tasks :: "store \<Rightarrow> task list" where
  "list_tasks s = sort_key (\<lambda>t. - tk_created_at t) (st_tasks s)"

definition set_status :: "int \<Rightarrow> string \<Rightarrow> task_status \<Rightarrow> store \<Rightarrow> task result \<times> store" where
  "set_status now task_id status s = (
     let s' = s\<lparr>st_tasks := map (\<lambda>t. if tk_task_id t = task_id
         then t\<lparr>tk_status := status, tk_updated_at := now\<rparr> else t) (st_tasks s)\<rparr>
     in (get_task task_id s', s'))"

section \<open>Contracts\<close>

definition bind_task_contract :: "int \<Rightarrow> string \<Rightarrow> json \<Rightarrow> string op" where
  "bind_task_contract now task_id contract s = bindE (get_task task_id s) (\<lambda>_.
     case contract of JObj c \<Rightarrow>
       (let schema_version = strip (str_or_empty (dict_get c ''schema_version'' JNull)) in
        if schema_version = [] then raise ValueError ''contract schema_version is required''
        else if str_or_empty (dict_get c ''task_id'' JNull) \<noteq> task_id
          then raise ValueError ''contract task_id does not match task''
        else (case st_contracts s task_id of
          Some row \<Rightarrow> if ct_contract_sha256 row \<noteq> digest contract
            then raise ValueError ''task contract is immutable once bound''
            else Inr (digest contract, s)
        | None \<Rightarrow> Inr (digest contract,
            record_activity now (Some task_id) ''validator_bus'' ''task_contract_bound'' ''ok''
              (''schema='' @ schema_version @ '' digest='' @ digest contract)
              (s\<lparr>st_contracts := (st_contracts s)(task_id \<mapsto>
                 \<lparr>ct_schema_version = schema_version, ct_contract_json = dumps contract,
                  ct_contract_sha256 = digest contract, ct_bound_at = now\<rparr>)\<rparr>))))
     | _ \<Rightarrow> raise TypeError ''contract must be a dictionary'')"

definition task_contract_for_task :: "string \<Rightarrow> store \<Rightarrow> (string \<times> json) list option result" where
  "task_contract_for_task task_id s = (case st_contracts s task_id of
     None \<Rightarrow> Inr None
   | Some row \<Rightarrow> (case loads (ct_contract_json row) of
       None \<Rightarrow> raise ValueError ''JSONDecodeError''
     | Some (JObj c) \<Rightarrow> Inr (Some c)
     | Some _ \<Rightarrow> Inr None))"

section \<open>Execution budgets\<close>

definition delta_value :: "int \<Rightarrow> string \<Rightarrow> int result" where
  "delta_value v field = (if v < 0 then raise ValueError (field @ '' must be an integer >= 0'') else Inr v)"

definition budget_value :: "json \<Rightarrow> string \<Rightarrow> int result" where
  "budget_value v field = (case v of JInt i \<Rightarrow> delta_value i field
     | _ \<Rightarrow> raise ValueError (field @ '' must be an integer >= 0''))"

record limits =
  li_max_steps :: int
  li_max_tool_calls :: int
  li_max_retries :: int
  li_max_escalations :: int
  li_max_wall_time_ms :: int

definition bound_execution_limits :: "string \<Rightarrow> store \<Rightarrow> limits result" where
  "bound_execution_limits task_id s = bindE (task_contract_for_task task_id s) (\<lambda>contract.
     case contract of None \<Rightarrow> raise ValueError ''TASK_CONTRACT_NOT_BOUND''
     | Some c \<Rightarrow> (case dict_get c ''execution_budget'' JNull of
         JObj e \<Rightarrow>
           bindE (budget_value (dict_get e ''max_steps'' JNull) ''max_steps'') (\<lambda>ms.
           bindE (budget_value (dict_get e ''max_tool_calls'' JNull) ''max_tool_calls'') (\<lambda>mt.
           bindE (budget_value (dict_get e ''max_retries'' JNull) ''max_retries'') (\<lambda>mr.
           bindE (budget_value (dict_get e ''max_escalations'' JNull) ''max_escalations'') (\<lambda>me.
           bindE (budget_value (dict_get e ''max_wall_time_ms'' JNull) ''max_wall_time_ms'') (\<lambda>mw.
           Inr \<lparr>li_max_steps = ms, li_max_tool_calls = mt, li_max_retries = mr, li_max_escalations = me,
                li_max_wall_time_ms = mw\<rparr>)))))
       | _ \<Rightarrow> raise ValueError ''BOUND_TASK_CONTRACT_EXECUTION_BUDGET_MISSING''))"

text \<open>The last wall clock time a \<open>datetime\<close> can hold, the offset of the Tokyo zone that the texts carry and in which
  the sum is formed, and the largest integer SQLite stores.\<close>

definition MAX_INSTANT :: int where "MAX_INSTANT = 253402300799999999"
definition TOKYO_OFFSET :: int where "TOKYO_OFFSET = 32400000000"
definition SQL_MAX :: int where "SQL_MAX = 2 ^ 63 - 1"

definition parse_stamp :: "stamp \<Rightarrow> int result" where
  "parse_stamp t = (case t of At n \<Rightarrow> Inr n | Blank \<Rightarrow> raise ValueError (''Invalid isoformat string: '' @ repr_str [])
     | Malformed m \<Rightarrow> raise ValueError (''Invalid isoformat string: '' @ repr_str m))"

definition deadline :: "stamp \<Rightarrow> int \<Rightarrow> stamp result" where
  "deadline bound_at max_wall = bindE (parse_stamp bound_at) (\<lambda>started.
     if MAX_INSTANT < started + TOKYO_OFFSET + max_wall * 1000 then raise OverflowError ''date value out of range''
     else Inr (At (started + max_wall * 1000)))"

definition deadline_expired :: "stamp \<Rightarrow> int \<Rightarrow> bool result" where
  "deadline_expired deadline_at now =
     bindE (reraise is_value_error ValueError ''TASK_EXECUTION_BUDGET_DEADLINE_INVALID'' (parse_stamp deadline_at))
       (\<lambda>d. Inr (d \<le> now))"

definition limits_details :: "limits \<Rightarrow> string" where
  "limits_details l = ''max_steps='' @ show_int (li_max_steps l) @ '' max_tool_calls='' @ show_int (li_max_tool_calls l)
     @ '' max_retries='' @ show_int (li_max_retries l) @ '' max_escalations='' @ show_int (li_max_escalations l)
     @ '' max_wall_time_ms='' @ show_int (li_max_wall_time_ms l)"

definition legacy_row :: "budget_row \<Rightarrow> bool" where
  "legacy_row r \<longleftrightarrow> bu_max_steps r < 0 \<or> bu_max_tool_calls r < 0 \<or> bu_max_wall_time_ms r < 0 \<or> bu_deadline_at r = Blank"

text \<open>Binding an integer that does not fit a SQLite column raises.\<close>

definition sql_ints :: "int list \<Rightarrow> unit result" where
  "sql_ints ns = (if list_ex (\<lambda>n. SQL_MAX < n) ns
     then raise OverflowError ''Python int too large to convert to SQLite INTEGER'' else Inr ())"

definition task_execution_budget_for_task :: "string \<Rightarrow> store \<Rightarrow> budget_row result" where
  "task_execution_budget_for_task task_id s = (case st_budgets s task_id of
     None \<Rightarrow> raise ValueError ''TASK_EXECUTION_BUDGET_NOT_BOUND'' | Some row \<Rightarrow> Inr row)"

definition put_budget :: "string \<Rightarrow> budget_row \<Rightarrow> store \<Rightarrow> store" where
  "put_budget task_id row s = s\<lparr>st_budgets := (st_budgets s)(task_id \<mapsto> row)\<rparr>"

definition bind_task_execution_budget :: "int \<Rightarrow> string \<Rightarrow> budget_row op" where
  "bind_task_execution_budget now task_id s = bindE (get_task task_id s) (\<lambda>_.
     bindE (bound_execution_limits task_id s) (\<lambda>l.
     case st_budgets s task_id of
       None \<Rightarrow>
         bindE (deadline (At now) (li_max_wall_time_ms l)) (\<lambda>d.
         bindE (sql_ints [li_max_steps l, li_max_tool_calls l, li_max_retries l, li_max_escalations l,
                          li_max_wall_time_ms l]) (\<lambda>_.
         let row = \<lparr>bu_max_steps = li_max_steps l, bu_max_tool_calls = li_max_tool_calls l,
               bu_max_retries = li_max_retries l, bu_max_escalations = li_max_escalations l,
               bu_max_wall_time_ms = li_max_wall_time_ms l, bu_steps_used = 0, bu_tool_calls_used = 0,
               bu_retries_used = 0, bu_escalations_used = 0, bu_deadline_at = d, bu_bound_at = At now,
               bu_updated_at = now\<rparr>
         in Inr (row, record_activity now (Some task_id) ''execution_budget'' ''execution_budget_bound'' ''ok''
                        (limits_details l) (put_budget task_id row s))))
     | Some row \<Rightarrow>
         if bu_max_retries row \<noteq> li_max_retries l \<or> bu_max_escalations row \<noteq> li_max_escalations l
           then raise ValueError ''TASK_EXECUTION_BUDGET_IMMUTABLE_MISMATCH''
         else if legacy_row row then
           bindE (deadline (bu_bound_at row) (li_max_wall_time_ms l)) (\<lambda>d.
           bindE (sql_ints [li_max_steps l, li_max_tool_calls l, li_max_wall_time_ms l]) (\<lambda>_.
           let row' = row\<lparr>bu_max_steps := li_max_steps l, bu_max_tool_calls := li_max_tool_calls l,
                 bu_max_wall_time_ms := li_max_wall_time_ms l, bu_deadline_at := d, bu_updated_at := now\<rparr>
           in Inr (row', record_activity now (Some task_id) ''execution_budget'' ''execution_budget_extended'' ''ok''
                           (limits_details l) (put_budget task_id row' s))))
         else if bu_max_steps row \<noteq> li_max_steps l \<or> bu_max_tool_calls row \<noteq> li_max_tool_calls l
             \<or> bu_max_wall_time_ms row \<noteq> li_max_wall_time_ms l
           then raise ValueError ''TASK_EXECUTION_BUDGET_IMMUTABLE_MISMATCH''
         else Inr (row, s)))"

record deltas =
  dl_steps :: int
  dl_tool_calls :: int
  dl_retries :: int
  dl_escalations :: int

definition no_deltas :: "deltas \<Rightarrow> bool" where
  "no_deltas d \<longleftrightarrow> dl_steps d = 0 \<and> dl_tool_calls d = 0 \<and> dl_retries d = 0 \<and> dl_escalations d = 0"

definition check_deltas :: "deltas \<Rightarrow> unit result" where
  "check_deltas d =
     bindE (delta_value (dl_steps d) ''steps'') (\<lambda>_.
     bindE (delta_value (dl_tool_calls d) ''tool_calls'') (\<lambda>_.
     bindE (delta_value (dl_retries d) ''retries'') (\<lambda>_.
     bindE (delta_value (dl_escalations d) ''escalations'') (\<lambda>_. Inr ()))))"

text \<open>The counters after a reservation, if the deadline has not passed and no limit is exceeded. The
  store and the linked budget compute them alike.\<close>

definition project :: "budget_row \<Rightarrow> deltas \<Rightarrow> int \<Rightarrow> budget_row result" where
  "project row d now = bindE (deadline_expired (bu_deadline_at row) now) (\<lambda>expired.
     if expired then raise ValueError ''TASK_WALL_TIME_BUDGET_EXHAUSTED''
     else if bu_max_steps row < bu_steps_used row + dl_steps d then raise ValueError ''TASK_STEP_BUDGET_EXHAUSTED''
     else if bu_max_tool_calls row < bu_tool_calls_used row + dl_tool_calls d
       then raise ValueError ''TASK_TOOL_CALL_BUDGET_EXHAUSTED''
     else if bu_max_retries row < bu_retries_used row + dl_retries d then raise ValueError ''MODEL_RETRY_BUDGET_EXHAUSTED''
     else if bu_max_escalations row < bu_escalations_used row + dl_escalations d
       then raise ValueError ''MODEL_ESCALATION_BUDGET_EXHAUSTED''
     else Inr (row\<lparr>bu_steps_used := bu_steps_used row + dl_steps d,
                   bu_tool_calls_used := bu_tool_calls_used row + dl_tool_calls d,
                   bu_retries_used := bu_retries_used row + dl_retries d,
                   bu_escalations_used := bu_escalations_used row + dl_escalations d,
                   bu_updated_at := now\<rparr>))"

definition reserve_task_execution_budget :: "int \<Rightarrow> string \<Rightarrow> deltas \<Rightarrow> budget_row op" where
  "reserve_task_execution_budget now task_id d s = bindE (check_deltas d) (\<lambda>_.
     case st_budgets s task_id of
       None \<Rightarrow> raise ValueError ''TASK_EXECUTION_BUDGET_NOT_BOUND''
     | Some row \<Rightarrow> bindE (project row d now) (\<lambda>row'.
         if no_deltas d then Inr (row, s) else Inr (row', put_budget task_id row' s)))"

section \<open>Validator results and uploads\<close>

definition record_validator_result ::
  "int \<Rightarrow> string \<Rightarrow> string \<Rightarrow> string \<Rightarrow> string \<Rightarrow> string \<Rightarrow> string list \<Rightarrow> int \<Rightarrow> nat op" where
  "record_validator_result now task_id validator version status reason refs attempt s =
     bindE (get_task task_id s) (\<lambda>_.
     let i = Suc (fold (\<lambda>r m. max (vr_id r) m) (st_validators s) 0) in
     Inr (i, s\<lparr>st_validators := st_validators s @ [\<lparr>vr_id = i, vr_timestamp = now, vr_task_id = task_id,
       vr_validator = validator, vr_validator_version = version, vr_status = status, vr_reason_code = reason,
       vr_evidence_refs = dumps (JList (map JStr refs)), vr_attempt = attempt\<rparr>]\<rparr>))"

definition validator_results_for_task :: "string \<Rightarrow> store \<Rightarrow> validator_row list" where
  "validator_results_for_task task_id s = sort_key vr_id (filter (\<lambda>r. vr_task_id r = task_id) (st_validators s))"

definition attach_uploads :: "int \<Rightarrow> string \<Rightarrow> string list \<Rightarrow> store \<Rightarrow> store" where
  "attach_uploads now task_id upload_ids s = s\<lparr>st_uploads :=
     fold (\<lambda>u ups. if \<exists>(t, v, c) \<in> set ups. t = task_id \<and> v = u then ups else ups @ [(task_id, u, now)])
       upload_ids (st_uploads s)\<rparr>"

definition upload_ids_for_task :: "string \<Rightarrow> store \<Rightarrow> string list" where
  "upload_ids_for_task task_id s =
     map (\<lambda>(t, u, c). u) (sort_key (\<lambda>(t, u, c). c) (sort_key (\<lambda>(t, u, c). u)
       (filter (\<lambda>(t, u, c). t = task_id) (st_uploads s))))"

section \<open>Reservations\<close>

definition counters_ok :: "budget_row \<Rightarrow> bool" where
  "counters_ok r \<longleftrightarrow>
     0 \<le> bu_steps_used r \<and> bu_steps_used r \<le> bu_max_steps r
   \<and> 0 \<le> bu_tool_calls_used r \<and> bu_tool_calls_used r \<le> bu_max_tool_calls r
   \<and> 0 \<le> bu_retries_used r \<and> bu_retries_used r \<le> bu_max_retries r
   \<and> 0 \<le> bu_escalations_used r \<and> bu_escalations_used r \<le> bu_max_escalations r"

text \<open>Rows written before the step, tool and time limits existed have no deadline and unused counters.\<close>

definition row_ok :: "budget_row \<Rightarrow> bool" where
  "row_ok r \<longleftrightarrow> (counters_ok r \<and> \<not> legacy_row r) \<or>
     (bu_deadline_at r = Blank \<and> bu_steps_used r = 0 \<and> bu_tool_calls_used r = 0
      \<and> 0 \<le> bu_retries_used r \<and> bu_retries_used r \<le> bu_max_retries r
      \<and> 0 \<le> bu_escalations_used r \<and> bu_escalations_used r \<le> bu_max_escalations r)"

definition budgets_wf :: "store \<Rightarrow> bool" where
  "budgets_wf s \<longleftrightarrow> (\<forall>t r. st_budgets s t = Some r \<longrightarrow> row_ok r)"

definition charge :: "deltas \<Rightarrow> int \<Rightarrow> budget_row \<Rightarrow> budget_row" where
  "charge d now row = row\<lparr>bu_steps_used := bu_steps_used row + dl_steps d,
     bu_tool_calls_used := bu_tool_calls_used row + dl_tool_calls d,
     bu_retries_used := bu_retries_used row + dl_retries d,
     bu_escalations_used := bu_escalations_used row + dl_escalations d, bu_updated_at := now\<rparr>"

definition deltas_ok :: "deltas \<Rightarrow> bool" where
  "deltas_ok d \<longleftrightarrow> 0 \<le> dl_steps d \<and> 0 \<le> dl_tool_calls d \<and> 0 \<le> dl_retries d \<and> 0 \<le> dl_escalations d"

lemma check_deltas_iff [simp]: "check_deltas d = Inr u \<longleftrightarrow> deltas_ok d"
  by (auto simp: check_deltas_def deltas_ok_def delta_value_def bindE_Inr_iff)

lemma deadline_expired_iff: "deadline_expired st now = Inr b \<longleftrightarrow> (\<exists>d. st = At d \<and> b = (d \<le> now))"
  by (cases st) (auto simp: deadline_expired_def parse_stamp_def)

lemma project_iff:
  "project row d now = Inr row' \<longleftrightarrow> row' = charge d now row \<and> (\<exists>t. bu_deadline_at row = At t \<and> now < t)
     \<and> bu_steps_used row + dl_steps d \<le> bu_max_steps row
     \<and> bu_tool_calls_used row + dl_tool_calls d \<le> bu_max_tool_calls row
     \<and> bu_retries_used row + dl_retries d \<le> bu_max_retries row
     \<and> bu_escalations_used row + dl_escalations d \<le> bu_max_escalations row"
proof (cases "bu_deadline_at row")
  case (At t)
  then show ?thesis
    by (cases "t \<le> now") (simp_all add: project_def deadline_expired_def parse_stamp_def charge_def not_less eq_commute)
qed (simp_all add: project_def deadline_expired_def parse_stamp_def)

lemma project_ok:
  assumes "project row d now = Inr row'" "deltas_ok d" "row_ok row"
  shows "counters_ok row'" "row_ok row'" "\<not> legacy_row row"
  using assms by (auto simp: project_iff charge_def deltas_ok_def row_ok_def counters_ok_def legacy_row_def)

lemma reserve_iff:
  "reserve_task_execution_budget now t d s = Inr (r, s') \<longleftrightarrow> deltas_ok d
    \<and> (\<exists>row. st_budgets s t = Some row \<and> project row d now = Inr (charge d now row)
        \<and> (if no_deltas d then r = row \<and> s' = s else r = charge d now row \<and> s' = put_budget t r s))"
  by (auto simp: reserve_task_execution_budget_def bindE_Inr_iff project_iff split: option.splits if_splits)

lemma put_budget_simps [simp]:
  "st_budgets (put_budget t r s) = (st_budgets s)(t \<mapsto> r)" "st_tasks (put_budget t r s) = st_tasks s"
  "st_contracts (put_budget t r s) = st_contracts s" "st_revocations (put_budget t r s) = st_revocations s"
  by (simp_all add: put_budget_def)

lemma record_activity_simps [simp]:
  "st_budgets (record_activity n t a b c d s) = st_budgets s" "st_tasks (record_activity n t a b c d s) = st_tasks s"
  "st_contracts (record_activity n t a b c d s) = st_contracts s"
  "st_revocations (record_activity n t a b c d s) = st_revocations s"
  by (simp_all add: record_activity_def)

lemma budgets_wf_put: "budgets_wf s \<Longrightarrow> row_ok r \<Longrightarrow> budgets_wf (put_budget t r s)"
  by (auto simp: budgets_wf_def)

lemma reserve_wf:
  assumes "reserve_task_execution_budget now t d s = Inr (r, s')" "budgets_wf s"
  shows "budgets_wf s' \<and> counters_ok r"
proof -
  from assms(1) obtain row where row: "deltas_ok d" "st_budgets s t = Some row"
    "project row d now = Inr (charge d now row)"
    "if no_deltas d then r = row \<and> s' = s else r = charge d now row \<and> s' = put_budget t r s"
    by (auto simp: reserve_iff)
  have c: "counters_ok (charge d now row)" "row_ok (charge d now row)"
    using project_ok [OF row(3,1)] row(2) assms(2) by (auto simp: budgets_wf_def)
  moreover have "counters_ok row" if "no_deltas d"
    using c(1) that by (simp add: counters_ok_def charge_def no_deltas_def)
  ultimately show ?thesis
    using row(4) assms(2) budgets_wf_put [of s] by (auto split: if_splits)
qed

section \<open>Binding\<close>

definition row_limits :: "budget_row \<Rightarrow> limits" where
  "row_limits r = \<lparr>li_max_steps = bu_max_steps r, li_max_tool_calls = bu_max_tool_calls r,
     li_max_retries = bu_max_retries r, li_max_escalations = bu_max_escalations r,
     li_max_wall_time_ms = bu_max_wall_time_ms r\<rparr>"

lemma budget_value_iff: "budget_value v f = Inr i \<longleftrightarrow> v = JInt i \<and> 0 \<le> i"
  by (auto simp: budget_value_def delta_value_def split: json.splits if_splits)

lemma limits_nonneg:
  "bound_execution_limits t s = Inr l \<Longrightarrow> 0 \<le> li_max_steps l \<and> 0 \<le> li_max_tool_calls l \<and> 0 \<le> li_max_retries l
     \<and> 0 \<le> li_max_escalations l \<and> 0 \<le> li_max_wall_time_ms l"
  by (auto simp: bound_execution_limits_def budget_value_iff split: option.splits json.splits)

lemma deadline_At: "deadline st w = Inr d \<Longrightarrow> \<exists>t. d = At t"
  by (auto simp: deadline_def split: if_splits)

text \<open>A bound row carries the limits of the contract, and binding again changes nothing.\<close>

lemma bind_row:
  assumes "bind_task_execution_budget now t s = Inr (r, s')"
  shows "st_budgets s' t = Some r" "st_budgets s' = (st_budgets s)(t \<mapsto> r)"
    "\<exists>l. bound_execution_limits t s = Inr l \<and> row_limits r = l" "\<not> legacy_row r"
    "st_tasks s' = st_tasks s" "st_contracts s' = st_contracts s" "st_revocations s' = st_revocations s"
    "\<And>row. st_budgets s t = Some row \<Longrightarrow> bu_steps_used r = bu_steps_used row
       \<and> bu_tool_calls_used r = bu_tool_calls_used row \<and> bu_retries_used r = bu_retries_used row
       \<and> bu_escalations_used r = bu_escalations_used row \<and> bu_bound_at r = bu_bound_at row
       \<and> (\<not> legacy_row row \<longrightarrow> r = row)"
    "st_budgets s t = None \<Longrightarrow> counters_ok r \<and> bu_steps_used r = 0 \<and> bu_tool_calls_used r = 0
       \<and> bu_retries_used r = 0 \<and> bu_escalations_used r = 0
       \<and> bu_deadline_at r = At (now + bu_max_wall_time_ms r * 1000)"
proof -
  from assms obtain tk l where g: "get_task t s = Inr tk" and l: "bound_execution_limits t s = Inr l"
    by (auto simp: bind_task_execution_budget_def)
  note b = assms [unfolded bind_task_execution_budget_def g l bindE_simps]
  note nn = limits_nonneg [OF l]
  have all: "st_budgets s' t = Some r \<and> st_budgets s' = (st_budgets s)(t \<mapsto> r) \<and> row_limits r = l \<and> \<not> legacy_row r
    \<and> st_tasks s' = st_tasks s \<and> st_contracts s' = st_contracts s \<and> st_revocations s' = st_revocations s
    \<and> (\<forall>row. st_budgets s t = Some row \<longrightarrow> bu_steps_used r = bu_steps_used row
       \<and> bu_tool_calls_used r = bu_tool_calls_used row \<and> bu_retries_used r = bu_retries_used row
       \<and> bu_escalations_used r = bu_escalations_used row \<and> bu_bound_at r = bu_bound_at row
       \<and> (\<not> legacy_row row \<longrightarrow> r = row))
    \<and> (st_budgets s t = None \<longrightarrow> counters_ok r \<and> bu_steps_used r = 0 \<and> bu_tool_calls_used r = 0
       \<and> bu_retries_used r = 0 \<and> bu_escalations_used r = 0
       \<and> bu_deadline_at r = At (now + bu_max_wall_time_ms r * 1000))"
  proof (cases "st_budgets s t")
    case None
    with b nn show ?thesis
      by (auto simp: row_limits_def legacy_row_def counters_ok_def deadline_def parse_stamp_def Let_def split: if_splits)
  next
    case (Some row)
    show ?thesis
    proof (cases "legacy_row row")
      case True
      with b Some obtain d where d: "deadline (bu_bound_at row) (li_max_wall_time_ms l) = Inr d"
        "r = row\<lparr>bu_max_steps := li_max_steps l, bu_max_tool_calls := li_max_tool_calls l,
           bu_max_wall_time_ms := li_max_wall_time_ms l, bu_deadline_at := d, bu_updated_at := now\<rparr>"
        "s' = record_activity now (Some t) ''execution_budget'' ''execution_budget_extended'' ''ok''
           (limits_details l) (put_budget t r s)"
        "bu_max_retries row = li_max_retries l" "bu_max_escalations row = li_max_escalations l"
        by (auto simp: Let_def split: if_splits)
      with deadline_At [OF d(1)] Some nn True show ?thesis
        by (auto simp: row_limits_def legacy_row_def)
    next
      case False
      with b Some show ?thesis by (auto simp: row_limits_def split: if_splits)
    qed
  qed
  from all show "st_budgets s' t = Some r" "st_budgets s' = (st_budgets s)(t \<mapsto> r)" "\<not> legacy_row r"
    "st_tasks s' = st_tasks s" "st_contracts s' = st_contracts s" "st_revocations s' = st_revocations s"
    by simp_all
  from all l show "\<exists>l. bound_execution_limits t s = Inr l \<and> row_limits r = l" by blast
  from all show "\<And>row. st_budgets s t = Some row \<Longrightarrow> bu_steps_used r = bu_steps_used row
       \<and> bu_tool_calls_used r = bu_tool_calls_used row \<and> bu_retries_used r = bu_retries_used row
       \<and> bu_escalations_used r = bu_escalations_used row \<and> bu_bound_at r = bu_bound_at row
       \<and> (\<not> legacy_row row \<longrightarrow> r = row)"
    "st_budgets s t = None \<Longrightarrow> counters_ok r \<and> bu_steps_used r = 0 \<and> bu_tool_calls_used r = 0
       \<and> bu_retries_used r = 0 \<and> bu_escalations_used r = 0
       \<and> bu_deadline_at r = At (now + bu_max_wall_time_ms r * 1000)" by blast+
qed

lemma bind_retry:
  assumes "bind_task_execution_budget now t s = Inr (r, s')" "st_budgets s t = Some row"
  shows "bu_max_retries r = bu_max_retries row \<and> bu_max_escalations r = bu_max_escalations row"
  using assms by (auto simp: bind_task_execution_budget_def Let_def split: if_splits)

section \<open>Contracts are immutable\<close>

lemma bind_contract_cases:
  assumes "bind_task_contract now t contract s = Inr (d, s')"
  obtains c where "contract = JObj c" "d = digest contract" "\<exists>tk. find_task s t = Some tk"
    "strip (str_or_empty (dict_get c ''schema_version'' JNull)) \<noteq> []" "str_or_empty (dict_get c ''task_id'' JNull) = t"
    "(\<exists>row. st_contracts s t = Some row \<and> ct_contract_sha256 row = d \<and> s' = s) \<or>
     (st_contracts s t = None \<and> st_contracts s' = (st_contracts s)(t \<mapsto>
        \<lparr>ct_schema_version = strip (str_or_empty (dict_get c ''schema_version'' JNull)),
         ct_contract_json = dumps contract, ct_contract_sha256 = digest contract, ct_bound_at = now\<rparr>)
      \<and> st_tasks s' = st_tasks s \<and> st_budgets s' = st_budgets s \<and> st_revocations s' = st_revocations s)"
  using assms
  by (auto simp: bind_task_contract_def get_task_def Let_def split: json.splits option.splits if_splits)

lemma find_task_cong: "st_tasks s = st_tasks s' \<Longrightarrow> find_task s t = find_task s' t"
  by (simp add: find_task_def)

lemma norm_json_JObj: "norm_json (JObj c) = JObj (map (\<lambda>(k, v). (k, norm_json v)) (sort_key fst c))"
  by simp

section \<open>Fresh task ids\<close>

lemma digit_val_less: "is_digit c \<Longrightarrow> is_digit d \<Longrightarrow> digit_val c < digit_val d \<longleftrightarrow> c < d"
  by (auto simp: digit_val_def is_digit_def less_eq_char_def less_char_def)

text \<open>On digit strings of equal length the binary order is the numeric order.\<close>

lemma digits_order:
  assumes "length xs = length ys" "list_all is_digit xs" "list_all is_digit ys"
  shows "xs < ys \<longleftrightarrow> nat_of_digits xs < nat_of_digits ys"
  using assms
proof (induction xs ys rule: list_induct2)
  case (Cons x xs y ys)
  then have b: "nat_of_digits xs < 10 ^ length xs" "nat_of_digits ys < 10 ^ length xs" "is_digit x" "is_digit y"
    using nat_of_digits_bound [of xs] nat_of_digits_bound [of ys] by auto
  have key: "a * n + p < b * n + q" if "a < b" "p < n" for a b n p q :: nat
  proof -
    have "a * n + p < (a + 1) * n" using that(2) by simp
    also have "\<dots> \<le> b * n" using that(1) by (intro mult_le_mono1) simp
    finally show ?thesis by simp
  qed
  consider "x < y" | "x = y" | "y < x" by force
  then show ?case
  proof cases
    case 1
    with b key [of "digit_val x" "digit_val y" "nat_of_digits xs" "10 ^ length xs"] show ?thesis
      using Cons.hyps digit_val_less [of x y] by (simp add: nat_of_digits_Cons)
  next
    case 2
    with Cons show ?thesis by (simp add: nat_of_digits_Cons)
  next
    case 3
    with b key [of "digit_val y" "digit_val x" "nat_of_digits ys" "10 ^ length xs" "nat_of_digits xs"]
    have "nat_of_digits (y # ys) < nat_of_digits (x # xs)"
      using Cons.hyps digit_val_less [of y x] by (simp add: nat_of_digits_Cons)
    with 3 show ?thesis by (simp add: less_not_sym)
  qed
qed simp

lemma digits_ok_digits: "list_all is_digit ds \<Longrightarrow> ds \<noteq> [] \<or> b \<Longrightarrow> digits_ok b ds"
  by (induction b ds rule: digits_ok.induct) auto

lemma py_int_digits:
  assumes "list_all is_digit ds" "ds \<noteq> []"
  shows "py_int ds = Some (int (nat_of_digits ds))"
proof -
  have ns: "is_digit c \<Longrightarrow> \<not> is_space c" for c using ident_not_space by blast
  have "strip ds = ds" using assms ns by (intro strip_id) (auto simp: list_all_iff)
  moreover have "\<not> starts_with ds ''-''" "\<not> starts_with ds ''+''"
    using assms by (cases ds; auto simp: is_digit_def)+
  moreover have "filter is_digit ds = ds" using assms by (auto simp: list_all_iff)
  ultimately show ?thesis
    using digits_ok_digits [OF assms(1)] assms(2) by (simp add: py_int_def Let_def)
qed

text \<open>The ids of a day.\<close>

definition day_ids :: "int \<Rightarrow> store \<Rightarrow> string list" where
  "day_ids today s = filter (like_prefix (id_prefix today)) (map tk_task_id (st_tasks s))"

definition numbers :: "int \<Rightarrow> int \<Rightarrow> string set" where
  "numbers today m = (\<lambda>n. id_prefix today @ pad 4 n) ` {1..m}"

lemma append_less [simp]: "p @ xs < p @ ys \<longleftrightarrow> xs < (ys :: string)"
  by (induction p) auto

lemma fold_max_ge: "(x :: 'a::linorder) \<in> set (y # ys) \<Longrightarrow> x \<le> fold max ys y"
  unfolding Max.set_eq_fold [symmetric] by (rule Max_ge) simp_all

lemma fold_max_mem: "fold max ys (y :: 'a::linorder) \<in> set (y # ys)"
  unfolding Max.set_eq_fold [symmetric] by (rule Max_in) simp_all

lemma last_part:
  assumes "0 \<le> n" "n < 10 ^ 4"
  shows "last (split_on (CHR ''-'') (id_prefix now @ pad 4 n)) = pad 4 n"
proof -
  have "CHR ''-'' \<notin> set (pad 4 n)"
    using pad_digits(2) [of n 4] assms by (auto simp: list_all_iff is_digit_def)
  then have "split_on (CHR ''-'') (pad 4 n) = [pad 4 n]" by (rule split_on_word)
  moreover have "id_prefix now @ pad 4 n = (''TASK-'' @ date_compact now) @ CHR ''-'' # pad 4 n"
    by (simp add: id_prefix_def)
  ultimately show ?thesis
    using split_on_concat [of "CHR ''-''" "''TASK-'' @ date_compact now" "pad 4 n"] by simp
qed

text \<open>The greatest id of a day in binary order: after 9999 it stays 9999.\<close>

lemma greatest_number:
  assumes "1 \<le> m" "m \<le> 10000" "i \<in> numbers today m"
  shows "i \<le> id_prefix today @ pad 4 (min m 9999)"
proof -
  from assms(3) obtain n where n: "1 \<le> n" "n \<le> m" "i = id_prefix today @ pad 4 n" by (auto simp: numbers_def)
  let ?k = "min m 9999"
  have "pad 4 n \<le> pad 4 ?k"
  proof (cases "n = 10000")
    case True
    then have "m = 10000" using n(2) assms(2) by simp
    moreover have "pad 4 10000 = ''10000''" "pad 4 9999 = ''9999''" by (simp_all add: pad_def show_int_def show_nat.simps Let_def)
    ultimately show ?thesis using True by simp
  next
    case False
    then have "n \<le> ?k" "?k < 10 ^ 4" "n < 10 ^ 4" using n(1,2) assms(2) by auto
    moreover note pn = pad_digits [of n 4] and pk = pad_digits [of ?k 4]
    ultimately show ?thesis
      using digits_order [of "pad 4 ?k" "pad 4 n"] n(1) assms(1) by (simp add: not_less [symmetric])
  qed
  then show ?thesis using append_less [of "id_prefix today" "pad 4 ?k" "pad 4 n"] by (simp add: n(3) not_less [symmetric])
qed

lemma next_number:
  assumes "set (day_ids today s) = numbers today m" "0 \<le> m" "m \<le> 10000"
  shows "next_task_id today s = Inr (id_prefix today @ pad 4 (min m 9999 + 1))"
proof (cases "day_ids today s")
  case Nil
  then have "m = 0" using assms(1,2) by (auto simp: numbers_def)
  with Nil show ?thesis by (simp add: next_task_id_def day_ids_def)
next
  case (Cons i js)
  let ?k = "min m 9999"
  have m: "1 \<le> m" using assms(1) Cons by (force simp: numbers_def)
  have top: "fold max js i = id_prefix today @ pad 4 ?k"
  proof (rule antisym)
    show "fold max js i \<le> id_prefix today @ pad 4 ?k"
      using fold_max_mem [of js i] greatest_number [OF m assms(3)] assms(1) Cons by auto
    have "id_prefix today @ pad 4 ?k \<in> set (i # js)" using assms(1) m unfolding Cons numbers_def by auto
    then show "id_prefix today @ pad 4 ?k \<le> fold max js i" by (rule fold_max_ge)
  qed
  note pk = pad_digits [of ?k 4]
  have "pad 4 ?k \<noteq> []" using pk m by fastforce
  then show ?thesis
    using Cons top m last_part [of ?k today] py_int_digits [of "pad 4 ?k"] pk by (simp add: next_task_id_def day_ids_def)
qed

text \<open>The first binding stores the payload; read back, its keys are sorted.\<close>

lemma bind_stores:
  assumes "bind_task_contract now t (JObj c) s = Inr (d, s')" "st_contracts s t = None" "plain_json (JObj c)"
  shows "d = digest (JObj c)" "\<exists>row. st_contracts s' t = Some row \<and> ct_contract_sha256 row = d"
    "task_contract_for_task t s' = Inr (Some (map (\<lambda>(k, v). (k, norm_json v)) (sort_key fst c)))"
proof -
  from assms(1,2) obtain v where row: "d = digest (JObj c)"
    "st_contracts s' = (st_contracts s)(t \<mapsto> \<lparr>ct_schema_version = v, ct_contract_json = dumps (JObj c),
         ct_contract_sha256 = digest (JObj c), ct_bound_at = now\<rparr>)"
    by (elim bind_contract_cases) auto
  then show "d = digest (JObj c)" "\<exists>row. st_contracts s' t = Some row \<and> ct_contract_sha256 row = d" by simp_all
  show "task_contract_for_task t s' = Inr (Some (map (\<lambda>(k, v). (k, norm_json v)) (sort_key fst c)))"
    using loads_dumps [OF assms(3)] by (simp add: task_contract_for_task_def row(2) del: dumps.simps)
qed

section \<open>Properties\<close>

definition demo_task :: task where
  "demo_task = \<lparr>tk_task_id = ''T'', tk_title = ''t'', tk_request = ''r'', tk_status = NEW, tk_created_at = 0,
     tk_updated_at = 0\<rparr>"

definition demo_payload :: "(string \<times> json) list" where
  "demo_payload = [(''task_id'', JStr ''T''), (''schema_version'', JStr ''v1''),
     (''execution_budget'', JObj [(''max_steps'', JInt 6), (''max_tool_calls'', JInt 10), (''max_retries'', JInt 1),
        (''max_escalations'', JInt 1), (''max_wall_time_ms'', JInt 300000)])]"

definition demo_store :: store where
  "demo_store = empty_store\<lparr>st_tasks := [demo_task]\<rparr>"

lemma bind_demo: "\<exists>s'. bind_task_contract 5 ''T'' (JObj demo_payload) demo_store = Inr (digest (JObj demo_payload), s')"
proof -
  have "strip ''v1'' = ''v1''" by code_simp
  moreover have "dict_get demo_payload ''schema_version'' JNull = JStr ''v1''"
    "dict_get demo_payload ''task_id'' JNull = JStr ''T''" "find_task demo_store ''T'' = Some demo_task"
    "st_contracts demo_store ''T'' = None"
    by (simp_all add: demo_payload_def dict_get_def find_task_def demo_store_def demo_task_def empty_store_def)
  ultimately show ?thesis
    by (simp add: bind_task_contract_def get_task_def Let_def del: dumps.simps)
qed

text \<open>A sequence of calls of \<open>create_task\<close>, each with its clock readings and arguments; a call that raises changes nothing.\<close>

fun create_all :: "(int \<times> int \<times> int \<times> string \<times> string) list \<Rightarrow> store \<Rightarrow> store" where
  "create_all [] s = s"
| "create_all ((now, today, logged, title, request) # calls) s =
     create_all calls (case create_task now today logged title request s of Inl _ \<Rightarrow> s | Inr (_, s') \<Rightarrow> s')"

lemma create_next:
  assumes "set (day_ids today s) = numbers today m" "0 \<le> m" "m \<le> 10000"
  shows "m < 10000 \<Longrightarrow> \<exists>t s'. create_task now today logged title request s = Inr (t, s') \<and> tk_task_id t = id_prefix today @ pad 4 (m + 1)
      \<and> st_tasks s' = st_tasks s @ [t] \<and> set (day_ids today s') = numbers today (m + 1)"
    "m = 10000 \<Longrightarrow> create_task now today logged title request s = raise IntegrityError ''UNIQUE constraint failed: tasks.task_id''"
proof -
  have like: "like_prefix (id_prefix today) (id_prefix today @ x)" for x by (simp add: like_prefix_def ascii_upper_def)
  then have taken: "id_prefix today @ x \<in> tk_task_id ` set (st_tasks s) \<longleftrightarrow> id_prefix today @ x \<in> numbers today m" for x
    unfolding assms(1) [symmetric] by (auto simp: day_ids_def)
  note next_id = next_number [OF assms]
  show "create_task now today logged title request s = raise IntegrityError ''UNIQUE constraint failed: tasks.task_id''" if "m = 10000"
    using next_id that taken [of "pad 4 10000"] by (auto simp: create_task_def numbers_def)
  assume m: "m < 10000"
  have fresh: "pad 4 (m + 1) \<noteq> pad 4 n" if "1 \<le> n" "n \<le> m" for n
  proof (cases "m = 9999")
    case True
    moreover have "length (pad 4 10000) = 5" by (simp add: pad_def show_int_def show_nat.simps Let_def)
    ultimately show ?thesis using pad_digits(1) [of n 4] that by auto
  next
    case False
    then show ?thesis using pad_digits(3) [of n 4] pad_digits(3) [of "m + 1" 4] that m by auto
  qed
  then have "id_prefix today @ pad 4 (m + 1) \<notin> tk_task_id ` set (st_tasks s)" unfolding taken numbers_def by force
  moreover have "{1..m + 1} = insert (m + 1) {1..m}" using assms(2) by auto
  then have "numbers today (m + 1) = insert (id_prefix today @ pad 4 (m + 1)) (numbers today m)" by (simp add: numbers_def)
  ultimately show "\<exists>t s'. create_task now today logged title request s = Inr (t, s') \<and> tk_task_id t = id_prefix today @ pad 4 (m + 1)
      \<and> st_tasks s' = st_tasks s @ [t] \<and> set (day_ids today s') = numbers today (m + 1)"
    using next_id m like assms(1) by (simp add: create_task_def Let_def day_ids_def) blast
qed

lemma create_all_numbers:
  assumes "set (day_ids today s) = numbers today m" "0 \<le> m" "m \<le> 10000" "\<forall>(now, day, logged, title, request) \<in> set calls. date_compact day = date_compact today"
  shows "set (day_ids today (create_all calls s)) = numbers today (min (m + int (length calls)) 10000)"
  using assms
proof (induction calls arbitrary: s m)
  case (Cons call calls)
  obtain now day logged title request where call: "call = (now, day, logged, title, request)" by (cases call) auto
  have "id_prefix day = id_prefix today" using Cons.prems(4) by (simp add: call id_prefix_def)
  then have day: "day_ids day = day_ids today" "numbers day = numbers today" by (simp_all add: day_ids_def numbers_def fun_eq_iff)
  note next_call = create_next [of day s m, unfolded day, OF Cons.prems(1-3), where now = now and logged = logged and title = title and request = request]
  show ?case
  proof (cases "m < 10000")
    case True
    with next_call(1) obtain t s' where s': "create_task now day logged title request s = Inr (t, s')" "set (day_ids today s') = numbers today (m + 1)" by blast
    with Cons.IH [OF s'(2)] Cons.prems(2,4) True show ?thesis by (simp add: call add.assoc)
  next
    case False
    with Cons.prems(3) have "m = 10000" by simp
    with next_call(2) Cons.IH [OF Cons.prems(1)] Cons.prems show ?thesis by (simp add: call)
  qed
qed simp

text \<open>C30: a day has room for ten thousand tasks. Start from any database without a task of the day and make any number of
  calls of \<open>create_task\<close> on that day, with any arguments. As long as fewer than 10000 calls were made, the next one
  succeeds, with the next number as its id; afterwards every further call fails with a uniqueness violation, because the greatest id
  in binary order is still 9999 and 10000 is generated again.\<close>

theorem create_task_capacity:
  assumes "day_ids today s = []" "\<forall>(now, day, logged, title, request) \<in> set calls. date_compact day = date_compact today"
  shows "set (day_ids today (create_all calls s)) = (\<lambda>n. id_prefix today @ pad 4 n) ` {1..min (int (length calls)) 10000}
    \<and> (if length calls < 10000
       then \<exists>t s'. create_task now today logged title request (create_all calls s) = Inr (t, s')
          \<and> tk_task_id t = id_prefix today @ pad 4 (int (length calls) + 1) \<and> st_tasks s' = st_tasks (create_all calls s) @ [t]
       else create_task now today logged title request (create_all calls s) = raise IntegrityError ''UNIQUE constraint failed: tasks.task_id'')"
proof -
  have "set (day_ids today s) = numbers today 0" using assms(1) by (simp add: numbers_def)
  from create_all_numbers [OF this _ _ assms(2)] have n: "set (day_ids today (create_all calls s)) = numbers today (min (int (length calls)) 10000)"
    by simp
  note next_call = create_next [OF n, where now = now and logged = logged and title = title and request = request]
  show ?thesis
  proof (cases "length calls < 10000")
    case True
    with next_call(1) n show ?thesis by (fastforce simp: numbers_def)
  qed (use next_call(2) n in \<open>simp add: numbers_def\<close>)
qed

theorem create_task_capacity_witness:
  "create_task 0 0 0 ''a'' ''b'' (create_all (replicate 10000 (0, 0, 0, ''x'', ''y'')) demo_store) = raise IntegrityError ''UNIQUE constraint failed: tasks.task_id''
   \<and> (\<exists>t s'. create_task 0 0 0 ''a'' ''b'' (create_all (replicate 9999 (0, 0, 0, ''x'', ''y'')) demo_store) = Inr (t, s'))"
proof -
  have d: "day_ids 0 demo_store = []"
    by (simp add: day_ids_def demo_store_def demo_task_def empty_store_def like_prefix_def id_prefix_def ascii_upper_def ascii_upper_char_def)
  have c: "\<forall>(now, day, logged, title, request) \<in> set (replicate n (0, 0, 0, ''x'', ''y'')). date_compact day = date_compact 0" for n by auto
  note cap = create_task_capacity [OF d c, where now = 0 and logged = 0 and title = "''a''" and request = "''b''"]
  have l: "length (replicate n (0 :: int, 0 :: int, 0 :: int, ''x'', ''y'')) = n" for n by (rule length_replicate)
  from cap [of 10000] cap [of 9999] show ?thesis unfolding l by auto
qed

end
