(* ===== verification/Monotone_Log.thy ===== *)
theory Monotone_Log
  imports Prelude
begin

text \<open>
  An interface of the append-only tables of the program: rows under keys, steps that only append rows
  whose keys are new. Whatever runs, an entry is never lost, changed or doubled.
\<close>

lemma find_snoc_None: "List.find P xs = None \<Longrightarrow> List.find P (xs @ [x]) = (if P x then Some x else None)"
  by (induction xs) (auto split: if_splits)

text \<open>A keyed log whose steps only append rows under new keys never loses or changes an entry.\<close>

locale monotone_log =
  fixes step :: "'s \<Rightarrow> 'x \<Rightarrow> 's" and rows :: "'s \<Rightarrow> 'r list" and key :: "'r \<Rightarrow> 'k"
  assumes step_appends: "\<exists>rs. rows (step s x) = rows s @ rs \<and> distinct (map key rs) \<and> key ` set rs \<inter> key ` set (rows s) = {}"
begin

lemma run_appends: "\<exists>rs. rows (foldl step s xs) = rows s @ rs"
proof (induction xs rule: rev_induct)
  case (snoc x xs)
  with step_appends [of "foldl step s xs" x] show ?case by auto
qed simp

lemma run_lookup:
  assumes "List.find (\<lambda>r. P (key r)) (rows s) = Some r"
  shows "List.find (\<lambda>r. P (key r)) (rows (foldl step s xs)) = Some r"
proof -
  have "List.find Q (ys @ zs) = Some r" if "List.find Q ys = Some r" for Q and ys zs :: "'r list"
    using that by (induction ys) (auto split: if_splits)
  with assms run_appends [of s xs] show ?thesis by auto
qed

lemma run_keys_distinct: "distinct (map key (rows s)) \<Longrightarrow> distinct (map key (rows (foldl step s xs)))"
proof (induction xs rule: rev_induct)
  case (snoc x xs)
  with step_appends [of "foldl step s xs" x] show ?case
    by (auto simp: disjoint_iff image_iff) (metis imageI)
qed simp

end

end
