(* ===== verification/Context_Manifest.thy ===== *)
theory Context_Manifest
  imports Field_Checks Task_Store Monotone_Log
begin

text \<open>
  Model of \<open>src/three_agent/harness_context_manifest.py\<close>: audit manifests of the context a model call was
  built from, and their append-only table. Counts and flags are arbitrary JSON values, because
  \<open>_from_row\<close> builds a manifest from whatever the stored text contains before it is validated. The
  store of tasks is only consulted for the existence of a task. Table creation and the triggers
  that abort updates and deletions are not modelled: no operation updates or deletes a row.
\<close>

section \<open>Records and their validation\<close>

definition CONTEXT_MANIFEST_SCHEMA :: string where
  "CONTEXT_MANIFEST_SCHEMA = ''workspace-context-manifest/v1''"

definition COMPACTION_MODES :: "string list" where
  "COMPACTION_MODES = [''structural'', ''extractive'', ''abstractive'']"

record token_budget =
  tb_max_input :: json
  tb_reserved_output :: json
  tb_compiled_input :: json

record section_input =
  si_section_type :: string
  si_item_count :: json
  si_token_count :: json
  si_source_hash :: string
  si_source_refs :: "string list"
  si_critical :: json

record manifest_section =
  se_section_type :: string
  se_item_count :: json
  se_token_count :: json
  se_source_hash :: string
  se_source_ref_hashes :: "string list"
  se_critical :: json

record compaction_state =
  cs_applied :: json
  cs_modes :: "string list"

record manifest =
  cm_context_manifest_id :: string
  cm_project_id :: string
  cm_conversation_id :: string
  cm_task_id :: string
  cm_model_id :: string
  cm_token_budget :: token_budget
  cm_sections :: "manifest_section list"
  cm_compaction :: compaction_state
  cm_authority_fingerprint :: string
  cm_created_at :: string
  cm_schema_version :: string

abbreviation E :: exc_class where "E \<equiv> ContextManifestError"

definition nonnegative_int :: "json \<Rightarrow> string \<Rightarrow> int result" where
  "nonnegative_int v field = (case v of JInt i \<Rightarrow> if i < 0 then invalid E field else Inr i | _ \<Rightarrow> invalid E field)"

definition token_budget_validate :: "token_budget \<Rightarrow> token_budget result" where
  "token_budget_validate b =
     bindE (nonnegative_int (tb_max_input b) ''max_input'') (\<lambda>max_input.
     bindE (nonnegative_int (tb_reserved_output b) ''reserved_output'') (\<lambda>reserved.
     bindE (nonnegative_int (tb_compiled_input b) ''compiled_input'') (\<lambda>compiled.
     if max_input \<le> 0 then raise E ''MAX_INPUT_MUST_BE_POSITIVE''
     else if max_input \<le> reserved then raise E ''OUTPUT_RESERVE_EXHAUSTS_CONTEXT''
     else if max_input - reserved < compiled then raise E ''CONTEXT_TOKEN_BUDGET_EXCEEDED''
     else Inr b)))"

definition input_capacity :: "token_budget \<Rightarrow> int result" where
  "input_capacity b = bindE (token_budget_validate b) (\<lambda>_.
     case (tb_max_input b, tb_reserved_output b) of (JInt m, JInt r) \<Rightarrow> Inr (m - r) | _ \<Rightarrow> raise TypeError [])"

definition positive_count :: "json \<Rightarrow> unit result" where
  "positive_count v = bindE (nonnegative_int v ''item_count'') (\<lambda>n.
     fail_if E (n \<le> 0) ''SECTION_ITEM_COUNT_MUST_BE_POSITIVE'')"

definition is_bool :: "json \<Rightarrow> bool" where
  "is_bool v = (case v of JBool _ \<Rightarrow> True | _ \<Rightarrow> False)"

definition section_input_validate :: "section_input \<Rightarrow> section_input result" where
  "section_input_validate s = checked
     ([void (id_field E (si_section_type s) ''section_type''), positive_count (si_item_count s),
       void (nonnegative_int (si_token_count s) ''token_count''),
       void (sha256_field E (si_source_hash s) ''source_hash''),
       fail_if E (512 < length (si_source_refs s)) ''SOURCE_REFS_TOO_MANY'']
      @ map (\<lambda>ref. void (single_line E ref ''source_ref'' 2048)) (si_source_refs s)
      @ [fail_if E (\<not> distinct (si_source_refs s)) ''DUPLICATE_SOURCE_REF'',
         fail_if E (\<not> is_bool (si_critical s)) ''INVALID_SECTION_CRITICAL'']) s"

definition section_checks :: "manifest_section \<Rightarrow> unit result list" where
  "section_checks s =
     [void (id_field E (se_section_type s) ''section_type''), positive_count (se_item_count s),
      void (nonnegative_int (se_token_count s) ''token_count''),
      void (sha256_field E (se_source_hash s) ''source_hash'')]
     @ map (\<lambda>h. void (sha256_field E h ''source_ref_hash'')) (se_source_ref_hashes s)
     @ [fail_if E (\<not> distinct (se_source_ref_hashes s)) ''DUPLICATE_SOURCE_REF_HASH'',
        fail_if E (\<not> is_bool (se_critical s)) ''INVALID_SECTION_CRITICAL'']"

definition section_validate :: "manifest_section \<Rightarrow> manifest_section result" where
  "section_validate s = checked (section_checks s) s"

definition compaction_validate :: "compaction_state \<Rightarrow> compaction_state result" where
  "compaction_validate c = checked
     ([fail_if E (\<not> is_bool (cs_applied c)) ''INVALID_COMPACTION_APPLIED'',
       fail_if E (\<not> distinct (cs_modes c)) ''DUPLICATE_COMPACTION_MODE'']
      @ map (\<lambda>m. fail_if E (m \<notin> set COMPACTION_MODES) ''INVALID_COMPACTION_MODE'') (cs_modes c)
      @ [fail_if E (truthy (cs_applied c) \<and> cs_modes c = []) ''COMPACTION_MODE_REQUIRED'',
         fail_if E (\<not> truthy (cs_applied c) \<and> cs_modes c \<noteq> []) ''COMPACTION_MODE_WITHOUT_APPLICATION'']) c"

definition tokens_of :: "json \<Rightarrow> int" where
  "tokens_of v = (case v of JInt i \<Rightarrow> i | _ \<Rightarrow> 0)"

definition manifest_checks :: "manifest \<Rightarrow> unit result list" where
  "manifest_checks m =
     [void (id_field E (cm_context_manifest_id m) ''context_manifest_id''),
      void (id_field E (cm_project_id m) ''project_id''),
      void (id_field E (cm_conversation_id m) ''conversation_id''),
      void (id_field E (cm_task_id m) ''task_id''),
      void (single_line E (cm_model_id m) ''model_id'' 256),
      void (token_budget_validate (cm_token_budget m)),
      fail_if E (cm_sections m = []) ''CONTEXT_SECTIONS_REQUIRED'']
     @ map (\<lambda>s. void (section_validate s)) (cm_sections m)
     @ [fail_if E (sum_list (map (\<lambda>s. tokens_of (se_token_count s)) (cm_sections m))
                   \<noteq> tokens_of (tb_compiled_input (cm_token_budget m))) ''COMPILED_INPUT_TOKEN_MISMATCH'',
        void (compaction_validate (cm_compaction m)),
        void (sha256_field E (cm_authority_fingerprint m) ''authority_fingerprint''),
        void (timestamp_field E (cm_created_at m) ''created_at''),
        fail_if E (cm_schema_version m \<noteq> CONTEXT_MANIFEST_SCHEMA) ''CONTEXT_MANIFEST_SCHEMA_VERSION_MISMATCH'']"

definition manifest_validate :: "manifest \<Rightarrow> manifest result" where
  "manifest_validate m = checked (manifest_checks m) m"

section \<open>Canonical form\<close>

definition token_budget_json :: "token_budget \<Rightarrow> json" where
  "token_budget_json b = JObj [(''max_input'', tb_max_input b), (''reserved_output'', tb_reserved_output b),
     (''compiled_input'', tb_compiled_input b)]"

definition section_json :: "manifest_section \<Rightarrow> json" where
  "section_json s = JObj [(''type'', JStr (se_section_type s)), (''item_count'', se_item_count s),
     (''tokens'', se_token_count s), (''source_hash'', JStr (se_source_hash s)),
     (''source_ref_hashes'', JList (map JStr (se_source_ref_hashes s))), (''critical'', se_critical s)]"

definition compaction_json :: "compaction_state \<Rightarrow> json" where
  "compaction_json c = JObj [(''applied'', cs_applied c), (''mode'', JList (map JStr (cs_modes c)))]"

definition manifest_json :: "manifest \<Rightarrow> json" where
  "manifest_json m = JObj [(''schema_version'', JStr (cm_schema_version m)),
     (''context_manifest_id'', JStr (cm_context_manifest_id m)), (''project_id'', JStr (cm_project_id m)),
     (''conversation_id'', JStr (cm_conversation_id m)), (''task_id'', JStr (cm_task_id m)),
     (''model_id'', JStr (cm_model_id m)), (''created_at'', JStr (cm_created_at m)),
     (''token_budget'', token_budget_json (cm_token_budget m)),
     (''sections'', JList (map section_json (cm_sections m))),
     (''compaction'', compaction_json (cm_compaction m)),
     (''authority_fingerprint'', JStr (cm_authority_fingerprint m))]"

definition manifest_fingerprint :: "manifest \<Rightarrow> string result" where
  "manifest_fingerprint m = bindE (manifest_validate m) (\<lambda>_. Inr (digest (manifest_json m)))"

section \<open>The builder\<close>

record manifest_args =
  ma_context_manifest_id :: string
  ma_project_id :: string
  ma_conversation_id :: string
  ma_task_id :: string
  ma_model_id :: string
  ma_max_input :: int
  ma_reserved_output :: int
  ma_section_inputs :: "section_input list"
  ma_authority_fingerprint :: string
  ma_compaction :: "compaction_state option"
  ma_created_at :: "string option"

definition build_section :: "section_input \<Rightarrow> manifest_section result" where
  "build_section s = bindE (section_input_validate s) (\<lambda>_. Inr
     \<lparr>se_section_type = si_section_type s, se_item_count = si_item_count s, se_token_count = si_token_count s,
      se_source_hash = si_source_hash s, se_source_ref_hashes = map sha256_ref (si_source_refs s),
      se_critical = si_critical s\<rparr>)"

text \<open>\<open>now\<close> is the text \<open>_now()\<close> returns when no creation time is given.\<close>

definition manifest_build :: "string \<Rightarrow> manifest_args \<Rightarrow> manifest result" where
  "manifest_build now a = (
     if ma_section_inputs a = [] then raise E ''CONTEXT_SECTION_INPUTS_REQUIRED''
     else bindE (mapE build_section (ma_section_inputs a)) (\<lambda>sections.
     manifest_validate
       \<lparr>cm_context_manifest_id = ma_context_manifest_id a, cm_project_id = ma_project_id a,
        cm_conversation_id = ma_conversation_id a, cm_task_id = ma_task_id a, cm_model_id = ma_model_id a,
        cm_token_budget = \<lparr>tb_max_input = JInt (ma_max_input a), tb_reserved_output = JInt (ma_reserved_output a),
          tb_compiled_input = JInt (sum_list (map (\<lambda>s. tokens_of (se_token_count s)) sections))\<rparr>,
        cm_sections = sections,
        cm_compaction = (case ma_compaction a of Some c \<Rightarrow> c | None \<Rightarrow> \<lparr>cs_applied = JBool False, cs_modes = []\<rparr>),
        cm_authority_fingerprint = ma_authority_fingerprint a,
        cm_created_at = (case ma_created_at a of Some t \<Rightarrow> if t = [] then now else t | None \<Rightarrow> now),
        cm_schema_version = CONTEXT_MANIFEST_SCHEMA\<rparr>))"

section \<open>The store\<close>

record manifest_row =
  mr_context_manifest_id :: string
  mr_schema_version :: string
  mr_project_id :: string
  mr_conversation_id :: string
  mr_task_id :: string
  mr_model_id :: string
  mr_manifest_json :: string
  mr_manifest_sha256 :: string
  mr_created_at :: string

definition shape_invalid :: "'a result" where
  "shape_invalid = raise E ''CONTEXT_MANIFEST_INTEGRITY_FAILED:SHAPE_INVALID''"

definition text_of :: "(string \<times> json) list \<Rightarrow> string \<Rightarrow> string result" where
  "text_of d k = (case dict_get d k JNull of JStr s \<Rightarrow> Inr s | _ \<Rightarrow> shape_invalid)"

text \<open>\<open>d[key]\<close>, whose \<open>KeyError\<close> is reported as an invalid shape.\<close>

definition item_of :: "(string \<times> json) list \<Rightarrow> string \<Rightarrow> json result" where
  "item_of d k = (case map_of d k of Some v \<Rightarrow> Inr v | None \<Rightarrow> shape_invalid)"

fun str_items :: "json list \<Rightarrow> string list option" where
  "str_items [] = Some []"
| "str_items (JStr s # vs) = map_option (Cons s) (str_items vs)"
| "str_items (_ # vs) = None"

definition texts_of :: "json \<Rightarrow> string list result" where
  "texts_of v = (case v of JList vs \<Rightarrow> (case str_items vs of Some ss \<Rightarrow> Inr ss | None \<Rightarrow> shape_invalid) | _ \<Rightarrow> shape_invalid)"

definition section_of :: "json \<Rightarrow> manifest_section result" where
  "section_of v = (case v of JObj d \<Rightarrow>
     bindE (texts_of (dict_get d ''source_ref_hashes'' JNull)) (\<lambda>hashes.
     bindE (text_of d ''type'') (\<lambda>ty. bindE (item_of d ''item_count'') (\<lambda>count.
     bindE (item_of d ''tokens'') (\<lambda>tokens. bindE (text_of d ''source_hash'') (\<lambda>hash.
     bindE (item_of d ''critical'') (\<lambda>critical.
     Inr \<lparr>se_section_type = ty, se_item_count = count, se_token_count = tokens, se_source_hash = hash,
          se_source_ref_hashes = hashes, se_critical = critical\<rparr>))))))
   | _ \<Rightarrow> shape_invalid)"

definition manifest_of :: "(string \<times> json) list \<Rightarrow> manifest result" where
  "manifest_of d = (case (dict_get d ''token_budget'' JNull, dict_get d ''compaction'' JNull, dict_get d ''sections'' JNull) of
     (JObj tp, JObj cp, JList sps) \<Rightarrow>
       bindE (item_of tp ''max_input'') (\<lambda>max_input. bindE (item_of tp ''reserved_output'') (\<lambda>reserved.
       bindE (item_of tp ''compiled_input'') (\<lambda>compiled.
       bindE (bindE (item_of cp ''mode'') texts_of) (\<lambda>modes. bindE (item_of cp ''applied'') (\<lambda>applied.
       bindE (mapE section_of sps) (\<lambda>sections.
       bindE (text_of d ''context_manifest_id'') (\<lambda>i. bindE (text_of d ''project_id'') (\<lambda>project.
       bindE (text_of d ''conversation_id'') (\<lambda>conversation. bindE (text_of d ''task_id'') (\<lambda>task.
       bindE (text_of d ''model_id'') (\<lambda>model. bindE (text_of d ''authority_fingerprint'') (\<lambda>authority.
       bindE (text_of d ''created_at'') (\<lambda>created. bindE (text_of d ''schema_version'') (\<lambda>schema.
       Inr \<lparr>cm_context_manifest_id = i, cm_project_id = project, cm_conversation_id = conversation,
            cm_task_id = task, cm_model_id = model,
            cm_token_budget = \<lparr>tb_max_input = max_input, tb_reserved_output = reserved, tb_compiled_input = compiled\<rparr>,
            cm_sections = sections, cm_compaction = \<lparr>cs_applied = applied, cs_modes = modes\<rparr>,
            cm_authority_fingerprint = authority, cm_created_at = created, cm_schema_version = schema\<rparr>))))))))))))))
   | _ \<Rightarrow> shape_invalid)"

definition manifest_from_row :: "manifest_row \<Rightarrow> manifest result" where
  "manifest_from_row row = (case loads (mr_manifest_json row) of
     None \<Rightarrow> raise E ''CONTEXT_MANIFEST_INTEGRITY_FAILED:JSON_INVALID''
   | Some (JObj d) \<Rightarrow>
       bindE (manifest_of d) (\<lambda>m.
       bindE (reraise (\<lambda>c. c = E) E ''CONTEXT_MANIFEST_INTEGRITY_FAILED:RECORD_INVALID'' (manifest_validate m)) (\<lambda>_.
       if cm_context_manifest_id m \<noteq> mr_context_manifest_id row \<or> cm_project_id m \<noteq> mr_project_id row
         \<or> cm_conversation_id m \<noteq> mr_conversation_id row \<or> cm_task_id m \<noteq> mr_task_id row
         \<or> cm_model_id m \<noteq> mr_model_id row \<or> cm_schema_version m \<noteq> mr_schema_version row
         \<or> cm_created_at m \<noteq> mr_created_at row
         then raise E ''CONTEXT_MANIFEST_INTEGRITY_FAILED:SCOPE_MISMATCH''
       else bindE (manifest_fingerprint m) (\<lambda>f.
         if f \<noteq> mr_manifest_sha256 row then raise E ''CONTEXT_MANIFEST_INTEGRITY_FAILED:SHA256_MISMATCH'' else Inr m)))
   | Some _ \<Rightarrow> raise E ''CONTEXT_MANIFEST_INTEGRITY_FAILED:NOT_OBJECT'')"

definition manifest_row_of :: "manifest \<Rightarrow> manifest_row" where
  "manifest_row_of m = \<lparr>mr_context_manifest_id = cm_context_manifest_id m, mr_schema_version = cm_schema_version m,
     mr_project_id = cm_project_id m, mr_conversation_id = cm_conversation_id m, mr_task_id = cm_task_id m,
     mr_model_id = cm_model_id m, mr_manifest_json = dumps (manifest_json m),
     mr_manifest_sha256 = digest (manifest_json m), mr_created_at = cm_created_at m\<rparr>"

text \<open>\<open>now\<close> is the current instant, in microseconds since 0001-01-01 UTC.\<close>

definition manifest_save :: "int \<Rightarrow> store \<Rightarrow> manifest \<Rightarrow> manifest_row list \<Rightarrow> (string \<times> manifest_row list) result" where
  "manifest_save now s m rows =
     bindE (manifest_validate m) (\<lambda>_.
     bindE (as_datetime (cm_created_at m)) (\<lambda>created.
     if instant created > now + 300 * 1000000 then raise E ''CONTEXT_MANIFEST_CREATED_AT_IN_FUTURE''
     else bindE (reraise (\<lambda>c. c = KeyError) E ''CONTEXT_MANIFEST_TASK_SCOPE_UNKNOWN'' (get_task (cm_task_id m) s)) (\<lambda>_.
     bindE (manifest_fingerprint m) (\<lambda>f.
     case List.find (\<lambda>r. mr_context_manifest_id r = cm_context_manifest_id m) rows of
       Some row \<Rightarrow> bindE (manifest_from_row row) (\<lambda>stored. bindE (manifest_fingerprint stored) (\<lambda>g.
         if g \<noteq> f then raise E ''CONTEXT_MANIFEST_ID_CONFLICT'' else Inr (f, rows)))
     | None \<Rightarrow> Inr (f, rows @ [manifest_row_of m])))))"

definition manifest_get :: "string \<Rightarrow> string \<Rightarrow> manifest_row list \<Rightarrow> manifest result" where
  "manifest_get i p rows =
     bindE (id_field E i ''context_manifest_id'') (\<lambda>manifest_id.
     bindE (id_field E p ''project_id'') (\<lambda>project.
     case List.find (\<lambda>r. mr_context_manifest_id r = manifest_id \<and> mr_project_id r = project) rows of
       None \<Rightarrow> raise KeyError (''Unknown context manifest in project '' @ project @ '': '' @ manifest_id)
     | Some row \<Rightarrow> manifest_from_row row))"

definition opt_id :: "string option \<Rightarrow> string \<Rightarrow> string option result" where
  "opt_id v field = (case v of None \<Rightarrow> Inr None | Some t \<Rightarrow> bindE (id_field E t field) (\<lambda>x. Inr (Some x)))"

definition list_manifests :: "string \<Rightarrow> string option \<Rightarrow> string option \<Rightarrow> manifest_row list \<Rightarrow> manifest list result" where
  "list_manifests p conv task rows =
     bindE (id_field E p ''project_id'') (\<lambda>project.
     bindE (opt_id conv ''conversation_id'') (\<lambda>c. bindE (opt_id task ''task_id'') (\<lambda>t.
     mapE manifest_from_row (sort_key mr_created_at (sort_key mr_context_manifest_id
       (filter (\<lambda>r. mr_project_id r = project \<and> (c = None \<or> c = Some (mr_conversation_id r))
          \<and> (t = None \<or> t = Some (mr_task_id r))) rows))))))"

section \<open>Valid manifests\<close>

lemma nonnegative_int_iff [simp]: "nonnegative_int v field = Inr i \<longleftrightarrow> v = JInt i \<and> 0 \<le> i"
  by (cases v) (auto simp: nonnegative_int_def)

lemma positive_count_iff [simp]: "positive_count v = Inr u \<longleftrightarrow> (\<exists>i > 0. v = JInt i)"
  by (auto simp: positive_count_def bindE_Inr_iff)

lemma is_bool_iff: "is_bool v \<longleftrightarrow> (\<exists>b. v = JBool b)"
  by (cases v) (auto simp: is_bool_def)

lemma token_budget_iff: "token_budget_validate b = Inr c \<longleftrightarrow> c = b \<and> (\<exists>m r i. tb_max_input b = JInt m
    \<and> tb_reserved_output b = JInt r \<and> tb_compiled_input b = JInt i \<and> 0 \<le> r \<and> r < m \<and> 0 \<le> i \<and> i \<le> m - r)"
proof
  assume "token_budget_validate b = Inr c"
  then show "c = b \<and> (\<exists>m r i. tb_max_input b = JInt m \<and> tb_reserved_output b = JInt r \<and> tb_compiled_input b = JInt i
      \<and> 0 \<le> r \<and> r < m \<and> 0 \<le> i \<and> i \<le> m - r)"
    by (auto simp: token_budget_validate_def split: if_splits)
qed (auto simp: token_budget_validate_def nonnegative_int_def)

lemma section_validate_iff: "section_validate s = Inr t \<longleftrightarrow> t = s \<and> ID_RE (se_section_type s)
    \<and> (\<exists>i > 0. se_item_count s = JInt i) \<and> (\<exists>i \<ge> 0. se_token_count s = JInt i) \<and> is_sha256_ref (se_source_hash s)
    \<and> list_all is_sha256_ref (se_source_ref_hashes s) \<and> distinct (se_source_ref_hashes s) \<and> (\<exists>b. se_critical s = JBool b)"
  by (auto simp: section_validate_def section_checks_def checked_iff list_all_iff is_bool_iff)

lemma compaction_validate_iff: "compaction_validate c = Inr d \<longleftrightarrow> d = c \<and> cs_applied c = JBool (cs_modes c \<noteq> [])
    \<and> distinct (cs_modes c) \<and> set (cs_modes c) \<subseteq> set COMPACTION_MODES"
  by (cases "cs_applied c") (auto simp: compaction_validate_def checked_iff list_all_iff is_bool_def)

definition manifest_ok :: "manifest \<Rightarrow> bool" where
  "manifest_ok m \<longleftrightarrow> ID_RE (cm_context_manifest_id m) \<and> ID_RE (cm_project_id m) \<and> ID_RE (cm_conversation_id m)
     \<and> ID_RE (cm_task_id m) \<and> line_ok 256 (cm_model_id m) \<and> token_budget_validate (cm_token_budget m) = Inr (cm_token_budget m)
     \<and> cm_sections m \<noteq> [] \<and> list_all (\<lambda>s. section_validate s = Inr s) (cm_sections m)
     \<and> tb_compiled_input (cm_token_budget m) = JInt (sum_list (map (\<lambda>s. tokens_of (se_token_count s)) (cm_sections m)))
     \<and> compaction_validate (cm_compaction m) = Inr (cm_compaction m) \<and> is_sha256_ref (cm_authority_fingerprint m)
     \<and> time_ok (cm_created_at m) \<and> cm_schema_version m = CONTEXT_MANIFEST_SCHEMA"

lemma section_self: "(\<exists>t. section_validate s = Inr t) \<longleftrightarrow> section_validate s = Inr s"
  by (auto simp: section_validate_iff)

lemma manifest_validate_iff: "manifest_validate m = Inr n \<longleftrightarrow> n = m \<and> manifest_ok m"
proof -
  have "(\<exists>b. token_budget_validate (cm_token_budget m) = Inr b) \<longleftrightarrow> token_budget_validate (cm_token_budget m) = Inr (cm_token_budget m)"
    "(\<exists>c. compaction_validate (cm_compaction m) = Inr c) \<longleftrightarrow> compaction_validate (cm_compaction m) = Inr (cm_compaction m)"
    by (auto simp: token_budget_iff compaction_validate_iff)
  moreover have "tokens_of v = i \<longleftrightarrow> v = JInt i" if "\<exists>i. v = JInt i" for v i
    using that by (auto simp: tokens_of_def)
  ultimately show ?thesis
    unfolding manifest_validate_def manifest_checks_def checked_iff manifest_ok_def
    by (auto simp: list_all_iff section_self token_budget_iff tokens_of_def)
qed

section \<open>The stored text determines the manifest\<close>

abbreviation sorted_dict :: "(string \<times> json) list \<Rightarrow> (string \<times> json) list" where
  "sorted_dict d \<equiv> map (\<lambda>(k, v). (k, norm_json v)) (sort_key fst d)"

lemma map_of_sorted_dict:
  "distinct (map fst d) \<Longrightarrow> map_of (sorted_dict d) k = map_option norm_json (map_of d k)"
proof -
  have "map_of (map (\<lambda>(k, v). (k, norm_json v)) xs) = map_option norm_json \<circ> map_of xs" for xs :: "(string \<times> json) list"
    by (induction xs) (auto simp: fun_eq_iff)
  then show "distinct (map fst d) \<Longrightarrow> map_of (sorted_dict d) k = map_option norm_json (map_of d k)"
    by (simp add: map_of_sort_key)
qed

lemma str_items_JStr [simp]: "str_items (map JStr ss) = Some ss"
  by (induction ss) auto

lemma norm_str_list [simp]: "map (norm_json \<circ> JStr) ss = map JStr ss"
  by (induction ss) auto

lemma section_of_json:
  assumes "section_validate s = Inr s"
  shows "section_of (norm_json (section_json s)) = Inr s"
  using assms
  by (auto simp: section_json_def section_of_def texts_of_def text_of_def item_of_def dict_get_def map_of_sorted_dict
      section_validate_iff simp del: sort_key_simps)

lemma manifest_of_json:
  assumes "manifest_ok m" "manifest_json m = JObj d"
  shows "manifest_of (sorted_dict d) = Inr m"
proof -
  have s: "mapE section_of (map (norm_json \<circ> section_json) (cm_sections m)) = Inr (cm_sections m)"
    using assms(1) mapE_map [of "map (norm_json \<circ> section_json) (cm_sections m)" section_of]
    by (simp add: manifest_ok_def list_all_iff mapE_Inr_iff list_all2_map1 section_of_json list.rel_refl_strong)
  have t: "norm_json (tb_max_input b) = tb_max_input b" "norm_json (tb_reserved_output b) = tb_reserved_output b"
    "norm_json (tb_compiled_input b) = tb_compiled_input b" if "token_budget_validate b = Inr b" for b
    using that by (auto simp: token_budget_iff)
  have c: "norm_json (cs_applied c) = cs_applied c" if "compaction_validate c = Inr c" for c
    using that by (auto simp: compaction_validate_iff)
  have b: "token_budget_validate (cm_token_budget m) = Inr (cm_token_budget m)"
    "compaction_validate (cm_compaction m) = Inr (cm_compaction m)" using assms(1) by (simp_all add: manifest_ok_def)
  show ?thesis
    using assms(2) by (auto simp: manifest_of_def manifest_json_def token_budget_json_def compaction_json_def dict_get_def
        text_of_def item_of_def texts_of_def map_of_sorted_dict s t [OF b(1)] c [OF b(2)] simp del: sort_key_simps)
qed

lemma section_plain: "section_validate s = Inr s \<Longrightarrow> plain_json (section_json s)"
  by (auto simp: section_json_def section_validate_iff list_all_iff)

lemma manifest_plain: "manifest_ok m \<Longrightarrow> plain_json (manifest_json m)"
  using section_plain
  by (auto simp: manifest_json_def manifest_ok_def token_budget_json_def compaction_json_def list_all_iff token_budget_iff
      compaction_validate_iff)

lemma manifest_row_reads: "manifest_ok m \<Longrightarrow> manifest_from_row (manifest_row_of m) = Inr m"
proof -
  assume m: "manifest_ok m"
  obtain d where d: "manifest_json m = JObj d" by (simp add: manifest_json_def)
  have "loads (dumps (manifest_json m)) = Some (JObj (sorted_dict d))"
    using loads_dumps [OF manifest_plain [OF m]] by (simp add: d del: dumps.simps)
  moreover have "manifest_validate m = Inr m" using m by (simp add: manifest_validate_iff)
  ultimately show ?thesis
    using manifest_of_json [OF m d] by (simp add: manifest_from_row_def manifest_row_of_def manifest_fingerprint_def)
qed

section \<open>Runs of the store\<close>

definition save_step :: "manifest_row list \<Rightarrow> int \<times> store \<times> manifest \<Rightarrow> manifest_row list" where
  "save_step rows x = (case x of (now, s, m) \<Rightarrow>
     (case manifest_save now s m rows of Inl _ \<Rightarrow> rows | Inr (_, rows') \<Rightarrow> rows'))"

lemma manifest_save_cases:
  assumes "manifest_save now s m rows = Inr (f, rows')"
  shows "manifest_ok m" "f = digest (manifest_json m)"
    and "case List.find (\<lambda>r. mr_context_manifest_id r = cm_context_manifest_id m) rows of
        None \<Rightarrow> rows' = rows @ [manifest_row_of m]
      | Some row \<Rightarrow> rows' = rows \<and> (\<exists>n. manifest_from_row row = Inr n \<and> digest (manifest_json n) = f)"
  using assms by (auto simp: manifest_save_def manifest_fingerprint_def manifest_validate_iff split: if_splits option.splits)

interpretation manifests: monotone_log save_step "\<lambda>rows. rows" mr_context_manifest_id
proof
  fix rows and x :: "int \<times> store \<times> manifest"
  obtain now s m where x: "x = (now, s, m)" by (cases x) auto
  show "\<exists>rs. save_step rows x = rows @ rs \<and> distinct (map mr_context_manifest_id rs)
    \<and> mr_context_manifest_id ` set rs \<inter> mr_context_manifest_id ` set rows = {}"
  proof (cases "manifest_save now s m rows")
    case (Inl e)
    then show ?thesis by (simp add: save_step_def x)
  next
    case (Inr r)
    then obtain f rows' where r: "manifest_save now s m rows = Inr (f, rows')" by (cases r) auto
    from manifest_save_cases(3) [OF r] r show ?thesis
      by (force simp: save_step_def x find_None_iff manifest_row_of_def split: option.splits)
  qed
qed

lemma find_stronger: "List.find P xs = Some r \<Longrightarrow> Q r \<Longrightarrow> (\<And>x. Q x \<Longrightarrow> P x) \<Longrightarrow> List.find Q xs = Some r"
  by (induction xs) (auto split: if_splits)

lemma manifest_row_kept:
  assumes "List.find (\<lambda>r. mr_context_manifest_id r = cm_context_manifest_id m) rows = Some (manifest_row_of m)"
  shows "List.find (\<lambda>r. mr_context_manifest_id r = cm_context_manifest_id m) (foldl save_step rows later) = Some (manifest_row_of m)"
  using manifests.run_lookup [of "\<lambda>k. k = cm_context_manifest_id m", OF assms] .

section \<open>Properties\<close>

text \<open>C32: manifests are permanent. Saving a manifest under a new id makes it readable by its id and project,
  byte for byte the same, after any later sequence of saves; a later save under the same id is accepted
  only with the same fingerprint and then changes nothing.\<close>

theorem manifest_permanent:
  assumes "manifest_save now s m rows = Inr (f, rows')"
    and "cm_context_manifest_id m \<notin> mr_context_manifest_id ` set rows"
  shows "manifest_get (cm_context_manifest_id m) (cm_project_id m) (foldl save_step rows' later) = Inr m
    \<and> (cm_context_manifest_id n = cm_context_manifest_id m \<longrightarrow>
        manifest_save now' s' n (foldl save_step rows' later) = Inr (g, rows'') \<longrightarrow> g = f \<and> rows'' = foldl save_step rows' later)"
proof -
  note sv = manifest_save_cases [OF assms(1)]
  have none: "List.find (\<lambda>r. mr_context_manifest_id r = cm_context_manifest_id m) rows = None"
    using assms(2) by (force simp: find_None_iff)
  with sv(3) have "List.find (\<lambda>r. mr_context_manifest_id r = cm_context_manifest_id m) rows' = Some (manifest_row_of m)"
    by (simp add: find_snoc_None manifest_row_of_def)
  note row = manifest_row_kept [OF this, of later]
  have "List.find (\<lambda>r. mr_context_manifest_id r = cm_context_manifest_id m \<and> mr_project_id r = cm_project_id m)
      (foldl save_step rows' later) = Some (manifest_row_of m)"
    by (rule find_stronger [OF row]) (auto simp: manifest_row_of_def)
  then have "manifest_get (cm_context_manifest_id m) (cm_project_id m) (foldl save_step rows' later) = Inr m"
    using sv(1) manifest_row_reads [OF sv(1)]
    by (simp add: manifest_get_def manifest_ok_def)
  moreover have "g = f \<and> rows'' = foldl save_step rows' later"
    if i: "cm_context_manifest_id n = cm_context_manifest_id m"
      and n: "manifest_save now' s' n (foldl save_step rows' later) = Inr (g, rows'')"
    using manifest_save_cases(2,3) [OF n] row manifest_row_reads [OF sv(1)] sv(2) by (auto simp: i)
  ultimately show ?thesis by blast
qed

text \<open>A complete manifest of one section.\<close>

definition demo_manifest :: manifest where
  "demo_manifest = \<lparr>cm_context_manifest_id = ''m1'', cm_project_id = ''p1'', cm_conversation_id = ''c1'', cm_task_id = ''T'',
     cm_model_id = ''local'', cm_token_budget = \<lparr>tb_max_input = JInt 100, tb_reserved_output = JInt 20, tb_compiled_input = JInt 7\<rparr>,
     cm_sections = [\<lparr>se_section_type = ''evidence'', se_item_count = JInt 1, se_token_count = JInt 7,
       se_source_hash = sha256_ref ''x'', se_source_ref_hashes = [sha256_ref ''r''], se_critical = JBool True\<rparr>],
     cm_compaction = \<lparr>cs_applied = JBool False, cs_modes = []\<rparr>, cm_authority_fingerprint = sha256_ref ''a'',
     cm_created_at = ''2024-01-01T00:00:00Z'', cm_schema_version = CONTEXT_MANIFEST_SCHEMA\<rparr>"

lemma demo_instant: "time_ok ''2024-01-01T00:00:00Z''"
    "fromisoformat (zulu ''2024-01-01T00:00:00Z'') = Some \<lparr>dt_local = 63839664000000000, dt_offset = Some 0\<rparr>"
  by code_simp+

lemma demo_manifest_ok: "manifest_ok demo_manifest"
proof -
  have "ID_RE ''m1''" "ID_RE ''p1''" "ID_RE ''c1''" "ID_RE ''T''" "ID_RE ''evidence''" "line_ok 256 ''local''" by code_simp+
  then show ?thesis
    using demo_instant(1)
    by (simp add: demo_manifest_def manifest_ok_def token_budget_iff section_validate_iff compaction_validate_iff tokens_of_def) blast
qed

theorem manifest_permanent_witness:
  "\<exists>f rows'. manifest_save 63839664000000000 demo_store demo_manifest [] = Inr (f, rows')
     \<and> manifest_get ''m1'' ''p1'' (foldl save_step rows' [(0, demo_store, demo_manifest\<lparr>cm_model_id := ''other''\<rparr>)]) = Inr demo_manifest"
proof -
  have f: "cm_created_at demo_manifest = ''2024-01-01T00:00:00Z''" "cm_task_id demo_manifest = ''T''"
    "cm_context_manifest_id demo_manifest = ''m1''" "cm_project_id demo_manifest = ''p1''" by (simp_all add: demo_manifest_def)
  have "\<exists>t. get_task ''T'' demo_store = Inr t"
    by (simp add: get_task_def find_task_def demo_store_def demo_task_def empty_store_def)
  then obtain rows' where s: "manifest_save 63839664000000000 demo_store demo_manifest [] = Inr (digest (manifest_json demo_manifest), rows')"
    using demo_manifest_ok demo_instant(2)
    by (auto simp: manifest_save_def manifest_validate_iff [THEN iffD2] as_datetime_def f instant_def manifest_fingerprint_def)
  have "manifest_get ''m1'' ''p1'' (foldl save_step rows' later) = Inr demo_manifest" for later
    using manifest_permanent [OF s] by (simp add: f)
  with s show ?thesis by blast
qed

text \<open>A built manifest fits its model: its sections are those of the request in order, with every
  source reference replaced by its SHA-256 reference; the compiled input is the sum of their tokens;
  and together with the output reserve it fits the model's input bound.\<close>

theorem manifest_build_bounds:
  assumes "manifest_build now a = Inr m"
  shows "manifest_ok m
    \<and> map se_source_ref_hashes (cm_sections m) = map (map sha256_ref \<circ> si_source_refs) (ma_section_inputs a)
    \<and> map se_token_count (cm_sections m) = map si_token_count (ma_section_inputs a)
    \<and> (\<exists>c. tb_compiled_input (cm_token_budget m) = JInt c \<and> c = sum_list (map (tokens_of \<circ> si_token_count) (ma_section_inputs a))
        \<and> 0 \<le> c \<and> c + ma_reserved_output a \<le> ma_max_input a)"
proof -
  from assms obtain sections where s: "mapE build_section (ma_section_inputs a) = Inr sections"
    "cm_sections m = sections" "manifest_ok m" "tb_max_input (cm_token_budget m) = JInt (ma_max_input a)"
    "tb_reserved_output (cm_token_budget m) = JInt (ma_reserved_output a)"
    by (auto simp: manifest_build_def manifest_validate_iff split: if_splits)
  have b: "se_source_ref_hashes t = map sha256_ref (si_source_refs i) \<and> se_token_count t = si_token_count i"
    if "build_section i = Inr t" for i t using that by (auto simp: build_section_def)
  from s(1) have l: "list_all2 (\<lambda>i t. build_section i = Inr t) (ma_section_inputs a) sections" by (simp add: mapE_Inr_iff)
  then have "map se_source_ref_hashes sections = map (map sha256_ref \<circ> si_source_refs) (ma_section_inputs a)
      \<and> map se_token_count sections = map si_token_count (ma_section_inputs a)"
    by (induction rule: list_all2_induct) (auto dest: b)
  moreover then have "map (tokens_of \<circ> se_token_count) sections = map (tokens_of \<circ> si_token_count) (ma_section_inputs a)"
    by (metis list.map_comp)
  ultimately show ?thesis using s(2-5) by (auto simp: manifest_ok_def token_budget_iff comp_def)
qed

definition demo_manifest_args :: manifest_args where
  "demo_manifest_args = \<lparr>ma_context_manifest_id = ''m1'', ma_project_id = ''p1'', ma_conversation_id = ''c1'', ma_task_id = ''T'',
     ma_model_id = ''local'', ma_max_input = 100, ma_reserved_output = 20,
     ma_section_inputs = [\<lparr>si_section_type = ''evidence'', si_item_count = JInt 1, si_token_count = JInt 7,
       si_source_hash = sha256_ref ''x'', si_source_refs = [''r''], si_critical = JBool True\<rparr>],
     ma_authority_fingerprint = sha256_ref ''a'', ma_compaction = None, ma_created_at = None\<rparr>"

theorem manifest_build_bounds_witness:
  "manifest_build ''2024-01-01T00:00:00Z'' demo_manifest_args = Inr demo_manifest
   \<and> (\<exists>c. tb_compiled_input (cm_token_budget demo_manifest) = JInt c \<and> c + 20 \<le> 100)"
proof -
  have "ID_RE ''evidence''" "line_ok 2048 ''r''" by code_simp+
  then have "manifest_build ''2024-01-01T00:00:00Z'' demo_manifest_args = manifest_validate demo_manifest"
    by (simp add: manifest_build_def demo_manifest_args_def build_section_def section_input_validate_def checked_simps
        positive_count_def nonnegative_int_def is_bool_def demo_manifest_def tokens_of_def void_def fail_if_def)
  then have b: "manifest_build ''2024-01-01T00:00:00Z'' demo_manifest_args = Inr demo_manifest"
    using demo_manifest_ok by (simp add: manifest_validate_iff)
  from manifest_build_bounds [OF b] b show ?thesis by (auto simp: demo_manifest_args_def)
qed

end
