(* ===== verification/Task_Contract.thy ===== *)
theory Task_Contract
  imports Json Complex_Main
begin

text \<open>
  Model of \<open>src/three_agent/task_contract.py\<close>: the execution contract of a task, its validation and
  the deterministic compiler that derives tools, network scope, model tier, cache and logging
  policy and budgets from task type, sensitivity and risk. Fields keep the names of the dataclasses.
\<close>

section \<open>Vocabulary\<close>

definition TASK_TYPES :: "string list" where
  "TASK_TYPES = [''code_fix'', ''code_review'', ''doc_summary'', ''sensitive_query'', ''retrieval'',
     ''classification'', ''analysis'', ''general'']"

definition SENSITIVITIES :: "string list" where
  "SENSITIVITIES = [''public'', ''internal'', ''confidential'', ''restricted'', ''secret'']"

definition RISK_LEVELS :: "string list" where
  "RISK_LEVELS = [''low'', ''medium'', ''high'', ''critical'']"

definition MODEL_TIERS :: "string list" where
  "MODEL_TIERS = [''none'', ''small'', ''specialist'', ''strong'']"

definition OFFICE_IT_NETWORK_TOOLS :: "string list" where
  "OFFICE_IT_NETWORK_TOOLS = [''network.ssh.probe'', ''network.rtsp.probe'', ''network.smb.probe'',
     ''network.printer.ipp_probe'', ''network.printer.raw_probe'']"

definition DIAGNOSTIC_LOCAL_READ_TOOLS :: "string list" where
  "DIAGNOSTIC_LOCAL_READ_TOOLS = [''system.platform.identify'', ''system.resource.snapshot'',
     ''system.storage.capacity'', ''network.interface.snapshot'', ''network.ipconfig.snapshot'',
     ''network.route.snapshot'', ''network.dns.snapshot'', ''time.sync.status'', ''service.status.read'',
     ''windows.group_policy.result'', ''identity.session.snapshot'', ''audio.devices.snapshot'',
     ''meeting.client.snapshot'', ''process.top.snapshot'', ''hardware.usb.snapshot'',
     ''hardware.display.snapshot'', ''hardware.dock.snapshot'', ''driver.inventory.snapshot'',
     ''camera.devices.snapshot'', ''storage.io.snapshot'', ''windows.print.driver.snapshot'',
     ''windows.boot.snapshot'', ''windows.update.history'', ''vpn.status.snapshot'']"

definition DIAGNOSTIC_STAGED_LOCAL_READ_TOOLS :: "string list" where
  "DIAGNOSTIC_STAGED_LOCAL_READ_TOOLS = [''backup.local_state.snapshot'',
     ''cloud_files.client_state.snapshot'', ''identity.account_state.snapshot'',
     ''mail_exchange.client_state.snapshot'', ''voip.client_state.snapshot'']"

definition DIAGNOSTIC_INTERNAL_NETWORK_TOOLS :: "string list" where
  "DIAGNOSTIC_INTERNAL_NETWORK_TOOLS = [''network.reachability.internal'', ''network.quality.internal'']"

definition INTERNAL_NETWORK_TOOLS :: "string list" where
  "INTERNAL_NETWORK_TOOLS = OFFICE_IT_NETWORK_TOOLS @ DIAGNOSTIC_INTERNAL_NETWORK_TOOLS"

definition TOOLS :: "string list" where
  "TOOLS = [''read_file'', ''search_repo'', ''search_docs'', ''write_staging'', ''apply_patch'',
     ''run_linter'', ''run_tests'', ''query_db_readonly'', ''calculator'', ''web_gateway'',
     ''windows.event.system'', ''windows.event.application'', ''windows.event.security'',
     ''windows.printer.queue''] @ OFFICE_IT_NETWORK_TOOLS @ DIAGNOSTIC_LOCAL_READ_TOOLS
     @ DIAGNOSTIC_STAGED_LOCAL_READ_TOOLS @ DIAGNOSTIC_INTERNAL_NETWORK_TOOLS"

definition VALIDATORS :: "string list" where
  "VALIDATORS = [''policy'', ''schema'', ''syntax'', ''lint'', ''unit_test'', ''integration_test'',
     ''evidence'', ''secondary_model'', ''human'']"

section \<open>The contract\<close>

text \<open>A float with its value and its \<open>repr\<close>, or one of the non-finite values.\<close>

datatype pyfloat = FiniteFloat rat string | NonFinite string

fun float_text :: "pyfloat \<Rightarrow> string" where
  "float_text (FiniteFloat q t) = t"
| "float_text (NonFinite t) = t"

fun in_unit :: "pyfloat \<Rightarrow> bool" where
  "in_unit (FiniteFloat q t) = (0 \<le> q \<and> q \<le> 1)"
| "in_unit (NonFinite t) = False"

record context_budget =
  cb_max_input_tokens :: int
  cb_max_retrieved_tokens :: int
  cb_max_tool_output_tokens :: int
  cb_reserve_tokens :: int

record generation_budget =
  gb_max_output_tokens :: int

record execution_budget =
  eb_max_steps :: int
  eb_max_tool_calls :: int
  eb_max_retries :: int
  eb_max_escalations :: int
  eb_max_wall_time_ms :: int

record model_policy =
  mp_initial_tier :: string
  mp_max_tier :: string
  mp_escalation_allowed :: bool
  mp_confidence_floor :: pyfloat
  mp_trusted_local_only :: bool

record cache_policy =
  cp_mode :: string
  cp_trust_domain :: string
  cp_semantic_cache_allowed :: bool
  cp_ttl_seconds :: int

record logging_policy =
  lp_raw_prompt :: string
  lp_raw_tool_output :: string
  lp_retain_days :: int

text \<open>\<open>write_scope: str | tuple[str, ...]\<close>\<close>

datatype scope = ScopeStr string | ScopeTuple "string list"

record task_contract =
  tc_task_id :: string
  tc_task_type :: string
  tc_sensitivity :: string
  tc_risk_level :: string
  tc_allowed_sources :: "string list"
  tc_allowed_tools :: "string list"
  tc_write_scope :: scope
  tc_network_scope :: string
  tc_context_budget :: context_budget
  tc_generation_budget :: generation_budget
  tc_execution_budget :: execution_budget
  tc_evidence_required :: bool
  tc_validators :: "string list"
  tc_model_policy :: model_policy
  tc_cache_policy :: cache_policy
  tc_logging_policy :: logging_policy
  tc_output_schema :: json
  tc_schema_version :: string
  tc_policy_reason_codes :: "string list"

definition str_list :: "string list \<Rightarrow> json" where
  "str_list xs = JList (map JStr xs)"

definition scope_json :: "scope \<Rightarrow> json" where
  "scope_json s = (case s of ScopeStr t \<Rightarrow> JStr t | ScopeTuple ts \<Rightarrow> str_list ts)"

definition context_budget_json :: "context_budget \<Rightarrow> json" where
  "context_budget_json b = JObj [(''max_input_tokens'', JInt (cb_max_input_tokens b)),
     (''max_retrieved_tokens'', JInt (cb_max_retrieved_tokens b)),
     (''max_tool_output_tokens'', JInt (cb_max_tool_output_tokens b)),
     (''reserve_tokens'', JInt (cb_reserve_tokens b))]"

definition generation_budget_json :: "generation_budget \<Rightarrow> json" where
  "generation_budget_json b = JObj [(''max_output_tokens'', JInt (gb_max_output_tokens b))]"

definition execution_budget_json :: "execution_budget \<Rightarrow> json" where
  "execution_budget_json b = JObj [(''max_steps'', JInt (eb_max_steps b)),
     (''max_tool_calls'', JInt (eb_max_tool_calls b)), (''max_retries'', JInt (eb_max_retries b)),
     (''max_escalations'', JInt (eb_max_escalations b)), (''max_wall_time_ms'', JInt (eb_max_wall_time_ms b))]"

definition model_policy_json :: "model_policy \<Rightarrow> json" where
  "model_policy_json p = JObj [(''initial_tier'', JStr (mp_initial_tier p)), (''max_tier'', JStr (mp_max_tier p)),
     (''escalation_allowed'', JBool (mp_escalation_allowed p)),
     (''confidence_floor'', JFloat (float_text (mp_confidence_floor p))),
     (''trusted_local_only'', JBool (mp_trusted_local_only p))]"

definition cache_policy_json :: "cache_policy \<Rightarrow> json" where
  "cache_policy_json p = JObj [(''mode'', JStr (cp_mode p)), (''trust_domain'', JStr (cp_trust_domain p)),
     (''semantic_cache_allowed'', JBool (cp_semantic_cache_allowed p)), (''ttl_seconds'', JInt (cp_ttl_seconds p))]"

definition logging_policy_json :: "logging_policy \<Rightarrow> json" where
  "logging_policy_json p = JObj [(''raw_prompt'', JStr (lp_raw_prompt p)),
     (''raw_tool_output'', JStr (lp_raw_tool_output p)), (''retain_days'', JInt (lp_retain_days p))]"

definition contract_to_dict :: "task_contract \<Rightarrow> json" where
  "contract_to_dict c = JObj [(''task_id'', JStr (tc_task_id c)), (''task_type'', JStr (tc_task_type c)),
     (''sensitivity'', JStr (tc_sensitivity c)), (''risk_level'', JStr (tc_risk_level c)),
     (''allowed_sources'', str_list (tc_allowed_sources c)), (''allowed_tools'', str_list (tc_allowed_tools c)),
     (''write_scope'', scope_json (tc_write_scope c)), (''network_scope'', JStr (tc_network_scope c)),
     (''context_budget'', context_budget_json (tc_context_budget c)),
     (''generation_budget'', generation_budget_json (tc_generation_budget c)),
     (''execution_budget'', execution_budget_json (tc_execution_budget c)),
     (''evidence_required'', JBool (tc_evidence_required c)), (''validators'', str_list (tc_validators c)),
     (''model_policy'', model_policy_json (tc_model_policy c)),
     (''cache_policy'', cache_policy_json (tc_cache_policy c)),
     (''logging_policy'', logging_policy_json (tc_logging_policy c)),
     (''output_schema'', tc_output_schema c), (''schema_version'', JStr (tc_schema_version c)),
     (''policy_reason_codes'', str_list (tc_policy_reason_codes c))]"

section \<open>Validation\<close>

text \<open>\<open>{sorted(values)}\<close> in an f-string, for the elements of a set.\<close>

definition show_sorted :: "string list \<Rightarrow> string" where
  "show_sorted xs = py_repr (str_list (sort (fromkeys xs)))"

definition tier_order :: "string \<Rightarrow> nat" where
  "tier_order t = (if t = ''none'' then 0 else if t = ''small'' then 1
     else if t = ''specialist'' then 2 else 3)"

text \<open>The checks of \<open>validate\<close> in the order of the code: the first violated one is reported.\<close>

definition check :: "bool \<Rightarrow> string \<Rightarrow> unit result" where
  "check bad m = (if bad then raise TaskContractError m else Inr ())"

definition identity_checks :: "task_contract \<Rightarrow> unit result list" where
  "identity_checks c = (
     let unknown_tools = filter (\<lambda>t. t \<notin> set TOOLS) (tc_allowed_tools c);
         unknown_validators = filter (\<lambda>v. v \<notin> set VALIDATORS) (tc_validators c);
         internal_network_tools = filter (\<lambda>t. t \<in> set INTERNAL_NETWORK_TOOLS) (tc_allowed_tools c) in
     [check (tc_task_id c = [] \<or> 128 < length (tc_task_id c)) ''task_id is required and must be <= 128 characters'',
      check (tc_task_type c \<notin> set TASK_TYPES) (''unsupported task_type: '' @ tc_task_type c),
      check (tc_sensitivity c \<notin> set SENSITIVITIES) (''unsupported sensitivity: '' @ tc_sensitivity c),
      check (tc_risk_level c \<notin> set RISK_LEVELS) (''unsupported risk_level: '' @ tc_risk_level c),
      check (unknown_tools \<noteq> []) (''unknown tools: '' @ show_sorted unknown_tools),
      check (unknown_validators \<noteq> []) (''unknown validators: '' @ show_sorted unknown_validators),
      check (tc_network_scope c \<notin> {''deny'', ''internal_only'', ''allowlisted_egress''})
        (''unsupported network_scope: '' @ tc_network_scope c),
      check (internal_network_tools \<noteq> [] \<and> tc_network_scope c \<noteq> ''internal_only'')
        (''Internal diagnostic network tools require network_scope=internal_only: ''
          @ show_sorted internal_network_tools)])"

definition model_checks :: "model_policy \<Rightarrow> unit result list" where
  "model_checks p =
     [check (mp_initial_tier p \<notin> set MODEL_TIERS \<or> mp_max_tier p \<notin> set MODEL_TIERS) ''invalid model tier'',
      check (tier_order (mp_max_tier p) < tier_order (mp_initial_tier p)) ''initial model tier exceeds max tier'',
      check (\<not> in_unit (mp_confidence_floor p)) ''confidence_floor must be within [0,1]'',
      check (mp_initial_tier p = ''none'' \<and> mp_max_tier p \<noteq> ''none'') ''NO_LLM tasks require max_tier=none'',
      check (mp_initial_tier p = ''none'' \<and> mp_escalation_allowed p) ''NO_LLM tasks cannot allow model escalation'']"

definition budget_checks :: "task_contract \<Rightarrow> unit result list" where
  "budget_checks c = (
     let cb = tc_context_budget c; eb = tc_execution_budget c in
     [check (min (cb_max_input_tokens cb) (cb_reserve_tokens cb) < 0) ''context budgets must be non-negative'',
      check (cb_max_input_tokens cb < 256) ''max_input_tokens must be >= 256'',
      check (cb_max_retrieved_tokens cb < 0 \<or> cb_max_tool_output_tokens cb < 0)
        ''retrieval/tool budgets cannot be negative'',
      check (gb_max_output_tokens (tc_generation_budget c) < 1) ''max_output_tokens must be >= 1'',
      check (eb_max_steps eb < 1 \<or> eb_max_tool_calls eb < 0 \<or> eb_max_retries eb < 0 \<or> eb_max_escalations eb < 0)
        ''execution budgets are invalid'',
      check (eb_max_wall_time_ms eb < 100) ''max_wall_time_ms must be >= 100'',
      check (mp_initial_tier (tc_model_policy c) = ''none'' \<and> eb_max_escalations eb \<noteq> 0)
        ''NO_LLM tasks require max_escalations=0''])"

definition policy_checks :: "task_contract \<Rightarrow> unit result list" where
  "policy_checks c = (
     let cp = tc_cache_policy c; lp = tc_logging_policy c; sens = tc_sensitivity c;
         web = ''web_gateway'' \<in> set (tc_allowed_tools c); net = tc_network_scope c in
     [check (cp_mode cp \<notin> {''deny'', ''exact_only'', ''prefix_allowed'', ''kv_allowed''}) ''invalid cache mode'',
      check (cp_trust_domain cp = []) ''cache trust_domain is required'',
      check (lp_raw_prompt lp \<notin> {''deny'', ''redacted'', ''allow''}) ''invalid raw_prompt logging policy'',
      check (lp_raw_tool_output lp \<notin> {''deny'', ''redacted'', ''allow''}) ''invalid raw_tool_output logging policy'',
      check (sens = ''secret'' \<and> net \<noteq> ''deny'') ''secret tasks require network_scope=deny'',
      check (net = ''allowlisted_egress'' \<and> \<not> web) ''allowlisted egress requires web_gateway'',
      check (web \<and> net \<noteq> ''allowlisted_egress'') ''web_gateway requires network_scope=allowlisted_egress'',
      check (sens = ''secret'' \<and> web) ''secret tasks cannot use web_gateway'',
      check (sens \<in> {''restricted'', ''secret''} \<and> (lp_raw_prompt lp \<noteq> ''deny'' \<or> lp_raw_tool_output lp \<noteq> ''deny''))
        ''restricted/secret tasks cannot log raw content'',
      check (sens \<in> {''restricted'', ''secret''} \<and> cp_semantic_cache_allowed cp)
        ''restricted/secret tasks cannot use semantic answer cache'',
      check (sens = ''secret'' \<and> cp_mode cp \<notin> {''deny'', ''exact_only''})
        ''secret tasks cannot use shared prefix/KV cache''])"

definition task_validate :: "task_contract \<Rightarrow> task_contract result" where
  "task_validate c = bindE (mapE id (identity_checks c @ model_checks (tc_model_policy c)
      @ budget_checks c @ policy_checks c)) (\<lambda>_. Inr c)"

section \<open>The compiler\<close>

definition unique :: "string list \<Rightarrow> string list" where
  "unique vs = fromkeys (filter (\<lambda>v. v \<noteq> []) (map strip vs))"

text \<open>The keyword arguments of \<open>compile\<close>; no tools (\<open>None\<close> or empty) is the empty list.\<close>

record compile_args =
  ca_task_id :: string
  ca_task_type :: string
  ca_sensitivity :: string
  ca_risk_level :: string
  ca_allowed_sources :: "string list"
  ca_allowed_tools :: "string list"
  ca_write_scope :: scope
  ca_public_web :: bool
  ca_output_schema :: json
  ca_deterministic_only :: bool

definition default_tools :: "string \<Rightarrow> string list" where
  "default_tools task_type = (
     if task_type \<in> {''doc_summary'', ''retrieval'', ''analysis'', ''general''} then [''search_docs'', ''read_file'']
     else if task_type \<in> {''code_fix'', ''code_review''} then
       [''search_repo'', ''read_file'', ''run_linter'', ''run_tests'']
       @ (if task_type = ''code_fix'' then [''write_staging'', ''apply_patch''] else [])
     else if task_type = ''classification'' then []
     else if task_type = ''sensitive_query'' then [''search_docs'', ''query_db_readonly'']
     else [])"

definition tier_choice :: "bool \<Rightarrow> string \<Rightarrow> string \<times> string \<times> string" where
  "tier_choice det task_type = (
     if det then (''none'', ''none'', ''NO_LLM_DETERMINISTIC_LOCAL_RETRIEVAL'')
     else if task_type = ''classification'' then (''small'', ''specialist'', ''SMALL_STRUCTURED_TASK'')
     else if task_type \<in> {''doc_summary'', ''retrieval''} then (''small'', ''specialist'', ''SMALL_FIRST'')
     else if task_type \<in> {''code_fix'', ''code_review'', ''sensitive_query'', ''analysis''}
       then (''specialist'', ''strong'', ''SPECIALIST_FIRST'')
     else (''small'', ''strong'', ''SMALL_FIRST''))"

definition evidence_needed :: "string \<Rightarrow> string \<Rightarrow> bool" where
  "evidence_needed task_type risk = (
     task_type \<in> {''doc_summary'', ''retrieval'', ''sensitive_query'', ''analysis''} \<or> risk \<in> {''high'', ''critical''})"

definition validator_choice :: "json \<Rightarrow> string \<Rightarrow> string \<Rightarrow> string list" where
  "validator_choice schema task_type risk =
     [''policy''] @ (if truthy schema then [''schema''] else [])
     @ (if task_type \<in> {''code_fix'', ''code_review''} then [''syntax'', ''lint'', ''unit_test''] else [])
     @ (if evidence_needed task_type risk then [''evidence''] else [])
     @ (if risk \<in> {''high'', ''critical''} then [''human''] else [])"

definition cache_choice :: "string \<Rightarrow> string \<Rightarrow> cache_policy \<times> logging_policy" where
  "cache_choice sens task_id = (
     if sens \<in> {''restricted'', ''secret''} then
       (\<lparr>cp_mode = ''deny'', cp_trust_domain = sens @ '':task:'' @ task_id, cp_semantic_cache_allowed = False,
         cp_ttl_seconds = 0\<rparr>,
        \<lparr>lp_raw_prompt = ''deny'', lp_raw_tool_output = ''deny'', lp_retain_days = 90\<rparr>)
     else if sens = ''confidential'' then
       (\<lparr>cp_mode = ''exact_only'', cp_trust_domain = ''task:'' @ task_id, cp_semantic_cache_allowed = False,
         cp_ttl_seconds = 3600\<rparr>,
        \<lparr>lp_raw_prompt = ''deny'', lp_raw_tool_output = ''redacted'', lp_retain_days = 30\<rparr>)
     else if sens = ''internal'' then
       (\<lparr>cp_mode = ''prefix_allowed'', cp_trust_domain = ''workspace:internal'', cp_semantic_cache_allowed = False,
         cp_ttl_seconds = 3600\<rparr>,
        \<lparr>lp_raw_prompt = ''redacted'', lp_raw_tool_output = ''redacted'', lp_retain_days = 30\<rparr>)
     else
       (\<lparr>cp_mode = ''prefix_allowed'', cp_trust_domain = ''system:public'', cp_semantic_cache_allowed = False,
         cp_ttl_seconds = 21600\<rparr>,
        \<lparr>lp_raw_prompt = ''deny'', lp_raw_tool_output = ''redacted'', lp_retain_days = 30\<rparr>))"

definition budget_choice :: "bool \<Rightarrow> string \<Rightarrow> context_budget \<times> generation_budget \<times> execution_budget" where
  "budget_choice det task_type = (
     if det then
       (\<lparr>cb_max_input_tokens = 12000, cb_max_retrieved_tokens = 8000, cb_max_tool_output_tokens = 4000,
         cb_reserve_tokens = 1000\<rparr>, \<lparr>gb_max_output_tokens = 1\<rparr>,
        \<lparr>eb_max_steps = 4, eb_max_tool_calls = 6, eb_max_retries = 0, eb_max_escalations = 0,
         eb_max_wall_time_ms = 120000\<rparr>)
     else if task_type \<in> {''doc_summary'', ''analysis'', ''sensitive_query''} then
       (\<lparr>cb_max_input_tokens = 16000, cb_max_retrieved_tokens = 10000, cb_max_tool_output_tokens = 4000,
         cb_reserve_tokens = 1500\<rparr>, \<lparr>gb_max_output_tokens = 2000\<rparr>,
        \<lparr>eb_max_steps = 8, eb_max_tool_calls = 12, eb_max_retries = 2, eb_max_escalations = 1,
         eb_max_wall_time_ms = 600000\<rparr>)
     else
       (\<lparr>cb_max_input_tokens = 12000, cb_max_retrieved_tokens = 8000, cb_max_tool_output_tokens = 4000,
         cb_reserve_tokens = 1000\<rparr>, \<lparr>gb_max_output_tokens = 1600\<rparr>,
        \<lparr>eb_max_steps = 6, eb_max_tool_calls = 10, eb_max_retries = 1, eb_max_escalations = 1,
         eb_max_wall_time_ms = 300000\<rparr>))"

definition confidence_choice :: "string \<Rightarrow> pyfloat" where
  "confidence_choice risk = (if risk \<in> {''high'', ''critical''}
     then FiniteFloat (85 / 100) ''0.85'' else FiniteFloat (70 / 100) ''0.7'')"

text \<open>The normalised arguments: task type, sensitivity, risk level and the requested or default tools.\<close>

definition norm_arg :: "string \<Rightarrow> string" where
  "norm_arg s = lower (strip s)"

definition requested_tools :: "compile_args \<Rightarrow> string list" where
  "requested_tools a = (if ca_allowed_tools a = [] then default_tools (norm_arg (ca_task_type a))
     else ca_allowed_tools a)"

definition compile_guards :: "compile_args \<Rightarrow> unit result list" where
  "compile_guards a = (
     let task_type = norm_arg (ca_task_type a); sensitivity = norm_arg (ca_sensitivity a);
         risk_level = norm_arg (ca_risk_level a); det = ca_deterministic_only a; web = ca_public_web a;
         forbidden = filter (\<lambda>t. t \<notin> {''search_docs'', ''read_file''}) (requested_tools a) in
     [check (task_type \<notin> set TASK_TYPES) (''unsupported task_type: '' @ task_type),
      check (sensitivity \<notin> set SENSITIVITIES) (''unsupported sensitivity: '' @ sensitivity),
      check (risk_level \<notin> set RISK_LEVELS) (''unsupported risk_level: '' @ risk_level),
      check (det \<and> task_type \<noteq> ''retrieval'') ''NO_LLM v1 is supported only for task_type=retrieval'',
      check (det \<and> web) ''NO_LLM retrieval cannot enable public web egress'',
      check (det \<and> ca_output_schema a \<noteq> JNull) ''NO_LLM retrieval does not accept model output schemas'',
      check (det \<and> forbidden \<noteq> []) (''NO_LLM retrieval has unsupported tools: '' @ show_sorted forbidden),
      check (web \<and> sensitivity = ''secret'')
        ''secret tasks remain network-denied; use restricted with sanitized research when abstraction is permitted''])"

definition compiled_tools :: "compile_args \<Rightarrow> string list" where
  "compiled_tools a = (let tools = requested_tools a in
     if ca_public_web a \<and> ''web_gateway'' \<notin> set tools then tools @ [''web_gateway''] else tools)"

definition network_choice :: "bool \<Rightarrow> string \<Rightarrow> string" where
  "network_choice web sens = (if web then ''allowlisted_egress''
     else if sens \<in> {''restricted'', ''internal''} then ''internal_only'' else ''deny'')"

definition normalized_write :: "scope \<Rightarrow> scope" where
  "normalized_write s = (case s of ScopeStr t \<Rightarrow> ScopeStr t | ScopeTuple ts \<Rightarrow> ScopeTuple (unique ts))"

definition reason_codes :: "compile_args \<Rightarrow> string list" where
  "reason_codes a = (
     let task_type = norm_arg (ca_task_type a); sensitivity = norm_arg (ca_sensitivity a) in
     [''SENSITIVITY_'' @ upper sensitivity, ''TASK_'' @ upper task_type]
     @ (if ca_public_web a then [''SANITIZED_'' @ upper sensitivity @ ''_ALLOWLISTED_EGRESS''] else [])
     @ [snd (snd (tier_choice (ca_deterministic_only a) task_type))])"

definition compiled :: "compile_args \<Rightarrow> task_contract" where
  "compiled a = (
     let task_type = norm_arg (ca_task_type a); sensitivity = norm_arg (ca_sensitivity a);
         risk_level = norm_arg (ca_risk_level a); det = ca_deterministic_only a in
     \<lparr>tc_task_id = ca_task_id a, tc_task_type = task_type, tc_sensitivity = sensitivity,
       tc_risk_level = risk_level, tc_allowed_sources = unique (ca_allowed_sources a),
       tc_allowed_tools = unique (compiled_tools a), tc_write_scope = normalized_write (ca_write_scope a),
       tc_network_scope = network_choice (ca_public_web a) sensitivity,
       tc_context_budget = fst (budget_choice det task_type),
       tc_generation_budget = fst (snd (budget_choice det task_type)),
       tc_execution_budget = snd (snd (budget_choice det task_type)),
       tc_evidence_required = evidence_needed task_type risk_level,
       tc_validators = unique (validator_choice (ca_output_schema a) task_type risk_level),
       tc_model_policy = \<lparr>mp_initial_tier = fst (tier_choice det task_type),
         mp_max_tier = fst (snd (tier_choice det task_type)), mp_escalation_allowed = (\<not> det),
         mp_confidence_floor = confidence_choice risk_level, mp_trusted_local_only = (sensitivity \<noteq> ''public'')\<rparr>,
       tc_cache_policy = fst (cache_choice sensitivity (ca_task_id a)),
       tc_logging_policy = snd (cache_choice sensitivity (ca_task_id a)),
       tc_output_schema = ca_output_schema a, tc_schema_version = ''workspace-task-contract/v1'',
       tc_policy_reason_codes = reason_codes a\<rparr>)"

definition task_compile :: "compile_args \<Rightarrow> task_contract result" where
  "task_compile a = bindE (mapE id (compile_guards a)) (\<lambda>_. task_validate (compiled a))"

section \<open>Validation decides the contract's well-formedness\<close>

definition policy_ok :: "task_contract \<Rightarrow> bool" where
  "policy_ok c \<longleftrightarrow>
     cp_mode (tc_cache_policy c) \<in> {''deny'', ''exact_only'', ''prefix_allowed'', ''kv_allowed''}
   \<and> cp_trust_domain (tc_cache_policy c) \<noteq> []
   \<and> lp_raw_prompt (tc_logging_policy c) \<in> {''deny'', ''redacted'', ''allow''}
   \<and> lp_raw_tool_output (tc_logging_policy c) \<in> {''deny'', ''redacted'', ''allow''}
   \<and> (''web_gateway'' \<in> set (tc_allowed_tools c) \<longleftrightarrow> tc_network_scope c = ''allowlisted_egress'')
   \<and> (set (tc_allowed_tools c) \<inter> set INTERNAL_NETWORK_TOOLS \<noteq> {} \<longrightarrow> tc_network_scope c = ''internal_only'')
   \<and> (tc_sensitivity c = ''secret'' \<longrightarrow> tc_network_scope c = ''deny''
        \<and> cp_mode (tc_cache_policy c) \<in> {''deny'', ''exact_only''})
   \<and> (tc_sensitivity c \<in> {''restricted'', ''secret''} \<longrightarrow> lp_raw_prompt (tc_logging_policy c) = ''deny''
        \<and> lp_raw_tool_output (tc_logging_policy c) = ''deny'' \<and> \<not> cp_semantic_cache_allowed (tc_cache_policy c))"

definition model_ok :: "task_contract \<Rightarrow> bool" where
  "model_ok c \<longleftrightarrow> (let p = tc_model_policy c in
     mp_initial_tier p \<in> set MODEL_TIERS \<and> mp_max_tier p \<in> set MODEL_TIERS
   \<and> tier_order (mp_initial_tier p) \<le> tier_order (mp_max_tier p) \<and> in_unit (mp_confidence_floor p)
   \<and> (mp_initial_tier p = ''none'' \<longrightarrow> mp_max_tier p = ''none'' \<and> \<not> mp_escalation_allowed p
        \<and> eb_max_escalations (tc_execution_budget c) = 0))"

definition budgets_ok :: "task_contract \<Rightarrow> bool" where
  "budgets_ok c \<longleftrightarrow> 256 \<le> cb_max_input_tokens (tc_context_budget c)
   \<and> 0 \<le> cb_reserve_tokens (tc_context_budget c) \<and> 0 \<le> cb_max_retrieved_tokens (tc_context_budget c)
   \<and> 0 \<le> cb_max_tool_output_tokens (tc_context_budget c) \<and> 1 \<le> gb_max_output_tokens (tc_generation_budget c)
   \<and> 1 \<le> eb_max_steps (tc_execution_budget c) \<and> 0 \<le> eb_max_tool_calls (tc_execution_budget c)
   \<and> 0 \<le> eb_max_retries (tc_execution_budget c) \<and> 0 \<le> eb_max_escalations (tc_execution_budget c)
   \<and> 100 \<le> eb_max_wall_time_ms (tc_execution_budget c)"

definition task_ok :: "task_contract \<Rightarrow> bool" where
  "task_ok c \<longleftrightarrow> tc_task_id c \<noteq> [] \<and> length (tc_task_id c) \<le> 128 \<and> tc_task_type c \<in> set TASK_TYPES
   \<and> tc_sensitivity c \<in> set SENSITIVITIES \<and> tc_risk_level c \<in> set RISK_LEVELS
   \<and> set (tc_allowed_tools c) \<subseteq> set TOOLS \<and> set (tc_validators c) \<subseteq> set VALIDATORS
   \<and> tc_network_scope c \<in> {''deny'', ''internal_only'', ''allowlisted_egress''}
   \<and> model_ok c \<and> budgets_ok c \<and> policy_ok c"

lemma check_Inr_iff [simp]: "check b m = Inr u \<longleftrightarrow> \<not> b"
  by (simp add: check_def)

lemma identity_checks_ok: "(\<forall>x \<in> set (identity_checks c). \<exists>u. x = Inr u) \<longleftrightarrow>
   tc_task_id c \<noteq> [] \<and> length (tc_task_id c) \<le> 128 \<and> tc_task_type c \<in> set TASK_TYPES
   \<and> tc_sensitivity c \<in> set SENSITIVITIES \<and> tc_risk_level c \<in> set RISK_LEVELS
   \<and> set (tc_allowed_tools c) \<subseteq> set TOOLS \<and> set (tc_validators c) \<subseteq> set VALIDATORS
   \<and> tc_network_scope c \<in> {''deny'', ''internal_only'', ''allowlisted_egress''}
   \<and> (set (tc_allowed_tools c) \<inter> set INTERNAL_NETWORK_TOOLS \<noteq> {} \<longrightarrow> tc_network_scope c = ''internal_only'')"
  by (auto simp: identity_checks_def Let_def filter_empty_conv not_less)

lemma model_budget_checks_ok:
  "(\<forall>x \<in> set (model_checks (tc_model_policy c) @ budget_checks c). \<exists>u. x = Inr u) \<longleftrightarrow> model_ok c \<and> budgets_ok c"
  by (auto simp: model_checks_def budget_checks_def model_ok_def budgets_ok_def Let_def not_less)

lemma policy_checks_ok:
  "(\<forall>x \<in> set (policy_checks c). \<exists>u. x = Inr u)
     \<and> (set (tc_allowed_tools c) \<inter> set INTERNAL_NETWORK_TOOLS \<noteq> {} \<longrightarrow> tc_network_scope c = ''internal_only'')
   \<longleftrightarrow> policy_ok c"
  unfolding policy_checks_def policy_ok_def Let_def
  by ((cases "tc_sensitivity c = ''secret''"; cases "tc_sensitivity c = ''restricted''";
      cases "''web_gateway'' \<in> set (tc_allowed_tools c)"), simp_all, blast+)

lemma task_validate_iff: "task_validate c = Inr d \<longleftrightarrow> d = c \<and> task_ok c"
proof -
  have "task_validate c = Inr d \<longleftrightarrow> d = c \<and> (\<forall>x \<in> set (identity_checks c). \<exists>u. x = Inr u)
      \<and> (\<forall>x \<in> set (model_checks (tc_model_policy c) @ budget_checks c). \<exists>u. x = Inr u)
      \<and> (\<forall>x \<in> set (policy_checks c). \<exists>u. x = Inr u)"
    unfolding task_validate_def bindE_checks_Inr by auto
  then show ?thesis
    unfolding identity_checks_ok model_budget_checks_ok task_ok_def policy_checks_ok [symmetric] by blast
qed

section \<open>When compilation succeeds and what it yields\<close>

lemma set_unique: "set (unique vs) = strip ` set vs - {[]}"
  by (auto simp: unique_def)

lemma distinct_unique [simp]: "distinct (unique vs)"
  by (simp add: unique_def)

text \<open>The decision that the compiler's guards and the final validation amount to.\<close>

definition compile_ok :: "compile_args \<Rightarrow> bool" where
  "compile_ok a \<longleftrightarrow> (
     let task_type = norm_arg (ca_task_type a); sens = norm_arg (ca_sensitivity a);
         tools = set (unique (requested_tools a)) in
     ca_task_id a \<noteq> [] \<and> length (ca_task_id a) \<le> 128
   \<and> task_type \<in> set TASK_TYPES \<and> sens \<in> set SENSITIVITIES \<and> norm_arg (ca_risk_level a) \<in> set RISK_LEVELS
   \<and> tools \<subseteq> set TOOLS
   \<and> (''web_gateway'' \<in> tools \<longrightarrow> ca_public_web a)
   \<and> (ca_public_web a \<longrightarrow> sens \<noteq> ''secret'')
   \<and> (tools \<inter> set INTERNAL_NETWORK_TOOLS \<noteq> {} \<longrightarrow> \<not> ca_public_web a \<and> sens \<in> {''restricted'', ''internal''})
   \<and> (ca_deterministic_only a \<longrightarrow> task_type = ''retrieval'' \<and> \<not> ca_public_web a \<and> ca_output_schema a = JNull
        \<and> set (requested_tools a) \<subseteq> {''search_docs'', ''read_file''}))"

lemma compile_guards_ok: "(\<forall>x \<in> set (compile_guards a). \<exists>u. x = Inr u) \<longleftrightarrow>
   norm_arg (ca_task_type a) \<in> set TASK_TYPES \<and> norm_arg (ca_sensitivity a) \<in> set SENSITIVITIES
   \<and> norm_arg (ca_risk_level a) \<in> set RISK_LEVELS \<and> (ca_public_web a \<longrightarrow> norm_arg (ca_sensitivity a) \<noteq> ''secret'')
   \<and> (ca_deterministic_only a \<longrightarrow> norm_arg (ca_task_type a) = ''retrieval'' \<and> \<not> ca_public_web a
        \<and> ca_output_schema a = JNull \<and> set (requested_tools a) \<subseteq> {''search_docs'', ''read_file''})"
  by (auto simp: compile_guards_def Let_def filter_empty_conv)

lemma compiled_tools_set:
  "set (unique (compiled_tools a))
     = set (unique (requested_tools a)) \<union> (if ca_public_web a then {''web_gateway''} else {})"
proof -
  have "strip ''web_gateway'' = ''web_gateway''" by code_simp
  then show ?thesis
    by (force simp: set_unique compiled_tools_def Let_def image_iff)
qed

lemma compiled_validators: "set (unique (validator_choice s t r)) \<subseteq> set VALIDATORS"
proof -
  have v: "set (validator_choice s t r) \<subseteq> set VALIDATORS"
    by (auto simp: validator_choice_def VALIDATORS_def)
  have "\<forall>v \<in> set VALIDATORS. strip v = v" by code_simp
  with v show ?thesis by (auto simp: set_unique)
qed

lemma tier_choice_ok:
  "fst (tier_choice d t) \<in> set MODEL_TIERS" "fst (snd (tier_choice d t)) \<in> set MODEL_TIERS"
  "tier_order (fst (tier_choice d t)) \<le> tier_order (fst (snd (tier_choice d t)))"
  "fst (tier_choice d t) = ''none'' \<longleftrightarrow> d" "d \<Longrightarrow> fst (snd (tier_choice d t)) = ''none''"
  by (simp_all add: tier_choice_def MODEL_TIERS_def tier_order_def)

lemma compiled_model_budgets: "model_ok (compiled a)" "budgets_ok (compiled a)"
proof -
  have "d \<Longrightarrow> eb_max_escalations (snd (snd (budget_choice d t))) = 0" for d t
    by (simp add: budget_choice_def)
  moreover have "in_unit (confidence_choice r)" for r
    by (simp add: confidence_choice_def)
  ultimately show "model_ok (compiled a)"
    by (simp add: compiled_def Let_def model_ok_def tier_choice_ok)
  show "budgets_ok (compiled a)"
    by (simp add: compiled_def Let_def budgets_ok_def budget_choice_def)
qed

lemma web_not_internal: "''web_gateway'' \<notin> set INTERNAL_NETWORK_TOOLS" "''web_gateway'' \<in> set TOOLS"
  by code_simp+

lemma compiled_policy:
  assumes "ca_public_web a \<longrightarrow> norm_arg (ca_sensitivity a) \<noteq> ''secret''"
  shows "policy_ok (compiled a) \<longleftrightarrow>
     (''web_gateway'' \<in> set (unique (requested_tools a)) \<longrightarrow> ca_public_web a)
   \<and> (set (unique (requested_tools a)) \<inter> set INTERNAL_NETWORK_TOOLS \<noteq> {}
        \<longrightarrow> \<not> ca_public_web a \<and> norm_arg (ca_sensitivity a) \<in> {''restricted'', ''internal''})"
proof -
  let ?s = "norm_arg (ca_sensitivity a)" and ?c = "compiled a"
  have c: "tc_allowed_tools ?c = unique (compiled_tools a)" "tc_sensitivity ?c = ?s"
    "tc_network_scope ?c = network_choice (ca_public_web a) ?s"
    "tc_cache_policy ?c = fst (cache_choice ?s (ca_task_id a))"
    "tc_logging_policy ?c = snd (cache_choice ?s (ca_task_id a))"
    by (simp_all add: compiled_def Let_def)
  have cache: "cp_mode (tc_cache_policy ?c) \<in> {''deny'', ''exact_only'', ''prefix_allowed'', ''kv_allowed''}"
    "cp_trust_domain (tc_cache_policy ?c) \<noteq> []"
    "lp_raw_prompt (tc_logging_policy ?c) \<in> {''deny'', ''redacted'', ''allow''}"
    "lp_raw_tool_output (tc_logging_policy ?c) \<in> {''deny'', ''redacted'', ''allow''}"
    "?s \<in> {''restricted'', ''secret''} \<longrightarrow> lp_raw_prompt (tc_logging_policy ?c) = ''deny''
        \<and> lp_raw_tool_output (tc_logging_policy ?c) = ''deny'' \<and> \<not> cp_semantic_cache_allowed (tc_cache_policy ?c)"
    "?s = ''secret'' \<longrightarrow> cp_mode (tc_cache_policy ?c) \<in> {''deny'', ''exact_only''}"
    unfolding c by (simp_all add: cache_choice_def)
  have net: "tc_network_scope ?c = ''allowlisted_egress'' \<longleftrightarrow> ca_public_web a"
    "tc_network_scope ?c = ''internal_only'' \<longleftrightarrow> \<not> ca_public_web a \<and> ?s \<in> {''restricted'', ''internal''}"
    "?s = ''secret'' \<longrightarrow> tc_network_scope ?c = ''deny''"
    using assms unfolding c by (auto simp: network_choice_def)
  have tools: "set (tc_allowed_tools ?c) \<inter> set INTERNAL_NETWORK_TOOLS
      = set (unique (requested_tools a)) \<inter> set INTERNAL_NETWORK_TOOLS"
    "''web_gateway'' \<in> set (tc_allowed_tools ?c)
      \<longleftrightarrow> ca_public_web a \<or> ''web_gateway'' \<in> set (unique (requested_tools a))"
    unfolding c compiled_tools_set using web_not_internal by auto
  show ?thesis
    unfolding policy_ok_def tools net c(2) using cache net(3) by argo
qed

lemma task_compile_iff: "task_compile a = Inr c \<longleftrightarrow> compile_ok a \<and> c = compiled a"
proof -
  let ?g = "\<forall>x \<in> set (compile_guards a). \<exists>u. x = Inr u"
  have "task_compile a = Inr c \<longleftrightarrow> ?g \<and> c = compiled a \<and> task_ok (compiled a)"
    unfolding task_compile_def bindE_checks_Inr task_validate_iff by auto
  moreover have "task_ok (compiled a) \<longleftrightarrow> ca_task_id a \<noteq> [] \<and> length (ca_task_id a) \<le> 128
      \<and> set (unique (requested_tools a)) \<subseteq> set TOOLS \<and> policy_ok (compiled a)" if ?g
  proof -
    have "tc_network_scope (compiled a) \<in> {''deny'', ''internal_only'', ''allowlisted_egress''}"
      by (simp add: compiled_def Let_def network_choice_def)
    moreover have "model_ok (compiled a)" "budgets_ok (compiled a)"
      by (rule compiled_model_budgets)+
    moreover have "set (tc_allowed_tools (compiled a)) \<subseteq> set TOOLS \<longleftrightarrow> set (unique (requested_tools a)) \<subseteq> set TOOLS"
      using web_not_internal by (auto simp: compiled_def Let_def compiled_tools_set)
    ultimately show ?thesis
      using that compiled_validators unfolding task_ok_def compile_guards_ok
      by (simp add: compiled_def Let_def)
  qed
  ultimately show ?thesis
    using compiled_policy [of a] unfolding compile_guards_ok compile_ok_def Let_def by blast
qed

section \<open>Properties\<close>

lemma mapE_id_error: "mapE id xs = Inl e \<Longrightarrow> \<forall>x \<in> set xs. \<exists>b m. x = check b m \<Longrightarrow> \<exists>m. e = (TaskContractError, m)"
  using mapE_Inl [of id xs e] by (fastforce simp: check_def split: if_splits)

lemma all_checks: "\<forall>x \<in> set (identity_checks c @ model_checks (tc_model_policy c) @ budget_checks c @ policy_checks c).
  \<exists>b m. x = check b m"
  unfolding identity_checks_def model_checks_def budget_checks_def policy_checks_def Let_def by auto

text \<open>C27: \<open>TaskContract.validate\<close> returns the contract itself exactly when it is well formed
  (vocabularies, budgets, tier order, network, cache and logging rules), and otherwise raises
  \<open>TaskContractError\<close> and nothing else.\<close>

theorem validate_decides:
  "(task_ok c \<and> task_validate c = Inr c) \<or> (\<not> task_ok c \<and> (\<exists>m. task_validate c = raise TaskContractError m))"
proof (cases "task_validate c")
  case (Inl e)
  then have "mapE id (identity_checks c @ model_checks (tc_model_policy c) @ budget_checks c @ policy_checks c) = Inl e"
    by (auto simp: task_validate_def bindE_Inl_iff)
  from mapE_id_error [OF this all_checks] Inl show ?thesis
    by (metis Inl_not_Inr task_validate_iff)
qed (simp add: task_validate_iff)

theorem validate_decides_witness:
  "\<exists>m. task_validate ((compiled \<lparr>ca_task_id = ''t'', ca_task_type = ''general'', ca_sensitivity = ''secret'',
     ca_risk_level = ''low'', ca_allowed_sources = [], ca_allowed_tools = [], ca_write_scope = ScopeStr ''none'',
     ca_public_web = False, ca_output_schema = JNull, ca_deterministic_only = False\<rparr>)
       \<lparr>tc_network_scope := ''internal_only''\<rparr>) = raise TaskContractError m"
  (is "\<exists>m. task_validate ?c = _")
proof -
  have "\<not> task_ok ?c"
    by (simp add: task_ok_def policy_ok_def compiled_def Let_def norm_arg_def strip_def lower_def is_space_def
        lower_char_def)
  with validate_decides [of ?c] show ?thesis by blast
qed

text \<open>The compiler succeeds exactly on the requests described by \<open>compile_ok\<close>: known vocabulary,
  known tools, no web gateway without public web, no public web for secret tasks, internal network
  tools only where the network scope will be internal, and for deterministic retrieval no web, no
  schema and only the two local read tools. In particular the final validation never rejects a
  combination of tiers, budgets, cache and logging policies that the compiler itself chose.\<close>

theorem compile_decides: "(\<exists>c. task_compile a = Inr c) \<longleftrightarrow> compile_ok a"
  by (simp add: task_compile_iff)

text \<open>Security posture of every compiled contract: it is well formed; the web gateway and
  allowlisted egress appear exactly when public web was requested; secret tasks have no network, no
  shared cache; restricted and secret tasks log no raw content and cache nothing; a deterministic
  contract has no model tier, no escalation and only local read tools; high-risk tasks require
  evidence and a human validator; public data is the only data that may leave trusted local models.\<close>

theorem compile_posture:
  assumes "task_compile a = Inr c"
  shows "task_ok c \<and> distinct (tc_allowed_tools c)
   \<and> (''web_gateway'' \<in> set (tc_allowed_tools c) \<longleftrightarrow> ca_public_web a)
   \<and> (tc_network_scope c = ''allowlisted_egress'' \<longleftrightarrow> ca_public_web a)
   \<and> (tc_sensitivity c = ''secret'' \<longrightarrow> tc_network_scope c = ''deny'')
   \<and> (tc_sensitivity c \<in> {''restricted'', ''secret''} \<longrightarrow> cp_mode (tc_cache_policy c) = ''deny''
        \<and> lp_raw_prompt (tc_logging_policy c) = ''deny'' \<and> lp_raw_tool_output (tc_logging_policy c) = ''deny'')
   \<and> (ca_deterministic_only a \<longrightarrow> mp_max_tier (tc_model_policy c) = ''none''
        \<and> eb_max_escalations (tc_execution_budget c) = 0 \<and> \<not> mp_escalation_allowed (tc_model_policy c)
        \<and> set (tc_allowed_tools c) \<subseteq> {''search_docs'', ''read_file''})
   \<and> (tc_risk_level c \<in> {''high'', ''critical''} \<longrightarrow> tc_evidence_required c
        \<and> {''evidence'', ''human''} \<subseteq> set (tc_validators c))
   \<and> (mp_trusted_local_only (tc_model_policy c) \<longleftrightarrow> tc_sensitivity c \<noteq> ''public'')"
proof -
  from assms have ok: "compile_ok a" and c: "c = compiled a" by (simp_all add: task_compile_iff)
  have t: "task_ok c"
    using assms unfolding c task_compile_def bindE_checks_Inr task_validate_iff by blast
  have tools: "set (tc_allowed_tools c)
      = set (unique (requested_tools a)) \<union> (if ca_public_web a then {''web_gateway''} else {})"
    by (simp add: c compiled_def Let_def compiled_tools_set)
  have s: "strip ''search_docs'' = ''search_docs''" "strip ''read_file'' = ''read_file''"
    "strip ''evidence'' = ''evidence''" "strip ''human'' = ''human''" by code_simp+
  have det: "set (unique (requested_tools a)) \<subseteq> {''search_docs'', ''read_file''}" "\<not> ca_public_web a"
    if "ca_deterministic_only a"
    using ok that s by (auto simp: compile_ok_def Let_def set_unique)
  have val: "{''evidence'', ''human''} \<subseteq> set (unique (validator_choice j t r))" "evidence_needed t r"
    if "r \<in> {''high'', ''critical''}" for j t r
    using that s by (force simp: set_unique validator_choice_def evidence_needed_def)+
  have net: "tc_network_scope c = ''allowlisted_egress'' \<longleftrightarrow> ca_public_web a"
    by (simp add: c compiled_def Let_def network_choice_def)
  have web: "''web_gateway'' \<in> set (tc_allowed_tools c) \<longleftrightarrow> ca_public_web a"
    using t net by (auto simp: task_ok_def policy_ok_def)
  have sec: "tc_sensitivity c = ''secret'' \<longrightarrow> tc_network_scope c = ''deny''"
    using t by (simp add: task_ok_def policy_ok_def)
  have cache: "tc_sensitivity c \<in> {''restricted'', ''secret''} \<longrightarrow> cp_mode (tc_cache_policy c) = ''deny''
        \<and> lp_raw_prompt (tc_logging_policy c) = ''deny'' \<and> lp_raw_tool_output (tc_logging_policy c) = ''deny''"
    by (auto simp: c compiled_def Let_def cache_choice_def)
  have d: "ca_deterministic_only a \<longrightarrow> mp_max_tier (tc_model_policy c) = ''none''
        \<and> eb_max_escalations (tc_execution_budget c) = 0 \<and> \<not> mp_escalation_allowed (tc_model_policy c)
        \<and> set (tc_allowed_tools c) \<subseteq> {''search_docs'', ''read_file''}"
    using det unfolding tools by (simp add: c compiled_def Let_def tier_choice_ok budget_choice_def)
  have v: "tc_risk_level c \<in> {''high'', ''critical''} \<longrightarrow> tc_evidence_required c
        \<and> {''evidence'', ''human''} \<subseteq> set (tc_validators c)"
    using val by (simp add: c compiled_def Let_def)
  show ?thesis
    using t web net sec cache d v by (auto simp: c compiled_def Let_def)
qed

definition demo_args :: compile_args where
  "demo_args = \<lparr>ca_task_id = ''task-1'', ca_task_type = '' Retrieval '', ca_sensitivity = ''restricted'',
     ca_risk_level = ''high'', ca_allowed_sources = [], ca_allowed_tools = [], ca_write_scope = ScopeStr ''none'',
     ca_public_web = False, ca_output_schema = JNull, ca_deterministic_only = True\<rparr>"

theorem compile_posture_witness:
  "task_compile demo_args = Inr (compiled demo_args) \<and> mp_max_tier (tc_model_policy (compiled demo_args)) = ''none''
   \<and> cp_mode (tc_cache_policy (compiled demo_args)) = ''deny''"
proof -
  have ok: "compile_ok demo_args" by code_simp
  then have c: "task_compile demo_args = Inr (compiled demo_args)" by (simp add: task_compile_iff)
  have "ca_deterministic_only demo_args" "tc_sensitivity (compiled demo_args) = ''restricted''" by code_simp+
  with compile_posture [OF c] c show ?thesis by simp
qed

end
