(* ===== verification/Ip_Address.thy ===== *)
theory Ip_Address
  imports Json
begin

text \<open>
  Address literals as Python's \<open>ipaddress.ip_address\<close> reads them (version 3.11), and the test of
  \<open>src/three_agent/capability_authority.py\<close> that a literal names an internal host. Addresses are
  integers, of 32 bits for version 4 and 128 bits for version 6.
\<close>

datatype ip = IPv4 int | IPv6 int

section \<open>Literals\<close>

definition parse_octet :: "string \<Rightarrow> int option" where
  "parse_octet s = (
     if s = [] \<or> \<not> list_all is_digit s \<or> 3 < length s then None
     else if s \<noteq> ''0'' \<and> hd s = CHR ''0'' then None
     else if 255 < nat_of_digits s then None
     else Some (int (nat_of_digits s)))"

definition parse_ipv4 :: "string \<Rightarrow> int option" where
  "parse_ipv4 s = (case map parse_octet (split_on (CHR ''.'') s) of
     [Some a, Some b, Some c, Some d] \<Rightarrow> Some (((a * 256 + b) * 256 + c) * 256 + d)
   | _ \<Rightarrow> None)"

definition parse_hextet :: "string \<Rightarrow> int option" where
  "parse_hextet s = (
     if s = [] \<or> 4 < length s \<or> \<not> list_all (\<lambda>c. hex_val c \<noteq> None) s then None
     else Some (foldl (\<lambda>n c. 16 * n + int (the (hex_val c))) 0 s))"

text \<open>\<open>'%x' % n\<close> for a 16 bit number.\<close>

definition hex_text :: "int \<Rightarrow> string" where
  "hex_text n = (let ds = dropWhile (\<lambda>c. c = CHR ''0'')
       (hex2 (nat (n div 256)) @ hex2 (nat (n mod 256))) in if ds = [] then ''0'' else ds)"

text \<open>A dotted suffix is replaced by two hextets.\<close>

definition expand_suffix :: "string list \<Rightarrow> string list option" where
  "expand_suffix parts = (if CHR ''.'' \<in> set (last parts) then
     (case parse_ipv4 (last parts) of None \<Rightarrow> None
      | Some n \<Rightarrow> Some (butlast parts @ [hex_text (n div 65536), hex_text (n mod 65536)]))
     else Some parts)"

definition hextets :: "int \<Rightarrow> string list \<Rightarrow> int option" where
  "hextets n0 ps = foldl (\<lambda>acc p. case acc of None \<Rightarrow> None
     | Some n \<Rightarrow> map_option (\<lambda>h. 65536 * n + h) (parse_hextet p)) (Some n0) ps"

definition parse_ipv6_parts :: "string list \<Rightarrow> int option" where
  "parse_ipv6_parts parts = (
     let skips = filter (\<lambda>i. parts ! i = []) [1..<length parts - 1] in
     case skips of
       [] \<Rightarrow> if length parts \<noteq> 8 \<or> hd parts = [] \<or> last parts = [] then None else hextets 0 parts
     | [i] \<Rightarrow>
        (let hi = (if hd parts = [] then i - 1 else i);
             lo = (let l = length parts - i - 1 in if last parts = [] then l - 1 else l) in
         if (hd parts = [] \<and> hi \<noteq> 0) \<or> (last parts = [] \<and> lo \<noteq> 0) \<or> 8 \<le> hi + lo then None
         else case hextets 0 (take hi parts) of None \<Rightarrow> None
           | Some n \<Rightarrow> hextets (n * 65536 ^ (8 - (hi + lo))) (drop (length parts - lo) parts))
     | _ \<Rightarrow> None)"

definition parse_ipv6 :: "string \<Rightarrow> int option" where
  "parse_ipv6 s = (
     let addr = takeWhile (\<lambda>c. c \<noteq> CHR ''%'') s; tail = dropWhile (\<lambda>c. c \<noteq> CHR ''%'') s in
     if CHR ''/'' \<in> set s \<or> (tail \<noteq> [] \<and> (tl tail = [] \<or> CHR ''%'' \<in> set (tl tail))) then None
     else if addr = [] \<or> length (split_on (CHR '':'') addr) < 3 then None
     else case expand_suffix (split_on (CHR '':'') addr) of None \<Rightarrow> None
       | Some parts \<Rightarrow> if 9 < length parts then None else parse_ipv6_parts parts)"

definition ip_address :: "string \<Rightarrow> ip option" where
  "ip_address s = (case (if CHR ''/'' \<in> set s then None else parse_ipv4 s) of
     Some n \<Rightarrow> Some (IPv4 n)
   | None \<Rightarrow> map_option IPv6 (parse_ipv6 s))"

section \<open>Networks\<close>

definition in_net4 :: "int \<Rightarrow> int \<Rightarrow> nat \<Rightarrow> bool" where
  "in_net4 n net len \<longleftrightarrow> n div 2 ^ (32 - len) = net div 2 ^ (32 - len)"

definition in_net6 :: "int \<Rightarrow> int \<Rightarrow> nat \<Rightarrow> bool" where
  "in_net6 n net len \<longleftrightarrow> n div 2 ^ (128 - len) = net div 2 ^ (128 - len)"

definition quad :: "int \<Rightarrow> int \<Rightarrow> int \<Rightarrow> int \<Rightarrow> int" where
  "quad a b c d = ((a * 256 + b) * 256 + c) * 256 + d"

fun is_loopback :: "ip \<Rightarrow> bool" where
  "is_loopback (IPv4 n) = in_net4 n (quad 127 0 0 0) 8"
| "is_loopback (IPv6 n) = (n = 1)"

fun is_link_local :: "ip \<Rightarrow> bool" where
  "is_link_local (IPv4 n) = in_net4 n (quad 169 254 0 0) 16"
| "is_link_local (IPv6 n) = in_net6 n (0xfe80 * 2 ^ 112) 10"

fun is_private_net :: "ip \<Rightarrow> bool" where
  "is_private_net (IPv4 n) = (in_net4 n (quad 10 0 0 0) 8 \<or> in_net4 n (quad 172 16 0 0) 12
     \<or> in_net4 n (quad 192 168 0 0) 16)"
| "is_private_net (IPv6 n) = in_net6 n (0xfc00 * 2 ^ 112) 7"

definition is_internal_ip_literal :: "string \<Rightarrow> bool" where
  "is_internal_ip_literal value = (case ip_address (strip value) of None \<Rightarrow> False
     | Some address \<Rightarrow> is_loopback address \<or> is_link_local address \<or> is_private_net address)"

end
