(* ===== verification/Capability_Authority.thy ===== *)
theory Capability_Authority
  imports Task_Contract Ip_Address
begin

text \<open>
  Model of \<open>src/three_agent/capability_authority.py\<close>: the deny-by-default capability envelope of a
  task, the decision on a capability request, and delegation to a child authority. The main results
  are that a decision is a pure function of the envelope's fields, that an authorised request obeys
  the tool, effect, resource, network and write-scope policies, and that delegation never widens
  authority: whatever a child may do, its parent may do, along chains of any length.
\<close>

section \<open>Vocabulary\<close>

definition EFFECTS :: "(string \<times> string) list" where
  "EFFECTS = [
     (''read_file'', ''read''), (''search_repo'', ''read''), (''search_docs'', ''read''),
     (''query_db_readonly'', ''read''), (''calculator'', ''compute''), (''run_linter'', ''execute''),
     (''run_tests'', ''execute''), (''write_staging'', ''write''), (''apply_patch'', ''write''),
     (''web_gateway'', ''network_read''), (''windows.event.system'', ''read''),
     (''windows.event.application'', ''read''), (''windows.event.security'', ''read''),
     (''windows.printer.queue'', ''read''), (''network.ssh.probe'', ''network_read''),
     (''network.rtsp.probe'', ''network_read''), (''network.smb.probe'', ''network_read''),
     (''network.printer.ipp_probe'', ''network_read''), (''network.printer.raw_probe'', ''network_read''),
     (''system.platform.identify'', ''read''), (''system.resource.snapshot'', ''read''),
     (''system.storage.capacity'', ''read''), (''network.interface.snapshot'', ''read''),
     (''network.ipconfig.snapshot'', ''read''), (''network.route.snapshot'', ''read''),
     (''network.dns.snapshot'', ''read''), (''time.sync.status'', ''read''),
     (''service.status.read'', ''read''), (''windows.group_policy.result'', ''read''),
     (''identity.session.snapshot'', ''read''), (''audio.devices.snapshot'', ''read''),
     (''meeting.client.snapshot'', ''read''), (''process.top.snapshot'', ''read''),
     (''hardware.usb.snapshot'', ''read''), (''hardware.display.snapshot'', ''read''),
     (''hardware.dock.snapshot'', ''read''), (''driver.inventory.snapshot'', ''read''),
     (''camera.devices.snapshot'', ''read''), (''storage.io.snapshot'', ''read''),
     (''windows.print.driver.snapshot'', ''read''), (''windows.boot.snapshot'', ''read''),
     (''windows.update.history'', ''read''), (''vpn.status.snapshot'', ''read''),
     (''network.reachability.internal'', ''network_read''), (''network.quality.internal'', ''network_read'')]
     @ map (\<lambda>t. (t, ''read'')) DIAGNOSTIC_STAGED_LOCAL_READ_TOOLS"

definition NETWORK_SCOPES :: "string list" where
  "NETWORK_SCOPES = [''deny'', ''internal_only'', ''allowlisted_egress'']"

definition WAVE1_INVOCABLE_LOCAL_READ_TOOLS :: "string list" where
  "WAVE1_INVOCABLE_LOCAL_READ_TOOLS = [''backup.local_state.snapshot'', ''cloud_files.client_state.snapshot'',
     ''identity.account_state.snapshot'', ''mail_exchange.client_state.snapshot'', ''voip.client_state.snapshot'']"

definition EXACT_RESOURCE_POLICIES :: "(string \<times> string \<times> string) list" where
  "EXACT_RESOURCE_POLICIES = [
     (''windows.event.system'', ''event_channel'', ''windows:event:System''),
     (''windows.event.application'', ''event_channel'', ''windows:event:Application''),
     (''windows.event.security'', ''event_channel'', ''windows:event:Security''),
     (''windows.printer.queue'', ''print_queue'', ''windows:printer:queue''),
     (''system.platform.identify'', ''system_inventory'', ''local:platform''),
     (''system.resource.snapshot'', ''performance_snapshot'', ''local:resources''),
     (''system.storage.capacity'', ''filesystem_capacity'', ''local:storage:default''),
     (''network.interface.snapshot'', ''network_config'', ''local:interfaces''),
     (''network.ipconfig.snapshot'', ''network_config'', ''local:ipconfig''),
     (''network.route.snapshot'', ''network_config'', ''local:routes''),
     (''network.dns.snapshot'', ''network_config'', ''local:dns''),
     (''time.sync.status'', ''time_config'', ''local:time-sync''),
     (''identity.session.snapshot'', ''identity_session'', ''local:identity:current''),
     (''audio.devices.snapshot'', ''audio_devices'', ''local:audio:devices''),
     (''meeting.client.snapshot'', ''meeting_clients'', ''local:meeting:clients''),
     (''process.top.snapshot'', ''process_inventory'', ''local:processes:top''),
     (''hardware.usb.snapshot'', ''usb_devices'', ''local:usb:devices''),
     (''hardware.display.snapshot'', ''display_devices'', ''local:display:devices''),
     (''hardware.dock.snapshot'', ''dock_devices'', ''local:dock:devices''),
     (''driver.inventory.snapshot'', ''driver_inventory'', ''local:driver:inventory''),
     (''camera.devices.snapshot'', ''camera_devices'', ''local:camera:devices''),
     (''storage.io.snapshot'', ''storage_io'', ''local:storage:io''),
     (''windows.print.driver.snapshot'', ''printer_drivers'', ''local:printer:drivers''),
     (''windows.boot.snapshot'', ''boot_state'', ''local:windows:boot''),
     (''windows.update.history'', ''windows_update_history'', ''local:windows:update-history''),
     (''vpn.status.snapshot'', ''vpn_status'', ''local:vpn:status''),
     (''cloud_files.client_state.snapshot'', ''cloud_files_client_state'', ''local:cloud-files:client-state''),
     (''mail_exchange.client_state.snapshot'', ''mail_exchange_client_state'', ''local:mail-exchange:client-state''),
     (''voip.client_state.snapshot'', ''voip_client_state'', ''local:voip:client-state''),
     (''identity.account_state.snapshot'', ''identity_account_state'', ''local:identity:account-state''),
     (''backup.local_state.snapshot'', ''backup_local_state'', ''local:backup:state'')]"

definition GROUP_POLICY_REFS :: "string list" where
  "GROUP_POLICY_REFS = [''local:gpresult:user'', ''local:gpresult:computer'', ''local:gpresult:all'']"

definition NETWORK_RESOURCE_SUFFIXES :: "(string \<times> string) list" where
  "NETWORK_RESOURCE_SUFFIXES = [(''network.ssh.probe'', '':22''), (''network.rtsp.probe'', '':554''),
     (''network.smb.probe'', '':445''), (''network.printer.ipp_probe'', '':631''),
     (''network.printer.raw_probe'', '':9100''), (''network.reachability.internal'', '':icmp''),
     (''network.quality.internal'', '':icmp-quality'')]"

text \<open>The import-time check that effects and tools agree.\<close>

definition effect_vocabulary_ok :: bool where
  "effect_vocabulary_ok \<longleftrightarrow> set TOOLS \<subseteq> fst ` set EFFECTS \<and> fst ` set EFFECTS \<subseteq> set TOOLS"

definition compact_char :: "char \<Rightarrow> bool" where
  "compact_char c \<longleftrightarrow> is_alnum c \<or> c \<in> {CHR ''.'', CHR ''_'', CHR '':'', CHR ''/'', CHR ''@'', CHR ''+'', CHR ''-'', CHR ''=''}"

definition COMPACT_RE :: "string \<Rightarrow> bool" where
  "COMPACT_RE s = ident_match is_alnum compact_char 0 255 s"

definition SERVICE_RESOURCE_RE :: "string \<Rightarrow> bool" where
  "SERVICE_RESOURCE_RE s = (let rest = drop 14 s in starts_with s ''local:service:''
     \<and> list_all (\<lambda>c. is_alnum c \<or> c \<in> {CHR ''_'', CHR ''.'', CHR ''@'', CHR ''-''}) rest
     \<and> 1 \<le> length rest \<and> length rest \<le> 128)"

section \<open>Paths and scopes\<close>

definition compact_id :: "string \<Rightarrow> string \<Rightarrow> nat \<Rightarrow> string result" where
  "compact_id value field max_len = (let t = strip value in
     if t = [] \<or> max_len < length t \<or> \<not> COMPACT_RE t then raise ValueError (field @ '' must be a compact identifier'')
     else if contains ''://'' t then raise ValueError (field @ '' must not contain a raw URL'')
     else Inr t)"

text \<open>\<open>PurePosixPath(text)\<close>: the components that are neither empty nor a dot, and whether the path
  is absolute; \<open>as_posix\<close> of a relative path.\<close>

definition path_parts :: "string \<Rightarrow> string list" where
  "path_parts t = filter (\<lambda>p. p \<noteq> [] \<and> p \<noteq> ''.'') (split_on (CHR ''/'') t)"

definition as_posix :: "string list \<Rightarrow> string" where
  "as_posix parts = (if parts = [] then ''.'' else join ''/'' parts)"

definition strip_slash :: "string \<Rightarrow> string" where
  "strip_slash s = rev (dropWhile (\<lambda>c. c = CHR ''/'') (rev (dropWhile (\<lambda>c. c = CHR ''/'') s)))"

definition safe_path :: "string \<Rightarrow> string \<Rightarrow> string result" where
  "safe_path value field = bindE (compact_id value field 256) (\<lambda>t0.
     let t = map (\<lambda>c. if c = CHR 0x5C then CHR ''/'' else c) t0; parts = path_parts t in
     if starts_with t ''/'' \<or> ''..'' \<in> set parts then raise ValueError (field @ '' must be a safe relative path'')
     else (let normalized = strip_slash (as_posix parts) in
       if normalized = [] \<or> normalized = ''.'' then raise ValueError (field @ '' must identify a bounded path'')
       else Inr normalized))"

definition normalize_write_scope :: "scope \<Rightarrow> string \<Rightarrow> scope result" where
  "normalize_write_scope value field = (case value of
     ScopeStr s \<Rightarrow> if s = ''none'' then Inr (ScopeStr ''none'')
       else bindE (safe_path s field) (\<lambda>p. Inr (ScopeStr p))
   | ScopeTuple ts \<Rightarrow>
       if ts = [] then raise ValueError (field @ '' must not be empty; use 'none' to deny writes'')
       else bindE (mapE (\<lambda>t. safe_path t field) ts) (\<lambda>ps. Inr (ScopeTuple (fromkeys ps))))"

definition scope_list :: "scope \<Rightarrow> string list" where
  "scope_list s = (case s of ScopeStr t \<Rightarrow> [t] | ScopeTuple ts \<Rightarrow> ts)"

text \<open>\<open>path == scope or path.startswith(scope + "/")\<close>\<close>

definition inside :: "string \<Rightarrow> string \<Rightarrow> bool" where
  "inside path sc \<longleftrightarrow> path = sc \<or> starts_with path (sc @ ''/'')"

definition write_scope_is_subset :: "scope \<Rightarrow> scope \<Rightarrow> bool" where
  "write_scope_is_subset child parent = (
     if child = ScopeStr ''none'' then True
     else if parent = ScopeStr ''none'' then False
     else list_all (\<lambda>s. list_ex (inside s) (scope_list parent)) (scope_list child))"

section \<open>Resource policies\<close>

definition resource_policy_denial :: "string \<Rightarrow> string \<Rightarrow> string \<Rightarrow> string option" where
  "resource_policy_denial capability resource_kind resource_ref = (
     case map_of EXACT_RESOURCE_POLICIES capability of
       Some (expected_kind, expected_ref) \<Rightarrow>
         if resource_kind \<noteq> expected_kind then Some ''RESOURCE_KIND_NOT_AUTHORIZED''
         else if resource_ref \<noteq> expected_ref then Some ''RESOURCE_REF_NOT_AUTHORIZED'' else None
     | None \<Rightarrow>
       if capability = ''service.status.read'' then
         (if resource_kind \<noteq> ''service'' then Some ''RESOURCE_KIND_NOT_AUTHORIZED''
          else if \<not> SERVICE_RESOURCE_RE resource_ref then Some ''RESOURCE_REF_NOT_AUTHORIZED'' else None)
       else if capability = ''windows.group_policy.result'' then
         (if resource_kind \<noteq> ''group_policy'' then Some ''RESOURCE_KIND_NOT_AUTHORIZED''
          else if resource_ref \<notin> set GROUP_POLICY_REFS then Some ''RESOURCE_REF_NOT_AUTHORIZED'' else None)
       else (case map_of NETWORK_RESOURCE_SUFFIXES capability of
         Some suffix \<Rightarrow>
           if resource_kind \<noteq> ''network_endpoint'' then Some ''RESOURCE_KIND_NOT_AUTHORIZED''
           else if \<not> ends_with resource_ref suffix then Some ''RESOURCE_REF_NOT_AUTHORIZED''
           else (let host = take (length resource_ref - length suffix) resource_ref in
             if host = [] \<or> \<not> is_internal_ip_literal host then Some ''RESOURCE_REF_NOT_AUTHORIZED'' else None)
       | None \<Rightarrow> None))"

section \<open>The authority\<close>

record authority =
  au_task_id :: string
  au_sensitivity :: string
  au_allowed_sources :: "string list"
  au_allowed_tools :: "string list"
  au_write_scope :: scope
  au_network_scope :: string
  au_fingerprint :: string

record decision =
  de_task_id :: string
  de_capability :: string
  de_resource_kind :: string
  de_resource_ref :: string
  de_effect :: string
  de_allowed :: bool
  de_reason_code :: string
  de_authority_fingerprint :: string

definition decision_metadata :: "decision \<Rightarrow> json" where
  "decision_metadata d = JObj [(''schema_version'', JStr ''workspace-capability-decision/v1''),
     (''task_id'', JStr (de_task_id d)), (''capability'', JStr (de_capability d)),
     (''resource_kind'', JStr (de_resource_kind d)), (''resource_sha256'', JStr (sha256_ref (de_resource_ref d))),
     (''effect'', JStr (de_effect d)), (''allowed'', JBool (de_allowed d)),
     (''reason_code'', JStr (de_reason_code d)), (''authority_fingerprint'', JStr (de_authority_fingerprint d))]"

definition fingerprint_payload ::
  "string \<Rightarrow> string \<Rightarrow> string list \<Rightarrow> string list \<Rightarrow> scope \<Rightarrow> string \<Rightarrow> string" where
  "fingerprint_payload task_id sensitivity sources tools write net = digest (JObj
     [(''task_id'', JStr task_id), (''sensitivity'', JStr sensitivity), (''allowed_sources'', str_list sources),
      (''allowed_tools'', str_list tools), (''write_scope'', scope_json write), (''network_scope'', JStr net)])"

definition build_authority ::
  "string \<Rightarrow> string \<Rightarrow> string list \<Rightarrow> string list \<Rightarrow> scope \<Rightarrow> string \<Rightarrow> authority" where
  "build_authority task_id sensitivity sources tools write net =
     \<lparr>au_task_id = task_id, au_sensitivity = sensitivity, au_allowed_sources = sources,
      au_allowed_tools = tools, au_write_scope = write, au_network_scope = net,
      au_fingerprint = fingerprint_payload task_id sensitivity sources tools write net\<rparr>"

definition from_contract :: "task_contract \<Rightarrow> authority result" where
  "from_contract c = bindE (task_validate c) (\<lambda>_. Inr (build_authority (tc_task_id c) (tc_sensitivity c)
     (tc_allowed_sources c) (tc_allowed_tools c) (tc_write_scope c) (tc_network_scope c)))"

definition authority_metadata :: "authority \<Rightarrow> json" where
  "authority_metadata a = JObj [(''schema_version'', JStr ''workspace-task-capability-authority/v1''),
     (''task_id'', JStr (au_task_id a)), (''authority_fingerprint'', JStr (au_fingerprint a))]"

text \<open>The keyword arguments of \<open>derive_child\<close>; \<open>None\<close> inherits the parent's value.\<close>

record child_request =
  cr_task_id :: string
  cr_allowed_sources :: "string list option"
  cr_allowed_tools :: "string list option"
  cr_write_scope :: "scope option"
  cr_network_scope :: "string option"

definition child_list :: "string list option \<Rightarrow> string list \<Rightarrow> string \<Rightarrow> nat \<Rightarrow> string \<Rightarrow> string list result" where
  "child_list requested inherited field max_len code = (case requested of
     None \<Rightarrow> Inr inherited
   | Some vs \<Rightarrow> bindE (mapE (\<lambda>v. compact_id v field max_len) vs) (\<lambda>cs.
       if set (fromkeys cs) \<subseteq> set inherited then Inr (fromkeys cs) else raise CapabilityAuthorityDenied code))"

definition derive_child :: "authority \<Rightarrow> child_request \<Rightarrow> authority result" where
  "derive_child a r =
     bindE (compact_id (cr_task_id r) ''child_task_id'' 128) (\<lambda>child_task_id.
     bindE (child_list (cr_allowed_sources r) (au_allowed_sources a) ''child_allowed_source'' 128
              ''CHILD_SOURCE_SCOPE_ESCALATION'') (\<lambda>child_sources.
     bindE (child_list (cr_allowed_tools r) (au_allowed_tools a) ''child_allowed_tool'' 64
              ''CHILD_CAPABILITY_ESCALATION'') (\<lambda>child_tools.
     bindE (normalize_write_scope (au_write_scope a) ''parent_write_scope'') (\<lambda>parent_write.
     bindE (normalize_write_scope
              (case cr_write_scope r of None \<Rightarrow> au_write_scope a | Some w \<Rightarrow> w) ''child_write_scope'') (\<lambda>child_write.
     if \<not> write_scope_is_subset child_write parent_write
       then raise CapabilityAuthorityDenied ''CHILD_WRITE_SCOPE_ESCALATION''
     else bindE (case cr_network_scope r of None \<Rightarrow> Inr (au_network_scope a)
                 | Some n \<Rightarrow> compact_id n ''child_network_scope'' 64) (\<lambda>child_net.
     if child_net \<notin> set NETWORK_SCOPES then raise ValueError (''unsupported child_network_scope: '' @ child_net)
     else if child_net \<noteq> au_network_scope a \<and> child_net \<noteq> ''deny''
       then raise CapabilityAuthorityDenied ''CHILD_NETWORK_SCOPE_ESCALATION''
     else Inr (build_authority child_task_id (au_sensitivity a) child_sources child_tools child_write child_net)))))))"

definition mk_decision :: "authority \<Rightarrow> string \<Rightarrow> string \<Rightarrow> string \<Rightarrow> string \<Rightarrow> bool \<Rightarrow> string \<Rightarrow> decision" where
  "mk_decision a cap kind ref eff allowed reason =
     \<lparr>de_task_id = au_task_id a, de_capability = cap, de_resource_kind = kind, de_resource_ref = ref,
      de_effect = eff, de_allowed = allowed, de_reason_code = reason,
      de_authority_fingerprint = au_fingerprint a\<rparr>"

text \<open>One scope of \<open>_write_allowed\<close>: a scope that is no safe path is skipped.\<close>

definition scope_admits :: "string \<Rightarrow> string \<Rightarrow> bool" where
  "scope_admits resource raw_scope = (case safe_path raw_scope ''write_scope'' of
     Inl _ \<Rightarrow> False | Inr sc \<Rightarrow> inside resource sc)"

definition write_allowed :: "authority \<Rightarrow> string \<Rightarrow> bool" where
  "write_allowed a resource_ref = (
     if au_write_scope a = ScopeStr ''none'' then False
     else case safe_path resource_ref ''resource_ref'' of
       Inl _ \<Rightarrow> False
     | Inr resource \<Rightarrow> list_ex (scope_admits resource) (scope_list (au_write_scope a)))"

text \<open>The decision after the four identifiers have been checked: the first rule that denies wins.\<close>

definition denial :: "authority \<Rightarrow> string \<Rightarrow> string \<Rightarrow> string \<Rightarrow> string \<Rightarrow> string option" where
  "denial a cap kind ref eff = (
     if cap \<notin> set TOOLS then Some ''CAPABILITY_UNKNOWN''
     else if cap \<notin> set (au_allowed_tools a) then Some ''CAPABILITY_NOT_ALLOWED''
     else if cap \<in> set DIAGNOSTIC_STAGED_LOCAL_READ_TOOLS \<and> cap \<notin> set WAVE1_INVOCABLE_LOCAL_READ_TOOLS
       then Some ''CAPABILITY_NOT_INVOCABLE''
     else if map_of EFFECTS cap \<noteq> Some eff then Some ''CAPABILITY_EFFECT_NOT_ALLOWED''
     else case resource_policy_denial cap kind ref of Some reason \<Rightarrow> Some reason
     | None \<Rightarrow>
       if cap = ''web_gateway'' \<and> (au_sensitivity a \<noteq> ''public'' \<or> au_network_scope a \<noteq> ''allowlisted_egress'')
         then Some ''NETWORK_SCOPE_NOT_AUTHORIZED''
       else if cap \<noteq> ''web_gateway'' \<and> cap \<in> set INTERNAL_NETWORK_TOOLS \<and> au_network_scope a \<noteq> ''internal_only''
         then Some ''NETWORK_SCOPE_NOT_AUTHORIZED''
       else if cap \<noteq> ''web_gateway'' \<and> cap \<in> set INTERNAL_NETWORK_TOOLS \<and> kind \<noteq> ''network_endpoint''
         then Some ''RESOURCE_KIND_NOT_AUTHORIZED''
       else if cap \<noteq> ''web_gateway'' \<and> cap \<notin> set INTERNAL_NETWORK_TOOLS \<and> starts_with eff ''network''
         then Some ''NETWORK_CAPABILITY_NOT_AUTHORIZED''
       else if eff = ''write'' \<and> \<not> write_allowed a ref then Some ''WRITE_SCOPE_NOT_AUTHORIZED''
       else None)"

definition authorize :: "authority \<Rightarrow> string \<Rightarrow> string \<Rightarrow> string \<Rightarrow> string \<Rightarrow> decision result" where
  "authorize a capability resource_kind resource_ref effect =
     bindE (compact_id capability ''capability'' 64) (\<lambda>cap.
     bindE (compact_id resource_kind ''resource_kind'' 64) (\<lambda>kind.
     bindE (compact_id resource_ref ''resource_ref'' 256) (\<lambda>ref.
     bindE (compact_id effect ''effect'' 64) (\<lambda>eff.
     Inr (case denial a cap kind ref eff of
        Some reason \<Rightarrow> mk_decision a cap kind ref eff False reason
      | None \<Rightarrow> mk_decision a cap kind ref eff True ''CAPABILITY_AUTHORIZED'')))))"

definition require :: "authority \<Rightarrow> string \<Rightarrow> string \<Rightarrow> string \<Rightarrow> string \<Rightarrow> decision result" where
  "require a capability resource_kind resource_ref effect =
     bindE (authorize a capability resource_kind resource_ref effect) (\<lambda>d.
     if de_allowed d then Inr d else raise CapabilityAuthorityDenied (de_reason_code d))"

section \<open>Normalised paths\<close>

lemma space_not_compact: "is_space c \<Longrightarrow> \<not> compact_char c"
  unfolding is_space_def insert_iff empty_iff
  by (elim disjE FalseE; simp add: compact_char_def is_alnum_def is_digit_def is_lower_def is_upper_def)

lemma compactD:
  assumes "compact_id v f n = Inr t"
  shows "t \<noteq> []" "length t \<le> n" "COMPACT_RE t" "\<not> contains ''://'' t" "strip t = t"
  using assms by (auto simp: compact_id_def Let_def split: if_splits)

lemma COMPACT_RE_iff: "COMPACT_RE t \<longleftrightarrow> t \<noteq> [] \<and> is_alnum (hd t) \<and> list_all compact_char t \<and> length t \<le> 256"
  by (cases t) (auto simp: COMPACT_RE_def ident_match_def compact_char_def)

lemma compact_again:
  assumes "COMPACT_RE t" "length t \<le> n" "\<not> contains ''://'' t"
  shows "compact_id t f n = Inr t"
proof -
  have ns: "\<not> is_space c" if "c \<in> set t" for c
  proof -
    from assms(1) that have "compact_char c"
      by (simp add: COMPACT_RE_iff list_all_iff)
    then show ?thesis using space_not_compact by blast
  qed
  have "t \<noteq> []" using assms(1) by (auto simp: COMPACT_RE_def ident_match_def)
  with ns have "strip t = t" by (intro strip_id) auto
  with assms \<open>t \<noteq> []\<close> show ?thesis by (simp add: compact_id_def Let_def)
qed

text \<open>The normal forms of \<open>_safe_path\<close>: slash-joined components, none empty, a dot or two dots.\<close>

definition is_path :: "string \<Rightarrow> bool" where
  "is_path n \<longleftrightarrow> (\<exists>ps. n = join ''/'' ps \<and> ps \<noteq> [] \<and> is_alnum (hd n) \<and> length n \<le> 256 \<and>
     (\<forall>p \<in> set ps. p \<noteq> [] \<and> p \<noteq> ''.'' \<and> p \<noteq> ''..'' \<and> CHR ''/'' \<notin> set p \<and> list_all compact_char p))"

lemma strip_slash_id: "s \<noteq> [] \<Longrightarrow> hd s \<noteq> CHR ''/'' \<Longrightarrow> last s \<noteq> CHR ''/'' \<Longrightarrow> strip_slash s = s"
proof -
  assume s: "s \<noteq> []" "hd s \<noteq> CHR ''/''" "last s \<noteq> CHR ''/''"
  then have "dropWhile (\<lambda>c. c = CHR ''/'') s = s" "dropWhile (\<lambda>c. c = CHR ''/'') (rev s) = rev s"
    by (simp_all add: dropWhile_eq_self_iff hd_rev)
  then show ?thesis by (simp add: strip_slash_def)
qed

lemma join_ends:
  assumes "ps \<noteq> []" "\<forall>p \<in> set ps. p \<noteq> [] \<and> d \<notin> set p"
  shows "join [d] ps \<noteq> [] \<and> hd (join [d] ps) \<noteq> d \<and> last (join [d] ps) \<noteq> d"
  using assms
proof (induction "[d]" ps rule: join.induct)
  case (2 x)
  then show ?case by (metis hd_in_set join.simps(2) last_in_set list.set_intros(1))
next
  case (3 x y ys)
  then have "hd x \<noteq> d" by (metis hd_in_set list.set_intros(1))
  with 3 show ?case by simp
qed simp

lemma alnum_facts: "is_alnum c \<Longrightarrow> c \<noteq> CHR ''/''" "is_alnum c \<Longrightarrow> c \<noteq> CHR ''.''" "compact_char c \<Longrightarrow> c \<noteq> CHR 0x5C"
  by (auto simp: compact_char_def is_alnum_def is_digit_def is_lower_def is_upper_def)

text \<open>The translation of backslashes, the check for absolute paths and the final stripping of
  slashes never matter after the compact-identifier check.\<close>

lemma safe_path_eq:
  assumes c: "compact_id v f 256 = Inr t"
  shows "safe_path v f = (if ''..'' \<in> set (path_parts t) then raise ValueError (f @ '' must be a safe relative path'')
    else Inr (join ''/'' (path_parts t)))" "path_parts t \<noteq> []" "hd (join ''/'' (path_parts t)) = hd t"
proof -
  note re = compactD(3) [OF c, unfolded COMPACT_RE_iff]
  from re obtain x xs where t: "t = x # xs" "is_alnum x" by (cases t) auto
  obtain w ws where s: "split_on (CHR ''/'') t = (x # w) # ws"
    using t alnum_facts(1) by (cases "split_on (CHR ''/'') xs") auto
  have "x # w \<noteq> ''.''" using alnum_facts(2) [OF t(2)] by simp
  then have pp: "path_parts t = (x # w) # filter (\<lambda>p. p \<noteq> [] \<and> p \<noteq> ''.'') ws"
    by (simp add: path_parts_def s)
  then show ne: "path_parts t \<noteq> []" by simp
  show hd: "hd (join ''/'' (path_parts t)) = hd t"
    unfolding pp using t by (cases "filter (\<lambda>p. p \<noteq> [] \<and> p \<noteq> ''.'') ws") simp_all
  have m: "map (\<lambda>c. if c = CHR 0x5C then CHR ''/'' else c) t = t"
    using re alnum_facts(3) by (intro map_idI) (auto simp: list_all_iff)
  have "\<forall>p \<in> set (path_parts t). p \<noteq> [] \<and> CHR ''/'' \<notin> set p"
    using split_on_parts by (auto simp: path_parts_def)
  note je = join_ends [OF ne this]
  have "join ''/'' (path_parts t) \<noteq> ''.''"
    using hd t(1) alnum_facts(2) [OF t(2)] by auto
  moreover have "\<not> starts_with t ''/''"
    using t alnum_facts(1) by auto
  ultimately show "safe_path v f = (if ''..'' \<in> set (path_parts t) then raise ValueError (f @ '' must be a safe relative path'')
    else Inr (join ''/'' (path_parts t)))"
    using je ne by (simp add: safe_path_def c m Let_def as_posix_def strip_slash_id)
qed

lemma safe_path_is_path:
  assumes "safe_path v f = Inr n"
  shows "is_path n"
proof -
  from assms obtain t where c: "compact_id v f 256 = Inr t" by (auto simp: safe_path_def)
  note e = safe_path_eq [OF c] and re = compactD(3) [OF c, unfolded COMPACT_RE_iff]
  have n: "n = join ''/'' (path_parts t)" "''..'' \<notin> set (path_parts t)"
    using assms e(1) by (auto split: if_splits)
  have "length n \<le> length t"
    using length_join_filter [of "CHR ''/''" "\<lambda>p. p \<noteq> [] \<and> p \<noteq> ''.''" "split_on (CHR ''/'') t"]
    by (simp add: n(1) path_parts_def join_split_on)
  moreover have "p \<noteq> [] \<and> p \<noteq> ''.'' \<and> p \<noteq> ''..'' \<and> CHR ''/'' \<notin> set p \<and> list_all compact_char p"
    if "p \<in> set (path_parts t)" for p
    using that n(2) split_on_parts split_on_set [of p "CHR ''/''" t] re
    by (auto simp: path_parts_def list_all_iff)
  ultimately show ?thesis
    using e(2,3) re n(1) unfolding is_path_def by auto
qed

lemma safe_path_again:
  assumes "is_path n"
  shows "safe_path n f = Inr n"
proof -
  from assms obtain ps where ps: "n = join ''/'' ps" "ps \<noteq> []" "is_alnum (hd n)" "length n \<le> 256"
    "\<And>p. p \<in> set ps \<Longrightarrow> p \<noteq> [] \<and> p \<noteq> ''.'' \<and> p \<noteq> ''..'' \<and> CHR ''/'' \<notin> set p \<and> list_all compact_char p"
    unfolding is_path_def by auto
  have sp: "split_on (CHR ''/'') n = ps"
    using ps(2,5) unfolding ps(1) by (intro split_on_join) auto
  have "n \<noteq> []" using join_ends [OF ps(2), of "CHR ''/''"] ps(5) by (auto simp: ps(1))
  moreover have "compact_char c" if "c \<in> set n" for c
  proof -
    from set_join [of "''/''" ps] that consider "c = CHR ''/''" | p where "p \<in> set ps" "c \<in> set p"
      unfolding ps(1) by auto
    then show ?thesis
      using ps(5) by cases (auto simp: compact_char_def list_all_iff)
  qed
  ultimately have re: "COMPACT_RE n"
    using ps(3,4) by (simp add: COMPACT_RE_iff list_all_iff)
  have "\<not> contains ''://'' n"
  proof
    assume "contains ''://'' n"
    then obtain u w where "n = (u @ '':'') @ CHR ''/'' # CHR ''/'' # w" by (auto simp: contains_iff)
    then have "[] \<in> set (split_on (CHR ''/'') n)" by (simp add: split_on_concat del: append_assoc)
    with ps(5) sp show False by auto
  qed
  with re ps(4) have c: "compact_id n f 256 = Inr n" by (intro compact_again)
  have "path_parts n = ps"
    using ps(5) by (simp add: path_parts_def sp filter_id_conv)
  with ps safe_path_eq(1) [OF c] show ?thesis by auto
qed

section \<open>Write scopes under delegation\<close>

lemma inside_trans: "inside r s \<Longrightarrow> inside s p \<Longrightarrow> inside r p"
  unfolding inside_def by (auto simp: starts_with_iff)

lemma scope_admits_path: "is_path sc \<Longrightarrow> scope_admits r sc \<longleftrightarrow> inside r sc"
  by (simp add: scope_admits_def safe_path_again)

lemma safe_path_field: "safe_path v f = Inr n \<Longrightarrow> safe_path v g = Inr n"
  by (auto simp: safe_path_def compact_id_def Let_def split: if_splits)

text \<open>Every scope of a normalised list is a path and stems from an entry of the given scope.\<close>

lemma normalize_write_scope_list:
  assumes "normalize_write_scope w f = Inr w'" "w' \<noteq> ScopeStr ''none''" "p \<in> set (scope_list w')"
  shows "is_path p \<and> w \<noteq> ScopeStr ''none'' \<and> (\<exists>raw \<in> set (scope_list w). safe_path raw f = Inr p)"
proof (cases w)
  case (ScopeStr s)
  with assms show ?thesis
    by (auto simp: normalize_write_scope_def scope_list_def dest: safe_path_is_path split: if_splits)
next
  case (ScopeTuple ts)
  with assms obtain ps where m: "mapE (\<lambda>t. safe_path t f) ts = Inr ps" "p \<in> set ps"
    by (auto simp: normalize_write_scope_def scope_list_def split: if_splits)
  with mapE_set [OF m] ScopeTuple show ?thesis
    by (auto simp: scope_list_def dest: safe_path_is_path)
qed

lemma write_scope_attenuates:
  assumes P: "normalize_write_scope wp f = Inr P" and C: "normalize_write_scope wc g = Inr C"
    and sub: "write_scope_is_subset C P"
    and child: "C \<noteq> ScopeStr ''none''" "list_ex (scope_admits r) (scope_list C)"
  shows "wp \<noteq> ScopeStr ''none''" "list_ex (scope_admits r) (scope_list wp)"
proof -
  from child obtain c where c: "c \<in> set (scope_list C)" "scope_admits r c" by (auto simp: list_ex_iff)
  have "is_path c" using normalize_write_scope_list [OF C child(1) c(1)] by simp
  with c(2) have rc: "inside r c" by (simp add: scope_admits_path)
  from sub child(1) c(1) have pn: "P \<noteq> ScopeStr ''none''" and "list_ex (inside c) (scope_list P)"
    by (auto simp: write_scope_is_subset_def list_all_iff split: if_splits)
  then obtain p where p: "p \<in> set (scope_list P)" "inside c p" by (auto simp: list_ex_iff)
  from normalize_write_scope_list [OF P pn p(1)] obtain raw where
    raw: "raw \<in> set (scope_list wp)" "safe_path raw f = Inr p" "wp \<noteq> ScopeStr ''none''" by blast
  from raw(2) inside_trans [OF rc p(2)] have "scope_admits r raw"
    by (auto simp: scope_admits_def safe_path_field [OF raw(2)])
  with raw show "wp \<noteq> ScopeStr ''none''" "list_ex (scope_admits r) (scope_list wp)"
    by (auto simp: list_ex_iff)
qed

section \<open>Decisions\<close>

lemma denial_None_iff:
  "denial a cap kind ref eff = None \<longleftrightarrow>
     cap \<in> set TOOLS \<and> cap \<in> set (au_allowed_tools a)
   \<and> (cap \<in> set DIAGNOSTIC_STAGED_LOCAL_READ_TOOLS \<longrightarrow> cap \<in> set WAVE1_INVOCABLE_LOCAL_READ_TOOLS)
   \<and> map_of EFFECTS cap = Some eff \<and> resource_policy_denial cap kind ref = None
   \<and> (cap = ''web_gateway'' \<longrightarrow> au_sensitivity a = ''public'' \<and> au_network_scope a = ''allowlisted_egress'')
   \<and> (cap \<noteq> ''web_gateway'' \<and> cap \<in> set INTERNAL_NETWORK_TOOLS
        \<longrightarrow> au_network_scope a = ''internal_only'' \<and> kind = ''network_endpoint'')
   \<and> (cap \<noteq> ''web_gateway'' \<and> cap \<notin> set INTERNAL_NETWORK_TOOLS \<longrightarrow> \<not> starts_with eff ''network'')
   \<and> (eff = ''write'' \<longrightarrow> write_allowed a ref)"
  unfolding denial_def by (simp split: option.split) blast

text \<open>A request is permitted when its identifiers are compact and no rule denies it.\<close>

definition permits :: "authority \<Rightarrow> string \<times> string \<times> string \<times> string \<Rightarrow> bool" where
  "permits a q = (case q of (capability, kind, ref, eff) \<Rightarrow>
     (case authorize a capability kind ref eff of Inl _ \<Rightarrow> False | Inr d \<Rightarrow> de_allowed d))"

lemma mk_decision_allowed [simp]: "de_allowed (mk_decision a c k r e b t) = b"
  by (simp add: mk_decision_def)

lemma permits_iff:
  "permits a (capability, kind0, ref0, eff0) \<longleftrightarrow> (\<exists>cap kind ref eff.
     compact_id capability ''capability'' 64 = Inr cap \<and> compact_id kind0 ''resource_kind'' 64 = Inr kind
   \<and> compact_id ref0 ''resource_ref'' 256 = Inr ref \<and> compact_id eff0 ''effect'' 64 = Inr eff
   \<and> denial a cap kind ref eff = None)"
  by (auto simp: permits_def authorize_def bindE_def split: sum.splits option.splits)

lemma child_list_subset: "child_list req inh f n code = Inr xs \<Longrightarrow> set xs \<subseteq> set inh"
  by (cases req) (auto simp: child_list_def bindE_Inr_iff split: if_splits)

lemma derive_childD:
  assumes "derive_child a r = Inr b"
  shows "au_sensitivity b = au_sensitivity a" "set (au_allowed_sources b) \<subseteq> set (au_allowed_sources a)"
    "set (au_allowed_tools b) \<subseteq> set (au_allowed_tools a)"
    "au_network_scope b = au_network_scope a \<or> au_network_scope b = ''deny''"
    "\<exists>P w. normalize_write_scope (au_write_scope a) ''parent_write_scope'' = Inr P
       \<and> normalize_write_scope w ''child_write_scope'' = Inr (au_write_scope b)
       \<and> write_scope_is_subset (au_write_scope b) P"
  using assms child_list_subset
  by (auto simp: derive_child_def build_authority_def split: if_splits) blast+

lemma write_allowed_attenuates:
  assumes "derive_child a r = Inr b" "write_allowed b ref"
  shows "write_allowed a ref"
proof -
  from derive_childD(5) [OF assms(1)] obtain P w where
    P: "normalize_write_scope (au_write_scope a) ''parent_write_scope'' = Inr P"
    and C: "normalize_write_scope w ''child_write_scope'' = Inr (au_write_scope b)"
    and sub: "write_scope_is_subset (au_write_scope b) P" by blast
  from assms(2) obtain res where res: "safe_path ref ''resource_ref'' = Inr res"
    "au_write_scope b \<noteq> ScopeStr ''none''" "list_ex (scope_admits res) (scope_list (au_write_scope b))"
    by (auto simp: write_allowed_def split: if_splits sum.splits)
  from write_scope_attenuates [OF P C sub res(2,3)] res(1) show ?thesis
    by (simp add: write_allowed_def)
qed

lemma derive_child_attenuates:
  assumes "derive_child a r = Inr b" "permits b q"
  shows "permits a q"
proof -
  obtain capability kind0 ref0 eff0 where q: "q = (capability, kind0, ref0, eff0)" by (cases q) auto
  have "denial a cap kind ref eff = None" if "denial b cap kind ref eff = None" for cap kind ref eff
    using that derive_childD(1,3,4) [OF assms(1)] write_allowed_attenuates [OF assms(1), of ref]
    unfolding denial_None_iff by auto
  with assms(2) show ?thesis unfolding q permits_iff by blast
qed

section \<open>Delegation chains\<close>

text \<open>The interface of a delegable authority: a derivation that may fail and a permission that a
  derived authority never has without its parent. Attenuation then holds along chains.\<close>

locale delegation =
  fixes derive :: "'a \<Rightarrow> 'r \<Rightarrow> 'a result" and permitted :: "'a \<Rightarrow> 'q \<Rightarrow> bool"
  assumes attenuates: "derive a r = Inr b \<Longrightarrow> permitted b q \<Longrightarrow> permitted a q"
begin

lemma chain_attenuates:
  assumes "foldE derive a rs = Inr b" "permitted b q"
  shows "permitted a q"
  using assms
proof (induction rs arbitrary: a)
  case (Cons r rs)
  from Cons.prems(1) obtain c where "derive a r = Inr c" "foldE derive c rs = Inr b" by auto
  with Cons.IH Cons.prems(2) attenuates show ?case by blast
qed simp

lemma chain_denied: "foldE derive a rs = Inr b \<Longrightarrow> \<not> permitted a q \<Longrightarrow> \<not> permitted b q"
  using chain_attenuates by blast

end

interpretation capability: delegation derive_child permits
  by unfold_locales (rule derive_child_attenuates)

section \<open>Fingerprints\<close>

definition fingerprint_json :: "authority \<Rightarrow> json" where
  "fingerprint_json a = JObj
     [(''task_id'', JStr (au_task_id a)), (''sensitivity'', JStr (au_sensitivity a)),
      (''allowed_sources'', str_list (au_allowed_sources a)), (''allowed_tools'', str_list (au_allowed_tools a)),
      (''write_scope'', scope_json (au_write_scope a)), (''network_scope'', JStr (au_network_scope a))]"

lemma plain_str_list [simp]: "plain_json (str_list xs)" "norm_json (str_list xs) = str_list xs"
  by (simp_all add: str_list_def list_all_iff)

lemma plain_scope_json [simp]: "plain_json (scope_json s)" "norm_json (scope_json s) = scope_json s"
  by (cases s; simp add: scope_json_def)+

lemma str_list_inject [simp]: "str_list xs = str_list ys \<longleftrightarrow> xs = ys"
  by (simp add: str_list_def inj_map_eq_map inj_def)

lemma scope_json_inject [simp]: "scope_json s = scope_json t \<longleftrightarrow> s = t"
  by (cases s; cases t) (simp_all add: scope_json_def, simp_all add: str_list_def)

lemma fingerprint_json_plain [simp]: "plain_json (fingerprint_json a)"
  by (simp add: fingerprint_json_def)

text \<open>The canonical text determines every field.\<close>

lemma fingerprint_text_inject:
  assumes "dumps (fingerprint_json a) = dumps (fingerprint_json b)"
  shows "au_task_id a = au_task_id b \<and> au_sensitivity a = au_sensitivity b
    \<and> au_allowed_sources a = au_allowed_sources b \<and> au_allowed_tools a = au_allowed_tools b
    \<and> au_write_scope a = au_write_scope b \<and> au_network_scope a = au_network_scope b"
proof -
  have "norm_json (fingerprint_json a) = norm_json (fingerprint_json b)"
    using loads_dumps [of "fingerprint_json a"] loads_dumps [of "fingerprint_json b"] assms by simp
  then show ?thesis
    by (simp add: fingerprint_json_def insort_key_def)
qed

lemma build_fingerprint:
  "au_fingerprint (build_authority t s src tools w n) = digest (fingerprint_json (build_authority t s src tools w n))"
  by (simp add: build_authority_def fingerprint_payload_def fingerprint_json_def)

section \<open>Properties\<close>

text \<open>C8: delegation never widens authority. Along any chain of successful \<open>derive_child\<close> calls the
  last authority permits only requests that the first one permits, keeps its sensitivity, and has no
  source or tool that the first one lacks.\<close>

theorem delegation_attenuates:
  assumes "foldE derive_child a rs = Inr b"
  shows "(permits b q \<longrightarrow> permits a q) \<and> au_sensitivity b = au_sensitivity a
    \<and> set (au_allowed_sources b) \<subseteq> set (au_allowed_sources a)
    \<and> set (au_allowed_tools b) \<subseteq> set (au_allowed_tools a)"
proof -
  have "au_sensitivity b = au_sensitivity a \<and> set (au_allowed_sources b) \<subseteq> set (au_allowed_sources a)
      \<and> set (au_allowed_tools b) \<subseteq> set (au_allowed_tools a)"
  proof (rule foldE_invariant [OF assms])
    fix c r d
    assume "au_sensitivity c = au_sensitivity a \<and> set (au_allowed_sources c) \<subseteq> set (au_allowed_sources a)
      \<and> set (au_allowed_tools c) \<subseteq> set (au_allowed_tools a)" and d: "derive_child c r = Inr d"
    with derive_childD(1-3) [OF d] show "au_sensitivity d = au_sensitivity a
      \<and> set (au_allowed_sources d) \<subseteq> set (au_allowed_sources a)
      \<and> set (au_allowed_tools d) \<subseteq> set (au_allowed_tools a)" by auto
  qed simp
  with capability.chain_attenuates [OF assms] show ?thesis by blast
qed

text \<open>A workspace authority that may write below two directories, and a delegation to one of them.\<close>

definition demo_authority :: authority where
  "demo_authority = build_authority ''task-1'' ''internal'' [''docs''] [''read_file'', ''write_staging'']
     (ScopeTuple [''out/reports'', ''out//tmp/'']) ''internal_only''"

definition demo_request :: child_request where
  "demo_request = \<lparr>cr_task_id = ''task-1.child'', cr_allowed_sources = None,
     cr_allowed_tools = Some [''write_staging''], cr_write_scope = Some (ScopeStr ''out/tmp/a''),
     cr_network_scope = Some ''deny''\<rparr>"

definition demo_child :: authority where
  "demo_child = build_authority ''task-1.child'' ''internal'' [''docs''] [''write_staging'']
     (ScopeStr ''out/tmp/a'') ''deny''"

lemma derive_demo: "derive_child demo_authority demo_request = Inr demo_child"
proof -
  have "mapE (\<lambda>t. safe_path t ''parent_write_scope'') [''out/reports'', ''out//tmp/''] = Inr [''out/reports'', ''out/tmp'']"
    "safe_path ''out/tmp/a'' ''child_write_scope'' = Inr ''out/tmp/a''"
    "compact_id ''task-1.child'' ''child_task_id'' 128 = Inr ''task-1.child''"
    "mapE (\<lambda>v. compact_id v ''child_allowed_tool'' 64) [''write_staging''] = Inr [''write_staging'']"
    "compact_id ''deny'' ''child_network_scope'' 64 = Inr ''deny''"
    by code_simp+
  then show ?thesis
    by (simp add: derive_child_def demo_authority_def demo_request_def demo_child_def build_authority_def
        child_list_def normalize_write_scope_def write_scope_is_subset_def scope_list_def inside_def NETWORK_SCOPES_def
        del: mapE.simps)
qed

theorem delegation_attenuates_witness:
  "foldE derive_child demo_authority [demo_request] = Inr demo_child
   \<and> permits demo_authority (''write_staging'', ''file'', ''out/tmp/a/x.txt'', ''write'')"
proof -
  have f: "foldE derive_child demo_authority [demo_request] = Inr demo_child"
    by (simp add: derive_demo)
  have "compact_id ''write_staging'' ''capability'' 64 = Inr ''write_staging''"
    "compact_id ''file'' ''resource_kind'' 64 = Inr ''file''" "compact_id ''write'' ''effect'' 64 = Inr ''write''"
    "compact_id ''out/tmp/a/x.txt'' ''resource_ref'' 256 = Inr ''out/tmp/a/x.txt''"
    "safe_path ''out/tmp/a/x.txt'' ''resource_ref'' = Inr ''out/tmp/a/x.txt''"
    "scope_admits ''out/tmp/a/x.txt'' ''out/tmp/a''" "map_of EFFECTS ''write_staging'' = Some ''write''"
    "resource_policy_denial ''write_staging'' ''file'' ''out/tmp/a/x.txt'' = None" "''write_staging'' \<in> set TOOLS"
    "''write_staging'' \<notin> set DIAGNOSTIC_STAGED_LOCAL_READ_TOOLS" "''write_staging'' \<notin> set INTERNAL_NETWORK_TOOLS"
    by code_simp+
  then have "permits demo_child (''write_staging'', ''file'', ''out/tmp/a/x.txt'', ''write'')"
    by (simp add: permits_iff denial_None_iff demo_child_def build_authority_def write_allowed_def scope_list_def)
  with delegation_attenuates [OF f] f show ?thesis by blast
qed

text \<open>The tables of the policy fit together: every registered effect belongs to a known tool, the tools with a network effect are the web
  gateway and the internal network tools, and no tool falls under two resource policies.\<close>

lemma policy_tables:
  "map_of EFFECTS cap = Some eff \<Longrightarrow> cap \<in> set TOOLS"
  "map_of EFFECTS cap = Some eff \<Longrightarrow> starts_with eff ''network'' \<Longrightarrow> cap = ''web_gateway'' \<or> cap \<in> set INTERNAL_NETWORK_TOOLS"
  "cap \<in> set INTERNAL_NETWORK_TOOLS \<longleftrightarrow> map_of NETWORK_RESOURCE_SUFFIXES cap \<noteq> None"
  "cap \<in> set INTERNAL_NETWORK_TOOLS \<Longrightarrow> map_of EXACT_RESOURCE_POLICIES cap = None \<and> cap \<noteq> ''web_gateway''
     \<and> cap \<noteq> ''service.status.read'' \<and> cap \<noteq> ''windows.group_policy.result''"
  "map_of EXACT_RESOURCE_POLICIES ''service.status.read'' = None" "map_of EXACT_RESOURCE_POLICIES ''windows.group_policy.result'' = None"
proof -
  have "\<forall>(c, e) \<in> set EFFECTS. c \<in> set TOOLS \<and> (starts_with e ''network'' \<longrightarrow> c = ''web_gateway'' \<or> c \<in> set INTERNAL_NETWORK_TOOLS)" by code_simp
  then show "map_of EFFECTS cap = Some eff \<Longrightarrow> cap \<in> set TOOLS"
    "map_of EFFECTS cap = Some eff \<Longrightarrow> starts_with eff ''network'' \<Longrightarrow> cap = ''web_gateway'' \<or> cap \<in> set INTERNAL_NETWORK_TOOLS"
    by (auto dest!: map_of_SomeD)
  have "set INTERNAL_NETWORK_TOOLS = fst ` set NETWORK_RESOURCE_SUFFIXES" by code_simp
  then show "cap \<in> set INTERNAL_NETWORK_TOOLS \<longleftrightarrow> map_of NETWORK_RESOURCE_SUFFIXES cap \<noteq> None" by (simp add: map_of_eq_None_iff)
  have "\<forall>c \<in> set INTERNAL_NETWORK_TOOLS. map_of EXACT_RESOURCE_POLICIES c = None \<and> c \<noteq> ''web_gateway''
     \<and> c \<noteq> ''service.status.read'' \<and> c \<noteq> ''windows.group_policy.result''" by code_simp
  then show "cap \<in> set INTERNAL_NETWORK_TOOLS \<Longrightarrow> map_of EXACT_RESOURCE_POLICIES cap = None \<and> cap \<noteq> ''web_gateway''
     \<and> cap \<noteq> ''service.status.read'' \<and> cap \<noteq> ''windows.group_policy.result''" by blast
qed (code_simp+)

lemma resource_policy_iff:
  "resource_policy_denial cap kind ref = None \<longleftrightarrow>
     (\<forall>k r. map_of EXACT_RESOURCE_POLICIES cap = Some (k, r) \<longrightarrow> kind = k \<and> ref = r)
   \<and> (cap = ''service.status.read'' \<longrightarrow> kind = ''service'' \<and> SERVICE_RESOURCE_RE ref)
   \<and> (cap = ''windows.group_policy.result'' \<longrightarrow> kind = ''group_policy'' \<and> ref \<in> set GROUP_POLICY_REFS)
   \<and> (cap \<in> set INTERNAL_NETWORK_TOOLS \<longrightarrow> kind = ''network_endpoint'' \<and> (\<exists>host suffix. ref = host @ suffix \<and> host \<noteq> []
        \<and> is_internal_ip_literal host \<and> map_of NETWORK_RESOURCE_SUFFIXES cap = Some suffix))"
proof (cases "cap \<in> set INTERNAL_NETWORK_TOOLS")
  case True
  then obtain suffix where s: "map_of NETWORK_RESOURCE_SUFFIXES cap = Some suffix" using policy_tables(3) by blast
  have "ends_with ref suffix \<longleftrightarrow> (\<exists>host. ref = host @ suffix)" by (auto simp: ends_with_iff)
  with s True policy_tables(4) [OF True] show ?thesis by (auto simp: resource_policy_denial_def Let_def)
next
  case False
  then have s: "map_of NETWORK_RESOURCE_SUFFIXES cap = None" using policy_tables(3) by blast
  show ?thesis
  proof (cases "map_of EXACT_RESOURCE_POLICIES cap")
    case None
    with False s show ?thesis by (auto simp: resource_policy_denial_def)
  next
    case (Some p)
    then have "cap \<noteq> ''service.status.read''" "cap \<noteq> ''windows.group_policy.result''" using policy_tables(5,6) by auto
    with False Some show ?thesis by (cases p) (auto simp: resource_policy_denial_def)
  qed
qed

lemma write_allowed_iff:
  "write_allowed a ref \<longleftrightarrow> au_write_scope a \<noteq> ScopeStr ''none'' \<and> (\<exists>path sc. safe_path ref ''resource_ref'' = Inr path \<and> is_path path
     \<and> sc \<in> set (scope_list (au_write_scope a)) \<and> scope_admits path sc)"
  using safe_path_is_path by (auto simp: write_allowed_def list_ex_iff split: sum.splits)

text \<open>C28: the decision of an authority, in full. The request is decided on its stripped identifiers, and it is allowed exactly when the
  capability is one of the envelope's tools, is no diagnostic tool that is only staged, and is requested with its registered effect;
  a tool with an exact resource names that resource kind and reference; a service status names a well-formed
  service, a group policy result one of the three known results; an internal network tool has internal scope and an endpoint
  \<open>host:port\<close> with the port of that tool and a loopback, link-local or private address literal as host; the web
  gateway has public data and allowlisted egress; and a write lands on a relative path without parent references inside one of the
  envelope's write scopes.\<close>

theorem authorize_decides:
  assumes "authorize a capability kind ref eff = Inr d"
  shows "de_capability d = strip capability \<and> de_resource_kind d = strip kind \<and> de_resource_ref d = strip ref \<and> de_effect d = strip eff
   \<and> (de_allowed d \<longleftrightarrow>
       de_capability d \<in> set (au_allowed_tools a)
     \<and> (de_capability d \<in> set DIAGNOSTIC_STAGED_LOCAL_READ_TOOLS \<longrightarrow> de_capability d \<in> set WAVE1_INVOCABLE_LOCAL_READ_TOOLS)
     \<and> map_of EFFECTS (de_capability d) = Some (de_effect d)
     \<and> (\<forall>k r. map_of EXACT_RESOURCE_POLICIES (de_capability d) = Some (k, r) \<longrightarrow> de_resource_kind d = k \<and> de_resource_ref d = r)
     \<and> (de_capability d = ''service.status.read'' \<longrightarrow> de_resource_kind d = ''service'' \<and> SERVICE_RESOURCE_RE (de_resource_ref d))
     \<and> (de_capability d = ''windows.group_policy.result'' \<longrightarrow> de_resource_kind d = ''group_policy'' \<and> de_resource_ref d \<in> set GROUP_POLICY_REFS)
     \<and> (de_capability d \<in> set INTERNAL_NETWORK_TOOLS \<longrightarrow> au_network_scope a = ''internal_only'' \<and> de_resource_kind d = ''network_endpoint''
         \<and> (\<exists>host suffix. de_resource_ref d = host @ suffix \<and> host \<noteq> [] \<and> is_internal_ip_literal host
              \<and> map_of NETWORK_RESOURCE_SUFFIXES (de_capability d) = Some suffix))
     \<and> (de_capability d = ''web_gateway'' \<longrightarrow> au_sensitivity a = ''public'' \<and> au_network_scope a = ''allowlisted_egress'')
     \<and> (de_effect d = ''write'' \<longrightarrow> au_write_scope a \<noteq> ScopeStr ''none'' \<and> (\<exists>path sc. safe_path (de_resource_ref d) ''resource_ref'' = Inr path
          \<and> is_path path \<and> sc \<in> set (scope_list (au_write_scope a)) \<and> scope_admits path sc)))"
proof -
  have c: "t = strip v" if "compact_id v f n = Inr t" for v f n t using that by (auto simp: compact_id_def Let_def split: if_splits)
  from assms have d: "de_capability d = strip capability" "de_resource_kind d = strip kind" "de_resource_ref d = strip ref" "de_effect d = strip eff"
    "de_allowed d \<longleftrightarrow> denial a (strip capability) (strip kind) (strip ref) (strip eff) = None"
    by (auto simp: authorize_def mk_decision_def split: option.splits dest!: c)
  show ?thesis
    unfolding d denial_None_iff resource_policy_iff write_allowed_iff
    using policy_tables(1,2,4) [of "strip capability"] by blast
qed

theorem authorize_decides_witness:
  "\<exists>d. authorize (demo_authority\<lparr>au_allowed_tools := [''network.ssh.probe'']\<rparr>) ''network.ssh.probe''
     ''network_endpoint'' ''10.0.0.7:22'' ''network_read'' = Inr d \<and> de_allowed d
     \<and> (\<exists>host suffix. de_resource_ref d = host @ suffix \<and> is_internal_ip_literal host)"
proof -
  let ?a = "demo_authority\<lparr>au_allowed_tools := [''network.ssh.probe'']\<rparr>"
  have "compact_id ''network.ssh.probe'' ''capability'' 64 = Inr ''network.ssh.probe''"
    "compact_id ''network_endpoint'' ''resource_kind'' 64 = Inr ''network_endpoint''"
    "compact_id ''10.0.0.7:22'' ''resource_ref'' 256 = Inr ''10.0.0.7:22''"
    "compact_id ''network_read'' ''effect'' 64 = Inr ''network_read''"
    "resource_policy_denial ''network.ssh.probe'' ''network_endpoint'' ''10.0.0.7:22'' = None"
    "map_of EFFECTS ''network.ssh.probe'' = Some ''network_read''" "''network.ssh.probe'' \<in> set TOOLS"
    "''network.ssh.probe'' \<in> set INTERNAL_NETWORK_TOOLS" "''network.ssh.probe'' \<notin> set DIAGNOSTIC_STAGED_LOCAL_READ_TOOLS"
    by code_simp+
  then obtain d where d: "authorize ?a ''network.ssh.probe'' ''network_endpoint'' ''10.0.0.7:22'' ''network_read'' = Inr d"
    "de_allowed d" "de_capability d \<in> set INTERNAL_NETWORK_TOOLS"
    by (simp add: authorize_def denial_def demo_authority_def build_authority_def mk_decision_def)
  with authorize_decides [OF d(1)] show ?thesis by blast
qed

text \<open>C29: the fingerprint binds the whole envelope: it is the SHA-256 reference of a canonical text, and
  two authorities built by the program have the same canonical text only if they agree in every
  field, so equal fingerprints of different authorities are a SHA-256 collision of their texts.\<close>

theorem fingerprint_binds:
  assumes "a = build_authority t s src tools w n" "b = build_authority t' s' src' tools' w' n'"
  shows "au_fingerprint a = sha256_ref (dumps (fingerprint_json a))
    \<and> (dumps (fingerprint_json a) = dumps (fingerprint_json b) \<longleftrightarrow> a = b)"
proof
  show "au_fingerprint a = sha256_ref (dumps (fingerprint_json a))"
    unfolding assms(1) build_fingerprint digest_def ..
  show "dumps (fingerprint_json a) = dumps (fingerprint_json b) \<longleftrightarrow> a = b"
    using fingerprint_text_inject [of a b] assms by (auto simp: build_authority_def simp del: dumps.simps)
qed

theorem fingerprint_binds_witness:
  "demo_child = build_authority ''task-1.child'' ''internal'' [''docs''] [''write_staging'']
     (ScopeStr ''out/tmp/a'') ''deny''
   \<and> au_fingerprint demo_child = sha256_ref (dumps (fingerprint_json demo_child))
   \<and> dumps (fingerprint_json demo_child) \<noteq> dumps (fingerprint_json (build_authority ''task-2'' ''internal'' [] [] (ScopeStr ''deny'') ''deny''))"
  using fingerprint_binds [OF demo_child_def, of "build_authority ''task-2'' ''internal'' [] [] (ScopeStr ''deny'') ''deny''"]
    demo_child_def by (auto simp: build_authority_def demo_child_def simp del: dumps.simps)

end
