(* ===== verification/Task_Context.thy ===== *)
theory Task_Context
  imports Context_Manifest Capability_Authority
begin

text \<open>
  Model of \<open>src/three_agent/task_context.py\<close>: the immutable runtime binding of a task, its resource budget,
  its versioned enrichment and its builder; and of the canonical task of
  \<open>src/three_agent/harness_task_compiler.py\<close> that the builder consumes (the prompt compiler behind it is not
  modelled). Floats have their value and their \<open>repr\<close>; datetimes handed to the builder are values of
  \<open>PyDatetime\<close>.
\<close>

section \<open>The canonical task\<close>

record canonical_task =
  ck_task_id :: string
  ck_task_type :: string
  ck_sensitivity :: string
  ck_risk_level :: string
  ck_compiled_intent :: string
  ck_prompt_compiler_version :: string
  ck_original_sha256 :: string
  ck_compiled_sha256 :: string
  ck_task_contract_schema :: string
  ck_authority_fingerprint :: string
  ck_acceptance_fingerprint :: string
  ck_schema_version :: string
  ck_compiler_version :: string

definition canonical_task_json :: "canonical_task \<Rightarrow> json" where
  "canonical_task_json t = JObj [(''task_id'', JStr (ck_task_id t)), (''task_type'', JStr (ck_task_type t)),
     (''sensitivity'', JStr (ck_sensitivity t)), (''risk_level'', JStr (ck_risk_level t)),
     (''prompt_compiler_version'', JStr (ck_prompt_compiler_version t)),
     (''original_sha256'', JStr (ck_original_sha256 t)), (''compiled_sha256'', JStr (ck_compiled_sha256 t)),
     (''task_contract_schema'', JStr (ck_task_contract_schema t)),
     (''authority_fingerprint'', JStr (ck_authority_fingerprint t)),
     (''acceptance_fingerprint'', JStr (ck_acceptance_fingerprint t)),
     (''schema_version'', JStr (ck_schema_version t)), (''compiler_version'', JStr (ck_compiler_version t))]"

definition canonical_task_fingerprint :: "canonical_task \<Rightarrow> string" where
  "canonical_task_fingerprint t = digest (canonical_task_json t)"

definition assert_authority_binding :: "canonical_task \<Rightarrow> task_contract \<Rightarrow> unit result" where
  "assert_authority_binding t c = bindE (from_contract c) (\<lambda>current.
     if tc_task_id c \<noteq> ck_task_id t
       then raise HarnessTaskCompilationError ''TaskContract task_id changed after compilation''
     else if au_fingerprint current \<noteq> ck_authority_fingerprint t
       then raise HarnessTaskCompilationError ''TaskContract authority changed after canonical task compilation''
     else Inr ())"

section \<open>Resource budgets\<close>

definition TASK_CONTEXT_SCHEMA :: string where
  "TASK_CONTEXT_SCHEMA = ''workspace-task-context/v1''"

definition RISK_CLASS_BY_LEVEL :: "(string \<times> string) list" where
  "RISK_CLASS_BY_LEVEL = [(''low'', ''R1''), (''medium'', ''R2''), (''high'', ''R3''), (''critical'', ''R4'')]"

definition RISK_CLASSES :: "string list" where
  "RISK_CLASSES = [''R0'', ''R1'', ''R2'', ''R3'', ''R4'']"

record resource_budget =
  rb_wall_time_s :: "int option"
  rb_model_tokens :: "int option"
  rb_tool_calls :: "int option"
  rb_cost_usd :: "pyfloat option"

fun float_nonneg :: "pyfloat \<Rightarrow> bool" where
  "float_nonneg (FiniteFloat q t) = (0 \<le> q)"
| "float_nonneg (NonFinite t) = False"

definition negative :: "int option \<Rightarrow> bool" where
  "negative v = (case v of None \<Rightarrow> False | Some i \<Rightarrow> i < 0)"

definition budget_validate :: "resource_budget \<Rightarrow> resource_budget result" where
  "budget_validate b = checked
     [fail_if TaskContextError (negative (rb_wall_time_s b)) ''INVALID_RESOURCE_BUDGET_WALL_TIME_S'',
      fail_if TaskContextError (negative (rb_model_tokens b)) ''INVALID_RESOURCE_BUDGET_MODEL_TOKENS'',
      fail_if TaskContextError (negative (rb_tool_calls b)) ''INVALID_RESOURCE_BUDGET_TOOL_CALLS'',
      fail_if TaskContextError (case rb_cost_usd b of None \<Rightarrow> False | Some f \<Rightarrow> \<not> float_nonneg f)
        ''INVALID_RESOURCE_BUDGET_COST_USD''] b"

definition budget_from_contract :: "task_contract \<Rightarrow> pyfloat option \<Rightarrow> resource_budget result" where
  "budget_from_contract c cost = bindE (task_validate c) (\<lambda>_. budget_validate
     \<lparr>rb_wall_time_s = Some ((eb_max_wall_time_ms (tc_execution_budget c) + 999) div 1000),
      rb_model_tokens = Some (cb_max_input_tokens (tc_context_budget c) + gb_max_output_tokens (tc_generation_budget c)),
      rb_tool_calls = Some (eb_max_tool_calls (tc_execution_budget c)), rb_cost_usd = cost\<rparr>)"

definition int_json :: "int option \<Rightarrow> json" where
  "int_json v = (case v of None \<Rightarrow> JNull | Some i \<Rightarrow> JInt i)"

definition str_json :: "string option \<Rightarrow> json" where
  "str_json v = (case v of None \<Rightarrow> JNull | Some t \<Rightarrow> JStr t)"

definition budget_json :: "resource_budget \<Rightarrow> json" where
  "budget_json b = JObj [(''wall_time_s'', int_json (rb_wall_time_s b)), (''model_tokens'', int_json (rb_model_tokens b)),
     (''tool_calls'', int_json (rb_tool_calls b)),
     (''cost_usd'', case rb_cost_usd b of None \<Rightarrow> JNull | Some f \<Rightarrow> JFloat (float_text f))]"

section \<open>The context\<close>

record task_context =
  tx_task_id :: string
  tx_session_id :: string
  tx_trace_id :: string
  tx_actor_id :: string
  tx_intent :: string
  tx_purpose :: string
  tx_project_id :: "string option"
  tx_risk_class :: string
  tx_created_at :: string
  tx_deadline :: "string option"
  tx_resource_budget :: resource_budget
  tx_inventory_scope :: "string list"
  tx_task_contract_fingerprint :: string
  tx_canonical_task_fingerprint :: string
  tx_authority_fingerprint :: string
  tx_context_refs :: "string list"
  tx_evidence_refs :: "string list"
  tx_context_version :: int
  tx_parent_context_fingerprint :: "string option"
  tx_schema_version :: string

abbreviation X :: exc_class where "X \<equiv> TaskContextError"

definition iso8601 :: "pydt \<Rightarrow> string result" where
  "iso8601 t = (if dt_offset t = None then raise X ''TASK_CONTEXT_TIME_MUST_BE_TIMEZONE_AWARE'' else utc_text t)"

definition normalize_refs :: "string list \<Rightarrow> string \<Rightarrow> string list result" where
  "normalize_refs values field = bindE (mapE (\<lambda>v. single_line X v field 2048) values) (\<lambda>items.
     if 1024 < length (fromkeys items) then raise X (upper field @ ''_TOO_MANY'') else Inr (fromkeys items))"

definition refs_check :: "string list \<Rightarrow> string \<Rightarrow> string \<Rightarrow> unit result" where
  "refs_check refs field msg = bindE (normalize_refs refs field) (\<lambda>r. fail_if X (r \<noteq> refs) msg)"

definition deadline_check :: "task_context \<Rightarrow> unit result" where
  "deadline_check c = bindE (bindE (timestamp_field X (tx_created_at c) ''created_at'') as_datetime) (\<lambda>created.
     case tx_deadline c of None \<Rightarrow> Inr ()
     | Some d \<Rightarrow> bindE (bindE (timestamp_field X d ''deadline'') as_datetime) (\<lambda>deadline.
         fail_if X (instant deadline \<le> instant created) ''TASK_CONTEXT_DEADLINE_NOT_AFTER_CREATED_AT''))"

definition context_checks :: "task_context \<Rightarrow> unit result list" where
  "context_checks c =
     [void (id_field X (tx_task_id c) ''task_id''), void (id_field X (tx_session_id c) ''session_id''),
      void (id_field X (tx_trace_id c) ''trace_id''), void (id_field X (tx_actor_id c) ''actor_id''),
      fail_if X (strip (tx_intent c) = []) ''TASK_CONTEXT_INTENT_REQUIRED'',
      fail_if X (32768 < length (tx_intent c)) ''TASK_CONTEXT_INTENT_TOO_LARGE'',
      void (single_line X (tx_purpose c) ''purpose'' 512),
      (case tx_project_id c of None \<Rightarrow> Inr () | Some p \<Rightarrow> void (id_field X p ''project_id'')),
      fail_if X (tx_risk_class c \<notin> set RISK_CLASSES) ''INVALID_RISK_CLASS'',
      deadline_check c,
      void (budget_validate (tx_resource_budget c)),
      refs_check (tx_inventory_scope c) ''inventory_scope'' ''INVENTORY_SCOPE_MUST_BE_UNIQUE_AND_NORMALIZED'',
      void (sha256_field X (tx_task_contract_fingerprint c) ''task_contract_fingerprint''),
      void (sha256_field X (tx_canonical_task_fingerprint c) ''canonical_task_fingerprint''),
      void (sha256_field X (tx_authority_fingerprint c) ''authority_fingerprint''),
      refs_check (tx_context_refs c) ''context_ref'' ''CONTEXT_REFS_MUST_BE_UNIQUE_AND_NORMALIZED'',
      refs_check (tx_evidence_refs c) ''evidence_ref'' ''EVIDENCE_REFS_MUST_BE_UNIQUE_AND_NORMALIZED'',
      fail_if X (tx_context_version c < 1) ''INVALID_CONTEXT_VERSION'',
      (if tx_context_version c = 1
       then fail_if X (tx_parent_context_fingerprint c \<noteq> None) ''ROOT_CONTEXT_CANNOT_HAVE_PARENT''
       else (case tx_parent_context_fingerprint c of None \<Rightarrow> invalid X ''parent_context_fingerprint''
             | Some f \<Rightarrow> void (sha256_field X f ''parent_context_fingerprint''))),
      fail_if X (tx_schema_version c \<noteq> TASK_CONTEXT_SCHEMA) ''TASK_CONTEXT_SCHEMA_VERSION_MISMATCH'']"

definition context_validate :: "task_context \<Rightarrow> task_context result" where
  "context_validate c = checked (context_checks c) c"

definition intent_sha256 :: "task_context \<Rightarrow> string" where
  "intent_sha256 c = sha256_ref (tx_intent c)"

definition identity_items :: "task_context \<Rightarrow> (string \<times> json) list" where
  "identity_items c =
     [(''task_id'', JStr (tx_task_id c)), (''session_id'', JStr (tx_session_id c)), (''trace_id'', JStr (tx_trace_id c)),
      (''actor_id'', JStr (tx_actor_id c)), (''intent_sha256'', JStr (intent_sha256 c)), (''purpose'', JStr (tx_purpose c)),
      (''project_id'', str_json (tx_project_id c)), (''risk_class'', JStr (tx_risk_class c)),
      (''created_at'', JStr (tx_created_at c)), (''deadline'', str_json (tx_deadline c)),
      (''resource_budget'', budget_json (tx_resource_budget c)), (''inventory_scope'', str_list (tx_inventory_scope c)),
      (''task_contract_fingerprint'', JStr (tx_task_contract_fingerprint c)),
      (''canonical_task_fingerprint'', JStr (tx_canonical_task_fingerprint c)),
      (''authority_fingerprint'', JStr (tx_authority_fingerprint c))]"

definition context_json :: "task_context \<Rightarrow> json" where
  "context_json c = JObj ([(''schema_version'', JStr (tx_schema_version c))] @ identity_items c
     @ [(''context_refs'', str_list (tx_context_refs c)), (''evidence_refs'', str_list (tx_evidence_refs c)),
        (''context_version'', JInt (tx_context_version c)),
        (''parent_context_fingerprint'', str_json (tx_parent_context_fingerprint c))])"

definition identity_fingerprint :: "task_context \<Rightarrow> string result" where
  "identity_fingerprint c = bindE (context_validate c) (\<lambda>_. Inr (digest (JObj (identity_items c))))"

definition context_fingerprint :: "task_context \<Rightarrow> string result" where
  "context_fingerprint c = bindE (context_validate c) (\<lambda>_. Inr (digest (context_json c)))"

definition derive :: "task_context \<Rightarrow> string list \<Rightarrow> string list \<Rightarrow> task_context result" where
  "derive c context_refs evidence_refs =
     bindE (context_validate c) (\<lambda>_.
     bindE (normalize_refs (tx_context_refs c @ context_refs) ''context_ref'') (\<lambda>merged_context.
     bindE (normalize_refs (tx_evidence_refs c @ evidence_refs) ''evidence_ref'') (\<lambda>merged_evidence.
     if merged_context = tx_context_refs c \<and> merged_evidence = tx_evidence_refs c
       then raise X ''TASK_CONTEXT_DERIVATION_HAS_NO_NEW_REFERENCES''
     else bindE (context_fingerprint c) (\<lambda>parent.
       let derived = c\<lparr>tx_context_refs := merged_context, tx_evidence_refs := merged_evidence,
             tx_context_version := tx_context_version c + 1, tx_parent_context_fingerprint := Some parent\<rparr> in
       bindE (context_validate derived) (\<lambda>_.
       bindE (identity_fingerprint derived) (\<lambda>i. bindE (identity_fingerprint c) (\<lambda>j.
       if i \<noteq> j then raise X ''TASK_CONTEXT_IDENTITY_CHANGED_DURING_DERIVATION'' else Inr derived)))))))"

definition bind_context_manifest :: "task_context \<Rightarrow> manifest \<Rightarrow> task_context result" where
  "bind_context_manifest c m =
     bindE (context_validate c) (\<lambda>_.
     bindE (manifest_validate m) (\<lambda>_.
     if tx_project_id c = None then raise X ''TASK_CONTEXT_PROJECT_REQUIRED_FOR_MANIFEST''
     else if Some (cm_project_id m) \<noteq> tx_project_id c then raise X ''TASK_CONTEXT_MANIFEST_PROJECT_MISMATCH''
     else if cm_conversation_id m \<noteq> tx_session_id c then raise X ''TASK_CONTEXT_MANIFEST_SESSION_MISMATCH''
     else if cm_task_id m \<noteq> tx_task_id c then raise X ''TASK_CONTEXT_MANIFEST_TASK_MISMATCH''
     else if cm_authority_fingerprint m \<noteq> tx_authority_fingerprint c then raise X ''TASK_CONTEXT_MANIFEST_AUTHORITY_MISMATCH''
     else bindE (manifest_fingerprint m) (\<lambda>f.
       derive c [''context-manifest:'' @ cm_context_manifest_id m @ '':'' @ f] [])))"

section \<open>The builder\<close>

record context_args =
  xa_session_id :: string
  xa_trace_id :: string
  xa_actor_id :: string
  xa_purpose :: string
  xa_project_id :: "string option"
  xa_inventory_scope :: "string list"
  xa_created_at :: "pydt option"
  xa_deadline :: "pydt option"
  xa_cost_usd :: "pyfloat option"

definition opt_result :: "('a \<Rightarrow> 'b result) \<Rightarrow> 'a option \<Rightarrow> 'b option result" where
  "opt_result f v = (case v of None \<Rightarrow> Inr None | Some x \<Rightarrow> bindE (f x) (\<lambda>y. Inr (Some y)))"

text \<open>\<open>now\<close> is \<open>datetime.now(timezone.utc)\<close>. The translated exception of the authority check keeps its text.\<close>

definition context_build :: "pydt \<Rightarrow> task_contract \<Rightarrow> canonical_task \<Rightarrow> context_args \<Rightarrow> task_context result" where
  "context_build now c t a =
     bindE (task_validate c) (\<lambda>_.
     bindE (case assert_authority_binding t c of
         Inl (HarnessTaskCompilationError, m) \<Rightarrow> raise X m | r \<Rightarrow> r) (\<lambda>_.
     bindE (from_contract c) (\<lambda>authority.
     if ck_task_id t \<noteq> tc_task_id c then raise X ''TASK_CONTEXT_CANONICAL_TASK_ID_MISMATCH''
     else if ck_authority_fingerprint t \<noteq> au_fingerprint authority then raise X ''TASK_CONTEXT_AUTHORITY_BINDING_MISMATCH''
     else
     bindE (id_field X (xa_session_id a) ''session_id'') (\<lambda>session.
     bindE (id_field X (xa_trace_id a) ''trace_id'') (\<lambda>trace.
     bindE (id_field X (xa_actor_id a) ''actor_id'') (\<lambda>actor.
     bindE (single_line X (xa_purpose a) ''purpose'' 512) (\<lambda>purpose.
     bindE (opt_result (\<lambda>p. id_field X p ''project_id'') (xa_project_id a)) (\<lambda>project.
     bindE (case map_of RISK_CLASS_BY_LEVEL (tc_risk_level c) of Some r \<Rightarrow> Inr r | None \<Rightarrow> raise KeyError (tc_risk_level c)) (\<lambda>risk.
     bindE (iso8601 (case xa_created_at a of Some d \<Rightarrow> d | None \<Rightarrow> now)) (\<lambda>created.
     bindE (opt_result iso8601 (xa_deadline a)) (\<lambda>deadline.
     bindE (budget_from_contract c (xa_cost_usd a)) (\<lambda>budget.
     bindE (normalize_refs (xa_inventory_scope a) ''inventory_scope'') (\<lambda>scope.
     bindE (canonical_digest X ''TASK_CONTEXT_NOT_CANONICAL_JSON'' (contract_to_dict c)) (\<lambda>contract_digest.
     context_validate \<lparr>tx_task_id = tc_task_id c, tx_session_id = session, tx_trace_id = trace, tx_actor_id = actor,
       tx_intent = ck_compiled_intent t, tx_purpose = purpose, tx_project_id = project, tx_risk_class = risk,
       tx_created_at = created, tx_deadline = deadline, tx_resource_budget = budget, tx_inventory_scope = scope,
       tx_task_contract_fingerprint = contract_digest,
       tx_canonical_task_fingerprint = canonical_task_fingerprint t, tx_authority_fingerprint = au_fingerprint authority,
       tx_context_refs = [], tx_evidence_refs = [], tx_context_version = 1, tx_parent_context_fingerprint = None,
       tx_schema_version = TASK_CONTEXT_SCHEMA\<rparr>))))))))))))))"

section \<open>What validation accepts\<close>

definition budget_ok :: "resource_budget \<Rightarrow> bool" where
  "budget_ok b \<longleftrightarrow> \<not> negative (rb_wall_time_s b) \<and> \<not> negative (rb_model_tokens b) \<and> \<not> negative (rb_tool_calls b)
     \<and> (case rb_cost_usd b of None \<Rightarrow> True | Some f \<Rightarrow> float_nonneg f)"

lemma budget_validate_iff [simp]: "budget_validate b = Inr c \<longleftrightarrow> c = b \<and> budget_ok b"
  by (auto simp: budget_validate_def checked_iff budget_ok_def split: option.splits)

lemma budget_pass [simp]: "budget_ok b \<Longrightarrow> budget_validate b = Inr b"
  by simp

definition refs_ok :: "string list \<Rightarrow> bool" where
  "refs_ok rs \<longleftrightarrow> distinct rs \<and> list_all (line_ok 2048) rs \<and> length rs \<le> 1024"

lemma lines_iff: "mapE (\<lambda>v. single_line e v field n) vs = Inr r \<longleftrightarrow> r = vs \<and> list_all (line_ok n) vs"
  by (induction vs arbitrary: r) (auto simp: bindE_Inr_iff)

lemma normalize_refs_iff:
  "normalize_refs vs field = Inr r \<longleftrightarrow> r = fromkeys vs \<and> list_all (line_ok 2048) vs \<and> length (fromkeys vs) \<le> 1024"
  by (auto simp: normalize_refs_def bindE_Inr_iff lines_iff)

lemma fromkeys_id_iff: "fromkeys xs = xs \<longleftrightarrow> distinct xs"
  by (metis distinct_fromkeys fromkeys_distinct)

lemma refs_check_iff [simp]: "refs_check rs field msg = Inr u \<longleftrightarrow> refs_ok rs"
proof -
  have "refs_check rs field msg = Inr u \<longleftrightarrow> list_all (line_ok 2048) rs \<and> length (fromkeys rs) \<le> 1024 \<and> fromkeys rs = rs"
    by (auto simp: refs_check_def bindE_Inr_iff normalize_refs_iff)
  then show ?thesis by (auto simp: refs_ok_def fromkeys_id_iff)
qed

definition times_ok :: "string \<Rightarrow> string option \<Rightarrow> bool" where
  "times_ok created due \<longleftrightarrow> time_ok created \<and> (case due of None \<Rightarrow> True | Some d \<Rightarrow> time_ok d \<and>
     (case (fromisoformat (zulu created), fromisoformat (zulu d)) of (Some s, Some t) \<Rightarrow> instant s < instant t | _ \<Rightarrow> False))"

lemma time_ok_parses: "time_ok v \<Longrightarrow> \<exists>p. fromisoformat (zulu v) = Some p"
  by (auto simp: time_ok_def split: option.splits)

lemma deadline_check_iff [simp]: "deadline_check c = Inr u \<longleftrightarrow> times_ok (tx_created_at c) (tx_deadline c)"
proof (cases "tx_deadline c")
  case None
  then show ?thesis using time_ok_parses by (auto simp: deadline_check_def times_ok_def bindE_Inr_iff)
next
  case (Some d)
  then show ?thesis
    using time_ok_parses [of "tx_created_at c"] time_ok_parses [of d]
    by (auto simp: deadline_check_def times_ok_def bindE_Inr_iff not_le)
qed

definition context_ok :: "task_context \<Rightarrow> bool" where
  "context_ok c \<longleftrightarrow> ID_RE (tx_task_id c) \<and> ID_RE (tx_session_id c) \<and> ID_RE (tx_trace_id c) \<and> ID_RE (tx_actor_id c)
     \<and> strip (tx_intent c) \<noteq> [] \<and> length (tx_intent c) \<le> 32768 \<and> line_ok 512 (tx_purpose c)
     \<and> (case tx_project_id c of None \<Rightarrow> True | Some p \<Rightarrow> ID_RE p) \<and> tx_risk_class c \<in> set RISK_CLASSES
     \<and> times_ok (tx_created_at c) (tx_deadline c) \<and> budget_ok (tx_resource_budget c) \<and> refs_ok (tx_inventory_scope c)
     \<and> is_sha256_ref (tx_task_contract_fingerprint c) \<and> is_sha256_ref (tx_canonical_task_fingerprint c)
     \<and> is_sha256_ref (tx_authority_fingerprint c) \<and> refs_ok (tx_context_refs c) \<and> refs_ok (tx_evidence_refs c)
     \<and> 1 \<le> tx_context_version c
     \<and> (if tx_context_version c = 1 then tx_parent_context_fingerprint c = None
        else (case tx_parent_context_fingerprint c of None \<Rightarrow> False | Some f \<Rightarrow> is_sha256_ref f))
     \<and> tx_schema_version c = TASK_CONTEXT_SCHEMA"

lemma context_validate_iff [simp]: "context_validate c = Inr d \<longleftrightarrow> d = c \<and> context_ok c"
  by (auto simp: context_validate_def context_checks_def checked_iff context_ok_def not_less split: option.splits)

lemma context_pass [simp]: "context_ok c \<Longrightarrow> context_validate c = Inr c"
  by simp

lemma context_fingerprint_iff [simp]: "context_fingerprint c = Inr f \<longleftrightarrow> context_ok c \<and> f = digest (context_json c)"
  by (auto simp: context_fingerprint_def bindE_Inr_iff)

lemma identity_fingerprint_iff [simp]:
  "identity_fingerprint c = Inr f \<longleftrightarrow> context_ok c \<and> f = digest (JObj (identity_items c))"
  by (auto simp: identity_fingerprint_def bindE_Inr_iff)

section \<open>Derivation\<close>

text \<open>The derived context when nothing fails.\<close>

definition derived_context :: "task_context \<Rightarrow> string list \<Rightarrow> string list \<Rightarrow> task_context" where
  "derived_context c cs es = c\<lparr>tx_context_refs := fromkeys (tx_context_refs c @ cs),
     tx_evidence_refs := fromkeys (tx_evidence_refs c @ es), tx_context_version := tx_context_version c + 1,
     tx_parent_context_fingerprint := Some (digest (context_json c))\<rparr>"

lemma identity_derived [simp]: "identity_items (derived_context c cs es) = identity_items c"
  by (simp add: identity_items_def derived_context_def intent_sha256_def)

lemma fromkeys_prefix: "distinct xs \<Longrightarrow> \<exists>zs. fromkeys (xs @ ys) = xs @ zs"
proof (induction ys rule: rev_induct)
  case (snoc y ys)
  then obtain zs where "fromkeys (xs @ ys) = xs @ zs" by blast
  then show ?case using fromkeys_snoc [of "xs @ ys" y] by auto
qed simp

lemma fromkeys_append_id_iff: "distinct xs \<Longrightarrow> fromkeys (xs @ ys) = xs \<longleftrightarrow> set ys \<subseteq> set xs"
  using fromkeys_append_subset [of ys xs] set_fromkeys [of "xs @ ys"] by (metis fromkeys_distinct le_sup_iff order_refl set_append)

lemma derive_iff:
  "derive c cs es = Inr d \<longleftrightarrow> context_ok c \<and> list_all (line_ok 2048) (cs @ es)
     \<and> length (fromkeys (tx_context_refs c @ cs)) \<le> 1024 \<and> length (fromkeys (tx_evidence_refs c @ es)) \<le> 1024
     \<and> \<not> (set cs \<subseteq> set (tx_context_refs c) \<and> set es \<subseteq> set (tx_evidence_refs c)) \<and> d = derived_context c cs es"
  (is "?L \<longleftrightarrow> ?R")
proof -
  have ok: "context_ok (derived_context c cs es)"
    if "context_ok c" "list_all (line_ok 2048) (cs @ es)" "length (fromkeys (tx_context_refs c @ cs)) \<le> 1024"
      "length (fromkeys (tx_evidence_refs c @ es)) \<le> 1024"
    using that by (auto simp: context_ok_def derived_context_def refs_ok_def list_all_iff)
  have dst: "context_ok c \<Longrightarrow> distinct (tx_context_refs c) \<and> distinct (tx_evidence_refs c)
      \<and> list_all (line_ok 2048) (tx_context_refs c) \<and> list_all (line_ok 2048) (tx_evidence_refs c)"
    by (auto simp: context_ok_def refs_ok_def)
  have "?L \<longleftrightarrow> context_ok c \<and> list_all (line_ok 2048) (cs @ es)
     \<and> length (fromkeys (tx_context_refs c @ cs)) \<le> 1024 \<and> length (fromkeys (tx_evidence_refs c @ es)) \<le> 1024
     \<and> \<not> (fromkeys (tx_context_refs c @ cs) = tx_context_refs c \<and> fromkeys (tx_evidence_refs c @ es) = tx_evidence_refs c)
     \<and> context_ok (derived_context c cs es) \<and> d = derived_context c cs es"
    using dst by (auto simp: derive_def bindE_Inr_iff normalize_refs_iff Let_def derived_context_def [symmetric])
  also have "\<dots> \<longleftrightarrow> ?R" using ok dst fromkeys_append_id_iff by blast
  finally show ?thesis .
qed

lemma derive_facts:
  assumes "derive c cs es = Inr d"
  shows "context_ok d" "identity_items d = identity_items c" "tx_context_version d = tx_context_version c + 1"
    "tx_parent_context_fingerprint d = Some (digest (context_json c))"
    "\<exists>zs. tx_context_refs d = tx_context_refs c @ zs" "\<exists>zs. tx_evidence_refs d = tx_evidence_refs c @ zs"
proof -
  from assms have d: "d = derived_context c cs es" and ok: "context_ok c" by (simp_all add: derive_iff)
  from assms show "context_ok d"
    by (auto simp: derive_def Let_def split: if_splits)
  from ok have "distinct (tx_context_refs c)" "distinct (tx_evidence_refs c)" by (simp_all add: context_ok_def refs_ok_def)
  then show "\<exists>zs. tx_context_refs d = tx_context_refs c @ zs" "\<exists>zs. tx_evidence_refs d = tx_evidence_refs c @ zs"
    using fromkeys_prefix by (auto simp: d derived_context_def)
qed (use assms in \<open>auto simp: derive_iff\<close>, auto simp: derived_context_def)

definition derive_step :: "task_context \<Rightarrow> string list \<times> string list \<Rightarrow> task_context result" where
  "derive_step c x = derive c (fst x) (snd x)"

lemma iso8601_reads:
  assumes "iso8601 t = Inr s"
  shows "fromisoformat (zulu s) = Some \<lparr>dt_local = instant t, dt_offset = Some 0\<rparr>"
proof -
  from assms have u: "0 \<le> instant t" "instant t < MAX_LOCAL" "s = isoformat_local (instant t) @ ''Z''"
    by (auto simp: iso8601_def utc_text_def astimezone_utc_def split: if_splits)
  then have "zulu s = isoformat_local (instant t) @ ''+00:00''"
    by (simp add: zulu_def ends_with_def)
  then show ?thesis using fromisoformat_isoformat [OF u(1,2)] by simp
qed

section \<open>Properties\<close>

text \<open>Derivation succeeds exactly on a valid context with new, well-formed references that keep both
  lists within 1024 entries, and its result is determined: the references are appended in order
  without duplicates, the version grows by one and the parent is named by its fingerprint. The
  re-validation and the identity check at its end never fail.\<close>

theorem derive_decides:
  "derive c cs es = Inr d \<longleftrightarrow> context_ok c \<and> list_all (line_ok 2048) (cs @ es)
     \<and> length (fromkeys (tx_context_refs c @ cs)) \<le> 1024 \<and> length (fromkeys (tx_evidence_refs c @ es)) \<le> 1024
     \<and> \<not> (set cs \<subseteq> set (tx_context_refs c) \<and> set es \<subseteq> set (tx_evidence_refs c)) \<and> d = derived_context c cs es"
  by (rule derive_iff)

text \<open>C33: enrichment never changes the task. Along any chain of derivations the identity fingerprint is
  that of the first context, references are only appended, and the version counts the steps.\<close>

theorem derivation_chain:
  assumes "context_ok c" "foldE derive_step c rs = Inr d"
  shows "context_ok d \<and> identity_fingerprint d = identity_fingerprint c
    \<and> tx_context_version d = tx_context_version c + int (length rs)
    \<and> (\<exists>u v. tx_context_refs d = tx_context_refs c @ u \<and> tx_evidence_refs d = tx_evidence_refs c @ v)"
proof -
  have "context_ok d \<and> identity_items d = identity_items c \<and> tx_context_version d = tx_context_version c + int (length rs)
    \<and> (\<exists>u v. tx_context_refs d = tx_context_refs c @ u \<and> tx_evidence_refs d = tx_evidence_refs c @ v)"
    using assms
  proof (induction rs arbitrary: c)
    case (Cons r rs)
    then obtain e where e: "derive c (fst r) (snd r) = Inr e" "foldE derive_step e rs = Inr d"
      using derive_step_def [of c r] by auto
    note f = derive_facts [OF e(1)]
    from Cons.IH [OF f(1) e(2)] f show ?case by auto
  qed simp
  then show ?thesis using assms(1) by (simp add: identity_fingerprint_def)
qed

definition demo_context :: task_context where
  "demo_context = \<lparr>tx_task_id = ''T'', tx_session_id = ''s1'', tx_trace_id = ''t1'', tx_actor_id = ''a1'', tx_intent = ''do it'',
     tx_purpose = ''test'', tx_project_id = Some ''p1'', tx_risk_class = ''R1'', tx_created_at = ''2024-01-01T00:00:00Z'',
     tx_deadline = None, tx_resource_budget = \<lparr>rb_wall_time_s = Some 60, rb_model_tokens = Some 100, rb_tool_calls = Some 5, rb_cost_usd = None\<rparr>,
     tx_inventory_scope = [], tx_task_contract_fingerprint = sha256_ref ''c'', tx_canonical_task_fingerprint = sha256_ref ''k'',
     tx_authority_fingerprint = sha256_ref ''a'', tx_context_refs = [], tx_evidence_refs = [], tx_context_version = 1,
     tx_parent_context_fingerprint = None, tx_schema_version = TASK_CONTEXT_SCHEMA\<rparr>"

lemma demo_context_ok: "context_ok demo_context"
proof -
  have "ID_RE ''T''" "ID_RE ''s1''" "ID_RE ''t1''" "ID_RE ''a1''" "ID_RE ''p1''" "strip ''do it'' \<noteq> []" "line_ok 512 ''test''"
    "''R1'' \<in> set RISK_CLASSES" by code_simp+
  then show ?thesis
    using demo_instant(1)
    by (simp add: demo_context_def context_ok_def times_ok_def budget_ok_def negative_def refs_ok_def)
qed

theorem derivation_chain_witness:
  "\<exists>d. foldE derive_step demo_context [([''ref-1''], []), ([], [''ev-1''])] = Inr d
     \<and> tx_context_version d = 3 \<and> identity_fingerprint d = identity_fingerprint demo_context"
proof -
  have l: "line_ok 2048 ''ref-1''" "line_ok 2048 ''ev-1''" by code_simp+
  have r: "tx_context_refs demo_context = []" "tx_evidence_refs demo_context = []" "tx_context_version demo_context = 1"
    by (simp_all add: demo_context_def)
  have a: "derive demo_context [''ref-1''] [] = Inr (derived_context demo_context [''ref-1''] [])"
    using demo_context_ok l by (simp add: derive_iff r)
  note f = derive_facts [OF a]
  have "tx_evidence_refs (derived_context demo_context [''ref-1''] []) = []" by (simp add: derived_context_def r)
  moreover have "tx_context_refs (derived_context demo_context [''ref-1''] []) = [''ref-1'']" by (simp add: derived_context_def r)
  ultimately have "\<exists>d. derive (derived_context demo_context [''ref-1''] []) [] [''ev-1''] = Inr d"
    using f(1) l by (simp add: derive_iff)
  then obtain d where "foldE derive_step demo_context [([''ref-1''], []), ([], [''ev-1''])] = Inr d"
    using a by (auto simp: derive_step_def)
  with derivation_chain [OF demo_context_ok this] show ?thesis by (auto simp: r)
qed

text \<open>A built context is bound to its contract. It is valid; its task, risk class and authority
  fingerprint are those of the (valid) contract and the canonical task; its budget covers the contract's
  time limit rounded up to seconds and its tokens and tool calls exactly; the stored creation time reads
  back as the given instant, and the deadline is after it.\<close>

theorem context_build_binds:
  assumes "context_build now c t a = Inr x"
  shows "context_ok x \<and> task_ok c \<and> tx_task_id x = tc_task_id c \<and> ck_task_id t = tc_task_id c
    \<and> map_of RISK_CLASS_BY_LEVEL (tc_risk_level c) = Some (tx_risk_class x)
    \<and> (\<exists>au. from_contract c = Inr au \<and> tx_authority_fingerprint x = au_fingerprint au \<and> ck_authority_fingerprint t = au_fingerprint au)
    \<and> (\<exists>w. rb_wall_time_s (tx_resource_budget x) = Some w \<and> eb_max_wall_time_ms (tc_execution_budget c) \<le> 1000 * w
         \<and> 1000 * w < eb_max_wall_time_ms (tc_execution_budget c) + 1000)
    \<and> rb_tool_calls (tx_resource_budget x) = Some (eb_max_tool_calls (tc_execution_budget c))
    \<and> fromisoformat (zulu (tx_created_at x))
        = Some \<lparr>dt_local = instant (case xa_created_at a of Some d \<Rightarrow> d | None \<Rightarrow> now), dt_offset = Some 0\<rparr>
    \<and> (case xa_deadline a of None \<Rightarrow> True | Some d \<Rightarrow> instant (case xa_created_at a of Some d \<Rightarrow> d | None \<Rightarrow> now) < instant d)"
proof -
  let ?created = "case xa_created_at a of Some d \<Rightarrow> d | None \<Rightarrow> now"
  from assms obtain authority created due budget where
    c: "task_validate c = Inr c" "from_contract c = Inr authority" "ck_task_id t = tc_task_id c"
      "ck_authority_fingerprint t = au_fingerprint authority" "iso8601 ?created = Inr created"
      "opt_result iso8601 (xa_deadline a) = Inr due" "budget_from_contract c (xa_cost_usd a) = Inr budget"
      "map_of RISK_CLASS_BY_LEVEL (tc_risk_level c) = Some (tx_risk_class x)"
    and x: "context_ok x" "tx_task_id x = tc_task_id c" "tx_authority_fingerprint x = au_fingerprint authority"
      "tx_created_at x = created" "tx_deadline x = due" "tx_resource_budget x = budget"
    unfolding context_build_def by (auto simp: task_validate_iff split: if_splits option.splits)
  have created: "fromisoformat (zulu created) = Some \<lparr>dt_local = instant ?created, dt_offset = Some 0\<rparr>"
    using c(5) by (rule iso8601_reads)
  have b: "rb_wall_time_s budget = Some ((eb_max_wall_time_ms (tc_execution_budget c) + 999) div 1000)"
    "rb_tool_calls budget = Some (eb_max_tool_calls (tc_execution_budget c))"
    using c(7) by (auto simp: budget_from_contract_def)
  have "case xa_deadline a of None \<Rightarrow> True | Some d \<Rightarrow> instant ?created < instant d"
  proof (cases "xa_deadline a")
    case (Some d)
    with c(6) obtain s where s: "due = Some s" "iso8601 d = Inr s" by (auto simp: opt_result_def)
    from iso8601_reads [OF s(2)] x(1,4,5) s(1) created Some show ?thesis
      by (simp add: context_ok_def times_ok_def instant_def split: option.splits)
  qed simp
  moreover have "m \<le> 1000 * ((m + 999) div 1000) \<and> 1000 * ((m + 999) div 1000) < m + 1000" for m :: int
    using minus_mod_eq_mult_div [of "m + 999" 1000] pos_mod_bound [of 1000 "m + 999"] pos_mod_sign [of 1000 "m + 999"] by linarith
  ultimately show ?thesis using c x b created by (auto simp: task_validate_iff)
qed

definition demo_task_contract :: task_contract where
  "demo_task_contract = compiled demo_args"

definition demo_canonical_task :: canonical_task where
  "demo_canonical_task = \<lparr>ck_task_id = ''task-1'', ck_task_type = ''retrieval'', ck_sensitivity = ''restricted'', ck_risk_level = ''high'',
     ck_compiled_intent = ''find it'', ck_prompt_compiler_version = ''v1'', ck_original_sha256 = [], ck_compiled_sha256 = [],
     ck_task_contract_schema = [], ck_authority_fingerprint = (case from_contract demo_task_contract of Inr au \<Rightarrow> au_fingerprint au | Inl _ \<Rightarrow> []),
     ck_acceptance_fingerprint = [], ck_schema_version = [], ck_compiler_version = []\<rparr>"

definition demo_context_args :: context_args where
  "demo_context_args = \<lparr>xa_session_id = ''s1'', xa_trace_id = ''t1'', xa_actor_id = ''a1'', xa_purpose = ''test'', xa_project_id = None,
     xa_inventory_scope = [], xa_created_at = None, xa_deadline = Some \<lparr>dt_local = 2000000, dt_offset = Some 1000000\<rparr>, xa_cost_usd = None\<rparr>"

theorem context_build_binds_witness:
  "\<exists>x. context_build \<lparr>dt_local = 0, dt_offset = Some 0\<rparr> demo_task_contract demo_canonical_task demo_context_args = Inr x
     \<and> context_ok x \<and> tx_risk_class x = ''R3''"
proof -
  let ?now = "\<lparr>dt_local = 0, dt_offset = Some 0\<rparr>"
  have "compile_ok demo_args" by code_simp
  then have "task_compile demo_args = Inr demo_task_contract" by (simp add: task_compile_iff demo_task_contract_def)
  then have v: "task_ok demo_task_contract" by (auto simp: task_compile_def bindE_checks_Inr task_validate_iff)
  have f: "tc_task_id demo_task_contract = ''task-1''" "tc_risk_level demo_task_contract = ''high''"
    "finite_json (contract_to_dict demo_task_contract)" by code_simp+
  obtain au where au: "from_contract demo_task_contract = Inr au" "is_sha256_ref (au_fingerprint au)"
    using v by (simp add: from_contract_def task_validate_iff [THEN iffD2] build_authority_def fingerprint_payload_def)
  have t: "iso8601 ?now = Inr ''0001-01-01T00:00:00Z''"
    "iso8601 \<lparr>dt_local = 2000000, dt_offset = Some 1000000\<rparr> = Inr ''0001-01-01T00:00:01Z''"
    by code_simp+
  have i: "ID_RE ''s1''" "ID_RE ''t1''" "ID_RE ''a1''" "ID_RE ''task-1''" "line_ok 512 ''test''" "strip ''find it'' \<noteq> []"
    "times_ok ''0001-01-01T00:00:00Z'' (Some ''0001-01-01T00:00:01Z'')" "map_of RISK_CLASS_BY_LEVEL ''high'' = Some ''R3''"
    "''R3'' \<in> set RISK_CLASSES" by code_simp+
  have "budgets_ok demo_task_contract" using v by (simp add: task_ok_def)
  then obtain b where b: "budget_from_contract demo_task_contract None = Inr b" "budget_ok b"
    using v by (auto simp: budget_from_contract_def task_validate_iff [THEN iffD2] budget_ok_def negative_def budgets_ok_def Let_def)
  obtain x where x: "context_build ?now demo_task_contract demo_canonical_task demo_context_args = Inr x"
    using v f au t i b
    by (simp add: context_build_def task_validate_iff [THEN iffD2] assert_authority_binding_def demo_canonical_task_def
        demo_context_args_def opt_result_def normalize_refs_def canonical_digest_iff [THEN iffD2] context_ok_def refs_ok_def
        canonical_task_fingerprint_def)
  with context_build_binds [OF x] f i(8) show ?thesis by auto
qed

end
