(* ===== verification/Workflow_Graph.thy ===== *)
theory Workflow_Graph
  imports Json
begin

text \<open>
  The dependency graph of a workflow, function \<open>_graph\<close> of
  \<open>src/three_agent/workflow_design.py\<close>: the edge checks and Kahn's algorithm with a queue, a
  map of remaining indegrees and a map of levels. The loop invariant gives that the order is a
  topological enumeration of the nodes, that a level is the length of a longest dependency path,
  and that the cycle error is raised for the cyclic graphs only.
\<close>

definition MAX_NODES :: nat where "MAX_NODES = 24"
definition MAX_EDGES :: nat where "MAX_EDGES = 64"

text \<open>A validated node, the dict \<open>validate_contract\<close> builds for each entry of \<open>nodes\<close>.\<close>

record wf_node =
  nd_id :: string
  nd_label :: string
  nd_kind :: string
  nd_action :: string
  nd_depends_on :: "string list"
  nd_condition :: "string option"
  nd_approval_required :: bool

section \<open>The dependency graph\<close>

text \<open>The first loop of \<open>_graph\<close>: every edge names a known node other than its own, in order.\<close>

definition check_edge :: "string list \<Rightarrow> string \<Rightarrow> string \<Rightarrow> unit result" where
  "check_edge ids n parent =
     (if parent \<notin> set ids
        then raise WorkflowDesignError (''node '' @ n @ '' depends on unknown node '' @ parent)
      else if parent = n then raise WorkflowDesignError (''node '' @ n @ '' cannot depend on itself'')
      else Inr ())"

definition edges :: "wf_node list \<Rightarrow> (string \<times> string) list" where
  "edges nodes = concat (map (\<lambda>n. map (\<lambda>p. (p, nd_id n)) (nd_depends_on n)) nodes)"

definition check_edges :: "wf_node list \<Rightarrow> unit list result" where
  "check_edges nodes = mapE (\<lambda>(p, n). check_edge (map nd_id nodes) n p) (edges nodes)"

definition children_of :: "wf_node list \<Rightarrow> string \<Rightarrow> string list" where
  "children_of nodes p = map snd (filter (\<lambda>e. fst e = p) (edges nodes))"

definition indegree_of :: "wf_node list \<Rightarrow> string \<Rightarrow> int" where
  "indegree_of nodes n = int (length (filter (\<lambda>e. snd e = n) (edges nodes)))"

record kahn_state =
  k_queue :: "string list"
  k_order :: "string list"
  k_level :: "string \<rightharpoonup> nat"
  k_indegree :: "string \<Rightarrow> int"

text \<open>The body of the inner loop over \<open>sorted(children[current])\<close>.\<close>

definition relax :: "string \<Rightarrow> kahn_state \<Rightarrow> string \<Rightarrow> kahn_state" where
  "relax current s child =
     (let lc = (case k_level s current of Some l \<Rightarrow> l | None \<Rightarrow> 0);
          old = (case k_level s child of Some l \<Rightarrow> l | None \<Rightarrow> 0);
          d = k_indegree s child - 1
      in s\<lparr>k_level := (k_level s)(child \<mapsto> max old (lc + 1)),
           k_indegree := (k_indegree s)(child := d),
           k_queue := (if d = 0 then k_queue s @ [child] else k_queue s)\<rparr>)"

definition kahn_step :: "(string \<Rightarrow> string list) \<Rightarrow> string \<Rightarrow> kahn_state \<Rightarrow> kahn_state" where
  "kahn_step children current s =
     foldl (relax current) (s\<lparr>k_queue := tl (k_queue s), k_order := k_order s @ [current]\<rparr>)
       (sort (children current))"

text \<open>The loop \<open>while queue\<close>, with one unit of fuel per popped node.\<close>

fun kahn :: "(string \<Rightarrow> string list) \<Rightarrow> nat \<Rightarrow> kahn_state \<Rightarrow> kahn_state" where
  "kahn children 0 s = s"
| "kahn children (Suc fuel) s =
     (case k_queue s of [] \<Rightarrow> s
      | current # rest \<Rightarrow> kahn children fuel (kahn_step children current s))"

definition kahn_init :: "wf_node list \<Rightarrow> kahn_state" where
  "kahn_init nodes =
     (let q = sort (filter (\<lambda>i. indegree_of nodes i = 0) (fromkeys (map nd_id nodes)))
      in \<lparr>k_queue = q, k_order = [], k_level = (\<lambda>i. if i \<in> set q then Some 0 else None),
          k_indegree = indegree_of nodes\<rparr>)"

definition kahn_run :: "wf_node list \<Rightarrow> kahn_state" where
  "kahn_run nodes = kahn (children_of nodes) (length nodes) (kahn_init nodes)"

definition graph :: "wf_node list \<Rightarrow> (string list \<times> (string \<rightharpoonup> nat)) result" where
  "graph nodes = bindE (check_edges nodes) (\<lambda>_.
     if MAX_EDGES < length (edges nodes)
       then raise WorkflowDesignError (''workflow exceeds '' @ show_nat MAX_EDGES @ '' edges'')
     else if length (k_order (kahn_run nodes)) \<noteq> length nodes
       then raise WorkflowDesignError ''workflow graph contains a cycle''
     else Inr (k_order (kahn_run nodes), k_level (kahn_run nodes)))"


section \<open>The inner loop\<close>

text \<open>The loop over the children of one node, in closed form: every child loses as many
  incoming edges as it occurs, and is queued when the last one goes.\<close>

lemma relax_simps [simp]:
  "k_order (relax c s x) = k_order s"
  "k_indegree (relax c s x) = (k_indegree s)(x := k_indegree s x - 1)"
  "k_queue (relax c s x) = (if k_indegree s x = 1 then k_queue s @ [x] else k_queue s)"
  "x \<noteq> c \<Longrightarrow> k_level (relax c s x) c = k_level s c"
  by (auto simp: relax_def Let_def)

lemma relax_loop_order [simp]: "k_order (foldl (relax c) s xs) = k_order s"
  by (induction xs arbitrary: s) auto

lemma relax_loop_indegree:
  "k_indegree (foldl (relax c) s xs) i = k_indegree s i - int (count (mset xs) i)"
  by (induction xs arbitrary: s) auto

lemma relax_loop_queue:
  assumes "\<And>i. i \<in> set xs \<Longrightarrow> int (count (mset xs) i) \<le> k_indegree s i"
  shows "\<exists>ws. k_queue (foldl (relax c) s xs) = k_queue s @ ws \<and> distinct ws
    \<and> set ws = {i \<in> set xs. k_indegree s i = int (count (mset xs) i)}"
  using assms
proof (induction xs arbitrary: s)
  case (Cons x xs)
  let ?s = "relax c s x"
  have "int (count (mset xs) i) \<le> k_indegree ?s i" if "i \<in> set xs" for i
    using Cons.prems [of i] that by (cases "i = x") auto
  from Cons.IH [of ?s, OF this] obtain ws where ws: "k_queue (foldl (relax c) ?s xs) = k_queue ?s @ ws" "distinct ws"
    "set ws = {i \<in> set xs. k_indegree ?s i = int (count (mset xs) i)}" by blast
  let ?goal = "{i \<in> set (x # xs). k_indegree s i = int (count (mset (x # xs)) i)}"
  have mem: "i \<in> ?goal \<longleftrightarrow> i \<in> set ws \<or> i = x \<and> k_indegree s x = 1" for i
  proof (cases "i = x")
    case True
    then show ?thesis
      using Cons.prems [of x] by (cases "x \<in> set xs") (auto simp: ws(3) count_eq_zero_iff)
  next
    case False
    then show ?thesis by (simp add: ws(3))
  qed
  have q: "k_queue (foldl (relax c) s (x # xs)) = k_queue ?s @ ws"
    using ws(1) by simp
  show ?case
  proof (cases "k_indegree s x = 1")
    case True
    with Cons.prems [of x] have "x \<notin> set xs" by auto
    with True q mem ws(2,3) show ?thesis
      by (intro exI [of _ "x # ws"]) auto
  next
    case False
    with q mem ws(2) show ?thesis
      by (intro exI [of _ ws]) auto
  qed
qed simp

abbreviation lev :: "kahn_state \<Rightarrow> string \<Rightarrow> nat" where
  "lev s i \<equiv> (case k_level s i of Some l \<Rightarrow> l | None \<Rightarrow> 0)"

lemma relax_loop_level:
  assumes "c \<notin> set xs"
  shows "k_level (foldl (relax c) s xs) i =
    (if i \<in> set xs then Some (max (lev s i) (lev s c + 1)) else k_level s i)"
  using assms
proof (induction xs arbitrary: s)
  case (Cons x xs)
  then have "c \<noteq> x" "c \<notin> set xs" by auto
  then show ?case
    using Cons.IH [of "relax c s x"] by (auto simp: relax_def Let_def)
qed simp


section \<open>The loop invariant\<close>

text \<open>Every dependency of a listed node is listed before it.\<close>

definition topological :: "(string \<times> string) list \<Rightarrow> string list \<Rightarrow> bool" where
  "topological es xs \<longleftrightarrow> (\<forall>i < length xs. \<forall>p. (p, xs ! i) \<in> set es \<longrightarrow> p \<in> set (take i xs))"

abbreviation seen_parents :: "wf_node list \<Rightarrow> kahn_state \<Rightarrow> string \<Rightarrow> string set" where
  "seen_parents nodes s i \<equiv> {p. (p, i) \<in> set (edges nodes) \<and> p \<in> set (k_order s)}"

definition kahn_inv :: "wf_node list \<Rightarrow> kahn_state \<Rightarrow> bool" where
  "kahn_inv nodes s \<longleftrightarrow>
     distinct (k_order s @ k_queue s) \<and> set (k_order s @ k_queue s) \<subseteq> set (map nd_id nodes)
   \<and> (\<forall>i. k_indegree s i
        = int (length (filter (\<lambda>e. snd e = i \<and> fst e \<notin> set (k_order s)) (edges nodes))))
   \<and> (\<forall>i \<in> set (map nd_id nodes). i \<in> set (k_order s @ k_queue s) \<longleftrightarrow> k_indegree s i = 0)
   \<and> topological (edges nodes) (k_order s)
   \<and> (\<forall>i. lev s i = Max (insert 0 ((\<lambda>p. lev s p + 1) ` seen_parents nodes s i)))
   \<and> (\<forall>i \<in> set (k_order s @ k_queue s). k_level s i \<noteq> None)"

lemma edge_child: "(p, i) \<in> set (edges nodes) \<Longrightarrow> i \<in> set (map nd_id nodes)"
  by (auto simp: edges_def)

lemma set_children_of: "set (children_of nodes c) = {i. (c, i) \<in> set (edges nodes)}"
  by (force simp: children_of_def)

lemma count_children_of:
  "count (mset (children_of nodes c)) i = length (filter (\<lambda>e. e = (c, i)) (edges nodes))"
proof -
  have "count (mset (map snd (filter (\<lambda>e. fst e = c) es))) i
      = length (filter (\<lambda>e. e = (c, i)) es)" for es :: "(string \<times> string) list"
    by (induction es) auto
  then show ?thesis by (simp add: children_of_def)
qed

lemma length_filter_conj_le: "(\<And>x. P x \<Longrightarrow> Q x) \<Longrightarrow> length (filter P xs) \<le> length (filter Q xs)"
  by (induction xs) auto

lemma length_filter_split:
  "length (filter P xs) = length (filter (\<lambda>x. P x \<and> Q x) xs) + length (filter (\<lambda>x. P x \<and> \<not> Q x) xs)"
  by (induction xs) auto

lemma topological_snoc:
  assumes "topological es xs" "\<And>p. (p, c) \<in> set es \<Longrightarrow> p \<in> set xs"
  shows "topological es (xs @ [c])"
  using assms by (auto simp: topological_def nth_append less_Suc_eq)

lemma finite_seen_parents [simp]: "finite (seen_parents nodes s i)"
  by (rule finite_subset [of _ "set (k_order s)"]) auto

lemma Max_insert_0: "finite A \<Longrightarrow> Max (insert 0 (insert (x::nat) A)) = max x (Max (insert 0 A))"
  by (subst insert_commute) (simp add: Max_insert)

lemma kahn_invD:
  assumes "kahn_inv nodes s"
  shows "distinct (k_order s @ k_queue s)" "set (k_order s @ k_queue s) \<subseteq> set (map nd_id nodes)"
    "k_indegree s i = int (length (filter (\<lambda>e. snd e = i \<and> fst e \<notin> set (k_order s)) (edges nodes)))"
    "i \<in> set (map nd_id nodes) \<Longrightarrow> i \<in> set (k_order s @ k_queue s) \<longleftrightarrow> k_indegree s i = 0"
    "topological (edges nodes) (k_order s)"
    "lev s i = Max (insert 0 ((\<lambda>p. lev s p + 1) ` seen_parents nodes s i))"
    "i \<in> set (k_order s @ k_queue s) \<Longrightarrow> k_level s i \<noteq> None"
  using assms unfolding kahn_inv_def by blast+

lemma kahn_inv_zero:
  assumes "kahn_inv nodes s" "k_indegree s i = 0" "(p, i) \<in> set (edges nodes)"
  shows "p \<in> set (k_order s)"
proof -
  from assms(2) have "filter (\<lambda>e. snd e = i \<and> fst e \<notin> set (k_order s)) (edges nodes) = []"
    by (simp add: kahn_invD(3) [OF assms(1)])
  with assms(3) show ?thesis
    by (auto simp: filter_empty_conv)
qed

lemma kahn_inv_init: "kahn_inv nodes (kahn_init nodes)"
proof -
  have "indegree_of nodes i = 0 \<longleftrightarrow> (\<forall>p. (p, i) \<notin> set (edges nodes))" for i
    by (auto simp: indegree_of_def filter_empty_conv)
  then show ?thesis
    by (auto simp: kahn_inv_def kahn_init_def Let_def topological_def indegree_of_def)
qed

lemma kahn_inv_step:
  assumes inv: "kahn_inv nodes s" and q: "k_queue s = c # q"
  shows "kahn_inv nodes (kahn_step (children_of nodes) c s)"
proof -
  let ?es = "edges nodes" and ?xs = "sort (children_of nodes c)"
  define s0 where "s0 = s\<lparr>k_queue := q, k_order := k_order s @ [c]\<rparr>"
  define t where "t = foldl (relax c) s0 ?xs"
  have t: "kahn_step (children_of nodes) c s = t"
    by (simp add: kahn_step_def t_def s0_def q)
  have s0 [simp]: "k_queue s0 = q" "k_order s0 = k_order s @ [c]" "k_level s0 = k_level s"
      "k_indegree s0 = k_indegree s"
    by (simp_all add: s0_def)
  have dist: "distinct (k_order s @ c # q)" and sub: "set (k_order s @ c # q) \<subseteq> set (map nd_id nodes)"
    and deg: "\<And>i. k_indegree s i = int (length (filter (\<lambda>e. snd e = i \<and> fst e \<notin> set (k_order s)) ?es))"
    and zero: "\<And>i. i \<in> set (map nd_id nodes) \<Longrightarrow> i \<in> set (k_order s @ c # q) \<longleftrightarrow> k_indegree s i = 0"
    and top: "topological ?es (k_order s)"
    and lev: "\<And>i. lev s i = Max (insert 0 ((\<lambda>p. lev s p + 1) ` seen_parents nodes s i))"
    and some: "\<And>i. i \<in> set (k_order s @ c # q) \<Longrightarrow> k_level s i \<noteq> None"
    using kahn_invD [OF inv] unfolding q by blast+
  have cnt: "count (mset ?xs) i = length (filter (\<lambda>e. e = (c, i)) ?es)" for i
    by (simp add: count_children_of)
  have xs: "set ?xs = {i. (c, i) \<in> set ?es}"
    by (simp add: set_children_of)
  have cs: "c \<notin> set (k_order s)" and "k_indegree s c = 0"
    using dist zero [of c] sub by auto
  have done_notin: "i \<notin> set ?xs" if "i \<in> set (k_order s @ c # q)" for i
  proof -
    from that zero sub have "k_indegree s i = 0" by blast
    with kahn_inv_zero [OF inv] cs show ?thesis by (auto simp: set_children_of)
  qed
  then have cxs: "c \<notin> set ?xs" by simp
  have le: "int (count (mset ?xs) i) \<le> k_indegree s i" for i
    unfolding cnt deg using cs by (auto intro!: length_filter_conj_le)
  have pos: "0 < count (mset ?xs) i" if "i \<in> set ?xs" for i
    using that by (metis count_greater_zero_iff set_mset_mset)
  obtain ws where ws: "k_queue t = q @ ws" "distinct ws"
    "set ws = {i \<in> set ?xs. k_indegree s i = int (count (mset ?xs) i)}"
    using relax_loop_queue [of ?xs s0 c] le by (auto simp: t_def)
  have ord: "k_order t = k_order s @ [c]"
    by (simp add: t_def)
  have lt: "k_level t i = (if i \<in> set ?xs then Some (max (lev s i) (lev s c + 1)) else k_level s i)" for i
    using relax_loop_level [OF cxs] by (simp add: t_def)
  have wsd: "set ws \<inter> set (k_order s @ c # q) = {}"
    using done_notin ws(3) by blast
  have A: "distinct (k_order t @ k_queue t)"
    using dist ws(2) wsd by (auto simp: ord ws(1))
  have B: "set (k_order t @ k_queue t) \<subseteq> set (map nd_id nodes)"
  proof -
    have "set ws \<subseteq> set (map nd_id nodes)"
      using edge_child [of c _ nodes] unfolding ws(3) xs by blast
    moreover have "set (k_order t @ k_queue t) = set (k_order s @ c # q) \<union> set ws"
      by (auto simp: ord ws(1))
    ultimately show ?thesis using sub by blast
  qed
  have C: "k_indegree t i = int (length (filter (\<lambda>e. snd e = i \<and> fst e \<notin> set (k_order t)) ?es))" for i
  proof -
    have "length (filter (\<lambda>e. snd e = i \<and> fst e \<notin> set (k_order s)) ?es)
      = length (filter (\<lambda>e. (snd e = i \<and> fst e \<notin> set (k_order s)) \<and> e = (c, i)) ?es)
      + length (filter (\<lambda>e. (snd e = i \<and> fst e \<notin> set (k_order s)) \<and> e \<noteq> (c, i)) ?es)"
      by (rule length_filter_split)
    moreover have "(\<lambda>e. (snd e = i \<and> fst e \<notin> set (k_order s)) \<and> e = (c, i)) = (\<lambda>e. e = (c, i))"
      using cs by auto
    moreover have "(\<lambda>e. (snd e = i \<and> fst e \<notin> set (k_order s)) \<and> e \<noteq> (c, i))
        = (\<lambda>e. snd e = i \<and> fst e \<notin> set (k_order t))"
      by (auto simp: ord)
    ultimately show ?thesis
      using relax_loop_indegree [of c s0 ?xs i] by (simp add: t_def count_children_of deg)
  qed
  have D: "i \<in> set (k_order t @ k_queue t) \<longleftrightarrow> k_indegree t i = 0" if "i \<in> set (map nd_id nodes)" for i
  proof -
    have "k_indegree t i = k_indegree s i - int (count (mset ?xs) i)"
      using relax_loop_indegree [of c s0 ?xs i] by (simp add: t_def)
    moreover have "i \<in> set (k_order t @ k_queue t) \<longleftrightarrow> i \<in> set (k_order s @ c # q) \<or> i \<in> set ws"
      by (auto simp: ord ws(1))
    ultimately show ?thesis
      using zero [OF that] le [of i] pos [of i] done_notin [of i]
      by (cases "i \<in> set ?xs") (auto simp: ws(3) count_eq_zero_iff)
  qed
  have E: "topological ?es (k_order t)"
    unfolding ord using top kahn_inv_zero [OF inv \<open>k_indegree s c = 0\<close>] by (rule topological_snoc)
  have F: "lev t i = Max (insert 0 ((\<lambda>p. lev t p + 1) ` seen_parents nodes t i))" for i
  proof -
    have old: "lev t p = lev s p" if "p \<in> set (k_order t)" for p
      using done_notin [of p] that by (auto simp: lt ord)
    have img: "(\<lambda>p. lev t p + 1) ` seen_parents nodes t i
        = (\<lambda>p. lev s p + 1) ` (seen_parents nodes s i \<union> (if i \<in> set ?xs then {c} else {}))"
    proof (rule image_cong)
      show "seen_parents nodes t i = seen_parents nodes s i \<union> (if i \<in> set ?xs then {c} else {})"
        unfolding ord xs by auto
    qed (use old in \<open>auto simp: ord split: if_splits\<close>)
    have "Max (insert 0 ((\<lambda>p. lev t p + 1) ` seen_parents nodes t i))
        = (if i \<in> set ?xs then max (lev s i) (lev s c + 1) else lev s i)"
    proof (cases "i \<in> set ?xs")
      case True
      then have "(\<lambda>p. lev s p + 1) ` (seen_parents nodes s i \<union> (if i \<in> set ?xs then {c} else {}))
          = insert (lev s c + 1) ((\<lambda>p. lev s p + 1) ` seen_parents nodes s i)" by auto
      with True show ?thesis
        unfolding img lev [of i] by (simp add: Max_insert_0 max.commute del: Max_insert)
    next
      case False
      then show ?thesis unfolding img lev [of i] by simp
    qed
    then show ?thesis by (simp add: lt)
  qed
  have G: "k_level t i \<noteq> None" if "i \<in> set (k_order t @ k_queue t)" for i
    using that some [of i] ws(3) by (auto simp: lt ord ws(1))
  from A B C D E F G show ?thesis
    unfolding t kahn_inv_def by blast
qed

section \<open>What the graph check computes\<close>

lemma kahn_inv_length:
  assumes "kahn_inv nodes s"
  shows "length (k_order s @ k_queue s) \<le> length nodes"
proof -
  have "length (k_order s @ k_queue s) = card (set (k_order s @ k_queue s))"
    using kahn_invD(1) [OF assms] by (rule distinct_card [symmetric])
  also have "\<dots> \<le> card (set (map nd_id nodes))"
    using kahn_invD(2) [OF assms] by (intro card_mono) simp_all
  also have "\<dots> \<le> length nodes"
    using card_length [of "map nd_id nodes"] by simp
  finally show ?thesis .
qed

text \<open>One unit of fuel per node drains the queue.\<close>

lemma kahn_inv_loop:
  assumes "kahn_inv nodes s" "length nodes \<le> length (k_order s) + fuel"
  shows "kahn_inv nodes (kahn (children_of nodes) fuel s) \<and> k_queue (kahn (children_of nodes) fuel s) = []"
  using assms
proof (induction fuel arbitrary: s)
  case 0
  with kahn_inv_length [OF 0(1)] have "length (k_queue s) = 0"
    unfolding length_append by linarith
  with 0 show ?case by simp
next
  case (Suc fuel)
  show ?case
  proof (cases "k_queue s")
    case (Cons c q)
    with Suc.prems Suc.IH [OF kahn_inv_step [OF Suc.prems(1) Cons]] show ?thesis
      by (simp add: kahn_step_def)
  qed (use Suc.prems in simp)
qed

lemma kahn_run_inv: "kahn_inv nodes (kahn_run nodes)" "k_queue (kahn_run nodes) = []"
  using kahn_inv_loop [OF kahn_inv_init, of nodes "length nodes"]
  by (simp_all add: kahn_run_def)

lemma check_edges_ok_iff:
  "(\<exists>u. check_edges nodes = Inr u) \<longleftrightarrow>
     (\<forall>(p, n) \<in> set (edges nodes). p \<in> set (map nd_id nodes) \<and> p \<noteq> n)"
proof -
  have "(\<exists>u. mapE (\<lambda>(p, n). check_edge ids n p) es = Inr u) \<longleftrightarrow>
     (\<forall>(p, n) \<in> set es. p \<in> set ids \<and> p \<noteq> n)" for ids es
    by (induction es) (auto simp: bindE_Inr_iff check_edge_def split: if_splits)
  then show ?thesis unfolding check_edges_def .
qed

text \<open>A topological enumeration exists for acyclic relations only.\<close>

lemma topological_acyclic:
  assumes "topological es xs" "distinct xs" "\<And>p c. (p, c) \<in> set es \<Longrightarrow> c \<in> set xs"
  shows "acyclic (set es)"
proof -
  define idx where "idx c = length (takeWhile (\<lambda>x. x \<noteq> c) xs)" for c
  have idx: "idx (xs ! i) = i" if "i < length xs" for i
  proof -
    have "takeWhile (\<lambda>x. x \<noteq> xs ! i) xs = take i xs"
      using that \<open>distinct xs\<close> by (intro takeWhile_eq_take_P_nth) (auto simp: nth_eq_iff_index_eq)
    with that show ?thesis by (simp add: idx_def)
  qed
  have "set es \<subseteq> measure idx"
  proof
    fix e assume e: "e \<in> set es"
    obtain p c where pc: "e = (p, c)" by force
    with e assms(3) obtain i where i: "i < length xs" "c = xs ! i"
      by (metis in_set_conv_nth)
    with assms(1) e pc have "p \<in> set (take i xs)"
      by (auto simp: topological_def)
    then obtain j where "j < i" "p = xs ! j"
      using i by (auto simp: in_set_conv_nth)
    with i idx show "e \<in> measure idx" by (simp add: pc)
  qed
  then show ?thesis
    by (meson wf_acyclic wf_measure wf_subset)
qed

text \<open>When the queue is empty and a node is left, every node that is left waits for another one.\<close>

lemma kahn_complete:
  assumes "kahn_inv nodes s" "k_queue s = []" "acyclic (set (edges nodes))"
    and "\<forall>(p, n) \<in> set (edges nodes). p \<in> set (map nd_id nodes) \<and> p \<noteq> n"
  shows "set (map nd_id nodes) \<subseteq> set (k_order s)"
proof (rule ccontr)
  let ?R = "set (map nd_id nodes) - set (k_order s)"
  assume "\<not> ?thesis"
  then obtain i where "i \<in> ?R" by blast
  have "wf (set (edges nodes))"
    using assms(3) by (simp add: finite_acyclic_wf)
  with \<open>i \<in> ?R\<close> obtain z where z: "z \<in> ?R" "\<And>y. (y, z) \<in> set (edges nodes) \<Longrightarrow> y \<notin> ?R"
    by (metis wfE_min)
  from z(1) have "k_indegree s z \<noteq> 0"
    using kahn_invD(4) [OF assms(1), of z] by (auto simp: assms(2))
  then have "filter (\<lambda>e. snd e = z \<and> fst e \<notin> set (k_order s)) (edges nodes) \<noteq> []"
    by (simp add: kahn_invD(3) [OF assms(1)])
  then obtain e where "e \<in> set (edges nodes)" "snd e = z" "fst e \<notin> set (k_order s)"
    by (auto simp: filter_empty_conv)
  then have "(fst e, z) \<in> set (edges nodes)" "fst e \<notin> set (k_order s)"
    by auto
  with assms(4) z(2) show False by blast
qed

lemma graph_Inr_iff:
  "graph nodes = Inr (order, level) \<longleftrightarrow>
     (\<forall>(p, n) \<in> set (edges nodes). p \<in> set (map nd_id nodes) \<and> p \<noteq> n)
   \<and> length (edges nodes) \<le> MAX_EDGES
   \<and> length (k_order (kahn_run nodes)) = length nodes
   \<and> order = k_order (kahn_run nodes) \<and> level = k_level (kahn_run nodes)"
  unfolding check_edges_ok_iff [symmetric] graph_def
  by (auto simp: bindE_Inr_iff)

lemma graph_order:
  assumes "distinct (map nd_id nodes)" "graph nodes = Inr (order, level)"
  shows "distinct order" "set order = set (map nd_id nodes)" "topological (edges nodes) order"
proof -
  from assms(2) have o: "order = k_order (kahn_run nodes)" "length order = length nodes"
    by (simp_all add: graph_Inr_iff)
  show d: "distinct order" and "topological (edges nodes) order"
    using kahn_invD(1,5) [OF kahn_run_inv(1), of nodes] by (simp_all add: o(1))
  have "set order \<subseteq> set (map nd_id nodes)"
    using kahn_invD(2) [OF kahn_run_inv(1), of nodes] by (simp add: o(1))
  moreover have "card (set order) = card (set (map nd_id nodes))"
    using d assms(1) o(2) distinct_card [of "map nd_id nodes"] distinct_card [of order] by simp
  ultimately show "set order = set (map nd_id nodes)"
    by (simp add: card_subset_eq)
qed

lemma edges_iff: "distinct (map nd_id nodes) \<Longrightarrow> n \<in> set nodes \<Longrightarrow>
  (p, nd_id n) \<in> set (edges nodes) \<longleftrightarrow> p \<in> set (nd_depends_on n)"
  by (auto simp: edges_def distinct_map inj_on_def)

lemma graph_level:
  assumes "distinct (map nd_id nodes)" "graph nodes = Inr (order, level)" "n \<in> set nodes"
  shows "level (nd_id n) = Some (Max (insert 0 ((\<lambda>p. the (level p) + 1) ` set (nd_depends_on n))))"
proof -
  let ?s = "kahn_run nodes"
  note ord = graph_order(2) [OF assms(1,2)]
  from assms(2) have o: "order = k_order ?s" "level = k_level ?s"
    by (simp_all add: graph_Inr_iff)
  have lev: "lev ?s i = the (level i)" if "i \<in> set order" for i
    using kahn_invD(7) [OF kahn_run_inv(1), of i nodes] that unfolding o by auto
  have i: "nd_id n \<in> set order"
    using assms(3) by (simp add: ord)
  have sub: "set (nd_depends_on n) \<subseteq> set order"
    using assms(2) edges_iff [OF assms(1,3)] unfolding ord graph_Inr_iff by blast
  then have "seen_parents nodes ?s (nd_id n) = set (nd_depends_on n)"
    using edges_iff [OF assms(1,3)] unfolding o(1) by blast
  then have "lev ?s (nd_id n) = Max (insert 0 ((\<lambda>p. lev ?s p + 1) ` set (nd_depends_on n)))"
    using kahn_invD(6) [OF kahn_run_inv(1), of nodes "nd_id n"] by simp
  also have "(\<lambda>p. lev ?s p + 1) ` set (nd_depends_on n) = (\<lambda>p. the (level p) + 1) ` set (nd_depends_on n)"
    using sub lev by (intro image_cong) auto
  finally have "the (level (nd_id n)) = Max (insert 0 ((\<lambda>p. the (level p) + 1) ` set (nd_depends_on n)))"
    using lev [OF i] by simp
  moreover have "level (nd_id n) \<noteq> None"
    using kahn_invD(7) [OF kahn_run_inv(1), of "nd_id n" nodes] i unfolding o by simp
  ultimately show ?thesis by auto
qed

lemma graph_ok_iff:
  assumes "distinct (map nd_id nodes)"
  shows "(\<exists>r. graph nodes = Inr r) \<longleftrightarrow>
     (\<forall>(p, n) \<in> set (edges nodes). p \<in> set (map nd_id nodes) \<and> p \<noteq> n)
   \<and> length (edges nodes) \<le> MAX_EDGES \<and> acyclic (set (edges nodes))"
proof
  assume "\<exists>r. graph nodes = Inr r"
  then obtain order level where g: "graph nodes = Inr (order, level)" by force
  have "acyclic (set (edges nodes))"
    using graph_order [OF assms g] edge_child by (metis topological_acyclic)
  with g show "(\<forall>(p, n) \<in> set (edges nodes). p \<in> set (map nd_id nodes) \<and> p \<noteq> n)
   \<and> length (edges nodes) \<le> MAX_EDGES \<and> acyclic (set (edges nodes))"
    by (simp add: graph_Inr_iff)
next
  assume r: "(\<forall>(p, n) \<in> set (edges nodes). p \<in> set (map nd_id nodes) \<and> p \<noteq> n)
   \<and> length (edges nodes) \<le> MAX_EDGES \<and> acyclic (set (edges nodes))"
  let ?o = "k_order (kahn_run nodes)"
  from r have "set (map nd_id nodes) \<subseteq> set ?o"
    using kahn_complete [OF kahn_run_inv] by blast
  then have "card (set (map nd_id nodes)) \<le> card (set ?o)"
    by (simp add: card_mono)
  then have "length nodes \<le> length ?o"
    using assms card_length [of ?o] distinct_card [of "map nd_id nodes"] by simp
  with kahn_inv_length [OF kahn_run_inv(1), of nodes] have "length ?o = length nodes"
    by simp
  with r have "graph nodes = Inr (?o, k_level (kahn_run nodes))"
    by (simp add: graph_Inr_iff)
  then show "\<exists>r. graph nodes = Inr r" ..
qed

section \<open>Properties\<close>

text \<open>A diamond, used as a concrete instance.\<close>

definition plain_node :: "string \<Rightarrow> string list \<Rightarrow> wf_node" where
  "plain_node i ds = \<lparr>nd_id = i, nd_label = i, nd_kind = ''agent'', nd_action = ''research'',
     nd_depends_on = ds, nd_condition = None, nd_approval_required = False\<rparr>"

definition diamond :: "wf_node list" where
  "diamond = [plain_node ''d'' [''b'', ''c''], plain_node ''c'' [''a''], plain_node ''b'' [''a''],
     plain_node ''a'' []]"

definition triangle :: "wf_node list" where
  "triangle = [plain_node ''a'' [''c''], plain_node ''b'' [''a''], plain_node ''c'' [''b'']]"

lemma graph_diamond:
  "graph diamond = Inr ([''a'', ''b'', ''c'', ''d''], k_level (kahn_run diamond))"
proof -
  have "\<forall>(p, n) \<in> set (edges diamond). p \<in> set (map nd_id diamond) \<and> p \<noteq> n"
    "length (edges diamond) \<le> MAX_EDGES" "k_order (kahn_run diamond) = [''a'', ''b'', ''c'', ''d'']"
    "length diamond = 4"
    by code_simp+
  then show ?thesis by (simp add: graph_Inr_iff)
qed

text \<open>C22: when \<open>_graph\<close> accepts nodes with distinct ids, the order it returns lists every node
  exactly once, each after all its dependencies, and the level of a node is one more than the
  highest level of its dependencies (0 without any): the length of a longest dependency path.\<close>

theorem graph_topological:
  assumes "distinct (map nd_id nodes)" "graph nodes = Inr (order, level)"
  shows "mset order = mset (map nd_id nodes) \<and> topological (edges nodes) order
    \<and> (\<forall>n \<in> set nodes. level (nd_id n)
         = Some (Max (insert 0 ((\<lambda>p. the (level p) + 1) ` set (nd_depends_on n)))))"
proof -
  note o = graph_order [OF assms]
  have "mset order = mset (map nd_id nodes)"
    using o(1,2) assms(1) set_eq_iff_mset_eq_distinct by blast
  with o(3) graph_level [OF assms] show ?thesis by simp
qed

theorem graph_topological_witness:
  "mset [''a'', ''b'', ''c'', ''d''] = mset (map nd_id diamond)
   \<and> k_level (kahn_run diamond) ''d'' = Some 2"
proof -
  have "distinct (map nd_id diamond)" by code_simp
  from graph_topological [OF this graph_diamond] have "mset [''a'', ''b'', ''c'', ''d''] = mset (map nd_id diamond)"
    by simp
  moreover have "k_level (kahn_run diamond) ''d'' = Some 2" by code_simp
  ultimately show ?thesis ..
qed

text \<open>C23: \<open>_graph\<close> decides its specification. On nodes with distinct ids it succeeds exactly when
  every dependency names another node of the workflow, there are at most 64 edges and the
  dependency relation is acyclic; and the cycle error is raised exactly when only acyclicity fails.\<close>

theorem graph_decides:
  assumes "distinct (map nd_id nodes)"
  shows "((\<exists>r. graph nodes = Inr r) \<longleftrightarrow>
       (\<forall>(p, n) \<in> set (edges nodes). p \<in> set (map nd_id nodes) \<and> p \<noteq> n)
     \<and> length (edges nodes) \<le> MAX_EDGES \<and> acyclic (set (edges nodes)))
   \<and> (graph nodes = raise WorkflowDesignError ''workflow graph contains a cycle'' \<longleftrightarrow>
       (\<forall>(p, n) \<in> set (edges nodes). p \<in> set (map nd_id nodes) \<and> p \<noteq> n)
     \<and> length (edges nodes) \<le> MAX_EDGES \<and> \<not> acyclic (set (edges nodes)))"
proof -
  note ok = graph_ok_iff [OF assms]
  show ?thesis
  proof (intro conjI ok)
    let ?e = "\<forall>(p, n) \<in> set (edges nodes). p \<in> set (map nd_id nodes) \<and> p \<noteq> n"
    have mem: "check_edges nodes \<noteq> raise WorkflowDesignError ''workflow graph contains a cycle''"
      by (auto simp: check_edges_def dest!: mapE_Inl simp: check_edge_def split: if_splits)
    show "graph nodes = raise WorkflowDesignError ''workflow graph contains a cycle'' \<longleftrightarrow>
        ?e \<and> length (edges nodes) \<le> MAX_EDGES \<and> \<not> acyclic (set (edges nodes))"
      using ok check_edges_ok_iff [of nodes] mem
      by (cases "check_edges nodes") (auto simp: graph_def split: if_splits)
  qed
qed

theorem graph_decides_witness:
  "(\<exists>r. graph diamond = Inr r) \<and> acyclic (set (edges diamond))
   \<and> graph triangle = raise WorkflowDesignError ''workflow graph contains a cycle''
   \<and> \<not> acyclic (set (edges triangle))"
proof -
  have d: "distinct (map nd_id diamond)" "distinct (map nd_id triangle)" by code_simp+
  have "length (k_order (kahn_run triangle)) \<noteq> length triangle" "length (edges triangle) \<le> MAX_EDGES"
    "\<exists>u. check_edges triangle = Inr u"
    unfolding check_edges_ok_iff by code_simp+
  then have t: "graph triangle = raise WorkflowDesignError ''workflow graph contains a cycle''"
    by (auto simp: graph_def)
  from graph_decides [OF d(1)] graph_diamond have "\<exists>r. graph diamond = Inr r" "acyclic (set (edges diamond))"
    by blast+
  moreover from graph_decides [OF d(2)] t have "\<not> acyclic (set (edges triangle))"
    by blast
  ultimately show ?thesis using t by blast
qed

end
