(* ===== verification/Workflow_Design.thy ===== *)
theory Workflow_Design
  imports Workflow_Graph
begin

text \<open>
  Model of \<open>src/three_agent/workflow_design.py\<close>: validation of untrusted workflow contracts, the
  dependency graph with its topological order and levels, the parallel vocabulary of version 4,
  and the Mermaid rendering. The raw contract is an arbitrary JSON value. The SVG renderer and the
  model-driven compilers (one call of a local language model each) are not modelled.
\<close>

section \<open>Vocabulary\<close>

definition MAX_DESCRIPTION_CHARS :: nat where "MAX_DESCRIPTION_CHARS = 8000"

text \<open>\<open>^[a-z][a-z0-9_]{0,31}$\<close>\<close>

definition NODE_ID_RE :: "string \<Rightarrow> bool" where
  "NODE_ID_RE s = ident_match is_lower (\<lambda>c. is_lower c \<or> is_digit c \<or> c = CHR ''_'') 0 31 s"

definition NODE_KINDS :: "string list" where
  "NODE_KINDS = [''input'', ''agent'', ''decision'', ''validation'', ''approval'', ''manual'', ''output'']"

definition ACTIONS :: "string list" where
  "ACTIONS = [''input'', ''research'', ''presentation'', ''daily_report'',
     ''validate'', ''human_approval'', ''manual_step'', ''output'']"

definition WF_RISK_LEVELS :: "string list" where
  "WF_RISK_LEVELS = [''low'', ''medium'', ''high'', ''critical'']"

definition DATA_CLASSES :: "string list" where
  "DATA_CLASSES = [''public'', ''internal'', ''confidential'', ''restricted'']"

definition TRIGGERS :: "string list" where
  "TRIGGERS = [''manual'', ''schedule'', ''event'']"

text \<open>A validated contract, the dict \<open>validate_contract\<close> returns.\<close>

record wf_contract =
  wf_title :: string
  wf_objective :: string
  wf_trigger :: string
  wf_risk_level :: string
  wf_data_class :: string
  wf_nodes :: "wf_node list"
  wf_outputs :: "string list"
  wf_warnings :: "string list"

definition text_field :: "json \<Rightarrow> string \<Rightarrow> nat \<Rightarrow> bool \<Rightarrow> string result" where
  "text_field value field limit allow_empty =
     (let text = collapse (str_or_empty value) in
      if text = [] \<and> \<not> allow_empty then raise WorkflowDesignError (field @ '' is required'')
      else if limit < length text
        then raise WorkflowDesignError (field @ '' exceeds '' @ show_nat limit @ '' characters'')
      else Inr text)"

section \<open>Validation of a contract\<close>

definition norm_word :: "json \<Rightarrow> string" where
  "norm_word v = lower (strip (str_or_empty v))"

text \<open>One dependency of a node; duplicates are dropped, the first occurrence kept.\<close>

definition depend_id :: "json \<Rightarrow> string result" where
  "depend_id raw = (let parent = norm_word raw in
     if NODE_ID_RE parent then Inr parent
     else raise WorkflowDesignError (''invalid dependency id: '' @ parent))"

definition condition_field :: "string \<Rightarrow> json \<Rightarrow> string option result" where
  "condition_field node_id raw =
     (case (if raw = JNull then JStr [] else raw) of
        JStr s \<Rightarrow> bindE (text_field (JStr s) (node_id @ ''.condition'') 240 True)
                   (\<lambda>t. Inr (if t = [] then None else Some t))
      | _ \<Rightarrow> raise WorkflowDesignError (node_id @ ''.condition must be a string or null''))"

definition validate_node :: "string list \<Rightarrow> (string \<times> json) list \<Rightarrow> wf_node result" where
  "validate_node seen item =
     (let node_id = norm_word (dict_get item ''id'' JNull) in
      if \<not> NODE_ID_RE node_id
        then raise WorkflowDesignError (''invalid node id: '' @ (if node_id = [] then ''<empty>'' else node_id))
      else if node_id \<in> set seen then raise WorkflowDesignError (''duplicate node id: '' @ node_id)
      else
     (let kind = norm_word (dict_get item ''kind'' JNull); action = norm_word (dict_get item ''action'' JNull) in
      if kind \<notin> set NODE_KINDS then raise WorkflowDesignError (''unsupported node kind: '' @ kind)
      else if action \<notin> set ACTIONS then raise WorkflowDesignError (''unsupported workflow action: '' @ action)
      else (case dict_get item ''depends_on'' (JList []) of
        JList raw_depends \<Rightarrow>
          (if MAX_NODES < length raw_depends
             then raise WorkflowDesignError (''invalid dependencies for node '' @ node_id)
           else
           bindE (mapE depend_id raw_depends) (\<lambda>depends.
           bindE (condition_field node_id (dict_get item ''condition'' (JStr []))) (\<lambda>condition.
           (case dict_get item ''approval_required'' (JBool False) of
              JBool approval \<Rightarrow>
                bindE (text_field (dict_get item ''label'' JNull) (node_id @ ''.label'') 120 False) (\<lambda>label.
                Inr \<lparr>nd_id = node_id, nd_label = label, nd_kind = kind, nd_action = action,
                     nd_depends_on = fromkeys depends, nd_condition = condition,
                     nd_approval_required = approval\<rparr>)
            | _ \<Rightarrow> raise WorkflowDesignError (node_id @ ''.approval_required must be a boolean'')))))
      | _ \<Rightarrow> raise WorkflowDesignError (''invalid dependencies for node '' @ node_id))))"

definition node_step :: "nat \<times> wf_node list \<Rightarrow> json \<Rightarrow> (nat \<times> wf_node list) result" where
  "node_step acc item = (case item of
     JObj o' \<Rightarrow> bindE (validate_node (map nd_id (snd acc)) o') (\<lambda>n. Inr (Suc (fst acc), snd acc @ [n]))
   | _ \<Rightarrow> raise WorkflowDesignError (''node '' @ show_nat (fst acc) @ '' must be an object''))"

definition validate_nodes :: "json list \<Rightarrow> wf_node list result" where
  "validate_nodes raw_nodes = bindE (foldE node_step (0, []) raw_nodes) (\<lambda>acc. Inr (snd acc))"

definition bounded_list :: "string \<Rightarrow> json \<Rightarrow> json list result" where
  "bounded_list what v = (case v of
     JList xs \<Rightarrow> if 12 < length xs then raise WorkflowDesignError (what @ '' must be a bounded list'') else Inr xs
   | _ \<Rightarrow> raise WorkflowDesignError (what @ '' must be a bounded list''))"

definition W_NO_OUTPUT :: string where
  "W_NO_OUTPUT = ''No explicit output node was supplied.''"
definition W_TRIGGER :: string where
  "W_TRIGGER = ''Trigger is represented for design only; V1 does not authorize scheduling or event execution.''"
definition W_MANUAL :: string where
  "W_MANUAL = ''Manual steps are visualized but cannot be converted into executable authority.''"
definition W_HIGH_RISK :: string where
  "W_HIGH_RISK = ''High-risk workflow has no approval checkpoint; review before any future execution.''"

definition extra_warnings :: "string \<Rightarrow> string \<Rightarrow> wf_node list \<Rightarrow> string list" where
  "extra_warnings trigger risk nodes =
     (if list_ex (\<lambda>n. nd_kind n = ''output'') nodes then [] else [W_NO_OUTPUT])
     @ (if trigger \<noteq> ''manual'' then [W_TRIGGER] else [])
     @ (if list_ex (\<lambda>n. nd_action n = ''manual_step'') nodes then [W_MANUAL] else [])
     @ (if risk \<in> {''high'', ''critical''}
          \<and> \<not> list_ex (\<lambda>n. nd_kind n = ''approval'' \<or> nd_approval_required n) nodes then [W_HIGH_RISK] else [])"

definition validate_contract :: "json \<Rightarrow> wf_contract result" where
  "validate_contract raw0 = (case raw0 of JObj raw \<Rightarrow>
     (let trigger = norm_word (dict_get raw ''trigger'' JNull);
          risk = norm_word (dict_get raw ''risk_level'' JNull);
          data_class = norm_word (dict_get raw ''data_class'' JNull) in
      if trigger \<notin> set TRIGGERS then raise WorkflowDesignError ''unsupported trigger''
      else if risk \<notin> set WF_RISK_LEVELS then raise WorkflowDesignError ''unsupported risk_level''
      else if data_class \<notin> set DATA_CLASSES then raise WorkflowDesignError ''unsupported data_class''
      else (case dict_get raw ''nodes'' JNull of
        JList raw_nodes \<Rightarrow>
          (if length raw_nodes < 2 \<or> MAX_NODES < length raw_nodes
             then raise WorkflowDesignError (''workflow must contain between 2 and '' @ show_nat MAX_NODES @ '' nodes'')
           else
           bindE (validate_nodes raw_nodes) (\<lambda>nodes.
           bindE (graph nodes) (\<lambda>_.
           bindE (bounded_list ''outputs'' (dict_get raw ''outputs'' (JList []))) (\<lambda>raw_outputs.
           bindE (bounded_list ''warnings'' (dict_get raw ''warnings'' (JList []))) (\<lambda>raw_warnings.
           bindE (mapE (\<lambda>v. text_field v ''warning'' 240 False) raw_warnings) (\<lambda>ws.
           bindE (text_field (dict_get raw ''title'' JNull) ''title'' 120 False) (\<lambda>title.
           bindE (text_field (dict_get raw ''objective'' JNull) ''objective'' 800 False) (\<lambda>objective.
           bindE (mapE (\<lambda>v. text_field v ''output'' 160 False) raw_outputs) (\<lambda>outputs.
           Inr \<lparr>wf_title = title, wf_objective = objective, wf_trigger = trigger,
                wf_risk_level = risk, wf_data_class = data_class, wf_nodes = nodes,
                wf_outputs = outputs,
                wf_warnings = fromkeys (ws @ extra_warnings trigger risk nodes)\<rparr>)))))))))
      | _ \<Rightarrow> raise WorkflowDesignError (''workflow must contain between 2 and '' @ show_nat MAX_NODES @ '' nodes'')))
   | _ \<Rightarrow> raise WorkflowDesignError ''workflow contract must be an object'')"

section \<open>Version 4: the parallel vocabulary\<close>

definition PARALLEL_ACTIONS :: "string list" where
  "PARALLEL_ACTIONS = [''parallel_fork'', ''parallel_join'']"

record v4_acc =
  v4_index :: nat
  v4_nodes :: "json list"
  v4_pairs :: "string \<rightharpoonup> string \<times> string"

text \<open>The loop that replaces parallel control nodes by surrogates and remembers them.\<close>

definition v4_node_step :: "v4_acc \<Rightarrow> json \<Rightarrow> v4_acc result" where
  "v4_node_step acc item = (case item of
     JObj node \<Rightarrow>
       (let node_id = norm_word (dict_get node ''id'' JNull);
            kind = norm_word (dict_get node ''kind'' JNull);
            action = norm_word (dict_get node ''action'' JNull);
            parallel = action \<in> set PARALLEL_ACTIONS in
        if kind = ''parallel'' \<or> parallel then
          (if kind \<noteq> ''parallel'' \<or> \<not> parallel
             then raise WorkflowDesignError
               ''parallel nodes must use kind=parallel with action=parallel_fork or parallel_join''
           else if truthy (dict_get node ''approval_required'' (JBool False))
             then raise WorkflowDesignError ''parallel control nodes cannot require approval''
           else Inr \<lparr>v4_index = Suc (v4_index acc),
             v4_nodes = v4_nodes acc
               @ [JObj (AList.update ''action'' (JStr ''validate'')
                    (AList.update ''kind'' (JStr ''validation'') node))],
             v4_pairs = (v4_pairs acc)(node_id \<mapsto> (kind, action))\<rparr>)
        else Inr (acc\<lparr>v4_index := Suc (v4_index acc), v4_nodes := v4_nodes acc @ [item]\<rparr>))
   | _ \<Rightarrow> raise WorkflowDesignError (''node '' @ show_nat (v4_index acc) @ '' must be an object''))"

definition restore_pair :: "(string \<rightharpoonup> string \<times> string) \<Rightarrow> wf_node \<Rightarrow> wf_node" where
  "restore_pair pairs n = (case pairs (nd_id n) of None \<Rightarrow> n
     | Some (kind, action) \<Rightarrow> n\<lparr>nd_kind := kind, nd_action := action\<rparr>)"

definition validate_contract_v4 :: "json \<Rightarrow> wf_contract result" where
  "validate_contract_v4 raw0 = (case raw0 of JObj raw \<Rightarrow>
     (case dict_get raw ''nodes'' JNull of JList raw_nodes \<Rightarrow>
        bindE (foldE v4_node_step \<lparr>v4_index = 0, v4_nodes = [], v4_pairs = Map.empty\<rparr> raw_nodes) (\<lambda>acc.
        bindE (validate_contract (JObj (AList.update ''nodes'' (JList (v4_nodes acc)) raw))) (\<lambda>validated.
        Inr (validated\<lparr>wf_nodes := map (restore_pair (v4_pairs acc)) (wf_nodes validated)\<rparr>)))
      | _ \<Rightarrow> raise WorkflowDesignError ''workflow nodes must be a list'')
   | _ \<Rightarrow> raise WorkflowDesignError ''workflow contract must be an object'')"

section \<open>Mermaid rendering\<close>

abbreviation DQ :: char where "DQ \<equiv> CHR 0x22"

definition mermaid_char :: "char \<Rightarrow> char" where
  "mermaid_char c = (
     if c = CHR 0x5C then CHR ''/'' else if c = DQ then CHR 0x27
     else if c = CHR ''['' then CHR ''('' else if c = CHR '']'' then CHR '')''
     else if c = CHR ''{'' then CHR ''('' else if c = CHR ''}'' then CHR '')''
     else if c = CHR ''|'' then CHR ''/'' else if c = CHR ''<'' then CHR ''(''
     else if c = CHR ''>'' then CHR '')'' else if c = CHR '';'' then CHR '','' else c)"

definition mermaid_label :: "json \<Rightarrow> string" where
  "mermaid_label v = map mermaid_char (take 120 (join '' '' (split_ws (str_or_empty v))))"

definition quoted :: "string \<Rightarrow> string" where
  "quoted s = DQ # s @ [DQ]"

definition mermaid_node :: "wf_node \<Rightarrow> string" where
  "mermaid_node n = (let label = quoted (mermaid_label (JStr (nd_label n))); kind = nd_kind n in
     ''  '' @ nd_id n @
     (if kind = ''decision'' then ''{'' @ label @ ''}''
      else if kind = ''approval'' then ''{{'' @ label @ ''}}''
      else if kind = ''input'' \<or> kind = ''output'' then ''(['' @ label @ ''])''
      else ''['' @ label @ '']''))"

definition mermaid_node_v4 :: "wf_node \<Rightarrow> string" where
  "mermaid_node_v4 n = (let label = quoted (mermaid_label (JStr (nd_label n))); kind = nd_kind n in
     ''  '' @ nd_id n @
     (if kind = ''decision'' then ''{'' @ label @ ''}''
      else if kind = ''approval'' then ''{{'' @ label @ ''}}''
      else if kind = ''parallel'' then ''[['' @ label @ '']]''
      else if kind = ''input'' \<or> kind = ''output'' then ''(['' @ label @ ''])''
      else ''['' @ label @ '']''))"

definition condition_json :: "wf_node \<Rightarrow> json" where
  "condition_json n = (case nd_condition n of None \<Rightarrow> JNull | Some c \<Rightarrow> JStr c)"

definition mermaid_edge :: "wf_node \<Rightarrow> string \<Rightarrow> string" where
  "mermaid_edge n parent = (let condition = mermaid_label (condition_json n) in
     if condition \<noteq> [] then ''  '' @ parent @ '' -->|'' @ quoted condition @ ''| '' @ nd_id n
     else ''  '' @ parent @ '' --> '' @ nd_id n)"

definition mermaid_lines :: "(wf_node \<Rightarrow> string) \<Rightarrow> wf_node list \<Rightarrow> string list" where
  "mermaid_lines shape nodes = [''flowchart TD''] @ map shape nodes
     @ concat (map (\<lambda>n. map (mermaid_edge n) (nd_depends_on n)) nodes)"

definition render_mermaid :: "json \<Rightarrow> string result" where
  "render_mermaid raw = bindE (validate_contract raw) (\<lambda>c.
     Inr (join [CHR 0x0A] (mermaid_lines mermaid_node (wf_nodes c))))"

definition render_mermaid_v4 :: "json \<Rightarrow> string result" where
  "render_mermaid_v4 raw = bindE (validate_contract_v4 raw) (\<lambda>c.
     Inr (join [CHR 0x0A] (mermaid_lines mermaid_node_v4 (wf_nodes c))))"

section \<open>The validated contract as JSON\<close>

text \<open>The validated contract as the JSON object that is fingerprinted and stored.\<close>

definition node_json :: "wf_node \<Rightarrow> json" where
  "node_json n = JObj [(''id'', JStr (nd_id n)), (''label'', JStr (nd_label n)), (''kind'', JStr (nd_kind n)),
     (''action'', JStr (nd_action n)), (''depends_on'', JList (map JStr (nd_depends_on n))),
     (''condition'', condition_json n),
     (''approval_required'', JBool (nd_approval_required n))]"

definition contract_json :: "wf_contract \<Rightarrow> json" where
  "contract_json c = JObj [(''title'', JStr (wf_title c)), (''objective'', JStr (wf_objective c)),
     (''trigger'', JStr (wf_trigger c)), (''risk_level'', JStr (wf_risk_level c)),
     (''data_class'', JStr (wf_data_class c)), (''nodes'', JList (map node_json (wf_nodes c))),
     (''outputs'', JList (map JStr (wf_outputs c))), (''warnings'', JList (map JStr (wf_warnings c)))]"

section \<open>What validation guarantees\<close>

definition canon :: "nat \<Rightarrow> string \<Rightarrow> bool" where
  "canon limit s \<longleftrightarrow> s \<noteq> [] \<and> collapse s = s \<and> length s \<le> limit"

definition node_ok :: "wf_node \<Rightarrow> bool" where
  "node_ok n \<longleftrightarrow> NODE_ID_RE (nd_id n) \<and> canon 120 (nd_label n)
     \<and> nd_kind n \<in> set NODE_KINDS \<and> nd_action n \<in> set ACTIONS
     \<and> list_all NODE_ID_RE (nd_depends_on n) \<and> distinct (nd_depends_on n)
     \<and> length (nd_depends_on n) \<le> MAX_NODES
     \<and> (\<forall>c. nd_condition n = Some c \<longrightarrow> canon 240 c)"

text \<open>A bounded, acyclic graph over the fixed vocabularies.\<close>

definition graph_ok :: "wf_node list \<Rightarrow> bool" where
  "graph_ok nodes \<longleftrightarrow> distinct (map nd_id nodes)
     \<and> (\<forall>(p, n) \<in> set (edges nodes). p \<in> set (map nd_id nodes) \<and> p \<noteq> n)
     \<and> length (edges nodes) \<le> MAX_EDGES \<and> acyclic (set (edges nodes))"

definition contract_ok :: "wf_contract \<Rightarrow> bool" where
  "contract_ok c \<longleftrightarrow> canon 120 (wf_title c) \<and> canon 800 (wf_objective c)
     \<and> wf_trigger c \<in> set TRIGGERS \<and> wf_risk_level c \<in> set WF_RISK_LEVELS
     \<and> wf_data_class c \<in> set DATA_CLASSES
     \<and> 2 \<le> length (wf_nodes c) \<and> length (wf_nodes c) \<le> MAX_NODES
     \<and> list_all node_ok (wf_nodes c) \<and> graph_ok (wf_nodes c)
     \<and> length (wf_outputs c) \<le> 12 \<and> list_all (canon 160) (wf_outputs c)
     \<and> length (wf_warnings c) \<le> 16 \<and> distinct (wf_warnings c) \<and> list_all (canon 240) (wf_warnings c)
     \<and> set (extra_warnings (wf_trigger c) (wf_risk_level c) (wf_nodes c)) \<subseteq> set (wf_warnings c)"

lemma text_fieldD: "text_field v f l ae = Inr t \<Longrightarrow> collapse t = t \<and> length t \<le> l \<and> (ae \<or> t \<noteq> [])"
  by (auto simp: text_field_def Let_def split: if_splits)

lemma text_field_canon: "text_field v f l False = Inr t \<Longrightarrow> canon l t"
  using text_fieldD [of v f l False t] by (auto simp: canon_def)

lemma text_field_again [simp]: "canon l t \<Longrightarrow> text_field (JStr t) f l ae = Inr t"
  by (simp add: canon_def text_field_def Let_def)

lemma NODE_ID_RE_chars: "NODE_ID_RE s \<Longrightarrow> \<forall>c \<in> set s. is_lower c \<or> is_digit c \<or> c = CHR ''_''"
  by (auto simp: NODE_ID_RE_def ident_match_def list_all_iff split: list.splits)

lemma norm_word_id [simp]: "NODE_ID_RE s \<Longrightarrow> norm_word (JStr s) = s"
  by (simp add: norm_word_def lower_strip_id [OF NODE_ID_RE_chars])

lemma vocab_norm [simp]:
  "w \<in> set (NODE_KINDS @ ACTIONS @ TRIGGERS @ WF_RISK_LEVELS @ DATA_CLASSES) \<Longrightarrow> norm_word (JStr w) = w"
proof -
  have "\<forall>w \<in> set (NODE_KINDS @ ACTIONS @ TRIGGERS @ WF_RISK_LEVELS @ DATA_CLASSES). norm_word (JStr w) = w"
    by code_simp
  then show "w \<in> set (NODE_KINDS @ ACTIONS @ TRIGGERS @ WF_RISK_LEVELS @ DATA_CLASSES)
    \<Longrightarrow> norm_word (JStr w) = w" by blast
qed

lemma condition_field_canon: "condition_field i r = Inr (Some c) \<Longrightarrow> canon 240 c"
  by (auto simp: condition_field_def canon_def dest!: text_fieldD split: json.splits if_splits)

lemma condition_field_again:
  "(\<forall>c. nd_condition n = Some c \<longrightarrow> canon 240 c) \<Longrightarrow> condition_field i (condition_json n) = Inr (nd_condition n)"
  by (cases "nd_condition n")
    (auto simp: condition_field_def condition_json_def canon_def text_field_def Let_def collapse_def
      strip_def split_ws_def)

lemma depend_id_ok: "depend_id r = Inr p \<Longrightarrow> NODE_ID_RE p"
  by (auto simp: depend_id_def Let_def split: if_splits)

lemma validate_nodeD:
  assumes "validate_node seen item = Inr n"
  shows "nd_id n = norm_word (dict_get item ''id'' JNull)" "nd_id n \<notin> set seen"
    "nd_kind n = norm_word (dict_get item ''kind'' JNull)"
    "nd_action n = norm_word (dict_get item ''action'' JNull)"
    "dict_get item ''approval_required'' (JBool False) = JBool (nd_approval_required n)" "node_ok n"
proof -
  show "nd_id n = norm_word (dict_get item ''id'' JNull)" "nd_id n \<notin> set seen"
    "nd_kind n = norm_word (dict_get item ''kind'' JNull)"
    "nd_action n = norm_word (dict_get item ''action'' JNull)"
    "dict_get item ''approval_required'' (JBool False) = JBool (nd_approval_required n)"
    using assms by (auto simp: validate_node_def Let_def split: if_splits json.splits)
  from assms obtain raw depends f1 f2 v1 v2 where d: "nd_depends_on n = fromkeys depends"
      "mapE depend_id raw = Inr depends" "length raw \<le> MAX_NODES"
    and l: "text_field v1 f1 120 False = Inr (nd_label n)"
    and c: "condition_field f2 v2 = Inr (nd_condition n)"
    by (auto simp: validate_node_def Let_def split: if_splits json.splits)
  from l have "canon 120 (nd_label n)" by (rule text_field_canon)
  moreover from c have "\<forall>c. nd_condition n = Some c \<longrightarrow> canon 240 c"
    using condition_field_canon by metis
  moreover
  have "list_all NODE_ID_RE depends"
    using mapE_set [OF d(2)] depend_id_ok by (fastforce simp: list_all_iff)
  moreover have "length (fromkeys depends) \<le> MAX_NODES"
    using d mapE_length length_fromkeys by (metis le_trans)
  ultimately show "node_ok n"
    using assms unfolding node_ok_def d(1)
    by (auto simp: validate_node_def Let_def list_all_iff split: if_splits json.splits)
qed

definition node_fields :: "wf_node \<Rightarrow> (string \<times> json) list" where
  "node_fields n = (case node_json n of JObj f \<Rightarrow> f | _ \<Rightarrow> [])"

lemma node_fields_simps:
  "node_json n = JObj (node_fields n)"
  "dict_get (node_fields n) ''id'' x = JStr (nd_id n)"
  "dict_get (node_fields n) ''label'' x = JStr (nd_label n)"
  "dict_get (node_fields n) ''kind'' x = JStr (nd_kind n)"
  "dict_get (node_fields n) ''action'' x = JStr (nd_action n)"
  "dict_get (node_fields n) ''depends_on'' x = JList (map JStr (nd_depends_on n))"
  "dict_get (node_fields n) ''condition'' x = condition_json n"
  "dict_get (node_fields n) ''approval_required'' x = JBool (nd_approval_required n)"
  by (simp_all add: node_fields_def node_json_def dict_get_def)

lemma validate_node_again:
  assumes ok: "node_ok n" and "nd_id n \<notin> set seen"
  shows "validate_node seen (node_fields n) = Inr n"
proof -
  have "mapE depend_id (map JStr (nd_depends_on n)) = Inr (nd_depends_on n)"
    using ok by (intro mapE_Inr_iff [THEN iffD2])
      (auto simp: list_all2_conv_all_nth list_all_length depend_id_def node_ok_def)
  then show ?thesis
    using assms by (simp add: validate_node_def node_fields_simps node_ok_def condition_field_again)
qed

lemma node_step_Inr_iff: "node_step acc r = Inr acc' \<longleftrightarrow>
  (\<exists>f n. r = JObj f \<and> validate_node (map nd_id (snd acc)) f = Inr n \<and> acc' = (Suc (fst acc), snd acc @ [n]))"
  by (auto simp: node_step_def split: json.splits)

text \<open>The node loop: every accepted node comes from its own entry, under a fresh id.\<close>

lemma node_fold:
  assumes "foldE node_step (k, ms) raw = Inr acc" "distinct (map nd_id ms)"
  shows "\<exists>nodes. snd acc = ms @ nodes \<and> distinct (map nd_id (ms @ nodes))
    \<and> list_all2 (\<lambda>r n. \<exists>seen f. r = JObj f \<and> validate_node seen f = Inr n) raw nodes"
  using assms
proof (induction raw arbitrary: k ms)
  case (Cons r raw)
  from Cons.prems(1) obtain f n where r: "r = JObj f" "validate_node (map nd_id ms) f = Inr n"
      "foldE node_step (Suc k, ms @ [n]) raw = Inr acc"
    by (auto simp: node_step_Inr_iff)
  have "distinct (map nd_id (ms @ [n]))"
    using Cons.prems(2) validate_nodeD(2) [OF r(2)] by simp
  from Cons.IH [OF r(3) this] obtain nodes where
    "snd acc = (ms @ [n]) @ nodes" "distinct (map nd_id ((ms @ [n]) @ nodes))"
    "list_all2 (\<lambda>r n. \<exists>seen f. r = JObj f \<and> validate_node seen f = Inr n) raw nodes" by blast
  with r show ?case
    by (intro exI [of _ "n # nodes"]) auto
qed auto

lemma validate_nodes_ok:
  assumes "validate_nodes raw = Inr nodes"
  shows "distinct (map nd_id nodes)" "length nodes = length raw" "list_all node_ok nodes"
    "list_all2 (\<lambda>r n. \<exists>seen f. r = JObj f \<and> validate_node seen f = Inr n) raw nodes"
proof -
  from assms node_fold [of 0 "[]" raw] show "distinct (map nd_id nodes)" and
    r: "list_all2 (\<lambda>r n. \<exists>seen f. r = JObj f \<and> validate_node seen f = Inr n) raw nodes"
    by (auto simp: validate_nodes_def)
  from r show "length nodes = length raw"
    by (simp add: list_all2_lengthD)
  from r show "list_all node_ok nodes"
    using validate_nodeD(6) by (fastforce simp: list_all2_conv_all_nth list_all_length)
qed

lemma validate_nodes_again:
  assumes "list_all node_ok nodes" "distinct (map nd_id nodes)"
  shows "validate_nodes (map node_json nodes) = Inr nodes"
proof -
  have "foldE node_step (k, ms) (map node_json ns) = Inr (k + length ns, ms @ ns)"
    if "list_all node_ok ns" "distinct (map nd_id (ms @ ns))" for k ms ns
    using that
  proof (induction ns arbitrary: k ms)
    case (Cons n ns)
    then have "validate_node (map nd_id ms) (node_fields n) = Inr n"
      by (intro validate_node_again) auto
    with Cons.IH [of "ms @ [n]" "Suc k"] Cons.prems show ?case
      by (simp add: node_step_def node_fields_simps)
  qed simp
  from this [of nodes "[]" 0] assms show ?thesis
    by (simp add: validate_nodes_def)
qed

lemma graph_ok_graph: "distinct (map nd_id nodes) \<Longrightarrow> (\<exists>r. graph nodes = Inr r) \<longleftrightarrow> graph_ok nodes"
  unfolding graph_ok_iff graph_ok_def by simp

lemma length_extra_warnings: "length (extra_warnings t r ns) \<le> 4"
  by (simp add: extra_warnings_def)

lemma extra_warnings_canon: "w \<in> set (extra_warnings t r ns) \<Longrightarrow> canon 240 w"
proof -
  have "\<forall>w \<in> set [W_NO_OUTPUT, W_TRIGGER, W_MANUAL, W_HIGH_RISK]. canon 240 w"
    by code_simp
  then show "w \<in> set (extra_warnings t r ns) \<Longrightarrow> canon 240 w"
    by (auto simp: extra_warnings_def split: if_splits)
qed

lemma bounded_list_iff: "bounded_list w v = Inr xs \<longleftrightarrow> v = JList xs \<and> length xs \<le> 12"
  by (auto simp: bounded_list_def split: json.splits if_splits)

lemma mapE_text_canon:
  assumes "mapE (\<lambda>v. text_field v f l False) xs = Inr ys"
  shows "list_all (canon l) ys" "length ys = length xs"
  using mapE_set [OF assms] mapE_length [OF assms] text_field_canon
  by (fastforce simp: list_all_iff)+

lemma mapE_text_again:
  "list_all (canon l) ys \<Longrightarrow> mapE (\<lambda>v. text_field v f l False) (map JStr ys) = Inr ys"
  by (auto simp: mapE_Inr_iff list_all2_conv_all_nth list_all_length)

text \<open>Every contract that validation accepts is well formed.\<close>

lemma validate_contract_ok:
  assumes "validate_contract raw = Inr c"
  shows "contract_ok c"
proof -
  from assms obtain d raw_nodes raw_outputs raw_warnings ws g where
    c: "wf_trigger c \<in> set TRIGGERS" "wf_risk_level c \<in> set WF_RISK_LEVELS" "wf_data_class c \<in> set DATA_CLASSES"
    and n: "2 \<le> length raw_nodes" "length raw_nodes \<le> MAX_NODES" "validate_nodes raw_nodes = Inr (wf_nodes c)"
      "graph (wf_nodes c) = Inr g"
    and o: "length raw_outputs \<le> 12" "mapE (\<lambda>v. text_field v ''output'' 160 False) raw_outputs = Inr (wf_outputs c)"
    and w: "length raw_warnings \<le> 12" "mapE (\<lambda>v. text_field v ''warning'' 240 False) raw_warnings = Inr ws"
      "wf_warnings c = fromkeys (ws @ extra_warnings (wf_trigger c) (wf_risk_level c) (wf_nodes c))"
    and t: "text_field (dict_get d ''title'' JNull) ''title'' 120 False = Inr (wf_title c)"
      "text_field (dict_get d ''objective'' JNull) ''objective'' 800 False = Inr (wf_objective c)"
    by (auto simp: validate_contract_def Let_def bounded_list_iff not_less split: json.splits if_splits)
  note vn = validate_nodes_ok [OF n(3)]
  note mo = mapE_text_canon [OF o(2)] and mw = mapE_text_canon [OF w(2)]
  have "length (wf_warnings c) \<le> length (ws @ extra_warnings (wf_trigger c) (wf_risk_level c) (wf_nodes c))"
    unfolding w(3) by (rule length_fromkeys)
  then have "length (wf_warnings c) \<le> 16"
    using mw(2) w(1) length_extra_warnings [of "wf_trigger c" "wf_risk_level c" "wf_nodes c"] by simp
  moreover have "list_all (canon 240) (wf_warnings c)"
    using mw(1) extra_warnings_canon by (auto simp: w(3) list_all_iff)
  moreover have "graph_ok (wf_nodes c)"
    using graph_ok_graph [OF vn(1)] n(4) by blast
  ultimately show ?thesis
    using c n(1,2) vn mo o(1) text_field_canon [OF t(1)] text_field_canon [OF t(2)]
    by (simp add: contract_ok_def w(3))
qed

text \<open>Validating the validated contract again changes nothing, as long as the warnings added by
  validation keep the list within the bound that validation itself imposes.\<close>

definition contract_fields :: "wf_contract \<Rightarrow> (string \<times> json) list" where
  "contract_fields c = (case contract_json c of JObj f \<Rightarrow> f | _ \<Rightarrow> [])"

lemma contract_fields_simps:
  "contract_json c = JObj (contract_fields c)"
  "dict_get (contract_fields c) ''title'' x = JStr (wf_title c)"
  "dict_get (contract_fields c) ''objective'' x = JStr (wf_objective c)"
  "dict_get (contract_fields c) ''trigger'' x = JStr (wf_trigger c)"
  "dict_get (contract_fields c) ''risk_level'' x = JStr (wf_risk_level c)"
  "dict_get (contract_fields c) ''data_class'' x = JStr (wf_data_class c)"
  "dict_get (contract_fields c) ''nodes'' x = JList (map node_json (wf_nodes c))"
  "dict_get (contract_fields c) ''outputs'' x = JList (map JStr (wf_outputs c))"
  "dict_get (contract_fields c) ''warnings'' x = JList (map JStr (wf_warnings c))"
  by (simp_all add: contract_fields_def contract_json_def dict_get_def)

lemma validate_contract_again:
  assumes "contract_ok c"
  shows "validate_contract (contract_json c) = (if length (wf_warnings c) \<le> 12 then Inr c
     else raise WorkflowDesignError ''warnings must be a bounded list'')"
proof -
  from assms have ok: "list_all node_ok (wf_nodes c)" "distinct (map nd_id (wf_nodes c))" "graph_ok (wf_nodes c)"
    by (simp_all add: contract_ok_def graph_ok_def)
  then obtain g where g: "graph (wf_nodes c) = Inr g"
    using graph_ok_graph by blast
  have w: "fromkeys (wf_warnings c @ extra_warnings (wf_trigger c) (wf_risk_level c) (wf_nodes c)) = wf_warnings c"
    using assms by (simp add: contract_ok_def fromkeys_append_subset)
  have voc: "norm_word (JStr (wf_trigger c)) = wf_trigger c"
    "norm_word (JStr (wf_risk_level c)) = wf_risk_level c"
    "norm_word (JStr (wf_data_class c)) = wf_data_class c"
    using assms by (simp_all add: contract_ok_def)
  note vn = validate_nodes_again [OF ok(1,2)]
  show ?thesis
    using assms
    by (simp add: validate_contract_def contract_fields_simps contract_ok_def voc vn g w
        bounded_list_def mapE_text_again not_le)
qed

section \<open>Diagrams\<close>

definition STRUCTURAL :: "char list" where
  "STRUCTURAL = [CHR 0x5C, DQ, CHR ''['', CHR '']'', CHR ''{'', CHR ''}'', CHR ''|'', CHR ''<'', CHR ''>'',
     CHR '';'', CHR 0x0A]"

lemma mermaid_label_safe: "set (mermaid_label v) \<inter> set STRUCTURAL = {}"
proof -
  have A: "mermaid_char c \<notin> set STRUCTURAL" if "\<not> is_space c \<or> c = CHR '' ''" for c
    using that by (auto simp: mermaid_char_def STRUCTURAL_def is_space_def)
  have B: "\<not> is_space c \<or> c = CHR '' ''" if "c \<in> set (take n (join '' '' (split_ws s)))" for c n s
    using that set_split_join by (metis in_set_takeD)
  have "d \<notin> set STRUCTURAL" if "d \<in> set (mermaid_label v)" for d
  proof -
    from that obtain c where c: "c \<in> set (take 120 (join '' '' (split_ws (str_or_empty v))))" "d = mermaid_char c"
      unfolding mermaid_label_def set_map by (elim imageE)
    then show ?thesis using A [OF B [OF c(1)]] by simp
  qed
  then show ?thesis by blast
qed

lemma mermaid_label_no_nl [simp]: "CHR 0x0A \<notin> set (mermaid_label v)"
  using mermaid_label_safe [of v] by (auto simp: STRUCTURAL_def)

lemma NODE_ID_RE_no_nl: "NODE_ID_RE s \<Longrightarrow> CHR 0x0A \<notin> set s"
  using NODE_ID_RE_chars [of s] ident_not_space [of "CHR 0x0A"] by (auto simp: is_space_def)

lemma mermaid_node_no_nl:
  assumes "NODE_ID_RE (nd_id n)"
  shows "CHR 0x0A \<notin> set (mermaid_node n)" "CHR 0x0A \<notin> set (mermaid_node_v4 n)"
    "NODE_ID_RE p \<Longrightarrow> CHR 0x0A \<notin> set (mermaid_edge n p)"
  using assms NODE_ID_RE_no_nl
  by (simp_all add: mermaid_node_def mermaid_node_v4_def mermaid_edge_def Let_def quoted_def)

lemma mermaid_lines_no_nl:
  assumes "list_all (\<lambda>n. NODE_ID_RE (nd_id n) \<and> list_all NODE_ID_RE (nd_depends_on n)) nodes"
    and "shape \<in> {mermaid_node, mermaid_node_v4}" "l \<in> set (mermaid_lines shape nodes)"
  shows "CHR 0x0A \<notin> set l"
  using assms mermaid_node_no_nl by (auto simp: mermaid_lines_def list_all_iff)

lemma split_mermaid_lines:
  assumes "list_all (\<lambda>n. NODE_ID_RE (nd_id n) \<and> list_all NODE_ID_RE (nd_depends_on n)) nodes"
    and "shape \<in> {mermaid_node, mermaid_node_v4}"
  shows "split_on (CHR 0x0A) (join [CHR 0x0A] (mermaid_lines shape nodes)) = mermaid_lines shape nodes"
  using mermaid_lines_no_nl [OF assms] by (intro split_on_join) (auto simp: mermaid_lines_def)

lemma length_mermaid_lines: "length (mermaid_lines shape nodes) = 1 + length nodes + length (edges nodes)"
proof -
  have "length (concat (map (\<lambda>n. map (mermaid_edge n) (nd_depends_on n)) nodes)) = length (edges nodes)"
    by (simp add: edges_def length_concat o_def)
  then show ?thesis by (simp add: mermaid_lines_def)
qed

section \<open>Version 4 extends version 1\<close>

lemma update_same: "map_of d k = Some v \<Longrightarrow> AList.update k v d = d"
  by (induction d) auto

lemma dict_get_update: "dict_get (AList.update k v d) k' x = (if k' = k then v else dict_get d k' x)"
  by (simp add: dict_get_def update_conv)

lemma vocab_not_parallel:
  "k \<in> set NODE_KINDS \<Longrightarrow> k \<noteq> ''parallel''" "a \<in> set ACTIONS \<Longrightarrow> a \<notin> set PARALLEL_ACTIONS"
  by (auto simp: NODE_KINDS_def ACTIONS_def PARALLEL_ACTIONS_def)

lemma validate_contract_nodes:
  assumes "validate_contract raw0 = Inr c"
  obtains raw raw_nodes where "raw0 = JObj raw" "dict_get raw ''nodes'' JNull = JList raw_nodes"
    "validate_nodes raw_nodes = Inr (wf_nodes c)"
  using assms by (auto simp: validate_contract_def Let_def split: json.splits if_splits)

lemma v4_fold_base:
  assumes "list_all2 (\<lambda>r n. \<exists>seen f. r = JObj f \<and> validate_node seen f = Inr n) raw nodes"
  shows "foldE v4_node_step acc raw
    = Inr (acc\<lparr>v4_index := v4_index acc + length raw, v4_nodes := v4_nodes acc @ raw\<rparr>)"
  using assms
proof (induction raw nodes arbitrary: acc)
  case (Cons r raw n nodes)
  then obtain seen f where r: "r = JObj f" "validate_node seen f = Inr n" by blast
  have "nd_kind n \<noteq> ''parallel''" "nd_action n \<notin> set PARALLEL_ACTIONS"
    using validate_nodeD(6) [OF r(2)] vocab_not_parallel by (auto simp: node_ok_def)
  then have "v4_node_step acc r = Inr (acc\<lparr>v4_index := Suc (v4_index acc), v4_nodes := v4_nodes acc @ [r]\<rparr>)"
    using validate_nodeD(3,4) [OF r(2)] by (simp add: v4_node_step_def r(1) Let_def)
  with Cons show ?case by simp
qed simp

lemma v4_conservative:
  assumes "validate_contract raw0 = Inr c"
  shows "validate_contract_v4 raw0 = Inr c"
proof -
  from assms obtain raw raw_nodes where r: "raw0 = JObj raw"
    "dict_get raw ''nodes'' JNull = JList raw_nodes" "validate_nodes raw_nodes = Inr (wf_nodes c)"
    by (rule validate_contract_nodes)
  from r(2) have "AList.update ''nodes'' (JList raw_nodes) raw = raw"
    by (intro update_same) (auto simp: dict_get_def split: option.splits)
  moreover have "restore_pair Map.empty = id"
    by (auto simp: restore_pair_def fun_eq_iff)
  ultimately show ?thesis
    using v4_fold_base [OF validate_nodes_ok(4) [OF r(3)]] assms r
    by (simp add: validate_contract_v4_def)
qed

text \<open>What the surrogate loop records: every remembered pair belongs to a surrogate entry, and the
  entries that are not surrogates do not mention parallel control.\<close>

definition surrogate :: "json \<Rightarrow> bool" where
  "surrogate r \<longleftrightarrow> (\<exists>f. r = JObj f \<and> dict_get f ''kind'' JNull = JStr ''validation''
     \<and> dict_get f ''action'' JNull = JStr ''validate'' \<and> \<not> truthy (dict_get f ''approval_required'' (JBool False)))"

definition pairs_inv :: "v4_acc \<Rightarrow> bool" where
  "pairs_inv acc \<longleftrightarrow> (\<forall>i k a. v4_pairs acc i = Some (k, a) \<longrightarrow> k = ''parallel'' \<and> a \<in> set PARALLEL_ACTIONS
     \<and> (\<exists>f. JObj f \<in> set (v4_nodes acc) \<and> surrogate (JObj f) \<and> norm_word (dict_get f ''id'' JNull) = i))"

lemma v4_node_step_inv:
  assumes "v4_node_step acc r = Inr acc'" "pairs_inv acc"
  shows "pairs_inv acc'"
proof -
  from assms(1) obtain f where r: "r = JObj f" by (auto simp: v4_node_step_def split: json.splits)
  let ?g = "AList.update ''action'' (JStr ''validate'') (AList.update ''kind'' (JStr ''validation'') f)"
  let ?i = "norm_word (dict_get f ''id'' JNull)"
  from assms(1) r consider
      (base) "v4_nodes acc' = v4_nodes acc @ [r]" "v4_pairs acc' = v4_pairs acc"
    | (par) a where "a \<in> set PARALLEL_ACTIONS" "\<not> truthy (dict_get f ''approval_required'' (JBool False))"
        "v4_nodes acc' = v4_nodes acc @ [JObj ?g]" "v4_pairs acc' = (v4_pairs acc)(?i \<mapsto> (''parallel'', a))"
    by (auto simp: v4_node_step_def Let_def split: if_splits)
  then show ?thesis
  proof cases
    case base
    with assms(2) show ?thesis unfolding pairs_inv_def by fastforce
  next
    case (par a)
    have "surrogate (JObj ?g)" "norm_word (dict_get ?g ''id'' JNull) = ?i"
      using par(2) by (auto simp: surrogate_def dict_get_update)
    with assms(2) par(1) show ?thesis
      unfolding pairs_inv_def par(3,4) by (fastforce split: if_splits)
  qed
qed

definition parallel_ok :: "wf_node \<Rightarrow> bool" where
  "parallel_ok n \<longleftrightarrow> (nd_kind n = ''parallel'' \<longleftrightarrow> nd_action n \<in> set PARALLEL_ACTIONS)
     \<and> (nd_kind n = ''parallel'' \<longrightarrow> \<not> nd_approval_required n)"

lemma v4_parallel_ok:
  assumes "validate_contract_v4 raw0 = Inr c"
  shows "list_all parallel_ok (wf_nodes c)"
    "\<exists>base. contract_ok base \<and> map nd_id (wf_nodes base) = map nd_id (wf_nodes c)
       \<and> edges (wf_nodes base) = edges (wf_nodes c)"
proof -
  from assms obtain raw raw_nodes acc base where
    f: "foldE v4_node_step \<lparr>v4_index = 0, v4_nodes = [], v4_pairs = Map.empty\<rparr> raw_nodes = Inr acc"
    and b: "validate_contract (JObj (AList.update ''nodes'' (JList (v4_nodes acc)) raw)) = Inr base"
    and c: "wf_nodes c = map (restore_pair (v4_pairs acc)) (wf_nodes base)"
    by (auto simp: validate_contract_v4_def split: json.splits)
  have inv: "pairs_inv acc"
    by (rule foldE_invariant [OF f]) (auto simp: pairs_inv_def dest: v4_node_step_inv)
  from b have vn: "validate_nodes (v4_nodes acc) = Inr (wf_nodes base)"
    by (rule validate_contract_nodes) (auto simp: dict_get_update)
  have "parallel_ok (restore_pair (v4_pairs acc) n)" if n: "n \<in> set (wf_nodes base)" for n
  proof (cases "v4_pairs acc (nd_id n)")
    case None
    have "node_ok n" using validate_nodes_ok(3) [OF vn] n by (auto simp: list_all_iff)
    with None show ?thesis
      using vocab_not_parallel by (auto simp: restore_pair_def parallel_ok_def node_ok_def)
  next
    case (Some ka)
    then obtain k a where ka: "v4_pairs acc (nd_id n) = Some (k, a)" by (cases ka) auto
    with inv obtain f where s: "k = ''parallel''" "a \<in> set PARALLEL_ACTIONS" "JObj f \<in> set (v4_nodes acc)"
        "surrogate (JObj f)" "norm_word (dict_get f ''id'' JNull) = nd_id n"
      unfolding pairs_inv_def by blast
    from validate_nodes_ok(4) [OF vn] s(3) obtain m seen where
      m: "m \<in> set (wf_nodes base)" "validate_node seen f = Inr m"
      by (fastforce simp: list_all2_conv_all_nth in_set_conv_nth)
    with validate_nodeD(1) [OF m(2)] s(5) validate_nodes_ok(1) [OF vn] n have "m = n"
      by (auto simp: distinct_map inj_on_def)
    with validate_nodeD(5) [OF m(2)] s(4) have "\<not> nd_approval_required n"
      by (auto simp: surrogate_def)
    with ka s(1,2) show ?thesis by (simp add: restore_pair_def parallel_ok_def)
  qed
  then show "list_all parallel_ok (wf_nodes c)"
    by (simp add: c list_all_iff)
  have r: "nd_id (restore_pair p n) = nd_id n" "nd_depends_on (restore_pair p n) = nd_depends_on n" for p n
    by (auto simp: restore_pair_def split: option.splits)
  then have "map nd_id (wf_nodes base) = map nd_id (wf_nodes c)" "edges (wf_nodes base) = edges (wf_nodes c)"
    by (simp_all add: c edges_def o_def)
  with validate_contract_ok [OF b] show "\<exists>base. contract_ok base \<and> map nd_id (wf_nodes base) = map nd_id (wf_nodes c)
       \<and> edges (wf_nodes base) = edges (wf_nodes c)" by blast
qed

section \<open>Properties\<close>

text \<open>A two-step contract, its accepted form, and the same contract with twelve warnings of its own.\<close>

definition demo_raw :: "string list \<Rightarrow> json" where
  "demo_raw ws = JObj [(''title'', JStr ''  Weekly   digest''), (''objective'', JStr ''Collect''),
     (''trigger'', JStr ''Manual''), (''risk_level'', JStr ''low''), (''data_class'', JStr ''internal''),
     (''nodes'', JList
        [JObj [(''id'', JStr ''Gather''), (''label'', JStr ''Gather [facts]''), (''kind'', JStr ''agent''),
               (''action'', JStr ''research'')],
         JObj [(''id'', JStr ''write''), (''label'', JStr ''Write''), (''kind'', JStr ''agent''),
               (''action'', JStr ''presentation''), (''depends_on'', JList [JStr ''gather'', JStr ''gather''])]]),
     (''warnings'', JList (map JStr ws))]"

definition demo_contract :: "string list \<Rightarrow> wf_contract" where
  "demo_contract ws = \<lparr>wf_title = ''Weekly digest'', wf_objective = ''Collect'', wf_trigger = ''manual'',
     wf_risk_level = ''low'', wf_data_class = ''internal'',
     wf_nodes =
       [\<lparr>nd_id = ''gather'', nd_label = ''Gather [facts]'', nd_kind = ''agent'', nd_action = ''research'',
         nd_depends_on = [], nd_condition = None, nd_approval_required = False\<rparr>,
        \<lparr>nd_id = ''write'', nd_label = ''Write'', nd_kind = ''agent'', nd_action = ''presentation'',
         nd_depends_on = [''gather''], nd_condition = None, nd_approval_required = False\<rparr>],
     wf_outputs = [], wf_warnings = ws @ [W_NO_OUTPUT]\<rparr>"

definition twelve :: "string list" where
  "twelve = [''a'', ''b'', ''c'', ''d'', ''e'', ''f'', ''g'', ''h'', ''i'', ''j'', ''k'', ''l'']"

lemma validate_demo:
  "validate_contract (demo_raw []) = Inr (demo_contract [])"
  "validate_contract (demo_raw twelve) = Inr (demo_contract twelve)"
  by code_simp+

text \<open>C25: every contract that \<open>validate_contract\<close> accepts, whatever JSON value it was given, is well
  formed: 2 to 24 nodes with distinct ids of the identifier pattern, kinds, actions, trigger, risk
  and data class from the fixed vocabularies, an acyclic graph of at most 64 edges over its own
  nodes, and bounded, white-space-normalised texts.\<close>

theorem validate_contract_wf: "validate_contract raw = Inr c \<Longrightarrow> contract_ok c"
  by (rule validate_contract_ok)

theorem validate_contract_wf_witness:
  "validate_contract (demo_raw []) = Inr (demo_contract []) \<and> contract_ok (demo_contract [])"
  using validate_contract_wf [OF validate_demo(1)] validate_demo(1) by blast

text \<open>C26: validation of a validated contract. The accepted form is a fixed point when it carries at
  most 12 warnings. With more, which happens because validation appends up to four warnings after
  checking the bound, the accepted contract is rejected by the next validation.\<close>

theorem revalidation:
  assumes "validate_contract raw = Inr c"
  shows "validate_contract (contract_json c) = (if length (wf_warnings c) \<le> 12 then Inr c
     else raise WorkflowDesignError ''warnings must be a bounded list'')"
  using validate_contract_again [OF validate_contract_ok [OF assms]] .

theorem revalidation_witness:
  "validate_contract (contract_json (demo_contract [])) = Inr (demo_contract [])
   \<and> validate_contract (contract_json (demo_contract twelve))
     = raise WorkflowDesignError ''warnings must be a bounded list''"
proof -
  have "length (wf_warnings (demo_contract [])) \<le> 12" "\<not> length (wf_warnings (demo_contract twelve)) \<le> 12"
    by (simp_all add: demo_contract_def twelve_def)
  with revalidation [OF validate_demo(1)] revalidation [OF validate_demo(2)] show ?thesis by simp
qed

text \<open>The version 4 validator accepts every version 1 contract unchanged, and in whatever it
  accepts, kind \<open>parallel\<close> and the two parallel actions occur together only, a parallel control node
  never requires approval, and ids and edges are those of a well-formed version 1 contract.\<close>

theorem v4_extends:
  "(validate_contract raw = Inr c \<longrightarrow> validate_contract_v4 raw = Inr c)
   \<and> (validate_contract_v4 raw = Inr d \<longrightarrow> list_all parallel_ok (wf_nodes d) \<and>
       (\<exists>base. contract_ok base \<and> map nd_id (wf_nodes base) = map nd_id (wf_nodes d)
          \<and> edges (wf_nodes base) = edges (wf_nodes d)))"
  using v4_conservative v4_parallel_ok by blast

theorem v4_extends_witness:
  "validate_contract_v4 (demo_raw []) = Inr (demo_contract [])
   \<and> list_all parallel_ok (wf_nodes (demo_contract []))"
  using v4_extends [of "demo_raw []" "demo_contract []" "demo_contract []"] validate_demo(1) by blast

text \<open>The Mermaid text of a contract has one line for the header, one per node and one per edge
  and nothing else, whatever the labels and conditions contain: no label has a line break, a quote,
  a bracket or another structural character.\<close>

theorem render_mermaid_lines:
  assumes "render_mermaid raw = Inr text"
  shows "\<exists>c. validate_contract raw = Inr c
    \<and> split_on (CHR 0x0A) text = mermaid_lines mermaid_node (wf_nodes c)
    \<and> length (split_on (CHR 0x0A) text) = 1 + length (wf_nodes c) + length (edges (wf_nodes c))
    \<and> (\<forall>n \<in> set (wf_nodes c). set (mermaid_label (JStr (nd_label n))) \<inter> set STRUCTURAL = {}
        \<and> set (mermaid_label (condition_json n)) \<inter> set STRUCTURAL = {})"
proof -
  from assms obtain c where c: "validate_contract raw = Inr c"
    "text = join [CHR 0x0A] (mermaid_lines mermaid_node (wf_nodes c))"
    by (auto simp: render_mermaid_def)
  have "list_all (\<lambda>n. NODE_ID_RE (nd_id n) \<and> list_all NODE_ID_RE (nd_depends_on n)) (wf_nodes c)"
    using validate_contract_ok [OF c(1)] by (auto simp: contract_ok_def node_ok_def list_all_iff)
  then have "split_on (CHR 0x0A) text = mermaid_lines mermaid_node (wf_nodes c)"
    unfolding c(2) by (rule split_mermaid_lines) simp
  with c(1) show ?thesis
    by (auto simp: length_mermaid_lines mermaid_label_safe)
qed

theorem render_mermaid_lines_witness:
  "\<exists>text. render_mermaid (demo_raw []) = Inr text \<and> length (split_on (CHR 0x0A) text) = 4"
proof -
  obtain out where t: "render_mermaid (demo_raw []) = Inr out"
    by (simp add: render_mermaid_def validate_demo(1))
  have "length (wf_nodes (demo_contract [])) = 2" "length (edges (wf_nodes (demo_contract []))) = 1"
    by code_simp+
  with render_mermaid_lines [OF t] t show ?thesis
    by (auto simp: validate_demo(1))
qed

end
