(* ===== verification/Execution_Plan.thy ===== *)
theory Execution_Plan
  imports Task_Context Workflow_Design
begin

text \<open>
  Model of \<open>src/three_agent/execution_plan.py\<close>: the promotion of a validated workflow into a runtime plan that
  carries, per node, a derived authority, a share of the task's budget, evidence requirements and an
  approval flag, and the validation that every later use of the plan repeats. A plan never authorises
  execution by itself.

  Budgets in dollars are binary64 floats; \<open>sum\<close> adds them from left to right with rounding, as CPython
  3.11 does.
\<close>

section \<open>Helpers\<close>

abbreviation P :: exc_class where "P \<equiv> ExecutionPlanError"

definition EXECUTION_NODE_SCHEMA :: string where
  "EXECUTION_NODE_SCHEMA = ''workspace-execution-node/v1''"

definition EXECUTION_PLAN_SCHEMA :: string where
  "EXECUTION_PLAN_SCHEMA = ''workspace-execution-plan/v1''"

definition MAX_EVIDENCE_REQUIREMENTS :: nat where
  "MAX_EVIDENCE_REQUIREMENTS = 16"

definition RISK_RANK :: "(string \<times> nat) list" where
  "RISK_RANK = [(''R0'', 0), (''R1'', 1), (''R2'', 2), (''R3'', 3), (''R4'', 4)]"

definition WORKFLOW_RISK_CLASS :: "(string \<times> string) list" where
  "WORKFLOW_RISK_CLASS = [(''low'', ''R1''), (''medium'', ''R2''), (''high'', ''R3''), (''critical'', ''R4'')]"

text \<open>\<open>table[key]\<close>\<close>

definition subscript :: "(string \<times> 'a) list \<Rightarrow> string \<Rightarrow> 'a result" where
  "subscript table k = (case map_of table k of Some v \<Rightarrow> Inr v | None \<Rightarrow> raise KeyError k)"

definition normalize_requirements :: "string list \<Rightarrow> string list result" where
  "normalize_requirements values = bindE (mapE (\<lambda>v. single_line P v ''evidence_requirement'' 256) values) (\<lambda>vs.
     let normalized = sort (fromkeys vs) in
     if MAX_EVIDENCE_REQUIREMENTS < length normalized then raise P ''TOO_MANY_EVIDENCE_REQUIREMENTS'' else Inr normalized)"

definition normalize_scope :: "scope \<Rightarrow> scope" where
  "normalize_scope s = (case s of ScopeStr t \<Rightarrow> ScopeStr t | ScopeTuple ts \<Rightarrow> ScopeTuple (sort (fromkeys ts)))"

definition zero_budget :: resource_budget where
  "zero_budget = \<lparr>rb_wall_time_s = Some 0, rb_model_tokens = Some 0, rb_tool_calls = Some 0, rb_cost_usd = None\<rparr>"

fun float_val :: "pyfloat \<Rightarrow> rat" where
  "float_val (FiniteFloat q t) = q"
| "float_val (NonFinite t) = 0"

text \<open>The dimensions of a budget as exact numbers, for comparison.\<close>

definition dimensions :: "resource_budget \<Rightarrow> (string \<times> rat option) list" where
  "dimensions b = [(''wall_time_s'', map_option of_int (rb_wall_time_s b)), (''model_tokens'', map_option of_int (rb_model_tokens b)),
     (''tool_calls'', map_option of_int (rb_tool_calls b)), (''cost_usd'', map_option float_val (rb_cost_usd b))]"

definition budget_dimension_is_subset :: "rat option \<Rightarrow> rat option \<Rightarrow> bool" where
  "budget_dimension_is_subset child parent = (case parent of None \<Rightarrow> child = None
     | Some p \<Rightarrow> (case child of None \<Rightarrow> False | Some c \<Rightarrow> c \<le> p))"

definition require_budget_subset :: "resource_budget \<Rightarrow> resource_budget \<Rightarrow> unit result" where
  "require_budget_subset child parent =
     bindE (budget_validate child) (\<lambda>_. bindE (budget_validate parent) (\<lambda>_.
     checked (map2 (\<lambda>(f, c) (_, p). fail_if P (\<not> budget_dimension_is_subset c p)
       (''EXECUTION_NODE_BUDGET_EXCEEDS_TASK_'' @ upper f)) (dimensions child) (dimensions parent)) ()))"

text \<open>Rounding to binary64, and the sum of floats from left to right; \<open>None\<close> is an infinite sum.\<close>

definition round_rat :: "rat \<Rightarrow> rat option" where
  "round_rat q = (let (n, d) = quotient_of q; x = round_double (nat n, nat d) in
     if double_overflow x then None else Some (Fract (int (fst x)) (int (snd x))))"

fun float_sum :: "rat \<Rightarrow> rat list \<Rightarrow> rat option" where
  "float_sum acc [] = Some acc"
| "float_sum acc (x # xs) = (case round_rat (acc + x) of None \<Rightarrow> None | Some s \<Rightarrow> float_sum s xs)"

definition sum_exceeds :: "string \<Rightarrow> rat list \<Rightarrow> rat \<Rightarrow> bool" where
  "sum_exceeds field vs p = (if field = ''cost_usd'' then (case float_sum 0 vs of None \<Rightarrow> True | Some s \<Rightarrow> p < s)
     else p < sum_list vs)"

definition aggregate_check :: "string \<Rightarrow> rat option \<Rightarrow> rat option list \<Rightarrow> unit result" where
  "aggregate_check field parent children = (case parent of
     None \<Rightarrow> fail_if P (list_ex (\<lambda>v. v \<noteq> None) children) (''EXECUTION_PLAN_BUDGET_DIMENSION_NOT_BOUND_'' @ upper field)
   | Some p \<Rightarrow>
       if list_ex (\<lambda>v. v = None) children then raise P (''EXECUTION_PLAN_BUDGET_DIMENSION_MISSING_'' @ upper field)
       else fail_if P (sum_exceeds field (List.map_filter id children) p) (''EXECUTION_PLAN_BUDGET_EXCEEDS_TASK_'' @ upper field))"

definition require_aggregate_budget :: "resource_budget list \<Rightarrow> resource_budget \<Rightarrow> unit result" where
  "require_aggregate_budget children parent = checked (map (\<lambda>(i, f, p).
       aggregate_check f p (map (\<lambda>b. snd (dimensions b ! i)) children)) (zip [0..<4] (dimensions parent))) ()"

definition child_task_id :: "string \<Rightarrow> string \<Rightarrow> string" where
  "child_task_id task_id node_id = (let candidate = task_id @ '':'' @ node_id in
     if length candidate \<le> 128 then candidate
     else ''node:'' @ take 32 (sha256_hexdigest (utf8 candidate)) @ '':'' @ node_id)"

section \<open>Nodes\<close>

record node_binding =
  nb_allowed_sources :: "string list"
  nb_allowed_tools :: "string list"
  nb_write_scope :: scope
  nb_network_scope :: string
  nb_resource_budget :: resource_budget
  nb_evidence_requirements :: "string list"
  nb_approval_required :: bool

definition default_binding :: node_binding where
  "default_binding = \<lparr>nb_allowed_sources = [], nb_allowed_tools = [], nb_write_scope = ScopeStr ''none'',
     nb_network_scope = ''deny'', nb_resource_budget = zero_budget, nb_evidence_requirements = [], nb_approval_required = False\<rparr>"

definition binding_normalized :: "node_binding \<Rightarrow> node_binding result" where
  "binding_normalized b =
     bindE (budget_validate (nb_resource_budget b)) (\<lambda>_.
     bindE (single_line P (nb_network_scope b) ''network_scope'' 64) (\<lambda>net.
     bindE (normalize_requirements (nb_evidence_requirements b)) (\<lambda>reqs.
     Inr \<lparr>nb_allowed_sources = sort (fromkeys (nb_allowed_sources b)), nb_allowed_tools = sort (fromkeys (nb_allowed_tools b)),
       nb_write_scope = normalize_scope (nb_write_scope b), nb_network_scope = net, nb_resource_budget = nb_resource_budget b,
       nb_evidence_requirements = reqs, nb_approval_required = nb_approval_required b\<rparr>)))"

record execution_node =
  en_node_id :: string
  en_label :: string
  en_kind :: string
  en_action :: string
  en_depends_on :: "string list"
  en_condition :: "string option"
  en_approval_required :: bool
  en_execution_level :: int
  en_authority_task_id :: string
  en_authority_fingerprint :: string
  en_allowed_sources :: "string list"
  en_allowed_tools :: "string list"
  en_write_scope :: scope
  en_network_scope :: string
  en_resource_budget :: resource_budget
  en_evidence_requirements :: "string list"
  en_workflow_node_fingerprint :: string
  en_schema_version :: string

definition node_checks :: "execution_node \<Rightarrow> unit result list" where
  "node_checks n =
     [void (sha256_field P (en_authority_fingerprint n) ''authority_fingerprint''),
      void (sha256_field P (en_workflow_node_fingerprint n) ''workflow_node_fingerprint''),
      void (budget_validate (en_resource_budget n)),
      fail_if P (en_schema_version n \<noteq> EXECUTION_NODE_SCHEMA) ''EXECUTION_NODE_SCHEMA_VERSION_MISMATCH'',
      fail_if P (en_execution_level n < 0) ''INVALID_EXECUTION_LEVEL'',
      bindE (normalize_requirements (en_evidence_requirements n)) (\<lambda>r.
        fail_if P (r \<noteq> en_evidence_requirements n) ''EVIDENCE_REQUIREMENTS_NOT_NORMALIZED'')]"

definition node_json_of :: "execution_node \<Rightarrow> json" where
  "node_json_of n = JObj [(''schema_version'', JStr (en_schema_version n)), (''node_id'', JStr (en_node_id n)),
     (''label'', JStr (en_label n)), (''kind'', JStr (en_kind n)), (''action'', JStr (en_action n)),
     (''depends_on'', str_list (en_depends_on n)), (''condition'', str_json (en_condition n)),
     (''approval_required'', JBool (en_approval_required n)), (''execution_level'', JInt (en_execution_level n)),
     (''authority_task_id'', JStr (en_authority_task_id n)), (''authority_fingerprint'', JStr (en_authority_fingerprint n)),
     (''authority_projection'', JObj [(''allowed_sources'', str_list (en_allowed_sources n)),
        (''allowed_tools'', str_list (en_allowed_tools n)), (''write_scope'', scope_json (en_write_scope n)),
        (''network_scope'', JStr (en_network_scope n))]),
     (''resource_budget'', budget_json (en_resource_budget n)),
     (''evidence_requirements'', str_list (en_evidence_requirements n)),
     (''workflow_node_fingerprint'', JStr (en_workflow_node_fingerprint n)), (''execution_authorized'', JBool False)]"

definition node_canonical :: "execution_node \<Rightarrow> json result" where
  "node_canonical n = checked (node_checks n) (node_json_of n)"

definition node_fingerprint :: "execution_node \<Rightarrow> string result" where
  "node_fingerprint n = bindE (node_canonical n) (\<lambda>j. Inr (digest j))"

definition denied_or_value_error :: "exc_class \<Rightarrow> bool" where
  "denied_or_value_error c \<longleftrightarrow> c = CapabilityAuthorityDenied \<or> is_value_error c"

definition node_request :: "execution_node \<Rightarrow> child_request" where
  "node_request n = \<lparr>cr_task_id = en_authority_task_id n, cr_allowed_sources = Some (en_allowed_sources n),
     cr_allowed_tools = Some (en_allowed_tools n), cr_write_scope = Some (en_write_scope n),
     cr_network_scope = Some (en_network_scope n)\<rparr>"

definition rebind_authority :: "execution_node \<Rightarrow> authority \<Rightarrow> authority result" where
  "rebind_authority n parent =
     bindE (reraise denied_or_value_error P (''EXECUTION_NODE_AUTHORITY_REBIND_FAILED:'' @ en_node_id n)
       (derive_child parent (node_request n))) (\<lambda>rebound.
     if au_fingerprint rebound \<noteq> en_authority_fingerprint n
       then raise P (''EXECUTION_NODE_AUTHORITY_FINGERPRINT_MISMATCH:'' @ en_node_id n)
     else Inr rebound)"

section \<open>Plans\<close>

record execution_plan =
  ep_task_id :: string
  ep_task_context_fingerprint :: string
  ep_task_context_identity_fingerprint :: string
  ep_task_risk_class :: string
  ep_parent_authority_fingerprint :: string
  ep_task_resource_budget :: resource_budget
  ep_workflow_contract_json :: string
  ep_workflow_contract_fingerprint :: string
  ep_nodes :: "execution_node list"
  ep_schema_version :: string
  ep_execution_authorized :: bool
  ep_execution_mode :: string

definition validated_workflow :: "execution_plan \<Rightarrow> wf_contract result" where
  "validated_workflow p = (case loads (ep_workflow_contract_json p) of
     None \<Rightarrow> raise P ''INVALID_WORKFLOW_CONTRACT_JSON''
   | Some raw \<Rightarrow> bindE (reraise (\<lambda>c. c = WorkflowDesignError) P ''INVALID_WORKFLOW_CONTRACT'' (validate_contract raw)) (\<lambda>w.
       if dumps (contract_json w) \<noteq> ep_workflow_contract_json p then raise P ''WORKFLOW_CONTRACT_NOT_CANONICAL''
       else if digest (contract_json w) \<noteq> ep_workflow_contract_fingerprint p
         then raise P ''WORKFLOW_CONTRACT_FINGERPRINT_MISMATCH''
       else Inr w))"

definition workflow_risk_check :: "wf_contract \<Rightarrow> string \<Rightarrow> unit result" where
  "workflow_risk_check w risk_class =
     bindE (subscript WORKFLOW_RISK_CLASS (wf_risk_level w)) (\<lambda>wr.
     bindE (subscript RISK_RANK wr) (\<lambda>a. bindE (subscript RISK_RANK risk_class) (\<lambda>b.
     fail_if P (a < b) ''EXECUTION_PLAN_RISK_UNDERCLASSIFIED'')))"

text \<open>\<open>{node["id"]: node for node in nodes}\<close>\<close>

definition by_id :: "wf_node list \<Rightarrow> string \<rightharpoonup> wf_node" where
  "by_id nodes = map_of (rev (map (\<lambda>n. (nd_id n, n)) nodes))"

definition plan_node_check :: "wf_contract \<Rightarrow> (string \<rightharpoonup> nat) \<Rightarrow> string list \<Rightarrow> execution_node \<Rightarrow> string list result" where
  "plan_node_check w levels seen n = (
     if en_node_id n \<in> set seen then raise P ''DUPLICATE_EXECUTION_NODE_ID''
     else case by_id (wf_nodes w) (en_node_id n) of
       None \<Rightarrow> raise P ''EXECUTION_NODE_NOT_IN_WORKFLOW''
     | Some source \<Rightarrow>
         if en_workflow_node_fingerprint n \<noteq> digest (node_json source)
           then raise P (''EXECUTION_NODE_WORKFLOW_FINGERPRINT_MISMATCH:'' @ en_node_id n)
         else if en_label n \<noteq> nd_label source \<or> en_kind n \<noteq> nd_kind source \<or> en_action n \<noteq> nd_action source
           \<or> en_depends_on n \<noteq> nd_depends_on source \<or> en_condition n \<noteq> nd_condition source
           \<or> Some (en_execution_level n) \<noteq> map_option int (levels (en_node_id n))
           then raise P (''EXECUTION_NODE_WORKFLOW_PROJECTION_MISMATCH:'' @ en_node_id n)
         else if nd_approval_required source \<and> \<not> en_approval_required n
           then raise P (''EXECUTION_NODE_APPROVAL_WEAKENED:'' @ en_node_id n)
         else if nd_kind source = ''approval'' \<and> \<not> en_approval_required n
           then raise P (''EXECUTION_NODE_APPROVAL_WEAKENED:'' @ en_node_id n)
         else bindE (node_canonical n) (\<lambda>_. Inr (seen @ [en_node_id n])))"

definition parent_check :: "execution_plan \<Rightarrow> authority option \<Rightarrow> unit result" where
  "parent_check p parent = (case parent of None \<Rightarrow> Inr ()
   | Some a \<Rightarrow>
       if au_task_id a \<noteq> ep_task_id p then raise P ''EXECUTION_PLAN_PARENT_TASK_MISMATCH''
       else if au_fingerprint a \<noteq> ep_parent_authority_fingerprint p then raise P ''EXECUTION_PLAN_PARENT_AUTHORITY_MISMATCH''
       else bindE (mapE (\<lambda>n. rebind_authority n a) (ep_nodes p)) (\<lambda>_. Inr ()))"

definition plan_header_checks :: "execution_plan \<Rightarrow> unit result list" where
  "plan_header_checks p =
     [fail_if P (ep_schema_version p \<noteq> EXECUTION_PLAN_SCHEMA) ''EXECUTION_PLAN_SCHEMA_VERSION_MISMATCH'',
      void (sha256_field P (ep_task_context_fingerprint p) ''task_context_fingerprint''),
      void (sha256_field P (ep_task_context_identity_fingerprint p) ''task_context_identity_fingerprint''),
      void (sha256_field P (ep_parent_authority_fingerprint p) ''parent_authority_fingerprint''),
      void (sha256_field P (ep_workflow_contract_fingerprint p) ''workflow_contract_fingerprint''),
      fail_if P (map_of RISK_RANK (ep_task_risk_class p) = None) ''INVALID_TASK_RISK_CLASS'',
      void (budget_validate (ep_task_resource_budget p)),
      fail_if P (length (ep_nodes p) < 2 \<or> MAX_NODES < length (ep_nodes p)) ''INVALID_EXECUTION_PLAN_NODE_COUNT'']"

definition plan_validate :: "execution_plan \<Rightarrow> authority option \<Rightarrow> execution_plan result" where
  "plan_validate p parent =
     bindE (checked (plan_header_checks p) ()) (\<lambda>_.
     bindE (validated_workflow p) (\<lambda>w.
     bindE (workflow_risk_check w (ep_task_risk_class p)) (\<lambda>_.
     bindE (graph (wf_nodes w)) (\<lambda>(order, levels).
     if order \<noteq> map en_node_id (ep_nodes p) then raise P ''EXECUTION_PLAN_TOPOLOGY_MISMATCH''
     else
     bindE (foldE (plan_node_check w levels) [] (ep_nodes p)) (\<lambda>_.
     bindE (require_aggregate_budget (map en_resource_budget (ep_nodes p)) (ep_task_resource_budget p)) (\<lambda>_.
     bindE (parent_check p parent) (\<lambda>_.
     if ep_execution_authorized p \<or> ep_execution_mode p \<noteq> ''plan_only''
       then raise P ''EXECUTION_PLAN_CANNOT_AUTHORIZE_EXECUTION''
     else Inr p)))))))"

definition plan_json :: "execution_plan \<Rightarrow> json list \<Rightarrow> json \<Rightarrow> json" where
  "plan_json p nodes workflow = JObj [(''schema_version'', JStr (ep_schema_version p)), (''task_id'', JStr (ep_task_id p)),
     (''task_context_fingerprint'', JStr (ep_task_context_fingerprint p)),
     (''task_context_identity_fingerprint'', JStr (ep_task_context_identity_fingerprint p)),
     (''task_risk_class'', JStr (ep_task_risk_class p)),
     (''parent_authority_fingerprint'', JStr (ep_parent_authority_fingerprint p)),
     (''task_resource_budget'', budget_json (ep_task_resource_budget p)), (''workflow_contract'', workflow),
     (''workflow_contract_fingerprint'', JStr (ep_workflow_contract_fingerprint p)), (''nodes'', JList nodes),
     (''execution_authorized'', JBool False), (''execution_mode'', JStr ''plan_only'')]"

definition plan_canonical :: "execution_plan \<Rightarrow> json result" where
  "plan_canonical p = bindE (plan_validate p None) (\<lambda>_.
     case loads (ep_workflow_contract_json p) of None \<Rightarrow> raise ValueError ''JSONDecodeError''
     | Some workflow \<Rightarrow> bindE (mapE node_canonical (ep_nodes p)) (\<lambda>nodes. Inr (plan_json p nodes workflow)))"

definition plan_fingerprint :: "execution_plan \<Rightarrow> string result" where
  "plan_fingerprint p = bindE (plan_canonical p) (\<lambda>j. Inr (digest j))"

definition rebind_authorities :: "execution_plan \<Rightarrow> authority \<Rightarrow> (string \<times> authority) list result" where
  "rebind_authorities p parent = bindE (plan_validate p (Some parent)) (\<lambda>_.
     mapE (\<lambda>n. bindE (rebind_authority n parent) (\<lambda>a. Inr (en_node_id n, a))) (ep_nodes p))"

section \<open>The builder\<close>

definition binding_request :: "string \<Rightarrow> node_binding \<Rightarrow> child_request" where
  "binding_request t b = \<lparr>cr_task_id = t, cr_allowed_sources = Some (nb_allowed_sources b),
     cr_allowed_tools = Some (nb_allowed_tools b), cr_write_scope = Some (nb_write_scope b),
     cr_network_scope = Some (nb_network_scope b)\<rparr>"

definition build_node :: "task_context \<Rightarrow> authority \<Rightarrow> wf_contract \<Rightarrow> (string \<rightharpoonup> nat) \<Rightarrow> (string \<times> node_binding) list
    \<Rightarrow> string \<Rightarrow> execution_node result" where
  "build_node c parent w levels bindings node_id = (case by_id (wf_nodes w) node_id of
     None \<Rightarrow> raise KeyError node_id
   | Some source \<Rightarrow>
     bindE (binding_normalized (case map_of bindings node_id of Some b \<Rightarrow> b | None \<Rightarrow> default_binding)) (\<lambda>b.
     bindE (require_budget_subset (nb_resource_budget b) (tx_resource_budget c)) (\<lambda>_.
     bindE (reraise denied_or_value_error P (''EXECUTION_NODE_AUTHORITY_ESCALATION:'' @ node_id)
       (derive_child parent (binding_request (child_task_id (tx_task_id c) node_id) b))) (\<lambda>child.
     case levels node_id of None \<Rightarrow> raise KeyError node_id
     | Some level \<Rightarrow>
       Inr \<lparr>en_node_id = node_id, en_label = nd_label source, en_kind = nd_kind source, en_action = nd_action source,
         en_depends_on = nd_depends_on source, en_condition = nd_condition source,
         en_approval_required = (nd_approval_required source \<or> nd_kind source = ''approval''
           \<or> nd_action source = ''human_approval'' \<or> nb_approval_required b),
         en_execution_level = int level, en_authority_task_id = au_task_id child,
         en_authority_fingerprint = au_fingerprint child, en_allowed_sources = au_allowed_sources child,
         en_allowed_tools = au_allowed_tools child, en_write_scope = au_write_scope child,
         en_network_scope = au_network_scope child, en_resource_budget = nb_resource_budget b,
         en_evidence_requirements = nb_evidence_requirements b,
         en_workflow_node_fingerprint = digest (node_json source), en_schema_version = EXECUTION_NODE_SCHEMA\<rparr>))))"

definition plan_build :: "task_context \<Rightarrow> authority \<Rightarrow> json \<Rightarrow> (string \<times> node_binding) list \<Rightarrow> execution_plan result" where
  "plan_build c parent raw bindings =
     bindE (context_validate c) (\<lambda>_.
     if au_task_id parent \<noteq> tx_task_id c then raise P ''EXECUTION_PLAN_PARENT_TASK_MISMATCH''
     else if au_fingerprint parent \<noteq> tx_authority_fingerprint c then raise P ''EXECUTION_PLAN_PARENT_AUTHORITY_MISMATCH''
     else case raw of JObj d \<Rightarrow>
     bindE (reraise (\<lambda>e. e = WorkflowDesignError) P ''INVALID_WORKFLOW_CONTRACT'' (validate_contract (JObj d))) (\<lambda>w.
     bindE (workflow_risk_check w (tx_risk_class c)) (\<lambda>_.
     let unknown = sort (fromkeys (filter (\<lambda>k. k \<notin> set (map nd_id (wf_nodes w))) (map fst bindings))) in
     if unknown \<noteq> [] then raise P (''EXECUTION_PLAN_UNKNOWN_NODE_BINDING:'' @ join '','' unknown)
     else
     bindE (graph (wf_nodes w)) (\<lambda>(order, levels).
     bindE (mapE (build_node c parent w levels bindings) order) (\<lambda>nodes.
     bindE (context_fingerprint c) (\<lambda>cf. bindE (identity_fingerprint c) (\<lambda>idf.
     plan_validate \<lparr>ep_task_id = tx_task_id c, ep_task_context_fingerprint = cf, ep_task_context_identity_fingerprint = idf,
       ep_task_risk_class = tx_risk_class c, ep_parent_authority_fingerprint = au_fingerprint parent,
       ep_task_resource_budget = tx_resource_budget c, ep_workflow_contract_json = dumps (contract_json w),
       ep_workflow_contract_fingerprint = digest (contract_json w), ep_nodes = nodes,
       ep_schema_version = EXECUTION_PLAN_SCHEMA, ep_execution_authorized = False, ep_execution_mode = ''plan_only''\<rparr>
       (Some parent)))))))
   | _ \<Rightarrow> raise P ''INVALID_WORKFLOW_CONTRACT'')"

section \<open>The stored workflow reads back\<close>

text \<open>Validation reads dictionaries by key only, so the order in which canonical JSON stores the keys does
  not matter.\<close>

lemma dict_get_normed:
  assumes "distinct (map fst kvs)" "k \<in> fst ` set kvs"
  shows "dict_get (map (\<lambda>(k, v). (k, norm_json v)) (sort_key fst kvs)) k x = norm_json (dict_get kvs k x)"
proof -
  have "map_of (map (\<lambda>(k, v). (k, norm_json v)) xs) = map_option norm_json \<circ> map_of xs" for xs :: "(string \<times> json) list"
    by (induction xs) (auto simp: fun_eq_iff)
  moreover from assms(2) have "map_of kvs k \<noteq> None" by (simp add: map_of_eq_None_iff)
  ultimately show ?thesis using map_of_sort_key [OF assms(1)] by (auto simp: dict_get_def)
qed

lemma norm_JStr_list [simp]: "norm_json (JList (map JStr xs)) = JList (map JStr xs)"
  by simp

definition normed_node :: "wf_node \<Rightarrow> (string \<times> json) list" where
  "normed_node n = map (\<lambda>(k, v). (k, norm_json v)) (sort_key fst (node_fields n))"

lemma norm_condition_json [simp]: "norm_json (condition_json n) = condition_json n"
  by (simp add: condition_json_def split: option.split)

lemma normed_node_simps:
  "norm_json (node_json n) = JObj (normed_node n)"
  "dict_get (normed_node n) ''id'' x = JStr (nd_id n)"
  "dict_get (normed_node n) ''label'' x = JStr (nd_label n)"
  "dict_get (normed_node n) ''kind'' x = JStr (nd_kind n)"
  "dict_get (normed_node n) ''action'' x = JStr (nd_action n)"
  "dict_get (normed_node n) ''depends_on'' x = JList (map JStr (nd_depends_on n))"
  "dict_get (normed_node n) ''condition'' x = condition_json n"
  "dict_get (normed_node n) ''approval_required'' x = JBool (nd_approval_required n)"
proof -
  have d: "distinct (map fst (node_fields n))" by (simp add: node_fields_def node_json_def)
  show "norm_json (node_json n) = JObj (normed_node n)" by (simp add: node_fields_simps(1) normed_node_def)
  note g = dict_get_normed [OF d, folded normed_node_def]
  show "dict_get (normed_node n) ''id'' x = JStr (nd_id n)"
    "dict_get (normed_node n) ''label'' x = JStr (nd_label n)"
    "dict_get (normed_node n) ''kind'' x = JStr (nd_kind n)"
    "dict_get (normed_node n) ''action'' x = JStr (nd_action n)"
    "dict_get (normed_node n) ''depends_on'' x = JList (map JStr (nd_depends_on n))"
    "dict_get (normed_node n) ''condition'' x = condition_json n"
    "dict_get (normed_node n) ''approval_required'' x = JBool (nd_approval_required n)"
    by (subst g; (simp add: node_fields_def node_json_def; fail)?; simp add: node_fields_simps)+
qed

lemma validate_node_normed: "validate_node seen (normed_node n) = validate_node seen (node_fields n)"
  unfolding validate_node_def normed_node_simps node_fields_simps by (rule refl)

lemma validate_nodes_normed: "validate_nodes (map (norm_json \<circ> node_json) ns) = validate_nodes (map node_json ns)"
proof -
  have step: "node_step acc (norm_json (node_json n)) = node_step acc (node_json n)" for acc n
  proof -
    have "node_step acc (JObj (normed_node n)) = node_step acc (JObj (node_fields n))"
      by (simp add: node_step_def validate_node_normed)
    then show ?thesis by (simp only: normed_node_simps(1) [symmetric] node_fields_simps(1) [symmetric])
  qed
  have "foldE node_step acc (map (norm_json \<circ> node_json) ns) = foldE node_step acc (map node_json ns)" for acc
    by (induction ns arbitrary: acc) (simp_all add: step)
  then show ?thesis by (simp add: validate_nodes_def)
qed

definition normed_contract :: "wf_contract \<Rightarrow> (string \<times> json) list" where
  "normed_contract c = map (\<lambda>(k, v). (k, norm_json v)) (sort_key fst (contract_fields c))"

lemma normed_contract_simps:
  "norm_json (contract_json c) = JObj (normed_contract c)"
  "dict_get (normed_contract c) ''title'' x = JStr (wf_title c)"
  "dict_get (normed_contract c) ''objective'' x = JStr (wf_objective c)"
  "dict_get (normed_contract c) ''trigger'' x = JStr (wf_trigger c)"
  "dict_get (normed_contract c) ''risk_level'' x = JStr (wf_risk_level c)"
  "dict_get (normed_contract c) ''data_class'' x = JStr (wf_data_class c)"
  "dict_get (normed_contract c) ''nodes'' x = JList (map (norm_json \<circ> node_json) (wf_nodes c))"
  "dict_get (normed_contract c) ''outputs'' x = JList (map JStr (wf_outputs c))"
  "dict_get (normed_contract c) ''warnings'' x = JList (map JStr (wf_warnings c))"
proof -
  have d: "distinct (map fst (contract_fields c))" by (simp add: contract_fields_def contract_json_def)
  show "norm_json (contract_json c) = JObj (normed_contract c)" by (simp add: contract_fields_simps(1) normed_contract_def)
  note g = dict_get_normed [OF d, folded normed_contract_def]
  show "dict_get (normed_contract c) ''title'' x = JStr (wf_title c)"
    "dict_get (normed_contract c) ''objective'' x = JStr (wf_objective c)"
    "dict_get (normed_contract c) ''trigger'' x = JStr (wf_trigger c)"
    "dict_get (normed_contract c) ''risk_level'' x = JStr (wf_risk_level c)"
    "dict_get (normed_contract c) ''data_class'' x = JStr (wf_data_class c)"
    "dict_get (normed_contract c) ''nodes'' x = JList (map (norm_json \<circ> node_json) (wf_nodes c))"
    "dict_get (normed_contract c) ''outputs'' x = JList (map JStr (wf_outputs c))"
    "dict_get (normed_contract c) ''warnings'' x = JList (map JStr (wf_warnings c))"
    by (subst g; (simp add: contract_fields_def contract_json_def; fail)?; simp add: contract_fields_simps)+
qed

lemma validate_contract_normed: "validate_contract (norm_json (contract_json c)) = validate_contract (contract_json c)"
proof -
  have "validate_contract (JObj (normed_contract c)) = validate_contract (JObj (contract_fields c))"
    unfolding validate_contract_def json.case normed_contract_simps contract_fields_simps validate_nodes_normed length_map
    by (rule refl)
  then show ?thesis by (simp only: normed_contract_simps(1) [symmetric] contract_fields_simps(1) [symmetric])
qed

lemma node_json_plain: "plain_json (node_json n)"
  by (simp add: node_json_def condition_json_def list_all_iff split: option.split)

lemma contract_json_plain: "plain_json (contract_json c)"
  by (simp add: contract_json_def list_all_iff node_json_plain)

text \<open>A contract stored as canonical text is read back as itself, unless it has more than 12 warnings.\<close>

lemma stored_contract:
  assumes "contract_ok w" "ep_workflow_contract_json p = dumps (contract_json w)"
    "ep_workflow_contract_fingerprint p = digest (contract_json w)"
  shows "validated_workflow p = (if length (wf_warnings w) \<le> 12 then Inr w else raise P ''INVALID_WORKFLOW_CONTRACT'')"
  using assms loads_dumps [OF contract_json_plain, of w] validate_contract_again [OF assms(1)]
  by (simp add: validated_workflow_def validate_contract_normed reraise_def)
section \<open>Deriving again\<close>

lemma compact_id_again: "compact_id v f n = Inr t \<Longrightarrow> compact_id t g n = Inr t"
  by (blast intro: compact_again dest: compactD)

lemma child_list_again:
  assumes "child_list (Some vs) inh f n code = Inr xs"
  shows "child_list (Some xs) inh f n code = Inr xs"
proof -
  from assms obtain cs where cs: "mapE (\<lambda>v. compact_id v f n) vs = Inr cs" "set cs \<subseteq> set inh" "xs = fromkeys cs"
    by (auto simp: child_list_def split: if_splits)
  have "mapE (\<lambda>v. compact_id v f n) xs = Inr xs"
    using mapE_set [OF cs(1)] by (intro mapE_ident) (auto simp: cs(3) intro: compact_id_again)
  with cs show ?thesis by (simp add: child_list_def)
qed

lemma normalize_write_scope_again:
  assumes "normalize_write_scope w f = Inr v"
  shows "normalize_write_scope v g = Inr v"
proof (cases w)
  case (ScopeStr s)
  with assms show ?thesis
    by (auto simp: normalize_write_scope_def safe_path_again split: if_splits dest!: safe_path_is_path)
next
  case (ScopeTuple ts)
  with assms obtain ps where ps: "mapE (\<lambda>t. safe_path t f) ts = Inr ps" "v = ScopeTuple (fromkeys ps)" "ts \<noteq> []"
    by (auto simp: normalize_write_scope_def split: if_splits)
  have "mapE (\<lambda>t. safe_path t g) (fromkeys ps) = Inr (fromkeys ps)"
    using mapE_set [OF ps(1)] by (intro mapE_ident) (auto intro: safe_path_again dest: safe_path_is_path)
  moreover have "fromkeys ps \<noteq> []"
    using mapE_length [OF ps(1)] ps(3) set_fromkeys [of ps] by (metis length_0_conv set_empty)
  ultimately show ?thesis by (simp add: normalize_write_scope_def ps(2))
qed

text \<open>The request that names every field of an authority.\<close>

definition full_request :: "authority \<Rightarrow> child_request" where
  "full_request b = \<lparr>cr_task_id = au_task_id b, cr_allowed_sources = Some (au_allowed_sources b),
     cr_allowed_tools = Some (au_allowed_tools b), cr_write_scope = Some (au_write_scope b),
     cr_network_scope = Some (au_network_scope b)\<rparr>"

lemma derive_child_again:
  assumes "derive_child a \<lparr>cr_task_id = t, cr_allowed_sources = Some ss, cr_allowed_tools = Some ts,
     cr_write_scope = Some w, cr_network_scope = Some n\<rparr> = Inr b"
  shows "derive_child a (full_request b) = Inr b"
proof -
  from assms obtain pw where
    "compact_id t ''child_task_id'' 128 = Inr (au_task_id b)"
    "child_list (Some ss) (au_allowed_sources a) ''child_allowed_source'' 128 ''CHILD_SOURCE_SCOPE_ESCALATION'' = Inr (au_allowed_sources b)"
    "child_list (Some ts) (au_allowed_tools a) ''child_allowed_tool'' 64 ''CHILD_CAPABILITY_ESCALATION'' = Inr (au_allowed_tools b)"
    "normalize_write_scope (au_write_scope a) ''parent_write_scope'' = Inr pw"
    "normalize_write_scope w ''child_write_scope'' = Inr (au_write_scope b)"
    "write_scope_is_subset (au_write_scope b) pw"
    "compact_id n ''child_network_scope'' 64 = Inr (au_network_scope b)"
    "au_network_scope b \<in> set NETWORK_SCOPES" "au_network_scope b = au_network_scope a \<or> au_network_scope b = ''deny''"
    "b = build_authority (au_task_id b) (au_sensitivity a) (au_allowed_sources b) (au_allowed_tools b) (au_write_scope b) (au_network_scope b)"
    unfolding derive_child_def
    by (auto simp: build_authority_def split: if_splits)
  note d = this
  show ?thesis
    using compact_id_again [OF d(1)] child_list_again [OF d(2)] child_list_again [OF d(3)] d(4)
      normalize_write_scope_again [OF d(5)] d(6) compact_id_again [OF d(7)] d(8,9) d(10) [symmetric]
    by (auto simp: derive_child_def full_request_def)
qed

lemma derive_child_fingerprint: "derive_child a r = Inr b \<Longrightarrow> is_sha256_ref (au_fingerprint b)"
  by (auto simp: derive_child_def build_fingerprint split: if_splits)
section \<open>What validation accepts\<close>

definition requirements_ok :: "string list \<Rightarrow> bool" where
  "requirements_ok rs \<longleftrightarrow> list_all (line_ok 256) rs \<and> length rs \<le> MAX_EVIDENCE_REQUIREMENTS \<and> distinct rs \<and> sorted rs"

lemma normalize_requirements_iff: "normalize_requirements vs = Inr r \<longleftrightarrow>
   list_all (line_ok 256) vs \<and> length (fromkeys vs) \<le> MAX_EVIDENCE_REQUIREMENTS \<and> r = sort (fromkeys vs)"
  by (auto simp: normalize_requirements_def lines_iff bindE_Inr_iff Let_def)

lemma requirements_normal:
  "(\<exists>r. normalize_requirements vs = Inr r \<and> r = vs) \<longleftrightarrow> requirements_ok vs"
proof -
  have "sort (fromkeys vs) = vs \<longleftrightarrow> distinct vs \<and> sorted vs"
    by (metis distinct_fromkeys distinct_sort fromkeys_distinct sorted_sort sorted_sort_id)
  then show ?thesis
    by (auto simp: normalize_requirements_iff requirements_ok_def)
qed

lemma normalized_requirements_ok: "normalize_requirements vs = Inr r \<Longrightarrow> requirements_ok r"
  by (auto simp: normalize_requirements_iff requirements_ok_def list_all_iff)

definition node_wf :: "execution_node \<Rightarrow> bool" where
  "node_wf n \<longleftrightarrow> is_sha256_ref (en_authority_fingerprint n) \<and> is_sha256_ref (en_workflow_node_fingerprint n)
     \<and> budget_ok (en_resource_budget n) \<and> en_schema_version n = EXECUTION_NODE_SCHEMA \<and> 0 \<le> en_execution_level n
     \<and> requirements_ok (en_evidence_requirements n)"

lemma node_canonical_iff: "node_canonical n = Inr j \<longleftrightarrow> node_wf n \<and> j = node_json_of n"
  using requirements_normal [of "en_evidence_requirements n"]
  by (auto simp: node_canonical_def node_checks_def checked_iff node_wf_def bindE_Inr_iff)

text \<open>A node that agrees with its workflow node and keeps its approval.\<close>

definition projects :: "wf_contract \<Rightarrow> (string \<rightharpoonup> nat) \<Rightarrow> execution_node \<Rightarrow> bool" where
  "projects w levels n \<longleftrightarrow> node_wf n \<and> levels (en_node_id n) = Some (nat (en_execution_level n))
     \<and> (\<exists>s. by_id (wf_nodes w) (en_node_id n) = Some s \<and> en_workflow_node_fingerprint n = digest (node_json s)
         \<and> en_label n = nd_label s \<and> en_kind n = nd_kind s \<and> en_action n = nd_action s
         \<and> en_depends_on n = nd_depends_on s \<and> en_condition n = nd_condition s
         \<and> (nd_approval_required s \<or> nd_kind s = ''approval'' \<longrightarrow> en_approval_required n))"

lemma level_iff: "0 \<le> i \<Longrightarrow> Some i = map_option int l \<longleftrightarrow> l = Some (nat i)"
  by (cases l) auto

lemma plan_node_check_iff: "plan_node_check w levels seen n = Inr seen' \<longleftrightarrow>
   en_node_id n \<notin> set seen \<and> projects w levels n \<and> seen' = seen @ [en_node_id n]"
proof (cases "node_wf n")
  case True
  then have "0 \<le> en_execution_level n" by (simp add: node_wf_def)
  note level_iff [OF this, of "levels (en_node_id n)"]
  with True show ?thesis
    by (auto simp: plan_node_check_def projects_def bindE_Inr_iff node_canonical_iff split: option.split)
next
  case False
  then show ?thesis
    by (auto simp: plan_node_check_def projects_def bindE_Inr_iff node_canonical_iff split: option.split)
qed

lemma plan_nodes_iff: "foldE (plan_node_check w levels) seen ns = Inr s \<longleftrightarrow>
   s = seen @ map en_node_id ns \<and> set seen \<inter> set (map en_node_id ns) = {} \<and> distinct (map en_node_id ns)
   \<and> list_all (projects w levels) ns"
  by (induction ns arbitrary: seen) (auto simp: bindE_Inr_iff plan_node_check_iff)

definition header_ok :: "execution_plan \<Rightarrow> bool" where
  "header_ok p \<longleftrightarrow> ep_schema_version p = EXECUTION_PLAN_SCHEMA \<and> is_sha256_ref (ep_task_context_fingerprint p)
     \<and> is_sha256_ref (ep_task_context_identity_fingerprint p) \<and> is_sha256_ref (ep_parent_authority_fingerprint p)
     \<and> is_sha256_ref (ep_workflow_contract_fingerprint p) \<and> map_of RISK_RANK (ep_task_risk_class p) \<noteq> None
     \<and> budget_ok (ep_task_resource_budget p) \<and> 2 \<le> length (ep_nodes p) \<and> length (ep_nodes p) \<le> MAX_NODES
     \<and> \<not> ep_execution_authorized p \<and> ep_execution_mode p = ''plan_only''"

definition parent_ok :: "execution_plan \<Rightarrow> authority \<Rightarrow> bool" where
  "parent_ok p a \<longleftrightarrow> au_task_id a = ep_task_id p \<and> au_fingerprint a = ep_parent_authority_fingerprint p
     \<and> list_all (\<lambda>n. \<exists>b. rebind_authority n a = Inr b) (ep_nodes p)"

lemma parent_check_iff: "parent_check p parent = Inr u \<longleftrightarrow> (case parent of None \<Rightarrow> True | Some a \<Rightarrow> parent_ok p a)"
proof -
  have "(\<exists>bs. mapE (\<lambda>n. rebind_authority n a) ns = Inr bs) \<longleftrightarrow> list_all (\<lambda>n. \<exists>b. rebind_authority n a = Inr b) ns" for a ns
    by (induction ns) (auto simp: bindE_Inr_iff)
  then show ?thesis
    by (auto simp: parent_check_def parent_ok_def bindE_Inr_iff split: option.split)
qed

abbreviation budgets_fit :: "execution_plan \<Rightarrow> bool" where
  "budgets_fit p \<equiv> require_aggregate_budget (map en_resource_budget (ep_nodes p)) (ep_task_resource_budget p) = Inr ()"

lemma plan_validate_iff:
  "plan_validate p parent = Inr q \<longleftrightarrow> q = p \<and> header_ok p
     \<and> (\<exists>w levels. validated_workflow p = Inr w \<and> workflow_risk_check w (ep_task_risk_class p) = Inr ()
          \<and> graph (wf_nodes w) = Inr (map en_node_id (ep_nodes p), levels) \<and> distinct (map en_node_id (ep_nodes p))
          \<and> list_all (projects w levels) (ep_nodes p))
     \<and> budgets_fit p \<and> (\<forall>a. parent = Some a \<longrightarrow> parent_ok p a)"
proof -
  have h: "checked (plan_header_checks p) () = Inr u \<and> \<not> (ep_execution_authorized p \<or> ep_execution_mode p \<noteq> ''plan_only'')
      \<longleftrightarrow> header_ok p" for u
    by (auto simp: plan_header_checks_def checked_iff header_ok_def not_less)
  show ?thesis
    unfolding h [of "()", symmetric]
    by (auto simp: plan_validate_def bindE_Inr_iff plan_nodes_iff parent_check_iff split: option.splits if_splits)
qed
section \<open>Order, budgets and authority of accepted plans\<close>

lemma by_id_Some: "by_id nodes i = Some s \<Longrightarrow> s \<in> set nodes \<and> nd_id s = i"
  unfolding by_id_def by (drule map_of_SomeD) auto

lemma validated_workflow_ok: "validated_workflow p = Inr w \<Longrightarrow> contract_ok w"
  by (auto simp: validated_workflow_def split: option.splits if_splits dest: validate_contract_ok)

lemma projected_dependency:
  assumes w: "contract_ok w" and g: "graph (wf_nodes w) = Inr (map en_node_id ns, levels)"
    and pr: "list_all (projects w levels) ns" and i: "i < length ns" and d: "d \<in> set (en_depends_on (ns ! i))"
  shows "\<exists>j < i. en_node_id (ns ! j) = d \<and> en_execution_level (ns ! j) < en_execution_level (ns ! i)"
proof -
  have dn: "distinct (map nd_id (wf_nodes w))" using w by (simp add: contract_ok_def graph_ok_def)
  have lv: "projects w levels (ns ! k)" if "k < length ns" for k using pr that by (simp add: list_all_length)
  then obtain s where s: "s \<in> set (wf_nodes w)" "nd_id s = en_node_id (ns ! i)" "nd_depends_on s = en_depends_on (ns ! i)"
    using i by_id_Some unfolding projects_def by metis
  have "(d, en_node_id (ns ! i)) \<in> set (edges (wf_nodes w))"
    using edges_iff [OF dn s(1)] d by (simp add: s)
  with graph_order(3) [OF dn g] i have "d \<in> set (take i (map en_node_id ns))"
    by (auto simp: topological_def)
  then obtain j where j: "j < i" "en_node_id (ns ! j) = d"
    using i by (auto simp: in_set_conv_nth)
  have "levels (nd_id s) = Some (Max (insert 0 ((\<lambda>p. the (levels p) + 1) ` set (nd_depends_on s))))"
    by (rule graph_level [OF dn g s(1)])
  moreover have "the (levels d) + 1 \<le> Max (insert 0 ((\<lambda>p. the (levels p) + 1) ` set (nd_depends_on s)))"
    using d by (intro Max_ge) (auto simp: s)
  ultimately have "the (levels d) < nat (en_execution_level (ns ! i))"
    using lv [OF i] by (auto simp: projects_def s)
  with lv [of j] j i have "en_execution_level (ns ! j) < en_execution_level (ns ! i)"
    by (auto simp: projects_def)
  with j show ?thesis by blast
qed

lemma map_filter_id_Some: "list_all (\<lambda>v. v \<noteq> None) vs \<Longrightarrow> List.map_filter id vs = map the vs"
  by (induction vs) (auto simp: List.map_filter_simps)

lemma aggregate_check_iff: "aggregate_check f b vs = Inr u \<longleftrightarrow> (case b of
    None \<Rightarrow> list_all (\<lambda>v. v = None) vs
  | Some m \<Rightarrow> list_all (\<lambda>v. v \<noteq> None) vs \<and> \<not> sum_exceeds f (map the vs) m)"
proof -
  have n: "list_ex (\<lambda>v. v = None) vs \<longleftrightarrow> \<not> list_all (\<lambda>v. v \<noteq> None) vs" "list_ex (\<lambda>v. v \<noteq> None) vs \<longleftrightarrow> \<not> list_all (\<lambda>v. v = None) vs"
    by (auto simp: list_ex_iff list_all_iff simp del: not_None_eq not_Some_eq)
  show ?thesis
    unfolding aggregate_check_def n using map_filter_id_Some [of vs]
    by (cases b; cases "list_all (\<lambda>v. v \<noteq> None) vs") simp_all
qed

lemma aggregate_int:
  assumes "aggregate_check f (map_option of_int b) (map (map_option of_int) vs) = Inr ()" "f \<noteq> ''cost_usd''"
  shows "case b of None \<Rightarrow> \<forall>v \<in> set vs. v = None | Some m \<Rightarrow> \<exists>cs. vs = map Some cs \<and> sum_list cs \<le> m"
proof (cases b)
  case None
  with assms show ?thesis by (auto simp: aggregate_check_iff list_all_iff)
next
  case (Some m)
  let ?cs = "map the vs"
  from assms Some have n: "\<forall>v \<in> set vs. v \<noteq> None"
    and s: "\<not> sum_exceeds f (map (the \<circ> map_option rat_of_int) vs) (of_int m)"
    by (auto simp: aggregate_check_iff list_all_iff)
  have vs: "vs = map Some ?cs" using n by (induction vs) auto
  have m: "map (the \<circ> map_option rat_of_int) vs = map of_int ?cs" using n by (induction vs) auto
  have "sum_list (map rat_of_int xs) = of_int (sum_list xs)" for xs by (induction xs) auto
  then have "rat_of_int (sum_list ?cs) \<le> of_int m"
    using s assms(2) unfolding m by (simp add: sum_exceeds_def del: map_map)
  then have "sum_list ?cs \<le> m" by simp
  with vs show ?thesis unfolding Some option.case by blast
qed

lemma aggregate_dimensions:
  assumes "require_aggregate_budget bs t = Inr u"
  shows "aggregate_check ''wall_time_s'' (map_option of_int (rb_wall_time_s t)) (map (map_option of_int) (map rb_wall_time_s bs)) = Inr ()"
    "aggregate_check ''model_tokens'' (map_option of_int (rb_model_tokens t)) (map (map_option of_int) (map rb_model_tokens bs)) = Inr ()"
    "aggregate_check ''tool_calls'' (map_option of_int (rb_tool_calls t)) (map (map_option of_int) (map rb_tool_calls bs)) = Inr ()"
    "aggregate_check ''cost_usd'' (map_option float_val (rb_cost_usd t)) (map (map_option float_val) (map rb_cost_usd bs)) = Inr ()"
  using assms by (simp_all add: require_aggregate_budget_def checked_iff dimensions_def upt_rec comp_def)

lemma rebind_derives:
  assumes "rebind_authority n a = Inr b"
  shows "derive_child a (node_request n) = Inr b" "au_fingerprint b = en_authority_fingerprint n"
  using assms by (auto simp: rebind_authority_def split: if_splits)

lemma rebind_attenuates:
  assumes "rebind_authority n a = Inr b"
  shows "au_fingerprint b = en_authority_fingerprint n" "au_sensitivity b = au_sensitivity a" "permits b q \<Longrightarrow> permits a q"
  using rebind_derives [OF assms] derive_childD(1) derive_child_attenuates by blast+

section \<open>The builder\<close>

definition planned :: "task_context \<Rightarrow> authority \<Rightarrow> wf_contract \<Rightarrow> execution_node list \<Rightarrow> execution_plan" where
  "planned c parent w nodes = \<lparr>ep_task_id = tx_task_id c, ep_task_context_fingerprint = digest (context_json c),
     ep_task_context_identity_fingerprint = digest (JObj (identity_items c)),
     ep_task_risk_class = tx_risk_class c, ep_parent_authority_fingerprint = au_fingerprint parent,
     ep_task_resource_budget = tx_resource_budget c, ep_workflow_contract_json = dumps (contract_json w),
     ep_workflow_contract_fingerprint = digest (contract_json w), ep_nodes = nodes,
     ep_schema_version = EXECUTION_PLAN_SCHEMA, ep_execution_authorized = False, ep_execution_mode = ''plan_only''\<rparr>"

lemma build_node_ok:
  assumes "build_node c parent w levels bindings i = Inr n"
  shows "en_node_id n = i" "projects w levels n" "\<exists>b. rebind_authority n parent = Inr b"
proof -
  from assms obtain s b child level where
    s: "by_id (wf_nodes w) i = Some s"
    and b: "binding_normalized (case map_of bindings i of Some b \<Rightarrow> b | None \<Rightarrow> default_binding) = Inr b"
    and child: "derive_child parent (binding_request (child_task_id (tx_task_id c) i) b) = Inr child"
    and level: "levels i = Some level"
    and n: "n = \<lparr>en_node_id = i, en_label = nd_label s, en_kind = nd_kind s, en_action = nd_action s,
         en_depends_on = nd_depends_on s, en_condition = nd_condition s,
         en_approval_required = (nd_approval_required s \<or> nd_kind s = ''approval''
           \<or> nd_action s = ''human_approval'' \<or> nb_approval_required b),
         en_execution_level = int level, en_authority_task_id = au_task_id child,
         en_authority_fingerprint = au_fingerprint child, en_allowed_sources = au_allowed_sources child,
         en_allowed_tools = au_allowed_tools child, en_write_scope = au_write_scope child,
         en_network_scope = au_network_scope child, en_resource_budget = nb_resource_budget b,
         en_evidence_requirements = nb_evidence_requirements b,
         en_workflow_node_fingerprint = digest (node_json s), en_schema_version = EXECUTION_NODE_SCHEMA\<rparr>"
    by (auto simp: build_node_def split: option.splits)
  from b have "budget_ok (nb_resource_budget b)" "requirements_ok (nb_evidence_requirements b)"
    by (auto simp: binding_normalized_def intro: normalized_requirements_ok)
  with derive_child_fingerprint [OF child] have "node_wf n" by (simp add: n node_wf_def)
  then show "projects w levels n" using s level by (auto simp: projects_def n)
  have "node_request n = full_request child" by (simp add: node_request_def full_request_def n)
  with derive_child_again [OF child [unfolded binding_request_def]] have "rebind_authority n parent = Inr child"
    by (simp add: rebind_authority_def) (simp add: n)
  then show "\<exists>b. rebind_authority n parent = Inr b" by blast
qed (use assms in \<open>auto simp: build_node_def split: option.splits\<close>)
lemma built_plan_ok:
  assumes c: "context_ok c" and p: "au_task_id parent = tx_task_id c" "au_fingerprint parent = tx_authority_fingerprint c"
    and w: "contract_ok w" "workflow_risk_check w (tx_risk_class c) = Inr ()" "graph (wf_nodes w) = Inr (order, levels)"
    and n: "mapE (build_node c parent w levels bindings) order = Inr nodes"
  shows "plan_validate (planned c parent w nodes) (Some parent) = Inr q \<longleftrightarrow> q = planned c parent w nodes
    \<and> length (wf_warnings w) \<le> 12 \<and> budgets_fit (planned c parent w nodes)"
proof -
  let ?p = "planned c parent w nodes"
  have dn: "distinct (map nd_id (wf_nodes w))" using w(1) by (simp add: contract_ok_def graph_ok_def)
  note o = graph_order(1,2) [OF dn w(3)]
  have b: "list_all2 (\<lambda>i n. build_node c parent w levels bindings i = Inr n) order nodes" using n by (simp add: mapE_Inr_iff)
  then have ids: "map en_node_id nodes = order"
    by (induction rule: list_all2_induct) (auto dest: build_node_ok(1))
  have all: "list_all (projects w levels) nodes" "list_all (\<lambda>n. \<exists>b. rebind_authority n parent = Inr b) nodes"
    using b by (induction rule: list_all2_induct) (auto dest: build_node_ok(2,3))
  have "length nodes = length (wf_nodes w)"
    using mapE_length [OF n] o distinct_card [OF o(1)] distinct_card [OF dn] by simp
  then have h: "header_ok ?p"
    using c w(1) p(2) by (auto simp: header_ok_def planned_def context_ok_def contract_ok_def RISK_RANK_def RISK_CLASSES_def)
  have pw: "validated_workflow ?p = (if length (wf_warnings w) \<le> 12 then Inr w else raise P ''INVALID_WORKFLOW_CONTRACT'')"
    by (rule stored_contract [OF w(1)]) (simp_all add: planned_def)
  have "parent_ok ?p parent" using p all(2) by (simp add: parent_ok_def planned_def)
  then show ?thesis
    unfolding plan_validate_iff pw using h all(1) w(2,3) ids o(1)
    by (auto simp: planned_def)
qed

lemma plan_build_iff:
  "plan_build c parent (JObj d) bindings = Inr p \<longleftrightarrow>
     context_ok c \<and> au_task_id parent = tx_task_id c \<and> au_fingerprint parent = tx_authority_fingerprint c
   \<and> (\<exists>w order levels nodes. validate_contract (JObj d) = Inr w \<and> workflow_risk_check w (tx_risk_class c) = Inr ()
        \<and> fst ` set bindings \<subseteq> nd_id ` set (wf_nodes w) \<and> graph (wf_nodes w) = Inr (order, levels)
        \<and> mapE (build_node c parent w levels bindings) order = Inr nodes
        \<and> length (wf_warnings w) \<le> 12 \<and> p = planned c parent w nodes
        \<and> require_aggregate_budget (map en_resource_budget nodes) (tx_resource_budget c) = Inr ())" (is "_ \<longleftrightarrow> ?rhs")
proof -
  have unknown: "sort (fromkeys (filter (\<lambda>k. k \<notin> nd_id ` set (wf_nodes w)) (map fst bindings))) = []
      \<longleftrightarrow> fst ` set bindings \<subseteq> nd_id ` set (wf_nodes w)" for w
  proof -
    have "sort (fromkeys xs) = [] \<longleftrightarrow> set xs = {}" for xs :: "string list" by (metis set_empty set_fromkeys set_sort)
    then show ?thesis by (simp only: set_filter set_map) auto
  qed
  have e: "plan_validate (planned c parent w nodes) (Some parent) = Inr p \<longleftrightarrow> length (wf_warnings w) \<le> 12
      \<and> p = planned c parent w nodes \<and> require_aggregate_budget (map en_resource_budget nodes) (tx_resource_budget c) = Inr ()"
    if "context_ok c" "au_task_id parent = tx_task_id c" "au_fingerprint parent = tx_authority_fingerprint c"
      "validate_contract (JObj d) = Inr w" "workflow_risk_check w (tx_risk_class c) = Inr ()" "graph (wf_nodes w) = Inr (order, levels)"
      "mapE (build_node c parent w levels bindings) order = Inr nodes" for w order levels nodes
    using built_plan_ok [OF that(1-3) validate_contract_ok [OF that(4)] that(5-7), of p] by (auto simp: planned_def)
  have "plan_build c parent (JObj d) bindings = Inr p \<longleftrightarrow>
     context_ok c \<and> au_task_id parent = tx_task_id c \<and> au_fingerprint parent = tx_authority_fingerprint c
   \<and> (\<exists>w order levels nodes. validate_contract (JObj d) = Inr w \<and> workflow_risk_check w (tx_risk_class c) = Inr ()
        \<and> fst ` set bindings \<subseteq> nd_id ` set (wf_nodes w) \<and> graph (wf_nodes w) = Inr (order, levels)
        \<and> mapE (build_node c parent w levels bindings) order = Inr nodes
        \<and> plan_validate (planned c parent w nodes) (Some parent) = Inr p)"
    by (cases "validate_contract (JObj d)")
      (auto simp: plan_build_def planned_def Let_def unknown bindE_Inr_iff split: if_splits)
  also have "\<dots> \<longleftrightarrow> ?rhs"
    by (intro conj_cong refl ex_cong1) (rule e)
  finally show ?thesis .
qed

lemma plan_build_valid:
  assumes "plan_build c parent raw bindings = Inr p"
  shows "plan_validate p (Some parent) = Inr p"
proof -
  from assms obtain q where q: "plan_validate q (Some parent) = Inr p"
    by (auto simp: plan_build_def Let_def split: if_splits json.splits)
  then have "p = q" unfolding plan_validate_iff by simp
  with q show ?thesis by simp
qed

lemma plan_order_facts:
  assumes "plan_validate p parent = Inr q"
  shows "q = p" "distinct (map en_node_id (ep_nodes p))"
    "\<And>i d. i < length (ep_nodes p) \<Longrightarrow> d \<in> set (en_depends_on (ep_nodes p ! i)) \<Longrightarrow> \<exists>j < i. en_node_id (ep_nodes p ! j) = d
         \<and> en_execution_level (ep_nodes p ! j) < en_execution_level (ep_nodes p ! i)"
  using assms validated_workflow_ok projected_dependency unfolding plan_validate_iff by blast+

lemma rebind_authorities_total:
  assumes "plan_validate p (Some a) = Inr q"
  shows "\<exists>bs. rebind_authorities p a = Inr bs"
proof -
  let ?f = "\<lambda>n. bindE (rebind_authority n a) (\<lambda>b. Inr (en_node_id n, b))"
  have "\<exists>bs. mapE ?f ns = Inr bs" if "list_all (\<lambda>n. \<exists>b. rebind_authority n a = Inr b) ns" for ns
    using that by (induction ns) (auto simp: bindE_Inr_iff)
  moreover have "list_all (\<lambda>n. \<exists>b. rebind_authority n a = Inr b) (ep_nodes p)"
    using assms by (simp add: plan_validate_iff parent_ok_def)
  ultimately have "\<exists>bs. mapE ?f (ep_nodes p) = Inr bs" by blast
  with assms show ?thesis by (simp add: rebind_authorities_def)
qed

section \<open>Properties\<close>

text \<open>C24: the builder succeeds exactly when the context is valid and bound to the given authority, the contract
  is valid and its risk level is not classified below the task's risk class, every binding names a node, every node can be built (its binding is well
  formed, within the task's budget and derivable from the parent), the budgets of all nodes together fit the
  task's, and the contract carries at most 12 warnings. The last condition comes from validating the stored contract again;
  nothing else of the final validation can fail: deriving the node authorities a second time from their own
  projections gives the same fingerprints.\<close>

theorem plan_build_decides:
  "plan_build c parent (JObj d) bindings = Inr p \<longleftrightarrow>
     context_ok c \<and> au_task_id parent = tx_task_id c \<and> au_fingerprint parent = tx_authority_fingerprint c
   \<and> (\<exists>w order levels nodes. validate_contract (JObj d) = Inr w \<and> workflow_risk_check w (tx_risk_class c) = Inr ()
        \<and> fst ` set bindings \<subseteq> nd_id ` set (wf_nodes w) \<and> graph (wf_nodes w) = Inr (order, levels)
        \<and> mapE (build_node c parent w levels bindings) order = Inr nodes
        \<and> length (wf_warnings w) \<le> 12 \<and> p = planned c parent w nodes
        \<and> require_aggregate_budget (map en_resource_budget nodes) (tx_resource_budget c) = Inr ())"
  by (rule plan_build_iff)

text \<open>A plan for the two-step contract: the first node may read files, the second gets the default binding.\<close>

definition demo_plan_authority :: authority where
  "demo_plan_authority = build_authority ''T'' ''internal'' [''docs''] [''read_file'', ''write_staging''] (ScopeStr ''none'') ''internal_only''"

definition demo_bindings :: "(string \<times> node_binding) list" where
  "demo_bindings = [(''gather'', default_binding\<lparr>nb_allowed_tools := [''read_file''],
     nb_resource_budget := \<lparr>rb_wall_time_s = Some 20, rb_model_tokens = Some 40, rb_tool_calls = Some 2, rb_cost_usd = None\<rparr>,
     nb_evidence_requirements := [''log'']\<rparr>)]"

definition demo_plan_context :: task_context where
  "demo_plan_context = demo_context\<lparr>tx_authority_fingerprint := au_fingerprint demo_plan_authority\<rparr>"

definition demo_levels :: "string \<rightharpoonup> nat" where
  "demo_levels = (case graph (wf_nodes (demo_contract [])) of Inr (_, levels) \<Rightarrow> levels | Inl _ \<Rightarrow> Map.empty)"

lemma demo_plan_context_ok: "context_ok demo_plan_context"
  using demo_context_ok by (simp add: demo_plan_context_def context_ok_def demo_plan_authority_def build_fingerprint)

lemma demo_graph: "graph (wf_nodes (demo_contract [])) = Inr ([''gather'', ''write''], demo_levels)"
    "demo_levels ''gather'' = Some 0" "demo_levels ''write'' = Some 1"
proof -
  have "(case graph (wf_nodes (demo_contract [])) of Inr (o', _) \<Rightarrow> o' = [''gather'', ''write''] | Inl _ \<Rightarrow> False)" by code_simp
  then show "graph (wf_nodes (demo_contract [])) = Inr ([''gather'', ''write''], demo_levels)"
    by (auto simp: demo_levels_def split: sum.splits)
  show "demo_levels ''gather'' = Some 0" "demo_levels ''write'' = Some 1" unfolding demo_levels_def by code_simp+
qed

definition demo_node_authority :: "string \<Rightarrow> string list \<Rightarrow> authority" where
  "demo_node_authority i tools = build_authority (''T:'' @ i) ''internal'' [] tools (ScopeStr ''none'') ''deny''"

definition demo_node :: "wf_node \<Rightarrow> string list \<Rightarrow> int \<Rightarrow> resource_budget \<Rightarrow> string list \<Rightarrow> execution_node" where
  "demo_node s tools level budget reqs = (let a = demo_node_authority (nd_id s) tools in
     \<lparr>en_node_id = nd_id s, en_label = nd_label s, en_kind = nd_kind s, en_action = nd_action s,
      en_depends_on = nd_depends_on s, en_condition = nd_condition s, en_approval_required = False,
      en_execution_level = level, en_authority_task_id = au_task_id a, en_authority_fingerprint = au_fingerprint a,
      en_allowed_sources = [], en_allowed_tools = tools, en_write_scope = ScopeStr ''none'', en_network_scope = ''deny'',
      en_resource_budget = budget, en_evidence_requirements = reqs,
      en_workflow_node_fingerprint = digest (node_json s), en_schema_version = EXECUTION_NODE_SCHEMA\<rparr>)"

definition demo_nodes :: "execution_node list" where
  "demo_nodes = [demo_node (wf_nodes (demo_contract []) ! 0) [''read_file''] 0
       \<lparr>rb_wall_time_s = Some 20, rb_model_tokens = Some 40, rb_tool_calls = Some 2, rb_cost_usd = None\<rparr> [''log''],
     demo_node (wf_nodes (demo_contract []) ! 1) [] 1 zero_budget []]"

lemma demo_derived:
  "derive_child demo_plan_authority (binding_request ''T:gather'' (default_binding\<lparr>nb_allowed_tools := [''read_file''],
     nb_resource_budget := b, nb_evidence_requirements := r\<rparr>)) = Inr (demo_node_authority ''gather'' [''read_file''])"
  "derive_child demo_plan_authority (binding_request ''T:write'' default_binding) = Inr (demo_node_authority ''write'' [])"
proof -
  have "compact_id ''T:gather'' ''child_task_id'' 128 = Inr ''T:gather''" "compact_id ''T:write'' ''child_task_id'' 128 = Inr ''T:write''"
    "compact_id ''read_file'' ''child_allowed_tool'' 64 = Inr ''read_file''" "compact_id ''deny'' ''child_network_scope'' 64 = Inr ''deny''"
    by code_simp+
  then show "derive_child demo_plan_authority (binding_request ''T:gather'' (default_binding\<lparr>nb_allowed_tools := [''read_file''],
     nb_resource_budget := b, nb_evidence_requirements := r\<rparr>)) = Inr (demo_node_authority ''gather'' [''read_file''])"
    "derive_child demo_plan_authority (binding_request ''T:write'' default_binding) = Inr (demo_node_authority ''write'' [])"
    by (simp_all add: derive_child_def demo_plan_authority_def binding_request_def default_binding_def demo_node_authority_def
        build_authority_def child_list_def normalize_write_scope_def write_scope_is_subset_def NETWORK_SCOPES_def)
qed

lemma demo_nodes_built:
  "mapE (build_node demo_plan_context demo_plan_authority (demo_contract []) demo_levels demo_bindings) [''gather'', ''write''] = Inr demo_nodes"
proof -
  have "line_ok 64 ''deny''" "line_ok 256 ''log''" by code_simp+
  then have b: "binding_normalized (snd (demo_bindings ! 0)) = Inr (snd (demo_bindings ! 0))"
      "binding_normalized default_binding = Inr default_binding"
    by (simp_all add: binding_normalized_def demo_bindings_def default_binding_def zero_budget_def budget_ok_def negative_def
        normalize_requirements_def MAX_EVIDENCE_REQUIREMENTS_def normalize_scope_def)
  have s: "require_budget_subset (nb_resource_budget (snd (demo_bindings ! 0))) (tx_resource_budget demo_plan_context) = Inr ()"
    "require_budget_subset zero_budget (tx_resource_budget demo_plan_context) = Inr ()"
    by (simp_all add: require_budget_subset_def demo_bindings_def demo_plan_context_def demo_context_def budget_ok_def negative_def
        zero_budget_def dimensions_def checked_iff budget_dimension_is_subset_def)
  have i: "child_task_id ''T'' ''gather'' = ''T:gather''" "child_task_id ''T'' ''write'' = ''T:write''" "tx_task_id demo_plan_context = ''T''"
    by (simp_all add: child_task_id_def demo_plan_context_def demo_context_def)
  show ?thesis
    using b s i demo_derived demo_graph(2,3)
    by (simp add: build_node_def by_id_def demo_contract_def demo_bindings_def demo_nodes_def demo_node_def demo_node_authority_def
        build_authority_def default_binding_def)
qed

definition demo_plan :: execution_plan where
  "demo_plan = planned demo_plan_context demo_plan_authority (demo_contract []) demo_nodes"

lemma demo_plan_built: "plan_build demo_plan_context demo_plan_authority (demo_raw []) demo_bindings = Inr demo_plan"
proof -
  obtain d where d: "demo_raw [] = JObj d" by (simp add: demo_raw_def)
  have "workflow_risk_check (demo_contract []) ''R1'' = Inr ()" by code_simp
  moreover have "require_aggregate_budget (map en_resource_budget demo_nodes) (tx_resource_budget demo_plan_context) = Inr ()"
    by (simp add: require_aggregate_budget_def checked_iff demo_nodes_def demo_node_def Let_def zero_budget_def dimensions_def
        demo_plan_context_def demo_context_def aggregate_check_iff sum_exceeds_def upt_rec)
  moreover have "length (wf_warnings (demo_contract [])) \<le> 12" "fst ` set demo_bindings \<subseteq> nd_id ` set (wf_nodes (demo_contract []))"
    "au_task_id demo_plan_authority = tx_task_id demo_plan_context" "tx_risk_class demo_plan_context = ''R1''"
    "au_fingerprint demo_plan_authority = tx_authority_fingerprint demo_plan_context"
    by (simp_all add: demo_contract_def demo_bindings_def demo_plan_authority_def demo_plan_context_def demo_context_def build_authority_def)
  ultimately show ?thesis
    unfolding d plan_build_iff demo_plan_def
    using validate_demo(1) [unfolded d] demo_graph(1) demo_nodes_built demo_plan_context_ok by auto
qed

theorem plan_build_decides_witness:
  "\<exists>d w order levels. demo_raw [] = JObj d \<and> plan_build demo_plan_context demo_plan_authority (JObj d) demo_bindings = Inr demo_plan
     \<and> validate_contract (JObj d) = Inr w \<and> workflow_risk_check w (tx_risk_class demo_plan_context) = Inr ()
     \<and> graph (wf_nodes w) = Inr (order, levels) \<and> length (wf_warnings w) \<le> 12"
proof -
  obtain d where d: "demo_raw [] = JObj d" by (simp add: demo_raw_def)
  with demo_plan_built plan_build_decides [of demo_plan_context demo_plan_authority d demo_bindings demo_plan] show ?thesis by auto
qed

lemma demo_plan_valid: "plan_validate demo_plan (Some demo_plan_authority) = Inr demo_plan"
  using demo_plan_built by (rule plan_build_valid)

text \<open>Dependencies of an accepted plan come first. The nodes of a plan that validates have distinct ids, and
  every dependency of a node is an earlier node on a lower level: a scheduler that follows the order never waits for
  a later node.\<close>

theorem plan_dependencies_first:
  assumes "plan_validate p parent = Inr q"
  shows "q = p \<and> distinct (map en_node_id (ep_nodes p))
    \<and> (\<forall>i < length (ep_nodes p). \<forall>d \<in> set (en_depends_on (ep_nodes p ! i)). \<exists>j < i. en_node_id (ep_nodes p ! j) = d
         \<and> en_execution_level (ep_nodes p ! j) < en_execution_level (ep_nodes p ! i))"
  using plan_order_facts [OF assms] by blast

theorem plan_dependencies_first_witness:
  "plan_validate demo_plan None = Inr demo_plan
   \<and> (\<exists>j < 1. en_node_id (ep_nodes demo_plan ! j) = ''gather''
        \<and> en_execution_level (ep_nodes demo_plan ! j) < en_execution_level (ep_nodes demo_plan ! 1))"
proof -
  have v: "plan_validate demo_plan None = Inr demo_plan"
    using demo_plan_valid by (simp add: plan_validate_iff)
  have "1 < length (ep_nodes demo_plan)" "''gather'' \<in> set (en_depends_on (ep_nodes demo_plan ! 1))"
    by (simp_all add: demo_plan_def planned_def demo_nodes_def demo_node_def demo_contract_def Let_def)
  with plan_dependencies_first [OF v] v show ?thesis by blast
qed

text \<open>C20: no node of a plan has authority its task lacks. When \<open>rebind_authorities\<close> succeeds it gives one
  authority per node, in plan order, with the fingerprint recorded in the node; each keeps the sensitivity of the
  parent, and every request it permits is permitted by the parent.\<close>

theorem plan_attenuates:
  assumes "rebind_authorities p parent = Inr bs"
  shows "map fst bs = map en_node_id (ep_nodes p) \<and> map (au_fingerprint \<circ> snd) bs = map en_authority_fingerprint (ep_nodes p)
    \<and> (\<forall>b \<in> set bs. au_sensitivity (snd b) = au_sensitivity parent \<and> (\<forall>q. permits (snd b) q \<longrightarrow> permits parent q))"
proof -
  from assms have "list_all2 (\<lambda>n b. fst b = en_node_id n \<and> rebind_authority n parent = Inr (snd b)) (ep_nodes p) bs"
    by (auto simp: rebind_authorities_def mapE_Inr_iff bindE_Inr_iff elim!: list_all2_mono)
  then show ?thesis
    by (induction rule: list_all2_induct) (auto dest: rebind_attenuates)
qed

theorem plan_attenuates_witness:
  "\<exists>bs. rebind_authorities demo_plan demo_plan_authority = Inr bs \<and> map fst bs = [''gather'', ''write'']
     \<and> (\<forall>b \<in> set bs. \<forall>q. permits (snd b) q \<longrightarrow> permits demo_plan_authority q)"
proof -
  obtain bs where bs: "rebind_authorities demo_plan demo_plan_authority = Inr bs"
    using rebind_authorities_total [OF demo_plan_valid] by blast
  from plan_attenuates [OF this] have "map fst bs = [''gather'', ''write'']"
    by (simp add: demo_plan_def planned_def demo_nodes_def demo_node_def demo_contract_def Let_def)
  with bs plan_attenuates [OF bs] show ?thesis by (intro exI [of _ bs]) simp
qed

text \<open>C34: the budgets of a plan never oversubscribe its task. In every integer dimension the task bounds,
  each node of an accepted plan has a non-negative share and the shares add up to at most the bound; in a dimension
  the task leaves open no node has a share.\<close>

theorem plan_budget_bounds:
  assumes "plan_validate p parent = Inr q" "share \<in> {rb_wall_time_s, rb_model_tokens, rb_tool_calls}"
  shows "case share (ep_task_resource_budget p) of
      None \<Rightarrow> \<forall>n \<in> set (ep_nodes p). share (en_resource_budget n) = None
    | Some b \<Rightarrow> \<exists>cs. map (\<lambda>n. share (en_resource_budget n)) (ep_nodes p) = map Some cs \<and> sum_list cs \<le> b \<and> (\<forall>c \<in> set cs. 0 \<le> c)"
proof -
  from assms(1) have "budgets_fit p" by (simp add: plan_validate_iff)
  note d = aggregate_dimensions(1-3) [OF this, THEN aggregate_int]
  have nn: "case share (en_resource_budget n) of None \<Rightarrow> True | Some c \<Rightarrow> 0 \<le> c" if "n \<in> set (ep_nodes p)" for n
  proof -
    from assms(1) that have "budget_ok (en_resource_budget n)"
      by (auto simp: plan_validate_iff list_all_iff projects_def node_wf_def)
    with assms(2) show ?thesis by (auto simp: budget_ok_def negative_def split: option.splits)
  qed
  have s: "case share (ep_task_resource_budget p) of
      None \<Rightarrow> \<forall>v \<in> set (map share (map en_resource_budget (ep_nodes p))). v = None
    | Some b \<Rightarrow> \<exists>cs. map share (map en_resource_budget (ep_nodes p)) = map Some cs \<and> sum_list cs \<le> b"
    using assms(2) d by (elim insertE emptyE; hypsubst; simp)
  show ?thesis
  proof (cases "share (ep_task_resource_budget p)")
    case None
    with s show ?thesis by simp
  next
    case (Some b)
    with s obtain cs where cs: "map (\<lambda>n. share (en_resource_budget n)) (ep_nodes p) = map Some cs" "sum_list cs \<le> b"
      by (auto simp: comp_def)
    have "0 \<le> c" if "c \<in> set cs" for c
    proof -
      from that have "Some c \<in> set (map (\<lambda>n. share (en_resource_budget n)) (ep_nodes p))" by (simp add: cs(1))
      then obtain n where n: "n \<in> set (ep_nodes p)" "share (en_resource_budget n) = Some c" by auto
      from nn [OF n(1)] show ?thesis by (simp add: n(2))
    qed
    with cs Some show ?thesis by auto
  qed
qed

theorem plan_budget_bounds_witness:
  "\<exists>cs. map (\<lambda>n. rb_tool_calls (en_resource_budget n)) (ep_nodes demo_plan) = map Some cs \<and> sum_list cs \<le> 5"
proof -
  have "rb_tool_calls (ep_task_resource_budget demo_plan) = Some 5"
    by (simp add: demo_plan_def planned_def demo_plan_context_def demo_context_def)
  with plan_budget_bounds [OF demo_plan_valid, of rb_tool_calls] show ?thesis by auto
qed

end
