(* ===== verification/Execution_Observation.thy ===== *)
theory Execution_Observation
  imports Execution_Plan "HOL-Library.Product_Lexorder"
begin

text \<open>
  Model of \<open>src/three_agent/execution_observation.py\<close>: the immutable report on the execution of one node of a
  plan. An observation carries the fingerprints of its task context, plan, node and authority, a status, two
  normalised timestamps, an optional output in canonical JSON, evidence bindings and a cost; its identifier is derived
  from all of them, and validation against a plan repeats every check of the builder.

  Costs are Python floats (\<open>nan\<close> and the infinities included, which only the canonical form refuses).
\<close>

section \<open>Helpers\<close>

abbreviation OBS :: exc_class where "OBS \<equiv> ExecutionObservationError"

definition EXECUTION_OBSERVATION_SCHEMA :: string where
  "EXECUTION_OBSERVATION_SCHEMA = ''workspace-execution-observation/v1''"

definition EXECUTION_EVIDENCE_BINDING_SCHEMA :: string where
  "EXECUTION_EVIDENCE_BINDING_SCHEMA = ''workspace-execution-evidence-binding/v1''"

definition OBSERVATION_STATUSES :: "string list" where
  "OBSERVATION_STATUSES = [''SUCCEEDED'', ''FAILED'', ''PARTIAL'', ''CANCELLED'']"

definition MAX_NORMALIZED_OUTPUT_BYTES :: nat where
  "MAX_NORMALIZED_OUTPUT_BYTES = 64 * 1024"

definition MAX_EVIDENCE_BINDINGS :: nat where
  "MAX_EVIDENCE_BINDINGS = 32"

definition REF_RE :: "string \<Rightarrow> bool" where
  "REF_RE s = ident_match is_alnum (\<lambda>c. is_alnum c \<or> c \<in> set ''._:@+-/'') 0 255 s"

definition reference :: "string \<Rightarrow> string \<Rightarrow> string result" where
  "reference v field = bindE (single_line OBS v field 256) (\<lambda>t.
     if \<not> REF_RE t \<or> contains ''://'' t then invalid OBS field
     else if ''..'' \<in> set (split_on (CHR ''/'') t) then invalid OBS field
     else Inr t)"

abbreviation with_offset :: "string \<Rightarrow> string" where
  "with_offset v \<equiv> replace_char (CHR ''Z'') ''+00:00'' v"

definition obs_timestamp :: "string \<Rightarrow> string \<Rightarrow> string result" where
  "obs_timestamp v field = (if strip v = [] then invalid OBS field
     else case fromisoformat (with_offset (strip v)) of None \<Rightarrow> invalid OBS field
     | Some p \<Rightarrow> if dt_offset p = None then invalid OBS field else utc_text p)"

definition read_utc :: "string \<Rightarrow> pydt result" where
  "read_utc v = (case fromisoformat (with_offset v) of None \<Rightarrow> raise ValueError ''Invalid isoformat string'' | Some p \<Rightarrow> Inr p)"

text \<open>\<open>finished < started\<close> on aware datetimes.\<close>

definition period_check :: "string \<Rightarrow> string \<Rightarrow> unit result" where
  "period_check started finished = bindE (read_utc finished) (\<lambda>f. bindE (read_utc started) (\<lambda>s.
     fail_if OBS (instant f < instant s) ''OBSERVATION_FINISHED_BEFORE_STARTED''))"

abbreviation obs_text :: "json \<Rightarrow> string result" where
  "obs_text \<equiv> canonical_text OBS ''OBSERVATION_NOT_CANONICAL_JSON''"

definition normalized_output_json :: "json option \<Rightarrow> string option result" where
  "normalized_output_json v = (case v of None \<Rightarrow> Inr None
   | Some (JObj d) \<Rightarrow> bindE (obs_text (JObj d)) (\<lambda>t.
       if MAX_NORMALIZED_OUTPUT_BYTES < length (utf8 t) then raise OBS ''NORMALIZED_OUTPUT_BOUND_EXCEEDED'' else Inr (Some t))
   | Some _ \<Rightarrow> raise OBS ''NORMALIZED_OUTPUT_MUST_BE_OBJECT'')"

definition node_for :: "execution_plan \<Rightarrow> string \<Rightarrow> execution_node result" where
  "node_for p i = (case List.find (\<lambda>n. en_node_id n = i) (ep_nodes p) of Some n \<Rightarrow> Inr n
   | None \<Rightarrow> raise OBS (''OBSERVATION_UNKNOWN_NODE:'' @ i))"

section \<open>Costs\<close>

record observation_cost =
  oc_wall_time_s :: pyfloat
  oc_model_tokens :: int
  oc_tool_calls :: int
  oc_cost_usd :: "pyfloat option"

text \<open>\<open>x < 0\<close> and \<open>x > bound\<close> for a float; every comparison with \<open>nan\<close> is false.\<close>

fun float_neg :: "pyfloat \<Rightarrow> bool" where
  "float_neg (FiniteFloat q t) = (q < 0)"
| "float_neg (NonFinite t) = (t = ''-inf'')"

fun float_above :: "pyfloat \<Rightarrow> rat \<Rightarrow> bool" where
  "float_above (FiniteFloat q t) b = (b < q)"
| "float_above (NonFinite t) b = (t = ''inf'')"

definition cost_validate :: "observation_cost \<Rightarrow> observation_cost result" where
  "cost_validate c = checked
     [fail_if OBS (float_neg (oc_wall_time_s c)) ''INVALID_OBSERVATION_WALL_TIME'',
      fail_if OBS (oc_model_tokens c < 0) ''INVALID_OBSERVATION_MODEL_TOKENS'',
      fail_if OBS (oc_tool_calls c < 0) ''INVALID_OBSERVATION_TOOL_CALLS'',
      fail_if OBS (case oc_cost_usd c of None \<Rightarrow> False | Some f \<Rightarrow> float_neg f) ''INVALID_OBSERVATION_COST_USD''] c"

definition cost_json :: "observation_cost \<Rightarrow> json" where
  "cost_json c = JObj [(''wall_time_s'', JFloat (float_text (oc_wall_time_s c))), (''model_tokens'', JInt (oc_model_tokens c)),
     (''tool_calls'', JInt (oc_tool_calls c)),
     (''cost_usd'', case oc_cost_usd c of None \<Rightarrow> JNull | Some f \<Rightarrow> JFloat (float_text f))]"

text \<open>\<open>value > limit\<close>, where comparing with \<open>None\<close> raises.\<close>

definition exceeds :: "int option \<Rightarrow> (int \<Rightarrow> bool) \<Rightarrow> string \<Rightarrow> unit result" where
  "exceeds limit over msg = (case limit of
     None \<Rightarrow> raise TypeError ''not supported between instances'' | Some m \<Rightarrow> fail_if OBS (over m) msg)"

definition cost_validate_against :: "observation_cost \<Rightarrow> execution_node \<Rightarrow> observation_cost result" where
  "cost_validate_against c n = bindE (cost_validate c) (\<lambda>_. let b = en_resource_budget n in checked
     [exceeds (rb_wall_time_s b) (\<lambda>m. float_above (oc_wall_time_s c) (of_int m)) ''OBSERVATION_WALL_TIME_EXCEEDS_NODE_BUDGET'',
      exceeds (rb_model_tokens b) (\<lambda>m. m < oc_model_tokens c) ''OBSERVATION_MODEL_TOKENS_EXCEED_NODE_BUDGET'',
      exceeds (rb_tool_calls b) (\<lambda>m. m < oc_tool_calls c) ''OBSERVATION_TOOL_CALLS_EXCEED_NODE_BUDGET'',
      fail_if OBS (case oc_cost_usd c of None \<Rightarrow> False
        | Some f \<Rightarrow> (case rb_cost_usd b of None \<Rightarrow> True | Some g \<Rightarrow> float_above f (float_val g)))
        ''OBSERVATION_COST_EXCEEDS_NODE_BUDGET''] c)"

section \<open>Evidence\<close>

record evidence_binding =
  ev_evidence_ref :: string
  ev_evidence_fingerprint :: string
  ev_requirement :: "string option"
  ev_schema_version :: string

definition evidence_validate :: "evidence_binding \<Rightarrow> evidence_binding result" where
  "evidence_validate b = checked
     [fail_if OBS (ev_schema_version b \<noteq> EXECUTION_EVIDENCE_BINDING_SCHEMA) ''EVIDENCE_BINDING_SCHEMA_VERSION_MISMATCH'',
      void (reference (ev_evidence_ref b) ''evidence_ref''),
      void (sha256_field OBS (ev_evidence_fingerprint b) ''evidence_fingerprint''),
      (case ev_requirement b of None \<Rightarrow> Inr () | Some r \<Rightarrow> void (single_line OBS r ''evidence_requirement'' 256))] b"

definition evidence_json :: "evidence_binding \<Rightarrow> json" where
  "evidence_json b = JObj [(''schema_version'', JStr (ev_schema_version b)), (''requirement'', str_json (ev_requirement b)),
     (''evidence_ref'', JStr (ev_evidence_ref b)), (''evidence_fingerprint'', JStr (ev_evidence_fingerprint b))]"

definition evidence_row :: "evidence_binding \<Rightarrow> string option \<times> string \<times> string" where
  "evidence_row b = (ev_requirement b, ev_evidence_ref b, ev_evidence_fingerprint b)"

text \<open>One turn of the loop; the rows and requirements seen so far are those of the bindings kept.\<close>

definition evidence_step :: "evidence_binding list \<Rightarrow> evidence_binding \<Rightarrow> evidence_binding list result" where
  "evidence_step kept b = bindE (evidence_validate b) (\<lambda>_.
     if evidence_row b \<in> evidence_row ` set kept then Inr kept
     else case ev_requirement b of
       Some r \<Rightarrow> if Some r \<in> ev_requirement ` set kept then raise OBS (''DUPLICATE_EVIDENCE_REQUIREMENT:'' @ r)
         else Inr (kept @ [b])
     | None \<Rightarrow> Inr (kept @ [b]))"

definition evidence_key :: "evidence_binding \<Rightarrow> string \<times> string \<times> string" where
  "evidence_key b = (case ev_requirement b of None \<Rightarrow> [] | Some r \<Rightarrow> r, ev_evidence_ref b, ev_evidence_fingerprint b)"

definition normalize_evidence_bindings :: "evidence_binding list \<Rightarrow> evidence_binding list result" where
  "normalize_evidence_bindings bs = (
     if MAX_EVIDENCE_BINDINGS < length bs then raise OBS ''EVIDENCE_BINDING_BOUND_EXCEEDED''
     else bindE (foldE evidence_step [] bs) (\<lambda>kept. Inr (sort_key evidence_key kept)))"

definition validate_evidence_requirements :: "execution_node \<Rightarrow> string \<Rightarrow> evidence_binding list \<Rightarrow> unit result" where
  "validate_evidence_requirements n status bs = (
     let declared = en_evidence_requirements n; satisfied = List.map_filter ev_requirement bs;
         unknown = sort (fromkeys (filter (\<lambda>r. r \<notin> set declared) satisfied));
         missing = sort (fromkeys (filter (\<lambda>r. r \<notin> set satisfied) declared)) in
     if unknown \<noteq> [] then raise OBS (''OBSERVATION_UNDECLARED_EVIDENCE_REQUIREMENT:'' @ join '','' unknown)
     else if status = ''SUCCEEDED'' \<and> missing \<noteq> []
       then raise OBS (''OBSERVATION_REQUIRED_EVIDENCE_MISSING:'' @ join '','' missing)
     else Inr ())"

section \<open>Observations\<close>

record observation =
  ob_observation_id :: string
  ob_task_id :: string
  ob_task_context_fingerprint :: string
  ob_plan_fingerprint :: string
  ob_node_id :: string
  ob_node_fingerprint :: string
  ob_authority_fingerprint :: string
  ob_status :: string
  ob_started_at :: string
  ob_finished_at :: string
  ob_normalized_output_json :: "string option"
  ob_error_class :: "string option"
  ob_evidence_bindings :: "evidence_binding list"
  ob_cost :: "observation_cost option"
  ob_schema_version :: string

definition normalized_output :: "observation \<Rightarrow> json result" where
  "normalized_output b = (case ob_normalized_output_json b of None \<Rightarrow> Inr JNull
   | Some t \<Rightarrow> (case loads t of None \<Rightarrow> raise ValueError ''JSONDecodeError''
       | Some (JObj d) \<Rightarrow> Inr (JObj d) | Some _ \<Rightarrow> raise OBS ''NORMALIZED_OUTPUT_MUST_BE_OBJECT''))"

definition normalized_output_sha256 :: "observation \<Rightarrow> string option" where
  "normalized_output_sha256 b = map_option sha256_ref (ob_normalized_output_json b)"

definition evidence_refs :: "observation \<Rightarrow> string list" where
  "evidence_refs b = map ev_evidence_ref (ob_evidence_bindings b)"

definition observation_items :: "observation \<Rightarrow> json \<Rightarrow> (string \<times> json) list" where
  "observation_items b output = [(''schema_version'', JStr (ob_schema_version b)), (''task_id'', JStr (ob_task_id b)),
     (''task_context_fingerprint'', JStr (ob_task_context_fingerprint b)),
     (''plan_fingerprint'', JStr (ob_plan_fingerprint b)), (''node_id'', JStr (ob_node_id b)),
     (''node_fingerprint'', JStr (ob_node_fingerprint b)), (''authority_fingerprint'', JStr (ob_authority_fingerprint b)),
     (''status'', JStr (ob_status b)), (''started_at'', JStr (ob_started_at b)), (''finished_at'', JStr (ob_finished_at b)),
     (''normalized_output'', output), (''normalized_output_sha256'', str_json (normalized_output_sha256 b)),
     (''error_class'', str_json (ob_error_class b)),
     (''evidence_bindings'', JList (map evidence_json (ob_evidence_bindings b))),
     (''cost'', case ob_cost b of None \<Rightarrow> JNull | Some c \<Rightarrow> cost_json c)]"

definition observation_identity :: "observation \<Rightarrow> (string \<times> json) list result" where
  "observation_identity b = bindE (normalized_output b) (\<lambda>output.
     bindE (mapE evidence_validate (ob_evidence_bindings b)) (\<lambda>_.
     bindE (case ob_cost b of None \<Rightarrow> Inr () | Some c \<Rightarrow> void (cost_validate c)) (\<lambda>_.
     Inr (observation_items b output))))"

abbreviation obs_digest :: "json \<Rightarrow> string result" where
  "obs_digest \<equiv> canonical_digest OBS ''OBSERVATION_NOT_CANONICAL_JSON''"

definition expected_id :: "observation \<Rightarrow> string result" where
  "expected_id b = bindE (observation_identity b) (\<lambda>d. bindE (obs_digest (JObj d)) (\<lambda>h.
     Inr (''observation:'' @ take 24 (drop 7 h))))"

definition output_check :: "observation \<Rightarrow> unit result" where
  "output_check b = (case ob_normalized_output_json b of None \<Rightarrow> Inr ()
   | Some t \<Rightarrow> (case loads t of None \<Rightarrow> raise OBS ''INVALID_NORMALIZED_OUTPUT_JSON''
       | Some v \<Rightarrow> bindE (normalized_output_json (if v = JNull then None else Some v)) (\<lambda>canonical.
           fail_if OBS (canonical \<noteq> Some t) ''NORMALIZED_OUTPUT_NOT_CANONICAL'')))"

text \<open>\<open>_timestamp\<close> of both fields, their normal form and their order.\<close>

definition times_check :: "observation \<Rightarrow> unit result" where
  "times_check b = bindE (obs_timestamp (ob_started_at b) ''started_at'') (\<lambda>s.
     bindE (obs_timestamp (ob_finished_at b) ''finished_at'') (\<lambda>f.
     if ob_started_at b \<noteq> s \<or> ob_finished_at b \<noteq> f then raise OBS ''OBSERVATION_TIMESTAMPS_NOT_NORMALIZED''
     else period_check s f))"

definition error_checks :: "string \<Rightarrow> string option \<Rightarrow> unit result list" where
  "error_checks status error_class =
     [(case error_class of None \<Rightarrow> Inr () | Some e \<Rightarrow> void (reference e ''error_class'')),
      fail_if OBS (status = ''SUCCEEDED'' \<and> error_class \<noteq> None) ''SUCCEEDED_OBSERVATION_CANNOT_HAVE_ERROR'',
      fail_if OBS (status = ''FAILED'' \<and> error_class = None) ''FAILED_OBSERVATION_REQUIRES_ERROR_CLASS'']"

definition observation_checks :: "observation \<Rightarrow> unit result list" where
  "observation_checks b =
     [fail_if OBS (ob_schema_version b \<noteq> EXECUTION_OBSERVATION_SCHEMA) ''OBSERVATION_SCHEMA_VERSION_MISMATCH'',
      void (reference (ob_task_id b) ''task_id''),
      void (sha256_field OBS (ob_task_context_fingerprint b) ''task_context_fingerprint''),
      void (sha256_field OBS (ob_plan_fingerprint b) ''plan_fingerprint''),
      void (reference (ob_node_id b) ''node_id''),
      void (sha256_field OBS (ob_node_fingerprint b) ''node_fingerprint''),
      void (sha256_field OBS (ob_authority_fingerprint b) ''authority_fingerprint''),
      fail_if OBS (ob_status b \<notin> set OBSERVATION_STATUSES) ''INVALID_OBSERVATION_STATUS'',
      times_check b, output_check b]
     @ error_checks (ob_status b) (ob_error_class b)
     @ [bindE (normalize_evidence_bindings (ob_evidence_bindings b)) (\<lambda>n.
          fail_if OBS (n \<noteq> ob_evidence_bindings b) ''EVIDENCE_BINDINGS_NOT_NORMALIZED''),
        (case ob_cost b of None \<Rightarrow> Inr () | Some c \<Rightarrow> void (cost_validate c))]"

definition is_plan_error :: "exc_class \<Rightarrow> bool" where
  "is_plan_error c \<longleftrightarrow> c = ExecutionPlanError"

definition observed_node_checks :: "observation \<Rightarrow> execution_plan \<Rightarrow> authority option \<Rightarrow> execution_node \<Rightarrow> unit result list" where
  "observed_node_checks b p parent n =
     [fail_if OBS (ob_task_id b \<noteq> ep_task_id p) ''OBSERVATION_TASK_MISMATCH'',
      fail_if OBS (ob_task_context_fingerprint b \<noteq> ep_task_context_fingerprint p) ''OBSERVATION_TASK_CONTEXT_MISMATCH'',
      bindE (plan_fingerprint p) (\<lambda>f. fail_if OBS (ob_plan_fingerprint b \<noteq> f) ''OBSERVATION_PLAN_FINGERPRINT_MISMATCH''),
      bindE (node_fingerprint n) (\<lambda>f. fail_if OBS (ob_node_fingerprint b \<noteq> f) ''OBSERVATION_NODE_FINGERPRINT_MISMATCH''),
      fail_if OBS (ob_authority_fingerprint b \<noteq> en_authority_fingerprint n) ''OBSERVATION_AUTHORITY_FINGERPRINT_MISMATCH'',
      (case parent of None \<Rightarrow> Inr ()
       | Some a \<Rightarrow> bindE (reraise is_plan_error OBS ''OBSERVATION_AUTHORITY_REVALIDATION_FAILED'' (rebind_authority n a)) (\<lambda>r.
           fail_if OBS (au_fingerprint r \<noteq> ob_authority_fingerprint b) ''OBSERVATION_AUTHORITY_FINGERPRINT_MISMATCH'')),
      validate_evidence_requirements n (ob_status b) (ob_evidence_bindings b),
      (case ob_cost b of None \<Rightarrow> Inr () | Some c \<Rightarrow> void (cost_validate_against c n))]"

definition observed_plan_check :: "observation \<Rightarrow> execution_plan \<Rightarrow> authority option \<Rightarrow> unit result" where
  "observed_plan_check b p parent =
     bindE (reraise is_plan_error OBS ''OBSERVATION_PLAN_REVALIDATION_FAILED'' (plan_validate p parent)) (\<lambda>_.
     bindE (node_for p (ob_node_id b)) (\<lambda>n. checked (observed_node_checks b p parent n) ()))"

definition observation_validate :: "observation \<Rightarrow> execution_plan option \<Rightarrow> authority option \<Rightarrow> observation result" where
  "observation_validate b plan parent =
     bindE (checked (observation_checks b) ()) (\<lambda>_.
     bindE (case plan of None \<Rightarrow> Inr () | Some p \<Rightarrow> observed_plan_check b p parent) (\<lambda>_.
     bindE (expected_id b) (\<lambda>i.
     if ob_observation_id b \<noteq> i then raise OBS ''OBSERVATION_IDENTITY_MISMATCH'' else Inr b)))"

definition observation_fingerprint :: "observation \<Rightarrow> string result" where
  "observation_fingerprint b = bindE (observation_validate b None None) (\<lambda>_. bindE (observation_identity b) (\<lambda>d.
     obs_digest (JObj ((''observation_id'', JStr (ob_observation_id b)) # d))))"

section \<open>The builder\<close>

record observation_args =
  oa_node_id :: string
  oa_status :: string
  oa_started_at :: string
  oa_finished_at :: string
  oa_normalized_output :: "json option"
  oa_error_class :: "string option"
  oa_evidence_bindings :: "evidence_binding list"
  oa_cost :: "observation_cost option"

definition observation_build :: "execution_plan \<Rightarrow> authority \<Rightarrow> observation_args \<Rightarrow> observation result" where
  "observation_build p parent a =
     bindE (reraise is_plan_error OBS ''OBSERVATION_PLAN_REVALIDATION_FAILED'' (plan_validate p (Some parent))) (\<lambda>_.
     bindE (bindE (reference (oa_node_id a) ''node_id'') (node_for p)) (\<lambda>n.
     bindE (reraise is_plan_error OBS ''OBSERVATION_AUTHORITY_REVALIDATION_FAILED'' (rebind_authority n parent)) (\<lambda>rebound.
     bindE (fail_if OBS (oa_status a \<notin> set OBSERVATION_STATUSES) ''INVALID_OBSERVATION_STATUS'') (\<lambda>_.
     bindE (obs_timestamp (oa_started_at a) ''started_at'') (\<lambda>started.
     bindE (obs_timestamp (oa_finished_at a) ''finished_at'') (\<lambda>finished.
     bindE (period_check started finished) (\<lambda>_.
     bindE (normalized_output_json (oa_normalized_output a)) (\<lambda>output.
     bindE (normalize_evidence_bindings (oa_evidence_bindings a)) (\<lambda>bindings.
     bindE (validate_evidence_requirements n (oa_status a) bindings) (\<lambda>_.
     bindE (checked (error_checks (oa_status a) (oa_error_class a)) ()) (\<lambda>_.
     bindE (case oa_cost a of None \<Rightarrow> Inr () | Some c \<Rightarrow> void (cost_validate_against c n)) (\<lambda>_.
     bindE (plan_fingerprint p) (\<lambda>pf. bindE (node_fingerprint n) (\<lambda>nf.
     let provisional = \<lparr>ob_observation_id = ''observation:'' @ replicate 24 (CHR ''0''), ob_task_id = ep_task_id p,
         ob_task_context_fingerprint = ep_task_context_fingerprint p, ob_plan_fingerprint = pf,
         ob_node_id = en_node_id n, ob_node_fingerprint = nf, ob_authority_fingerprint = au_fingerprint rebound,
         ob_status = oa_status a, ob_started_at = started, ob_finished_at = finished,
         ob_normalized_output_json = output, ob_error_class = oa_error_class a, ob_evidence_bindings = bindings,
         ob_cost = oa_cost a, ob_schema_version = EXECUTION_OBSERVATION_SCHEMA\<rparr> in
     bindE (expected_id provisional) (\<lambda>i.
     observation_validate (provisional\<lparr>ob_observation_id := i\<rparr>) (Some p) (Some parent))))))))))))))))"

section \<open>What the checks accept\<close>

lemma void_Inr [simp]: "void (Inr x) = Inr ()"
  by (simp add: void_def)

definition ref_ok :: "string \<Rightarrow> bool" where
  "ref_ok v \<longleftrightarrow> line_ok 256 v \<and> REF_RE v \<and> \<not> contains ''://'' v \<and> ''..'' \<notin> set (split_on (CHR ''/'') v)"

lemma reference_iff [simp]: "reference v f = Inr x \<longleftrightarrow> x = v \<and> ref_ok v"
  by (auto simp: reference_def ref_ok_def bindE_Inr_iff)

lemma reference_pass [simp]: "ref_ok v \<Longrightarrow> reference v f = Inr v"
  by simp

text \<open>Normalised timestamps are fixed points, and the period check compares instants.\<close>

lemma obs_timestamp_text: "obs_timestamp v f = Inr s \<Longrightarrow> \<exists>t. fromisoformat (with_offset (strip v)) = Some t \<and> utc_text t = Inr s"
  by (auto simp: obs_timestamp_def split: if_splits option.splits)

lemma obs_timestamp_again: "utc_text t = Inr s \<Longrightarrow> obs_timestamp s f = Inr s"
  using utc_text_reads by (auto simp: obs_timestamp_def)

lemma period_check_iff:
  assumes "utc_text a = Inr s" "utc_text b = Inr f"
  shows "period_check s f = Inr u \<longleftrightarrow> instant a \<le> instant b"
  using utc_text_reads(3) [OF assms(1)] utc_text_reads(3) [OF assms(2)]
  by (auto simp: period_check_def read_utc_def instant_def)

definition period_ok :: "string \<Rightarrow> string \<Rightarrow> bool" where
  "period_ok s f \<longleftrightarrow> (\<exists>a b. utc_text a = Inr s \<and> utc_text b = Inr f \<and> instant a \<le> instant b)"

lemma times_check_iff [simp]: "times_check b = Inr u \<longleftrightarrow> period_ok (ob_started_at b) (ob_finished_at b)"
proof
  assume "times_check b = Inr u"
  then have o: "obs_timestamp (ob_started_at b) ''started_at'' = Inr (ob_started_at b)"
      "obs_timestamp (ob_finished_at b) ''finished_at'' = Inr (ob_finished_at b)"
      "period_check (ob_started_at b) (ob_finished_at b) = Inr u"
    by (auto simp: times_check_def split: if_splits)
  then show "period_ok (ob_started_at b) (ob_finished_at b)"
    using obs_timestamp_text period_check_iff unfolding period_ok_def by metis
next
  assume "period_ok (ob_started_at b) (ob_finished_at b)"
  then obtain s f where "utc_text s = Inr (ob_started_at b)" "utc_text f = Inr (ob_finished_at b)" "instant s \<le> instant f"
    by (auto simp: period_ok_def)
  then show "times_check b = Inr u"
    using period_check_iff [of s _ f _ "()"] by (simp add: times_check_def obs_timestamp_again)
qed

section \<open>Evidence is kept in a normal form\<close>

definition evidence_ok :: "evidence_binding \<Rightarrow> bool" where
  "evidence_ok b \<longleftrightarrow> ev_schema_version b = EXECUTION_EVIDENCE_BINDING_SCHEMA \<and> ref_ok (ev_evidence_ref b)
     \<and> is_sha256_ref (ev_evidence_fingerprint b) \<and> (case ev_requirement b of None \<Rightarrow> True | Some r \<Rightarrow> line_ok 256 r)"

lemma evidence_validate_iff: "evidence_validate b = Inr c \<longleftrightarrow> c = b \<and> evidence_ok b"
  by (auto simp: evidence_validate_def checked_iff evidence_ok_def split: option.split)

definition requirement_unique :: "evidence_binding set \<Rightarrow> bool" where
  "requirement_unique bs \<longleftrightarrow> (\<forall>a \<in> bs. \<forall>b \<in> bs. ev_requirement a = ev_requirement b \<and> ev_requirement a \<noteq> None \<longrightarrow> a = b)"

definition evidence_set :: "evidence_binding list \<Rightarrow> bool" where
  "evidence_set bs \<longleftrightarrow> list_all evidence_ok bs \<and> distinct bs \<and> requirement_unique (set bs)"

lemma evidence_row_inject: "evidence_ok a \<Longrightarrow> evidence_ok b \<Longrightarrow> evidence_row a = evidence_row b \<Longrightarrow> a = b"
  by (simp add: evidence_ok_def evidence_row_def)

lemma evidence_step_keeps:
  assumes "evidence_step kept b = Inr kept'" "evidence_set kept"
  shows "evidence_set kept' \<and> set kept' = insert b (set kept) \<and> length kept' \<le> Suc (length kept)"
proof -
  from assms(1) have b: "evidence_ok b" by (auto simp: evidence_step_def evidence_validate_iff)
  show ?thesis
  proof (cases "evidence_row b \<in> evidence_row ` set kept")
    case True
    then have "b \<in> set kept" using b assms(2) evidence_row_inject by (auto simp: evidence_set_def list_all_iff)
    with True assms b show ?thesis by (auto simp: evidence_step_def evidence_validate_iff bindE_Inr_iff)
  next
    case False
    with assms(1) have k: "kept' = kept @ [b]" and u: "ev_requirement b \<noteq> None \<Longrightarrow> ev_requirement b \<notin> ev_requirement ` set kept"
      by (auto simp: evidence_step_def evidence_validate_iff bindE_Inr_iff split: option.splits if_splits)
    from u assms(2) have "requirement_unique (insert b (set kept))"
      unfolding requirement_unique_def evidence_set_def by (auto simp: image_iff) metis+
    with False b assms(2) show ?thesis by (auto simp: k evidence_set_def)
  qed
qed

lemma evidence_fold_keeps:
  assumes "foldE evidence_step kept bs = Inr kept'" "evidence_set kept"
  shows "evidence_set kept' \<and> set kept' = set kept \<union> set bs \<and> length kept' \<le> length kept + length bs"
  using assms
proof (induction bs arbitrary: kept)
  case (Cons b bs)
  then obtain k where k: "evidence_step kept b = Inr k" "foldE evidence_step k bs = Inr kept'" by auto
  with evidence_step_keeps [OF k(1) Cons.prems(2)] Cons.IH [OF k(2)] show ?case by auto
qed simp

lemma evidence_fold_id:
  "evidence_set (kept @ bs) \<Longrightarrow> foldE evidence_step kept bs = Inr (kept @ bs)"
proof (induction bs arbitrary: kept)
  case (Cons b bs)
  then have b: "evidence_ok b" "b \<notin> set kept" "\<And>a. a \<in> set kept \<Longrightarrow> evidence_ok a"
    and u: "\<And>a. a \<in> set kept \<Longrightarrow> ev_requirement a = ev_requirement b \<Longrightarrow> ev_requirement b = None"
    by (auto simp: evidence_set_def requirement_unique_def list_all_iff)
  have "evidence_row b \<notin> evidence_row ` set kept"
    using b evidence_row_inject by blast
  moreover have "Some r \<notin> ev_requirement ` set kept" if "ev_requirement b = Some r" for r
    using u that by (metis imageE option.distinct(1))
  ultimately have "evidence_step kept b = Inr (kept @ [b])"
    using b(1) by (auto simp: evidence_step_def evidence_validate_iff [THEN iffD2] split: option.split)
  with Cons show ?case by simp
qed simp

definition evidence_norm :: "evidence_binding list \<Rightarrow> bool" where
  "evidence_norm bs \<longleftrightarrow> length bs \<le> MAX_EVIDENCE_BINDINGS \<and> evidence_set bs \<and> sorted (map evidence_key bs)"

lemma normalize_evidence_norm:
  assumes "normalize_evidence_bindings bs = Inr ns"
  shows "evidence_norm ns \<and> set ns = set bs"
proof -
  from assms obtain kept where k: "foldE evidence_step [] bs = Inr kept" "ns = sort_key evidence_key kept"
    "length bs \<le> MAX_EVIDENCE_BINDINGS" by (auto simp: normalize_evidence_bindings_def split: if_splits)
  have "evidence_set []" by (simp add: evidence_set_def requirement_unique_def)
  with evidence_fold_keeps [OF k(1)] k(3) show ?thesis
    by (auto simp: evidence_norm_def k(2) evidence_set_def list_all_iff)
qed

lemma normalize_evidence_id: "evidence_norm ns \<Longrightarrow> normalize_evidence_bindings ns = Inr ns"
  using evidence_fold_id [of "[]" ns]
  by (simp add: normalize_evidence_bindings_def evidence_norm_def sort_key_sorted)

lemma evidence_normal_iff: "(\<exists>n. normalize_evidence_bindings bs = Inr n \<and> n = bs) \<longleftrightarrow> evidence_norm bs"
  using normalize_evidence_norm normalize_evidence_id by blast

section \<open>What validation accepts\<close>

definition cost_ok :: "observation_cost \<Rightarrow> bool" where
  "cost_ok c \<longleftrightarrow> \<not> float_neg (oc_wall_time_s c) \<and> 0 \<le> oc_model_tokens c \<and> 0 \<le> oc_tool_calls c
     \<and> (case oc_cost_usd c of None \<Rightarrow> True | Some f \<Rightarrow> \<not> float_neg f)"

lemma cost_validate_iff: "cost_validate c = Inr d \<longleftrightarrow> d = c \<and> cost_ok c"
  by (auto simp: cost_validate_def checked_iff cost_ok_def split: option.splits)

definition cost_covered :: "observation_cost \<Rightarrow> resource_budget \<Rightarrow> bool" where
  "cost_covered c b \<longleftrightarrow> cost_ok c
     \<and> (case rb_wall_time_s b of None \<Rightarrow> False | Some m \<Rightarrow> \<not> float_above (oc_wall_time_s c) (of_int m))
     \<and> (case rb_model_tokens b of None \<Rightarrow> False | Some m \<Rightarrow> oc_model_tokens c \<le> m)
     \<and> (case rb_tool_calls b of None \<Rightarrow> False | Some m \<Rightarrow> oc_tool_calls c \<le> m)
     \<and> (case oc_cost_usd c of None \<Rightarrow> True
        | Some f \<Rightarrow> (case rb_cost_usd b of None \<Rightarrow> False | Some g \<Rightarrow> \<not> float_above f (float_val g)))"

lemma cost_validate_against_iff: "cost_validate_against c n = Inr d \<longleftrightarrow> d = c \<and> cost_covered c (en_resource_budget n)"
  by (auto simp: cost_validate_against_def cost_covered_def cost_validate_iff bindE_Inr_iff checked_iff exceeds_def Let_def
      not_less split: option.split)

text \<open>A covered cost, in each of its four dimensions.\<close>

lemma cost_covered_bounds:
  assumes "cost_covered k b"
  shows "\<exists>s m t. rb_wall_time_s b = Some s \<and> rb_model_tokens b = Some m \<and> rb_tool_calls b = Some t
    \<and> \<not> float_neg (oc_wall_time_s k) \<and> \<not> float_above (oc_wall_time_s k) (of_int s)
    \<and> 0 \<le> oc_model_tokens k \<and> oc_model_tokens k \<le> m \<and> 0 \<le> oc_tool_calls k \<and> oc_tool_calls k \<le> t
    \<and> (\<forall>f. oc_cost_usd k = Some f \<longrightarrow> \<not> float_neg f \<and> (\<exists>g. rb_cost_usd b = Some g \<and> \<not> float_above f (float_val g)))"
  using assms by (auto simp: cost_covered_def cost_ok_def split: option.splits)

abbreviation requirements_of :: "evidence_binding list \<Rightarrow> string set" where
  "requirements_of bs \<equiv> {r. \<exists>b \<in> set bs. ev_requirement b = Some r}"

lemma set_map_filter: "set (List.map_filter f xs) = {y. \<exists>x \<in> set xs. f x = Some y}"
  by (auto simp: List.map_filter_def image_iff) (metis option.sel)

lemma sort_fromkeys_Nil: "sort (fromkeys xs) = [] \<longleftrightarrow> set xs = {}" for xs :: "string list"
  by (metis set_empty set_fromkeys set_sort)

lemma evidence_requirements_iff: "validate_evidence_requirements n status bs = Inr u \<longleftrightarrow>
   requirements_of bs \<subseteq> set (en_evidence_requirements n)
   \<and> (status = ''SUCCEEDED'' \<longrightarrow> set (en_evidence_requirements n) \<subseteq> requirements_of bs)"
  by (auto simp: validate_evidence_requirements_def Let_def sort_fromkeys_Nil set_map_filter subset_iff)

definition error_ok :: "string \<Rightarrow> string option \<Rightarrow> bool" where
  "error_ok status e \<longleftrightarrow> (case e of None \<Rightarrow> status \<noteq> ''FAILED'' | Some c \<Rightarrow> ref_ok c \<and> status \<noteq> ''SUCCEEDED'')"

lemma error_checks_iff: "list_all (\<lambda>g. g = Inr ()) (error_checks status e) \<longleftrightarrow> error_ok status e"
  by (auto simp: error_checks_def error_ok_def split: option.split)

definition observation_ok :: "observation \<Rightarrow> bool" where
  "observation_ok b \<longleftrightarrow> ob_schema_version b = EXECUTION_OBSERVATION_SCHEMA \<and> ref_ok (ob_task_id b)
     \<and> is_sha256_ref (ob_task_context_fingerprint b) \<and> is_sha256_ref (ob_plan_fingerprint b) \<and> ref_ok (ob_node_id b)
     \<and> is_sha256_ref (ob_node_fingerprint b) \<and> is_sha256_ref (ob_authority_fingerprint b)
     \<and> ob_status b \<in> set OBSERVATION_STATUSES \<and> period_ok (ob_started_at b) (ob_finished_at b)
     \<and> output_check b = Inr () \<and> error_ok (ob_status b) (ob_error_class b) \<and> evidence_norm (ob_evidence_bindings b)
     \<and> (case ob_cost b of None \<Rightarrow> True | Some c \<Rightarrow> cost_ok c)"

lemma observation_checks_iff: "checked (observation_checks b) () = Inr u \<longleftrightarrow> observation_ok b"
proof -
  have n: "(bindE (normalize_evidence_bindings bs) (\<lambda>n. fail_if OBS (n \<noteq> bs) m) = Inr ()) \<longleftrightarrow> evidence_norm bs" for bs m
    using evidence_normal_iff [of bs] by (simp add: bindE_Inr_iff)
  show ?thesis
    by (auto simp: checked_iff observation_checks_def observation_ok_def n error_checks_iff cost_validate_iff split: option.split)
qed

lemma node_for_iff: "node_for p i = Inr n \<longleftrightarrow> List.find (\<lambda>n. en_node_id n = i) (ep_nodes p) = Some n"
  by (simp add: node_for_def split: option.split)

lemma node_for_member: "node_for p i = Inr n \<Longrightarrow> n \<in> set (ep_nodes p) \<and> en_node_id n = i"
  unfolding node_for_iff find_Some_iff by auto

lemma node_fingerprint_iff: "node_fingerprint n = Inr f \<longleftrightarrow> node_wf n \<and> f = digest (node_json_of n)"
  by (auto simp: node_fingerprint_def node_canonical_iff bindE_Inr_iff)

definition bound_to_node :: "observation \<Rightarrow> execution_plan \<Rightarrow> authority option \<Rightarrow> execution_node \<Rightarrow> bool" where
  "bound_to_node b p parent n \<longleftrightarrow> ob_task_id b = ep_task_id p \<and> ob_task_context_fingerprint b = ep_task_context_fingerprint p
     \<and> plan_fingerprint p = Inr (ob_plan_fingerprint b) \<and> node_fingerprint n = Inr (ob_node_fingerprint b)
     \<and> ob_authority_fingerprint b = en_authority_fingerprint n
     \<and> (\<forall>a. parent = Some a \<longrightarrow> (\<exists>r. rebind_authority n a = Inr r))
     \<and> requirements_of (ob_evidence_bindings b) \<subseteq> set (en_evidence_requirements n)
     \<and> (ob_status b = ''SUCCEEDED'' \<longrightarrow> set (en_evidence_requirements n) \<subseteq> requirements_of (ob_evidence_bindings b))
     \<and> (\<forall>c. ob_cost b = Some c \<longrightarrow> cost_covered c (en_resource_budget n))"

lemma observed_node_checks_iff: "list_all (\<lambda>g. g = Inr ()) (observed_node_checks b p parent n) \<longleftrightarrow> bound_to_node b p parent n"
proof (cases parent)
  case None
  then show ?thesis
    by (auto simp: observed_node_checks_def bound_to_node_def bindE_Inr_iff evidence_requirements_iff cost_validate_against_iff
      split: option.splits)
next
  case (Some a)
  show ?thesis
    unfolding Some observed_node_checks_def bound_to_node_def
    by (auto simp: bindE_Inr_iff evidence_requirements_iff cost_validate_against_iff dest: rebind_derives(2) split: option.splits)
qed

lemma observation_validate_iff: "observation_validate b plan parent = Inr c \<longleftrightarrow> c = b \<and> observation_ok b
   \<and> (\<forall>p. plan = Some p \<longrightarrow> plan_validate p parent = Inr p
        \<and> (\<exists>n. node_for p (ob_node_id b) = Inr n \<and> bound_to_node b p parent n))
   \<and> expected_id b = Inr (ob_observation_id b)"
proof -
  have p: "observed_plan_check b p parent = Inr u \<longleftrightarrow> plan_validate p parent = Inr p
      \<and> (\<exists>n. node_for p (ob_node_id b) = Inr n \<and> bound_to_node b p parent n)" for p u
    using plan_validate_iff [of p parent]
    by (auto simp: observed_plan_check_def bindE_Inr_iff checked_iff observed_node_checks_iff)
  show ?thesis
    by (cases plan) (auto simp: observation_validate_def bindE_Inr_iff observation_checks_iff p)
qed

lemma observation_identity_update [simp]: "observation_identity (b\<lparr>ob_observation_id := i\<rparr>) = observation_identity b"
  by (simp add: observation_identity_def normalized_output_def observation_items_def normalized_output_sha256_def)

lemma expected_id_update [simp]: "expected_id (b\<lparr>ob_observation_id := i\<rparr>) = expected_id b"
  by (simp add: expected_id_def)

lemma normalized_output_json_iff: "normalized_output_json v = Inr r \<longleftrightarrow> (case v of None \<Rightarrow> r = None
   | Some j \<Rightarrow> (\<exists>d. j = JObj d) \<and> finite_json j \<and> length (utf8 (dumps j)) \<le> MAX_NORMALIZED_OUTPUT_BYTES \<and> r = Some (dumps j))"
  by (auto simp: normalized_output_json_def canonical_text_def split: option.split json.split)

section \<open>Properties\<close>

text \<open>C35: a built observation validates against the plan and authority it was built for, with the node, status and
  evidence of the request; the recorded timestamps read back as the instants given, in order; and the recorded output
  is the canonical text of the given one, at most 65536 bytes long.\<close>

theorem observation_build_sound:
  assumes "observation_build p parent a = Inr b"
  shows "observation_validate b (Some p) (Some parent) = Inr b
    \<and> ob_node_id b = oa_node_id a \<and> ob_status b = oa_status a \<and> set (ob_evidence_bindings b) = set (oa_evidence_bindings a)
    \<and> (\<exists>s f. fromisoformat (with_offset (strip (oa_started_at a))) = Some s
         \<and> fromisoformat (with_offset (strip (oa_finished_at a))) = Some f \<and> instant s \<le> instant f
         \<and> fromisoformat (with_offset (ob_started_at b)) = Some \<lparr>dt_local = instant s, dt_offset = Some 0\<rparr>
         \<and> fromisoformat (with_offset (ob_finished_at b)) = Some \<lparr>dt_local = instant f, dt_offset = Some 0\<rparr>)
    \<and> ob_normalized_output_json b = map_option dumps (oa_normalized_output a)
    \<and> (\<forall>t. ob_normalized_output_json b = Some t \<longrightarrow> length (utf8 t) \<le> 65536)"
proof -
  from assms obtain n started finished out bindings c where
    n: "node_for p (oa_node_id a) = Inr n"
    and t: "obs_timestamp (oa_started_at a) ''started_at'' = Inr started" "obs_timestamp (oa_finished_at a) ''finished_at'' = Inr finished"
      "period_check started finished = Inr ()"
    and o: "normalized_output_json (oa_normalized_output a) = Inr out"
    and bs: "normalize_evidence_bindings (oa_evidence_bindings a) = Inr bindings"
    and c: "observation_validate c (Some p) (Some parent) = Inr b" "ob_node_id c = en_node_id n" "ob_status c = oa_status a"
      "ob_evidence_bindings c = bindings" "ob_started_at c = started" "ob_finished_at c = finished" "ob_normalized_output_json c = out"
    by (auto simp: observation_build_def Let_def)
  have b: "c = b" using c(1) by (simp add: observation_validate_iff)
  obtain s f where sf: "fromisoformat (with_offset (strip (oa_started_at a))) = Some s" "utc_text s = Inr started"
      "fromisoformat (with_offset (strip (oa_finished_at a))) = Some f" "utc_text f = Inr finished"
    using obs_timestamp_text [OF t(1)] obs_timestamp_text [OF t(2)] by blast
  have "instant s \<le> instant f" using t(3) period_check_iff [OF sf(2,4)] by simp
  moreover have "out = map_option dumps (oa_normalized_output a)" "\<forall>t. out = Some t \<longrightarrow> length (utf8 t) \<le> 65536"
    using o by (auto simp: normalized_output_json_iff MAX_NORMALIZED_OUTPUT_BYTES_def split: option.splits)
  ultimately show ?thesis
    using c node_for_member [OF n] normalize_evidence_norm [OF bs] sf utc_text_reads(3) [OF sf(2)] utc_text_reads(3) [OF sf(4)]
    unfolding b by simp
qed

text \<open>The report that the first node of the two-step plan succeeded, with its log as evidence.\<close>

definition demo_evidence :: evidence_binding where
  "demo_evidence = \<lparr>ev_evidence_ref = ''log/1'', ev_evidence_fingerprint = sha256_ref ''log'', ev_requirement = Some ''log'',
     ev_schema_version = EXECUTION_EVIDENCE_BINDING_SCHEMA\<rparr>"

definition demo_observation_args :: observation_args where
  "demo_observation_args = \<lparr>oa_node_id = ''gather'', oa_status = ''SUCCEEDED'', oa_started_at = ''2024-01-01T00:00:00Z'',
     oa_finished_at = ''2024-01-01T00:00:00Z'', oa_normalized_output = None, oa_error_class = None,
     oa_evidence_bindings = [demo_evidence],
     oa_cost = Some \<lparr>oc_wall_time_s = FiniteFloat 1 ''1.0'', oc_model_tokens = 10, oc_tool_calls = 1, oc_cost_usd = None\<rparr>\<rparr>"

definition demo_observation0 :: observation where
  "demo_observation0 = \<lparr>ob_observation_id = '''', ob_task_id = ''T'', ob_task_context_fingerprint = ep_task_context_fingerprint demo_plan,
     ob_plan_fingerprint = digest (plan_json demo_plan (map node_json_of demo_nodes) (norm_json (contract_json (demo_contract [])))),
     ob_node_id = ''gather'', ob_node_fingerprint = digest (node_json_of (demo_nodes ! 0)),
     ob_authority_fingerprint = en_authority_fingerprint (demo_nodes ! 0), ob_status = ''SUCCEEDED'',
     ob_started_at = ''2024-01-01T00:00:00Z'', ob_finished_at = ''2024-01-01T00:00:00Z'', ob_normalized_output_json = None,
     ob_error_class = None, ob_evidence_bindings = [demo_evidence], ob_cost = oa_cost demo_observation_args,
     ob_schema_version = EXECUTION_OBSERVATION_SCHEMA\<rparr>"

definition demo_observation :: observation where
  "demo_observation = demo_observation0\<lparr>ob_observation_id := ''observation:'' @ take 24 (drop 7 (digest (JObj (observation_items demo_observation0 JNull))))\<rparr>"

lemma demo_node_wf: "list_all node_wf demo_nodes"
  using demo_plan_valid by (auto simp: plan_validate_iff projects_def list_all_iff demo_plan_def planned_def)

lemma demo_plan_none: "plan_validate demo_plan None = Inr demo_plan"
  using demo_plan_valid by (simp add: plan_validate_iff)

lemma demo_plan_fingerprint: "plan_fingerprint demo_plan = Inr (ob_plan_fingerprint demo_observation0)"
proof -
  have "mapE node_canonical demo_nodes = Inr (map node_json_of demo_nodes)"
    using demo_node_wf by (intro mapE_map) (auto simp: node_canonical_iff list_all_iff)
  moreover have "ep_nodes demo_plan = demo_nodes" "ep_workflow_contract_json demo_plan = dumps (contract_json (demo_contract []))"
    by (simp_all add: demo_plan_def planned_def)
  ultimately show ?thesis
    using demo_plan_none loads_dumps [OF contract_json_plain, of "demo_contract []"]
    by (simp add: plan_fingerprint_def plan_canonical_def demo_observation0_def)
qed

lemma demo_stamp: "\<exists>t. utc_text t = Inr ''2024-01-01T00:00:00Z''"
    "obs_timestamp ''2024-01-01T00:00:00Z'' f = Inr ''2024-01-01T00:00:00Z''"
proof -
  have o: "obs_timestamp ''2024-01-01T00:00:00Z'' [] = Inr ''2024-01-01T00:00:00Z''" by code_simp
  from obs_timestamp_text [OF o] show t: "\<exists>t. utc_text t = Inr ''2024-01-01T00:00:00Z''" by blast
  then show "obs_timestamp ''2024-01-01T00:00:00Z'' f = Inr ''2024-01-01T00:00:00Z''" using obs_timestamp_again by blast
qed

lemma demo_find: "node_for demo_plan ''gather'' = Inr (demo_nodes ! 0)"
  by (simp add: node_for_def demo_plan_def planned_def demo_nodes_def demo_node_def demo_contract_def Let_def)

lemma demo_evidence_norm: "evidence_norm [demo_evidence]"
proof -
  have "ref_ok ''log/1''" "line_ok 256 ''log''" by code_simp+
  then show ?thesis
    by (simp add: evidence_norm_def evidence_set_def evidence_ok_def requirement_unique_def demo_evidence_def MAX_EVIDENCE_BINDINGS_def)
qed

lemma demo_expected_id: "expected_id demo_observation0 = Inr (ob_observation_id demo_observation)"
proof -
  have "evidence_validate demo_evidence = Inr demo_evidence"
    using demo_evidence_norm by (simp add: evidence_validate_iff evidence_norm_def evidence_set_def)
  moreover have "cost_ok (the (oa_cost demo_observation_args))"
    by (simp add: demo_observation_args_def cost_ok_def)
  ultimately have "observation_identity demo_observation0 = Inr (observation_items demo_observation0 JNull)"
    by (simp add: observation_identity_def demo_observation0_def normalized_output_def demo_observation_args_def cost_validate_iff [THEN iffD2])
  moreover have "finite_json (JObj (observation_items demo_observation0 JNull))"
    by (simp add: observation_items_def demo_observation0_def demo_observation_args_def cost_json_def evidence_json_def str_json_def
        normalized_output_sha256_def demo_evidence_def)
  ultimately show ?thesis
    by (simp add: expected_id_def canonical_digest_iff [THEN iffD2] demo_observation_def)
qed

lemma demo_bound: "bound_to_node demo_observation demo_plan (Some demo_plan_authority) (demo_nodes ! 0)"
proof -
  have "node_wf (demo_nodes ! 0)" using demo_node_wf by (simp add: demo_nodes_def)
  moreover have "\<exists>r. rebind_authority (demo_nodes ! 0) demo_plan_authority = Inr r"
    using demo_plan_valid by (auto simp: plan_validate_iff parent_ok_def demo_plan_def planned_def demo_nodes_def)
  moreover have "en_evidence_requirements (demo_nodes ! 0) = [''log'']" "ep_task_id demo_plan = ''T''"
      "en_resource_budget (demo_nodes ! 0) = \<lparr>rb_wall_time_s = Some 20, rb_model_tokens = Some 40, rb_tool_calls = Some 2, rb_cost_usd = None\<rparr>"
    by (simp_all add: demo_nodes_def demo_node_def Let_def demo_plan_def planned_def demo_plan_context_def demo_context_def)
  ultimately show ?thesis
    using demo_plan_fingerprint
    by (simp add: bound_to_node_def demo_observation_def demo_observation0_def node_fingerprint_iff demo_evidence_def
        demo_observation_args_def cost_covered_def cost_ok_def)
qed

lemma demo_observation_ok: "observation_ok demo_observation"
proof -
  have "ref_ok ''T''" "ref_ok ''gather''" "''SUCCEEDED'' \<in> set OBSERVATION_STATUSES" by code_simp+
  moreover have "period_ok ''2024-01-01T00:00:00Z'' ''2024-01-01T00:00:00Z''"
    using demo_stamp(1) unfolding period_ok_def by blast
  moreover have "is_sha256_ref (ep_task_context_fingerprint demo_plan)"
    by (simp add: demo_plan_def planned_def)
  moreover have "is_sha256_ref (en_authority_fingerprint (demo_nodes ! 0))"
    using demo_node_wf by (simp add: demo_nodes_def node_wf_def)
  ultimately show ?thesis
    using demo_evidence_norm
    by (simp add: observation_ok_def demo_observation_def demo_observation0_def output_check_def error_ok_def
        demo_observation_args_def cost_ok_def)
qed

lemma demo_observation_valid: "observation_validate demo_observation (Some demo_plan) (Some demo_plan_authority) = Inr demo_observation"
proof -
  have "ob_node_id demo_observation = ''gather''" "expected_id demo_observation = Inr (ob_observation_id demo_observation)"
    using demo_expected_id by (simp_all add: demo_observation_def) (simp add: demo_observation0_def)
  then show ?thesis
    unfolding observation_validate_iff
    using demo_observation_ok demo_plan_valid demo_find demo_bound by simp
qed

theorem observation_build_sound_witness:
  "observation_build demo_plan demo_plan_authority demo_observation_args = Inr demo_observation
   \<and> ob_started_at demo_observation = ''2024-01-01T00:00:00Z'' \<and> set (ob_evidence_bindings demo_observation) = {demo_evidence}"
proof -
  have n: "node_fingerprint (demo_nodes ! 0) = Inr (ob_node_fingerprint demo_observation0)"
    using demo_node_wf by (simp add: node_fingerprint_iff demo_observation0_def demo_nodes_def)
  obtain r where r: "rebind_authority (demo_nodes ! 0) demo_plan_authority = Inr r"
      "au_fingerprint r = en_authority_fingerprint (demo_nodes ! 0)"
    using demo_bound rebind_derives(2) unfolding bound_to_node_def by blast
  obtain t where "utc_text t = Inr ''2024-01-01T00:00:00Z''" using demo_stamp(1) by blast
  then have p: "period_check ''2024-01-01T00:00:00Z'' ''2024-01-01T00:00:00Z'' = Inr ()" using period_check_iff by blast
  have g: "ref_ok ''gather''" "''SUCCEEDED'' \<in> set OBSERVATION_STATUSES" by code_simp+
  have c: "validate_evidence_requirements (demo_nodes ! 0) ''SUCCEEDED'' [demo_evidence] = Inr ()"
      "cost_validate_against (the (oa_cost demo_observation_args)) (demo_nodes ! 0) = Inr (the (oa_cost demo_observation_args))"
    using demo_bound unfolding bound_to_node_def evidence_requirements_iff cost_validate_against_iff
    by (simp_all add: demo_observation_def demo_observation0_def demo_observation_args_def)
  have id: "ob_observation_id demo_observation = ''observation:'' @ take 24 (drop 7 (digest (JObj (observation_items demo_observation0 JNull))))"
    by (simp add: demo_observation_def)
  have prov: "expected_id (demo_observation0\<lparr>ob_observation_id := ''observation:'' @ replicate 24 (CHR ''0'')\<rparr>) = Inr (ob_observation_id demo_observation)"
    by (simp add: demo_expected_id)
  have e: "demo_observation0\<lparr>ob_observation_id := i\<rparr> = \<lparr>ob_observation_id = i, ob_task_id = ep_task_id demo_plan,
         ob_task_context_fingerprint = ep_task_context_fingerprint demo_plan, ob_plan_fingerprint = ob_plan_fingerprint demo_observation0,
         ob_node_id = en_node_id (demo_nodes ! 0), ob_node_fingerprint = ob_node_fingerprint demo_observation0,
         ob_authority_fingerprint = en_authority_fingerprint (demo_nodes ! 0),
         ob_status = ''SUCCEEDED'', ob_started_at = ''2024-01-01T00:00:00Z'', ob_finished_at = ''2024-01-01T00:00:00Z'',
         ob_normalized_output_json = None, ob_error_class = None, ob_evidence_bindings = [demo_evidence],
         ob_cost = oa_cost demo_observation_args, ob_schema_version = EXECUTION_OBSERVATION_SCHEMA\<rparr>" for i
    by (simp add: demo_observation0_def demo_nodes_def demo_node_def Let_def demo_contract_def demo_plan_def planned_def
        demo_plan_context_def demo_context_def)
  have v: "observation_validate (demo_observation0\<lparr>ob_observation_id := ob_observation_id demo_observation\<rparr>) (Some demo_plan)
      (Some demo_plan_authority) = Inr demo_observation"
    using demo_observation_valid by (simp add: demo_observation_def)
  have b: "observation_build demo_plan demo_plan_authority demo_observation_args = Inr demo_observation"
    using prov [unfolded e] v [unfolded e] p r c g n
    by (simp add: observation_build_def demo_observation_args_def demo_plan_valid demo_find demo_stamp(2) normalized_output_json_def
        normalize_evidence_id [OF demo_evidence_norm] error_checks_def checked_def fail_if_def demo_plan_fingerprint Let_def)
  with observation_build_sound [OF b] show ?thesis
    by (simp add: demo_observation_args_def) (simp add: demo_observation_def demo_observation0_def)
qed

text \<open>C10: what an accepted observation certifies. When validation against a plan and the parent authority succeeds,
  the plan itself is valid for that parent, the observation names one of its nodes and carries the fingerprints of
  plan, node and the authority the node derives from the parent; it declares no evidence the node does not ask for,
  and a success report has evidence for every requirement and no error; a reported cost needs a budget for time, tokens and tool calls,
  is not negative and is above none of them, nor above the money budget if it reports money (a comparison with not-a-number is false, as in Python);
  and the identifier is the one derived from all its fields.\<close>

theorem observation_accepted:
  assumes "observation_validate b (Some p) (Some a) = Inr c"
  shows "c = b \<and> plan_validate p (Some a) = Inr p \<and> plan_fingerprint p = Inr (ob_plan_fingerprint b)
    \<and> expected_id b = Inr (ob_observation_id b)
    \<and> (\<exists>n \<in> set (ep_nodes p). en_node_id n = ob_node_id b \<and> node_fingerprint n = Inr (ob_node_fingerprint b)
         \<and> (\<exists>r. derive_child a (node_request n) = Inr r \<and> au_fingerprint r = ob_authority_fingerprint b)
         \<and> requirements_of (ob_evidence_bindings b) \<subseteq> set (en_evidence_requirements n)
         \<and> (ob_status b = ''SUCCEEDED'' \<longrightarrow> ob_error_class b = None
              \<and> requirements_of (ob_evidence_bindings b) = set (en_evidence_requirements n))
         \<and> (\<forall>k. ob_cost b = Some k \<longrightarrow> (\<exists>s m t. rb_wall_time_s (en_resource_budget n) = Some s \<and> rb_model_tokens (en_resource_budget n) = Some m
              \<and> rb_tool_calls (en_resource_budget n) = Some t \<and> \<not> float_neg (oc_wall_time_s k) \<and> \<not> float_above (oc_wall_time_s k) (of_int s)
              \<and> 0 \<le> oc_model_tokens k \<and> oc_model_tokens k \<le> m \<and> 0 \<le> oc_tool_calls k \<and> oc_tool_calls k \<le> t
              \<and> (\<forall>f. oc_cost_usd k = Some f \<longrightarrow> \<not> float_neg f \<and> (\<exists>g. rb_cost_usd (en_resource_budget n) = Some g \<and> \<not> float_above f (float_val g))))))"
proof -
  from assms obtain n where v: "c = b" "plan_validate p (Some a) = Inr p" "expected_id b = Inr (ob_observation_id b)"
    "observation_ok b" and n: "node_for p (ob_node_id b) = Inr n" "bound_to_node b p (Some a) n"
    unfolding observation_validate_iff by auto
  from n(2) obtain r where "rebind_authority n a = Inr r" unfolding bound_to_node_def by blast
  from rebind_derives [OF this] n(2) have "\<exists>r. derive_child a (node_request n) = Inr r \<and> au_fingerprint r = ob_authority_fingerprint b"
    by (auto simp: bound_to_node_def)
  moreover have "ob_status b = ''SUCCEEDED'' \<longrightarrow> ob_error_class b = None"
    using v(4) by (auto simp: observation_ok_def error_ok_def split: option.splits)
  moreover have "cost_covered k (en_resource_budget n)" if "ob_cost b = Some k" for k using n(2) that by (simp add: bound_to_node_def)
  note cost_covered_bounds [OF this]
  ultimately show ?thesis
    using v node_for_member [OF n(1)] n(2) unfolding bound_to_node_def by blast
qed

lemma demo_observation_cost: "\<exists>k. ob_cost demo_observation = Some k"
  by (simp add: demo_observation_def demo_observation0_def demo_observation_args_def)

theorem observation_accepted_witness:
  "observation_validate demo_observation (Some demo_plan) (Some demo_plan_authority) = Inr demo_observation
   \<and> plan_fingerprint demo_plan = Inr (ob_plan_fingerprint demo_observation) \<and> (\<exists>k. ob_cost demo_observation = Some k)
   \<and> (\<exists>n \<in> set (ep_nodes demo_plan). \<forall>k. ob_cost demo_observation = Some k \<longrightarrow> (\<exists>s. rb_wall_time_s (en_resource_budget n) = Some s
         \<and> \<not> float_above (oc_wall_time_s k) (of_int s)))"
  using observation_accepted [OF demo_observation_valid] demo_observation_valid demo_observation_cost by blast

text \<open>C36: a task without a time limit accepts no cost report. The cost check compares the reported time
  with the node's limit; a plan whose task leaves the limit open (which task contexts and plans allow) has only nodes
  without one, so for every well-formed cost the comparison raises \<open>TypeError\<close>, which no caller handles, instead
  of the documented error.\<close>

theorem open_limit_type_error:
  assumes "plan_validate p parent = Inr q" "rb_wall_time_s (ep_task_resource_budget p) = None" "n \<in> set (ep_nodes p)" "cost_ok c"
  shows "(\<exists>m. cost_validate_against c n = raise TypeError m)
    \<and> (ob_cost b = Some c \<longrightarrow> observation_validate b (Some p) parent \<noteq> Inr b)"
proof -
  from assms(1) have "budgets_fit p" by (simp add: plan_validate_iff)
  from aggregate_int [OF aggregate_dimensions(1) [OF this]] assms(2)
  have none: "rb_wall_time_s (en_resource_budget k) = None" if "k \<in> set (ep_nodes p)" for k using that by simp
  have "cost_validate_against c n = raise TypeError ''not supported between instances''"
    using none [OF assms(3)] assms(4)
    by (simp add: cost_validate_against_def cost_validate_iff [THEN iffD2] checked_def exceeds_def)
  moreover have "observation_validate b (Some p) parent \<noteq> Inr b" if "ob_cost b = Some c"
  proof
    assume "observation_validate b (Some p) parent = Inr b"
    then obtain k where "node_for p (ob_node_id b) = Inr k" "bound_to_node b p parent k"
      unfolding observation_validate_iff by auto
    with that none node_for_member show False by (fastforce simp: bound_to_node_def cost_covered_def)
  qed
  ultimately show ?thesis by blast
qed

text \<open>The two-step plan with every limit left open.\<close>

definition open_budget :: resource_budget where
  "open_budget = \<lparr>rb_wall_time_s = None, rb_model_tokens = None, rb_tool_calls = None, rb_cost_usd = None\<rparr>"

definition demo_open_plan :: execution_plan where
  "demo_open_plan = demo_plan\<lparr>ep_task_resource_budget := open_budget,
     ep_nodes := map (\<lambda>n. n\<lparr>en_resource_budget := open_budget\<rparr>) (ep_nodes demo_plan)\<rparr>"

lemma demo_open_plan_valid: "plan_validate demo_open_plan None = Inr demo_open_plan"
proof -
  have w: "validated_workflow (p\<lparr>ep_task_resource_budget := x, ep_nodes := ns\<rparr>) = validated_workflow p" for p x ns
    by (simp add: validated_workflow_def cong: option.case_cong if_cong)
  have "budget_ok open_budget" by (simp add: open_budget_def budget_ok_def negative_def)
  moreover from this have "projects w l n \<Longrightarrow> projects w l (n\<lparr>en_resource_budget := open_budget\<rparr>)" for w l n
    by (simp add: projects_def node_wf_def)
  then have "list_all (projects w l) ns \<Longrightarrow> list_all (projects w l) (map (\<lambda>n. n\<lparr>en_resource_budget := open_budget\<rparr>) ns)" for w l ns
    by (induction ns) auto
  moreover have "require_aggregate_budget (map (\<lambda>n. open_budget) ns) open_budget = Inr ()" for ns :: "execution_node list"
    by (simp add: require_aggregate_budget_def checked_iff dimensions_def upt_rec aggregate_check_iff open_budget_def list_all_iff)
  ultimately show ?thesis
    using demo_plan_none
    by (auto simp: plan_validate_iff demo_open_plan_def header_ok_def w comp_def)
qed

theorem open_limit_type_error_witness:
  "\<exists>n c m. n \<in> set (ep_nodes demo_open_plan) \<and> plan_validate demo_open_plan None = Inr demo_open_plan
     \<and> cost_validate_against c n = raise TypeError m"
proof -
  have "cost_ok (the (oa_cost demo_observation_args))" by (simp add: demo_observation_args_def cost_ok_def)
  moreover have "rb_wall_time_s (ep_task_resource_budget demo_open_plan) = None" by (simp add: demo_open_plan_def open_budget_def)
  moreover have "ep_nodes demo_open_plan ! 0 \<in> set (ep_nodes demo_open_plan)"
    by (simp add: demo_open_plan_def demo_plan_def planned_def demo_nodes_def)
  ultimately show ?thesis using open_limit_type_error [OF demo_open_plan_valid] demo_open_plan_valid by blast
qed

end
