(* ===== verification/Runtime_Scheduler.thy ===== *)
theory Runtime_Scheduler
  imports Execution_Observation
begin

text \<open>
  Model of \<open>src/three_agent/runtime_scheduler.py\<close>: the pure evaluator that reads a plan, the observations made so
  far and the approvals given, and decides for every node whether it is ready, waiting, blocked or finished. It keeps
  no state and runs nothing; theory \<open>Execution_Scheduler\<close> models the coordinator that acts on its decisions.
\<close>

section \<open>Records and decisions\<close>

abbreviation RSE :: exc_class where "RSE \<equiv> RuntimeSchedulerError"

definition RUNTIME_SCHEDULING_DECISION_SCHEMA :: string where
  "RUNTIME_SCHEDULING_DECISION_SCHEMA = ''workspace-runtime-scheduling-decision/v1''"

definition NODE_SCHEDULING_RECORD_SCHEMA :: string where
  "NODE_SCHEDULING_RECORD_SCHEMA = ''workspace-runtime-node-scheduling-record/v1''"

definition DECISION_STATUSES :: "string list" where
  "DECISION_STATUSES = [''READY'', ''WAITING'', ''BLOCKED'', ''COMPLETE'']"

definition NODE_STATES :: "string list" where
  "NODE_STATES = [''READY'', ''WAITING'', ''BLOCKED'', ''SUCCEEDED'', ''FAILED'', ''CANCELLED'']"

definition TERMINAL_OBSERVATION_STATUSES :: "string list" where
  "TERMINAL_OBSERVATION_STATUSES = [''SUCCEEDED'', ''FAILED'', ''CANCELLED'']"

definition normalized_ids :: "string list \<Rightarrow> string \<Rightarrow> string list result" where
  "normalized_ids values field = (let normalized = sort (fromkeys values) in
     if [] \<in> set normalized then invalid RSE field else Inr normalized)"

record node_record =
  nr_node_id :: string
  nr_node_fingerprint :: string
  nr_authority_fingerprint :: string
  nr_state :: string
  nr_reason_code :: string
  nr_approval_required :: bool
  nr_schema_version :: string

definition record_checks :: "node_record \<Rightarrow> unit result list" where
  "record_checks r =
     [fail_if RSE (nr_schema_version r \<noteq> NODE_SCHEDULING_RECORD_SCHEMA) ''NODE_SCHEDULING_RECORD_SCHEMA_VERSION_MISMATCH'',
      fail_if RSE (nr_state r \<notin> set NODE_STATES) ''INVALID_NODE_SCHEDULING_STATE'',
      fail_if RSE (nr_node_id r = []) ''INVALID_NODE_ID'',
      void (sha256_field RSE (nr_node_fingerprint r) ''node_fingerprint''),
      void (sha256_field RSE (nr_authority_fingerprint r) ''node_authority_fingerprint''),
      fail_if RSE (nr_reason_code r = []) ''INVALID_SCHEDULING_REASON_CODE'']"

definition record_json :: "node_record \<Rightarrow> json" where
  "record_json r = JObj [(''schema_version'', JStr (nr_schema_version r)), (''node_id'', JStr (nr_node_id r)),
     (''node_fingerprint'', JStr (nr_node_fingerprint r)), (''authority_fingerprint'', JStr (nr_authority_fingerprint r)),
     (''state'', JStr (nr_state r)), (''reason_code'', JStr (nr_reason_code r)), (''approval_required'', JBool (nr_approval_required r))]"

definition record_canonical :: "node_record \<Rightarrow> json result" where
  "record_canonical r = checked (record_checks r) (record_json r)"

record scheduling_decision =
  sd_task_id :: string
  sd_task_context_fingerprint :: string
  sd_plan_fingerprint :: string
  sd_status :: string
  sd_records :: "node_record list"
  sd_approved_node_ids :: "string list"
  sd_schema_version :: string

definition ids_in_states :: "string list \<Rightarrow> scheduling_decision \<Rightarrow> string list" where
  "ids_in_states states d = map nr_node_id (filter (\<lambda>r. nr_state r \<in> set states) (sd_records d))"

definition ready_node_ids :: "scheduling_decision \<Rightarrow> string list" where
  "ready_node_ids d = ids_in_states [''READY''] d"

definition blocked_node_ids :: "scheduling_decision \<Rightarrow> string list" where
  "blocked_node_ids d = ids_in_states [''BLOCKED''] d"

definition waiting_node_ids :: "scheduling_decision \<Rightarrow> string list" where
  "waiting_node_ids d = ids_in_states [''WAITING''] d"

definition terminal_node_ids :: "scheduling_decision \<Rightarrow> string list" where
  "terminal_node_ids d = ids_in_states TERMINAL_OBSERVATION_STATUSES d"

definition decision_canonical :: "scheduling_decision \<Rightarrow> json result" where
  "decision_canonical d = bindE (checked
     [fail_if RSE (sd_schema_version d \<noteq> RUNTIME_SCHEDULING_DECISION_SCHEMA) ''SCHEDULING_DECISION_SCHEMA_VERSION_MISMATCH'',
      fail_if RSE (sd_status d \<notin> set DECISION_STATUSES) ''INVALID_SCHEDULING_DECISION_STATUS'',
      bindE (normalized_ids (sd_approved_node_ids d) ''approved_node_ids'') (\<lambda>n.
        fail_if RSE (sd_approved_node_ids d \<noteq> n) ''APPROVED_NODE_IDS_NOT_NORMALIZED''),
      void (sha256_field RSE (sd_task_context_fingerprint d) ''task_context_fingerprint''),
      void (sha256_field RSE (sd_plan_fingerprint d) ''plan_fingerprint'')] ()) (\<lambda>_.
     bindE (mapE record_canonical (sd_records d)) (\<lambda>records.
     Inr (JObj [(''schema_version'', JStr (sd_schema_version d)), (''task_id'', JStr (sd_task_id d)),
       (''task_context_fingerprint'', JStr (sd_task_context_fingerprint d)), (''plan_fingerprint'', JStr (sd_plan_fingerprint d)),
       (''status'', JStr (sd_status d)), (''records'', JList records), (''approved_node_ids'', str_list (sd_approved_node_ids d))])))"

definition decision_fingerprint :: "scheduling_decision \<Rightarrow> string result" where
  "decision_fingerprint d = bindE (decision_canonical d) (\<lambda>j. Inr (digest j))"

section \<open>The observations so far\<close>

record observed =
  os_unique :: "string \<rightharpoonup> observation"
  os_terminal :: "string \<rightharpoonup> observation"
  os_partial :: "string list"

definition nothing_observed :: observed where
  "nothing_observed = \<lparr>os_unique = Map.empty, os_terminal = Map.empty, os_partial = []\<rparr>"

definition nodes_by_id :: "execution_plan \<Rightarrow> string \<rightharpoonup> execution_node" where
  "nodes_by_id p = map_of (rev (map (\<lambda>n. (en_node_id n, n)) (ep_nodes p)))"

definition is_observation_error :: "exc_class \<Rightarrow> bool" where
  "is_observation_error c \<longleftrightarrow> c = ExecutionObservationError"

text \<open>The part of the loop after the duplicate check.\<close>

definition note_observation :: "observed \<Rightarrow> observation \<Rightarrow> observed result" where
  "note_observation s b = (let s' = s\<lparr>os_unique := (os_unique s)(ob_observation_id b \<mapsto> b)\<rparr> in
     if ob_status b = ''PARTIAL'' then Inr (s'\<lparr>os_partial := os_partial s @ [ob_node_id b]\<rparr>)
     else if ob_status b \<in> set TERMINAL_OBSERVATION_STATUSES then
       (case os_terminal s (ob_node_id b) of
          Some previous \<Rightarrow> if ob_observation_id previous \<noteq> ob_observation_id b
            then raise RSE (''SCHEDULER_MULTIPLE_TERMINAL_OBSERVATIONS:'' @ ob_node_id b)
            else Inr (s'\<lparr>os_terminal := (os_terminal s)(ob_node_id b \<mapsto> b)\<rparr>)
        | None \<Rightarrow> Inr (s'\<lparr>os_terminal := (os_terminal s)(ob_node_id b \<mapsto> b)\<rparr>))
     else Inr s')"

definition observation_step :: "execution_plan \<Rightarrow> authority \<Rightarrow> string list \<Rightarrow> observed \<Rightarrow> observation \<Rightarrow> observed result" where
  "observation_step p parent approvals s b =
     bindE (reraise is_observation_error RSE ''SCHEDULER_OBSERVATION_REVALIDATION_FAILED''
       (observation_validate b (Some p) (Some parent))) (\<lambda>_.
     case nodes_by_id p (ob_node_id b) of None \<Rightarrow> raise KeyError (ob_node_id b)
     | Some n \<Rightarrow>
         if en_approval_required n \<and> ob_node_id b \<notin> set approvals
           then raise RSE (''SCHEDULER_APPROVAL_REQUIRED_FOR_OBSERVATION:'' @ ob_node_id b)
         else case os_unique s (ob_observation_id b) of
           Some existing \<Rightarrow>
             bindE (observation_fingerprint existing) (\<lambda>f. bindE (observation_fingerprint b) (\<lambda>g.
             if f \<noteq> g then raise RSE ''SCHEDULER_OBSERVATION_ID_COLLISION'' else Inr s))
         | None \<Rightarrow> note_observation s b)"

section \<open>The state of each node\<close>

definition success_nodes :: "observed \<Rightarrow> string \<Rightarrow> bool" where
  "success_nodes s i = (case os_terminal s i of None \<Rightarrow> False | Some b \<Rightarrow> ob_status b = ''SUCCEEDED'')"

definition node_state :: "observed \<Rightarrow> string list \<Rightarrow> (string \<rightharpoonup> string) \<Rightarrow> execution_node \<Rightarrow> string \<times> string" where
  "node_state s approvals states n = (case os_terminal s (en_node_id n) of
     Some b \<Rightarrow> (ob_status b, ''OBSERVATION_'' @ ob_status b)
   | None \<Rightarrow>
       if en_node_id n \<in> set (os_partial s) then (''WAITING'', ''PARTIAL_OBSERVATION_REQUIRES_RECONCILIATION'')
       else if list_ex (\<lambda>d. (case states d of None \<Rightarrow> ''WAITING'' | Some t \<Rightarrow> t) \<in> {''FAILED'', ''CANCELLED'', ''BLOCKED''})
         (en_depends_on n) then (''BLOCKED'', ''DEPENDENCY_NOT_SUCCESSFUL'')
       else if \<not> list_all (success_nodes s) (en_depends_on n) then (''WAITING'', ''DEPENDENCY_NOT_TERMINAL_SUCCESS'')
       else if en_approval_required n \<and> en_node_id n \<notin> set approvals then (''BLOCKED'', ''EXPLICIT_APPROVAL_REQUIRED'')
       else (''READY'', ''NODE_ADMISSIBLE''))"

definition record_step :: "observed \<Rightarrow> string list \<Rightarrow> (string \<rightharpoonup> string) \<times> node_record list \<Rightarrow> execution_node
    \<Rightarrow> ((string \<rightharpoonup> string) \<times> node_record list) result" where
  "record_step s approvals acc n = (let (state, reason) = node_state s approvals (fst acc) n in
     bindE (node_fingerprint n) (\<lambda>f. Inr ((fst acc)(en_node_id n \<mapsto> state), snd acc @
       [\<lparr>nr_node_id = en_node_id n, nr_node_fingerprint = f, nr_authority_fingerprint = en_authority_fingerprint n,
         nr_state = state, nr_reason_code = reason, nr_approval_required = en_approval_required n,
         nr_schema_version = NODE_SCHEDULING_RECORD_SCHEMA\<rparr>])))"

definition decision_status :: "node_record list \<Rightarrow> string" where
  "decision_status records = (
     if records \<noteq> [] \<and> list_all (\<lambda>r. nr_state r = ''SUCCEEDED'') records then ''COMPLETE''
     else if list_ex (\<lambda>r. nr_state r = ''READY'') records then ''READY''
     else if list_ex (\<lambda>r. nr_state r = ''BLOCKED'') records then ''BLOCKED''
     else ''WAITING'')"

definition evaluate :: "task_context \<Rightarrow> execution_plan \<Rightarrow> authority \<Rightarrow> observation list \<Rightarrow> string list \<Rightarrow> scheduling_decision result" where
  "evaluate c p parent observations approved =
     bindE (reraise is_value_error RSE ''SCHEDULER_CANONICAL_REVALIDATION_FAILED''
       (bindE (context_validate c) (\<lambda>_. plan_validate p (Some parent)))) (\<lambda>_.
     if tx_task_id c \<noteq> ep_task_id p then raise RSE ''SCHEDULER_TASK_MISMATCH''
     else bindE (context_fingerprint c) (\<lambda>cf.
     if cf \<noteq> ep_task_context_fingerprint p then raise RSE ''SCHEDULER_TASK_CONTEXT_FINGERPRINT_MISMATCH''
     else bindE (identity_fingerprint c) (\<lambda>idf.
     if idf \<noteq> ep_task_context_identity_fingerprint p then raise RSE ''SCHEDULER_TASK_CONTEXT_IDENTITY_MISMATCH''
     else if tx_authority_fingerprint c \<noteq> au_fingerprint parent then raise RSE ''SCHEDULER_PARENT_AUTHORITY_MISMATCH''
     else if ep_parent_authority_fingerprint p \<noteq> au_fingerprint parent then raise RSE ''SCHEDULER_PLAN_AUTHORITY_MISMATCH''
     else bindE (normalized_ids approved ''approved_node_ids'') (\<lambda>approvals.
     let unknown = filter (\<lambda>i. nodes_by_id p i = None) approvals;
         needless = filter (\<lambda>i. case nodes_by_id p i of None \<Rightarrow> False | Some n \<Rightarrow> \<not> en_approval_required n) approvals in
     if unknown \<noteq> [] then raise RSE (''SCHEDULER_UNKNOWN_APPROVED_NODE:'' @ join '','' unknown)
     else if needless \<noteq> [] then raise RSE (''SCHEDULER_APPROVAL_FOR_NON_APPROVAL_NODE:'' @ join '','' needless)
     else bindE (foldE (observation_step p parent approvals) nothing_observed observations) (\<lambda>s.
     bindE (foldE (record_step s approvals) (Map.empty, []) (ep_nodes p)) (\<lambda>(_, records).
     bindE (plan_fingerprint p) (\<lambda>pf.
     let d = \<lparr>sd_task_id = ep_task_id p, sd_task_context_fingerprint = cf, sd_plan_fingerprint = pf,
         sd_status = decision_status records, sd_records = records, sd_approved_node_ids = approvals,
         sd_schema_version = RUNTIME_SCHEDULING_DECISION_SCHEMA\<rparr> in
     bindE (decision_canonical d) (\<lambda>_. Inr d))))))))"

section \<open>Approvals and observations\<close>

lemma normalized_ids_iff: "normalized_ids vs f = Inr r \<longleftrightarrow> [] \<notin> set vs \<and> r = sort (fromkeys vs)"
  by (auto simp: normalized_ids_def Let_def)

lemma sort_fromkeys_cong: "set xs = set ys \<Longrightarrow> sort (fromkeys xs) = sort (fromkeys ys)" for xs :: "string list"
  by (rule sorted_distinct_set_unique) simp_all

lemma sort_fromkeys_again [simp]: "sort (fromkeys (sort (fromkeys xs))) = sort (fromkeys xs)" for xs :: "string list"
  by (rule sort_fromkeys_cong) simp

lemma nodes_by_id_distinct:
  assumes "distinct (map en_node_id (ep_nodes p))"
  shows "nodes_by_id p i = Some n \<longleftrightarrow> n \<in> set (ep_nodes p) \<and> en_node_id n = i"
proof -
  have "distinct (map fst (rev (map (\<lambda>n. (en_node_id n, n)) (ep_nodes p))))"
    using assms by (simp add: rev_map [symmetric] comp_def)
  from map_of_eq_Some_iff [OF this] show ?thesis by (auto simp: nodes_by_id_def)
qed

lemma nodes_by_id_None: "nodes_by_id p i = None \<longleftrightarrow> i \<notin> en_node_id ` set (ep_nodes p)"
  by (auto simp: nodes_by_id_def map_of_eq_None_iff image_iff)

text \<open>An observation the evaluator takes into account: valid, and approved where its node asks for it.\<close>

definition admissible :: "execution_plan \<Rightarrow> authority \<Rightarrow> string set \<Rightarrow> observation \<Rightarrow> bool" where
  "admissible p parent approvals b \<longleftrightarrow> observation_validate b (Some p) (Some parent) = Inr b
     \<and> (\<exists>n. nodes_by_id p (ob_node_id b) = Some n \<and> (en_approval_required n \<longrightarrow> ob_node_id b \<in> approvals))"

lemma valid_fingerprint:
  assumes "observation_validate b pl parent = Inr c"
  shows "\<exists>f. observation_fingerprint b = Inr f"
proof -
  from assms have v: "observation_ok b" "expected_id b = Inr (ob_observation_id b)" by (simp_all add: observation_validate_iff)
  then obtain d where d: "observation_identity b = Inr d" "finite_json (JObj d)" by (auto simp: expected_id_def)
  then have "finite_json (JObj ((''observation_id'', JStr (ob_observation_id b)) # d))" by simp
  with v d(1) show ?thesis
    by (simp add: observation_fingerprint_def observation_validate_iff [THEN iffD2] canonical_digest_iff [THEN iffD2] del: finite_json.simps)
qed

lemma observation_stepD:
  assumes "observation_step p parent approvals s b = Inr t"
  shows "admissible p parent (set approvals) b"
    "(\<exists>e. os_unique s (ob_observation_id b) = Some e \<and> t = s) \<or> os_unique s (ob_observation_id b) = None \<and> note_observation s b = Inr t"
  using assms plan_validate_iff
  by (auto simp: observation_step_def admissible_def observation_validate_iff split: option.splits if_splits)

lemma terminal_statuses: "t \<in> set TERMINAL_OBSERVATION_STATUSES \<longleftrightarrow> t = ''SUCCEEDED'' \<or> t = ''FAILED'' \<or> t = ''CANCELLED''"
  by (auto simp: TERMINAL_OBSERVATION_STATUSES_def)

text \<open>Whatever the identifiers, the tables only hold observations that were given.\<close>

definition given :: "observation list \<Rightarrow> observed \<Rightarrow> bool" where
  "given bs s \<longleftrightarrow> (\<forall>i b. os_terminal s i = Some b \<longrightarrow> b \<in> set bs \<and> ob_node_id b = i \<and> ob_status b \<in> set TERMINAL_OBSERVATION_STATUSES)
     \<and> set (os_partial s) \<subseteq> {i. \<exists>b \<in> set bs. ob_node_id b = i \<and> ob_status b = ''PARTIAL''}"

lemma note_observationD:
  assumes "note_observation s b = Inr t"
  shows "os_unique t = (os_unique s)(ob_observation_id b \<mapsto> b)"
    "os_partial t = (if ob_status b = ''PARTIAL'' then os_partial s @ [ob_node_id b] else os_partial s)"
    "os_terminal t = (if ob_status b \<in> set TERMINAL_OBSERVATION_STATUSES then (os_terminal s)(ob_node_id b \<mapsto> b) else os_terminal s)"
    "ob_status b \<in> set TERMINAL_OBSERVATION_STATUSES \<Longrightarrow> os_terminal s (ob_node_id b) = Some e \<Longrightarrow> ob_observation_id e = ob_observation_id b"
  using assms by (auto simp: note_observation_def terminal_statuses Let_def split: option.splits if_splits)

lemma observations_given:
  assumes "foldE (observation_step p parent approvals) nothing_observed bs = Inr s"
  shows "given bs s" "\<forall>b \<in> set bs. admissible p parent (set approvals) b"
proof -
  have "given bs s"
  proof (rule foldE_invariant [OF assms])
    show "given bs nothing_observed" by (simp add: given_def nothing_observed_def)
    fix s b t
    assume "given bs s" "b \<in> set bs" "observation_step p parent approvals s b = Inr t"
    with observation_stepD(2) [of p parent approvals s b t] note_observationD(2,3) [of s b t] show "given bs t"
      unfolding given_def by (auto split: if_splits)
  qed
  then show "given bs s" .
  show "\<forall>b \<in> set bs. admissible p parent (set approvals) b"
    using assms by (induction bs arbitrary: s rule: rev_induct) (auto simp: foldE_append dest: observation_stepD(1))
qed

section \<open>Records\<close>

lemma node_state_cong:
  "(\<And>d. d \<in> set (en_depends_on n) \<Longrightarrow> st d = st' d) \<Longrightarrow> node_state s ap st n = node_state s ap st' n"
  by (cases "os_terminal s (en_node_id n)") (simp_all add: node_state_def list_ex_iff)

definition node_record_of :: "observed \<Rightarrow> string list \<Rightarrow> (string \<rightharpoonup> string) \<Rightarrow> execution_node \<Rightarrow> node_record" where
  "node_record_of s ap st n = \<lparr>nr_node_id = en_node_id n, nr_node_fingerprint = digest (node_json_of n),
     nr_authority_fingerprint = en_authority_fingerprint n, nr_state = fst (node_state s ap st n),
     nr_reason_code = snd (node_state s ap st n), nr_approval_required = en_approval_required n,
     nr_schema_version = NODE_SCHEDULING_RECORD_SCHEMA\<rparr>"

lemma record_step_iff: "record_step s ap acc n = Inr r \<longleftrightarrow> node_wf n
   \<and> r = ((fst acc)(en_node_id n \<mapsto> fst (node_state s ap (fst acc) n)), snd acc @ [node_record_of s ap (fst acc) n])"
  by (auto simp: record_step_def node_record_of_def node_fingerprint_iff bindE_Inr_iff split: prod.split)

text \<open>Every dependency names an earlier node.\<close>

definition ordered :: "execution_node list \<Rightarrow> bool" where
  "ordered ns \<longleftrightarrow> (\<forall>i < length ns. set (en_depends_on (ns ! i)) \<subseteq> en_node_id ` set (take i ns))"

lemma ordered_snoc: "ordered (ns @ [n]) \<longleftrightarrow> ordered ns \<and> set (en_depends_on n) \<subseteq> en_node_id ` set ns"
  by (auto simp: ordered_def nth_append less_Suc_eq)

lemma ordered_dependency: "ordered ns \<Longrightarrow> n \<in> set ns \<Longrightarrow> set (en_depends_on n) \<subseteq> en_node_id ` set ns"
proof (induction ns rule: rev_induct)
  case (snoc m ns)
  then show ?case by (auto simp: ordered_snoc)
qed simp

lemma record_fold:
  assumes "foldE (record_step s ap) (Map.empty, []) ns = Inr (st, rs)" "distinct (map en_node_id ns)" "ordered ns"
  shows "rs = map (node_record_of s ap st) ns \<and> dom st = en_node_id ` set ns
    \<and> (\<forall>n \<in> set ns. st (en_node_id n) = Some (fst (node_state s ap st n)))"
  using assms
proof (induction ns arbitrary: st rs rule: rev_induct)
  case (snoc n ns)
  from snoc.prems(1) obtain st0 rs0 where f: "foldE (record_step s ap) (Map.empty, []) ns = Inr (st0, rs0)"
    and st: "st = st0(en_node_id n \<mapsto> fst (node_state s ap st0 n))" and rs: "rs = rs0 @ [node_record_of s ap st0 n]"
    by (auto simp: foldE_append record_step_iff)
  have ord: "ordered ns" "set (en_depends_on n) \<subseteq> en_node_id ` set ns" using snoc.prems(3) by (simp_all add: ordered_snoc)
  have new: "en_node_id n \<notin> en_node_id ` set ns" "distinct (map en_node_id ns)" using snoc.prems(2) by auto
  note IH = snoc.IH [OF f new(2) ord(1)]
  have same: "node_state s ap st m = node_state s ap st0 m" if "m \<in> set (ns @ [n])" for m
  proof (rule node_state_cong)
    fix d assume "d \<in> set (en_depends_on m)"
    then have "d \<in> en_node_id ` set ns" using that ord(2) ordered_dependency [OF ord(1), of m] by auto
    then have "d \<noteq> en_node_id n" using new(1) by metis
    then show "st d = st0 d" by (simp add: st)
  qed
  have "rs = map (node_record_of s ap st) (ns @ [n])"
    using IH same by (simp add: rs node_record_of_def)
  moreover have "st (en_node_id m) = Some (fst (node_state s ap st m))" if "m \<in> set (ns @ [n])" for m
  proof (cases "m \<in> set ns")
    case True
    then have "en_node_id m \<noteq> en_node_id n" using new(1) by (metis imageI)
    with True IH same [OF that] show ?thesis by (simp add: st)
  next
    case False
    with that same [OF that] show ?thesis by (simp add: st)
  qed
  moreover have "dom st = en_node_id ` set (ns @ [n])" using IH by (auto simp: st)
  ultimately show ?case by blast
qed simp

lemma plan_ordered:
  assumes "plan_validate p parent = Inr q"
  shows "ordered (ep_nodes p)" "distinct (map en_node_id (ep_nodes p))"
proof -
  show "ordered (ep_nodes p)" unfolding ordered_def
  proof (intro allI impI subsetI)
    fix i d assume i: "i < length (ep_nodes p)" and d: "d \<in> set (en_depends_on (ep_nodes p ! i))"
    from plan_order_facts(3) [OF assms i d] obtain j where "j < i" "en_node_id (ep_nodes p ! j) = d" by blast
    with i show "d \<in> en_node_id ` set (take i (ep_nodes p))"
      by (auto simp: in_set_conv_nth image_iff intro!: bexI [of _ "ep_nodes p ! j"] exI [of _ j])
  qed
qed (rule plan_order_facts(2) [OF assms])

section \<open>Decisions\<close>

definition approvals_ok :: "execution_plan \<Rightarrow> string set \<Rightarrow> bool" where
  "approvals_ok p ap \<longleftrightarrow> [] \<notin> ap \<and> (\<forall>i \<in> ap. \<exists>n. nodes_by_id p i = Some n \<and> en_approval_required n)"

definition bound :: "task_context \<Rightarrow> execution_plan \<Rightarrow> authority \<Rightarrow> bool" where
  "bound c p parent \<longleftrightarrow> context_ok c \<and> plan_validate p (Some parent) = Inr p \<and> tx_task_id c = ep_task_id p
     \<and> context_fingerprint c = Inr (ep_task_context_fingerprint p) \<and> identity_fingerprint c = Inr (ep_task_context_identity_fingerprint p)
     \<and> tx_authority_fingerprint c = au_fingerprint parent \<and> ep_parent_authority_fingerprint p = au_fingerprint parent"

definition the_decision :: "execution_plan \<Rightarrow> string list \<Rightarrow> string \<Rightarrow> node_record list \<Rightarrow> scheduling_decision" where
  "the_decision p ap pf rs = \<lparr>sd_task_id = ep_task_id p, sd_task_context_fingerprint = ep_task_context_fingerprint p,
     sd_plan_fingerprint = pf, sd_status = decision_status rs, sd_records = rs, sd_approved_node_ids = ap,
     sd_schema_version = RUNTIME_SCHEDULING_DECISION_SCHEMA\<rparr>"

lemma needless_Nil: "filter (\<lambda>i. nodes_by_id p i = None) ap = [] \<and> [] \<notin> set ap
   \<and> filter (\<lambda>i. case nodes_by_id p i of None \<Rightarrow> False | Some n \<Rightarrow> \<not> en_approval_required n) ap = [] \<longleftrightarrow> approvals_ok p (set ap)"
  by (auto simp: filter_empty_conv approvals_ok_def split: option.splits)

lemma approvals_ok_sort [simp]: "approvals_ok p (set (sort (fromkeys ap))) = approvals_ok p (set ap)"
  by simp

lemma evaluate_iff0: "evaluate c p parent obs approved = Inr d \<longleftrightarrow> bound c p parent \<and> approvals_ok p (set approved)
   \<and> (\<exists>s st rs pf. foldE (observation_step p parent (sort (fromkeys approved))) nothing_observed obs = Inr s
        \<and> foldE (record_step s (sort (fromkeys approved))) (Map.empty, []) (ep_nodes p) = Inr (st, rs)
        \<and> plan_fingerprint p = Inr pf \<and> d = the_decision p (sort (fromkeys approved)) pf rs
        \<and> (\<exists>j. decision_canonical d = Inr j))"
proof -
  let ?ap = "sort (fromkeys approved)"
  have ap: "[] \<notin> set approved \<and> filter (\<lambda>i. nodes_by_id p i = None) ?ap = []
      \<and> filter (\<lambda>i. case nodes_by_id p i of None \<Rightarrow> False | Some n \<Rightarrow> \<not> en_approval_required n) ?ap = [] \<longleftrightarrow> approvals_ok p (set approved)"
    using needless_Nil [of p ?ap] by auto
  have "bound c p parent" if "evaluate c p parent obs approved = Inr d"
    using that by (auto simp: evaluate_def bound_def split: if_splits dest: plan_order_facts(1))
  moreover have "evaluate c p parent obs approved = Inr d \<longleftrightarrow> approvals_ok p (set approved)
   \<and> (\<exists>s st rs pf. foldE (observation_step p parent ?ap) nothing_observed obs = Inr s
        \<and> foldE (record_step s ?ap) (Map.empty, []) (ep_nodes p) = Inr (st, rs)
        \<and> plan_fingerprint p = Inr pf \<and> d = the_decision p ?ap pf rs \<and> (\<exists>j. decision_canonical d = Inr j))" if b: "bound c p parent"
  proof (cases "[] \<in> set approved")
    case True
    then have "evaluate c p parent obs approved \<noteq> Inr d"
      by (auto simp: evaluate_def normalized_ids_iff split: if_splits)
    with True show ?thesis by (simp add: approvals_ok_def)
  next
    case False
    then have n: "normalized_ids approved ''approved_node_ids'' = Inr ?ap" by (simp add: normalized_ids_iff)
    show ?thesis
      using b False unfolding ap [symmetric]
      by (auto simp: evaluate_def bound_def n Let_def the_decision_def bindE_Inr_iff split: if_splits)
  qed
  ultimately show ?thesis by blast
qed

text \<open>With distinct identifiers the tables are exactly the observations given, and the loop fails only on an
  inadmissible observation or on two terminal ones for a node.\<close>

definition recorded :: "observation set \<Rightarrow> observed \<Rightarrow> bool" where
  "recorded B s \<longleftrightarrow> (\<forall>i b. os_unique s i = Some b \<longleftrightarrow> b \<in> B \<and> ob_observation_id b = i)
     \<and> (\<forall>i b. os_terminal s i = Some b \<longleftrightarrow> b \<in> B \<and> ob_node_id b = i \<and> ob_status b \<in> set TERMINAL_OBSERVATION_STATUSES)
     \<and> set (os_partial s) = {i. \<exists>b \<in> B. ob_node_id b = i \<and> ob_status b = ''PARTIAL''}"

definition one_terminal :: "observation set \<Rightarrow> bool" where
  "one_terminal B \<longleftrightarrow> (\<forall>a \<in> B. \<forall>b \<in> B. ob_node_id a = ob_node_id b \<and> ob_status a \<in> set TERMINAL_OBSERVATION_STATUSES
     \<and> ob_status b \<in> set TERMINAL_OBSERVATION_STATUSES \<longrightarrow> a = b)"

lemma recorded_note:
  assumes "recorded B s" "note_observation s b = Inr t" "inj_on ob_observation_id (insert b B)" "b \<notin> B"
  shows "recorded (insert b B) t"
proof -
  note d = note_observationD [OF assms(2)]
  have new: "ob_observation_id e \<noteq> ob_observation_id b" if "e \<in> B" for e
    using assms(3,4) that by (metis inj_on_contraD insertI1 insertI2)
  have none: "os_terminal s (ob_node_id b) = None" if "ob_status b \<in> set TERMINAL_OBSERVATION_STATUSES"
  proof (cases "os_terminal s (ob_node_id b)")
    case (Some e)
    then have "e \<in> B" using assms(1) by (auto simp: recorded_def)
    with d(4) [OF that Some] new show ?thesis by blast
  qed simp
  have nt: "\<not> (a \<in> B \<and> ob_node_id a = ob_node_id b \<and> ob_status a \<in> set TERMINAL_OBSERVATION_STATUSES)"
    if "ob_status b \<in> set TERMINAL_OBSERVATION_STATUSES" for a
    using none [OF that] assms(1) unfolding recorded_def by (metis option.distinct(1))
  have "os_unique t i = Some a \<longleftrightarrow> a \<in> insert b B \<and> ob_observation_id a = i" for i a
    using assms(1,4) new by (auto simp: d(1) recorded_def)
  moreover have "os_terminal t i = Some a \<longleftrightarrow> a \<in> insert b B \<and> ob_node_id a = i \<and> ob_status a \<in> set TERMINAL_OBSERVATION_STATUSES" for i a
    using assms(1) nt by (auto simp: d(3) recorded_def)
  moreover have "set (os_partial t) = {i. \<exists>a \<in> insert b B. ob_node_id a = i \<and> ob_status a = ''PARTIAL''}"
    using assms(1) by (auto simp: d(2) recorded_def)
  ultimately show ?thesis unfolding recorded_def by blast
qed

lemma recorded_fresh: "recorded B s \<Longrightarrow> os_unique s (ob_observation_id b) = None \<Longrightarrow> b \<notin> B"
  unfolding recorded_def by (metis option.distinct(1))

lemma recorded_one_terminal: "recorded B s \<Longrightarrow> one_terminal B"
  unfolding recorded_def one_terminal_def by (metis option.inject)

lemma fold_recorded:
  assumes "foldE (observation_step p parent ap) nothing_observed bs = Inr s" "inj_on ob_observation_id (set bs)"
  shows "recorded (set bs) s"
  using assms
proof (induction bs arbitrary: s rule: rev_induct)
  case Nil
  then have "s = nothing_observed" by simp
  then show ?case by (simp add: recorded_def nothing_observed_def)
next
  case (snoc b bs)
  from snoc.prems(1) obtain s0 where f: "foldE (observation_step p parent ap) nothing_observed bs = Inr s0"
    and st: "observation_step p parent ap s0 b = Inr s" by (auto simp: foldE_append)
  have inj: "inj_on ob_observation_id (insert b (set bs))" using snoc.prems(2) by simp
  have "inj_on ob_observation_id (set bs)" using inj by (rule inj_on_subset) auto
  note r = snoc.IH [OF f this]
  from observation_stepD(2) [OF st] show ?case
  proof
    assume "\<exists>e. os_unique s0 (ob_observation_id b) = Some e \<and> s = s0"
    then obtain e where e: "e \<in> set bs" "ob_observation_id e = ob_observation_id b" "s = s0" using r by (auto simp: recorded_def)
    then have "e = b" using inj by (simp add: inj_on_def)
    with e r show ?thesis by (simp add: insert_absorb)
  next
    assume n: "os_unique s0 (ob_observation_id b) = None \<and> note_observation s0 b = Inr s"
    then have "b \<notin> set bs" using recorded_fresh [OF r] by blast
    with recorded_note [OF r _ inj] n show ?thesis by simp
  qed
qed

lemma observation_step_admissible:
  assumes "admissible p parent (set ap) b"
  shows "observation_step p parent ap s b = (case os_unique s (ob_observation_id b) of
           Some existing \<Rightarrow>
             bindE (observation_fingerprint existing) (\<lambda>f. bindE (observation_fingerprint b) (\<lambda>g.
             if f \<noteq> g then raise RSE ''SCHEDULER_OBSERVATION_ID_COLLISION'' else Inr s))
         | None \<Rightarrow> note_observation s b)"
  using assms by (auto simp: observation_step_def admissible_def)

lemma fold_accepts:
  assumes "\<forall>b \<in> set bs. admissible p parent (set ap) b" "one_terminal (set bs)" "inj_on ob_observation_id (set bs)"
  shows "\<exists>s. foldE (observation_step p parent ap) nothing_observed bs = Inr s"
  using assms
proof (induction bs rule: rev_induct)
  case (snoc b bs)
  have inj: "inj_on ob_observation_id (insert b (set bs))" using snoc.prems(3) by simp
  have i: "inj_on ob_observation_id (set bs)" using inj by (rule inj_on_subset) auto
  from snoc.IH i snoc.prems(1,2) obtain s where s: "foldE (observation_step p parent ap) nothing_observed bs = Inr s"
    by (auto simp: one_terminal_def)
  note r = fold_recorded [OF s i]
  have b: "admissible p parent (set ap) b" using snoc.prems(1) by simp
  then obtain f where f: "observation_fingerprint b = Inr f" using valid_fingerprint unfolding admissible_def by blast
  have "\<exists>t. observation_step p parent ap s b = Inr t"
  proof (cases "os_unique s (ob_observation_id b)")
    case (Some e)
    then have "e \<in> set bs" "ob_observation_id e = ob_observation_id b" using r by (auto simp: recorded_def)
    then have "e = b" using inj by (simp add: inj_on_def)
    with Some f show ?thesis by (simp add: observation_step_admissible [OF b])
  next
    case None
    then have nb: "b \<notin> set bs" using recorded_fresh [OF r] by blast
    have "os_terminal s (ob_node_id b) = None" if "ob_status b \<in> set TERMINAL_OBSERVATION_STATUSES"
    proof (cases "os_terminal s (ob_node_id b)")
      case (Some e)
      then have "e \<in> set bs" "ob_node_id e = ob_node_id b" "ob_status e \<in> set TERMINAL_OBSERVATION_STATUSES"
        using r by (auto simp: recorded_def)
      with snoc.prems(2) that have "e = b" by (simp add: one_terminal_def)
      with \<open>e \<in> set bs\<close> nb show ?thesis by simp
    qed simp
    with None show ?thesis by (simp add: observation_step_admissible [OF b] note_observation_def Let_def)
  qed
  with s show ?case by (auto simp: foldE_append)
qed simp

section \<open>Evaluation is total on valid plans\<close>

definition final_states :: "observed \<Rightarrow> string list \<Rightarrow> execution_node list \<Rightarrow> string \<rightharpoonup> string" where
  "final_states s ap ns = foldl (\<lambda>st n. st(en_node_id n \<mapsto> fst (node_state s ap st n))) Map.empty ns"

lemma record_fold_total:
  assumes "list_all node_wf ns"
  shows "\<exists>rs. foldE (record_step s ap) (Map.empty, []) ns = Inr (final_states s ap ns, rs)"
  using assms
proof (induction ns rule: rev_induct)
  case (snoc n ns)
  then obtain rs where "foldE (record_step s ap) (Map.empty, []) ns = Inr (final_states s ap ns, rs)" by auto
  moreover have "final_states s ap (ns @ [n]) = (final_states s ap ns)(en_node_id n \<mapsto> fst (node_state s ap (final_states s ap ns) n))"
    by (simp add: final_states_def)
  moreover have "record_step s ap (final_states s ap ns, rs) n = Inr ((final_states s ap ns)(en_node_id n \<mapsto>
      fst (node_state s ap (final_states s ap ns) n)), rs @ [node_record_of s ap (final_states s ap ns) n])"
    using snoc.prems by (simp add: record_step_iff)
  ultimately show ?case by (auto simp: foldE_append fun_eq_iff)
qed (simp add: final_states_def)

lemma plan_nodes_wf:
  assumes "plan_validate p parent = Inr q" "n \<in> set (ep_nodes p)"
  shows "node_wf n" "en_node_id n \<noteq> []"
proof -
  from assms obtain w levels where w: "validated_workflow p = Inr w" "projects w levels n"
    by (auto simp: plan_validate_iff list_all_iff)
  then show "node_wf n" by (simp add: projects_def)
  from w(2) obtain s where "by_id (wf_nodes w) (en_node_id n) = Some s" by (auto simp: projects_def)
  with by_id_Some validated_workflow_ok [OF w(1)] have "node_ok s" "nd_id s = en_node_id n"
    by (auto simp: contract_ok_def list_all_iff)
  then show "en_node_id n \<noteq> []" by (auto simp: node_ok_def NODE_ID_RE_def ident_match_def)
qed

lemma plan_fingerprint_total:
  assumes "plan_validate p parent = Inr q"
  shows "\<exists>f. plan_fingerprint p = Inr f \<and> is_sha256_ref f"
proof -
  have v: "plan_validate p None = Inr p" using assms by (simp add: plan_validate_iff)
  have "mapE node_canonical (ep_nodes p) = Inr (map node_json_of (ep_nodes p))"
    using plan_nodes_wf(1) [OF assms] by (intro mapE_map) (auto simp: node_canonical_iff)
  moreover obtain w where "validated_workflow p = Inr w" using assms by (auto simp: plan_validate_iff)
  then have "\<exists>j. loads (ep_workflow_contract_json p) = Some j" by (auto simp: validated_workflow_def split: option.splits)
  ultimately show ?thesis using v by (auto simp: plan_fingerprint_def plan_canonical_def)
qed

lemma node_state_member:
  assumes "given bs s"
  shows "fst (node_state s ap st n) \<in> set NODE_STATES" "snd (node_state s ap st n) \<noteq> []"
  using assms by (auto simp: node_state_def given_def terminal_statuses NODE_STATES_def split: option.split)

lemma decision_canonical_total:
  assumes "plan_validate p (Some parent) = Inr p" "given bs s" "plan_fingerprint p = Inr pf" "[] \<notin> set ap"
  shows "\<exists>j. decision_canonical (the_decision p (sort (fromkeys ap)) pf (map (node_record_of s ap' st) (ep_nodes p))) = Inr j"
proof -
  have "is_sha256_ref pf" using plan_fingerprint_total [OF assms(1)] assms(3) by simp
  moreover have "is_sha256_ref (ep_task_context_fingerprint p)" using assms(1) by (simp add: plan_validate_iff header_ok_def)
  moreover have "decision_status rs \<in> set DECISION_STATUSES" for rs by (simp add: decision_status_def DECISION_STATUSES_def)
  moreover have "record_canonical (node_record_of s ap' st n) = Inr (record_json (node_record_of s ap' st n))" if "n \<in> set (ep_nodes p)" for n
    using plan_nodes_wf [OF assms(1) that] node_state_member [OF assms(2)]
    by (auto simp: record_canonical_def record_checks_def checked_iff node_record_of_def node_wf_def)
  then have "mapE record_canonical (map (node_record_of s ap' st) (ep_nodes p))
      = Inr (map record_json (map (node_record_of s ap' st) (ep_nodes p)))" by (intro mapE_map) auto
  ultimately show ?thesis
    using assms(4) by (simp add: decision_canonical_def the_decision_def checked_def fail_if_def sorted_sort_id normalized_ids_iff [THEN iffD2])
qed

definition records_of :: "execution_plan \<Rightarrow> observed \<Rightarrow> string list \<Rightarrow> node_record list" where
  "records_of p s ap = map (node_record_of s ap (final_states s ap (ep_nodes p))) (ep_nodes p)"

lemma evaluate_iff: "evaluate c p parent obs approved = Inr d \<longleftrightarrow> bound c p parent \<and> approvals_ok p (set approved)
   \<and> (\<exists>s pf. foldE (observation_step p parent (sort (fromkeys approved))) nothing_observed obs = Inr s
        \<and> plan_fingerprint p = Inr pf
        \<and> d = the_decision p (sort (fromkeys approved)) pf (records_of p s (sort (fromkeys approved))))"
proof -
  let ?ap = "sort (fromkeys approved)"
  have "foldE (record_step s ?ap) (Map.empty, []) (ep_nodes p) = Inr (st, rs)
      \<longleftrightarrow> st = final_states s ?ap (ep_nodes p) \<and> rs = records_of p s ?ap"
    if b: "bound c p parent" for s st rs
  proof -
    from b have v: "plan_validate p (Some parent) = Inr p" by (simp add: bound_def)
    have "list_all node_wf (ep_nodes p)" using plan_nodes_wf(1) [OF v] by (simp add: list_all_iff)
    then obtain rs' where f: "foldE (record_step s ?ap) (Map.empty, []) (ep_nodes p) = Inr (final_states s ?ap (ep_nodes p), rs')"
      using record_fold_total by blast
    with record_fold [OF f] plan_ordered [OF v] show ?thesis by (auto simp: records_of_def)
  qed
  moreover have "\<exists>j. decision_canonical (the_decision p ?ap pf (records_of p s ?ap)) = Inr j"
    if "bound c p parent" "approvals_ok p (set approved)" "foldE (observation_step p parent ?ap) nothing_observed obs = Inr s"
      "plan_fingerprint p = Inr pf" for s pf
    using that decision_canonical_total [OF _ observations_given(1) [OF that(3)] that(4), of parent approved]
    by (simp add: bound_def approvals_ok_def records_of_def)
  ultimately show ?thesis unfolding evaluate_iff0 by auto
qed

section \<open>The meaning of the states\<close>

definition seen :: "observation set \<Rightarrow> string \<Rightarrow> string \<Rightarrow> bool" where
  "seen B i t \<longleftrightarrow> (\<exists>b \<in> B. ob_node_id b = i \<and> ob_status b = t)"

lemma recorded_terminal:
  assumes "recorded B s"
  shows "os_terminal s i = Some b \<longleftrightarrow> b \<in> B \<and> ob_node_id b = i \<and> ob_status b \<in> set TERMINAL_OBSERVATION_STATUSES"
    "os_terminal s i = None \<longleftrightarrow> (\<forall>b \<in> B. ob_node_id b = i \<longrightarrow> ob_status b \<notin> set TERMINAL_OBSERVATION_STATUSES)"
proof -
  show e: "os_terminal s i = Some b \<longleftrightarrow> b \<in> B \<and> ob_node_id b = i \<and> ob_status b \<in> set TERMINAL_OBSERVATION_STATUSES" for b
    using assms by (simp add: recorded_def)
  have "os_terminal s i = None \<longleftrightarrow> (\<forall>b. os_terminal s i \<noteq> Some b)" by (cases "os_terminal s i") auto
  then show "os_terminal s i = None \<longleftrightarrow> (\<forall>b \<in> B. ob_node_id b = i \<longrightarrow> ob_status b \<notin> set TERMINAL_OBSERVATION_STATUSES)"
    unfolding e by blast
qed

lemma recorded_none:
  assumes "recorded B s" "\<forall>b \<in> B. ob_status b \<in> set OBSERVATION_STATUSES"
  shows "os_terminal s i = None \<and> i \<notin> set (os_partial s) \<longleftrightarrow> (\<forall>b \<in> B. ob_node_id b \<noteq> i)"
proof -
  have "i \<notin> set (os_partial s) \<longleftrightarrow> (\<forall>b \<in> B. ob_node_id b = i \<longrightarrow> ob_status b \<noteq> ''PARTIAL'')"
    using assms(1) unfolding recorded_def by auto
  then show ?thesis
    unfolding recorded_terminal(2) [OF assms(1)] using assms(2)
    by (auto simp: OBSERVATION_STATUSES_def terminal_statuses)
qed

lemma recorded_success: "recorded B s \<Longrightarrow> success_nodes s k \<longleftrightarrow> seen B k ''SUCCEEDED''"
proof -
  assume r: "recorded B s"
  have "success_nodes s k \<longleftrightarrow> (\<exists>b. os_terminal s k = Some b \<and> ob_status b = ''SUCCEEDED'')"
    by (simp add: success_nodes_def split: option.split)
  then show ?thesis unfolding recorded_terminal(1) [OF r] by (auto simp: seen_def terminal_statuses)
qed

lemma recorded_state:
  assumes "recorded B s" "t \<in> set TERMINAL_OBSERVATION_STATUSES"
  shows "fst (node_state s ap st n) = t \<longleftrightarrow> seen B (en_node_id n) t"
proof (cases "os_terminal s (en_node_id n)")
  case None
  then have "\<not> seen B (en_node_id n) t" using assms(2) unfolding recorded_terminal(2) [OF assms(1)] by (auto simp: seen_def)
  with None assms(2) show ?thesis by (auto simp: node_state_def terminal_statuses)
next
  case (Some b)
  then have "b \<in> B" "ob_node_id b = en_node_id n" "ob_status b \<in> set TERMINAL_OBSERVATION_STATUSES"
    by (simp_all add: recorded_terminal(1) [OF assms(1)])
  moreover have "e = b" if "e \<in> B" "ob_node_id e = en_node_id n" "ob_status e = t" for e
  proof -
    from that assms(2) have "os_terminal s (en_node_id n) = Some e" by (simp add: recorded_terminal(1) [OF assms(1)])
    with Some show ?thesis by simp
  qed
  ultimately have "ob_status b = t \<longleftrightarrow> seen B (en_node_id n) t" unfolding seen_def by blast
  with Some show ?thesis by (simp add: node_state_def)
qed

abbreviation failing :: "(string \<rightharpoonup> string) \<Rightarrow> string \<Rightarrow> bool" where
  "failing st k \<equiv> (case st k of None \<Rightarrow> ''WAITING'' | Some t \<Rightarrow> t) \<in> {''FAILED'', ''CANCELLED'', ''BLOCKED''}"

lemma node_state_admission:
  assumes "given bs s"
  shows "fst (node_state s ap st n) = ''READY'' \<longleftrightarrow> os_terminal s (en_node_id n) = None \<and> en_node_id n \<notin> set (os_partial s)
      \<and> \<not> list_ex (failing st) (en_depends_on n) \<and> list_all (success_nodes s) (en_depends_on n)
      \<and> (en_approval_required n \<longrightarrow> en_node_id n \<in> set ap)"
    "fst (node_state s ap st n) = ''BLOCKED'' \<longleftrightarrow> os_terminal s (en_node_id n) = None \<and> en_node_id n \<notin> set (os_partial s)
      \<and> (list_ex (failing st) (en_depends_on n)
         \<or> list_all (success_nodes s) (en_depends_on n) \<and> en_approval_required n \<and> en_node_id n \<notin> set ap)"
proof -
  have t: "ob_status b \<noteq> ''READY'' \<and> ob_status b \<noteq> ''BLOCKED''" if "os_terminal s (en_node_id n) = Some b" for b
  proof -
    from assms that have "ob_status b \<in> set TERMINAL_OBSERVATION_STATUSES" unfolding given_def by blast
    then show ?thesis by (auto simp: terminal_statuses)
  qed
  show "fst (node_state s ap st n) = ''READY'' \<longleftrightarrow> os_terminal s (en_node_id n) = None \<and> en_node_id n \<notin> set (os_partial s)
      \<and> \<not> list_ex (failing st) (en_depends_on n) \<and> list_all (success_nodes s) (en_depends_on n)
      \<and> (en_approval_required n \<longrightarrow> en_node_id n \<in> set ap)"
    using t by (cases "os_terminal s (en_node_id n)") (auto simp: node_state_def)
  show "fst (node_state s ap st n) = ''BLOCKED'' \<longleftrightarrow> os_terminal s (en_node_id n) = None \<and> en_node_id n \<notin> set (os_partial s)
      \<and> (list_ex (failing st) (en_depends_on n)
         \<or> list_all (success_nodes s) (en_depends_on n) \<and> en_approval_required n \<and> en_node_id n \<notin> set ap)"
    using t by (cases "os_terminal s (en_node_id n)") (auto simp: node_state_def)
qed

lemma evaluated_records:
  assumes "evaluate c p parent obs approved = Inr d"
  obtains s st where "foldE (observation_step p parent (sort (fromkeys approved))) nothing_observed obs = Inr s"
    "sd_records d = map (node_record_of s (sort (fromkeys approved)) st) (ep_nodes p)"
    "\<And>n. n \<in> set (ep_nodes p) \<Longrightarrow> st (en_node_id n) = Some (fst (node_state s (sort (fromkeys approved)) st n))"
    "plan_validate p (Some parent) = Inr p" "sd_status d = decision_status (sd_records d)"
proof -
  let ?ap = "sort (fromkeys approved)"
  from assms obtain s pf where s: "foldE (observation_step p parent ?ap) nothing_observed obs = Inr s"
    and d: "d = the_decision p ?ap pf (records_of p s ?ap)" and v: "plan_validate p (Some parent) = Inr p"
    by (auto simp: evaluate_iff bound_def)
  have "list_all node_wf (ep_nodes p)" using plan_nodes_wf(1) [OF v] by (simp add: list_all_iff)
  then obtain rs where f: "foldE (record_step s ?ap) (Map.empty, []) (ep_nodes p) = Inr (final_states s ?ap (ep_nodes p), rs)"
    using record_fold_total by blast
  note r = record_fold [OF f plan_ordered(2,1) [OF v]]
  show thesis
    by (rule that [OF s, of "final_states s ?ap (ep_nodes p)"]) (use r v in \<open>simp_all add: d the_decision_def records_of_def\<close>)
qed

lemma first_failure:
  assumes "\<not> (\<forall>x \<in> set xs. Q x)"
  shows "\<exists>i < length xs. \<not> Q (xs ! i) \<and> (\<forall>j < i. Q (xs ! j))"
proof -
  from assms obtain i where i: "i < length xs \<and> \<not> Q (xs ! i)" by (auto simp: in_set_conv_nth)
  let ?i = "LEAST i. i < length xs \<and> \<not> Q (xs ! i)"
  have "?i < length xs \<and> \<not> Q (xs ! ?i)" using i by (rule LeastI)
  moreover have "Q (xs ! j)" if "j < ?i" for j using not_less_Least [OF that] calculation that by auto
  ultimately show ?thesis by blast
qed

lemma dependency_node:
  assumes "plan_validate p parent = Inr p" "n \<in> set (ep_nodes p)" "k \<in> set (en_depends_on n)"
  shows "\<exists>m \<in> set (ep_nodes p). en_node_id m = k"
  using ordered_dependency [OF plan_ordered(1) [OF assms(1)] assms(2)] assms(3) by blast

lemma failing_dependency:
  assumes "plan_validate p parent = Inr p" "n \<in> set (ep_nodes p)" "rs = map (node_record_of s ap st) (ep_nodes p)"
    "\<And>n. n \<in> set (ep_nodes p) \<Longrightarrow> st (en_node_id n) = Some (fst (node_state s ap st n))"
  shows "list_ex (failing st) (en_depends_on n) \<longleftrightarrow>
    (\<exists>k \<in> set (en_depends_on n). \<exists>q \<in> set rs. nr_node_id q = k \<and> nr_state q \<in> {''FAILED'', ''CANCELLED'', ''BLOCKED''})"
proof -
  have "failing st k \<longleftrightarrow> (\<exists>q \<in> set rs. nr_node_id q = k \<and> nr_state q \<in> {''FAILED'', ''CANCELLED'', ''BLOCKED''})"
    if k: "k \<in> set (en_depends_on n)" for k
  proof -
    obtain m where m: "m \<in> set (ep_nodes p)" "en_node_id m = k" using dependency_node [OF assms(1,2) k] by blast
    have "m' = m" if "m' \<in> set (ep_nodes p)" "en_node_id m' = k" for m'
      using plan_ordered(2) [OF assms(1)] m that by (auto simp: distinct_map inj_on_def)
    moreover have "(\<exists>q \<in> set rs. nr_node_id q = k \<and> nr_state q \<in> A)
        \<longleftrightarrow> (\<exists>m' \<in> set (ep_nodes p). en_node_id m' = k \<and> fst (node_state s ap st m') \<in> A)" for A
      unfolding assms(3) by (simp add: node_record_of_def)
    ultimately have "(\<exists>q \<in> set rs. nr_node_id q = k \<and> nr_state q \<in> A) \<longleftrightarrow> fst (node_state s ap st m) \<in> A" for A
      using m by blast
    moreover have "failing st k \<longleftrightarrow> fst (node_state s ap st m) \<in> {''FAILED'', ''CANCELLED'', ''BLOCKED''}"
      using assms(4) [OF m(1)] unfolding m(2) by (simp only: option.case)
    ultimately show ?thesis by blast
  qed
  then show ?thesis by (simp only: list_ex_iff) blast
qed

section \<open>Properties\<close>

text \<open>C9: the decision on every node. When the evaluator accepts observations with distinct identifiers, its records are the
  plan's nodes in order, and each state means what it says: a terminal state is the status of an observation of the
  node; \<open>READY\<close> means no observation of the node, a success of every dependency and an approval where the node asks
  for one; \<open>BLOCKED\<close> means no observation and either a dependency that failed, was cancelled or is itself blocked, or
  only the approval missing.\<close>

theorem evaluate_classifies:
  assumes "evaluate c p parent obs approved = Inr d" "inj_on ob_observation_id (set obs)"
  shows "map nr_node_id (sd_records d) = map en_node_id (ep_nodes p)
    \<and> (\<forall>n \<in> set (ep_nodes p). \<exists>r \<in> set (sd_records d). nr_node_id r = en_node_id n
        \<and> (\<forall>t \<in> set TERMINAL_OBSERVATION_STATUSES. nr_state r = t \<longleftrightarrow> seen (set obs) (en_node_id n) t)
        \<and> (nr_state r = ''READY'' \<longleftrightarrow> (\<forall>b \<in> set obs. ob_node_id b \<noteq> en_node_id n)
             \<and> (\<forall>k \<in> set (en_depends_on n). seen (set obs) k ''SUCCEEDED'') \<and> (en_approval_required n \<longrightarrow> en_node_id n \<in> set approved))
        \<and> (nr_state r = ''BLOCKED'' \<longleftrightarrow> (\<forall>b \<in> set obs. ob_node_id b \<noteq> en_node_id n)
             \<and> ((\<exists>k \<in> set (en_depends_on n). \<exists>q \<in> set (sd_records d). nr_node_id q = k \<and> nr_state q \<in> {''FAILED'', ''CANCELLED'', ''BLOCKED''})
                \<or> (\<forall>k \<in> set (en_depends_on n). seen (set obs) k ''SUCCEEDED'') \<and> en_approval_required n \<and> en_node_id n \<notin> set approved)))"
proof -
  let ?ap = "sort (fromkeys approved)"
  obtain s st where f: "foldE (observation_step p parent ?ap) nothing_observed obs = Inr s"
    and rs: "sd_records d = map (node_record_of s ?ap st) (ep_nodes p)"
    and st: "\<And>n. n \<in> set (ep_nodes p) \<Longrightarrow> st (en_node_id n) = Some (fst (node_state s ?ap st n))"
    and v: "plan_validate p (Some parent) = Inr p"
    by (rule evaluated_records [OF assms(1)]) blast
  note r = fold_recorded [OF f assms(2)] and g = observations_given [OF f]
  have "\<forall>b \<in> set obs. ob_status b \<in> set OBSERVATION_STATUSES"
    using g(2) by (auto simp: admissible_def observation_validate_iff observation_ok_def)
  note none = recorded_none [OF r this] and adm = node_state_admission [OF g(1), of ?ap st]
  have dep: "\<not> list_ex (failing st) (en_depends_on n)"
    if n: "n \<in> set (ep_nodes p)" and all: "\<forall>k \<in> set (en_depends_on n). success_nodes s k" for n
  proof -
    have "st k = Some ''SUCCEEDED''" if k: "k \<in> set (en_depends_on n)" for k
    proof -
      obtain m where "m \<in> set (ep_nodes p)" "en_node_id m = k" using dependency_node [OF v n k] by blast
      with st recorded_state [OF r, of "''SUCCEEDED''"] all [unfolded recorded_success [OF r]] k show ?thesis by (auto simp: terminal_statuses)
    qed
    then show ?thesis by (auto simp: list_ex_iff)
  qed
  show ?thesis
  proof (intro conjI ballI)
    show "map nr_node_id (sd_records d) = map en_node_id (ep_nodes p)" by (simp add: rs node_record_of_def)
    fix n assume n: "n \<in> set (ep_nodes p)"
    show "\<exists>r \<in> set (sd_records d). nr_node_id r = en_node_id n
        \<and> (\<forall>t \<in> set TERMINAL_OBSERVATION_STATUSES. nr_state r = t \<longleftrightarrow> seen (set obs) (en_node_id n) t)
        \<and> (nr_state r = ''READY'' \<longleftrightarrow> (\<forall>b \<in> set obs. ob_node_id b \<noteq> en_node_id n)
             \<and> (\<forall>k \<in> set (en_depends_on n). seen (set obs) k ''SUCCEEDED'') \<and> (en_approval_required n \<longrightarrow> en_node_id n \<in> set approved))
        \<and> (nr_state r = ''BLOCKED'' \<longleftrightarrow> (\<forall>b \<in> set obs. ob_node_id b \<noteq> en_node_id n)
             \<and> ((\<exists>k \<in> set (en_depends_on n). \<exists>q \<in> set (sd_records d). nr_node_id q = k \<and> nr_state q \<in> {''FAILED'', ''CANCELLED'', ''BLOCKED''})
                \<or> (\<forall>k \<in> set (en_depends_on n). seen (set obs) k ''SUCCEEDED'') \<and> en_approval_required n \<and> en_node_id n \<notin> set approved))"
      unfolding none [symmetric] recorded_success [OF r, symmetric]
    proof (rule bexI [of _ "node_record_of s ?ap st n"], intro conjI ballI)
      show "nr_state (node_record_of s ?ap st n) = ''READY'' \<longleftrightarrow> (os_terminal s (en_node_id n) = None \<and> en_node_id n \<notin> set (os_partial s))
          \<and> (\<forall>k \<in> set (en_depends_on n). success_nodes s k) \<and> (en_approval_required n \<longrightarrow> en_node_id n \<in> set approved)"
        using dep [OF n] adm(1) [of n] by (auto simp: node_record_of_def list_all_iff)
      show "nr_state (node_record_of s ?ap st n) = ''BLOCKED'' \<longleftrightarrow> (os_terminal s (en_node_id n) = None \<and> en_node_id n \<notin> set (os_partial s))
          \<and> ((\<exists>k \<in> set (en_depends_on n). \<exists>q \<in> set (sd_records d). nr_node_id q = k \<and> nr_state q \<in> {''FAILED'', ''CANCELLED'', ''BLOCKED''})
             \<or> (\<forall>k \<in> set (en_depends_on n). success_nodes s k) \<and> en_approval_required n \<and> en_node_id n \<notin> set approved)"
        using adm(2) [of n] failing_dependency [OF v n rs st] by (simp add: node_record_of_def list_all_iff)
    qed (use n in \<open>simp_all add: rs node_record_of_def recorded_state [OF r]\<close>)
  qed
qed

lemma demo_bound_plan: "bound demo_plan_context demo_plan demo_plan_authority"
proof -
  have "tx_task_id demo_plan_context = ep_task_id demo_plan" "tx_authority_fingerprint demo_plan_context = au_fingerprint demo_plan_authority"
    "ep_parent_authority_fingerprint demo_plan = au_fingerprint demo_plan_authority"
    "ep_task_context_fingerprint demo_plan = digest (context_json demo_plan_context)"
    "ep_task_context_identity_fingerprint demo_plan = digest (JObj (identity_items demo_plan_context))"
    by (simp_all add: demo_plan_def planned_def demo_plan_context_def)
  then show ?thesis using demo_plan_context_ok demo_plan_valid by (simp add: bound_def)
qed

lemma demo_gather: "nodes_by_id demo_plan ''gather'' = Some (demo_nodes ! 0)" "\<not> en_approval_required (demo_nodes ! 0)"
    "en_node_id (demo_nodes ! 0) = ''gather''" "en_node_id (demo_nodes ! 1) = ''write''" "en_depends_on (demo_nodes ! 1) = [''gather'']"
    "ep_nodes demo_plan = demo_nodes" "\<not> en_approval_required (demo_nodes ! 1)" "length demo_nodes = 2"
    "ob_node_id demo_observation = ''gather''" "ob_status demo_observation = ''SUCCEEDED''"
  by (simp_all add: nodes_by_id_def demo_plan_def planned_def demo_nodes_def demo_node_def Let_def demo_contract_def)
    (simp_all add: demo_observation_def demo_observation0_def)

lemma demo_evaluates: "\<exists>d. evaluate demo_plan_context demo_plan demo_plan_authority [demo_observation] [] = Inr d"
proof -
  have "admissible demo_plan demo_plan_authority (set []) demo_observation"
    using demo_observation_valid demo_gather by (simp add: admissible_def)
  then obtain s where "foldE (observation_step demo_plan demo_plan_authority []) nothing_observed [demo_observation] = Inr s"
    using fold_accepts [of "[demo_observation]" demo_plan demo_plan_authority "[]"] by (auto simp: one_terminal_def)
  then show ?thesis
    using demo_bound_plan demo_plan_fingerprint unfolding evaluate_iff by (simp add: approvals_ok_def)
qed

theorem evaluate_classifies_witness:
  "\<exists>d. evaluate demo_plan_context demo_plan demo_plan_authority [demo_observation] [] = Inr d
     \<and> (\<exists>r \<in> set (sd_records d). nr_node_id r = ''gather'' \<and> nr_state r = ''SUCCEEDED'')
     \<and> (\<exists>r \<in> set (sd_records d). nr_node_id r = ''write'' \<and> nr_state r = ''READY'')"
proof -
  obtain d where d: "evaluate demo_plan_context demo_plan demo_plan_authority [demo_observation] [] = Inr d" using demo_evaluates by blast
  have "inj_on ob_observation_id (set [demo_observation])" by simp
  note c = evaluate_classifies [OF d this, THEN conjunct2]
  have n: "demo_nodes ! 0 \<in> set (ep_nodes demo_plan)" "demo_nodes ! 1 \<in> set (ep_nodes demo_plan)" using demo_gather by simp_all
  have "seen (set [demo_observation]) ''gather'' ''SUCCEEDED''" "''SUCCEEDED'' \<in> set TERMINAL_OBSERVATION_STATUSES"
    using demo_gather by (simp_all add: seen_def terminal_statuses)
  with bspec [OF c n(1)] bspec [OF c n(2)] have "\<exists>r \<in> set (sd_records d). nr_node_id r = ''gather'' \<and> nr_state r = ''SUCCEEDED''"
    "\<exists>r \<in> set (sd_records d). nr_node_id r = ''write'' \<and> nr_state r = ''READY''"
    using demo_gather by auto
  with d show ?thesis by blast
qed

text \<open>C18: no deadlock on the way to completion. When every observation so far reports success and every approval
  is given, the decision is \<open>COMPLETE\<close> and no node is ready exactly when every node has an observation; otherwise
  the decision is \<open>READY\<close> and some node is ready.\<close>

theorem evaluate_progress:
  assumes "evaluate c p parent obs approved = Inr d" "inj_on ob_observation_id (set obs)"
    "\<forall>b \<in> set obs. ob_status b = ''SUCCEEDED''"
    "\<forall>n \<in> set (ep_nodes p). en_approval_required n \<longrightarrow> en_node_id n \<in> set approved"
  shows "if en_node_id ` set (ep_nodes p) \<subseteq> ob_node_id ` set obs then sd_status d = ''COMPLETE'' \<and> ready_node_ids d = []
    else sd_status d = ''READY'' \<and> ready_node_ids d \<noteq> []"
proof -
  let ?ap = "sort (fromkeys approved)"
  obtain s st where f: "foldE (observation_step p parent ?ap) nothing_observed obs = Inr s"
    and rs: "sd_records d = map (node_record_of s ?ap st) (ep_nodes p)" and status: "sd_status d = decision_status (sd_records d)"
    and st: "\<And>n. n \<in> set (ep_nodes p) \<Longrightarrow> st (en_node_id n) = Some (fst (node_state s ?ap st n))"
    and v: "plan_validate p (Some parent) = Inr p"
    by (rule evaluated_records [OF assms(1)]) blast
  note r = fold_recorded [OF f assms(2)] and g = observations_given [OF f]
  have partial: "set (os_partial s) = {}" using r assms(3) by (auto simp: recorded_def)
  have image: "seen (set obs) k ''SUCCEEDED'' \<longleftrightarrow> k \<in> ob_node_id ` set obs" for k
    using assms(3) unfolding seen_def by blast
  have succ: "fst (node_state s ?ap st n) = ''SUCCEEDED'' \<longleftrightarrow> en_node_id n \<in> ob_node_id ` set obs" for n
    using recorded_state [OF r, of "''SUCCEEDED''" ?ap st n] by (simp add: terminal_statuses image)
  have sn: "success_nodes s k \<longleftrightarrow> k \<in> ob_node_id ` set obs" for k
    using recorded_success [OF r, of k] by (simp add: image)
  have some: "os_terminal s i = None \<longleftrightarrow> i \<notin> ob_node_id ` set obs" for i
    using recorded_terminal(2) [OF r, of i] assms(3) by (auto simp: terminal_statuses)
  have ready: "ready_node_ids d = [] \<longleftrightarrow> (\<forall>n \<in> set (ep_nodes p). fst (node_state s ?ap st n) \<noteq> ''READY'')"
    by (auto simp: ready_node_ids_def ids_in_states_def rs node_record_of_def filter_empty_conv)
  show ?thesis
  proof (cases "en_node_id ` set (ep_nodes p) \<subseteq> ob_node_id ` set obs")
    case True
    then have all: "fst (node_state s ?ap st n) = ''SUCCEEDED''" if "n \<in> set (ep_nodes p)" for n using that succ by blast
    have "ep_nodes p \<noteq> []" using v by (auto simp: plan_validate_iff header_ok_def)
    with all have "sd_status d = ''COMPLETE''"
      by (simp add: status decision_status_def rs list_all_iff node_record_of_def)
    with True all ready show ?thesis by simp
  next
    case False
    then obtain i where i: "i < length (ep_nodes p)" "en_node_id (ep_nodes p ! i) \<notin> ob_node_id ` set obs"
      "\<And>j. j < i \<Longrightarrow> en_node_id (ep_nodes p ! j) \<in> ob_node_id ` set obs"
      using first_failure [of "ep_nodes p" "\<lambda>n. en_node_id n \<in> ob_node_id ` set obs"] by blast
    let ?n = "ep_nodes p ! i"
    have dep: "k \<in> ob_node_id ` set obs \<and> st k = Some ''SUCCEEDED''" if k: "k \<in> set (en_depends_on ?n)" for k
    proof -
      obtain j where j: "j < i" "en_node_id (ep_nodes p ! j) = k" using plan_order_facts(3) [OF v i(1) k] by blast
      then have "k \<in> ob_node_id ` set obs" "ep_nodes p ! j \<in> set (ep_nodes p)" using i(1) i(3) [of j] by auto
      with st [of "ep_nodes p ! j"] succ [of "ep_nodes p ! j"] j(2) show ?thesis by simp
    qed
    have n: "?n \<in> set (ep_nodes p)" using i(1) by simp
    have "fst (node_state s ?ap st ?n) = ''READY''"
      unfolding node_state_admission(1) [OF g(1)] using dep n i(2) assms(4) partial
      by (auto simp: some sn list_all_iff list_ex_iff)
    then have "\<exists>r \<in> set (sd_records d). nr_state r = ''READY''" using n by (auto simp: rs node_record_of_def)
    then have "sd_status d = ''READY''" by (auto simp: status decision_status_def list_all_iff list_ex_iff)
    with False ready n \<open>fst (node_state s ?ap st ?n) = ''READY''\<close> show ?thesis by auto
  qed
qed

theorem evaluate_progress_witness:
  "\<exists>d. evaluate demo_plan_context demo_plan demo_plan_authority [demo_observation] [] = Inr d
     \<and> sd_status d = ''READY'' \<and> ready_node_ids d \<noteq> []"
proof -
  obtain d where d: "evaluate demo_plan_context demo_plan demo_plan_authority [demo_observation] [] = Inr d" using demo_evaluates by blast
  have "\<forall>n \<in> set (ep_nodes demo_plan). en_approval_required n \<longrightarrow> en_node_id n \<in> set []"
    by (simp add: demo_gather demo_nodes_def demo_node_def Let_def)
  moreover have "demo_nodes ! 1 \<in> set (ep_nodes demo_plan)" using demo_gather(6,8) by simp
  then have "''write'' \<in> en_node_id ` set (ep_nodes demo_plan)" using demo_gather(4) by (metis imageI)
  then have "\<not> en_node_id ` set (ep_nodes demo_plan) \<subseteq> ob_node_id ` set [demo_observation]" using demo_gather(9) by auto
  ultimately show ?thesis using evaluate_progress [OF d] d demo_gather(10) by auto
qed

lemma option_eqI: "(\<And>b. x = Some b \<longleftrightarrow> y = Some b) \<Longrightarrow> x = y"
  by (metis not_Some_eq)

lemma evaluate_set_cong:
  assumes "inj_on ob_observation_id (set obs)" "set obs = set obs'" "set approved = set approved'"
  shows "evaluate c p parent obs approved = Inr d \<longleftrightarrow> evaluate c p parent obs' approved' = Inr d"
proof -
  let ?ap = "sort (fromkeys approved)"
  have ap: "sort (fromkeys approved') = ?ap" using sort_fromkeys_cong [OF assms(3)] by simp
  have ex: "(\<exists>s. foldE (observation_step p parent ?ap) nothing_observed bs = Inr s)
      \<longleftrightarrow> (\<forall>b \<in> set obs. admissible p parent (set ?ap) b) \<and> one_terminal (set obs)" if "set bs = set obs" for bs
    using fold_accepts [of bs p parent ?ap] fold_recorded [of p parent ?ap bs] recorded_one_terminal observations_given(2) [of p parent ?ap bs]
      assms(1) unfolding that by blast
  have same: "records_of p s ?ap = records_of p t ?ap" if "recorded (set obs) s" "recorded (set obs) t" for s t
  proof -
    have "os_terminal s = os_terminal t"
    proof
      fix i
      have "os_terminal s i = Some b \<longleftrightarrow> os_terminal t i = Some b" for b
        unfolding recorded_terminal(1) [OF that(1)] recorded_terminal(1) [OF that(2)] by (rule refl)
      then show "os_terminal s i = os_terminal t i" by (rule option_eqI)
    qed
    moreover have "set (os_partial s) = set (os_partial t)" using that by (simp add: recorded_def)
    ultimately have "node_state s ap st n = node_state t ap st n" for ap st n
      unfolding node_state_def success_nodes_def [abs_def] by simp
    then have "node_state s = node_state t" by (intro ext)
    then show ?thesis by (simp add: records_of_def node_record_of_def final_states_def)
  qed
  have "(\<exists>s. foldE (observation_step p parent ?ap) nothing_observed obs = Inr s \<and> Q (records_of p s ?ap))
      \<longleftrightarrow> (\<exists>s. foldE (observation_step p parent ?ap) nothing_observed obs' = Inr s \<and> Q (records_of p s ?ap))" for Q
    using ex [of obs] ex [of obs'] same fold_recorded [of p parent ?ap obs] fold_recorded [of p parent ?ap obs'] assms(1,2) by metis
  from this [of "\<lambda>rs. \<exists>pf. plan_fingerprint p = Inr pf \<and> d = the_decision p ?ap pf rs"] show ?thesis
    unfolding evaluate_iff ap by (auto simp: assms(3))
qed

text \<open>C37: decisions do not depend on the order or the repetition of reports. For observations with distinct
  identifiers, evaluating them in another order, with repetitions, or with the approvals in another order gives the
  same decision, and fails exactly when it would have failed.\<close>

theorem evaluate_order_independent:
  assumes "inj_on ob_observation_id (set obs)" "set obs = set obs'" "set approved = set approved'"
  shows "evaluate c p parent obs approved = Inr d \<longleftrightarrow> evaluate c p parent obs' approved' = Inr d"
  by (rule evaluate_set_cong [OF assms])

theorem evaluate_order_independent_witness:
  "\<exists>d. evaluate demo_plan_context demo_plan demo_plan_authority [demo_observation] [] = Inr d
     \<and> evaluate demo_plan_context demo_plan demo_plan_authority [demo_observation, demo_observation] [] = Inr d"
  using demo_evaluates evaluate_order_independent [of "[demo_observation]" "[demo_observation, demo_observation]" "[]" "[]"]
  by auto

end
