(* ===== verification/Effects.thy ===== *)
theory Effects
  imports Prelude
begin

text \<open>
  Methods that change state and may raise. An action maps a state to a result and the state it leaves; an
  exception does not undo what was done before it, as in Python.
\<close>

type_synonym ('s, 'a) action = "'s \<Rightarrow> 'a result \<times> 's"

definition bindA :: "('s, 'a) action \<Rightarrow> ('a \<Rightarrow> ('s, 'b) action) \<Rightarrow> ('s, 'b) action" where
  "bindA m k s = (case m s of (Inl e, s') \<Rightarrow> (Inl e, s') | (Inr x, s') \<Rightarrow> k x s')"

text \<open>A computation that only reads the state.\<close>

definition readA :: "('s \<Rightarrow> 'a result) \<Rightarrow> ('s, 'a) action" where
  "readA f s = (f s, s)"

definition modifyA :: "('s \<Rightarrow> 's) \<Rightarrow> ('s, unit) action" where
  "modifyA f s = (Inr (), f s)"

text \<open>\<open>try: m except ... as exc: raise ...\<close>: the handler says what each exception becomes.\<close>

definition exceptA :: "(exn \<Rightarrow> exn) \<Rightarrow> ('s, 'a) action \<Rightarrow> ('s, 'a) action" where
  "exceptA h m s = (case m s of (Inl e, s') \<Rightarrow> (Inl (h e), s') | (Inr x, s') \<Rightarrow> (Inr x, s'))"

text \<open>A loop over actions that stops at the first exception.\<close>

fun mapA :: "('a \<Rightarrow> ('s, 'b) action) \<Rightarrow> 'a list \<Rightarrow> ('s, 'b list) action" where
  "mapA f [] s = (Inr [], s)"
| "mapA f (x # xs) s = bindA (f x) (\<lambda>y. bindA (mapA f xs) (\<lambda>ys s'. (Inr (y # ys), s'))) s"

text \<open>An action of one component of a pair, for a method that calls a collaborator.\<close>

definition onsnd :: "('w, 'a) action \<Rightarrow> ('s \<times> 'w, 'a) action" where
  "onsnd m x = (case m (snd x) of (r, w) \<Rightarrow> (r, (fst x, w)))"

lemma bindA_Inr_iff: "bindA m k s = (Inr y, t) \<longleftrightarrow> (\<exists>x u. m s = (Inr x, u) \<and> k x u = (Inr y, t))"
  by (auto simp: bindA_def split: prod.splits sum.splits)

lemma bindA_InrE [elim!]:
  assumes "bindA m k s = (Inr y, t)"
  obtains x u where "m s = (Inr x, u)" "k x u = (Inr y, t)"
  using assms by (auto simp: bindA_Inr_iff)

lemma bindA_read: "bindA (readA f) k s = (case f s of Inl e \<Rightarrow> (Inl e, s) | Inr x \<Rightarrow> k x s)"
  by (simp add: bindA_def readA_def)

lemma bindA_cong [fundef_cong]:
  "m = m' \<Longrightarrow> s = s' \<Longrightarrow> (\<And>x t. m' s' = (Inr x, t) \<Longrightarrow> k x t = k' x t) \<Longrightarrow> bindA m k s = bindA m' k' s'"
  by (auto simp: bindA_def split: prod.split sum.split)

lemma readA_iff [simp]: "readA f s = (r, t) \<longleftrightarrow> f s = r \<and> t = s"
  by (auto simp: readA_def)

lemma modifyA_iff [simp]: "modifyA f s = (r, t) \<longleftrightarrow> r = Inr () \<and> t = f s"
  by (auto simp: modifyA_def)

lemma exceptA_Inr_iff [simp]: "exceptA h m s = (Inr x, t) \<longleftrightarrow> m s = (Inr x, t)"
  by (auto simp: exceptA_def split: prod.splits sum.splits)

lemma exceptA_state [simp]: "snd (exceptA h m s) = snd (m s)"
  by (auto simp: exceptA_def split: prod.splits sum.splits)

lemma onsnd_iff: "onsnd m x = (r, y) \<longleftrightarrow> (\<exists>w. m (snd x) = (r, w) \<and> y = (fst x, w))"
  by (auto simp: onsnd_def split: prod.splits)

lemma fst_onsnd [simp]: "fst (snd (onsnd m x)) = fst x"
  by (simp add: onsnd_def split: prod.split)

text \<open>What every action of a sequence keeps, the sequence keeps.\<close>

lemma bindA_keeps:
  assumes "P s" "\<And>s. P s \<Longrightarrow> P (snd (m s))" "\<And>x s. P s \<Longrightarrow> P (snd (k x s))"
  shows "P (snd (bindA m k s))"
  using assms by (auto simp: bindA_def split: prod.split sum.split) (metis snd_conv)+

lemma mapA_keeps:
  assumes "P s" "\<And>x s. x \<in> set xs \<Longrightarrow> P s \<Longrightarrow> P (snd (f x s))"
  shows "P (snd (mapA f xs s))"
  using assms
proof (induction xs arbitrary: s)
  case (Cons x xs)
  have "P (snd (mapA f xs s'))" if "P s'" for s' using Cons.IH [of s'] Cons.prems(2) that by simp
  with Cons.prems show ?case by (auto intro!: bindA_keeps [where P = P])
qed simp

end
