(* ===== verification/Execution_Scheduler.thy ===== *)
theory Execution_Scheduler
  imports Runtime_Scheduler Effects "HOL-Library.AList"
begin

text \<open>
  Model of \<open>src/three_agent/execution_scheduler.py\<close>: the stateful coordinator that issues dispatch tickets, tracks
  what is in flight, admits observations, cancels, and restores itself from a checkpoint. The budget guard, the
  revocation guard and the checkpoint repository are protocols in the source; they are the record \<open>guards\<close> of
  operations on a world \<open>'w\<close> here. Theory \<open>Execution_Checkpoint\<close> and the root theory put the modelled
  repository, budgets and revocations in their place.

  Dictionaries are association lists in insertion order, sets are lists up to order and repetition. The methods'
  \<open>isinstance\<close> checks hold by typing.
\<close>

section \<open>Dispatch tickets\<close>

abbreviation SE :: exc_class where "SE \<equiv> ExecutionSchedulerError"

definition EXECUTION_SCHEDULER_SCHEMA :: string where
  "EXECUTION_SCHEDULER_SCHEMA = ''workspace-execution-scheduler/v1''"

definition DISPATCH_TICKET_SCHEMA :: string where
  "DISPATCH_TICKET_SCHEMA = ''workspace-dispatch-ticket/v1''"

definition MAX_SCHEDULER_CONCURRENCY :: int where
  "MAX_SCHEDULER_CONCURRENCY = 24"

record dispatch_ticket =
  dt_ticket_id :: string
  dt_task_id :: string
  dt_plan_fingerprint :: string
  dt_node_id :: string
  dt_node_fingerprint :: string
  dt_authority_fingerprint :: string
  dt_dependencies :: "string list"
  dt_dispatch_sequence :: int
  dt_execution_level :: int
  dt_schema_version :: string
  dt_dispatch_authorized :: bool

definition ticket_identity :: "dispatch_ticket \<Rightarrow> json" where
  "ticket_identity t = JObj [(''schema_version'', JStr (dt_schema_version t)), (''task_id'', JStr (dt_task_id t)),
     (''plan_fingerprint'', JStr (dt_plan_fingerprint t)), (''node_id'', JStr (dt_node_id t)),
     (''node_fingerprint'', JStr (dt_node_fingerprint t)), (''authority_fingerprint'', JStr (dt_authority_fingerprint t)),
     (''dependency_observation_fingerprints'', str_list (dt_dependencies t)),
     (''dispatch_sequence'', JInt (dt_dispatch_sequence t)), (''execution_level'', JInt (dt_execution_level t)),
     (''dispatch_authorized'', JBool (dt_dispatch_authorized t))]"

definition ticket_fingerprint :: "dispatch_ticket \<Rightarrow> string" where
  "ticket_fingerprint t = digest (ticket_identity t)"

definition expected_ticket_id :: "dispatch_ticket \<Rightarrow> string" where
  "expected_ticket_id t = ''dispatch:'' @ take 24 (drop 7 (digest (ticket_identity t)))"

definition ticket_validate :: "dispatch_ticket \<Rightarrow> dispatch_ticket result" where
  "ticket_validate t = checked
     [fail_if SE (dt_schema_version t \<noteq> DISPATCH_TICKET_SCHEMA) ''DISPATCH_TICKET_SCHEMA_VERSION_MISMATCH'',
      fail_if SE (\<not> dt_dispatch_authorized t) ''DISPATCH_TICKET_NOT_AUTHORIZED'',
      fail_if SE (dt_dispatch_sequence t < 1) ''INVALID_DISPATCH_SEQUENCE'',
      fail_if SE (dt_ticket_id t \<noteq> expected_ticket_id t) ''DISPATCH_TICKET_IDENTITY_MISMATCH''] t"

section \<open>The scheduler and its collaborators\<close>

text \<open>What a repository returns: \<open>RecoveredExecutionState\<close> of \<open>execution_checkpoint.py\<close>.\<close>

record recovered_state =
  rs_task_id :: string
  rs_plan_fingerprint :: string
  rs_dispatches :: "dispatch_ticket list"
  rs_observations :: "observation list"
  rs_recovery_required_ticket_ids :: "string list"
  rs_cancellation_reason :: "string option"

record 'w repository =
  rp_initialize :: "('w, unit) action"
  rp_record_dispatch :: "dispatch_ticket \<Rightarrow> ('w, dispatch_ticket) action"
  rp_record_observation :: "observation \<Rightarrow> ('w, observation) action"
  rp_record_cancellation :: "string \<Rightarrow> string \<Rightarrow> string \<Rightarrow> ('w, unit) action"
  rp_load :: "string \<Rightarrow> string \<Rightarrow> 'w \<Rightarrow> recovered_state result"

record 'w guards =
  gd_assert_active :: "('w, unit) action"
  gd_reserve_steps :: "int \<Rightarrow> ('w, unit) action"
  gd_is_revoked :: "string \<Rightarrow> string \<Rightarrow> 'w \<Rightarrow> bool result"
  gd_repository :: "'w repository option"

record scheduler =
  sc_task_context :: task_context
  sc_plan :: execution_plan
  sc_parent_authority :: authority
  sc_max_concurrency :: int
  sc_observations :: "(string \<times> observation) list"
  sc_in_flight :: "(string \<times> dispatch_ticket) list"
  sc_recovery_required :: "(string \<times> dispatch_ticket) list"
  sc_approved_nodes :: "string list"
  sc_dispatch_sequence :: int
  sc_cancelled :: bool
  sc_cancellation_reason :: "string option"

abbreviation has :: "('k \<times> 'v) list \<Rightarrow> 'k \<Rightarrow> bool" where
  "has d k \<equiv> map_of d k \<noteq> None"

definition node_map :: "execution_plan \<Rightarrow> string \<rightharpoonup> execution_node" where
  "node_map p = nodes_by_id p"

definition ordered_observations :: "scheduler \<Rightarrow> observation list" where
  "ordered_observations s = List.map_filter (\<lambda>n. map_of (sc_observations s) (en_node_id n)) (ep_nodes (sc_plan s))"

definition scheduler_evaluate :: "scheduler \<Rightarrow> observation list \<Rightarrow> string list \<Rightarrow> scheduling_decision result" where
  "scheduler_evaluate s obs approved =
     evaluate (sc_task_context s) (sc_plan s) (sc_parent_authority s) obs (sort (fromkeys approved))"

definition is_scheduler_error :: "exc_class \<Rightarrow> bool" where
  "is_scheduler_error c \<longleftrightarrow> c = RuntimeSchedulerError"

text \<open>The loop that builds the expected dependencies of a ticket.\<close>

definition dependency_fingerprint :: "scheduler \<Rightarrow> string \<Rightarrow> string \<Rightarrow> string result" where
  "dependency_fingerprint s node_id k = (case map_of (sc_observations s) k of
     None \<Rightarrow> raise SE (''SCHEDULER_CHECKPOINT_DISPATCH_DEPENDENCY_MISSING:'' @ node_id @ '':'' @ k)
   | Some b \<Rightarrow> if ob_status b \<noteq> ''SUCCEEDED''
       then raise SE (''SCHEDULER_CHECKPOINT_DISPATCH_DEPENDENCY_MISSING:'' @ node_id @ '':'' @ k)
       else observation_fingerprint b)"

section \<open>Restoring a checkpoint\<close>

record restoring =
  rt_dispatches :: "(string \<times> dispatch_ticket) list"
  rt_sequences :: "int list"
  rt_sequence :: int
  rt_approval_nodes :: "string list"

definition restore_ticket :: "execution_plan \<Rightarrow> restoring \<Rightarrow> dispatch_ticket \<Rightarrow> restoring result" where
  "restore_ticket p acc t =
     bindE (ticket_validate t) (\<lambda>_.
     if dt_task_id t \<noteq> ep_task_id p then raise SE ''SCHEDULER_CHECKPOINT_DISPATCH_TASK_MISMATCH''
     else bindE (plan_fingerprint p) (\<lambda>pf.
     if dt_plan_fingerprint t \<noteq> pf then raise SE ''SCHEDULER_CHECKPOINT_DISPATCH_PLAN_MISMATCH''
     else case node_map p (dt_node_id t) of
       None \<Rightarrow> raise SE (''SCHEDULER_CHECKPOINT_UNKNOWN_NODE:'' @ dt_node_id t)
     | Some n \<Rightarrow> bindE (node_fingerprint n) (\<lambda>nf.
         if dt_node_fingerprint t \<noteq> nf then raise SE (''SCHEDULER_CHECKPOINT_NODE_FINGERPRINT_MISMATCH:'' @ dt_node_id t)
         else if dt_authority_fingerprint t \<noteq> en_authority_fingerprint n
           then raise SE (''SCHEDULER_CHECKPOINT_AUTHORITY_FINGERPRINT_MISMATCH:'' @ dt_node_id t)
         else if dt_execution_level t \<noteq> en_execution_level n
           then raise SE (''SCHEDULER_CHECKPOINT_EXECUTION_LEVEL_MISMATCH:'' @ dt_node_id t)
         else if has (rt_dispatches acc) (dt_node_id t)
           then raise SE (''SCHEDULER_CHECKPOINT_DUPLICATE_NODE:'' @ dt_node_id t)
         else if dt_dispatch_sequence t \<in> set (rt_sequences acc)
           then raise SE (''SCHEDULER_CHECKPOINT_DUPLICATE_SEQUENCE:'' @ show_int (dt_dispatch_sequence t))
         else Inr \<lparr>rt_dispatches = AList.update (dt_node_id t) t (rt_dispatches acc),
           rt_sequences = dt_dispatch_sequence t # rt_sequences acc,
           rt_sequence = max (rt_sequence acc) (dt_dispatch_sequence t),
           rt_approval_nodes = (if en_approval_required n then en_node_id n # rt_approval_nodes acc else rt_approval_nodes acc)\<rparr>)))"

definition reapproval_check :: "string list \<Rightarrow> string list \<Rightarrow> unit result" where
  "reapproval_check reapproved needed = (
     let unexpected = sort (fromkeys (filter (\<lambda>i. i \<notin> set needed) reapproved));
         missing = sort (fromkeys (filter (\<lambda>i. i \<notin> set reapproved) needed)) in
     if unexpected \<noteq> [] then raise SE (''SCHEDULER_CHECKPOINT_REAPPROVAL_NOT_APPLICABLE:'' @ join '','' unexpected)
     else if missing \<noteq> [] then raise SE (''SCHEDULER_CHECKPOINT_REAPPROVAL_REQUIRED:'' @ join '','' missing)
     else Inr ())"

definition restore_observation :: "(string \<times> dispatch_ticket) list \<Rightarrow> scheduler \<Rightarrow> observation \<Rightarrow> scheduler result" where
  "restore_observation dispatches s b = (
     if has (sc_observations s) (ob_node_id b) then raise SE (''SCHEDULER_CHECKPOINT_DUPLICATE_OBSERVATION:'' @ ob_node_id b)
     else bindE (reraise is_observation_error SE (''SCHEDULER_CHECKPOINT_OBSERVATION_REJECTED:'' @ ob_node_id b)
       (observation_validate b (Some (sc_plan s)) (Some (sc_parent_authority s)))) (\<lambda>_.
     case map_of dispatches (ob_node_id b) of
       None \<Rightarrow> raise SE (''SCHEDULER_CHECKPOINT_OBSERVATION_WITHOUT_DISPATCH:'' @ ob_node_id b)
     | Some t \<Rightarrow>
         if ob_node_fingerprint b \<noteq> dt_node_fingerprint t then raise SE ''SCHEDULER_CHECKPOINT_OBSERVATION_NODE_MISMATCH''
         else if ob_authority_fingerprint b \<noteq> dt_authority_fingerprint t
           then raise SE ''SCHEDULER_CHECKPOINT_OBSERVATION_AUTHORITY_MISMATCH''
         else Inr (s\<lparr>sc_observations := AList.update (ob_node_id b) b (sc_observations s)\<rparr>)))"

definition restored_dependencies_check :: "scheduler \<Rightarrow> string \<times> dispatch_ticket \<Rightarrow> unit result" where
  "restored_dependencies_check s it = (case node_map (sc_plan s) (fst it) of
     None \<Rightarrow> raise KeyError (fst it)
   | Some n \<Rightarrow> bindE (mapE (dependency_fingerprint s (fst it)) (en_depends_on n)) (\<lambda>expected.
       fail_if SE (dt_dependencies (snd it) \<noteq> expected) (''SCHEDULER_CHECKPOINT_DEPENDENCY_FINGERPRINT_MISMATCH:'' @ fst it)))"

text \<open>The dispatches without an observation.\<close>

definition unfinished :: "scheduler \<Rightarrow> (string \<times> dispatch_ticket) list \<Rightarrow> (string \<times> dispatch_ticket) list" where
  "unfinished s dispatches = filter (\<lambda>it. \<not> has (sc_observations s) (fst it)) dispatches"

definition restore_cancellation :: "string option \<Rightarrow> scheduler \<Rightarrow> scheduler result" where
  "restore_cancellation reason s = (case reason of None \<Rightarrow> Inr s
   | Some r \<Rightarrow> if strip r = [] then raise SE ''SCHEDULER_CHECKPOINT_CANCELLATION_REASON_INVALID''
       else Inr (s\<lparr>sc_cancelled := True, sc_cancellation_reason := Some (strip r)\<rparr>))"

text \<open>The recovery set, the cancellation and the final evaluation.\<close>

definition finish_restore :: "recovered_state \<Rightarrow> (string \<times> dispatch_ticket) list \<Rightarrow> scheduler \<Rightarrow> scheduler result" where
  "finish_restore r dispatches s = (let left = unfinished s dispatches in
     if \<not> distinct (rs_recovery_required_ticket_ids r)
        \<or> set (rs_recovery_required_ticket_ids r) \<noteq> set (map (dt_ticket_id \<circ> snd) left)
       then raise SE ''SCHEDULER_CHECKPOINT_RECOVERY_SET_MISMATCH''
     else bindE (restore_cancellation (rs_cancellation_reason r) (s\<lparr>sc_recovery_required :=
         foldl (\<lambda>d it. AList.update (fst it) (snd it) d) (sc_recovery_required s) left\<rparr>)) (\<lambda>s'.
     bindE (reraise is_scheduler_error SE ''SCHEDULER_CHECKPOINT_OBSERVATION_SET_INVALID''
       (scheduler_evaluate s' (ordered_observations s') (sc_approved_nodes s'))) (\<lambda>_. Inr s')))"

text \<open>The part of \<open>_restore_checkpoint\<close> after the repository has answered.\<close>

definition restore_from :: "string list \<Rightarrow> recovered_state \<Rightarrow> scheduler \<Rightarrow> scheduler result" where
  "restore_from reapproved r s =
     (if rs_task_id r \<noteq> ep_task_id (sc_plan s) then raise SE ''SCHEDULER_CHECKPOINT_TASK_MISMATCH''
      else bindE (plan_fingerprint (sc_plan s)) (\<lambda>pf.
      if rs_plan_fingerprint r \<noteq> pf then raise SE ''SCHEDULER_CHECKPOINT_PLAN_MISMATCH''
      else bindE (foldE (restore_ticket (sc_plan s))
          \<lparr>rt_dispatches = [], rt_sequences = [], rt_sequence = sc_dispatch_sequence s, rt_approval_nodes = []\<rparr> (rs_dispatches r)) (\<lambda>acc.
      bindE (reapproval_check reapproved (rt_approval_nodes acc)) (\<lambda>_.
      bindE (foldE (restore_observation (rt_dispatches acc))
          (s\<lparr>sc_dispatch_sequence := rt_sequence acc, sc_approved_nodes := sc_approved_nodes s @ rt_approval_nodes acc\<rparr>)
          (rs_observations r)) (\<lambda>s2.
      bindE (mapE (restored_dependencies_check s2) (rt_dispatches acc)) (\<lambda>_.
      finish_restore r (rt_dispatches acc) s2))))))"

definition restore_checkpoint :: "'w guards \<Rightarrow> string list \<Rightarrow> (scheduler \<times> 'w, unit) action" where
  "restore_checkpoint g reapproved x = (case gd_repository g of None \<Rightarrow> (Inr (), x)
   | Some rp \<Rightarrow> (let unknown = sort (fromkeys (filter (\<lambda>i. node_map (sc_plan (fst x)) i = None) reapproved)) in
      if unknown \<noteq> [] then (raise SE (''SCHEDULER_CHECKPOINT_REAPPROVAL_UNKNOWN_NODE:'' @ join '','' unknown), x)
      else bindA (exceptA (\<lambda>_. (SE, ''SCHEDULER_CHECKPOINT_RESTORE_FAILED'')) (bindA (onsnd (rp_initialize rp)) (\<lambda>_.
          readA (\<lambda>(s, w). bindE (plan_fingerprint (sc_plan s)) (\<lambda>pf. rp_load rp (ep_task_id (sc_plan s)) pf w)))))
        (\<lambda>r. bindA (readA (\<lambda>(s, w). restore_from reapproved r s)) (\<lambda>s'. modifyA (\<lambda>(s, w). (s', w)))) x))"

definition fresh_scheduler :: "task_context \<Rightarrow> execution_plan \<Rightarrow> authority \<Rightarrow> int \<Rightarrow> scheduler" where
  "fresh_scheduler c p parent n = \<lparr>sc_task_context = c, sc_plan = p, sc_parent_authority = parent, sc_max_concurrency = n,
     sc_observations = [], sc_in_flight = [], sc_recovery_required = [], sc_approved_nodes = [], sc_dispatch_sequence = 0,
     sc_cancelled = False, sc_cancellation_reason = None\<rparr>"

definition scheduler_checks :: "'w guards \<Rightarrow> task_context \<Rightarrow> execution_plan \<Rightarrow> authority \<Rightarrow> int \<Rightarrow> string list \<Rightarrow> unit result" where
  "scheduler_checks g c p parent n reapproved = checked
     [fail_if SE (\<not> (1 \<le> n \<and> n \<le> MAX_SCHEDULER_CONCURRENCY)) ''INVALID_MAX_CONCURRENCY'',
      fail_if SE (list_ex (\<lambda>i. strip i = []) reapproved) ''INVALID_CHECKPOINT_REAPPROVED_NODE'',
      fail_if SE (gd_repository g = None \<and> reapproved \<noteq> []) ''CHECKPOINT_REAPPROVALS_REQUIRE_REPOSITORY'',
      void (reraise is_scheduler_error SE ''SCHEDULER_CANONICAL_ADMISSION_REVALIDATION_FAILED'' (evaluate c p parent [] []))] ()"

text \<open>The constructor.\<close>

definition new_scheduler :: "'w guards \<Rightarrow> task_context \<Rightarrow> execution_plan \<Rightarrow> authority \<Rightarrow> int \<Rightarrow> string list \<Rightarrow> 'w \<Rightarrow> scheduler result \<times> 'w" where
  "new_scheduler g c p parent n reapproved w = (case scheduler_checks g c p parent n reapproved of
     Inl e \<Rightarrow> (Inl e, w)
   | Inr _ \<Rightarrow> (case restore_checkpoint g reapproved (fresh_scheduler c p parent n, w) of
       (Inl e, (_, w')) \<Rightarrow> (Inl e, w') | (Inr _, (s, w')) \<Rightarrow> (Inr s, w')))"

section \<open>Operations\<close>

definition admission_decision :: "scheduler \<Rightarrow> string list \<Rightarrow> scheduling_decision result" where
  "admission_decision s approved =
     (case scheduler_evaluate s (ordered_observations s) (sc_approved_nodes s @ approved) of
        Inl (c, m) \<Rightarrow> if is_scheduler_error c then raise SE (''SCHEDULER_DECISION_REVALIDATION_FAILED:'' @ m) else Inl (c, m)
      | Inr d \<Rightarrow> Inr d)"

definition budget_handler :: "string \<Rightarrow> exn \<Rightarrow> exn" where
  "budget_handler failed e = (case e of (c, code) \<Rightarrow>
     if c = ExecutionBudgetExceeded then (SE, ''SCHEDULER_BUDGET_DENIED:'' @ code)
     else if is_value_error c \<or> is_runtime_error c then (SE, failed)
     else (c, code))"

definition revocation_check :: "'w guards \<Rightarrow> execution_node \<Rightarrow> scheduler \<times> 'w \<Rightarrow> string \<Rightarrow> unit result" where
  "revocation_check g n x capability =
     bindE (reraise (\<lambda>c. c = KeyError \<or> is_value_error c \<or> is_runtime_error c) SE
         (''SCHEDULER_REVOCATION_CHECK_FAILED:'' @ en_node_id n @ '':'' @ capability)
         (gd_is_revoked g (ep_task_id (sc_plan (fst x))) capability (snd x))) (\<lambda>revoked.
     fail_if SE revoked (''SCHEDULER_CAPABILITY_REVOKED:'' @ en_node_id n @ '':'' @ capability))"

definition revalidate_runtime :: "'w guards \<Rightarrow> execution_node \<Rightarrow> (scheduler \<times> 'w, unit) action" where
  "revalidate_runtime g n =
     bindA (readA (\<lambda>(s, w). bindE (reraise (\<lambda>c. c = ExecutionPlanError) SE (''SCHEDULER_AUTHORITY_REVALIDATION_FAILED:'' @ en_node_id n)
         (bindE (plan_validate (sc_plan s) (Some (sc_parent_authority s))) (\<lambda>_. rebind_authority n (sc_parent_authority s))))
       (\<lambda>rebound. fail_if SE (au_fingerprint rebound \<noteq> en_authority_fingerprint n)
         (''SCHEDULER_AUTHORITY_FINGERPRINT_MISMATCH:'' @ en_node_id n)))) (\<lambda>_.
     bindA (exceptA (budget_handler ''SCHEDULER_BUDGET_REVALIDATION_FAILED'') (onsnd (gd_assert_active g))) (\<lambda>_.
     readA (\<lambda>x. void (mapE (revocation_check g n x) (en_allowed_tools n)))))"

definition dependency_observation :: "scheduler \<Rightarrow> execution_node \<Rightarrow> string \<Rightarrow> observation result" where
  "dependency_observation s n k = (case map_of (sc_observations s) k of
     None \<Rightarrow> raise SE (''SCHEDULER_DEPENDENCY_PENDING:'' @ en_node_id n @ '':'' @ k)
   | Some b \<Rightarrow> if ob_status b \<noteq> ''SUCCEEDED''
       then raise SE (''SCHEDULER_DEPENDENCY_NOT_SUCCEEDED:'' @ en_node_id n @ '':'' @ k @ '':'' @ ob_status b)
       else Inr b)"

definition dependency_observations :: "scheduler \<Rightarrow> execution_node \<Rightarrow> observation list result" where
  "dependency_observations s n = mapE (dependency_observation s n) (en_depends_on n)"

definition scheduling_record :: "scheduling_decision \<Rightarrow> string \<Rightarrow> node_record result" where
  "scheduling_record d i = (case List.find (\<lambda>r. nr_node_id r = i) (sd_records d) of None \<Rightarrow> raise StopIteration [] | Some r \<Rightarrow> Inr r)"

definition dependency_block :: "scheduler \<Rightarrow> string \<Rightarrow> string option" where
  "dependency_block s k = (case map_of (sc_observations s) k of
     None \<Rightarrow> Some (''DEPENDENCY_PENDING:'' @ k)
   | Some b \<Rightarrow> if ob_status b \<noteq> ''SUCCEEDED'' then Some (''DEPENDENCY_'' @ ob_status b @ '':'' @ k) else None)"

definition blocked_reason :: "scheduler \<Rightarrow> string \<Rightarrow> string option result" where
  "blocked_reason s i = (case node_map (sc_plan s) i of None \<Rightarrow> raise SE (''UNKNOWN_EXECUTION_NODE:'' @ i)
   | Some n \<Rightarrow>
       if has (sc_observations s) i then Inr (Some ''OBSERVED'')
       else if has (sc_in_flight s) i then Inr (Some ''IN_FLIGHT'')
       else if has (sc_recovery_required s) i then Inr (Some ''RECOVERY_REQUIRED'')
       else if sc_cancelled s then Inr (Some ''SCHEDULER_CANCELLED'')
       else if sc_recovery_required s \<noteq> [] then Inr (Some ''SCHEDULER_RECOVERY_REQUIRED'')
       else (case List.map_filter (dependency_block s) (en_depends_on n) of
          block # _ \<Rightarrow> Inr (Some block)
        | [] \<Rightarrow> bindE (admission_decision s []) (\<lambda>d. bindE (scheduling_record d i) (\<lambda>r.
            Inr (if nr_state r = ''READY'' then None
              else if nr_reason_code r = ''EXPLICIT_APPROVAL_REQUIRED'' then Some ''APPROVAL_REQUIRED''
              else Some (nr_reason_code r))))))"

definition ready_nodes :: "scheduler \<Rightarrow> string list \<Rightarrow> string list result" where
  "ready_nodes s approved = (
     if sc_cancelled s \<or> sc_recovery_required s \<noteq> [] then Inr []
     else (let capacity = sc_max_concurrency s - int (length (sc_in_flight s)) in
     if capacity \<le> 0 then Inr []
     else bindE (admission_decision s approved) (\<lambda>d. Inr (take (nat capacity) (map nr_node_id (filter
       (\<lambda>r. nr_state r = ''READY'' \<and> \<not> has (sc_observations s) (nr_node_id r) \<and> \<not> has (sc_in_flight s) (nr_node_id r)
          \<and> \<not> has (sc_recovery_required s) (nr_node_id r)) (sd_records d)))))))"

text \<open>The guards of \<open>issue_dispatch\<close>: the node and its dependencies.\<close>

definition dispatch_guard :: "scheduler \<Rightarrow> string \<Rightarrow> bool \<Rightarrow> (execution_node \<times> observation list) result" where
  "dispatch_guard s i approval_granted = (
     if sc_cancelled s then raise SE ''SCHEDULER_CANCELLED''
     else case node_map (sc_plan s) i of None \<Rightarrow> raise SE (''UNKNOWN_EXECUTION_NODE:'' @ i)
     | Some n \<Rightarrow>
         if has (sc_observations s) i then raise SE (''NODE_ALREADY_OBSERVED:'' @ i)
         else if has (sc_in_flight s) i then raise SE (''NODE_ALREADY_IN_FLIGHT:'' @ i)
         else if has (sc_recovery_required s) i then raise SE (''NODE_RECOVERY_REQUIRED:'' @ i)
         else if sc_recovery_required s \<noteq> [] then raise SE ''SCHEDULER_RECOVERY_REQUIRED''
         else if int (length (sc_in_flight s)) \<ge> sc_max_concurrency s then raise SE ''SCHEDULER_BACKPRESSURE''
         else if en_approval_required n \<and> \<not> approval_granted then raise SE (''NODE_APPROVAL_REQUIRED:'' @ i)
         else bindE (admission_decision s (if en_approval_required n \<and> approval_granted then [i] else [])) (\<lambda>d.
           bindE (scheduling_record d i) (\<lambda>r.
           if nr_state r \<noteq> ''READY'' then bindE (dependency_observations s n) (\<lambda>_.
             raise SE (''SCHEDULER_NODE_NOT_READY:'' @ i @ '':'' @ nr_reason_code r))
           else bindE (dependency_observations s n) (\<lambda>bs. Inr (n, bs)))))"

text \<open>The ticket, first with a provisional identifier, then with the one of its identity.\<close>

definition make_ticket :: "scheduler \<Rightarrow> execution_node \<Rightarrow> observation list \<Rightarrow> dispatch_ticket result" where
  "make_ticket s n bs =
     bindE (plan_fingerprint (sc_plan s)) (\<lambda>pf. bindE (node_fingerprint n) (\<lambda>nf. bindE (mapE observation_fingerprint bs) (\<lambda>fs.
     let provisional = \<lparr>dt_ticket_id = ''dispatch:'' @ replicate 24 (CHR ''0''), dt_task_id = ep_task_id (sc_plan s),
       dt_plan_fingerprint = pf, dt_node_id = en_node_id n, dt_node_fingerprint = nf,
       dt_authority_fingerprint = en_authority_fingerprint n, dt_dependencies = fs,
       dt_dispatch_sequence = sc_dispatch_sequence s, dt_execution_level = en_execution_level n,
       dt_schema_version = DISPATCH_TICKET_SCHEMA, dt_dispatch_authorized = True\<rparr> in
     ticket_validate (provisional\<lparr>dt_ticket_id := expected_ticket_id provisional\<rparr>))))"

text \<open>A call to the repository, where there is one; any exception becomes the scheduler's own.\<close>

definition record_with :: "'w guards \<Rightarrow> ('w repository \<Rightarrow> ('w, 'a) action) \<Rightarrow> string \<Rightarrow> (scheduler \<times> 'w, unit) action" where
  "record_with g f msg = (case gd_repository g of None \<Rightarrow> readA (\<lambda>_. Inr ())
   | Some rp \<Rightarrow> bindA (exceptA (\<lambda>_. (SE, msg)) (onsnd (f rp))) (\<lambda>_. readA (\<lambda>_. Inr ())))"

text \<open>From the reservation on.\<close>

definition complete_dispatch :: "'w guards \<Rightarrow> string \<Rightarrow> execution_node \<Rightarrow> observation list \<Rightarrow> (scheduler \<times> 'w, dispatch_ticket) action" where
  "complete_dispatch g i n bs =
     bindA (modifyA (\<lambda>(s, w). (s\<lparr>sc_dispatch_sequence := sc_dispatch_sequence s + 1\<rparr>, w))) (\<lambda>_.
     bindA (readA (\<lambda>(s, w). make_ticket s n bs)) (\<lambda>t.
     bindA (record_with g (\<lambda>rp. rp_record_dispatch rp t) (''SCHEDULER_CHECKPOINT_DISPATCH_FAILED:'' @ i)) (\<lambda>_.
     bindA (modifyA (\<lambda>(s, w). (s\<lparr>sc_approved_nodes := (if en_approval_required n then i # sc_approved_nodes s else sc_approved_nodes s),
         sc_in_flight := AList.update (en_node_id n) t (sc_in_flight s)\<rparr>, w))) (\<lambda>_.
     readA (\<lambda>_. Inr t)))))"

definition issue_dispatch :: "'w guards \<Rightarrow> string \<Rightarrow> bool \<Rightarrow> (scheduler \<times> 'w, dispatch_ticket) action" where
  "issue_dispatch g i approval_granted =
     bindA (readA (\<lambda>(s, w). dispatch_guard s i approval_granted)) (\<lambda>(n, bs).
     bindA (revalidate_runtime g n) (\<lambda>_.
     bindA (exceptA (budget_handler ''SCHEDULER_BUDGET_RESERVATION_FAILED'') (onsnd (gd_reserve_steps g 1))) (\<lambda>_.
     complete_dispatch g i n bs)))"

definition issue_ready :: "'w guards \<Rightarrow> string list \<Rightarrow> (scheduler \<times> 'w, dispatch_ticket list) action" where
  "issue_ready g approved = bindA (readA (\<lambda>(s, w). ready_nodes s approved)) (\<lambda>is.
     mapA (\<lambda>i. issue_dispatch g i (i \<in> set approved)) is)"

text \<open>The guards of \<open>accept_observation\<close>.\<close>

definition observation_guard :: "scheduler \<Rightarrow> observation \<Rightarrow> unit result" where
  "observation_guard s b = (
     case (case map_of (sc_in_flight s) (ob_node_id b) of None \<Rightarrow> map_of (sc_recovery_required s) (ob_node_id b) | Some t \<Rightarrow> Some t) of
       None \<Rightarrow> raise SE (''OBSERVATION_NODE_NOT_IN_FLIGHT:'' @ ob_node_id b)
     | Some t \<Rightarrow>
         bindE (reraise is_observation_error SE (''SCHEDULER_OBSERVATION_REJECTED:'' @ ob_node_id b)
           (observation_validate b (Some (sc_plan s)) (Some (sc_parent_authority s)))) (\<lambda>_.
         if ob_node_fingerprint b \<noteq> dt_node_fingerprint t then raise SE ''OBSERVATION_TICKET_NODE_MISMATCH''
         else if ob_authority_fingerprint b \<noteq> dt_authority_fingerprint t then raise SE ''OBSERVATION_TICKET_AUTHORITY_MISMATCH''
         else void (reraise is_scheduler_error SE (''SCHEDULER_OBSERVATION_DECISION_REJECTED:'' @ ob_node_id b)
           (scheduler_evaluate s (ordered_observations s @ [b]) (sc_approved_nodes s)))))"

definition note_observed :: "observation \<Rightarrow> scheduler \<Rightarrow> scheduler" where
  "note_observed b s = s\<lparr>sc_observations := AList.update (ob_node_id b) b (sc_observations s),
     sc_in_flight := AList.delete (ob_node_id b) (sc_in_flight s),
     sc_recovery_required := AList.delete (ob_node_id b) (sc_recovery_required s)\<rparr>"

definition accept_observation :: "'w guards \<Rightarrow> observation \<Rightarrow> (scheduler \<times> 'w, observation) action" where
  "accept_observation g b =
     bindA (readA (\<lambda>(s, w). observation_guard s b)) (\<lambda>_.
     bindA (record_with g (\<lambda>rp. rp_record_observation rp b) (''SCHEDULER_CHECKPOINT_OBSERVATION_FAILED:'' @ ob_node_id b)) (\<lambda>_.
     bindA (modifyA (\<lambda>(s, w). (note_observed b s, w))) (\<lambda>_. readA (\<lambda>_. Inr b))))"

definition fan_in :: "scheduler \<Rightarrow> string \<Rightarrow> observation list result" where
  "fan_in s i = (case node_map (sc_plan s) i of None \<Rightarrow> raise SE (''UNKNOWN_EXECUTION_NODE:'' @ i)
   | Some n \<Rightarrow> dependency_observations s n)"

text \<open>The scheduler stays cancelled when the repository fails to record it.\<close>

definition cancel :: "'w guards \<Rightarrow> string \<Rightarrow> (scheduler \<times> 'w, unit) action" where
  "cancel g reason_code =
     bindA (readA (\<lambda>_. fail_if SE (strip reason_code = []) ''INVALID_CANCELLATION_REASON'')) (\<lambda>_.
     bindA (modifyA (\<lambda>(s, w). (s\<lparr>sc_cancelled := True, sc_cancellation_reason := Some (strip reason_code)\<rparr>, w))) (\<lambda>_ x.
     record_with g (\<lambda>rp w. case plan_fingerprint (sc_plan (fst x)) of Inl e \<Rightarrow> (Inl e, w)
       | Inr pf \<Rightarrow> rp_record_cancellation rp (ep_task_id (sc_plan (fst x))) pf (strip reason_code) w)
       ''SCHEDULER_CHECKPOINT_CANCELLATION_FAILED'' x))"

definition recovery_required_ticket_ids :: "scheduler \<Rightarrow> string list" where
  "recovery_required_ticket_ids s = map dt_ticket_id (List.map_filter (\<lambda>n. map_of (sc_recovery_required s) (en_node_id n)) (ep_nodes (sc_plan s)))"

definition snapshot :: "'w guards \<Rightarrow> scheduler \<Rightarrow> json result" where
  "snapshot g s = bindE (context_fingerprint (sc_task_context s)) (\<lambda>cf. bindE (plan_fingerprint (sc_plan s)) (\<lambda>pf.
     bindE (mapE observation_fingerprint (ordered_observations s)) (\<lambda>fs.
     Inr (JObj ([(''schema_version'', JStr EXECUTION_SCHEDULER_SCHEMA), (''task_id'', JStr (ep_task_id (sc_plan s))),
       (''task_context_fingerprint'', JStr cf), (''plan_fingerprint'', JStr pf),
       (''parent_authority_fingerprint'', JStr (au_fingerprint (sc_parent_authority s))),
       (''max_concurrency'', JInt (sc_max_concurrency s)), (''cancelled'', JBool (sc_cancelled s)),
       (''cancellation_reason'', str_json (sc_cancellation_reason s)), (''dispatch_sequence'', JInt (sc_dispatch_sequence s)),
       (''approved_node_ids'', str_list (sort (fromkeys (sc_approved_nodes s)))),
       (''in_flight'', str_list (map ticket_fingerprint
          (List.map_filter (\<lambda>n. map_of (sc_in_flight s) (en_node_id n)) (ep_nodes (sc_plan s))))),
       (''observations'', str_list fs)]
      @ (if gd_repository g = None then [] else [(''checkpoint_bound'', JBool True),
          (''recovery_required_ticket_ids'', str_list (recovery_required_ticket_ids s))]))))))"

section \<open>What dispatching does\<close>

abbreviation bump :: "scheduler \<Rightarrow> scheduler" where
  "bump s \<equiv> s\<lparr>sc_dispatch_sequence := sc_dispatch_sequence s + 1\<rparr>"

definition note_dispatched :: "execution_node \<Rightarrow> dispatch_ticket \<Rightarrow> scheduler \<Rightarrow> scheduler" where
  "note_dispatched n t s = s\<lparr>sc_approved_nodes := (if en_approval_required n then en_node_id n # sc_approved_nodes s else sc_approved_nodes s),
     sc_in_flight := AList.update (en_node_id n) t (sc_in_flight s)\<rparr>"

lemma record_with_scheduler [simp]: "fst (snd (record_with g f msg x)) = fst x"
  by (auto simp: record_with_def readA_def split: option.split intro!: bindA_keeps [where P = "\<lambda>y. fst y = fst x"])

lemma record_with_iff: "record_with g f msg (s, w) = (Inr u, (s', w')) \<longleftrightarrow> s' = s \<and>
   (case gd_repository g of None \<Rightarrow> w' = w | Some rp \<Rightarrow> \<exists>a. f rp w = (Inr a, w'))"
  by (auto simp: record_with_def bindA_Inr_iff onsnd_iff split: option.split)

lemma authority_check_iff: "bindE (reraise (\<lambda>c. c = ExecutionPlanError) SE m (bindE (plan_validate p (Some a)) (\<lambda>_. rebind_authority n a)))
     (\<lambda>rebound. fail_if SE (au_fingerprint rebound \<noteq> en_authority_fingerprint n) m') = Inr u
   \<longleftrightarrow> plan_validate p (Some a) = Inr p \<and> (\<exists>r. rebind_authority n a = Inr r)"
proof (cases "plan_validate p (Some a)")
  case (Inr q)
  with plan_order_facts(1) [OF Inr] rebind_derives(2) [of n a] show ?thesis
    by (cases "rebind_authority n a") (auto simp: fail_if_def)
qed (auto simp: bindE_Inr_iff)

lemma revocations_iff: "(\<exists>us. mapE (revocation_check g n (s, w)) cs = Inr us)
   \<longleftrightarrow> (\<forall>c \<in> set cs. gd_is_revoked g (ep_task_id (sc_plan s)) c w = Inr False)"
proof -
  have "revocation_check g n (s, w) c = Inr v \<longleftrightarrow> gd_is_revoked g (ep_task_id (sc_plan s)) c w = Inr False" for c v
    by (cases "gd_is_revoked g (ep_task_id (sc_plan s)) c w") (auto simp: revocation_check_def fail_if_def)
  then show ?thesis by (induction cs) (simp_all add: bindE_Inr_iff)
qed

lemma revalidate_iff: "revalidate_runtime g n (s, w) = (Inr u, (s', w')) \<longleftrightarrow> s' = s
   \<and> plan_validate (sc_plan s) (Some (sc_parent_authority s)) = Inr (sc_plan s)
   \<and> (\<exists>r. rebind_authority n (sc_parent_authority s) = Inr r)
   \<and> gd_assert_active g w = (Inr (), w') \<and> (\<forall>c \<in> set (en_allowed_tools n). gd_is_revoked g (ep_task_id (sc_plan s)) c w' = Inr False)"
  unfolding revalidate_runtime_def bindA_Inr_iff
  by (simp add: onsnd_iff authority_check_iff revocations_iff) blast

lemma revalidate_scheduler [simp]: "fst (snd (revalidate_runtime g n x)) = fst x"
  unfolding revalidate_runtime_def
  by (intro bindA_keeps [where P = "\<lambda>y. fst y = fst x"]) (auto simp: readA_def intro!: bindA_keeps [where P = "\<lambda>y. fst y = fst x"])

lemma node_map_id: "node_map p i = Some n \<Longrightarrow> en_node_id n = i"
  by (auto simp: node_map_def nodes_by_id_def dest!: map_of_SomeD)

lemma dispatch_guard_node: "dispatch_guard s i ok = Inr (n, bs) \<Longrightarrow> node_map (sc_plan s) i = Some n"
  by (auto simp: dispatch_guard_def split: if_splits option.splits)

abbreviation ticket_recording :: "'w guards \<Rightarrow> string \<Rightarrow> dispatch_ticket \<Rightarrow> (scheduler \<times> 'w, unit) action" where
  "ticket_recording g i t \<equiv> record_with g (\<lambda>rp. rp_record_dispatch rp t) (''SCHEDULER_CHECKPOINT_DISPATCH_FAILED:'' @ i)"

lemma complete_dispatch_iff:
  assumes "en_node_id n = i"
  shows "complete_dispatch g i n bs (s, w) = (Inr t, (s', w')) \<longleftrightarrow> make_ticket (bump s) n bs = Inr t
   \<and> ticket_recording g i t (bump s, w) = (Inr (), (bump s, w')) \<and> s' = note_dispatched n t (bump s)"
  unfolding complete_dispatch_def bindA_Inr_iff using assms
  by (auto simp: note_dispatched_def record_with_iff)

lemma issue_dispatch_iff: "issue_dispatch g i ok (s, w) = (Inr t, (s', w')) \<longleftrightarrow> (\<exists>n bs w1 w2.
     dispatch_guard s i ok = Inr (n, bs) \<and> revalidate_runtime g n (s, w) = (Inr (), (s, w1))
   \<and> gd_reserve_steps g 1 w1 = (Inr (), w2) \<and> make_ticket (bump s) n bs = Inr t
   \<and> ticket_recording g i t (bump s, w2) = (Inr (), (bump s, w')) \<and> s' = note_dispatched n t (bump s))"
proof (cases "dispatch_guard s i ok")
  case (Inl e)
  then show ?thesis by (simp add: issue_dispatch_def bindA_read)
next
  case (Inr nb)
  obtain n bs where nb: "nb = (n, bs)" by fastforce
  have i: "en_node_id n = i" using node_map_id [OF dispatch_guard_node] Inr nb by blast
  have "issue_dispatch g i ok (s, w) = (Inr t, (s', w')) \<longleftrightarrow> (\<exists>x. revalidate_runtime g n (s, w) = (Inr (), x)
      \<and> (\<exists>w2. gd_reserve_steps g 1 (snd x) = (Inr (), w2) \<and> complete_dispatch g i n bs (fst x, w2) = (Inr t, (s', w'))))"
    by (simp add: issue_dispatch_def bindA_read Inr nb bindA_Inr_iff onsnd_iff)
  also have "\<dots> \<longleftrightarrow> (\<exists>w1. revalidate_runtime g n (s, w) = (Inr (), (s, w1))
      \<and> (\<exists>w2. gd_reserve_steps g 1 w1 = (Inr (), w2) \<and> complete_dispatch g i n bs (s, w2) = (Inr t, (s', w'))))"
    by (simp add: split_paired_Ex revalidate_iff)
  finally show ?thesis unfolding complete_dispatch_iff [OF i] by (auto simp: Inr nb)
qed

text \<open>A failed dispatch leaves the scheduler as it was, or has used up a sequence number and a reserved step.\<close>

lemma complete_dispatch_error:
  assumes "complete_dispatch g i n bs (s, w) = (Inl e, x)"
  shows "fst x = bump s"
proof (cases "make_ticket (bump s) n bs")
  case (Inl d)
  with assms show ?thesis by (auto simp: complete_dispatch_def bindA_def readA_def modifyA_def)
next
  case (Inr t)
  obtain r y where "ticket_recording g i t (bump s, w) = (r, (bump s, y))"
    using record_with_scheduler [of g _ _ "(bump s, w)"] by (metis fst_conv prod.collapse)
  with assms Inr show ?thesis by (cases r) (auto simp: complete_dispatch_def bindA_def readA_def modifyA_def)
qed

lemma issue_dispatch_error:
  assumes "issue_dispatch g i ok (s, w) = (Inl e, x)"
  shows "fst x = s \<or> fst x = bump s \<and> (\<exists>n bs. dispatch_guard s i ok = Inr (n, bs))"
proof (cases "dispatch_guard s i ok")
  case (Inl d)
  with assms show ?thesis by (auto simp: issue_dispatch_def bindA_read)
next
  case (Inr nb)
  obtain n bs where nb: "nb = (n, bs)" by fastforce
  obtain r y where y: "revalidate_runtime g n (s, w) = (r, (s, y))"
    using revalidate_scheduler [of g n "(s, w)"] by (metis fst_conv prod.collapse)
  obtain q z where z: "gd_reserve_steps g 1 y = (q, z)" by fastforce
  from assms Inr nb y z show ?thesis
    by (cases r; cases q) (auto simp: issue_dispatch_def bindA_def readA_def exceptA_def onsnd_def dest: complete_dispatch_error)
qed

section \<open>The invariant\<close>

text \<open>A node has finished when its observation reports success; it may start when all its dependencies have, and
  it has been approved where it needs to be.\<close>

definition succeeded :: "scheduler \<Rightarrow> string \<Rightarrow> bool" where
  "succeeded s k \<longleftrightarrow> (\<exists>b. map_of (sc_observations s) k = Some b \<and> ob_status b = ''SUCCEEDED'')"

definition startable :: "scheduler \<Rightarrow> string \<Rightarrow> bool" where
  "startable s i \<longleftrightarrow> (\<exists>n. node_map (sc_plan s) i = Some n \<and> (en_approval_required n \<longrightarrow> i \<in> set (sc_approved_nodes s))
     \<and> (\<forall>k \<in> set (en_depends_on n). succeeded s k))"

definition ticket_for :: "scheduler \<Rightarrow> string \<Rightarrow> dispatch_ticket \<Rightarrow> bool" where
  "ticket_for s i t \<longleftrightarrow> ticket_validate t = Inr t \<and> dt_task_id t = ep_task_id (sc_plan s)
     \<and> plan_fingerprint (sc_plan s) = Inr (dt_plan_fingerprint t) \<and> dt_node_id t = i \<and> dt_dispatch_sequence t \<le> sc_dispatch_sequence s
     \<and> (\<exists>n. node_map (sc_plan s) i = Some n \<and> node_fingerprint n = Inr (dt_node_fingerprint t)
          \<and> dt_authority_fingerprint t = en_authority_fingerprint n \<and> dt_execution_level t = en_execution_level n
          \<and> mapE (dependency_fingerprint s i) (en_depends_on n) = Inr (dt_dependencies t))"

abbreviation active :: "scheduler \<Rightarrow> (string \<times> dispatch_ticket) list" where
  "active s \<equiv> sc_in_flight s @ sc_recovery_required s"

definition observation_for :: "scheduler \<Rightarrow> string \<Rightarrow> observation \<Rightarrow> bool" where
  "observation_for s i b \<longleftrightarrow> ob_node_id b = i \<and> observation_validate b (Some (sc_plan s)) (Some (sc_parent_authority s)) = Inr b"

definition sched_inv :: "scheduler \<Rightarrow> bool" where
  "sched_inv s \<longleftrightarrow> bound (sc_task_context s) (sc_plan s) (sc_parent_authority s)
     \<and> 1 \<le> sc_max_concurrency s \<and> sc_max_concurrency s \<le> MAX_SCHEDULER_CONCURRENCY
     \<and> int (length (sc_in_flight s)) \<le> sc_max_concurrency s \<and> 0 \<le> sc_dispatch_sequence s
     \<and> distinct (map fst (sc_observations s) @ map fst (active s))
     \<and> (\<forall>(i, b) \<in> set (sc_observations s). observation_for s i b \<and> startable s i)
     \<and> (\<forall>(i, t) \<in> set (active s). ticket_for s i t \<and> startable s i)
     \<and> distinct (map (dt_dispatch_sequence \<circ> snd) (active s))
     \<and> approvals_ok (sc_plan s) (set (sc_approved_nodes s))"

text \<open>The nodes that have ever been dispatched.\<close>

definition tracked :: "scheduler \<Rightarrow> string set" where
  "tracked s = fst ` set (sc_observations s) \<union> fst ` set (active s)"

text \<open>How the scheduler's knowledge grows.\<close>

definition grows :: "scheduler \<Rightarrow> scheduler \<Rightarrow> bool" where
  "grows s s' \<longleftrightarrow> sc_task_context s' = sc_task_context s \<and> sc_plan s' = sc_plan s \<and> sc_parent_authority s' = sc_parent_authority s
     \<and> sc_max_concurrency s' = sc_max_concurrency s \<and> map_of (sc_observations s) \<subseteq>\<^sub>m map_of (sc_observations s')
     \<and> set (sc_approved_nodes s) \<subseteq> set (sc_approved_nodes s') \<and> sc_dispatch_sequence s \<le> sc_dispatch_sequence s'
     \<and> (sc_cancelled s \<longrightarrow> sc_cancelled s') \<and> tracked s \<subseteq> tracked s'"

lemma grows_refl [simp]: "grows s s"
  by (simp add: grows_def)

lemma grows_trans: "grows a b \<Longrightarrow> grows b c \<Longrightarrow> grows a c"
  unfolding grows_def using map_le_trans [of "map_of (sc_observations a)"] by auto

lemma map_le_Some: "m \<subseteq>\<^sub>m m' \<Longrightarrow> m k = Some v \<Longrightarrow> m' k = Some v"
  unfolding map_le_def by (metis domI)

lemma succeeded_grows: "succeeded s k \<Longrightarrow> grows s s' \<Longrightarrow> succeeded s' k"
  by (auto simp: succeeded_def grows_def dest: map_le_Some)

lemma startable_grows: "startable s i \<Longrightarrow> grows s s' \<Longrightarrow> startable s' i"
  using succeeded_grows [of s _ s'] by (auto simp: startable_def grows_def)

lemma mapE_mono: "mapE f xs = Inr ys \<Longrightarrow> (\<And>x y. f x = Inr y \<Longrightarrow> g x = Inr y) \<Longrightarrow> mapE g xs = Inr ys"
  by (auto simp: mapE_Inr_iff elim: list_all2_mono)

lemma dependency_fingerprint_iff: "dependency_fingerprint s i k = Inr f \<longleftrightarrow>
   (\<exists>b. map_of (sc_observations s) k = Some b \<and> ob_status b = ''SUCCEEDED'' \<and> observation_fingerprint b = Inr f)"
  by (auto simp: dependency_fingerprint_def split: option.split)

lemma ticket_for_grows:
  assumes "ticket_for s i t" "grows s s'"
  shows "ticket_for s' i t"
proof -
  have "dependency_fingerprint s i k = Inr f \<Longrightarrow> dependency_fingerprint s' i k = Inr f" for k f
    using assms(2) by (auto simp: dependency_fingerprint_iff grows_def dest: map_le_Some)
  with assms mapE_mono [of "dependency_fingerprint s i" _ _ "dependency_fingerprint s' i"] show ?thesis
    by (auto simp: ticket_for_def grows_def)
qed

lemma observation_for_grows: "observation_for s i b \<Longrightarrow> grows s s' \<Longrightarrow> observation_for s' i b"
  by (auto simp: observation_for_def grows_def)

lemmas grows_facts = startable_grows ticket_for_grows observation_for_grows

section \<open>Every operation keeps the invariant\<close>

lemma alist_update_new: "k \<notin> fst ` set al \<Longrightarrow> AList.update k v al = al @ [(k, v)]"
  by (induction al) auto

lemma map_of_snoc_new: "k \<notin> fst ` set al \<Longrightarrow> map_of al \<subseteq>\<^sub>m map_of (al @ [(k, v)])"
  by (auto simp: map_le_def map_add_def split: option.split)

lemma has_iff: "has al k \<longleftrightarrow> k \<in> fst ` set al"
  by (simp add: map_of_eq_None_iff)

lemma admission_decision_iff: "admission_decision s ap = Inr d \<longleftrightarrow>
   evaluate (sc_task_context s) (sc_plan s) (sc_parent_authority s) (ordered_observations s) (sort (fromkeys (sc_approved_nodes s @ ap))) = Inr d"
  by (auto simp: admission_decision_def scheduler_evaluate_def split: sum.split)

lemma evaluate_approvals: "evaluate c p a obs ap = Inr d \<Longrightarrow> approvals_ok p (set ap)"
  by (simp add: evaluate_iff)

lemma dispatch_guardD:
  assumes "dispatch_guard s i ok = Inr (n, bs)"
  shows "\<not> sc_cancelled s" "node_map (sc_plan s) i = Some n" "i \<notin> fst ` set (sc_observations s)" "i \<notin> fst ` set (sc_in_flight s)"
    "sc_recovery_required s = []" "int (length (sc_in_flight s)) < sc_max_concurrency s" "en_approval_required n \<Longrightarrow> ok"
    "dependency_observations s n = Inr bs"
    "approvals_ok (sc_plan s) (set (sc_approved_nodes s) \<union> (if en_approval_required n then {i} else {}))"
  unfolding has_iff [symmetric]
  using assms by (auto simp: dispatch_guard_def admission_decision_iff dest!: evaluate_approvals split: if_splits option.splits)

lemma dependency_observations_iff: "dependency_observations s n = Inr bs \<longleftrightarrow>
   list_all2 (\<lambda>k b. map_of (sc_observations s) k = Some b \<and> ob_status b = ''SUCCEEDED'') (en_depends_on n) bs"
proof -
  have "dependency_observation s n k = Inr b \<longleftrightarrow> map_of (sc_observations s) k = Some b \<and> ob_status b = ''SUCCEEDED''" for k b
    by (auto simp: dependency_observation_def split: option.split)
  then show ?thesis by (simp add: dependency_observations_def mapE_Inr_iff)
qed

lemma dispatch_startable:
  assumes "dispatch_guard s i ok = Inr (n, bs)"
  shows "k \<in> set (en_depends_on n) \<Longrightarrow> succeeded s k"
  using dispatch_guardD(8) [OF assms]
  by (auto simp: dependency_observations_iff succeeded_def list_all2_conv_all_nth in_set_conv_nth)

lemma make_ticketD:
  assumes "make_ticket s n bs = Inr t"
  shows "ticket_validate t = Inr t" "dt_task_id t = ep_task_id (sc_plan s)" "plan_fingerprint (sc_plan s) = Inr (dt_plan_fingerprint t)"
    "dt_node_id t = en_node_id n" "dt_dispatch_sequence t = sc_dispatch_sequence s" "node_fingerprint n = Inr (dt_node_fingerprint t)"
    "dt_authority_fingerprint t = en_authority_fingerprint n" "dt_execution_level t = en_execution_level n"
    "mapE observation_fingerprint bs = Inr (dt_dependencies t)"
  using assms by (auto simp: make_ticket_def Let_def ticket_validate_def checked_iff)

text \<open>Two shapes of change: a new ticket goes in flight, or an observation settles an active ticket.\<close>

lemma dispatch_grows:
  assumes "dispatch_guard s i ok = Inr (n, bs)"
  shows "grows s (note_dispatched n t (bump s))"
  by (auto simp: grows_def note_dispatched_def tracked_def image_Un dom_update)

lemma new_ticket_for:
  assumes "dispatch_guard s i ok = Inr (n, bs)" "make_ticket (bump s) n bs = Inr t"
  shows "ticket_for (note_dispatched n t (bump s)) i t"
proof -
  note d = dispatch_guardD [OF assms(1)] and t = make_ticketD [OF assms(2)]
  have "list_all2 (\<lambda>k f. dependency_fingerprint s i k = Inr f) (en_depends_on n) (dt_dependencies t)"
    using d(8) t(9) by (fastforce simp: dependency_observations_iff mapE_Inr_iff list_all2_conv_all_nth dependency_fingerprint_iff)
  then have "mapE (dependency_fingerprint s i) (en_depends_on n) = Inr (dt_dependencies t)" by (simp add: mapE_Inr_iff)
  moreover have "dependency_fingerprint (note_dispatched n t (bump s)) = dependency_fingerprint s"
    by (intro ext) (simp add: dependency_fingerprint_def note_dispatched_def)
  ultimately show ?thesis
    using d(2) t node_map_id [OF d(2)] by (simp add: ticket_for_def note_dispatched_def)
qed

lemma sched_invD:
  assumes "sched_inv s"
  shows "bound (sc_task_context s) (sc_plan s) (sc_parent_authority s)" "0 \<le> sc_dispatch_sequence s"
    "distinct (map fst (sc_observations s) @ map fst (active s))" "distinct (map (dt_dispatch_sequence \<circ> snd) (active s))"
    "approvals_ok (sc_plan s) (set (sc_approved_nodes s))" "int (length (sc_in_flight s)) \<le> sc_max_concurrency s"
    "(i, b) \<in> set (sc_observations s) \<Longrightarrow> observation_for s i b" "(i, b) \<in> set (sc_observations s) \<Longrightarrow> startable s i"
    "(i, t) \<in> set (active s) \<Longrightarrow> ticket_for s i t" "(i, t) \<in> set (active s) \<Longrightarrow> startable s i"
    "1 \<le> sc_max_concurrency s" "sc_max_concurrency s \<le> MAX_SCHEDULER_CONCURRENCY"
  using assms unfolding sched_inv_def by blast+

text \<open>What an operation has to show: old entries stay good because the state only grows.\<close>

lemma inv_change:
  assumes "sched_inv s" "grows s s'" "int (length (sc_in_flight s')) \<le> sc_max_concurrency s"
    "distinct (map fst (sc_observations s') @ map fst (active s'))" "distinct (map (dt_dispatch_sequence \<circ> snd) (active s'))"
    "approvals_ok (sc_plan s) (set (sc_approved_nodes s'))"
    "\<And>i b. (i, b) \<in> set (sc_observations s') \<Longrightarrow> (i, b) \<in> set (sc_observations s) \<or> observation_for s' i b \<and> startable s' i"
    "\<And>i t. (i, t) \<in> set (active s') \<Longrightarrow> (i, t) \<in> set (active s) \<or> ticket_for s' i t \<and> startable s' i"
  shows "sched_inv s'"
proof -
  note d = sched_invD [OF assms(1)]
  have same: "sc_plan s' = sc_plan s" "sc_task_context s' = sc_task_context s" "sc_parent_authority s' = sc_parent_authority s"
    "sc_max_concurrency s' = sc_max_concurrency s" "sc_dispatch_sequence s \<le> sc_dispatch_sequence s'"
    using assms(2) by (simp_all add: grows_def)
  have "observation_for s' i b \<and> startable s' i" if "(i, b) \<in> set (sc_observations s')" for i b
    using assms(7) [OF that] d(7,8) grows_facts [OF _ assms(2)] by blast
  moreover have "ticket_for s' i t \<and> startable s' i" if "(i, t) \<in> set (active s')" for i t
    using assms(8) [OF that] d(9,10) grows_facts [OF _ assms(2)] by blast
  moreover have "0 \<le> sc_dispatch_sequence s'" using d(2) same(5) by linarith
  ultimately show ?thesis
    unfolding sched_inv_def using assms(3-6) d(1,11,12) unfolding same(1-4) by blast
qed

lemma bump_inv: "sched_inv s \<Longrightarrow> sched_inv (bump s)"
  using sched_invD(3-6) [of s] by (intro inv_change [of s "bump s"]) (auto simp: grows_def tracked_def)

lemma dispatch_inv:
  assumes "sched_inv s" "dispatch_guard s i ok = Inr (n, bs)" "make_ticket (bump s) n bs = Inr t"
  shows "sched_inv (note_dispatched n t (bump s))"
proof -
  let ?s = "note_dispatched n t (bump s)"
  note d = dispatch_guardD [OF assms(2)] and t = make_ticketD [OF assms(3)] and inv = sched_invD [OF assms(1)]
  note g = dispatch_grows [OF assms(2), of t]
  have i: "en_node_id n = i" by (rule node_map_id [OF d(2)])
  have fl: "sc_in_flight ?s = sc_in_flight s @ [(i, t)]" using d(4) by (simp add: note_dispatched_def i alist_update_new)
  have same: "sc_observations ?s = sc_observations s" "sc_recovery_required ?s = []" "sc_plan ?s = sc_plan s"
    "set (sc_approved_nodes ?s) = set (sc_approved_nodes s) \<union> (if en_approval_required n then {i} else {})"
    using d(5) by (simp_all add: note_dispatched_def i)
  have new: "startable ?s i"
    using d(2) dispatch_startable [OF assms(2)] succeeded_grows [OF _ g] by (auto simp: startable_def same)
  have old: "dt_dispatch_sequence u < dt_dispatch_sequence t" if "(j, u) \<in> set (sc_in_flight s)" for j u
    using inv(9) [of j u] that t(5) by (simp add: ticket_for_def)
  show ?thesis
  proof (rule inv_change [OF assms(1) g])
    show "int (length (sc_in_flight ?s)) \<le> sc_max_concurrency s" using d(6) by (simp add: fl)
    show "distinct (map fst (sc_observations ?s) @ map fst (active ?s))" using inv(3) d(3-5) unfolding same fl by auto
    show "distinct (map (dt_dispatch_sequence \<circ> snd) (active ?s))" using inv(4) d(5) old unfolding same fl by fastforce
    show "approvals_ok (sc_plan s) (set (sc_approved_nodes ?s))" using d(9) by (simp add: same)
    show "(j, u) \<in> set (active s) \<or> ticket_for ?s j u \<and> startable ?s j" if "(j, u) \<in> set (active ?s)" for j u
      using that new new_ticket_for [OF assms(2,3)] by (auto simp: same fl)
  qed (simp add: same)
qed

lemma issue_dispatch_inv:
  assumes "sched_inv (fst x)"
  shows "sched_inv (fst (snd (issue_dispatch g i ok x))) \<and> grows (fst x) (fst (snd (issue_dispatch g i ok x)))"
proof -
  obtain s w where x: "x = (s, w)" by fastforce
  obtain r s' w' where r: "issue_dispatch g i ok (s, w) = (r, (s', w'))" by (metis prod.collapse)
  have g: "grows s (bump s)" by (simp add: grows_def tracked_def)
  show ?thesis
  proof (cases r)
    case (Inl e)
    with issue_dispatch_error [of g i ok s w e "(s', w')"] r assms bump_inv g show ?thesis by (auto simp: x)
  next
    case (Inr t)
    with r obtain n bs where "dispatch_guard s i ok = Inr (n, bs)" "make_ticket (bump s) n bs = Inr t" "s' = note_dispatched n t (bump s)"
      by (auto simp: issue_dispatch_iff)
    with r assms dispatch_inv dispatch_grows show ?thesis by (auto simp: x)
  qed
qed

lemma observation_guardD:
  assumes "observation_guard s b = Inr u"
  shows "\<exists>t. (ob_node_id b, t) \<in> set (active s) \<and> ob_node_fingerprint b = dt_node_fingerprint t \<and> ob_authority_fingerprint b = dt_authority_fingerprint t"
    "observation_validate b (Some (sc_plan s)) (Some (sc_parent_authority s)) = Inr b"
    "\<exists>d. evaluate (sc_task_context s) (sc_plan s) (sc_parent_authority s) (ordered_observations s @ [b]) (sort (fromkeys (sc_approved_nodes s))) = Inr d"
proof -
  from assms obtain t c where t: "(case map_of (sc_in_flight s) (ob_node_id b) of None \<Rightarrow> map_of (sc_recovery_required s) (ob_node_id b) | Some t \<Rightarrow> Some t) = Some t"
    and v: "observation_validate b (Some (sc_plan s)) (Some (sc_parent_authority s)) = Inr c"
    and f: "ob_node_fingerprint b = dt_node_fingerprint t" "ob_authority_fingerprint b = dt_authority_fingerprint t"
    and e: "\<exists>d. scheduler_evaluate s (ordered_observations s @ [b]) (sc_approved_nodes s) = Inr d"
    by (auto simp: observation_guard_def split: option.splits if_splits)
  from t have "(ob_node_id b, t) \<in> set (active s)" by (auto split: option.splits dest!: map_of_SomeD)
  with f show "\<exists>t. (ob_node_id b, t) \<in> set (active s) \<and> ob_node_fingerprint b = dt_node_fingerprint t \<and> ob_authority_fingerprint b = dt_authority_fingerprint t"
    by blast
  have "c = b" using v by (simp add: observation_validate_iff)
  with v show "observation_validate b (Some (sc_plan s)) (Some (sc_parent_authority s)) = Inr b" by simp
  from e show "\<exists>d. evaluate (sc_task_context s) (sc_plan s) (sc_parent_authority s) (ordered_observations s @ [b]) (sort (fromkeys (sc_approved_nodes s))) = Inr d"
    by (simp add: scheduler_evaluate_def)
qed

lemma observed_inv:
  assumes "sched_inv s" "observation_guard s b = Inr u"
  shows "sched_inv (note_observed b s)" "grows s (note_observed b s)"
    "sc_observations (note_observed b s) = sc_observations s @ [(ob_node_id b, b)]"
proof -
  let ?i = "ob_node_id b" and ?s = "note_observed b s"
  note o = observation_guardD [OF assms(2)] and inv = sched_invD [OF assms(1)]
  from o(1) obtain t where t: "(?i, t) \<in> set (active s)" by blast
  have new: "?i \<notin> fst ` set (sc_observations s)" using inv(3) t by (force simp: image_iff)
  show obs: "sc_observations ?s = sc_observations s @ [(?i, b)]" using new by (simp add: note_observed_def alist_update_new)
  have same: "sc_in_flight ?s = filter (\<lambda>x. fst x \<noteq> ?i) (sc_in_flight s)" "sc_recovery_required ?s = filter (\<lambda>x. fst x \<noteq> ?i) (sc_recovery_required s)"
    "sc_plan ?s = sc_plan s" "sc_parent_authority ?s = sc_parent_authority s" "sc_approved_nodes ?s = sc_approved_nodes s"
    by (simp_all add: note_observed_def AList.delete_eq case_prod_unfold eq_commute)
  have act: "active ?s = filter (\<lambda>x. fst x \<noteq> ?i) (active s)" by (simp add: same)
  show g: "grows s ?s"
    using map_of_snoc_new [OF new, of b] unfolding grows_def tracked_def obs act by (auto simp: note_observed_def)
  show "sched_inv ?s"
  proof (rule inv_change [OF assms(1) g])
    show "int (length (sc_in_flight ?s)) \<le> sc_max_concurrency s"
      using inv(6) length_filter_le [of "\<lambda>x. fst x \<noteq> ?i" "sc_in_flight s"] unfolding same by linarith
    show "distinct (map fst (sc_observations ?s) @ map fst (active ?s))"
      using inv(3) new unfolding obs act distinct_append map_append set_append by (auto intro: distinct_map_filter)
    show "distinct (map (dt_dispatch_sequence \<circ> snd) (active ?s))" unfolding act by (rule distinct_map_filter [OF inv(4)])
    show "approvals_ok (sc_plan s) (set (sc_approved_nodes ?s))" using inv(5) by (simp add: same)
    show "(j, u) \<in> set (active s) \<or> ticket_for ?s j u \<and> startable ?s j" if "(j, u) \<in> set (active ?s)" for j u
      using that unfolding act by auto
    show "(j, c) \<in> set (sc_observations s) \<or> observation_for ?s j c \<and> startable ?s j" if "(j, c) \<in> set (sc_observations ?s)" for j c
      using that o(2) inv(10) [OF t] startable_grows [OF _ g] by (auto simp: obs observation_for_def same)
  qed
qed

lemma accept_observation_iff: "accept_observation g b (s, w) = (Inr c, (s', w')) \<longleftrightarrow> c = b \<and> observation_guard s b = Inr ()
   \<and> record_with g (\<lambda>rp. rp_record_observation rp b) (''SCHEDULER_CHECKPOINT_OBSERVATION_FAILED:'' @ ob_node_id b) (s, w) = (Inr (), (s, w'))
   \<and> s' = note_observed b s"
  unfolding accept_observation_def bindA_Inr_iff by (auto simp: record_with_iff)

lemma accept_observation_error:
  assumes "accept_observation g b (s, w) = (Inl e, x)"
  shows "fst x = s"
proof -
  obtain r y where "record_with g (\<lambda>rp. rp_record_observation rp b) (''SCHEDULER_CHECKPOINT_OBSERVATION_FAILED:'' @ ob_node_id b) (s, w) = (r, (s, y))"
    using record_with_scheduler [of g _ _ "(s, w)"] by (metis fst_conv prod.collapse)
  with assms show ?thesis
    by (cases r; cases "observation_guard s b") (auto simp: accept_observation_def bindA_def readA_def modifyA_def)
qed

lemma accept_observation_inv:
  assumes "sched_inv (fst x)"
  shows "sched_inv (fst (snd (accept_observation g b x))) \<and> grows (fst x) (fst (snd (accept_observation g b x)))"
proof -
  obtain s w where x: "x = (s, w)" by fastforce
  obtain r s' w' where r: "accept_observation g b (s, w) = (r, (s', w'))" by (metis prod.collapse)
  show ?thesis
  proof (cases r)
    case (Inl e)
    with accept_observation_error [of g b s w e "(s', w')"] r assms show ?thesis by (auto simp: x)
  next
    case (Inr c)
    with r have "observation_guard s b = Inr ()" "s' = note_observed b s" by (simp_all add: accept_observation_iff)
    with r assms observed_inv [of s b] show ?thesis by (simp add: x)
  qed
qed

lemma cancel_state:
  "fst (snd (cancel g reason (s, w))) = (if strip reason = [] then s else s\<lparr>sc_cancelled := True, sc_cancellation_reason := Some (strip reason)\<rparr>)"
  by (auto simp: cancel_def bindA_def readA_def modifyA_def fail_if_def)

lemma cancel_inv:
  assumes "sched_inv (fst x)"
  shows "sched_inv (fst (snd (cancel g reason x))) \<and> grows (fst x) (fst (snd (cancel g reason x)))"
proof -
  obtain s w where x: "x = (s, w)" by fastforce
  let ?s = "s\<lparr>sc_cancelled := True, sc_cancellation_reason := Some (strip reason)\<rparr>"
  have g: "grows s ?s" by (simp add: grows_def tracked_def)
  have "sched_inv ?s" using sched_invD(3-6) [OF assms] by (intro inv_change [OF assms]) (auto simp: x g)
  with assms g show ?thesis by (simp add: x cancel_state)
qed

lemma issue_ready_inv:
  assumes "sched_inv (fst x)"
  shows "sched_inv (fst (snd (issue_ready g ids x))) \<and> grows (fst x) (fst (snd (issue_ready g ids x)))"
proof -
  let ?P = "\<lambda>y. sched_inv (fst y) \<and> grows (fst x) (fst y)"
  have "?P (snd (issue_dispatch g i ok y))" if "?P y" for i ok and y :: "scheduler \<times> 'a"
    using issue_dispatch_inv [of y g i ok] that grows_trans by blast
  then have "?P (snd (mapA (\<lambda>i. issue_dispatch g i (i \<in> set ids)) is y))" if "?P y" for "is" y
    using that by (intro mapA_keeps [where P = ?P]) auto
  with assms show ?thesis
    unfolding issue_ready_def by (intro bindA_keeps [where P = ?P]) (auto simp: readA_def)
qed

section \<open>Restoring\<close>

definition ticket_of_plan :: "execution_plan \<Rightarrow> dispatch_ticket \<Rightarrow> bool" where
  "ticket_of_plan p t \<longleftrightarrow> ticket_validate t = Inr t \<and> dt_task_id t = ep_task_id p \<and> plan_fingerprint p = Inr (dt_plan_fingerprint t)
     \<and> (\<exists>n. node_map p (dt_node_id t) = Some n \<and> node_fingerprint n = Inr (dt_node_fingerprint t)
          \<and> dt_authority_fingerprint t = en_authority_fingerprint n \<and> dt_execution_level t = en_execution_level n)"

definition needs_approval :: "execution_plan \<Rightarrow> string \<Rightarrow> bool" where
  "needs_approval p i \<longleftrightarrow> (\<exists>n. node_map p i = Some n \<and> en_approval_required n)"

definition by_node :: "dispatch_ticket list \<Rightarrow> (string \<times> dispatch_ticket) list" where
  "by_node ts = map (\<lambda>t. (dt_node_id t, t)) ts"

lemma by_node_simps [simp]: "map fst (by_node ts) = map dt_node_id ts" "map snd (by_node ts) = ts" "fst ` set (by_node ts) = dt_node_id ` set ts"
  "(i, t) \<in> set (by_node ts) \<longleftrightarrow> t \<in> set ts \<and> dt_node_id t = i" "by_node (ts @ us) = by_node ts @ by_node us" "by_node [t] = [(dt_node_id t, t)]"
  by (auto simp: by_node_def comp_def image_image)

lemma ticket_validate_Inr: "ticket_validate t = Inr u \<longleftrightarrow> ticket_validate t = Inr t \<and> u = t"
  by (auto simp: ticket_validate_def checked_iff)

lemma restore_ticket_iff: "restore_ticket p acc t = Inr acc' \<longleftrightarrow> ticket_of_plan p t
   \<and> dt_node_id t \<notin> fst ` set (rt_dispatches acc) \<and> dt_dispatch_sequence t \<notin> set (rt_sequences acc)
   \<and> acc' = \<lparr>rt_dispatches = rt_dispatches acc @ [(dt_node_id t, t)], rt_sequences = dt_dispatch_sequence t # rt_sequences acc,
       rt_sequence = max (rt_sequence acc) (dt_dispatch_sequence t),
       rt_approval_nodes = (if needs_approval p (dt_node_id t) then dt_node_id t # rt_approval_nodes acc else rt_approval_nodes acc)\<rparr>"
proof (cases "ticket_validate t")
  case (Inr u)
  then have u: "ticket_validate t = Inr t" by (auto simp: ticket_validate_def checked_iff)
  show ?thesis
  proof (cases "node_map p (dt_node_id t)")
    case None
    then show ?thesis by (auto simp: restore_ticket_def ticket_of_plan_def split: if_splits)
  next
    case (Some n)
    show ?thesis
    proof (cases "dt_node_id t \<in> fst ` set (rt_dispatches acc)")
      case True
      with Some u show ?thesis unfolding restore_ticket_def has_iff by (simp add: bindE_Inr_iff)
    next
      case False
      with Some node_map_id [OF Some] u show ?thesis unfolding restore_ticket_def has_iff
        by (auto simp: ticket_of_plan_def needs_approval_def alist_update_new split: if_splits)
    qed
  qed
qed (auto simp: restore_ticket_def ticket_of_plan_def)

definition restored :: "execution_plan \<Rightarrow> int \<Rightarrow> dispatch_ticket list \<Rightarrow> restoring" where
  "restored p q ts = \<lparr>rt_dispatches = by_node ts, rt_sequences = rev (map dt_dispatch_sequence ts),
     rt_sequence = foldl max q (map dt_dispatch_sequence ts), rt_approval_nodes = rev (filter (needs_approval p) (map dt_node_id ts))\<rparr>"

lemma restore_tickets_iff: "foldE (restore_ticket p) (restored p q []) ts = Inr acc \<longleftrightarrow> (\<forall>t \<in> set ts. ticket_of_plan p t)
   \<and> distinct (map dt_node_id ts) \<and> distinct (map dt_dispatch_sequence ts) \<and> acc = restored p q ts"
proof (induction ts arbitrary: acc rule: rev_induct)
  case (snoc t ts)
  have "restore_ticket p (restored p q ts) t = Inr acc \<longleftrightarrow> ticket_of_plan p t \<and> dt_node_id t \<notin> dt_node_id ` set ts
      \<and> dt_dispatch_sequence t \<notin> dt_dispatch_sequence ` set ts \<and> acc = restored p q (ts @ [t])"
    unfolding restore_ticket_iff by (simp add: restored_def)
  moreover have "foldE (restore_ticket p) (restored p q []) (ts @ [t]) = Inr acc \<longleftrightarrow>
      (\<exists>a. foldE (restore_ticket p) (restored p q []) ts = Inr a \<and> restore_ticket p a t = Inr acc)"
    by (simp add: foldE_append bindE_Inr_iff)
  ultimately show ?case unfolding snoc.IH by auto
qed auto

definition settles :: "scheduler \<Rightarrow> (string \<times> dispatch_ticket) list \<Rightarrow> observation \<Rightarrow> bool" where
  "settles s dispatches b \<longleftrightarrow> observation_validate b (Some (sc_plan s)) (Some (sc_parent_authority s)) = Inr b
     \<and> (\<exists>t. map_of dispatches (ob_node_id b) = Some t \<and> ob_node_fingerprint b = dt_node_fingerprint t
          \<and> ob_authority_fingerprint b = dt_authority_fingerprint t)"

lemma restore_observation_iff: "restore_observation ds s b = Inr s' \<longleftrightarrow> ob_node_id b \<notin> fst ` set (sc_observations s) \<and> settles s ds b
   \<and> s' = s\<lparr>sc_observations := sc_observations s @ [(ob_node_id b, b)]\<rparr>"
proof -
  have "observation_validate b (Some (sc_plan s)) (Some (sc_parent_authority s)) = Inr c \<Longrightarrow> c = b" for c by (simp add: observation_validate_iff)
  then show ?thesis
    unfolding restore_observation_def has_iff
    by (cases "map_of ds (ob_node_id b)"; cases "observation_validate b (Some (sc_plan s)) (Some (sc_parent_authority s))")
      (auto simp: settles_def alist_update_new)
qed

lemma restore_observations_iff:
  "sc_observations s = [] \<Longrightarrow> foldE (restore_observation ds) s bs = Inr s' \<longleftrightarrow> (\<forall>b \<in> set bs. settles s ds b)
   \<and> distinct (map ob_node_id bs) \<and> s' = s\<lparr>sc_observations := map (\<lambda>b. (ob_node_id b, b)) bs\<rparr>"
proof (induction bs arbitrary: s' rule: rev_induct)
  case (snoc b bs)
  let ?s = "s\<lparr>sc_observations := map (\<lambda>b. (ob_node_id b, b)) bs\<rparr>"
  have "restore_observation ds ?s b = Inr s' \<longleftrightarrow> ob_node_id b \<notin> ob_node_id ` set bs \<and> settles s ds b
      \<and> s' = s\<lparr>sc_observations := map (\<lambda>b. (ob_node_id b, b)) (bs @ [b])\<rparr>"
    unfolding restore_observation_iff by (simp add: settles_def image_image)
  moreover have "foldE (restore_observation ds) s (bs @ [b]) = Inr s' \<longleftrightarrow>
      (\<exists>a. foldE (restore_observation ds) s bs = Inr a \<and> restore_observation ds a b = Inr s')"
    by (simp add: foldE_append bindE_Inr_iff)
  ultimately show ?case unfolding snoc.IH [OF snoc.prems] by auto
qed auto

lemma restored_dependencies_iff: "(\<exists>us. mapE (restored_dependencies_check s) its = Inr us) \<longleftrightarrow> (\<forall>(i, t) \<in> set its.
   \<exists>n. node_map (sc_plan s) i = Some n \<and> mapE (dependency_fingerprint s i) (en_depends_on n) = Inr (dt_dependencies t))"
proof (induction its)
  case (Cons it its)
  have "restored_dependencies_check s (i, t) = Inr u \<longleftrightarrow>
    (\<exists>n. node_map (sc_plan s) i = Some n \<and> mapE (dependency_fingerprint s i) (en_depends_on n) = Inr (dt_dependencies t))" for i t u
    by (auto simp: restored_dependencies_check_def bindE_Inr_iff split: option.split)
  with Cons.IH show ?case by (cases it) (simp add: bindE_Inr_iff)
qed simp

lemma reapproval_iff: "reapproval_check xs ys = Inr u \<longleftrightarrow> set xs = set ys"
proof -
  have "sort (fromkeys zs) = [] \<longleftrightarrow> zs = []" for zs :: "string list" by (metis set_empty set_fromkeys set_sort)
  then show ?thesis by (auto simp: reapproval_check_def Let_def filter_empty_conv)
qed

lemma foldl_update_new: "distinct (map fst (d @ its)) \<Longrightarrow> foldl (\<lambda>d it. AList.update (fst it) (snd it) d) d its = d @ its"
proof (induction its arbitrary: d)
  case (Cons it its)
  then have "AList.update (fst it) (snd it) d = d @ [it]" by (simp add: alist_update_new)
  with Cons show ?case by simp
qed simp

text \<open>The state a checkpoint stands for.\<close>

definition rebuilt :: "recovered_state \<Rightarrow> scheduler \<Rightarrow> scheduler" where
  "rebuilt r s = s\<lparr>sc_dispatch_sequence := foldl max (sc_dispatch_sequence s) (map dt_dispatch_sequence (rs_dispatches r)),
     sc_approved_nodes := sc_approved_nodes s @ rev (filter (needs_approval (sc_plan s)) (map dt_node_id (rs_dispatches r))),
     sc_observations := map (\<lambda>b. (ob_node_id b, b)) (rs_observations r),
     sc_recovery_required := by_node (filter (\<lambda>t. dt_node_id t \<notin> ob_node_id ` set (rs_observations r)) (rs_dispatches r)),
     sc_cancelled := (rs_cancellation_reason r \<noteq> None), sc_cancellation_reason := map_option strip (rs_cancellation_reason r)\<rparr>"

definition pristine :: "scheduler \<Rightarrow> bool" where
  "pristine s \<longleftrightarrow> (\<exists>c p a n. s = fresh_scheduler c p a n)"

lemma unfinished_by_node: "unfinished (s\<lparr>sc_observations := map (\<lambda>b. (ob_node_id b, b)) bs\<rparr>) (by_node ts)
   = by_node (filter (\<lambda>t. dt_node_id t \<notin> ob_node_id ` set bs) ts)"
  by (simp add: unfinished_def by_node_def filter_map comp_def map_of_eq_None_iff image_image)

lemma restore_cancellation_iff: "restore_cancellation reason s = Inr s' \<longleftrightarrow> (\<forall>r. reason = Some r \<longrightarrow> strip r \<noteq> [])
   \<and> s' = (case reason of None \<Rightarrow> s | Some r \<Rightarrow> s\<lparr>sc_cancelled := True, sc_cancellation_reason := Some (strip r)\<rparr>)"
  by (auto simp: restore_cancellation_def split: option.split)

lemma rebuilt_simps [simp]: "sc_task_context (rebuilt r s) = sc_task_context s" "sc_plan (rebuilt r s) = sc_plan s"
  "sc_parent_authority (rebuilt r s) = sc_parent_authority s" "sc_max_concurrency (rebuilt r s) = sc_max_concurrency s"
  "sc_in_flight (rebuilt r s) = sc_in_flight s" "sc_observations (rebuilt r s) = map (\<lambda>b. (ob_node_id b, b)) (rs_observations r)"
  by (simp_all add: rebuilt_def)

lemma dependency_fingerprint_cong: "map_of (sc_observations s) = map_of (sc_observations s') \<Longrightarrow> dependency_fingerprint s = dependency_fingerprint s'"
  by (intro ext) (simp add: dependency_fingerprint_def)

definition recovery_set_ok :: "recovered_state \<Rightarrow> bool" where
  "recovery_set_ok r \<longleftrightarrow> distinct (rs_recovery_required_ticket_ids r)
     \<and> set (rs_recovery_required_ticket_ids r) = dt_ticket_id ` {t \<in> set (rs_dispatches r). dt_node_id t \<notin> ob_node_id ` set (rs_observations r)}"

definition restores :: "scheduler \<Rightarrow> scheduler \<Rightarrow> bool" where
  "restores s s' \<longleftrightarrow> s' = s \<and> (\<exists>d. scheduler_evaluate s (ordered_observations s) (sc_approved_nodes s) = Inr d)"

text \<open>The state after the tickets and observations are read.\<close>

definition half_built :: "recovered_state \<Rightarrow> scheduler \<Rightarrow> scheduler" where
  "half_built r s = s\<lparr>sc_dispatch_sequence := foldl max (sc_dispatch_sequence s) (map dt_dispatch_sequence (rs_dispatches r)),
     sc_approved_nodes := sc_approved_nodes s @ rev (filter (needs_approval (sc_plan s)) (map dt_node_id (rs_dispatches r))),
     sc_observations := map (\<lambda>b. (ob_node_id b, b)) (rs_observations r)\<rparr>"

lemma finish_restore_iff:
  assumes "pristine s" "distinct (map dt_node_id (rs_dispatches r))"
  shows "finish_restore r (by_node (rs_dispatches r)) (half_built r s) = Inr s' \<longleftrightarrow> recovery_set_ok r
    \<and> (\<forall>c. rs_cancellation_reason r = Some c \<longrightarrow> strip c \<noteq> []) \<and> restores (rebuilt r s) s'"
proof -
  let ?left = "by_node (filter (\<lambda>t. dt_node_id t \<notin> ob_node_id ` set (rs_observations r)) (rs_dispatches r))"
  let ?h = "half_built r s"
  have s: "sc_recovery_required ?h = []" "\<not> sc_cancelled s" "sc_cancellation_reason s = None" "\<not> sc_cancelled ?h" "sc_cancellation_reason ?h = None"
    using assms(1) by (auto simp: pristine_def fresh_scheduler_def half_built_def)
  have left: "unfinished ?h (by_node (rs_dispatches r)) = ?left" using unfinished_by_node by (simp add: half_built_def)
  have rec: "foldl (\<lambda>d it. AList.update (fst it) (snd it) d) [] ?left = ?left"
    using foldl_update_new [of "[]" ?left] assms(2) by (simp add: distinct_map_filter)
  have ids: "set (map (dt_ticket_id \<circ> snd) ?left) = dt_ticket_id ` {t \<in> set (rs_dispatches r). dt_node_id t \<notin> ob_node_id ` set (rs_observations r)}"
    by (auto simp: by_node_def)
  have last: "(case rs_cancellation_reason r of None \<Rightarrow> ?h\<lparr>sc_recovery_required := ?left\<rparr>
      | Some c \<Rightarrow> ?h\<lparr>sc_recovery_required := ?left, sc_cancelled := True, sc_cancellation_reason := Some (strip c)\<rparr>) = rebuilt r s"
    using s by (simp add: rebuilt_def half_built_def split: option.split)
  have "bindE (restore_cancellation (rs_cancellation_reason r) (?h\<lparr>sc_recovery_required := ?left\<rparr>)) (\<lambda>s3.
      bindE (reraise is_scheduler_error SE m (scheduler_evaluate s3 (ordered_observations s3) (sc_approved_nodes s3))) (\<lambda>_. Inr s3)) = Inr s'
    \<longleftrightarrow> (\<forall>c. rs_cancellation_reason r = Some c \<longrightarrow> strip c \<noteq> []) \<and> restores (rebuilt r s) s'" for m
    unfolding bindE_Inr_iff restore_cancellation_iff restores_def using last by (cases "rs_cancellation_reason r") auto
  then show ?thesis
    unfolding finish_restore_def left Let_def s(1) rec ids recovery_set_ok_def by (simp, blast)
qed

text \<open>When a checkpoint is accepted, and what it restores to.\<close>

lemma restore_from_iff:
  assumes "pristine s"
  shows "restore_from reapproved r s = Inr s' \<longleftrightarrow> rs_task_id r = ep_task_id (sc_plan s) \<and> plan_fingerprint (sc_plan s) = Inr (rs_plan_fingerprint r)
    \<and> (\<forall>t \<in> set (rs_dispatches r). ticket_of_plan (sc_plan s) t) \<and> distinct (map dt_node_id (rs_dispatches r))
    \<and> distinct (map dt_dispatch_sequence (rs_dispatches r))
    \<and> set reapproved = {dt_node_id t |t. t \<in> set (rs_dispatches r) \<and> needs_approval (sc_plan s) (dt_node_id t)}
    \<and> (\<forall>b \<in> set (rs_observations r). settles s (by_node (rs_dispatches r)) b) \<and> distinct (map ob_node_id (rs_observations r))
    \<and> (\<forall>t \<in> set (rs_dispatches r). \<exists>n. node_map (sc_plan s) (dt_node_id t) = Some n
         \<and> mapE (dependency_fingerprint (rebuilt r s) (dt_node_id t)) (en_depends_on n) = Inr (dt_dependencies t))
    \<and> recovery_set_ok r \<and> (\<forall>c. rs_cancellation_reason r = Some c \<longrightarrow> strip c \<noteq> []) \<and> restores (rebuilt r s) s'"
proof -
  let ?q = "sc_dispatch_sequence s" and ?ts = "rs_dispatches r" and ?bs = "rs_observations r"
  let ?acc = "restored (sc_plan s) ?q ?ts"
  let ?s1 = "s\<lparr>sc_dispatch_sequence := rt_sequence ?acc, sc_approved_nodes := sc_approved_nodes s @ rt_approval_nodes ?acc\<rparr>"
  have start: "\<lparr>rt_dispatches = [], rt_sequences = [], rt_sequence = ?q, rt_approval_nodes = []\<rparr> = restored (sc_plan s) ?q []"
    by (simp add: restored_def by_node_def)
  have ap: "set (rt_approval_nodes ?acc) = {dt_node_id t |t. t \<in> set ?ts \<and> needs_approval (sc_plan s) (dt_node_id t)}"
    by (auto simp: restored_def)
  have ds: "rt_dispatches ?acc = by_node ?ts" by (simp add: restored_def)
  have "sc_observations ?s1 = []" using assms by (auto simp: pristine_def fresh_scheduler_def)
  from restore_observations_iff [OF this]
  have obs: "foldE (restore_observation (by_node ?ts)) ?s1 ?bs = Inr s2 \<longleftrightarrow> (\<forall>b \<in> set ?bs. settles s (by_node ?ts) b)
      \<and> distinct (map ob_node_id ?bs) \<and> s2 = half_built r s" for s2
    by (simp add: settles_def half_built_def restored_def)
  have "dependency_fingerprint (half_built r s) = dependency_fingerprint (rebuilt r s)" "sc_plan (half_built r s) = sc_plan s"
    by (simp_all add: half_built_def dependency_fingerprint_cong)
  then have dep: "(\<exists>us. mapE (restored_dependencies_check (half_built r s)) (by_node ?ts) = Inr us) \<longleftrightarrow> (\<forall>t \<in> set ?ts. \<exists>n. node_map (sc_plan s) (dt_node_id t) = Some n
      \<and> mapE (dependency_fingerprint (rebuilt r s) (dt_node_id t)) (en_depends_on n) = Inr (dt_dependencies t))"
    unfolding restored_dependencies_iff by (auto simp: by_node_def)
  have "restore_from reapproved r s = Inr s' \<longleftrightarrow> rs_task_id r = ep_task_id (sc_plan s) \<and> plan_fingerprint (sc_plan s) = Inr (rs_plan_fingerprint r)
      \<and> (\<exists>acc. foldE (restore_ticket (sc_plan s)) (restored (sc_plan s) ?q []) ?ts = Inr acc \<and> reapproval_check reapproved (rt_approval_nodes acc) = Inr ()
        \<and> (\<exists>s2. foldE (restore_observation (rt_dispatches acc)) (s\<lparr>sc_dispatch_sequence := rt_sequence acc, sc_approved_nodes := sc_approved_nodes s @ rt_approval_nodes acc\<rparr>) ?bs = Inr s2
          \<and> (\<exists>us. mapE (restored_dependencies_check s2) (rt_dispatches acc) = Inr us) \<and> finish_restore r (rt_dispatches acc) s2 = Inr s'))"
    unfolding restore_from_def start by (simp add: bindE_Inr_iff)
  then show ?thesis
    unfolding restore_tickets_iff reapproval_iff using finish_restore_iff [OF assms] ap obs dep ds by auto
qed

lemma foldl_max_ge: "x \<in> set xs \<Longrightarrow> x \<le> foldl max q xs" "q \<le> foldl max q xs" for q :: int
  by (induction xs arbitrary: q) (auto, metis max.bounded_iff, meson max.bounded_iff)

lemma map_of_by_node: "map_of (by_node ts) i = Some t \<Longrightarrow> t \<in> set ts \<and> dt_node_id t = i"
  by (auto dest!: map_of_SomeD)

lemma rebuilt_fields:
  "pristine s \<Longrightarrow> sc_in_flight (rebuilt r s) = []" "pristine s \<Longrightarrow> set (sc_approved_nodes (rebuilt r s))
     = {dt_node_id t |t. t \<in> set (rs_dispatches r) \<and> needs_approval (sc_plan s) (dt_node_id t)}"
  "sc_recovery_required (rebuilt r s) = by_node (filter (\<lambda>t. dt_node_id t \<notin> ob_node_id ` set (rs_observations r)) (rs_dispatches r))"
  "t \<in> set (rs_dispatches r) \<Longrightarrow> dt_dispatch_sequence t \<le> sc_dispatch_sequence (rebuilt r s)"
  "pristine s \<Longrightarrow> 0 \<le> sc_dispatch_sequence (rebuilt r s)"
  by (auto simp: rebuilt_def pristine_def fresh_scheduler_def intro: foldl_max_ge)

lemma restored_ticket:
  assumes "pristine s" "restore_from reapproved r s = Inr s'" "t \<in> set (rs_dispatches r)"
  shows "ticket_for s' (dt_node_id t) t"
proof -
  note R = assms(2) [unfolded restore_from_iff [OF assms(1)]]
  have s': "s' = rebuilt r s" using R by (simp add: restores_def)
  have "ticket_of_plan (sc_plan s) t" "\<exists>n. node_map (sc_plan s) (dt_node_id t) = Some n
      \<and> mapE (dependency_fingerprint (rebuilt r s) (dt_node_id t)) (en_depends_on n) = Inr (dt_dependencies t)" using R assms(3) by blast+
  with rebuilt_fields(4) [OF assms(3), of s] show ?thesis by (auto simp: ticket_for_def ticket_of_plan_def s')
qed

text \<open>A restored scheduler satisfies the invariant, with nothing in flight.\<close>

lemma restored_inv:
  assumes "pristine s" "restore_from reapproved r s = Inr s'" "bound (sc_task_context s) (sc_plan s) (sc_parent_authority s)"
    "1 \<le> sc_max_concurrency s" "sc_max_concurrency s \<le> MAX_SCHEDULER_CONCURRENCY"
  shows "sched_inv s'"
proof -
  let ?ts = "rs_dispatches r" and ?bs = "rs_observations r" and ?s = "rebuilt r s"
  note R = assms(2) [unfolded restore_from_iff [OF assms(1)]]
  have s': "s' = ?s" using R by (simp add: restores_def)
  have dep: "\<exists>n. node_map (sc_plan s) (dt_node_id t) = Some n \<and> mapE (dependency_fingerprint ?s (dt_node_id t)) (en_depends_on n) = Inr (dt_dependencies t)"
    if "t \<in> set ?ts" for t using R that by blast
  have start: "startable ?s (dt_node_id t)" if t: "t \<in> set ?ts" for t
  proof -
    obtain n where n: "node_map (sc_plan s) (dt_node_id t) = Some n" "mapE (dependency_fingerprint ?s (dt_node_id t)) (en_depends_on n) = Inr (dt_dependencies t)"
      using dep [OF t] by blast
    have "succeeded ?s k" if "k \<in> set (en_depends_on n)" for k
      using n(2) that unfolding mapE_Inr_iff list_all2_conv_all_nth in_set_conv_nth dependency_fingerprint_iff succeeded_def by auto
    with n(1) t show ?thesis
      using rebuilt_fields(2) [OF assms(1), of r] by (auto simp: startable_def needs_approval_def)
  qed
  have tick: "ticket_for ?s (dt_node_id t) t" if "t \<in> set ?ts" for t using restored_ticket [OF assms(1,2) that] by (simp add: s')
  have obs: "observation_for ?s (ob_node_id b) b \<and> startable ?s (ob_node_id b)" if b: "b \<in> set ?bs" for b
  proof -
    have "settles s (by_node ?ts) b" using R b by blast
    then obtain t where "t \<in> set ?ts" "dt_node_id t = ob_node_id b" "observation_validate b (Some (sc_plan s)) (Some (sc_parent_authority s)) = Inr b"
      by (auto simp: settles_def dest: map_of_by_node)
    with start [of t] show ?thesis by (simp add: observation_for_def)
  qed
  have "approvals_ok (sc_plan s) (set (sc_approved_nodes ?s))"
    using R by (auto simp: restores_def scheduler_evaluate_def dest!: evaluate_approvals)
  moreover have "distinct (map dt_node_id ?ts)" "distinct (map dt_dispatch_sequence ?ts)" "distinct (map ob_node_id ?bs)" using R by blast+
  ultimately show ?thesis
    using assms(3-5) start tick obs rebuilt_fields(1,2,5) [OF assms(1), of r] unfolding s' sched_inv_def
    by (auto simp: rebuilt_fields(3) comp_def distinct_map_filter by_node_def) (metis imageI)
qed

lemma fresh_inv:
  assumes "bound c p a" "1 \<le> n" "n \<le> MAX_SCHEDULER_CONCURRENCY"
  shows "sched_inv (fresh_scheduler c p a n)"
  using assms by (simp add: sched_inv_def fresh_scheduler_def approvals_ok_def)

lemma scheduler_checks_iff: "scheduler_checks g c p a n re = Inr u \<longleftrightarrow> 1 \<le> n \<and> n \<le> MAX_SCHEDULER_CONCURRENCY
   \<and> (\<forall>i \<in> set re. strip i \<noteq> []) \<and> (gd_repository g = None \<longrightarrow> re = []) \<and> (\<exists>d. evaluate c p a [] [] = Inr d)"
  by (auto simp: scheduler_checks_def checked_iff list_ex_iff)

lemma restore_checkpoint_iff: "restore_checkpoint g re (s, w) = (Inr u, (s', w')) \<longleftrightarrow> (case gd_repository g of None \<Rightarrow> s' = s \<and> w' = w
   | Some rp \<Rightarrow> (\<forall>i \<in> set re. node_map (sc_plan s) i \<noteq> None) \<and> rp_initialize rp w = (Inr (), w')
       \<and> (\<exists>pf r. plan_fingerprint (sc_plan s) = Inr pf \<and> rp_load rp (ep_task_id (sc_plan s)) pf w' = Inr r \<and> restore_from re r s = Inr s'))"
proof (cases "gd_repository g")
  case (Some rp)
  have nil: "sort (fromkeys (filter (\<lambda>i. node_map (sc_plan s) i = None) re)) = [] \<longleftrightarrow> (\<forall>i \<in> set re. node_map (sc_plan s) i \<noteq> None)"
    by (metis (mono_tags, lifting) filter_empty_conv set_empty set_fromkeys set_sort)
  show ?thesis
    unfolding restore_checkpoint_def Some option.case Let_def fst_conv nil [symmetric]
    by (auto simp: bindA_Inr_iff onsnd_iff bindE_Inr_iff)
qed (auto simp: restore_checkpoint_def)

lemma new_scheduler_iff: "new_scheduler g c p a n re w = (Inr s, w') \<longleftrightarrow> scheduler_checks g c p a n re = Inr ()
   \<and> restore_checkpoint g re (fresh_scheduler c p a n, w) = (Inr (), (s, w'))"
  by (auto simp: new_scheduler_def split: sum.splits prod.splits)

lemma new_scheduler_inv:
  assumes "new_scheduler g c p a n re w = (Inr s, w')"
  shows "sched_inv s" "sc_task_context s = c" "sc_plan s = p" "sc_parent_authority s = a" "sc_max_concurrency s = n"
proof -
  note A = assms [unfolded new_scheduler_iff scheduler_checks_iff]
  let ?f = "fresh_scheduler c p a n"
  have f: "pristine ?f" "sc_task_context ?f = c" "sc_plan ?f = p" "sc_parent_authority ?f = a" "sc_max_concurrency ?f = n"
    by (auto simp: pristine_def, simp_all add: fresh_scheduler_def)
  have b: "bound c p a" using A by (auto simp: evaluate_iff)
  have "s = ?f \<or> (\<exists>r. restore_from re r ?f = Inr s)"
    using A unfolding restore_checkpoint_iff by (auto split: option.splits)
  then show "sched_inv s" "sc_task_context s = c" "sc_plan s = p" "sc_parent_authority s = a" "sc_max_concurrency s = n"
    using fresh_inv [OF b] restored_inv [OF f(1)] A b f by (auto simp: restore_from_iff [OF f(1)] restores_def)
qed

section \<open>Runs\<close>

text \<open>A scheduler and its world: the operations in any order with any arguments, successful or not, and steps the
  world makes by itself.\<close>

inductive sched_step :: "'w guards \<Rightarrow> ('w \<Rightarrow> 'w \<Rightarrow> bool) \<Rightarrow> scheduler \<times> 'w \<Rightarrow> scheduler \<times> 'w \<Rightarrow> bool" for g env where
  dispatch: "sched_step g env x (snd (issue_dispatch g i ok x))"
| ready: "sched_step g env x (snd (issue_ready g ids x))"
| accept: "sched_step g env x (snd (accept_observation g b x))"
| cancelling: "sched_step g env x (snd (cancel g reason x))"
| world: "env w w' \<Longrightarrow> sched_step g env (s, w) (s, w')"

inductive_cases sched_stepE: "sched_step g env x y"

abbreviation sched_run :: "'w guards \<Rightarrow> ('w \<Rightarrow> 'w \<Rightarrow> bool) \<Rightarrow> scheduler \<times> 'w \<Rightarrow> scheduler \<times> 'w \<Rightarrow> bool" where
  "sched_run g env \<equiv> (sched_step g env)\<^sup>*\<^sup>*"

lemma sched_step_inv: "sched_step g env x y \<Longrightarrow> sched_inv (fst x) \<Longrightarrow> sched_inv (fst y) \<and> grows (fst x) (fst y)"
  by (erule sched_stepE) (auto simp: issue_dispatch_inv issue_ready_inv accept_observation_inv cancel_inv)

lemma sched_run_inv: "sched_run g env x y \<Longrightarrow> sched_inv (fst x) \<Longrightarrow> sched_inv (fst y) \<and> grows (fst x) (fst y)"
proof (induction rule: rtranclp_induct)
  case (step y z)
  then show ?case using sched_step_inv [OF step.hyps(2)] grows_trans by blast
qed simp

lemma sched_run_grows: "sched_inv s \<Longrightarrow> sched_run g env (s, w) (s', w') \<Longrightarrow> sched_inv s' \<and> grows s s'"
  using sched_run_inv [of g env "(s, w)" "(s', w')"] by simp

lemma no_redispatch:
  assumes "sched_inv s" "sched_run g env (s, w) (s', w')" "i \<in> tracked s \<or> sc_cancelled s"
  shows "issue_dispatch g i ok (s', w') \<noteq> (Inr t, x)"
proof
  assume d: "issue_dispatch g i ok (s', w') = (Inr t, x)"
  obtain s'' w'' where "x = (s'', w'')" by fastforce
  with d obtain m bs where "dispatch_guard s' i ok = Inr (m, bs)" by (auto simp: issue_dispatch_iff)
  from dispatch_guardD [OF this] have "\<not> sc_cancelled s' \<and> i \<notin> tracked s'" by (auto simp: tracked_def)
  with sched_run_grows [OF assms(1,2)] assms(3) show False by (auto simp: grows_def)
qed

lemma observation_kept: "sched_inv s \<Longrightarrow> sched_run g env (s, w) (s', w') \<Longrightarrow> map_of (sc_observations s) i = Some b \<Longrightarrow> map_of (sc_observations s') i = Some b"
  using map_le_Some [of "map_of (sc_observations s)" "map_of (sc_observations s')" i b] sched_run_grows [of s g env w s' w'] by (simp add: grows_def)

section \<open>An example run\<close>

text \<open>Guards that grant everything, without a repository, over the plan of theory \<open>Execution_Plan\<close>.\<close>

definition demo_guards :: "unit guards" where
  "demo_guards = \<lparr>gd_assert_active = (\<lambda>w. (Inr (), w)), gd_reserve_steps = (\<lambda>_ w. (Inr (), w)), gd_is_revoked = (\<lambda>_ _ _. Inr False),
     gd_repository = None\<rparr>"

definition demo_scheduler :: scheduler where
  "demo_scheduler = fresh_scheduler demo_plan_context demo_plan demo_plan_authority 4"

lemma demo_scheduler_fields: "sc_plan demo_scheduler = demo_plan" "sc_parent_authority demo_scheduler = demo_plan_authority"
  "sc_observations demo_scheduler = []" "sc_in_flight demo_scheduler = []" "sc_recovery_required demo_scheduler = []"
  "\<not> sc_cancelled demo_scheduler" "sc_max_concurrency demo_scheduler = 4" "sc_dispatch_sequence demo_scheduler = 0"
  by (simp_all add: demo_scheduler_def fresh_scheduler_def)

lemma demo_scheduler_inv: "sched_inv demo_scheduler"
  unfolding demo_scheduler_def using demo_bound_plan by (intro fresh_inv) (simp_all add: MAX_SCHEDULER_CONCURRENCY_def)

definition demo_decision :: scheduling_decision where
  "demo_decision = the_decision demo_plan [] (projr (plan_fingerprint demo_plan)) (records_of demo_plan nothing_observed [])"

lemma demo_decision_eq: "evaluate demo_plan_context demo_plan demo_plan_authority [] [] = Inr demo_decision"
  unfolding evaluate_iff using demo_bound_plan demo_plan_fingerprint by (simp add: approvals_ok_def demo_decision_def)

lemma expected_ticket_id_update [simp]: "expected_ticket_id (t\<lparr>dt_ticket_id := x\<rparr>) = expected_ticket_id t"
  by (simp add: expected_ticket_id_def ticket_identity_def)

lemma make_ticket_total:
  assumes "plan_fingerprint (sc_plan s) = Inr pf" "node_wf n" "mapE observation_fingerprint bs = Inr fs" "1 \<le> sc_dispatch_sequence s"
  shows "\<exists>t. make_ticket s n bs = Inr t"
proof -
  have nf: "node_fingerprint n = Inr (digest (node_json_of n))" using assms(2) by (simp add: node_fingerprint_iff)
  have v: "ticket_validate (t\<lparr>dt_ticket_id := expected_ticket_id t\<rparr>) = Inr (t\<lparr>dt_ticket_id := expected_ticket_id t\<rparr>)"
    if "dt_schema_version t = DISPATCH_TICKET_SCHEMA" "dt_dispatch_authorized t" "1 \<le> dt_dispatch_sequence t" for t
    using that by (simp add: ticket_validate_def checked_def fail_if_def)
  show ?thesis unfolding make_ticket_def assms(1,3) nf bindE_simps Let_def
    by (rule exI, rule v) (use assms(4) in simp_all)
qed

lemma demo_guard: "dispatch_guard demo_scheduler ''gather'' False = Inr (demo_nodes ! 0, [])"
proof -
  have n: "node_map demo_plan ''gather'' = Some (demo_nodes ! 0)" using demo_gather(1) by (simp add: node_map_def)
  have dep: "en_depends_on (demo_nodes ! 0) = []" by (simp add: demo_nodes_def demo_node_def Let_def demo_contract_def)
  have ns: "ep_nodes demo_plan = [demo_nodes ! 0, demo_nodes ! 1]"
    using demo_gather(6,8) by (simp add: list_eq_iff_nth_eq less_Suc_eq numeral_2_eq_2)
  have "List.find (\<lambda>r. nr_node_id r = ''gather'') (sd_records demo_decision) = Some (node_record_of nothing_observed []
      (final_states nothing_observed [] (ep_nodes demo_plan)) (demo_nodes ! 0))"
    by (simp add: demo_decision_def the_decision_def records_of_def ns node_record_of_def demo_gather(3))
  moreover have "node_state nothing_observed [] st (demo_nodes ! 0) = (''READY'', ''NODE_ADMISSIBLE'')" for st
    using demo_gather(2) by (simp add: node_state_def nothing_observed_def dep)
  ultimately obtain r where r: "scheduling_record demo_decision ''gather'' = Inr r" "nr_state r = ''READY''"
    by (simp add: scheduling_record_def node_record_of_def)
  have "ordered_observations demo_scheduler = []"
    by (simp add: ordered_observations_def demo_scheduler_def fresh_scheduler_def List.map_filter_def)
  then have "admission_decision demo_scheduler [] = Inr demo_decision"
    using demo_decision_eq by (simp add: admission_decision_iff) (simp add: demo_scheduler_def fresh_scheduler_def)
  with r n demo_gather(2) dep show ?thesis
    by (simp add: dispatch_guard_def dependency_observations_def demo_scheduler_fields)
qed

lemma demo_dispatch: "\<exists>t s. issue_dispatch demo_guards ''gather'' False (demo_scheduler, ()) = (Inr t, (s, ())) \<and> sc_in_flight s = [(''gather'', t)]"
proof -
  let ?n = "demo_nodes ! 0"
  have m: "?n \<in> set (ep_nodes demo_plan)" using demo_gather(6,8) by simp
  obtain t where t: "make_ticket (bump demo_scheduler) ?n [] = Inr t"
    using make_ticket_total [of "bump demo_scheduler" _ ?n "[]"] demo_plan_fingerprint plan_nodes_wf(1) [OF demo_plan_valid m]
    by (auto simp: demo_scheduler_fields)
  have "\<exists>r. rebind_authority ?n demo_plan_authority = Inr r"
    using demo_plan_valid m by (auto simp: plan_validate_iff parent_ok_def list_all_iff)
  then have "revalidate_runtime demo_guards ?n (demo_scheduler, ()) = (Inr (), (demo_scheduler, ()))"
    using demo_plan_valid by (auto simp: revalidate_iff demo_scheduler_fields demo_guards_def)
  with demo_guard t have "issue_dispatch demo_guards ''gather'' False (demo_scheduler, ()) = (Inr t, (note_dispatched ?n t (bump demo_scheduler), ()))"
    unfolding issue_dispatch_iff by (auto simp: record_with_iff demo_guards_def)
  then show ?thesis by (auto simp: note_dispatched_def demo_gather(3) demo_scheduler_fields)
qed

section \<open>Properties\<close>

text \<open>C6: what holds of a scheduler at every moment. However it was created (afresh or from a checkpoint) and
  whatever was called on it since, with any arguments, in any order, successfully or not, while the world around it
  changes: at most \<open>max_concurrency\<close> (at most 24) tickets are in flight; a node is observed, in flight or awaiting
  recovery, never two of these; no two open tickets share a sequence number; every node that was ever dispatched is
  a node of the plan, approved if it needs approval, and all its dependencies have accepted successful observations;
  every open ticket is valid, bound to the plan and carries the fingerprints of those observations; every accepted
  observation is valid for the plan and the parent authority.\<close>

theorem scheduler_invariant:
  assumes "new_scheduler g c p a n re w0 = (Inr s0, w)" "sched_run g env (s0, w) (s, w')"
  shows "int (length (sc_in_flight s)) \<le> n \<and> n \<le> 24
    \<and> distinct (map fst (sc_observations s) @ map fst (sc_in_flight s) @ map fst (sc_recovery_required s))
    \<and> distinct (map (dt_dispatch_sequence \<circ> snd) (sc_in_flight s @ sc_recovery_required s))
    \<and> (\<forall>i \<in> tracked s. \<exists>m \<in> set (ep_nodes p). en_node_id m = i \<and> (en_approval_required m \<longrightarrow> i \<in> set (sc_approved_nodes s))
         \<and> (\<forall>k \<in> set (en_depends_on m). \<exists>b. map_of (sc_observations s) k = Some b \<and> ob_status b = ''SUCCEEDED''))
    \<and> (\<forall>(i, t) \<in> set (sc_in_flight s @ sc_recovery_required s). dt_node_id t = i \<and> ticket_validate t = Inr t
         \<and> plan_fingerprint p = Inr (dt_plan_fingerprint t) \<and> dt_dispatch_sequence t \<le> sc_dispatch_sequence s
         \<and> (\<exists>m. nodes_by_id p i = Some m \<and> mapE (dependency_fingerprint s i) (en_depends_on m) = Inr (dt_dependencies t)))
    \<and> (\<forall>(i, b) \<in> set (sc_observations s). ob_node_id b = i \<and> observation_validate b (Some p) (Some a) = Inr b)"
proof -
  note new = new_scheduler_inv [OF assms(1)]
  have r: "sched_inv s" "grows s0 s" using sched_run_inv [OF assms(2)] new(1) by simp_all
  have eq: "sc_plan s = p" "sc_parent_authority s = a" "sc_max_concurrency s = n" using r(2) new by (simp_all add: grows_def)
  note inv = sched_invD [OF r(1)]
  have start: "startable s i" if "i \<in> tracked s" for i using that inv(8,10) unfolding tracked_def by (metis UnE imageE prod.collapse)
  have node: "\<exists>m \<in> set (ep_nodes p). en_node_id m = i \<and> (en_approval_required m \<longrightarrow> i \<in> set (sc_approved_nodes s))
      \<and> (\<forall>k \<in> set (en_depends_on m). \<exists>b. map_of (sc_observations s) k = Some b \<and> ob_status b = ''SUCCEEDED'')" if "i \<in> tracked s" for i
  proof -
    from start [OF that] obtain m where m: "nodes_by_id p i = Some m" "en_approval_required m \<longrightarrow> i \<in> set (sc_approved_nodes s)"
      "\<forall>k \<in> set (en_depends_on m). succeeded s k" by (auto simp: startable_def node_map_def eq)
    moreover have "distinct (map en_node_id (ep_nodes p))" using inv(1) plan_ordered(2) by (auto simp: bound_def eq)
    ultimately show ?thesis by (auto simp: nodes_by_id_distinct succeeded_def)
  qed
  have tick: "dt_node_id t = i \<and> ticket_validate t = Inr t \<and> plan_fingerprint p = Inr (dt_plan_fingerprint t) \<and> dt_dispatch_sequence t \<le> sc_dispatch_sequence s
      \<and> (\<exists>m. nodes_by_id p i = Some m \<and> mapE (dependency_fingerprint s i) (en_depends_on m) = Inr (dt_dependencies t))"
    if "(i, t) \<in> set (active s)" for i t using inv(9) [OF that] by (auto simp: ticket_for_def node_map_def eq)
  have "int (length (sc_in_flight s)) \<le> n" "n \<le> 24" using inv(6,12) by (simp_all add: eq MAX_SCHEDULER_CONCURRENCY_def)
  with inv(3,4) node tick inv(7) show ?thesis unfolding observation_for_def eq map_append by blast
qed

lemma demo_scheduler_new: "new_scheduler demo_guards demo_plan_context demo_plan demo_plan_authority 4 [] () = (Inr demo_scheduler, ())"
proof -
  have "evaluate demo_plan_context demo_plan demo_plan_authority [] [] = Inr demo_decision" by (rule demo_decision_eq)
  then show ?thesis
    by (simp add: new_scheduler_iff scheduler_checks_iff restore_checkpoint_iff demo_guards_def demo_scheduler_def MAX_SCHEDULER_CONCURRENCY_def)
qed

theorem scheduler_invariant_witness:
  "\<exists>s. sched_run demo_guards (\<lambda>_ _. False) (demo_scheduler, ()) (s, ()) \<and> length (sc_in_flight s) = 1 \<and> ''gather'' \<in> tracked s
    \<and> (\<exists>t. sc_in_flight s = [(''gather'', t)] \<and> ticket_validate t = Inr t)"
proof -
  obtain t s where d: "issue_dispatch demo_guards ''gather'' False (demo_scheduler, ()) = (Inr t, (s, ()))"
    and f: "sc_in_flight s = [(''gather'', t)]" using demo_dispatch by blast
  have r: "sched_run demo_guards (\<lambda>_ _. False) (demo_scheduler, ()) (s, ())"
    using sched_step.dispatch [of demo_guards "\<lambda>_ _. False" "(demo_scheduler, ())" "''gather''" False] d by auto
  have "(''gather'', t) \<in> set (sc_in_flight s @ sc_recovery_required s)" using f by simp
  then have "ticket_validate t = Inr t" using scheduler_invariant [OF demo_scheduler_new r] by blast
  with r f show ?thesis by (auto simp: tracked_def)
qed

text \<open>C4: what a ticket guarantees. A ticket is issued only for a node of the plan that was never dispatched before,
  while the scheduler is not cancelled, nothing awaits recovery and a slot is free; only after the caller approved a
  node that needs approval; only when every dependency has succeeded; only after the node's authority was derived
  again from the parent, has the fingerprint in the ticket and permits nothing the parent does not; only when the
  budget was found active, none of the node's tools is revoked and one step was reserved. It carries the next
  sequence number and its own valid identity, and is the one new entry in flight.\<close>

theorem dispatch_safe:
  assumes "sched_inv s" "issue_dispatch g i ok (s, w) = (Inr t, (s', w'))"
  shows "\<not> sc_cancelled s \<and> sc_recovery_required s = [] \<and> int (length (sc_in_flight s)) < sc_max_concurrency s \<and> i \<notin> tracked s
    \<and> (\<exists>m w1 w2. m \<in> set (ep_nodes (sc_plan s)) \<and> en_node_id m = i \<and> (en_approval_required m \<longrightarrow> ok)
       \<and> (\<forall>k \<in> set (en_depends_on m). succeeded s k)
       \<and> (\<exists>r. derive_child (sc_parent_authority s) (node_request m) = Inr r \<and> au_fingerprint r = dt_authority_fingerprint t
            \<and> (\<forall>q. permits r q \<longrightarrow> permits (sc_parent_authority s) q))
       \<and> gd_assert_active g w = (Inr (), w1) \<and> (\<forall>cap \<in> set (en_allowed_tools m). gd_is_revoked g (ep_task_id (sc_plan s)) cap w1 = Inr False)
       \<and> gd_reserve_steps g 1 w1 = (Inr (), w2))
    \<and> ticket_validate t = Inr t \<and> dt_node_id t = i \<and> dt_dispatch_sequence t = sc_dispatch_sequence s + 1
    \<and> sc_dispatch_sequence s' = sc_dispatch_sequence s + 1 \<and> sc_in_flight s' = sc_in_flight s @ [(i, t)]"
proof -
  from assms(2) obtain m bs w1 w2 where d: "dispatch_guard s i ok = Inr (m, bs)" and v: "revalidate_runtime g m (s, w) = (Inr (), (s, w1))"
    and r: "gd_reserve_steps g 1 w1 = (Inr (), w2)" and t: "make_ticket (bump s) m bs = Inr t" and s': "s' = note_dispatched m t (bump s)"
    unfolding issue_dispatch_iff by blast
  note D = dispatch_guardD [OF d] and T = make_ticketD [OF t]
  have b: "bound (sc_task_context s) (sc_plan s) (sc_parent_authority s)" by (rule sched_invD(1) [OF assms(1)])
  have id: "en_node_id m = i" by (rule node_map_id [OF D(2)])
  have m: "m \<in> set (ep_nodes (sc_plan s))"
    using D(2) plan_ordered(2) b nodes_by_id_distinct by (auto simp: bound_def node_map_def)
  obtain a where a: "rebind_authority m (sc_parent_authority s) = Inr a" and act: "gd_assert_active g w = (Inr (), w1)"
    "\<forall>cap \<in> set (en_allowed_tools m). gd_is_revoked g (ep_task_id (sc_plan s)) cap w1 = Inr False"
    using v by (auto simp: revalidate_iff)
  have auth: "\<exists>r. derive_child (sc_parent_authority s) (node_request m) = Inr r \<and> au_fingerprint r = dt_authority_fingerprint t
      \<and> (\<forall>q. permits r q \<longrightarrow> permits (sc_parent_authority s) q)"
    using rebind_derives [OF a] rebind_attenuates(3) [OF a] T(7) by auto
  have "sc_in_flight s' = sc_in_flight s @ [(i, t)]" "sc_dispatch_sequence s' = sc_dispatch_sequence s + 1" "i \<notin> tracked s"
    using D(3-5) by (simp_all add: s' note_dispatched_def id alist_update_new tracked_def)
  with D m id auth act r T dispatch_startable [OF d] show ?thesis by auto
qed

theorem dispatch_safe_witness:
  "\<exists>t s. issue_dispatch demo_guards ''gather'' False (demo_scheduler, ()) = (Inr t, (s, ()))
     \<and> dt_dispatch_sequence t = 1 \<and> dt_node_id t = ''gather'' \<and> ''gather'' \<notin> tracked demo_scheduler"
proof -
  obtain t s where d: "issue_dispatch demo_guards ''gather'' False (demo_scheduler, ()) = (Inr t, (s, ()))" using demo_dispatch by blast
  from dispatch_safe [OF demo_scheduler_inv d] have "dt_dispatch_sequence t = sc_dispatch_sequence demo_scheduler + 1" "dt_node_id t = ''gather''"
    "''gather'' \<notin> tracked demo_scheduler" by blast+
  with d show ?thesis by (simp add: demo_scheduler_fields)
qed

text \<open>C12: no node runs twice, and cancellation is final. Once a node was dispatched or observed, or once the scheduler
  was cancelled, no later attempt to dispatch that node (any node, when cancelled) succeeds, whatever happens in
  between; and an accepted observation is never replaced.\<close>

theorem dispatch_at_most_once:
  assumes "sched_inv s" "sched_run g env (s, w) (s', w')"
  shows "(i \<in> tracked s \<or> sc_cancelled s \<longrightarrow> (\<forall>ok t x. issue_dispatch g i ok (s', w') \<noteq> (Inr t, x)))
    \<and> (\<forall>b. map_of (sc_observations s) i = Some b \<longrightarrow> map_of (sc_observations s') i = Some b)"
  using no_redispatch [OF assms] observation_kept [OF assms] by blast

theorem dispatch_at_most_once_witness:
  "\<exists>t s. issue_dispatch demo_guards ''gather'' False (demo_scheduler, ()) = (Inr t, (s, ()))
     \<and> (\<forall>ok u x. issue_dispatch demo_guards ''gather'' ok (s, ()) \<noteq> (Inr u, x))"
proof -
  obtain t s where d: "issue_dispatch demo_guards ''gather'' False (demo_scheduler, ()) = (Inr t, (s, ()))"
    and f: "sc_in_flight s = [(''gather'', t)]" using demo_dispatch by blast
  have i: "sched_inv s" using issue_dispatch_inv [of "(demo_scheduler, ())" demo_guards "''gather''" False] demo_scheduler_inv d by simp
  have "''gather'' \<in> tracked s \<or> sc_cancelled s" using f by (simp add: tracked_def)
  from dispatch_at_most_once [OF i rtranclp.rtrancl_refl, THEN conjunct1, THEN mp, OF this]
  have "\<forall>ok u x. issue_dispatch demo_guards ''gather'' ok (s, ()) \<noteq> (Inr u, x)" .
  with d show ?thesis by (intro exI conjI)
qed

end
