(* ===== verification/Execution_Checkpoint.thy ===== *)
theory Execution_Checkpoint
  imports Execution_Scheduler
begin

text \<open>
  Model of \<open>src/three_agent/execution_checkpoint.py\<close>: the repository that keeps dispatch tickets, observations and a
  hash chain of events in the task database, reads them back with full verification, and from which the execution
  scheduler restores itself after a crash. The tables are lists in insertion order; a transaction that raises leaves
  them unchanged. The clock and the lock errors of SQLite come from an environment, one entry per call.
\<close>

section \<open>Payloads\<close>

abbreviation CE :: exc_class where "CE \<equiv> ExecutionCheckpointError"

definition EXECUTION_CHECKPOINT_SCHEMA :: string where
  "EXECUTION_CHECKPOINT_SCHEMA = ''workspace-execution-checkpoint/v1''"

definition ZERO_HASH :: string where
  "ZERO_HASH = ''sha256:'' @ replicate 64 (CHR ''0'')"

abbreviation check_text :: "json \<Rightarrow> string result" where
  "check_text \<equiv> canonical_text CE ''CHECKPOINT_NOT_CANONICAL_JSON''"

abbreviation check_digest :: "json \<Rightarrow> string result" where
  "check_digest \<equiv> canonical_digest CE ''CHECKPOINT_NOT_CANONICAL_JSON''"

definition utc_now_text :: "int \<Rightarrow> string" where
  "utc_now_text t = isoformat_local t @ ''Z''"

definition parse_canonical_payload :: "string \<Rightarrow> string \<Rightarrow> string \<Rightarrow> json result" where
  "parse_canonical_payload raw sha kind = (case loads raw of
     None \<Rightarrow> raise CE (kind @ ''_CHECKPOINT_JSON_INVALID'')
   | Some payload \<Rightarrow> bindE (check_text payload) (\<lambda>t.
       if t \<noteq> raw then raise CE (kind @ ''_CHECKPOINT_NOT_CANONICAL'')
       else bindE (check_digest payload) (\<lambda>d.
       if sha \<noteq> d then raise CE (kind @ ''_CHECKPOINT_DIGEST_MISMATCH'') else Inr payload)))"

definition validate_dispatch_fingerprints :: "dispatch_ticket \<Rightarrow> unit result list" where
  "validate_dispatch_fingerprints t =
     [void (sha256_field CE (dt_plan_fingerprint t) ''plan_fingerprint''),
      void (sha256_field CE (dt_node_fingerprint t) ''node_fingerprint''),
      void (sha256_field CE (dt_authority_fingerprint t) ''authority_fingerprint'')]
     @ map (\<lambda>d. void (sha256_field CE d ''dependency_observation_fingerprint'')) (dt_dependencies t)"

definition ticket_json :: "dispatch_ticket \<Rightarrow> json" where
  "ticket_json t = JObj [(''ticket_id'', JStr (dt_ticket_id t)), (''schema_version'', JStr (dt_schema_version t)),
     (''task_id'', JStr (dt_task_id t)), (''plan_fingerprint'', JStr (dt_plan_fingerprint t)), (''node_id'', JStr (dt_node_id t)),
     (''node_fingerprint'', JStr (dt_node_fingerprint t)), (''authority_fingerprint'', JStr (dt_authority_fingerprint t)),
     (''dependency_observation_fingerprints'', str_list (dt_dependencies t)),
     (''dispatch_sequence'', JInt (dt_dispatch_sequence t)), (''execution_level'', JInt (dt_execution_level t)),
     (''dispatch_authorized'', JBool (dt_dispatch_authorized t))]"

definition dispatch_payload :: "dispatch_ticket \<Rightarrow> json result" where
  "dispatch_payload t = bindE (ticket_validate t) (\<lambda>_. checked (validate_dispatch_fingerprints t) (ticket_json t))"

text \<open>The value of a decimal literal as a binary64 number.\<close>

definition literal_value :: "string \<Rightarrow> rat" where
  "literal_value t = (let neg = starts_with t ''-''; s = (if neg then drop 1 t else t) in
     case int_part s of None \<Rightarrow> 0
     | Some (ds, r) \<Rightarrow> (case frac_part r of (fs, r') \<Rightarrow>
         let e = (case exp_part r' of None \<Rightarrow> 0 | Some (e, _) \<Rightarrow> e);
             x = round_double (rat_mult_pow 10 (e - int (length fs)) (nat_of_digits (ds @ fs), 1))
         in (if neg then - 1 else 1) * (of_nat (fst x) / of_nat (snd x))))"

definition float_of_text :: "string \<Rightarrow> pyfloat" where
  "float_of_text t = (if t \<in> {''nan'', ''inf'', ''-inf''} then NonFinite t else FiniteFloat (literal_value t) t)"

text \<open>\<open>int(value)\<close>\<close>

definition int_of_json :: "json \<Rightarrow> int result" where
  "int_of_json v = (case v of JInt i \<Rightarrow> Inr i | JBool b \<Rightarrow> Inr (if b then 1 else 0)
   | JFloat t \<Rightarrow> (case float_of_text t of
        FiniteFloat q _ \<Rightarrow> Inr (if q < 0 then - \<lfloor>- q\<rfloor> else \<lfloor>q\<rfloor>)
      | NonFinite u \<Rightarrow> if u = ''nan'' then raise ValueError ''cannot convert float NaN to integer''
          else raise OverflowError ''cannot convert float infinity to integer'')
   | JStr t \<Rightarrow> (case py_int t of None \<Rightarrow> raise ValueError ''invalid literal for int()'' | Some i \<Rightarrow> Inr i)
   | _ \<Rightarrow> raise TypeError ''int() argument must be a string or a number'')"

definition same_keys :: "(string \<times> json) list \<Rightarrow> string list \<Rightarrow> bool" where
  "same_keys d ks \<longleftrightarrow> set (map fst d) = set ks"

definition DISPATCH_KEYS :: "string list" where
  "DISPATCH_KEYS = [''ticket_id'', ''schema_version'', ''task_id'', ''plan_fingerprint'', ''node_id'', ''node_fingerprint'',
     ''authority_fingerprint'', ''dependency_observation_fingerprints'', ''dispatch_sequence'', ''execution_level'', ''dispatch_authorized'']"

abbreviation key_text :: "(string \<times> json) list \<Rightarrow> string \<Rightarrow> string" where
  "key_text d k \<equiv> py_str (dict_get d k JNull)"

definition type_or_value_error :: "exc_class \<Rightarrow> bool" where
  "type_or_value_error c \<longleftrightarrow> c = TypeError \<or> is_value_error c"

text \<open>The dependency list: strings that are SHA-256 references.\<close>

fun sha256_text :: "json \<Rightarrow> string option" where
  "sha256_text (JStr t) = (if is_sha256_ref t then Some t else None)"
| "sha256_text _ = None"

definition build_ticket :: "(string \<times> json) list \<Rightarrow> string list \<Rightarrow> dispatch_ticket result" where
  "build_ticket d deps =
     bindE (sha256_field CE (key_text d ''plan_fingerprint'') ''plan_fingerprint'') (\<lambda>pf.
     bindE (sha256_field CE (key_text d ''node_fingerprint'') ''node_fingerprint'') (\<lambda>nf.
     bindE (sha256_field CE (key_text d ''authority_fingerprint'') ''authority_fingerprint'') (\<lambda>af.
     bindE (int_of_json (dict_get d ''dispatch_sequence'' JNull)) (\<lambda>q.
     bindE (int_of_json (dict_get d ''execution_level'' JNull)) (\<lambda>l.
     let t = \<lparr>dt_ticket_id = key_text d ''ticket_id'', dt_task_id = key_text d ''task_id'', dt_plan_fingerprint = pf,
       dt_node_id = key_text d ''node_id'', dt_node_fingerprint = nf, dt_authority_fingerprint = af, dt_dependencies = deps,
       dt_dispatch_sequence = q, dt_execution_level = l, dt_schema_version = key_text d ''schema_version'', dt_dispatch_authorized = True\<rparr> in
     bindE (ticket_validate t) (\<lambda>_. checked (validate_dispatch_fingerprints t) t))))))"

definition dispatch_from_payload :: "json \<Rightarrow> dispatch_ticket result" where
  "dispatch_from_payload payload = (case payload of
     JObj d \<Rightarrow>
       if \<not> same_keys d DISPATCH_KEYS then raise CE ''DISPATCH_CHECKPOINT_FIELDS_MISMATCH''
       else if dict_get d ''schema_version'' JNull \<noteq> JStr DISPATCH_TICKET_SCHEMA then raise CE ''DISPATCH_CHECKPOINT_SCHEMA_VERSION_MISMATCH''
       else if dict_get d ''dispatch_authorized'' JNull \<noteq> JBool True then raise CE ''DISPATCH_CHECKPOINT_NOT_AUTHORIZED''
       else (case dict_get d ''dependency_observation_fingerprints'' JNull of
         JList items \<Rightarrow>
           if list_ex (\<lambda>v. sha256_text v = None) items then raise CE ''INVALID_DISPATCH_DEPENDENCY_FINGERPRINTS''
           else reraise type_or_value_error CE ''INVALID_DISPATCH_CHECKPOINT'' (build_ticket d (List.map_filter sha256_text items))
       | _ \<Rightarrow> raise CE ''INVALID_DISPATCH_DEPENDENCY_FINGERPRINTS'')
   | _ \<Rightarrow> raise CE ''DISPATCH_CHECKPOINT_MUST_BE_OBJECT'')"

section \<open>Observations read back\<close>

definition OBSERVATION_KEYS :: "string list" where
  "OBSERVATION_KEYS = [''observation_id'', ''schema_version'', ''task_id'', ''task_context_fingerprint'', ''plan_fingerprint'', ''node_id'',
     ''node_fingerprint'', ''authority_fingerprint'', ''status'', ''started_at'', ''finished_at'', ''normalized_output'',
     ''normalized_output_sha256'', ''error_class'', ''evidence_bindings'', ''cost'']"

definition opt_text :: "json \<Rightarrow> string option" where
  "opt_text v = (if v = JNull then None else Some (py_str v))"

definition evidence_from_payload :: "json \<Rightarrow> evidence_binding result" where
  "evidence_from_payload raw = (case raw of
     JObj d \<Rightarrow>
       if \<not> same_keys d [''schema_version'', ''requirement'', ''evidence_ref'', ''evidence_fingerprint'']
         then raise CE ''INVALID_OBSERVATION_EVIDENCE_BINDING''
       else if dict_get d ''schema_version'' JNull \<noteq> JStr EXECUTION_EVIDENCE_BINDING_SCHEMA
         then raise CE ''EVIDENCE_BINDING_SCHEMA_VERSION_MISMATCH''
       else evidence_validate \<lparr>ev_evidence_ref = key_text d ''evidence_ref'', ev_evidence_fingerprint = key_text d ''evidence_fingerprint'',
         ev_requirement = opt_text (dict_get d ''requirement'' JNull), ev_schema_version = key_text d ''schema_version''\<rparr>
   | _ \<Rightarrow> raise CE ''INVALID_OBSERVATION_EVIDENCE_BINDING'')"

text \<open>The fields of \<open>ObservationCost\<close> with the checks of its \<open>validate\<close>. An integer is kept with its exact value and
  the text of the float it becomes.\<close>

definition number_of :: "json \<Rightarrow> pyfloat option" where
  "number_of v = (case v of JInt i \<Rightarrow> Some (FiniteFloat (of_int i) (float_repr (i < 0) (nat \<bar>i\<bar>) 0))
   | JFloat t \<Rightarrow> Some (float_of_text t) | _ \<Rightarrow> None)"

definition cost_number :: "json \<Rightarrow> string \<Rightarrow> pyfloat result" where
  "cost_number v msg = (case number_of v of None \<Rightarrow> raise OBS msg | Some f \<Rightarrow> if float_neg f then raise OBS msg else Inr f)"

definition cost_count :: "json \<Rightarrow> string \<Rightarrow> int result" where
  "cost_count v msg = (case v of JInt i \<Rightarrow> if i < 0 then raise OBS msg else Inr i | _ \<Rightarrow> raise OBS msg)"

definition cost_from_payload :: "json \<Rightarrow> observation_cost option result" where
  "cost_from_payload raw = (case raw of JNull \<Rightarrow> Inr None
   | JObj d \<Rightarrow>
       if \<not> same_keys d [''wall_time_s'', ''model_tokens'', ''tool_calls'', ''cost_usd''] then raise CE ''INVALID_OBSERVATION_COST''
       else bindE (cost_number (dict_get d ''wall_time_s'' JNull) ''INVALID_OBSERVATION_WALL_TIME'') (\<lambda>w.
         bindE (cost_count (dict_get d ''model_tokens'' JNull) ''INVALID_OBSERVATION_MODEL_TOKENS'') (\<lambda>m.
         bindE (cost_count (dict_get d ''tool_calls'' JNull) ''INVALID_OBSERVATION_TOOL_CALLS'') (\<lambda>c.
         bindE (if dict_get d ''cost_usd'' JNull = JNull then Inr None
           else bindE (cost_number (dict_get d ''cost_usd'' JNull) ''INVALID_OBSERVATION_COST_USD'') (\<lambda>f. Inr (Some f))) (\<lambda>u.
         Inr (Some \<lparr>oc_wall_time_s = w, oc_model_tokens = m, oc_tool_calls = c, oc_cost_usd = u\<rparr>)))))
   | _ \<Rightarrow> raise CE ''INVALID_OBSERVATION_COST'')"

definition build_observation :: "(string \<times> json) list \<Rightarrow> evidence_binding list \<Rightarrow> observation_cost option \<Rightarrow> string option \<Rightarrow> observation" where
  "build_observation d bindings cost output = \<lparr>ob_observation_id = key_text d ''observation_id'', ob_task_id = key_text d ''task_id'',
     ob_task_context_fingerprint = key_text d ''task_context_fingerprint'', ob_plan_fingerprint = key_text d ''plan_fingerprint'',
     ob_node_id = key_text d ''node_id'', ob_node_fingerprint = key_text d ''node_fingerprint'',
     ob_authority_fingerprint = key_text d ''authority_fingerprint'', ob_status = key_text d ''status'',
     ob_started_at = key_text d ''started_at'', ob_finished_at = key_text d ''finished_at'', ob_normalized_output_json = output,
     ob_error_class = opt_text (dict_get d ''error_class'' JNull), ob_evidence_bindings = bindings, ob_cost = cost,
     ob_schema_version = key_text d ''schema_version''\<rparr>"

definition observation_from_payload :: "json \<Rightarrow> observation result" where
  "observation_from_payload payload = (case payload of
     JObj d \<Rightarrow>
       if \<not> same_keys d OBSERVATION_KEYS then raise CE ''OBSERVATION_CHECKPOINT_FIELDS_MISMATCH''
       else if dict_get d ''schema_version'' JNull \<noteq> JStr EXECUTION_OBSERVATION_SCHEMA then raise CE ''OBSERVATION_CHECKPOINT_SCHEMA_VERSION_MISMATCH''
       else (case dict_get d ''evidence_bindings'' JNull of
         JList raws \<Rightarrow>
           bindE (mapE evidence_from_payload raws) (\<lambda>bindings.
           bindE (cost_from_payload (dict_get d ''cost'' JNull)) (\<lambda>cost.
           bindE (if dict_get d ''normalized_output'' JNull = JNull then Inr None
             else bindE (check_text (dict_get d ''normalized_output'' JNull)) (\<lambda>t. Inr (Some t))) (\<lambda>output.
           let b = build_observation d bindings cost output in
           bindE (reraise type_or_value_error CE ''INVALID_OBSERVATION_CHECKPOINT'' (observation_validate b None None)) (\<lambda>_.
           if dict_get d ''normalized_output_sha256'' JNull \<noteq> str_json (normalized_output_sha256 b)
             then raise CE ''OBSERVATION_OUTPUT_DIGEST_MISMATCH'' else Inr b))))
       | _ \<Rightarrow> raise CE ''INVALID_OBSERVATION_EVIDENCE_BINDINGS'')
   | _ \<Rightarrow> raise CE ''OBSERVATION_CHECKPOINT_MUST_BE_OBJECT'')"

text \<open>\<open>observation.canonical_dict()\<close>\<close>

definition observation_canonical :: "observation \<Rightarrow> json result" where
  "observation_canonical b = bindE (observation_validate b None None) (\<lambda>_. bindE (observation_identity b) (\<lambda>d.
     Inr (JObj ((''observation_id'', JStr (ob_observation_id b)) # d))))"

section \<open>The tables\<close>

record dispatch_row =
  dr_ticket_id :: string
  dr_task_id :: string
  dr_plan_fingerprint :: string
  dr_node_id :: string
  dr_dispatch_sequence :: int
  dr_ticket_json :: string
  dr_ticket_sha256 :: string
  dr_recorded_at :: string

record observation_row =
  or_observation_id :: string
  or_task_id :: string
  or_plan_fingerprint :: string
  or_node_id :: string
  or_observation_json :: string
  or_observation_sha256 :: string
  or_recorded_at :: string

record event_row =
  er_task_id :: string
  er_plan_fingerprint :: string
  er_event_type :: string
  er_subject_id :: string
  er_payload_json :: string
  er_payload_sha256 :: string
  er_previous_hash :: string
  er_event_hash :: string
  er_recorded_at :: string

record checkpoint_db =
  cd_store :: store
  cd_created :: bool
  cd_dispatches :: "dispatch_row list"
  cd_observations :: "observation_row list"
  cd_events :: "event_row list"
  cd_tick :: nat

text \<open>What the world around the database does at its \<open>k\<close>-th call: the clock, an error that refuses the call, and an error met by a
  budget write after its commit, when it reads the row back.\<close>

record db_env =
  de_clock :: "nat \<Rightarrow> int"
  de_fault :: "nat \<Rightarrow> string option"
  de_reread :: "nat \<Rightarrow> string option"

definition transaction :: "db_env \<Rightarrow> (string \<Rightarrow> checkpoint_db \<Rightarrow> ('a \<times> checkpoint_db) result) \<Rightarrow> (checkpoint_db, 'a) action" where
  "transaction e f w = (let w' = w\<lparr>cd_tick := Suc (cd_tick w)\<rparr> in
     case de_fault e (cd_tick w) of Some m \<Rightarrow> (raise OperationalError m, w')
     | None \<Rightarrow> if \<not> cd_created w then (raise OperationalError ''no such table'', w')
         else (case f (utc_now_text (de_clock e (cd_tick w))) w' of Inl x \<Rightarrow> (Inl x, w') | Inr (a, w'') \<Rightarrow> (Inr a, w'')))"

definition cp_initialize :: "db_env \<Rightarrow> (checkpoint_db, unit) action" where
  "cp_initialize e w = (let w' = w\<lparr>cd_tick := Suc (cd_tick w)\<rparr> in
     case de_fault e (cd_tick w) of Some m \<Rightarrow> (raise OperationalError m, w') | None \<Rightarrow> (Inr (), w'\<lparr>cd_created := True\<rparr>))"

definition require_task :: "string \<Rightarrow> checkpoint_db \<Rightarrow> unit result" where
  "require_task task_id w = fail_if CE (find_task (cd_store w) task_id = None) ''EXECUTION_CHECKPOINT_TASK_NOT_FOUND''"

definition event_json :: "event_row \<Rightarrow> json" where
  "event_json r = JObj [(''task_id'', JStr (er_task_id r)), (''plan_fingerprint'', JStr (er_plan_fingerprint r)),
     (''event_type'', JStr (er_event_type r)), (''subject_id'', JStr (er_subject_id r)), (''payload_json'', JStr (er_payload_json r)),
     (''payload_sha256'', JStr (er_payload_sha256 r)), (''previous_hash'', JStr (er_previous_hash r)), (''recorded_at'', JStr (er_recorded_at r))]"

definition event_hash :: "event_row \<Rightarrow> string" where
  "event_hash r = digest (event_json r)"

abbreviation events_of :: "string \<Rightarrow> string \<Rightarrow> checkpoint_db \<Rightarrow> event_row list" where
  "events_of task_id pf w \<equiv> filter (\<lambda>r. er_task_id r = task_id \<and> er_plan_fingerprint r = pf) (cd_events w)"

definition append_event :: "string \<Rightarrow> string \<Rightarrow> string \<Rightarrow> string \<Rightarrow> string \<Rightarrow> string \<Rightarrow> string \<Rightarrow> checkpoint_db \<Rightarrow> checkpoint_db" where
  "append_event task_id pf event_type subject payload_json payload_sha now w = (
     let rows = events_of task_id pf w;
         r = \<lparr>er_task_id = task_id, er_plan_fingerprint = pf, er_event_type = event_type, er_subject_id = subject,
           er_payload_json = payload_json, er_payload_sha256 = payload_sha,
           er_previous_hash = (if rows = [] then ZERO_HASH else er_event_hash (last rows)), er_event_hash = [], er_recorded_at = now\<rparr> in
     w\<lparr>cd_events := cd_events w @ [r\<lparr>er_event_hash := event_hash r\<rparr>]\<rparr>)"

definition dispatch_at :: "string \<Rightarrow> string \<Rightarrow> string \<Rightarrow> checkpoint_db \<Rightarrow> dispatch_row option" where
  "dispatch_at task_id pf i w = List.find (\<lambda>r. dr_task_id r = task_id \<and> dr_plan_fingerprint r = pf \<and> dr_node_id r = i) (cd_dispatches w)"

definition observation_at :: "string \<Rightarrow> string \<Rightarrow> string \<Rightarrow> checkpoint_db \<Rightarrow> observation_row option" where
  "observation_at task_id pf i w = List.find (\<lambda>r. or_task_id r = task_id \<and> or_plan_fingerprint r = pf \<and> or_node_id r = i) (cd_observations w)"

text \<open>SQLite integers have 64 bits.\<close>

definition sqlite_int :: "int \<Rightarrow> bool" where
  "sqlite_int i \<longleftrightarrow> - (2 ^ 63) \<le> i \<and> i < 2 ^ 63"

definition insert_dispatch :: "dispatch_ticket \<Rightarrow> string \<Rightarrow> string \<Rightarrow> string \<Rightarrow> checkpoint_db \<Rightarrow> (dispatch_ticket \<times> checkpoint_db) result" where
  "insert_dispatch t js sha now w =
     bindE (require_task (dt_task_id t) w) (\<lambda>_.
     case List.find (\<lambda>r. dr_ticket_id r = dt_ticket_id t) (cd_dispatches w) of
       Some r \<Rightarrow> bindE (parse_canonical_payload (dr_ticket_json r) (dr_ticket_sha256 r) ''DISPATCH'') (\<lambda>old.
         bindE (check_digest old) (\<lambda>d.
         if d \<noteq> sha then raise CE ''DISPATCH_CHECKPOINT_IDENTITY_CONFLICT'' else Inr (t, w)))
     | None \<Rightarrow>
         if dispatch_at (dt_task_id t) (dt_plan_fingerprint t) (dt_node_id t) w \<noteq> None then raise CE ''DISPATCH_CHECKPOINT_NODE_CONFLICT''
         else if \<not> sqlite_int (dt_dispatch_sequence t) then raise OverflowError ''Python int too large to convert to SQLite INTEGER''
         else Inr (t, append_event (dt_task_id t) (dt_plan_fingerprint t) ''DISPATCH_RECORDED'' (dt_ticket_id t) js sha now
           (w\<lparr>cd_dispatches := cd_dispatches w @ [\<lparr>dr_ticket_id = dt_ticket_id t, dr_task_id = dt_task_id t,
             dr_plan_fingerprint = dt_plan_fingerprint t, dr_node_id = dt_node_id t, dr_dispatch_sequence = dt_dispatch_sequence t,
             dr_ticket_json = js, dr_ticket_sha256 = sha, dr_recorded_at = now\<rparr>]\<rparr>)))"

text \<open>A call computes its payload before it opens the transaction.\<close>

definition prepared :: "'b result \<Rightarrow> ('b \<Rightarrow> (checkpoint_db, 'a) action) \<Rightarrow> (checkpoint_db, 'a) action" where
  "prepared m f w = (case m of Inl e \<Rightarrow> (Inl e, w) | Inr x \<Rightarrow> f x w)"

definition payload_texts :: "json result \<Rightarrow> (string \<times> string) result" where
  "payload_texts m = bindE m (\<lambda>p. bindE (check_text p) (\<lambda>js. bindE (check_digest p) (\<lambda>sha. Inr (js, sha))))"

definition record_dispatch :: "db_env \<Rightarrow> dispatch_ticket \<Rightarrow> (checkpoint_db, dispatch_ticket) action" where
  "record_dispatch e t = prepared (payload_texts (dispatch_payload t)) (\<lambda>(js, sha). transaction e (insert_dispatch t js sha))"

definition insert_observation :: "observation \<Rightarrow> string \<Rightarrow> string \<Rightarrow> string \<Rightarrow> checkpoint_db \<Rightarrow> (observation \<times> checkpoint_db) result" where
  "insert_observation b js sha now w =
     bindE (require_task (ob_task_id b) w) (\<lambda>_.
     case dispatch_at (ob_task_id b) (ob_plan_fingerprint b) (ob_node_id b) w of
       None \<Rightarrow> raise CE ''OBSERVATION_CHECKPOINT_REQUIRES_DISPATCH''
     | Some dr \<Rightarrow> bindE (bindE (parse_canonical_payload (dr_ticket_json dr) (dr_ticket_sha256 dr) ''DISPATCH'') dispatch_from_payload) (\<lambda>t.
         if ob_node_fingerprint b \<noteq> dt_node_fingerprint t then raise CE ''OBSERVATION_CHECKPOINT_NODE_MISMATCH''
         else if ob_authority_fingerprint b \<noteq> dt_authority_fingerprint t then raise CE ''OBSERVATION_CHECKPOINT_AUTHORITY_MISMATCH''
         else case List.find (\<lambda>r. or_observation_id r = ob_observation_id b) (cd_observations w) of
           Some r \<Rightarrow> bindE (parse_canonical_payload (or_observation_json r) (or_observation_sha256 r) ''OBSERVATION'') (\<lambda>old.
             bindE (check_digest old) (\<lambda>d.
             if d \<noteq> sha then raise CE ''OBSERVATION_CHECKPOINT_IDENTITY_CONFLICT'' else Inr (b, w)))
         | None \<Rightarrow>
             if observation_at (ob_task_id b) (ob_plan_fingerprint b) (ob_node_id b) w \<noteq> None then raise CE ''OBSERVATION_CHECKPOINT_NODE_CONFLICT''
             else Inr (b, append_event (ob_task_id b) (ob_plan_fingerprint b) ''OBSERVATION_RECORDED'' (ob_observation_id b) js sha now
               (w\<lparr>cd_observations := cd_observations w @ [\<lparr>or_observation_id = ob_observation_id b, or_task_id = ob_task_id b,
                 or_plan_fingerprint = ob_plan_fingerprint b, or_node_id = ob_node_id b, or_observation_json = js,
                 or_observation_sha256 = sha, or_recorded_at = now\<rparr>]\<rparr>))))"

definition record_observation :: "db_env \<Rightarrow> observation \<Rightarrow> (checkpoint_db, observation) action" where
  "record_observation e b = prepared (bindE (observation_validate b None None) (\<lambda>_. payload_texts (observation_canonical b)))
     (\<lambda>(js, sha). transaction e (insert_observation b js sha))"

definition cancellations :: "string \<Rightarrow> string \<Rightarrow> checkpoint_db \<Rightarrow> event_row list" where
  "cancellations task_id pf w = filter (\<lambda>r. er_event_type r = ''CANCELLED'') (events_of task_id pf w)"

definition insert_cancellation :: "string \<Rightarrow> string \<Rightarrow> string \<Rightarrow> string \<Rightarrow> string \<Rightarrow> checkpoint_db \<Rightarrow> (unit \<times> checkpoint_db) result" where
  "insert_cancellation task_id pf js sha now w =
     bindE (require_task task_id w) (\<lambda>_.
     bindE (if cancellations task_id pf w = [] then Inr False
       else bindE (parse_canonical_payload (er_payload_json (last (cancellations task_id pf w)))
         (er_payload_sha256 (last (cancellations task_id pf w))) ''CANCELLATION'') (\<lambda>old. bindE (check_text old) (\<lambda>t. Inr (t = js)))) (\<lambda>same.
     Inr ((), if same then w else append_event task_id pf ''CANCELLED'' task_id js sha now w)))"

definition record_cancellation :: "db_env \<Rightarrow> string \<Rightarrow> string \<Rightarrow> string \<Rightarrow> (checkpoint_db, unit) action" where
  "record_cancellation e task_id pf reason_code = prepared
     (bindE (sha256_field CE pf ''plan_fingerprint'') (\<lambda>_.
      if strip reason_code = [] then raise CE ''INVALID_CANCELLATION_REASON''
      else payload_texts (Inr (JObj [(''reason_code'', JStr (strip reason_code))]))))
     (\<lambda>(js, sha). transaction e (insert_cancellation task_id pf js sha))"

section \<open>Loading\<close>

text \<open>One turn of the loop of \<open>verify_event_chain\<close>: the next previous hash, or \<open>None\<close> to return \<open>False\<close>.\<close>

definition chain_step :: "string option \<Rightarrow> event_row \<Rightarrow> string option result" where
  "chain_step prev r = (case prev of None \<Rightarrow> Inr None
   | Some previous_hash \<Rightarrow> (case loads (er_payload_json r) of None \<Rightarrow> Inr None
     | Some payload \<Rightarrow> bindE (check_text payload) (\<lambda>t.
         if t \<noteq> er_payload_json r then Inr None
         else bindE (check_digest payload) (\<lambda>d.
         Inr (if er_payload_sha256 r \<noteq> d \<or> er_previous_hash r \<noteq> previous_hash \<or> er_event_hash r \<noteq> event_hash r then None
           else Some (er_event_hash r))))))"

definition verify_event_chain :: "string \<Rightarrow> string \<Rightarrow> checkpoint_db \<Rightarrow> bool result" where
  "verify_event_chain task_id pf w = bindE (foldE chain_step (Some ZERO_HASH) (events_of task_id pf w)) (\<lambda>h. Inr (h \<noteq> None))"

definition load_dispatch :: "string \<Rightarrow> string \<Rightarrow> (string \<times> dispatch_ticket) list \<Rightarrow> dispatch_row \<Rightarrow> (string \<times> dispatch_ticket) list result" where
  "load_dispatch task_id pf acc r =
     bindE (bindE (parse_canonical_payload (dr_ticket_json r) (dr_ticket_sha256 r) ''DISPATCH'') dispatch_from_payload) (\<lambda>t.
     if dt_task_id t \<noteq> task_id \<or> dt_plan_fingerprint t \<noteq> pf then raise CE ''DISPATCH_CHECKPOINT_SCOPE_MISMATCH''
     else if has acc (dt_node_id t) then raise CE ''DUPLICATE_DISPATCH_CHECKPOINT_NODE''
     else Inr (acc @ [(dt_node_id t, t)]))"

definition load_observation :: "string \<Rightarrow> string \<Rightarrow> (string \<times> dispatch_ticket) list \<Rightarrow> observation_row \<Rightarrow> observation result" where
  "load_observation task_id pf dispatches r =
     bindE (bindE (parse_canonical_payload (or_observation_json r) (or_observation_sha256 r) ''OBSERVATION'') observation_from_payload) (\<lambda>b.
     if ob_task_id b \<noteq> task_id \<or> ob_plan_fingerprint b \<noteq> pf then raise CE ''OBSERVATION_CHECKPOINT_SCOPE_MISMATCH''
     else case map_of dispatches (ob_node_id b) of None \<Rightarrow> raise CE ''OBSERVATION_CHECKPOINT_ORPHANED''
     | Some t \<Rightarrow>
         if ob_node_fingerprint b \<noteq> dt_node_fingerprint t then raise CE ''OBSERVATION_CHECKPOINT_NODE_MISMATCH''
         else if ob_authority_fingerprint b \<noteq> dt_authority_fingerprint t then raise CE ''OBSERVATION_CHECKPOINT_AUTHORITY_MISMATCH''
         else Inr b)"

definition load_cancellation :: "event_row list \<Rightarrow> string option result" where
  "load_cancellation rows = (if rows = [] then Inr None
     else bindE (parse_canonical_payload (er_payload_json (last rows)) (er_payload_sha256 (last rows)) ''CANCELLATION'') (\<lambda>p.
       case p of JObj d \<Rightarrow> (case dict_get d ''reason_code'' JNull of
           JStr r \<Rightarrow> if r = [] then raise CE ''CANCELLATION_CHECKPOINT_INVALID'' else Inr (Some r)
         | _ \<Rightarrow> raise CE ''CANCELLATION_CHECKPOINT_INVALID'')
       | _ \<Rightarrow> raise AttributeError ''get''))"

abbreviation dispatches_of :: "string \<Rightarrow> string \<Rightarrow> checkpoint_db \<Rightarrow> dispatch_row list" where
  "dispatches_of task_id pf w \<equiv> filter (\<lambda>r. dr_task_id r = task_id \<and> dr_plan_fingerprint r = pf) (cd_dispatches w)"

abbreviation observations_of :: "string \<Rightarrow> string \<Rightarrow> checkpoint_db \<Rightarrow> observation_row list" where
  "observations_of task_id pf w \<equiv> filter (\<lambda>r. or_task_id r = task_id \<and> or_plan_fingerprint r = pf) (cd_observations w)"

definition cp_load :: "db_env \<Rightarrow> string \<Rightarrow> string \<Rightarrow> checkpoint_db \<Rightarrow> recovered_state result" where
  "cp_load e task_id pf w =
     bindE (sha256_field CE pf ''plan_fingerprint'') (\<lambda>_.
     case de_fault e (cd_tick w) of Some m \<Rightarrow> raise OperationalError m
     | None \<Rightarrow> if \<not> cd_created w then raise OperationalError ''no such table''
     else bindE (verify_event_chain task_id pf w) (\<lambda>valid.
     if \<not> valid then raise CE ''EXECUTION_CHECKPOINT_EVENT_CHAIN_INVALID''
     else bindE (require_task task_id w) (\<lambda>_.
     bindE (foldE (load_dispatch task_id pf) [] (sort_key dr_dispatch_sequence (dispatches_of task_id pf w))) (\<lambda>ds.
     bindE (mapE (load_observation task_id pf ds) (sort_key or_node_id (observations_of task_id pf w))) (\<lambda>bs.
     bindE (load_cancellation (cancellations task_id pf w)) (\<lambda>reason.
     Inr \<lparr>rs_task_id = task_id, rs_plan_fingerprint = pf, rs_dispatches = map snd ds, rs_observations = bs,
       rs_recovery_required_ticket_ids = map dt_ticket_id (filter (\<lambda>t. dt_node_id t \<notin> ob_node_id ` set bs) (map snd ds)),
       rs_cancellation_reason = reason\<rparr>))))))"

definition max_dispatch_sequence :: "recovered_state \<Rightarrow> int" where
  "max_dispatch_sequence r = (if rs_dispatches r = [] then 0 else Max (set (map dt_dispatch_sequence (rs_dispatches r))))"

definition checkpoint_repository :: "db_env \<Rightarrow> checkpoint_db repository" where
  "checkpoint_repository e = \<lparr>rp_initialize = cp_initialize e, rp_record_dispatch = record_dispatch e, rp_record_observation = record_observation e,
     rp_record_cancellation = record_cancellation e, rp_load = cp_load e\<rparr>"


section \<open>Payloads read back\<close>

lemma finite_norm [simp]: "finite_json (norm_json j) = finite_json j"
  by (induction j rule: norm_json.induct) (auto simp: list_all_iff)

lemma check_text_iff [simp]: "canonical_text e m p = Inr t \<longleftrightarrow> finite_json p \<and> t = dumps p"
  by (auto simp: canonical_text_def)

lemma digest_norm [simp]: "digest (norm_json p) = digest p"
  by (simp add: digest_def dumps_norm_json)

lemma canonical_pass [simp]:
  assumes "finite_json p"
  shows "canonical_text e m p = Inr (dumps p)" "canonical_digest e m p = Inr (digest p)"
  using assms by simp_all

text \<open>A stored payload comes back in its normal form; what comes back has the stored text and digest.\<close>

lemma parse_stored:
  assumes "plain_json p" "finite_json p"
  shows "parse_canonical_payload (dumps p) (digest p) kind = Inr (norm_json p)"
  using assms by (simp add: parse_canonical_payload_def loads_dumps dumps_norm_json)

lemma payload_texts_iff: "payload_texts m = Inr (js, sha) \<longleftrightarrow> (\<exists>p. m = Inr p \<and> finite_json p \<and> js = dumps p \<and> sha = digest p)"
  by (auto simp: payload_texts_def bindE_Inr_iff)

lemma finite_str_list [simp]: "finite_json (str_list xs)" "plain_json (str_list xs)" "norm_json (str_list xs) = str_list xs"
  by (auto simp: str_list_def list_all_iff)

definition ticket_ok :: "dispatch_ticket \<Rightarrow> bool" where
  "ticket_ok t \<longleftrightarrow> ticket_validate t = Inr t \<and> is_sha256_ref (dt_plan_fingerprint t) \<and> is_sha256_ref (dt_node_fingerprint t)
     \<and> is_sha256_ref (dt_authority_fingerprint t) \<and> list_all is_sha256_ref (dt_dependencies t)"

lemma fingerprints_iff: "checked (validate_dispatch_fingerprints t) x = Inr y \<longleftrightarrow> y = x \<and> is_sha256_ref (dt_plan_fingerprint t)
   \<and> is_sha256_ref (dt_node_fingerprint t) \<and> is_sha256_ref (dt_authority_fingerprint t) \<and> list_all is_sha256_ref (dt_dependencies t)"
  by (auto simp: checked_iff validate_dispatch_fingerprints_def list_all_iff)

lemma dispatch_payload_iff: "dispatch_payload t = Inr p \<longleftrightarrow> p = ticket_json t \<and> ticket_ok t"
proof -
  have "(\<exists>u. ticket_validate t = Inr u) \<longleftrightarrow> ticket_validate t = Inr t" using ticket_validate_Inr by blast
  then show ?thesis unfolding dispatch_payload_def bindE_Inr_iff fingerprints_iff ticket_ok_def by blast
qed

lemma ticket_json_ok [simp]: "plain_json (ticket_json t)" "finite_json (ticket_json t)"
  by (simp_all add: ticket_json_def)

definition ticket_fields :: "dispatch_ticket \<Rightarrow> (string \<times> json) list" where
  "ticket_fields t = (case ticket_json t of JObj d \<Rightarrow> d)"

definition normed_ticket :: "dispatch_ticket \<Rightarrow> (string \<times> json) list" where
  "normed_ticket t = map (\<lambda>(k, v). (k, norm_json v)) (sort_key fst (ticket_fields t))"

lemma normed_keys: "same_keys (map (\<lambda>(k, v). (k, norm_json v)) (sort_key fst kvs)) ks \<longleftrightarrow> fst ` set kvs = set ks"
proof -
  have "map fst (map (\<lambda>(k, v). (k, norm_json v)) xs) = map fst xs" for xs :: "(string \<times> json) list" by (simp add: case_prod_unfold)
  then show ?thesis by (simp only: same_keys_def set_map set_sort)
qed

lemma normed_ticket_simps:
  "norm_json (ticket_json t) = JObj (normed_ticket t)" "same_keys (normed_ticket t) DISPATCH_KEYS"
  "dict_get (normed_ticket t) ''ticket_id'' JNull = JStr (dt_ticket_id t)"
  "dict_get (normed_ticket t) ''schema_version'' JNull = JStr (dt_schema_version t)"
  "dict_get (normed_ticket t) ''task_id'' JNull = JStr (dt_task_id t)"
  "dict_get (normed_ticket t) ''plan_fingerprint'' JNull = JStr (dt_plan_fingerprint t)"
  "dict_get (normed_ticket t) ''node_id'' JNull = JStr (dt_node_id t)"
  "dict_get (normed_ticket t) ''node_fingerprint'' JNull = JStr (dt_node_fingerprint t)"
  "dict_get (normed_ticket t) ''authority_fingerprint'' JNull = JStr (dt_authority_fingerprint t)"
  "dict_get (normed_ticket t) ''dependency_observation_fingerprints'' JNull = str_list (dt_dependencies t)"
  "dict_get (normed_ticket t) ''dispatch_sequence'' JNull = JInt (dt_dispatch_sequence t)"
  "dict_get (normed_ticket t) ''execution_level'' JNull = JInt (dt_execution_level t)"
  "dict_get (normed_ticket t) ''dispatch_authorized'' JNull = JBool (dt_dispatch_authorized t)"
proof -
  have d: "distinct (map fst (ticket_fields t))" by (simp add: ticket_fields_def ticket_json_def)
  show "norm_json (ticket_json t) = JObj (normed_ticket t)"
    by (simp add: normed_ticket_def ticket_fields_def ticket_json_def del: sort_key_simps)
  show "same_keys (normed_ticket t) DISPATCH_KEYS"
    unfolding normed_ticket_def normed_keys by (simp add: ticket_fields_def ticket_json_def DISPATCH_KEYS_def insert_commute)
  note g = dict_get_norm [OF d, folded normed_ticket_def]
  show "dict_get (normed_ticket t) ''ticket_id'' JNull = JStr (dt_ticket_id t)"
    "dict_get (normed_ticket t) ''schema_version'' JNull = JStr (dt_schema_version t)"
    "dict_get (normed_ticket t) ''task_id'' JNull = JStr (dt_task_id t)"
    "dict_get (normed_ticket t) ''plan_fingerprint'' JNull = JStr (dt_plan_fingerprint t)"
    "dict_get (normed_ticket t) ''node_id'' JNull = JStr (dt_node_id t)"
    "dict_get (normed_ticket t) ''node_fingerprint'' JNull = JStr (dt_node_fingerprint t)"
    "dict_get (normed_ticket t) ''authority_fingerprint'' JNull = JStr (dt_authority_fingerprint t)"
    "dict_get (normed_ticket t) ''dependency_observation_fingerprints'' JNull = str_list (dt_dependencies t)"
    "dict_get (normed_ticket t) ''dispatch_sequence'' JNull = JInt (dt_dispatch_sequence t)"
    "dict_get (normed_ticket t) ''execution_level'' JNull = JInt (dt_execution_level t)"
    "dict_get (normed_ticket t) ''dispatch_authorized'' JNull = JBool (dt_dispatch_authorized t)"
    unfolding g by (simp_all add: ticket_fields_def ticket_json_def dict_get_def)
qed

lemma sha256_texts:
  assumes "list_all is_sha256_ref xs"
  shows "List.map_filter sha256_text (map JStr xs) = xs" "\<not> list_ex (\<lambda>v. sha256_text v = None) (map JStr xs)"
  using assms by (induction xs) (auto simp: List.map_filter_simps)

lemma ticket_roundtrip:
  assumes "ticket_ok t"
  shows "dispatch_from_payload (norm_json (ticket_json t)) = Inr t"
proof -
  have v: "ticket_validate t = Inr t" "list_all is_sha256_ref (dt_dependencies t)" using assms by (simp_all add: ticket_ok_def)
  have t: "dt_schema_version t = DISPATCH_TICKET_SCHEMA" "dt_dispatch_authorized t" using v(1) by (simp_all add: ticket_validate_def checked_iff)
  have deps: "List.map_filter sha256_text (map JStr (dt_dependencies t)) = dt_dependencies t"
    "\<not> list_ex (\<lambda>v. sha256_text v = None) (map JStr (dt_dependencies t))"
    using sha256_texts [OF v(2)] .
  have eq: "\<lparr>dt_ticket_id = dt_ticket_id t, dt_task_id = dt_task_id t, dt_plan_fingerprint = dt_plan_fingerprint t, dt_node_id = dt_node_id t,
      dt_node_fingerprint = dt_node_fingerprint t, dt_authority_fingerprint = dt_authority_fingerprint t, dt_dependencies = dt_dependencies t,
      dt_dispatch_sequence = dt_dispatch_sequence t, dt_execution_level = dt_execution_level t, dt_schema_version = dt_schema_version t,
      dt_dispatch_authorized = True\<rparr> = t"
    using t(2) by simp
  have "build_ticket (normed_ticket t) (dt_dependencies t) = Inr t"
    using assms v(1) unfolding build_ticket_def normed_ticket_simps py_str.simps int_of_json_def json.case Let_def eq
    by (simp add: eq ticket_ok_def fingerprints_iff [THEN iffD2])
  then show ?thesis
    using deps t unfolding dispatch_from_payload_def normed_ticket_simps json.case str_list_def by (simp add: normed_ticket_simps(2))
qed

text \<open>A Python float that is what its text reads as, and an observation whose costs and output hold such floats only.\<close>

definition genuine_float :: "pyfloat \<Rightarrow> bool" where
  "genuine_float f \<longleftrightarrow> float_ok (float_text f) \<and> float_of_text (float_text f) = f"

definition genuine_cost :: "observation_cost \<Rightarrow> bool" where
  "genuine_cost c \<longleftrightarrow> genuine_float (oc_wall_time_s c) \<and> (case oc_cost_usd c of None \<Rightarrow> True | Some f \<Rightarrow> genuine_float f)"

definition genuine :: "observation \<Rightarrow> bool" where
  "genuine b \<longleftrightarrow> (case ob_cost b of None \<Rightarrow> True | Some c \<Rightarrow> genuine_cost c)
     \<and> (case ob_normalized_output_json b of None \<Rightarrow> True | Some t \<Rightarrow> (case loads t of None \<Rightarrow> True | Some v \<Rightarrow> plain_json v))"

lemma float_ok_finite: "float_ok t \<Longrightarrow> t \<notin> {''nan'', ''inf'', ''-inf''}"
  by (auto simp: float_ok_def parse_number_def int_part_def is_digit_def)

lemma genuine_number [simp]: "genuine_float f \<Longrightarrow> number_of (JFloat (float_text f)) = Some f"
  by (simp add: number_of_def genuine_float_def)

lemma genuine_json: "genuine_float f \<Longrightarrow> plain_json (JFloat (float_text f)) \<and> finite_json (JFloat (float_text f))"
  by (auto simp: genuine_float_def dest: float_ok_finite)

lemma str_json_ok [simp]: "plain_json (str_json x)" "finite_json (str_json x)" "norm_json (str_json x) = str_json x" "opt_text (str_json x) = x"
  "str_json x = JNull \<longleftrightarrow> x = None" "str_json x = str_json y \<longleftrightarrow> x = y"
  by (auto simp: str_json_def opt_text_def split: option.splits)

lemma evidence_json_ok [simp]: "plain_json (evidence_json v)" "finite_json (evidence_json v)"
  by (simp_all add: evidence_json_def)

lemma evidence_roundtrip:
  assumes "evidence_ok v"
  shows "evidence_from_payload (norm_json (evidence_json v)) = Inr v"
proof -
  let ?d = "[(''schema_version'', JStr (ev_schema_version v)), (''requirement'', str_json (ev_requirement v)),
     (''evidence_ref'', JStr (ev_evidence_ref v)), (''evidence_fingerprint'', JStr (ev_evidence_fingerprint v))]"
  let ?n = "map (\<lambda>(k, v). (k, norm_json v)) (sort_key fst ?d)"
  have n: "norm_json (evidence_json v) = JObj ?n" by (simp add: evidence_json_def del: sort_key_simps)
  have k: "same_keys ?n [''schema_version'', ''requirement'', ''evidence_ref'', ''evidence_fingerprint'']" unfolding normed_keys by auto
  have g: "dict_get ?n k JNull = norm_json (dict_get ?d k JNull)" for k by (rule dict_get_norm) simp
  have f: "dict_get ?d ''schema_version'' JNull = JStr (ev_schema_version v)" "dict_get ?d ''requirement'' JNull = str_json (ev_requirement v)"
    "dict_get ?d ''evidence_ref'' JNull = JStr (ev_evidence_ref v)" "dict_get ?d ''evidence_fingerprint'' JNull = JStr (ev_evidence_fingerprint v)"
    by (simp_all add: dict_get_def)
  have "ev_schema_version v = EXECUTION_EVIDENCE_BINDING_SCHEMA" using assms by (simp add: evidence_ok_def)
  with k show ?thesis
    unfolding n evidence_from_payload_def json.case g f using assms by (simp add: evidence_validate_iff evidence_ok_def)
qed

lemma cost_json_ok: "genuine_cost c \<Longrightarrow> plain_json (cost_json c) \<and> finite_json (cost_json c)"
  using genuine_json unfolding genuine_cost_def cost_json_def by (auto split: option.splits)

lemma cost_roundtrip:
  assumes "cost_ok c" "genuine_cost c"
  shows "cost_from_payload (norm_json (cost_json c)) = Inr (Some c)"
proof -
  let ?u = "case oc_cost_usd c of None \<Rightarrow> JNull | Some f \<Rightarrow> JFloat (float_text f)"
  let ?d = "[(''wall_time_s'', JFloat (float_text (oc_wall_time_s c))), (''model_tokens'', JInt (oc_model_tokens c)),
     (''tool_calls'', JInt (oc_tool_calls c)), (''cost_usd'', ?u)]"
  let ?n = "map (\<lambda>(k, v). (k, norm_json v)) (sort_key fst ?d)"
  have n: "norm_json (cost_json c) = JObj ?n" by (simp add: cost_json_def del: sort_key_simps)
  have k: "same_keys ?n [''wall_time_s'', ''model_tokens'', ''tool_calls'', ''cost_usd'']" unfolding normed_keys by auto
  have g: "dict_get ?n k JNull = norm_json (dict_get ?d k JNull)" for k by (rule dict_get_norm) simp
  have f: "dict_get ?d ''wall_time_s'' JNull = JFloat (float_text (oc_wall_time_s c))" "dict_get ?d ''model_tokens'' JNull = JInt (oc_model_tokens c)"
    "dict_get ?d ''tool_calls'' JNull = JInt (oc_tool_calls c)" "dict_get ?d ''cost_usd'' JNull = ?u"
    by (simp_all add: dict_get_def)
  from k show ?thesis
    unfolding n cost_from_payload_def json.case g f using assms
    by (cases "oc_cost_usd c") (simp_all add: cost_number_def cost_count_def cost_ok_def genuine_cost_def)
qed

text \<open>The output is an object in canonical form, so it is its own normal form.\<close>

lemma output_normal:
  assumes "observation_ok b" "genuine b"
  shows "\<exists>v. normalized_output b = Inr v \<and> plain_json v \<and> finite_json v \<and> norm_json v = v
    \<and> (if v = JNull then ob_normalized_output_json b = None else ob_normalized_output_json b = Some (dumps v))"
proof (cases "ob_normalized_output_json b")
  case None
  then show ?thesis by (simp add: normalized_output_def)
next
  case (Some t)
  with assms(1) obtain v d where v: "loads t = Some v" "v = JObj d" "finite_json v" "t = dumps v"
    by (auto simp: observation_ok_def output_check_def normalized_output_json_def split: option.splits json.splits if_splits)
  have p: "plain_json v" using assms(2) Some v(1) by (simp add: genuine_def)
  have "norm_json v = v" using loads_dumps [OF p] v(1,4) by simp
  with p v Some show ?thesis by (auto simp: normalized_output_def)
qed

abbreviation canonical_items :: "observation \<Rightarrow> json \<Rightarrow> (string \<times> json) list" where
  "canonical_items b v \<equiv> (''observation_id'', JStr (ob_observation_id b)) # observation_items b v"

definition normed_observation :: "observation \<Rightarrow> json \<Rightarrow> (string \<times> json) list" where
  "normed_observation b v = map (\<lambda>(k, v). (k, norm_json v)) (sort_key fst (canonical_items b v))"

lemma canonical_distinct: "distinct (map fst (canonical_items b v))"
  by (simp add: observation_items_def)

lemma normed_observation_simps:
  "same_keys (normed_observation b v) OBSERVATION_KEYS"
  "dict_get (normed_observation b v) ''observation_id'' JNull = JStr (ob_observation_id b)"
  "dict_get (normed_observation b v) ''schema_version'' JNull = JStr (ob_schema_version b)"
  "dict_get (normed_observation b v) ''task_id'' JNull = JStr (ob_task_id b)"
  "dict_get (normed_observation b v) ''task_context_fingerprint'' JNull = JStr (ob_task_context_fingerprint b)"
  "dict_get (normed_observation b v) ''plan_fingerprint'' JNull = JStr (ob_plan_fingerprint b)"
  "dict_get (normed_observation b v) ''node_id'' JNull = JStr (ob_node_id b)"
  "dict_get (normed_observation b v) ''node_fingerprint'' JNull = JStr (ob_node_fingerprint b)"
  "dict_get (normed_observation b v) ''authority_fingerprint'' JNull = JStr (ob_authority_fingerprint b)"
  "dict_get (normed_observation b v) ''status'' JNull = JStr (ob_status b)"
  "dict_get (normed_observation b v) ''started_at'' JNull = JStr (ob_started_at b)"
  "dict_get (normed_observation b v) ''finished_at'' JNull = JStr (ob_finished_at b)"
  "dict_get (normed_observation b v) ''normalized_output'' JNull = norm_json v"
  "dict_get (normed_observation b v) ''normalized_output_sha256'' JNull = str_json (normalized_output_sha256 b)"
  "dict_get (normed_observation b v) ''error_class'' JNull = str_json (ob_error_class b)"
  "dict_get (normed_observation b v) ''evidence_bindings'' JNull = JList (map (norm_json \<circ> evidence_json) (ob_evidence_bindings b))"
  "dict_get (normed_observation b v) ''cost'' JNull = norm_json (case ob_cost b of None \<Rightarrow> JNull | Some c \<Rightarrow> cost_json c)"
proof -
  show "same_keys (normed_observation b v) OBSERVATION_KEYS"
    unfolding normed_observation_def normed_keys by (simp add: observation_items_def OBSERVATION_KEYS_def insert_commute)
qed (unfold dict_get_norm [of "canonical_items b v", folded normed_observation_def, OF canonical_distinct],
  simp_all add: observation_items_def dict_get_def)

lemma cost_absent [simp]: "cost_from_payload JNull = Inr None"
  by (simp add: cost_from_payload_def)

lemma observation_roundtrip:
  assumes "observation_validate b None None = Inr b" "genuine b"
  shows "\<exists>p. observation_canonical b = Inr p \<and> plain_json p \<and> finite_json p \<and> observation_from_payload (norm_json p) = Inr b"
proof -
  have ok: "observation_ok b" using assms(1) by (simp add: observation_validate_iff)
  obtain v where v: "normalized_output b = Inr v" "plain_json v" "finite_json v" "norm_json v = v"
      "if v = JNull then ob_normalized_output_json b = None else ob_normalized_output_json b = Some (dumps v)"
    using output_normal [OF ok assms(2)] by blast
  let ?p = "JObj (canonical_items b v)"
  have ev: "list_all evidence_ok (ob_evidence_bindings b)" using ok by (simp add: observation_ok_def evidence_norm_def evidence_set_def)
  then have evs: "mapE evidence_validate (ob_evidence_bindings b) = Inr (ob_evidence_bindings b)"
    "mapE evidence_from_payload (map (norm_json \<circ> evidence_json) (ob_evidence_bindings b)) = Inr (ob_evidence_bindings b)"
    by (auto simp: mapE_Inr_iff list_all_iff evidence_validate_iff evidence_roundtrip list_all2_conv_all_nth)
  have cost: "cost_from_payload (norm_json (case ob_cost b of None \<Rightarrow> JNull | Some c \<Rightarrow> cost_json c)) = Inr (ob_cost b)"
    using ok assms(2) by (cases "ob_cost b") (simp_all add: observation_ok_def genuine_def cost_roundtrip cost_absent)
  have items: "observation_canonical b = Inr ?p"
    using assms(1) v(1) evs(1) ok
    by (auto simp: observation_canonical_def observation_identity_def observation_ok_def cost_validate_iff [THEN iffD2] split: option.splits)
  have "list_all (\<lambda>(k, u). plain_json u \<and> finite_json u) (canonical_items b v)"
    using v(2,3) assms(2) by (auto simp: observation_items_def list_all_iff genuine_def cost_json_ok split: option.splits)
  then have plain: "plain_json ?p" "finite_json ?p" using canonical_distinct [of b v] by (auto simp: list_all_iff)
  have norm: "norm_json ?p = JObj (normed_observation b v)" by (simp add: normed_observation_def del: sort_key_simps)
  have out: "(if v = JNull then Inr None else bindE (check_text v) (\<lambda>t. Inr (Some t))) = Inr (ob_normalized_output_json b)"
    using v(3,5) by auto
  have schema: "ob_schema_version b = EXECUTION_OBSERVATION_SCHEMA" using ok by (simp add: observation_ok_def)
  have build: "build_observation (normed_observation b v) (ob_evidence_bindings b) (ob_cost b) (ob_normalized_output_json b) = b"
    by (simp add: build_observation_def normed_observation_simps)
  have "observation_from_payload (norm_json ?p) = Inr b"
    unfolding norm observation_from_payload_def json.case normed_observation_simps v(4) out evs(2) cost bindE_simps build Let_def assms(1)
    by (simp add: normed_observation_simps schema)
  with items plain show ?thesis by blast
qed


end
