(* ===== verification/Hash_Chain.thy ===== *)
theory Hash_Chain
  imports Field_Checks
begin

text \<open>
  Tamper-evident event tables. \<open>execution_checkpoint.py\<close> and \<open>runtime_writer_lease.py\<close> each keep one: an event holds a canonical
  payload with its digest, the hash of the event before it and a hash over all of its fields. The row type and its
  columns are a parameter, the record \<open>chain\<close>.
\<close>

record 'r chain =
  ch_payload :: "'r \<Rightarrow> string"
  ch_digest :: "'r \<Rightarrow> string"
  ch_previous :: "'r \<Rightarrow> string"
  ch_hash :: "'r \<Rightarrow> string"
  ch_expected :: "'r \<Rightarrow> string"

text \<open>An event with a canonical payload (an object) and its hash, after the event with hash \<open>h\<close>; a chain of such events.\<close>

definition linked :: "'r chain \<Rightarrow> string \<Rightarrow> 'r \<Rightarrow> bool" where
  "linked c h r \<longleftrightarrow> (\<exists>p. plain_json p \<and> finite_json p \<and> (\<exists>d. norm_json p = JObj d) \<and> ch_payload c r = dumps p \<and> ch_digest c r = digest p)
     \<and> ch_previous c r = h \<and> ch_hash c r = ch_expected c r"

fun chained :: "'r chain \<Rightarrow> string \<Rightarrow> 'r list \<Rightarrow> bool" where
  "chained c h [] = True"
| "chained c h (r # rs) = (linked c h r \<and> chained c (ch_hash c r) rs)"

definition tip :: "'r chain \<Rightarrow> string \<Rightarrow> 'r list \<Rightarrow> string" where
  "tip c h rs = (if rs = [] then h else ch_hash c (last rs))"

lemma tip_simps [simp]: "tip c h [] = h" "tip c h (r # rs) = tip c (ch_hash c r) rs"
  by (simp_all add: tip_def)

lemma chained_snoc: "chained c h (rs @ [r]) \<longleftrightarrow> chained c h rs \<and> linked c (tip c h rs) r"
  by (induction rs arbitrary: h) auto

text \<open>A verification loop that carries the hash on over every good event accepts every chain.\<close>

locale chain_verifier =
  fixes c :: "'r chain" and step :: "string option \<Rightarrow> 'r \<Rightarrow> string option result"
  assumes step_linked: "linked c h r \<Longrightarrow> step (Some h) r = Inr (Some (ch_hash c r))"
begin

lemma verifies: "chained c h rs \<Longrightarrow> foldE step (Some h) rs = Inr (Some (tip c h rs))"
  by (induction rs arbitrary: h) (simp_all add: step_linked)

end

end
