(* ===== verification/Checkpoint_Receipts.thy ===== *)
theory Checkpoint_Receipts
  imports Execution_Checkpoint Hash_Chain
begin

text \<open>
  The checkpoint repository of \<open>execution_checkpoint.py\<close> refines a log of receipts: the three tables with their JSON
  texts, digests and hash chain stand for lists of tickets, observations and cancellation reasons. Recording is an
  append to the log under conditions on the log alone, and loading returns what was appended.
\<close>

section \<open>The hash chain\<close>

definition checkpoint_chain :: "event_row chain" where
  "checkpoint_chain = \<lparr>ch_payload = er_payload_json, ch_digest = er_payload_sha256, ch_previous = er_previous_hash,
     ch_hash = er_event_hash, ch_expected = event_hash\<rparr>"

interpretation checkpoints: chain_verifier checkpoint_chain chain_step
proof unfold_locales
  fix h r assume "linked checkpoint_chain h r"
  then obtain p where "plain_json p" "finite_json p" "er_payload_json r = dumps p" "er_payload_sha256 r = digest p" "er_previous_hash r = h" "er_event_hash r = event_hash r"
    by (auto simp: linked_def checkpoint_chain_def)
  then show "chain_step (Some h) r = Inr (Some (ch_hash checkpoint_chain r))"
    by (simp add: checkpoint_chain_def chain_step_def loads_dumps dumps_norm_json)
qed

abbreviation events_sound :: "checkpoint_db \<Rightarrow> bool" where
  "events_sound w \<equiv> \<forall>task_id pf. chained checkpoint_chain ZERO_HASH (events_of task_id pf w)"

lemma verify_sound: "events_sound w \<Longrightarrow> verify_event_chain task_id pf w = Inr True"
  by (simp add: verify_event_chain_def checkpoints.verifies)

definition new_event :: "string \<Rightarrow> string \<Rightarrow> string \<Rightarrow> string \<Rightarrow> string \<Rightarrow> string \<Rightarrow> string \<Rightarrow> checkpoint_db \<Rightarrow> event_row" where
  "new_event task_id pf kind subject js sha now w = (
     let r = \<lparr>er_task_id = task_id, er_plan_fingerprint = pf, er_event_type = kind, er_subject_id = subject, er_payload_json = js,
       er_payload_sha256 = sha, er_previous_hash = tip checkpoint_chain ZERO_HASH (events_of task_id pf w), er_event_hash = [], er_recorded_at = now\<rparr>
     in r\<lparr>er_event_hash := event_hash r\<rparr>)"

lemma append_event_eq: "append_event task_id pf kind subject js sha now w = w\<lparr>cd_events := cd_events w @ [new_event task_id pf kind subject js sha now w]\<rparr>"
  by (simp add: append_event_def new_event_def tip_def checkpoint_chain_def Let_def)

lemma new_event_fields:
  "er_task_id (new_event task_id pf kind subject js sha now w) = task_id" "er_plan_fingerprint (new_event task_id pf kind subject js sha now w) = pf"
  "er_event_type (new_event task_id pf kind subject js sha now w) = kind" "er_payload_json (new_event task_id pf kind subject js sha now w) = js"
  "er_payload_sha256 (new_event task_id pf kind subject js sha now w) = sha"
  by (simp_all add: new_event_def Let_def)

lemma new_event_linked:
  "plain_json p \<Longrightarrow> finite_json p \<Longrightarrow> \<exists>d. norm_json p = JObj d \<Longrightarrow> linked checkpoint_chain (tip checkpoint_chain ZERO_HASH (events_of task_id pf w)) (new_event task_id pf kind subject (dumps p) (digest p) now w)"
  by (auto simp: linked_def checkpoint_chain_def new_event_def Let_def event_hash_def event_json_def)

lemma append_event_sound:
  assumes "events_sound w" "plain_json p" "finite_json p" "\<exists>d. norm_json p = JObj d"
  shows "events_sound (append_event task_id pf kind subject (dumps p) (digest p) now w)"
  using assms new_event_linked [OF assms(2-4)] by (simp add: append_event_eq new_event_fields chained_snoc)

lemma ticket_object: "\<exists>d. norm_json (ticket_json t) = JObj d"
  by (simp add: ticket_json_def)

lemma canonical_object: "observation_canonical b = Inr p \<Longrightarrow> \<exists>d. norm_json p = JObj d"
  by (auto simp: observation_canonical_def)

lemma append_event_tables [simp]: "cd_store (append_event a b c d j s n w) = cd_store w" "cd_created (append_event a b c d j s n w) = cd_created w"
  "cd_dispatches (append_event a b c d j s n w) = cd_dispatches w" "cd_observations (append_event a b c d j s n w) = cd_observations w"
  "cd_tick (append_event a b c d j s n w) = cd_tick w"
  by (simp_all add: append_event_eq)

lemma cancellations_append: "cancellations a b (append_event task_id pf kind subject js sha now w) = (if a = task_id \<and> b = pf \<and> kind = ''CANCELLED''
   then cancellations a b w @ [new_event task_id pf kind subject js sha now w] else cancellations a b w)"
  by (simp add: cancellations_def append_event_eq new_event_fields)

section \<open>The log of receipts\<close>

text \<open>What the tables stand for: the tickets and observations recorded, in the order they were, and for each task and plan
  the reasons of its cancellations.\<close>

record receipts =
  rc_tickets :: "dispatch_ticket list"
  rc_observations :: "observation list"
  rc_reasons :: "string \<times> string \<Rightarrow> string list"

definition ticket_row :: "dispatch_ticket \<Rightarrow> dispatch_row \<Rightarrow> bool" where
  "ticket_row t r \<longleftrightarrow> ticket_ok t \<and> r = \<lparr>dr_ticket_id = dt_ticket_id t, dr_task_id = dt_task_id t,
     dr_plan_fingerprint = dt_plan_fingerprint t, dr_node_id = dt_node_id t, dr_dispatch_sequence = dt_dispatch_sequence t,
     dr_ticket_json = dumps (ticket_json t), dr_ticket_sha256 = digest (ticket_json t), dr_recorded_at = dr_recorded_at r\<rparr>"

definition observation_stored :: "observation \<Rightarrow> observation_row \<Rightarrow> bool" where
  "observation_stored b r \<longleftrightarrow> observation_validate b None None = Inr b \<and> genuine b \<and> (\<exists>p. observation_canonical b = Inr p
     \<and> r = \<lparr>or_observation_id = ob_observation_id b, or_task_id = ob_task_id b, or_plan_fingerprint = ob_plan_fingerprint b,
       or_node_id = ob_node_id b, or_observation_json = dumps p, or_observation_sha256 = digest p, or_recorded_at = or_recorded_at r\<rparr>)"

abbreviation reason_json :: "string \<Rightarrow> json" where
  "reason_json reason \<equiv> JObj [(''reason_code'', JStr reason)]"

definition reason_stored :: "string \<Rightarrow> event_row \<Rightarrow> bool" where
  "reason_stored reason r \<longleftrightarrow> reason \<noteq> [] \<and> strip reason = reason \<and> er_payload_json r = dumps (reason_json reason)
     \<and> er_payload_sha256 r = digest (reason_json reason)"

definition settled_by :: "dispatch_ticket list \<Rightarrow> observation \<Rightarrow> bool" where
  "settled_by ts b \<longleftrightarrow> (\<exists>t \<in> set ts. dt_task_id t = ob_task_id b \<and> dt_plan_fingerprint t = ob_plan_fingerprint b \<and> dt_node_id t = ob_node_id b
     \<and> dt_node_fingerprint t = ob_node_fingerprint b \<and> dt_authority_fingerprint t = ob_authority_fingerprint b)"

abbreviation ticket_key :: "dispatch_ticket \<Rightarrow> string \<times> string \<times> string" where
  "ticket_key t \<equiv> (dt_task_id t, dt_plan_fingerprint t, dt_node_id t)"

abbreviation observation_key :: "observation \<Rightarrow> string \<times> string \<times> string" where
  "observation_key b \<equiv> (ob_task_id b, ob_plan_fingerprint b, ob_node_id b)"

text \<open>What the uniqueness constraints and the checks of the repository ensure of a log.\<close>

definition wf_receipts :: "receipts \<Rightarrow> bool" where
  "wf_receipts A \<longleftrightarrow> distinct (map ticket_key (rc_tickets A)) \<and> distinct (map dt_ticket_id (rc_tickets A))
     \<and> distinct (map observation_key (rc_observations A)) \<and> distinct (map ob_observation_id (rc_observations A))
     \<and> list_all (settled_by (rc_tickets A)) (rc_observations A) \<and> (\<forall>k. \<forall>reason \<in> set (rc_reasons A k). reason \<noteq> [] \<and> strip reason = reason)"

definition mirrors :: "receipts \<Rightarrow> checkpoint_db \<Rightarrow> bool" where
  "mirrors A w \<longleftrightarrow> list_all2 ticket_row (rc_tickets A) (cd_dispatches w)
     \<and> list_all2 observation_stored (rc_observations A) (cd_observations w)
     \<and> (\<forall>task_id pf. list_all2 reason_stored (rc_reasons A (task_id, pf)) (cancellations task_id pf w))
     \<and> events_sound w \<and> wf_receipts A"

lemma wf_receiptsD:
  assumes "wf_receipts A"
  shows "distinct (map ticket_key (rc_tickets A))" "distinct (map dt_ticket_id (rc_tickets A))" "distinct (map observation_key (rc_observations A))"
    "list_all (settled_by (rc_tickets A)) (rc_observations A)" "distinct (map ob_observation_id (rc_observations A))"
    "\<And>k reason. reason \<in> set (rc_reasons A k) \<Longrightarrow> reason \<noteq> [] \<and> strip reason = reason"
  using assms unfolding wf_receipts_def by blast+

lemma mirrorsD:
  assumes "mirrors A w"
  shows "list_all2 ticket_row (rc_tickets A) (cd_dispatches w)" "list_all2 observation_stored (rc_observations A) (cd_observations w)"
    "list_all2 reason_stored (rc_reasons A (task_id, pf)) (cancellations task_id pf w)" "events_sound w"
    "distinct (map ticket_key (rc_tickets A))" "distinct (map dt_ticket_id (rc_tickets A))" "distinct (map observation_key (rc_observations A))"
    "list_all (settled_by (rc_tickets A)) (rc_observations A)" "wf_receipts A"
  using assms wf_receiptsD unfolding mirrors_def by blast+

subsection \<open>Rows and what they hold\<close>

lemma find_rel: "list_all2 R xs ys \<Longrightarrow> (\<And>x y. R x y \<Longrightarrow> S x = T y) \<Longrightarrow> rel_option R (List.find S xs) (List.find T ys)"
  by (induction rule: list_all2_induct) auto

lemma filter_rel: "list_all2 R xs ys \<Longrightarrow> (\<And>x y. R x y \<Longrightarrow> S x = T y) \<Longrightarrow> list_all2 R (filter S xs) (filter T ys)"
  by (induction rule: list_all2_induct) auto

lemma sort_rel:
  assumes "list_all2 R xs ys" "\<And>x y. R x y \<Longrightarrow> f x = g y"
  shows "list_all2 R (sort_key f xs) (sort_key g ys)"
  using assms(1)
proof (induction rule: list_all2_induct)
  case (Cons x xs y ys)
  have "list_all2 R (insort_key f x as) (insort_key g y bs)" if "list_all2 R as bs" for as bs
    using that by (induction rule: list_all2_induct) (use assms(2) Cons.hyps(1) in auto)
  with Cons.IH show ?case by simp
qed simp

lemma last_rel:
  assumes "list_all2 R xs ys" "xs \<noteq> []"
  shows "R (last xs) (last ys)"
proof -
  have "ys \<noteq> []" using assms by auto
  with assms show ?thesis by (simp add: last_conv_nth list_all2_conv_all_nth)
qed

lemma ticket_row_fields:
  assumes "ticket_row t r"
  shows "dr_ticket_id r = dt_ticket_id t" "dr_task_id r = dt_task_id t" "dr_plan_fingerprint r = dt_plan_fingerprint t"
    "dr_node_id r = dt_node_id t" "dr_dispatch_sequence r = dt_dispatch_sequence t"
    "parse_canonical_payload (dr_ticket_json r) (dr_ticket_sha256 r) kind = Inr (norm_json (ticket_json t))"
    "dispatch_from_payload (norm_json (ticket_json t)) = Inr t"
proof -
  have r: "r = \<lparr>dr_ticket_id = dt_ticket_id t, dr_task_id = dt_task_id t, dr_plan_fingerprint = dt_plan_fingerprint t,
     dr_node_id = dt_node_id t, dr_dispatch_sequence = dt_dispatch_sequence t, dr_ticket_json = dumps (ticket_json t),
     dr_ticket_sha256 = digest (ticket_json t), dr_recorded_at = dr_recorded_at r\<rparr>" and t: "ticket_ok t"
    using assms by (simp_all add: ticket_row_def)
  show "dr_ticket_id r = dt_ticket_id t" "dr_task_id r = dt_task_id t" "dr_plan_fingerprint r = dt_plan_fingerprint t"
    "dr_node_id r = dt_node_id t" "dr_dispatch_sequence r = dt_dispatch_sequence t"
    by (subst r, simp)+
  show "parse_canonical_payload (dr_ticket_json r) (dr_ticket_sha256 r) kind = Inr (norm_json (ticket_json t))"
    by (subst r, subst (2) r) (simp add: parse_stored)
  show "dispatch_from_payload (norm_json (ticket_json t)) = Inr t" by (rule ticket_roundtrip [OF t])
qed

lemma observation_stored_fields:
  assumes "observation_stored b r"
  shows "or_observation_id r = ob_observation_id b" "or_task_id r = ob_task_id b" "or_plan_fingerprint r = ob_plan_fingerprint b"
    "or_node_id r = ob_node_id b"
    "\<exists>p. observation_canonical b = Inr p \<and> finite_json p \<and> parse_canonical_payload (or_observation_json r) (or_observation_sha256 r) kind = Inr (norm_json p)
      \<and> observation_from_payload (norm_json p) = Inr b"
proof -
  obtain p where b: "observation_validate b None None = Inr b" "genuine b" "observation_canonical b = Inr p"
    and r: "r = \<lparr>or_observation_id = ob_observation_id b, or_task_id = ob_task_id b, or_plan_fingerprint = ob_plan_fingerprint b,
       or_node_id = ob_node_id b, or_observation_json = dumps p, or_observation_sha256 = digest p, or_recorded_at = or_recorded_at r\<rparr>"
    using assms by (auto simp: observation_stored_def)
  show "or_observation_id r = ob_observation_id b" "or_task_id r = ob_task_id b" "or_plan_fingerprint r = ob_plan_fingerprint b"
    "or_node_id r = ob_node_id b"
    by (subst r, simp)+
  have p: "plain_json p" "finite_json p" "observation_from_payload (norm_json p) = Inr b"
    using observation_roundtrip [OF b(1,2)] b(3) by auto
  have "parse_canonical_payload (or_observation_json r) (or_observation_sha256 r) kind = Inr (norm_json p)"
    by (subst r, subst (2) r) (simp add: parse_stored p)
  with b(3) p show "\<exists>p. observation_canonical b = Inr p \<and> finite_json p
      \<and> parse_canonical_payload (or_observation_json r) (or_observation_sha256 r) kind = Inr (norm_json p) \<and> observation_from_payload (norm_json p) = Inr b"
    by blast
qed

lemma reason_norm: "norm_json (reason_json reason) = reason_json reason"
  by simp

lemma reason_stored_parse:
  "reason_stored reason r \<Longrightarrow> parse_canonical_payload (er_payload_json r) (er_payload_sha256 r) kind = Inr (reason_json reason)"
  using parse_stored [of "reason_json reason" kind] by (simp add: reason_stored_def)

lemma reason_text_inject: "dumps (reason_json a) = dumps (reason_json b) \<longleftrightarrow> a = b"
  using dumps_inject [of "reason_json a" "reason_json b"] by simp

subsection \<open>Transactions\<close>

abbreviation ticked :: "checkpoint_db \<Rightarrow> checkpoint_db" where
  "ticked w \<equiv> w\<lparr>cd_tick := Suc (cd_tick w)\<rparr>"

definition quiet :: "db_env \<Rightarrow> checkpoint_db \<Rightarrow> bool" where
  "quiet e w \<longleftrightarrow> de_fault e (cd_tick w) = None \<and> cd_created w"

lemma transaction_quiet: "quiet e w \<Longrightarrow> transaction e f w = (case f (utc_now_text (de_clock e (cd_tick w))) (ticked w) of
   Inl x \<Rightarrow> (Inl x, ticked w) | Inr (a, w') \<Rightarrow> (Inr a, w'))"
  by (simp add: transaction_def quiet_def Let_def)

lemma transaction_cases:
  assumes "transaction e f w = (r, w')"
  obtains x where "r = Inl x" "w' = ticked w" | a where "r = Inr a" "f (utc_now_text (de_clock e (cd_tick w))) (ticked w) = Inr (a, w')"
  using assms by (auto simp: transaction_def Let_def split: option.splits if_splits sum.splits prod.splits)

lemma mirrors_tick [simp]: "mirrors A (w\<lparr>cd_tick := k\<rparr>) = mirrors A w"
  by (simp add: mirrors_def cancellations_def)

lemma require_task_iff [simp]: "require_task task_id w = Inr u \<longleftrightarrow> find_task (cd_store w) task_id \<noteq> None"
  by (simp add: require_task_def)

lemma require_task_pass: "find_task (cd_store w) task_id \<noteq> None \<Longrightarrow> require_task task_id w = Inr ()"
  by simp

text \<open>The pattern of the three recording operations: prepare a payload, then insert in a transaction. Here \<open>f\<close> is the
  insertion, \<open>adm\<close> its condition on the log, \<open>g\<close> its effect and \<open>B\<close> the log afterwards.\<close>

lemma recording_rule:
  assumes m: "mirrors A w" and r: "prepared m (\<lambda>x. transaction e (f x)) w = (r, w')"
    and payload: "adm \<Longrightarrow> \<exists>x. m = Inr x"
    and ins: "\<And>x now v u v'. m = Inr x \<Longrightarrow> mirrors A v \<Longrightarrow>
      f x now v = Inr (u, v') \<longleftrightarrow> find_task (cd_store v) task_id \<noteq> None \<and> adm \<and> u = a \<and> v' = g now v"
    and upd: "\<And>now v. adm \<Longrightarrow> mirrors A v \<Longrightarrow> mirrors B (g now v) \<and> cd_store (g now v) = cd_store v \<and> cd_created (g now v) = cd_created v"
  shows "(\<exists>x. r = Inl x) \<and> mirrors A w' \<or> r = Inr a \<and> adm \<and> mirrors B w'"
    "cd_store w' = cd_store w \<and> cd_created w' = cd_created w"
    "quiet e w \<Longrightarrow> r = Inr a \<longleftrightarrow> find_task (cd_store w) task_id \<noteq> None \<and> adm"
proof -
  let ?now = "utc_now_text (de_clock e (cd_tick w))"
  have tick: "mirrors A (ticked w)" using m by simp
  have "((\<exists>x. r = Inl x) \<and> mirrors A w' \<or> r = Inr a \<and> adm \<and> mirrors B w') \<and> (cd_store w' = cd_store w \<and> cd_created w' = cd_created w)
    \<and> (quiet e w \<longrightarrow> (r = Inr a \<longleftrightarrow> find_task (cd_store w) task_id \<noteq> None \<and> adm))"
  proof (cases m)
    case (Inl x)
    with payload r m show ?thesis by (auto simp: prepared_def)
  next
    case (Inr x)
    then have "transaction e (f x) w = (r, w')" using r by (simp add: prepared_def)
    then show ?thesis
    proof (cases rule: transaction_cases)
      case (1 y)
      have "\<not> (find_task (cd_store w) task_id \<noteq> None \<and> adm)" if "quiet e w"
        using \<open>transaction e (f x) w = (r, w')\<close> 1 that ins [OF Inr tick, of ?now a "g ?now (ticked w)"] by (auto simp: transaction_quiet)
      with 1 tick show ?thesis by simp
    next
      case (2 b)
      with ins [OF Inr tick, of ?now b w'] have i: "find_task (cd_store w) task_id \<noteq> None" "adm" "b = a" "w' = g ?now (ticked w)" by simp_all
      with upd [OF i(2) tick, of ?now] 2(1) show ?thesis by simp
    qed
  qed
  then show "(\<exists>x. r = Inl x) \<and> mirrors A w' \<or> r = Inr a \<and> adm \<and> mirrors B w'"
    "cd_store w' = cd_store w \<and> cd_created w' = cd_created w"
    "quiet e w \<Longrightarrow> r = Inr a \<longleftrightarrow> find_task (cd_store w) task_id \<noteq> None \<and> adm" by blast+
qed

subsection \<open>Recording a ticket\<close>

text \<open>A ticket id that is already recorded is accepted again with the same payload digest only; otherwise its node must
  be new.\<close>

definition admits_ticket :: "receipts \<Rightarrow> dispatch_ticket \<Rightarrow> bool" where
  "admits_ticket A t \<longleftrightarrow> ticket_ok t \<and> (case List.find (\<lambda>u. dt_ticket_id u = dt_ticket_id t) (rc_tickets A) of
     Some u \<Rightarrow> digest (ticket_json u) = digest (ticket_json t)
   | None \<Rightarrow> ticket_key t \<notin> ticket_key ` set (rc_tickets A) \<and> sqlite_int (dt_dispatch_sequence t))"

definition add_ticket :: "dispatch_ticket \<Rightarrow> receipts \<Rightarrow> receipts" where
  "add_ticket t A = (if dt_ticket_id t \<in> dt_ticket_id ` set (rc_tickets A) then A else A\<lparr>rc_tickets := rc_tickets A @ [t]\<rparr>)"

lemma find_None_image: "List.find (\<lambda>x. f x = y) xs = None \<longleftrightarrow> y \<notin> f ` set xs"
  by (auto simp: find_None_iff image_iff)

lemma dispatch_at_rel:
  assumes "mirrors A w"
  shows "rel_option ticket_row (List.find (\<lambda>u. ticket_key u = (task_id, pf, i)) (rc_tickets A)) (dispatch_at task_id pf i w)"
  unfolding dispatch_at_def by (rule find_rel [OF mirrorsD(1) [OF assms]]) (simp add: ticket_row_fields)

lemma dispatch_at_None: "mirrors A w \<Longrightarrow> dispatch_at task_id pf i w = None \<longleftrightarrow> (task_id, pf, i) \<notin> ticket_key ` set (rc_tickets A)"
  using dispatch_at_rel [of A w task_id pf i] unfolding find_None_image [symmetric]
  by (cases "dispatch_at task_id pf i w") (auto simp: option_rel_Some2)

definition dispatch_inserted :: "dispatch_ticket \<Rightarrow> string \<Rightarrow> checkpoint_db \<Rightarrow> checkpoint_db" where
  "dispatch_inserted t now w = append_event (dt_task_id t) (dt_plan_fingerprint t) ''DISPATCH_RECORDED'' (dt_ticket_id t)
     (dumps (ticket_json t)) (digest (ticket_json t)) now (w\<lparr>cd_dispatches := cd_dispatches w @ [\<lparr>dr_ticket_id = dt_ticket_id t,
       dr_task_id = dt_task_id t, dr_plan_fingerprint = dt_plan_fingerprint t, dr_node_id = dt_node_id t,
       dr_dispatch_sequence = dt_dispatch_sequence t, dr_ticket_json = dumps (ticket_json t), dr_ticket_sha256 = digest (ticket_json t),
       dr_recorded_at = now\<rparr>]\<rparr>)"

lemma insert_dispatch_iff:
  assumes "mirrors A w" "ticket_ok t"
  shows "insert_dispatch t (dumps (ticket_json t)) (digest (ticket_json t)) now w = Inr (u, w') \<longleftrightarrow>
    find_task (cd_store w) (dt_task_id t) \<noteq> None \<and> admits_ticket A t \<and> u = t
    \<and> w' = (if dt_ticket_id t \<in> dt_ticket_id ` set (rc_tickets A) then w else dispatch_inserted t now w)"
proof -
  have rel: "rel_option ticket_row (List.find (\<lambda>u. dt_ticket_id u = dt_ticket_id t) (rc_tickets A)) (List.find (\<lambda>r. dr_ticket_id r = dt_ticket_id t) (cd_dispatches w))"
    by (rule find_rel [OF mirrorsD(1) [OF assms(1)]]) (simp add: ticket_row_fields)
  show ?thesis
  proof (cases "List.find (\<lambda>u. dt_ticket_id u = dt_ticket_id t) (rc_tickets A)")
    case None
    with rel have "List.find (\<lambda>r. dr_ticket_id r = dt_ticket_id t) (cd_dispatches w) = None" by simp
    moreover from None have "dt_ticket_id t \<notin> dt_ticket_id ` set (rc_tickets A)" by (simp add: find_None_image)
    ultimately show ?thesis
      using None assms(2) by (auto simp: insert_dispatch_def bindE_Inr_iff admits_ticket_def dispatch_at_None [OF assms(1)] dispatch_inserted_def)
  next
    case (Some v)
    with rel obtain r where r: "List.find (\<lambda>r. dr_ticket_id r = dt_ticket_id t) (cd_dispatches w) = Some r" "ticket_row v r"
      by (auto simp: option_rel_Some1)
    from Some have "dt_ticket_id t \<in> dt_ticket_id ` set (rc_tickets A)" by (metis find_None_image option.distinct(1))
    with Some r(1) assms(2) ticket_row_fields(6) [OF r(2)] show ?thesis
      by (auto simp: insert_dispatch_def bindE_Inr_iff admits_ticket_def)
  qed
qed

lemma dispatch_inserted_mirrors:
  assumes "mirrors A w" "ticket_ok t" "dt_ticket_id t \<notin> dt_ticket_id ` set (rc_tickets A)" "ticket_key t \<notin> ticket_key ` set (rc_tickets A)"
  shows "mirrors (A\<lparr>rc_tickets := rc_tickets A @ [t]\<rparr>) (dispatch_inserted t now w)"
proof -
  note m = mirrorsD [OF assms(1)]
  have "events_sound (w\<lparr>cd_dispatches := x\<rparr>)" for x using m(4) by simp
  from append_event_sound [OF this] have "events_sound (dispatch_inserted t now w)"
    by (simp add: dispatch_inserted_def ticket_object)
  moreover have "cancellations a b (dispatch_inserted t now w) = cancellations a b w" for a b
    by (simp add: dispatch_inserted_def cancellations_append) (simp add: cancellations_def)
  moreover have "wf_receipts (A\<lparr>rc_tickets := rc_tickets A @ [t]\<rparr>)"
    using wf_receiptsD [OF m(9)] assms(3,4) by (auto simp: wf_receipts_def list_all_iff settled_by_def)
  moreover have "list_all2 ticket_row (rc_tickets A @ [t]) (cd_dispatches (dispatch_inserted t now w))"
    using m(1) assms(2) by (simp add: dispatch_inserted_def list_all2_appendI ticket_row_def)
  ultimately show ?thesis
    using m(2,3) by (simp add: mirrors_def) (simp add: dispatch_inserted_def)
qed

lemma admits_new_ticket: "admits_ticket A t \<Longrightarrow> dt_ticket_id t \<notin> dt_ticket_id ` set (rc_tickets A) \<Longrightarrow> ticket_key t \<notin> ticket_key ` set (rc_tickets A)"
  by (subst (asm) find_None_image [symmetric]) (simp add: admits_ticket_def)

lemma record_dispatch_mirrors:
  assumes "mirrors A w" "record_dispatch e t w = (r, w')"
  shows "(\<exists>x. r = Inl x) \<and> mirrors A w' \<or> r = Inr t \<and> admits_ticket A t \<and> mirrors (add_ticket t A) w'"
    "cd_store w' = cd_store w \<and> cd_created w' = cd_created w"
    "quiet e w \<Longrightarrow> r = Inr t \<longleftrightarrow> find_task (cd_store w) (dt_task_id t) \<noteq> None \<and> admits_ticket A t"
proof -
  let ?g = "\<lambda>now v. if dt_ticket_id t \<in> dt_ticket_id ` set (rc_tickets A) then v else dispatch_inserted t now v"
  have pay: "payload_texts (dispatch_payload t) = Inr (js, sha) \<longleftrightarrow> ticket_ok t \<and> js = dumps (ticket_json t) \<and> sha = digest (ticket_json t)" for js sha
    by (auto simp: payload_texts_iff dispatch_payload_iff)
  have p: "prepared (payload_texts (dispatch_payload t)) (\<lambda>x. transaction e (case x of (js, sha) \<Rightarrow> insert_dispatch t js sha)) w = (r, w')"
    using assms(2) by (simp add: record_dispatch_def case_prod_unfold)
  have ins: "(case x of (js, sha) \<Rightarrow> insert_dispatch t js sha) now v = Inr (u, v') \<longleftrightarrow>
      find_task (cd_store v) (dt_task_id t) \<noteq> None \<and> admits_ticket A t \<and> u = t \<and> v' = ?g now v"
    if "payload_texts (dispatch_payload t) = Inr x" "mirrors A v" for x now v u v'
    using that insert_dispatch_iff [OF that(2), of t now u v'] by (cases x) (simp add: pay)
  have upd: "mirrors (add_ticket t A) (?g now v) \<and> cd_store (?g now v) = cd_store v \<and> cd_created (?g now v) = cd_created v"
    if "admits_ticket A t" "mirrors A v" for now v
    using that dispatch_inserted_mirrors [OF that(2), of t now] admits_new_ticket [OF that(1)]
    by (auto simp: add_ticket_def admits_ticket_def) (simp_all add: dispatch_inserted_def)
  have adm: "\<exists>x. payload_texts (dispatch_payload t) = Inr x" if "admits_ticket A t" using that pay by (auto simp: admits_ticket_def)
  note R = recording_rule [OF assms(1) p adm ins upd]
  show "(\<exists>x. r = Inl x) \<and> mirrors A w' \<or> r = Inr t \<and> admits_ticket A t \<and> mirrors (add_ticket t A) w'"
    "cd_store w' = cd_store w \<and> cd_created w' = cd_created w"
    "quiet e w \<Longrightarrow> r = Inr t \<longleftrightarrow> find_task (cd_store w) (dt_task_id t) \<noteq> None \<and> admits_ticket A t"
    by (rule R; assumption)+
qed

subsection \<open>Recording an observation\<close>

definition unrepeated :: "receipts \<Rightarrow> observation \<Rightarrow> bool" where
  "unrepeated A b \<longleftrightarrow> (case List.find (\<lambda>u. ob_observation_id u = ob_observation_id b) (rc_observations A) of
     Some u \<Rightarrow> observation_fingerprint u = observation_fingerprint b
   | None \<Rightarrow> observation_key b \<notin> observation_key ` set (rc_observations A))"

definition admits_observation :: "receipts \<Rightarrow> observation \<Rightarrow> bool" where
  "admits_observation A b \<longleftrightarrow> observation_validate b None None = Inr b \<and> settled_by (rc_tickets A) b \<and> unrepeated A b"

definition add_observation :: "observation \<Rightarrow> receipts \<Rightarrow> receipts" where
  "add_observation b A = (if ob_observation_id b \<in> ob_observation_id ` set (rc_observations A) then A
     else A\<lparr>rc_observations := rc_observations A @ [b]\<rparr>)"

lemma observation_fingerprint_canonical: "observation_canonical b = Inr p \<Longrightarrow> finite_json p \<Longrightarrow> observation_fingerprint b = Inr (digest p)"
  by (auto simp: observation_canonical_def observation_fingerprint_def bindE_Inr_iff)

lemma settled_find:
  assumes "distinct (map ticket_key ts)" "List.find (\<lambda>u. ticket_key u = observation_key b) ts = Some t"
  shows "settled_by ts b \<longleftrightarrow> ob_node_fingerprint b = dt_node_fingerprint t \<and> ob_authority_fingerprint b = dt_authority_fingerprint t"
proof -
  have t: "t \<in> set ts" "ticket_key t = observation_key b" using assms(2) by (auto simp: find_Some_iff)
  then have u: "u = t" if "u \<in> set ts" "ticket_key u = observation_key b" for u
    using assms(1) that by (metis (no_types, lifting) distinct_map inj_onD)
  show ?thesis
  proof
    assume "settled_by ts b"
    then obtain v where "v \<in> set ts" "ticket_key v = observation_key b"
      and f: "dt_node_fingerprint v = ob_node_fingerprint b" "dt_authority_fingerprint v = ob_authority_fingerprint b"
      unfolding settled_by_def by blast
    then have "v = t" by (intro u)
    with f show "ob_node_fingerprint b = dt_node_fingerprint t \<and> ob_authority_fingerprint b = dt_authority_fingerprint t" by simp
  next
    assume "ob_node_fingerprint b = dt_node_fingerprint t \<and> ob_authority_fingerprint b = dt_authority_fingerprint t"
    with t show "settled_by ts b" unfolding settled_by_def by (intro bexI [of _ t]) simp_all
  qed
qed

lemma settled_none: "List.find (\<lambda>u. ticket_key u = observation_key b) ts = None \<Longrightarrow> \<not> settled_by ts b"
  by (auto simp: find_None_iff settled_by_def)

lemma observation_at_None:
  assumes "mirrors A w"
  shows "observation_at task_id pf i w = None \<longleftrightarrow> (task_id, pf, i) \<notin> observation_key ` set (rc_observations A)"
proof -
  have "rel_option observation_stored (List.find (\<lambda>u. observation_key u = (task_id, pf, i)) (rc_observations A)) (observation_at task_id pf i w)"
    unfolding observation_at_def by (rule find_rel [OF mirrorsD(2) [OF assms]]) (simp add: observation_stored_fields)
  then show ?thesis unfolding find_None_image [symmetric]
    by (cases "observation_at task_id pf i w") (auto simp: option_rel_Some2)
qed

definition observation_inserted :: "observation \<Rightarrow> json \<Rightarrow> string \<Rightarrow> checkpoint_db \<Rightarrow> checkpoint_db" where
  "observation_inserted b p now w = append_event (ob_task_id b) (ob_plan_fingerprint b) ''OBSERVATION_RECORDED'' (ob_observation_id b)
     (dumps p) (digest p) now (w\<lparr>cd_observations := cd_observations w @ [\<lparr>or_observation_id = ob_observation_id b,
       or_task_id = ob_task_id b, or_plan_fingerprint = ob_plan_fingerprint b, or_node_id = ob_node_id b,
       or_observation_json = dumps p, or_observation_sha256 = digest p, or_recorded_at = now\<rparr>]\<rparr>)"

lemma insert_observation_new:
  assumes "mirrors A w" "observation_canonical b = Inr p" "finite_json p"
  shows "(case List.find (\<lambda>r. or_observation_id r = ob_observation_id b) (cd_observations w) of
       Some r \<Rightarrow> bindE (parse_canonical_payload (or_observation_json r) (or_observation_sha256 r) ''OBSERVATION'') (\<lambda>old.
         bindE (check_digest old) (\<lambda>d. if d \<noteq> digest p then raise CE ''OBSERVATION_CHECKPOINT_IDENTITY_CONFLICT'' else Inr (b, w)))
     | None \<Rightarrow> if observation_at (ob_task_id b) (ob_plan_fingerprint b) (ob_node_id b) w \<noteq> None then raise CE ''OBSERVATION_CHECKPOINT_NODE_CONFLICT''
         else Inr (b, observation_inserted b p now w)) = Inr (c, w')
   \<longleftrightarrow> unrepeated A b \<and> c = b \<and> w' = (if ob_observation_id b \<in> ob_observation_id ` set (rc_observations A) then w else observation_inserted b p now w)"
proof -
  have rel: "rel_option observation_stored (List.find (\<lambda>u. ob_observation_id u = ob_observation_id b) (rc_observations A))
      (List.find (\<lambda>r. or_observation_id r = ob_observation_id b) (cd_observations w))"
    by (rule find_rel [OF mirrorsD(2) [OF assms(1)]]) (simp add: observation_stored_fields)
  show ?thesis
  proof (cases "List.find (\<lambda>u. ob_observation_id u = ob_observation_id b) (rc_observations A)")
    case None
    with rel have "List.find (\<lambda>r. or_observation_id r = ob_observation_id b) (cd_observations w) = None" by simp
    moreover from None have "ob_observation_id b \<notin> ob_observation_id ` set (rc_observations A)" by (simp add: find_None_image)
    ultimately show ?thesis using None by (auto simp: unrepeated_def observation_at_None [OF assms(1)])
  next
    case (Some u)
    with rel obtain r where r: "List.find (\<lambda>r. or_observation_id r = ob_observation_id b) (cd_observations w) = Some r" "observation_stored u r"
      by (auto simp: option_rel_Some1)
    from observation_stored_fields(5) [OF r(2)] obtain q where q: "observation_canonical u = Inr q" "finite_json q"
      "parse_canonical_payload (or_observation_json r) (or_observation_sha256 r) ''OBSERVATION'' = Inr (norm_json q)" by blast
    have f: "observation_fingerprint u = Inr (digest q)" "observation_fingerprint b = Inr (digest p)"
      using observation_fingerprint_canonical q(1,2) assms(2,3) by auto
    from Some have "ob_observation_id b \<in> ob_observation_id ` set (rc_observations A)" by (metis find_None_image option.distinct(1))
    with Some r(1) q(2,3) f show ?thesis by (auto simp: unrepeated_def)
  qed
qed

lemma insert_observation_iff:
  assumes "mirrors A w" "observation_validate b None None = Inr b" "observation_canonical b = Inr p" "finite_json p"
  shows "insert_observation b (dumps p) (digest p) now w = Inr (c, w') \<longleftrightarrow> find_task (cd_store w) (ob_task_id b) \<noteq> None \<and> admits_observation A b \<and> c = b
    \<and> w' = (if ob_observation_id b \<in> ob_observation_id ` set (rc_observations A) then w else observation_inserted b p now w)"
proof (cases "List.find (\<lambda>u. ticket_key u = observation_key b) (rc_tickets A)")
  case None
  with dispatch_at_rel [OF assms(1), of "ob_task_id b" "ob_plan_fingerprint b" "ob_node_id b"]
  have "dispatch_at (ob_task_id b) (ob_plan_fingerprint b) (ob_node_id b) w = None" by simp
  with settled_none [OF None] show ?thesis by (auto simp: insert_observation_def admits_observation_def bindE_Inr_iff)
next
  case (Some t)
  with dispatch_at_rel [OF assms(1), of "ob_task_id b" "ob_plan_fingerprint b" "ob_node_id b"]
  obtain r where r: "dispatch_at (ob_task_id b) (ob_plan_fingerprint b) (ob_node_id b) w = Some r" "ticket_row t r"
    by (auto simp: option_rel_Some1)
  note f = ticket_row_fields(6,7) [OF r(2)] and s = settled_find [OF mirrorsD(5) [OF assms(1)] Some]
  have guards: "(if x \<noteq> x' then raise CE m else if y \<noteq> y' then raise CE m' else z) = Inr u \<longleftrightarrow> (x = x' \<and> y = y') \<and> z = Inr u"
    for x x' y y' m m' :: string and z :: "'b result" and u by simp
  show ?thesis
    unfolding insert_observation_def bindE_Inr_iff r(1) option.case f bindE_simps guards observation_inserted_def [symmetric]
      insert_observation_new [OF assms(1,3,4)] admits_observation_def s using assms(2) by simp
qed

lemma observation_inserted_mirrors:
  assumes "mirrors A w" "observation_validate b None None = Inr b" "genuine b" "observation_canonical b = Inr p" "plain_json p" "finite_json p"
    "observation_key b \<notin> observation_key ` set (rc_observations A)" "settled_by (rc_tickets A) b"
    "ob_observation_id b \<notin> ob_observation_id ` set (rc_observations A)"
  shows "mirrors (A\<lparr>rc_observations := rc_observations A @ [b]\<rparr>) (observation_inserted b p now w)"
proof -
  note m = mirrorsD [OF assms(1)]
  have "events_sound (w\<lparr>cd_observations := x\<rparr>)" for x using m(4) by simp
  from append_event_sound [OF this assms(5,6)] have "events_sound (observation_inserted b p now w)"
    using canonical_object [OF assms(4)] by (simp add: observation_inserted_def)
  moreover have "cancellations x y (observation_inserted b p now w) = cancellations x y w" for x y
    by (simp add: observation_inserted_def cancellations_append) (simp add: cancellations_def)
  moreover have "list_all2 observation_stored (rc_observations A @ [b]) (cd_observations (observation_inserted b p now w))"
    using m(2) assms(2-4) by (simp add: observation_inserted_def list_all2_appendI observation_stored_def)
  moreover have "wf_receipts (A\<lparr>rc_observations := rc_observations A @ [b]\<rparr>)"
    using wf_receiptsD [OF m(9)] assms(7-9) by (auto simp: wf_receipts_def)
  ultimately show ?thesis
    using m(1,3) by (simp add: mirrors_def) (simp add: observation_inserted_def)
qed

lemma admits_new_observation: "admits_observation A b \<Longrightarrow> ob_observation_id b \<notin> ob_observation_id ` set (rc_observations A) \<Longrightarrow>
   observation_key b \<notin> observation_key ` set (rc_observations A)"
  by (subst (asm) find_None_image [symmetric]) (simp add: admits_observation_def unrepeated_def)

lemma record_observation_mirrors:
  assumes "mirrors A w" "record_observation e b w = (r, w')" "genuine b"
  shows "(\<exists>x. r = Inl x) \<and> mirrors A w' \<or> r = Inr b \<and> admits_observation A b \<and> mirrors (add_observation b A) w'"
    "cd_store w' = cd_store w \<and> cd_created w' = cd_created w"
    "quiet e w \<Longrightarrow> r = Inr b \<longleftrightarrow> find_task (cd_store w) (ob_task_id b) \<noteq> None \<and> admits_observation A b"
proof -
  let ?m = "bindE (observation_validate b None None) (\<lambda>_. payload_texts (observation_canonical b))"
  have p: "prepared ?m (\<lambda>x. transaction e (case x of (js, sha) \<Rightarrow> insert_observation b js sha)) w = (r, w')"
    using assms(2) by (simp add: record_observation_def case_prod_unfold)
  have pay: "?m = Inr (js, sha) \<longleftrightarrow> observation_validate b None None = Inr b \<and> (\<exists>q. observation_canonical b = Inr q \<and> finite_json q \<and> js = dumps q \<and> sha = digest q)" for js sha
    by (auto simp: payload_texts_iff bindE_Inr_iff observation_validate_iff)
  obtain q where q: "observation_validate b None None = Inr b \<Longrightarrow> observation_canonical b = Inr q \<and> plain_json q \<and> finite_json q"
    using observation_roundtrip [OF _ assms(3)] by blast
  let ?g = "\<lambda>now v. if ob_observation_id b \<in> ob_observation_id ` set (rc_observations A) then v else observation_inserted b q now v"
  have ins: "(case x of (js, sha) \<Rightarrow> insert_observation b js sha) now v = Inr (u, v') \<longleftrightarrow>
      find_task (cd_store v) (ob_task_id b) \<noteq> None \<and> admits_observation A b \<and> u = b \<and> v' = ?g now v"
    if x: "?m = Inr x" and v: "mirrors A v" for x now v u v'
  proof -
    obtain js sha where "x = (js, sha)" by fastforce
    with x pay have b: "observation_validate b None None = Inr b" and "\<exists>p. observation_canonical b = Inr p \<and> finite_json p \<and> x = (dumps p, digest p)" by auto
    with q have "x = (dumps q, digest q)" by auto
    with insert_observation_iff [OF v b, of q now u v'] q [OF b] show ?thesis by simp
  qed
  have upd: "mirrors (add_observation b A) (?g now v) \<and> cd_store (?g now v) = cd_store v \<and> cd_created (?g now v) = cd_created v"
    if adm: "admits_observation A b" and v: "mirrors A v" for now v
  proof -
    have b: "observation_validate b None None = Inr b" "settled_by (rc_tickets A) b" using adm by (simp_all add: admits_observation_def)
    with v q [OF b(1)] observation_inserted_mirrors [OF v b(1) assms(3), of q now] admits_new_observation [OF adm] show ?thesis
      by (auto simp: add_observation_def) (simp_all add: observation_inserted_def)
  qed
  have adm: "\<exists>x. ?m = Inr x" if "admits_observation A b"
    using that q pay by (auto simp: admits_observation_def) 
  note R = recording_rule [OF assms(1) p adm ins upd]
  show "(\<exists>x. r = Inl x) \<and> mirrors A w' \<or> r = Inr b \<and> admits_observation A b \<and> mirrors (add_observation b A) w'"
    "cd_store w' = cd_store w \<and> cd_created w' = cd_created w"
    "quiet e w \<Longrightarrow> r = Inr b \<longleftrightarrow> find_task (cd_store w) (ob_task_id b) \<noteq> None \<and> admits_observation A b"
    by (rule R; assumption)+
qed

subsection \<open>Recording a cancellation\<close>

definition push_reason :: "string \<Rightarrow> string \<Rightarrow> string \<Rightarrow> receipts \<Rightarrow> receipts" where
  "push_reason task_id pf reason A = A\<lparr>rc_reasons := (rc_reasons A)((task_id, pf) := rc_reasons A (task_id, pf) @ [reason])\<rparr>"

definition add_reason :: "string \<Rightarrow> string \<Rightarrow> string \<Rightarrow> receipts \<Rightarrow> receipts" where
  "add_reason task_id pf reason A = (let rs = rc_reasons A (task_id, pf) in
     if rs \<noteq> [] \<and> last rs = reason then A else push_reason task_id pf reason A)"

lemma push_reason_rows [simp]: "rc_tickets (push_reason task_id pf reason A) = rc_tickets A" "rc_observations (push_reason task_id pf reason A) = rc_observations A"
  by (simp_all add: push_reason_def)

definition cancel_inserted :: "receipts \<Rightarrow> string \<Rightarrow> string \<Rightarrow> string \<Rightarrow> string \<Rightarrow> checkpoint_db \<Rightarrow> checkpoint_db" where
  "cancel_inserted A task_id pf reason now w = (let rs = rc_reasons A (task_id, pf) in
     if rs \<noteq> [] \<and> last rs = reason then w
     else append_event task_id pf ''CANCELLED'' task_id (dumps (reason_json reason)) (digest (reason_json reason)) now w)"

lemma insert_cancellation_iff:
  assumes "mirrors A w"
  shows "insert_cancellation task_id pf (dumps (reason_json reason)) (digest (reason_json reason)) now w = Inr (u, w') \<longleftrightarrow>
    find_task (cd_store w) task_id \<noteq> None \<and> w' = cancel_inserted A task_id pf reason now w"
proof -
  let ?rs = "rc_reasons A (task_id, pf)" and ?es = "cancellations task_id pf w"
  have rel: "list_all2 reason_stored ?rs ?es" by (rule mirrorsD(3) [OF assms])
  then have nil: "?es = [] \<longleftrightarrow> ?rs = []" by auto
  have "(if ?es = [] then Inr False else bindE (parse_canonical_payload (er_payload_json (last ?es)) (er_payload_sha256 (last ?es)) ''CANCELLATION'')
      (\<lambda>old. bindE (check_text old) (\<lambda>t. Inr (t = dumps (reason_json reason))))) = Inr (?rs \<noteq> [] \<and> last ?rs = reason)"
  proof (cases "?rs = []")
    case False
    from reason_stored_parse [OF last_rel [OF rel False]] False nil show ?thesis
      by (simp add: reason_text_inject del: dumps.simps)
  qed (simp add: nil)
  then show ?thesis
    unfolding insert_cancellation_def by (auto simp: bindE_Inr_iff cancel_inserted_def Let_def simp del: dumps.simps)
qed

lemma push_reason_mirrors:
  assumes "mirrors A w" "reason \<noteq> []" "strip reason = reason"
  shows "mirrors (push_reason task_id pf reason A)
    (append_event task_id pf ''CANCELLED'' task_id (dumps (reason_json reason)) (digest (reason_json reason)) now w)" (is "mirrors _ ?w")
proof -
  note m = mirrorsD [OF assms(1)]
  have "events_sound ?w" by (rule append_event_sound [OF m(4)]) simp_all
  moreover have "list_all2 reason_stored (rc_reasons (push_reason task_id pf reason A) (a, b)) (cancellations a b ?w)" for a b
    using m(3) [of a b] assms(2,3)
    by (auto simp: cancellations_append push_reason_def list_all2_appendI reason_stored_def new_event_fields simp del: dumps.simps)
  moreover have "wf_receipts (push_reason task_id pf reason A)"
    using wf_receiptsD [OF m(9)] assms(2,3) by (auto simp: wf_receipts_def push_reason_def split: if_splits)
  ultimately show ?thesis using m(1,2) unfolding mirrors_def append_event_tables by simp
qed

lemma cancel_inserted_mirrors:
  assumes "mirrors A w" "reason \<noteq> []" "strip reason = reason"
  shows "mirrors (add_reason task_id pf reason A) (cancel_inserted A task_id pf reason now w)"
proof (cases "rc_reasons A (task_id, pf) \<noteq> [] \<and> last (rc_reasons A (task_id, pf)) = reason")
  case False
  then have "add_reason task_id pf reason A = push_reason task_id pf reason A"
    "cancel_inserted A task_id pf reason now w = append_event task_id pf ''CANCELLED'' task_id (dumps (reason_json reason)) (digest (reason_json reason)) now w"
    unfolding add_reason_def cancel_inserted_def Let_def by (simp_all only: if_False)
  with push_reason_mirrors [OF assms] show ?thesis by simp
qed (use assms(1) in \<open>simp add: add_reason_def cancel_inserted_def\<close>)

lemma record_cancellation_mirrors:
  assumes "mirrors A w" "record_cancellation e task_id pf reason w = (r, w')"
  shows "(\<exists>x. r = Inl x) \<and> mirrors A w' \<or> r = Inr () \<and> (is_sha256_ref pf \<and> strip reason \<noteq> []) \<and> mirrors (add_reason task_id pf (strip reason) A) w'"
    "cd_store w' = cd_store w \<and> cd_created w' = cd_created w"
    "quiet e w \<Longrightarrow> r = Inr () \<longleftrightarrow> find_task (cd_store w) task_id \<noteq> None \<and> (is_sha256_ref pf \<and> strip reason \<noteq> [])"
proof -
  let ?j = "reason_json (strip reason)" and ?adm = "is_sha256_ref pf \<and> strip reason \<noteq> []"
  let ?m = "bindE (sha256_field CE pf ''plan_fingerprint'') (\<lambda>_. if strip reason = [] then raise CE ''INVALID_CANCELLATION_REASON''
      else payload_texts (Inr ?j))"
  have p: "prepared ?m (\<lambda>x. transaction e (case x of (js, sha) \<Rightarrow> insert_cancellation task_id pf js sha)) w = (r, w')"
    using assms(2) by (simp add: record_cancellation_def case_prod_unfold)
  have pay: "?m = Inr x \<longleftrightarrow> ?adm \<and> x = (dumps ?j, digest ?j)" for x
    by (cases x) (auto simp: payload_texts_iff bindE_Inr_iff simp del: dumps.simps)
  have ins: "(case x of (js, sha) \<Rightarrow> insert_cancellation task_id pf js sha) now v = Inr (u, v') \<longleftrightarrow>
      find_task (cd_store v) task_id \<noteq> None \<and> ?adm \<and> u = () \<and> v' = cancel_inserted A task_id pf (strip reason) now v"
    if "?m = Inr x" "mirrors A v" for x now v u v'
    using that(1) insert_cancellation_iff [OF that(2), of task_id pf "strip reason" now u v'] unfolding pay by (simp del: dumps.simps)
  have upd: "mirrors (add_reason task_id pf (strip reason) A) (cancel_inserted A task_id pf (strip reason) now v)
      \<and> cd_store (cancel_inserted A task_id pf (strip reason) now v) = cd_store v \<and> cd_created (cancel_inserted A task_id pf (strip reason) now v) = cd_created v"
    if "?adm" "mirrors A v" for now v
    using that cancel_inserted_mirrors [OF that(2), of "strip reason"] by (simp add: cancel_inserted_def Let_def)
  have adm: "\<exists>x. ?m = Inr x" if "?adm" using that unfolding pay by blast
  note R = recording_rule [OF assms(1) p adm ins upd]
  show "(\<exists>x. r = Inl x) \<and> mirrors A w' \<or> r = Inr () \<and> ?adm \<and> mirrors (add_reason task_id pf (strip reason) A) w'"
    "cd_store w' = cd_store w \<and> cd_created w' = cd_created w" "quiet e w \<Longrightarrow> r = Inr () \<longleftrightarrow> find_task (cd_store w) task_id \<noteq> None \<and> ?adm"
    by (rule R; assumption)+
qed

subsection \<open>Loading\<close>

definition tickets_of :: "receipts \<Rightarrow> string \<Rightarrow> string \<Rightarrow> dispatch_ticket list" where
  "tickets_of A task_id pf = sort_key dt_dispatch_sequence (filter (\<lambda>t. dt_task_id t = task_id \<and> dt_plan_fingerprint t = pf) (rc_tickets A))"

definition reports_of :: "receipts \<Rightarrow> string \<Rightarrow> string \<Rightarrow> observation list" where
  "reports_of A task_id pf = sort_key ob_node_id (filter (\<lambda>b. ob_task_id b = task_id \<and> ob_plan_fingerprint b = pf) (rc_observations A))"

definition recovered :: "receipts \<Rightarrow> string \<Rightarrow> string \<Rightarrow> recovered_state" where
  "recovered A task_id pf = (let ts = tickets_of A task_id pf; bs = reports_of A task_id pf; rs = rc_reasons A (task_id, pf) in
     \<lparr>rs_task_id = task_id, rs_plan_fingerprint = pf, rs_dispatches = ts, rs_observations = bs,
      rs_recovery_required_ticket_ids = map dt_ticket_id (filter (\<lambda>t. dt_node_id t \<notin> ob_node_id ` set bs) ts),
      rs_cancellation_reason = (if rs = [] then None else Some (last rs))\<rparr>)"

lemma load_tickets:
  assumes "list_all2 ticket_row ts rs" "\<And>t. t \<in> set ts \<Longrightarrow> dt_task_id t = task_id \<and> dt_plan_fingerprint t = pf" "distinct (map dt_node_id (us @ ts))"
  shows "foldE (load_dispatch task_id pf) (by_node us) rs = Inr (by_node (us @ ts))"
  using assms
proof (induction ts rs arbitrary: us rule: list_all2_induct)
  case (Cons t ts r rs)
  have "\<not> has (by_node us) (dt_node_id t)" unfolding has_iff using Cons.prems(2) by auto
  then have "load_dispatch task_id pf (by_node us) r = Inr (by_node (us @ [t]))"
    using ticket_row_fields(6,7) [OF Cons.hyps(1)] Cons.prems(1) by (simp add: load_dispatch_def)
  with Cons.IH [of "us @ [t]"] Cons.prems show ?case by simp
qed simp

lemma load_observation_stored:
  assumes "observation_stored b r" "ob_task_id b = task_id" "ob_plan_fingerprint b = pf" "map_of ds (ob_node_id b) = Some t"
    "ob_node_fingerprint b = dt_node_fingerprint t" "ob_authority_fingerprint b = dt_authority_fingerprint t"
  shows "load_observation task_id pf ds r = Inr b"
  using observation_stored_fields(5) [OF assms(1), of "''OBSERVATION''"] assms(2-6) by (auto simp: load_observation_def)

lemma load_reason: "list_all2 reason_stored rs es \<Longrightarrow> load_cancellation es = Inr (if rs = [] then None else Some (last rs))"
proof (cases "rs = []")
  case False
  assume rel: "list_all2 reason_stored rs es"
  with False have "es \<noteq> []" by auto
  moreover have "reason_stored (last rs) (last es)" by (rule last_rel [OF rel False])
  ultimately show ?thesis using False reason_stored_parse [of "last rs" "last es"]
    by (auto simp: load_cancellation_def dict_get_def reason_stored_def)
qed (simp add: load_cancellation_def)

lemma load_receipts:
  assumes "mirrors A w" "quiet e w" "is_sha256_ref pf" "find_task (cd_store w) task_id \<noteq> None"
  shows "cp_load e task_id pf w = Inr (recovered A task_id pf)"
proof -
  note m = mirrorsD [OF assms(1)]
  let ?ts = "tickets_of A task_id pf" and ?bs = "reports_of A task_id pf"
  have ts: "list_all2 ticket_row ?ts (sort_key dr_dispatch_sequence (dispatches_of task_id pf w))"
    unfolding tickets_of_def by (intro sort_rel filter_rel m) (simp_all add: ticket_row_fields)
  have bs: "list_all2 observation_stored ?bs (sort_key or_node_id (observations_of task_id pf w))"
    unfolding reports_of_def by (intro sort_rel filter_rel m) (simp_all add: observation_stored_fields)
  have set: "set ?ts = {t \<in> set (rc_tickets A). dt_task_id t = task_id \<and> dt_plan_fingerprint t = pf}"
    "set ?bs = {b \<in> set (rc_observations A). ob_task_id b = task_id \<and> ob_plan_fingerprint b = pf}"
    by (simp_all add: tickets_of_def reports_of_def)
  have "distinct ?ts" "inj_on ticket_key (set ?ts)"
    using m(5) by (auto simp: tickets_of_def distinct_map inj_on_def)
  then have d: "distinct (map dt_node_id ?ts)" unfolding distinct_map by (auto simp: set inj_on_def)
  have l: "foldE (load_dispatch task_id pf) [] (sort_key dr_dispatch_sequence (dispatches_of task_id pf w)) = Inr (by_node ?ts)"
    using load_tickets [OF ts, of task_id pf "[]"] d by (simp add: set by_node_def)
  have "load_observation task_id pf (by_node ?ts) r = Inr b" if b: "b \<in> set ?bs" and r: "observation_stored b r" for b r
  proof -
    obtain t where t: "t \<in> set ?ts" "dt_node_id t = ob_node_id b" "dt_node_fingerprint t = ob_node_fingerprint b"
        "dt_authority_fingerprint t = ob_authority_fingerprint b"
      using b m(8) unfolding set list_all_iff settled_by_def by auto
    have "map_of (by_node ?ts) (ob_node_id b) = Some t" using t(1,2) d by (intro map_of_is_SomeI) auto
    with t b show ?thesis by (intro load_observation_stored [OF r]) (auto simp: set)
  qed
  then have o: "mapE (load_observation task_id pf (by_node ?ts)) (sort_key or_node_id (observations_of task_id pf w)) = Inr ?bs"
    unfolding mapE_Inr_iff using bs by (auto simp: list_all2_conv_all_nth)
  show ?thesis
    using assms(2,3) by (simp add: require_task_pass [OF assms(4)] cp_load_def quiet_def verify_sound [OF m(4)] l o load_reason [OF m(3)] recovered_def Let_def)
qed

text \<open>Other users of the database leave the tables alone.\<close>

lemma initialize_mirrors:
  assumes "cp_initialize e w = (r, w')" "mirrors A w"
  shows "mirrors A w'" "cd_store w' = cd_store w" "r = Inr () \<Longrightarrow> cd_created w'"
  using assms by (auto simp: cp_initialize_def mirrors_def cancellations_def Let_def split: option.splits)

lemma mirrors_store: "mirrors A (w\<lparr>cd_store := s\<rparr>) = mirrors A w"
  by (simp add: mirrors_def cancellations_def)

section \<open>Properties\<close>

text \<open>C5: the repository of tables, texts, digests and hash chains is a log of receipts. While the tables stand for a log,
  recording a ticket, an observation (whose floats are genuine) or a cancellation either raises and leaves the tables
  standing for the same log, or returns and they stand for the log with that receipt; when the database is reachable it
  returns exactly when the task exists and the log admits the receipt: a new node of the plan or the same receipt
  again, for an observation after the dispatch with its fingerprints. Loading then never fails: the event chain
  verifies and the result is the tickets in dispatch order, the observations by node, the tickets without observation
  and the last cancellation reason of the log.\<close>

theorem repository_refines:
  assumes "mirrors A w"
  shows "(\<forall>t r w'. record_dispatch e t w = (r, w') \<longrightarrow> mirrors (if r = Inr t then add_ticket t A else A) w'
      \<and> (quiet e w \<longrightarrow> (r = Inr t \<longleftrightarrow> find_task (cd_store w) (dt_task_id t) \<noteq> None \<and> admits_ticket A t)))
    \<and> (\<forall>b r w'. genuine b \<and> record_observation e b w = (r, w') \<longrightarrow> mirrors (if r = Inr b then add_observation b A else A) w'
      \<and> (quiet e w \<longrightarrow> (r = Inr b \<longleftrightarrow> find_task (cd_store w) (ob_task_id b) \<noteq> None \<and> admits_observation A b)))
    \<and> (\<forall>task_id pf reason r w'. record_cancellation e task_id pf reason w = (r, w') \<longrightarrow>
         mirrors (if r = Inr () then add_reason task_id pf (strip reason) A else A) w'
      \<and> (quiet e w \<longrightarrow> (r = Inr () \<longleftrightarrow> find_task (cd_store w) task_id \<noteq> None \<and> is_sha256_ref pf \<and> strip reason \<noteq> [])))
    \<and> (\<forall>task_id pf. quiet e w \<and> is_sha256_ref pf \<and> find_task (cd_store w) task_id \<noteq> None \<longrightarrow>
         cp_load e task_id pf w = Inr (recovered A task_id pf))"
proof (intro conjI allI impI; (elim conjE)?)
  fix t r w' assume r: "record_dispatch e t w = (r, w')"
  show "mirrors (if r = Inr t then add_ticket t A else A) w'" using record_dispatch_mirrors(1) [OF assms r] by auto
next
  fix b r w' assume b: "genuine b" and r: "record_observation e b w = (r, w')"
  show "mirrors (if r = Inr b then add_observation b A else A) w'" using record_observation_mirrors(1) [OF assms r b] by auto
next
  fix task_id pf reason r w' assume r: "record_cancellation e task_id pf reason w = (r, w')"
  show "mirrors (if r = Inr () then add_reason task_id pf (strip reason) A else A) w'" using record_cancellation_mirrors(1) [OF assms r] by auto
qed (rule record_dispatch_mirrors(3) [OF assms] record_observation_mirrors(3) [OF assms] record_cancellation_mirrors(3) [OF assms]
  load_receipts [OF assms]; assumption)+

definition demo_db :: checkpoint_db where
  "demo_db = \<lparr>cd_store = demo_store, cd_created = True, cd_dispatches = [], cd_observations = [], cd_events = [], cd_tick = 0\<rparr>"

definition demo_env :: db_env where
  "demo_env = \<lparr>de_clock = (\<lambda>_. 0), de_fault = (\<lambda>_. None), de_reread = (\<lambda>_. None)\<rparr>"

definition no_receipts :: receipts where
  "no_receipts = \<lparr>rc_tickets = [], rc_observations = [], rc_reasons = (\<lambda>_. [])\<rparr>"

lemma no_receipts_mirrors: "cd_dispatches w = [] \<Longrightarrow> cd_observations w = [] \<Longrightarrow> cd_events w = [] \<Longrightarrow> mirrors no_receipts w"
  by (simp add: mirrors_def no_receipts_def wf_receipts_def cancellations_def)

definition demo_ticket :: dispatch_ticket where
  "demo_ticket = (let t = \<lparr>dt_ticket_id = [], dt_task_id = ''T'', dt_plan_fingerprint = digest JNull, dt_node_id = ''a'',
     dt_node_fingerprint = digest JNull, dt_authority_fingerprint = digest JNull, dt_dependencies = [], dt_dispatch_sequence = 1,
     dt_execution_level = 0, dt_schema_version = DISPATCH_TICKET_SCHEMA, dt_dispatch_authorized = True\<rparr>
     in t\<lparr>dt_ticket_id := expected_ticket_id t\<rparr>)"

lemma demo_ticket_fields: "ticket_ok demo_ticket" "dt_task_id demo_ticket = ''T''" "dt_plan_fingerprint demo_ticket = digest JNull"
  "dt_dispatch_sequence demo_ticket = 1"
  by (simp_all add: demo_ticket_def Let_def ticket_ok_def ticket_validate_def checked_def fail_if_def expected_ticket_id_def ticket_identity_def)

theorem repository_refines_witness:
  "\<exists>w r. record_dispatch demo_env demo_ticket demo_db = (Inr demo_ticket, w) \<and> cp_load demo_env ''T'' (digest JNull) w = Inr r
    \<and> rs_dispatches r = [demo_ticket] \<and> rs_recovery_required_ticket_ids r = [dt_ticket_id demo_ticket]"
proof -
  obtain r w where r: "record_dispatch demo_env demo_ticket demo_db = (r, w)" by fastforce
  have m: "mirrors no_receipts demo_db" by (rule no_receipts_mirrors) (simp_all add: demo_db_def)
  have task: "find_task demo_store ''T'' \<noteq> None" by (simp add: find_task_def demo_store_def demo_task_def)
  have "admits_ticket no_receipts demo_ticket" by (simp add: admits_ticket_def demo_ticket_fields no_receipts_def sqlite_int_def)
  moreover have "quiet demo_env demo_db" by (simp add: quiet_def demo_env_def demo_db_def)
  ultimately have ok: "r = Inr demo_ticket" and m': "mirrors (add_ticket demo_ticket no_receipts) w"
    using repository_refines [OF m, THEN conjunct1, rule_format, OF r] task by (auto simp: demo_ticket_fields demo_db_def)
  have s: "cd_store w = demo_store" "cd_created w" using record_dispatch_mirrors(2) [OF m r] by (simp_all add: demo_db_def)
  have "cp_load demo_env ''T'' (digest JNull) w = Inr (recovered (add_ticket demo_ticket no_receipts) ''T'' (digest JNull))"
    using repository_refines [OF m', THEN conjunct2, THEN conjunct2, THEN conjunct2, rule_format] s task by (simp add: quiet_def demo_env_def)
  moreover have "add_ticket demo_ticket no_receipts = no_receipts\<lparr>rc_tickets := [demo_ticket]\<rparr>" by (simp add: add_ticket_def no_receipts_def)
  ultimately show ?thesis
    using r ok by (simp add: recovered_def tickets_of_def reports_of_def demo_ticket_fields no_receipts_def)
qed

end
