(* ===== verification/Crash_Recovery.thy ===== *)
theory Crash_Recovery
  imports Checkpoint_Receipts
begin

text \<open>
  A scheduler and a repository that keeps a log of receipts (theory \<open>Checkpoint_Receipts\<close>): whatever the scheduler does,
  its state can be rebuilt from the log. The laws the scheduler relies on are the locale \<open>receipt_repository\<close>, which every
  repository of the runtime interprets; the recovery lemmas are proved once from them.
\<close>

section \<open>What a scheduler and a log have in common\<close>

definition scope_tickets :: "receipts \<Rightarrow> string \<Rightarrow> string \<Rightarrow> dispatch_ticket set" where
  "scope_tickets A task_id pf = {t \<in> set (rc_tickets A). dt_task_id t = task_id \<and> dt_plan_fingerprint t = pf}"

definition scope_reports :: "receipts \<Rightarrow> string \<Rightarrow> string \<Rightarrow> observation set" where
  "scope_reports A task_id pf = {b \<in> set (rc_observations A). ob_task_id b = task_id \<and> ob_plan_fingerprint b = pf}"

abbreviation report_entry :: "observation \<Rightarrow> string \<times> observation" where
  "report_entry b \<equiv> (ob_node_id b, b)"

text \<open>The log holds a valid ticket for every node ever dispatched, the open tickets among them, and exactly the accepted
  observations; the approvals are those of dispatched nodes; a cancellation in the log is known to the scheduler; and the
  decision on the accepted observations exists.\<close>

definition tracks :: "receipts \<Rightarrow> scheduler \<Rightarrow> bool" where
  "tracks A s \<longleftrightarrow> sched_inv s \<and> wf_receipts A \<and> (\<exists>pf. plan_fingerprint (sc_plan s) = Inr pf \<and> (
     let ts = scope_tickets A (ep_task_id (sc_plan s)) pf; bs = scope_reports A (ep_task_id (sc_plan s)) pf in
       (\<forall>t \<in> ts. ticket_for s (dt_node_id t) t) \<and> inj_on dt_dispatch_sequence ts \<and> dt_node_id ` ts = tracked s
     \<and> (\<forall>i t. (i, t) \<in> set (active s) \<longrightarrow> t \<in> ts) \<and> report_entry ` bs = set (sc_observations s)
     \<and> set (sc_approved_nodes s) = {i \<in> tracked s. needs_approval (sc_plan s) i}
     \<and> (rc_reasons A (ep_task_id (sc_plan s), pf) \<noteq> [] \<longrightarrow> sc_cancelled s)
     \<and> (\<exists>d. scheduler_evaluate s (ordered_observations s) (sc_approved_nodes s) = Inr d)))"

lemma tracksD:
  assumes "tracks A s" "plan_fingerprint (sc_plan s) = Inr pf" "task_id = ep_task_id (sc_plan s)"
  shows "sched_inv s" "wf_receipts A" "\<And>t. t \<in> scope_tickets A task_id pf \<Longrightarrow> ticket_for s (dt_node_id t) t"
    "inj_on dt_dispatch_sequence (scope_tickets A task_id pf)" "dt_node_id ` scope_tickets A task_id pf = tracked s"
    "\<And>i t. (i, t) \<in> set (active s) \<Longrightarrow> t \<in> scope_tickets A task_id pf"
    "report_entry ` scope_reports A task_id pf = set (sc_observations s)"
    "set (sc_approved_nodes s) = {i \<in> tracked s. needs_approval (sc_plan s) i}"
    "rc_reasons A (task_id, pf) \<noteq> [] \<Longrightarrow> sc_cancelled s"
    "\<exists>d. scheduler_evaluate s (ordered_observations s) (sc_approved_nodes s) = Inr d"
  using assms unfolding tracks_def Let_def by auto

lemma tracksI:
  assumes "sched_inv s" "wf_receipts A" "plan_fingerprint (sc_plan s) = Inr pf" "task_id = ep_task_id (sc_plan s)"
    "\<And>t. t \<in> scope_tickets A task_id pf \<Longrightarrow> ticket_for s (dt_node_id t) t"
    "inj_on dt_dispatch_sequence (scope_tickets A task_id pf)" "dt_node_id ` scope_tickets A task_id pf = tracked s"
    "\<And>i t. (i, t) \<in> set (active s) \<Longrightarrow> t \<in> scope_tickets A task_id pf"
    "report_entry ` scope_reports A task_id pf = set (sc_observations s)"
    "set (sc_approved_nodes s) = {i \<in> tracked s. needs_approval (sc_plan s) i}"
    "rc_reasons A (task_id, pf) \<noteq> [] \<Longrightarrow> sc_cancelled s"
    "\<exists>d. scheduler_evaluate s (ordered_observations s) (sc_approved_nodes s) = Inr d"
  shows "tracks A s"
  unfolding tracks_def Let_def assms(4) [symmetric]
  by (intro conjI exI [of _ pf] ballI allI impI; (fact assms | rule assms, assumption))

lemma tracks_plan: "tracks A s \<Longrightarrow> \<exists>pf. plan_fingerprint (sc_plan s) = Inr pf \<and> is_sha256_ref pf"
proof -
  assume t: "tracks A s"
  then have "bound (sc_task_context s) (sc_plan s) (sc_parent_authority s)" by (auto simp: tracks_def dest: sched_invD(1))
  with plan_fingerprint_total [of "sc_plan s"] show ?thesis by (auto simp: bound_def)
qed

text \<open>Keys are unique in a well-formed log.\<close>

lemma scope_inj:
  assumes "wf_receipts A"
  shows "inj_on dt_node_id (scope_tickets A task_id pf)" "inj_on ob_node_id (scope_reports A task_id pf)"
    "inj_on ob_observation_id (scope_reports A task_id pf)" "inj_on dt_ticket_id (scope_tickets A task_id pf)"
  using wf_receiptsD(1,2,3,5) [OF assms] by (auto simp: scope_tickets_def scope_reports_def inj_on_def distinct_map)

lemma listed:
  shows "set (tickets_of A task_id pf) = scope_tickets A task_id pf" "set (reports_of A task_id pf) = scope_reports A task_id pf"
    "wf_receipts A \<Longrightarrow> distinct (tickets_of A task_id pf)" "wf_receipts A \<Longrightarrow> distinct (reports_of A task_id pf)"
  using wf_receiptsD(1,3) [of A] by (auto simp: tickets_of_def reports_of_def scope_tickets_def scope_reports_def distinct_map)

lemma scope_settled:
  assumes "wf_receipts A" "b \<in> scope_reports A task_id pf"
  shows "\<exists>t \<in> scope_tickets A task_id pf. dt_node_id t = ob_node_id b \<and> dt_node_fingerprint t = ob_node_fingerprint b
    \<and> dt_authority_fingerprint t = ob_authority_fingerprint b"
  using wf_receiptsD(4) [OF assms(1)] assms(2) by (fastforce simp: scope_reports_def scope_tickets_def list_all_iff settled_by_def)

section \<open>Rebuilding a scheduler from the log\<close>

lemma report_entries: "fst ` report_entry ` B = ob_node_id ` B"
  by (simp add: image_image)

lemma tracked_reports:
  assumes "tracks A s" "plan_fingerprint (sc_plan s) = Inr pf" "task_id = ep_task_id (sc_plan s)"
  shows "map_of (map report_entry (reports_of A task_id pf)) = map_of (sc_observations s)"
proof -
  note T = tracksD [OF assms]
  have "distinct (map fst (map report_entry (reports_of A task_id pf)))"
    using listed(4) [OF T(2)] scope_inj(2) [OF T(2)] by (simp add: comp_def distinct_map listed(2))
  moreover have "distinct (map fst (sc_observations s))" using sched_invD(3) [OF T(1)] by simp
  moreover have "set (map report_entry (reports_of A task_id pf)) = set (sc_observations s)" using T(7) by (simp add: listed(2))
  ultimately show ?thesis by (rule map_of_inject_set [THEN iffD2])
qed

lemma ordered_observations_cong: "map_of (sc_observations s) = map_of (sc_observations s') \<Longrightarrow> sc_plan s = sc_plan s' \<Longrightarrow> ordered_observations s = ordered_observations s'"
  by (simp add: ordered_observations_def)

lemma scheduler_evaluate_cong: "sc_task_context s = sc_task_context s' \<Longrightarrow> sc_plan s = sc_plan s' \<Longrightarrow> sc_parent_authority s = sc_parent_authority s' \<Longrightarrow>
   set ap = set ap' \<Longrightarrow> scheduler_evaluate s obs ap = scheduler_evaluate s' obs ap'"
  using sort_fromkeys_cong [of ap ap'] by (simp add: scheduler_evaluate_def)

text \<open>The state rebuilt after a crash: the observations as they were, nothing in flight, and every open ticket awaiting
  recovery.\<close>

definition recovers :: "scheduler \<Rightarrow> scheduler \<Rightarrow> bool" where
  "recovers s s' \<longleftrightarrow> sc_task_context s' = sc_task_context s \<and> sc_plan s' = sc_plan s \<and> sc_parent_authority s' = sc_parent_authority s
     \<and> sc_max_concurrency s' = sc_max_concurrency s \<and> map_of (sc_observations s') = map_of (sc_observations s) \<and> sc_in_flight s' = []
     \<and> set (sc_recovery_required s') = set (active s) \<and> tracked s' = tracked s \<and> set (sc_approved_nodes s') = set (sc_approved_nodes s)
     \<and> sc_dispatch_sequence s' \<le> sc_dispatch_sequence s \<and> (sc_cancelled s' \<longrightarrow> sc_cancelled s)"

lemma foldl_max_le: "foldl max q xs \<le> b \<longleftrightarrow> q \<le> b \<and> (\<forall>x \<in> set xs. x \<le> b)" for q :: int
  by (induction xs arbitrary: q) auto

lemma rebuilt_recovers:
  assumes "tracks A s" "plan_fingerprint (sc_plan s) = Inr pf"
  shows "recovers s (rebuilt (recovered A (ep_task_id (sc_plan s)) pf) (fresh_scheduler (sc_task_context s) (sc_plan s) (sc_parent_authority s) (sc_max_concurrency s)))"
    (is "recovers s (rebuilt ?r ?f)")
proof -
  let ?task = "ep_task_id (sc_plan s)"
  note T = tracksD [OF assms refl] and inv = sched_invD [OF tracksD(1) [OF assms refl]]
  have f: "pristine ?f" by (auto simp: pristine_def)
  have r: "rs_dispatches ?r = tickets_of A ?task pf" "rs_observations ?r = reports_of A ?task pf"
    by (simp_all add: recovered_def Let_def)
  have obs: "map_of (sc_observations (rebuilt ?r ?f)) = map_of (sc_observations s)" using tracked_reports [OF assms refl] by (simp add: r)
  have nodes: "ob_node_id ` scope_reports A ?task pf = fst ` set (sc_observations s)" using T(7) report_entries by metis
  have act: "t \<in> scope_tickets A ?task pf \<and> i = dt_node_id t \<and> i \<notin> fst ` set (sc_observations s)" if "(i, t) \<in> set (active s)" for i t
  proof -
    have "i \<in> fst ` set (active s)" using that by (rule image_eqI [rotated]) simp
    with inv(3) have "i \<notin> fst ` set (sc_observations s)" by auto
    with T(6) [OF that] inv(9) [OF that] show ?thesis by (simp add: ticket_for_def)
  qed
  have "t \<in> snd ` set (active s)" if t: "t \<in> scope_tickets A ?task pf" and n: "dt_node_id t \<notin> fst ` set (sc_observations s)" for t
  proof -
    from t T(5) have "dt_node_id t \<in> tracked s" by blast
    with n have "dt_node_id t \<in> fst ` set (active s)" by (simp add: tracked_def)
    then obtain u where u: "(dt_node_id t, u) \<in> set (active s)" by (elim imageE) (metis prod.collapse)
    with act [OF u] t have "u = t" using scope_inj(1) [OF T(2)] by (metis inj_onD)
    with u show ?thesis by force
  qed
  with act have rec: "by_node (filter (\<lambda>t. dt_node_id t \<notin> fst ` set (sc_observations s)) (tickets_of A ?task pf)) = rs \<Longrightarrow> set rs = set (active s)" for rs
    by (force simp: by_node_def listed(1))
  have rq: "set (sc_recovery_required (rebuilt ?r ?f)) = set (active s)"
    using rec by (simp add: rebuilt_fields(3) r listed(2) nodes)
  have "fst ` set (sc_observations (rebuilt ?r ?f)) = fst ` set (sc_observations s)" using obs by (metis dom_map_of_conv_image_fst)
  then have tr: "tracked (rebuilt ?r ?f) = tracked s" using rq rebuilt_fields(1) [OF f, of ?r] by (simp add: tracked_def)
  have "set (sc_approved_nodes (rebuilt ?r ?f)) = {i \<in> tracked s. needs_approval (sc_plan s) i}"
    unfolding rebuilt_fields(2) [OF f] r listed(1) using T(5) by (auto simp: fresh_scheduler_def)
  with T(8) have ap: "set (sc_approved_nodes (rebuilt ?r ?f)) = set (sc_approved_nodes s)" by simp
  have sq: "sc_dispatch_sequence (rebuilt ?r ?f) \<le> sc_dispatch_sequence s"
    using T(3) inv(2) by (auto simp: rebuilt_def r listed(1) foldl_max_le fresh_scheduler_def ticket_for_def)
  have "sc_cancelled (rebuilt ?r ?f) \<longrightarrow> sc_cancelled s" using T(9) by (auto simp: rebuilt_def recovered_def Let_def)
  with obs rq tr ap sq rebuilt_fields(1) [OF f, of ?r] show ?thesis by (simp add: recovers_def) (simp add: fresh_scheduler_def)
qed

text \<open>Restoring the log succeeds, given the approvals of the dispatched nodes that need one.\<close>

lemma restore_tracked:
  assumes "tracks A s" "plan_fingerprint (sc_plan s) = Inr pf" "set re = {i \<in> tracked s. needs_approval (sc_plan s) i}"
  shows "\<exists>s'. restore_from re (recovered A (ep_task_id (sc_plan s)) pf)
      (fresh_scheduler (sc_task_context s) (sc_plan s) (sc_parent_authority s) (sc_max_concurrency s)) = Inr s' \<and> recovers s s'"
    (is "\<exists>s'. restore_from re ?r ?f = Inr s' \<and> _")
proof -
  let ?task = "ep_task_id (sc_plan s)" and ?ts = "tickets_of A (ep_task_id (sc_plan s)) pf" and ?bs = "reports_of A (ep_task_id (sc_plan s)) pf"
  note T = tracksD [OF assms(1,2) refl] and inj = scope_inj [OF tracksD(2) [OF assms(1,2) refl]]
  have f: "pristine ?f" "sc_plan ?f = sc_plan s" "sc_parent_authority ?f = sc_parent_authority s" "sc_task_context ?f = sc_task_context s"
    by (auto simp: pristine_def) (simp_all add: fresh_scheduler_def)
  note R = rebuilt_recovers [OF assms(1,2), unfolded recovers_def]
  have r: "rs_task_id ?r = ?task" "rs_plan_fingerprint ?r = pf" "rs_dispatches ?r = ?ts" "rs_observations ?r = ?bs"
    "rs_recovery_required_ticket_ids ?r = map dt_ticket_id (filter (\<lambda>t. dt_node_id t \<notin> ob_node_id ` set ?bs) ?ts)"
    by (simp_all add: recovered_def Let_def)
  have dist: "distinct (map dt_node_id ?ts)" "distinct (map dt_dispatch_sequence ?ts)" "distinct (map dt_ticket_id ?ts)" "distinct (map ob_node_id ?bs)"
    using listed(3,4) [OF T(2)] inj T(4) by (simp_all add: distinct_map listed(1,2))
  have plan: "ticket_of_plan (sc_plan s) t" if "t \<in> set ?ts" for t
    using T(3) [of t] that by (auto simp: listed(1) ticket_for_def ticket_of_plan_def)
  have deps: "\<exists>n. node_map (sc_plan s) (dt_node_id t) = Some n
      \<and> mapE (dependency_fingerprint (rebuilt ?r ?f) (dt_node_id t)) (en_depends_on n) = Inr (dt_dependencies t)" if "t \<in> set ?ts" for t
    using T(3) [of t] that dependency_fingerprint_cong [of "rebuilt ?r ?f" s] R by (auto simp: listed(1) ticket_for_def)
  have set: "settles ?f (by_node ?ts) b" if b: "b \<in> set ?bs" for b
  proof -
    from b obtain t where t: "t \<in> set ?ts" "dt_node_id t = ob_node_id b" "dt_node_fingerprint t = ob_node_fingerprint b"
        "dt_authority_fingerprint t = ob_authority_fingerprint b"
      using scope_settled [OF T(2), of b ?task pf] unfolding listed by blast
    have "map_of (by_node ?ts) (ob_node_id b) = Some t" using t(1,2) dist(1) by (intro map_of_is_SomeI) auto
    moreover have "report_entry b \<in> set (sc_observations s)" using b T(7) by (auto simp: listed(2))
    then have "observation_validate b (Some (sc_plan s)) (Some (sc_parent_authority s)) = Inr b"
      using sched_invD(7) [OF T(1)] by (simp add: observation_for_def)
    ultimately show ?thesis using t by (simp add: settles_def f)
  qed
  have ok: "recovery_set_ok ?r"
    unfolding recovery_set_ok_def r using dist(3) by (auto simp: distinct_map_filter)
  have reason: "strip c \<noteq> []" if "rs_cancellation_reason ?r = Some c" for c
    using that wf_receiptsD(6) [OF T(2), of c "(?task, pf)"] by (auto simp: recovered_def Let_def split: if_splits)
  have "ordered_observations (rebuilt ?r ?f) = ordered_observations s" using R by (intro ordered_observations_cong) simp_all
  then have ev: "restores (rebuilt ?r ?f) (rebuilt ?r ?f)"
    unfolding restores_def using T(10) R scheduler_evaluate_cong [of "rebuilt ?r ?f" s "sc_approved_nodes (rebuilt ?r ?f)" "sc_approved_nodes s"] by simp
  have re: "set re = {dt_node_id t |t. t \<in> set ?ts \<and> needs_approval (sc_plan s) (dt_node_id t)}"
    using assms(3) T(5) by (auto simp: listed(1))
  have "restore_from re ?r ?f = Inr (rebuilt ?r ?f)"
    unfolding restore_from_iff [OF f(1)] r f using assms(2) plan dist re set deps ok reason ev by blast
  with rebuilt_recovers [OF assms(1,2)] show ?thesis by blast
qed

section \<open>The operations keep scheduler and log together\<close>

lemma tracks_same:
  assumes "tracks A s" "grows s s'" "sched_inv s'" "sc_observations s' = sc_observations s" "active s' = active s"
    "sc_approved_nodes s' = sc_approved_nodes s" "rc_tickets A' = rc_tickets A" "rc_observations A' = rc_observations A" "wf_receipts A'"
    "\<And>pf. rc_reasons A' (ep_task_id (sc_plan s), pf) \<noteq> [] \<Longrightarrow> rc_reasons A (ep_task_id (sc_plan s), pf) \<noteq> [] \<or> sc_cancelled s'"
  shows "tracks A' s'"
proof -
  from tracks_plan [OF assms(1)] obtain pf where pf: "plan_fingerprint (sc_plan s) = Inr pf" by blast
  note T = tracksD [OF assms(1) pf refl]
  have scope: "scope_tickets A' = scope_tickets A" "scope_reports A' = scope_reports A"
    by (simp_all add: fun_eq_iff scope_tickets_def scope_reports_def assms(7,8))
  have same: "sc_plan s' = sc_plan s" "sc_task_context s' = sc_task_context s" "sc_parent_authority s' = sc_parent_authority s"
    "sc_cancelled s \<Longrightarrow> sc_cancelled s'" "tracked s' = tracked s"
    using assms(2) by (simp_all add: grows_def tracked_def assms(4,5))
  show ?thesis
  proof (rule tracksI [of s' A' pf "ep_task_id (sc_plan s)"])
    show "ticket_for s' (dt_node_id t) t" if "t \<in> scope_tickets A' (ep_task_id (sc_plan s)) pf" for t
      using that T(3) ticket_for_grows [OF _ assms(2)] by (simp add: scope)
    show "\<exists>d. scheduler_evaluate s' (ordered_observations s') (sc_approved_nodes s') = Inr d"
      using T(10) ordered_observations_cong [of s' s] scheduler_evaluate_cong [of s' s] same by (simp add: assms(4,6))
    show "sc_cancelled s'" if "rc_reasons A' (ep_task_id (sc_plan s), pf) \<noteq> []" using assms(10) [OF that] T(9) same(4) by blast
    show "t \<in> scope_tickets A' (ep_task_id (sc_plan s)) pf" if "(i, t) \<in> set (active s')" for i t
      using that T(6) unfolding scope assms(5) by blast
  qed (use T(4,5,7,8) pf assms(3,9) in \<open>simp_all add: same scope assms(4,6)\<close>)
qed

lemma tracks_bump:
  assumes "tracks A s"
  shows "tracks A (bump s)"
proof -
  have inv: "sched_inv s" "wf_receipts A" using assms by (simp_all add: tracks_def)
  have "grows s (bump s)" by (simp add: grows_def tracked_def)
  from tracks_same [OF assms this bump_inv [OF inv(1)]] inv(2) show ?thesis by simp
qed

lemma guard_evaluates:
  assumes "dispatch_guard s i ok = Inr (n, bs)"
  shows "\<exists>d. scheduler_evaluate s (ordered_observations s) ((if en_approval_required n then [i] else []) @ sc_approved_nodes s) = Inr d"
proof -
  let ?ap = "if en_approval_required n then [i] else []"
  have "\<exists>d. admission_decision s ?ap = Inr d"
    using assms by (auto simp: dispatch_guard_def bindE_Inr_iff split: if_splits option.splits)
  then show ?thesis
    unfolding admission_decision_iff scheduler_evaluate_def using sort_fromkeys_cong [of "sc_approved_nodes s @ ?ap" "?ap @ sc_approved_nodes s"] by auto
qed

lemma tracks_dispatch:
  assumes "tracks A s" "dispatch_guard s i ok = Inr (n, bs)" "make_ticket (bump s) n bs = Inr t" "wf_receipts (add_ticket t A)"
    "dt_ticket_id t \<notin> dt_ticket_id ` set (rc_tickets A)"
  shows "tracks (add_ticket t A) (note_dispatched n t (bump s))"
proof -
  from tracks_plan [OF assms(1)] obtain pf where pf: "plan_fingerprint (sc_plan s) = Inr pf" by blast
  let ?s = "note_dispatched n t (bump s)" and ?task = "ep_task_id (sc_plan s)"
  note T = tracksD [OF assms(1) pf refl] and D = dispatch_guardD [OF assms(2)] and M = make_ticketD [OF assms(3)]
  have g: "grows s ?s" by (rule dispatch_grows [OF assms(2)])
  have i: "en_node_id n = i" by (rule node_map_id [OF D(2)])
  have fl: "sc_in_flight ?s = sc_in_flight s @ [(i, t)]" using D(4) by (simp add: note_dispatched_def i alist_update_new)
  have same: "sc_observations ?s = sc_observations s" "sc_recovery_required ?s = sc_recovery_required s" "sc_plan ?s = sc_plan s"
    "sc_task_context ?s = sc_task_context s" "sc_parent_authority ?s = sc_parent_authority s" "sc_cancelled ?s = sc_cancelled s"
    "sc_approved_nodes ?s = (if en_approval_required n then [i] else []) @ sc_approved_nodes s"
    by (simp_all add: note_dispatched_def i)
  have scope: "scope_tickets (add_ticket t A) ?task pf = insert t (scope_tickets A ?task pf)" "scope_reports (add_ticket t A) ?task pf = scope_reports A ?task pf"
    "rc_reasons (add_ticket t A) = rc_reasons A"
    using assms(5) M(2,3) pf by (auto simp: add_ticket_def scope_tickets_def scope_reports_def)
  have tr: "tracked ?s = insert i (tracked s)" by (auto simp: tracked_def fl same)
  have old: "dt_dispatch_sequence u < dt_dispatch_sequence t" if "u \<in> scope_tickets A ?task pf" for u
    using T(3) [OF that] M(5) by (simp add: ticket_for_def)
  have na: "needs_approval (sc_plan s) i \<longleftrightarrow> en_approval_required n" using D(2) by (simp add: needs_approval_def)
  show ?thesis
  proof (rule tracksI [of ?s "add_ticket t A" pf ?task])
    show "sched_inv ?s" by (rule dispatch_inv [OF T(1) assms(2,3)])
    show "ticket_for ?s (dt_node_id u) u" if "u \<in> scope_tickets (add_ticket t A) ?task pf" for u
      using that T(3) ticket_for_grows [OF _ g] new_ticket_for [OF assms(2,3)] M(4) i by (auto simp: scope)
    show "inj_on dt_dispatch_sequence (scope_tickets (add_ticket t A) ?task pf)" using T(4) old by (fastforce simp: scope)
    show "dt_node_id ` scope_tickets (add_ticket t A) ?task pf = tracked ?s" using T(5) M(4) i by (auto simp: scope tr)
    show "u \<in> scope_tickets (add_ticket t A) ?task pf" if "(j, u) \<in> set (active ?s)" for j u using that T(6) by (auto simp: scope fl same)
    show "report_entry ` scope_reports (add_ticket t A) ?task pf = set (sc_observations ?s)" using T(7) by (simp add: scope same)
    show "set (sc_approved_nodes ?s) = {j \<in> tracked ?s. needs_approval (sc_plan ?s) j}" using T(8) na by (auto simp: same tr)
    show "sc_cancelled ?s" if "rc_reasons (add_ticket t A) (?task, pf) \<noteq> []" using that T(9) by (simp add: scope same)
    show "\<exists>d. scheduler_evaluate ?s (ordered_observations ?s) (sc_approved_nodes ?s) = Inr d"
      using guard_evaluates [OF assms(2)] ordered_observations_cong [of ?s s]
        scheduler_evaluate_cong [OF same(4,3,5) refl, of _ "sc_approved_nodes ?s"] same(1,3,7) by metis
  qed (use pf assms(4) in \<open>simp_all add: same\<close>)
qed

lemma tracks_observed:
  assumes "tracks A s" "observation_guard s b = Inr u" "wf_receipts (add_observation b A)" "ob_observation_id b \<notin> ob_observation_id ` set (rc_observations A)"
  shows "tracks (add_observation b A) (note_observed b s)"
proof -
  from tracks_plan [OF assms(1)] obtain pf where pf: "plan_fingerprint (sc_plan s) = Inr pf" by blast
  let ?s = "note_observed b s" and ?task = "ep_task_id (sc_plan s)"
  note T = tracksD [OF assms(1) pf refl] and O = observation_guardD [OF assms(2)]
  note I = observed_inv [OF tracksD(1) [OF assms(1) pf refl] assms(2)]
  have same: "sc_in_flight ?s = filter (\<lambda>x. fst x \<noteq> ob_node_id b) (sc_in_flight s)"
    "sc_recovery_required ?s = filter (\<lambda>x. fst x \<noteq> ob_node_id b) (sc_recovery_required s)" "sc_plan ?s = sc_plan s"
    "sc_task_context ?s = sc_task_context s" "sc_parent_authority ?s = sc_parent_authority s" "sc_cancelled ?s = sc_cancelled s"
    "sc_approved_nodes ?s = sc_approved_nodes s"
    by (simp_all add: note_observed_def AList.delete_eq case_prod_unfold eq_commute)
  have mine: "ob_task_id b = ?task" "ob_plan_fingerprint b = pf"
    using O(2) pf unfolding observation_validate_iff bound_to_node_def by auto
  have scope: "scope_tickets (add_observation b A) ?task pf = scope_tickets A ?task pf"
    "scope_reports (add_observation b A) ?task pf = insert b (scope_reports A ?task pf)" "rc_reasons (add_observation b A) = rc_reasons A"
    using assms(4) mine by (auto simp: add_observation_def scope_tickets_def scope_reports_def)
  have act: "active ?s = filter (\<lambda>x. fst x \<noteq> ob_node_id b) (active s)" by (simp add: same)
  have "ob_node_id b \<in> fst ` set (active s)" using O(1) by (auto intro: rev_image_eqI)
  then have tr: "tracked ?s = tracked s" unfolding tracked_def I(3) act by auto
  obtain n where n: "n \<in> set (ep_nodes (sc_plan s))" "en_node_id n = ob_node_id b"
    using O(2) node_for_member unfolding observation_validate_iff by blast
  have dist: "distinct (map fst (sc_observations ?s))" using sched_invD(3) [OF I(1)] by simp
  have member: "c \<in> set (ordered_observations x) \<longleftrightarrow> (\<exists>m \<in> set (ep_nodes (sc_plan x)). (en_node_id m, c) \<in> set (sc_observations x))"
    if "distinct (map fst (sc_observations x))" for c x
    using that by (auto simp: ordered_observations_def set_map_filter)
  have ord: "set (ordered_observations s @ [b]) = set (ordered_observations ?s)"
    using n member [of s] member [OF dist] dist by (auto simp: I(3) same)
  have reps: "report_entry ` scope_reports (add_observation b A) ?task pf = set (sc_observations ?s)" using T(7) by (simp add: scope I(3))
  have "set (ordered_observations ?s) \<subseteq> scope_reports (add_observation b A) ?task pf"
    using member [OF dist] unfolding reps [symmetric] by auto
  then have inj: "inj_on ob_observation_id (set (ordered_observations s @ [b]))"
    unfolding ord by (rule inj_on_subset [OF scope_inj(3) [OF assms(3)]])
  obtain d where "evaluate (sc_task_context s) (sc_plan s) (sc_parent_authority s) (ordered_observations s @ [b]) (sort (fromkeys (sc_approved_nodes s))) = Inr d"
    using O(3) by blast
  then have ev: "evaluate (sc_task_context s) (sc_plan s) (sc_parent_authority s) (ordered_observations ?s) (sort (fromkeys (sc_approved_nodes s))) = Inr d"
    using evaluate_set_cong [OF inj ord refl] by blast
  show ?thesis
  proof (rule tracksI [of ?s "add_observation b A" pf ?task])
    show "ticket_for ?s (dt_node_id t) t" if "t \<in> scope_tickets (add_observation b A) ?task pf" for t
      using that T(3) ticket_for_grows [OF _ I(2)] by (simp add: scope)
    show "t \<in> scope_tickets (add_observation b A) ?task pf" if "(i, t) \<in> set (active ?s)" for i t
      using that T(6) [of i t] unfolding act scope by auto
  qed (use T(4,5,8,9) pf assms(3) I(1) reps ev in \<open>simp_all add: same scope tr scheduler_evaluate_def\<close>)
qed

lemma tracks_restored:
  assumes "wf_receipts A" "pristine s" "bound (sc_task_context s) (sc_plan s) (sc_parent_authority s)"
    "1 \<le> sc_max_concurrency s" "sc_max_concurrency s \<le> MAX_SCHEDULER_CONCURRENCY"
    "plan_fingerprint (sc_plan s) = Inr pf" "restore_from re (recovered A (ep_task_id (sc_plan s)) pf) s = Inr s'"
  shows "tracks A s'"
proof -
  let ?task = "ep_task_id (sc_plan s)" and ?r = "recovered A (ep_task_id (sc_plan s)) pf"
  note R = assms(7) [unfolded restore_from_iff [OF assms(2)]]
  have s': "s' = rebuilt ?r s" using R by (simp add: restores_def)
  have r: "rs_dispatches ?r = tickets_of A ?task pf" "rs_observations ?r = reports_of A ?task pf" by (simp_all add: recovered_def Let_def)
  have p: "sc_plan s' = sc_plan s" by (simp add: s')
  have obs: "set (sc_observations s') = report_entry ` scope_reports A ?task pf" by (simp add: s' r listed(2))
  have rec: "set (sc_recovery_required s') = (\<lambda>t. (dt_node_id t, t)) ` {t \<in> scope_tickets A ?task pf. dt_node_id t \<notin> ob_node_id ` scope_reports A ?task pf}"
    "sc_in_flight s' = []"
    using rebuilt_fields(1) [OF assms(2)] by (auto simp: s' rebuilt_fields(3) r listed by_node_def)
  have sub: "ob_node_id ` scope_reports A ?task pf \<subseteq> dt_node_id ` scope_tickets A ?task pf"
  proof (rule image_subsetI)
    fix b assume "b \<in> scope_reports A ?task pf"
    from scope_settled [OF assms(1) this] show "ob_node_id b \<in> dt_node_id ` scope_tickets A ?task pf" by (metis imageI)
  qed
  have "fst ` set (active s') = dt_node_id ` {t \<in> scope_tickets A ?task pf. dt_node_id t \<notin> ob_node_id ` scope_reports A ?task pf}"
    by (simp add: rec image_image)
  then have tr: "tracked s' = dt_node_id ` scope_tickets A ?task pf"
    using sub unfolding tracked_def obs report_entries by blast
  show ?thesis
  proof (rule tracksI [of s' A pf ?task])
    show "sched_inv s'" by (rule restored_inv [OF assms(2,7,3-5)])
    show "ticket_for s' (dt_node_id t) t" if "t \<in> scope_tickets A ?task pf" for t
      using restored_ticket [OF assms(2,7)] that by (simp add: r listed)
    have "distinct (map dt_dispatch_sequence (rs_dispatches ?r))" using R by blast
    then show "inj_on dt_dispatch_sequence (scope_tickets A ?task pf)" by (simp add: r distinct_map listed)
    show "t \<in> scope_tickets A ?task pf" if "(i, t) \<in> set (active s')" for i t using that by (auto simp: rec)
    show "set (sc_approved_nodes s') = {i \<in> tracked s'. needs_approval (sc_plan s') i}"
      using rebuilt_fields(2) [OF assms(2), of ?r] by (auto simp: s' r listed tr [unfolded s'])
    show "sc_cancelled s'" if "rc_reasons A (?task, pf) \<noteq> []" using that by (simp add: s' rebuilt_def recovered_def Let_def)
    show "\<exists>d. scheduler_evaluate s' (ordered_observations s') (sc_approved_nodes s') = Inr d" using R by (auto simp: restores_def)
  qed (use assms(1,6) obs tr in \<open>simp_all add: p\<close>)
qed

lemma plan_node_id:
  assumes "plan_validate p parent = Inr q" "n \<in> set (ep_nodes p)"
  shows "strip (en_node_id n) \<noteq> []"
proof -
  from assms obtain w levels where w: "validated_workflow p = Inr w" "projects w levels n" by (auto simp: plan_validate_iff list_all_iff)
  from w(2) obtain s where "by_id (wf_nodes w) (en_node_id n) = Some s" by (auto simp: projects_def)
  with by_id_Some validated_workflow_ok [OF w(1)] have "node_ok s" "nd_id s = en_node_id n" by (auto simp: contract_ok_def list_all_iff)
  then have "NODE_ID_RE (en_node_id n)" by (auto simp: node_ok_def)
  from lower_strip_id [OF NODE_ID_RE_chars [OF this]] plan_nodes_wf(2) [OF assms] show ?thesis by (auto simp: lower_def)
qed

section \<open>Repositories of receipts\<close>

text \<open>What the scheduler relies on. \<open>logs A w\<close> relates the world to a log; every recording operation appends its receipt
  or raises without a trace, and loading returns the log.\<close>

locale receipt_repository =
  fixes rp :: "'w repository" and logs :: "receipts \<Rightarrow> 'w \<Rightarrow> bool"
  assumes logs_wf: "logs A w \<Longrightarrow> wf_receipts A"
    and initialize: "logs A w \<Longrightarrow> rp_initialize rp w = (ri, w') \<Longrightarrow> logs A w'"
    and record_dispatch: "logs A w \<Longrightarrow> rp_record_dispatch rp t w = (rd, w') \<Longrightarrow>
      (\<exists>x. rd = Inl x) \<and> logs A w' \<or> rd = Inr t \<and> logs (add_ticket t A) w'"
    and record_observation: "logs A w \<Longrightarrow> genuine b \<Longrightarrow> rp_record_observation rp b w = (ro, w') \<Longrightarrow>
      (\<exists>x. ro = Inl x) \<and> logs A w' \<or> ro = Inr b \<and> logs (add_observation b A) w'"
    and record_cancellation: "logs A w \<Longrightarrow> rp_record_cancellation rp task_id pf reason w = (rc, w') \<Longrightarrow>
      \<exists>B. logs B w' \<and> rc_tickets B = rc_tickets A \<and> rc_observations B = rc_observations A"
    and load: "logs A w \<Longrightarrow> rp_load rp task_id pf w = Inr state \<Longrightarrow> state = recovered A task_id pf"

text \<open>A scheduler at work: operations with any arguments, successful or not, on observations with genuine floats, while
  other parties change the world. The identifiers of new receipts are not those of recorded ones (they are
  truncated SHA-256 digests of the content).\<close>

inductive durable_step :: "'w guards \<Rightarrow> ('w \<Rightarrow> string set) \<Rightarrow> ('w \<Rightarrow> 'w \<Rightarrow> bool) \<Rightarrow> scheduler \<times> 'w \<Rightarrow> scheduler \<times> 'w \<Rightarrow> bool" for g ids env where
  dispatch: "issue_dispatch g i ok (s, w) = (r, x) \<Longrightarrow> (\<And>t. r = Inr t \<Longrightarrow> dt_ticket_id t \<notin> ids w) \<Longrightarrow> durable_step g ids env (s, w) x"
| accept: "accept_observation g b (s, w) = (r, x) \<Longrightarrow> genuine b \<Longrightarrow> ob_observation_id b \<notin> ids w \<Longrightarrow> durable_step g ids env (s, w) x"
| cancelling: "cancel g reason (s, w) = (r, x) \<Longrightarrow> durable_step g ids env (s, w) x"
| world: "env w w' \<Longrightarrow> durable_step g ids env (s, w) (s, w')"

abbreviation durable_run :: "'w guards \<Rightarrow> ('w \<Rightarrow> string set) \<Rightarrow> ('w \<Rightarrow> 'w \<Rightarrow> bool) \<Rightarrow> scheduler \<times> 'w \<Rightarrow> scheduler \<times> 'w \<Rightarrow> bool" where
  "durable_run g ids env \<equiv> (durable_step g ids env)\<^sup>*\<^sup>*"

text \<open>Such a run is one of the scheduler's runs, to which its invariants apply.\<close>

lemma durable_sched: "durable_run g ids env x y \<Longrightarrow> sched_run g env x y"
proof (induction rule: rtranclp_induct)
  case (step y z)
  have "sched_step g env y z"
    using step.hyps(2) by cases (use sched_step.intros in \<open>metis snd_conv\<close>)+
  with step.IH show ?case by (rule rtranclp.rtrancl_into_rtrancl)
qed simp

definition receipt_ids :: "receipts \<Rightarrow> string set" where
  "receipt_ids A = dt_ticket_id ` set (rc_tickets A) \<union> ob_observation_id ` set (rc_observations A)"

text \<open>The same scheduler with a repository of receipts, in a world whose other parties keep the log.\<close>

locale recoverable = receipt_repository rp logs for rp :: "'w repository" and logs :: "receipts \<Rightarrow> 'w \<Rightarrow> bool" +
  fixes g :: "'w guards" and ids :: "'w \<Rightarrow> string set" and env :: "'w \<Rightarrow> 'w \<Rightarrow> bool"
  assumes repository: "gd_repository g = Some rp"
    and identifiers: "logs A w \<Longrightarrow> ids w = receipt_ids A"
    and assert_active: "logs A w \<Longrightarrow> gd_assert_active g w = (ra, w') \<Longrightarrow> logs A w'"
    and reserve_steps: "logs A w \<Longrightarrow> gd_reserve_steps g n w = (rs, w') \<Longrightarrow> logs A w'"
    and environment: "logs A w \<Longrightarrow> env w w' \<Longrightarrow> logs A w'"
begin

lemma recording_world:
  assumes "record_with g f msg (s, w) = (r, (s', w'))"
  shows "s' = s \<and> (\<exists>q. f rp w = (q, w') \<and> ((\<exists>e. r = Inl e) \<longleftrightarrow> (\<exists>e. q = Inl e)))"
  using assms by (cases "f rp w"; cases "fst (f rp w)")
    (auto simp: record_with_def repository bindA_def exceptA_def onsnd_def readA_def split: sum.splits)

lemma recording_shape: "\<exists>r v. record_with g f msg (s, w) = (r, (s, v))"
proof -
  obtain r x where "record_with g f msg (s, w) = (r, x)" by (metis surj_pair)
  with record_with_scheduler [of g f msg "(s, w)"] show ?thesis by (cases x) auto
qed

lemma revalidate_world:
  assumes "logs A w" "revalidate_runtime g n (s, w) = (r, (s', w'))"
  shows "logs A w'"
proof -
  obtain q v where v: "gd_assert_active g w = (q, v)" by fastforce
  have "w' = w \<or> w' = v"
    using assms(2) v unfolding revalidate_runtime_def by (auto simp: bindA_def readA_def exceptA_def onsnd_def split: sum.splits prod.splits)
  with assms(1) assert_active [OF assms(1) v] show ?thesis by blast
qed

lemma dispatch_error_world:
  assumes "logs A w" "issue_dispatch g i ok (s, w) = (Inl e, x)"
  shows "logs A (snd x)"
proof (cases "dispatch_guard s i ok")
  case (Inl d)
  with assms show ?thesis by (auto simp: issue_dispatch_def bindA_read)
next
  case (Inr nb)
  obtain n bs where nb: "nb = (n, bs)" by fastforce
  obtain r1 w1 where r1: "revalidate_runtime g n (s, w) = (r1, (s, w1))"
    using revalidate_scheduler [of g n "(s, w)"] by (metis fst_conv prod.collapse)
  obtain r2 w2 where r2: "gd_reserve_steps g 1 w1 = (r2, w2)" by fastforce
  have l1: "logs A w1" by (rule revalidate_world [OF assms(1) r1])
  have l2: "logs A w2" by (rule reserve_steps [OF l1 r2])
  show ?thesis
  proof (cases "(\<exists>d. r1 = Inl d) \<or> (\<exists>d. r2 = Inl d)")
    case True
    with assms(2) Inr nb r1 r2 l1 l2 show ?thesis
      by (cases r1; cases r2) (auto simp: issue_dispatch_def bindA_def readA_def exceptA_def onsnd_def)
  next
    case False
    then have c: "complete_dispatch g i n bs (s, w2) = (Inl e, x)"
      using assms(2) Inr nb r1 r2 by (cases r1; cases r2) (auto simp: issue_dispatch_def bindA_def readA_def exceptA_def onsnd_def)
    show ?thesis
    proof (cases "make_ticket (bump s) n bs")
      case (Inl d)
      with c l2 show ?thesis by (auto simp: complete_dispatch_def bindA_def readA_def modifyA_def)
    next
      case (Inr t)
      obtain r3 w3 where r3: "ticket_recording g i t (bump s, w2) = (r3, (bump s, w3))"
        using record_with_scheduler [of g _ _ "(bump s, w2)"] by (metis fst_conv prod.collapse)
      have "\<exists>d. r3 = Inl d" and x: "snd x = w3"
        using c Inr r3 by (cases r3; auto simp: complete_dispatch_def bindA_def readA_def modifyA_def)+
      then obtain q y where q: "rp_record_dispatch rp t w2 = (q, w3)" "q = Inl y" using recording_world [OF r3] by blast
      with record_dispatch [OF l2 q(1)] show ?thesis by (simp add: x)
    qed
  qed
qed

text \<open>Every step keeps the log and the scheduler together.\<close>

lemma dispatch_step:
  assumes "logs A w" "tracks A s" "issue_dispatch g i ok (s, w) = (r, (s', w'))" "\<And>t. r = Inr t \<Longrightarrow> dt_ticket_id t \<notin> ids w"
  shows "\<exists>B. logs B w' \<and> tracks B s'"
proof (cases r)
  case (Inl e)
  with assms(3) have "logs A w'" using dispatch_error_world [OF assms(1)] by fastforce
  moreover have "s' = s \<or> s' = bump s" using issue_dispatch_error [of g i ok s w e "(s', w')"] assms(3) Inl by auto
  ultimately show ?thesis using assms(2) tracks_bump by blast
next
  case (Inr t)
  obtain n bs w1 w2 where d: "dispatch_guard s i ok = Inr (n, bs)" "revalidate_runtime g n (s, w) = (Inr (), (s, w1))"
      "gd_reserve_steps g 1 w1 = (Inr (), w2)" "make_ticket (bump s) n bs = Inr t"
      "ticket_recording g i t (bump s, w2) = (Inr (), (bump s, w'))" "s' = note_dispatched n t (bump s)"
    using assms(3) unfolding Inr issue_dispatch_iff by blast
  have l2: "logs A w2" by (rule reserve_steps [OF revalidate_world [OF assms(1) d(2)] d(3)])
  obtain q where "rp_record_dispatch rp t w2 = (q, w')" "\<nexists>e. q = Inl e" using recording_world [OF d(5)] by auto
  with record_dispatch [OF l2] have l: "logs (add_ticket t A) w'" by blast
  have "dt_ticket_id t \<notin> dt_ticket_id ` set (rc_tickets A)" using assms(4) [OF Inr] identifiers [OF assms(1)] by (simp add: receipt_ids_def)
  from tracks_dispatch [OF assms(2) d(1,4) logs_wf [OF l] this] l show ?thesis by (auto simp: d(6))
qed

lemma accept_step:
  assumes "logs A w" "tracks A s" "accept_observation g b (s, w) = (r, (s', w'))" "genuine b" "ob_observation_id b \<notin> ids w"
  shows "\<exists>B. logs B w' \<and> tracks B s'"
proof (cases "observation_guard s b")
  case (Inl e)
  with assms show ?thesis by (auto simp: accept_observation_def bindA_read)
next
  case (Inr u)
  let ?rec = "record_with g (\<lambda>rp. rp_record_observation rp b) (''SCHEDULER_CHECKPOINT_OBSERVATION_FAILED:'' @ ob_node_id b)"
  obtain r1 w1 where r1: "?rec (s, w) = (r1, (s, w1))"
    using recording_shape [of "\<lambda>rp. rp_record_observation rp b" "''SCHEDULER_CHECKPOINT_OBSERVATION_FAILED:'' @ ob_node_id b" s w] by (elim exE)
  obtain q where q: "rp_record_observation rp b w = (q, w1)" "(\<exists>e. r1 = Inl e) \<longleftrightarrow> (\<exists>e. q = Inl e)"
    using recording_world [OF r1] by (elim conjE exE)
  have run: "w' = w1 \<and> s' = (case r1 of Inl _ \<Rightarrow> s | Inr _ \<Rightarrow> note_observed b s)"
    using assms(3) Inr r1 by (auto simp: accept_observation_def bindA_def readA_def modifyA_def split: sum.splits)
  show ?thesis
  proof (cases r1)
    case (Inl e)
    with q record_observation [OF assms(1,4) q(1)] run assms(2) show ?thesis by auto
  next
    case (Inr v)
    with q(2) have "\<nexists>e. q = Inl e" by simp
    with record_observation [OF assms(1,4) q(1)] have l: "logs (add_observation b A) w1" by blast
    have "ob_observation_id b \<notin> ob_observation_id ` set (rc_observations A)" using assms(5) identifiers [OF assms(1)] by (simp add: receipt_ids_def)
    from tracks_observed [OF assms(2) \<open>observation_guard s b = Inr u\<close> logs_wf [OF l] this] l run Inr show ?thesis by auto
  qed
qed

lemma cancel_step:
  assumes "logs A w" "tracks A s" "cancel g reason (s, w) = (r, (s', w'))"
  shows "\<exists>B. logs B w' \<and> tracks B s'"
proof (cases "strip reason = []")
  case True
  with assms show ?thesis by (auto simp: cancel_def bindA_def readA_def fail_if_def)
next
  case False
  let ?s = "s\<lparr>sc_cancelled := True, sc_cancellation_reason := Some (strip reason)\<rparr>"
  from tracks_plan [OF assms(2)] obtain pf where pf: "plan_fingerprint (sc_plan s) = Inr pf" by blast
  have "record_with g (\<lambda>rp. rp_record_cancellation rp (ep_task_id (sc_plan s)) pf (strip reason)) ''SCHEDULER_CHECKPOINT_CANCELLATION_FAILED'' (?s, w) = (r, (s', w'))"
    using assms(3) False by (auto simp: cancel_def bindA_def readA_def modifyA_def fail_if_def pf)
  from recording_world [OF this] obtain q where q: "s' = ?s" "rp_record_cancellation rp (ep_task_id (sc_plan s)) pf (strip reason) w = (q, w')" by blast
  from record_cancellation [OF assms(1) q(2)] obtain B where B: "logs B w'" "rc_tickets B = rc_tickets A" "rc_observations B = rc_observations A" by blast
  have inv: "sched_inv s'" "grows s s'"
    using cancel_inv [of "(s, w)" g reason] assms(2,3) by (simp_all add: tracks_def)
  have "tracks B s'" using B(2,3) q(1) logs_wf [OF B(1)] by (intro tracks_same [OF assms(2) inv(2,1)]) simp_all
  with B(1) show ?thesis by blast
qed

lemma step_keeps:
  assumes "durable_step g ids env x y" "logs A (snd x)" "tracks A (fst x)"
  shows "\<exists>B. logs B (snd y) \<and> tracks B (fst y)"
  using assms
proof (cases rule: durable_step.cases)
  case (dispatch i ok s w r)
  with dispatch_step [of A w s i ok r "fst y" "snd y"] assms(2,3) show ?thesis by simp
next
  case (accept b s w r)
  with accept_step [of A w s b r "fst y" "snd y"] assms(2,3) show ?thesis by simp
next
  case (cancelling reason s w r)
  with cancel_step [of A w s reason r "fst y" "snd y"] assms(2,3) show ?thesis by simp
next
  case (world w w' s)
  with environment assms(2,3) show ?thesis by fastforce
qed

lemma run_keeps: "durable_run g ids env x y \<Longrightarrow> logs A (snd x) \<Longrightarrow> tracks A (fst x) \<Longrightarrow> \<exists>B. logs B (snd y) \<and> tracks B (fst y)"
  by (induction rule: rtranclp_induct) (use step_keeps in blast)+

text \<open>A scheduler that was created tracks the log, and a crash at any later moment loses nothing.\<close>

lemma started:
  assumes "logs A w0" "new_scheduler g c p a n re w0 = (Inr s, w)"
  shows "logs A w \<and> tracks A s"
proof -
  note N = assms(2) [unfolded new_scheduler_iff restore_checkpoint_iff repository option.case]
  let ?f = "fresh_scheduler c p a n"
  have f: "sc_plan ?f = p" "sc_task_context ?f = c" "sc_parent_authority ?f = a" "sc_max_concurrency ?f = n" "pristine ?f"
    by (simp_all add: fresh_scheduler_def) (auto simp: pristine_def fresh_scheduler_def)
  obtain pf r where r: "rp_initialize rp w0 = (Inr (), w)" "plan_fingerprint p = Inr pf" "rp_load rp (ep_task_id p) pf w = Inr r" "restore_from re r ?f = Inr s"
    using N by (auto simp: f)
  have l: "logs A w" by (rule initialize [OF assms(1) r(1)])
  have "1 \<le> n" "n \<le> MAX_SCHEDULER_CONCURRENCY" "bound c p a" using N by (auto simp: scheduler_checks_iff evaluate_iff)
  then have "tracks A s"
    using tracks_restored [OF logs_wf [OF l] f(5), of pf re s] r(2,4) load [OF l r(3)] by (simp add: f)
  with l show ?thesis by blast
qed

lemma recovery:
  assumes "logs A w" "tracks A s" "rp_initialize rp w = (Inr (), w')" "plan_fingerprint (sc_plan s) = Inr pf"
    "rp_load rp (ep_task_id (sc_plan s)) pf w' = Inr r" "set re = {i \<in> tracked s. needs_approval (sc_plan s) i}"
  shows "\<exists>s'. new_scheduler g (sc_task_context s) (sc_plan s) (sc_parent_authority s) (sc_max_concurrency s) re w = (Inr s', w') \<and> recovers s s'"
proof -
  let ?f = "fresh_scheduler (sc_task_context s) (sc_plan s) (sc_parent_authority s) (sc_max_concurrency s)"
  note inv = sched_invD [OF tracksD(1) [OF assms(2,4) refl]]
  have v: "plan_validate (sc_plan s) (Some (sc_parent_authority s)) = Inr (sc_plan s)" using inv(1) by (simp add: bound_def)
  have f: "sc_plan ?f = sc_plan s" by (simp add: fresh_scheduler_def)
  have r: "r = recovered A (ep_task_id (sc_plan s)) pf" by (rule load [OF initialize [OF assms(1,3)] assms(5)])
  obtain s' where s': "restore_from re r ?f = Inr s'" "recovers s s'" using restore_tracked [OF assms(2,4,6)] unfolding r by blast
  have node: "\<exists>m. node_map (sc_plan s) i = Some m" "strip i \<noteq> []" if "i \<in> set re" for i
  proof -
    from that assms(6) obtain m where m: "node_map (sc_plan s) i = Some m" by (auto simp: needs_approval_def)
    moreover have "m \<in> set (ep_nodes (sc_plan s))" using m nodes_by_id_distinct [OF plan_ordered(2) [OF v]] by (simp add: node_map_def)
    ultimately show "\<exists>m. node_map (sc_plan s) i = Some m" "strip i \<noteq> []" using plan_node_id [OF v] node_map_id by auto
  qed
  have "\<exists>d. evaluate (sc_task_context s) (sc_plan s) (sc_parent_authority s) [] [] = Inr d"
    using inv(1) assms(4) by (simp add: evaluate_iff approvals_ok_def)
  then have "scheduler_checks g (sc_task_context s) (sc_plan s) (sc_parent_authority s) (sc_max_concurrency s) re = Inr ()"
    using inv(11,12) node by (simp add: scheduler_checks_iff repository)
  moreover have "restore_checkpoint g re (?f, w) = (Inr (), (s', w'))"
    unfolding restore_checkpoint_iff repository option.case f using node(1) assms(3-5) s'(1) by auto
  ultimately show ?thesis using s'(2) unfolding new_scheduler_iff by blast
qed

end
end
