(* ===== verification/Execution_Budget.thy ===== *)
theory Execution_Budget
  imports Task_Store Effects
begin

text \<open>
  Models of \<open>src/three_agent/sqlite_budget_guard.py\<close>, \<open>src/three_agent/execution_budget.py\<close> and
  \<open>src/three_agent/linked_execution_budget.py\<close>: the bounded retry around one budget transaction, the
  per-task budget, and the child budget whose reservations are charged to an aggregate parent in the
  same transaction. Transactions of different threads and processes are serialised by SQLite, so
  concurrent use is a sequence of operations in some order; the results below hold for every sequence.
  A budget write commits and then reads its row back on a new connection, so a lock can also be met after the commit;
  the retry loop keeps what was committed, and \<open>reserve_contended\<close> says what a call then charges. The process-local lock
  around the loop and the delay between attempts have no effect on the tables and are not modelled.
\<close>

section \<open>Bounded retry\<close>

definition SQLITE_BUDGET_LOCK_RETRY_ATTEMPTS :: int where "SQLITE_BUDGET_LOCK_RETRY_ATTEMPTS = 2"

definition is_lock_error :: "string \<Rightarrow> bool" where
  "is_lock_error msg = (let m = lower msg in contains ''database is locked'' m \<or> contains ''database is busy'' m)"

text \<open>An attempt may meet a \<open>sqlite3.OperationalError\<close>: \<open>Refused\<close> before its transaction commits, which has no effect, or \<open>Unread\<close>
  when the row is read back on a new connection after the commit, so that the transaction has taken effect.\<close>

datatype lock_fault = Refused string | Unread string

text \<open>The loop over the attempts; \<open>env i\<close> is the error of attempt \<open>i\<close>, if it meets one. The operation is called anew in every attempt.\<close>

fun attempt_loop :: "(nat \<Rightarrow> lock_fault option) \<Rightarrow> (nat \<Rightarrow> 'a op) \<Rightarrow> nat \<Rightarrow> nat \<Rightarrow> (store, 'a) action" where
  "attempt_loop env operation attempt 0 s = (raise AssertionError ''unreachable'', s)"
| "attempt_loop env operation attempt (Suc left) s = (case env attempt of
     Some (Refused m) \<Rightarrow> if \<not> is_lock_error m \<or> left = 0 then (raise OperationalError m, s)
       else attempt_loop env operation (Suc attempt) left s
   | Some (Unread m) \<Rightarrow> (case operation attempt s of
         Inl e \<Rightarrow> (Inl e, s)
       | Inr (_, s') \<Rightarrow> if \<not> is_lock_error m \<or> left = 0 then (raise OperationalError m, s')
           else attempt_loop env operation (Suc attempt) left s')
   | None \<Rightarrow> (case operation attempt s of Inl e \<Rightarrow> (Inl e, s) | Inr (x, s') \<Rightarrow> (Inr x, s')))"

definition run_budget_write :: "(nat \<Rightarrow> lock_fault option) \<Rightarrow> int \<Rightarrow> int \<Rightarrow> (nat \<Rightarrow> 'a op) \<Rightarrow> (store, 'a) action" where
  "run_budget_write env attempts retry_delay operation s = (
     if attempts < 1 then (raise ValueError ''attempts must be >= 1'', s)
     else if retry_delay < 0 then (raise ValueError ''retry_delay_seconds must be >= 0'', s)
     else attempt_loop env operation 0 (nat attempts) s)"

section \<open>The budget of one task\<close>

definition BUDGET_EXHAUSTION_CODES :: "string list" where
  "BUDGET_EXHAUSTION_CODES = [''TASK_STEP_BUDGET_EXHAUSTED'', ''TASK_TOOL_CALL_BUDGET_EXHAUSTED'',
     ''TASK_WALL_TIME_BUDGET_EXHAUSTED'', ''MODEL_RETRY_BUDGET_EXHAUSTED'', ''MODEL_ESCALATION_BUDGET_EXHAUSTED'']"

record budget_state =
  bs_db_path :: string
  bs_task_id :: string
  bs_max_steps :: int
  bs_max_tool_calls :: int
  bs_max_model_retries :: int
  bs_max_model_escalations :: int
  bs_max_wall_time_ms :: int
  bs_deadline_at :: stamp

text \<open>\<open>except ValueError as exc\<close>: exhaustion codes become \<open>ExecutionBudgetExceeded\<close>.\<close>

definition translate_exhaustion :: "'a result \<Rightarrow> 'a result" where
  "translate_exhaustion m = (case m of
     Inl (c, code) \<Rightarrow> if is_value_error c \<and> code \<in> set BUDGET_EXHAUSTION_CODES
       then raise ExecutionBudgetExceeded code else Inl (c, code)
   | Inr x \<Rightarrow> Inr x)"

text \<open>The clock is read in every attempt.\<close>

definition from_bound_contract :: "(nat \<Rightarrow> lock_fault option) \<Rightarrow> (nat \<Rightarrow> int) \<Rightarrow> string \<Rightarrow> string \<Rightarrow> (store, budget_state) action" where
  "from_bound_contract env clock db task_id =
     bindA (run_budget_write env SQLITE_BUDGET_LOCK_RETRY_ATTEMPTS 50 (\<lambda>k. bind_task_execution_budget (clock k) task_id))
       (\<lambda>row. readA (\<lambda>_. Inr \<lparr>bs_db_path = db, bs_task_id = task_id, bs_max_steps = bu_max_steps row,
          bs_max_tool_calls = bu_max_tool_calls row, bs_max_model_retries = bu_max_retries row,
          bs_max_model_escalations = bu_max_escalations row, bs_max_wall_time_ms = bu_max_wall_time_ms row,
          bs_deadline_at = bu_deadline_at row\<rparr>))"

definition reserve :: "(nat \<Rightarrow> lock_fault option) \<Rightarrow> (nat \<Rightarrow> int) \<Rightarrow> budget_state \<Rightarrow> deltas \<Rightarrow> (store, unit) action" where
  "reserve env clock st d s = (case run_budget_write env SQLITE_BUDGET_LOCK_RETRY_ATTEMPTS 50
       (\<lambda>k. reserve_task_execution_budget (clock k) (bs_task_id st) d) s of
     (r, s') \<Rightarrow> (translate_exhaustion (bindE r (\<lambda>_. Inr ())), s'))"

definition zero_deltas :: deltas where
  "zero_deltas = \<lparr>dl_steps = 0, dl_tool_calls = 0, dl_retries = 0, dl_escalations = 0\<rparr>"

definition assert_active :: "(nat \<Rightarrow> lock_fault option) \<Rightarrow> (nat \<Rightarrow> int) \<Rightarrow> budget_state \<Rightarrow> (store, unit) action" where
  "assert_active env clock st = reserve env clock st zero_deltas"

section \<open>A child budget linked to its parent\<close>

record linked_state =
  ls_child :: budget_state
  ls_parent_task_id :: string

definition from_states :: "budget_state \<Rightarrow> budget_state \<Rightarrow> linked_state result" where
  "from_states parent child = (
     if bs_task_id parent = bs_task_id child
       then raise ValueError ''linked execution budget requires distinct parent and child tasks''
     else if bs_db_path parent \<noteq> bs_db_path child
       then raise ValueError ''linked execution budgets must share one authoritative TaskStore''
     else Inr \<lparr>ls_child = child, ls_parent_task_id = bs_task_id parent\<rparr>)"

definition linked_transaction :: "int \<Rightarrow> string \<Rightarrow> string \<Rightarrow> deltas \<Rightarrow> unit op" where
  "linked_transaction now parent_id task_id d s = (case st_budgets s parent_id of
     None \<Rightarrow> raise ValueError ''PARENT_TASK_EXECUTION_BUDGET_NOT_BOUND''
   | Some parent \<Rightarrow> (case st_budgets s task_id of
       None \<Rightarrow> raise ValueError ''TASK_EXECUTION_BUDGET_NOT_BOUND''
     | Some child \<Rightarrow>
         bindE (project parent d now) (\<lambda>parent_next.
         bindE (project child d now) (\<lambda>child_next.
         if no_deltas d then Inr ((), s)
         else Inr ((), put_budget task_id child_next (put_budget parent_id parent_next s))))))"

text \<open>The linked transaction reads nothing back, so an attempt can only be refused, and reads the clock once for all attempts.\<close>

definition linked_reserve :: "(nat \<Rightarrow> string option) \<Rightarrow> int \<Rightarrow> linked_state \<Rightarrow> deltas \<Rightarrow> (store, unit) action" where
  "linked_reserve env now ls d = bindA (readA (\<lambda>_. check_deltas d)) (\<lambda>_ s.
     case run_budget_write (\<lambda>k. map_option Refused (env k)) SQLITE_BUDGET_LOCK_RETRY_ATTEMPTS 50
        (\<lambda>_. linked_transaction now (ls_parent_task_id ls) (bs_task_id (ls_child ls)) d) s of
       (r, s') \<Rightarrow> (translate_exhaustion r, s'))"

definition linked_assert_active :: "(nat \<Rightarrow> string option) \<Rightarrow> int \<Rightarrow> linked_state \<Rightarrow> (store, unit) action" where
  "linked_assert_active env now ls = linked_reserve env now ls zero_deltas"

section \<open>Retry\<close>

text \<open>The two attempts of a budget write.\<close>

lemma run_budget_write_two:
  "run_budget_write env SQLITE_BUDGET_LOCK_RETRY_ATTEMPTS 50 f s = attempt_loop env f 0 2 s"
  by (simp add: run_budget_write_def SQLITE_BUDGET_LOCK_RETRY_ATTEMPTS_def)

text \<open>Whatever happens, the operation was executed some number of times, one after the other.\<close>

lemma attempt_loop_keeps:
  assumes "\<And>k s x s'. P s \<Longrightarrow> f k s = Inr (x, s') \<Longrightarrow> P s'" "P s" "attempt_loop env f a left s = (r, s')"
  shows "P s'"
  using assms(2,3)
proof (induction left arbitrary: a s)
  case (Suc left)
  then show ?case
    by (auto split: option.splits lock_fault.splits sum.splits if_splits dest: assms(1))
qed simp

lemma run_budget_write_keeps:
  assumes "\<And>k s x s'. P s \<Longrightarrow> f k s = Inr (x, s') \<Longrightarrow> P s'" "P s" "run_budget_write env n dly f s = (r, s')"
  shows "P s'"
  using assms attempt_loop_keeps [of P f s env 0 "nat n" r s'] by (auto simp: run_budget_write_def split: if_splits)

lemma reserve_keeps:
  assumes "\<And>now s x s'. P s \<Longrightarrow> reserve_task_execution_budget now (bs_task_id st) d s = Inr (x, s') \<Longrightarrow> P s'" "P s" "reserve env clock st d s = (r, s')"
  shows "P s'"
  using assms(3) run_budget_write_keeps [of P "\<lambda>k. reserve_task_execution_budget (clock k) (bs_task_id st) d", OF assms(1,2)]
  by (auto simp: reserve_def split: prod.splits)

section \<open>Sequences of budget operations\<close>

datatype budget_op = BindOp string | ReserveOp string deltas | LinkedOp string string deltas

definition budget_exec :: "int \<Rightarrow> budget_op \<Rightarrow> unit op" where
  "budget_exec now bop s = (case bop of
     BindOp t \<Rightarrow> bindE (bind_task_execution_budget now t s) (\<lambda>(_, s'). Inr ((), s'))
   | ReserveOp t d \<Rightarrow> bindE (reserve_task_execution_budget now t d s) (\<lambda>(_, s'). Inr ((), s'))
   | LinkedOp p t d \<Rightarrow> bindE (check_deltas d) (\<lambda>_. linked_transaction now p t d s))"

text \<open>An operation that raises leaves the database as it was.\<close>

definition budget_step :: "store \<Rightarrow> int \<times> budget_op \<Rightarrow> store" where
  "budget_step s x = (case budget_exec (fst x) (snd x) s of Inl _ \<Rightarrow> s | Inr (_, s') \<Rightarrow> s')"

definition op_charges :: "budget_op \<Rightarrow> string \<Rightarrow> deltas option" where
  "op_charges bop t = (case bop of BindOp _ \<Rightarrow> None | ReserveOp t' d \<Rightarrow> (if t = t' then Some d else None)
     | LinkedOp p c d \<Rightarrow> (if t = p \<or> t = c then Some d else None))"

text \<open>What the accepted operations of a run charge to a task, in one dimension.\<close>

fun charged :: "(deltas \<Rightarrow> int) \<Rightarrow> string \<Rightarrow> store \<Rightarrow> (int \<times> budget_op) list \<Rightarrow> int" where
  "charged f t s [] = 0"
| "charged f t s (x # xs) = (case budget_exec (fst x) (snd x) s of
      Inl _ \<Rightarrow> 0
    | Inr _ \<Rightarrow> (case op_charges (snd x) t of None \<Rightarrow> 0 | Some d \<Rightarrow> f d))
    + charged f t (budget_step s x) xs"

lemma linked_iff:
  "linked_transaction now p t d s = Inr (u, s') \<longleftrightarrow> (\<exists>rp rt. st_budgets s p = Some rp \<and> st_budgets s t = Some rt
     \<and> project rp d now = Inr (charge d now rp) \<and> project rt d now = Inr (charge d now rt)
     \<and> s' = (if no_deltas d then s else put_budget t (charge d now rt) (put_budget p (charge d now rp) s)))"
  by (auto simp: linked_transaction_def bindE_Inr_iff project_iff split: option.splits if_splits)

definition same_limits :: "budget_row \<Rightarrow> budget_row \<Rightarrow> bool" where
  "same_limits r q \<longleftrightarrow> row_limits r = row_limits q \<and> bu_deadline_at r = bu_deadline_at q \<and> bu_bound_at r = bu_bound_at q"

definition used_plus :: "budget_row \<Rightarrow> deltas \<Rightarrow> budget_row \<Rightarrow> bool" where
  "used_plus r d q \<longleftrightarrow> bu_steps_used q = bu_steps_used r + dl_steps d \<and> bu_tool_calls_used q = bu_tool_calls_used r + dl_tool_calls d
     \<and> bu_retries_used q = bu_retries_used r + dl_retries d \<and> bu_escalations_used q = bu_escalations_used r + dl_escalations d"

lemma charge_facts: "same_limits (charge d now r) r" "used_plus r d (charge d now r)"
  "legacy_row (charge d now r) = legacy_row r" "no_deltas d \<Longrightarrow> used_plus r d r"
  by (simp_all add: same_limits_def used_plus_def charge_def row_limits_def legacy_row_def no_deltas_def)

text \<open>One successful operation, seen from one bound row: its limits stay and its counters grow by what
  the operation charges to it.\<close>

lemma budget_exec_row:
  assumes "budget_exec now bop s = Inr (u, s')" "st_budgets s t = Some r" "\<not> legacy_row r"
  shows "\<exists>q. st_budgets s' t = Some q \<and> \<not> legacy_row q \<and> same_limits q r
    \<and> used_plus r (case op_charges bop t of None \<Rightarrow> zero_deltas | Some d \<Rightarrow> d) q"
proof -
  have refl: "same_limits r r" "used_plus r zero_deltas r"
    by (simp_all add: same_limits_def used_plus_def zero_deltas_def)
  show ?thesis
  proof (cases bop)
    case (BindOp t')
    with assms(1) obtain q where q: "bind_task_execution_budget now t' s = Inr (q, s')"
      by (auto simp: budget_exec_def)
    show ?thesis
    proof (cases "t = t'")
      case True
      with bind_row(8) [OF q] assms have "q = r" by auto
      with bind_row(1) [OF q] True refl assms BindOp show ?thesis by (simp add: op_charges_def)
    next
      case False
      with bind_row(2) [OF q] refl assms BindOp show ?thesis by (simp add: op_charges_def)
    qed
  next
    case (ReserveOp t' d)
    with assms(1) obtain q where q: "reserve_task_execution_budget now t' d s = Inr (q, s')"
      by (auto simp: budget_exec_def)
    with assms ReserveOp refl charge_facts show ?thesis
      by (cases "no_deltas d"; cases "t = t'") (auto simp: reserve_iff op_charges_def)
  next
    case (LinkedOp p c d)
    with assms(1) have "linked_transaction now p c d s = Inr (u, s')" by (auto simp: budget_exec_def)
    with assms LinkedOp refl charge_facts show ?thesis
      by (cases "no_deltas d"; cases "t = c"; cases "t = p") (auto simp: linked_iff op_charges_def)
  qed
qed

lemma budget_exec_wf:
  assumes "budget_exec now bop s = Inr (u, s')" "budgets_wf s"
  shows "budgets_wf s'"
proof (cases bop)
  case (BindOp t)
  with assms(1) obtain q where q: "bind_task_execution_budget now t s = Inr (q, s')" by (auto simp: budget_exec_def)
  have "row_ok q"
  proof (cases "st_budgets s t")
    case None
    with bind_row(4,9) [OF q] show ?thesis by (simp add: row_ok_def)
  next
    case (Some r)
    with assms(2) have "row_ok r" by (auto simp: budgets_wf_def)
    moreover have "0 \<le> bu_max_steps q" "0 \<le> bu_max_tool_calls q"
      using bind_row(3) [OF q] limits_nonneg [of t s "row_limits q"] by (auto simp: row_limits_def)
    ultimately show ?thesis
      using bind_row(8) [OF q Some] bind_row(4) [OF q] bind_retry [OF q Some]
      by (auto simp: row_ok_def counters_ok_def)
  qed
  with assms(2) bind_row(2) [OF q] show ?thesis by (auto simp: budgets_wf_def)
next
  case (ReserveOp t d)
  with assms show ?thesis by (auto simp: budget_exec_def dest!: reserve_wf)
next
  case (LinkedOp p t d)
  with assms(1) have d: "deltas_ok d" and l: "linked_transaction now p t d s = Inr (u, s')"
    by (auto simp: budget_exec_def)
  from l obtain rp rt where r: "st_budgets s p = Some rp" "st_budgets s t = Some rt"
    "project rp d now = Inr (charge d now rp)" "project rt d now = Inr (charge d now rt)"
    "s' = (if no_deltas d then s else put_budget t (charge d now rt) (put_budget p (charge d now rp) s))"
    by (auto simp: linked_iff)
  have "row_ok (charge d now rp)" "row_ok (charge d now rt)"
    using project_ok(2) [OF r(3) d] project_ok(2) [OF r(4) d] r(1,2) assms(2) by (auto simp: budgets_wf_def)
  with assms(2) r(5) show ?thesis by (auto intro!: budgets_wf_put)
qed

lemma budget_step_wf: "budgets_wf s \<Longrightarrow> budgets_wf (budget_step s x)"
  using budget_exec_wf by (auto simp: budget_step_def split: sum.splits)

lemma budgets_wf_run: "budgets_wf s \<Longrightarrow> budgets_wf (foldl budget_step s ops)"
  by (induction ops arbitrary: s) (auto simp: budget_step_wf)

lemma same_limits_trans: "same_limits a b \<Longrightarrow> same_limits b c \<Longrightarrow> same_limits a c"
  by (simp add: same_limits_def)

text \<open>Over a whole run, the counters of a bound task are its initial counters plus what the accepted
  operations charged to it.\<close>

lemma run_charges:
  assumes "st_budgets s t = Some r" "\<not> legacy_row r"
  shows "\<exists>q. st_budgets (foldl budget_step s ops) t = Some q \<and> \<not> legacy_row q \<and> same_limits q r
    \<and> bu_steps_used q = bu_steps_used r + charged dl_steps t s ops
    \<and> bu_tool_calls_used q = bu_tool_calls_used r + charged dl_tool_calls t s ops
    \<and> bu_retries_used q = bu_retries_used r + charged dl_retries t s ops
    \<and> bu_escalations_used q = bu_escalations_used r + charged dl_escalations t s ops"
  using assms
proof (induction ops arbitrary: s r)
  case Nil
  then show ?case by (simp add: same_limits_def)
next
  case (Cons x xs)
  show ?case
  proof (cases "budget_exec (fst x) (snd x) s")
    case (Inl e)
    then have "budget_step s x = s" by (simp add: budget_step_def)
    with Cons.IH [OF Cons.prems] Inl show ?thesis by simp
  next
    case (Inr us)
    then obtain u s1 where e: "budget_exec (fst x) (snd x) s = Inr (u, s1)" by (cases us) auto
    then have st: "budget_step s x = s1" by (simp add: budget_step_def)
    from budget_exec_row [OF e Cons.prems] obtain q1 where q1: "st_budgets s1 t = Some q1" "\<not> legacy_row q1"
      "same_limits q1 r" "used_plus r (case op_charges (snd x) t of None \<Rightarrow> zero_deltas | Some d \<Rightarrow> d) q1" by blast
    from Cons.IH [OF q1(1,2)] obtain q where q: "st_budgets (foldl budget_step s1 xs) t = Some q" "\<not> legacy_row q"
      "same_limits q q1" "bu_steps_used q = bu_steps_used q1 + charged dl_steps t s1 xs"
      "bu_tool_calls_used q = bu_tool_calls_used q1 + charged dl_tool_calls t s1 xs"
      "bu_retries_used q = bu_retries_used q1 + charged dl_retries t s1 xs"
      "bu_escalations_used q = bu_escalations_used q1 + charged dl_escalations t s1 xs" by blast
    with q1 same_limits_trans [OF q(3) q1(3)] e st show ?thesis
      by (intro exI [of _ q]) (auto simp: used_plus_def zero_deltas_def split: option.splits)
  qed
qed

section \<open>Properties\<close>

text \<open>C7: budgets are conserved and bounded under every interleaving. Start from a database whose rows
  are within their limits and run any sequence of bindings, reservations and linked reservations, by
  any tasks and at any times. A bound task keeps its limits and its deadline; its counters are the
  initial ones plus exactly what the accepted operations charged to it (directly, as a child, or as
  the aggregate parent of any number of children); and they never exceed the limits.\<close>

theorem budget_conservation:
  assumes "budgets_wf s" "st_budgets s t = Some r" "\<not> legacy_row r"
  shows "\<exists>q. st_budgets (foldl budget_step s ops) t = Some q \<and> same_limits q r \<and> counters_ok q
    \<and> bu_steps_used q = bu_steps_used r + charged dl_steps t s ops
    \<and> bu_tool_calls_used q = bu_tool_calls_used r + charged dl_tool_calls t s ops
    \<and> bu_retries_used q = bu_retries_used r + charged dl_retries t s ops
    \<and> bu_escalations_used q = bu_escalations_used r + charged dl_escalations t s ops"
proof -
  from run_charges [OF assms(2,3), of ops] obtain q where q: "st_budgets (foldl budget_step s ops) t = Some q"
    "\<not> legacy_row q" "same_limits q r" "bu_steps_used q = bu_steps_used r + charged dl_steps t s ops"
    "bu_tool_calls_used q = bu_tool_calls_used r + charged dl_tool_calls t s ops"
    "bu_retries_used q = bu_retries_used r + charged dl_retries t s ops"
    "bu_escalations_used q = bu_escalations_used r + charged dl_escalations t s ops" by blast
  moreover have "counters_ok q"
    using budgets_wf_run [OF assms(1), of ops] q(1,2) by (auto simp: budgets_wf_def row_ok_def legacy_row_def)
  ultimately show ?thesis by blast
qed

definition demo_row :: "int \<Rightarrow> budget_row" where
  "demo_row n = \<lparr>bu_max_steps = n, bu_max_tool_calls = n, bu_max_retries = n, bu_max_escalations = n,
     bu_max_wall_time_ms = 1, bu_steps_used = 0, bu_tool_calls_used = 0, bu_retries_used = 0,
     bu_escalations_used = 0, bu_deadline_at = At 1000, bu_bound_at = At 0, bu_updated_at = 0\<rparr>"

definition demo_budgets :: store where
  "demo_budgets = empty_store\<lparr>st_budgets := [''p'' \<mapsto> demo_row 2, ''c'' \<mapsto> demo_row 2, ''d'' \<mapsto> demo_row 2]\<rparr>"

definition one_step :: deltas where
  "one_step = zero_deltas\<lparr>dl_steps := 1\<rparr>"

text \<open>Two children with two steps each, under a parent with two steps: the third reservation fails.\<close>

definition demo_ops :: "(int \<times> budget_op) list" where
  "demo_ops = [(1, LinkedOp ''p'' ''c'' one_step), (2, LinkedOp ''p'' ''d'' one_step),
     (3, LinkedOp ''p'' ''c'' one_step)]"

theorem budget_conservation_witness:
  "charged dl_steps ''p'' demo_budgets demo_ops = 2
   \<and> (\<exists>q. st_budgets (foldl budget_step demo_budgets demo_ops) ''p'' = Some q \<and> bu_steps_used q = 2)"
proof -
  have c: "charged dl_steps ''p'' demo_budgets demo_ops = 2" by code_simp
  have s: "st_budgets demo_budgets ''p'' = Some (demo_row 2)" by (simp add: demo_budgets_def)
  have "row_ok (demo_row 2)" "\<not> legacy_row (demo_row 2)" by code_simp+
  moreover then have "budgets_wf demo_budgets" by (auto simp: budgets_wf_def demo_budgets_def empty_store_def split: if_splits)
  ultimately show ?thesis
    using budget_conservation [OF _ s, of demo_ops] c by (auto simp: demo_row_def)
qed

text \<open>Binding is idempotent across restarts. Once a budget is bound, a later successful binding at any
  time, after any run of budget operations, returns the stored row: the counters and the deadline are
  those of the database, never reset or extended, and nothing is written.\<close>

theorem rebinding_preserves:
  assumes "bind_task_execution_budget now t s = Inr (r, s')"
    and "bind_task_execution_budget now' t (foldl budget_step s' ops) = Inr (q, s'')"
  shows "s'' = foldl budget_step s' ops \<and> st_budgets s'' t = Some q \<and> bu_deadline_at q = bu_deadline_at r
    \<and> bu_steps_used q = bu_steps_used r + charged dl_steps t s' ops
    \<and> bu_tool_calls_used q = bu_tool_calls_used r + charged dl_tool_calls t s' ops
    \<and> bu_retries_used q = bu_retries_used r + charged dl_retries t s' ops
    \<and> bu_escalations_used q = bu_escalations_used r + charged dl_escalations t s' ops"
proof -
  note b = bind_row [OF assms(1)]
  from run_charges [OF b(1,4), of ops] obtain p where p: "st_budgets (foldl budget_step s' ops) t = Some p"
    "\<not> legacy_row p" "same_limits p r" "bu_steps_used p = bu_steps_used r + charged dl_steps t s' ops"
    "bu_tool_calls_used p = bu_tool_calls_used r + charged dl_tool_calls t s' ops"
    "bu_retries_used p = bu_retries_used r + charged dl_retries t s' ops"
    "bu_escalations_used p = bu_escalations_used r + charged dl_escalations t s' ops" by blast
  from assms(2) p(1,2) have "q = p \<and> s'' = foldl budget_step s' ops"
    by (auto simp: bind_task_execution_budget_def split: if_splits)
  with p show ?thesis by (simp add: same_limits_def)
qed

definition demo_bound :: store where
  "demo_bound = demo_store\<lparr>st_contracts := [''T'' \<mapsto> \<lparr>ct_schema_version = ''v1'',
     ct_contract_json = dumps (JObj demo_payload), ct_contract_sha256 = digest (JObj demo_payload), ct_bound_at = 0\<rparr>]\<rparr>"

definition demo_limits :: limits where
  "demo_limits = \<lparr>li_max_steps = 6, li_max_tool_calls = 10, li_max_retries = 1, li_max_escalations = 1,
     li_max_wall_time_ms = 300000\<rparr>"

lemma demo_bound_limits: "bound_execution_limits ''T'' demo_bound = Inr demo_limits"
proof -
  have p: "plain_json (JObj demo_payload)" by code_simp
  have d: "distinct (map fst demo_payload)" by (simp add: demo_payload_def)
  let ?e = "[(''max_steps'', JInt 6), (''max_tool_calls'', JInt 10), (''max_retries'', JInt 1),
        (''max_escalations'', JInt 1), (''max_wall_time_ms'', JInt 300000)]"
  have e: "dict_get demo_payload ''execution_budget'' JNull = JObj ?e" "distinct (map fst ?e)"
    by (simp_all add: demo_payload_def dict_get_def)
  have "task_contract_for_task ''T'' demo_bound
      = Inr (Some (map (\<lambda>(k, v). (k, norm_json v)) (sort_key fst demo_payload)))"
    using loads_dumps [OF p] by (simp add: task_contract_for_task_def demo_bound_def del: dumps.simps)
  then show ?thesis
    using e(1) dict_get_norm [OF d, of "''execution_budget''"] dict_get_norm [OF e(2)]
    by (simp add: bound_execution_limits_def budget_value_def delta_value_def demo_limits_def dict_get_def
        del: sort_key_simps sort_key_def foldr.simps)
qed

theorem rebinding_preserves_witness:
  "\<exists>r s'. bind_task_execution_budget 7 ''T'' demo_bound = Inr (r, s')
    \<and> bind_task_execution_budget 900 ''T'' (foldl budget_step s' []) = Inr (r, s')
    \<and> bu_deadline_at r = At 300000007"
proof -
  have g: "get_task ''T'' s = Inr demo_task" if "st_tasks s = st_tasks demo_store" for s
    using that by (simp add: get_task_def find_task_def demo_store_def demo_task_def)
  have lim: "bound_execution_limits ''T'' s = Inr demo_limits" if "st_contracts s = st_contracts demo_bound" for s
    using demo_bound_limits that by (simp add: bound_execution_limits_def task_contract_for_task_def)
  have n: "st_budgets demo_bound ''T'' = None" "st_tasks demo_bound = st_tasks demo_store"
    by (simp_all add: demo_bound_def demo_store_def empty_store_def)
  obtain r s' where b: "bind_task_execution_budget 7 ''T'' demo_bound = Inr (r, s')" "bu_deadline_at r = At 300000007"
    by (auto simp: bind_task_execution_budget_def g [OF n(2)] lim n(1) deadline_def parse_stamp_def demo_limits_def
        MAX_INSTANT_def TOKYO_OFFSET_def sql_ints_def SQL_MAX_def Let_def)
  note row = bind_row [OF b(1)]
  have "bound_execution_limits ''T'' s' = Inr demo_limits" using lim row(6) by simp
  then have c: "bind_task_execution_budget 900 ''T'' (foldl budget_step s' []) = Inr (r, s')"
    using row(1,3,4,5) demo_bound_limits
    by (simp add: bind_task_execution_budget_def g n(2) row_limits_def demo_limits_def)
  from rebinding_preserves [OF b(1) c] b c show ?thesis by blast
qed

text \<open>A charge made several times.\<close>

definition times :: "int \<Rightarrow> deltas \<Rightarrow> deltas" where
  "times n d = \<lparr>dl_steps = n * dl_steps d, dl_tool_calls = n * dl_tool_calls d, dl_retries = n * dl_retries d, dl_escalations = n * dl_escalations d\<rparr>"

definition charged_times :: "string \<Rightarrow> deltas \<Rightarrow> budget_row \<Rightarrow> int \<Rightarrow> store \<Rightarrow> bool" where
  "charged_times t d row n s \<longleftrightarrow> (\<exists>q. st_budgets s t = Some q \<and> same_limits q row \<and> used_plus row (times n d) q)"

lemma charged_once_more:
  assumes "charged_times t d row n s" "reserve_task_execution_budget now t d s = Inr (x, s')"
  shows "charged_times t d row (n + 1) s'"
proof -
  from assms(1) obtain q where q: "st_budgets s t = Some q" "same_limits q row" "used_plus row (times n d) q" by (auto simp: charged_times_def)
  from assms(2) q(1) have "if no_deltas d then s' = s else s' = put_budget t (charge d now q) s" by (auto simp: reserve_iff split: if_splits)
  then have "\<exists>q'. st_budgets s' t = Some q' \<and> same_limits q' q \<and> used_plus q d q'"
    using q(1) charge_facts(1,2) [where d = d and r = q and now = now] charge_facts(4) [where d = d and r = q] by (cases "no_deltas d") (auto simp: same_limits_def)
  with q(2,3) same_limits_trans show ?thesis
    by (fastforce simp: charged_times_def used_plus_def times_def algebra_simps)
qed

definition commits :: "lock_fault option \<Rightarrow> bool" where
  "commits x \<longleftrightarrow> (\<exists>m. x = Some (Unread m))"

lemma two_attempts:
  assumes z: "charged_times t d row 0 s" and l: "attempt_loop env (\<lambda>k. reserve_task_execution_budget (clock k) t d) 0 2 s = (u, s')"
  shows "\<exists>n. charged_times t d row n s' \<and> 0 \<le> n \<and> n \<le> 2 \<and> ((\<exists>x. u = Inr x) \<longrightarrow> n = (if commits (env 0) then 2 else 1))
      \<and> (\<not> (\<exists>x. u = Inr x) \<and> \<not> commits (env 0) \<and> \<not> commits (env 1) \<longrightarrow> n = 0)"
proof -
  let ?f = "\<lambda>k. reserve_task_execution_budget (clock k) t d"
  have one: "charged_times t d row 1 s1" if "?f k s = Inr (x, s1)" for k x s1 using charged_once_more [OF z that] by simp
  have two: "charged_times t d row 2 s2" if "?f k s = Inr (x, s1)" "?f j s1 = Inr (y, s2)" for k j x y s1 s2
    using charged_once_more [OF one [OF that(1)] that(2)] by simp
  have last: "\<exists>n. charged_times t d row n s' \<and> m \<le> n \<and> n \<le> m + 1 \<and> ((\<exists>x. u = Inr x) \<longrightarrow> n = m + 1) \<and> (\<not> (\<exists>x. u = Inr x) \<and> \<not> commits (env 1) \<longrightarrow> n = m)"
    if "charged_times t d row m v" "attempt_loop env ?f 1 1 v = (u, s')" for m v
    using that charged_once_more [OF that(1), of "clock 1"]
    by (fastforce simp: commits_def split: option.splits lock_fault.splits sum.splits if_splits)
  show ?thesis
  proof (cases "commits (env 0)")
    case True
    then obtain m where m: "env 0 = Some (Unread m)" by (auto simp: commits_def)
    show ?thesis
    proof (cases "?f 0 s")
      case (Inr p)
      then obtain x v where v: "?f 0 s = Inr (x, v)" by (cases p) auto
      with l m have "s' = v \<and> (\<exists>e. u = Inl e) \<or> attempt_loop env ?f 1 1 v = (u, s')" by (auto simp: numeral_2_eq_2 split: if_splits)
      then show ?thesis
      proof
        assume "s' = v \<and> (\<exists>e. u = Inl e)"
        with one [OF v] True show ?thesis by (intro exI [of _ 1]) auto
      next
        assume "attempt_loop env ?f 1 1 v = (u, s')"
        from last [OF one [OF v] this] obtain n where "charged_times t d row n s'" "1 \<le> n" "n \<le> 1 + 1" "(\<exists>x. u = Inr x) \<longrightarrow> n = 1 + 1" by blast
        with True show ?thesis by (intro exI [of _ n]) auto
      qed
    qed (use l m z True in \<open>auto simp: numeral_2_eq_2 intro: exI [of _ 0]\<close>)
  next
    case False
    with l have "(s' = s \<and> (\<exists>e. u = Inl e)) \<or> attempt_loop env ?f 1 1 s = (u, s') \<or> (\<exists>x. ?f 0 s = Inr (x, s') \<and> u = Inr x)"
      by (auto simp: numeral_2_eq_2 commits_def split: option.splits lock_fault.splits sum.splits if_splits)
    with z one last [OF z] False show ?thesis by (fastforce intro: exI [of _ 0] exI [of _ 1])
  qed
qed

text \<open>What a reservation charges when the database is contended. A call of \<open>reserve\<close> makes at most two attempts, and each attempt that
  commits charges the whole request. If the call returns, the request was charged once, unless the first attempt committed and
  then met a lock when it read the row back: then it was charged twice. If the call raises although no attempt was interrupted after its commit,
  nothing was charged; and in no case is the request charged more than twice or a limit changed.\<close>

theorem reserve_contended:
  assumes "st_budgets s (bs_task_id st) = Some row" "reserve env clock st d s = (r, s')"
  shows "\<exists>n q. st_budgets s' (bs_task_id st) = Some q \<and> same_limits q row \<and> 0 \<le> n \<and> n \<le> 2
    \<and> bu_steps_used q = bu_steps_used row + n * dl_steps d \<and> bu_tool_calls_used q = bu_tool_calls_used row + n * dl_tool_calls d
    \<and> bu_retries_used q = bu_retries_used row + n * dl_retries d \<and> bu_escalations_used q = bu_escalations_used row + n * dl_escalations d
    \<and> (r = Inr () \<longrightarrow> n = (if commits (env 0) then 2 else 1))
    \<and> (r \<noteq> Inr () \<and> \<not> commits (env 0) \<and> \<not> commits (env 1) \<longrightarrow> n = 0)"
proof -
  let ?t = "bs_task_id st" and ?f = "\<lambda>k. reserve_task_execution_budget (clock k) (bs_task_id st) d"
  have zero: "charged_times ?t d row 0 s" using assms(1) by (simp add: charged_times_def same_limits_def used_plus_def times_def)
  obtain u where u: "attempt_loop env ?f 0 2 s = (u, s')" "r = translate_exhaustion (bindE u (\<lambda>_. Inr ()))"
    using assms(2) by (auto simp: reserve_def run_budget_write_two split: prod.splits)
  have r: "r = Inr () \<longleftrightarrow> (\<exists>x. u = Inr x)" unfolding u(2) by (cases u) (auto simp: translate_exhaustion_def split: if_splits)
  have "\<exists>n. charged_times ?t d row n s' \<and> 0 \<le> n \<and> n \<le> 2 \<and> ((\<exists>x. u = Inr x) \<longrightarrow> n = (if commits (env 0) then 2 else 1))
      \<and> (\<not> (\<exists>x. u = Inr x) \<and> \<not> commits (env 0) \<and> \<not> commits (env 1) \<longrightarrow> n = 0)"
    by (rule two_attempts [OF zero u(1)])
  then obtain n where n: "charged_times ?t d row n s'" "0 \<le> n" "n \<le> 2" "(\<exists>x. u = Inr x) \<longrightarrow> n = (if commits (env 0) then 2 else 1)"
      "\<not> (\<exists>x. u = Inr x) \<and> \<not> commits (env 0) \<and> \<not> commits (env 1) \<longrightarrow> n = 0" by blast
  from n(1) obtain q where "st_budgets s' ?t = Some q" "same_limits q row" "used_plus row (times n d) q" by (auto simp: charged_times_def)
  with n(2-) show ?thesis unfolding r by (intro exI [of _ n] exI [of _ q]) (auto simp: used_plus_def times_def)
qed

theorem reserve_contended_witness:
  "\<exists>s' q. reserve (\<lambda>k. if k = 0 then Some (Unread ''database is locked'') else None) (\<lambda>_. 1)
       \<lparr>bs_db_path = [], bs_task_id = ''c'', bs_max_steps = 2, bs_max_tool_calls = 2, bs_max_model_retries = 2, bs_max_model_escalations = 2,
        bs_max_wall_time_ms = 1, bs_deadline_at = At 1000\<rparr> one_step demo_budgets = (Inr (), s')
     \<and> st_budgets s' ''c'' = Some q \<and> bu_steps_used q = 2"
proof -
  let ?st = "\<lparr>bs_db_path = [], bs_task_id = ''c'', bs_max_steps = 2, bs_max_tool_calls = 2, bs_max_model_retries = 2, bs_max_model_escalations = 2,
        bs_max_wall_time_ms = 1, bs_deadline_at = At 1000\<rparr>"
  let ?env = "\<lambda>k::nat. if k = 0 then Some (Unread ''database is locked'') else None"
  have row: "st_budgets demo_budgets (bs_task_id ?st) = Some (demo_row 2)" by (simp add: demo_budgets_def)
  obtain r s' where e: "reserve ?env (\<lambda>_. 1) ?st one_step demo_budgets = (r, s')" by fastforce
  moreover have "fst (reserve ?env (\<lambda>_. 1) ?st one_step demo_budgets) = Inr ()" by code_simp
  ultimately have "r = Inr ()" by simp
  with reserve_contended [OF row e] e show ?thesis by (auto simp: commits_def demo_row_def one_step_def zero_deltas_def)
qed

end
