(* ===== verification/Capability_Revocation.thy ===== *)
theory Capability_Revocation
  imports Capability_Authority Execution_Budget Monotone_Log
begin

text \<open>
  Model of \<open>src/three_agent/capability_revocation.py\<close>: the persistent table of revoked capabilities, and
  the runs of the whole task database (every mutating operation of the store, of the execution budgets
  and of the revocation store) over which its promises are stated. The command line front end is not
  modelled.
\<close>

section \<open>Operations\<close>

definition REVOCATION_SCHEMA :: string where
  "REVOCATION_SCHEMA = ''workspace-capability-revocation/v1''"

definition REVOCATION_COMPACT_RE :: "string \<Rightarrow> bool" where
  "REVOCATION_COMPACT_RE s = ident_match is_alnum compact_char 0 127 s"

definition REASON_RE :: "string \<Rightarrow> bool" where
  "REASON_RE s = ident_match is_upper (\<lambda>c. is_upper c \<or> is_digit c \<or> c = CHR ''_'') 1 127 s"

definition revocation_to_dict :: "(int \<Rightarrow> string) \<Rightarrow> revocation \<Rightarrow> json" where
  "revocation_to_dict isoformat r = JObj [(''schema_version'', JStr REVOCATION_SCHEMA),
     (''task_id'', JStr (rv_task_id r)), (''capability'', JStr (rv_capability r)),
     (''reason_code'', JStr (rv_reason_code r)), (''revoked_at'', JStr (isoformat (rv_revoked_at r)))]"

definition capability_arg :: "string \<Rightarrow> string result" where
  "capability_arg v = (let t = strip v in
     if t = [] \<or> \<not> REVOCATION_COMPACT_RE t then raise ValueError ''capability must be a compact identifier'' else Inr t)"

definition reason_arg :: "string \<Rightarrow> string result" where
  "reason_arg v = (let t = upper (strip v) in
     if \<not> REASON_RE t then raise ValueError ''reason_code must be a compact uppercase identifier'' else Inr t)"

text \<open>The row of the primary key \<open>(task_id, capability)\<close>.\<close>

definition revocation_row :: "string \<Rightarrow> string \<Rightarrow> store \<Rightarrow> revocation option" where
  "revocation_row task_id cap s =
     List.find (\<lambda>r. rv_task_id r = task_id \<and> rv_capability r = cap) (st_revocations s)"

definition bound_tools :: "(string \<times> json) list \<Rightarrow> string list option" where
  "bound_tools contract = (case dict_get contract ''allowed_tools'' JNull of
     JList items \<Rightarrow> Some (map py_str items) | _ \<Rightarrow> None)"

text \<open>The clock is read for the row and again for the activity record.\<close>

definition revoke :: "int \<Rightarrow> int \<Rightarrow> string \<Rightarrow> string \<Rightarrow> string \<Rightarrow> revocation op" where
  "revoke now now' task_id capability reason_code s =
     bindE (get_task (strip task_id) s) (\<lambda>task.
     bindE (task_contract_for_task (tk_task_id task) s) (\<lambda>contract.
     case contract of None \<Rightarrow> raise ValueError ''TASK_CONTRACT_NOT_BOUND''
     | Some c \<Rightarrow>
       bindE (capability_arg capability) (\<lambda>logical.
       bindE (reason_arg reason_code) (\<lambda>reason.
       case bound_tools c of None \<Rightarrow> raise ValueError ''CAPABILITY_NOT_IN_BOUND_TASK_CONTRACT''
       | Some allowed \<Rightarrow>
         if logical \<notin> set allowed then raise ValueError ''CAPABILITY_NOT_IN_BOUND_TASK_CONTRACT''
         else (
           let created = (revocation_row (tk_task_id task) logical s = None);
               s' = (if created then s\<lparr>st_revocations := st_revocations s @
                   [\<lparr>rv_task_id = tk_task_id task, rv_capability = logical, rv_reason_code = reason, rv_revoked_at = now\<rparr>]\<rparr>
                 else s)
           in case revocation_row (tk_task_id task) logical s' of
                None \<Rightarrow> raise RuntimeError ''CAPABILITY_REVOCATION_PERSIST_FAILED''
              | Some row \<Rightarrow> Inr (row, if created
                  then record_activity now' (Some (tk_task_id task)) ''capability_broker'' ''capability_revoked'' ''ok''
                    (''capability='' @ logical @ '' reason='' @ reason) s'
                  else s'))))))"

definition is_revoked :: "string \<Rightarrow> string \<Rightarrow> store \<Rightarrow> bool result" where
  "is_revoked task_id capability s = bindE (capability_arg capability) (\<lambda>logical.
     Inr (revocation_row (strip task_id) logical s \<noteq> None))"

definition list_for_task :: "string \<Rightarrow> store \<Rightarrow> revocation list result" where
  "list_for_task task_id s = bindE (get_task (strip task_id) s) (\<lambda>task.
     Inr (sort_key rv_capability (filter (\<lambda>r. rv_task_id r = tk_task_id task) (st_revocations s))))"

section \<open>Runs of the whole database\<close>

datatype store_op =
    CreateTask int int string string
  | SetStatus string task_status
  | BindContract string json
  | BudgetOp budget_op
  | ValidatorResult string string string string string "string list" int
  | AttachUploads string "string list"
  | RecordActivity "string option" string string string string
  | RecordArtifact "string option" string string string string
  | Revoke int string string string

definition keep :: "store \<Rightarrow> ('a \<times> store) result \<Rightarrow> store" where
  "keep s r = (case r of Inl _ \<Rightarrow> s | Inr (_, s') \<Rightarrow> s')"

definition store_step :: "store \<Rightarrow> int \<times> store_op \<Rightarrow> store" where
  "store_step s x = (let now = fst x in case snd x of
     CreateTask today logged title request \<Rightarrow> keep s (create_task now today logged title request s)
   | SetStatus t st \<Rightarrow> snd (set_status now t st s)
   | BindContract t c \<Rightarrow> keep s (bind_task_contract now t c s)
   | BudgetOp bop \<Rightarrow> budget_step s (now, bop)
   | ValidatorResult t v ver st reason refs attempt \<Rightarrow> keep s (record_validator_result now t v ver st reason refs attempt s)
   | AttachUploads t us \<Rightarrow> attach_uploads now t us s
   | RecordActivity t agent action st details \<Rightarrow> record_activity now t agent action st details s
   | RecordArtifact t agent kind path meta \<Rightarrow> record_artifact now t agent kind path meta s
   | Revoke logged t cap reason \<Rightarrow> keep s (revoke now logged t cap reason s))"

section \<open>What a revocation does\<close>

lemma get_task_id: "get_task t s = Inr task \<Longrightarrow> tk_task_id task = t"
  by (auto simp: get_task_def find_task_def find_Some_iff split: option.splits)

lemma revocation_row_append:
  "revocation_row t cap s = None \<Longrightarrow> rv_task_id r = t \<Longrightarrow> rv_capability r = cap \<Longrightarrow>
   revocation_row t cap (s\<lparr>st_revocations := st_revocations s @ [r]\<rparr>) = Some r"
  by (simp add: revocation_row_def find_snoc_None)

lemma revoke_iff:
  "revoke now now' t cap reason s = Inr (r, s') \<longleftrightarrow> (\<exists>task c tools logical code.
     get_task (strip t) s = Inr task \<and> task_contract_for_task (strip t) s = Inr (Some c)
   \<and> capability_arg cap = Inr logical \<and> reason_arg reason = Inr code
   \<and> bound_tools c = Some tools \<and> logical \<in> set tools
   \<and> (if revocation_row (strip t) logical s = None
      then r = \<lparr>rv_task_id = strip t, rv_capability = logical, rv_reason_code = code, rv_revoked_at = now\<rparr>
        \<and> s' = record_activity now' (Some (strip t)) ''capability_broker'' ''capability_revoked'' ''ok''
             (''capability='' @ logical @ '' reason='' @ code) (s\<lparr>st_revocations := st_revocations s @ [r]\<rparr>)
      else revocation_row (strip t) logical s = Some r \<and> s' = s))"
  (is "?L \<longleftrightarrow> ?R")
proof
  assume ?L
  then obtain task c logical code tools where a: "get_task (strip t) s = Inr task" "task_contract_for_task (tk_task_id task) s = Inr (Some c)"
    "capability_arg cap = Inr logical" "reason_arg reason = Inr code" "bound_tools c = Some tools" "logical \<in> set tools"
    by (auto simp: revoke_def split: option.splits if_splits)
  moreover note i = get_task_id [OF a(1)]
  ultimately show ?R using \<open>?L\<close>
    by (cases "revocation_row (strip t) logical s") (auto simp: revoke_def Let_def revocation_row_append)
next
  assume ?R
  then obtain task c logical code tools where a: "get_task (strip t) s = Inr task" "task_contract_for_task (strip t) s = Inr (Some c)"
    "capability_arg cap = Inr logical" "reason_arg reason = Inr code" "bound_tools c = Some tools" "logical \<in> set tools"
    "if revocation_row (strip t) logical s = None
      then r = \<lparr>rv_task_id = strip t, rv_capability = logical, rv_reason_code = code, rv_revoked_at = now\<rparr>
        \<and> s' = record_activity now' (Some (strip t)) ''capability_broker'' ''capability_revoked'' ''ok''
             (''capability='' @ logical @ '' reason='' @ code) (s\<lparr>st_revocations := st_revocations s @ [r]\<rparr>)
      else revocation_row (strip t) logical s = Some r \<and> s' = s" by blast
  moreover note i = get_task_id [OF a(1)]
  ultimately show ?L
    by (cases "revocation_row (strip t) logical s") (simp_all add: revoke_def Let_def revocation_row_append)
qed

section \<open>What a step leaves alone\<close>

lemma keep_cases: "keep s r = s \<or> (\<exists>x s'. r = Inr (x, s') \<and> keep s r = s')"
  by (auto simp: keep_def split: sum.splits)

lemma create_task_tables:
  "create_task now today logged title request s = Inr (t, s') \<Longrightarrow> st_contracts s' = st_contracts s \<and> st_revocations s' = st_revocations s"
  by (auto simp: create_task_def Let_def split: if_splits option.splits)

lemma budget_step_tables:
  "st_contracts (budget_step s x) = st_contracts s" "st_revocations (budget_step s x) = st_revocations s"
proof -
  have "st_contracts s' = st_contracts s \<and> st_revocations s' = st_revocations s"
    if "budget_exec (fst x) (snd x) s = Inr (u, s')" for u s'
  proof (cases "snd x")
    case (BindOp t)
    with that obtain r where "bind_task_execution_budget (fst x) t s = Inr (r, s')"
      by (auto simp: budget_exec_def)
    from bind_row(6,7) [OF this] show ?thesis by simp
  next
    case (ReserveOp t d)
    with that show ?thesis by (auto simp: budget_exec_def reserve_iff split: if_splits)
  next
    case (LinkedOp p t d)
    with that show ?thesis by (auto simp: budget_exec_def linked_iff)
  qed
  then show "st_contracts (budget_step s x) = st_contracts s" "st_revocations (budget_step s x) = st_revocations s"
    by (auto simp: budget_step_def split: sum.splits)
qed

lemma revoke_tables:
  assumes "revoke now now' t cap reason s = Inr (r, s')"
  shows "st_contracts s' = st_contracts s"
    and "st_revocations s' = (if revocation_row (strip t) (rv_capability r) s = None then st_revocations s @ [r] else st_revocations s)"
    and "rv_task_id r = strip t" "capability_arg cap = Inr (rv_capability r)"
    and "\<exists>c tools. task_contract_for_task (strip t) s = Inr (Some c) \<and> bound_tools c = Some tools \<and> rv_capability r \<in> set tools"
proof -
  have k: "rv_task_id q = a \<and> rv_capability q = b" if "revocation_row a b s = Some q" for a b q
    using that by (auto simp: revocation_row_def find_Some_iff)
  from assms obtain c tools logical code where a: "task_contract_for_task (strip t) s = Inr (Some c)"
    "capability_arg cap = Inr logical" "bound_tools c = Some tools" "logical \<in> set tools"
    "if revocation_row (strip t) logical s = None
      then r = \<lparr>rv_task_id = strip t, rv_capability = logical, rv_reason_code = code, rv_revoked_at = now\<rparr>
        \<and> s' = record_activity now' (Some (strip t)) ''capability_broker'' ''capability_revoked'' ''ok''
             (''capability='' @ logical @ '' reason='' @ code) (s\<lparr>st_revocations := st_revocations s @ [r]\<rparr>)
      else revocation_row (strip t) logical s = Some r \<and> s' = s" unfolding revoke_iff by blast
  then have l: "rv_capability r = logical" "rv_task_id r = strip t"
    by (metis k revocation.select_convs(1,2))+
  with a show "st_contracts s' = st_contracts s"
    "st_revocations s' = (if revocation_row (strip t) (rv_capability r) s = None then st_revocations s @ [r] else st_revocations s)"
    "rv_task_id r = strip t" "capability_arg cap = Inr (rv_capability r)"
    "\<exists>c tools. task_contract_for_task (strip t) s = Inr (Some c) \<and> bound_tools c = Some tools \<and> rv_capability r \<in> set tools"
    by (auto split: if_splits)
qed

lemma store_step_contracts: "st_contracts s \<subseteq>\<^sub>m st_contracts (store_step s x)"
proof (cases "snd x")
  case (CreateTask today logged a b)
  with keep_cases [of s "create_task (fst x) today logged a b s"] show ?thesis
    by (auto simp: store_step_def Let_def dest!: create_task_tables)
next
  case (BindContract t c)
  have "st_contracts s \<subseteq>\<^sub>m st_contracts s'" if "bind_task_contract (fst x) t c s = Inr (d, s')" for d s'
    using that by (elim bind_contract_cases) (auto simp: map_le_def)
  with BindContract show ?thesis using keep_cases [of s "bind_task_contract (fst x) t c s"]
    by (auto simp: store_step_def Let_def)
next
  case (ValidatorResult a b c d e f g)
  with keep_cases [of s "record_validator_result (fst x) a b c d e f g s"] show ?thesis
    by (auto simp: store_step_def Let_def record_validator_result_def)
next
  case (Revoke logged t cap reason)
  with keep_cases [of s "revoke (fst x) logged t cap reason s"] show ?thesis
    by (auto simp: store_step_def Let_def dest!: revoke_tables(1))
qed (auto simp: store_step_def Let_def budget_step_tables set_status_def attach_uploads_def record_artifact_def)

lemma store_step_revokes:
  "st_revocations (store_step s x) = st_revocations s \<or>
   (\<exists>logged t cap reason r. snd x = Revoke logged t cap reason \<and> revoke (fst x) logged t cap reason s = Inr (r, store_step s x))"
proof (cases "snd x")
  case (CreateTask today logged a b)
  with keep_cases [of s "create_task (fst x) today logged a b s"] show ?thesis
    by (auto simp: store_step_def Let_def dest!: create_task_tables)
next
  case (BindContract t c)
  have "st_revocations s' = st_revocations s" if "bind_task_contract (fst x) t c s = Inr (d, s')" for d s'
    using that by (auto simp: bind_task_contract_def Let_def split: json.splits if_splits option.splits)
  with BindContract show ?thesis using keep_cases [of s "bind_task_contract (fst x) t c s"]
    by (auto simp: store_step_def Let_def)
next
  case (ValidatorResult a b c d e f g)
  with keep_cases [of s "record_validator_result (fst x) a b c d e f g s"] show ?thesis
    by (auto simp: store_step_def Let_def record_validator_result_def)
next
  case (Revoke logged t cap reason)
  with keep_cases [of s "revoke (fst x) logged t cap reason s"] show ?thesis
    by (auto simp: store_step_def Let_def)
qed (auto simp: store_step_def Let_def budget_step_tables set_status_def attach_uploads_def record_artifact_def)

lemma store_step_revocations:
  "st_revocations (store_step s x) = st_revocations s \<or>
   (\<exists>r c tools. st_revocations (store_step s x) = st_revocations s @ [r] \<and> revocation_row (rv_task_id r) (rv_capability r) s = None
      \<and> task_contract_for_task (rv_task_id r) s = Inr (Some c) \<and> bound_tools c = Some tools \<and> rv_capability r \<in> set tools)"
  using store_step_revokes [of s x]
proof
  assume "\<exists>logged t cap reason r. snd x = Revoke logged t cap reason \<and> revoke (fst x) logged t cap reason s = Inr (r, store_step s x)"
  then obtain logged t cap reason r where "revoke (fst x) logged t cap reason s = Inr (r, store_step s x)" by blast
  from revoke_tables [OF this] show ?thesis by (auto split: if_splits)
qed simp

interpretation revocations: monotone_log store_step st_revocations "\<lambda>r. (rv_task_id r, rv_capability r)"
proof
  fix s x
  from store_step_revocations [of s x]
  show "\<exists>rs. st_revocations (store_step s x) = st_revocations s @ rs \<and> distinct (map (\<lambda>r. (rv_task_id r, rv_capability r)) rs)
      \<and> (\<lambda>r. (rv_task_id r, rv_capability r)) ` set rs \<inter> (\<lambda>r. (rv_task_id r, rv_capability r)) ` set (st_revocations s) = {}"
  proof
    assume "\<exists>r c tools. st_revocations (store_step s x) = st_revocations s @ [r]
      \<and> revocation_row (rv_task_id r) (rv_capability r) s = None
      \<and> task_contract_for_task (rv_task_id r) s = Inr (Some c) \<and> bound_tools c = Some tools \<and> rv_capability r \<in> set tools"
    then show ?thesis by (force simp: revocation_row_def find_None_iff)
  qed auto
qed

lemma revocation_row_run:
  "revocation_row t cap s = Some r \<Longrightarrow> revocation_row t cap (foldl store_step s ops) = Some r"
  using revocations.run_lookup [of "\<lambda>(a, b). a = t \<and> b = cap" s r ops] by (simp add: revocation_row_def)

lemma contract_kept:
  "task_contract_for_task t s = Inr (Some c) \<Longrightarrow> task_contract_for_task t (store_step s x) = Inr (Some c)"
  using store_step_contracts [of s x]
  by (auto simp: task_contract_for_task_def map_le_def dom_def split: option.splits)

lemma contracts_run: "st_contracts s \<subseteq>\<^sub>m st_contracts (foldl store_step s ops)"
  by (induction ops rule: rev_induct) (auto intro: map_le_trans store_step_contracts)

lemma contract_run:
  "task_contract_for_task t s = Inr (Some c) \<Longrightarrow> task_contract_for_task t (foldl store_step s ops) = Inr (Some c)"
  by (induction ops rule: rev_induct) (auto intro: contract_kept)

text \<open>Every revocation names a capability of the contract bound to its task.\<close>

definition revocation_ok :: "store \<Rightarrow> revocation \<Rightarrow> bool" where
  "revocation_ok s r = (case task_contract_for_task (rv_task_id r) s of
     Inr (Some c) \<Rightarrow> (case bound_tools c of Some tools \<Rightarrow> rv_capability r \<in> set tools | None \<Rightarrow> False)
   | _ \<Rightarrow> False)"

lemma revocation_ok_iff: "revocation_ok s r \<longleftrightarrow> (\<exists>c tools. task_contract_for_task (rv_task_id r) s = Inr (Some c)
    \<and> bound_tools c = Some tools \<and> rv_capability r \<in> set tools)"
  by (auto simp: revocation_ok_def split: sum.splits option.splits)

lemma revocation_ok_step:
  assumes "\<forall>r \<in> set (st_revocations s). revocation_ok s r"
  shows "\<forall>r \<in> set (st_revocations (store_step s x)). revocation_ok (store_step s x) r"
proof
  fix r assume "r \<in> set (st_revocations (store_step s x))"
  with store_step_revocations [of s x] have "r \<in> set (st_revocations s) \<or> revocation_ok s r"
    unfolding revocation_ok_iff by fastforce
  with assms contract_kept [of "rv_task_id r" s _ x] show "revocation_ok (store_step s x) r"
    unfolding revocation_ok_iff by blast
qed

lemma revocation_ok_run:
  "\<forall>r \<in> set (st_revocations s). revocation_ok s r \<Longrightarrow>
   \<forall>r \<in> set (st_revocations (foldl store_step s ops)). revocation_ok (foldl store_step s ops) r"
  by (induction ops rule: rev_induct) (simp_all add: revocation_ok_step)

section \<open>Properties\<close>

text \<open>C19: revocation is permanent and write-once. After a successful \<open>revoke\<close>, whatever operations run on
  the database (creating tasks, binding contracts and budgets, reserving, recording, revoking again,
  with any arguments and at any times), the capability stays revoked, its row keeps the first reason
  and time, and revoking it again returns that row and changes nothing.\<close>

theorem revocation_permanent:
  assumes "revoke now now' t cap reason s = Inr (r, s')"
  shows "is_revoked t cap (foldl store_step s' ops) = Inr True
    \<and> revocation_row (strip t) (rv_capability r) (foldl store_step s' ops) = Some r
    \<and> (revoke n n' t cap reason' (foldl store_step s' ops) = Inr (q, s'') \<longrightarrow> q = r \<and> s'' = foldl store_step s' ops)"
proof -
  note rt = revoke_tables [OF assms]
  have "revocation_row (strip t) (rv_capability r) s' = Some r"
  proof (cases "revocation_row (strip t) (rv_capability r) s")
    case None
    with rt(2,3) show ?thesis by (auto simp: revocation_row_def find_snoc_None)
  next
    case (Some q)
    with assms rt(4) show ?thesis by (auto simp: revoke_iff)
  qed
  then have row: "revocation_row (strip t) (rv_capability r) (foldl store_step s' ops) = Some r"
    by (rule revocation_row_run)
  with rt(4) show ?thesis by (auto simp: is_revoked_def revoke_iff)
qed

definition demo_revocable_contract :: "(string \<times> json) list" where
  "demo_revocable_contract = [(''allowed_tools'', JList [JStr ''read_file'']), (''schema_version'', JStr ''v1''), (''task_id'', JStr ''T'')]"

definition demo_revocable :: store where
  "demo_revocable = empty_store\<lparr>
     st_tasks := [\<lparr>tk_task_id = ''T'', tk_title = [], tk_request = [], tk_status = NEW, tk_created_at = 0, tk_updated_at = 0\<rparr>],
     st_contracts := [''T'' \<mapsto> \<lparr>ct_schema_version = ''v1'', ct_contract_json = dumps (JObj demo_revocable_contract),
       ct_contract_sha256 = [], ct_bound_at = 0\<rparr>]\<rparr>"

lemma demo_revoke:
  "\<exists>r s'. revoke 1 2 ''T'' ''read_file'' ''leaked'' demo_revocable = Inr (r, s') \<and> rv_reason_code r = ''LEAKED''"
proof -
  have "loads (dumps (JObj demo_revocable_contract)) = Some (norm_json (JObj demo_revocable_contract))"
    by (rule loads_dumps) code_simp
  moreover have "norm_json (JObj demo_revocable_contract) = JObj demo_revocable_contract" by code_simp
  ultimately have c: "task_contract_for_task (strip ''T'') demo_revocable = Inr (Some demo_revocable_contract)"
    by (simp add: task_contract_for_task_def demo_revocable_def strip_def is_space_def)
  have s: "strip ''T'' = ''T''" "capability_arg ''read_file'' = Inr ''read_file''" "reason_arg ''leaked'' = Inr ''LEAKED''"
    "bound_tools demo_revocable_contract = Some [''read_file'']" by code_simp+
  have g: "\<exists>task. get_task ''T'' demo_revocable = Inr task" "revocation_row ''T'' ''read_file'' demo_revocable = None"
    by (simp_all add: get_task_def find_task_def demo_revocable_def revocation_row_def empty_store_def)
  from g c s show ?thesis
    by (simp add: revoke_iff)
qed

theorem revocation_permanent_witness:
  "\<exists>r s'. revoke 1 2 ''T'' ''read_file'' ''leaked'' demo_revocable = Inr (r, s')
     \<and> is_revoked ''T'' ''read_file'' (foldl store_step s' [(3, CreateTask 3 3 [] []), (4, Revoke 4 ''T'' ''read_file'' ''again'')]) = Inr True"
proof -
  from demo_revoke obtain r s' where "revoke 1 2 ''T'' ''read_file'' ''leaked'' demo_revocable = Inr (r, s')" by blast
  with revocation_permanent [OF this] show ?thesis by blast
qed

text \<open>C21: a bound contract is immutable. After the contract of a task is bound, whatever operations run on the database, with any
  arguments and at any times, reading it back gives the normalised contract that was bound, and a later binding for the task succeeds only
  for a contract with the same digest: it returns that digest and changes nothing.\<close>

theorem contract_immutable:
  assumes "bind_task_contract now t (JObj c) s = Inr (d, s')" "st_contracts s t = None" "plain_json (JObj c)"
  shows "task_contract_for_task t (foldl store_step s' ops) = Inr (Some (map (\<lambda>(k, v). (k, norm_json v)) (sort_key fst c)))
    \<and> (\<forall>now' c' d' s''. bind_task_contract now' t c' (foldl store_step s' ops) = Inr (d', s'')
         \<longrightarrow> d' = d \<and> digest c' = digest (JObj c) \<and> s'' = foldl store_step s' ops)"
proof (intro conjI allI impI)
  note b = bind_stores [OF assms]
  show "task_contract_for_task t (foldl store_step s' ops) = Inr (Some (map (\<lambda>(k, v). (k, norm_json v)) (sort_key fst c)))"
    by (rule contract_run [OF b(3)])
  from b(2) obtain row where row: "st_contracts s' t = Some row" "ct_contract_sha256 row = d" by blast
  have kept: "st_contracts (foldl store_step s' ops) t = Some row"
    using contracts_run [of s' ops] row(1) by (auto simp: map_le_def dom_def)
  fix now' c' d' s'' assume "bind_task_contract now' t c' (foldl store_step s' ops) = Inr (d', s'')"
  then have "d' = digest c' \<and> d' = d \<and> s'' = foldl store_step s' ops"
    by (elim bind_contract_cases) (use kept row(2) in auto)
  with b(1) show "d' = d" "digest c' = digest (JObj c)" "s'' = foldl store_step s' ops" by metis+
qed

theorem contract_immutable_witness:
  "\<exists>s'. bind_task_contract 5 ''T'' (JObj demo_payload) demo_store = Inr (digest (JObj demo_payload), s')
     \<and> (\<exists>c. task_contract_for_task ''T'' (foldl store_step s' [(6, SetStatus ''T'' NEW), (7, BindContract ''T'' JNull), (8, BudgetOp (BindOp ''T''))]) = Inr (Some c))"
proof -
  have p: "plain_json (JObj demo_payload)" by code_simp
  have n: "st_contracts demo_store ''T'' = None" by (simp add: demo_store_def empty_store_def)
  from bind_demo obtain s' where "bind_task_contract 5 ''T'' (JObj demo_payload) demo_store = Inr (digest (JObj demo_payload), s')" by blast
  with contract_immutable [OF this n p] show ?thesis by blast
qed

text \<open>C31: revocations only narrow bound contracts. In every database reachable from the empty one, each
  revocation names a capability that the contract bound to its task lists as an allowed tool, and no
  task and capability pair occurs twice.\<close>

theorem revocations_narrow:
  "list_all (revocation_ok (foldl store_step empty_store ops)) (st_revocations (foldl store_step empty_store ops))
   \<and> distinct (map (\<lambda>r. (rv_task_id r, rv_capability r)) (st_revocations (foldl store_step empty_store ops)))"
  using revocation_ok_run [of empty_store ops] revocations.run_keys_distinct [of empty_store ops]
  by (simp add: empty_store_def list_all_iff)

end
