(* ===== verification/Governed_Runtime.thy ===== *)
theory Governed_Runtime
  imports Crash_Recovery Capability_Revocation
begin

text \<open>
  The execution scheduler with its collaborators put in place: the persistent execution budget, the revocation table
  and the checkpoint repository, all in one task database that other parties keep using. The guards are the methods
  of \<open>TaskExecutionBudgetState\<close> and \<open>CapabilityRevocationStore\<close>, as the protocols of \<open>execution_scheduler.py\<close> ask for.
\<close>

section \<open>The guards over the task database\<close>

text \<open>A budget call makes up to two attempts and commits on the task tables only. An attempt is refused by a lock error, or
  meets one after its commit, when the row is read back.\<close>

definition budget_locks :: "db_env \<Rightarrow> nat \<Rightarrow> nat \<Rightarrow> lock_fault option" where
  "budget_locks e tick k = (case de_fault e (tick + k) of Some m \<Rightarrow> Some (Refused m) | None \<Rightarrow> map_option Unread (de_reread e (tick + k)))"

definition budget_call :: "db_env \<Rightarrow> ((nat \<Rightarrow> lock_fault option) \<Rightarrow> (nat \<Rightarrow> int) \<Rightarrow> (store, unit) action) \<Rightarrow> (checkpoint_db, unit) action" where
  "budget_call e f w = (case f (budget_locks e (cd_tick w)) (\<lambda>k. de_clock e (cd_tick w + k)) (cd_store w) of
     (r, s) \<Rightarrow> (r, w\<lparr>cd_tick := cd_tick w + 2, cd_store := s\<rparr>))"

definition revocation_call :: "db_env \<Rightarrow> string \<Rightarrow> string \<Rightarrow> checkpoint_db \<Rightarrow> bool result" where
  "revocation_call e task_id capability w = (case de_fault e (cd_tick w) of
     Some m \<Rightarrow> raise OperationalError m | None \<Rightarrow> is_revoked task_id capability (cd_store w))"

definition steps :: "int \<Rightarrow> deltas" where
  "steps n = zero_deltas\<lparr>dl_steps := n\<rparr>"

definition live_guards :: "db_env \<Rightarrow> budget_state \<Rightarrow> checkpoint_db guards" where
  "live_guards e st = \<lparr>gd_assert_active = budget_call e (\<lambda>locks clock. assert_active locks clock st),
     gd_reserve_steps = (\<lambda>n. budget_call e (\<lambda>locks clock. reserve locks clock st (steps n))),
     gd_is_revoked = revocation_call e, gd_repository = Some (checkpoint_repository e)\<rparr>"

text \<open>Other parties: any operation of the task store, the budgets or the revocations.\<close>

definition other_party :: "checkpoint_db \<Rightarrow> checkpoint_db \<Rightarrow> bool" where
  "other_party w w' \<longleftrightarrow> (\<exists>x k. w' = w\<lparr>cd_store := store_step (cd_store w) x, cd_tick := k\<rparr>)"

definition recorded_ids :: "checkpoint_db \<Rightarrow> string set" where
  "recorded_ids w = dr_ticket_id ` set (cd_dispatches w) \<union> or_observation_id ` set (cd_observations w)"

section \<open>Tasks are never lost\<close>

definition task_ids :: "store \<Rightarrow> string set" where
  "task_ids s = tk_task_id ` set (st_tasks s)"

lemma find_task_ids: "find_task s t \<noteq> None \<longleftrightarrow> t \<in> task_ids s"
  by (auto simp: find_task_def find_None_iff task_ids_def image_iff)

lemma budget_step_tasks [simp]: "st_tasks (budget_step s x) = st_tasks s"
proof -
  have "st_tasks s' = st_tasks s" if "budget_exec (fst x) (snd x) s = Inr (u, s')" for u s'
  proof (cases "snd x")
    case (BindOp t)
    with that obtain r where "bind_task_execution_budget (fst x) t s = Inr (r, s')" by (auto simp: budget_exec_def)
    from bind_row(5) [OF this] show ?thesis by simp
  next
    case (ReserveOp t d)
    with that show ?thesis by (auto simp: budget_exec_def reserve_iff split: if_splits)
  next
    case (LinkedOp p t d)
    with that show ?thesis by (auto simp: budget_exec_def linked_iff)
  qed
  note keeps = this
  show ?thesis
  proof (cases "budget_exec (fst x) (snd x) s")
    case (Inr p)
    then obtain u s' where e: "budget_exec (fst x) (snd x) s = Inr (u, s')" by (cases p) simp
    from keeps [OF e] show ?thesis by (simp add: budget_step_def e)
  qed (simp add: budget_step_def)
qed

lemma store_step_tasks: "task_ids s \<subseteq> task_ids (store_step s x)"
proof (cases "snd x")
  case (CreateTask today logged a b)
  have "task_ids s \<subseteq> task_ids s'" if "create_task (fst x) today logged a b s = Inr (t, s')" for t s'
    using that by (auto simp: create_task_def Let_def task_ids_def split: if_splits)
  with CreateTask show ?thesis using keep_cases [of s "create_task (fst x) today logged a b s"] by (auto simp: store_step_def Let_def)
next
  case (SetStatus t st)
  have "tk_task_id ` set (map (\<lambda>u. if tk_task_id u = t then u\<lparr>tk_status := st, tk_updated_at := fst x\<rparr> else u) (st_tasks s)) = task_ids s"
    unfolding task_ids_def set_map image_image by (rule image_cong) auto
  with SetStatus show ?thesis by (simp add: store_step_def Let_def set_status_def task_ids_def)
next
  case (BindContract t c)
  have "st_tasks s' = st_tasks s" if "bind_task_contract (fst x) t c s = Inr (d, s')" for d s'
    using that by (auto simp: bind_task_contract_def Let_def split: json.splits if_splits option.splits)
  with BindContract show ?thesis using keep_cases [of s "bind_task_contract (fst x) t c s"] by (auto simp: store_step_def Let_def task_ids_def)
next
  case (ValidatorResult a b c d e f g)
  with keep_cases [of s "record_validator_result (fst x) a b c d e f g s"] show ?thesis
    by (auto simp: store_step_def Let_def record_validator_result_def task_ids_def)
next
  case (Revoke logged t cap reason)
  have "st_tasks s' = st_tasks s" if "revoke (fst x) logged t cap reason s = Inr (r, s')" for r s'
    using that by (auto simp: revoke_iff split: if_splits)
  with Revoke show ?thesis using keep_cases [of s "revoke (fst x) logged t cap reason s"] by (auto simp: store_step_def Let_def task_ids_def)
qed (auto simp: store_step_def Let_def attach_uploads_def record_artifact_def task_ids_def)

section \<open>The repository and its users\<close>

text \<open>What the log and its users keep for one task.\<close>

definition logs_for :: "string \<Rightarrow> receipts \<Rightarrow> checkpoint_db \<Rightarrow> bool" where
  "logs_for task A w \<longleftrightarrow> mirrors A w \<and> task \<in> task_ids (cd_store w)"

lemma load_requires:
  assumes "cp_load e task_id pf w = Inr r"
  shows "quiet e w \<and> is_sha256_ref pf \<and> find_task (cd_store w) task_id \<noteq> None"
  using assms by (auto simp: cp_load_def bindE_Inr_iff quiet_def split: option.splits if_splits)

lemma load_recovered: "mirrors A w \<Longrightarrow> cp_load e task_id pf w = Inr r \<Longrightarrow> r = recovered A task_id pf"
  using load_requires [of e task_id pf w r] load_receipts [of A w e pf task_id] by simp

lemma reserve_tasks: "reserve locks clock st d s = (r, s') \<Longrightarrow> st_tasks s' = st_tasks s"
  by (rule reserve_keeps [where P = "\<lambda>v. st_tasks v = st_tasks s" and s = s]) (auto simp: reserve_iff split: if_splits)

lemma logs_for_store: "logs_for task A w \<Longrightarrow> task_ids (cd_store w) \<subseteq> task_ids s \<Longrightarrow> logs_for task A (w\<lparr>cd_tick := k, cd_store := s\<rparr>)"
  by (auto simp: logs_for_def mirrors_store)

lemma budget_call_logs:
  assumes "\<And>locks clock s r s'. f locks clock s = (r, s') \<Longrightarrow> st_tasks s' = st_tasks s" "logs_for task A w" "budget_call e f w = (r, w')"
  shows "logs_for task A w'"
proof -
  from assms(3) obtain s where s: "f (budget_locks e (cd_tick w)) (\<lambda>k. de_clock e (cd_tick w + k)) (cd_store w) = (r, s)"
    "w' = w\<lparr>cd_tick := cd_tick w + 2, cd_store := s\<rparr>" by (auto simp: budget_call_def split: prod.splits)
  from assms(1) [OF s(1)] logs_for_store [OF assms(2), of s] s(2) show ?thesis by (simp add: task_ids_def)
qed

lemma mirrors_ids:
  assumes "mirrors A w"
  shows "recorded_ids w = receipt_ids A"
proof -
  note rel = mirrorsD(1,2) [OF assms]
  have "dr_ticket_id ` set (cd_dispatches w) = dt_ticket_id ` set (rc_tickets A)"
    using rel(1) by (induction rule: list_all2_induct) (auto simp: ticket_row_fields)
  moreover have "or_observation_id ` set (cd_observations w) = ob_observation_id ` set (rc_observations A)"
    using rel(2) by (induction rule: list_all2_induct) (auto simp: observation_stored_fields)
  ultimately show ?thesis by (simp add: recorded_ids_def receipt_ids_def)
qed

interpretation plain: recoverable "checkpoint_repository e" "logs_for task" "live_guards e st" recorded_ids other_party for e task st
proof unfold_locales
  fix A w assume l: "logs_for task A w"
  then have m: "mirrors A w" by (simp add: logs_for_def)
  show "wf_receipts A" by (rule mirrorsD(9) [OF m])
  show "recorded_ids w = receipt_ids A" by (rule mirrors_ids [OF m])
  fix w'
  show "logs_for task A w'" if "rp_initialize (checkpoint_repository e) w = (ri, w')" for ri
    using initialize_mirrors [of e w ri w' A] that m l by (simp add: checkpoint_repository_def logs_for_def)
  show "(\<exists>x. rd = Inl x) \<and> logs_for task A w' \<or> rd = Inr t \<and> logs_for task (add_ticket t A) w'"
    if "rp_record_dispatch (checkpoint_repository e) t w = (rd, w')" for t rd
    using record_dispatch_mirrors(1,2) [OF m, of e t rd w'] that l by (auto simp: checkpoint_repository_def logs_for_def)
  show "(\<exists>x. ro = Inl x) \<and> logs_for task A w' \<or> ro = Inr b \<and> logs_for task (add_observation b A) w'"
    if "genuine b" "rp_record_observation (checkpoint_repository e) b w = (ro, w')" for b ro
    using record_observation_mirrors(1,2) [OF m, of e b ro w'] that l by (auto simp: checkpoint_repository_def logs_for_def)
  show "\<exists>B. logs_for task B w' \<and> rc_tickets B = rc_tickets A \<and> rc_observations B = rc_observations A"
    if "rp_record_cancellation (checkpoint_repository e) task_id pf reason w = (rc, w')" for task_id pf reason rc
  proof -
    have "cd_store w' = cd_store w" and "mirrors A w' \<or> mirrors (add_reason task_id pf (strip reason) A) w'"
      using record_cancellation_mirrors(1,2) [OF m, of e task_id pf reason rc w'] that by (auto simp: checkpoint_repository_def)
    moreover have "rc_tickets (add_reason task_id pf (strip reason) A) = rc_tickets A \<and> rc_observations (add_reason task_id pf (strip reason) A) = rc_observations A"
      by (simp add: add_reason_def Let_def)
    ultimately show ?thesis using l unfolding logs_for_def by metis
  qed
  show "state = recovered A task_id pf" if "rp_load (checkpoint_repository e) task_id pf w = Inr state" for task_id pf state
    using load_recovered [OF m] that by (simp add: checkpoint_repository_def)
  show "logs_for task A w'" if "gd_assert_active (live_guards e st) w = (ra, w')" for ra
    using that by (intro budget_call_logs [of "\<lambda>locks clock. reserve locks clock st zero_deltas", OF reserve_tasks l])
      (simp_all add: live_guards_def assert_active_def [abs_def])
  show "logs_for task A w'" if "gd_reserve_steps (live_guards e st) n w = (rs, w')" for n rs
    using that by (intro budget_call_logs [of "\<lambda>locks clock. reserve locks clock st (steps n)", OF reserve_tasks l]) (simp_all add: live_guards_def)
  show "logs_for task A w'" if "other_party w w'"
  proof -
    from that obtain x k where w': "w' = w\<lparr>cd_store := store_step (cd_store w) x, cd_tick := k\<rparr>" by (auto simp: other_party_def)
    with l store_step_tasks [of "cd_store w" x] show ?thesis by (auto simp: logs_for_def mirrors_store)
  qed
qed (simp_all add: live_guards_def)

section \<open>A crash loses nothing\<close>

lemma load_available:
  assumes "logs_for task A w" "de_fault e (cd_tick w) = None" "de_fault e (Suc (cd_tick w)) = None" "is_sha256_ref pf"
  shows "\<exists>w' r. cp_initialize e w = (Inr (), w') \<and> cp_load e task pf w' = Inr r"
proof -
  obtain w' where w': "cp_initialize e w = (Inr (), w')" "cd_tick w' = Suc (cd_tick w)" "cd_created w'"
    using assms(2) by (simp add: cp_initialize_def Let_def)
  have m: "mirrors A w'" "find_task (cd_store w') task \<noteq> None"
    using initialize_mirrors(1,2) [OF w'(1), of A] assms(1) unfolding find_task_ids logs_for_def by simp_all
  from load_receipts [OF m(1) _ assms(4) m(2), of e] w' assms(3) show ?thesis by (auto simp: quiet_def)
qed

text \<open>C2: nothing is lost or run twice across a crash. Let a scheduler with the persistent budget, the revocation table and
  the checkpoint repository run for any time, its operations succeeding or failing, while other parties use the
  database, and stop at any point. If the next two database calls meet no lock, a new scheduler for the same task, plan,
  authority and concurrency, given the approvals of the nodes that were dispatched and need one, starts; it knows
  exactly the accepted observations and approvals, has nothing in flight, and holds every open ticket for recovery; its sequence
  does not run ahead of the old one, and it is cancelled only if the old one was. No later attempt to dispatch a node that was ever
  dispatched succeeds.\<close>

theorem crash_recovery:
  assumes "new_scheduler (live_guards e st) c p a n re w0 = (Inr s0, w1)" "mirrors A w0"
    and "durable_run (live_guards e st) recorded_ids other_party (s0, w1) (s, w)"
    and "de_fault e (cd_tick w) = None" "de_fault e (Suc (cd_tick w)) = None"
    and "set re' = {i \<in> tracked s. needs_approval p i}"
  shows "\<exists>s' w'. new_scheduler (live_guards e st) c p a n re' w = (Inr s', w')
    \<and> map_of (sc_observations s') = map_of (sc_observations s) \<and> set (sc_approved_nodes s') = set (sc_approved_nodes s)
    \<and> sc_in_flight s' = [] \<and> set (sc_recovery_required s') = set (sc_in_flight s @ sc_recovery_required s)
    \<and> sc_dispatch_sequence s' \<le> sc_dispatch_sequence s \<and> (sc_cancelled s' \<longrightarrow> sc_cancelled s)
    \<and> (\<forall>i s'' w'' ok t x. i \<in> tracked s \<and> sched_run (live_guards e st) other_party (s', w') (s'', w'') \<longrightarrow>
         issue_dispatch (live_guards e st) i ok (s'', w'') \<noteq> (Inr t, x))"
proof -
  let ?g = "live_guards e st" and ?task = "ep_task_id p"
  note start = new_scheduler_inv [OF assms(1)]
  have eq: "sc_task_context s = c" "sc_plan s = p" "sc_parent_authority s = a" "sc_max_concurrency s = n"
    using sched_run_grows [OF start(1) durable_sched [OF assms(3)]] start by (simp_all add: grows_def)
  obtain pf r where r: "plan_fingerprint p = Inr pf" "cp_initialize e w0 = (Inr (), w1)" "cp_load e ?task pf w1 = Inr r"
    using assms(1) by (auto simp: new_scheduler_iff restore_checkpoint_iff live_guards_def checkpoint_repository_def fresh_scheduler_def)
  have "logs_for ?task A w0"
    using load_requires [OF r(3)] initialize_mirrors(2) [OF r(2) assms(2)] assms(2) unfolding find_task_ids logs_for_def by simp
  from plain.started [OF this assms(1)] plain.run_keeps [OF assms(3)] obtain B where B: "logs_for ?task B w" "tracks B s" by auto
  obtain w' r' where w': "cp_initialize e w = (Inr (), w')" "cp_load e ?task pf w' = Inr r'"
    using load_available [OF B(1) assms(4,5)] load_requires [OF r(3)] by blast
  obtain s' where s': "new_scheduler ?g c p a n re' w = (Inr s', w')" "recovers s s'"
    using plain.recovery [OF B, of e w' pf r' re' st] w' r(1) assms(6) by (auto simp: eq checkpoint_repository_def)
  have "tracked s' = tracked s" using s'(2) by (simp add: recovers_def)
  then have "issue_dispatch ?g i ok (s'', w'') \<noteq> (Inr t, x)" if "i \<in> tracked s" "sched_run ?g other_party (s', w') (s'', w'')" for i s'' w'' ok t x
    using no_redispatch [OF new_scheduler_inv(1) [OF s'(1)] that(2)] that(1) by simp
  with s' show ?thesis unfolding recovers_def by blast
qed

text \<open>A database with a task and its budget, for two steps.\<close>

definition governed_db :: checkpoint_db where
  "governed_db = demo_db\<lparr>cd_store := demo_store\<lparr>st_budgets := [''T'' \<mapsto> demo_row 2]\<rparr>\<rparr>"

definition governed_state :: budget_state where
  "governed_state = \<lparr>bs_db_path = [], bs_task_id = ''T'', bs_max_steps = 2, bs_max_tool_calls = 2, bs_max_model_retries = 2,
     bs_max_model_escalations = 2, bs_max_wall_time_ms = 1, bs_deadline_at = At 1000\<rparr>"

abbreviation governed :: "checkpoint_db guards" where
  "governed \<equiv> live_guards demo_env governed_state"

lemma governed_find: "find_task (cd_store governed_db) ''T'' \<noteq> None" "mirrors no_receipts governed_db"
  by (simp add: governed_db_def find_task_def demo_store_def demo_task_def) (rule no_receipts_mirrors; simp add: governed_db_def demo_db_def)

lemma demo_plan_task: "ep_task_id demo_plan = ''T''" "is_sha256_ref (projr (plan_fingerprint demo_plan))"
  using plan_fingerprint_total [OF demo_plan_valid] by (auto simp: demo_plan_def planned_def demo_plan_context_def demo_context_def)

lemma governed_start: "new_scheduler governed demo_plan_context demo_plan demo_plan_authority 4 [] governed_db = (Inr demo_scheduler, ticked governed_db)"
proof -
  obtain pf where pf: "plan_fingerprint demo_plan = Inr pf" using demo_plan_fingerprint by blast
  have i: "cp_initialize demo_env governed_db = (Inr (), ticked governed_db)"
    by (simp add: cp_initialize_def demo_env_def governed_db_def demo_db_def)
  have q: "quiet demo_env (ticked governed_db)" by (simp add: quiet_def demo_env_def governed_db_def demo_db_def)
  have l: "cp_load demo_env ''T'' pf (ticked governed_db) = Inr (recovered no_receipts ''T'' pf)"
    using governed_find demo_plan_task(2) by (intro load_receipts q) (simp_all add: pf)
  have r: "recovered no_receipts ''T'' pf = \<lparr>rs_task_id = ''T'', rs_plan_fingerprint = pf, rs_dispatches = [], rs_observations = [],
      rs_recovery_required_ticket_ids = [], rs_cancellation_reason = None\<rparr>"
    by (simp add: recovered_def tickets_of_def reports_of_def no_receipts_def)
  have "rebuilt (recovered no_receipts ''T'' pf) demo_scheduler = demo_scheduler"
    by (simp add: rebuilt_def r demo_scheduler_def fresh_scheduler_def by_node_def)
  moreover have "ordered_observations demo_scheduler = []"
    by (simp add: ordered_observations_def demo_scheduler_def fresh_scheduler_def List.map_filter_def)
  then have "scheduler_evaluate demo_scheduler (ordered_observations demo_scheduler) (sc_approved_nodes demo_scheduler) = Inr demo_decision"
    using demo_decision_eq by (simp add: scheduler_evaluate_def demo_scheduler_def fresh_scheduler_def)
  moreover have "pristine demo_scheduler" by (auto simp: pristine_def demo_scheduler_def)
  ultimately have "restore_from [] (recovered no_receipts ''T'' pf) demo_scheduler = Inr demo_scheduler"
    by (simp add: restore_from_iff restores_def recovery_set_ok_def) (simp add: r demo_scheduler_fields demo_plan_task(1) pf)
  then show ?thesis
    using i l demo_decision_eq unfolding new_scheduler_iff restore_checkpoint_iff scheduler_checks_iff demo_scheduler_def [symmetric]
    by (simp add: live_guards_def checkpoint_repository_def demo_scheduler_fields demo_plan_task(1) pf MAX_SCHEDULER_CONCURRENCY_def)
qed

lemma demo_budget_call:
  assumes "st_budgets (cd_store w) ''T'' = Some r" "project r (steps n) 0 = Inr (charge (steps n) 0 r)" "0 \<le> n"
  shows "budget_call demo_env (\<lambda>locks clock. reserve locks clock governed_state (steps n)) w
    = (Inr (), w\<lparr>cd_tick := cd_tick w + 2, cd_store := (if n = 0 then cd_store w else put_budget ''T'' (charge (steps n) 0 r) (cd_store w))\<rparr>)"
proof -
  have d: "no_deltas (steps n) \<longleftrightarrow> n = 0" "deltas_ok (steps n)" using assms(3) by (simp_all add: no_deltas_def deltas_ok_def steps_def zero_deltas_def)
  have "reserve_task_execution_budget 0 ''T'' (steps n) (cd_store w) = Inr (if n = 0 then r else charge (steps n) 0 r,
      if n = 0 then cd_store w else put_budget ''T'' (charge (steps n) 0 r) (cd_store w))"
    using assms d by (simp add: reserve_iff)
  then have "reserve (\<lambda>k. None) (\<lambda>k. 0) governed_state (steps n) (cd_store w) = (Inr (), if n = 0 then cd_store w else put_budget ''T'' (charge (steps n) 0 r) (cd_store w))"
    by (simp add: reserve_def run_budget_write_two translate_exhaustion_def governed_state_def numeral_2_eq_2)
  moreover have "budget_locks demo_env k = (\<lambda>_. None)" for k by (simp add: budget_locks_def demo_env_def fun_eq_iff)
  moreover have "de_clock demo_env k = 0" for k by (simp add: demo_env_def)
  ultimately show ?thesis by (simp add: budget_call_def split: if_split_asm)
qed

lemma governed_dispatch: "\<exists>t s w. issue_dispatch governed ''gather'' False (demo_scheduler, ticked governed_db) = (Inr t, (s, w))
   \<and> sc_in_flight s = [(''gather'', t)] \<and> sc_observations s = [] \<and> sc_recovery_required s = []"
proof -
  let ?n = "demo_nodes ! 0" and ?w0 = "ticked governed_db"
  let ?w1 = "?w0\<lparr>cd_tick := cd_tick ?w0 + 2\<rparr>"
  let ?w2 = "?w1\<lparr>cd_tick := cd_tick ?w1 + 2, cd_store := put_budget ''T'' (charge (steps 1) 0 (demo_row 2)) (cd_store ?w1)\<rparr>"
  have m: "?n \<in> set (ep_nodes demo_plan)" using demo_gather(6,8) by simp
  obtain t where t: "make_ticket (bump demo_scheduler) ?n [] = Inr t"
    using make_ticket_total [of "bump demo_scheduler" _ ?n "[]"] demo_plan_fingerprint plan_nodes_wf(1) [OF demo_plan_valid m]
    by (auto simp: demo_scheduler_fields)
  note T = make_ticketD [OF t, simplified, unfolded demo_scheduler_fields demo_gather(3)]
  have b: "st_budgets (cd_store governed_db) ''T'' = Some (demo_row 2)" "project (demo_row 2) (steps 0) 0 = Inr (charge (steps 0) 0 (demo_row 2))"
    "project (demo_row 2) (steps 1) 0 = Inr (charge (steps 1) 0 (demo_row 2))"
    by (simp add: governed_db_def) (simp_all add: project_iff steps_def demo_row_def zero_deltas_def)
  have z: "zero_deltas = steps 0" by (simp add: steps_def zero_deltas_def)
  have act: "gd_assert_active governed ?w0 = (Inr (), ?w1)"
    using demo_budget_call [of ?w0 "demo_row 2" 0] b by (simp add: live_guards_def assert_active_def [abs_def] z)
  have res: "gd_reserve_steps governed 1 ?w1 = (Inr (), ?w2)"
    using demo_budget_call [of ?w1 "demo_row 2" 1] b by (simp add: live_guards_def)
  have rev: "gd_is_revoked governed ''T'' c ?w1 = Inr False" if "c \<in> set (en_allowed_tools ?n)" for c
  proof -
    have "c = ''read_file''" using that by (simp add: demo_nodes_def demo_node_def Let_def)
    moreover have "capability_arg ''read_file'' = Inr ''read_file''" by code_simp
    ultimately show ?thesis by (simp add: live_guards_def revocation_call_def is_revoked_def revocation_row_def governed_db_def demo_db_def demo_store_def empty_store_def demo_env_def)
  qed
  have v: "revalidate_runtime governed ?n (demo_scheduler, ?w0) = (Inr (), (demo_scheduler, ?w1))"
    using demo_plan_valid m act rev by (auto simp: revalidate_iff demo_scheduler_fields demo_plan_task(1) plan_validate_iff parent_ok_def list_all_iff)
  have ok: "ticket_ok t"
    using T demo_plan_task(2) plan_nodes_wf(1) [OF demo_plan_valid m] by (simp add: ticket_ok_def node_fingerprint_iff node_wf_def)
  then have "admits_ticket no_receipts t" using T by (simp add: admits_ticket_def no_receipts_def sqlite_int_def)
  moreover obtain r w3 where r: "record_dispatch demo_env t ?w2 = (r, w3)" by (metis surj_pair)
  moreover have "mirrors no_receipts ?w2" using governed_find(2) by (simp add: mirrors_store)
  moreover have "quiet demo_env ?w2" by (simp add: quiet_def demo_env_def governed_db_def demo_db_def)
  moreover have "find_task (cd_store ?w2) ''T'' \<noteq> None" using governed_find(1) by (simp add: find_task_def)
  ultimately have "r = Inr t" using record_dispatch_mirrors(3) [of no_receipts ?w2 demo_env t r w3] T by (simp add: demo_plan_task(1))
  then have rec: "ticket_recording governed ''gather'' t (bump demo_scheduler, ?w2) = (Inr (), (bump demo_scheduler, w3))"
    using r by (simp add: record_with_iff live_guards_def checkpoint_repository_def)
  have "issue_dispatch governed ''gather'' False (demo_scheduler, ?w0) = (Inr t, (note_dispatched ?n t (bump demo_scheduler), w3))"
    unfolding issue_dispatch_iff using demo_guard v res t rec by blast
  then show ?thesis by (auto simp: note_dispatched_def demo_gather(3) demo_scheduler_fields)
qed

theorem crash_recovery_witness:
  "\<exists>t s w s' w'. issue_dispatch governed ''gather'' False (demo_scheduler, ticked governed_db) = (Inr t, (s, w))
     \<and> new_scheduler governed demo_plan_context demo_plan demo_plan_authority 4 [] w = (Inr s', w')
     \<and> set (sc_recovery_required s') = {(''gather'', t)} \<and> (\<forall>u x. issue_dispatch governed ''gather'' False (s', w') \<noteq> (Inr u, x))"
proof -
  obtain t s w where d: "issue_dispatch governed ''gather'' False (demo_scheduler, ticked governed_db) = (Inr t, (s, w))"
    "sc_in_flight s = [(''gather'', t)]" "sc_observations s = []" "sc_recovery_required s = []" using governed_dispatch by blast
  have "recorded_ids (ticked governed_db) = {}" by (simp add: recorded_ids_def governed_db_def demo_db_def)
  then have run: "durable_run governed recorded_ids other_party (demo_scheduler, ticked governed_db) (s, w)"
    using durable_step.dispatch [OF d(1), of recorded_ids other_party] by auto
  have tr: "tracked s = {''gather''}" using d by (simp add: tracked_def)
  have approvals: "set [] = {i \<in> tracked s. needs_approval demo_plan i}" using demo_gather(1,2) by (auto simp: tr needs_approval_def node_map_def)
  have quiet: "de_fault demo_env k = None" for k by (simp add: demo_env_def)
  note R = crash_recovery [OF governed_start governed_find(2) run _ _ approvals]
  obtain s' w' where "new_scheduler governed demo_plan_context demo_plan demo_plan_authority 4 [] w = (Inr s', w')"
    "set (sc_recovery_required s') = set (sc_in_flight s @ sc_recovery_required s)"
    "\<forall>i s'' w'' ok u x. i \<in> tracked s \<and> sched_run governed other_party (s', w') (s'', w'') \<longrightarrow> issue_dispatch governed i ok (s'', w'') \<noteq> (Inr u, x)"
    by (rule exE [OF R [OF quiet quiet]]) (elim exE conjE, rule that)
  moreover have "\<forall>u x. issue_dispatch governed ''gather'' False (s', w') \<noteq> (Inr u, x)"
    using calculation(3) [rule_format, of "''gather''" s' w' False] by (simp add: tr)
  ultimately show ?thesis using d by (intro exI conjI) simp_all
qed
end
