(* ===== verification/Writer_Lease.thy ===== *)
theory Writer_Lease
  imports Checkpoint_Receipts
begin

text \<open>
  Model of \<open>src/three_agent/runtime_writer_lease.py\<close>: which run may write for a task and plan. A lease names a run and a
  generation; a claim by another run takes the next generation and makes the lease before it stale. The leases and a hash
  chain of their events are tables of the task database, beside those of \<open>execution_checkpoint.py\<close> and the reservations
  of \<open>execution_dispatch_budget.py\<close>.
\<close>

section \<open>Leases\<close>

abbreviation WL :: exc_class where "WL \<equiv> RuntimeWriterLeaseError"

definition RUNTIME_WRITER_LEASE_SCHEMA :: string where
  "RUNTIME_WRITER_LEASE_SCHEMA = ''workspace-runtime-writer-lease/v1''"

definition LEASE_STATUSES :: "string list" where
  "LEASE_STATUSES = [''ACTIVE'', ''RELEASED'']"

abbreviation lease_text :: "json \<Rightarrow> string result" where
  "lease_text \<equiv> canonical_text WL ''WRITER_LEASE_NOT_CANONICAL_JSON''"

abbreviation lease_digest :: "json \<Rightarrow> string result" where
  "lease_digest \<equiv> canonical_digest WL ''WRITER_LEASE_NOT_CANONICAL_JSON''"

definition lease_timestamp :: "string \<Rightarrow> string \<Rightarrow> string result" where
  "lease_timestamp v field = (if v = [] \<or> v \<noteq> strip v then invalid WL field
     else case fromisoformat (zulu v) of None \<Rightarrow> invalid WL field
     | Some p \<Rightarrow> if dt_offset p = None then raise WL (upper field @ ''_MUST_BE_TIMEZONE_AWARE'')
         else bindE (utc_text p) (\<lambda>canonical.
           if canonical \<noteq> v then raise WL (upper field @ ''_MUST_BE_NORMALIZED_UTC'') else Inr v))"

record writer_lease =
  wl_task_id :: string
  wl_plan_fingerprint :: string
  wl_run_id :: string
  wl_generation :: int
  wl_issued_at :: string
  wl_status :: string
  wl_released_at :: "string option"
  wl_schema_version :: string

definition lease_identity_checks :: "writer_lease \<Rightarrow> unit result list" where
  "lease_identity_checks l =
     [fail_if WL (wl_schema_version l \<noteq> RUNTIME_WRITER_LEASE_SCHEMA) ''WRITER_LEASE_SCHEMA_VERSION_MISMATCH'',
      void (id_field WL (wl_task_id l) ''task_id''), void (sha256_field WL (wl_plan_fingerprint l) ''plan_fingerprint''),
      void (id_field WL (wl_run_id l) ''run_id''), fail_if WL (wl_generation l < 1) ''INVALID_WRITER_GENERATION'']"

text \<open>The release time: absent from an active lease, present and not before the issue in a released one. The texts were
  accepted as timestamps before they are read again.\<close>

definition lease_release_check :: "writer_lease \<Rightarrow> unit result" where
  "lease_release_check l = (
     if wl_status l = ''ACTIVE'' then fail_if WL (wl_released_at l \<noteq> None) ''ACTIVE_WRITER_LEASE_HAS_RELEASE_TIME''
     else case wl_released_at l of None \<Rightarrow> raise WL ''RELEASED_WRITER_LEASE_MISSING_RELEASE_TIME''
     | Some t \<Rightarrow> bindE (lease_timestamp t ''released_at'') (\<lambda>released_at.
         case (fromisoformat (replace_char (CHR ''Z'') ''+00:00'' (wl_issued_at l)), fromisoformat (replace_char (CHR ''Z'') ''+00:00'' released_at)) of
           (Some issued, Some released) \<Rightarrow> fail_if WL (instant released < instant issued) ''WRITER_LEASE_RELEASE_PRECEDES_ISSUE''
         | _ \<Rightarrow> raise ValueError ''Invalid isoformat string''))"

definition lease_checks :: "writer_lease \<Rightarrow> unit result list" where
  "lease_checks l = lease_identity_checks l @ [fail_if WL (wl_status l \<notin> set LEASE_STATUSES) ''INVALID_WRITER_LEASE_STATUS'',
     void (lease_timestamp (wl_issued_at l) ''issued_at''), lease_release_check l]"

definition lease_validate :: "writer_lease \<Rightarrow> writer_lease result" where
  "lease_validate l = checked (lease_checks l) l"

definition lease_items :: "writer_lease \<Rightarrow> (string \<times> json) list" where
  "lease_items l = [(''schema_version'', JStr (wl_schema_version l)), (''task_id'', JStr (wl_task_id l)),
     (''plan_fingerprint'', JStr (wl_plan_fingerprint l)), (''run_id'', JStr (wl_run_id l)), (''generation'', JInt (wl_generation l)),
     (''issued_at'', JStr (wl_issued_at l)), (''status'', JStr (wl_status l)), (''released_at'', str_json (wl_released_at l))]"

definition lease_json :: "writer_lease \<Rightarrow> json" where
  "lease_json l = JObj (lease_items l)"

definition lease_canonical :: "writer_lease \<Rightarrow> json result" where
  "lease_canonical l = bindE (lease_validate l) (\<lambda>_. Inr (lease_json l))"

definition lease_fingerprint :: "writer_lease \<Rightarrow> string result" where
  "lease_fingerprint l = bindE (lease_canonical l) lease_digest"

section \<open>The tables\<close>

record lease_row =
  lr_run_id :: string
  lr_generation :: int
  lr_status :: string
  lr_lease_json :: string
  lr_lease_sha256 :: string
  lr_updated_at :: string

record lease_event =
  le_task_id :: string
  le_plan_fingerprint :: string
  le_event_type :: string
  le_run_id :: string
  le_generation :: int
  le_payload_json :: string
  le_payload_sha256 :: string
  le_previous_hash :: string
  le_event_hash :: string
  le_recorded_at :: string

text \<open>The lease table has one row for each task and plan, its primary key.\<close>

record lease_db =
  ld_created :: bool
  ld_leases :: "string \<times> string \<rightharpoonup> lease_row"
  ld_events :: "lease_event list"

text \<open>A field of a stored lease that is no string or no integer fails the check of that field in the way the value
  put in its place does; a status that cannot be hashed raises \<open>TypeError\<close> in the membership test.\<close>

fun text_of :: "json \<Rightarrow> string" where
  "text_of (JStr t) = t"
| "text_of _ = []"

fun unhashable :: "json \<Rightarrow> bool" where
  "unhashable (JList _) = True"
| "unhashable (JObj _) = True"
| "unhashable _ = False"

definition LEASE_KEYS :: "string list" where
  "LEASE_KEYS = [''schema_version'', ''task_id'', ''plan_fingerprint'', ''run_id'', ''generation'', ''issued_at'', ''status'', ''released_at'']"

definition lease_of_items :: "(string \<times> json) list \<Rightarrow> writer_lease result" where
  "lease_of_items d = (let field = (\<lambda>k. dict_get d k JNull);
       l = \<lparr>wl_task_id = text_of (field ''task_id''), wl_plan_fingerprint = text_of (field ''plan_fingerprint''),
         wl_run_id = text_of (field ''run_id''), wl_generation = (case field ''generation'' of JInt i \<Rightarrow> i | _ \<Rightarrow> 0),
         wl_issued_at = text_of (field ''issued_at''), wl_status = text_of (field ''status''),
         wl_released_at = (if field ''released_at'' = JNull then None else Some (text_of (field ''released_at''))),
         wl_schema_version = text_of (field ''schema_version'')\<rparr> in
     bindE (checked (lease_identity_checks l) ()) (\<lambda>_.
     if unhashable (field ''status'') then raise WL ''WRITER_LEASE_RECORD_SHAPE_INVALID'' else lease_validate l))"

definition lease_from_row :: "string \<times> string \<Rightarrow> lease_row \<Rightarrow> writer_lease result" where
  "lease_from_row scope row = (case loads (lr_lease_json row) of
     None \<Rightarrow> raise WL ''WRITER_LEASE_JSON_INVALID''
   | Some (JObj d) \<Rightarrow> bindE (lease_text (JObj d)) (\<lambda>t.
       if t \<noteq> lr_lease_json row then raise WL ''WRITER_LEASE_RECORD_NOT_CANONICAL''
       else bindE (lease_digest (JObj d)) (\<lambda>h.
       if h \<noteq> lr_lease_sha256 row then raise WL ''WRITER_LEASE_DIGEST_MISMATCH''
       else if \<not> same_keys d LEASE_KEYS then raise WL ''WRITER_LEASE_RECORD_SHAPE_INVALID''
       else bindE (lease_of_items d) (\<lambda>l. bindE (lease_fingerprint l) (\<lambda>f.
       if f \<noteq> lr_lease_sha256 row then raise WL ''WRITER_LEASE_FINGERPRINT_MISMATCH''
       else if scope \<noteq> (wl_task_id l, wl_plan_fingerprint l) \<or> lr_run_id row \<noteq> wl_run_id l \<or> lr_generation row \<noteq> wl_generation l
          \<or> lr_status row \<noteq> wl_status l then raise WL ''WRITER_LEASE_INDEX_MISMATCH''
       else Inr l))))
   | Some _ \<Rightarrow> raise WL ''WRITER_LEASE_RECORD_NOT_OBJECT'')"

definition lease_event_hash :: "lease_event \<Rightarrow> string" where
  "lease_event_hash r = digest (JObj [(''task_id'', JStr (le_task_id r)), (''plan_fingerprint'', JStr (le_plan_fingerprint r)),
     (''event_type'', JStr (le_event_type r)), (''run_id'', JStr (le_run_id r)), (''generation'', JInt (le_generation r)),
     (''payload_json'', JStr (le_payload_json r)), (''payload_sha256'', JStr (le_payload_sha256 r)),
     (''previous_hash'', JStr (le_previous_hash r)), (''recorded_at'', JStr (le_recorded_at r))])"

abbreviation lease_events_of :: "string \<times> string \<Rightarrow> lease_db \<Rightarrow> lease_event list" where
  "lease_events_of scope d \<equiv> filter (\<lambda>r. (le_task_id r, le_plan_fingerprint r) = scope) (ld_events d)"

definition lease_event_payload :: "string \<Rightarrow> writer_lease \<Rightarrow> json" where
  "lease_event_payload f l = JObj [(''lease_fingerprint'', JStr f), (''status'', JStr (wl_status l))]"

definition append_lease_event :: "writer_lease \<Rightarrow> string \<Rightarrow> string \<Rightarrow> lease_db \<Rightarrow> lease_db result" where
  "append_lease_event l event_type recorded_at d = bindE (lease_fingerprint l) (\<lambda>f.
     let p = lease_event_payload f l; rows = lease_events_of (wl_task_id l, wl_plan_fingerprint l) d;
         r = \<lparr>le_task_id = wl_task_id l, le_plan_fingerprint = wl_plan_fingerprint l, le_event_type = event_type, le_run_id = wl_run_id l,
           le_generation = wl_generation l, le_payload_json = dumps p, le_payload_sha256 = digest p,
           le_previous_hash = (if rows = [] then ZERO_HASH else le_event_hash (last rows)), le_event_hash = [], le_recorded_at = recorded_at\<rparr> in
     Inr (d\<lparr>ld_events := ld_events d @ [r\<lparr>le_event_hash := lease_event_hash r\<rparr>]\<rparr>))"

section \<open>Operations\<close>

definition lease_require_task :: "string \<Rightarrow> store \<Rightarrow> unit result" where
  "lease_require_task task_id s = fail_if WL (find_task s task_id = None) ''WRITER_LEASE_TASK_NOT_FOUND''"

definition select_lease :: "string \<times> string \<Rightarrow> lease_db \<Rightarrow> lease_row option result" where
  "select_lease scope d = (if ld_created d then Inr (ld_leases d scope) else raise OperationalError ''no such table: runtime_writer_leases'')"

definition new_lease :: "string \<Rightarrow> string \<Rightarrow> string \<Rightarrow> int \<Rightarrow> string \<Rightarrow> writer_lease" where
  "new_lease task_id pf run_id generation issued_at = \<lparr>wl_task_id = task_id, wl_plan_fingerprint = pf, wl_run_id = run_id,
     wl_generation = generation, wl_issued_at = issued_at, wl_status = ''ACTIVE'', wl_released_at = None,
     wl_schema_version = RUNTIME_WRITER_LEASE_SCHEMA\<rparr>"

text \<open>The text and digest of a lease, and the statement that writes its row.\<close>

definition lease_row_of :: "writer_lease \<Rightarrow> string \<Rightarrow> lease_row result" where
  "lease_row_of l updated_at = bindE (lease_canonical l) (\<lambda>p. bindE (lease_text p) (\<lambda>js. bindE (lease_fingerprint l) (\<lambda>sha.
     if \<not> sqlite_int (wl_generation l) then raise OverflowError ''Python int too large to convert to SQLite INTEGER''
     else Inr \<lparr>lr_run_id = wl_run_id l, lr_generation = wl_generation l, lr_status = wl_status l, lr_lease_json = js,
       lr_lease_sha256 = sha, lr_updated_at = updated_at\<rparr>)))"

definition store_lease :: "writer_lease \<Rightarrow> string \<Rightarrow> string \<Rightarrow> lease_db \<Rightarrow> (writer_lease \<times> lease_db) result" where
  "store_lease l event_type timestamp d = bindE (lease_validate l) (\<lambda>_. bindE (lease_row_of l timestamp) (\<lambda>row.
     bindE (append_lease_event l event_type timestamp
       (d\<lparr>ld_leases := (ld_leases d)((wl_task_id l, wl_plan_fingerprint l) \<mapsto> row)\<rparr>)) (\<lambda>d'. Inr (l, d'))))"

definition claim_transaction :: "string \<Rightarrow> string \<Rightarrow> string \<Rightarrow> string \<Rightarrow> store \<Rightarrow> lease_db \<Rightarrow> (writer_lease \<times> lease_db) result" where
  "claim_transaction task_id pf run_id timestamp s d =
     bindE (lease_require_task task_id s) (\<lambda>_. bindE (select_lease (task_id, pf) d) (\<lambda>found.
     case found of
       None \<Rightarrow> store_lease (new_lease task_id pf run_id 1 timestamp) ''WRITER_CLAIMED'' timestamp d
     | Some row \<Rightarrow> bindE (lease_from_row (task_id, pf) row) (\<lambda>current.
         if wl_status current = ''ACTIVE'' \<and> wl_run_id current = run_id then Inr (current, d)
         else store_lease (new_lease task_id pf run_id (wl_generation current + 1) timestamp) ''WRITER_CLAIMED'' timestamp d)))"

definition require_current_in_transaction :: "writer_lease \<Rightarrow> lease_db \<Rightarrow> writer_lease result" where
  "require_current_in_transaction l d = bindE (lease_validate l) (\<lambda>_.
     if wl_status l \<noteq> ''ACTIVE'' then raise WL ''WRITER_LEASE_NOT_ACTIVE''
     else bindE (select_lease (wl_task_id l, wl_plan_fingerprint l) d) (\<lambda>found.
     case found of None \<Rightarrow> raise WL ''WRITER_LEASE_NOT_FOUND''
     | Some row \<Rightarrow> bindE (lease_from_row (wl_task_id l, wl_plan_fingerprint l) row) (\<lambda>current.
         if wl_status current \<noteq> ''ACTIVE'' then raise WL ''WRITER_LEASE_NOT_ACTIVE''
         else bindE (lease_fingerprint current) (\<lambda>f. bindE (lease_fingerprint l) (\<lambda>f'.
           if f \<noteq> f' then raise WL ''WRITER_LEASE_STALE'' else Inr current)))))"

definition release_transaction :: "writer_lease \<Rightarrow> string \<Rightarrow> store \<Rightarrow> lease_db \<Rightarrow> (writer_lease \<times> lease_db) result" where
  "release_transaction l timestamp s d =
     bindE (lease_require_task (wl_task_id l) s) (\<lambda>_. bindE (select_lease (wl_task_id l, wl_plan_fingerprint l) d) (\<lambda>found.
     case found of None \<Rightarrow> raise WL ''WRITER_LEASE_NOT_FOUND''
     | Some row \<Rightarrow> bindE (lease_from_row (wl_task_id l, wl_plan_fingerprint l) row) (\<lambda>current.
         if wl_run_id current \<noteq> wl_run_id l \<or> wl_generation current \<noteq> wl_generation l \<or> wl_issued_at current \<noteq> wl_issued_at l
           then raise WL ''WRITER_LEASE_STALE''
         else if wl_status current = ''RELEASED'' then Inr (current, d)
         else bindE (lease_fingerprint current) (\<lambda>f. bindE (lease_fingerprint l) (\<lambda>f'.
           if f \<noteq> f' then raise WL ''WRITER_LEASE_STALE''
           else store_lease (new_lease (wl_task_id current) (wl_plan_fingerprint current) (wl_run_id current) (wl_generation current)
               (wl_issued_at current)\<lparr>wl_status := ''RELEASED'', wl_released_at := Some timestamp\<rparr>) ''WRITER_RELEASED'' timestamp d)))))"

text \<open>One turn of the loop of \<open>verify_event_chain\<close>.\<close>

definition lease_chain_step :: "string option \<Rightarrow> lease_event \<Rightarrow> string option result" where
  "lease_chain_step prev r = (case prev of None \<Rightarrow> Inr None
   | Some previous_hash \<Rightarrow> (case loads (le_payload_json r) of
       Some (JObj d) \<Rightarrow> bindE (lease_text (JObj d)) (\<lambda>t. if t \<noteq> le_payload_json r then Inr None
         else bindE (lease_digest (JObj d)) (\<lambda>h.
           let expected = lease_event_hash (r\<lparr>le_payload_sha256 := h, le_previous_hash := previous_hash\<rparr>) in
           Inr (if le_payload_sha256 r \<noteq> h \<or> le_previous_hash r \<noteq> previous_hash \<or> le_event_hash r \<noteq> expected then None else Some expected)))
     | _ \<Rightarrow> Inr None))"

definition verify_lease_chain :: "string \<Rightarrow> string \<Rightarrow> lease_db \<Rightarrow> bool result" where
  "verify_lease_chain task_id pf d = bindE (id_field WL task_id ''task_id'') (\<lambda>_. bindE (sha256_field WL pf ''plan_fingerprint'') (\<lambda>_.
     if \<not> ld_created d then raise OperationalError ''no such table: runtime_writer_lease_events''
     else bindE (foldE lease_chain_step (Some ZERO_HASH) (lease_events_of (task_id, pf) d)) (\<lambda>h. Inr (h \<noteq> None))))"

section \<open>Calls on the database\<close>

text \<open>The task database with the tables of the runtime: the checkpoints, the leases and the dispatch budget reservations.\<close>

record reservation_row =
  rr_reservation_id :: string
  rr_task_id :: string
  rr_plan_fingerprint :: string
  rr_node_id :: string
  rr_reservation_json :: string
  rr_reservation_sha256 :: string
  rr_reserved_at :: string

record runtime_db =
  rd_db :: checkpoint_db
  rd_lease :: lease_db
  rd_reserving :: bool
  rd_reservations :: "reservation_row list"

definition rd_tick :: "runtime_db \<Rightarrow> runtime_db" where
  "rd_tick w = w\<lparr>rd_db := (rd_db w)\<lparr>cd_tick := Suc (cd_tick (rd_db w))\<rparr>\<rparr>"

text \<open>One connection: the body sees the time it started, and its changes are committed when it returns.\<close>

definition connection :: "db_env \<Rightarrow> (int \<Rightarrow> runtime_db \<Rightarrow> ('a \<times> runtime_db) result) \<Rightarrow> (runtime_db, 'a) action" where
  "connection e f w = (case de_fault e (cd_tick (rd_db w)) of
     Some m \<Rightarrow> (raise OperationalError m, rd_tick w)
   | None \<Rightarrow> (case f (de_clock e (cd_tick (rd_db w))) (rd_tick w) of
       Inl x \<Rightarrow> (Inl x, rd_tick w) | Inr (a, w') \<Rightarrow> (Inr a, w')))"

definition reading :: "db_env \<Rightarrow> (runtime_db \<Rightarrow> 'a result) \<Rightarrow> runtime_db \<Rightarrow> 'a result" where
  "reading e f w = (case de_fault e (cd_tick (rd_db w)) of Some m \<Rightarrow> raise OperationalError m | None \<Rightarrow> f w)"

definition on_lease :: "(store \<Rightarrow> lease_db \<Rightarrow> ('a \<times> lease_db) result) \<Rightarrow> runtime_db \<Rightarrow> ('a \<times> runtime_db) result" where
  "on_lease f w = bindE (f (cd_store (rd_db w)) (rd_lease w)) (\<lambda>(a, d). Inr (a, w\<lparr>rd_lease := d\<rparr>))"

definition lease_initialize :: "db_env \<Rightarrow> (runtime_db, unit) action" where
  "lease_initialize e = connection e (\<lambda>now w. Inr ((), w\<lparr>rd_lease := (rd_lease w)\<lparr>ld_created := True\<rparr>\<rparr>))"

definition optional_timestamp :: "string option \<Rightarrow> string \<Rightarrow> string option result" where
  "optional_timestamp t field = (case t of None \<Rightarrow> Inr None | Some v \<Rightarrow> bindE (lease_timestamp v field) (\<lambda>v. Inr (Some v)))"

definition claim :: "db_env \<Rightarrow> string \<Rightarrow> string \<Rightarrow> string \<Rightarrow> string option \<Rightarrow> (runtime_db, writer_lease) action" where
  "claim e task_id pf run_id issued_at w = (
     case bindE (id_field WL task_id ''task_id'') (\<lambda>_. bindE (sha256_field WL pf ''plan_fingerprint'') (\<lambda>_.
       bindE (id_field WL run_id ''run_id'') (\<lambda>_. optional_timestamp issued_at ''issued_at''))) of
       Inl x \<Rightarrow> (Inl x, w)
     | Inr t \<Rightarrow> connection e (\<lambda>now. on_lease (claim_transaction task_id pf run_id (case t of None \<Rightarrow> utc_now_text now | Some v \<Rightarrow> v))) w)"

definition current :: "db_env \<Rightarrow> string \<Rightarrow> string \<Rightarrow> runtime_db \<Rightarrow> writer_lease option result" where
  "current e task_id pf w = bindE (id_field WL task_id ''task_id'') (\<lambda>_. bindE (sha256_field WL pf ''plan_fingerprint'') (\<lambda>_.
     reading e (\<lambda>w. bindE (lease_require_task task_id (cd_store (rd_db w))) (\<lambda>_. bindE (select_lease (task_id, pf) (rd_lease w)) (\<lambda>found.
       case found of None \<Rightarrow> Inr None | Some row \<Rightarrow> bindE (lease_from_row (task_id, pf) row) (\<lambda>l. Inr (Some l))))) w))"

definition require_current :: "db_env \<Rightarrow> writer_lease \<Rightarrow> runtime_db \<Rightarrow> writer_lease result" where
  "require_current e l = reading e (\<lambda>w. require_current_in_transaction l (rd_lease w))"

definition release :: "db_env \<Rightarrow> writer_lease \<Rightarrow> string option \<Rightarrow> (runtime_db, writer_lease) action" where
  "release e l released_at w = (
     case bindE (lease_validate l) (\<lambda>_. if wl_status l \<noteq> ''ACTIVE'' then raise WL ''WRITER_LEASE_NOT_ACTIVE''
         else optional_timestamp released_at ''released_at'') of
       Inl x \<Rightarrow> (Inl x, w)
     | Inr t \<Rightarrow> connection e (\<lambda>now. on_lease (release_transaction l (case t of None \<Rightarrow> utc_now_text now | Some v \<Rightarrow> v))) w)"

section \<open>What the checks accept\<close>

definition stamp_text :: "string \<Rightarrow> bool" where
  "stamp_text v \<longleftrightarrow> (\<exists>p. fromisoformat (zulu v) = Some p \<and> dt_offset p \<noteq> None \<and> utc_text p = Inr v)"

lemma lease_timestamp_iff [simp]: "lease_timestamp v field = Inr x \<longleftrightarrow> x = v \<and> stamp_text v"
  using utc_text_reads(1,2) [of _ v] by (auto simp: lease_timestamp_def stamp_text_def bindE_Inr_iff split: option.splits if_splits)

text \<open>The current time is such a text.\<close>

lemma zulu_replace: "CHR ''Z'' \<notin> set s \<Longrightarrow> zulu (s @ ''Z'') = replace_char (CHR ''Z'') ''+00:00'' (s @ ''Z'')"
  by (simp add: zulu_def ends_with_iff replace_char_id) (simp add: replace_char_def)

lemma stamp_reads:
  assumes "0 \<le> t" "t < MAX_LOCAL"
  shows "stamp_text (utc_now_text t)" "fromisoformat (replace_char (CHR ''Z'') ''+00:00'' (utc_now_text t)) = Some \<lparr>dt_local = t, dt_offset = Some 0\<rparr>"
proof -
  let ?p = "\<lparr>dt_local = t, dt_offset = Some 0\<rparr>"
  have u: "utc_text ?p = Inr (utc_now_text t)" using assms by (simp add: utc_text_def astimezone_utc_def instant_def utc_now_text_def)
  show r: "fromisoformat (replace_char (CHR ''Z'') ''+00:00'' (utc_now_text t)) = Some ?p" using utc_text_reads(3) [OF u] by (simp add: instant_def)
  have "CHR ''Z'' \<notin> set (isoformat_local t)" using isoformat_chars [OF assms(1), of "CHR ''Z''"] by (auto simp: is_digit_def)
  from r u zulu_replace [OF this] show "stamp_text (utc_now_text t)" by (auto simp: stamp_text_def utc_now_text_def)
qed

definition release_ok :: "writer_lease \<Rightarrow> bool" where
  "release_ok l \<longleftrightarrow> lease_release_check l = Inr ()"

definition lease_ok :: "writer_lease \<Rightarrow> bool" where
  "lease_ok l \<longleftrightarrow> wl_schema_version l = RUNTIME_WRITER_LEASE_SCHEMA \<and> ID_RE (wl_task_id l) \<and> is_sha256_ref (wl_plan_fingerprint l)
     \<and> ID_RE (wl_run_id l) \<and> 1 \<le> wl_generation l \<and> wl_status l \<in> {''ACTIVE'', ''RELEASED''} \<and> stamp_text (wl_issued_at l) \<and> release_ok l"

lemma lease_validate_iff [simp]: "lease_validate l = Inr x \<longleftrightarrow> x = l \<and> lease_ok l"
  by (auto simp: lease_validate_def lease_checks_def lease_identity_checks_def LEASE_STATUSES_def lease_ok_def release_ok_def checked_iff)

lemma lease_identity_iff [simp]: "checked (lease_identity_checks l) u = Inr v \<longleftrightarrow> v = u \<and> wl_schema_version l = RUNTIME_WRITER_LEASE_SCHEMA
   \<and> ID_RE (wl_task_id l) \<and> is_sha256_ref (wl_plan_fingerprint l) \<and> ID_RE (wl_run_id l) \<and> 1 \<le> wl_generation l"
  by (auto simp: lease_identity_checks_def checked_iff)

lemma lease_json_ok [simp]: "plain_json (lease_json l)" "finite_json (lease_json l)"
  by (simp_all add: lease_json_def lease_items_def)

lemma lease_fingerprint_iff [simp]: "lease_fingerprint l = Inr f \<longleftrightarrow> lease_ok l \<and> f = digest (lease_json l)"
  by (auto simp: lease_fingerprint_def lease_canonical_def bindE_Inr_iff)

lemma lease_pass [simp]:
  assumes "lease_ok l"
  shows "lease_validate l = Inr l" "lease_canonical l = Inr (lease_json l)" "lease_fingerprint l = Inr (digest (lease_json l))"
proof -
  show v: "lease_validate l = Inr l" using assms by simp
  show "lease_canonical l = Inr (lease_json l)" unfolding lease_canonical_def v by simp
qed (use assms in simp)

definition normed_lease :: "writer_lease \<Rightarrow> (string \<times> json) list" where
  "normed_lease l = map (\<lambda>(k, v). (k, norm_json v)) (sort_key fst (lease_items l))"

lemma normed_lease_simps:
  "norm_json (lease_json l) = JObj (normed_lease l)" "same_keys (normed_lease l) LEASE_KEYS"
  "dict_get (normed_lease l) ''schema_version'' JNull = JStr (wl_schema_version l)" "dict_get (normed_lease l) ''task_id'' JNull = JStr (wl_task_id l)"
  "dict_get (normed_lease l) ''plan_fingerprint'' JNull = JStr (wl_plan_fingerprint l)" "dict_get (normed_lease l) ''run_id'' JNull = JStr (wl_run_id l)"
  "dict_get (normed_lease l) ''generation'' JNull = JInt (wl_generation l)" "dict_get (normed_lease l) ''issued_at'' JNull = JStr (wl_issued_at l)"
  "dict_get (normed_lease l) ''status'' JNull = JStr (wl_status l)" "dict_get (normed_lease l) ''released_at'' JNull = str_json (wl_released_at l)"
proof -
  have d: "distinct (map fst (lease_items l))" by (simp add: lease_items_def)
  show "norm_json (lease_json l) = JObj (normed_lease l)" by (simp add: normed_lease_def lease_json_def del: sort_key_simps)
  show "same_keys (normed_lease l) LEASE_KEYS"
    unfolding normed_lease_def normed_keys by (simp add: lease_items_def LEASE_KEYS_def insert_commute)
qed (unfold dict_get_norm [of "lease_items l", folded normed_lease_def, simplified lease_items_def, simplified],
  simp_all add: lease_items_def dict_get_def)

lemma optional_text: "(if str_json x = JNull then None else Some (text_of (str_json x))) = x"
  by (cases x) (simp_all add: str_json_def)

lemma lease_roundtrip: "lease_of_items (normed_lease l) = (if lease_ok l then Inr l else lease_of_items (normed_lease l))"
proof (cases "lease_ok l")
  case True
  then have id: "checked (lease_identity_checks l) () = Inr ()" by (simp add: lease_ok_def)
  have eq: "\<lparr>wl_task_id = wl_task_id l, wl_plan_fingerprint = wl_plan_fingerprint l, wl_run_id = wl_run_id l, wl_generation = wl_generation l,
      wl_issued_at = wl_issued_at l, wl_status = wl_status l, wl_released_at = wl_released_at l, wl_schema_version = wl_schema_version l\<rparr> = l" by simp
  show ?thesis
    using True unfolding lease_of_items_def normed_lease_simps Let_def optional_text text_of.simps json.case unhashable.simps eq id by simp
qed simp

text \<open>Different leases have different texts.\<close>

lemma lease_text_inject: "dumps (lease_json a) = dumps (lease_json b) \<longleftrightarrow> a = b"
proof
  assume "dumps (lease_json a) = dumps (lease_json b)"
  then have "normed_lease a = normed_lease b" using normed_lease_simps(1) dumps_inject [of "lease_json a" "lease_json b"] by simp
  then have "dict_get (normed_lease a) k JNull = dict_get (normed_lease b) k JNull" for k by simp
  from this [of "''schema_version''"] this [of "''task_id''"] this [of "''plan_fingerprint''"] this [of "''run_id''"] this [of "''generation''"]
    this [of "''issued_at''"] this [of "''status''"] this [of "''released_at''"] show "a = b"
    unfolding normed_lease_simps by simp
qed simp

text \<open>A row that holds a lease.\<close>

definition holds_lease :: "string \<times> string \<Rightarrow> writer_lease \<Rightarrow> lease_row \<Rightarrow> bool" where
  "holds_lease scope l r \<longleftrightarrow> lease_ok l \<and> scope = (wl_task_id l, wl_plan_fingerprint l) \<and> lr_run_id r = wl_run_id l \<and> lr_generation r = wl_generation l
     \<and> lr_status r = wl_status l \<and> lr_lease_json r = dumps (lease_json l) \<and> lr_lease_sha256 r = digest (lease_json l)"

lemma lease_from_row_reads:
  assumes "holds_lease scope l r"
  shows "lease_from_row scope r = Inr l"
proof -
  have "loads (lr_lease_json r) = Some (JObj (normed_lease l))"
    using assms by (simp add: holds_lease_def loads_dumps normed_lease_simps(1) del: dumps.simps)
  moreover have "finite_json (JObj (normed_lease l))" "dumps (JObj (normed_lease l)) = dumps (lease_json l)" "digest (JObj (normed_lease l)) = digest (lease_json l)"
    using normed_lease_simps(1) [of l, symmetric] finite_norm [of "lease_json l"] dumps_norm_json by (simp_all del: dumps.simps finite_json.simps)
  ultimately show ?thesis
    using assms normed_lease_simps(2) lease_roundtrip [of l]
    by (simp add: lease_from_row_def holds_lease_def del: dumps.simps finite_json.simps)
qed

lemma holds_lease_unique: "holds_lease scope a r \<Longrightarrow> holds_lease scope b r \<Longrightarrow> a = b"
  using lease_from_row_reads [of scope a r] lease_from_row_reads [of scope b r] by simp

lemma lease_row_of_iff: "lease_row_of l u = Inr r \<longleftrightarrow> lease_ok l \<and> sqlite_int (wl_generation l) \<and> r = \<lparr>lr_run_id = wl_run_id l,
   lr_generation = wl_generation l, lr_status = wl_status l, lr_lease_json = dumps (lease_json l), lr_lease_sha256 = digest (lease_json l), lr_updated_at = u\<rparr>"
  by (auto simp: lease_row_of_def lease_canonical_def bindE_Inr_iff simp del: dumps.simps)

section \<open>The state of the leases\<close>

definition lease_chain :: "lease_event chain" where
  "lease_chain = \<lparr>ch_payload = le_payload_json, ch_digest = le_payload_sha256, ch_previous = le_previous_hash,
     ch_hash = le_event_hash, ch_expected = lease_event_hash\<rparr>"

interpretation leases: chain_verifier lease_chain lease_chain_step
proof unfold_locales
  fix h r assume "linked lease_chain h r"
  then obtain p d where p: "plain_json p" "finite_json p" "norm_json p = JObj d" "le_payload_json r = dumps p" "le_payload_sha256 r = digest p"
      "le_previous_hash r = h" "le_event_hash r = lease_event_hash r"
    by (auto simp: linked_def lease_chain_def)
  have "finite_json (JObj d)" "dumps (JObj d) = dumps p" "digest (JObj d) = digest p"
    using p(2) finite_norm [of p] dumps_norm_json [of p] digest_norm [of p] unfolding p(3) by (simp_all del: dumps.simps finite_json.simps)
  moreover have "lease_event_hash (r\<lparr>le_payload_sha256 := digest p, le_previous_hash := h\<rparr>) = lease_event_hash r"
    using p(5,6) by (simp add: lease_event_hash_def)
  ultimately show "lease_chain_step (Some h) r = Inr (Some (ch_hash lease_chain r))"
    using p unfolding lease_chain_step_def option.case p(4) loads_dumps [OF p(1)] p(3) json.case
    by (simp add: lease_chain_def Let_def del: dumps.simps finite_json.simps)
qed

text \<open>The lease that holds a scope, and what every operation keeps.\<close>

definition holder :: "lease_db \<Rightarrow> string \<times> string \<rightharpoonup> writer_lease" where
  "holder d scope = (case ld_leases d scope of None \<Rightarrow> None | Some r \<Rightarrow> (case lease_from_row scope r of Inl _ \<Rightarrow> None | Inr l \<Rightarrow> Some l))"

definition leases_inv :: "lease_db \<Rightarrow> bool" where
  "leases_inv d \<longleftrightarrow> (\<forall>scope r. ld_leases d scope = Some r \<longrightarrow> (\<exists>l. holds_lease scope l r))
     \<and> (\<forall>scope. chained lease_chain ZERO_HASH (lease_events_of scope d))"

lemma holder_row:
  assumes "leases_inv d"
  shows "holder d scope = Some l \<longleftrightarrow> (\<exists>r. ld_leases d scope = Some r \<and> holds_lease scope l r)" "holder d scope = None \<longleftrightarrow> ld_leases d scope = None"
    "holder d scope = Some l \<Longrightarrow> lease_ok l \<and> scope = (wl_task_id l, wl_plan_fingerprint l)"
proof -
  have "\<exists>l. holds_lease scope l r \<and> lease_from_row scope r = Inr l" if "ld_leases d scope = Some r" for r
    using assms that lease_from_row_reads unfolding leases_inv_def by blast
  then show "holder d scope = Some l \<longleftrightarrow> (\<exists>r. ld_leases d scope = Some r \<and> holds_lease scope l r)" "holder d scope = None \<longleftrightarrow> ld_leases d scope = None"
    using holds_lease_unique [of scope] by (fastforce simp: holder_def split: option.splits)+
  then show "holder d scope = Some l \<Longrightarrow> lease_ok l \<and> scope = (wl_task_id l, wl_plan_fingerprint l)" by (auto simp: holds_lease_def)
qed

text \<open>Looking up and reading a row is looking up the holder.\<close>

lemma select_holder:
  assumes "leases_inv d"
  shows "bindE (select_lease scope d) (\<lambda>found. case found of None \<Rightarrow> x | Some r \<Rightarrow> bindE (lease_from_row scope r) f) = Inr y \<longleftrightarrow>
    ld_created d \<and> (case holder d scope of None \<Rightarrow> x | Some l \<Rightarrow> f l) = Inr y"
proof (cases "ld_leases d scope")
  case None
  with holder_row(2) [OF assms, of scope] show ?thesis by (simp add: select_lease_def)
next
  case (Some r)
  with assms obtain l where l: "holds_lease scope l r" unfolding leases_inv_def by blast
  with Some holder_row(1) [OF assms, of scope l] have "holder d scope = Some l" by blast
  with Some lease_from_row_reads [OF l] show ?thesis by (simp add: select_lease_def)
qed

definition new_lease_event :: "writer_lease \<Rightarrow> string \<Rightarrow> string \<Rightarrow> lease_db \<Rightarrow> lease_event" where
  "new_lease_event l kind t d = (let p = lease_event_payload (digest (lease_json l)) l;
     r = \<lparr>le_task_id = wl_task_id l, le_plan_fingerprint = wl_plan_fingerprint l, le_event_type = kind, le_run_id = wl_run_id l,
       le_generation = wl_generation l, le_payload_json = dumps p, le_payload_sha256 = digest p,
       le_previous_hash = tip lease_chain ZERO_HASH (lease_events_of (wl_task_id l, wl_plan_fingerprint l) d), le_event_hash = [], le_recorded_at = t\<rparr>
     in r\<lparr>le_event_hash := lease_event_hash r\<rparr>)"

lemma append_lease_event_iff: "append_lease_event l kind t d = Inr d' \<longleftrightarrow> lease_ok l \<and> d' = d\<lparr>ld_events := ld_events d @ [new_lease_event l kind t d]\<rparr>"
  by (auto simp: append_lease_event_def bindE_Inr_iff Let_def tip_def lease_chain_def new_lease_event_def simp del: dumps.simps)

lemma new_lease_event_linked:
  "linked lease_chain (tip lease_chain ZERO_HASH (lease_events_of (wl_task_id l, wl_plan_fingerprint l) d)) (new_lease_event l kind t d)"
  "(le_task_id (new_lease_event l kind t d), le_plan_fingerprint (new_lease_event l kind t d)) = (wl_task_id l, wl_plan_fingerprint l)"
proof -
  let ?p = "lease_event_payload (digest (lease_json l)) l"
  have "plain_json ?p" "finite_json ?p" "\<exists>d. norm_json ?p = JObj d" by (simp_all add: lease_event_payload_def)
  then show "linked lease_chain (tip lease_chain ZERO_HASH (lease_events_of (wl_task_id l, wl_plan_fingerprint l) d)) (new_lease_event l kind t d)"
    unfolding linked_def by (intro conjI exI [of _ ?p]) (simp_all add: lease_chain_def new_lease_event_def Let_def lease_event_hash_def del: dumps.simps)
qed (simp add: new_lease_event_def Let_def)

lemma leases_inv_I:
  assumes "\<And>scope r. ld_leases d scope = Some r \<Longrightarrow> \<exists>l. holds_lease scope l r" "\<And>scope. chained lease_chain ZERO_HASH (lease_events_of scope d)"
  shows "leases_inv d"
  using assms unfolding leases_inv_def by blast

lemma leases_inv_D: "leases_inv d \<Longrightarrow> ld_leases d scope = Some r \<Longrightarrow> \<exists>l. holds_lease scope l r"
  "leases_inv d \<Longrightarrow> chained lease_chain ZERO_HASH (lease_events_of scope d)"
  unfolding leases_inv_def by blast+

abbreviation scope_of :: "writer_lease \<Rightarrow> string \<times> string" where
  "scope_of l \<equiv> (wl_task_id l, wl_plan_fingerprint l)"

lemma holder_eq: "leases_inv d \<Longrightarrow> ld_leases d scope = Some r \<Longrightarrow> holds_lease scope l r \<Longrightarrow> holder d scope = Some l"
  using holder_row(1) by blast

lemma store_lease_spec:
  assumes "leases_inv d" "store_lease l kind t d = Inr (x, d')"
  shows "x = l" "lease_ok l" "leases_inv d'" "holder d' = (holder d)(scope_of l \<mapsto> l)" "ld_created d' = ld_created d"
proof -
  from assms(2) obtain row where s: "x = l" "lease_ok l" "lease_row_of l t = Inr row" and d': "d' = d\<lparr>ld_leases := (ld_leases d)(scope_of l \<mapsto> row),
      ld_events := ld_events d @ [new_lease_event l kind t (d\<lparr>ld_leases := (ld_leases d)(scope_of l \<mapsto> row)\<rparr>)]\<rparr>"
    by (auto simp: store_lease_def bindE_Inr_iff append_lease_event_iff)
  have row: "holds_lease (scope_of l) l row" using s by (auto simp: holds_lease_def lease_row_of_iff)
  show "x = l" "lease_ok l" "ld_created d' = ld_created d" using s by (simp_all add: d')
  let ?r = "new_lease_event l kind t (d\<lparr>ld_leases := (ld_leases d)(scope_of l \<mapsto> row)\<rparr>)"
  have events: "lease_events_of scope d' = lease_events_of scope d @ (if scope = scope_of l then [?r] else [])" for scope
    using new_lease_event_linked(2) [of l kind t "d\<lparr>ld_leases := (ld_leases d)(scope_of l \<mapsto> row)\<rparr>"] by (auto simp: d')
  have good: "chained lease_chain ZERO_HASH (lease_events_of scope d)" for scope by (rule leases_inv_D(2) [OF assms(1)])
  show inv: "leases_inv d'"
  proof (rule leases_inv_I)
    show "\<exists>k. holds_lease scope k r" if "ld_leases d' scope = Some r" for scope r
      using that leases_inv_D(1) [OF assms(1), of scope r] row unfolding d' by (cases "scope = scope_of l") auto
    show "chained lease_chain ZERO_HASH (lease_events_of scope d')" for scope
      unfolding events using good [of scope] new_lease_event_linked(1) [of l "d\<lparr>ld_leases := (ld_leases d)(scope_of l \<mapsto> row)\<rparr>" kind t]
      by (cases "scope = scope_of l") (simp_all add: chained_snoc)
  qed
  show "holder d' = (holder d)(scope_of l \<mapsto> l)"
  proof
    fix scope
    show "holder d' scope = ((holder d)(scope_of l \<mapsto> l)) scope"
      using row lease_from_row_reads [OF row] by (cases "scope = scope_of l") (auto simp: holder_def d')
  qed
qed

lemma store_lease_total: "lease_ok l \<Longrightarrow> sqlite_int (wl_generation l) \<Longrightarrow> \<exists>d'. store_lease l kind t d = Inr (l, d')"
  by (auto simp: store_lease_def bindE_Inr_iff lease_row_of_iff append_lease_event_iff)

definition next_generation :: "writer_lease option \<Rightarrow> int" where
  "next_generation h = (case h of None \<Rightarrow> 1 | Some l \<Rightarrow> wl_generation l + 1)"

definition active_for :: "string \<Rightarrow> writer_lease option \<Rightarrow> bool" where
  "active_for run h \<longleftrightarrow> (\<exists>l. h = Some l \<and> wl_status l = ''ACTIVE'' \<and> wl_run_id l = run)"

lemma claim_cases:
  assumes "leases_inv d"
  shows "claim_transaction t p run ts s d = Inr (l, d') \<longleftrightarrow> find_task s t \<noteq> None \<and> ld_created d \<and>
    (if active_for run (holder d (t, p)) then holder d (t, p) = Some l \<and> d' = d
     else store_lease (new_lease t p run (next_generation (holder d (t, p))) ts) ''WRITER_CLAIMED'' ts d = Inr (l, d'))"
  unfolding claim_transaction_def bindE_Inr_iff [of "lease_require_task t s"] select_holder [OF assms]
  by (cases "holder d (t, p)") (auto simp: lease_require_task_def next_generation_def active_for_def)

lemma claim_spec:
  assumes "leases_inv d" "claim_transaction t p run ts s d = Inr (l, d')"
  shows "leases_inv d'" "holder d' = (holder d)((t, p) \<mapsto> l)" "wl_status l = ''ACTIVE''" "wl_run_id l = run" "ld_created d' = ld_created d"
    "holder d (t, p) = Some l \<or> wl_generation l = next_generation (holder d (t, p))" "lease_ok l" "scope_of l = (t, p)"
proof -
  have "leases_inv d' \<and> holder d' = (holder d)((t, p) \<mapsto> l) \<and> wl_status l = ''ACTIVE'' \<and> wl_run_id l = run \<and> ld_created d' = ld_created d
      \<and> (holder d (t, p) = Some l \<or> wl_generation l = next_generation (holder d (t, p))) \<and> lease_ok l \<and> scope_of l = (t, p)"
  proof (cases "active_for run (holder d (t, p))")
    case True
    with assms(2) holder_row(3) [OF assms(1), of "(t, p)" l] show ?thesis
      using assms(1) by (auto simp: claim_cases [OF assms(1)] active_for_def fun_upd_idem)
  next
    case False
    with assms(2) have "store_lease (new_lease t p run (next_generation (holder d (t, p))) ts) ''WRITER_CLAIMED'' ts d = Inr (l, d')"
      by (simp add: claim_cases [OF assms(1)])
    from store_lease_spec [OF assms(1) this] show ?thesis by (auto simp: new_lease_def)
  qed
  then show "leases_inv d'" "holder d' = (holder d)((t, p) \<mapsto> l)" "wl_status l = ''ACTIVE''" "wl_run_id l = run" "ld_created d' = ld_created d"
    "holder d (t, p) = Some l \<or> wl_generation l = next_generation (holder d (t, p))" "lease_ok l" "scope_of l = (t, p)" by blast+
qed

lemma release_spec:
  assumes "leases_inv d" "release_transaction l ts s d = Inr (x, d')"
  shows "leases_inv d' \<and> holder d' = (holder d)(scope_of l \<mapsto> x) \<and> wl_status x = ''RELEASED'' \<and> ld_created d' = ld_created d
    \<and> (\<exists>c. holder d (scope_of l) = Some c \<and> (x = c \<or> wl_status c = ''ACTIVE'' \<and> wl_generation x = wl_generation c))"
proof -
  obtain c where c: "holder d (scope_of l) = Some c" and r: "(if wl_run_id c \<noteq> wl_run_id l \<or> wl_generation c \<noteq> wl_generation l \<or> wl_issued_at c \<noteq> wl_issued_at l
         then raise WL ''WRITER_LEASE_STALE''
       else if wl_status c = ''RELEASED'' then Inr (c, d)
       else bindE (lease_fingerprint c) (\<lambda>f. bindE (lease_fingerprint l) (\<lambda>f'. if f \<noteq> f' then raise WL ''WRITER_LEASE_STALE''
         else store_lease (new_lease (wl_task_id c) (wl_plan_fingerprint c) (wl_run_id c) (wl_generation c) (wl_issued_at c)
           \<lparr>wl_status := ''RELEASED'', wl_released_at := Some ts\<rparr>) ''WRITER_RELEASED'' ts d))) = Inr (x, d')"
    using assms(2) unfolding release_transaction_def bindE_Inr_iff [of "lease_require_task (wl_task_id l) s"] select_holder [OF assms(1)]
    by (cases "holder d (scope_of l)") auto
  have ok: "lease_ok c" "scope_of l = scope_of c" using holder_row(3) [OF assms(1) c] by auto
  show ?thesis
  proof (cases "wl_status c = ''RELEASED''")
    case True
    with r c assms(1) show ?thesis by (auto simp: fun_upd_idem split: if_splits)
  next
    case False
    with r have st: "store_lease (new_lease (wl_task_id c) (wl_plan_fingerprint c) (wl_run_id c) (wl_generation c) (wl_issued_at c)
        \<lparr>wl_status := ''RELEASED'', wl_released_at := Some ts\<rparr>) ''WRITER_RELEASED'' ts d = Inr (x, d')"
      by (auto simp: bindE_Inr_iff split: if_splits)
    have "wl_status c = ''ACTIVE''" using False ok(1) by (auto simp: lease_ok_def)
    with store_lease_spec [OF assms(1) st] c ok(2) show ?thesis by (simp add: new_lease_def)
  qed
qed

lemma require_iff:
  assumes "leases_inv d"
  shows "require_current_in_transaction l d = Inr c \<longleftrightarrow> lease_ok l \<and> wl_status l = ''ACTIVE'' \<and> ld_created d
    \<and> holder d (scope_of l) = Some c \<and> wl_status c = ''ACTIVE'' \<and> digest (lease_json c) = digest (lease_json l)"
proof -
  have ok: "lease_ok k" if "holder d (scope_of l) = Some k" for k using holder_row(3) [OF assms that] by simp
  have guard: "(if wl_status l \<noteq> ''ACTIVE'' then raise WL m else x) = Inr c \<longleftrightarrow> wl_status l = ''ACTIVE'' \<and> x = Inr c" for m x by simp
  from ok show ?thesis
    unfolding require_current_in_transaction_def bindE_Inr_iff [of "lease_validate l"] guard select_holder [OF assms]
    by (cases "holder d (scope_of l)") (auto simp: bindE_Inr_iff)
qed

section \<open>Runs\<close>

text \<open>What any number of processes do: claims, releases and initialisation of the tables with any arguments and outcome, and any
  change of the rest of the database.\<close>

inductive lease_use :: "runtime_db \<Rightarrow> runtime_db \<Rightarrow> bool" where
  claims: "claim e task_id pf run_id issued_at w = (r, w') \<Longrightarrow> lease_use w w'"
| releases: "release e l released_at w = (r', w') \<Longrightarrow> lease_use w w'"
| initializes: "lease_initialize e w = (u, w') \<Longrightarrow> lease_use w w'"
| others: "rd_lease w' = rd_lease w \<Longrightarrow> lease_use w w'"

abbreviation lease_run :: "runtime_db \<Rightarrow> runtime_db \<Rightarrow> bool" where
  "lease_run \<equiv> lease_use\<^sup>*\<^sup>*"

text \<open>How the holder of a scope may change: it stays, is released, or is superseded by a later generation.\<close>

definition succeeds_lease :: "writer_lease \<Rightarrow> writer_lease \<Rightarrow> bool" where
  "succeeds_lease l l' \<longleftrightarrow> l' = l \<or> wl_status l' = ''RELEASED'' \<and> wl_status l = ''ACTIVE'' \<and> wl_generation l' = wl_generation l \<or> wl_generation l < wl_generation l'"

definition advances :: "lease_db \<Rightarrow> lease_db \<Rightarrow> bool" where
  "advances d d' \<longleftrightarrow> leases_inv d' \<and> (ld_created d \<longrightarrow> ld_created d')
     \<and> (\<forall>scope l. holder d scope = Some l \<longrightarrow> (\<exists>l'. holder d' scope = Some l' \<and> succeeds_lease l l'))"

lemma advances_refl: "leases_inv d \<Longrightarrow> advances d d"
  unfolding advances_def succeeds_lease_def by blast

lemma succeeds_lease_trans: "succeeds_lease a b \<Longrightarrow> succeeds_lease b c \<Longrightarrow> succeeds_lease a c"
  by (auto simp: succeeds_lease_def)

lemma advances_trans: "advances a b \<Longrightarrow> advances b c \<Longrightarrow> advances a c"
  unfolding advances_def using succeeds_lease_trans by meson

lemma advances_update:
  assumes "leases_inv d'" "holder d' = (holder d)(scope \<mapsto> l)" "ld_created d' = ld_created d" "\<And>c. holder d scope = Some c \<Longrightarrow> succeeds_lease c l"
  shows "advances d d'"
  unfolding advances_def using assms by (auto simp: succeeds_lease_def)

lemma claim_advances: "leases_inv d \<Longrightarrow> claim_transaction t p run ts s d = Inr (l, d') \<Longrightarrow> advances d d'"
  by (rule advances_update [OF claim_spec(1,2,5)]) (auto dest: claim_spec(6) simp: succeeds_lease_def next_generation_def)

lemma release_advances: "leases_inv d \<Longrightarrow> release_transaction l ts s d = Inr (x, d') \<Longrightarrow> advances d d'"
  using release_spec [of d l ts s x d'] by (intro advances_update) (auto simp: succeeds_lease_def)

lemma rd_tick_simps [simp]: "rd_lease (rd_tick w) = rd_lease w" "cd_store (rd_db (rd_tick w)) = cd_store (rd_db w)"
  "rd_db (rd_tick w) = (rd_db w)\<lparr>cd_tick := Suc (cd_tick (rd_db w))\<rparr>" "rd_reservations (rd_tick w) = rd_reservations w" "rd_reserving (rd_tick w) = rd_reserving w"
  by (simp_all add: rd_tick_def)

lemma connection_cases:
  assumes "connection e f w = (r, w')"
  obtains x where "r = Inl x" "w' = rd_tick w"
  | a where "r = Inr a" "f (de_clock e (cd_tick (rd_db w))) (rd_tick w) = Inr (a, w')" "de_fault e (cd_tick (rd_db w)) = None"
  using assms by (auto simp: connection_def split: option.splits sum.splits prod.splits)

lemma on_lease_iff: "on_lease f w = Inr (a, w') \<longleftrightarrow> (\<exists>d. f (cd_store (rd_db w)) (rd_lease w) = Inr (a, d) \<and> w' = w\<lparr>rd_lease := d\<rparr>)"
  by (auto simp: on_lease_def bindE_Inr_iff)

lemma claim_Inr:
  assumes "claim e t p run ts w = (Inr l, w')"
  shows "\<exists>v d. claim_transaction t p run v (cd_store (rd_db w)) (rd_lease w) = Inr (l, d) \<and> w' = (rd_tick w)\<lparr>rd_lease := d\<rparr>
    \<and> ID_RE t \<and> is_sha256_ref p \<and> ID_RE run"
  using assms by (auto simp: claim_def on_lease_iff bindE_Inr_iff elim!: connection_cases split: sum.splits)

lemma claim_world:
  assumes "leases_inv (rd_lease w)" "claim e t p run ts w = (r, w')"
  shows "advances (rd_lease w) (rd_lease w')"
proof (cases r)
  case (Inl x)
  with assms(2) have "rd_lease w' = rd_lease w" by (auto simp: claim_def elim: connection_cases split: sum.splits)
  with advances_refl [OF assms(1)] show ?thesis by simp
next
  case (Inr l)
  with claim_Inr [of e t p run ts w l w'] assms(2) claim_advances [OF assms(1)] show ?thesis by auto
qed

lemma release_world:
  assumes "leases_inv (rd_lease w)" "release e l ts w = (r, w')"
  shows "advances (rd_lease w) (rd_lease w')"
  using assms(2) advances_refl [OF assms(1)] release_advances [OF assms(1)]
  by (auto simp: release_def on_lease_iff elim!: connection_cases split: sum.splits)

lemma lease_use_advances: "lease_use w w' \<Longrightarrow> leases_inv (rd_lease w) \<Longrightarrow> advances (rd_lease w) (rd_lease w')"
proof (induction rule: lease_use.induct)
  case (initializes e w u w')
  have "advances d d \<Longrightarrow> advances d (d\<lparr>ld_created := True\<rparr>)" for d
    by (simp add: advances_def leases_inv_def holder_def)
  with advances_refl [OF initializes.prems] initializes.hyps show ?case
    unfolding lease_initialize_def by (auto elim!: connection_cases)
qed (simp_all add: claim_world release_world advances_refl)

lemma lease_run_advances: "lease_run w w' \<Longrightarrow> leases_inv (rd_lease w) \<Longrightarrow> advances (rd_lease w) (rd_lease w')"
proof (induction rule: rtranclp_induct)
  case (step y z)
  then show ?case using lease_use_advances advances_trans by (meson advances_def)
qed (rule advances_refl)

lemma no_leases: "ld_leases d = Map.empty \<Longrightarrow> ld_events d = [] \<Longrightarrow> leases_inv d"
  by (simp add: leases_inv_def)

section \<open>Properties\<close>

text \<open>C14: one writer at a time. In a database whose lease tables started empty, and whatever processes did before and after, let
  a run claim a task and plan and receive a lease. From then on, every lease that the currency check accepts for that task and
  plan is the stored one: it is the received lease itself, or has a later generation (so a superseded or released lease is
  never accepted again), unless two different lease texts with the same SHA-256 digest are exhibited. The lease received is
  active, belongs to the run and is either the one the run already held or has the next generation, and the event chain
  of the leases verifies.\<close>

theorem writer_exclusive:
  assumes "ld_leases (rd_lease w0) = Map.empty" "ld_events (rd_lease w0) = []" "lease_run w0 w1"
    and "claim e task_id pf run_id issued_at w1 = (Inr l, w2)" "lease_run w2 w3"
  shows "wl_status l = ''ACTIVE'' \<and> wl_run_id l = run_id \<and> (holder (rd_lease w1) (task_id, pf) = Some l
      \<or> wl_generation l = (case holder (rd_lease w1) (task_id, pf) of None \<Rightarrow> 1 | Some c \<Rightarrow> wl_generation c + 1))
    \<and> (\<forall>e' l' c. wl_task_id l' = task_id \<and> wl_plan_fingerprint l' = pf \<and> require_current e' l' w3 = Inr c \<longrightarrow>
         (c = l \<or> wl_generation l < wl_generation c)
       \<and> (l' = c \<or> dumps (lease_json l') \<noteq> dumps (lease_json c) \<and> sha256_ref (dumps (lease_json l')) = sha256_ref (dumps (lease_json c))))
    \<and> verify_lease_chain task_id pf (rd_lease w3) = Inr True"
proof -
  have i1: "leases_inv (rd_lease w1)" using lease_run_advances [OF assms(3) no_leases [OF assms(1,2)]] by (simp add: advances_def)
  obtain v d where d: "claim_transaction task_id pf run_id v (cd_store (rd_db w1)) (rd_lease w1) = Inr (l, d)" "w2 = (rd_tick w1)\<lparr>rd_lease := d\<rparr>"
    "ID_RE task_id" "is_sha256_ref pf" using claim_Inr [OF assms(4)] by blast
  note S = claim_spec [OF i1 d(1)]
  have a: "advances d (rd_lease w3)" using lease_run_advances [OF assms(5)] S(1) by (simp add: d(2))
  then have i3: "leases_inv (rd_lease w3)" by (simp add: advances_def)
  have "holder d (task_id, pf) = Some l" by (simp add: S(2))
  then obtain m where m: "holder (rd_lease w3) (task_id, pf) = Some m" "succeeds_lease l m" using a unfolding advances_def by blast
  have "(c = l \<or> wl_generation l < wl_generation c)
       \<and> (l' = c \<or> dumps (lease_json l') \<noteq> dumps (lease_json c) \<and> sha256_ref (dumps (lease_json l')) = sha256_ref (dumps (lease_json c)))"
    if "wl_task_id l' = task_id" "wl_plan_fingerprint l' = pf" "require_current e' l' w3 = Inr c" for e' l' c
  proof -
    have "holder (rd_lease w3) (task_id, pf) = Some c" "wl_status c = ''ACTIVE''" "digest (lease_json c) = digest (lease_json l')"
      using that(3) unfolding require_current_def reading_def by (auto simp: that(1,2) require_iff [OF i3] split: option.splits)
    with m show ?thesis by (auto simp: succeeds_lease_def lease_text_inject digest_def)
  qed
  moreover have "verify_lease_chain task_id pf (rd_lease w3) = Inr True"
    using leases.verifies [OF leases_inv_D(2) [OF i3], of "(task_id, pf)"] d(3,4) a S(5) claim_cases [OF i1] d(1)
    by (simp add: verify_lease_chain_def advances_def)
  ultimately show ?thesis using S(3,4,6) by (auto simp: next_generation_def)
qed

text \<open>A claim succeeds whenever the database is reachable, its tables exist, the task exists, the arguments and the clock are
  well-formed and the generation fits.\<close>

lemma claim_available:
  assumes "leases_inv (rd_lease w)" "ld_created (rd_lease w)" "find_task (cd_store (rd_db w)) t \<noteq> None" "ID_RE t" "is_sha256_ref p" "ID_RE run"
    "de_fault e (cd_tick (rd_db w)) = None" "0 \<le> de_clock e (cd_tick (rd_db w))" "de_clock e (cd_tick (rd_db w)) < MAX_LOCAL"
    "sqlite_int (next_generation (holder (rd_lease w) (t, p)))"
  shows "\<exists>l w'. claim e t p run None w = (Inr l, w')"
proof -
  let ?now = "utc_now_text (de_clock e (cd_tick (rd_db w)))" and ?h = "holder (rd_lease w) (t, p)"
  have "1 \<le> next_generation ?h" using holder_row(3) [OF assms(1), of "(t, p)"] by (auto simp: next_generation_def lease_ok_def split: option.splits)
  then have "lease_ok (new_lease t p run (next_generation ?h) ?now)"
    using assms(4-6) stamp_reads(1) [OF assms(8,9)] by (simp add: lease_ok_def new_lease_def release_ok_def lease_release_check_def)
  from store_lease_total [OF this, of "''WRITER_CLAIMED''" ?now "rd_lease w"] assms(10)
  obtain d where "store_lease (new_lease t p run (next_generation ?h) ?now) ''WRITER_CLAIMED'' ?now (rd_lease w) = Inr (new_lease t p run (next_generation ?h) ?now, d)"
    by (auto simp: new_lease_def)
  then have "\<exists>l d. claim_transaction t p run ?now (cd_store (rd_db w)) (rd_lease w) = Inr (l, d)"
    unfolding claim_cases [OF assms(1)] using assms(2,3) by (cases "active_for run ?h") (auto simp: active_for_def)
  then show ?thesis using assms(4-7) by (auto simp: claim_def optional_timestamp_def connection_def on_lease_def)
qed

definition demo_runtime :: runtime_db where
  "demo_runtime = \<lparr>rd_db = demo_db, rd_lease = \<lparr>ld_created = True, ld_leases = Map.empty, ld_events = []\<rparr>, rd_reserving = True, rd_reservations = []\<rparr>"

lemma demo_runtime_facts: "leases_inv (rd_lease demo_runtime)" "find_task (cd_store (rd_db demo_runtime)) ''T'' \<noteq> None" "ID_RE ''T''" "ID_RE ''run-a''" "ID_RE ''run-b''"
  "de_fault demo_env k = None" "0 \<le> de_clock demo_env k" "de_clock demo_env k < MAX_LOCAL"
  by (rule no_leases; simp add: demo_runtime_def) (simp add: demo_runtime_def demo_db_def find_task_def demo_store_def demo_task_def, code_simp, code_simp, code_simp,
    simp_all add: demo_env_def MAX_LOCAL_def)

theorem writer_exclusive_witness:
  "\<exists>l w1 m w2. claim demo_env ''T'' (digest JNull) ''run-a'' None demo_runtime = (Inr l, w1) \<and> claim demo_env ''T'' (digest JNull) ''run-b'' None w1 = (Inr m, w2)
     \<and> wl_generation l = 1 \<and> wl_generation m = 2
     \<and> (\<forall>c. require_current demo_env l w2 = Inr c \<longrightarrow> c \<noteq> l \<and> sha256_ref (dumps (lease_json l)) = sha256_ref (dumps (lease_json c)))"
proof -
  note F = demo_runtime_facts
  obtain l w1 where l: "claim demo_env ''T'' (digest JNull) ''run-a'' None demo_runtime = (Inr l, w1)"
    using claim_available [of demo_runtime "''T''" "digest JNull" "''run-a''" demo_env] F
    by (auto simp: demo_runtime_def holder_def next_generation_def sqlite_int_def)
  have e: "ld_leases (rd_lease demo_runtime) = Map.empty" "ld_events (rd_lease demo_runtime) = []" by (simp_all add: demo_runtime_def)
  have L: "wl_generation l = 1" "wl_run_id l = ''run-a''"
    using writer_exclusive [OF e rtranclp.rtrancl_refl l rtranclp.rtrancl_refl] by (auto simp: holder_def demo_runtime_def)
  obtain v d where d: "claim_transaction ''T'' (digest JNull) ''run-a'' v (cd_store (rd_db demo_runtime)) (rd_lease demo_runtime) = Inr (l, d)"
      "w1 = (rd_tick demo_runtime)\<lparr>rd_lease := d\<rparr>" using claim_Inr [OF l] by blast
  note S = claim_spec [OF F(1) d(1)]
  have h: "holder (rd_lease w1) (''T'', digest JNull) = Some l" using S(2) by (simp add: d(2))
  obtain m w2 where m: "claim demo_env ''T'' (digest JNull) ''run-b'' None w1 = (Inr m, w2)"
    using claim_available [of w1 "''T''" "digest JNull" "''run-b''" demo_env] F S(1,5) h L(1)
    by (auto simp: d(2) next_generation_def sqlite_int_def demo_runtime_def)
  have run: "lease_run demo_runtime w1" using lease_use.claims [OF l] by blast
  note W = writer_exclusive [OF e run m rtranclp.rtrancl_refl]
  have M: "wl_generation m = 2" using W L h by auto
  have "c \<noteq> l \<and> sha256_ref (dumps (lease_json l)) = sha256_ref (dumps (lease_json c))" if "require_current demo_env l w2 = Inr c" for c
  proof -
    have "wl_task_id l = ''T''" "wl_plan_fingerprint l = digest JNull" using S(8) by simp_all
    with W that have "c = m \<or> wl_generation m < wl_generation c" "l = c \<or> sha256_ref (dumps (lease_json l)) = sha256_ref (dumps (lease_json c))" by blast+
    with L(1) M show ?thesis by auto
  qed
  with l m L(1) M show ?thesis by blast
qed

end
