(* ===== verification/Writer_Fence.thy ===== *)
theory Writer_Fence
  imports Governed_Runtime Writer_Lease
begin

text \<open>
  Model of \<open>src/three_agent/execution_checkpoint_writer_fence.py\<close>: the checkpoint repository of one writer lease. Every
  recording checks, in its own transaction, that the lease is still current, and the event it appends is followed at
  once by an event that binds it to the lease. An observation is recorded only by the lease that dispatched its node.
\<close>

section \<open>Bindings\<close>

abbreviation FE :: exc_class where "FE \<equiv> ExecutionWriterFenceError"

definition EXECUTION_WRITER_FENCE_SCHEMA :: string where
  "EXECUTION_WRITER_FENCE_SCHEMA = ''workspace-execution-writer-fence/v1''"

definition WRITER_FENCE_EVENT_TYPE :: string where
  "WRITER_FENCE_EVENT_TYPE = ''WRITER_FENCE_BOUND''"

definition PROTECTED_EVENT_KINDS :: "(string \<times> string) list" where
  "PROTECTED_EVENT_KINDS = [(''DISPATCH_RECORDED'', ''DISPATCH''), (''OBSERVATION_RECORDED'', ''OBSERVATION''), (''CANCELLED'', ''CANCELLATION'')]"

definition fence_items :: "writer_lease \<Rightarrow> string \<Rightarrow> (string \<times> json) list" where
  "fence_items l kind = [(''schema_version'', JStr EXECUTION_WRITER_FENCE_SCHEMA), (''subject_kind'', JStr kind), (''writer_run_id'', JStr (wl_run_id l)),
     (''writer_generation'', JInt (wl_generation l)), (''writer_lease_fingerprint'', JStr (digest (lease_json l)))]"

definition fence_payload :: "writer_lease \<Rightarrow> string \<Rightarrow> json result" where
  "fence_payload l kind = bindE (lease_validate l) (\<lambda>_.
     if wl_status l \<noteq> ''ACTIVE'' then raise FE ''EXECUTION_WRITER_LEASE_NOT_ACTIVE''
     else if kind \<notin> snd ` set PROTECTED_EVENT_KINDS then raise FE ''INVALID_EXECUTION_WRITER_FENCE_SUBJECT_KIND''
     else bindE (lease_fingerprint l) (\<lambda>_. Inr (JObj (fence_items l kind))))"

text \<open>The constructor.\<close>

definition fence_checks :: "writer_lease \<Rightarrow> unit result" where
  "fence_checks l = bindE (lease_validate l) (\<lambda>_. fail_if FE (wl_status l \<noteq> ''ACTIVE'') ''EXECUTION_WRITER_LEASE_NOT_ACTIVE'')"

definition require_scope :: "writer_lease \<Rightarrow> string \<Rightarrow> string \<Rightarrow> unit result" where
  "require_scope l task_id pf = (if task_id \<noteq> wl_task_id l then raise FE ''EXECUTION_WRITER_TASK_SCOPE_MISMATCH''
     else if pf \<noteq> wl_plan_fingerprint l then raise FE ''EXECUTION_WRITER_PLAN_SCOPE_MISMATCH'' else Inr ())"

definition translate_writer_error :: "'a result \<Rightarrow> 'a result" where
  "translate_writer_error m = (case m of Inl (c, msg) \<Rightarrow> if c = WL then raise FE (''EXECUTION_WRITER_FENCE_DENIED:'' @ msg) else Inl (c, msg) | Inr x \<Rightarrow> Inr x)"

definition require_writer :: "writer_lease \<Rightarrow> runtime_db \<Rightarrow> writer_lease result" where
  "require_writer l w = translate_writer_error (require_current_in_transaction l (rd_lease w))"

definition append_writer_fence_event :: "writer_lease \<Rightarrow> string \<Rightarrow> string \<Rightarrow> string \<Rightarrow> checkpoint_db \<Rightarrow> checkpoint_db result" where
  "append_writer_fence_event l kind subject now db = bindE (fence_payload l kind) (\<lambda>p. bindE (check_text p) (\<lambda>js. bindE (check_digest p) (\<lambda>sha.
     Inr (append_event (wl_task_id l) (wl_plan_fingerprint l) WRITER_FENCE_EVENT_TYPE subject js sha now db))))"

record fence_binding =
  fb_run_id :: string
  fb_generation :: int
  fb_lease_fingerprint :: string

definition FENCE_KEYS :: "string list" where
  "FENCE_KEYS = [''schema_version'', ''subject_kind'', ''writer_run_id'', ''writer_generation'', ''writer_lease_fingerprint'']"

definition validate_fence_payload :: "json \<Rightarrow> string \<Rightarrow> fence_binding result" where
  "validate_fence_payload payload kind = (case payload of
     JObj d \<Rightarrow> (let field = (\<lambda>k. dict_get d k JNull) in
       if \<not> same_keys d FENCE_KEYS then raise FE ''EXECUTION_WRITER_FENCE_PAYLOAD_SHAPE_INVALID''
       else if field ''schema_version'' \<noteq> JStr EXECUTION_WRITER_FENCE_SCHEMA then raise FE ''EXECUTION_WRITER_FENCE_SCHEMA_MISMATCH''
       else if field ''subject_kind'' \<noteq> JStr kind then raise FE ''EXECUTION_WRITER_FENCE_SUBJECT_KIND_MISMATCH''
       else (case field ''writer_run_id'' of
         JStr run \<Rightarrow> if run = [] then raise FE ''EXECUTION_WRITER_FENCE_RUN_ID_INVALID''
           else (case field ''writer_generation'' of
             JInt g \<Rightarrow> if g < 1 then raise FE ''EXECUTION_WRITER_FENCE_GENERATION_INVALID''
               else (case field ''writer_lease_fingerprint'' of
                 JStr f \<Rightarrow> bindE (sha256_field CE f ''writer_lease_fingerprint'') (\<lambda>_. Inr \<lparr>fb_run_id = run, fb_generation = g, fb_lease_fingerprint = f\<rparr>)
               | _ \<Rightarrow> raise FE ''EXECUTION_WRITER_FENCE_FINGERPRINT_INVALID'')
           | _ \<Rightarrow> raise FE ''EXECUTION_WRITER_FENCE_GENERATION_INVALID'')
       | _ \<Rightarrow> raise FE ''EXECUTION_WRITER_FENCE_RUN_ID_INVALID''))
   | _ \<Rightarrow> raise FE ''EXECUTION_WRITER_FENCE_PAYLOAD_NOT_OBJECT'')"

text \<open>The event sequence is the position in the table (\<open>AUTOINCREMENT\<close>, and rows are never deleted).\<close>

definition in_scope :: "writer_lease \<Rightarrow> event_row \<Rightarrow> bool" where
  "in_scope l r \<longleftrightarrow> er_task_id r = wl_task_id l \<and> er_plan_fingerprint r = wl_plan_fingerprint l"

definition last_index :: "('a \<Rightarrow> bool) \<Rightarrow> 'a list \<Rightarrow> nat option" where
  "last_index good xs = (let ks = filter (\<lambda>k. good (xs ! k)) [0..<length xs] in if ks = [] then None else Some (last ks))"

definition event_at :: "writer_lease \<Rightarrow> checkpoint_db \<Rightarrow> nat \<Rightarrow> event_row option" where
  "event_at l db k = (if k < length (cd_events db) \<and> in_scope l (cd_events db ! k) then Some (cd_events db ! k) else None)"

definition read_binding :: "event_row \<Rightarrow> string \<Rightarrow> fence_binding result" where
  "read_binding r kind = bindE (parse_canonical_payload (er_payload_json r) (er_payload_sha256 r) ''WRITER_FENCE'') (\<lambda>p. validate_fence_payload p kind)"

definition binding_after_event :: "writer_lease \<Rightarrow> string \<Rightarrow> string \<Rightarrow> checkpoint_db \<Rightarrow> fence_binding result" where
  "binding_after_event l event_type subject db = (case map_of PROTECTED_EVENT_KINDS event_type of
     None \<Rightarrow> raise FE ''UNKNOWN_PROTECTED_EXECUTION_EVENT''
   | Some kind \<Rightarrow> (case last_index (\<lambda>r. in_scope l r \<and> er_event_type r = event_type \<and> er_subject_id r = subject) (cd_events db) of
       None \<Rightarrow> raise FE ''EXECUTION_PROTECTED_EVENT_NOT_FOUND''
     | Some k \<Rightarrow> (case event_at l db (Suc k) of
         None \<Rightarrow> raise FE ''EXECUTION_WRITER_FENCE_BINDING_MISSING''
       | Some r \<Rightarrow>
           if er_event_type r \<noteq> WRITER_FENCE_EVENT_TYPE then raise FE ''EXECUTION_WRITER_FENCE_NOT_ADJACENT''
           else if er_subject_id r \<noteq> subject then raise FE ''EXECUTION_WRITER_FENCE_SUBJECT_MISMATCH''
           else read_binding r kind)))"

definition binding_of :: "writer_lease \<Rightarrow> fence_binding" where
  "binding_of l = \<lparr>fb_run_id = wl_run_id l, fb_generation = wl_generation l, fb_lease_fingerprint = digest (lease_json l)\<rparr>"

definition require_binding :: "writer_lease \<Rightarrow> string \<Rightarrow> string \<Rightarrow> checkpoint_db \<Rightarrow> fence_binding result" where
  "require_binding l event_type subject db = bindE (binding_after_event l event_type subject db) (\<lambda>b.
     if b \<noteq> binding_of l then raise FE ''EXECUTION_WRITER_GENERATION_BINDING_MISMATCH'' else Inr b)"

section \<open>Recording\<close>

definition checkpoint_tables :: "runtime_db \<Rightarrow> unit result" where
  "checkpoint_tables w = fail_if OperationalError (\<not> cd_created (rd_db w)) ''no such table''"

text \<open>The two events of a recording.\<close>

definition bound_events :: "writer_lease \<Rightarrow> string \<Rightarrow> string \<Rightarrow> string \<Rightarrow> string \<Rightarrow> string \<Rightarrow> string \<Rightarrow> checkpoint_db \<Rightarrow> checkpoint_db result" where
  "bound_events l event_type kind subject js sha now db =
     append_writer_fence_event l kind subject now (append_event (wl_task_id l) (wl_plan_fingerprint l) event_type subject js sha now db)"

definition dispatch_record :: "dispatch_ticket \<Rightarrow> string \<Rightarrow> string \<Rightarrow> string \<Rightarrow> dispatch_row" where
  "dispatch_record t js sha now = \<lparr>dr_ticket_id = dt_ticket_id t, dr_task_id = dt_task_id t, dr_plan_fingerprint = dt_plan_fingerprint t,
     dr_node_id = dt_node_id t, dr_dispatch_sequence = dt_dispatch_sequence t, dr_ticket_json = js, dr_ticket_sha256 = sha, dr_recorded_at = now\<rparr>"

definition write_dispatch :: "writer_lease \<Rightarrow> dispatch_ticket \<Rightarrow> string \<Rightarrow> string \<Rightarrow> string \<Rightarrow> runtime_db \<Rightarrow> (dispatch_ticket \<times> runtime_db) result" where
  "write_dispatch l t js sha now w = (
     if \<not> sqlite_int (dt_dispatch_sequence t) then raise OverflowError ''Python int too large to convert to SQLite INTEGER''
     else bindE (bound_events l ''DISPATCH_RECORDED'' ''DISPATCH'' (dt_ticket_id t) js sha now
         ((rd_db w)\<lparr>cd_dispatches := cd_dispatches (rd_db w) @ [dispatch_record t js sha now]\<rparr>)) (\<lambda>db. Inr (t, w\<lparr>rd_db := db\<rparr>)))"

definition fenced_insert_dispatch :: "writer_lease \<Rightarrow> dispatch_ticket \<Rightarrow> string \<Rightarrow> string \<Rightarrow> string \<Rightarrow> runtime_db \<Rightarrow> (dispatch_ticket \<times> runtime_db) result" where
  "fenced_insert_dispatch l t js sha now w =
     bindE (require_task (dt_task_id t) (rd_db w)) (\<lambda>_. bindE (require_writer l w) (\<lambda>_. bindE (checkpoint_tables w) (\<lambda>_.
     case List.find (\<lambda>r. dr_ticket_id r = dt_ticket_id t) (cd_dispatches (rd_db w)) of
       Some r \<Rightarrow> bindE (parse_canonical_payload (dr_ticket_json r) (dr_ticket_sha256 r) ''DISPATCH'') (\<lambda>old. bindE (check_digest old) (\<lambda>d.
         if d \<noteq> sha then raise CE ''DISPATCH_CHECKPOINT_IDENTITY_CONFLICT''
         else bindE (require_binding l ''DISPATCH_RECORDED'' (dt_ticket_id t) (rd_db w)) (\<lambda>_. Inr (t, w))))
     | None \<Rightarrow> if dispatch_at (dt_task_id t) (dt_plan_fingerprint t) (dt_node_id t) (rd_db w) \<noteq> None then raise CE ''DISPATCH_CHECKPOINT_NODE_CONFLICT''
         else write_dispatch l t js sha now w)))"

text \<open>What is computed before the connection is opened.\<close>

definition fenced :: "writer_lease \<Rightarrow> string \<Rightarrow> string \<Rightarrow> json result \<Rightarrow> (string \<times> string) result" where
  "fenced l task_id pf m = bindE (require_scope l task_id pf) (\<lambda>_. payload_texts m)"

definition prepare :: "'b result \<Rightarrow> ('b \<Rightarrow> (runtime_db, 'a) action) \<Rightarrow> (runtime_db, 'a) action" where
  "prepare m f w = (case m of Inl e \<Rightarrow> (Inl e, w) | Inr x \<Rightarrow> f x w)"

definition fenced_record_dispatch :: "db_env \<Rightarrow> writer_lease \<Rightarrow> dispatch_ticket \<Rightarrow> (runtime_db, dispatch_ticket) action" where
  "fenced_record_dispatch e l t = prepare (fenced l (dt_task_id t) (dt_plan_fingerprint t) (dispatch_payload t))
     (\<lambda>(js, sha). connection e (\<lambda>now. fenced_insert_dispatch l t js sha (utc_now_text now)))"

definition observation_record :: "observation \<Rightarrow> string \<Rightarrow> string \<Rightarrow> string \<Rightarrow> observation_row" where
  "observation_record b js sha now = \<lparr>or_observation_id = ob_observation_id b, or_task_id = ob_task_id b, or_plan_fingerprint = ob_plan_fingerprint b,
     or_node_id = ob_node_id b, or_observation_json = js, or_observation_sha256 = sha, or_recorded_at = now\<rparr>"

definition write_observation :: "writer_lease \<Rightarrow> observation \<Rightarrow> string \<Rightarrow> string \<Rightarrow> string \<Rightarrow> runtime_db \<Rightarrow> (observation \<times> runtime_db) result" where
  "write_observation l b js sha now w = bindE (bound_events l ''OBSERVATION_RECORDED'' ''OBSERVATION'' (ob_observation_id b) js sha now
     ((rd_db w)\<lparr>cd_observations := cd_observations (rd_db w) @ [observation_record b js sha now]\<rparr>)) (\<lambda>db. Inr (b, w\<lparr>rd_db := db\<rparr>))"

definition fenced_insert_observation :: "writer_lease \<Rightarrow> observation \<Rightarrow> string \<Rightarrow> string \<Rightarrow> string \<Rightarrow> runtime_db \<Rightarrow> (observation \<times> runtime_db) result" where
  "fenced_insert_observation l b js sha now w =
     bindE (require_task (ob_task_id b) (rd_db w)) (\<lambda>_. bindE (require_writer l w) (\<lambda>_. bindE (checkpoint_tables w) (\<lambda>_.
     case dispatch_at (ob_task_id b) (ob_plan_fingerprint b) (ob_node_id b) (rd_db w) of
       None \<Rightarrow> raise CE ''OBSERVATION_CHECKPOINT_REQUIRES_DISPATCH''
     | Some dr \<Rightarrow> bindE (bindE (parse_canonical_payload (dr_ticket_json dr) (dr_ticket_sha256 dr) ''DISPATCH'') dispatch_from_payload) (\<lambda>t.
         if ob_node_fingerprint b \<noteq> dt_node_fingerprint t then raise CE ''OBSERVATION_CHECKPOINT_NODE_MISMATCH''
         else if ob_authority_fingerprint b \<noteq> dt_authority_fingerprint t then raise CE ''OBSERVATION_CHECKPOINT_AUTHORITY_MISMATCH''
         else bindE (require_binding l ''DISPATCH_RECORDED'' (dr_ticket_id dr) (rd_db w)) (\<lambda>_.
         case List.find (\<lambda>r. or_observation_id r = ob_observation_id b) (cd_observations (rd_db w)) of
           Some r \<Rightarrow> bindE (parse_canonical_payload (or_observation_json r) (or_observation_sha256 r) ''OBSERVATION'') (\<lambda>old. bindE (check_digest old) (\<lambda>d.
             if d \<noteq> sha then raise CE ''OBSERVATION_CHECKPOINT_IDENTITY_CONFLICT''
             else bindE (require_binding l ''OBSERVATION_RECORDED'' (ob_observation_id b) (rd_db w)) (\<lambda>_. Inr (b, w))))
         | None \<Rightarrow> if observation_at (ob_task_id b) (ob_plan_fingerprint b) (ob_node_id b) (rd_db w) \<noteq> None
             then raise CE ''OBSERVATION_CHECKPOINT_NODE_CONFLICT'' else write_observation l b js sha now w)))))"

definition fenced_record_observation :: "db_env \<Rightarrow> writer_lease \<Rightarrow> observation \<Rightarrow> (runtime_db, observation) action" where
  "fenced_record_observation e l b = prepare (bindE (observation_validate b None None) (\<lambda>_. fenced l (ob_task_id b) (ob_plan_fingerprint b) (observation_canonical b)))
     (\<lambda>(js, sha). connection e (\<lambda>now. fenced_insert_observation l b js sha (utc_now_text now)))"

text \<open>\<open>try: binding = ... except ExecutionWriterFenceError: binding = None\<close>\<close>

definition optional_binding :: "fence_binding result \<Rightarrow> fence_binding option result" where
  "optional_binding m = (case m of Inl (c, msg) \<Rightarrow> if c = FE then Inr None else Inl (c, msg) | Inr b \<Rightarrow> Inr (Some b))"

definition already_cancelled :: "writer_lease \<Rightarrow> string \<Rightarrow> string \<Rightarrow> string \<Rightarrow> checkpoint_db \<Rightarrow> bool result" where
  "already_cancelled l task_id pf js db = (let rows = cancellations task_id pf db in
     if rows = [] then Inr False
     else bindE (parse_canonical_payload (er_payload_json (last rows)) (er_payload_sha256 (last rows)) ''CANCELLATION'') (\<lambda>old.
       bindE (check_text old) (\<lambda>t. if t \<noteq> js then Inr False
         else bindE (optional_binding (binding_after_event l ''CANCELLED'' task_id db)) (\<lambda>b. Inr (b = Some (binding_of l))))))"

definition fenced_insert_cancellation :: "writer_lease \<Rightarrow> string \<Rightarrow> string \<Rightarrow> string \<Rightarrow> string \<Rightarrow> string \<Rightarrow> runtime_db \<Rightarrow> (unit \<times> runtime_db) result" where
  "fenced_insert_cancellation l task_id pf js sha now w =
     bindE (require_task task_id (rd_db w)) (\<lambda>_. bindE (require_writer l w) (\<lambda>_. bindE (checkpoint_tables w) (\<lambda>_.
     bindE (already_cancelled l task_id pf js (rd_db w)) (\<lambda>same. if same then Inr ((), w)
     else bindE (append_writer_fence_event l ''CANCELLATION'' task_id now (append_event task_id pf ''CANCELLED'' task_id js sha now (rd_db w)))
       (\<lambda>db. Inr ((), w\<lparr>rd_db := db\<rparr>))))))"

definition fenced_record_cancellation :: "db_env \<Rightarrow> writer_lease \<Rightarrow> string \<Rightarrow> string \<Rightarrow> string \<Rightarrow> (runtime_db, unit) action" where
  "fenced_record_cancellation e l task_id pf reason_code = prepare
     (bindE (require_scope l task_id pf) (\<lambda>_. bindE (sha256_field CE pf ''plan_fingerprint'') (\<lambda>_.
      if strip reason_code = [] then raise CE ''INVALID_CANCELLATION_REASON'' else payload_texts (Inr (reason_json (strip reason_code))))))
     (\<lambda>(js, sha). connection e (\<lambda>now. fenced_insert_cancellation l task_id pf js sha (utc_now_text now)))"

section \<open>Verification and loading\<close>

text \<open>A loop that returns \<open>False\<close> at the first check that fails.\<close>

definition all_true :: "('a \<Rightarrow> bool result) \<Rightarrow> 'a list \<Rightarrow> bool result" where
  "all_true f xs = foldE (\<lambda>ok x. if ok then f x else Inr False) True xs"

definition event_bound :: "writer_lease \<Rightarrow> checkpoint_db \<Rightarrow> nat \<Rightarrow> bool result" where
  "event_bound l db k = (let row = cd_events db ! k in
     if \<not> in_scope l row then Inr True
     else case map_of PROTECTED_EVENT_KINDS (er_event_type row) of None \<Rightarrow> Inr True
     | Some kind \<Rightarrow> (case event_at l db (Suc k) of None \<Rightarrow> Inr False
       | Some r \<Rightarrow> if er_event_type r \<noteq> WRITER_FENCE_EVENT_TYPE \<or> er_subject_id r \<noteq> er_subject_id row then Inr False
           else bindE (read_binding r kind) (\<lambda>_. Inr True)))"

definition dispatch_binding :: "writer_lease \<Rightarrow> checkpoint_db \<Rightarrow> dispatch_row \<Rightarrow> (string \<times> fence_binding) result" where
  "dispatch_binding l db r = bindE (binding_after_event l ''DISPATCH_RECORDED'' (dr_ticket_id r) db) (\<lambda>b. Inr (dr_node_id r, b))"

definition observation_bound :: "writer_lease \<Rightarrow> checkpoint_db \<Rightarrow> (string \<times> fence_binding) list \<Rightarrow> observation_row \<Rightarrow> bool result" where
  "observation_bound l db bindings r = (case map_of (rev bindings) (or_node_id r) of None \<Rightarrow> Inr False
   | Some d \<Rightarrow> bindE (binding_after_event l ''OBSERVATION_RECORDED'' (or_observation_id r) db) (\<lambda>b. Inr (b = d)))"

definition bindings_check :: "writer_lease \<Rightarrow> checkpoint_db \<Rightarrow> bool result" where
  "bindings_check l db = bindE (all_true (event_bound l db) [0..<length (cd_events db)]) (\<lambda>ok. if \<not> ok then Inr False
     else bindE (mapE (dispatch_binding l db) (dispatches_of (wl_task_id l) (wl_plan_fingerprint l) db)) (\<lambda>bindings.
       all_true (observation_bound l db bindings) (observations_of (wl_task_id l) (wl_plan_fingerprint l) db)))"

definition caught_by_verification :: "exc_class \<Rightarrow> bool" where
  "caught_by_verification c \<longleftrightarrow> c \<in> {CE, FE, ExecutionDispatchBudgetError, WL, TypeError} \<or> is_value_error c"

definition verify_writer_fence_bindings :: "db_env \<Rightarrow> writer_lease \<Rightarrow> runtime_db \<Rightarrow> bool result" where
  "verify_writer_fence_bindings e l = reading e (\<lambda>w. bindE (checkpoint_tables w) (\<lambda>_.
     bindE (verify_event_chain (wl_task_id l) (wl_plan_fingerprint l) (rd_db w)) (\<lambda>valid. if \<not> valid then Inr False
     else (case bindings_check l (rd_db w) of Inl (c, msg) \<Rightarrow> if caught_by_verification c then Inr False else Inl (c, msg) | Inr ok \<Rightarrow> Inr ok))))"

definition require_current_writer :: "db_env \<Rightarrow> writer_lease \<Rightarrow> runtime_db \<Rightarrow> writer_lease result" where
  "require_current_writer e l w = translate_writer_error (require_current e l w)"

definition fenced_load :: "db_env \<Rightarrow> writer_lease \<Rightarrow> string \<Rightarrow> string \<Rightarrow> runtime_db \<Rightarrow> recovered_state result" where
  "fenced_load e l task_id pf w = bindE (require_scope l task_id pf) (\<lambda>_. bindE (require_current_writer e l w) (\<lambda>_.
     bindE (cp_load e task_id pf (rd_db w)) (\<lambda>state. bindE (verify_writer_fence_bindings e l w) (\<lambda>ok.
     if ok then Inr state else raise FE ''EXECUTION_WRITER_FENCE_BINDINGS_INVALID''))))"

definition on_db :: "(checkpoint_db, 'a) action \<Rightarrow> (runtime_db, 'a) action" where
  "on_db m w = (case m (rd_db w) of (r, db) \<Rightarrow> (r, w\<lparr>rd_db := db\<rparr>))"

definition fenced_initialize :: "db_env \<Rightarrow> writer_lease \<Rightarrow> (runtime_db, unit) action" where
  "fenced_initialize e l = bindA (on_db (cp_initialize e)) (\<lambda>_. bindA (lease_initialize e) (\<lambda>_. readA (\<lambda>w. void (require_current_writer e l w))))"

definition fenced_repository :: "db_env \<Rightarrow> writer_lease \<Rightarrow> runtime_db repository" where
  "fenced_repository e l = \<lparr>rp_initialize = fenced_initialize e l, rp_record_dispatch = fenced_record_dispatch e l,
     rp_record_observation = fenced_record_observation e l, rp_record_cancellation = fenced_record_cancellation e l, rp_load = fenced_load e l\<rparr>"

section \<open>A fenced recording is a recording\<close>

lemma translate_iff [simp]: "translate_writer_error m = Inr x \<longleftrightarrow> m = Inr x"
  by (auto simp: translate_writer_error_def split: sum.splits if_splits)

lemma require_writer_iff [simp]: "require_writer l w = Inr c \<longleftrightarrow> require_current_in_transaction l (rd_lease w) = Inr c"
  by (simp add: require_writer_def)

abbreviation fence_json :: "writer_lease \<Rightarrow> string \<Rightarrow> json" where
  "fence_json l kind \<equiv> JObj (fence_items l kind)"

lemma fence_json_ok: "plain_json (fence_json l kind)" "finite_json (fence_json l kind)" "\<exists>d. norm_json (fence_json l kind) = JObj d"
  by (simp_all add: fence_items_def)

definition fence_event :: "writer_lease \<Rightarrow> string \<Rightarrow> string \<Rightarrow> string \<Rightarrow> checkpoint_db \<Rightarrow> checkpoint_db" where
  "fence_event l kind subject now db = append_event (wl_task_id l) (wl_plan_fingerprint l) WRITER_FENCE_EVENT_TYPE subject
     (dumps (fence_json l kind)) (digest (fence_json l kind)) now db"

lemma append_fence_iff: "append_writer_fence_event l kind subject now db = Inr db' \<longleftrightarrow> lease_ok l \<and> wl_status l = ''ACTIVE''
   \<and> kind \<in> snd ` set PROTECTED_EVENT_KINDS \<and> db' = fence_event l kind subject now db"
  using fence_json_ok(2) [of l kind]
  by (auto simp: append_writer_fence_event_def fence_payload_def fence_event_def bindE_Inr_iff split: if_splits simp del: dumps.simps finite_json.simps)

lemma require_scope_iff [simp]: "require_scope l task_id pf = Inr u \<longleftrightarrow> (task_id, pf) = scope_of l"
  by (simp add: require_scope_def)

lemma checkpoint_tables_iff [simp]: "checkpoint_tables w = Inr u \<longleftrightarrow> cd_created (rd_db w)"
  by (simp add: checkpoint_tables_def)

lemma dispatch_plain:
  assumes "fenced_insert_dispatch l t js sha now w = Inr (u, w')" "scope_of l = (dt_task_id t, dt_plan_fingerprint t)"
  shows "\<exists>db. insert_dispatch t js sha now (rd_db w) = Inr (u, db) \<and> cd_created (rd_db w) \<and> (\<exists>c. require_current_in_transaction l (rd_lease w) = Inr c)
    \<and> ((\<exists>b. require_binding l ''DISPATCH_RECORDED'' (dt_ticket_id t) (rd_db w) = Inr b) \<and> db = rd_db w \<and> w' = w
       \<or> List.find (\<lambda>r. dr_ticket_id r = dt_ticket_id t) (cd_dispatches (rd_db w)) = None \<and> lease_ok l \<and> wl_status l = ''ACTIVE'' \<and> u = t
         \<and> db = append_event (dt_task_id t) (dt_plan_fingerprint t) ''DISPATCH_RECORDED'' (dt_ticket_id t) js sha now
             ((rd_db w)\<lparr>cd_dispatches := cd_dispatches (rd_db w) @ [dispatch_record t js sha now]\<rparr>)
         \<and> w' = w\<lparr>rd_db := fence_event l ''DISPATCH'' (dt_ticket_id t) now db\<rparr>)"
  using assms unfolding fenced_insert_dispatch_def bindE_Inr_iff
  by (cases "List.find (\<lambda>r. dr_ticket_id r = dt_ticket_id t) (cd_dispatches (rd_db w))")
    (auto simp: insert_dispatch_def bindE_Inr_iff write_dispatch_def bound_events_def append_fence_iff dispatch_record_def split: if_splits)

lemma observation_plain:
  assumes "fenced_insert_observation l b js sha now w = Inr (u, w')" "scope_of l = (ob_task_id b, ob_plan_fingerprint b)"
  shows "\<exists>dr db. insert_observation b js sha now (rd_db w) = Inr (u, db) \<and> cd_created (rd_db w) \<and> (\<exists>c. require_current_in_transaction l (rd_lease w) = Inr c)
    \<and> dispatch_at (ob_task_id b) (ob_plan_fingerprint b) (ob_node_id b) (rd_db w) = Some dr
    \<and> require_binding l ''DISPATCH_RECORDED'' (dr_ticket_id dr) (rd_db w) = Inr (binding_of l)
    \<and> ((\<exists>b'. require_binding l ''OBSERVATION_RECORDED'' (ob_observation_id b) (rd_db w) = Inr b') \<and> db = rd_db w \<and> w' = w
       \<or> List.find (\<lambda>r. or_observation_id r = ob_observation_id b) (cd_observations (rd_db w)) = None \<and> lease_ok l \<and> wl_status l = ''ACTIVE'' \<and> u = b
         \<and> db = append_event (ob_task_id b) (ob_plan_fingerprint b) ''OBSERVATION_RECORDED'' (ob_observation_id b) js sha now
             ((rd_db w)\<lparr>cd_observations := cd_observations (rd_db w) @ [observation_record b js sha now]\<rparr>)
         \<and> w' = w\<lparr>rd_db := fence_event l ''OBSERVATION'' (ob_observation_id b) now db\<rparr>)"
proof -
  have own: "require_binding l ev subject db = Inr x \<Longrightarrow> x = binding_of l" for ev subject db x
    by (auto simp: require_binding_def bindE_Inr_iff split: if_splits)
  obtain dr where dr: "dispatch_at (ob_task_id b) (ob_plan_fingerprint b) (ob_node_id b) (rd_db w) = Some dr"
    using assms(1) unfolding fenced_insert_observation_def bindE_Inr_iff by (auto split: option.splits)
  from assms own [of "''DISPATCH_RECORDED''" "dr_ticket_id dr" "rd_db w"] show ?thesis
    unfolding fenced_insert_observation_def bindE_Inr_iff dr option.case
    by (intro exI [of _ dr], cases "List.find (\<lambda>r. or_observation_id r = ob_observation_id b) (cd_observations (rd_db w))")
      (auto simp: insert_observation_def bindE_Inr_iff write_observation_def bound_events_def append_fence_iff dr observation_record_def split: if_splits)
qed

section \<open>Bindings stay\<close>

lemma last_index_snoc: "last_index good (xs @ [x]) = (if good x then Some (length xs) else last_index good xs)"
proof -
  have "filter (\<lambda>k. good ((xs @ [x]) ! k)) [0..<length xs] = filter (\<lambda>k. good (xs ! k)) [0..<length xs]"
    by (rule filter_cong) (auto simp: nth_append)
  then show ?thesis by (simp add: last_index_def Let_def)
qed

lemma last_index_less: "last_index good xs = Some k \<Longrightarrow> k < length xs"
  by (auto simp: last_index_def Let_def split: if_splits dest: last_in_set)

definition with_event :: "checkpoint_db \<Rightarrow> event_row \<Rightarrow> checkpoint_db" where
  "with_event db x = db\<lparr>cd_events := cd_events db @ [x]\<rparr>"

lemma append_event_with: "append_event task_id pf kind subject js sha now db = with_event db (new_event task_id pf kind subject js sha now db)"
  by (simp add: append_event_eq with_event_def)

lemma event_at_kept: "event_at l db k = Some r \<Longrightarrow> event_at l (with_event db x) k = Some r"
  by (auto simp: event_at_def with_event_def nth_append split: if_splits)

lemma event_at_cong: "cd_events db = cd_events db' \<Longrightarrow> event_at l db = event_at l db'"
  by (simp add: event_at_def fun_eq_iff)

lemma bindings_cong:
  assumes "cd_events db = cd_events db'"
  shows "event_bound l db = event_bound l db'" "binding_after_event l ev subject db = binding_after_event l ev subject db'"
  unfolding event_bound_def [abs_def] binding_after_event_def assms event_at_cong [OF assms] by (rule refl)+

lemma binding_kept:
  assumes "binding_after_event l ev subject db = Inr b" "\<not> (in_scope l x \<and> er_event_type x = ev \<and> er_subject_id x = subject)"
  shows "binding_after_event l ev subject (with_event db x) = Inr b"
proof -
  let ?good = "\<lambda>r. in_scope l r \<and> er_event_type r = ev \<and> er_subject_id r = subject"
  obtain kind k r where k: "map_of PROTECTED_EVENT_KINDS ev = Some kind" "last_index ?good (cd_events db) = Some k" "event_at l db (Suc k) = Some r"
    using assms(1) unfolding binding_after_event_def by (auto split: option.splits)
  have "last_index ?good (cd_events (with_event db x)) = Some k" using assms(2) k(2) by (auto simp: with_event_def last_index_snoc)
  then show ?thesis using assms(1) k event_at_kept [OF k(3), of x] by (simp add: binding_after_event_def)
qed

lemma fence_unprotected [simp]: "map_of PROTECTED_EVENT_KINDS WRITER_FENCE_EVENT_TYPE = None"
  by (simp add: PROTECTED_EVENT_KINDS_def WRITER_FENCE_EVENT_TYPE_def)

lemma binding_new:
  assumes "in_scope l x" "map_of PROTECTED_EVENT_KINDS (er_event_type x) = Some kind" "in_scope l y" "er_event_type y = WRITER_FENCE_EVENT_TYPE"
    "er_subject_id y = er_subject_id x"
  shows "binding_after_event l (er_event_type x) (er_subject_id x) (with_event (with_event db x) y) = read_binding y kind"
proof -
  have ne: "er_event_type y \<noteq> er_event_type x" using assms(2,4) by auto
  have ev: "cd_events (with_event (with_event db x) y) = cd_events db @ [x, y]" by (simp add: with_event_def)
  have "last_index (\<lambda>r. in_scope l r \<and> er_event_type r = er_event_type x \<and> er_subject_id r = er_subject_id x) (cd_events db @ [x, y]) = Some (length (cd_events db))"
    using last_index_snoc [of _ "cd_events db @ [x]" y] ne assms(1) by (simp add: last_index_snoc)
  moreover have "event_at l (with_event (with_event db x) y) (Suc (length (cd_events db))) = Some y"
    using assms(3) by (simp add: event_at_def ev nth_append)
  ultimately show ?thesis using assms(2,4,5) by (simp add: binding_after_event_def ev)
qed

text \<open>Every protected event of the scope is followed by a readable binding of its subject.\<close>

definition fenced_events :: "writer_lease \<Rightarrow> checkpoint_db \<Rightarrow> bool" where
  "fenced_events l db \<longleftrightarrow> (\<forall>k < length (cd_events db). event_bound l db k = Inr True)"

definition protected :: "writer_lease \<Rightarrow> event_row \<Rightarrow> bool" where
  "protected l r \<longleftrightarrow> in_scope l r \<and> map_of PROTECTED_EVENT_KINDS (er_event_type r) \<noteq> None"

lemma event_bound_kept:
  assumes "event_bound l db k = Inr True" "k < length (cd_events db)"
  shows "event_bound l (with_event db x) k = Inr True"
proof -
  have "cd_events (with_event db x) ! k = cd_events db ! k" using assms(2) by (simp add: with_event_def nth_append)
  with assms(1) show ?thesis
    using event_at_kept [of l db "Suc k" _ x] unfolding event_bound_def Let_def by (auto split: option.splits if_splits)
qed

lemma event_bound_free: "\<not> protected l (cd_events db ! k) \<Longrightarrow> event_bound l db k = Inr True"
  by (auto simp: event_bound_def protected_def Let_def split: option.splits)

lemma fenced_single:
  assumes "fenced_events l db" "\<not> protected l x"
  shows "fenced_events l (with_event db x)"
  unfolding fenced_events_def
proof (intro allI impI)
  fix k assume k: "k < length (cd_events (with_event db x))"
  show "event_bound l (with_event db x) k = Inr True"
  proof (cases "k < length (cd_events db)")
    case True
    with assms(1) show ?thesis by (simp add: fenced_events_def event_bound_kept)
  next
    case False
    with k have "cd_events (with_event db x) ! k = x" by (simp add: with_event_def nth_append)
    with assms(2) show ?thesis by (intro event_bound_free) simp
  qed
qed

lemma fenced_pair:
  assumes "fenced_events l db" "in_scope l x" "map_of PROTECTED_EVENT_KINDS (er_event_type x) = Some kind" "in_scope l y"
    "er_event_type y = WRITER_FENCE_EVENT_TYPE" "er_subject_id y = er_subject_id x" "read_binding y kind = Inr b"
  shows "fenced_events l (with_event (with_event db x) y)"
  unfolding fenced_events_def
proof (intro allI impI)
  let ?db = "with_event (with_event db x) y"
  have ev: "cd_events ?db = cd_events db @ [x, y]" by (simp add: with_event_def)
  fix k assume k: "k < length (cd_events ?db)"
  consider "k < length (cd_events db)" | "k = length (cd_events db)" | "k = Suc (length (cd_events db))" using k by (force simp: ev)
  then show "event_bound l ?db k = Inr True"
  proof cases
    case 1
    then have "event_bound l (with_event db x) k = Inr True" using assms(1) by (simp add: fenced_events_def event_bound_kept)
    moreover have "k < length (cd_events (with_event db x))" using 1 by (simp add: with_event_def)
    ultimately show ?thesis by (rule event_bound_kept)
  next
    case 2
    moreover have "event_at l ?db (Suc (length (cd_events db))) = Some y" using assms(4) by (simp add: event_at_def ev nth_append)
    ultimately show ?thesis using assms(2-7) by (simp add: event_bound_def ev nth_append)
  next
    case 3
    have "\<not> protected l y" using assms(5) by (simp add: protected_def)
    with 3 show ?thesis by (intro event_bound_free) (simp add: ev nth_append)
  qed
qed

text \<open>The binding a lease writes is read back.\<close>

lemma read_own_binding:
  assumes "lease_ok l" "er_payload_json r = dumps (fence_json l kind)" "er_payload_sha256 r = digest (fence_json l kind)"
  shows "read_binding r kind = Inr (binding_of l)"
proof -
  let ?d = "map (\<lambda>(k, v). (k, norm_json v)) (sort_key fst (fence_items l kind))"
  have n: "norm_json (fence_json l kind) = JObj ?d" by (simp del: sort_key_simps)
  have k: "same_keys ?d FENCE_KEYS" unfolding normed_keys by (simp add: fence_items_def FENCE_KEYS_def insert_commute)
  have g: "dict_get ?d k JNull = norm_json (dict_get (fence_items l kind) k JNull)" for k by (rule dict_get_norm) (simp add: fence_items_def)
  have f: "dict_get (fence_items l kind) ''schema_version'' JNull = JStr EXECUTION_WRITER_FENCE_SCHEMA" "dict_get (fence_items l kind) ''subject_kind'' JNull = JStr kind"
    "dict_get (fence_items l kind) ''writer_run_id'' JNull = JStr (wl_run_id l)" "dict_get (fence_items l kind) ''writer_generation'' JNull = JInt (wl_generation l)"
    "dict_get (fence_items l kind) ''writer_lease_fingerprint'' JNull = JStr (digest (lease_json l))"
    by (simp_all add: fence_items_def dict_get_def)
  have "wl_run_id l \<noteq> []" "1 \<le> wl_generation l" using assms(1) by (auto simp: lease_ok_def ID_RE_def ident_match_def)
  moreover have "parse_canonical_payload (er_payload_json r) (er_payload_sha256 r) ''WRITER_FENCE'' = Inr (JObj ?d)"
    unfolding assms(2,3) parse_stored [OF fence_json_ok(1,2)] n ..
  ultimately show ?thesis
    using k unfolding read_binding_def by (simp add: validate_fence_payload_def Let_def g f binding_of_def del: sort_key_simps)
qed

definition recorded :: "writer_lease \<Rightarrow> string \<Rightarrow> string \<Rightarrow> string \<Rightarrow> string \<Rightarrow> string \<Rightarrow> string \<Rightarrow> checkpoint_db \<Rightarrow> checkpoint_db" where
  "recorded m ev kind subject js sha now db =
     fence_event m kind subject now (append_event (wl_task_id m) (wl_plan_fingerprint m) ev subject js sha now db)"

lemma new_event_subject: "er_subject_id (new_event task_id pf ev subject js sha now db) = subject"
  by (simp add: new_event_def Let_def)

lemma new_event_scope: "in_scope l (new_event (wl_task_id m) (wl_plan_fingerprint m) ev subject js sha now db) \<longleftrightarrow> scope_of l = scope_of m"
  by (auto simp: in_scope_def new_event_fields)

lemmas event_fields = new_event_fields new_event_subject new_event_scope

text \<open>The two rows of a recording, and what they do to the bindings.\<close>

abbreviation writes :: "writer_lease \<Rightarrow> string \<Rightarrow> string \<Rightarrow> bool" where
  "writes m ev kind \<equiv> lease_ok m \<and> map_of PROTECTED_EVENT_KINDS ev = Some kind"

lemma recorded_rows:
  assumes "writes m ev kind"
  obtains x y where "recorded m ev kind subject js sha now db = with_event (with_event db x) y"
    "\<And>l. in_scope l x = (scope_of l = scope_of m)" "\<And>l. in_scope l y = (scope_of l = scope_of m)" "er_event_type x = ev" "er_subject_id x = subject"
    "er_event_type y = WRITER_FENCE_EVENT_TYPE" "er_subject_id y = subject" "read_binding y kind = Inr (binding_of m)"
proof -
  let ?x = "new_event (wl_task_id m) (wl_plan_fingerprint m) ev subject js sha now db"
  let ?y = "new_event (wl_task_id m) (wl_plan_fingerprint m) WRITER_FENCE_EVENT_TYPE subject (dumps (fence_json m kind)) (digest (fence_json m kind)) now (with_event db ?x)"
  have "recorded m ev kind subject js sha now db = with_event (with_event db ?x) ?y"
    by (simp add: recorded_def fence_event_def append_event_with del: dumps.simps)
  moreover have "read_binding ?y kind = Inr (binding_of m)" by (rule read_own_binding [OF conjunct1 [OF assms]]) (simp_all add: event_fields)
  ultimately show ?thesis by (intro that [of ?x ?y]) (simp_all add: event_fields)
qed

lemma recorded_events:
  assumes "writes m ev kind" "fenced_events l db"
  shows "fenced_events l (recorded m ev kind subject js sha now db)"
proof -
  obtain x y where r: "recorded m ev kind subject js sha now db = with_event (with_event db x) y" "in_scope l x = (scope_of l = scope_of m)" "in_scope l y = (scope_of l = scope_of m)"
      "er_event_type x = ev" "er_subject_id x = subject" "er_event_type y = WRITER_FENCE_EVENT_TYPE" "er_subject_id y = subject" "read_binding y kind = Inr (binding_of m)"
    using recorded_rows [OF assms(1), of subject js sha now db] by metis
  show ?thesis
  proof (cases "in_scope l x")
    case True
    with r(2,3) have "in_scope l y" by blast
    with r True assms(1) show ?thesis unfolding r(1) by (intro fenced_pair [OF assms(2)]) auto
  next
    case False
    with r(2,3) have "\<not> in_scope l y" by blast
    with False have "\<not> protected l x" "\<not> protected l y" by (simp_all add: protected_def)
    then show ?thesis unfolding r(1) using assms(2) by (intro fenced_single)
  qed
qed

lemma recorded_binding_kept:
  assumes "writes m ev kind" "binding_after_event l ev' subject' db = Inr b" "scope_of l \<noteq> scope_of m \<or> ev' \<noteq> ev \<or> subject' \<noteq> subject"
  shows "binding_after_event l ev' subject' (recorded m ev kind subject js sha now db) = Inr b"
proof -
  obtain x y where r: "recorded m ev kind subject js sha now db = with_event (with_event db x) y" "in_scope l x = (scope_of l = scope_of m)"
      "er_event_type x = ev" "er_subject_id x = subject" "er_event_type y = WRITER_FENCE_EVENT_TYPE"
    using recorded_rows [OF assms(1), of subject js sha now db] by metis
  have "ev' \<noteq> WRITER_FENCE_EVENT_TYPE" using assms(2) by (auto simp: binding_after_event_def)
  moreover have "\<not> (in_scope l x \<and> er_event_type x = ev' \<and> er_subject_id x = subject')" using assms(3) r(2-4) by blast
  ultimately show ?thesis unfolding r(1) using assms(2) r(5) by (intro binding_kept) auto
qed

lemma recorded_binding_new:
  assumes "writes m ev kind" "scope_of l = scope_of m"
  shows "binding_after_event l ev subject (recorded m ev kind subject js sha now db) = Inr (binding_of m)"
proof -
  obtain x y where r: "recorded m ev kind subject js sha now db = with_event (with_event db x) y" "in_scope l x = (scope_of l = scope_of m)" "in_scope l y = (scope_of l = scope_of m)"
      "er_event_type x = ev" "er_subject_id x = subject" "er_event_type y = WRITER_FENCE_EVENT_TYPE" "er_subject_id y = subject" "read_binding y kind = Inr (binding_of m)"
    using recorded_rows [OF assms(1), of subject js sha now db] by metis
  have "in_scope l x" "in_scope l y" using r(2,3) assms(2) by blast+
  with binding_new [of l x kind y db] assms(1) r(1,4-8) show ?thesis by simp
qed

section \<open>The bindings always verify\<close>

abbreviation bound_dispatch :: "writer_lease \<Rightarrow> checkpoint_db \<Rightarrow> dispatch_row \<Rightarrow> fence_binding \<Rightarrow> bool" where
  "bound_dispatch l db r b \<equiv> binding_after_event l ''DISPATCH_RECORDED'' (dr_ticket_id r) db = Inr b"

abbreviation bound_report :: "writer_lease \<Rightarrow> checkpoint_db \<Rightarrow> observation_row \<Rightarrow> fence_binding \<Rightarrow> bool" where
  "bound_report l db r b \<equiv> binding_after_event l ''OBSERVATION_RECORDED'' (or_observation_id r) db = Inr b"

abbreviation scope_dispatches :: "writer_lease \<Rightarrow> checkpoint_db \<Rightarrow> dispatch_row list" where
  "scope_dispatches l db \<equiv> dispatches_of (wl_task_id l) (wl_plan_fingerprint l) db"

abbreviation scope_observations :: "writer_lease \<Rightarrow> checkpoint_db \<Rightarrow> observation_row list" where
  "scope_observations l db \<equiv> observations_of (wl_task_id l) (wl_plan_fingerprint l) db"

text \<open>Every dispatch of the scope is bound to a lease, and every observation to the lease of its node's dispatch.\<close>

definition bound_rows :: "writer_lease \<Rightarrow> checkpoint_db \<Rightarrow> bool" where
  "bound_rows l db \<longleftrightarrow> inj_on dr_node_id (set (scope_dispatches l db))
     \<and> (\<forall>d \<in> set (scope_dispatches l db). \<exists>b. bound_dispatch l db d b)
     \<and> (\<forall>r \<in> set (scope_observations l db). \<exists>d \<in> set (scope_dispatches l db). \<exists>b. dr_node_id d = or_node_id r \<and> bound_dispatch l db d b \<and> bound_report l db r b)"

definition fence_inv :: "checkpoint_db \<Rightarrow> bool" where
  "fence_inv db \<longleftrightarrow> (\<forall>l. fenced_events l db \<and> bound_rows l db)"

lemma all_true_iff: "all_true f xs = Inr True \<longleftrightarrow> (\<forall>x \<in> set xs. f x = Inr True)"
proof -
  have F: "foldE (\<lambda>ok x. if ok then f x else Inr False) False xs \<noteq> Inr True" for xs by (induction xs) simp_all
  have "foldE (\<lambda>ok x. if ok then f x else Inr False) True xs = Inr True \<longleftrightarrow> (\<forall>x \<in> set xs. f x = Inr True)"
  proof (induction xs)
    case (Cons x xs)
    show ?case
    proof (cases "f x")
      case (Inr ok)
      with Cons.IH F [of xs] show ?thesis by (cases ok) simp_all
    qed simp
  qed simp
  then show ?thesis by (simp add: all_true_def)
qed

lemma bindings_check_True:
  assumes "fence_inv db"
  shows "bindings_check l db = Inr True"
proof -
  have inv: "fenced_events l db" "bound_rows l db" using assms by (simp_all add: fence_inv_def)
  note rows = inv(2) [unfolded bound_rows_def]
  have inj: "inj_on dr_node_id (set (scope_dispatches l db))" by (rule conjunct1 [OF rows])
  have "\<forall>d \<in> set (scope_dispatches l db). \<exists>b. bound_dispatch l db d b" using rows by blast
  from bchoice [OF this] obtain f where "\<forall>d \<in> set (scope_dispatches l db). bound_dispatch l db d (f d)" ..
  then have f: "bound_dispatch l db d (f d)" if "d \<in> set (scope_dispatches l db)" for d using that by (rule bspec)
  let ?bs = "map (\<lambda>d. (dr_node_id d, f d)) (scope_dispatches l db)"
  have m: "mapE (dispatch_binding l db) (scope_dispatches l db) = Inr ?bs"
    unfolding mapE_Inr_iff using f by (auto simp: dispatch_binding_def list_all2_conv_all_nth simp del: set_filter)
  have "observation_bound l db ?bs r = Inr True" if r: "r \<in> set (scope_observations l db)" for r
  proof -
    obtain d b where d: "d \<in> set (scope_dispatches l db)" "dr_node_id d = or_node_id r" "bound_dispatch l db d b" "bound_report l db r b" using rows r by blast
    have "map_of (rev ?bs) (or_node_id r) = Some b"
    proof (cases "map_of (rev ?bs) (or_node_id r)")
      case None
      then show ?thesis using d(1,2) by (force simp: map_of_eq_None_iff)
    next
      case (Some c)
      then have "(or_node_id r, c) \<in> set ?bs" using map_of_SomeD by force
      then obtain d' where d': "d' \<in> set (scope_dispatches l db)" "dr_node_id d' = or_node_id r" "c = f d'" by auto
      have "d' = d" by (rule inj_onD [OF inj _ d'(1) d(1)]) (simp add: d(2) d'(2))
      with d(3) f [OF d'(1)] d'(3) Some show ?thesis by simp
    qed
    with d(4) show ?thesis by (simp add: observation_bound_def)
  qed
  then have o: "all_true (observation_bound l db ?bs) (scope_observations l db) = Inr True" unfolding all_true_iff by blast
  have e: "all_true (event_bound l db) [0..<length (cd_events db)] = Inr True" using inv(1) by (simp add: all_true_iff fenced_events_def)
  show ?thesis unfolding bindings_check_def e m using o by simp
qed

lemma bound_rows_cong:
  assumes "cd_events db = cd_events db'" "cd_dispatches db = cd_dispatches db'" "cd_observations db = cd_observations db'"
  shows "fence_inv db = fence_inv db'"
proof -
  have "fenced_events l db = fenced_events l db'" "bound_rows l db = bound_rows l db'" for l
    unfolding fenced_events_def bound_rows_def bindings_cong [OF assms(1)] assms by (rule refl)+
  then show ?thesis by (simp add: fence_inv_def)
qed
lemma binding_scope: "scope_of l = scope_of m \<Longrightarrow> binding_after_event l = binding_after_event m"
proof -
  assume "scope_of l = scope_of m"
  then have s: "in_scope l = in_scope m" by (simp add: in_scope_def fun_eq_iff)
  then have e: "event_at l = event_at m" by (simp add: event_at_def fun_eq_iff)
  show "binding_after_event l = binding_after_event m" unfolding binding_after_event_def [abs_def] s e ..
qed

text \<open>A recording of any lease, in any scope, keeps the bindings.\<close>

lemma bound_rowsD:
  assumes "bound_rows l db"
  shows "inj_on dr_node_id (set (scope_dispatches l db))" "d \<in> set (scope_dispatches l db) \<Longrightarrow> \<exists>b. bound_dispatch l db d b"
    "r \<in> set (scope_observations l db) \<Longrightarrow> \<exists>d \<in> set (scope_dispatches l db). \<exists>b. dr_node_id d = or_node_id r \<and> bound_dispatch l db d b \<and> bound_report l db r b"
  using assms unfolding bound_rows_def by blast+

lemma bound_rowsI:
  assumes "inj_on dr_node_id (set (scope_dispatches l db))" "\<And>d. d \<in> set (scope_dispatches l db) \<Longrightarrow> \<exists>b. bound_dispatch l db d b"
    "\<And>r. r \<in> set (scope_observations l db) \<Longrightarrow> \<exists>d \<in> set (scope_dispatches l db). \<exists>b. dr_node_id d = or_node_id r \<and> bound_dispatch l db d b \<and> bound_report l db r b"
  shows "bound_rows l db"
  unfolding bound_rows_def using assms by blast

lemma fence_invD: "fence_inv db \<Longrightarrow> fenced_events l db" "fence_inv db \<Longrightarrow> bound_rows l db"
  by (simp_all add: fence_inv_def)

lemma recorded_tables [simp]: "cd_dispatches (recorded m ev kind subject js sha now db) = cd_dispatches db"
  "cd_observations (recorded m ev kind subject js sha now db) = cd_observations db" "cd_store (recorded m ev kind subject js sha now db) = cd_store db"
  "cd_created (recorded m ev kind subject js sha now db) = cd_created db" "cd_tick (recorded m ev kind subject js sha now db) = cd_tick db"
  by (simp_all add: recorded_def fence_event_def)

lemma fence_inv_event:
  assumes "fence_inv db" "writes m ev kind" "ev \<noteq> ''DISPATCH_RECORDED''" "ev \<noteq> ''OBSERVATION_RECORDED''"
  shows "fence_inv (recorded m ev kind subject js sha now db)"
proof -
  have "bound_rows l (recorded m ev kind subject js sha now db)" for l
  proof -
    have k: "binding_after_event l ev' subject' (recorded m ev kind subject js sha now db) = Inr b"
      if "binding_after_event l ev' subject' db = Inr b" "ev' \<noteq> ev" for ev' subject' b
      using recorded_binding_kept [OF assms(2) that(1)] that(2) by blast
    note D = bound_rowsD [OF fence_invD(2) [OF assms(1), of l]]
    show ?thesis
      by (rule bound_rowsI; unfold recorded_tables) (use D k assms(3,4) in blast)+
  qed
  with recorded_events [OF assms(2) fence_invD(1) [OF assms(1)]] show ?thesis by (simp add: fence_inv_def)
qed

abbreviation add_dispatch_row :: "dispatch_row \<Rightarrow> checkpoint_db \<Rightarrow> checkpoint_db" where
  "add_dispatch_row d db \<equiv> db\<lparr>cd_dispatches := cd_dispatches db @ [d]\<rparr>"

abbreviation add_observation_row :: "observation_row \<Rightarrow> checkpoint_db \<Rightarrow> checkpoint_db" where
  "add_observation_row r db \<equiv> db\<lparr>cd_observations := cd_observations db @ [r]\<rparr>"

lemma fence_inv_dispatch:
  assumes "fence_inv db" "lease_ok m" "(dr_task_id d, dr_plan_fingerprint d) = scope_of m" "dr_ticket_id d \<notin> dr_ticket_id ` set (cd_dispatches db)"
    "dr_node_id d \<notin> dr_node_id ` set (scope_dispatches m db)"
  shows "fence_inv (recorded m ''DISPATCH_RECORDED'' ''DISPATCH'' (dr_ticket_id d) js sha now (add_dispatch_row d db))" (is "fence_inv ?db")
proof -
  have w: "writes m ''DISPATCH_RECORDED'' ''DISPATCH''" using assms(2) by (simp add: PROTECTED_EVENT_KINDS_def)
  have cong: "binding_after_event l ev s (add_dispatch_row d db) = binding_after_event l ev s db" "event_bound l (add_dispatch_row d db) = event_bound l db" for l ev s
    by (rule bindings_cong; simp)+
  have "fenced_events l (add_dispatch_row d db)" for l using fence_invD(1) [OF assms(1), of l] by (simp add: fenced_events_def cong)
  moreover have "bound_rows l ?db" for l
  proof -
    note D = bound_rowsD [OF fence_invD(2) [OF assms(1), of l]]
    have k: "binding_after_event l ev s ?db = Inr b" if "binding_after_event l ev s db = Inr b" "ev \<noteq> ''DISPATCH_RECORDED'' \<or> s \<noteq> dr_ticket_id d" for ev s b
      using recorded_binding_kept [OF w, of l ev s "add_dispatch_row d db" b] that unfolding cong by blast
    have old: "dr_ticket_id r \<noteq> dr_ticket_id d" if "r \<in> set (scope_dispatches l db)" for r using that assms(4) by (metis filter_is_subset imageI subsetD)
    have set: "set (scope_dispatches l ?db) = (if scope_of l = scope_of m then insert d (set (scope_dispatches l db)) else set (scope_dispatches l db))"
      using assms(3) by auto
    have new: "\<exists>b. bound_dispatch l ?db d b" if "scope_of l = scope_of m" using recorded_binding_new [OF w that] by blast
    have node: "dr_node_id d \<notin> dr_node_id ` set (scope_dispatches l db)" if "scope_of l = scope_of m" using that assms(5) by simp
    show ?thesis
    proof (rule bound_rowsI)
      show "inj_on dr_node_id (set (scope_dispatches l ?db))" unfolding set using D(1) node by (auto simp: inj_on_insert simp del: set_filter)
      show "\<exists>b. bound_dispatch l ?db r b" if "r \<in> set (scope_dispatches l ?db)" for r
        using that new D(2) [of r] k old [of r] unfolding set by (cases "r = d \<and> scope_of l = scope_of m") (fastforce simp del: set_filter split: if_splits)+
      show "\<exists>x \<in> set (scope_dispatches l ?db). \<exists>b. dr_node_id x = or_node_id r \<and> bound_dispatch l ?db x b \<and> bound_report l ?db r b"
        if "r \<in> set (scope_observations l ?db)" for r
      proof -
        have "r \<in> set (scope_observations l db)" using that by simp
        then obtain x b where x: "x \<in> set (scope_dispatches l db)" "dr_node_id x = or_node_id r" "bound_dispatch l db x b" "bound_report l db r b" using D(3) by blast
        have "x \<in> set (scope_dispatches l ?db)" using x(1) unfolding set by simp
        moreover have "bound_dispatch l ?db x b" using k [OF x(3)] old [OF x(1)] by blast
        moreover have "bound_report l ?db r b" using k [OF x(4)] by simp
        ultimately show ?thesis using x(2) by blast
      qed
    qed
  qed
  ultimately show ?thesis using recorded_events [OF w] by (simp add: fence_inv_def)
qed

lemma fence_inv_observation:
  assumes "fence_inv db" "lease_ok m" "(or_task_id r, or_plan_fingerprint r) = scope_of m" "or_observation_id r \<notin> or_observation_id ` set (cd_observations db)"
    "d \<in> set (scope_dispatches m db)" "dr_node_id d = or_node_id r" "bound_dispatch m db d (binding_of m)"
  shows "fence_inv (recorded m ''OBSERVATION_RECORDED'' ''OBSERVATION'' (or_observation_id r) js sha now (add_observation_row r db))" (is "fence_inv ?db")
proof -
  have w: "writes m ''OBSERVATION_RECORDED'' ''OBSERVATION''" using assms(2) by (simp add: PROTECTED_EVENT_KINDS_def)
  have cong: "binding_after_event l ev s (add_observation_row r db) = binding_after_event l ev s db" "event_bound l (add_observation_row r db) = event_bound l db" for l ev s
    by (rule bindings_cong; simp)+
  have "fenced_events l (add_observation_row r db)" for l using fence_invD(1) [OF assms(1), of l] by (simp add: fenced_events_def cong)
  moreover have "bound_rows l ?db" for l
  proof -
    note D = bound_rowsD [OF fence_invD(2) [OF assms(1), of l]]
    have k: "binding_after_event l ev s ?db = Inr b" if "binding_after_event l ev s db = Inr b" "ev \<noteq> ''OBSERVATION_RECORDED'' \<or> s \<noteq> or_observation_id r" for ev s b
      using recorded_binding_kept [OF w, of l ev s "add_observation_row r db" b] that unfolding cong by blast
    have set: "scope_dispatches l ?db = scope_dispatches l db" by simp
    show ?thesis
    proof (rule bound_rowsI; unfold set)
      show "inj_on dr_node_id (set (scope_dispatches l db))" by (rule D(1))
      show "\<exists>b. bound_dispatch l ?db x b" if "x \<in> set (scope_dispatches l db)" for x using D(2) [OF that] k by blast
      show "\<exists>x \<in> set (scope_dispatches l db). \<exists>b. dr_node_id x = or_node_id u \<and> bound_dispatch l ?db x b \<and> bound_report l ?db u b"
        if "u \<in> set (scope_observations l ?db)" for u
      proof (cases "u \<in> set (cd_observations db)")
        case True
        then have "u \<in> set (scope_observations l db)" using that by (auto split: if_splits)
        then obtain x b where x: "x \<in> set (scope_dispatches l db)" "dr_node_id x = or_node_id u" "bound_dispatch l db x b" "bound_report l db u b" using D(3) by blast
        have "or_observation_id u \<noteq> or_observation_id r" using True assms(4) by (metis imageI)
        with k [OF x(4)] have "bound_report l ?db u b" by blast
        moreover have "bound_dispatch l ?db x b" using k [OF x(3)] by simp
        ultimately show ?thesis using x(1,2) by blast
      next
        case False
        with that have u: "u = r" "scope_of l = scope_of m" using assms(3) by (auto split: if_splits)
        have "bound_dispatch l db d (binding_of m)" using assms(7) unfolding binding_scope [OF u(2)] .
        then have "bound_dispatch l ?db d (binding_of m)" using k by simp
        moreover have "bound_report l ?db r (binding_of m)" using recorded_binding_new [OF w u(2)] by blast
        moreover have "d \<in> set (scope_dispatches l db)" using assms(5) u(2) by simp
        ultimately show ?thesis using assms(6) u(1) by blast
      qed
    qed
  qed
  ultimately show ?thesis using recorded_events [OF w] by (simp add: fence_inv_def)
qed

end
