(* ===== verification/Fenced_Writers.thy ===== *)
theory Fenced_Writers
  imports Writer_Fence
begin

text \<open>
  What the writer fence ensures: a fenced recording is a recording of the plain repository with its binding, the
  fenced repository is a log of receipts, and however many writers there are, the bindings verify and only the
  current writer gets through.
\<close>

section \<open>A fenced repository is a log of receipts\<close>

lemma fence_event_mirrors: "mirrors A db \<Longrightarrow> mirrors A (fence_event m kind subject now db)"
proof -
  assume m: "mirrors A db"
  have "events_sound (fence_event m kind subject now db)"
    unfolding fence_event_def by (rule append_event_sound [OF mirrorsD(4) [OF m] fence_json_ok])
  moreover have "cancellations a b (fence_event m kind subject now db) = cancellations a b db" for a b
    by (simp add: fence_event_def cancellations_append WRITER_FENCE_EVENT_TYPE_def)
  ultimately show ?thesis using m unfolding mirrors_def by (simp add: fence_event_def)
qed

text \<open>The state of the tables, whatever writers there were.\<close>

definition fenced_logs :: "string set \<Rightarrow> receipts \<Rightarrow> runtime_db \<Rightarrow> bool" where
  "fenced_logs tasks A w \<longleftrightarrow> mirrors A (rd_db w) \<and> tasks \<subseteq> task_ids (cd_store (rd_db w)) \<and> fence_inv (rd_db w) \<and> leases_inv (rd_lease w)"

lemma fenced_logsD:
  assumes "fenced_logs tasks A w"
  shows "mirrors A (rd_db w)" "tasks \<subseteq> task_ids (cd_store (rd_db w))" "fence_inv (rd_db w)" "leases_inv (rd_lease w)"
  using assms by (simp_all add: fenced_logs_def)

lemma fence_inv_tick [simp]: "fence_inv (db\<lparr>cd_tick := k\<rparr>) = fence_inv db" "fence_inv (db\<lparr>cd_store := s\<rparr>) = fence_inv db" "fence_inv (db\<lparr>cd_created := c\<rparr>) = fence_inv db"
  by (rule bound_rows_cong; simp)+

lemma fenced_logs_tick: "fenced_logs tasks A w \<Longrightarrow> fenced_logs tasks A (rd_tick w)"
  by (simp add: fenced_logs_def)

lemma dispatch_at_scope: "dispatch_at task_id pf i db = Some d \<Longrightarrow> d \<in> set (dispatches_of task_id pf db) \<and> dr_node_id d = i"
  by (auto simp: dispatch_at_def find_Some_iff in_set_conv_nth)

lemma dispatch_at_nodes: "dispatch_at task_id pf i db = None \<longleftrightarrow> i \<notin> dr_node_id ` set (dispatches_of task_id pf db)"
  by (auto simp: dispatch_at_def find_None_iff)

text \<open>Each insertion keeps the bindings when it returns.\<close>

lemma insert_dispatch_node: "insert_dispatch t js sha now db = Inr (u, db') \<Longrightarrow> List.find (\<lambda>r. dr_ticket_id r = dt_ticket_id t) (cd_dispatches db) = None \<Longrightarrow>
   dispatch_at (dt_task_id t) (dt_plan_fingerprint t) (dt_node_id t) db = None"
  by (auto simp: insert_dispatch_def bindE_Inr_iff split: if_splits)

text \<open>What a fenced recording leaves behind, next to the unfenced recording that ends in \<open>db\<close>.\<close>

definition fenced_step :: "runtime_db \<Rightarrow> checkpoint_db \<Rightarrow> runtime_db \<Rightarrow> bool" where
  "fenced_step w db w' \<longleftrightarrow> fence_inv (rd_db w') \<and> rd_lease w' = rd_lease w \<and> rd_reserving w' = rd_reserving w \<and> rd_reservations w' = rd_reservations w
     \<and> cd_store (rd_db w') = cd_store (rd_db w) \<and> cd_created (rd_db w') = cd_created (rd_db w) \<and> (\<forall>A. mirrors A db \<longrightarrow> mirrors A (rd_db w'))"

lemma fenced_step_refl: "fence_inv (rd_db w) \<Longrightarrow> fenced_step w (rd_db w) w"
  by (simp add: fenced_step_def)

lemma fenced_step_recorded:
  assumes "fence_inv (recorded m ev kind subject js sha now db)" "cd_store db = cd_store (rd_db w)" "cd_created db = cd_created (rd_db w)"
  shows "fenced_step w (append_event (wl_task_id m) (wl_plan_fingerprint m) ev subject js sha now db)
    (w\<lparr>rd_db := fence_event m kind subject now (append_event (wl_task_id m) (wl_plan_fingerprint m) ev subject js sha now db)\<rparr>)"
  using assms fence_event_mirrors unfolding fenced_step_def recorded_def [symmetric] by (simp add: recorded_def fence_event_def [symmetric]) (simp add: fence_event_def)

lemma fenced_dispatch_step:
  assumes "fenced_insert_dispatch l t js sha now w = Inr (u, w')" "scope_of l = (dt_task_id t, dt_plan_fingerprint t)" "fence_inv (rd_db w)"
  shows "\<exists>db. insert_dispatch t js sha now (rd_db w) = Inr (u, db) \<and> fenced_step w db w'"
proof -
  let ?d = "dispatch_record t js sha now"
  obtain db where ins: "insert_dispatch t js sha now (rd_db w) = Inr (u, db)" and alt: "db = rd_db w \<and> w' = w
     \<or> List.find (\<lambda>r. dr_ticket_id r = dt_ticket_id t) (cd_dispatches (rd_db w)) = None \<and> lease_ok l
       \<and> db = append_event (dt_task_id t) (dt_plan_fingerprint t) ''DISPATCH_RECORDED'' (dt_ticket_id t) js sha now (add_dispatch_row ?d (rd_db w))
       \<and> w' = w\<lparr>rd_db := fence_event l ''DISPATCH'' (dt_ticket_id t) now db\<rparr>"
    using dispatch_plain [OF assms(1,2)] by blast
  from alt have "fenced_step w db w'"
  proof (elim disjE conjE)
    assume db: "List.find (\<lambda>r. dr_ticket_id r = dt_ticket_id t) (cd_dispatches (rd_db w)) = None" "lease_ok l"
      "db = append_event (dt_task_id t) (dt_plan_fingerprint t) ''DISPATCH_RECORDED'' (dt_ticket_id t) js sha now (add_dispatch_row ?d (rd_db w))"
      "w' = w\<lparr>rd_db := fence_event l ''DISPATCH'' (dt_ticket_id t) now db\<rparr>"
    have "dr_ticket_id ?d \<notin> dr_ticket_id ` set (cd_dispatches (rd_db w))" using db(1) by (simp add: find_None_image dispatch_record_def)
    moreover have "dr_node_id ?d \<notin> dr_node_id ` set (scope_dispatches l (rd_db w))"
      using insert_dispatch_node [OF ins db(1)] assms(2) unfolding dispatch_at_nodes by (simp add: dispatch_record_def)
    ultimately have "fence_inv (recorded l ''DISPATCH_RECORDED'' ''DISPATCH'' (dr_ticket_id ?d) js sha now (add_dispatch_row ?d (rd_db w)))"
      using assms(2) by (intro fence_inv_dispatch [OF assms(3) db(2)]) (simp_all add: dispatch_record_def)
    from fenced_step_recorded [OF this, of w] assms(2) show ?thesis unfolding db(3,4) by (simp add: dispatch_record_def)
  qed (simp add: fenced_step_refl assms(3))
  with ins show ?thesis by blast
qed

lemma fenced_observation_step:
  assumes "fenced_insert_observation l b js sha now w = Inr (u, w')" "scope_of l = (ob_task_id b, ob_plan_fingerprint b)" "fence_inv (rd_db w)"
  shows "\<exists>db. insert_observation b js sha now (rd_db w) = Inr (u, db) \<and> fenced_step w db w'"
proof -
  let ?r = "observation_record b js sha now"
  obtain dr db where ins: "insert_observation b js sha now (rd_db w) = Inr (u, db)"
     and dr: "dispatch_at (ob_task_id b) (ob_plan_fingerprint b) (ob_node_id b) (rd_db w) = Some dr" "require_binding l ''DISPATCH_RECORDED'' (dr_ticket_id dr) (rd_db w) = Inr (binding_of l)"
     and alt: "db = rd_db w \<and> w' = w
     \<or> List.find (\<lambda>r. or_observation_id r = ob_observation_id b) (cd_observations (rd_db w)) = None \<and> lease_ok l
       \<and> db = append_event (ob_task_id b) (ob_plan_fingerprint b) ''OBSERVATION_RECORDED'' (ob_observation_id b) js sha now (add_observation_row ?r (rd_db w))
       \<and> w' = w\<lparr>rd_db := fence_event l ''OBSERVATION'' (ob_observation_id b) now db\<rparr>"
    using observation_plain [OF assms(1,2)] by blast
  from alt have "fenced_step w db w'"
  proof (elim disjE conjE)
    assume db: "List.find (\<lambda>r. or_observation_id r = ob_observation_id b) (cd_observations (rd_db w)) = None" "lease_ok l"
      "db = append_event (ob_task_id b) (ob_plan_fingerprint b) ''OBSERVATION_RECORDED'' (ob_observation_id b) js sha now (add_observation_row ?r (rd_db w))"
      "w' = w\<lparr>rd_db := fence_event l ''OBSERVATION'' (ob_observation_id b) now db\<rparr>"
    have "or_observation_id ?r \<notin> or_observation_id ` set (cd_observations (rd_db w))" using db(1) by (simp add: find_None_image observation_record_def)
    moreover have "dr \<in> set (scope_dispatches l (rd_db w))" "dr_node_id dr = or_node_id ?r"
      using dispatch_at_scope [OF dr(1)] assms(2) by (simp_all add: observation_record_def)
    moreover have "bound_dispatch l (rd_db w) dr (binding_of l)" using dr(2) by (auto simp: require_binding_def bindE_Inr_iff split: if_splits)
    ultimately have "fence_inv (recorded l ''OBSERVATION_RECORDED'' ''OBSERVATION'' (or_observation_id ?r) js sha now (add_observation_row ?r (rd_db w)))"
      using assms(2) by (intro fence_inv_observation [OF assms(3) db(2)]) (simp_all add: observation_record_def)
    from fenced_step_recorded [OF this, of w] assms(2) show ?thesis unfolding db(3,4) by (simp add: observation_record_def)
  qed (simp add: fenced_step_refl assms(3))
  with ins show ?thesis by blast
qed

text \<open>A fenced recording that returns is the recording of the plain repository, followed by the event that binds it.\<close>

lemma prepare_cases:
  assumes "prepare m f w = (r, w')"
  obtains x where "m = Inl x" "r = Inl x" "w' = w" | x where "m = Inr x" "f x w = (r, w')"
  using assms by (auto simp: prepare_def split: sum.splits)

lemma connection_plain:
  assumes "connection e f w = (Inr u, w')" "f (de_clock e (cd_tick (rd_db w))) (rd_tick w) = Inr (u, w') \<Longrightarrow>
      \<exists>db. g (utc_now_text (de_clock e (cd_tick (rd_db w)))) (ticked (rd_db w)) = Inr (u, db) \<and> cd_created (rd_db w) \<and> fenced_step (rd_tick w) db w'"
  shows "\<exists>db. transaction e g (rd_db w) = (Inr u, db) \<and> fenced_step (rd_tick w) db w'"
  using assms by (auto elim!: connection_cases simp: transaction_quiet quiet_def)

lemma fenced_dispatch_refines:
  assumes "fenced_record_dispatch e l t w = (Inr u, w')" "fence_inv (rd_db w)"
  shows "\<exists>db. record_dispatch e t (rd_db w) = (Inr u, db) \<and> fenced_step (rd_tick w) db w'"
proof -
  obtain js sha where p: "scope_of l = (dt_task_id t, dt_plan_fingerprint t)" "payload_texts (dispatch_payload t) = Inr (js, sha)"
      "connection e (\<lambda>now. fenced_insert_dispatch l t js sha (utc_now_text now)) w = (Inr u, w')"
    using assms(1) unfolding fenced_record_dispatch_def by (auto elim!: prepare_cases simp: fenced_def bindE_Inr_iff)
  have "\<exists>db. transaction e (insert_dispatch t js sha) (rd_db w) = (Inr u, db) \<and> fenced_step (rd_tick w) db w'"
    using fenced_dispatch_step [OF _ p(1), of js sha _ "rd_tick w" u w'] dispatch_plain [OF _ p(1), of js sha _ "rd_tick w" u w'] assms(2)
    by (intro connection_plain [OF p(3)]) auto
  then show ?thesis using p(2) by (simp add: record_dispatch_def prepared_def)
qed

lemma fenced_observation_refines:
  assumes "fenced_record_observation e l b w = (Inr u, w')" "fence_inv (rd_db w)"
  shows "\<exists>db. record_observation e b (rd_db w) = (Inr u, db) \<and> fenced_step (rd_tick w) db w'"
proof -
  obtain v js sha where p: "observation_validate b None None = Inr v" "scope_of l = (ob_task_id b, ob_plan_fingerprint b)" "payload_texts (observation_canonical b) = Inr (js, sha)"
      "connection e (\<lambda>now. fenced_insert_observation l b js sha (utc_now_text now)) w = (Inr u, w')"
    using assms(1) unfolding fenced_record_observation_def by (auto elim!: prepare_cases simp: fenced_def bindE_Inr_iff)
  have "\<exists>db. transaction e (insert_observation b js sha) (rd_db w) = (Inr u, db) \<and> fenced_step (rd_tick w) db w'"
    using fenced_observation_step [OF _ p(2), of js sha _ "rd_tick w" u w'] observation_plain [OF _ p(2), of js sha _ "rd_tick w" u w'] assms(2)
    by (intro connection_plain [OF p(4)]) auto
  then show ?thesis using p(1,3) by (simp add: record_observation_def prepared_def)
qed

lemma fenced_cancellation_mirrors:
  assumes "fenced_record_cancellation e l task_id pf reason w = (Inr u, w')" "fence_inv (rd_db w)" "mirrors A (rd_db w)"
  shows "\<exists>db. fenced_step (rd_tick w) db w' \<and> (mirrors A db \<or> mirrors (push_reason task_id pf (strip reason) A) db)"
proof -
  let ?j = "reason_json (strip reason)" and ?now = "utc_now_text (de_clock e (cd_tick (rd_db w)))"
  have p: "scope_of l = (task_id, pf)" "strip reason \<noteq> []"
      "connection e (\<lambda>now. fenced_insert_cancellation l task_id pf (dumps ?j) (digest ?j) (utc_now_text now)) w = (Inr u, w')"
    using assms(1) unfolding fenced_record_cancellation_def
    by (auto elim!: prepare_cases simp: payload_texts_iff bindE_Inr_iff split: if_splits simp del: dumps.simps)
  let ?db = "append_event task_id pf ''CANCELLED'' task_id (dumps ?j) (digest ?j) ?now (rd_db (rd_tick w))"
  have "fenced_insert_cancellation l task_id pf (dumps ?j) (digest ?j) ?now (rd_tick w) = Inr (u, w')" using p(3) by (auto elim!: connection_cases)
  then consider "w' = rd_tick w" | "lease_ok l" "w' = (rd_tick w)\<lparr>rd_db := fence_event l ''CANCELLATION'' task_id ?now ?db\<rparr>"
    by (auto simp: fenced_insert_cancellation_def bindE_Inr_iff append_fence_iff split: if_splits simp del: rd_tick_simps dumps.simps)
  then show ?thesis
  proof cases
    case 1
    with assms(2,3) fenced_step_refl [of "rd_tick w"] show ?thesis by auto
  next
    case 2
    have "fence_inv (recorded l ''CANCELLED'' ''CANCELLATION'' task_id (dumps ?j) (digest ?j) ?now (rd_db (rd_tick w)))"
      using assms(2) 2(1) by (intro fence_inv_event) (simp_all add: PROTECTED_EVENT_KINDS_def)
    from fenced_step_recorded [OF this, of "rd_tick w"] have "fenced_step (rd_tick w) ?db w'" using p(1) by (simp add: 2(2) del: dumps.simps)
    moreover have "mirrors (push_reason task_id pf (strip reason) A) ?db"
      using assms(3) p(2) by (intro push_reason_mirrors) simp_all
    ultimately show ?thesis by blast
  qed
qed

lemma fenced_step_logs:
  assumes "fenced_step (rd_tick w) db w'" "fenced_logs tasks A w" "mirrors B db"
  shows "fenced_logs tasks B w'"
  using assms by (simp add: fenced_step_def fenced_logs_def)

lemma call_error_world:
  assumes "prepare m (\<lambda>x. connection e (f x)) w = (Inl x, w')" "fenced_logs tasks A w"
  shows "fenced_logs tasks A w'"
  using assms(1) by (rule prepare_cases) (use assms(2) fenced_logs_tick in \<open>auto elim!: connection_cases\<close>)

lemma fenced_dispatch_logs:
  assumes "fenced_logs tasks A w" "fenced_record_dispatch e l t w = (r, w')"
  shows "(\<exists>x. r = Inl x) \<and> fenced_logs tasks A w' \<or> r = Inr t \<and> fenced_logs tasks (add_ticket t A) w'"
proof (cases r)
  case (Inl x)
  with assms call_error_world [of _ e "\<lambda>(js, sha) now. fenced_insert_dispatch l t js sha (utc_now_text now)"] show ?thesis
    unfolding fenced_record_dispatch_def by (simp add: case_prod_unfold)
next
  case (Inr u)
  with assms(2) fenced_dispatch_refines [of e l t w u w'] fenced_logsD [OF assms(1)]
  obtain db where db: "record_dispatch e t (rd_db w) = (Inr u, db)" "fenced_step (rd_tick w) db w'" by blast
  from record_dispatch_mirrors(1) [OF fenced_logsD(1) [OF assms(1)] db(1)] fenced_step_logs [OF db(2) assms(1)] Inr show ?thesis by auto
qed

lemma fenced_observation_logs:
  assumes "fenced_logs tasks A w" "genuine b" "fenced_record_observation e l b w = (r, w')"
  shows "(\<exists>x. r = Inl x) \<and> fenced_logs tasks A w' \<or> r = Inr b \<and> fenced_logs tasks (add_observation b A) w'"
proof (cases r)
  case (Inl x)
  with assms(1,3) call_error_world [of _ e "\<lambda>(js, sha) now. fenced_insert_observation l b js sha (utc_now_text now)"] show ?thesis
    unfolding fenced_record_observation_def by (simp add: case_prod_unfold)
next
  case (Inr u)
  with assms(3) fenced_observation_refines [of e l b w u w'] fenced_logsD [OF assms(1)]
  obtain db where db: "record_observation e b (rd_db w) = (Inr u, db)" "fenced_step (rd_tick w) db w'" by blast
  from record_observation_mirrors(1) [OF fenced_logsD(1) [OF assms(1)] db(1) assms(2)] fenced_step_logs [OF db(2) assms(1)] Inr show ?thesis by auto
qed

lemma fenced_cancellation_logs:
  assumes "fenced_logs tasks A w" "fenced_record_cancellation e l task_id pf reason w = (r, w')"
  shows "\<exists>B. fenced_logs tasks B w' \<and> rc_tickets B = rc_tickets A \<and> rc_observations B = rc_observations A"
proof (cases r)
  case (Inl x)
  with assms call_error_world [of _ e "\<lambda>(js, sha) now. fenced_insert_cancellation l task_id pf js sha (utc_now_text now)"] show ?thesis
    unfolding fenced_record_cancellation_def case_prod_unfold by blast
next
  case (Inr u)
  with assms fenced_cancellation_mirrors [of e l task_id pf reason w u w' A] fenced_logsD [OF assms(1)] obtain db where
    db: "fenced_step (rd_tick w) db w'" "mirrors A db \<or> mirrors (push_reason task_id pf (strip reason) A) db" by auto
  from db(2) fenced_step_logs [OF db(1) assms(1)] push_reason_rows show ?thesis by metis
qed

lemma on_db_initialize:
  assumes "on_db (cp_initialize e) w = (r, w')"
  shows "\<exists>db. cp_initialize e (rd_db w) = (r, db) \<and> w' = w\<lparr>rd_db := db\<rparr>"
  using assms by (auto simp: on_db_def split: prod.splits)

lemma fence_inv_initialize: "cp_initialize e db = (r, db') \<Longrightarrow> fence_inv db' = fence_inv db"
  by (auto simp: cp_initialize_def Let_def split: option.splits)

lemma leases_inv_created [simp]: "leases_inv (d\<lparr>ld_created := c\<rparr>) = leases_inv d"
  by (simp add: leases_inv_def)

lemma lease_initialize_logs: "fenced_logs tasks A w \<Longrightarrow> lease_initialize e w = (r, w') \<Longrightarrow> fenced_logs tasks A w'"
  by (auto simp: lease_initialize_def fenced_logs_def elim!: connection_cases)

lemma cp_initialize_logs: "fenced_logs tasks A w \<Longrightarrow> on_db (cp_initialize e) w = (r, w') \<Longrightarrow> fenced_logs tasks A w'"
  using fence_inv_initialize initialize_mirrors(1,2) by (auto dest!: on_db_initialize simp: fenced_logs_def)

lemma fenced_initialize_logs:
  assumes "fenced_logs tasks A w" "fenced_initialize e l w = (r, w')"
  shows "fenced_logs tasks A w'"
proof -
  have k: "fenced_logs tasks A (snd (on_db (cp_initialize e) v))" "fenced_logs tasks A (snd (lease_initialize e v))" if "fenced_logs tasks A v" for v
    using cp_initialize_logs [OF that] lease_initialize_logs [OF that] by (metis prod.collapse)+
  have "fenced_logs tasks A (snd (fenced_initialize e l w))"
    unfolding fenced_initialize_def by (intro bindA_keeps [where P = "fenced_logs tasks A"] assms(1) k) (simp_all add: readA_def)
  with assms(2) show ?thesis by simp
qed

lemma fenced_load_recovered: "fenced_logs tasks A w \<Longrightarrow> fenced_load e l task_id pf w = Inr r \<Longrightarrow> r = recovered A task_id pf"
  using fenced_logsD(1) [of tasks A w] load_recovered [of A "rd_db w" e task_id pf r] unfolding fenced_load_def by (auto simp: bindE_Inr_iff split: if_splits)

interpretation fenced: receipt_repository "fenced_repository e l" "fenced_logs tasks" for e l tasks
proof unfold_locales
  show "wf_receipts A" if "fenced_logs tasks A w" for A w by (rule mirrorsD(9) [OF fenced_logsD(1) [OF that]])
qed (unfold fenced_repository_def repository.simps; rule fenced_initialize_logs fenced_dispatch_logs fenced_observation_logs fenced_cancellation_logs
  fenced_load_recovered; assumption)+

section \<open>Writers at work\<close>

text \<open>Any number of processes: recordings, claims, releases and initialisations with any arguments and outcome, and other parties
  on the tables of the task store.\<close>

inductive fence_use :: "runtime_db \<Rightarrow> runtime_db \<Rightarrow> bool" where
  dispatching: "fenced_record_dispatch e l t w = (r, w') \<Longrightarrow> fence_use w w'"
| observing: "fenced_record_observation e l b w = (r, w') \<Longrightarrow> genuine b \<Longrightarrow> fence_use w w'"
| cancelling: "fenced_record_cancellation e l task_id pf reason w = (r, w') \<Longrightarrow> fence_use w w'"
| claiming: "claim e task_id pf run_id issued_at w = (r, w') \<Longrightarrow> fence_use w w'"
| releasing: "release e l released_at w = (r, w') \<Longrightarrow> fence_use w w'"
| initializing: "fenced_initialize e l w = (r, w') \<Longrightarrow> fence_use w w'"
| storing: "other_party (rd_db w) db \<Longrightarrow> fence_use w (w\<lparr>rd_db := db\<rparr>)"

abbreviation fence_run :: "runtime_db \<Rightarrow> runtime_db \<Rightarrow> bool" where
  "fence_run \<equiv> fence_use\<^sup>*\<^sup>*"

lemma lease_call_db:
  "claim e task_id pf run_id issued_at w = (r, w') \<Longrightarrow> rd_db w' = rd_db w \<or> rd_db w' = ticked (rd_db w)"
  "release e l released_at w = (q, w') \<Longrightarrow> rd_db w' = rd_db w \<or> rd_db w' = ticked (rd_db w)"
  by (auto simp: claim_def release_def on_lease_iff elim!: connection_cases split: sum.splits)

lemma lease_call_logs:
  assumes "fenced_logs tasks A w" "rd_db w' = rd_db w \<or> rd_db w' = ticked (rd_db w)" "advances (rd_lease w) (rd_lease w')"
  shows "fenced_logs tasks A w'"
  using assms by (auto simp: fenced_logs_def advances_def)

lemma other_party_logs:
  assumes "fenced_logs tasks A w" "other_party (rd_db w) db"
  shows "fenced_logs tasks A (w\<lparr>rd_db := db\<rparr>)"
proof -
  from assms(2) obtain x k where "db = (rd_db w)\<lparr>cd_store := store_step (cd_store (rd_db w)) x, cd_tick := k\<rparr>" by (auto simp: other_party_def)
  with assms(1) store_step_tasks [of "cd_store (rd_db w)" x] show ?thesis by (auto simp: fenced_logs_def mirrors_store)
qed

lemma fence_use_logs:
  assumes "fence_use w w'" "fenced_logs tasks A w"
  shows "\<exists>B. fenced_logs tasks B w'"
  using assms
proof (induction rule: fence_use.induct)
  case (claiming e task_id pf run_id issued_at w r w')
  from lease_call_logs [OF claiming(2) lease_call_db(1) [OF claiming(1)] claim_world [OF fenced_logsD(4) [OF claiming(2)] claiming(1)]] show ?case ..
next
  case (releasing e l released_at w r w')
  from lease_call_logs [OF releasing(2) lease_call_db(2) [OF releasing(1)] release_world [OF fenced_logsD(4) [OF releasing(2)] releasing(1)]] show ?case ..
next
  case (dispatching e l t w r w')
  from fenced_dispatch_logs [OF dispatching(2,1)] show ?case by blast
next
  case (observing e l b w r w')
  from fenced_observation_logs [OF observing(3,2,1)] show ?case by blast
next
  case (cancelling e l task_id pf reason w r w')
  from fenced_cancellation_logs [OF cancelling(2,1)] show ?case by blast
qed (blast intro: fenced_initialize_logs other_party_logs)+

text \<open>Recordings leave the leases alone.\<close>

lemma recording_leases:
  assumes "prepare m (\<lambda>x. connection e (f x)) w = (r, w')" "\<And>x now v u v'. f x now v = Inr (u, v') \<Longrightarrow> rd_lease v' = rd_lease v"
  shows "rd_lease w' = rd_lease w"
  using assms(1) by (rule prepare_cases) (use assms(2) in \<open>auto elim!: connection_cases\<close>)

lemma fenced_recordings_leases:
  "fenced_record_dispatch e l t w = (r, w') \<Longrightarrow> rd_lease w' = rd_lease w"
  "fenced_record_observation e l b w = (q, w') \<Longrightarrow> rd_lease w' = rd_lease w"
  "fenced_record_cancellation e l task_id pf reason w = (s, w') \<Longrightarrow> rd_lease w' = rd_lease w"
  unfolding fenced_record_dispatch_def fenced_record_observation_def fenced_record_cancellation_def case_prod_unfold
  by (erule recording_leases;
    auto simp: fenced_insert_dispatch_def fenced_insert_observation_def fenced_insert_cancellation_def write_dispatch_def write_observation_def bindE_Inr_iff
      split: option.splits if_splits)+

lemma fence_use_advances:
  assumes "fence_use w w'" "leases_inv (rd_lease w)"
  shows "advances (rd_lease w) (rd_lease w')"
  using assms
proof (induction rule: fence_use.induct)
  case (initializing e l w r w')
  have "rd_lease w' = rd_lease w \<or> rd_lease w' = (rd_lease w)\<lparr>ld_created := True\<rparr>"
    using initializing(1) unfolding fenced_initialize_def
    by (auto simp: bindA_def lease_initialize_def on_db_def readA_def elim!: connection_cases split: prod.splits sum.splits)
  moreover have "advances d (d\<lparr>ld_created := True\<rparr>)" if "leases_inv d" for d
    using advances_refl [OF that] by (simp add: advances_def leases_inv_def holder_def)
  ultimately show ?case using advances_refl [OF initializing(2)] initializing(2) by auto
qed (simp_all add: claim_world release_world fenced_recordings_leases advances_refl)

lemma fence_run_keeps:
  assumes "fence_run w w'" "fenced_logs tasks A w"
  shows "(\<exists>B. fenced_logs tasks B w') \<and> advances (rd_lease w) (rd_lease w')"
  using assms
proof (induction rule: rtranclp_induct)
  case base
  then show ?case using advances_refl [OF fenced_logsD(4)] by blast
next
  case (step y z)
  then obtain B where B: "fenced_logs tasks B y" "advances (rd_lease w) (rd_lease y)" by blast
  from fence_use_logs [OF step.hyps(2) B(1)] fence_use_advances [OF step.hyps(2) fenced_logsD(4) [OF B(1)]] B(2) advances_trans show ?case by blast
qed

text \<open>Tables that were just created.\<close>

definition empty_tables :: "runtime_db \<Rightarrow> bool" where
  "empty_tables w \<longleftrightarrow> cd_dispatches (rd_db w) = [] \<and> cd_observations (rd_db w) = [] \<and> cd_events (rd_db w) = []
     \<and> ld_leases (rd_lease w) = Map.empty \<and> ld_events (rd_lease w) = []"

lemma empty_fenced: "empty_tables w \<Longrightarrow> tasks \<subseteq> task_ids (cd_store (rd_db w)) \<Longrightarrow> fenced_logs tasks no_receipts w"
  by (simp add: empty_tables_def fenced_logs_def no_leases no_receipts_mirrors fence_inv_def fenced_events_def bound_rows_def)

text \<open>Only the current writer gets through.\<close>

lemma fenced_needs_writer:
  "fenced_record_dispatch e l t w = (Inr u, w') \<Longrightarrow> \<exists>c. require_current_in_transaction l (rd_lease w) = Inr c"
  "fenced_record_observation e l b w = (Inr v, w') \<Longrightarrow> \<exists>c. require_current_in_transaction l (rd_lease w) = Inr c"
  "fenced_record_cancellation e l task_id pf reason w = (Inr x, w') \<Longrightarrow> \<exists>c. require_current_in_transaction l (rd_lease w) = Inr c"
  "fenced_load e l task_id pf w = Inr y \<Longrightarrow> \<exists>c. require_current_in_transaction l (rd_lease w) = Inr c"
  unfolding fenced_record_dispatch_def fenced_record_observation_def fenced_record_cancellation_def
  by (auto elim!: prepare_cases connection_cases simp: fenced_insert_dispatch_def fenced_insert_observation_def fenced_insert_cancellation_def bindE_Inr_iff)
    (auto simp: fenced_load_def require_current_writer_def require_current_def reading_def bindE_Inr_iff split: option.splits)

definition refused :: "(runtime_db, 'a) action \<Rightarrow> runtime_db \<Rightarrow> bool" where
  "refused m w \<longleftrightarrow> (\<exists>x w'. m w = (Inl x, w') \<and> (w' = w \<or> w' = rd_tick w))"

lemma call_refused:
  assumes "\<And>u w'. prepare m (\<lambda>x. connection e (f x)) w \<noteq> (Inr u, w')"
  shows "refused (prepare m (\<lambda>x. connection e (f x))) w"
proof -
  obtain r w' where r: "prepare m (\<lambda>x. connection e (f x)) w = (r, w')" by fastforce
  from r show ?thesis
    by (rule prepare_cases) (use r assms in \<open>auto simp: refused_def elim!: connection_cases\<close>)
qed

lemma fenced_refused:
  assumes "\<And>c. require_current_in_transaction l (rd_lease w) \<noteq> Inr c"
  shows "refused (fenced_record_dispatch e l t) w" "refused (fenced_record_observation e l b) w" "refused (fenced_record_cancellation e l task_id pf reason) w"
proof -
  have n: "fenced_record_dispatch e l t w \<noteq> (Inr u, w')" "fenced_record_observation e l b w \<noteq> (Inr v, w')"
    "fenced_record_cancellation e l task_id pf reason w \<noteq> (Inr x, w')" for u v x w'
    by (rule notI, drule fenced_needs_writer, use assms in blast)+
  show "refused (fenced_record_dispatch e l t) w"
    using call_refused [OF n(1) [unfolded fenced_record_dispatch_def case_prod_unfold]] unfolding fenced_record_dispatch_def case_prod_unfold .
  show "refused (fenced_record_observation e l b) w"
    using call_refused [OF n(2) [unfolded fenced_record_observation_def case_prod_unfold]] unfolding fenced_record_observation_def case_prod_unfold .
  show "refused (fenced_record_cancellation e l task_id pf reason) w"
    using call_refused [OF n(3) [unfolded fenced_record_cancellation_def case_prod_unfold]] unfolding fenced_record_cancellation_def case_prod_unfold .
qed

section \<open>Properties\<close>

text \<open>C15: the execution history always shows who wrote it. In a database whose runtime tables started empty, after any
  claims, releases and fenced recordings by any writers, with any outcome, the verification of the writer bindings of every task and plan returns
  true whenever the database answers; and every recorded observation stands next to the dispatch of its node, both bound to the same run,
  generation and lease, so no run ever finished a node that another run had dispatched.\<close>

theorem fence_verifies:
  assumes "empty_tables w0" "fence_run w0 w" "de_fault e (cd_tick (rd_db w)) = None" "cd_created (rd_db w)"
  shows "verify_writer_fence_bindings e l w = Inr True
    \<and> (\<forall>r \<in> set (cd_observations (rd_db w)). or_task_id r = wl_task_id l \<and> or_plan_fingerprint r = wl_plan_fingerprint l \<longrightarrow>
        (\<exists>d \<in> set (cd_dispatches (rd_db w)). \<exists>b. dr_task_id d = or_task_id r \<and> dr_plan_fingerprint d = or_plan_fingerprint r \<and> dr_node_id d = or_node_id r
          \<and> binding_after_event l ''DISPATCH_RECORDED'' (dr_ticket_id d) (rd_db w) = Inr b
          \<and> binding_after_event l ''OBSERVATION_RECORDED'' (or_observation_id r) (rd_db w) = Inr b))"
proof -
  obtain A where A: "fenced_logs {} A w" using fence_run_keeps [OF assms(2) empty_fenced [OF assms(1)], of "{}"] by blast
  have tables: "checkpoint_tables w = Inr ()" using assms(4) by simp
  have "verify_writer_fence_bindings e l w = Inr True"
    unfolding verify_writer_fence_bindings_def reading_def assms(3) option.case tables verify_sound [OF mirrorsD(4) [OF fenced_logsD(1) [OF A]]]
      bindings_check_True [OF fenced_logsD(3) [OF A]] by simp
  moreover note bound_rowsD(3) [OF fence_invD(2) [OF fenced_logsD(3) [OF A], of l]]
  ultimately show ?thesis by fastforce
qed

text \<open>C13: a superseded writer is shut out. After a run received a lease for a task and plan, whatever any process does afterwards, every other lease
  for them of the same or an earlier generation, active or not, can record nothing: dispatches, observations and cancellations are refused with
  the database unchanged, and loading raises; unless the stored lease has the same SHA-256 digest but a different text.\<close>

theorem stale_writer_fenced:
  assumes "empty_tables w0" "fence_run w0 w1" "claim e task_id pf run_id issued_at w1 = (Inr l, w2)" "fence_run w2 w3"
    and "wl_task_id l' = task_id" "wl_plan_fingerprint l' = pf" "l' \<noteq> l" "wl_generation l' \<le> wl_generation l"
  shows "(\<forall>e' t. refused (fenced_record_dispatch e' l' t) w3) \<and> (\<forall>e' b. refused (fenced_record_observation e' l' b) w3)
      \<and> (\<forall>e' task_id pf reason. refused (fenced_record_cancellation e' l' task_id pf reason) w3)
      \<and> (\<forall>e' task_id pf state. fenced_load e' l' task_id pf w3 \<noteq> Inr state)
    \<or> (\<exists>c. holder (rd_lease w3) (task_id, pf) = Some c \<and> dumps (lease_json c) \<noteq> dumps (lease_json l') \<and> sha256_ref (dumps (lease_json c)) = sha256_ref (dumps (lease_json l')))"
proof (cases "\<exists>c. require_current_in_transaction l' (rd_lease w3) = Inr c")
  case False
  with fenced_refused [of l' w3] fenced_needs_writer(4) [of _ l' _ _ w3] show ?thesis by blast
next
  case True
  then obtain c where c: "require_current_in_transaction l' (rd_lease w3) = Inr c" ..
  obtain A where A: "fenced_logs {} A w1" using fence_run_keeps [OF assms(2) empty_fenced [OF assms(1)], of "{}"] by blast
  have w2: "fenced_logs {} A w2"
    by (rule lease_call_logs [OF A lease_call_db(1) [OF assms(3)] claim_world [OF fenced_logsD(4) [OF A] assms(3)]])
  obtain v d where d: "claim_transaction task_id pf run_id v (cd_store (rd_db w1)) (rd_lease w1) = Inr (l, d)" "w2 = (rd_tick w1)\<lparr>rd_lease := d\<rparr>"
    using claim_Inr [OF assms(3)] by blast
  have h: "holder (rd_lease w2) (task_id, pf) = Some l" using claim_spec(2) [OF fenced_logsD(4) [OF A] d(1)] by (simp add: d(2))
  have a: "advances (rd_lease w2) (rd_lease w3)" "leases_inv (rd_lease w3)" using fence_run_keeps [OF assms(4) w2] fenced_logsD(4) by blast+
  from c have C: "holder (rd_lease w3) (task_id, pf) = Some c" "digest (lease_json c) = digest (lease_json l')" "wl_status c = ''ACTIVE''"
    using assms(5,6) by (simp_all add: require_iff [OF a(2)])
  with a(1) h have "succeeds_lease l c" unfolding advances_def by fastforce
  with C(3) have "c = l \<or> wl_generation l < wl_generation c" by (auto simp: succeeds_lease_def)
  with assms(7,8) have "c \<noteq> l'" by auto
  with C(1,2) lease_text_inject [of c l'] show ?thesis by (auto simp: digest_def)
qed

text \<open>A run that claims the demo task, records a dispatch and is then superseded.\<close>

lemma connection_returns: "de_fault e (cd_tick (rd_db w)) = None \<Longrightarrow> f (de_clock e (cd_tick (rd_db w))) (rd_tick w) = Inr (a, w') \<Longrightarrow> connection e f w = (Inr a, w')"
  by (simp add: connection_def)

lemma first_dispatch:
  assumes "leases_inv (rd_lease w)" "holder (rd_lease w) (scope_of l) = Some l" "wl_status l = ''ACTIVE''" "ld_created (rd_lease w)" "ticket_ok t"
    "scope_of l = (dt_task_id t, dt_plan_fingerprint t)" "find_task (cd_store (rd_db w)) (dt_task_id t) \<noteq> None" "cd_created (rd_db w)"
    "cd_dispatches (rd_db w) = []" "sqlite_int (dt_dispatch_sequence t)" "de_fault e (cd_tick (rd_db w)) = None"
  shows "\<exists>w'. fenced_record_dispatch e l t w = (Inr t, w')"
proof -
  let ?js = "dumps (ticket_json t)" and ?sha = "digest (ticket_json t)" and ?now = "utc_now_text (de_clock e (cd_tick (rd_db w)))"
  have "lease_ok l" using holder_row(3) [OF assms(1,2)] by simp
  then have "require_current_in_transaction l (rd_lease w) = Inr l" using assms(2-4) unfolding require_iff [OF assms(1)] by simp
  then have w: "require_writer l (rd_tick w) = Inr l" by simp
  have "\<exists>w'. write_dispatch l t ?js ?sha ?now (rd_tick w) = Inr (t, w')"
    using \<open>lease_ok l\<close> assms(3,10) append_fence_iff [of l "''DISPATCH''" "dt_ticket_id t" ?now]
    by (auto simp: write_dispatch_def bound_events_def bindE_Inr_iff PROTECTED_EVENT_KINDS_def)
  moreover have "require_task (dt_task_id t) (rd_db (rd_tick w)) = Inr ()" "checkpoint_tables (rd_tick w) = Inr ()" using assms(7,8) by simp_all
  ultimately obtain w' where "fenced_insert_dispatch l t ?js ?sha ?now (rd_tick w) = Inr (t, w')"
    using assms(9) unfolding fenced_insert_dispatch_def w by (auto simp: dispatch_at_def simp del: rd_tick_simps(3)) (simp add: dispatch_at_def)
  from connection_returns [of e w "\<lambda>now. fenced_insert_dispatch l t ?js ?sha (utc_now_text now)", OF assms(11) this]
  have "connection e (\<lambda>now. fenced_insert_dispatch l t ?js ?sha (utc_now_text now)) w = (Inr t, w')" .
  moreover have "fenced l (dt_task_id t) (dt_plan_fingerprint t) (dispatch_payload t) = Inr (?js, ?sha)"
    using assms(5,6) by (simp add: fenced_def bindE_Inr_iff payload_texts_iff dispatch_payload_iff)
  ultimately show ?thesis by (simp add: fenced_record_dispatch_def prepare_def)
qed

lemma demo_empty: "empty_tables demo_runtime"
  by (simp add: empty_tables_def demo_runtime_def demo_db_def)

lemma demo_dispatched:
  obtains l w1 w2 where "claim demo_env ''T'' (digest JNull) ''run-a'' None demo_runtime = (Inr l, w1)"
    "fenced_record_dispatch demo_env l demo_ticket w1 = (Inr demo_ticket, w2)" "scope_of l = (''T'', digest JNull)" "wl_generation l = 1"
    "fence_run demo_runtime w2"
proof -
  note F = demo_runtime_facts
  obtain l w1 where l: "claim demo_env ''T'' (digest JNull) ''run-a'' None demo_runtime = (Inr l, w1)"
    using claim_available [of demo_runtime "''T''" "digest JNull" "''run-a''" demo_env] F
    by (auto simp: demo_runtime_def holder_def next_generation_def sqlite_int_def)
  obtain v d where d: "claim_transaction ''T'' (digest JNull) ''run-a'' v (cd_store (rd_db demo_runtime)) (rd_lease demo_runtime) = Inr (l, d)"
      "w1 = (rd_tick demo_runtime)\<lparr>rd_lease := d\<rparr>" using claim_Inr [OF l] by blast
  note S = claim_spec [OF F(1) d(1)]
  have s: "scope_of l = (''T'', digest JNull)" using S(8) by simp
  have g: "wl_generation l = 1" using S(6) by (auto simp: holder_def demo_runtime_def next_generation_def)
  have "\<exists>w2. fenced_record_dispatch demo_env l demo_ticket w1 = (Inr demo_ticket, w2)"
    using S(1,2,3,5) F(2,6) s demo_ticket_fields
    by (intro first_dispatch) (auto simp: d(2) demo_runtime_def demo_db_def sqlite_int_def)
  then obtain w2 where w2: "fenced_record_dispatch demo_env l demo_ticket w1 = (Inr demo_ticket, w2)" ..
  have "fence_run demo_runtime w2" using fence_use.claiming [OF l] fence_use.dispatching [OF w2] by (meson converse_rtranclp_into_rtranclp rtranclp.rtrancl_refl)
  with that l w2 s g show ?thesis by blast
qed

theorem fence_verifies_witness:
  "\<exists>l w. fence_run demo_runtime w \<and> length (cd_dispatches (rd_db w)) = 1 \<and> verify_writer_fence_bindings demo_env l w = Inr True"
proof (rule demo_dispatched)
  fix l w1 w2 assume l: "claim demo_env ''T'' (digest JNull) ''run-a'' None demo_runtime = (Inr l, w1)"
    "fenced_record_dispatch demo_env l demo_ticket w1 = (Inr demo_ticket, w2)" "fence_run demo_runtime w2"
  have w1: "rd_db w1 = ticked demo_db" using claim_Inr [OF l(1)] by (auto simp: demo_runtime_def)
  have A: "fenced_logs {} no_receipts w1"
    using lease_call_logs [OF empty_fenced [OF demo_empty] lease_call_db(1) [OF l(1)] claim_world [OF demo_runtime_facts(1) l(1)], of "{}"] by simp
  from fenced_dispatch_refines [OF l(2) fenced_logsD(3) [OF A]] have "cd_created (rd_db w2)" by (auto simp: fenced_step_def w1 demo_db_def)
  moreover from fenced_dispatch_logs [OF A l(2)] have "fenced_logs {} (add_ticket demo_ticket no_receipts) w2" by simp
  then have "length (cd_dispatches (rd_db w2)) = 1"
    using list_all2_lengthD [OF mirrorsD(1) [OF fenced_logsD(1)]] by (fastforce simp: add_ticket_def no_receipts_def)
  moreover have "de_fault demo_env (cd_tick (rd_db w2)) = None" by (simp add: demo_env_def)
  ultimately show ?thesis using fence_verifies [OF demo_empty l(3), of demo_env l] l(3) by blast
qed

theorem stale_writer_fenced_witness:
  "\<exists>l w1 w2 m w3. claim demo_env ''T'' (digest JNull) ''run-a'' None demo_runtime = (Inr l, w1)
     \<and> fenced_record_dispatch demo_env l demo_ticket w1 = (Inr demo_ticket, w2) \<and> claim demo_env ''T'' (digest JNull) ''run-b'' None w2 = (Inr m, w3)
     \<and> (refused (fenced_record_dispatch demo_env l demo_ticket) w3
       \<or> (\<exists>c. holder (rd_lease w3) (''T'', digest JNull) = Some c \<and> dumps (lease_json c) \<noteq> dumps (lease_json l) \<and> sha256_ref (dumps (lease_json c)) = sha256_ref (dumps (lease_json l))))"
proof (rule demo_dispatched)
  fix l w1 w2 assume l: "claim demo_env ''T'' (digest JNull) ''run-a'' None demo_runtime = (Inr l, w1)"
    "fenced_record_dispatch demo_env l demo_ticket w1 = (Inr demo_ticket, w2)" "scope_of l = (''T'', digest JNull)" "wl_generation l = 1" "fence_run demo_runtime w2"
  note F = demo_runtime_facts
  obtain v d where d: "claim_transaction ''T'' (digest JNull) ''run-a'' v (cd_store (rd_db demo_runtime)) (rd_lease demo_runtime) = Inr (l, d)"
      "w1 = (rd_tick demo_runtime)\<lparr>rd_lease := d\<rparr>" using claim_Inr [OF l(1)] by blast
  note S = claim_spec [OF F(1) d(1)]
  have w2: "rd_lease w2 = d" using fenced_recordings_leases(1) [OF l(2)] by (simp add: d(2))
  have A: "fenced_logs {} no_receipts w1"
    using lease_call_logs [OF empty_fenced [OF demo_empty] lease_call_db(1) [OF l(1)] claim_world [OF F(1) l(1)], of "{}"] by simp
  from fenced_dispatch_refines [OF l(2) fenced_logsD(3) [OF A]] have "cd_store (rd_db w2) = cd_store (rd_db demo_runtime)"
    by (auto simp: fenced_step_def d(2))
  then obtain m w3 where m: "claim demo_env ''T'' (digest JNull) ''run-b'' None w2 = (Inr m, w3)"
    using claim_available [of w2 "''T''" "digest JNull" "''run-b''" demo_env] F S(1,2,5) l(4)
    by (auto simp: w2 next_generation_def sqlite_int_def demo_runtime_def)
  obtain v' d' where "claim_transaction ''T'' (digest JNull) ''run-b'' v' (cd_store (rd_db w2)) d = Inr (m, d')" using claim_Inr [OF m] unfolding w2 by blast
  from claim_spec(4,6) [OF S(1) this] S(2,4) have "l \<noteq> m" "wl_generation l \<le> wl_generation m" by (auto simp: next_generation_def)
  with stale_writer_fenced [OF demo_empty l(5) m rtranclp.rtrancl_refl, of l] l(3) have "refused (fenced_record_dispatch demo_env l demo_ticket) w3
      \<or> (\<exists>c. holder (rd_lease w3) (''T'', digest JNull) = Some c \<and> dumps (lease_json c) \<noteq> dumps (lease_json l) \<and> sha256_ref (dumps (lease_json c)) = sha256_ref (dumps (lease_json l)))" by auto
  with l m show ?thesis by blast
qed

end
