(* ===== verification/Dispatch_Budget.thy ===== *)
theory Dispatch_Budget
  imports Fenced_Writers
begin

text \<open>
  Model of \<open>src/three_agent/execution_dispatch_budget.py\<close>: one step of the task's execution budget for every dispatched
  node. The step is charged in the transaction that records the dispatch, together with a reservation that says for which
  node it was; the scheduler only checks beforehand that a step is left. All times read during one transaction are its
  start. Stored deadlines carry their zone, as the task store writes them.
\<close>

section \<open>Reservations\<close>

abbreviation BE :: exc_class where "BE \<equiv> ExecutionDispatchBudgetError"

definition EXECUTION_DISPATCH_BUDGET_SCHEMA :: string where
  "EXECUTION_DISPATCH_BUDGET_SCHEMA = ''workspace-execution-dispatch-budget/v1''"

definition reservation_json :: "dispatch_ticket \<Rightarrow> json" where
  "reservation_json t = JObj [(''schema_version'', JStr EXECUTION_DISPATCH_BUDGET_SCHEMA), (''task_id'', JStr (dt_task_id t)),
     (''plan_fingerprint'', JStr (dt_plan_fingerprint t)), (''node_id'', JStr (dt_node_id t)), (''node_fingerprint'', JStr (dt_node_fingerprint t)),
     (''authority_fingerprint'', JStr (dt_authority_fingerprint t)), (''steps'', JInt 1)]"

definition reservation_payload :: "dispatch_ticket \<Rightarrow> json result" where
  "reservation_payload t = bindE (ticket_validate t) (\<lambda>_. Inr (reservation_json t))"

definition reservation_id :: "json \<Rightarrow> string" where
  "reservation_id p = ''dispatch-budget:'' @ take 24 (drop 7 (digest p))"

record reservation =
  rsv_reservation_id :: string
  rsv_task_id :: string
  rsv_plan_fingerprint :: string
  rsv_node_id :: string
  rsv_node_fingerprint :: string
  rsv_authority_fingerprint :: string
  rsv_steps :: int
  rsv_fingerprint :: string
  rsv_reserved_at :: string
  rsv_schema_version :: string

definition reservation_of :: "dispatch_ticket \<Rightarrow> string \<Rightarrow> string \<Rightarrow> string \<Rightarrow> reservation" where
  "reservation_of t i  sha stamp = \<lparr>rsv_reservation_id = i, rsv_task_id = dt_task_id t, rsv_plan_fingerprint = dt_plan_fingerprint t, rsv_node_id = dt_node_id t,
     rsv_node_fingerprint = dt_node_fingerprint t, rsv_authority_fingerprint = dt_authority_fingerprint t, rsv_steps = 1, rsv_fingerprint = sha,
     rsv_reserved_at = stamp, rsv_schema_version = EXECUTION_DISPATCH_BUDGET_SCHEMA\<rparr>"

section \<open>The controller\<close>

text \<open>Both stores are opened from one path, which the constructor compares.\<close>

definition controller_checks :: "string \<Rightarrow> budget_state \<Rightarrow> unit result" where
  "controller_checks db_path st = fail_if BE (db_path \<noteq> bs_db_path st) ''DISPATCH_BUDGET_STORE_MISMATCH''"

definition controller_initialize :: "db_env \<Rightarrow> (runtime_db, unit) action" where
  "controller_initialize e = connection e (\<lambda>now w. Inr ((), w\<lparr>rd_reserving := True\<rparr>))"

definition budget_snapshot :: "db_env \<Rightarrow> budget_state \<Rightarrow> runtime_db \<Rightarrow> budget_row result" where
  "budget_snapshot e st = reading e (\<lambda>w. task_execution_budget_for_task (bs_task_id st) (cd_store (rd_db w)))"

definition controller_assert_active :: "db_env \<Rightarrow> budget_state \<Rightarrow> (runtime_db, unit) action" where
  "controller_assert_active e st = on_db (budget_call e (\<lambda>locks clock. assert_active locks clock st))"

definition assert_dispatch_step_available :: "db_env \<Rightarrow> budget_state \<Rightarrow> (runtime_db, unit) action" where
  "assert_dispatch_step_available e st = bindA (controller_assert_active e st) (\<lambda>_. readA (\<lambda>w. bindE (budget_snapshot e st w) (\<lambda>row.
     fail_if ExecutionBudgetExceeded (bu_max_steps row < bu_steps_used row + 1) ''TASK_STEP_BUDGET_EXHAUSTED'')))"

definition dispatch_deadline_expired :: "stamp \<Rightarrow> int \<Rightarrow> bool result" where
  "dispatch_deadline_expired deadline_at now =
     bindE (reraise is_value_error BE ''TASK_EXECUTION_BUDGET_DEADLINE_INVALID'' (parse_stamp deadline_at)) (\<lambda>d. Inr (d \<le> now))"

definition require_budget_scope :: "budget_state \<Rightarrow> dispatch_ticket \<Rightarrow> unit result" where
  "require_budget_scope st t = fail_if BE (dt_task_id t \<noteq> bs_task_id st) ''DISPATCH_BUDGET_TASK_SCOPE_MISMATCH''"

definition select_reservation :: "dispatch_ticket \<Rightarrow> runtime_db \<Rightarrow> reservation_row option result" where
  "select_reservation t w = (if rd_reserving w then Inr (List.find (\<lambda>r. rr_task_id r = dt_task_id t \<and> rr_plan_fingerprint r = dt_plan_fingerprint t
       \<and> rr_node_id r = dt_node_id t) (rd_reservations w))
     else raise OperationalError ''no such table: execution_dispatch_budget_reservations'')"

definition reservation_record :: "dispatch_ticket \<Rightarrow> string \<Rightarrow> string \<Rightarrow> string \<Rightarrow> reservation_row" where
  "reservation_record t js  sha stamp = \<lparr>rr_reservation_id = reservation_id (reservation_json t), rr_task_id = dt_task_id t,
     rr_plan_fingerprint = dt_plan_fingerprint t, rr_node_id = dt_node_id t, rr_reservation_json = js, rr_reservation_sha256 = sha, rr_reserved_at = stamp\<rparr>"

text \<open>The two statements that charge the step: the budget row is updated and the reservation inserted.\<close>

definition charge_step :: "dispatch_ticket \<Rightarrow> string \<Rightarrow> string \<Rightarrow> int \<Rightarrow> budget_row \<Rightarrow> runtime_db \<Rightarrow> (reservation \<times> runtime_db) result" where
  "charge_step t js sha now row w = (let i = reservation_id (reservation_json t); stamp = utc_now_text now in
     if i \<in> rr_reservation_id ` set (rd_reservations w) then raise IntegrityError ''UNIQUE constraint failed: execution_dispatch_budget_reservations.reservation_id''
     else Inr (reservation_of t i sha stamp,
       w\<lparr>rd_db := (rd_db w)\<lparr>cd_store := put_budget (dt_task_id t) (row\<lparr>bu_steps_used := bu_steps_used row + 1, bu_updated_at := now\<rparr>) (cd_store (rd_db w))\<rparr>,
         rd_reservations := rd_reservations w @ [reservation_record t js sha stamp]\<rparr>))"

definition reserve_new_in_transaction :: "budget_state \<Rightarrow> dispatch_ticket \<Rightarrow> int \<Rightarrow> runtime_db \<Rightarrow> (reservation \<times> runtime_db) result" where
  "reserve_new_in_transaction st t now w = bindE (require_budget_scope st t) (\<lambda>_. bindE (reservation_payload t) (\<lambda>p.
     bindE (check_text p) (\<lambda>js. bindE (check_digest p) (\<lambda>sha. bindE (select_reservation t w) (\<lambda>found.
     case found of
       Some r \<Rightarrow> bindE (parse_canonical_payload (rr_reservation_json r) (rr_reservation_sha256 r) ''DISPATCH_BUDGET_RESERVATION'') (\<lambda>old.
         bindE (check_digest old) (\<lambda>d. if d \<noteq> sha then raise BE ''DISPATCH_BUDGET_RESERVATION_CONFLICT'' else raise BE ''DISPATCH_BUDGET_ORPHAN_RESERVATION''))
     | None \<Rightarrow> (case st_budgets (cd_store (rd_db w)) (dt_task_id t) of
         None \<Rightarrow> raise BE ''TASK_EXECUTION_BUDGET_NOT_BOUND''
       | Some row \<Rightarrow> bindE (dispatch_deadline_expired (bu_deadline_at row) now) (\<lambda>expired.
           if expired then raise ExecutionBudgetExceeded ''TASK_WALL_TIME_BUDGET_EXHAUSTED''
           else if bu_max_steps row < bu_steps_used row + 1 then raise ExecutionBudgetExceeded ''TASK_STEP_BUDGET_EXHAUSTED''
           else charge_step t js sha now row w)))))))"

definition require_existing_in_transaction :: "budget_state \<Rightarrow> dispatch_ticket \<Rightarrow> runtime_db \<Rightarrow> reservation result" where
  "require_existing_in_transaction st t w = bindE (require_budget_scope st t) (\<lambda>_. bindE (reservation_payload t) (\<lambda>p.
     bindE (check_digest p) (\<lambda>sha. bindE (select_reservation t w) (\<lambda>found.
     case found of None \<Rightarrow> raise BE ''DISPATCH_BUDGET_RESERVATION_MISSING''
     | Some r \<Rightarrow> bindE (parse_canonical_payload (rr_reservation_json r) (rr_reservation_sha256 r) ''DISPATCH_BUDGET_RESERVATION'') (\<lambda>old.
         bindE (check_digest old) (\<lambda>d. if d \<noteq> sha then raise BE ''DISPATCH_BUDGET_RESERVATION_CONFLICT''
           else Inr (reservation_of t (rr_reservation_id r) sha (rr_reserved_at r))))))))"

section \<open>The guard and the repository\<close>

text \<open>The guard the scheduler sees. It asks for steps only.\<close>

definition preflight_reserve :: "db_env \<Rightarrow> budget_state \<Rightarrow> int \<Rightarrow> (runtime_db, unit) action" where
  "preflight_reserve e st n = (if n = 1 then assert_dispatch_step_available e st
     else if n = 0 then controller_assert_active e st
     else readA (\<lambda>_. raise BE ''DISPATCH_BUDGET_PREFLIGHT_UNSUPPORTED_RESERVATION''))"

definition atomic_insert_dispatch :: "writer_lease \<Rightarrow> budget_state \<Rightarrow> dispatch_ticket \<Rightarrow> string \<Rightarrow> string \<Rightarrow> int \<Rightarrow> runtime_db \<Rightarrow> (dispatch_ticket \<times> runtime_db) result" where
  "atomic_insert_dispatch l st t js sha now w =
     bindE (require_task (dt_task_id t) (rd_db w)) (\<lambda>_. bindE (require_writer l w) (\<lambda>_. bindE (checkpoint_tables w) (\<lambda>_.
     case List.find (\<lambda>r. dr_ticket_id r = dt_ticket_id t) (cd_dispatches (rd_db w)) of
       Some r \<Rightarrow> bindE (parse_canonical_payload (dr_ticket_json r) (dr_ticket_sha256 r) ''DISPATCH'') (\<lambda>old. bindE (check_digest old) (\<lambda>d.
         if d \<noteq> sha then raise CE ''DISPATCH_CHECKPOINT_IDENTITY_CONFLICT''
         else bindE (require_binding l ''DISPATCH_RECORDED'' (dt_ticket_id t) (rd_db w)) (\<lambda>_.
           bindE (require_existing_in_transaction st t w) (\<lambda>_. Inr (t, w)))))
     | None \<Rightarrow> if dispatch_at (dt_task_id t) (dt_plan_fingerprint t) (dt_node_id t) (rd_db w) \<noteq> None then raise CE ''DISPATCH_CHECKPOINT_NODE_CONFLICT''
         else bindE (reserve_new_in_transaction st t now w) (\<lambda>(_, w'). write_dispatch l t js sha (utc_now_text now) w'))))"

definition atomic_record_dispatch :: "db_env \<Rightarrow> writer_lease \<Rightarrow> budget_state \<Rightarrow> dispatch_ticket \<Rightarrow> (runtime_db, dispatch_ticket) action" where
  "atomic_record_dispatch e l st t = prepare (fenced l (dt_task_id t) (dt_plan_fingerprint t) (dispatch_payload t))
     (\<lambda>(js, sha). connection e (atomic_insert_dispatch l st t js sha))"

definition atomic_initialize :: "db_env \<Rightarrow> writer_lease \<Rightarrow> (runtime_db, unit) action" where
  "atomic_initialize e l = bindA (fenced_initialize e l) (\<lambda>_. controller_initialize e)"

definition atomic_repository :: "db_env \<Rightarrow> writer_lease \<Rightarrow> budget_state \<Rightarrow> runtime_db repository" where
  "atomic_repository e l st = (fenced_repository e l)\<lparr>rp_initialize := atomic_initialize e l, rp_record_dispatch := atomic_record_dispatch e l st\<rparr>"

text \<open>The guards of the composed runtime.\<close>

definition atomic_guards :: "db_env \<Rightarrow> writer_lease \<Rightarrow> budget_state \<Rightarrow> runtime_db guards" where
  "atomic_guards e l st = \<lparr>gd_assert_active = controller_assert_active e st, gd_reserve_steps = preflight_reserve e st,
     gd_is_revoked = (\<lambda>task_id capability w. revocation_call e task_id capability (rd_db w)), gd_repository = Some (atomic_repository e l st)\<rparr>"

section \<open>An atomic recording is a fenced recording\<close>

abbreviation reservation_key :: "reservation_row \<Rightarrow> string \<times> string \<times> string" where
  "reservation_key r \<equiv> (rr_task_id r, rr_plan_fingerprint r, rr_node_id r)"

lemma require_existing_reserved:
  assumes "require_existing_in_transaction st t w = Inr v"
  shows "\<exists>r \<in> set (rd_reservations w). rr_task_id r = dt_task_id t \<and> rr_plan_fingerprint r = dt_plan_fingerprint t \<and> rr_node_id r = dt_node_id t"
  using assms by (auto simp: require_existing_in_transaction_def select_reservation_def bindE_Inr_iff find_Some_iff split: option.splits if_splits)

text \<open>What a reservation needs and does.\<close>

lemma reserve_new_iff:
  "reserve_new_in_transaction st t now w = Inr (v, w') \<longleftrightarrow> dt_task_id t = bs_task_id st \<and> ticket_validate t = Inr t \<and> rd_reserving w
    \<and> ticket_key t \<notin> reservation_key ` set (rd_reservations w)
    \<and> (\<exists>row d. st_budgets (cd_store (rd_db w)) (dt_task_id t) = Some row \<and> bu_deadline_at row = At d \<and> now < d \<and> bu_steps_used row + 1 \<le> bu_max_steps row
      \<and> charge_step t (dumps (reservation_json t)) (digest (reservation_json t)) now row w = Inr (v, w'))"
proof (cases "dt_task_id t = bs_task_id st \<and> ticket_validate t = Inr t \<and> rd_reserving w")
  case False
  then show ?thesis
    by (auto simp: reserve_new_in_transaction_def bindE_Inr_iff require_budget_scope_def reservation_payload_def select_reservation_def ticket_validate_def checked_iff)
next
  case True
  let ?p = "reservation_json t" and ?k = "\<lambda>r. rr_task_id r = dt_task_id t \<and> rr_plan_fingerprint r = dt_plan_fingerprint t \<and> rr_node_id r = dt_node_id t"
  have g: "require_budget_scope st t = Inr ()" "reservation_payload t = Inr ?p" "check_text ?p = Inr (dumps ?p)" "check_digest ?p = Inr (digest ?p)"
    "select_reservation t w = Inr (List.find ?k (rd_reservations w))"
    using True by (simp_all add: require_budget_scope_def reservation_payload_def select_reservation_def reservation_json_def del: dumps.simps)
  have f: "List.find ?k (rd_reservations w) = None \<longleftrightarrow> ticket_key t \<notin> reservation_key ` set (rd_reservations w)" by (auto simp: find_None_iff image_iff)
  show ?thesis
  proof (cases "List.find ?k (rd_reservations w)")
    case (Some r)
    with f show ?thesis unfolding reserve_new_in_transaction_def g bindE_simps Some option.case by (auto simp: bindE_Inr_iff simp del: dumps.simps)
  next
    case None
    have e: "dispatch_deadline_expired s now = Inr b \<longleftrightarrow> (\<exists>d. s = At d \<and> b = (d \<le> now))" for s b
      by (cases s) (auto simp: dispatch_deadline_expired_def parse_stamp_def reraise_def)
    show ?thesis
      unfolding reserve_new_in_transaction_def g bindE_simps None option.case
      by (cases "st_budgets (cd_store (rd_db w)) (dt_task_id t)")
        (use True None [unfolded f] in \<open>auto simp: bindE_Inr_iff e simp del: dumps.simps\<close>)
  qed
qed

lemma charge_step_iff: "charge_step t js sha now row w = Inr (v, w') \<longleftrightarrow> reservation_id (reservation_json t) \<notin> rr_reservation_id ` set (rd_reservations w)
   \<and> v = reservation_of t (reservation_id (reservation_json t)) sha (utc_now_text now)
   \<and> w' = w\<lparr>rd_db := (rd_db w)\<lparr>cd_store := put_budget (dt_task_id t) (row\<lparr>bu_steps_used := bu_steps_used row + 1, bu_updated_at := now\<rparr>) (cd_store (rd_db w))\<rparr>,
        rd_reservations := rd_reservations w @ [reservation_record t js sha (utc_now_text now)]\<rparr>"
  by (auto simp: charge_step_def Let_def)

lemma find_task_put_budget [simp]: "find_task (put_budget a r s) t = find_task s t"
  by (simp add: find_task_def)

text \<open>The charged state differs from the one before in the budget row and the reservations only.\<close>

lemma reserve_new_frame:
  assumes "reserve_new_in_transaction st t now w = Inr (r, v)"
  shows "rd_lease v = rd_lease w" "rd_reserving v = rd_reserving w" "rd_db v = (rd_db w)\<lparr>cd_store := cd_store (rd_db v)\<rparr>"
    "find_task (cd_store (rd_db v)) = find_task (cd_store (rd_db w))" "task_ids (cd_store (rd_db v)) = task_ids (cd_store (rd_db w))"
    "map reservation_key (rd_reservations v) = map reservation_key (rd_reservations w) @ [ticket_key t]"
  using assms by (auto simp: reserve_new_iff charge_step_iff task_ids_def reservation_record_def fun_eq_iff)

text \<open>Seen from the task database, the charge of a dispatch is the reservation of one step: another of the operations that run on it.\<close>

lemma dispatch_charge_step:
  assumes "reserve_new_in_transaction st t now w = Inr (r, v)" "budgets_wf (cd_store (rd_db w))"
  shows "cd_store (rd_db v) = store_step (cd_store (rd_db w)) (now, BudgetOp (ReserveOp (dt_task_id t) one_step))"
proof -
  let ?s = "cd_store (rd_db w)"
  obtain row d where row: "st_budgets ?s (dt_task_id t) = Some row" "bu_deadline_at row = At d" "now < d" "bu_steps_used row + 1 \<le> bu_max_steps row"
      "cd_store (rd_db v) = put_budget (dt_task_id t) (row\<lparr>bu_steps_used := bu_steps_used row + 1, bu_updated_at := now\<rparr>) ?s"
    using assms(1) by (auto simp: reserve_new_iff charge_step_iff)
  have "row_ok row" using assms(2) row(1) by (simp add: budgets_wf_def)
  with row(2) have "counters_ok row" by (simp add: row_ok_def)
  with row have "project row one_step now = Inr (charge one_step now row)"
    by (auto simp: project_iff one_step_def zero_deltas_def counters_ok_def)
  moreover have "charge one_step now row = row\<lparr>bu_steps_used := bu_steps_used row + 1, bu_updated_at := now\<rparr>"
    by (simp add: charge_def one_step_def zero_deltas_def)
  moreover have "deltas_ok one_step" "\<not> no_deltas one_step" by (simp_all add: deltas_ok_def no_deltas_def one_step_def zero_deltas_def)
  ultimately have "reserve_task_execution_budget now (dt_task_id t) one_step ?s = Inr (charge one_step now row, cd_store (rd_db v))"
    using row(1,5) by (simp add: reserve_iff)
  then show ?thesis by (simp add: store_step_def Let_def budget_step_def budget_exec_def)
qed

lemma fenced_insert_cong:
  assumes "rd_lease v = rd_lease w" "rd_db v = (rd_db w)\<lparr>cd_store := s\<rparr>" "find_task s = find_task (cd_store (rd_db w))"
    "List.find (\<lambda>r. dr_ticket_id r = dt_ticket_id t) (cd_dispatches (rd_db w)) = None" "write_dispatch l t js sha now v = Inr (u, w')"
    "dispatch_at (dt_task_id t) (dt_plan_fingerprint t) (dt_node_id t) (rd_db w) = None"
    "require_task (dt_task_id t) (rd_db w) = Inr x" "require_writer l w = Inr c" "checkpoint_tables w = Inr y"
  shows "fenced_insert_dispatch l t js sha now v = Inr (u, w')"
proof -
  have g: "require_task (dt_task_id t) (rd_db v) = Inr ()" "require_writer l v = Inr c" "checkpoint_tables v = Inr ()"
    using assms by (simp_all add: require_writer_def)
  have "List.find (\<lambda>r. dr_ticket_id r = dt_ticket_id t) (cd_dispatches (rd_db v)) = None"
    "dispatch_at (dt_task_id t) (dt_plan_fingerprint t) (dt_node_id t) (rd_db v) = None" using assms(2,4,6) by (simp_all add: dispatch_at_def)
  then show ?thesis using assms(5) unfolding fenced_insert_dispatch_def g by simp
qed

lemma atomic_fenced:
  assumes "atomic_insert_dispatch l st t js sha now w = Inr (u, w')"
  obtains r where "require_existing_in_transaction st t w = Inr r" "dt_ticket_id t \<in> dr_ticket_id ` set (cd_dispatches (rd_db w))"
      "fenced_insert_dispatch l t js sha (utc_now_text now) w = Inr (u, w')" "w' = w"
  | r v where "reserve_new_in_transaction st t now w = Inr (r, v)" "dt_ticket_id t \<notin> dr_ticket_id ` set (cd_dispatches (rd_db w))"
      "fenced_insert_dispatch l t js sha (utc_now_text now) v = Inr (u, w')"
proof -
  obtain x c y where g: "require_task (dt_task_id t) (rd_db w) = Inr x" "require_writer l w = Inr c" "checkpoint_tables w = Inr y"
    using assms unfolding atomic_insert_dispatch_def bindE_Inr_iff by blast
  note a = assms [unfolded atomic_insert_dispatch_def g bindE_simps]
  show ?thesis
  proof (cases "List.find (\<lambda>r. dr_ticket_id r = dt_ticket_id t) (cd_dispatches (rd_db w))")
    case (Some r)
    then have i: "dt_ticket_id t \<in> dr_ticket_id ` set (cd_dispatches (rd_db w))" by (auto simp: find_Some_iff image_iff) (metis nth_mem)
    obtain old d b r' where e: "parse_canonical_payload (dr_ticket_json r) (dr_ticket_sha256 r) ''DISPATCH'' = Inr old" "check_digest old = Inr d" "d = sha"
        "require_binding l ''DISPATCH_RECORDED'' (dt_ticket_id t) (rd_db w) = Inr b" "require_existing_in_transaction st t w = Inr r'" "(t, w) = (u, w')"
      using a unfolding Some option.case bindE_Inr_iff if_raise_iff by blast
    have "fenced_insert_dispatch l t js sha (utc_now_text now) w = Inr (u, w')"
      unfolding fenced_insert_dispatch_def g bindE_simps Some option.case e using e(6) by simp
    from that(1) [OF e(5) i this] e(6) show ?thesis by blast
  next
    case None
    obtain r v where v: "reserve_new_in_transaction st t now w = Inr (r, v)" "write_dispatch l t js sha (utc_now_text now) v = Inr (u, w')"
        "dispatch_at (dt_task_id t) (dt_plan_fingerprint t) (dt_node_id t) (rd_db w) = None"
      using a unfolding None option.case by (auto simp: bindE_Inr_iff split: if_splits)
    note f = reserve_new_frame [OF v(1)]
    have "fenced_insert_dispatch l t js sha (utc_now_text now) v = Inr (u, w')" by (rule fenced_insert_cong [OF f(1,3,4) None v(2,3) g])
    moreover have "dt_ticket_id t \<notin> dr_ticket_id ` set (cd_dispatches (rd_db w))" using None by (simp add: find_None_image)
    ultimately show ?thesis using that(2) v(1) by blast
  qed
qed

lemma atomic_refines:
  assumes "atomic_record_dispatch e l st t w = (Inr u, w')" "fence_inv (rd_db w)"
  obtains v db where "record_dispatch e t ((rd_db w)\<lparr>cd_store := cd_store (rd_db v)\<rparr>) = (Inr u, db)" "fenced_step v db w'"
    "v = rd_tick w \<and> dt_ticket_id t \<in> dr_ticket_id ` set (cd_dispatches (rd_db w))
     \<or> (\<exists>r. reserve_new_in_transaction st t (de_clock e (cd_tick (rd_db w))) (rd_tick w) = Inr (r, v) \<and> dt_ticket_id t \<notin> dr_ticket_id ` set (cd_dispatches (rd_db w)))"
proof -
  let ?now = "de_clock e (cd_tick (rd_db w))"
  obtain js sha where p: "scope_of l = (dt_task_id t, dt_plan_fingerprint t)" "payload_texts (dispatch_payload t) = Inr (js, sha)"
      "connection e (atomic_insert_dispatch l st t js sha) w = (Inr u, w')"
    using assms(1) unfolding atomic_record_dispatch_def by (auto elim!: prepare_cases simp: fenced_def bindE_Inr_iff)
  have fault: "de_fault e (cd_tick (rd_db w)) = None" and ins: "atomic_insert_dispatch l st t js sha ?now (rd_tick w) = Inr (u, w')"
    using p(3) by (auto elim!: connection_cases)
  have plain: "\<exists>db. record_dispatch e t ((rd_db w)\<lparr>cd_store := cd_store (rd_db v)\<rparr>) = (Inr u, db) \<and> fenced_step v db w'"
    if v: "rd_db v = (rd_db (rd_tick w))\<lparr>cd_store := cd_store (rd_db v)\<rparr>" "fenced_insert_dispatch l t js sha (utc_now_text ?now) v = Inr (u, w')" for v
  proof -
    have "fence_inv (rd_db v)" using assms(2) by (subst v(1)) simp
    from fenced_dispatch_step [OF v(2) p(1) this] obtain db where db: "insert_dispatch t js sha (utc_now_text ?now) (rd_db v) = Inr (u, db)" "fenced_step v db w'" by blast
    have "cd_created (rd_db v)" using dispatch_plain [OF v(2) p(1)] by blast
    then have q: "quiet e ((rd_db w)\<lparr>cd_store := cd_store (rd_db v)\<rparr>)" using fault by (subst (asm) v(1)) (simp add: quiet_def)
    have "rd_db v = ticked ((rd_db w)\<lparr>cd_store := cd_store (rd_db v)\<rparr>)" by (rule trans [OF v(1)]) simp
    with db(1) have "transaction e (insert_dispatch t js sha) ((rd_db w)\<lparr>cd_store := cd_store (rd_db v)\<rparr>) = (Inr u, db)"
      unfolding transaction_quiet [OF q] by simp
    with db(2) p(2) show ?thesis by (simp add: record_dispatch_def prepared_def)
  qed
  from ins show ?thesis
  proof (cases rule: atomic_fenced)
    case (1 r)
    from plain [OF _ 1(3)] obtain db where "record_dispatch e t ((rd_db w)\<lparr>cd_store := cd_store (rd_db (rd_tick w))\<rparr>) = (Inr u, db)" "fenced_step (rd_tick w) db w'" by auto
    then show ?thesis using 1(2) by (intro that [of "rd_tick w" db]) simp_all
  next
    case (2 r v)
    from plain [OF reserve_new_frame(3) [OF 2(1)] 2(3)] obtain db where "record_dispatch e t ((rd_db w)\<lparr>cd_store := cd_store (rd_db v)\<rparr>) = (Inr u, db)" "fenced_step v db w'" by blast
    then show ?thesis using 2(1,2) by (intro that [of v db]) auto
  qed
qed

section \<open>Accounts\<close>

definition dispatched :: "receipts \<Rightarrow> string \<Rightarrow> nat" where
  "dispatched A task = length (filter (\<lambda>t. dt_task_id t = task) (rc_tickets A))"

text \<open>There is one reservation for every ticket, in the same order, and the budget of a task was charged at least one step for each of
  its tickets.\<close>

definition charged_for :: "receipts \<Rightarrow> store \<Rightarrow> bool" where
  "charged_for A s \<longleftrightarrow> (\<forall>task. 0 < dispatched A task \<longrightarrow>
     (\<exists>row. st_budgets s task = Some row \<and> \<not> legacy_row row \<and> int (dispatched A task) \<le> bu_steps_used row))"

definition accounted :: "receipts \<Rightarrow> runtime_db \<Rightarrow> bool" where
  "accounted A w \<longleftrightarrow> map reservation_key (rd_reservations w) = map ticket_key (rc_tickets A)
     \<and> charged_for A (cd_store (rd_db w)) \<and> budgets_wf (cd_store (rd_db w))"

definition atomic_logs :: "string set \<Rightarrow> receipts \<Rightarrow> runtime_db \<Rightarrow> bool" where
  "atomic_logs tasks A w \<longleftrightarrow> fenced_logs tasks A w \<and> accounted A w"

lemma atomic_logsD:
  assumes "atomic_logs tasks A w"
  shows "fenced_logs tasks A w" "accounted A w"
  using assms by (simp_all add: atomic_logs_def)

lemma accounted_cong:
  assumes "accounted A w" "rc_tickets B = rc_tickets A" "rd_reservations w' = rd_reservations w" "cd_store (rd_db w') = cd_store (rd_db w)"
  shows "accounted B w'"
  using assms by (simp add: accounted_def charged_for_def dispatched_def)

text \<open>Steps of the other parties never take a charged step back.\<close>

definition rows_grow :: "store \<Rightarrow> store \<Rightarrow> bool" where
  "rows_grow s s' \<longleftrightarrow> (\<forall>t r. st_budgets s t = Some r \<and> \<not> legacy_row r \<longrightarrow>
     (\<exists>q. st_budgets s' t = Some q \<and> \<not> legacy_row q \<and> bu_steps_used r \<le> bu_steps_used q))"

lemma charged_grow: "charged_for A s \<Longrightarrow> rows_grow s s' \<Longrightarrow> charged_for A s'"
  unfolding charged_for_def rows_grow_def by (meson order_trans)

lemma op_charges_ok: "budget_exec now bop s = Inr (u, s') \<Longrightarrow> op_charges bop t = Some d \<Longrightarrow> 0 \<le> dl_steps d"
  by (cases bop) (auto simp: budget_exec_def op_charges_def bindE_Inr_iff reserve_iff deltas_ok_def split: if_splits)

lemma budget_step_grow: "rows_grow s (budget_step s x)"
proof (cases "budget_exec (fst x) (snd x) s")
  case (Inr p)
  then obtain u s' where e: "budget_exec (fst x) (snd x) s = Inr (u, s')" by (cases p) simp
  have "\<exists>q. st_budgets s' t = Some q \<and> \<not> legacy_row q \<and> bu_steps_used r \<le> bu_steps_used q" if "st_budgets s t = Some r" "\<not> legacy_row r" for t r
    using budget_exec_row [OF e that] op_charges_ok [OF e, of t] by (auto simp: used_plus_def zero_deltas_def split: option.splits)
  then show ?thesis by (simp add: rows_grow_def budget_step_def e)
qed (simp add: rows_grow_def budget_step_def)

lemma store_step_budgets: "st_budgets (store_step s x) = st_budgets s \<or> (\<exists>bop. store_step s x = budget_step s (fst x, bop))"
proof (cases "snd x")
  case (CreateTask today logged a b)
  have "st_budgets s' = st_budgets s" if "create_task (fst x) today logged a b s = Inr (t, s')" for t s'
    using that by (auto simp: create_task_def Let_def split: if_splits option.splits)
  with CreateTask show ?thesis using keep_cases [of s "create_task (fst x) today logged a b s"] by (auto simp: store_step_def Let_def)
next
  case (BindContract t c)
  have "st_budgets s' = st_budgets s" if "bind_task_contract (fst x) t c s = Inr (d, s')" for d s'
    using that by (elim bind_contract_cases) auto
  with BindContract show ?thesis using keep_cases [of s "bind_task_contract (fst x) t c s"] by (auto simp: store_step_def Let_def)
next
  case (ValidatorResult a b c d e f g)
  have "st_budgets s' = st_budgets s" if "record_validator_result (fst x) a b c d e f g s = Inr (r, s')" for r s'
    using that by (auto simp: record_validator_result_def Let_def bindE_Inr_iff)
  with ValidatorResult show ?thesis using keep_cases [of s "record_validator_result (fst x) a b c d e f g s"] by (auto simp: store_step_def Let_def)
next
  case (Revoke logged t cap reason)
  have "st_budgets s' = st_budgets s" if "revoke (fst x) logged t cap reason s = Inr (r, s')" for r s'
    using that unfolding revoke_iff by (auto split: if_splits)
  with Revoke show ?thesis using keep_cases [of s "revoke (fst x) logged t cap reason s"] by (auto simp: store_step_def Let_def)
qed (auto simp: store_step_def Let_def set_status_def attach_uploads_def record_artifact_def)

lemma store_step_grow: "budgets_wf s \<Longrightarrow> budgets_wf (store_step s x) \<and> rows_grow s (store_step s x)"
  using store_step_budgets [of s x] budget_step_wf [of s] budget_step_grow [of s] by (auto simp: budgets_wf_def rows_grow_def)

lemma dispatched_add: "dispatched (add_ticket t A) task = dispatched A task + (if dt_ticket_id t \<notin> dt_ticket_id ` set (rc_tickets A) \<and> dt_task_id t = task then 1 else 0)"
  by (simp add: dispatched_def add_ticket_def)

lemma reserve_charges:
  assumes "reserve_new_in_transaction st t now w = Inr (r, v)" "accounted A w" "dt_ticket_id t \<notin> dt_ticket_id ` set (rc_tickets A)"
  shows "accounted (add_ticket t A) v"
proof -
  obtain row d where row: "st_budgets (cd_store (rd_db w)) (dt_task_id t) = Some row" "bu_deadline_at row = At d" "bu_steps_used row + 1 \<le> bu_max_steps row"
      "cd_store (rd_db v) = put_budget (dt_task_id t) (row\<lparr>bu_steps_used := bu_steps_used row + 1, bu_updated_at := now\<rparr>) (cd_store (rd_db w))"
    using assms(1) by (auto simp: reserve_new_iff charge_step_iff)
  let ?row = "row\<lparr>bu_steps_used := bu_steps_used row + 1, bu_updated_at := now\<rparr>"
  have acc: "map reservation_key (rd_reservations w) = map ticket_key (rc_tickets A)" "charged_for A (cd_store (rd_db w))" "budgets_wf (cd_store (rd_db w))"
    using assms(2) by (simp_all add: accounted_def)
  have ok: "row_ok row" using acc(3) row(1) by (simp add: budgets_wf_def)
  then have ok': "row_ok ?row" "\<not> legacy_row ?row" "0 \<le> bu_steps_used row"
    using row(2,3) by (auto simp: row_ok_def counters_ok_def legacy_row_def)
  have le: "int (dispatched A (dt_task_id t)) \<le> bu_steps_used row" 
    using acc(2) [unfolded charged_for_def, rule_format, of "dt_task_id t"] row(1) ok'(3) by (cases "0 < dispatched A (dt_task_id t)") auto
  have "charged_for (add_ticket t A) (cd_store (rd_db v))"
    unfolding charged_for_def
  proof (intro allI impI)
    fix task assume n: "0 < dispatched (add_ticket t A) task"
    show "\<exists>row. st_budgets (cd_store (rd_db v)) task = Some row \<and> \<not> legacy_row row \<and> int (dispatched (add_ticket t A) task) \<le> bu_steps_used row"
    proof (cases "task = dt_task_id t")
      case True
      with le ok'(2) assms(3) show ?thesis by (simp add: row(4) dispatched_add)
    next
      case False
      with n acc(2) show ?thesis by (simp add: row(4) dispatched_add charged_for_def)
    qed
  qed
  moreover have "budgets_wf (cd_store (rd_db v))" using budgets_wf_put [OF acc(3) ok'(1)] by (simp add: row(4))
  moreover have "map reservation_key (rd_reservations v) = map ticket_key (rc_tickets (add_ticket t A))"
    using reserve_new_frame(6) [OF assms(1)] acc(1) assms(3) by (simp add: add_ticket_def)
  ultimately show ?thesis by (simp add: accounted_def)
qed

lemma accounted_tick [simp]: "accounted A (rd_tick w) = accounted A w"
  by (simp add: accounted_def)

lemma ticket_recorded: "mirrors A w \<Longrightarrow> dt_ticket_id t \<in> dr_ticket_id ` set (cd_dispatches w) \<longleftrightarrow> dt_ticket_id t \<in> dt_ticket_id ` set (rc_tickets A)"
proof -
  assume "mirrors A w"
  from mirrorsD(1) [OF this] have "dr_ticket_id ` set (cd_dispatches w) = dt_ticket_id ` set (rc_tickets A)"
    by (induction rule: list_all2_induct) (auto simp: ticket_row_fields)
  then show ?thesis by simp
qed

lemma atomic_dispatch_logs:
  assumes "atomic_logs tasks A w" "atomic_record_dispatch e l st t w = (r, w')"
  shows "(\<exists>x. r = Inl x) \<and> atomic_logs tasks A w' \<or> r = Inr t \<and> atomic_logs tasks (add_ticket t A) w'"
proof (cases r)
  case (Inl x)
  have "prepare (fenced l (dt_task_id t) (dt_plan_fingerprint t) (dispatch_payload t)) (\<lambda>x. connection e (atomic_insert_dispatch l st t (fst x) (snd x))) w = (Inl x, w')"
    using assms(2) Inl by (simp add: atomic_record_dispatch_def case_prod_unfold)
  then have "w' = w \<or> w' = rd_tick w" by (rule prepare_cases) (auto elim!: connection_cases)
  with assms(1) fenced_logs_tick Inl show ?thesis by (auto simp: atomic_logs_def)
next
  case (Inr u)
  note L = atomic_logsD [OF assms(1)] and F = fenced_logsD [OF atomic_logsD(1) [OF assms(1)]]
  obtain v db where v: "record_dispatch e t ((rd_db w)\<lparr>cd_store := cd_store (rd_db v)\<rparr>) = (Inr u, db)" "fenced_step v db w'"
    "v = rd_tick w \<and> dt_ticket_id t \<in> dr_ticket_id ` set (cd_dispatches (rd_db w))
     \<or> (\<exists>r. reserve_new_in_transaction st t (de_clock e (cd_tick (rd_db w))) (rd_tick w) = Inr (r, v) \<and> dt_ticket_id t \<notin> dr_ticket_id ` set (cd_dispatches (rd_db w)))"
    by (rule atomic_refines [OF assms(2) [unfolded Inr] F(3)])
  have "mirrors A ((rd_db w)\<lparr>cd_store := cd_store (rd_db v)\<rparr>)" using F(1) by (simp add: mirrors_store)
  from record_dispatch_mirrors(1) [OF this v(1)] have u: "u = t" "mirrors (add_ticket t A) db" by auto
  have s: "task_ids (cd_store (rd_db v)) = task_ids (cd_store (rd_db w))" "rd_lease v = rd_lease w" "accounted (add_ticket t A) v"
    using v(3) L(2) reserve_new_frame(1,5) reserve_charges [of st t _ "rd_tick w" _ v A] unfolding ticket_recorded [OF F(1)] by (auto simp: add_ticket_def)
  have "fenced_logs tasks (add_ticket t A) w'" using v(2) u(2) F(2,4) s(1,2) by (simp add: fenced_step_def fenced_logs_def)
  moreover have "accounted (add_ticket t A) w'" by (rule accounted_cong [OF s(3) refl]) (use v(2) in \<open>simp_all add: fenced_step_def\<close>)
  ultimately show ?thesis using Inr u(1) by (simp add: atomic_logs_def)
qed

text \<open>The other operations leave the accounts alone.\<close>

lemma call_frame:
  assumes "prepare m (\<lambda>x. connection e (f x)) w = (r, w')"
    "\<And>x now v u v'. f x now v = Inr (u, v') \<Longrightarrow> rd_reservations v' = rd_reservations v \<and> cd_store (rd_db v') = cd_store (rd_db v)"
  shows "rd_reservations w' = rd_reservations w" "cd_store (rd_db w') = cd_store (rd_db w)"
  by (use assms(1) in \<open>rule prepare_cases\<close>; use assms(2) in \<open>fastforce elim!: connection_cases\<close>)+

lemma append_fence_store: "append_writer_fence_event l kind subject now db = Inr db' \<Longrightarrow> cd_store db' = cd_store db"
  by (simp add: append_fence_iff fence_event_def)

lemma fenced_insert_frame:
  "fenced_insert_observation l b js sha now v = Inr (u, v') \<Longrightarrow> rd_reservations v' = rd_reservations v \<and> cd_store (rd_db v') = cd_store (rd_db v)"
  "fenced_insert_cancellation l task_id pf js sha now v = Inr (q, v') \<Longrightarrow> rd_reservations v' = rd_reservations v \<and> cd_store (rd_db v') = cd_store (rd_db v)"
  by (auto simp: fenced_insert_observation_def fenced_insert_cancellation_def write_observation_def bound_events_def bindE_Inr_iff
      split: option.splits if_splits dest!: append_fence_store)

lemma fenced_frame:
  "fenced_record_observation e l b w = (r, w') \<Longrightarrow> rd_reservations w' = rd_reservations w \<and> cd_store (rd_db w') = cd_store (rd_db w)"
  "fenced_record_cancellation e l task_id pf reason w = (q, w') \<Longrightarrow> rd_reservations w' = rd_reservations w \<and> cd_store (rd_db w') = cd_store (rd_db w)"
  unfolding fenced_record_observation_def fenced_record_cancellation_def case_prod_unfold
  by (auto dest: call_frame [OF _ fenced_insert_frame(1)] call_frame [OF _ fenced_insert_frame(2)])

lemma initialize_frame:
  assumes "atomic_initialize e l w = (r, w')"
  shows "rd_reservations w' = rd_reservations w" "cd_store (rd_db w') = cd_store (rd_db w)"
proof -
  define kept where "kept = (\<lambda>v :: runtime_db. rd_reservations v = rd_reservations w \<and> cd_store (rd_db v) = cd_store (rd_db w))"
  have c: "kept (snd (connection e (\<lambda>now v. Inr ((), f v)) v))" if "kept v" "\<And>v. kept v \<Longrightarrow> kept (f v)" for f v
    using that by (simp add: connection_def kept_def split: option.split)
  have "kept (snd (on_db (cp_initialize e) v))" if "kept v" for v
    using that by (auto simp: kept_def on_db_def cp_initialize_def Let_def split: option.split)
  moreover have "kept (snd (lease_initialize e v))" "kept (snd (controller_initialize e v))" if "kept v" for v
    unfolding lease_initialize_def controller_initialize_def by (rule c [OF that], simp add: kept_def)+
  moreover have "kept w" by (simp add: kept_def)
  ultimately have "kept (snd (atomic_initialize e l w))"
    unfolding atomic_initialize_def fenced_initialize_def by (intro bindA_keeps [where P = kept]) (simp_all add: readA_def)
  with assms show "rd_reservations w' = rd_reservations w" "cd_store (rd_db w') = cd_store (rd_db w)" by (simp_all add: kept_def)
qed

lemma controller_initialize_logs: "fenced_logs tasks A w \<Longrightarrow> controller_initialize e w = (r, w') \<Longrightarrow> fenced_logs tasks A w'"
  by (auto simp: controller_initialize_def fenced_logs_def elim!: connection_cases)

lemma atomic_initialize_logs:
  assumes "atomic_logs tasks A w" "atomic_initialize e l w = (r, w')"
  shows "atomic_logs tasks A w'"
proof -
  have k: "fenced_logs tasks A (snd (fenced_initialize e l v))" "fenced_logs tasks A (snd (controller_initialize e v))" if "fenced_logs tasks A v" for v
    using fenced_initialize_logs [OF that] controller_initialize_logs [OF that] by (metis prod.collapse)+
  have "fenced_logs tasks A (snd (atomic_initialize e l w))"
    unfolding atomic_initialize_def by (intro bindA_keeps [where P = "fenced_logs tasks A"] k atomic_logsD(1) [OF assms(1)])
  with assms(2) accounted_cong [OF atomic_logsD(2) [OF assms(1)] refl initialize_frame [OF assms(2)]] show ?thesis by (simp add: atomic_logs_def)
qed

text \<open>The guard only looks: what it does to the database is to use up calls.\<close>

lemma assert_active_store: "assert_active env clock st s = (r, s') \<Longrightarrow> s' = s"
  unfolding assert_active_def
  by (rule reserve_keeps [where P = "\<lambda>v. v = s" and s = s]) (auto simp: reserve_iff no_deltas_def zero_deltas_def)

lemma active_store:
  assumes "budget_call e (\<lambda>locks clock. assert_active locks clock st) db = (r, db')"
  shows "\<exists>k. db' = db\<lparr>cd_tick := k\<rparr>"
  using assms by (intro exI [of _ "cd_tick db + 2"]) (auto simp: budget_call_def split: prod.splits dest!: assert_active_store)

lemma controller_active_world: "controller_assert_active e st w = (r, w') \<Longrightarrow> \<exists>k. w' = w\<lparr>rd_db := (rd_db w)\<lparr>cd_tick := k\<rparr>\<rparr>"
  by (auto simp: controller_assert_active_def on_db_def split: prod.splits dest!: active_store)

lemma preflight_world: "preflight_reserve e st n w = (r, w') \<Longrightarrow> \<exists>k. w' = w\<lparr>rd_db := (rd_db w)\<lparr>cd_tick := k\<rparr>\<rparr>"
proof -
  have "\<exists>k. w = w\<lparr>rd_db := (rd_db w)\<lparr>cd_tick := k\<rparr>\<rparr>" by (rule exI [of _ "cd_tick (rd_db w)"]) simp
  then show "preflight_reserve e st n w = (r, w') \<Longrightarrow> \<exists>k. w' = w\<lparr>rd_db := (rd_db w)\<lparr>cd_tick := k\<rparr>\<rparr>"
    by (auto simp: preflight_reserve_def assert_dispatch_step_available_def bindA_def readA_def split: if_splits prod.splits sum.splits dest!: controller_active_world)
qed

lemma atomic_logs_ticks: "atomic_logs tasks A w \<Longrightarrow> atomic_logs tasks A (w\<lparr>rd_db := (rd_db w)\<lparr>cd_tick := k\<rparr>\<rparr>)"
  by (simp add: atomic_logs_def fenced_logs_def accounted_def)

text \<open>Everyone else: claims and releases of leases, the creation of tables, and the operations of the task store.\<close>

inductive other_users :: "runtime_db \<Rightarrow> runtime_db \<Rightarrow> bool" where
  claims: "claim e task_id pf run_id issued_at w = (r, w') \<Longrightarrow> other_users w w'"
| releases: "release e l released_at w = (r, w') \<Longrightarrow> other_users w w'"
| creates: "atomic_initialize e l w = (r, w') \<Longrightarrow> other_users w w'"
| stores: "other_party (rd_db w) db \<Longrightarrow> other_users w (w\<lparr>rd_db := db\<rparr>)"

lemma lease_call_frame:
  "claim e task_id pf run_id issued_at w = (r, w') \<Longrightarrow> rd_reservations w' = rd_reservations w \<and> cd_store (rd_db w') = cd_store (rd_db w)"
  "release e l released_at w = (q, w') \<Longrightarrow> rd_reservations w' = rd_reservations w \<and> cd_store (rd_db w') = cd_store (rd_db w)"
  by (auto simp: claim_def release_def on_lease_iff elim!: connection_cases split: sum.splits)

lemma lease_call_atomic:
  assumes "atomic_logs tasks A w" "rd_db w' = rd_db w \<or> rd_db w' = ticked (rd_db w)" "advances (rd_lease w) (rd_lease w')" "rd_reservations w' = rd_reservations w"
  shows "atomic_logs tasks A w'"
  using lease_call_logs [OF atomic_logsD(1) [OF assms(1)] assms(2,3)] accounted_cong [OF atomic_logsD(2) [OF assms(1)] refl assms(4)] assms(2)
  by (auto simp: atomic_logs_def)

lemma other_users_logs:
  assumes "other_users w w'" "atomic_logs tasks A w"
  shows "atomic_logs tasks A w'"
  using assms
proof (induction rule: other_users.induct)
  case (claims e task_id pf run_id issued_at w r w')
  note inv = fenced_logsD(4) [OF atomic_logsD(1) [OF claims(2)]]
  show ?case by (rule lease_call_atomic [OF claims(2) lease_call_db(1) [OF claims(1)] claim_world [OF inv claims(1)]]) (use lease_call_frame(1) [OF claims(1)] in simp)
next
  case (releases e l released_at w r w')
  note inv = fenced_logsD(4) [OF atomic_logsD(1) [OF releases(2)]]
  show ?case by (rule lease_call_atomic [OF releases(2) lease_call_db(2) [OF releases(1)] release_world [OF inv releases(1)]]) (use lease_call_frame(2) [OF releases(1)] in simp)
next
  case (creates e l w r w')
  then show ?case by (blast intro: atomic_initialize_logs)
next
  case (stores w db)
  from stores(1) obtain x k where db: "db = (rd_db w)\<lparr>cd_store := store_step (cd_store (rd_db w)) x, cd_tick := k\<rparr>" by (auto simp: other_party_def)
  have a: "accounted A w" by (rule atomic_logsD(2) [OF stores(2)])
  then have "accounted A (w\<lparr>rd_db := db\<rparr>)"
    using store_step_grow [of "cd_store (rd_db w)" x] charged_grow [of A "cd_store (rd_db w)"] by (simp add: accounted_def db)
  with other_party_logs [OF atomic_logsD(1) [OF stores(2)] stores(1)] show ?case by (simp add: atomic_logs_def)
qed

lemma atomic_observation_logs:
  assumes "atomic_logs tasks A w" "genuine b" "fenced_record_observation e l b w = (r, w')"
  shows "(\<exists>x. r = Inl x) \<and> atomic_logs tasks A w' \<or> r = Inr b \<and> atomic_logs tasks (add_observation b A) w'"
proof -
  have "accounted B w'" if "rc_tickets B = rc_tickets A" for B
    by (rule accounted_cong [OF atomic_logsD(2) [OF assms(1)] that]) (use fenced_frame(1) [OF assms(3)] in simp_all)
  moreover have "rc_tickets (add_observation b A) = rc_tickets A" by (simp add: add_observation_def)
  ultimately show ?thesis using fenced_observation_logs [OF atomic_logsD(1) [OF assms(1)] assms(2,3)] by (auto simp: atomic_logs_def)
qed

lemma atomic_cancellation_logs:
  assumes "atomic_logs tasks A w" "fenced_record_cancellation e l task_id pf reason w = (r, w')"
  shows "\<exists>B. atomic_logs tasks B w' \<and> rc_tickets B = rc_tickets A \<and> rc_observations B = rc_observations A"
proof -
  obtain B where B: "fenced_logs tasks B w'" "rc_tickets B = rc_tickets A" "rc_observations B = rc_observations A"
    using fenced_cancellation_logs [OF atomic_logsD(1) [OF assms(1)] assms(2)] by blast
  moreover have "accounted B w'" by (rule accounted_cong [OF atomic_logsD(2) [OF assms(1)] B(2)]) (use fenced_frame(2) [OF assms(2)] in simp_all)
  ultimately show ?thesis by (auto simp: atomic_logs_def)
qed

abbreviation runtime_ids :: "runtime_db \<Rightarrow> string set" where
  "runtime_ids w \<equiv> recorded_ids (rd_db w)"

interpretation atomic: recoverable "atomic_repository e l st" "atomic_logs tasks" "atomic_guards e l st" runtime_ids other_users for e l st tasks
proof unfold_locales
  fix A w assume logs: "atomic_logs tasks A w"
  note m = fenced_logsD(1) [OF atomic_logsD(1) [OF logs]]
  show "wf_receipts A" by (rule mirrorsD(9) [OF m])
  show "runtime_ids w = receipt_ids A" by (rule mirrors_ids [OF m])
  fix w'
  show "atomic_logs tasks A w'" if "rp_initialize (atomic_repository e l st) w = (ri, w')" for ri
    using that logs by (simp add: atomic_repository_def atomic_initialize_logs)
  show "(\<exists>x. rd = Inl x) \<and> atomic_logs tasks A w' \<or> rd = Inr t \<and> atomic_logs tasks (add_ticket t A) w'"
    if "rp_record_dispatch (atomic_repository e l st) t w = (rd, w')" for t rd
    using atomic_dispatch_logs [OF logs, of e l st t rd w'] that unfolding atomic_repository_def by simp
  show "(\<exists>x. ro = Inl x) \<and> atomic_logs tasks A w' \<or> ro = Inr b \<and> atomic_logs tasks (add_observation b A) w'"
    if "genuine b" "rp_record_observation (atomic_repository e l st) b w = (ro, w')" for b ro
    using atomic_observation_logs [OF logs that(1), of e l ro w'] that(2) unfolding atomic_repository_def fenced_repository_def by simp
  show "\<exists>B. atomic_logs tasks B w' \<and> rc_tickets B = rc_tickets A \<and> rc_observations B = rc_observations A"
    if "rp_record_cancellation (atomic_repository e l st) task_id pf reason w = (rc, w')" for task_id pf reason rc
    using atomic_cancellation_logs [OF logs, of e l task_id pf reason rc w'] that unfolding atomic_repository_def fenced_repository_def by simp
  show "state = recovered A task_id pf" if "rp_load (atomic_repository e l st) task_id pf w = Inr state" for task_id pf state
    using fenced_load_recovered [OF atomic_logsD(1) [OF logs]] that unfolding atomic_repository_def fenced_repository_def by simp
  show "atomic_logs tasks A w'" if "gd_assert_active (atomic_guards e l st) w = (ra, w')" for ra
    using controller_active_world [of e st w ra w'] that atomic_logs_ticks [OF logs] by (auto simp: atomic_guards_def)
  show "atomic_logs tasks A w'" if "gd_reserve_steps (atomic_guards e l st) n w = (rs, w')" for n rs
    using preflight_world [of e st n w rs w'] that atomic_logs_ticks [OF logs] by (auto simp: atomic_guards_def)
  show "atomic_logs tasks A w'" if "other_users w w'" by (rule other_users_logs [OF that logs])
qed (simp add: atomic_guards_def)

section \<open>Every dispatch is paid for\<close>

text \<open>All users of the runtime tables.\<close>

inductive runtime_use :: "runtime_db \<Rightarrow> runtime_db \<Rightarrow> bool" where
  dispatching: "atomic_record_dispatch e l st t w = (r, w') \<Longrightarrow> runtime_use w w'"
| observing: "fenced_record_observation e l b w = (r, w') \<Longrightarrow> genuine b \<Longrightarrow> runtime_use w w'"
| cancelling: "fenced_record_cancellation e l task_id pf reason w = (r, w') \<Longrightarrow> runtime_use w w'"
| others: "other_users w w' \<Longrightarrow> runtime_use w w'"

abbreviation runtime_run :: "runtime_db \<Rightarrow> runtime_db \<Rightarrow> bool" where
  "runtime_run \<equiv> runtime_use\<^sup>*\<^sup>*"

lemma runtime_use_logs:
  assumes "runtime_use w w'" "atomic_logs tasks A w"
  shows "\<exists>B. atomic_logs tasks B w'"
  using assms
proof (induction rule: runtime_use.induct)
  case (dispatching e l st t w r w')
  from atomic_dispatch_logs [OF dispatching(2,1)] show ?case by blast
next
  case (observing e l b w r w')
  from atomic_observation_logs [OF observing(3,2,1)] show ?case by blast
next
  case (cancelling e l task_id pf reason w r w')
  from atomic_cancellation_logs [OF cancelling(2,1)] show ?case by blast
next
  case (others w w')
  from other_users_logs [OF others] show ?case by blast
qed

lemma runtime_run_logs: "runtime_run w w' \<Longrightarrow> atomic_logs tasks A w \<Longrightarrow> \<exists>B. atomic_logs tasks B w'"
  by (induction rule: rtranclp_induct) (use runtime_use_logs in blast)+

lemma empty_atomic:
  assumes "empty_tables w" "rd_reservations w = []" "budgets_wf (cd_store (rd_db w))" "tasks \<subseteq> task_ids (cd_store (rd_db w))"
  shows "atomic_logs tasks no_receipts w"
  using assms empty_fenced by (simp add: atomic_logs_def accounted_def charged_for_def dispatched_def no_receipts_def)

lemma rows_of_tickets:
  assumes "list_all2 ticket_row ts rs"
  shows "map (\<lambda>d. (dr_task_id d, dr_plan_fingerprint d, dr_node_id d)) rs = map ticket_key ts"
    "length (filter (\<lambda>d. dr_task_id d = task) rs) = length (filter (\<lambda>t. dt_task_id t = task) ts)"
  using assms by (induction rule: list_all2_induct) (auto simp: ticket_row_fields)

text \<open>The exact effect of a recording.\<close>

lemma dispatch_effect:
  assumes "atomic_logs tasks A w" "atomic_record_dispatch e l st t w = (r, w')"
  shows "if r = Inr t \<and> dt_ticket_id t \<notin> dr_ticket_id ` set (cd_dispatches (rd_db w))
    then \<exists>row now. st_budgets (cd_store (rd_db w)) (dt_task_id t) = Some row \<and> st_budgets (cd_store (rd_db w'))
        = (st_budgets (cd_store (rd_db w)))(dt_task_id t \<mapsto> row\<lparr>bu_steps_used := bu_steps_used row + 1, bu_updated_at := now\<rparr>)
    else cd_store (rd_db w') = cd_store (rd_db w) \<and> cd_dispatches (rd_db w') = cd_dispatches (rd_db w) \<and> rd_reservations w' = rd_reservations w"
proof -
  obtain js sha where c: "w' = w \<and> (\<exists>x. r = Inl x) \<or> connection e (atomic_insert_dispatch l st t js sha) w = (r, w')"
    using assms(2) unfolding atomic_record_dispatch_def by (auto elim!: prepare_cases)
  consider x where "r = Inl x" "w' = w \<or> w' = rd_tick w" | u where "r = Inr u" "atomic_insert_dispatch l st t js sha (de_clock e (cd_tick (rd_db w))) (rd_tick w) = Inr (u, w')"
    using c by (auto elim!: connection_cases)
  then show ?thesis
  proof cases
    case (2 u)
    have u: "r = Inr t" using atomic_dispatch_logs [OF assms] 2(1) by auto
    from 2(2) show ?thesis
    proof (cases rule: atomic_fenced)
      case (1 x)
      then show ?thesis by auto
    next
      case n: (2 x v)
      obtain row where row: "st_budgets (cd_store (rd_db w)) (dt_task_id t) = Some row" "cd_store (rd_db v) = put_budget (dt_task_id t)
          (row\<lparr>bu_steps_used := bu_steps_used row + 1, bu_updated_at := de_clock e (cd_tick (rd_db w))\<rparr>) (cd_store (rd_db w))"
        using n(1) by (auto simp: reserve_new_iff charge_step_iff)
      have "cd_store (rd_db w') = cd_store (rd_db v)"
        using n(3) by (auto simp: fenced_insert_dispatch_def write_dispatch_def bound_events_def bindE_Inr_iff split: option.splits if_splits dest!: append_fence_store)
      with n(2) row u show ?thesis by auto
    qed
  qed auto
qed

text \<open>C11: no dispatch without a step of the budget. In a database whose runtime tables started empty, after any recordings by any writers,
  with any outcome, while leases change hands and other parties use the task store, the reservations name the
  recorded dispatches one by one and in their order; a task with dispatches has a budget whose used steps are at least as many as its dispatches
  and at most its limit. Recording a dispatch charges exactly one step, to the task of the ticket, if it returns with a ticket that was not
  recorded before, and otherwise changes neither the tables nor the budgets.\<close>

theorem dispatch_within_budget:
  assumes "empty_tables w0" "rd_reservations w0 = []" "budgets_wf (cd_store (rd_db w0))" "runtime_run w0 w"
  shows "map (\<lambda>r. (rr_task_id r, rr_plan_fingerprint r, rr_node_id r)) (rd_reservations w)
      = map (\<lambda>d. (dr_task_id d, dr_plan_fingerprint d, dr_node_id d)) (cd_dispatches (rd_db w))
    \<and> (\<forall>task \<in> dr_task_id ` set (cd_dispatches (rd_db w)). \<exists>row. st_budgets (cd_store (rd_db w)) task = Some row
        \<and> int (length (filter (\<lambda>d. dr_task_id d = task) (cd_dispatches (rd_db w)))) \<le> bu_steps_used row \<and> bu_steps_used row \<le> bu_max_steps row)
    \<and> (\<forall>e l st t r w'. atomic_record_dispatch e l st t w = (r, w') \<longrightarrow>
        (if r = Inr t \<and> dt_ticket_id t \<notin> dr_ticket_id ` set (cd_dispatches (rd_db w))
         then \<exists>row now. st_budgets (cd_store (rd_db w)) (dt_task_id t) = Some row \<and> st_budgets (cd_store (rd_db w'))
             = (st_budgets (cd_store (rd_db w)))(dt_task_id t \<mapsto> row\<lparr>bu_steps_used := bu_steps_used row + 1, bu_updated_at := now\<rparr>)
         else cd_store (rd_db w') = cd_store (rd_db w) \<and> cd_dispatches (rd_db w') = cd_dispatches (rd_db w) \<and> rd_reservations w' = rd_reservations w))"
proof -
  obtain A where A: "atomic_logs {} A w" using runtime_run_logs [OF assms(4) empty_atomic [OF assms(1-3)], of "{}"] by blast
  note m = fenced_logsD(1) [OF atomic_logsD(1) [OF A]] and acc = atomic_logsD(2) [OF A, unfolded accounted_def]
  note rows = rows_of_tickets [OF mirrorsD(1) [OF m]]
  have "\<exists>row. st_budgets (cd_store (rd_db w)) task = Some row
        \<and> int (length (filter (\<lambda>d. dr_task_id d = task) (cd_dispatches (rd_db w)))) \<le> bu_steps_used row \<and> bu_steps_used row \<le> bu_max_steps row"
    if "task \<in> dr_task_id ` set (cd_dispatches (rd_db w))" for task
  proof -
    from that have "0 < length (filter (\<lambda>d. dr_task_id d = task) (cd_dispatches (rd_db w)))" by (auto simp: filter_empty_conv)
    then have "0 < dispatched A task" unfolding dispatched_def rows(2) .
    with acc obtain row where row: "st_budgets (cd_store (rd_db w)) task = Some row" "\<not> legacy_row row" "int (dispatched A task) \<le> bu_steps_used row"
      unfolding charged_for_def by blast
    moreover have "row_ok row" using acc row(1) by (simp add: budgets_wf_def)
    with row(2) have "bu_steps_used row \<le> bu_max_steps row" by (auto simp: row_ok_def counters_ok_def legacy_row_def)
    ultimately show ?thesis unfolding rows(2) dispatched_def by blast
  qed
  moreover note effect = dispatch_effect [OF A]
  ultimately show ?thesis using acc unfolding rows(1) by blast
qed
definition paid_runtime :: runtime_db where
  "paid_runtime = demo_runtime\<lparr>rd_db := governed_db\<rparr>"

lemma first_charged:
  assumes "reserve_new_in_transaction st t (de_clock e (cd_tick (rd_db w))) (rd_tick w) = Inr (r, v)"
    "leases_inv (rd_lease w)" "holder (rd_lease w) (scope_of l) = Some l" "wl_status l = ''ACTIVE''" "ld_created (rd_lease w)" "ticket_ok t"
    "scope_of l = (dt_task_id t, dt_plan_fingerprint t)" "find_task (cd_store (rd_db w)) (dt_task_id t) \<noteq> None" "cd_created (rd_db w)"
    "cd_dispatches (rd_db w) = []" "sqlite_int (dt_dispatch_sequence t)" "de_fault e (cd_tick (rd_db w)) = None"
  shows "\<exists>w'. atomic_record_dispatch e l st t w = (Inr t, w')"
proof -
  let ?js = "dumps (ticket_json t)" and ?sha = "digest (ticket_json t)" and ?now = "de_clock e (cd_tick (rd_db w))"
  have ok: "lease_ok l" using holder_row(3) [OF assms(2,3)] by simp
  then have "require_current_in_transaction l (rd_lease w) = Inr l" using assms(3-5) unfolding require_iff [OF assms(2)] by simp
  then have g: "require_task (dt_task_id t) (rd_db (rd_tick w)) = Inr ()" "require_writer l (rd_tick w) = Inr l" "checkpoint_tables (rd_tick w) = Inr ()"
    using assms(8,9) by simp_all
  have n: "List.find (\<lambda>r. dr_ticket_id r = dt_ticket_id t) (cd_dispatches (rd_db (rd_tick w))) = None"
    "dispatch_at (dt_task_id t) (dt_plan_fingerprint t) (dt_node_id t) (rd_db (rd_tick w)) = None" using assms(10) by (simp_all add: dispatch_at_def)
  obtain w' where "write_dispatch l t ?js ?sha (utc_now_text ?now) v = Inr (t, w')"
    using ok assms(4,11) append_fence_iff [of l "''DISPATCH''" "dt_ticket_id t" "utc_now_text ?now"]
    by (auto simp: write_dispatch_def bound_events_def bindE_Inr_iff PROTECTED_EVENT_KINDS_def)
  then have "atomic_insert_dispatch l st t ?js ?sha ?now (rd_tick w) = Inr (t, w')"
    unfolding atomic_insert_dispatch_def g n option.case assms(1) by (simp add: bindE_simps)
  from connection_returns [of e w "atomic_insert_dispatch l st t ?js ?sha", OF assms(12) this]
  have "connection e (atomic_insert_dispatch l st t ?js ?sha) w = (Inr t, w')" .
  moreover have "fenced l (dt_task_id t) (dt_plan_fingerprint t) (dispatch_payload t) = Inr (?js, ?sha)"
    using assms(6,7) by (simp add: fenced_def bindE_Inr_iff payload_texts_iff dispatch_payload_iff)
  ultimately show ?thesis by (simp add: atomic_record_dispatch_def prepare_def)
qed

lemma paid_facts: "leases_inv (rd_lease paid_runtime)" "find_task (cd_store (rd_db paid_runtime)) ''T'' \<noteq> None" "empty_tables paid_runtime"
  "rd_reservations paid_runtime = []" "budgets_wf (cd_store (rd_db paid_runtime))" "ld_created (rd_lease paid_runtime)"
  "holder (rd_lease paid_runtime) = Map.empty"
  using demo_runtime_facts(1)
  by (simp_all add: paid_runtime_def governed_db_def demo_runtime_def demo_db_def empty_tables_def find_task_def demo_store_def demo_task_def budgets_wf_def
    demo_row_def row_ok_def counters_ok_def legacy_row_def holder_def fun_eq_iff)

theorem dispatch_within_budget_witness:
  "\<exists>l w1 w2. claim demo_env ''T'' (digest JNull) ''run-a'' None paid_runtime = (Inr l, w1)
     \<and> atomic_record_dispatch demo_env l governed_state demo_ticket w1 = (Inr demo_ticket, w2)
     \<and> (\<exists>row. st_budgets (cd_store (rd_db w2)) ''T'' = Some row \<and> bu_steps_used row = 1 \<and> bu_max_steps row = 2)"
proof -
  note F = demo_runtime_facts(3-8) and G = paid_facts
  obtain l w1 where l: "claim demo_env ''T'' (digest JNull) ''run-a'' None paid_runtime = (Inr l, w1)"
    using claim_available [of paid_runtime "''T''" "digest JNull" "''run-a''" demo_env] F G by (auto simp: next_generation_def sqlite_int_def)
  obtain v d where d: "claim_transaction ''T'' (digest JNull) ''run-a'' v (cd_store (rd_db paid_runtime)) (rd_lease paid_runtime) = Inr (l, d)"
      "w1 = (rd_tick paid_runtime)\<lparr>rd_lease := d\<rparr>" using claim_Inr [OF l] by blast
  note S = claim_spec [OF G(1) d(1)]
  have s: "scope_of l = (''T'', digest JNull)" using S(8) by simp
  have t: "ticket_validate demo_ticket = Inr demo_ticket" using demo_ticket_fields(1) by (simp add: ticket_ok_def)
  have "\<exists>r v. reserve_new_in_transaction governed_state demo_ticket (de_clock demo_env (cd_tick (rd_db w1))) (rd_tick w1) = Inr (r, v)"
    using t demo_ticket_fields by (auto simp: reserve_new_iff charge_step_iff d(2) paid_runtime_def governed_db_def demo_runtime_def demo_db_def demo_row_def
      governed_state_def demo_env_def)
  then obtain r v where r: "reserve_new_in_transaction governed_state demo_ticket (de_clock demo_env (cd_tick (rd_db w1))) (rd_tick w1) = Inr (r, v)" by blast
  obtain w2 where w2: "atomic_record_dispatch demo_env l governed_state demo_ticket w1 = (Inr demo_ticket, w2)"
    using first_charged [OF r, of l] S(1,2,3,5) G(2,6) F(4) s demo_ticket_fields
    by (auto simp: d(2) paid_runtime_def governed_db_def demo_runtime_def demo_db_def sqlite_int_def)
  have run: "runtime_run paid_runtime w1" using runtime_use.others [OF other_users.claims [OF l]] by blast
  have "cd_dispatches (rd_db w1) = []" "st_budgets (cd_store (rd_db w1)) ''T'' = Some (demo_row 2)"
    by (simp_all add: d(2) paid_runtime_def governed_db_def demo_db_def)
  then have "\<exists>row. st_budgets (cd_store (rd_db w2)) ''T'' = Some row \<and> bu_steps_used row = 1 \<and> bu_max_steps row = 2"
    using dispatch_within_budget [OF G(3-5) run, THEN conjunct2, THEN conjunct2, rule_format, OF w2]
    by (auto simp: demo_ticket_fields demo_row_def)
  with l w2 show ?thesis by blast
qed

end
