(* ===== verification/Runtime_Composition.thy ===== *)
theory Runtime_Composition
  imports Dispatch_Budget
begin

text \<open>
  Model of \<open>src/three_agent/execution_runtime_composition.py\<close>: the execution runtime of one run, put together from the
  execution scheduler, the writer lease, the atomic checkpoint repository and the dispatch budget, and what it ensures
  across a crash and a change of hands. Python objects of the wrong class are not representable; the identity comparisons of
  \<open>validate\<close> compare objects the composition itself has put in place.
\<close>

section \<open>Composition\<close>

abbreviation RC :: exc_class where "RC \<equiv> ExecutionRuntimeCompositionError"

definition EXECUTION_RUNTIME_COMPOSITION_SCHEMA :: string where
  "EXECUTION_RUNTIME_COMPOSITION_SCHEMA = ''workspace-execution-runtime-composition/v1''"

text \<open>The repository of the runtime is known by its lease, and the budget guard by its budget.\<close>

record runtime =
  wr_run_id :: string
  wr_writer_lease :: writer_lease
  wr_repository_lease :: writer_lease
  wr_scheduler :: scheduler
  wr_schema_version :: string

definition runtime_validate :: "runtime \<Rightarrow> runtime result" where
  "runtime_validate rt = checked
     [fail_if RC (wr_schema_version rt \<noteq> EXECUTION_RUNTIME_COMPOSITION_SCHEMA) ''EXECUTION_RUNTIME_COMPOSITION_SCHEMA_MISMATCH'',
      fail_if RC (wr_run_id rt \<noteq> wl_run_id (wr_writer_lease rt)) ''EXECUTION_RUNTIME_COMPOSITION_RUN_ID_MISMATCH'',
      void (lease_validate (wr_writer_lease rt)),
      fail_if RC (wl_status (wr_writer_lease rt) \<noteq> ''ACTIVE'') ''EXECUTION_RUNTIME_COMPOSITION_WRITER_NOT_ACTIVE'',
      fail_if RC (wr_repository_lease rt \<noteq> wr_writer_lease rt) ''EXECUTION_RUNTIME_COMPOSITION_LEASE_BINDING_MISMATCH''] rt"

text \<open>What is checked before anything is written.\<close>

definition composition_checks :: "string \<Rightarrow> string \<Rightarrow> task_context \<Rightarrow> execution_plan \<Rightarrow> authority \<Rightarrow> budget_state \<Rightarrow> int \<Rightarrow> string list \<Rightarrow> unit result" where
  "composition_checks db_path run_id c p parent st n reapproved = checked
     [fail_if RC (run_id = [] \<or> run_id \<noteq> strip run_id) ''EXECUTION_RUNTIME_RUN_ID_REQUIRED'',
      fail_if RC (\<not> (1 \<le> n \<and> n \<le> MAX_SCHEDULER_CONCURRENCY)) ''EXECUTION_RUNTIME_MAX_CONCURRENCY_INVALID'',
      fail_if RC (list_ex (\<lambda>i. strip i = []) reapproved) ''EXECUTION_RUNTIME_REAPPROVED_NODE_INVALID'',
      void (reraise is_scheduler_error RC ''EXECUTION_RUNTIME_CANONICAL_ADMISSION_FAILED'' (evaluate c p parent [] [])),
      fail_if RC (bs_task_id st \<noteq> ep_task_id p) ''EXECUTION_RUNTIME_BUDGET_TASK_SCOPE_MISMATCH'',
      fail_if RC (bs_db_path st \<noteq> db_path) ''EXECUTION_RUNTIME_BUDGET_STORE_MISMATCH'',
      (case controller_checks db_path st of
         Inl (cl, m) \<Rightarrow> if cl = BE then raise RC (''EXECUTION_RUNTIME_DISPATCH_BUDGET_BINDING_FAILED:'' @ m) else Inl (cl, m) | Inr _ \<Rightarrow> Inr ())] ()"

definition claim_failed :: "exn \<Rightarrow> exn" where
  "claim_failed x = (if fst x = WL then (RC, ''EXECUTION_RUNTIME_WRITER_CLAIM_FAILED:'' @ snd x) else x)"

definition scheduler_failed :: "exn \<Rightarrow> exn" where
  "scheduler_failed x = (if fst x = SE then (RC, ''EXECUTION_RUNTIME_SCHEDULER_COMPOSITION_FAILED'') else x)"

definition claim_for_plan :: "db_env \<Rightarrow> execution_plan \<Rightarrow> string \<Rightarrow> (runtime_db, writer_lease) action" where
  "claim_for_plan e p run_id = bindA (readA (\<lambda>_. plan_fingerprint p)) (\<lambda>pf. claim e (ep_task_id p) pf run_id None)"

definition compose :: "db_env \<Rightarrow> string \<Rightarrow> string \<Rightarrow> task_context \<Rightarrow> execution_plan \<Rightarrow> authority \<Rightarrow> budget_state \<Rightarrow> int \<Rightarrow> string list \<Rightarrow> (runtime_db, runtime) action" where
  "compose e db_path run_id c p parent st n reapproved =
     bindA (readA (\<lambda>_. composition_checks db_path run_id c p parent st n reapproved)) (\<lambda>_.
     bindA (lease_initialize e) (\<lambda>_.
     bindA (exceptA claim_failed (claim_for_plan e p run_id)) (\<lambda>l.
     bindA (readA (\<lambda>_. fence_checks l)) (\<lambda>_.
     bindA (exceptA scheduler_failed (new_scheduler (atomic_guards e l st) c p parent n reapproved)) (\<lambda>s.
     readA (\<lambda>_. runtime_validate \<lparr>wr_run_id = run_id, wr_writer_lease = l, wr_repository_lease = l, wr_scheduler = s,
       wr_schema_version = EXECUTION_RUNTIME_COMPOSITION_SCHEMA\<rparr>))))))"

section \<open>What a composition does\<close>

lemma composition_checks_iff: "composition_checks db_path run_id c p parent st n re = Inr u \<longleftrightarrow> run_id \<noteq> [] \<and> run_id = strip run_id \<and> 1 \<le> n \<and> n \<le> MAX_SCHEDULER_CONCURRENCY
   \<and> (\<forall>i \<in> set re. strip i \<noteq> []) \<and> (\<exists>d. evaluate c p parent [] [] = Inr d) \<and> bs_task_id st = ep_task_id p \<and> bs_db_path st = db_path"
  by (auto simp: composition_checks_def checked_iff list_ex_iff reraise_def controller_checks_def fail_if_def split: sum.splits if_splits)

lemma compose_iff:
  "compose e db_path run_id c p parent st n re w = (Inr rt, w') \<longleftrightarrow> composition_checks db_path run_id c p parent st n re = Inr ()
    \<and> (\<exists>w1 w2 pf l s. lease_initialize e w = (Inr (), w1) \<and> plan_fingerprint p = Inr pf \<and> claim e (ep_task_id p) pf run_id None w1 = (Inr l, w2)
       \<and> lease_ok l \<and> wl_status l = ''ACTIVE'' \<and> wl_run_id l = run_id \<and> new_scheduler (atomic_guards e l st) c p parent n re w2 = (Inr s, w')
       \<and> rt = \<lparr>wr_run_id = run_id, wr_writer_lease = l, wr_repository_lease = l, wr_scheduler = s, wr_schema_version = EXECUTION_RUNTIME_COMPOSITION_SCHEMA\<rparr>)"
  by (auto simp: compose_def claim_for_plan_def bindA_Inr_iff runtime_validate_def checked_iff fence_checks_def bindE_Inr_iff)

section \<open>The current writer gets through\<close>

lemma holder_created [simp]: "holder (d\<lparr>ld_created := c\<rparr>) = holder d"
  by (simp add: holder_def fun_eq_iff)

lemma current_writer:
  assumes "leases_inv (rd_lease w)" "holder (rd_lease w) (scope_of l) = Some l" "wl_status l = ''ACTIVE''" "ld_created (rd_lease w)" "de_fault e (cd_tick (rd_db w)) = None"
  shows "require_current_writer e l w = Inr l"
proof -
  have "lease_ok l" using holder_row(3) [OF assms(1,2)] by simp
  then have "require_current_in_transaction l (rd_lease w) = Inr l" using assms(2-4) unfolding require_iff [OF assms(1)] by simp
  with assms(5) show ?thesis by (simp add: require_current_writer_def require_current_def reading_def)
qed

abbreviation calm :: "db_env \<Rightarrow> runtime_db \<Rightarrow> nat \<Rightarrow> bool" where
  "calm e w n \<equiv> \<forall>k \<le> n. de_fault e (cd_tick (rd_db w) + k) = None"

lemma writer_initializes:
  assumes "leases_inv (rd_lease w)" "holder (rd_lease w) (scope_of l) = Some l" "wl_status l = ''ACTIVE''" "calm e w 2"
  shows "\<exists>w'. atomic_initialize e l w = (Inr (), w') \<and> rd_lease w' = (rd_lease w)\<lparr>ld_created := True\<rparr> \<and> cd_created (rd_db w')
    \<and> cd_tick (rd_db w') = cd_tick (rd_db w) + 3 \<and> cd_store (rd_db w') = cd_store (rd_db w)"
proof -
  have f: "de_fault e (cd_tick (rd_db w)) = None" "de_fault e (Suc (cd_tick (rd_db w))) = None" "de_fault e (Suc (Suc (cd_tick (rd_db w)))) = None"
    using assms(4) [rule_format, of 0] assms(4) [rule_format, of 1] assms(4) [rule_format, of 2] by simp_all
  let ?w1 = "w\<lparr>rd_db := (ticked (rd_db w))\<lparr>cd_created := True\<rparr>\<rparr>"
  let ?w2 = "(rd_tick ?w1)\<lparr>rd_lease := (rd_lease w)\<lparr>ld_created := True\<rparr>\<rparr>"
  have "on_db (cp_initialize e) w = (Inr (), ?w1)" using f(1) by (simp add: on_db_def cp_initialize_def Let_def)
  moreover have "lease_initialize e ?w1 = (Inr (), ?w2)" using f(2) by (simp add: lease_initialize_def connection_def)
  moreover have "require_current_writer e l ?w2 = Inr l" using assms(1-3) f(3) by (intro current_writer) simp_all
  ultimately have "fenced_initialize e l w = (Inr (), ?w2)" by (simp add: fenced_initialize_def bindA_def readA_def)
  moreover have "controller_initialize e ?w2 = (Inr (), (rd_tick ?w2)\<lparr>rd_reserving := True\<rparr>)" using f(3) by (simp add: controller_initialize_def connection_def)
  ultimately show ?thesis by (simp add: atomic_initialize_def bindA_def)
qed

lemma writer_loads:
  assumes "fenced_logs tasks A w" "holder (rd_lease w) (scope_of l) = Some l" "wl_status l = ''ACTIVE''" "ld_created (rd_lease w)" "cd_created (rd_db w)"
    "calm e w 0" "scope_of l = (task, pf)" "task \<in> tasks" "is_sha256_ref pf"
  shows "fenced_load e l task pf w = Inr (recovered A task pf)"
proof -
  note F = fenced_logsD [OF assms(1)]
  have f: "de_fault e (cd_tick (rd_db w)) = None" using assms(6) [rule_format, of 0] by simp
  have "find_task (cd_store (rd_db w)) task \<noteq> None" using F(2) assms(8) unfolding find_task_ids by blast
  with load_receipts [OF F(1) _ assms(9)] f assms(5) have load: "cp_load e task pf (rd_db w) = Inr (recovered A task pf)" by (simp add: quiet_def)
  have tables: "checkpoint_tables w = Inr ()" "require_scope l task pf = Inr ()" using assms(5,7) by simp_all
  have "verify_writer_fence_bindings e l w = Inr True"
    unfolding verify_writer_fence_bindings_def reading_def f option.case tables verify_sound [OF mirrorsD(4) [OF F(1)]] bindings_check_True [OF F(3)] by simp
  then show ?thesis unfolding fenced_load_def tables current_writer [OF F(4) assms(2-4) f] load by simp
qed

text \<open>Claiming and composing, seen from the log.\<close>

lemma lease_initialize_frame: "lease_initialize e w = (r, w') \<Longrightarrow> rd_reservations w' = rd_reservations w \<and> cd_store (rd_db w') = cd_store (rd_db w)"
  by (auto simp: lease_initialize_def elim!: connection_cases)

lemma lease_initialize_atomic: "atomic_logs tasks A w \<Longrightarrow> lease_initialize e w = (r, w') \<Longrightarrow> atomic_logs tasks A w'"
  using lease_initialize_logs [of tasks A w e r w'] accounted_cong [of A w A w'] lease_initialize_frame [of e w r w'] by (simp add: atomic_logs_def)

lemma composed_logs:
  assumes "compose e db_path run_id c p parent st n re w = (Inr rt, w')" "atomic_logs {} A w"
  shows "atomic_logs {ep_task_id p} A w' \<and> tracks A (wr_scheduler rt)"
    "\<exists>w2. new_scheduler (atomic_guards e (wr_writer_lease rt) st) c p parent n re w2 = (Inr (wr_scheduler rt), w')"
    "\<exists>pf. plan_fingerprint p = Inr pf \<and> ID_RE (ep_task_id p) \<and> is_sha256_ref pf \<and> scope_of (wr_writer_lease rt) = (ep_task_id p, pf)"
proof -
  obtain w1 w2 pf l s where q: "lease_initialize e w = (Inr (), w1)" "plan_fingerprint p = Inr pf" "claim e (ep_task_id p) pf run_id None w1 = (Inr l, w2)"
      "new_scheduler (atomic_guards e l st) c p parent n re w2 = (Inr s, w')" "wr_writer_lease rt = l" "wr_scheduler rt = s"
    using assms(1) unfolding compose_iff by auto
  have l1: "atomic_logs {} A w1" by (rule lease_initialize_atomic [OF assms(2) q(1)])
  have l2: "atomic_logs {} A w2" by (rule other_users_logs [OF other_users.claims [OF q(3)] l1])
  from atomic.started [OF l2 q(4)] have l3: "atomic_logs {} A w'" "tracks A s" by blast+
  obtain r where "rp_load (atomic_repository e l st) (ep_task_id p) pf w' = Inr r"
    using q(2,4) by (auto simp: new_scheduler_iff restore_checkpoint_iff atomic_guards_def fresh_scheduler_def)
  then have "cp_load e (ep_task_id p) pf (rd_db w') = Inr r" by (auto simp: atomic_repository_def fenced_repository_def fenced_load_def bindE_Inr_iff split: if_splits)
  from load_requires [OF this] have "ep_task_id p \<in> task_ids (cd_store (rd_db w'))" unfolding find_task_ids by blast
  with l3(1) have "atomic_logs {ep_task_id p} A w'" by (simp add: atomic_logs_def fenced_logs_def)
  with l3(2) show "atomic_logs {ep_task_id p} A w' \<and> tracks A (wr_scheduler rt)" by (simp add: q(6))
  show "\<exists>w2. new_scheduler (atomic_guards e (wr_writer_lease rt) st) c p parent n re w2 = (Inr (wr_scheduler rt), w')" using q(4-6) by blast
  obtain v d where "claim_transaction (ep_task_id p) pf run_id v (cd_store (rd_db w1)) (rd_lease w1) = Inr (l, d)" "ID_RE (ep_task_id p)" "is_sha256_ref pf"
    using claim_Inr [OF q(3)] by blast
  with claim_spec(8) [OF fenced_logsD(4) [OF atomic_logsD(1) [OF l1]]] q(2,5)
  show "\<exists>pf. plan_fingerprint p = Inr pf \<and> ID_RE (ep_task_id p) \<and> is_sha256_ref pf \<and> scope_of (wr_writer_lease rt) = (ep_task_id p, pf)" by auto
qed

lemma atomic_refused:
  assumes "\<And>c. require_current_in_transaction l (rd_lease w) \<noteq> Inr c"
  shows "refused (atomic_record_dispatch e l st t) w"
proof -
  have "prepare (fenced l (dt_task_id t) (dt_plan_fingerprint t) (dispatch_payload t)) (\<lambda>x. connection e (atomic_insert_dispatch l st t (fst x) (snd x))) w \<noteq> (Inr u, w')" for u w'
    using assms by (auto elim!: prepare_cases connection_cases simp: atomic_insert_dispatch_def bindE_Inr_iff)
  from call_refused [OF this] show ?thesis unfolding atomic_record_dispatch_def case_prod_unfold .
qed

lemma composition_again:
  assumes "composition_checks db_path run_a c p parent st n re = Inr ()" "ID_RE run_b" "sched_inv s" "sc_plan s = p" "sc_parent_authority s = parent"
    "set re' = {i \<in> tracked s. needs_approval p i}"
  shows "composition_checks db_path run_b c p parent st n re' = Inr ()"
proof -
  have "strip i \<noteq> []" if "i \<in> set re'" for i
  proof -
    have v: "plan_validate p (Some parent) = Inr p" using sched_invD(1) [OF assms(3)] assms(4,5) by (simp add: bound_def)
    from that assms(6) obtain m where m: "node_map p i = Some m" by (auto simp: needs_approval_def)
    then have "m \<in> set (ep_nodes p)" using nodes_by_id_distinct [OF plan_ordered(2) [OF v]] by (simp add: node_map_def)
    with m plan_node_id [OF v] node_map_id show ?thesis by auto
  qed
  moreover have "run_b \<noteq> []" using assms(2) by (auto simp: ID_RE_def ident_match_def)
  ultimately show ?thesis using assms(1) ID_RE_strip [OF assms(2)] unfolding composition_checks_iff by auto
qed

text \<open>A run claims the plan and composes its runtime on the log the last run left.\<close>

lemma recomposed:
  assumes "atomic_logs {ep_task_id p} B w" "tracks B s" "sc_task_context s = c" "sc_plan s = p" "sc_parent_authority s = parent" "sc_max_concurrency s = n"
    "plan_fingerprint p = Inr pf" "ID_RE (ep_task_id p)" "is_sha256_ref pf" "ID_RE run_b" "composition_checks db_path run_b c p parent st n re = Inr ()"
    "calm e w 5" "0 \<le> de_clock e (cd_tick (rd_db w) + 1)" "de_clock e (cd_tick (rd_db w) + 1) < MAX_LOCAL"
    "sqlite_int (next_generation (holder (rd_lease w) (ep_task_id p, pf)))" "set re = {i \<in> tracked s. needs_approval p i}"
  obtains rt w' where "compose e db_path run_b c p parent st n re w = (Inr rt, w')" "wr_run_id rt = run_b" "wl_run_id (wr_writer_lease rt) = run_b"
    "recovers s (wr_scheduler rt)" "holder (rd_lease w') (ep_task_id p, pf) = Some (wr_writer_lease rt)" "leases_inv (rd_lease w')" "atomic_logs {ep_task_id p} B w'"
proof -
  let ?k = "cd_tick (rd_db w)" and ?task = "ep_task_id p"
  have f: "de_fault e ?k = None" "de_fault e (?k + 1) = None" "\<And>j. j \<le> 5 \<Longrightarrow> de_fault e (?k + j) = None"
    using assms(12) [rule_format, of 0] assms(12) [rule_format, of 1] assms(12) by simp_all
  let ?w1 = "(rd_tick w)\<lparr>rd_lease := (rd_lease w)\<lparr>ld_created := True\<rparr>\<rparr>"
  have i: "lease_initialize e w = (Inr (), ?w1)" using f(1) by (simp add: lease_initialize_def connection_def)
  have l1: "atomic_logs {?task} B ?w1" by (rule lease_initialize_atomic [OF assms(1) i])
  note F1 = fenced_logsD [OF atomic_logsD(1) [OF l1]]
  have "find_task (cd_store (rd_db ?w1)) ?task \<noteq> None" using F1(2) unfolding find_task_ids by simp
  then have "\<exists>l w2. claim e ?task pf run_b None ?w1 = (Inr l, w2)"
    using f(2) assms(13-15) by (intro claim_available [OF F1(4) _ _ assms(8,9,10)]) simp_all
  then obtain l w2 where cl: "claim e ?task pf run_b None ?w1 = (Inr l, w2)" by blast
  obtain v d where d: "claim_transaction ?task pf run_b v (cd_store (rd_db ?w1)) (rd_lease ?w1) = Inr (l, d)" "w2 = (rd_tick ?w1)\<lparr>rd_lease := d\<rparr>"
    using claim_Inr [OF cl] by blast
  note S = claim_spec [OF F1(4) d(1)]
  have l2: "atomic_logs {?task} B w2" by (rule other_users_logs [OF other_users.claims [OF cl] l1])
  have sc: "scope_of l = (?task, pf)" using S(8) by simp
  have h: "holder (rd_lease w2) (scope_of l) = Some l" unfolding sc using S(2) by (simp add: d(2))
  have ok: "lease_ok l" using holder_row(3) [OF fenced_logsD(4) [OF atomic_logsD(1) [OF l2]] h] by simp
  have tick: "cd_tick (rd_db w2) = ?k + 2" by (simp add: d(2))
  have "calm e w2 2"
  proof (intro allI impI)
    fix j :: nat assume "j \<le> 2"
    with f(3) [of "2 + j"] show "de_fault e (cd_tick (rd_db w2) + j) = None" by (simp add: tick)
  qed
  from writer_initializes [OF fenced_logsD(4) [OF atomic_logsD(1) [OF l2]] h S(3) this] obtain w3 where
    w3: "atomic_initialize e l w2 = (Inr (), w3)" "rd_lease w3 = (rd_lease w2)\<lparr>ld_created := True\<rparr>" "cd_created (rd_db w3)" "cd_tick (rd_db w3) = cd_tick (rd_db w2) + 3" by blast
  have l3: "atomic_logs {?task} B w3" by (rule atomic_initialize_logs [OF l2 w3(1)])
  have "cd_tick (rd_db w3) = ?k + 5" by (simp add: w3(4) d(2))
  then have "calm e w3 0" using f(3) [of 5] by simp
  with writer_loads [OF atomic_logsD(1) [OF l3], of l e ?task pf] w3(2,3) h S(3) sc assms(9)
  have ld: "fenced_load e l ?task pf w3 = Inr (recovered B ?task pf)" by simp
  have "\<exists>s'. new_scheduler (atomic_guards e l st) (sc_task_context s) (sc_plan s) (sc_parent_authority s) (sc_max_concurrency s) re w2 = (Inr s', w3) \<and> recovers s s'"
    by (rule atomic.recovery [OF l2 assms(2)]) (use w3(1) ld assms(4,7,16) in \<open>simp_all add: atomic_repository_def fenced_repository_def\<close>)
  then obtain s' where s': "new_scheduler (atomic_guards e l st) c p parent n re w2 = (Inr s', w3)" "recovers s s'" unfolding assms(3-6) by blast
  let ?rt = "\<lparr>wr_run_id = run_b, wr_writer_lease = l, wr_repository_lease = l, wr_scheduler = s', wr_schema_version = EXECUTION_RUNTIME_COMPOSITION_SCHEMA\<rparr>"
  have "compose e db_path run_b c p parent st n re w = (Inr ?rt, w3)"
    unfolding compose_iff using assms(7,11) i cl ok S(3,4) s'(1) by blast
  moreover have "holder (rd_lease w3) (?task, pf) = Some l" using h unfolding sc by (simp add: w3(2))
  ultimately show ?thesis using that [of ?rt w3] s'(2) S(4) l3 fenced_logsD(4) [OF atomic_logsD(1) [OF l3]] by simp
qed

section \<open>A change of hands loses nothing\<close>

text \<open>C1: the composed runtime across a crash. In a database whose runtime tables started empty and were used by any writers, a run composes
  its runtime, works for any time, its operations succeeding or failing, while leases change hands and other parties use the database,
  and stops at any point. If then a run (the same or another) composes the runtime of the same task and plan again, with the approvals of the nodes that were
  dispatched and need one, while the six database calls of the composition meet no lock and the clock and the lease generation are in
  range, the composition succeeds. The new scheduler knows exactly the accepted observations and approvals, has nothing in flight, holds every
  open ticket for recovery, and never dispatches a node again that was dispatched before; there is one charged reservation for every
  dispatch; and if the run is another one, the first run's lease can record no dispatch, observation or cancellation and load nothing any more, unless
  the texts of the two runs' leases differ and have the same SHA-256 digest.\<close>

theorem composed_recovery:
  assumes "empty_tables w00" "rd_reservations w00 = []" "budgets_wf (cd_store (rd_db w00))" "runtime_run w00 w0"
    and "compose e db_path run_a c p parent st n re w0 = (Inr rt, w1)"
    and "durable_run (atomic_guards e (wr_writer_lease rt) st) runtime_ids other_users (wr_scheduler rt, w1) (s, w)"
    and "\<forall>k \<le> 5. de_fault e (cd_tick (rd_db w) + k) = None" "0 \<le> de_clock e (cd_tick (rd_db w) + 1)" "de_clock e (cd_tick (rd_db w) + 1) < MAX_LOCAL"
    and "ID_RE run_b" "sqlite_int (next_generation (holder (rd_lease w) (wl_task_id (wr_writer_lease rt), wl_plan_fingerprint (wr_writer_lease rt))))"
    and "set re' = {i \<in> tracked s. needs_approval p i}"
  shows "\<exists>rt' w'. compose e db_path run_b c p parent st n re' w = (Inr rt', w') \<and> wr_run_id rt' = run_b
    \<and> map_of (sc_observations (wr_scheduler rt')) = map_of (sc_observations s) \<and> set (sc_approved_nodes (wr_scheduler rt')) = set (sc_approved_nodes s)
    \<and> sc_in_flight (wr_scheduler rt') = [] \<and> set (sc_recovery_required (wr_scheduler rt')) = set (sc_in_flight s @ sc_recovery_required s)
    \<and> (\<forall>i s'' w'' ok t x. i \<in> tracked s \<and> sched_run (atomic_guards e (wr_writer_lease rt') st) other_users (wr_scheduler rt', w') (s'', w'') \<longrightarrow>
         issue_dispatch (atomic_guards e (wr_writer_lease rt') st) i ok (s'', w'') \<noteq> (Inr t, x))
    \<and> map (\<lambda>r. (rr_task_id r, rr_plan_fingerprint r, rr_node_id r)) (rd_reservations w')
        = map (\<lambda>d. (dr_task_id d, dr_plan_fingerprint d, dr_node_id d)) (cd_dispatches (rd_db w'))
    \<and> (run_b \<noteq> run_a \<longrightarrow> (\<forall>e' st' t. refused (atomic_record_dispatch e' (wr_writer_lease rt) st' t) w')
         \<and> (\<forall>e' b. refused (fenced_record_observation e' (wr_writer_lease rt) b) w')
         \<and> (\<forall>e' task_id pf reason. refused (fenced_record_cancellation e' (wr_writer_lease rt) task_id pf reason) w')
         \<and> (\<forall>e' task_id pf state. fenced_load e' (wr_writer_lease rt) task_id pf w' \<noteq> Inr state)
       \<or> dumps (lease_json (wr_writer_lease rt')) \<noteq> dumps (lease_json (wr_writer_lease rt))
         \<and> sha256_ref (dumps (lease_json (wr_writer_lease rt'))) = sha256_ref (dumps (lease_json (wr_writer_lease rt))))"
proof -
  let ?l = "wr_writer_lease rt" and ?task = "ep_task_id p"
  obtain A where A: "atomic_logs {} A w0" using runtime_run_logs [OF assms(4) empty_atomic [OF assms(1-3)], of "{}"] by blast
  note C = composed_logs [OF assms(5) A]
  obtain pf where pf: "plan_fingerprint p = Inr pf" "ID_RE ?task" "is_sha256_ref pf" "scope_of ?l = (?task, pf)" using C(3) by blast
  obtain w2 where w2: "new_scheduler (atomic_guards e ?l st) c p parent n re w2 = (Inr (wr_scheduler rt), w1)" using C(2) by blast
  note start = new_scheduler_inv [OF w2]
  have eq: "sched_inv s" "sc_task_context s = c" "sc_plan s = p" "sc_parent_authority s = parent" "sc_max_concurrency s = n"
    using sched_run_grows [OF start(1) durable_sched [OF assms(6)]] start by (simp_all add: grows_def)
  from atomic.run_keeps [OF assms(6)] C(1) obtain B where B: "atomic_logs {?task} B w" "tracks B s" by auto
  have "composition_checks db_path run_a c p parent st n re = Inr ()" using assms(5) by (simp add: compose_iff)
  note again = composition_again [OF this assms(10) eq(1,3,4) assms(12)]
  have gen: "sqlite_int (next_generation (holder (rd_lease w) (?task, pf)))" using assms(11) pf(4) by simp
  obtain rt' w' where R: "compose e db_path run_b c p parent st n re' w = (Inr rt', w')" "wr_run_id rt' = run_b" "wl_run_id (wr_writer_lease rt') = run_b"
    "recovers s (wr_scheduler rt')" "holder (rd_lease w') (?task, pf) = Some (wr_writer_lease rt')" "leases_inv (rd_lease w')" "atomic_logs {?task} B w'"
    by (rule recomposed [OF B eq(2-5) pf(1-3) assms(10) again assms(7-9) gen assms(12)])
  obtain w3 where w3: "new_scheduler (atomic_guards e (wr_writer_lease rt') st) c p parent n re' w3 = (Inr (wr_scheduler rt'), w')"
    using R(1) unfolding compose_iff by auto
  have tr: "tracked (wr_scheduler rt') = tracked s" using R(4) by (simp add: recovers_def)
  then have "issue_dispatch (atomic_guards e (wr_writer_lease rt') st) i ok (s'', w'') \<noteq> (Inr t, x)"
    if "i \<in> tracked s" "sched_run (atomic_guards e (wr_writer_lease rt') st) other_users (wr_scheduler rt', w') (s'', w'')" for i s'' w'' ok t x
    using no_redispatch [OF new_scheduler_inv(1) [OF w3] that(2)] that(1) by simp
  then have redo: "\<forall>i s'' w'' ok t x. i \<in> tracked s \<and> sched_run (atomic_guards e (wr_writer_lease rt') st) other_users (wr_scheduler rt', w') (s'', w'') \<longrightarrow>
      issue_dispatch (atomic_guards e (wr_writer_lease rt') st) i ok (s'', w'') \<noteq> (Inr t, x)" by blast
  have paid: "map reservation_key (rd_reservations w') = map (\<lambda>d. (dr_task_id d, dr_plan_fingerprint d, dr_node_id d)) (cd_dispatches (rd_db w'))"
    using atomic_logsD(2) [OF R(7)] rows_of_tickets(1) [OF mirrorsD(1) [OF fenced_logsD(1) [OF atomic_logsD(1) [OF R(7)]]]] by (simp add: accounted_def)
  have "(\<forall>e' st' t. refused (atomic_record_dispatch e' (wr_writer_lease rt) st' t) w')
         \<and> (\<forall>e' b. refused (fenced_record_observation e' (wr_writer_lease rt) b) w')
         \<and> (\<forall>e' task_id pf reason. refused (fenced_record_cancellation e' (wr_writer_lease rt) task_id pf reason) w')
         \<and> (\<forall>e' task_id pf state. fenced_load e' (wr_writer_lease rt) task_id pf w' \<noteq> Inr state)
       \<or> dumps (lease_json (wr_writer_lease rt')) \<noteq> dumps (lease_json (wr_writer_lease rt))
         \<and> sha256_ref (dumps (lease_json (wr_writer_lease rt'))) = sha256_ref (dumps (lease_json (wr_writer_lease rt)))" if "run_b \<noteq> run_a"
  proof (cases "\<exists>c. require_current_in_transaction ?l (rd_lease w') = Inr c")
    case True
    then have "digest (lease_json (wr_writer_lease rt')) = digest (lease_json ?l)" using R(5) pf(4) by (auto simp: require_iff [OF R(6)])
    moreover have "wl_run_id ?l = run_a" using assms(5) by (auto simp: compose_iff)
    with R(3) that have "wr_writer_lease rt' \<noteq> ?l" by auto
    ultimately show ?thesis using lease_text_inject [of "wr_writer_lease rt'" ?l] by (auto simp: digest_def)
  next
    case False
    then have n: "require_current_in_transaction ?l (rd_lease w') \<noteq> Inr c" for c by blast
    show ?thesis by (intro disjI1 conjI allI atomic_refused fenced_refused n) (use n fenced_needs_writer(4) in blast)
  qed
  note shut = impI [OF this]
  have same: "map_of (sc_observations (wr_scheduler rt')) = map_of (sc_observations s)" "set (sc_approved_nodes (wr_scheduler rt')) = set (sc_approved_nodes s)"
    "sc_in_flight (wr_scheduler rt') = []" "set (sc_recovery_required (wr_scheduler rt')) = set (sc_in_flight s @ sc_recovery_required s)"
    using R(4) by (simp_all add: recovers_def)
  show ?thesis by (intro exI [of _ rt'] exI [of _ w'] conjI R(1,2) same redo paid shut)
qed

lemma paid_composed:
  obtains rt w where "compose demo_env [] ''run-a'' demo_plan_context demo_plan demo_plan_authority governed_state 4 [] paid_runtime = (Inr rt, w)"
    "wl_generation (wr_writer_lease rt) = 1" "holder (rd_lease w) (wl_task_id (wr_writer_lease rt), wl_plan_fingerprint (wr_writer_lease rt)) = Some (wr_writer_lease rt)"
    "tracked (wr_scheduler rt) = {}"
proof -
  note G = paid_facts and F = demo_runtime_facts(3-8)
  obtain pf where pf: "plan_fingerprint demo_plan = Inr pf" "is_sha256_ref pf" using demo_plan_fingerprint demo_plan_task(2) by auto
  have "logs_for ''T'' no_receipts governed_db" using governed_find unfolding logs_for_def find_task_ids by blast
  with plain.started [OF _ governed_start] have tr: "tracks no_receipts demo_scheduler" by blast
  have t: "tracked demo_scheduler = {}" by (simp add: tracked_def demo_scheduler_def fresh_scheduler_def)
  have ev: "\<exists>d. evaluate demo_plan_context demo_plan demo_plan_authority [] [] = Inr d"
    using governed_start unfolding new_scheduler_iff scheduler_checks_iff by blast
  have "strip ''run-a'' = ''run-a''" by (rule ID_RE_strip [OF F(2)])
  then have ch: "composition_checks [] ''run-a'' demo_plan_context demo_plan demo_plan_authority governed_state 4 [] = Inr ()"
    unfolding composition_checks_iff using ev by (simp add: governed_state_def demo_plan_task(1) MAX_SCHEDULER_CONCURRENCY_def)
  have logs: "atomic_logs {ep_task_id demo_plan} no_receipts paid_runtime"
    using empty_atomic [OF G(3-5), of "{''T''}"] G(2) unfolding find_task_ids demo_plan_task(1) by simp
  have calm: "calm demo_env paid_runtime 5" using F(4) by blast
  obtain rt w where r: "compose demo_env [] ''run-a'' demo_plan_context demo_plan demo_plan_authority governed_state 4 [] paid_runtime = (Inr rt, w)"
    "recovers demo_scheduler (wr_scheduler rt)" "holder (rd_lease w) (ep_task_id demo_plan, pf) = Some (wr_writer_lease rt)" "leases_inv (rd_lease w)"
    by (rule recomposed [OF logs tr _ _ _ _ pf(1) _ pf(2) F(2) ch calm F(5,6)])
      (use F(1) G(7) t in \<open>simp_all add: demo_scheduler_fields demo_plan_task(1) next_generation_def sqlite_int_def demo_scheduler_def fresh_scheduler_def\<close>)
  obtain w1 w2 l pf' where c: "lease_initialize demo_env paid_runtime = (Inr (), w1)" "claim demo_env (ep_task_id demo_plan) pf' ''run-a'' None w1 = (Inr l, w2)" "wr_writer_lease rt = l"
    using r(1) unfolding compose_iff by auto
  have w1: "rd_lease w1 = (rd_lease paid_runtime)\<lparr>ld_created := True\<rparr>" using c(1) by (auto simp: lease_initialize_def elim!: connection_cases)
  then have inv: "leases_inv (rd_lease w1)" "holder (rd_lease w1) = Map.empty" using G(1,7) by simp_all
  obtain v d where "claim_transaction (ep_task_id demo_plan) pf' ''run-a'' v (cd_store (rd_db w1)) (rd_lease w1) = Inr (l, d)" using claim_Inr [OF c(2)] by blast
  from claim_spec(6) [OF inv(1) this] have "wl_generation (wr_writer_lease rt) = 1" by (simp add: inv(2) c(3) next_generation_def)
  moreover have "(ep_task_id demo_plan, pf) = scope_of (wr_writer_lease rt)" using holder_row(3) [OF r(4,3)] by simp
  ultimately show ?thesis using that [OF r(1)] r(2,3) t by (simp add: recovers_def)
qed

theorem composed_recovery_witness:
  "\<exists>rt w rt' w'. compose demo_env [] ''run-a'' demo_plan_context demo_plan demo_plan_authority governed_state 4 [] paid_runtime = (Inr rt, w)
     \<and> compose demo_env [] ''run-b'' demo_plan_context demo_plan demo_plan_authority governed_state 4 [] w = (Inr rt', w')
     \<and> ((\<forall>e' st' t. refused (atomic_record_dispatch e' (wr_writer_lease rt) st' t) w')
         \<and> (\<forall>e' b. refused (fenced_record_observation e' (wr_writer_lease rt) b) w')
         \<and> (\<forall>e' task_id pf reason. refused (fenced_record_cancellation e' (wr_writer_lease rt) task_id pf reason) w')
         \<and> (\<forall>e' task_id pf state. fenced_load e' (wr_writer_lease rt) task_id pf w' \<noteq> Inr state)
       \<or> dumps (lease_json (wr_writer_lease rt')) \<noteq> dumps (lease_json (wr_writer_lease rt))
         \<and> sha256_ref (dumps (lease_json (wr_writer_lease rt'))) = sha256_ref (dumps (lease_json (wr_writer_lease rt))))"
proof (rule paid_composed)
  note G = paid_facts and F = demo_runtime_facts(3-8)
  fix rt w assume c: "compose demo_env [] ''run-a'' demo_plan_context demo_plan demo_plan_authority governed_state 4 [] paid_runtime = (Inr rt, w)"
    "wl_generation (wr_writer_lease rt) = 1" "holder (rd_lease w) (wl_task_id (wr_writer_lease rt), wl_plan_fingerprint (wr_writer_lease rt)) = Some (wr_writer_lease rt)"
    "tracked (wr_scheduler rt) = {}"
  have "sqlite_int (next_generation (holder (rd_lease w) (wl_task_id (wr_writer_lease rt), wl_plan_fingerprint (wr_writer_lease rt))))"
    unfolding c(3) by (simp add: next_generation_def c(2) sqlite_int_def)
  from composed_recovery [OF G(3-5) rtranclp.rtrancl_refl c(1) rtranclp.rtrancl_refl _ F(5,6,3) this, of "[]"] F(4) c(1,4) show ?thesis by fastforce
qed

end
