(* ===== verification/Runtime_Checkpoint.thy ===== *)
theory Runtime_Checkpoint
  imports Runtime_Scheduler
begin

text \<open>
  Model of \<open>src/three_agent/runtime_checkpoint.py\<close>: a checkpoint names the task context, the plan, the authority, the
  scheduling decision, the approvals and the observations of a moment by their fingerprints; the codec writes it as one
  canonical JSON text; recovery revalidates everything against a checkpoint and says whether work may go on, without
  running anything. Checkpoints are read back from texts, so their fields hold whatever JSON the text had until they
  are validated: the fields are JSON values here, as they are untyped in the dataclass.
\<close>

section \<open>Checks of untyped fields\<close>

abbreviation CK :: exc_class where "CK \<equiv> RuntimeCheckpointError"

definition RUNTIME_CHECKPOINT_SCHEMA :: string where
  "RUNTIME_CHECKPOINT_SCHEMA = ''workspace-runtime-checkpoint/v1''"

definition RUNTIME_CHECKPOINT_ENVELOPE_SCHEMA :: string where
  "RUNTIME_CHECKPOINT_ENVELOPE_SCHEMA = ''workspace-runtime-checkpoint-envelope/v1''"

definition RUNTIME_RECOVERY_DECISION_SCHEMA :: string where
  "RUNTIME_RECOVERY_DECISION_SCHEMA = ''workspace-runtime-recovery-decision/v1''"

definition RECOVERY_STATUSES :: "string list" where
  "RECOVERY_STATUSES = [''RECOVERABLE'', ''MANUAL_RECONCILIATION'', ''BLOCKED'', ''COMPLETE'']"

text \<open>\<open>isinstance(value, str)\<close> before a check on strings.\<close>

definition str_field :: "exc_class \<Rightarrow> (string \<Rightarrow> 'a result) \<Rightarrow> string \<Rightarrow> json \<Rightarrow> 'a result" where
  "str_field e chk field v = (case v of JStr s \<Rightarrow> chk s | _ \<Rightarrow> invalid e field)"

definition ck_sha256 :: "json \<Rightarrow> string \<Rightarrow> string result" where
  "ck_sha256 v field = str_field CK (\<lambda>s. sha256_field CK s field) field v"

definition ck_compact_id :: "json \<Rightarrow> string \<Rightarrow> string result" where
  "ck_compact_id v field = str_field CK (\<lambda>s. id_field CK s field) field v"

definition ck_timestamp :: "json \<Rightarrow> string \<Rightarrow> string result" where
  "ck_timestamp v field = str_field CK (\<lambda>s.
     if s = [] \<or> s \<noteq> strip s then invalid CK field
     else case fromisoformat (zulu s) of None \<Rightarrow> invalid CK field
     | Some p \<Rightarrow> if dt_offset p = None then raise CK (upper field @ ''_MUST_BE_TIMEZONE_AWARE'')
         else bindE (utc_text p) (\<lambda>canonical.
           if canonical \<noteq> s then raise CK (upper field @ ''_MUST_BE_NORMALIZED_UTC'') else Inr s)) field v"

definition ck_iso8601 :: "pydt \<Rightarrow> string result" where
  "ck_iso8601 t = (if dt_offset t = None then raise CK ''CAPTURED_AT_MUST_BE_TIMEZONE_AWARE'' else utc_text t)"

text \<open>The loop that \<open>_normalized_ids\<close> and \<open>_normalized_hashes\<close> share.\<close>

definition collect_unique :: "exc_class \<Rightarrow> (json \<Rightarrow> string result) \<Rightarrow> string \<Rightarrow> string list \<Rightarrow> json \<Rightarrow> string list result" where
  "collect_unique e chk field result v = bindE (chk v) (\<lambda>item.
     if item \<in> set result then raise e (''DUPLICATE_'' @ upper field) else Inr (result @ [item]))"

definition ck_normalized_ids :: "json list \<Rightarrow> string \<Rightarrow> string list result" where
  "ck_normalized_ids values field =
     bindE (foldE (collect_unique CK (\<lambda>v. ck_compact_id v field) field) [] values) (\<lambda>result. Inr (sort result))"

definition ck_normalized_hashes :: "json list \<Rightarrow> string \<Rightarrow> string list result" where
  "ck_normalized_hashes values field =
     bindE (foldE (collect_unique CK (\<lambda>v. ck_sha256 v field) field) [] values) (\<lambda>result. Inr (sort result))"

text \<open>One turn of the loop of \<open>_observation_fingerprints\<close>, over \<open>by_id\<close> and the list of fingerprints.\<close>

definition fingerprint_step :: "execution_plan \<Rightarrow> authority \<Rightarrow> (string \<rightharpoonup> string) \<times> string list \<Rightarrow> observation
    \<Rightarrow> ((string \<rightharpoonup> string) \<times> string list) result" where
  "fingerprint_step p parent acc b =
     bindE (reraise is_observation_error CK ''CHECKPOINT_OBSERVATION_REVALIDATION_FAILED''
       (observation_validate b (Some p) (Some parent))) (\<lambda>_.
     bindE (observation_fingerprint b) (\<lambda>f.
     case fst acc (ob_observation_id b) of
       Some previous \<Rightarrow> if previous \<noteq> f then raise CK ''CHECKPOINT_OBSERVATION_ID_COLLISION'' else Inr acc
     | None \<Rightarrow> Inr ((fst acc)(ob_observation_id b \<mapsto> f), snd acc @ [f])))"

definition observation_fingerprints :: "observation list \<Rightarrow> execution_plan \<Rightarrow> authority \<Rightarrow> string list result" where
  "observation_fingerprints obs p parent =
     bindE (foldE (fingerprint_step p parent) (Map.empty, []) obs) (\<lambda>acc. Inr (sort (snd acc)))"

section \<open>Checkpoints\<close>

record runtime_checkpoint =
  rk_checkpoint_id :: json
  rk_task_id :: json
  rk_task_context_fingerprint :: json
  rk_task_context_identity_fingerprint :: json
  rk_plan_fingerprint :: json
  rk_parent_authority_fingerprint :: json
  rk_scheduling_decision_fingerprint :: json
  rk_approved_node_ids :: "json list"
  rk_observation_fingerprints :: "json list"
  rk_captured_at :: json
  rk_schema_version :: json

definition rk_identity_dict :: "runtime_checkpoint \<Rightarrow> (string \<times> json) list" where
  "rk_identity_dict k = [(''schema_version'', rk_schema_version k), (''task_id'', rk_task_id k),
     (''task_context_fingerprint'', rk_task_context_fingerprint k),
     (''task_context_identity_fingerprint'', rk_task_context_identity_fingerprint k),
     (''plan_fingerprint'', rk_plan_fingerprint k),
     (''parent_authority_fingerprint'', rk_parent_authority_fingerprint k),
     (''scheduling_decision_fingerprint'', rk_scheduling_decision_fingerprint k),
     (''approved_node_ids'', JList (rk_approved_node_ids k)),
     (''observation_fingerprints'', JList (rk_observation_fingerprints k)), (''captured_at'', rk_captured_at k)]"

abbreviation ck_digest :: "json \<Rightarrow> string result" where
  "ck_digest \<equiv> canonical_digest CK ''RUNTIME_CHECKPOINT_NOT_CANONICAL_JSON''"

definition rk_fingerprint :: "runtime_checkpoint \<Rightarrow> string result" where
  "rk_fingerprint k = ck_digest (JObj (rk_identity_dict k))"

definition rk_checks :: "runtime_checkpoint \<Rightarrow> unit result list" where
  "rk_checks k =
     [fail_if CK (rk_schema_version k \<noteq> JStr RUNTIME_CHECKPOINT_SCHEMA) ''RUNTIME_CHECKPOINT_SCHEMA_VERSION_MISMATCH'',
      void (ck_compact_id (rk_checkpoint_id k) ''checkpoint_id''),
      void (ck_compact_id (rk_task_id k) ''task_id''),
      void (ck_sha256 (rk_task_context_fingerprint k) ''task_context_fingerprint''),
      void (ck_sha256 (rk_task_context_identity_fingerprint k) ''task_context_identity_fingerprint''),
      void (ck_sha256 (rk_plan_fingerprint k) ''plan_fingerprint''),
      void (ck_sha256 (rk_parent_authority_fingerprint k) ''parent_authority_fingerprint''),
      void (ck_sha256 (rk_scheduling_decision_fingerprint k) ''scheduling_decision_fingerprint''),
      bindE (ck_normalized_ids (rk_approved_node_ids k) ''approved_node_id'') (\<lambda>n.
        fail_if CK (rk_approved_node_ids k \<noteq> map JStr n) ''APPROVED_NODE_IDS_NOT_NORMALIZED''),
      bindE (ck_normalized_hashes (rk_observation_fingerprints k) ''observation_fingerprint'') (\<lambda>n.
        fail_if CK (rk_observation_fingerprints k \<noteq> map JStr n) ''OBSERVATION_FINGERPRINTS_NOT_NORMALIZED''),
      void (ck_timestamp (rk_captured_at k) ''captured_at'')]"

definition rk_validate :: "runtime_checkpoint \<Rightarrow> runtime_checkpoint result" where
  "rk_validate k = bindE (checked (rk_checks k) ()) (\<lambda>_.
     bindE (rk_fingerprint k) (\<lambda>f.
     if rk_checkpoint_id k \<noteq> JStr (''runtime-checkpoint:'' @ take 24 (drop 7 f))
       then raise CK ''RUNTIME_CHECKPOINT_IDENTITY_MISMATCH'' else Inr k))"

definition rk_canonical_dict :: "runtime_checkpoint \<Rightarrow> json result" where
  "rk_canonical_dict k = bindE (rk_validate k) (\<lambda>_. Inr (JObj ((''checkpoint_id'', rk_checkpoint_id k) # rk_identity_dict k)))"

text \<open>\<open>captured_at or datetime.now(timezone.utc)\<close>: \<open>now\<close> is the clock.\<close>

definition rk_build :: "pydt \<Rightarrow> task_context \<Rightarrow> execution_plan \<Rightarrow> authority \<Rightarrow> observation list \<Rightarrow> string list \<Rightarrow> pydt option
    \<Rightarrow> runtime_checkpoint result" where
  "rk_build now c p parent obs approved captured_at =
     bindE (reraise is_value_error CK ''CHECKPOINT_CANONICAL_REVALIDATION_FAILED''
       (bindE (context_validate c) (\<lambda>_. plan_validate p (Some parent)))) (\<lambda>_.
     if tx_task_id c \<noteq> ep_task_id p then raise CK ''CHECKPOINT_TASK_MISMATCH''
     else bindE (context_fingerprint c) (\<lambda>cf.
     if cf \<noteq> ep_task_context_fingerprint p then raise CK ''CHECKPOINT_TASK_CONTEXT_FINGERPRINT_MISMATCH''
     else bindE (identity_fingerprint c) (\<lambda>idf.
     if idf \<noteq> ep_task_context_identity_fingerprint p then raise CK ''CHECKPOINT_TASK_CONTEXT_IDENTITY_MISMATCH''
     else if tx_authority_fingerprint c \<noteq> au_fingerprint parent then raise CK ''CHECKPOINT_PARENT_AUTHORITY_MISMATCH''
     else bindE (ck_normalized_ids (map JStr approved) ''approved_node_id'') (\<lambda>approvals.
     bindE (observation_fingerprints obs p parent) (\<lambda>fingerprints.
     bindE (reraise (\<lambda>x. x = RuntimeSchedulerError) CK ''CHECKPOINT_SCHEDULER_REVALIDATION_FAILED''
       (evaluate c p parent obs approvals)) (\<lambda>decision.
     bindE (ck_iso8601 (case captured_at of None \<Rightarrow> now | Some t \<Rightarrow> t)) (\<lambda>timestamp.
     bindE (plan_fingerprint p) (\<lambda>pf.
     bindE (decision_fingerprint decision) (\<lambda>df.
     let k = \<lparr>rk_checkpoint_id = JNull, rk_task_id = JStr (tx_task_id c), rk_task_context_fingerprint = JStr cf,
         rk_task_context_identity_fingerprint = JStr idf, rk_plan_fingerprint = JStr pf,
         rk_parent_authority_fingerprint = JStr (au_fingerprint parent), rk_scheduling_decision_fingerprint = JStr df,
         rk_approved_node_ids = map JStr approvals, rk_observation_fingerprints = map JStr fingerprints,
         rk_captured_at = JStr timestamp, rk_schema_version = JStr RUNTIME_CHECKPOINT_SCHEMA\<rparr> in
     bindE (ck_digest (JObj (rk_identity_dict k))) (\<lambda>d.
     rk_validate (k\<lparr>rk_checkpoint_id := JStr (''runtime-checkpoint:'' @ take 24 (drop 7 d))\<rparr>)))))))))))"

section \<open>The codec\<close>

definition rk_envelope :: "json \<Rightarrow> string \<Rightarrow> json" where
  "rk_envelope d f = JObj [(''schema_version'', JStr RUNTIME_CHECKPOINT_ENVELOPE_SCHEMA), (''checkpoint'', d), (''checkpoint_fingerprint'', JStr f)]"

definition rk_dumps :: "runtime_checkpoint \<Rightarrow> string result" where
  "rk_dumps k = bindE (rk_validate k) (\<lambda>_. bindE (rk_canonical_dict k) (\<lambda>d. bindE (rk_fingerprint k) (\<lambda>f.
     canonical_text CK ''RUNTIME_CHECKPOINT_NOT_CANONICAL_JSON'' (rk_envelope d f))))"

text \<open>\<open>tuple(value)\<close>: a string gives its characters and a dict its keys.\<close>

fun py_tuple :: "json \<Rightarrow> json list result" where
  "py_tuple (JList xs) = Inr xs"
| "py_tuple (JStr s) = Inr (map (\<lambda>c. JStr [c]) s)"
| "py_tuple (JObj kvs) = Inr (map (\<lambda>(k, v). JStr k) kvs)"
| "py_tuple _ = raise TypeError ''object is not iterable''"

definition rk_keys :: "string list" where
  "rk_keys = [''checkpoint_id'', ''schema_version'', ''task_id'', ''task_context_fingerprint'',
     ''task_context_identity_fingerprint'', ''plan_fingerprint'', ''parent_authority_fingerprint'',
     ''scheduling_decision_fingerprint'', ''approved_node_ids'', ''observation_fingerprints'', ''captured_at'']"

definition rk_from_raw :: "(string \<times> json) list \<Rightarrow> runtime_checkpoint result" where
  "rk_from_raw raw = reraise (\<lambda>x. x = KeyError \<or> x = TypeError) CK ''RUNTIME_CHECKPOINT_RECORD_SHAPE_INVALID''
     (bindE (py_tuple (dict_get raw ''approved_node_ids'' JNull)) (\<lambda>approved.
      bindE (py_tuple (dict_get raw ''observation_fingerprints'' JNull)) (\<lambda>fingerprints.
      rk_validate \<lparr>rk_checkpoint_id = dict_get raw ''checkpoint_id'' JNull, rk_task_id = dict_get raw ''task_id'' JNull,
        rk_task_context_fingerprint = dict_get raw ''task_context_fingerprint'' JNull,
        rk_task_context_identity_fingerprint = dict_get raw ''task_context_identity_fingerprint'' JNull,
        rk_plan_fingerprint = dict_get raw ''plan_fingerprint'' JNull,
        rk_parent_authority_fingerprint = dict_get raw ''parent_authority_fingerprint'' JNull,
        rk_scheduling_decision_fingerprint = dict_get raw ''scheduling_decision_fingerprint'' JNull,
        rk_approved_node_ids = approved, rk_observation_fingerprints = fingerprints,
        rk_captured_at = dict_get raw ''captured_at'' JNull, rk_schema_version = dict_get raw ''schema_version'' JNull\<rparr>)))"

definition rk_loads :: "string \<Rightarrow> runtime_checkpoint result" where
  "rk_loads payload = (if payload = [] then raise CK ''INVALID_RUNTIME_CHECKPOINT_PAYLOAD''
     else case loads payload of None \<Rightarrow> raise CK ''RUNTIME_CHECKPOINT_JSON_INVALID''
     | Some (JObj envelope) \<Rightarrow>
         if dict_get envelope ''schema_version'' JNull \<noteq> JStr RUNTIME_CHECKPOINT_ENVELOPE_SCHEMA
           then raise CK ''RUNTIME_CHECKPOINT_ENVELOPE_SCHEMA_VERSION_MISMATCH''
         else (case dict_get envelope ''checkpoint'' JNull of JObj raw \<Rightarrow>
             if set (map fst raw) \<noteq> set rk_keys then raise CK ''RUNTIME_CHECKPOINT_RECORD_SHAPE_INVALID''
             else bindE (rk_from_raw raw) (\<lambda>k. bindE (rk_fingerprint k) (\<lambda>f.
               if dict_get envelope ''checkpoint_fingerprint'' JNull \<noteq> JStr f then raise CK ''RUNTIME_CHECKPOINT_INTEGRITY_FAILED''
               else bindE (canonical_text CK ''RUNTIME_CHECKPOINT_NOT_CANONICAL_JSON'' (JObj envelope)) (\<lambda>t.
               if t \<noteq> payload then raise CK ''RUNTIME_CHECKPOINT_ENVELOPE_NOT_CANONICAL'' else Inr k)))
           | _ \<Rightarrow> raise CK ''RUNTIME_CHECKPOINT_RECORD_NOT_OBJECT'')
     | Some _ \<Rightarrow> raise CK ''RUNTIME_CHECKPOINT_ENVELOPE_NOT_OBJECT'')"

section \<open>Recovery\<close>

record recovery_decision =
  rr_status :: string
  rr_scheduling_decision :: scheduling_decision
  rr_reason_code :: string
  rr_manual_node_ids :: "string list"
  rr_schema_version :: string

definition rr_canonical_dict :: "recovery_decision \<Rightarrow> json result" where
  "rr_canonical_dict r = bindE (checked
     [fail_if CK (rr_schema_version r \<noteq> RUNTIME_RECOVERY_DECISION_SCHEMA) ''RUNTIME_RECOVERY_DECISION_SCHEMA_VERSION_MISMATCH'',
      fail_if CK (rr_status r \<notin> set RECOVERY_STATUSES) ''INVALID_RUNTIME_RECOVERY_STATUS'',
      fail_if CK (rr_reason_code r = []) ''INVALID_RECOVERY_REASON_CODE'',
      bindE (ck_normalized_ids (map JStr (rr_manual_node_ids r)) ''manual_node_id'') (\<lambda>n.
        fail_if CK (rr_manual_node_ids r \<noteq> n) ''MANUAL_NODE_IDS_NOT_NORMALIZED'')] ()) (\<lambda>_.
     bindE (decision_canonical (rr_scheduling_decision r)) (\<lambda>d.
     Inr (JObj [(''schema_version'', JStr (rr_schema_version r)), (''status'', JStr (rr_status r)),
       (''reason_code'', JStr (rr_reason_code r)), (''manual_node_ids'', str_list (rr_manual_node_ids r)),
       (''scheduling_decision'', d)])))"

definition rr_fingerprint :: "recovery_decision \<Rightarrow> string result" where
  "rr_fingerprint r = bindE (rr_canonical_dict r) ck_digest"

text \<open>A validated tuple holds strings only.\<close>

fun json_text :: "json \<Rightarrow> string" where
  "json_text (JStr s) = s"
| "json_text _ = []"

definition recovery_verdict :: "string list \<Rightarrow> string \<Rightarrow> string \<times> string" where
  "recovery_verdict manual_nodes scheduling_status = (
     if manual_nodes \<noteq> [] then (''MANUAL_RECONCILIATION'', ''PARTIAL_OBSERVATION_MUST_NOT_BE_AUTO_REPLAYED'')
     else if scheduling_status = ''COMPLETE'' then (''COMPLETE'', ''CHECKPOINT_ALREADY_COMPLETE'')
     else if scheduling_status = ''BLOCKED'' then (''BLOCKED'', ''SCHEDULER_BLOCKED'')
     else (''RECOVERABLE'', ''CHECKPOINT_REVALIDATED_NO_EXECUTION_PERFORMED''))"

definition recover_evaluate :: "runtime_checkpoint \<Rightarrow> task_context \<Rightarrow> execution_plan \<Rightarrow> authority \<Rightarrow> observation list
    \<Rightarrow> recovery_decision result" where
  "recover_evaluate k c p parent obs =
     bindE (rk_validate k) (\<lambda>_.
     bindE (reraise is_value_error CK ''RECOVERY_CANONICAL_REVALIDATION_FAILED''
       (bindE (context_validate c) (\<lambda>_. plan_validate p (Some parent)))) (\<lambda>_.
     if rk_task_id k \<noteq> JStr (tx_task_id c) \<or> rk_task_id k \<noteq> JStr (ep_task_id p) then raise CK ''RECOVERY_TASK_MISMATCH''
     else bindE (context_fingerprint c) (\<lambda>cf.
     if rk_task_context_fingerprint k \<noteq> JStr cf then raise CK ''RECOVERY_TASK_CONTEXT_FINGERPRINT_MISMATCH''
     else bindE (identity_fingerprint c) (\<lambda>idf.
     if rk_task_context_identity_fingerprint k \<noteq> JStr idf then raise CK ''RECOVERY_TASK_CONTEXT_IDENTITY_MISMATCH''
     else bindE (plan_fingerprint p) (\<lambda>pf.
     if rk_plan_fingerprint k \<noteq> JStr pf then raise CK ''RECOVERY_PLAN_FINGERPRINT_MISMATCH''
     else if rk_parent_authority_fingerprint k \<noteq> JStr (au_fingerprint parent) then raise CK ''RECOVERY_PARENT_AUTHORITY_MISMATCH''
     else bindE (observation_fingerprints obs p parent) (\<lambda>fingerprints.
     if map JStr fingerprints \<noteq> rk_observation_fingerprints k then raise CK ''RECOVERY_OBSERVATION_SET_MISMATCH''
     else bindE (reraise (\<lambda>x. x = RuntimeSchedulerError) CK ''RECOVERY_SCHEDULER_REVALIDATION_FAILED''
       (evaluate c p parent obs (map json_text (rk_approved_node_ids k)))) (\<lambda>scheduling.
     bindE (decision_fingerprint scheduling) (\<lambda>df.
     if JStr df \<noteq> rk_scheduling_decision_fingerprint k then raise CK ''RECOVERY_SCHEDULING_DECISION_MISMATCH''
     else let manual_nodes = sort (fromkeys (map ob_node_id (filter (\<lambda>b. ob_status b = ''PARTIAL'') obs)));
         (status, reason) = recovery_verdict manual_nodes (sd_status scheduling);
         r = \<lparr>rr_status = status, rr_scheduling_decision = scheduling, rr_reason_code = reason,
           rr_manual_node_ids = manual_nodes, rr_schema_version = RUNTIME_RECOVERY_DECISION_SCHEMA\<rparr> in
       bindE (rr_canonical_dict r) (\<lambda>_. Inr r)))))))))"

section \<open>What the checks accept\<close>

lemma str_field_iff [simp]: "str_field e chk field v = Inr x \<longleftrightarrow> (\<exists>s. v = JStr s \<and> chk s = Inr x)"
  by (cases v) (simp_all add: str_field_def)

lemma ck_sha256_iff [simp]: "ck_sha256 v field = Inr x \<longleftrightarrow> v = JStr x \<and> is_sha256_ref x"
  by (auto simp: ck_sha256_def)

lemma ck_compact_id_iff [simp]: "ck_compact_id v field = Inr x \<longleftrightarrow> v = JStr x \<and> ID_RE x"
  by (auto simp: ck_compact_id_def)

text \<open>Texts of instants in the normal form the code writes them in.\<close>

definition utc_normal :: "string \<Rightarrow> bool" where
  "utc_normal s \<longleftrightarrow> (\<exists>p. fromisoformat (zulu s) = Some p \<and> dt_offset p \<noteq> None \<and> utc_text p = Inr s)"

lemma ck_timestamp_iff [simp]: "ck_timestamp v field = Inr x \<longleftrightarrow> v = JStr x \<and> utc_normal x"
proof (cases v)
  case (JStr s)
  show ?thesis
  proof (cases "fromisoformat (zulu s)")
    case (Some p)
    with JStr utc_text_reads(1,2) [of p s] show ?thesis
      by (cases "utc_text p") (auto simp: ck_timestamp_def str_field_def utc_normal_def)
  qed (use JStr in \<open>auto simp: ck_timestamp_def str_field_def utc_normal_def\<close>)
qed (simp_all add: ck_timestamp_def str_field_def)

lemma utc_text_normal:
  assumes "utc_text t = Inr s"
  shows "utc_normal s"
proof -
  from assms have r: "0 \<le> instant t" "instant t < MAX_LOCAL" "s = isoformat_local (instant t) @ ''Z''"
    by (auto simp: utc_text_def astimezone_utc_def split: if_splits)
  then have "zulu s = isoformat_local (instant t) @ ''+00:00''" by (simp add: zulu_def ends_with_iff)
  then have "fromisoformat (zulu s) = Some \<lparr>dt_local = instant t, dt_offset = Some 0\<rparr>"
    using fromisoformat_isoformat [OF r(1,2)] by simp
  then show ?thesis using utc_text_reads(4) [OF assms] by (auto simp: utc_normal_def)
qed

lemma collect_unique_fold: "distinct acc \<Longrightarrow> foldE (collect_unique e chk field) acc vs = Inr r
   \<longleftrightarrow> (\<exists>xs. mapE chk vs = Inr xs \<and> distinct (acc @ xs) \<and> r = acc @ xs)"
proof (induction vs arbitrary: acc)
  case (Cons v vs)
  show ?case
  proof (cases "chk v")
    case (Inr x)
    show ?thesis
    proof (cases "x \<in> set acc")
      case False
      then have "distinct (acc @ [x])" using Cons.prems by simp
      from Cons.IH [OF this] False Inr show ?thesis by (auto simp: collect_unique_def)
    qed (use Inr in \<open>auto simp: collect_unique_def\<close>)
  qed (simp add: collect_unique_def)
qed auto

lemma mapE_strings: "(\<And>v x. chk v = Inr x \<longleftrightarrow> v = JStr x \<and> Q x) \<Longrightarrow> mapE chk vs = Inr xs \<longleftrightarrow> vs = map JStr xs \<and> list_all Q xs"
  by (induction vs arbitrary: xs) (auto simp: bindE_Inr_iff)

lemma ck_normalized_ids_iff: "ck_normalized_ids vs field = Inr r
   \<longleftrightarrow> (\<exists>xs. vs = map JStr xs \<and> list_all ID_RE xs \<and> distinct xs \<and> r = sort xs)"
  by (auto simp: ck_normalized_ids_def bindE_Inr_iff collect_unique_fold mapE_strings [where Q = ID_RE])

lemma ck_normalized_hashes_iff: "ck_normalized_hashes vs field = Inr r
   \<longleftrightarrow> (\<exists>xs. vs = map JStr xs \<and> list_all is_sha256_ref xs \<and> distinct xs \<and> r = sort xs)"
  by (auto simp: ck_normalized_hashes_def bindE_Inr_iff collect_unique_fold mapE_strings [where Q = is_sha256_ref])

definition text_where :: "(string \<Rightarrow> bool) \<Rightarrow> json \<Rightarrow> bool" where
  "text_where Q v \<longleftrightarrow> (\<exists>s. v = JStr s \<and> Q s)"

definition normal_texts :: "(string \<Rightarrow> bool) \<Rightarrow> json list \<Rightarrow> bool" where
  "normal_texts Q vs \<longleftrightarrow> (\<exists>xs. vs = map JStr xs \<and> list_all Q xs \<and> distinct xs \<and> sorted xs)"

definition rk_fields_ok :: "runtime_checkpoint \<Rightarrow> bool" where
  "rk_fields_ok k \<longleftrightarrow> rk_schema_version k = JStr RUNTIME_CHECKPOINT_SCHEMA
     \<and> text_where ID_RE (rk_task_id k) \<and> text_where is_sha256_ref (rk_task_context_fingerprint k)
     \<and> text_where is_sha256_ref (rk_task_context_identity_fingerprint k) \<and> text_where is_sha256_ref (rk_plan_fingerprint k)
     \<and> text_where is_sha256_ref (rk_parent_authority_fingerprint k) \<and> text_where is_sha256_ref (rk_scheduling_decision_fingerprint k)
     \<and> normal_texts ID_RE (rk_approved_node_ids k) \<and> normal_texts is_sha256_ref (rk_observation_fingerprints k)
     \<and> text_where utc_normal (rk_captured_at k)"

definition rk_id :: "runtime_checkpoint \<Rightarrow> string" where
  "rk_id k = ''runtime-checkpoint:'' @ take 24 (drop 7 (digest (JObj (rk_identity_dict k))))"

lemma normal_check: "(bindE (m :: string list result) (\<lambda>n. fail_if e (vs \<noteq> map JStr n) msg) = Inr ()) \<longleftrightarrow> normal_texts Q vs"
  if "\<And>r. m = Inr r \<longleftrightarrow> (\<exists>xs. vs = map JStr xs \<and> list_all Q xs \<and> distinct xs \<and> r = sort xs)"
proof -
  have inj: "map JStr xs = map JStr ys \<longleftrightarrow> xs = ys" for xs ys by (rule inj_map_eq_map) (simp add: inj_def)
  have "sort xs = xs \<longleftrightarrow> sorted xs" "xs = sort xs \<longleftrightarrow> sorted xs" for xs :: "string list" by (metis sorted_sort sorted_sort_id)+
  then show ?thesis by (auto simp: bindE_Inr_iff that normal_texts_def inj)
qed

lemma rk_identity_plain:
  assumes "rk_fields_ok k"
  shows "finite_json (JObj (rk_identity_dict k))" "plain_json (JObj (rk_identity_dict k))"
  using assms by (auto simp: rk_fields_ok_def rk_identity_dict_def text_where_def normal_texts_def list_all_iff)

lemma hex_alnum: "is_hex c \<Longrightarrow> is_alnum c"
  by (auto simp: is_hex_def is_alnum_def is_digit_def is_lower_def)

lemma digest_suffix_ids: "list_all is_alnum (take 24 (drop 7 (digest d)))" "length (take 24 (drop 7 (digest d))) \<le> 24"
proof -
  have "list_all is_hex (drop 7 (digest d))" using is_sha256_ref_digest [of d] by (simp add: is_sha256_ref_def)
  then show "list_all is_alnum (take 24 (drop 7 (digest d)))" by (auto simp: list_all_iff hex_alnum dest: in_set_takeD)
qed simp

lemma rk_id_RE: "ID_RE (rk_id k)"
  using digest_suffix_ids [of "JObj (rk_identity_dict k)"]
  by (auto simp: rk_id_def ID_RE_def ident_match_def list_all_iff is_alnum_def is_digit_def is_lower_def is_upper_def)

lemma rk_validate_iff: "rk_validate k = Inr k' \<longleftrightarrow> k' = k \<and> rk_fields_ok k \<and> rk_checkpoint_id k = JStr (rk_id k)"
proof -
  note n = normal_check [OF ck_normalized_ids_iff] normal_check [OF ck_normalized_hashes_iff]
  have "(\<exists>u. checked (rk_checks k) () = Inr u)
    \<longleftrightarrow> rk_fields_ok k \<and> text_where ID_RE (rk_checkpoint_id k)"
    by (simp add: rk_checks_def checked_iff n rk_fields_ok_def text_where_def) blast
  then show ?thesis
    using rk_identity_plain(1) [of k] rk_id_RE [of k]
    by (auto simp: rk_validate_def bindE_Inr_iff rk_fingerprint_def rk_id_def text_where_def split: if_splits)
qed

lemma rk_fingerprint_iff: "rk_validate k = Inr k' \<Longrightarrow> rk_fingerprint k = Inr f \<longleftrightarrow> f = digest (JObj (rk_identity_dict k))"
  using rk_identity_plain(1) by (auto simp: rk_validate_iff rk_fingerprint_def)

section \<open>Texts of checkpoints\<close>

abbreviation rk_members :: "runtime_checkpoint \<Rightarrow> (string \<times> json) list" where
  "rk_members k \<equiv> (''checkpoint_id'', rk_checkpoint_id k) # rk_identity_dict k"

abbreviation rk_document :: "runtime_checkpoint \<Rightarrow> json" where
  "rk_document k \<equiv> rk_envelope (JObj (rk_members k)) (digest (JObj (rk_identity_dict k)))"

lemma rk_dumps_iff: "rk_validate k = Inr k \<Longrightarrow> rk_dumps k = Inr t \<longleftrightarrow> t = dumps (rk_document k)"
proof -
  assume v: "rk_validate k = Inr k"
  then have "finite_json (rk_document k)"
    using rk_identity_plain(1) [of k] by (auto simp: rk_validate_iff rk_envelope_def)
  then show ?thesis using v rk_fingerprint_iff [OF v]
    by (auto simp: rk_dumps_def rk_canonical_dict_def canonical_text_def bindE_Inr_iff)
qed

lemma finite_norm_json: "finite_json (norm_json j) = finite_json j"
  by (induction j rule: norm_json.induct) (auto simp: list_all_iff)

text \<open>The members of an object after it was written and read: sorted, each in normal form.\<close>

definition read_members :: "(string \<times> json) list \<Rightarrow> (string \<times> json) list" where
  "read_members kvs = map (\<lambda>(k, v). (k, norm_json v)) (sort_key fst kvs)"

lemma read_members_facts:
  "set (map fst (read_members kvs)) = set (map fst kvs)"
  "distinct (map fst kvs) \<Longrightarrow> dict_get (read_members kvs) k JNull = norm_json (dict_get kvs k JNull)"
  "norm_json (JObj kvs) = JObj (read_members kvs)"
  "dumps (JObj (read_members kvs)) = dumps (JObj kvs)"
  "finite_json (JObj (read_members kvs)) = finite_json (JObj kvs)"
proof -
  show n: "norm_json (JObj kvs) = JObj (read_members kvs)" by (simp add: read_members_def)
  show "dumps (JObj (read_members kvs)) = dumps (JObj kvs)" using dumps_norm_json [of "JObj kvs"] by (simp only: n)
  show "finite_json (JObj (read_members kvs)) = finite_json (JObj kvs)" using finite_norm_json [of "JObj kvs"] by (simp only: n)
  show "set (map fst (read_members kvs)) = set (map fst kvs)"
    by (simp add: read_members_def case_prod_unfold image_image)
  show "distinct (map fst kvs) \<Longrightarrow> dict_get (read_members kvs) k JNull = norm_json (dict_get kvs k JNull)"
    unfolding read_members_def by (rule dict_get_norm)
qed

lemma norm_texts: "normal_texts Q vs \<Longrightarrow> map norm_json vs = vs" "text_where Q v \<Longrightarrow> norm_json v = v"
  by (auto simp: normal_texts_def text_where_def)

lemma rk_from_raw_members:
  assumes "rk_validate k = Inr k"
  shows "rk_from_raw (read_members (rk_members k)) = Inr k"
proof -
  have d: "distinct (map fst (rk_members k))" by (simp add: rk_identity_dict_def)
  from assms have ok: "rk_fields_ok k" "rk_checkpoint_id k = JStr (rk_id k)" by (simp_all add: rk_validate_iff)
  note get = read_members_facts(2) [OF d]
  have n: "norm_json (rk_schema_version k) = rk_schema_version k" "norm_json (rk_task_id k) = rk_task_id k"
    "norm_json (rk_task_context_fingerprint k) = rk_task_context_fingerprint k"
    "norm_json (rk_task_context_identity_fingerprint k) = rk_task_context_identity_fingerprint k"
    "norm_json (rk_plan_fingerprint k) = rk_plan_fingerprint k"
    "norm_json (rk_parent_authority_fingerprint k) = rk_parent_authority_fingerprint k"
    "norm_json (rk_scheduling_decision_fingerprint k) = rk_scheduling_decision_fingerprint k"
    "map norm_json (rk_approved_node_ids k) = rk_approved_node_ids k"
    "map norm_json (rk_observation_fingerprints k) = rk_observation_fingerprints k"
    "norm_json (rk_captured_at k) = rk_captured_at k" "norm_json (rk_checkpoint_id k) = rk_checkpoint_id k"
    using ok norm_texts unfolding rk_fields_ok_def by auto
  show ?thesis
    unfolding rk_from_raw_def get
    by (simp add: dict_get_def rk_identity_dict_def n) (use assms in \<open>cases k, simp\<close>)
qed

lemma rk_loads_members:
  assumes v: "rk_validate k = Inr k"
    and e: "distinct (map fst env)" "list_all (\<lambda>(i, v). plain_json v \<and> finite_json v) env"
    "dict_get env ''schema_version'' JNull = JStr RUNTIME_CHECKPOINT_ENVELOPE_SCHEMA"
    "dict_get env ''checkpoint'' JNull = JObj (rk_members k)"
    "dict_get env ''checkpoint_fingerprint'' JNull = JStr (digest (JObj (rk_identity_dict k)))"
  shows "rk_loads (dumps (JObj env)) = Inr k"
proof -
  have plain: "plain_json (JObj env)" "finite_json (JObj env)" using e(1,2) by (auto simp: list_all_iff)
  have l: "loads (dumps (JObj env)) = Some (JObj (read_members env))"
    using loads_dumps [OF plain(1)] by (simp only: read_members_facts(3))
  then have ne: "dumps (JObj env) \<noteq> []" by simp
  note get = read_members_facts(2) [OF e(1)] and f = rk_fingerprint_iff [OF v, THEN iffD2, OF refl]
  have keys: "set (map fst (read_members (rk_members k))) = set rk_keys"
    unfolding read_members_facts(1) by (auto simp: rk_identity_dict_def rk_keys_def)
  have c: "canonical_text CK m (JObj (read_members env)) = Inr (dumps (JObj env))" for m
    using plain(2) by (simp only: canonical_text_def read_members_facts(4,5) if_True)
  show ?thesis
    unfolding rk_loads_def l
    by (simp add: get e(3-5) ne read_members_facts(3) keys rk_from_raw_members [OF v] f c del: norm_json.simps(2) dumps.simps set_map)
qed

lemma rk_loads_valid: "rk_loads u = Inr k \<Longrightarrow> rk_validate k = Inr k"
proof -
  have "rk_validate k = Inr k" if "rk_from_raw raw = Inr k" for raw
  proof -
    from that obtain k' where "rk_validate k' = Inr k" unfolding rk_from_raw_def reraise_Inr_iff bindE_Inr_iff by blast
    then show ?thesis by (simp add: rk_validate_iff)
  qed
  then show "rk_loads u = Inr k \<Longrightarrow> rk_validate k = Inr k"
    unfolding rk_loads_def by (auto split: if_splits option.splits json.splits)
qed

section \<open>Observations and their fingerprints\<close>

definition all_valid :: "execution_plan \<Rightarrow> authority \<Rightarrow> observation set \<Rightarrow> bool" where
  "all_valid p parent B \<longleftrightarrow> (\<forall>b \<in> B. observation_validate b (Some p) (Some parent) = Inr b)"

text \<open>The two tables of the loop when fingerprints do not collide.\<close>

definition fingerprinted :: "observation set \<Rightarrow> (string \<rightharpoonup> string) \<times> string list \<Rightarrow> bool" where
  "fingerprinted B acc \<longleftrightarrow> (\<forall>i f. fst acc i = Some f \<longleftrightarrow> (\<exists>b \<in> B. ob_observation_id b = i \<and> observation_fingerprint b = Inr f))
     \<and> Inr ` set (snd acc) = observation_fingerprint ` B \<and> distinct (snd acc)"

lemma fingerprint_step_valid:
  assumes "observation_validate b (Some p) (Some parent) = Inr b" "observation_fingerprint b = Inr f"
  shows "fingerprint_step p parent acc b = (case fst acc (ob_observation_id b) of
       Some previous \<Rightarrow> if previous \<noteq> f then raise CK ''CHECKPOINT_OBSERVATION_ID_COLLISION'' else Inr acc
     | None \<Rightarrow> Inr ((fst acc)(ob_observation_id b \<mapsto> f), snd acc @ [f]))"
  using assms by (simp add: fingerprint_step_def)

lemma fingerprinted_lookup:
  assumes "fingerprinted B acc"
  shows "fst acc i = None \<longleftrightarrow> (\<forall>e \<in> B. ob_observation_id e \<noteq> i)"
proof -
  have all: "Inr ` set (snd acc) = observation_fingerprint ` B" using assms by (simp add: fingerprinted_def)
  have "\<exists>g. observation_fingerprint e = Inr g" if "e \<in> B" for e
    using imageI [OF that, of observation_fingerprint] unfolding all [symmetric] by blast
  moreover have "fst acc i = None \<longleftrightarrow> (\<forall>f. \<not> (\<exists>b \<in> B. ob_observation_id b = i \<and> observation_fingerprint b = Inr f))"
  proof -
    have "fst acc i = Some f \<longleftrightarrow> (\<exists>b \<in> B. ob_observation_id b = i \<and> observation_fingerprint b = Inr f)" for f
      using assms by (simp add: fingerprinted_def)
    from this [symmetric] show ?thesis by (cases "fst acc i") simp_all
  qed
  ultimately show ?thesis by auto
qed

lemma fingerprinted_insert:
  assumes "fingerprinted B acc" "observation_fingerprint b = Inr f"
    "\<forall>e \<in> B. ob_observation_id e \<noteq> ob_observation_id b" "\<forall>e \<in> B. observation_fingerprint e \<noteq> Inr f"
  shows "fingerprinted (insert b B) ((fst acc)(ob_observation_id b \<mapsto> f), snd acc @ [f])"
  unfolding fingerprinted_def
proof (intro conjI allI)
  let ?acc = "((fst acc)(ob_observation_id b \<mapsto> f), snd acc @ [f])"
  have all: "Inr ` set (snd acc) = observation_fingerprint ` B" using assms(1) by (simp add: fingerprinted_def)
  then show "Inr ` set (snd ?acc) = observation_fingerprint ` insert b B" using assms(2) by simp
  have "(Inr f :: string result) \<notin> Inr ` set (snd acc)" unfolding all using assms(4) by (metis imageE)
  then have "f \<notin> set (snd acc)" by blast
  then show "distinct (snd ?acc)" using assms(1) by (simp add: fingerprinted_def)
  show "fst ?acc i = Some g \<longleftrightarrow> (\<exists>b \<in> insert b B. ob_observation_id b = i \<and> observation_fingerprint b = Inr g)" for i g
    using assms by (cases "i = ob_observation_id b") (auto simp: fingerprinted_def)
qed

lemma fingerprint_step_valid_iff:
  assumes "fingerprinted B acc" "inj_on observation_fingerprint (insert b B)" "inj_on ob_observation_id B"
    and v: "observation_validate b (Some p) (Some parent) = Inr b"
  shows "if inj_on ob_observation_id (insert b B)
    then \<exists>acc'. fingerprint_step p parent acc b = Inr acc' \<and> fingerprinted (insert b B) acc'
    else \<forall>acc'. fingerprint_step p parent acc b \<noteq> Inr acc'"
proof -
  obtain f where f: "observation_fingerprint b = Inr f" using valid_fingerprint [OF v] by blast
  show ?thesis
  proof (cases "b \<in> B")
    case True
    then have "fst acc (ob_observation_id b) = Some f" using assms(1) f by (auto simp: fingerprinted_def)
    with True assms(1,3) show ?thesis by (simp add: fingerprint_step_valid [OF v f] insert_absorb)
  next
    case False
    then have nf: "\<forall>e \<in> B. observation_fingerprint e \<noteq> Inr f"
      using assms(2) f by (metis inj_on_contraD insertI1 insertI2)
    show ?thesis
    proof (cases "fst acc (ob_observation_id b)")
      case None
      then have ids: "\<forall>e \<in> B. ob_observation_id e \<noteq> ob_observation_id b" using fingerprinted_lookup [OF assms(1)] by simp
      then have "inj_on ob_observation_id (insert b B)" using assms(3) by (auto simp: inj_on_def)
      with None fingerprinted_insert [OF assms(1) f ids nf] show ?thesis by (simp add: fingerprint_step_valid [OF v f])
    next
      case (Some g)
      then obtain e where e: "e \<in> B" "ob_observation_id e = ob_observation_id b" "observation_fingerprint e = Inr g"
        using assms(1) unfolding fingerprinted_def by blast
      then have "\<not> inj_on ob_observation_id (insert b B)" using False by (auto simp: inj_on_def)
      with e nf Some show ?thesis by (auto simp: fingerprint_step_valid [OF v f])
    qed
  qed
qed

lemma fingerprint_fold:
  assumes "inj_on observation_fingerprint (set obs)"
  shows "if all_valid p parent (set obs) \<and> inj_on ob_observation_id (set obs)
    then \<exists>acc. foldE (fingerprint_step p parent) (Map.empty, []) obs = Inr acc \<and> fingerprinted (set obs) acc
    else \<forall>acc. foldE (fingerprint_step p parent) (Map.empty, []) obs \<noteq> Inr acc"
  using assms
proof (induction obs rule: rev_induct)
  case Nil
  then show ?case by (simp add: all_valid_def fingerprinted_def)
next
  case (snoc b obs)
  have i: "inj_on observation_fingerprint (insert b (set obs))" using snoc.prems by simp
  note IH = snoc.IH [OF inj_on_subset [OF i subset_insertI]]
  show ?case
  proof (cases "all_valid p parent (set obs) \<and> inj_on ob_observation_id (set obs)")
    case False
    then have "\<not> (all_valid p parent (set (obs @ [b])) \<and> inj_on ob_observation_id (set (obs @ [b])))"
      by (auto simp: all_valid_def inj_on_def)
    with IH False show ?thesis by (auto simp: foldE_append)
  next
    case True
    with IH obtain acc where acc: "foldE (fingerprint_step p parent) (Map.empty, []) obs = Inr acc" "fingerprinted (set obs) acc" by auto
    show ?thesis
    proof (cases "observation_validate b (Some p) (Some parent) = Inr b")
      case v: True
      from fingerprint_step_valid_iff [OF acc(2) i _ v] True v acc(1) show ?thesis
        by (auto simp: foldE_append all_valid_def bindE_Inr_iff split: if_splits)
    next
      case v: False
      then have "fingerprint_step p parent acc b \<noteq> Inr acc'" for acc'
        by (auto simp: fingerprint_step_def observation_validate_iff)
      with v acc(1) show ?thesis by (auto simp: foldE_append all_valid_def)
    qed
  qed
qed

lemma observation_fingerprints_iff:
  assumes "inj_on observation_fingerprint (set obs)"
  shows "observation_fingerprints obs p parent = Inr fs \<longleftrightarrow> all_valid p parent (set obs) \<and> inj_on ob_observation_id (set obs)
     \<and> sorted fs \<and> distinct fs \<and> Inr ` set fs = observation_fingerprint ` set obs"
proof (cases "all_valid p parent (set obs) \<and> inj_on ob_observation_id (set obs)")
  case True
  with fingerprint_fold [OF assms, of p parent] obtain acc where acc: "foldE (fingerprint_step p parent) (Map.empty, []) obs = Inr acc"
    "distinct (snd acc)" "Inr ` set (snd acc) = observation_fingerprint ` set obs" by (auto simp: fingerprinted_def)
  have "fs = sort (snd acc)" if "sorted fs" "distinct fs" "Inr ` set fs = observation_fingerprint ` set obs"
  proof (rule sorted_distinct_set_unique)
    have "(Inr :: string \<Rightarrow> string result) ` set fs = Inr ` set (snd acc)" using that(3) acc(3) by simp
    then show "set fs = set (sort (snd acc))" by (simp add: inj_image_eq_iff)
  qed (use that acc(2) in simp_all)
  with True acc show ?thesis by (auto simp: observation_fingerprints_def)
next
  case False
  with fingerprint_fold [OF assms, of p parent] show ?thesis by (auto simp: observation_fingerprints_def)
qed

section \<open>Building and recovering\<close>

definition captured :: "task_context \<Rightarrow> execution_plan \<Rightarrow> authority \<Rightarrow> string list \<Rightarrow> string list \<Rightarrow> scheduling_decision \<Rightarrow> string
    \<Rightarrow> runtime_checkpoint \<Rightarrow> bool" where
  "captured c p parent approvals fs d timestamp k \<longleftrightarrow> rk_validate k = Inr k \<and> rk_task_id k = JStr (ep_task_id p)
     \<and> rk_task_context_fingerprint k = JStr (ep_task_context_fingerprint p)
     \<and> rk_task_context_identity_fingerprint k = JStr (ep_task_context_identity_fingerprint p)
     \<and> (\<exists>pf. plan_fingerprint p = Inr pf \<and> rk_plan_fingerprint k = JStr pf)
     \<and> rk_parent_authority_fingerprint k = JStr (au_fingerprint parent)
     \<and> (\<exists>df. decision_fingerprint d = Inr df \<and> rk_scheduling_decision_fingerprint k = JStr df)
     \<and> rk_approved_node_ids k = map JStr approvals \<and> rk_observation_fingerprints k = map JStr fs \<and> rk_captured_at k = JStr timestamp"

lemma rk_build_captures:
  assumes "rk_build now c p parent obs approved at_time = Inr k"
  obtains fs d timestamp where "observation_fingerprints obs p parent = Inr fs" "list_all ID_RE approved" "distinct approved"
    "evaluate c p parent obs (sort approved) = Inr d" "captured c p parent (sort approved) fs d timestamp k"
proof -
  have inj: "map JStr xs = map JStr ys \<longleftrightarrow> xs = ys" for xs ys by (rule inj_map_eq_map) (simp add: inj_def)
  from assms obtain fs d timestamp pf df k0 where "observation_fingerprints obs p parent = Inr fs" "list_all ID_RE approved" "distinct approved"
    "evaluate c p parent obs (sort approved) = Inr d" "plan_fingerprint p = Inr pf" "decision_fingerprint d = Inr df"
    and k: "rk_validate k0 = Inr k" "k0 = \<lparr>rk_checkpoint_id = rk_checkpoint_id k0, rk_task_id = JStr (ep_task_id p), rk_task_context_fingerprint = JStr (ep_task_context_fingerprint p),
         rk_task_context_identity_fingerprint = JStr (ep_task_context_identity_fingerprint p), rk_plan_fingerprint = JStr pf,
         rk_parent_authority_fingerprint = JStr (au_fingerprint parent), rk_scheduling_decision_fingerprint = JStr df,
         rk_approved_node_ids = map JStr (sort approved), rk_observation_fingerprints = map JStr fs,
         rk_captured_at = JStr timestamp, rk_schema_version = JStr RUNTIME_CHECKPOINT_SCHEMA\<rparr>"
    unfolding rk_build_def by (auto simp: ck_normalized_ids_iff inj Let_def split: if_splits)
  moreover from k(1) have "k0 = k" "rk_validate k = Inr k" by (simp_all add: rk_validate_iff)
  ultimately show thesis
    by (intro that [of fs d timestamp]) (simp_all add: captured_def, (metis runtime_checkpoint.select_convs)+)
qed

definition recovery_of :: "observation list \<Rightarrow> scheduling_decision \<Rightarrow> recovery_decision" where
  "recovery_of obs d = (let manual_nodes = sort (fromkeys (map ob_node_id (filter (\<lambda>b. ob_status b = ''PARTIAL'') obs))) in
     \<lparr>rr_status = fst (recovery_verdict manual_nodes (sd_status d)), rr_scheduling_decision = d,
      rr_reason_code = snd (recovery_verdict manual_nodes (sd_status d)), rr_manual_node_ids = manual_nodes,
      rr_schema_version = RUNTIME_RECOVERY_DECISION_SCHEMA\<rparr>)"

lemma node_id_ID_RE: "NODE_ID_RE s \<Longrightarrow> ID_RE s"
  by (auto simp: NODE_ID_RE_def ID_RE_def ident_match_def is_alnum_def list_all_iff split: list.splits)

lemma valid_observation_node_id:
  assumes "observation_validate b (Some p) parent = Inr c"
  shows "ID_RE (ob_node_id b)"
proof -
  from assms obtain n where v: "plan_validate p parent = Inr p" and n: "n \<in> set (ep_nodes p)" "en_node_id n = ob_node_id b"
    by (auto simp: observation_validate_iff dest!: node_for_member)
  from v n(1) obtain w levels where w: "validated_workflow p = Inr w" "projects w levels n" by (auto simp: plan_validate_iff list_all_iff)
  from w(2) obtain s where "by_id (wf_nodes w) (en_node_id n) = Some s" by (auto simp: projects_def)
  with by_id_Some validated_workflow_ok [OF w(1)] have "node_ok s" "nd_id s = en_node_id n"
    by (auto simp: contract_ok_def list_all_iff)
  then show ?thesis using n(2) by (auto simp: node_ok_def intro: node_id_ID_RE)
qed

lemma rr_canonical_total:
  assumes "all_valid p parent (set obs)" "decision_canonical d = Inr j"
  shows "\<exists>x. rr_canonical_dict (recovery_of obs d) = Inr x"
proof -
  let ?m = "sort (fromkeys (map ob_node_id (filter (\<lambda>b. ob_status b = ''PARTIAL'') obs)))"
  have "list_all ID_RE ?m" using assms(1) valid_observation_node_id by (auto simp: all_valid_def list_all_iff)
  then have m: "ck_normalized_ids (map JStr ?m) f = Inr ?m" for f
    unfolding ck_normalized_ids_iff by (intro exI [of _ ?m]) (simp add: sorted_sort_id)
  have "fst (recovery_verdict ?m s) \<in> set RECOVERY_STATUSES" "snd (recovery_verdict ?m s) \<noteq> []" for s
    by (simp_all add: recovery_verdict_def RECOVERY_STATUSES_def)
  with assms(2) m show ?thesis
    by (simp add: rr_canonical_dict_def recovery_of_def Let_def checked_def fail_if_def)
qed

lemma evaluate_facts:
  assumes "evaluate c p parent obs approved = Inr d"
  shows "bound c p parent" "all_valid p parent (set obs)" "\<exists>j. decision_canonical d = Inr j"
proof -
  from assms obtain s where s: "foldE (observation_step p parent (sort (fromkeys approved))) nothing_observed obs = Inr s"
    unfolding evaluate_iff by blast
  show "bound c p parent" "\<exists>j. decision_canonical d = Inr j" using assms evaluate_iff0 by blast+
  from observations_given(2) [OF s] show "all_valid p parent (set obs)" by (auto simp: all_valid_def admissible_def)
qed

lemma captured_recovers:
  assumes "captured c p parent approvals fs d timestamp k" "observation_fingerprints obs p parent = Inr fs"
    "evaluate c p parent obs approvals = Inr d"
  shows "recover_evaluate k c p parent obs = Inr (recovery_of obs d)"
proof -
  note e = evaluate_facts [OF assms(3)]
  from e(3) obtain j where j: "decision_canonical d = Inr j" by blast
  from rr_canonical_total [OF e(2) j] obtain x where x: "rr_canonical_dict (recovery_of obs d) = Inr x" by blast
  have "map (json_text \<circ> JStr) approvals = approvals" by (rule map_idI) simp
  then have a: "map json_text (rk_approved_node_ids k) = approvals" using assms(1) by (simp add: captured_def)
  have c: "context_validate c = Inr c" "plan_validate p (Some parent) = Inr p" "tx_task_id c = ep_task_id p"
    "context_fingerprint c = Inr (ep_task_context_fingerprint p)" "identity_fingerprint c = Inr (ep_task_context_identity_fingerprint p)"
    using e(1) unfolding bound_def by simp_all
  obtain pf df where k: "rk_validate k = Inr k" "rk_task_id k = JStr (ep_task_id p)"
    "rk_task_context_fingerprint k = JStr (ep_task_context_fingerprint p)"
    "rk_task_context_identity_fingerprint k = JStr (ep_task_context_identity_fingerprint p)"
    "plan_fingerprint p = Inr pf" "rk_plan_fingerprint k = JStr pf" "rk_parent_authority_fingerprint k = JStr (au_fingerprint parent)"
    "decision_fingerprint d = Inr df" "rk_scheduling_decision_fingerprint k = JStr df" "rk_observation_fingerprints k = map JStr fs"
    using assms(1) unfolding captured_def by blast
  show ?thesis
    unfolding recover_evaluate_def a
    using x by (simp add: c k assms(2,3) Let_def recovery_of_def case_prod_beta)
qed

lemma recover_captured:
  assumes "recover_evaluate k c p parent obs = Inr r"
  obtains approvals fs d timestamp where "captured c p parent approvals fs d timestamp k" "observation_fingerprints obs p parent = Inr fs"
    "evaluate c p parent obs approvals = Inr d" "r = recovery_of obs d"
proof -
  from assms have v: "rk_validate k = Inr k" by (auto simp: recover_evaluate_def rk_validate_iff)
  then obtain approvals timestamp where a: "rk_approved_node_ids k = map JStr approvals" "rk_captured_at k = JStr timestamp"
    by (auto simp: rk_validate_iff rk_fields_ok_def normal_texts_def text_where_def)
  have m: "map json_text (map JStr approvals) = approvals" by (simp add: map_idI)
  from assms obtain fs d df where f: "observation_fingerprints obs p parent = Inr fs" "map JStr fs = rk_observation_fingerprints k"
    "evaluate c p parent obs approvals = Inr d" "decision_fingerprint d = Inr df" "rk_scheduling_decision_fingerprint k = JStr df"
    "r = recovery_of obs d"
    unfolding recover_evaluate_def a m by (auto simp: recovery_of_def Let_def split: if_splits prod.splits)
  moreover have "captured c p parent approvals fs d timestamp k"
    using assms v a f evaluate_facts(1) [OF f(3)]
    by (auto simp: recover_evaluate_def captured_def bound_def split: if_splits)
  ultimately show thesis using that by blast
qed

lemma fingerprint_refs:
  assumes "Inr ` set fs = observation_fingerprint ` B"
  shows "list_all is_sha256_ref fs"
proof -
  have "is_sha256_ref f" if "f \<in> set fs" for f
  proof -
    from that assms obtain b where "observation_fingerprint b = Inr f" by (metis imageE imageI)
    then show ?thesis by (auto simp: observation_fingerprint_def bindE_Inr_iff)
  qed
  then show ?thesis by (simp add: list_all_iff)
qed

definition checkpoint_with :: "json \<Rightarrow> execution_plan \<Rightarrow> authority \<Rightarrow> string \<Rightarrow> string \<Rightarrow> string list \<Rightarrow> string list \<Rightarrow> string
    \<Rightarrow> runtime_checkpoint" where
  "checkpoint_with i p parent pf df approvals fs timestamp = \<lparr>rk_checkpoint_id = i, rk_task_id = JStr (ep_task_id p),
     rk_task_context_fingerprint = JStr (ep_task_context_fingerprint p),
     rk_task_context_identity_fingerprint = JStr (ep_task_context_identity_fingerprint p), rk_plan_fingerprint = JStr pf,
     rk_parent_authority_fingerprint = JStr (au_fingerprint parent), rk_scheduling_decision_fingerprint = JStr df,
     rk_approved_node_ids = map JStr approvals, rk_observation_fingerprints = map JStr fs,
     rk_captured_at = JStr timestamp, rk_schema_version = JStr RUNTIME_CHECKPOINT_SCHEMA\<rparr>"

lemma checkpoint_with_validates:
  assumes "bound c p parent" "is_sha256_ref pf" "is_sha256_ref df" "list_all ID_RE approvals" "distinct approvals" "sorted approvals"
    "list_all is_sha256_ref fs" "distinct fs" "sorted fs" "utc_text t = Inr timestamp"
    and k: "k0 = checkpoint_with JNull p parent pf df approvals fs timestamp"
  shows "ck_digest (JObj (rk_identity_dict k0)) = Inr (digest (JObj (rk_identity_dict k0)))"
    "rk_validate (k0\<lparr>rk_checkpoint_id := JStr (rk_id k0)\<rparr>) = Inr (k0\<lparr>rk_checkpoint_id := JStr (rk_id k0)\<rparr>)"
proof -
  have "is_sha256_ref (ep_task_context_fingerprint p)" "is_sha256_ref (ep_task_context_identity_fingerprint p)"
    "is_sha256_ref (au_fingerprint parent)" "ID_RE (ep_task_id p)"
    using assms(1) by (auto simp: bound_def plan_validate_iff header_ok_def context_ok_def)
  then have ok: "rk_fields_ok (k0\<lparr>rk_checkpoint_id := i\<rparr>)" for i
    using assms(2-10) utc_text_normal [OF assms(10)]
    by (auto simp: k checkpoint_with_def rk_fields_ok_def text_where_def normal_texts_def)
  then show "ck_digest (JObj (rk_identity_dict k0)) = Inr (digest (JObj (rk_identity_dict k0)))"
    using rk_identity_plain(1) [OF ok, of JNull] by (simp add: k checkpoint_with_def)
  have "rk_id (k0\<lparr>rk_checkpoint_id := JStr (rk_id k0)\<rparr>) = rk_id k0" by (simp add: rk_id_def rk_identity_dict_def)
  with ok show "rk_validate (k0\<lparr>rk_checkpoint_id := JStr (rk_id k0)\<rparr>) = Inr (k0\<lparr>rk_checkpoint_id := JStr (rk_id k0)\<rparr>)"
    by (simp add: rk_validate_iff)
qed

text \<open>A checkpoint can be taken whenever the scheduler has a decision, the approvals are given once each and the clock is aware.\<close>

lemma rk_build_total:
  assumes e: "evaluate c p parent obs (sort approved) = Inr d" and ap: "list_all ID_RE approved" "distinct approved"
    and inj: "inj_on observation_fingerprint (set obs)" "inj_on ob_observation_id (set obs)"
    and t: "dt_offset t \<noteq> None" "utc_text t = Inr timestamp"
  shows "\<exists>k. rk_build now c p parent obs approved (Some t) = Inr k"
proof -
  note f = evaluate_facts [OF e]
  have c: "context_validate c = Inr c" "plan_validate p (Some parent) = Inr p" "tx_task_id c = ep_task_id p"
    "context_fingerprint c = Inr (ep_task_context_fingerprint p)" "identity_fingerprint c = Inr (ep_task_context_identity_fingerprint p)"
    "tx_authority_fingerprint c = au_fingerprint parent"
    using f(1) unfolding bound_def by simp_all
  from c(2) obtain pf where pf: "plan_fingerprint p = Inr pf" "is_sha256_ref pf" using plan_fingerprint_total by blast
  from f(3) obtain j where j: "decision_fingerprint d = Inr (digest j)" by (auto simp: decision_fingerprint_def)
  from fingerprint_fold [OF inj(1), of p parent] f(2) inj(2) obtain fs where fs: "observation_fingerprints obs p parent = Inr fs"
    by (auto simp: observation_fingerprints_def)
  then have s: "sorted fs" "distinct fs" "Inr ` set fs = observation_fingerprint ` set obs"
    using observation_fingerprints_iff [OF inj(1), of p parent fs] by simp_all
  have n: "ck_normalized_ids (map JStr approved) f = Inr (sort approved)" for f
    using ap by (auto simp: ck_normalized_ids_iff)
  have "list_all ID_RE (sort approved)" using ap(1) by (simp add: list_all_iff)
  note v = checkpoint_with_validates [OF f(1) pf(2) is_sha256_ref_digest [of j] this _ _ fingerprint_refs [OF s(3)] s(2,1) t(2) refl]
  let ?k = "checkpoint_with JNull p parent pf (digest j) (sort approved) fs timestamp"
  have "rk_build now c p parent obs approved (Some t) = bindE (ck_digest (JObj (rk_identity_dict ?k)))
      (\<lambda>d. rk_validate (?k\<lparr>rk_checkpoint_id := JStr (''runtime-checkpoint:'' @ take 24 (drop 7 d))\<rparr>))"
    using t(1) by (auto simp: rk_build_def c pf(1) j n fs e t(2) ck_iso8601_def checkpoint_with_def Let_def)
  also have "\<dots> = rk_validate (?k\<lparr>rk_checkpoint_id := JStr (rk_id ?k)\<rparr>)"
    using ap(2) by (simp only: v(1) distinct_sort sorted_sort bindE_simps rk_id_def)
  finally show ?thesis using v(2) ap(2) by simp
qed

section \<open>What a recovery decision means\<close>

definition may_start :: "observation set \<Rightarrow> string set \<Rightarrow> execution_node \<Rightarrow> bool" where
  "may_start B approved n \<longleftrightarrow> (\<forall>b \<in> B. ob_node_id b \<noteq> en_node_id n) \<and> (\<forall>k \<in> set (en_depends_on n). seen B k ''SUCCEEDED'')
     \<and> (en_approval_required n \<longrightarrow> en_node_id n \<in> approved)"

definition no_partial :: "observation set \<Rightarrow> bool" where
  "no_partial B \<longleftrightarrow> (\<forall>b \<in> B. ob_status b \<noteq> ''PARTIAL'')"

lemma waiting_dependency:
  assumes "fst (node_state s ap st n) = ''WAITING''" "given bs s" "no_partial (set bs)"
  shows "\<exists>k \<in> set (en_depends_on n). \<not> success_nodes s k \<and> \<not> failing st k"
proof -
  have np: "en_node_id n \<notin> set (os_partial s)" using assms(2,3) by (auto simp: given_def no_partial_def)
  have "os_terminal s (en_node_id n) = None"
  proof (cases "os_terminal s (en_node_id n)")
    case (Some b)
    with assms(2) have "ob_status b \<in> set TERMINAL_OBSERVATION_STATUSES" unfolding given_def by blast
    with assms(1) Some show ?thesis by (auto simp: node_state_def terminal_statuses)
  qed simp
  with np assms(1) show ?thesis
    by (auto simp: node_state_def list_ex_iff list_all_iff split: if_splits)
qed

lemma node_states:
  assumes "evaluate c p parent obs approved = Inr d" "inj_on ob_observation_id (set obs)"
  obtains state where "map nr_state (sd_records d) = map state (ep_nodes p)" "sd_status d = decision_status (sd_records d)"
    "\<And>n. state n \<in> set NODE_STATES"
    "\<And>n t. t \<in> set TERMINAL_OBSERVATION_STATUSES \<Longrightarrow> state n = t \<longleftrightarrow> seen (set obs) (en_node_id n) t"
    "\<And>n. n \<in> set (ep_nodes p) \<Longrightarrow> state n = ''READY'' \<longleftrightarrow> may_start (set obs) (set approved) n"
    "\<And>n. n \<in> set (ep_nodes p) \<Longrightarrow> no_partial (set obs) \<Longrightarrow> state n = ''WAITING''
       \<Longrightarrow> \<exists>m \<in> set (ep_nodes p). en_node_id m \<in> set (en_depends_on n) \<and> state m \<in> {''READY'', ''WAITING''}"
proof -
  let ?ap = "sort (fromkeys approved)"
  obtain s st where f: "foldE (observation_step p parent ?ap) nothing_observed obs = Inr s"
    and rs: "sd_records d = map (node_record_of s ?ap st) (ep_nodes p)" and status: "sd_status d = decision_status (sd_records d)"
    and st: "\<And>n. n \<in> set (ep_nodes p) \<Longrightarrow> st (en_node_id n) = Some (fst (node_state s ?ap st n))"
    and v: "plan_validate p (Some parent) = Inr p"
    by (rule evaluated_records [OF assms(1)]) blast
  note r = fold_recorded [OF f assms(2)] and g = observations_given [OF f]
  have "\<forall>b \<in> set obs. ob_status b \<in> set OBSERVATION_STATUSES"
    using g(2) by (auto simp: admissible_def observation_validate_iff observation_ok_def)
  note none = recorded_none [OF r this]
  let ?state = "\<lambda>n. fst (node_state s ?ap st n)"
  note rec = recorded_state [OF r, of _ ?ap st]
  show thesis
  proof (rule that [of ?state])
    show "map nr_state (sd_records d) = map ?state (ep_nodes p)" by (simp add: rs node_record_of_def)
    show "sd_status d = decision_status (sd_records d)" by (rule status)
    show "?state n \<in> set NODE_STATES" for n by (rule node_state_member [OF g(1)])
    show "?state n = t \<longleftrightarrow> seen (set obs) (en_node_id n) t" if "t \<in> set TERMINAL_OBSERVATION_STATUSES" for n t
      by (rule rec [OF that])
    fix n assume n: "n \<in> set (ep_nodes p)"
    have dep: "\<exists>m \<in> set (ep_nodes p). en_node_id m = k \<and> st k = Some (?state m)" if "k \<in> set (en_depends_on n)" for k
      using dependency_node [OF v n that] st by blast
    have "\<not> list_ex (failing st) (en_depends_on n)" if all: "\<forall>k \<in> set (en_depends_on n). seen (set obs) k ''SUCCEEDED''"
    proof -
      have "\<not> failing st k" if "k \<in> set (en_depends_on n)" for k
      proof -
        from dep [OF that] obtain m where m: "en_node_id m = k" "st k = Some (?state m)" by blast
        with all that have "?state m = ''SUCCEEDED''" using rec [of "''SUCCEEDED''" m] by (simp add: terminal_statuses)
        with m show ?thesis by simp
      qed
      then show ?thesis by (simp add: list_ex_iff)
    qed
    then show "?state n = ''READY'' \<longleftrightarrow> may_start (set obs) (set approved) n"
      unfolding node_state_admission(1) [OF g(1)] may_start_def none [symmetric]
      by (auto simp: list_all_iff recorded_success [OF r])
    assume "no_partial (set obs)" "?state n = ''WAITING''"
    from waiting_dependency [OF this(2) g(1) this(1)] obtain k where k: "k \<in> set (en_depends_on n)" "\<not> success_nodes s k" "\<not> failing st k" by blast
    from dep [OF k(1)] obtain m where m: "m \<in> set (ep_nodes p)" "en_node_id m = k" "st k = Some (?state m)" by blast
    have "?state m \<noteq> ''SUCCEEDED''" using k(2) m(2) rec [of "''SUCCEEDED''" m] by (simp add: terminal_statuses recorded_success [OF r])
    moreover have "?state m \<in> set NODE_STATES" by (rule node_state_member [OF g(1)])
    ultimately have "?state m \<in> {''READY'', ''WAITING''}" using k(3) m(3) by (auto simp: NODE_STATES_def)
    with k(1) m(1,2) show "\<exists>m \<in> set (ep_nodes p). en_node_id m \<in> set (en_depends_on n) \<and> ?state m \<in> {''READY'', ''WAITING''}" by blast
  qed
qed

lemma states_decide:
  assumes "map nr_state rs = map state ns" "ns \<noteq> []"
  shows "decision_status rs = (if \<forall>n \<in> set ns. state n = ''SUCCEEDED'' then ''COMPLETE''
      else if \<exists>n \<in> set ns. state n = ''READY'' then ''READY''
      else if \<exists>n \<in> set ns. state n = ''BLOCKED'' then ''BLOCKED'' else ''WAITING'')"
proof -
  have eq: "nr_state ` set rs = state ` set ns" using arg_cong [OF assms(1), of set] by simp
  have "(\<forall>r \<in> set rs. nr_state r = t) \<longleftrightarrow> (\<forall>n \<in> set ns. state n = t)" "(\<exists>r \<in> set rs. nr_state r = t) \<longleftrightarrow> (\<exists>n \<in> set ns. state n = t)" for t
    using ball_simps(9) [of nr_state "set rs" "\<lambda>x. x = t"] bex_simps(7) [of nr_state "set rs" "\<lambda>x. x = t"] unfolding eq by auto
  moreover have "rs \<noteq> []" using assms by auto
  ultimately show ?thesis by (simp add: decision_status_def list_all_iff list_ex_iff)
qed

lemma waiting_needs_ready:
  assumes v: "plan_validate p parent = Inr p" and n: "n \<in> set (ep_nodes p)" "state n = ''WAITING''"
    and dep: "\<And>n. n \<in> set (ep_nodes p) \<Longrightarrow> state n = ''WAITING''
       \<Longrightarrow> \<exists>m \<in> set (ep_nodes p). en_node_id m \<in> set (en_depends_on n) \<and> state m \<in> {''READY'', ''WAITING''}"
  shows "\<exists>m \<in> set (ep_nodes p). state m = ''READY''"
proof -
  from n obtain i where i: "i < length (ep_nodes p)" "state (ep_nodes p ! i) = ''WAITING''"
    "\<And>j. j < i \<Longrightarrow> state (ep_nodes p ! j) \<noteq> ''WAITING''"
    using first_failure [of "ep_nodes p" "\<lambda>n. state n \<noteq> ''WAITING''"] by blast
  from dep [OF nth_mem [OF i(1)] i(2)] obtain m where m: "m \<in> set (ep_nodes p)"
    "en_node_id m \<in> set (en_depends_on (ep_nodes p ! i))" "state m \<in> {''READY'', ''WAITING''}" by blast
  from plan_order_facts(3) [OF v i(1) m(2)] obtain j where j: "j < i" "en_node_id (ep_nodes p ! j) = en_node_id m" by blast
  then have "ep_nodes p ! j = m"
    using i(1) m(1) plan_ordered(2) [OF v] by (auto simp: distinct_map inj_on_def)
  with i(3) [OF j(1)] m show ?thesis by auto
qed

lemma evaluate_status:
  assumes "evaluate c p parent obs approved = Inr d" "inj_on ob_observation_id (set obs)" "no_partial (set obs)"
  shows "sd_status d = ''COMPLETE'' \<longleftrightarrow> (\<forall>n \<in> set (ep_nodes p). seen (set obs) (en_node_id n) ''SUCCEEDED'')"
    "sd_status d = ''READY'' \<longleftrightarrow> (\<exists>n \<in> set (ep_nodes p). may_start (set obs) (set approved) n)"
    "sd_status d = ''WAITING'' \<longleftrightarrow> (\<forall>n \<in> set (ep_nodes p). \<exists>t \<in> set TERMINAL_OBSERVATION_STATUSES. seen (set obs) (en_node_id n) t)
       \<and> \<not> (\<forall>n \<in> set (ep_nodes p). seen (set obs) (en_node_id n) ''SUCCEEDED'')"
proof -
  obtain state where m: "map nr_state (sd_records d) = map state (ep_nodes p)" and status: "sd_status d = decision_status (sd_records d)"
    and member: "\<And>n. state n \<in> set NODE_STATES"
    and terminal: "\<And>n t. t \<in> set TERMINAL_OBSERVATION_STATUSES \<Longrightarrow> state n = t \<longleftrightarrow> seen (set obs) (en_node_id n) t"
    and ready: "\<And>n. n \<in> set (ep_nodes p) \<Longrightarrow> state n = ''READY'' \<longleftrightarrow> may_start (set obs) (set approved) n"
    and waiting: "\<And>n. n \<in> set (ep_nodes p) \<Longrightarrow> no_partial (set obs) \<Longrightarrow> state n = ''WAITING''
       \<Longrightarrow> \<exists>m \<in> set (ep_nodes p). en_node_id m \<in> set (en_depends_on n) \<and> state m \<in> {''READY'', ''WAITING''}"
    by (rule node_states [OF assms(1,2)]) blast
  have v: "plan_validate p (Some parent) = Inr p" using evaluate_facts(1) [OF assms(1)] by (simp add: bound_def)
  have succ: "state n = ''SUCCEEDED'' \<longleftrightarrow> seen (set obs) (en_node_id n) ''SUCCEEDED''" for n
    by (rule terminal) (simp add: terminal_statuses)
  have "ep_nodes p \<noteq> []" using v by (auto simp: plan_validate_iff header_ok_def)
  note st = states_decide [OF m this, folded status]
  note wait = waiting_needs_ready [OF v, of _ state, OF _ _ waiting [OF _ assms(3)]]
  show "sd_status d = ''COMPLETE'' \<longleftrightarrow> (\<forall>n \<in> set (ep_nodes p). seen (set obs) (en_node_id n) ''SUCCEEDED'')"
    unfolding st by (simp add: succ)
  show "sd_status d = ''READY'' \<longleftrightarrow> (\<exists>n \<in> set (ep_nodes p). may_start (set obs) (set approved) n)"
    unfolding st by (auto simp: ready [symmetric])
  have "state n \<in> set TERMINAL_OBSERVATION_STATUSES \<longleftrightarrow> state n \<notin> {''READY'', ''BLOCKED'', ''WAITING''}" for n
    using member [of n] by (auto simp: NODE_STATES_def terminal_statuses)
  moreover have "(\<exists>t \<in> set TERMINAL_OBSERVATION_STATUSES. seen (set obs) (en_node_id n) t) \<longleftrightarrow> state n \<in> set TERMINAL_OBSERVATION_STATUSES" for n
    by (auto simp: terminal [symmetric])
  ultimately show "sd_status d = ''WAITING'' \<longleftrightarrow> (\<forall>n \<in> set (ep_nodes p). \<exists>t \<in> set TERMINAL_OBSERVATION_STATUSES. seen (set obs) (en_node_id n) t)
       \<and> \<not> (\<forall>n \<in> set (ep_nodes p). seen (set obs) (en_node_id n) ''SUCCEEDED'')"
    unfolding st using wait by (auto simp: succ)
qed

lemma recovered_observations:
  assumes "inj_on observation_fingerprint (set obs)" "observation_fingerprints obs p parent = Inr fs"
  shows "inj_on ob_observation_id (set obs)"
  using assms observation_fingerprints_iff by blast

section \<open>Properties\<close>

definition demo_instant :: pydt where
  "demo_instant = \<lparr>dt_local = 63839664000000000, dt_offset = Some 0\<rparr>"

lemma demo_builds: "\<exists>k. rk_build demo_instant demo_plan_context demo_plan demo_plan_authority [demo_observation] [] (Some demo_instant) = Inr k"
proof -
  obtain d where "evaluate demo_plan_context demo_plan demo_plan_authority [demo_observation] [] = Inr d" using demo_evaluates by blast
  moreover have "utc_text demo_instant = Inr (isoformat_local 63839664000000000 @ ''Z'')" "dt_offset demo_instant \<noteq> None"
    by (simp_all add: demo_instant_def utc_text_def astimezone_utc_def instant_def MAX_LOCAL_def)
  ultimately show ?thesis
    using rk_build_total [of demo_plan_context demo_plan demo_plan_authority "[demo_observation]" "[]" d demo_instant] by auto
qed

text \<open>C39: checkpoint texts round trip. Every valid checkpoint is written as a text, and reading the text gives the same
  checkpoint; and whatever text is read, the checkpoint it gives is valid and can be written again.\<close>

theorem checkpoint_roundtrip:
  "(rk_validate k = Inr k \<longrightarrow> (\<exists>t. rk_dumps k = Inr t \<and> rk_loads t = Inr k))
   \<and> (rk_loads u = Inr k \<longrightarrow> rk_validate k = Inr k \<and> (\<exists>t. rk_dumps k = Inr t \<and> rk_loads t = Inr k))"
proof -
  have w: "\<exists>t. rk_dumps k = Inr t \<and> rk_loads t = Inr k" if v: "rk_validate k = Inr k"
  proof -
    have "list_all (\<lambda>(i, v). plain_json v \<and> finite_json v) [(''checkpoint'', JObj (rk_members k))]"
      using v rk_identity_plain [of k] by (auto simp: rk_validate_iff rk_identity_dict_def)
    then have "rk_loads (dumps (rk_document k)) = Inr k"
      unfolding rk_envelope_def by (intro rk_loads_members [OF v]) (simp_all add: dict_get_def)
    with rk_dumps_iff [OF v] show ?thesis by blast
  qed
  from w rk_loads_valid show ?thesis by blast
qed

theorem checkpoint_roundtrip_witness:
  "\<exists>k t. rk_build demo_instant demo_plan_context demo_plan demo_plan_authority [demo_observation] [] (Some demo_instant) = Inr k
     \<and> rk_dumps k = Inr t \<and> rk_loads t = Inr k"
proof -
  obtain k where k: "rk_build demo_instant demo_plan_context demo_plan demo_plan_authority [demo_observation] [] (Some demo_instant) = Inr k"
    using demo_builds by blast
  then have "rk_validate k = Inr k" by (rule rk_build_captures) (simp add: captured_def)
  with k checkpoint_roundtrip [of k] show ?thesis by blast
qed

text \<open>C17: recovery accepts exactly what was captured. For a checkpoint built from observations \<open>obs\<close>, and as long as no two
  different observations have the same fingerprint, recovery from observations \<open>obs'\<close> succeeds if and only if they
  are the same set of observations, in any order and with repetitions; the scheduling decision it returns is then
  the one made when the checkpoint was built.\<close>

theorem recovery_exact:
  assumes "rk_build now c p parent obs approved at_time = Inr k" "inj_on observation_fingerprint (set obs \<union> set obs')"
  shows "if set obs' = set obs
    then \<exists>d r. evaluate c p parent obs approved = Inr d \<and> recover_evaluate k c p parent obs' = Inr r \<and> rr_scheduling_decision r = d
    else \<forall>r. recover_evaluate k c p parent obs' \<noteq> Inr r"
proof -
  from assms(1) obtain fs d timestamp where b: "observation_fingerprints obs p parent = Inr fs"
    "evaluate c p parent obs (sort approved) = Inr d" "captured c p parent (sort approved) fs d timestamp k"
    by (rule rk_build_captures)
  have inj: "inj_on observation_fingerprint (set obs)" "inj_on observation_fingerprint (set obs')"
    using assms(2) by (auto intro: inj_on_subset)
  note ids = recovered_observations [OF inj(1) b(1)]
  show ?thesis
  proof (cases "set obs' = set obs")
    case True
    then have "observation_fingerprints obs' p parent = Inr fs"
      using b(1) unfolding observation_fingerprints_iff [OF inj(1)] observation_fingerprints_iff [OF inj(2)] by simp
    moreover have "evaluate c p parent obs' (sort approved) = Inr d" "evaluate c p parent obs approved = Inr d"
      using b(2) True evaluate_set_cong [OF ids, of obs' "sort approved" "sort approved"] evaluate_set_cong [OF ids, of obs "sort approved" approved]
      by auto
    ultimately show ?thesis using captured_recovers [OF b(3)] True by (auto simp: recovery_of_def Let_def)
  next
    case False
    have "recover_evaluate k c p parent obs' \<noteq> Inr r" for r
    proof
      assume "recover_evaluate k c p parent obs' = Inr r"
      then obtain fs' where fs: "observation_fingerprints obs' p parent = Inr fs'" "rk_observation_fingerprints k = map JStr fs'"
        by (rule recover_captured) (auto simp: captured_def)
      then have "map JStr fs' = map JStr fs" using b(3) by (simp add: captured_def)
      then have "fs' = fs" by (subst (asm) inj_map_eq_map) (auto simp: inj_def)
      then have "observation_fingerprint ` set obs' = observation_fingerprint ` set obs"
        using b(1) fs(1) by (simp add: observation_fingerprints_iff inj)
      with assms(2) have "set obs' = set obs" by (simp add: inj_on_image_eq_iff)
      with False show False by blast
    qed
    with False show ?thesis by simp
  qed
qed

theorem recovery_exact_witness:
  "\<exists>k. rk_build demo_instant demo_plan_context demo_plan demo_plan_authority [demo_observation] [] (Some demo_instant) = Inr k
     \<and> (\<exists>r. recover_evaluate k demo_plan_context demo_plan demo_plan_authority [demo_observation, demo_observation] = Inr r)
     \<and> (\<forall>r. recover_evaluate k demo_plan_context demo_plan demo_plan_authority [] \<noteq> Inr r)"
proof -
  obtain k where k: "rk_build demo_instant demo_plan_context demo_plan demo_plan_authority [demo_observation] [] (Some demo_instant) = Inr k"
    using demo_builds by blast
  from recovery_exact [OF k, of "[demo_observation, demo_observation]"] recovery_exact [OF k, of "[]"] k show ?thesis by auto
qed

text \<open>C40: what a recovery decision says. For observations with different fingerprints: \<open>MANUAL_RECONCILIATION\<close> exactly when
  some observation is partial; without one, \<open>COMPLETE\<close> exactly when every node succeeded, and \<open>RECOVERABLE\<close> exactly when
  either some node may start, or every node has reached an end and some node did not succeed.\<close>

theorem recovery_means:
  assumes "recover_evaluate k c p parent obs = Inr r" "inj_on observation_fingerprint (set obs)"
  shows "(rr_status r = ''MANUAL_RECONCILIATION'' \<longleftrightarrow> \<not> no_partial (set obs))
    \<and> (rr_status r = ''COMPLETE'' \<longleftrightarrow> no_partial (set obs) \<and> (\<forall>n \<in> set (ep_nodes p). seen (set obs) (en_node_id n) ''SUCCEEDED''))
    \<and> (rr_status r = ''RECOVERABLE'' \<longleftrightarrow> no_partial (set obs)
        \<and> ((\<exists>n \<in> set (ep_nodes p). may_start (set obs) (json_text ` set (rk_approved_node_ids k)) n)
           \<or> (\<forall>n \<in> set (ep_nodes p). \<exists>t \<in> set TERMINAL_OBSERVATION_STATUSES. seen (set obs) (en_node_id n) t)
              \<and> \<not> (\<forall>n \<in> set (ep_nodes p). seen (set obs) (en_node_id n) ''SUCCEEDED'')))"
proof -
  from assms(1) obtain approvals fs d timestamp where e: "captured c p parent approvals fs d timestamp k"
    "observation_fingerprints obs p parent = Inr fs" "evaluate c p parent obs approvals = Inr d" "r = recovery_of obs d"
    by (rule recover_captured)
  have a: "json_text ` set (rk_approved_node_ids k) = set approvals" using e(1) by (simp add: captured_def image_image)
  have manual: "rr_manual_node_ids r = [] \<longleftrightarrow> no_partial (set obs)"
    unfolding set_empty [symmetric] by (auto simp: e(4) recovery_of_def Let_def no_partial_def)
  have verdict: "rr_status r = fst (recovery_verdict (rr_manual_node_ids r) (sd_status d))"
    by (simp add: e(4) recovery_of_def Let_def)
  show ?thesis
  proof (cases "no_partial (set obs)")
    case True
    note s = evaluate_status [OF e(3) recovered_observations [OF assms(2) e(2)] True]
    have "sd_status d \<in> set DECISION_STATUSES" 
      using evaluate_facts(3) [OF e(3)] by (auto simp: decision_canonical_def checked_def)
    with True manual show ?thesis unfolding verdict a s(3) [symmetric] unfolding s(1,2) [symmetric]
      by (auto simp: recovery_verdict_def DECISION_STATUSES_def)
  qed (use manual verdict in \<open>simp add: recovery_verdict_def\<close>)
qed

theorem recovery_means_witness:
  "\<exists>k r. rk_build demo_instant demo_plan_context demo_plan demo_plan_authority [demo_observation] [] (Some demo_instant) = Inr k
     \<and> recover_evaluate k demo_plan_context demo_plan demo_plan_authority [demo_observation] = Inr r \<and> rr_status r = ''RECOVERABLE''"
proof -
  obtain k where k: "rk_build demo_instant demo_plan_context demo_plan demo_plan_authority [demo_observation] [] (Some demo_instant) = Inr k"
    using demo_builds by blast
  then obtain fs d timestamp where b: "observation_fingerprints [demo_observation] demo_plan demo_plan_authority = Inr fs"
    "evaluate demo_plan_context demo_plan demo_plan_authority [demo_observation] (sort []) = Inr d"
    "captured demo_plan_context demo_plan demo_plan_authority (sort []) fs d timestamp k" by (rule rk_build_captures)
  note r = captured_recovers [OF b(3,1,2)]
  have "may_start (set [demo_observation]) A (demo_nodes ! 1)" "demo_nodes ! 1 \<in> set (ep_nodes demo_plan)" for A
    using demo_gather by (simp_all add: may_start_def seen_def)
  moreover have "no_partial (set [demo_observation])" using demo_gather by (simp add: no_partial_def)
  ultimately have "rr_status (recovery_of [demo_observation] d) = ''RECOVERABLE''" using recovery_means [OF r] by auto
  with k r show ?thesis by blast
qed

text \<open>The envelope may carry further members, which no fingerprint covers: different canonical texts give the same checkpoint.\<close>

lemma checkpoint_text_padding:
  assumes "rk_validate k = Inr k" "x \<notin> {''schema_version'', ''checkpoint'', ''checkpoint_fingerprint''}"
  shows "rk_loads (dumps (JObj [(''schema_version'', JStr RUNTIME_CHECKPOINT_ENVELOPE_SCHEMA), (''checkpoint'', JObj (rk_members k)),
      (''checkpoint_fingerprint'', JStr (digest (JObj (rk_identity_dict k)))), (x, JStr s)])) = Inr k"
proof -
  have "plain_json (JObj (rk_members k))" "finite_json (JObj (rk_members k))"
    using assms(1) rk_identity_plain [of k] by (auto simp: rk_validate_iff rk_identity_dict_def)
  then show ?thesis using assms(2) by (intro rk_loads_members [OF assms(1)]) (auto simp: dict_get_def)
qed

end
