(* ===== verification/Dispatch_Recovery.thy ===== *)
theory Dispatch_Recovery
  imports Runtime_Checkpoint Execution_Scheduler Capability_Revocation
begin

text \<open>
  Model of \<open>src/three_agent/runtime_dispatch_recovery.py\<close>: a binding joins a runtime checkpoint with the scheduler's
  transient control state, the counters of the persistent budget and the revocations of the moment; recovery checks a
  binding against the live budget and the live revocations and decides whether dispatching may resume. Bindings are
  read back from texts, so, as in \<open>Runtime_Checkpoint\<close>, fields hold JSON values until they are validated. The budget and
  revocation guards are protocols in the source; they are the record \<open>recovery_guards\<close> of functions on a world here,
  instantiated at the end with the execution budget and the revocation table of the task database.
\<close>

section \<open>Checks of fields\<close>

abbreviation DR :: exc_class where "DR \<equiv> RuntimeDispatchRecoveryError"

definition RUNTIME_DISPATCH_RECOVERY_BINDING_SCHEMA :: string where
  "RUNTIME_DISPATCH_RECOVERY_BINDING_SCHEMA = ''workspace-runtime-dispatch-recovery-binding/v1''"

definition RUNTIME_DISPATCH_RECOVERY_BINDING_ENVELOPE_SCHEMA :: string where
  "RUNTIME_DISPATCH_RECOVERY_BINDING_ENVELOPE_SCHEMA = ''workspace-runtime-dispatch-recovery-binding-envelope/v1''"

definition RUNTIME_DISPATCH_RECOVERY_DECISION_SCHEMA :: string where
  "RUNTIME_DISPATCH_RECOVERY_DECISION_SCHEMA = ''workspace-runtime-dispatch-recovery-decision/v1''"

definition BUDGET_STATE_SCHEMA :: string where
  "BUDGET_STATE_SCHEMA = ''workspace-task-execution-budget-state/v2''"

definition DR_MAX_SCHEDULER_CONCURRENCY :: int where
  "DR_MAX_SCHEDULER_CONCURRENCY = 24"

text \<open>\<open>^[A-Za-z0-9][A-Za-z0-9._:/@+\-=]{0,127}$\<close> and \<open>^[A-Z][A-Z0-9_]{1,127}$\<close> are the patterns of the revocation store.\<close>

definition dr_compact :: "json \<Rightarrow> string \<Rightarrow> string result" where
  "dr_compact v field = str_field DR (\<lambda>s. if s \<noteq> strip s \<or> \<not> REVOCATION_COMPACT_RE s then invalid DR field else Inr s) field v"

definition dr_bounded_text :: "json \<Rightarrow> string \<Rightarrow> nat \<Rightarrow> string result" where
  "dr_bounded_text v field max_len = str_field DR (\<lambda>s. single_line DR s field max_len) field v"

definition dr_sha256 :: "json \<Rightarrow> string \<Rightarrow> string result" where
  "dr_sha256 v field = str_field DR (\<lambda>s. sha256_field DR s field) field v"

definition dr_timestamp :: "json \<Rightarrow> string \<Rightarrow> string result" where
  "dr_timestamp v field = str_field DR (\<lambda>s.
     if s = [] \<or> s \<noteq> strip s then invalid DR field
     else case fromisoformat (zulu s) of None \<Rightarrow> invalid DR field
     | Some p \<Rightarrow> if dt_offset p = None then raise DR (upper field @ ''_MUST_BE_TIMEZONE_AWARE'') else Inr s) field v"

definition dr_nonnegative_int :: "json \<Rightarrow> string \<Rightarrow> int result" where
  "dr_nonnegative_int v field = (case v of JInt i \<Rightarrow> if i < 0 then invalid DR field else Inr i | _ \<Rightarrow> invalid DR field)"

definition dr_positive_int :: "json \<Rightarrow> string \<Rightarrow> int result" where
  "dr_positive_int v field = bindE (dr_nonnegative_int v field) (\<lambda>i. if i < 1 then invalid DR field else Inr i)"

text \<open>The values a comprehension takes from a parameter: a string is refused, any other iterable is iterated.\<close>

definition dr_iterate :: "json \<Rightarrow> string \<Rightarrow> json list result" where
  "dr_iterate v field = (case v of JStr _ \<Rightarrow> invalid DR field | _ \<Rightarrow> py_tuple v)"

definition dr_normalized :: "(json \<Rightarrow> string \<Rightarrow> string result) \<Rightarrow> json \<Rightarrow> string \<Rightarrow> string list result" where
  "dr_normalized chk v field = bindE (dr_iterate v field) (\<lambda>values.
     bindE (mapE (\<lambda>x. chk x field) values) (\<lambda>items. let result = sort items in
     if length result \<noteq> length (fromkeys result) then raise DR (''DUPLICATE_'' @ upper field) else Inr result))"

definition dr_normalized_ids :: "json \<Rightarrow> string \<Rightarrow> string list result" where
  "dr_normalized_ids v field = dr_normalized dr_compact v field"

definition dr_normalized_hashes :: "json \<Rightarrow> string \<Rightarrow> string list result" where
  "dr_normalized_hashes v field = dr_normalized dr_sha256 v field"

section \<open>Snapshots of the budget\<close>

record runtime_budget_snapshot =
  sb_task_id :: json
  sb_max_steps :: json
  sb_max_tool_calls :: json
  sb_max_model_retries :: json
  sb_max_model_escalations :: json
  sb_max_wall_time_ms :: json
  sb_steps_used :: json
  sb_tool_calls_used :: json
  sb_model_retries_used :: json
  sb_model_escalations_used :: json
  sb_deadline_at :: json
  sb_schema_version :: json

text \<open>One turn of the loop over \<open>(value, maximum, field_name)\<close>; the maximum has been checked to be an integer.\<close>

fun json_int :: "json \<Rightarrow> int" where
  "json_int (JInt i) = i"
| "json_int _ = 0"

definition dr_within :: "json \<Rightarrow> json \<Rightarrow> string \<Rightarrow> unit result" where
  "dr_within v maximum field = bindE (dr_nonnegative_int v field) (\<lambda>used.
     fail_if DR (json_int maximum < used) (upper field @ ''_EXCEEDS_LIMIT''))"

definition sb_checks :: "runtime_budget_snapshot \<Rightarrow> unit result list" where
  "sb_checks b =
     [fail_if DR (sb_schema_version b \<noteq> JStr BUDGET_STATE_SCHEMA) ''BUDGET_SNAPSHOT_SCHEMA_VERSION_MISMATCH'',
      void (dr_compact (sb_task_id b) ''budget_task_id''),
      void (dr_positive_int (sb_max_steps b) ''max_steps''),
      void (dr_nonnegative_int (sb_max_tool_calls b) ''max_tool_calls''),
      void (dr_nonnegative_int (sb_max_model_retries b) ''max_model_retries''),
      void (dr_nonnegative_int (sb_max_model_escalations b) ''max_model_escalations''),
      bindE (dr_nonnegative_int (sb_max_wall_time_ms b) ''max_wall_time_ms'') (\<lambda>i. fail_if DR (i < 100) ''INVALID_MAX_WALL_TIME_MS''),
      dr_within (sb_steps_used b) (sb_max_steps b) ''steps_used'',
      dr_within (sb_tool_calls_used b) (sb_max_tool_calls b) ''tool_calls_used'',
      dr_within (sb_model_retries_used b) (sb_max_model_retries b) ''model_retries_used'',
      dr_within (sb_model_escalations_used b) (sb_max_model_escalations b) ''model_escalations_used'',
      void (dr_timestamp (sb_deadline_at b) ''budget_deadline_at'')]"

definition sb_validate :: "runtime_budget_snapshot \<Rightarrow> runtime_budget_snapshot result" where
  "sb_validate b = checked (sb_checks b) b"

definition sb_members :: "runtime_budget_snapshot \<Rightarrow> (string \<times> json) list" where
  "sb_members b = [(''schema_version'', sb_schema_version b), (''task_id'', sb_task_id b), (''max_steps'', sb_max_steps b),
     (''max_tool_calls'', sb_max_tool_calls b), (''max_model_retries'', sb_max_model_retries b),
     (''max_model_escalations'', sb_max_model_escalations b), (''max_wall_time_ms'', sb_max_wall_time_ms b),
     (''steps_used'', sb_steps_used b), (''tool_calls_used'', sb_tool_calls_used b),
     (''model_retries_used'', sb_model_retries_used b), (''model_escalations_used'', sb_model_escalations_used b),
     (''deadline_at'', sb_deadline_at b)]"

definition sb_keys :: "string list" where
  "sb_keys = [''schema_version'', ''task_id'', ''max_steps'', ''max_tool_calls'', ''max_model_retries'', ''max_model_escalations'',
     ''max_wall_time_ms'', ''steps_used'', ''tool_calls_used'', ''model_retries_used'', ''model_escalations_used'', ''deadline_at'']"

definition sb_from_mapping :: "json \<Rightarrow> runtime_budget_snapshot result" where
  "sb_from_mapping payload = (case payload of JObj d \<Rightarrow>
       if set (map fst d) \<noteq> set sb_keys then raise DR ''BUDGET_SNAPSHOT_SHAPE_INVALID''
       else sb_validate \<lparr>sb_task_id = dict_get d ''task_id'' JNull, sb_max_steps = dict_get d ''max_steps'' JNull,
         sb_max_tool_calls = dict_get d ''max_tool_calls'' JNull, sb_max_model_retries = dict_get d ''max_model_retries'' JNull,
         sb_max_model_escalations = dict_get d ''max_model_escalations'' JNull,
         sb_max_wall_time_ms = dict_get d ''max_wall_time_ms'' JNull, sb_steps_used = dict_get d ''steps_used'' JNull,
         sb_tool_calls_used = dict_get d ''tool_calls_used'' JNull, sb_model_retries_used = dict_get d ''model_retries_used'' JNull,
         sb_model_escalations_used = dict_get d ''model_escalations_used'' JNull,
         sb_deadline_at = dict_get d ''deadline_at'' JNull, sb_schema_version = dict_get d ''schema_version'' JNull\<rparr>
     | _ \<Rightarrow> raise DR ''BUDGET_SNAPSHOT_NOT_MAPPING'')"

definition sb_canonical_dict :: "runtime_budget_snapshot \<Rightarrow> json result" where
  "sb_canonical_dict b = bindE (sb_validate b) (\<lambda>_. Inr (JObj (sb_members b)))"

abbreviation dr_digest :: "json \<Rightarrow> string result" where
  "dr_digest \<equiv> canonical_digest DR ''DISPATCH_RECOVERY_NOT_CANONICAL_JSON''"

definition sb_fingerprint :: "runtime_budget_snapshot \<Rightarrow> string result" where
  "sb_fingerprint b = bindE (sb_canonical_dict b) dr_digest"

definition immutable_tuple :: "runtime_budget_snapshot \<Rightarrow> json list" where
  "immutable_tuple b = [sb_task_id b, sb_max_steps b, sb_max_tool_calls b, sb_max_model_retries b, sb_max_model_escalations b,
     sb_max_wall_time_ms b, sb_deadline_at b]"

definition sb_counters :: "runtime_budget_snapshot \<Rightarrow> int list" where
  "sb_counters b = map json_int [sb_steps_used b, sb_tool_calls_used b, sb_model_retries_used b, sb_model_escalations_used b]"

section \<open>Snapshots of revocations\<close>

record runtime_revocation_snapshot =
  rsn_task_id :: json
  rsn_capability :: json
  rsn_reason_code :: json
  rsn_revoked_at :: json

definition rsn_checks :: "runtime_revocation_snapshot \<Rightarrow> unit result list" where
  "rsn_checks r =
     [void (dr_compact (rsn_task_id r) ''revocation_task_id''),
      void (dr_compact (rsn_capability r) ''revoked_capability''),
      fail_if DR (case rsn_reason_code r of JStr s \<Rightarrow> \<not> REASON_RE s | _ \<Rightarrow> True) ''INVALID_REVOCATION_REASON_CODE'',
      void (dr_timestamp (rsn_revoked_at r) ''revoked_at'')]"

definition rsn_validate :: "runtime_revocation_snapshot \<Rightarrow> runtime_revocation_snapshot result" where
  "rsn_validate r = checked (rsn_checks r) r"

text \<open>A \<open>CapabilityRevocation\<close> with its four texts, or a mapping.\<close>

datatype revocation_source = Revocation string string string string | Mapped json

definition rsn_plain :: "string list" where
  "rsn_plain = [''task_id'', ''capability'', ''reason_code'', ''revoked_at'']"

definition rsn_from_revocation :: "revocation_source \<Rightarrow> runtime_revocation_snapshot result" where
  "rsn_from_revocation v = (case v of
       Revocation t c r a \<Rightarrow> rsn_validate \<lparr>rsn_task_id = JStr t, rsn_capability = JStr c, rsn_reason_code = JStr r, rsn_revoked_at = JStr a\<rparr>
     | Mapped (JObj d) \<Rightarrow>
         if set (map fst d) \<noteq> set rsn_plain \<and> set (map fst d) \<noteq> set (''schema_version'' # rsn_plain)
           then raise DR ''REVOCATION_SNAPSHOT_SHAPE_INVALID''
         else if ''schema_version'' \<in> set (map fst d) \<and> dict_get d ''schema_version'' JNull \<noteq> JStr REVOCATION_SCHEMA
           then raise DR ''REVOCATION_SNAPSHOT_SCHEMA_VERSION_MISMATCH''
         else rsn_validate \<lparr>rsn_task_id = dict_get d ''task_id'' JNull, rsn_capability = dict_get d ''capability'' JNull,
           rsn_reason_code = dict_get d ''reason_code'' JNull, rsn_revoked_at = dict_get d ''revoked_at'' JNull\<rparr>
     | Mapped _ \<Rightarrow> raise DR ''INVALID_REVOCATION_SNAPSHOT'')"

definition rsn_members :: "runtime_revocation_snapshot \<Rightarrow> (string \<times> json) list" where
  "rsn_members r = [(''task_id'', rsn_task_id r), (''capability'', rsn_capability r), (''reason_code'', rsn_reason_code r),
     (''revoked_at'', rsn_revoked_at r)]"

definition rsn_canonical_dict :: "runtime_revocation_snapshot \<Rightarrow> json result" where
  "rsn_canonical_dict r = bindE (rsn_validate r) (\<lambda>_. Inr (JObj (rsn_members r)))"

definition rsn_fingerprint :: "runtime_revocation_snapshot \<Rightarrow> string result" where
  "rsn_fingerprint r = bindE (rsn_canonical_dict r) dr_digest"

text \<open>\<open>sorted(rows, key=lambda row: row.capability)\<close> on validated rows.\<close>

definition sort_revocations :: "runtime_revocation_snapshot list \<Rightarrow> runtime_revocation_snapshot list" where
  "sort_revocations rows = sort_key (\<lambda>r. json_text (rsn_capability r)) rows"

section \<open>Bindings\<close>

record recovery_binding =
  db_binding_id :: json
  db_runtime_checkpoint_fingerprint :: json
  db_task_id :: json
  db_task_context_fingerprint :: json
  db_plan_fingerprint :: json
  db_parent_authority_fingerprint :: json
  db_scheduler_state_fingerprint :: json
  db_max_concurrency :: json
  db_cancelled :: json
  db_cancellation_reason :: json
  db_dispatch_sequence :: json
  db_approved_node_ids :: "json list"
  db_in_flight_ticket_fingerprints :: "json list"
  db_observation_fingerprints :: "json list"
  db_budget :: runtime_budget_snapshot
  db_revocations :: "runtime_revocation_snapshot list"
  db_captured_at :: json
  db_schema_version :: json

definition db_identity_dict :: "recovery_binding \<Rightarrow> (string \<times> json) list result" where
  "db_identity_dict b = bindE (sb_canonical_dict (db_budget b)) (\<lambda>budget.
     bindE (mapE rsn_canonical_dict (db_revocations b)) (\<lambda>revocations.
     Inr [(''schema_version'', db_schema_version b), (''runtime_checkpoint_fingerprint'', db_runtime_checkpoint_fingerprint b),
       (''task_id'', db_task_id b), (''task_context_fingerprint'', db_task_context_fingerprint b),
       (''plan_fingerprint'', db_plan_fingerprint b), (''parent_authority_fingerprint'', db_parent_authority_fingerprint b),
       (''scheduler_state_fingerprint'', db_scheduler_state_fingerprint b), (''max_concurrency'', db_max_concurrency b),
       (''cancelled'', db_cancelled b), (''cancellation_reason'', db_cancellation_reason b),
       (''dispatch_sequence'', db_dispatch_sequence b), (''approved_node_ids'', JList (db_approved_node_ids b)),
       (''in_flight_ticket_fingerprints'', JList (db_in_flight_ticket_fingerprints b)),
       (''observation_fingerprints'', JList (db_observation_fingerprints b)), (''budget'', budget),
       (''revocations'', JList revocations), (''captured_at'', db_captured_at b)]))"

definition db_fingerprint :: "recovery_binding \<Rightarrow> string result" where
  "db_fingerprint b = bindE (db_identity_dict b) (\<lambda>d. dr_digest (JObj d))"

text \<open>\<open>max_concurrency\<close> within the runtime limit, and the cancellation reason that a cancelled scheduler must have and no other may.\<close>

definition dr_concurrency :: "json \<Rightarrow> int result" where
  "dr_concurrency v = bindE (dr_positive_int v ''max_concurrency'') (\<lambda>i.
     if DR_MAX_SCHEDULER_CONCURRENCY < i then raise DR ''MAX_CONCURRENCY_EXCEEDS_RUNTIME_LIMIT'' else Inr i)"

definition dr_cancellation :: "json \<Rightarrow> json \<Rightarrow> unit result" where
  "dr_cancellation cancelled reason = (
     if cancelled = JBool True then void (dr_bounded_text reason ''cancellation_reason'' 256)
     else fail_if DR (reason \<noteq> JNull) ''UNEXPECTED_CANCELLATION_REASON'')"

definition is_json_bool :: "json \<Rightarrow> bool" where
  "is_json_bool v = (case v of JBool _ \<Rightarrow> True | _ \<Rightarrow> False)"

text \<open>One turn of the loop over the revocations, with the capabilities seen.\<close>

definition db_revocation_step :: "json \<Rightarrow> json list \<Rightarrow> runtime_revocation_snapshot \<Rightarrow> json list result" where
  "db_revocation_step task_id seen_caps row = bindE (rsn_validate row) (\<lambda>_.
     if rsn_task_id row \<noteq> task_id then raise DR ''REVOCATION_TASK_MISMATCH''
     else if rsn_capability row \<in> set seen_caps then raise DR ''DUPLICATE_REVOKED_CAPABILITY''
     else Inr (rsn_capability row # seen_caps))"

definition db_checks :: "recovery_binding \<Rightarrow> unit result list" where
  "db_checks b =
     [fail_if DR (db_schema_version b \<noteq> JStr RUNTIME_DISPATCH_RECOVERY_BINDING_SCHEMA) ''DISPATCH_RECOVERY_BINDING_SCHEMA_VERSION_MISMATCH'',
      void (dr_compact (db_binding_id b) ''binding_id''),
      void (dr_compact (db_task_id b) ''task_id''),
      void (dr_sha256 (db_runtime_checkpoint_fingerprint b) ''runtime_checkpoint_fingerprint''),
      void (dr_sha256 (db_task_context_fingerprint b) ''task_context_fingerprint''),
      void (dr_sha256 (db_plan_fingerprint b) ''plan_fingerprint''),
      void (dr_sha256 (db_parent_authority_fingerprint b) ''parent_authority_fingerprint''),
      void (dr_sha256 (db_scheduler_state_fingerprint b) ''scheduler_state_fingerprint''),
      fail_if DR (\<not> is_json_bool (db_cancelled b)) ''INVALID_CANCELLED_FLAG'',
      void (dr_concurrency (db_max_concurrency b)),
      void (dr_nonnegative_int (db_dispatch_sequence b) ''dispatch_sequence''),
      dr_cancellation (db_cancelled b) (db_cancellation_reason b),
      bindE (dr_normalized_ids (JList (db_approved_node_ids b)) ''approved_node_id'') (\<lambda>n.
        fail_if DR (db_approved_node_ids b \<noteq> map JStr n) ''APPROVED_NODE_IDS_NOT_NORMALIZED''),
      bindE (dr_normalized_hashes (JList (db_in_flight_ticket_fingerprints b)) ''in_flight_ticket_fingerprint'') (\<lambda>n.
        fail_if DR (db_in_flight_ticket_fingerprints b \<noteq> map JStr n) ''IN_FLIGHT_TICKET_FINGERPRINTS_NOT_NORMALIZED''),
      bindE (dr_normalized_hashes (JList (db_observation_fingerprints b)) ''observation_fingerprint'') (\<lambda>n.
        fail_if DR (db_observation_fingerprints b \<noteq> map JStr n) ''OBSERVATION_FINGERPRINTS_NOT_NORMALIZED''),
      void (sb_validate (db_budget b)),
      fail_if DR (sb_task_id (db_budget b) \<noteq> db_task_id b) ''BUDGET_TASK_MISMATCH'',
      void (foldE (db_revocation_step (db_task_id b)) [] (db_revocations b)),
      fail_if DR (sort_revocations (db_revocations b) \<noteq> db_revocations b) ''REVOCATIONS_NOT_NORMALIZED'',
      void (dr_timestamp (db_captured_at b) ''captured_at'')]"

definition db_validate :: "recovery_binding \<Rightarrow> recovery_binding result" where
  "db_validate b = bindE (checked (db_checks b) ()) (\<lambda>_. bindE (db_fingerprint b) (\<lambda>f.
     if db_binding_id b \<noteq> JStr (''dispatch-recovery:'' @ take 24 (drop 7 f))
       then raise DR ''DISPATCH_RECOVERY_BINDING_IDENTITY_MISMATCH'' else Inr b))"

definition db_canonical_dict :: "recovery_binding \<Rightarrow> json result" where
  "db_canonical_dict b = bindE (db_validate b) (\<lambda>_. bindE (db_identity_dict b) (\<lambda>d.
     Inr (JObj ((''binding_id'', db_binding_id b) # d))))"

section \<open>Building a binding\<close>

definition scheduler_keys :: "string list" where
  "scheduler_keys = [''schema_version'', ''task_id'', ''task_context_fingerprint'', ''plan_fingerprint'',
     ''parent_authority_fingerprint'', ''max_concurrency'', ''cancelled'', ''cancellation_reason'', ''dispatch_sequence'',
     ''approved_node_ids'', ''in_flight'', ''observations'']"

text \<open>The state of the scheduler as the builder digests it.\<close>

definition scheduler_identity :: "runtime_checkpoint \<Rightarrow> int \<Rightarrow> json \<Rightarrow> json \<Rightarrow> int \<Rightarrow> string list \<Rightarrow> string list \<Rightarrow> string list \<Rightarrow> json" where
  "scheduler_identity k max_concurrency cancelled reason dispatch_sequence approvals in_flight observations =
     JObj [(''schema_version'', JStr EXECUTION_SCHEDULER_SCHEMA), (''task_id'', rk_task_id k),
       (''task_context_fingerprint'', rk_task_context_fingerprint k), (''plan_fingerprint'', rk_plan_fingerprint k),
       (''parent_authority_fingerprint'', rk_parent_authority_fingerprint k), (''max_concurrency'', JInt max_concurrency),
       (''cancelled'', cancelled), (''cancellation_reason'', reason), (''dispatch_sequence'', JInt dispatch_sequence),
       (''approved_node_ids'', str_list approvals), (''in_flight'', str_list in_flight), (''observations'', str_list observations)]"

text \<open>The comparisons of the snapshot with the checkpoint, up to the first lists.\<close>

definition scheduler_matches :: "runtime_checkpoint \<Rightarrow> json \<Rightarrow> (string \<times> json) list result" where
  "scheduler_matches k snap = (case snap of JObj d \<Rightarrow>
       if set (map fst d) \<noteq> set scheduler_keys then raise DR ''SCHEDULER_SNAPSHOT_SHAPE_INVALID''
       else if dict_get d ''schema_version'' JNull \<noteq> JStr EXECUTION_SCHEDULER_SCHEMA then raise DR ''SCHEDULER_SNAPSHOT_SCHEMA_VERSION_MISMATCH''
       else if dict_get d ''task_id'' JNull \<noteq> rk_task_id k then raise DR ''SCHEDULER_TASK_MISMATCH''
       else if dict_get d ''task_context_fingerprint'' JNull \<noteq> rk_task_context_fingerprint k then raise DR ''SCHEDULER_TASK_CONTEXT_MISMATCH''
       else if dict_get d ''plan_fingerprint'' JNull \<noteq> rk_plan_fingerprint k then raise DR ''SCHEDULER_PLAN_MISMATCH''
       else if dict_get d ''parent_authority_fingerprint'' JNull \<noteq> rk_parent_authority_fingerprint k then raise DR ''SCHEDULER_AUTHORITY_MISMATCH''
       else Inr d
     | _ \<Rightarrow> raise DR ''SCHEDULER_SNAPSHOT_NOT_MAPPING'')"

text \<open>The binding, still without its identifier; approvals and observations are those of the checkpoint, as compared before.\<close>

definition captured_binding :: "runtime_checkpoint \<Rightarrow> string \<Rightarrow> string \<Rightarrow> (string \<times> json) list \<Rightarrow> int \<Rightarrow> int \<Rightarrow> string list
    \<Rightarrow> runtime_budget_snapshot \<Rightarrow> runtime_revocation_snapshot list \<Rightarrow> recovery_binding" where
  "captured_binding k kf sf d max_concurrency dispatch_sequence in_flight budget normalized =
     \<lparr>db_binding_id = JNull, db_runtime_checkpoint_fingerprint = JStr kf, db_task_id = rk_task_id k,
         db_task_context_fingerprint = rk_task_context_fingerprint k, db_plan_fingerprint = rk_plan_fingerprint k,
         db_parent_authority_fingerprint = rk_parent_authority_fingerprint k, db_scheduler_state_fingerprint = JStr sf,
         db_max_concurrency = JInt max_concurrency, db_cancelled = dict_get d ''cancelled'' JNull,
         db_cancellation_reason = dict_get d ''cancellation_reason'' JNull, db_dispatch_sequence = JInt dispatch_sequence,
         db_approved_node_ids = rk_approved_node_ids k, db_in_flight_ticket_fingerprints = map JStr in_flight,
         db_observation_fingerprints = rk_observation_fingerprints k, db_budget = budget, db_revocations = normalized,
         db_captured_at = rk_captured_at k, db_schema_version = JStr RUNTIME_DISPATCH_RECOVERY_BINDING_SCHEMA\<rparr>"

definition db_build :: "runtime_checkpoint \<Rightarrow> json \<Rightarrow> json \<Rightarrow> revocation_source list \<Rightarrow> recovery_binding result" where
  "db_build k scheduler_snapshot budget_snap revocations =
     bindE (reraise (\<lambda>x. x = RuntimeCheckpointError) DR ''RUNTIME_CHECKPOINT_REVALIDATION_FAILED'' (rk_validate k)) (\<lambda>_.
     bindE (scheduler_matches k scheduler_snapshot) (\<lambda>d.
     bindE (dr_normalized_ids (dict_get d ''approved_node_ids'' JNull) ''approved_node_id'') (\<lambda>approvals.
     bindE (dr_normalized_hashes (dict_get d ''observations'' JNull) ''observation_fingerprint'') (\<lambda>observations.
     bindE (dr_normalized_hashes (dict_get d ''in_flight'' JNull) ''in_flight_ticket_fingerprint'') (\<lambda>in_flight.
     if map JStr approvals \<noteq> rk_approved_node_ids k then raise DR ''SCHEDULER_APPROVAL_STATE_MISMATCH''
     else if map JStr observations \<noteq> rk_observation_fingerprints k then raise DR ''SCHEDULER_OBSERVATION_STATE_MISMATCH''
     else bindE (sb_from_mapping budget_snap) (\<lambda>budget.
     if sb_task_id budget \<noteq> rk_task_id k then raise DR ''BUDGET_TASK_MISMATCH''
     else bindE (mapE rsn_from_revocation revocations) (\<lambda>rows. let normalized = sort_revocations rows in
     if length (fromkeys (map rsn_capability normalized)) \<noteq> length normalized then raise DR ''DUPLICATE_REVOKED_CAPABILITY''
     else if list_ex (\<lambda>r. rsn_task_id r \<noteq> rk_task_id k) normalized then raise DR ''REVOCATION_TASK_MISMATCH''
     else bindE (dr_concurrency (dict_get d ''max_concurrency'' JNull)) (\<lambda>max_concurrency.
     if \<not> is_json_bool (dict_get d ''cancelled'' JNull) then raise DR ''INVALID_CANCELLED_FLAG''
     else bindE (dr_cancellation (dict_get d ''cancelled'' JNull) (dict_get d ''cancellation_reason'' JNull)) (\<lambda>_.
     bindE (dr_nonnegative_int (dict_get d ''dispatch_sequence'' JNull) ''dispatch_sequence'') (\<lambda>dispatch_sequence.
     bindE (rk_fingerprint k) (\<lambda>kf.
     bindE (dr_digest (scheduler_identity k max_concurrency (dict_get d ''cancelled'' JNull) (dict_get d ''cancellation_reason'' JNull)
       dispatch_sequence approvals in_flight observations)) (\<lambda>sf.
     let b = captured_binding k kf sf d max_concurrency dispatch_sequence in_flight budget normalized in
     bindE (db_fingerprint b) (\<lambda>f.
     db_validate (b\<lparr>db_binding_id := JStr (''dispatch-recovery:'' @ take 24 (drop 7 f))\<rparr>))))))))))))))"

section \<open>The codec\<close>

definition db_envelope :: "json \<Rightarrow> string \<Rightarrow> json" where
  "db_envelope d f = JObj [(''schema_version'', JStr RUNTIME_DISPATCH_RECOVERY_BINDING_ENVELOPE_SCHEMA), (''binding'', d), (''binding_fingerprint'', JStr f)]"

definition db_dumps :: "recovery_binding \<Rightarrow> string result" where
  "db_dumps b = bindE (db_validate b) (\<lambda>_. bindE (db_canonical_dict b) (\<lambda>d. bindE (db_fingerprint b) (\<lambda>f.
     canonical_text DR ''DISPATCH_RECOVERY_NOT_CANONICAL_JSON'' (db_envelope d f))))"

definition db_keys :: "string list" where
  "db_keys = [''binding_id'', ''schema_version'', ''runtime_checkpoint_fingerprint'', ''task_id'', ''task_context_fingerprint'',
     ''plan_fingerprint'', ''parent_authority_fingerprint'', ''scheduler_state_fingerprint'', ''max_concurrency'', ''cancelled'',
     ''cancellation_reason'', ''dispatch_sequence'', ''approved_node_ids'', ''in_flight_ticket_fingerprints'',
     ''observation_fingerprints'', ''budget'', ''revocations'', ''captured_at'']"

definition db_from_raw :: "(string \<times> json) list \<Rightarrow> json list \<Rightarrow> recovery_binding result" where
  "db_from_raw raw rows = reraise (\<lambda>x. x = KeyError \<or> x = TypeError) DR ''DISPATCH_RECOVERY_BINDING_RECORD_SHAPE_INVALID''
     (bindE (py_tuple (dict_get raw ''approved_node_ids'' JNull)) (\<lambda>approved.
      bindE (py_tuple (dict_get raw ''in_flight_ticket_fingerprints'' JNull)) (\<lambda>in_flight.
      bindE (py_tuple (dict_get raw ''observation_fingerprints'' JNull)) (\<lambda>observations.
      bindE (sb_from_mapping (dict_get raw ''budget'' JNull)) (\<lambda>budget.
      bindE (mapE (\<lambda>row. rsn_from_revocation (Mapped row)) rows) (\<lambda>revocations.
      db_validate \<lparr>db_binding_id = dict_get raw ''binding_id'' JNull,
        db_runtime_checkpoint_fingerprint = dict_get raw ''runtime_checkpoint_fingerprint'' JNull,
        db_task_id = dict_get raw ''task_id'' JNull, db_task_context_fingerprint = dict_get raw ''task_context_fingerprint'' JNull,
        db_plan_fingerprint = dict_get raw ''plan_fingerprint'' JNull,
        db_parent_authority_fingerprint = dict_get raw ''parent_authority_fingerprint'' JNull,
        db_scheduler_state_fingerprint = dict_get raw ''scheduler_state_fingerprint'' JNull,
        db_max_concurrency = dict_get raw ''max_concurrency'' JNull, db_cancelled = dict_get raw ''cancelled'' JNull,
        db_cancellation_reason = dict_get raw ''cancellation_reason'' JNull,
        db_dispatch_sequence = dict_get raw ''dispatch_sequence'' JNull, db_approved_node_ids = approved,
        db_in_flight_ticket_fingerprints = in_flight, db_observation_fingerprints = observations, db_budget = budget,
        db_revocations = revocations, db_captured_at = dict_get raw ''captured_at'' JNull,
        db_schema_version = dict_get raw ''schema_version'' JNull\<rparr>))))))"

definition db_envelope_keys :: "string list" where
  "db_envelope_keys = [''schema_version'', ''binding'', ''binding_fingerprint'']"

definition db_loads :: "string \<Rightarrow> recovery_binding result" where
  "db_loads payload = (if payload = [] then raise DR ''INVALID_DISPATCH_RECOVERY_BINDING_PAYLOAD''
     else case loads payload of None \<Rightarrow> raise DR ''DISPATCH_RECOVERY_BINDING_JSON_INVALID''
     | Some (JObj envelope) \<Rightarrow>
         if set (map fst envelope) \<noteq> set db_envelope_keys then raise DR ''DISPATCH_RECOVERY_BINDING_ENVELOPE_SHAPE_INVALID''
         else if dict_get envelope ''schema_version'' JNull \<noteq> JStr RUNTIME_DISPATCH_RECOVERY_BINDING_ENVELOPE_SCHEMA
           then raise DR ''DISPATCH_RECOVERY_BINDING_ENVELOPE_SCHEMA_MISMATCH''
         else (case dict_get envelope ''binding'' JNull of JObj raw \<Rightarrow>
             if set (map fst raw) \<noteq> set db_keys then raise DR ''DISPATCH_RECOVERY_BINDING_RECORD_SHAPE_INVALID''
             else (case (dict_get raw ''budget'' JNull, dict_get raw ''revocations'' JNull) of
                 (JObj _, JList rows) \<Rightarrow>
                   bindE (db_from_raw raw rows) (\<lambda>b. bindE (db_fingerprint b) (\<lambda>f.
                   if dict_get envelope ''binding_fingerprint'' JNull \<noteq> JStr f then raise DR ''DISPATCH_RECOVERY_BINDING_INTEGRITY_FAILED''
                   else bindE (canonical_text DR ''DISPATCH_RECOVERY_NOT_CANONICAL_JSON'' (JObj envelope)) (\<lambda>t.
                   if t \<noteq> payload then raise DR ''DISPATCH_RECOVERY_BINDING_ENVELOPE_NOT_CANONICAL'' else Inr b)))
               | _ \<Rightarrow> raise DR ''DISPATCH_RECOVERY_BINDING_RECORD_SHAPE_INVALID'')
           | _ \<Rightarrow> raise DR ''DISPATCH_RECOVERY_BINDING_RECORD_NOT_OBJECT'')
     | Some _ \<Rightarrow> raise DR ''DISPATCH_RECOVERY_BINDING_ENVELOPE_SHAPE_INVALID'')"

section \<open>The decision\<close>

record dispatch_decision =
  dd_status :: string
  dd_reason_code :: string
  dd_checkpoint_recovery :: recovery_decision
  dd_manual_dispatch_fingerprints :: "string list"
  dd_newly_revoked_capabilities :: "string list"
  dd_live_budget_fingerprint :: string
  dd_schema_version :: string

definition dd_checks :: "dispatch_decision \<Rightarrow> unit result list" where
  "dd_checks d =
     [fail_if DR (dd_schema_version d \<noteq> RUNTIME_DISPATCH_RECOVERY_DECISION_SCHEMA) ''DISPATCH_RECOVERY_DECISION_SCHEMA_VERSION_MISMATCH'',
      fail_if DR (dd_status d \<notin> set RECOVERY_STATUSES) ''INVALID_DISPATCH_RECOVERY_STATUS'',
      fail_if DR (\<not> REASON_RE (dd_reason_code d)) ''INVALID_DISPATCH_RECOVERY_REASON_CODE'',
      bindE (dr_normalized_hashes (str_list (dd_manual_dispatch_fingerprints d)) ''manual_dispatch_fingerprint'') (\<lambda>n.
        fail_if DR (dd_manual_dispatch_fingerprints d \<noteq> n) ''MANUAL_DISPATCH_FINGERPRINTS_NOT_NORMALIZED''),
      bindE (dr_normalized_ids (str_list (dd_newly_revoked_capabilities d)) ''newly_revoked_capability'') (\<lambda>n.
        fail_if DR (dd_newly_revoked_capabilities d \<noteq> n) ''NEWLY_REVOKED_CAPABILITIES_NOT_NORMALIZED''),
      void (dr_sha256 (JStr (dd_live_budget_fingerprint d)) ''live_budget_fingerprint'')]"

definition dd_canonical_dict :: "dispatch_decision \<Rightarrow> json result" where
  "dd_canonical_dict d = bindE (checked (dd_checks d) ()) (\<lambda>_.
     bindE (rr_canonical_dict (dd_checkpoint_recovery d)) (\<lambda>r.
     Inr (JObj [(''schema_version'', JStr (dd_schema_version d)), (''status'', JStr (dd_status d)),
       (''reason_code'', JStr (dd_reason_code d)), (''checkpoint_recovery'', r),
       (''manual_dispatch_fingerprints'', str_list (dd_manual_dispatch_fingerprints d)),
       (''newly_revoked_capabilities'', str_list (dd_newly_revoked_capabilities d)),
       (''live_budget_fingerprint'', JStr (dd_live_budget_fingerprint d))])))"

definition dd_fingerprint :: "dispatch_decision \<Rightarrow> string result" where
  "dd_fingerprint d = bindE (dd_canonical_dict d) dr_digest"

record 'w recovery_guards =
  rg_assert_active :: "('w, unit) action"
  rg_snapshot :: "'w \<Rightarrow> json result"
  rg_list_for_task :: "string \<Rightarrow> 'w \<Rightarrow> revocation_source list result"

text \<open>\<open>except (KeyError, TypeError, ValueError, RuntimeError)\<close>, where errors of this module pass through.\<close>

definition is_guard_failure :: "exc_class \<Rightarrow> bool" where
  "is_guard_failure c \<longleftrightarrow> (c = KeyError \<or> c = TypeError \<or> is_value_error c \<or> is_runtime_error c) \<and> c \<noteq> RuntimeDispatchRecoveryError"

definition binding_mismatch :: "recovery_binding \<Rightarrow> runtime_checkpoint \<Rightarrow> bool" where
  "binding_mismatch b k \<longleftrightarrow> db_task_id b \<noteq> rk_task_id k \<or> db_task_context_fingerprint b \<noteq> rk_task_context_fingerprint k
     \<or> db_plan_fingerprint b \<noteq> rk_plan_fingerprint k \<or> db_parent_authority_fingerprint b \<noteq> rk_parent_authority_fingerprint k"

text \<open>The live budget, compared with the captured one.\<close>

definition live_budget :: "'w recovery_guards \<Rightarrow> recovery_binding \<Rightarrow> 'w \<Rightarrow> runtime_budget_snapshot result" where
  "live_budget g b w = bindE (reraise is_guard_failure DR ''LIVE_BUDGET_SNAPSHOT_FAILED'' (bindE (rg_snapshot g w) sb_from_mapping)) (\<lambda>live.
     if immutable_tuple live \<noteq> immutable_tuple (db_budget b) then raise DR ''LIVE_BUDGET_IMMUTABLE_STATE_MISMATCH''
     else if list_ex (\<lambda>(l, c). l < c) (zip (sb_counters live) (sb_counters (db_budget b)))
       then raise DR ''LIVE_BUDGET_COUNTER_ROLLBACK_DETECTED''
     else Inr live)"

text \<open>The live revocations, compared with the captured ones; the result is the newly revoked capabilities.\<close>

definition by_capability :: "runtime_revocation_snapshot list \<Rightarrow> json \<rightharpoonup> runtime_revocation_snapshot" where
  "by_capability rows = map_of (rev (map (\<lambda>r. (rsn_capability r, r)) rows))"

definition newly_revoked :: "'w recovery_guards \<Rightarrow> recovery_binding \<Rightarrow> runtime_checkpoint \<Rightarrow> 'w \<Rightarrow> string list result" where
  "newly_revoked g b k w =
     bindE (reraise is_guard_failure DR ''LIVE_REVOCATION_SNAPSHOT_FAILED''
       (bindE (rg_list_for_task g (json_text (rk_task_id k)) w) (\<lambda>rows. mapE rsn_from_revocation rows))) (\<lambda>rows.
     let live = sort_revocations rows in
     if length (fromkeys (map rsn_capability live)) \<noteq> length live then raise DR ''DUPLICATE_LIVE_REVOKED_CAPABILITY''
     else if list_ex (\<lambda>c. by_capability live c \<noteq> by_capability (db_revocations b) c) (map rsn_capability (db_revocations b))
       then raise DR ''LIVE_REVOCATION_ROLLBACK_DETECTED''
     else Inr (sort (map json_text (filter (\<lambda>c. c \<notin> set (map rsn_capability (db_revocations b))) (fromkeys (map rsn_capability live))))))"

text \<open>The branches that need no more than the checkpoint's decision and the binding.\<close>

definition settled_verdict :: "string \<Rightarrow> recovery_binding \<Rightarrow> (string \<times> string) option" where
  "settled_verdict base b = (
     if base = ''COMPLETE'' then Some (''COMPLETE'', ''DISPATCH_RECOVERY_COMPLETE'')
     else if base = ''MANUAL_RECONCILIATION'' then Some (''MANUAL_RECONCILIATION'', ''CHECKPOINT_REQUIRES_MANUAL_RECONCILIATION'')
     else if db_in_flight_ticket_fingerprints b \<noteq> [] then Some (''MANUAL_RECONCILIATION'', ''IN_FLIGHT_DISPATCH_REQUIRES_MANUAL_RECONCILIATION'')
     else if db_cancelled b = JBool True then Some (''BLOCKED'', ''SCHEDULER_CANCELLED_AT_CHECKPOINT'')
     else if base = ''BLOCKED'' then Some (''BLOCKED'', ''CHECKPOINT_RECOVERY_BLOCKED'')
     else None)"

definition active_verdict :: "'w recovery_guards \<Rightarrow> string list \<Rightarrow> ('w, string \<times> string) action" where
  "active_verdict g new w = (case rg_assert_active g w of
     (Inl (c, m), w') \<Rightarrow> (if c = ExecutionBudgetExceeded then Inr (''BLOCKED'', ''LIVE_BUDGET_NOT_ACTIVE'')
        else if is_value_error c \<or> is_runtime_error c then raise DR ''LIVE_BUDGET_REVALIDATION_FAILED'' else Inl (c, m), w')
   | (Inr _, w') \<Rightarrow> (Inr (''RECOVERABLE'', if new \<noteq> [] then ''DISPATCH_RECOVERY_REVALIDATED_WITH_NEW_REVOCATIONS''
        else ''DISPATCH_RECOVERY_REVALIDATED_NO_EXECUTION_PERFORMED''), w'))"

definition dispatch_decision_of :: "recovery_binding \<Rightarrow> recovery_decision \<Rightarrow> runtime_budget_snapshot \<Rightarrow> string list \<Rightarrow> string \<times> string
    \<Rightarrow> dispatch_decision result" where
  "dispatch_decision_of b base live new verdict = bindE (sb_fingerprint live) (\<lambda>lf.
     let d = \<lparr>dd_status = fst verdict, dd_reason_code = snd verdict, dd_checkpoint_recovery = base,
         dd_manual_dispatch_fingerprints = (if fst verdict = ''MANUAL_RECONCILIATION''
           then map json_text (db_in_flight_ticket_fingerprints b) else []),
         dd_newly_revoked_capabilities = new, dd_live_budget_fingerprint = lf,
         dd_schema_version = RUNTIME_DISPATCH_RECOVERY_DECISION_SCHEMA\<rparr> in
     bindE (dd_canonical_dict d) (\<lambda>_. Inr d))"

definition dispatch_recover :: "'w recovery_guards \<Rightarrow> recovery_binding \<Rightarrow> runtime_checkpoint \<Rightarrow> task_context \<Rightarrow> execution_plan \<Rightarrow> authority
    \<Rightarrow> observation list \<Rightarrow> ('w, dispatch_decision) action" where
  "dispatch_recover g b k c p parent obs =
     bindA (readA (\<lambda>w. bindE (db_validate b) (\<lambda>_. bindE (rk_validate k) (\<lambda>_. bindE (rk_fingerprint k) (\<lambda>kf.
       if db_runtime_checkpoint_fingerprint b \<noteq> JStr kf then raise DR ''DISPATCH_RECOVERY_CHECKPOINT_MISMATCH''
       else if binding_mismatch b k then raise DR ''DISPATCH_RECOVERY_CANONICAL_BINDING_MISMATCH''
       else bindE (reraise (\<lambda>x. x = RuntimeCheckpointError) DR ''DISPATCH_RECOVERY_CHECKPOINT_REVALIDATION_FAILED''
         (recover_evaluate k c p parent obs)) (\<lambda>base.
       bindE (live_budget g b w) (\<lambda>live. bindE (newly_revoked g b k w) (\<lambda>new. Inr (base, live, new))))))))) (\<lambda>(base, live, new).
     bindA (case settled_verdict (rr_status base) b of Some v \<Rightarrow> readA (\<lambda>_. Inr v) | None \<Rightarrow> active_verdict g new) (\<lambda>verdict.
     readA (\<lambda>_. dispatch_decision_of b base live new verdict)))"

section \<open>What the checks accept\<close>

lemma compact_strip: "REVOCATION_COMPACT_RE s \<Longrightarrow> strip s = s"
proof (rule strip_id)
  assume "REVOCATION_COMPACT_RE s"
  moreover have "is_alnum c \<Longrightarrow> compact_char c" for c by (simp add: compact_char_def)
  ultimately have "compact_char c" if "c \<in> set s" for c
    using that by (cases s) (auto simp: REVOCATION_COMPACT_RE_def ident_match_def list_all_iff)
  then have "\<not> is_space c" if "c \<in> set s" for c using that space_not_compact by blast
  then show "s = [] \<or> \<not> is_space (hd s) \<and> \<not> is_space (last s)" by (cases s) auto
qed

definition aware_time :: "string \<Rightarrow> bool" where
  "aware_time s \<longleftrightarrow> s \<noteq> [] \<and> strip s = s \<and> (\<exists>p. fromisoformat (zulu s) = Some p \<and> dt_offset p \<noteq> None)"

definition int_where :: "(int \<Rightarrow> bool) \<Rightarrow> json \<Rightarrow> bool" where
  "int_where Q v \<longleftrightarrow> (\<exists>i. v = JInt i \<and> Q i)"

lemma dr_compact_iff [simp]: "dr_compact v field = Inr x \<longleftrightarrow> v = JStr x \<and> REVOCATION_COMPACT_RE x"
  using compact_strip by (cases v) (auto simp: dr_compact_def str_field_def)

lemma dr_sha256_iff [simp]: "dr_sha256 v field = Inr x \<longleftrightarrow> v = JStr x \<and> is_sha256_ref x"
  by (auto simp: dr_sha256_def)

lemma dr_bounded_text_iff [simp]: "dr_bounded_text v field n = Inr x \<longleftrightarrow> v = JStr x \<and> line_ok n x"
  by (auto simp: dr_bounded_text_def)

lemma dr_timestamp_iff [simp]: "dr_timestamp v field = Inr x \<longleftrightarrow> v = JStr x \<and> aware_time x"
proof (cases v)
  case (JStr s)
  then show ?thesis by (cases "fromisoformat (zulu s)") (auto simp: dr_timestamp_def str_field_def aware_time_def)
qed (simp_all add: dr_timestamp_def str_field_def)

lemma dr_nonnegative_int_iff [simp]: "dr_nonnegative_int v field = Inr x \<longleftrightarrow> v = JInt x \<and> 0 \<le> x"
  by (auto simp: dr_nonnegative_int_def split: json.split)

lemma dr_positive_int_iff [simp]: "dr_positive_int v field = Inr x \<longleftrightarrow> v = JInt x \<and> 1 \<le> x"
  by (cases v) (auto simp: dr_positive_int_def dr_nonnegative_int_def)

lemma dr_within_iff [simp]: "dr_within v m field = Inr u \<longleftrightarrow> int_where (\<lambda>i. 0 \<le> i \<and> i \<le> json_int m) v"
  by (auto simp: dr_within_def int_where_def bindE_Inr_iff)

lemma length_fromkeys_iff: "length xs = length (fromkeys xs) \<longleftrightarrow> distinct xs"
proof -
  have "length (fromkeys xs) = card (set xs)" using distinct_card [OF distinct_fromkeys [of xs]] by simp
  then show ?thesis by (metis card_distinct distinct_card)
qed

lemma dr_normalized_iff:
  assumes "\<And>v x. chk v field = Inr x \<longleftrightarrow> v = JStr x \<and> Q x"
  shows "dr_normalized chk (JList vs) field = Inr r \<longleftrightarrow> (\<exists>xs. vs = map JStr xs \<and> list_all Q xs \<and> distinct xs \<and> r = sort xs)"
  by (auto simp: dr_normalized_def dr_iterate_def bindE_Inr_iff mapE_strings [where Q = Q, OF assms] Let_def length_fromkeys_iff)

lemma dr_normalized_ids_iff: "dr_normalized_ids (JList vs) field = Inr r
   \<longleftrightarrow> (\<exists>xs. vs = map JStr xs \<and> list_all REVOCATION_COMPACT_RE xs \<and> distinct xs \<and> r = sort xs)"
  unfolding dr_normalized_ids_def by (rule dr_normalized_iff) simp

lemma dr_normalized_hashes_iff: "dr_normalized_hashes (JList vs) field = Inr r
   \<longleftrightarrow> (\<exists>xs. vs = map JStr xs \<and> list_all is_sha256_ref xs \<and> distinct xs \<and> r = sort xs)"
  unfolding dr_normalized_hashes_def by (rule dr_normalized_iff) simp

definition sb_ok :: "runtime_budget_snapshot \<Rightarrow> bool" where
  "sb_ok b \<longleftrightarrow> sb_schema_version b = JStr BUDGET_STATE_SCHEMA \<and> text_where REVOCATION_COMPACT_RE (sb_task_id b)
     \<and> int_where (\<lambda>i. 1 \<le> i) (sb_max_steps b) \<and> int_where (\<lambda>i. 0 \<le> i) (sb_max_tool_calls b)
     \<and> int_where (\<lambda>i. 0 \<le> i) (sb_max_model_retries b) \<and> int_where (\<lambda>i. 0 \<le> i) (sb_max_model_escalations b)
     \<and> int_where (\<lambda>i. 100 \<le> i) (sb_max_wall_time_ms b)
     \<and> int_where (\<lambda>i. 0 \<le> i \<and> i \<le> json_int (sb_max_steps b)) (sb_steps_used b)
     \<and> int_where (\<lambda>i. 0 \<le> i \<and> i \<le> json_int (sb_max_tool_calls b)) (sb_tool_calls_used b)
     \<and> int_where (\<lambda>i. 0 \<le> i \<and> i \<le> json_int (sb_max_model_retries b)) (sb_model_retries_used b)
     \<and> int_where (\<lambda>i. 0 \<le> i \<and> i \<le> json_int (sb_max_model_escalations b)) (sb_model_escalations_used b)
     \<and> text_where aware_time (sb_deadline_at b)"

lemma sb_validate_iff [simp]: "sb_validate b = Inr c \<longleftrightarrow> c = b \<and> sb_ok b"
proof -
  have "(bindE (dr_nonnegative_int v f) (\<lambda>i. fail_if DR (i < 100) m) = Inr ()) \<longleftrightarrow> int_where (\<lambda>i. 100 \<le> i) v" for v f m
    by (auto simp: bindE_Inr_iff int_where_def)
  then have "list_all (\<lambda>g. g = Inr ()) (sb_checks b) \<longleftrightarrow> sb_ok b"
    by (simp add: sb_checks_def sb_ok_def text_where_def int_where_def)
  then show ?thesis by (auto simp: sb_validate_def checked_iff)
qed

definition rsn_ok :: "runtime_revocation_snapshot \<Rightarrow> bool" where
  "rsn_ok r \<longleftrightarrow> text_where REVOCATION_COMPACT_RE (rsn_task_id r) \<and> text_where REVOCATION_COMPACT_RE (rsn_capability r)
     \<and> text_where REASON_RE (rsn_reason_code r) \<and> text_where aware_time (rsn_revoked_at r)"

lemma rsn_validate_iff [simp]: "rsn_validate r = Inr q \<longleftrightarrow> q = r \<and> rsn_ok r"
proof -
  have "(case v of JStr s \<Rightarrow> \<not> REASON_RE s | _ \<Rightarrow> True) \<longleftrightarrow> \<not> text_where REASON_RE v" for v
    by (simp add: text_where_def split: json.split)
  then have "list_all (\<lambda>g. g = Inr ()) (rsn_checks r) \<longleftrightarrow> rsn_ok r"
    by (simp add: rsn_checks_def rsn_ok_def text_where_def)
  then show ?thesis by (auto simp: rsn_validate_def checked_iff)
qed

text \<open>The revocations of a binding: valid, of its task, one per capability, in order of capability.\<close>

definition revocations_ok :: "json \<Rightarrow> runtime_revocation_snapshot list \<Rightarrow> bool" where
  "revocations_ok t rows \<longleftrightarrow> list_all rsn_ok rows \<and> (\<forall>r \<in> set rows. rsn_task_id r = t) \<and> distinct (map rsn_capability rows)
     \<and> sorted (map (\<lambda>r. json_text (rsn_capability r)) rows)"

lemma revocation_steps:
  assumes "distinct caps"
  shows "(\<exists>u. foldE (db_revocation_step t) caps rows = Inr u)
    \<longleftrightarrow> list_all rsn_ok rows \<and> (\<forall>r \<in> set rows. rsn_task_id r = t) \<and> distinct (map rsn_capability rows) \<and> set caps \<inter> rsn_capability ` set rows = {}"
  using assms
proof (induction rows arbitrary: caps)
  case (Cons r rows)
  have s: "db_revocation_step t caps r = Inr u \<longleftrightarrow> rsn_ok r \<and> rsn_task_id r = t \<and> rsn_capability r \<notin> set caps \<and> u = rsn_capability r # caps" for u
    by (auto simp: db_revocation_step_def bindE_Inr_iff)
  show ?case
  proof (cases "rsn_ok r \<and> rsn_task_id r = t \<and> rsn_capability r \<notin> set caps")
    case True
    then have "db_revocation_step t caps r = Inr (rsn_capability r # caps)" by (simp add: s)
    with Cons.IH [of "rsn_capability r # caps"] Cons.prems True show ?thesis by auto
  next
    case False
    then have "foldE (db_revocation_step t) caps (r # rows) \<noteq> Inr u" for u by (auto simp: s bindE_Inr_iff)
    with False show ?thesis by auto
  qed
qed simp

lemma sort_revocations_fixed: "sort_revocations rows = rows \<longleftrightarrow> sorted (map (\<lambda>r. json_text (rsn_capability r)) rows)"
  unfolding sort_revocations_def by (metis sort_key_sorted sorted_sort_key)

definition db_items :: "recovery_binding \<Rightarrow> (string \<times> json) list" where
  "db_items b = [(''schema_version'', db_schema_version b), (''runtime_checkpoint_fingerprint'', db_runtime_checkpoint_fingerprint b),
     (''task_id'', db_task_id b), (''task_context_fingerprint'', db_task_context_fingerprint b),
     (''plan_fingerprint'', db_plan_fingerprint b), (''parent_authority_fingerprint'', db_parent_authority_fingerprint b),
     (''scheduler_state_fingerprint'', db_scheduler_state_fingerprint b), (''max_concurrency'', db_max_concurrency b),
     (''cancelled'', db_cancelled b), (''cancellation_reason'', db_cancellation_reason b),
     (''dispatch_sequence'', db_dispatch_sequence b), (''approved_node_ids'', JList (db_approved_node_ids b)),
     (''in_flight_ticket_fingerprints'', JList (db_in_flight_ticket_fingerprints b)),
     (''observation_fingerprints'', JList (db_observation_fingerprints b)), (''budget'', JObj (sb_members (db_budget b))),
     (''revocations'', JList (map (\<lambda>r. JObj (rsn_members r)) (db_revocations b))), (''captured_at'', db_captured_at b)]"

lemma db_identity_iff: "db_identity_dict b = Inr d \<longleftrightarrow> sb_ok (db_budget b) \<and> list_all rsn_ok (db_revocations b) \<and> d = db_items b"
proof -
  have "mapE rsn_canonical_dict rs = Inr js \<longleftrightarrow> list_all rsn_ok rs \<and> js = map (\<lambda>r. JObj (rsn_members r)) rs" for rs js
    by (induction rs arbitrary: js) (auto simp: rsn_canonical_dict_def bindE_Inr_iff)
  then show ?thesis by (auto simp: db_identity_dict_def sb_canonical_dict_def bindE_Inr_iff db_items_def)
qed

definition cancellation_ok :: "json \<Rightarrow> json \<Rightarrow> bool" where
  "cancellation_ok cancelled reason \<longleftrightarrow> (cancelled = JBool True \<and> text_where (line_ok 256) reason) \<or> (cancelled = JBool False \<and> reason = JNull)"

lemma cancellation_iff: "is_json_bool v \<and> dr_cancellation v reason = Inr () \<longleftrightarrow> cancellation_ok v reason"
  by (cases v) (auto simp: is_json_bool_def dr_cancellation_def cancellation_ok_def text_where_def)

definition db_ok :: "recovery_binding \<Rightarrow> bool" where
  "db_ok b \<longleftrightarrow> db_schema_version b = JStr RUNTIME_DISPATCH_RECOVERY_BINDING_SCHEMA
     \<and> text_where REVOCATION_COMPACT_RE (db_task_id b) \<and> text_where is_sha256_ref (db_runtime_checkpoint_fingerprint b)
     \<and> text_where is_sha256_ref (db_task_context_fingerprint b) \<and> text_where is_sha256_ref (db_plan_fingerprint b)
     \<and> text_where is_sha256_ref (db_parent_authority_fingerprint b) \<and> text_where is_sha256_ref (db_scheduler_state_fingerprint b)
     \<and> int_where (\<lambda>i. 1 \<le> i \<and> i \<le> DR_MAX_SCHEDULER_CONCURRENCY) (db_max_concurrency b)
     \<and> int_where (\<lambda>i. 0 \<le> i) (db_dispatch_sequence b) \<and> cancellation_ok (db_cancelled b) (db_cancellation_reason b)
     \<and> normal_texts REVOCATION_COMPACT_RE (db_approved_node_ids b) \<and> normal_texts is_sha256_ref (db_in_flight_ticket_fingerprints b)
     \<and> normal_texts is_sha256_ref (db_observation_fingerprints b) \<and> sb_ok (db_budget b) \<and> sb_task_id (db_budget b) = db_task_id b
     \<and> revocations_ok (db_task_id b) (db_revocations b) \<and> text_where aware_time (db_captured_at b)"

definition db_id :: "recovery_binding \<Rightarrow> string" where
  "db_id b = ''dispatch-recovery:'' @ take 24 (drop 7 (digest (JObj (db_items b))))"

lemma db_id_RE: "REVOCATION_COMPACT_RE (db_id b)"
proof -
  have "is_alnum c \<Longrightarrow> compact_char c" for c by (simp add: compact_char_def)
  moreover have "list_all compact_char ''ispatch-recovery:''"
    by (simp add: compact_char_def is_alnum_def is_digit_def is_lower_def is_upper_def)
  ultimately show ?thesis
    using digest_suffix_ids [of "JObj (db_items b)"]
    by (auto simp: db_id_def REVOCATION_COMPACT_RE_def ident_match_def list_all_iff is_alnum_def is_lower_def)
qed

lemma dr_concurrency_iff [simp]: "dr_concurrency v = Inr x \<longleftrightarrow> v = JInt x \<and> 1 \<le> x \<and> x \<le> DR_MAX_SCHEDULER_CONCURRENCY"
  by (cases v) (auto simp: dr_concurrency_def dr_positive_int_def dr_nonnegative_int_def)

lemma json_plain_parts:
  "text_where Q v \<Longrightarrow> plain_json v \<and> finite_json v \<and> norm_json v = v"
  "int_where R v \<Longrightarrow> plain_json v \<and> finite_json v \<and> norm_json v = v"
  "cancellation_ok v w \<Longrightarrow> plain_json v \<and> finite_json v \<and> norm_json v = v \<and> plain_json w \<and> finite_json w \<and> norm_json w = w"
  "normal_texts Q vs \<Longrightarrow> list_all plain_json vs \<and> list_all finite_json vs \<and> map norm_json vs = vs"
  by (auto simp: text_where_def int_where_def cancellation_ok_def normal_texts_def list_all_iff)

lemma sb_members_plain:
  assumes "sb_ok b"
  shows "plain_json (JObj (sb_members b))" "finite_json (JObj (sb_members b))"
  using assms unfolding sb_ok_def by (auto simp: sb_members_def dest!: json_plain_parts(1,2))

lemma rsn_members_plain:
  assumes "rsn_ok r"
  shows "plain_json (JObj (rsn_members r))" "finite_json (JObj (rsn_members r))"
  using assms unfolding rsn_ok_def by (auto simp: rsn_members_def dest!: json_plain_parts(1))

lemma db_items_plain:
  assumes "db_ok b"
  shows "plain_json (JObj (db_items b))" "finite_json (JObj (db_items b))"
proof -
  have r: "rsn_ok r" if "r \<in> set (db_revocations b)" for r using assms that by (auto simp: db_ok_def revocations_ok_def list_all_iff)
  have "sb_ok (db_budget b)" using assms by (simp add: db_ok_def)
  note m = sb_members_plain [OF this] rsn_members_plain [OF r]
  show "plain_json (JObj (db_items b))" "finite_json (JObj (db_items b))"
    using assms m unfolding db_ok_def
    by (auto simp: db_items_def list_all_iff simp del: plain_json.simps(3) finite_json.simps(3) dest!: json_plain_parts
        intro!: plain_json.simps(3) [THEN iffD2] finite_json.simps(3) [THEN iffD2])
qed

lemma db_validate_iff: "db_validate b = Inr c \<longleftrightarrow> c = b \<and> db_ok b \<and> db_binding_id b = JStr (db_id b)"
proof -
  note n = normal_check [OF dr_normalized_ids_iff] normal_check [OF dr_normalized_hashes_iff]
  have "list_all (\<lambda>g. g = Inr ()) (db_checks b) \<longleftrightarrow> db_ok b \<and> text_where REVOCATION_COMPACT_RE (db_binding_id b)"
    using revocation_steps [of "[]" "db_task_id b" "db_revocations b"] cancellation_iff [of "db_cancelled b" "db_cancellation_reason b"]
    by (simp add: db_checks_def db_ok_def text_where_def int_where_def n sort_revocations_fixed revocations_ok_def) blast
  then show ?thesis
    using db_items_plain(2) [of b] db_id_RE [of b]
    by (auto simp: db_validate_def checked_iff bindE_Inr_iff db_fingerprint_def db_identity_iff db_id_def text_where_def db_ok_def revocations_ok_def)
qed

section \<open>Texts of bindings\<close>

lemma sb_from_mapping_members:
  assumes "sb_ok b" "\<And>x. dict_get d x JNull = norm_json (dict_get (sb_members b) x JNull)"
    "set (map fst d) = set (map fst (sb_members b))"
  shows "sb_from_mapping (JObj d) = Inr b"
proof -
  have keys: "set (map fst d) = set sb_keys" using assms(3) by (auto simp: sb_members_def sb_keys_def)
  have n: "norm_json (sb_schema_version b) = sb_schema_version b" "norm_json (sb_task_id b) = sb_task_id b"
    "norm_json (sb_max_steps b) = sb_max_steps b" "norm_json (sb_max_tool_calls b) = sb_max_tool_calls b"
    "norm_json (sb_max_model_retries b) = sb_max_model_retries b" "norm_json (sb_max_model_escalations b) = sb_max_model_escalations b"
    "norm_json (sb_max_wall_time_ms b) = sb_max_wall_time_ms b" "norm_json (sb_steps_used b) = sb_steps_used b"
    "norm_json (sb_tool_calls_used b) = sb_tool_calls_used b" "norm_json (sb_model_retries_used b) = sb_model_retries_used b"
    "norm_json (sb_model_escalations_used b) = sb_model_escalations_used b" "norm_json (sb_deadline_at b) = sb_deadline_at b"
    using assms(1) json_plain_parts(1,2) unfolding sb_ok_def by auto
  have g: "dict_get (sb_members b) ''task_id'' JNull = sb_task_id b" "dict_get (sb_members b) ''max_steps'' JNull = sb_max_steps b"
    "dict_get (sb_members b) ''max_tool_calls'' JNull = sb_max_tool_calls b"
    "dict_get (sb_members b) ''max_model_retries'' JNull = sb_max_model_retries b"
    "dict_get (sb_members b) ''max_model_escalations'' JNull = sb_max_model_escalations b"
    "dict_get (sb_members b) ''max_wall_time_ms'' JNull = sb_max_wall_time_ms b" "dict_get (sb_members b) ''steps_used'' JNull = sb_steps_used b"
    "dict_get (sb_members b) ''tool_calls_used'' JNull = sb_tool_calls_used b"
    "dict_get (sb_members b) ''model_retries_used'' JNull = sb_model_retries_used b"
    "dict_get (sb_members b) ''model_escalations_used'' JNull = sb_model_escalations_used b"
    "dict_get (sb_members b) ''deadline_at'' JNull = sb_deadline_at b" "dict_get (sb_members b) ''schema_version'' JNull = sb_schema_version b"
    by (simp_all add: sb_members_def dict_get_def)
  show ?thesis
    unfolding sb_from_mapping_def json.case assms(2) g n keys using assms(1) by (cases b) simp
qed

lemma rsn_from_mapping_members:
  assumes "rsn_ok r"
  shows "rsn_from_revocation (Mapped (JObj (read_members (rsn_members r)))) = Inr r"
proof -
  have d: "distinct (map fst (rsn_members r))" by (simp add: rsn_members_def)
  have keys: "set (map fst (read_members (rsn_members r))) = set rsn_plain"
    unfolding read_members_facts(1) by (auto simp: rsn_members_def rsn_plain_def)
  have n: "norm_json (rsn_task_id r) = rsn_task_id r" "norm_json (rsn_capability r) = rsn_capability r"
    "norm_json (rsn_reason_code r) = rsn_reason_code r" "norm_json (rsn_revoked_at r) = rsn_revoked_at r"
    using assms json_plain_parts(1) unfolding rsn_ok_def by auto
  have g: "dict_get (rsn_members r) ''task_id'' JNull = rsn_task_id r" "dict_get (rsn_members r) ''capability'' JNull = rsn_capability r"
    "dict_get (rsn_members r) ''reason_code'' JNull = rsn_reason_code r" "dict_get (rsn_members r) ''revoked_at'' JNull = rsn_revoked_at r"
    by (simp_all add: rsn_members_def dict_get_def)
  have "''schema_version'' \<notin> set rsn_plain" by (simp add: rsn_plain_def)
  then show ?thesis
    unfolding rsn_from_revocation_def revocation_source.case json.case read_members_facts(2) [OF d] g n keys using assms by (cases r) simp
qed

lemma sb_round: "sb_ok b \<Longrightarrow> sb_from_mapping (norm_json (JObj (sb_members b))) = Inr b"
proof -
  have d: "distinct (map fst (sb_members b))" by (simp add: sb_members_def)
  assume "sb_ok b"
  then show ?thesis
    unfolding read_members_facts(3)
    by (rule sb_from_mapping_members) (rule read_members_facts(2) [OF d] read_members_facts(1))+
qed

abbreviation db_members :: "recovery_binding \<Rightarrow> (string \<times> json) list" where
  "db_members b \<equiv> (''binding_id'', db_binding_id b) # db_items b"

abbreviation db_rows :: "recovery_binding \<Rightarrow> json list" where
  "db_rows b \<equiv> map (\<lambda>r. JObj (read_members (rsn_members r))) (db_revocations b)"

lemma db_from_raw_members:
  assumes v: "db_validate b = Inr b"
  shows "db_from_raw (read_members (db_members b)) (db_rows b) = Inr b"
proof -
  have d: "distinct (map fst (db_members b))" by (simp add: db_items_def)
  from v have ok: "db_ok b" "db_binding_id b = JStr (db_id b)" by (simp_all add: db_validate_iff)
  have n: "norm_json (db_schema_version b) = db_schema_version b" "norm_json (db_task_id b) = db_task_id b"
    "norm_json (db_runtime_checkpoint_fingerprint b) = db_runtime_checkpoint_fingerprint b"
    "norm_json (db_task_context_fingerprint b) = db_task_context_fingerprint b" "norm_json (db_plan_fingerprint b) = db_plan_fingerprint b"
    "norm_json (db_parent_authority_fingerprint b) = db_parent_authority_fingerprint b"
    "norm_json (db_scheduler_state_fingerprint b) = db_scheduler_state_fingerprint b" "norm_json (db_max_concurrency b) = db_max_concurrency b"
    "norm_json (db_cancelled b) = db_cancelled b" "norm_json (db_cancellation_reason b) = db_cancellation_reason b"
    "norm_json (db_dispatch_sequence b) = db_dispatch_sequence b" "map norm_json (db_approved_node_ids b) = db_approved_node_ids b"
    "map norm_json (db_in_flight_ticket_fingerprints b) = db_in_flight_ticket_fingerprints b"
    "map norm_json (db_observation_fingerprints b) = db_observation_fingerprints b" "norm_json (db_captured_at b) = db_captured_at b"
    "norm_json (db_binding_id b) = db_binding_id b"
    using ok json_plain_parts unfolding db_ok_def by auto
  have "mapE (\<lambda>row. rsn_from_revocation (Mapped row)) (db_rows b) = Inr (db_revocations b)"
  proof -
    have "rsn_ok r" if "r \<in> set (db_revocations b)" for r using ok(1) that by (auto simp: db_ok_def revocations_ok_def list_all_iff)
    then have "mapE (\<lambda>row. rsn_from_revocation (Mapped row)) (map (\<lambda>r. JObj (read_members (rsn_members r))) rs) = Inr rs"
      if "set rs \<subseteq> set (db_revocations b)" for rs
      using that by (induction rs) (auto simp: rsn_from_mapping_members)
    then show ?thesis by simp
  qed
  moreover have "sb_from_mapping (norm_json (JObj (sb_members (db_budget b)))) = Inr (db_budget b)"
    using ok(1) by (intro sb_round) (simp add: db_ok_def)
  ultimately show ?thesis
    unfolding db_from_raw_def read_members_facts(2) [OF d]
    by (simp add: dict_get_def db_items_def n del: norm_json.simps(2)) (use v in \<open>cases b, simp\<close>)
qed

lemma db_loads_document:
  assumes v: "db_validate b = Inr b"
  shows "db_loads (dumps (db_envelope (JObj (db_members b)) (digest (JObj (db_items b))))) = Inr b"
proof -
  let ?env = "[(''schema_version'', JStr RUNTIME_DISPATCH_RECOVERY_BINDING_ENVELOPE_SCHEMA), (''binding'', JObj (db_members b)),
    (''binding_fingerprint'', JStr (digest (JObj (db_items b))))]"
  from v have ok: "db_ok b" "db_binding_id b = JStr (db_id b)" by (simp_all add: db_validate_iff)
  have plain: "plain_json (JObj ?env)" "finite_json (JObj ?env)"
    using db_items_plain [OF ok(1)] ok(2) by (simp_all add: db_items_def)
  have l: "loads (dumps (JObj ?env)) = Some (JObj (read_members ?env))"
    using loads_dumps [OF plain(1)] by (simp only: read_members_facts(3))
  then have ne: "dumps (JObj ?env) \<noteq> []" by simp
  have get: "dict_get (read_members ?env) x JNull = norm_json (dict_get ?env x JNull)" for x by (rule read_members_facts(2)) simp
  have raw: "dict_get (read_members (db_members b)) x JNull = norm_json (dict_get (db_members b) x JNull)" for x
    by (rule read_members_facts(2)) (simp add: db_items_def)
  have e: "dict_get ?env ''schema_version'' JNull = JStr RUNTIME_DISPATCH_RECOVERY_BINDING_ENVELOPE_SCHEMA"
    "dict_get ?env ''binding'' JNull = JObj (db_members b)" "dict_get ?env ''binding_fingerprint'' JNull = JStr (digest (JObj (db_items b)))"
    by (simp_all add: dict_get_def)
  have r: "dict_get (db_members b) ''budget'' JNull = JObj (sb_members (db_budget b))"
    "dict_get (db_members b) ''revocations'' JNull = JList (map (\<lambda>r. JObj (rsn_members r)) (db_revocations b))"
    by (simp_all add: dict_get_def db_items_def)
  have keys: "set (map fst (read_members ?env)) = set db_envelope_keys" "set (map fst (read_members (db_members b))) = set db_keys"
    unfolding read_members_facts(1) by (auto simp: db_envelope_keys_def db_items_def db_keys_def)
  have c: "canonical_text DR m (JObj (read_members ?env)) = Inr (dumps (JObj ?env))" for m
    using plain(2) by (simp only: canonical_text_def read_members_facts(4,5) if_True)
  have f: "db_fingerprint b = Inr (digest (JObj (db_items b)))"
    using ok(1) db_items_plain(2) [OF ok(1)] by (simp add: db_fingerprint_def db_identity_iff [THEN iffD2] db_ok_def revocations_ok_def)
  have rows: "map norm_json (map (\<lambda>r. JObj (rsn_members r)) (db_revocations b)) = db_rows b"
    by (simp add: read_members_facts(3) del: norm_json.simps(2))
  show ?thesis
    unfolding db_envelope_def db_loads_def l option.case json.case get e norm_json.simps(1,3-) raw
    by (simp add: ne keys read_members_facts(3) raw r rows db_from_raw_members [OF v] f c del: norm_json.simps(2) dumps.simps set_map map_map)
qed

lemma db_loads_valid: "db_loads u = Inr b \<Longrightarrow> db_validate b = Inr b"
proof -
  have "db_validate b = Inr b" if "db_from_raw raw rows = Inr b" for raw rows
  proof -
    from that obtain b' where "db_validate b' = Inr b" unfolding db_from_raw_def reraise_Inr_iff bindE_Inr_iff by blast
    then show ?thesis by (simp add: db_validate_iff)
  qed
  then show "db_loads u = Inr b \<Longrightarrow> db_validate b = Inr b"
    unfolding db_loads_def by (auto split: if_splits option.splits json.splits)
qed

lemma db_roundtrip: "db_validate b = Inr b \<Longrightarrow> \<exists>t. db_dumps b = Inr t \<and> db_loads t = Inr b"
proof -
  assume v: "db_validate b = Inr b"
  then have ok: "db_ok b" "db_binding_id b = JStr (db_id b)" by (simp_all add: db_validate_iff)
  have i: "db_identity_dict b = Inr (db_items b)" using ok(1) by (simp add: db_identity_iff db_ok_def revocations_ok_def)
  have "db_dumps b = Inr (dumps (db_envelope (JObj (db_members b)) (digest (JObj (db_items b)))))"
    using v i db_items_plain(2) [OF ok(1)] ok(2)
    by (simp add: db_dumps_def db_canonical_dict_def db_fingerprint_def canonical_text_def canonical_digest_iff [THEN iffD2] db_envelope_def)
  with db_loads_document [OF v] show ?thesis by blast
qed

section \<open>What a binding captures\<close>

lemma from_revocation_valid: "rsn_from_revocation v = Inr r \<Longrightarrow> rsn_ok r"
proof (cases v)
  case (Mapped j)
  then show "rsn_from_revocation v = Inr r \<Longrightarrow> rsn_ok r"
    by (cases j) (auto simp: rsn_from_revocation_def split: if_splits)
qed (auto simp: rsn_from_revocation_def)

lemma from_mapping_valid: "sb_from_mapping j = Inr b \<Longrightarrow> sb_ok b"
  by (auto simp: sb_from_mapping_def split: json.splits if_splits)

text \<open>A binding that was built is valid and agrees with its checkpoint, the budget and the revocations it was built from.\<close>

lemma db_build_binds:
  assumes "db_build k snap budget_snap revocations = Inr b"
  obtains kf rows where "db_validate b = Inr b" "rk_validate k = Inr k" "rk_fingerprint k = Inr kf"
    "db_runtime_checkpoint_fingerprint b = JStr kf" "\<not> binding_mismatch b k" "\<exists>d. scheduler_matches k snap = Inr d"
    "sb_from_mapping budget_snap = Inr (db_budget b)" "mapE rsn_from_revocation revocations = Inr rows" "db_revocations b = sort_revocations rows"
proof -
  from assms obtain k' kf sf d n seq fl budget rows i where k: "rk_validate k = Inr k'" "rk_fingerprint k = Inr kf" "scheduler_matches k snap = Inr d"
    "sb_from_mapping budget_snap = Inr budget" "mapE rsn_from_revocation revocations = Inr rows"
    and b: "db_validate ((captured_binding k kf sf d n seq fl budget (sort_revocations rows))\<lparr>db_binding_id := i\<rparr>) = Inr b"
    unfolding db_build_def bindE_Inr_iff if_raise_iff Let_def reraise_Inr_iff by blast
  from b have "b = (captured_binding k kf sf d n seq fl budget (sort_revocations rows))\<lparr>db_binding_id := i\<rparr>" "db_validate b = Inr b"
    by (simp_all add: db_validate_iff)
  with k show thesis by (intro that) (auto simp: captured_binding_def binding_mismatch_def rk_validate_iff)
qed

section \<open>When a binding can be captured\<close>

text \<open>The snapshot of a scheduler that has the checkpoint's identity, approvals and observations.\<close>

definition snapshot_for :: "runtime_checkpoint \<Rightarrow> int \<Rightarrow> json \<Rightarrow> json \<Rightarrow> int \<Rightarrow> string list \<Rightarrow> json" where
  "snapshot_for k max_concurrency cancelled reason dispatch_sequence in_flight =
     JObj [(''schema_version'', JStr EXECUTION_SCHEDULER_SCHEMA), (''task_id'', rk_task_id k),
       (''task_context_fingerprint'', rk_task_context_fingerprint k), (''plan_fingerprint'', rk_plan_fingerprint k),
       (''parent_authority_fingerprint'', rk_parent_authority_fingerprint k), (''max_concurrency'', JInt max_concurrency),
       (''cancelled'', cancelled), (''cancellation_reason'', reason), (''dispatch_sequence'', JInt dispatch_sequence),
       (''approved_node_ids'', JList (rk_approved_node_ids k)), (''in_flight'', str_list in_flight),
       (''observations'', JList (rk_observation_fingerprints k))]"

lemma utc_normal_aware: "utc_normal s \<Longrightarrow> aware_time s"
  using utc_text_reads by (auto simp: utc_normal_def aware_time_def)

lemma normal_ids: "normal_texts REVOCATION_COMPACT_RE vs \<Longrightarrow> \<exists>xs. dr_normalized_ids (JList vs) field = Inr xs \<and> map JStr xs = vs"
  by (auto simp: normal_texts_def dr_normalized_ids_iff sorted_sort_id)

lemma normal_hashes: "normal_texts is_sha256_ref vs \<Longrightarrow> \<exists>xs. dr_normalized_hashes (JList vs) field = Inr xs \<and> map JStr xs = vs"
  by (auto simp: normal_texts_def dr_normalized_hashes_iff sorted_sort_id)

lemma rk_fields_plain:
  assumes "rk_fields_ok k"
  shows "finite_json (rk_task_id k)" "finite_json (rk_task_context_fingerprint k)" "finite_json (rk_plan_fingerprint k)"
    "finite_json (rk_parent_authority_fingerprint k)"
  using assms unfolding rk_fields_ok_def by (auto dest!: json_plain_parts(1))

lemma db_build_total:
  assumes k: "rk_validate k = Inr k" "normal_texts REVOCATION_COMPACT_RE (rk_approved_node_ids k)"
    and budget: "sb_from_mapping j = Inr budget" "sb_task_id budget = rk_task_id k"
    and rows: "mapE rsn_from_revocation src = Inr rows" "revocations_ok (rk_task_id k) (sort_revocations rows)"
    and sched: "1 \<le> n" "n \<le> DR_MAX_SCHEDULER_CONCURRENCY" "cancellation_ok cancelled reason" "0 \<le> seq" "normal_texts is_sha256_ref (map JStr fl)"
  shows "\<exists>b. db_build k (snapshot_for k n cancelled reason seq fl) j src = Inr b
    \<and> db_in_flight_ticket_fingerprints b = map JStr fl \<and> db_cancelled b = cancelled"
proof -
  have ok: "rk_fields_ok k" using k(1) by (simp add: rk_validate_iff)
  obtain d where d: "scheduler_matches k (snapshot_for k n cancelled reason seq fl) = Inr d"
    "dict_get d ''approved_node_ids'' JNull = JList (rk_approved_node_ids k)" "dict_get d ''observations'' JNull = JList (rk_observation_fingerprints k)"
    "dict_get d ''in_flight'' JNull = JList (map JStr fl)" "dict_get d ''max_concurrency'' JNull = JInt n" "dict_get d ''cancelled'' JNull = cancelled"
    "dict_get d ''cancellation_reason'' JNull = reason" "dict_get d ''dispatch_sequence'' JNull = JInt seq"
    by (simp add: scheduler_matches_def snapshot_for_def scheduler_keys_def dict_get_def str_list_def)
  obtain as obs fs where n: "dr_normalized_ids (JList (rk_approved_node_ids k)) ''approved_node_id'' = Inr as" "map JStr as = rk_approved_node_ids k"
    "dr_normalized_hashes (JList (rk_observation_fingerprints k)) ''observation_fingerprint'' = Inr obs" "map JStr obs = rk_observation_fingerprints k"
    "dr_normalized_hashes (JList (map JStr fl)) ''in_flight_ticket_fingerprint'' = Inr fs" "map JStr fs = map JStr fl"
    using normal_ids [OF k(2)] normal_hashes ok sched(5) unfolding rk_fields_ok_def by metis
  define kf where "kf = digest (JObj (rk_identity_dict k))"
  have kf: "rk_fingerprint k = Inr kf" using rk_fingerprint_iff [OF k(1)] by (simp add: kf_def)
  define x where "x = scheduler_identity k n cancelled reason seq as fs obs"
  have "finite_json x" using rk_fields_plain [OF ok] json_plain_parts(3) [OF sched(3)] by (auto simp: x_def scheduler_identity_def str_list_def list_all_iff)
  then have sf: "dr_digest x = Inr (digest x)" by (simp only: canonical_digest_iff)
  define b where "b = captured_binding k kf (digest x) d n seq fs budget (sort_revocations rows)"
  have "int_where (\<lambda>i. 1 \<le> i \<and> i \<le> DR_MAX_SCHEDULER_CONCURRENCY) (JInt n)" "int_where (\<lambda>i. 0 \<le> i) (JInt seq)"
    using sched by (auto simp: int_where_def)
  moreover have "text_where REVOCATION_COMPACT_RE (rk_task_id k)" using from_mapping_valid [OF budget(1)] budget(2) by (simp add: sb_ok_def)
  moreover have "text_where aware_time (rk_captured_at k)" using ok utc_normal_aware by (auto simp: rk_fields_ok_def text_where_def)
  moreover have "text_where is_sha256_ref (JStr kf)" "text_where is_sha256_ref (JStr (digest x))" by (simp_all add: text_where_def kf_def is_sha256_ref_digest)
  ultimately have b_ok: "db_ok b"
    using ok k(2) n(6) sched(3,5) rows(2) budget(2) from_mapping_valid [OF budget(1)]
    by (simp add: db_ok_def b_def captured_binding_def d rk_fields_ok_def)
  have same: "db_items (b\<lparr>db_binding_id := i\<rparr>) = db_items b" "db_ok (b\<lparr>db_binding_id := i\<rparr>) \<longleftrightarrow> db_ok b" for i
    by (simp_all add: db_items_def db_ok_def)
  have id: "db_id (b\<lparr>db_binding_id := i\<rparr>) = db_id b" for i by (simp only: db_id_def same(1))
  have v: "db_validate (b\<lparr>db_binding_id := JStr (db_id b)\<rparr>) = Inr (b\<lparr>db_binding_id := JStr (db_id b)\<rparr>)"
    unfolding db_validate_iff using b_ok by (simp add: same(2) id)
  have f: "db_fingerprint b = Inr (digest (JObj (db_items b)))"
  proof -
    have "db_identity_dict b = Inr (db_items b)" unfolding db_identity_iff using b_ok by (simp add: db_ok_def revocations_ok_def)
    then show ?thesis using db_items_plain(2) [OF b_ok] by (simp only: db_fingerprint_def bindE_simps canonical_digest_iff)
  qed
  have rows_ok: "length (fromkeys (map rsn_capability (sort_revocations rows))) = length (sort_revocations rows)"
    "\<not> list_ex (\<lambda>r. rsn_task_id r \<noteq> rk_task_id k) (sort_revocations rows)"
    using rows(2) length_fromkeys_iff [of "map rsn_capability (sort_revocations rows)"] by (auto simp: revocations_ok_def list_ex_iff)
  have c: "dr_concurrency (JInt n) = Inr n" "is_json_bool cancelled" "dr_cancellation cancelled reason = Inr ()"
    "dr_nonnegative_int (JInt seq) ''dispatch_sequence'' = Inr seq"
    using sched cancellation_iff [of cancelled reason] by (simp_all add: DR_MAX_SCHEDULER_CONCURRENCY_def)
  have "db_build k (snapshot_for k n cancelled reason seq fl) j src = Inr (b\<lparr>db_binding_id := JStr (db_id b)\<rparr>)"
    unfolding db_build_def
    by (simp only: k(1) reraise_def sum.case bindE_simps d n c kf budget rows(1) Let_def rows_ok sf x_def [symmetric] b_def [symmetric] f
        db_id_def [symmetric] v simp_thms if_True if_False)
  then show ?thesis using n(6) d by (simp add: b_def captured_binding_def)
qed

text \<open>A scheduler with a checkpoint repository adds two members to its snapshot, which the builder refuses: no binding is ever built from one.\<close>

lemma bound_snapshot_refused:
  assumes "gd_repository g \<noteq> None" "snapshot g s = Inr snap" "rk_validate k = Inr k'"
  shows "db_build k snap j src = raise DR ''SCHEDULER_SNAPSHOT_SHAPE_INVALID''"
proof -
  from assms(1,2) obtain d where d: "snap = JObj d" "''checkpoint_bound'' \<in> set (map fst d)" by (auto simp: snapshot_def bindE_Inr_iff)
  moreover have "''checkpoint_bound'' \<notin> set scheduler_keys" by (simp add: scheduler_keys_def)
  ultimately have "set (map fst d) \<noteq> set scheduler_keys" by metis
  with d(1) assms(3) show ?thesis by (simp add: db_build_def reraise_def scheduler_matches_def)
qed

end
