(* ===== verification/Live_Recovery.thy ===== *)
theory Live_Recovery
  imports Dispatch_Recovery Dispatch_Budget
begin

text \<open>
  Dispatch recovery on the task database. The guards of \<open>Dispatch_Recovery\<close> become \<open>ExecutionBudgetState\<close>
  (\<open>execution_budget.py\<close>) and \<open>TaskCapabilityRevocationStore\<close> (\<open>capability_revocation.py\<close>) over one store, with the
  texts of their snapshots; the theorems say what a recovery decision guarantees, and that a binding captured
  from the database stays recoverable whatever other parties do to the database afterwards.
\<close>

section \<open>Guards on the database\<close>

text \<open>\<open>datetime.now(TZ).isoformat()\<close> for the Tokyo zone, from the instant in microseconds since 1970.\<close>

definition tokyo_local :: "int \<Rightarrow> int" where
  "tokyo_local t = t + 719162 * DAY + 32400000000"

definition tokyo_text :: "int \<Rightarrow> string" where
  "tokyo_text t = isoformat_local (tokyo_local t) @ ''+09:00''"

definition stamp_text :: "stamp \<Rightarrow> string" where
  "stamp_text st = (case st of At t \<Rightarrow> tokyo_text t | Blank \<Rightarrow> [] | Malformed m \<Rightarrow> m)"

definition task_budget_snapshot :: "string \<Rightarrow> store \<Rightarrow> json result" where
  "task_budget_snapshot t s = bindE (task_execution_budget_for_task t s) (\<lambda>row.
     Inr (JObj [(''schema_version'', JStr BUDGET_STATE_SCHEMA), (''task_id'', JStr t), (''max_steps'', JInt (bu_max_steps row)),
       (''max_tool_calls'', JInt (bu_max_tool_calls row)), (''max_model_retries'', JInt (bu_max_retries row)),
       (''max_model_escalations'', JInt (bu_max_escalations row)), (''max_wall_time_ms'', JInt (bu_max_wall_time_ms row)),
       (''steps_used'', JInt (bu_steps_used row)), (''tool_calls_used'', JInt (bu_tool_calls_used row)),
       (''model_retries_used'', JInt (bu_retries_used row)), (''model_escalations_used'', JInt (bu_escalations_used row)),
       (''deadline_at'', JStr (stamp_text (bu_deadline_at row)))]))"

definition revocation_source_of :: "revocation \<Rightarrow> revocation_source" where
  "revocation_source_of r = Revocation (rv_task_id r) (rv_capability r) (rv_reason_code r) (tokyo_text (rv_revoked_at r))"

definition revocation_sources :: "string \<Rightarrow> store \<Rightarrow> revocation_source list result" where
  "revocation_sources t s = bindE (list_for_task t s) (\<lambda>rows. Inr (map revocation_source_of rows))"

definition store_guards :: "(nat \<Rightarrow> lock_fault option) \<Rightarrow> (nat \<Rightarrow> int) \<Rightarrow> budget_state \<Rightarrow> store recovery_guards" where
  "store_guards env clock st = \<lparr>rg_assert_active = assert_active env clock st,
     rg_snapshot = task_budget_snapshot (bs_task_id st), rg_list_for_task = revocation_sources\<rparr>"

section \<open>The decision, given the live state\<close>

lemma settled_reason: "settled_verdict base b = Some v \<Longrightarrow> fst v \<in> set RECOVERY_STATUSES \<and> REASON_RE (snd v)"
  by (auto simp: settled_verdict_def RECOVERY_STATUSES_def REASON_RE_def ident_match_def is_upper_def split: if_splits)

lemma active_reason: "active_verdict g new w = (Inr v, w') \<Longrightarrow> fst v \<in> set RECOVERY_STATUSES \<and> REASON_RE (snd v)"
  by (auto simp: active_verdict_def RECOVERY_STATUSES_def REASON_RE_def ident_match_def is_upper_def split: prod.splits sum.splits if_splits)

lemma recovery_canonical:
  assumes "recover_evaluate k c p parent obs = Inr r"
  shows "\<exists>x. rr_canonical_dict r = Inr x" "rr_status r \<in> set RECOVERY_STATUSES"
proof -
  from assms obtain approvals d where e: "evaluate c p parent obs approvals = Inr d" "r = recovery_of obs d" by (rule recover_captured)
  from evaluate_facts(3) [OF e(1)] obtain j where "decision_canonical d = Inr j" by blast
  with rr_canonical_total [OF evaluate_facts(2) [OF e(1)]] e(2) show "\<exists>x. rr_canonical_dict r = Inr x" by blast
  then show "rr_status r \<in> set RECOVERY_STATUSES" by (auto simp: rr_canonical_dict_def checked_def)
qed

lemma normalized_again:
  assumes "list_all REVOCATION_COMPACT_RE xs" "distinct xs" "sorted xs"
  shows "dr_normalized_ids (str_list xs) f = Inr xs"
  using assms by (auto simp: str_list_def dr_normalized_ids_iff sorted_sort_id intro!: exI [of _ xs])

lemma hashes_again:
  assumes "normal_texts is_sha256_ref vs"
  shows "dr_normalized_hashes (str_list (map json_text vs)) f = Inr (map json_text vs)"
proof -
  from assms obtain xs where "vs = map JStr xs" "list_all is_sha256_ref xs" "distinct xs" "sorted xs" by (auto simp: normal_texts_def)
  moreover have "map json_text (map JStr xs) = xs" by (simp add: map_idI)
  ultimately show ?thesis by (auto simp: str_list_def dr_normalized_hashes_iff sorted_sort_id intro!: exI [of _ xs])
qed

lemma decision_total:
  assumes "db_validate b = Inr b" "rr_canonical_dict base = Inr x" "sb_ok live" "list_all REVOCATION_COMPACT_RE new" "distinct new" "sorted new"
    "fst v \<in> set RECOVERY_STATUSES" "REASON_RE (snd v)"
  shows "\<exists>d. dispatch_decision_of b base live new v = Inr d \<and> dd_status d = fst v \<and> dd_checkpoint_recovery d = base \<and> dd_newly_revoked_capabilities d = new"
proof -
  have "sb_validate live = Inr live" using assms(3) by simp
  moreover have "dr_digest (JObj (sb_members live)) = Inr (digest (JObj (sb_members live)))"
    using sb_members_plain(2) [OF assms(3)] by (simp only: canonical_digest_iff)
  ultimately have f: "sb_fingerprint live = Inr (digest (JObj (sb_members live)))"
    by (simp only: sb_fingerprint_def sb_canonical_dict_def bindE_simps)
  have h: "dr_normalized_hashes (str_list (map json_text (db_in_flight_ticket_fingerprints b))) fl = Inr (map json_text (db_in_flight_ticket_fingerprints b))"
    "dr_normalized_hashes (str_list []) fl = Inr []" for fl
    using assms(1) hashes_again [of "[]"] by (auto simp: db_validate_iff db_ok_def normal_texts_def intro!: hashes_again)
  show ?thesis
    using assms(2,7,8) normalized_again [OF assms(4-6)] h
    by (simp add: dispatch_decision_of_def f Let_def dd_canonical_dict_def dd_checks_def checked_def fail_if_def dr_sha256_def str_field_def void_def)
qed

section \<open>Times\<close>

definition in_calendar :: "int \<Rightarrow> bool" where
  "in_calendar t \<longleftrightarrow> 0 \<le> tokyo_local t \<and> tokyo_local t < MAX_LOCAL"

lemma tokyo_text_aware:
  assumes "in_calendar t"
  shows "aware_time (tokyo_text t)"
proof -
  from assms have r: "0 \<le> tokyo_local t" "tokyo_local t < MAX_LOCAL" by (simp_all add: in_calendar_def)
  have "\<not> is_space c" if "c \<in> set (tokyo_text t)" for c
  proof -
    have "\<forall>c \<in> set ''+09:00''. is_digit c \<or> c \<in> set ''-T:.+''" by simp
    moreover have "is_digit c \<or> c \<in> set ''-T:.+''" if "c \<in> set (isoformat_local (tokyo_local t))"
      using isoformat_chars [OF r(1) that] by (elim disjE insertE emptyE) simp_all
    ultimately have "is_digit c \<or> c \<in> set ''-T:.+''" using that unfolding tokyo_text_def set_append by blast
    moreover have "\<not> is_space c" if "c \<in> set ''-T:.+''" using that by (auto simp: is_space_def)
    ultimately show ?thesis using digit_not_space by blast
  qed
  moreover have "tokyo_text t \<noteq> []" by (simp add: tokyo_text_def)
  ultimately have s: "strip (tokyo_text t) = tokyo_text t" by (intro strip_id) auto
  have "\<not> ends_with (tokyo_text t) ''Z''"
  proof
    assume "ends_with (tokyo_text t) ''Z''"
    then have "last (tokyo_text t) = CHR ''Z''" by (auto simp: ends_with_iff)
    then show False by (simp add: tokyo_text_def)
  qed
  then have "fromisoformat (zulu (tokyo_text t)) = Some \<lparr>dt_local = tokyo_local t, dt_offset = Some 32400000000\<rparr>"
    using fromisoformat_zone [OF r, of 32400000000 "''+09:00''"] by (simp add: zulu_def tokyo_text_def zone_text_def)
  with s \<open>tokyo_text t \<noteq> []\<close> show ?thesis by (simp add: aware_time_def)
qed

section \<open>The budget moves forward\<close>

definition continues :: "budget_row \<Rightarrow> budget_row \<Rightarrow> bool" where
  "continues r q \<longleftrightarrow> same_limits q r \<and> bu_steps_used r \<le> bu_steps_used q \<and> bu_tool_calls_used r \<le> bu_tool_calls_used q
     \<and> bu_retries_used r \<le> bu_retries_used q \<and> bu_escalations_used r \<le> bu_escalations_used q"

lemma continues_refl: "continues r r"
  by (simp add: continues_def same_limits_def)

lemma continues_trans: "continues a b \<Longrightarrow> continues b c \<Longrightarrow> continues a c"
  using same_limits_trans [of c b a] by (auto simp: continues_def)

lemma op_charges_deltas:
  "budget_exec now bop s = Inr (u, s') \<Longrightarrow> op_charges bop t = Some d \<Longrightarrow> deltas_ok d"
  by (cases bop) (auto simp: budget_exec_def op_charges_def bindE_Inr_iff reserve_iff split: if_splits)

lemma budget_step_continues:
  assumes "st_budgets s t = Some r" "\<not> legacy_row r"
  shows "\<exists>q. st_budgets (budget_step s x) t = Some q \<and> \<not> legacy_row q \<and> continues r q"
proof (cases "budget_exec (fst x) (snd x) s")
  case (Inr p)
  then obtain u s' where e: "budget_exec (fst x) (snd x) s = Inr (u, s')" by (cases p) simp
  from budget_exec_row [OF e assms] obtain q where q: "st_budgets s' t = Some q" "\<not> legacy_row q" "same_limits q r"
    "used_plus r (case op_charges (snd x) t of None \<Rightarrow> zero_deltas | Some d \<Rightarrow> d) q" by blast
  then have "continues r q"
    using op_charges_deltas [OF e, of t] by (auto simp: continues_def used_plus_def zero_deltas_def deltas_ok_def split: option.splits)
  with q e show ?thesis by (simp add: budget_step_def)
qed (use assms continues_refl in \<open>simp add: budget_step_def\<close>)

lemma run_continues:
  assumes "st_budgets s t = Some r" "\<not> legacy_row r"
  shows "\<exists>q. st_budgets (foldl store_step s ops) t = Some q \<and> \<not> legacy_row q \<and> continues r q"
proof (induction ops rule: rev_induct)
  case (snoc x ops)
  let ?s = "foldl store_step s ops"
  from snoc obtain q where q: "st_budgets ?s t = Some q" "\<not> legacy_row q" "continues r q" by blast
  from store_step_budgets [of ?s x] have "\<exists>p. st_budgets (store_step ?s x) t = Some p \<and> \<not> legacy_row p \<and> continues q p"
  proof
    assume "\<exists>bop. store_step ?s x = budget_step ?s (fst x, bop)"
    with budget_step_continues [OF q(1,2)] show ?thesis by metis
  qed (use q continues_refl in auto)
  with continues_trans [OF q(3)] show ?case by auto
qed (use assms continues_refl in auto)

lemma run_budgets_wf: "budgets_wf s \<Longrightarrow> budgets_wf (foldl store_step s ops)"
  by (induction ops rule: rev_induct) (auto simp: store_step_grow)

text \<open>The snapshot of a row.\<close>

definition snapshot_of :: "string \<Rightarrow> budget_row \<Rightarrow> runtime_budget_snapshot" where
  "snapshot_of t row = \<lparr>sb_task_id = JStr t, sb_max_steps = JInt (bu_max_steps row), sb_max_tool_calls = JInt (bu_max_tool_calls row),
     sb_max_model_retries = JInt (bu_max_retries row), sb_max_model_escalations = JInt (bu_max_escalations row),
     sb_max_wall_time_ms = JInt (bu_max_wall_time_ms row), sb_steps_used = JInt (bu_steps_used row),
     sb_tool_calls_used = JInt (bu_tool_calls_used row), sb_model_retries_used = JInt (bu_retries_used row),
     sb_model_escalations_used = JInt (bu_escalations_used row), sb_deadline_at = JStr (stamp_text (bu_deadline_at row)),
     sb_schema_version = JStr BUDGET_STATE_SCHEMA\<rparr>"

lemma task_budget_snapshot_iff: "bindE (task_budget_snapshot t s) sb_from_mapping = Inr b
   \<longleftrightarrow> (\<exists>row. st_budgets s t = Some row \<and> b = snapshot_of t row \<and> sb_ok b)"
proof -
  have m: "JObj [(''schema_version'', JStr BUDGET_STATE_SCHEMA), (''task_id'', JStr t), (''max_steps'', JInt (bu_max_steps row)),
       (''max_tool_calls'', JInt (bu_max_tool_calls row)), (''max_model_retries'', JInt (bu_max_retries row)),
       (''max_model_escalations'', JInt (bu_max_escalations row)), (''max_wall_time_ms'', JInt (bu_max_wall_time_ms row)),
       (''steps_used'', JInt (bu_steps_used row)), (''tool_calls_used'', JInt (bu_tool_calls_used row)),
       (''model_retries_used'', JInt (bu_retries_used row)), (''model_escalations_used'', JInt (bu_escalations_used row)),
       (''deadline_at'', JStr (stamp_text (bu_deadline_at row)))] = JObj (sb_members (snapshot_of t row))" for row
    by (simp add: sb_members_def snapshot_of_def)
  have "sb_from_mapping (JObj (sb_members (snapshot_of t row))) = sb_validate (snapshot_of t row)" for row
    by (simp add: sb_from_mapping_def sb_members_def snapshot_of_def dict_get_def sb_keys_def)
  then show ?thesis
    unfolding task_budget_snapshot_def task_execution_budget_for_task_def m by (auto simp: bindE_Inr_iff split: option.splits)
qed

lemma snapshot_continues:
  assumes "sb_ok (snapshot_of t r)" "continues r q" "counters_ok q"
  shows "sb_ok (snapshot_of t q)" "immutable_tuple (snapshot_of t q) = immutable_tuple (snapshot_of t r)"
    "\<not> list_ex (\<lambda>(l, c). l < c) (zip (sb_counters (snapshot_of t q)) (sb_counters (snapshot_of t r)))"
  using assms
  by (auto simp: continues_def same_limits_def row_limits_def counters_ok_def snapshot_of_def sb_ok_def int_where_def text_where_def
      immutable_tuple_def sb_counters_def)

lemma live_budget_survives:
  assumes "budgets_wf s" "bindE (task_budget_snapshot t s) sb_from_mapping = Inr (db_budget b)" "st_budgets s t = Some row"
    "\<not> legacy_row row" "bs_task_id st = t"
  shows "\<exists>q. st_budgets (foldl store_step s ops) t = Some q \<and> continues row q \<and> counters_ok q
    \<and> live_budget (store_guards env clock st) b (foldl store_step s ops) = Inr (snapshot_of t q) \<and> sb_ok (snapshot_of t q)"
proof -
  let ?s = "foldl store_step s ops"
  from run_continues [OF assms(3,4)] obtain q where q: "st_budgets ?s t = Some q" "\<not> legacy_row q" "continues row q" by blast
  have c: "counters_ok q" using run_budgets_wf [OF assms(1), of ops] q(1,2) by (auto simp: budgets_wf_def row_ok_def legacy_row_def)
  from assms(2,3) have b: "db_budget b = snapshot_of t row" "sb_ok (snapshot_of t row)" unfolding task_budget_snapshot_iff by auto
  note f = snapshot_continues [OF b(2) q(3) c]
  then have "bindE (task_budget_snapshot t ?s) sb_from_mapping = Inr (snapshot_of t q)"
    unfolding task_budget_snapshot_iff using q(1) by blast
  then have "live_budget (store_guards env clock st) b ?s = Inr (snapshot_of t q)"
    using f(2,3) by (simp add: live_budget_def store_guards_def assms(5) b(1))
  with q c f(1) show ?thesis by blast
qed

section \<open>Revocations are added\<close>

text \<open>One row per task and capability, each with what the arguments of \<open>revoke\<close> are checked for.\<close>

definition revocation_wf :: "revocation \<Rightarrow> bool" where
  "revocation_wf r \<longleftrightarrow> REVOCATION_COMPACT_RE (rv_capability r) \<and> REASON_RE (rv_reason_code r)
     \<and> in_calendar (rv_revoked_at r)"

definition revocations_wf :: "store \<Rightarrow> bool" where
  "revocations_wf s \<longleftrightarrow> distinct (map (\<lambda>r. (rv_task_id r, rv_capability r)) (st_revocations s))
     \<and> list_all revocation_wf (st_revocations s)"

lemma revoked_row_wf:
  assumes "revoke now logged t cap reason s = Inr (r, s')" "in_calendar now" "list_all revocation_wf (st_revocations s)"
  shows "list_all revocation_wf (st_revocations s')"
proof -
  from assms(1) obtain logical code where a: "capability_arg cap = Inr logical" "reason_arg reason = Inr code"
    "if revocation_row (strip t) logical s = None
      then r = \<lparr>rv_task_id = strip t, rv_capability = logical, rv_reason_code = code, rv_revoked_at = now\<rparr>
        \<and> s' = record_activity logged (Some (strip t)) ''capability_broker'' ''capability_revoked'' ''ok''
             (''capability='' @ logical @ '' reason='' @ code) (s\<lparr>st_revocations := st_revocations s @ [r]\<rparr>)
      else revocation_row (strip t) logical s = Some r \<and> s' = s" unfolding revoke_iff by blast
  have "REVOCATION_COMPACT_RE logical" "REASON_RE code"
    using a(1,2) by (auto simp: capability_arg_def reason_arg_def Let_def split: if_splits)
  with a(3) assms(2,3) show ?thesis by (auto simp: revocation_wf_def split: if_splits)
qed

lemma revocations_wf_run:
  assumes "revocations_wf s" "\<forall>x \<in> set ops. in_calendar (fst x)"
  shows "revocations_wf (foldl store_step s ops)"
proof -
  have "list_all revocation_wf (st_revocations (foldl store_step s ops))"
    using assms(2)
  proof (induction ops rule: rev_induct)
    case (snoc x ops)
    with store_step_revokes [of "foldl store_step s ops" x] show ?case by (auto intro: revoked_row_wf)
  qed (use assms(1) in \<open>simp add: revocations_wf_def\<close>)
  with revocations.run_keys_distinct [of s ops] assms(1) show ?thesis by (simp add: revocations_wf_def)
qed

definition row_snapshot :: "revocation \<Rightarrow> runtime_revocation_snapshot" where
  "row_snapshot r = \<lparr>rsn_task_id = JStr (rv_task_id r), rsn_capability = JStr (rv_capability r),
     rsn_reason_code = JStr (rv_reason_code r), rsn_revoked_at = JStr (tokyo_text (rv_revoked_at r))\<rparr>"

definition task_revocations :: "string \<Rightarrow> store \<Rightarrow> revocation list" where
  "task_revocations t s = sort_key rv_capability (filter (\<lambda>r. rv_task_id r = t) (st_revocations s))"

lemma task_revocations_facts:
  assumes "revocations_wf s"
  shows "distinct (map rv_capability (task_revocations t s))"
    "set (task_revocations t s) = {r \<in> set (st_revocations s). rv_task_id r = t}"
    "sorted (map rv_capability (task_revocations t s))"
proof -
  have "inj_on rv_capability {r \<in> set (st_revocations s). rv_task_id r = t}"
    using assms by (auto simp: revocations_wf_def distinct_map inj_on_def)
  moreover have "distinct (st_revocations s)" using assms by (auto simp: revocations_wf_def distinct_map)
  ultimately show "distinct (map rv_capability (task_revocations t s))"
    by (simp add: task_revocations_def distinct_map)
qed (auto simp: task_revocations_def)

lemma sources_snapshots:
  assumes "revocations_wf s" "REVOCATION_COMPACT_RE t" "strip t = t" "find_task s t \<noteq> None"
  shows "bindE (revocation_sources t s) (\<lambda>rows. mapE rsn_from_revocation rows) = Inr (map row_snapshot (task_revocations t s))"
    "sort_revocations (map row_snapshot (task_revocations t s)) = map row_snapshot (task_revocations t s)"
proof -
  from assms(4) obtain task where g: "get_task t s = Inr task" by (auto simp: get_task_def)
  with assms(3) have l: "revocation_sources t s = Inr (map revocation_source_of (task_revocations t s))"
    using get_task_id [OF g] by (simp add: revocation_sources_def list_for_task_def task_revocations_def)
  have "rsn_from_revocation (revocation_source_of r) = Inr (row_snapshot r)" if "r \<in> set (task_revocations t s)" for r
  proof -
    from that task_revocations_facts(2) [OF assms(1)] assms(1) have "revocation_wf r" "rv_task_id r = t"
      by (auto simp: revocations_wf_def list_all_iff)
    then have "rsn_ok (row_snapshot r)"
      using assms(2) tokyo_text_aware by (auto simp: rsn_ok_def row_snapshot_def text_where_def revocation_wf_def)
    then show ?thesis by (simp add: revocation_source_of_def rsn_from_revocation_def row_snapshot_def)
  qed
  then have "mapE rsn_from_revocation (map revocation_source_of rows) = Inr (map row_snapshot rows)"
    if "set rows \<subseteq> set (task_revocations t s)" for rows
    using that by (induction rows) auto
  with l show "bindE (revocation_sources t s) (\<lambda>rows. mapE rsn_from_revocation rows) = Inr (map row_snapshot (task_revocations t s))" by simp
  show "sort_revocations (map row_snapshot (task_revocations t s)) = map row_snapshot (task_revocations t s)"
    using task_revocations_facts(3) [OF assms(1), of t] by (simp add: sort_revocations_fixed row_snapshot_def comp_def)
qed

lemma by_capability_iff:
  assumes "distinct (map rv_capability rows)"
  shows "by_capability (map row_snapshot rows) (JStr c) = Some q \<longleftrightarrow> (\<exists>r \<in> set rows. rv_capability r = c \<and> q = row_snapshot r)"
proof -
  let ?m = "rev (map (\<lambda>r. (rsn_capability r, r)) (map row_snapshot rows))"
  have "inj JStr" by (simp add: inj_def)
  then have "distinct (map fst ?m)"
    using assms by (auto simp: rev_map [symmetric] comp_def row_snapshot_def distinct_map inj_on_def)
  from map_of_eq_Some_iff [OF this] show ?thesis unfolding by_capability_def by (auto simp: row_snapshot_def)
qed

lemma filter_texts: "map json_text (filter (\<lambda>c. c \<notin> set (map JStr xs)) (map JStr ys)) = filter (\<lambda>y. y \<notin> set xs) ys"
  by (induction ys) auto

text \<open>The capabilities revoked since.\<close>

definition revoked_since :: "string \<Rightarrow> store \<Rightarrow> store \<Rightarrow> string set" where
  "revoked_since t s s' = {c. revocation_row t c s = None \<and> revocation_row t c s' \<noteq> None}"

lemma revocation_row_caps: "revocation_row t c s \<noteq> None \<longleftrightarrow> c \<in> rv_capability ` {r \<in> set (st_revocations s). rv_task_id r = t}"
  by (auto simp: revocation_row_def find_None_iff)

lemma revoked_since_rows:
  assumes "revocations_wf s" "revocations_wf s'"
  shows "revoked_since t s s' = rv_capability ` set (task_revocations t s') - rv_capability ` set (task_revocations t s)"
proof -
  have none: "revocation_row t c s = None \<longleftrightarrow> c \<notin> rv_capability ` {r \<in> set (st_revocations s). rv_task_id r = t}" for c
    using revocation_row_caps [of t c s] by blast
  show ?thesis
    unfolding revoked_since_def task_revocations_facts(2) [OF assms(1)] task_revocations_facts(2) [OF assms(2)] revocation_row_caps none
    by blast
qed

lemma newly_revoked_survives:
  assumes wf: "revocations_wf s" and t: "REVOCATION_COMPACT_RE t" "strip t = t" "find_task s t \<noteq> None"
    and ops: "\<forall>x \<in> set ops. in_calendar (fst x)"
    and k: "rk_task_id k = JStr t" and b: "db_revocations b = map row_snapshot (task_revocations t s)"
  shows "\<exists>new. newly_revoked (store_guards env clock st) b k (foldl store_step s ops) = Inr new
    \<and> set new = revoked_since t s (foldl store_step s ops) \<and> distinct new \<and> sorted new \<and> list_all REVOCATION_COMPACT_RE new"
proof -
  let ?s = "foldl store_step s ops"
  let ?live = "map row_snapshot (task_revocations t ?s)"
  have wf': "revocations_wf ?s" by (rule revocations_wf_run [OF wf ops])
  have "task_ids s \<subseteq> task_ids ?s"
    by (induction ops rule: rev_induct) (auto dest: subsetD [OF store_step_tasks])
  then have "find_task ?s t \<noteq> None" using t(3) unfolding find_task_ids by blast
  note src = sources_snapshots [OF wf' t(1,2) this]
  note d = task_revocations_facts(1) [OF wf, of t] task_revocations_facts(1) [OF wf', of t]
  have caps: "map rsn_capability (map row_snapshot rows) = map JStr (map rv_capability rows)" for rows
    by (simp add: row_snapshot_def comp_def)
  have inj: "inj JStr" by (simp add: inj_def)
  have unique: "distinct (map rsn_capability ?live)" unfolding caps using d(2) inj by (simp only: distinct_map inj_on_subset [OF inj subset_UNIV] simp_thms)
  obtain rs where "st_revocations ?s = st_revocations s @ rs" using revocations.run_appends by blast
  then have sub: "set (task_revocations t s) \<subseteq> set (task_revocations t ?s)"
    unfolding task_revocations_facts(2) [OF wf] task_revocations_facts(2) [OF wf'] by auto
  have same: "by_capability ?live c = by_capability (db_revocations b) c" if c: "c \<in> set (map rsn_capability (db_revocations b))" for c
  proof -
    from c b obtain r where r: "r \<in> set (task_revocations t s)" "c = JStr (rv_capability r)" by (auto simp: row_snapshot_def)
    then have "by_capability (db_revocations b) c = Some (row_snapshot r)" "by_capability ?live c = Some (row_snapshot r)"
      using by_capability_iff [OF d(1)] by_capability_iff [OF d(2)] sub by (auto simp: b)
    then show ?thesis by simp
  qed
  let ?new = "sort (map json_text (filter (\<lambda>c. c \<notin> set (map rsn_capability (db_revocations b))) (fromkeys (map rsn_capability ?live))))"
  have "newly_revoked (store_guards env clock st) b k ?s = Inr ?new"
    using src same unique by (auto simp: newly_revoked_def store_guards_def k Let_def list_ex_iff)
  moreover have "fromkeys (map rsn_capability ?live) = map JStr (map rv_capability (task_revocations t ?s))"
    using unique by (simp only: fromkeys_distinct caps)
  then have new: "map json_text (filter (\<lambda>c. c \<notin> set (map rsn_capability (db_revocations b))) (fromkeys (map rsn_capability ?live)))
      = filter (\<lambda>c. c \<notin> set (map rv_capability (task_revocations t s))) (map rv_capability (task_revocations t ?s))"
    unfolding b by (simp only: caps filter_texts)
  have "set ?new = set (filter (\<lambda>c. c \<notin> set (map rv_capability (task_revocations t s))) (map rv_capability (task_revocations t ?s)))"
    by (simp only: set_sort new)
  then have "set ?new = revoked_since t s ?s"
    unfolding revoked_since_rows [OF wf wf'] by auto
  moreover have "distinct ?new" unfolding new using d(2) by simp
  moreover have "list_all REVOCATION_COMPACT_RE ?new"
    unfolding new using wf' task_revocations_facts(2) [OF wf'] by (auto simp: list_all_iff revocations_wf_def revocation_wf_def)
  ultimately show ?thesis by auto
qed

section \<open>What every decision guarantees\<close>

lemma assert_active_answers:
  assumes "env 0 = None" "st_budgets s (bs_task_id st) = Some q" "counters_ok q" "bu_deadline_at q = At dl"
  shows "assert_active env clock st s = (if clock 0 < dl then Inr () else raise ExecutionBudgetExceeded ''TASK_WALL_TIME_BUDGET_EXHAUSTED'', s)"
proof -
  let ?now = "clock 0"
  have r: "run_budget_write env SQLITE_BUDGET_LOCK_RETRY_ATTEMPTS 50 operation s = (case operation 0 s of Inl e \<Rightarrow> (Inl e, s) | Inr (x, s') \<Rightarrow> (Inr x, s'))"
    for operation :: "nat \<Rightarrow> budget_row op"
    using assms(1) by (simp add: run_budget_write_two numeral_2_eq_2)
  have c: "check_deltas zero_deltas = Inr ()" "no_deltas zero_deltas"
    by (simp_all add: check_deltas_def delta_value_def zero_deltas_def SQL_MAX_def no_deltas_def)
  show ?thesis
  proof (cases "?now < dl")
    case True
    then have "project q zero_deltas ?now = Inr (charge zero_deltas ?now q)"
      using assms(3,4) by (auto simp: project_iff zero_deltas_def counters_ok_def)
    with True c(2) show ?thesis
      unfolding assert_active_def reserve_def r reserve_task_execution_budget_def assms(2) option.case c(1) bindE_simps
      by (simp add: translate_exhaustion_def)
  next
    case False
    then have "project q zero_deltas ?now = raise ValueError ''TASK_WALL_TIME_BUDGET_EXHAUSTED''"
      using assms(4) by (simp add: project_def deadline_expired_def parse_stamp_def)
    with False show ?thesis
      unfolding assert_active_def reserve_def r reserve_task_execution_budget_def assms(2) option.case c(1) bindE_simps
      by (simp add: translate_exhaustion_def BUDGET_EXHAUSTION_CODES_def)
  qed
qed

lemma live_budgetD:
  assumes "live_budget g b w = Inr live"
  shows "bindE (rg_snapshot g w) sb_from_mapping = Inr live" "immutable_tuple live = immutable_tuple (db_budget b)"
    "list_all2 (\<le>) (sb_counters (db_budget b)) (sb_counters live)"
  using assms by (auto simp: live_budget_def sb_counters_def split: if_splits)

lemma newly_revokedD:
  assumes "newly_revoked g b k w = Inr new"
  obtains src rows where "rg_list_for_task g (json_text (rk_task_id k)) w = Inr src" "mapE rsn_from_revocation src = Inr rows"
    "set (db_revocations b) \<subseteq> set rows \<or> \<not> distinct (map rsn_capability (db_revocations b))"
proof -
  from assms obtain src rows where s: "rg_list_for_task g (json_text (rk_task_id k)) w = Inr src" "mapE rsn_from_revocation src = Inr rows"
    and eq: "\<not> list_ex (\<lambda>c. by_capability (sort_revocations rows) c \<noteq> by_capability (db_revocations b) c) (map rsn_capability (db_revocations b))"
    unfolding newly_revoked_def bindE_Inr_iff reraise_Inr_iff Let_def if_raise_iff by blast
  have "r \<in> set rows" if d: "distinct (map rsn_capability (db_revocations b))" and r: "r \<in> set (db_revocations b)" for r
  proof -
    have "distinct (map fst (rev (map (\<lambda>r. (rsn_capability r, r)) (db_revocations b))))"
      using d by (simp add: rev_map [symmetric] comp_def)
    from map_of_eq_Some_iff [OF this] r have "by_capability (db_revocations b) (rsn_capability r) = Some r"
      by (auto simp: by_capability_def)
    with eq r have "by_capability (sort_revocations rows) (rsn_capability r) = Some r" by (auto simp: list_ex_iff)
    then show ?thesis by (auto simp: by_capability_def sort_revocations_def dest!: map_of_SomeD)
  qed
  with s that show thesis by blast
qed

lemma settled_cases:
  "settled_verdict base b = None \<longleftrightarrow> base \<notin> {''COMPLETE'', ''MANUAL_RECONCILIATION'', ''BLOCKED''}
     \<and> db_in_flight_ticket_fingerprints b = [] \<and> db_cancelled b \<noteq> JBool True"
  "settled_verdict base b = Some v \<Longrightarrow> fst v = (if base = ''COMPLETE'' then ''COMPLETE''
     else if base = ''MANUAL_RECONCILIATION'' \<or> db_in_flight_ticket_fingerprints b \<noteq> [] then ''MANUAL_RECONCILIATION'' else ''BLOCKED'')"
  by (auto simp: settled_verdict_def split: if_splits)

lemma dispatch_recoverD:
  assumes "dispatch_recover g b k c p parent obs w = (Inr d, w')"
  obtains live new verdict where "db_validate b = Inr b" "recover_evaluate k c p parent obs = Inr (dd_checkpoint_recovery d)"
    "live_budget g b w = Inr live" "newly_revoked g b k w = Inr new" "\<not> binding_mismatch b k" "dd_newly_revoked_capabilities d = new"
    "case settled_verdict (rr_status (dd_checkpoint_recovery d)) b of Some v \<Rightarrow> verdict = v | None \<Rightarrow> active_verdict g new w = (Inr verdict, w')"
    "dd_status d = fst verdict"
proof -
  from assms obtain base live new verdict where a: "db_validate b = Inr b" "recover_evaluate k c p parent obs = Inr base"
    "live_budget g b w = Inr live" "newly_revoked g b k w = Inr new" "\<not> binding_mismatch b k"
    and v: "(case settled_verdict (rr_status base) b of Some v \<Rightarrow> readA (\<lambda>_. Inr v) | None \<Rightarrow> active_verdict g new) w = (Inr verdict, w')"
    and d: "dispatch_decision_of b base live new verdict = Inr d"
    by (auto simp: dispatch_recover_def bindA_Inr_iff db_validate_iff split: if_splits)
  from d have "dd_checkpoint_recovery d = base" "dd_newly_revoked_capabilities d = new" "dd_status d = fst verdict"
    by (auto simp: dispatch_decision_of_def Let_def)
  with a v show thesis by (intro that) (auto split: option.splits)
qed

lemma active_blocked: "active_verdict g new w = (Inr v, w') \<Longrightarrow> (\<nexists>u. fst (rg_assert_active g w) = Inr u) \<longleftrightarrow> (\<exists>m. fst (rg_assert_active g w) = raise ExecutionBudgetExceeded m)"
  by (auto simp: active_verdict_def split: prod.splits sum.splits if_splits)

lemma active_status: "active_verdict g new w = (Inr v, w') \<Longrightarrow> fst v = (if \<exists>u. fst (rg_assert_active g w) = Inr u then ''RECOVERABLE'' else ''BLOCKED'')"
  by (auto simp: active_verdict_def split: prod.splits sum.splits if_splits)

lemma verdict_meaning:
  assumes "db_validate b = Inr b" "base \<in> set RECOVERY_STATUSES"
    and "case settled_verdict base b of Some v \<Rightarrow> verdict = v | None \<Rightarrow> fst verdict = (if alive then ''RECOVERABLE'' else ''BLOCKED'')"
  shows "(fst verdict = ''COMPLETE'' \<longleftrightarrow> base = ''COMPLETE'')
    \<and> (fst verdict = ''MANUAL_RECONCILIATION'' \<longleftrightarrow> base = ''MANUAL_RECONCILIATION'' \<or> base \<noteq> ''COMPLETE'' \<and> db_in_flight_ticket_fingerprints b \<noteq> [])
    \<and> (fst verdict = ''BLOCKED'' \<longleftrightarrow> base \<noteq> ''COMPLETE'' \<and> base \<noteq> ''MANUAL_RECONCILIATION'' \<and> db_in_flight_ticket_fingerprints b = []
         \<and> (db_cancelled b = JBool True \<or> base = ''BLOCKED'' \<or> \<not> alive))
    \<and> (fst verdict = ''RECOVERABLE'' \<longleftrightarrow> base = ''RECOVERABLE'' \<and> db_in_flight_ticket_fingerprints b = [] \<and> db_cancelled b = JBool False \<and> alive)"
proof -
  have c: "db_cancelled b = JBool False \<longleftrightarrow> db_cancelled b \<noteq> JBool True"
    using assms(1) by (auto simp: db_validate_iff db_ok_def cancellation_ok_def)
  have m: "base = ''RECOVERABLE'' \<or> base = ''MANUAL_RECONCILIATION'' \<or> base = ''BLOCKED'' \<or> base = ''COMPLETE''"
    using assms(2) by (simp add: RECOVERY_STATUSES_def)
  show ?thesis
  proof (cases "settled_verdict base b")
    case None
    with assms(3) m None [unfolded settled_cases(1)] show ?thesis by (auto simp: c)
  next
    case (Some x)
    have "base \<in> {''COMPLETE'', ''MANUAL_RECONCILIATION'', ''BLOCKED''} \<or> db_in_flight_ticket_fingerprints b \<noteq> [] \<or> db_cancelled b = JBool True"
      using Some settled_cases(1) [of base b] by auto
    with settled_cases(2) [OF Some] assms(3) Some m show ?thesis by (auto simp: c)
  qed
qed

text \<open>When guards answer, there is a decision.\<close>

lemma dispatch_recover_total:
  assumes b: "db_validate b = Inr b" "rk_validate k = Inr k" "rk_fingerprint k = Inr kf" "db_runtime_checkpoint_fingerprint b = JStr kf"
      "\<not> binding_mismatch b k"
    and r: "recover_evaluate k c p parent obs = Inr r" and live: "live_budget g b w = Inr live" "sb_ok live"
    and new: "newly_revoked g b k w = Inr new" "list_all REVOCATION_COMPACT_RE new" "distinct new" "sorted new"
    and act: "rg_assert_active g w = (if alive then Inr () else raise ExecutionBudgetExceeded m, w)"
  shows "\<exists>d. dispatch_recover g b k c p parent obs w = (Inr d, w) \<and> dd_checkpoint_recovery d = r \<and> dd_newly_revoked_capabilities d = new
    \<and> (dd_status d = ''RECOVERABLE'' \<longleftrightarrow> rr_status r = ''RECOVERABLE'' \<and> db_in_flight_ticket_fingerprints b = []
         \<and> db_cancelled b = JBool False \<and> alive)"
proof -
  let ?verdict = "case settled_verdict (rr_status r) b of Some v \<Rightarrow> v
    | None \<Rightarrow> if alive then (''RECOVERABLE'', if new \<noteq> [] then ''DISPATCH_RECOVERY_REVALIDATED_WITH_NEW_REVOCATIONS''
        else ''DISPATCH_RECOVERY_REVALIDATED_NO_EXECUTION_PERFORMED'') else (''BLOCKED'', ''LIVE_BUDGET_NOT_ACTIVE'')"
  have v: "(case settled_verdict (rr_status r) b of Some v \<Rightarrow> readA (\<lambda>_. Inr v) | None \<Rightarrow> active_verdict g new) w = (Inr ?verdict, w)"
    by (auto simp: active_verdict_def act split: option.split)
  have "fst ?verdict \<in> set RECOVERY_STATUSES \<and> REASON_RE (snd ?verdict)"
  proof (cases "settled_verdict (rr_status r) b")
    case None
    with v have "active_verdict g new w = (Inr ?verdict, w)" by simp
    then show ?thesis by (rule active_reason)
  next
    case (Some x)
    with settled_reason [OF Some] show ?thesis by simp
  qed
  then obtain d where d: "dispatch_decision_of b r live new ?verdict = Inr d" "dd_status d = fst ?verdict"
    "dd_checkpoint_recovery d = r" "dd_newly_revoked_capabilities d = new"
    using decision_total [OF b(1) _ live(2) new(2-4)] recovery_canonical(1) [OF r] by blast
  have "dispatch_recover g b k c p parent obs w = (Inr d, w)"
    by (simp add: dispatch_recover_def bindA_read b r live(1) new(1)) (simp add: bindA_def v d(1))
  moreover have "dd_status d = ''RECOVERABLE'' \<longleftrightarrow> rr_status r = ''RECOVERABLE'' \<and> db_in_flight_ticket_fingerprints b = []
      \<and> db_cancelled b = JBool False \<and> alive"
    unfolding d(2) by (rule verdict_meaning [OF b(1) recovery_canonical(2) [OF r], THEN conjunct2, THEN conjunct2, THEN conjunct2])
      (simp split: option.split)
  ultimately show ?thesis using d(3,4) by blast
qed

section \<open>A database with a revocation after the capture\<close>

definition recoverable_row :: budget_row where
  "recoverable_row = (demo_row 2)\<lparr>bu_max_wall_time_ms := 1000\<rparr>"

definition recoverable_store :: store where
  "recoverable_store = demo_revocable\<lparr>st_budgets := [''T'' \<mapsto> recoverable_row]\<rparr>"

lemma recoverable_store_wf:
  "budgets_wf recoverable_store" "revocations_wf recoverable_store" "st_budgets recoverable_store ''T'' = Some recoverable_row"
  "bu_deadline_at recoverable_row = At 1000" "revocation_sources ''T'' recoverable_store = Inr []"
proof -
  have "strip ''T'' = ''T''" by code_simp
  then show "revocation_sources ''T'' recoverable_store = Inr []"
    by (simp add: revocation_sources_def list_for_task_def get_task_def find_task_def recoverable_store_def demo_revocable_def empty_store_def)
qed (auto simp: budgets_wf_def row_ok_def counters_ok_def legacy_row_def revocations_wf_def recoverable_store_def demo_revocable_def empty_store_def
      recoverable_row_def demo_row_def)

lemma recoverable_snapshot:
  "\<exists>j. task_budget_snapshot ''T'' recoverable_store = Inr j \<and> sb_from_mapping j = Inr (snapshot_of ''T'' recoverable_row)"
proof -
  have "in_calendar 1000" by (simp add: in_calendar_def tokyo_local_def MAX_LOCAL_def)
  from tokyo_text_aware [OF this] have "sb_ok (snapshot_of ''T'' recoverable_row)"
    by (simp add: sb_ok_def snapshot_of_def recoverable_row_def demo_row_def text_where_def int_where_def stamp_text_def
        REVOCATION_COMPACT_RE_def ident_match_def is_alnum_def is_upper_def)
  then have "bindE (task_budget_snapshot ''T'' recoverable_store) sb_from_mapping = Inr (snapshot_of ''T'' recoverable_row)"
    unfolding task_budget_snapshot_iff using recoverable_store_wf(3) by blast
  then show ?thesis by (auto simp: bindE_Inr_iff)
qed

lemma recoverable_revoke:
  "revoked_since ''T'' recoverable_store (foldl store_step recoverable_store [(5, Revoke 5 ''T'' ''read_file'' ''leaked'')]) \<supseteq> {''read_file''}"
proof -
  obtain r s' where r: "revoke 1 2 ''T'' ''read_file'' ''leaked'' demo_revocable = Inr (r, s')" using demo_revoke by blast
  have "get_task t recoverable_store = get_task t demo_revocable" "task_contract_for_task t recoverable_store = task_contract_for_task t demo_revocable"
    "revocation_row t c recoverable_store = None" for t c
    by (simp_all add: get_task_def find_task_def task_contract_for_task_def recoverable_store_def revocation_row_def demo_revocable_def empty_store_def)
  moreover have s: "strip ''T'' = ''T''" "capability_arg ''read_file'' = Inr ''read_file''" by code_simp+
  ultimately obtain q s'' where q: "revoke 5 5 ''T'' ''read_file'' ''leaked'' recoverable_store = Inr (q, s'')" "rv_capability q = ''read_file''"
    using r unfolding revoke_iff by fastforce
  note t = revoke_tables [OF q(1)]
  have none: "revocation_row ''T'' ''read_file'' recoverable_store = None"
    by (simp add: revocation_row_def recoverable_store_def demo_revocable_def empty_store_def)
  with t(2,3) q(2) s have "revocation_row ''T'' ''read_file'' s'' = Some q" by (auto simp: revocation_row_def find_snoc_None)
  with none q s show ?thesis by (simp add: revoked_since_def store_step_def keep_def)
qed

lemma demo_recoverable:
  assumes "rk_build demo_instant demo_plan_context demo_plan demo_plan_authority [demo_observation] [] (Some demo_instant) = Inr k"
  shows "\<exists>r. recover_evaluate k demo_plan_context demo_plan demo_plan_authority [demo_observation] = Inr r \<and> rr_status r = ''RECOVERABLE''"
proof -
  from assms obtain fs d ts where b: "observation_fingerprints [demo_observation] demo_plan demo_plan_authority = Inr fs"
    "evaluate demo_plan_context demo_plan demo_plan_authority [demo_observation] (sort []) = Inr d"
    "captured demo_plan_context demo_plan demo_plan_authority (sort []) fs d ts k" by (rule rk_build_captures)
  have p: "no_partial (set [demo_observation])" using demo_gather by (simp add: no_partial_def)
  have "may_start (set [demo_observation]) A (demo_nodes ! 1)" "demo_nodes ! 1 \<in> set (ep_nodes demo_plan)" for A
    using demo_gather by (simp_all add: may_start_def seen_def)
  then have "sd_status d = ''READY''" using evaluate_status(2) [OF b(2) _ p] by auto
  with captured_recovers [OF b(3,1,2)] p show ?thesis by (simp add: recovery_of_def Let_def no_partial_def recovery_verdict_def)
qed

lemma demo_binding:
  "\<exists>k j b r. rk_build demo_instant demo_plan_context demo_plan demo_plan_authority [demo_observation] [] (Some demo_instant) = Inr k
     \<and> task_budget_snapshot ''T'' recoverable_store = Inr j \<and> db_build k (snapshot_for k 4 (JBool False) JNull 0 []) j [] = Inr b
     \<and> db_in_flight_ticket_fingerprints b = [] \<and> db_cancelled b = JBool False
     \<and> recover_evaluate k demo_plan_context demo_plan demo_plan_authority [demo_observation] = Inr r \<and> rr_status r = ''RECOVERABLE''"
proof -
  obtain k where k: "rk_build demo_instant demo_plan_context demo_plan demo_plan_authority [demo_observation] [] (Some demo_instant) = Inr k"
    using demo_builds by blast
  then obtain fs d ts where c: "captured demo_plan_context demo_plan demo_plan_authority (sort []) fs d ts k" by (rule rk_build_captures)
  obtain j where j: "task_budget_snapshot ''T'' recoverable_store = Inr j" "sb_from_mapping j = Inr (snapshot_of ''T'' recoverable_row)"
    using recoverable_snapshot by blast
  have "\<exists>b. db_build k (snapshot_for k 4 (JBool False) JNull 0 []) j [] = Inr b
    \<and> db_in_flight_ticket_fingerprints b = map JStr [] \<and> db_cancelled b = JBool False"
    using c by (intro db_build_total [OF _ _ j(2), where rows = "[]"])
      (simp_all add: captured_def snapshot_of_def demo_plan_task(1) normal_texts_def revocations_ok_def sort_revocations_def
        DR_MAX_SCHEDULER_CONCURRENCY_def cancellation_ok_def)
  with k j(1) demo_recoverable [OF k] show ?thesis by auto
qed

lemma demo_recovers:
  "\<exists>k b g d. dispatch_recover g b k demo_plan_context demo_plan demo_plan_authority [demo_observation] recoverable_store = (Inr d, recoverable_store)"
proof -
  obtain k j b r where b: "db_build k (snapshot_for k 4 (JBool False) JNull 0 []) j [] = Inr b"
    "recover_evaluate k demo_plan_context demo_plan demo_plan_authority [demo_observation] = Inr r" using demo_binding by blast
  from b(1) obtain kf rows where v: "db_validate b = Inr b" "rk_validate k = Inr k" "rk_fingerprint k = Inr kf"
    "db_runtime_checkpoint_fingerprint b = JStr kf" "\<not> binding_mismatch b k" "sb_from_mapping j = Inr (db_budget b)"
    "mapE rsn_from_revocation [] = Inr rows" "db_revocations b = sort_revocations rows" by (rule db_build_binds)
  define g :: "store recovery_guards" where
    "g = \<lparr>rg_assert_active = \<lambda>w. (Inr (), w), rg_snapshot = \<lambda>_. Inr j, rg_list_for_task = \<lambda>_ _. Inr []\<rparr>"
  have "live_budget g b recoverable_store = Inr (db_budget b)" by (simp add: live_budget_def g_def v(6) sb_counters_def)
  moreover have "newly_revoked g b k recoverable_store = Inr []"
    using v(7,8) by (simp add: newly_revoked_def g_def sort_revocations_def Let_def)
  moreover have "rg_assert_active g recoverable_store = (if True then Inr () else raise ExecutionBudgetExceeded [], recoverable_store)"
    by (simp add: g_def)
  ultimately show ?thesis using dispatch_recover_total [OF v(1-5) b(2) _ from_mapping_valid [OF v(6)]] by fastforce
qed

section \<open>Properties\<close>

text \<open>C16: what a dispatch recovery decision guarantees, for any budget and revocation guards. The checkpoint's own recovery
  succeeded; the live budget has the captured limits and no counter has gone back; every captured revocation is still
  there; and the status is determined: \<open>COMPLETE\<close> exactly when the checkpoint is, whatever was in flight or cancelled;
  otherwise \<open>MANUAL_RECONCILIATION\<close> exactly when the checkpoint is or a dispatch was in flight; otherwise \<open>BLOCKED\<close> exactly when the scheduler was
  cancelled, the checkpoint is blocked or the live budget is exhausted; and \<open>RECOVERABLE\<close> exactly when the checkpoint is, nothing was in flight, the scheduler was not
  cancelled and the live budget is active. The design document lets an in-flight ticket always force manual reconciliation and a cancelled scheduler always stay
  blocked: for a complete checkpoint, and for a cancelled scheduler with a ticket in flight, the code decides otherwise.\<close>

theorem dispatch_recovery_sound:
  assumes "dispatch_recover g b k c p parent obs w = (Inr d, w')"
  shows "\<exists>r. recover_evaluate k c p parent obs = Inr r \<and> dd_checkpoint_recovery d = r
    \<and> (\<exists>j live. rg_snapshot g w = Inr j \<and> sb_from_mapping j = Inr live \<and> immutable_tuple live = immutable_tuple (db_budget b)
         \<and> list_all2 (\<le>) (sb_counters (db_budget b)) (sb_counters live))
    \<and> (\<exists>src. rg_list_for_task g (json_text (rk_task_id k)) w = Inr src
         \<and> (\<forall>row \<in> set (db_revocations b). \<exists>v \<in> set src. rsn_from_revocation v = Inr row))
    \<and> (dd_status d = ''COMPLETE'' \<longleftrightarrow> rr_status r = ''COMPLETE'')
    \<and> (dd_status d = ''MANUAL_RECONCILIATION'' \<longleftrightarrow> rr_status r = ''MANUAL_RECONCILIATION''
         \<or> rr_status r \<noteq> ''COMPLETE'' \<and> db_in_flight_ticket_fingerprints b \<noteq> [])
    \<and> (dd_status d = ''BLOCKED'' \<longleftrightarrow> rr_status r \<noteq> ''COMPLETE'' \<and> rr_status r \<noteq> ''MANUAL_RECONCILIATION'' \<and> db_in_flight_ticket_fingerprints b = []
         \<and> (db_cancelled b = JBool True \<or> rr_status r = ''BLOCKED'' \<or> (\<exists>m. fst (rg_assert_active g w) = raise ExecutionBudgetExceeded m)))
    \<and> (dd_status d = ''RECOVERABLE'' \<longleftrightarrow> rr_status r = ''RECOVERABLE'' \<and> db_in_flight_ticket_fingerprints b = []
         \<and> db_cancelled b = JBool False \<and> (\<exists>u. fst (rg_assert_active g w) = Inr u))"
proof -
  let ?r = "dd_checkpoint_recovery d"
  from assms obtain live new verdict where a: "db_validate b = Inr b" "recover_evaluate k c p parent obs = Inr ?r"
    "live_budget g b w = Inr live" "newly_revoked g b k w = Inr new"
    and v: "case settled_verdict (rr_status ?r) b of Some v \<Rightarrow> verdict = v | None \<Rightarrow> active_verdict g new w = (Inr verdict, w')"
    and d: "dd_status d = fst verdict" by (rule dispatch_recoverD)
  have b: "distinct (map rsn_capability (db_revocations b))" using a(1) by (auto simp: db_validate_iff db_ok_def revocations_ok_def)
  have "\<exists>src. rg_list_for_task g (json_text (rk_task_id k)) w = Inr src
      \<and> (\<forall>row \<in> set (db_revocations b). \<exists>v \<in> set src. rsn_from_revocation v = Inr row)"
  proof (rule newly_revokedD [OF a(4)])
    fix src rows
    assume s: "rg_list_for_task g (json_text (rk_task_id k)) w = Inr src" "mapE rsn_from_revocation src = Inr rows"
      "set (db_revocations b) \<subseteq> set rows \<or> \<not> distinct (map rsn_capability (db_revocations b))"
    then show ?thesis using b mapE_set [OF s(2)] by blast
  qed
  moreover have "\<exists>j live. rg_snapshot g w = Inr j \<and> sb_from_mapping j = Inr live \<and> immutable_tuple live = immutable_tuple (db_budget b)
      \<and> list_all2 (\<le>) (sb_counters (db_budget b)) (sb_counters live)"
    using live_budgetD [OF a(3)] by (auto simp: bindE_Inr_iff)
  moreover have "case settled_verdict (rr_status ?r) b of Some v \<Rightarrow> verdict = v
      | None \<Rightarrow> fst verdict = (if \<exists>u. fst (rg_assert_active g w) = Inr u then ''RECOVERABLE'' else ''BLOCKED'')"
    using v by (auto simp: active_status split: option.splits)
  note meaning = verdict_meaning [OF a(1) recovery_canonical(2) [OF a(2)] this, folded d]
  have "(\<nexists>u. fst (rg_assert_active g w) = Inr u) \<longleftrightarrow> (\<exists>m. fst (rg_assert_active g w) = raise ExecutionBudgetExceeded m)"
    if "settled_verdict (rr_status ?r) b = None" using v that active_blocked [of g new w verdict w'] by simp
  then have "dd_status d = ''BLOCKED'' \<longleftrightarrow> rr_status ?r \<noteq> ''COMPLETE'' \<and> rr_status ?r \<noteq> ''MANUAL_RECONCILIATION'' \<and> db_in_flight_ticket_fingerprints b = []
      \<and> (db_cancelled b = JBool True \<or> rr_status ?r = ''BLOCKED'' \<or> (\<exists>m. fst (rg_assert_active g w) = raise ExecutionBudgetExceeded m))"
    unfolding meaning [THEN conjunct2, THEN conjunct2, THEN conjunct1] settled_cases(1) by blast
  ultimately show ?thesis using a(2) meaning by blast
qed

theorem dispatch_recovery_sound_witness:
  "\<exists>g k b d w' r. dispatch_recover g b k demo_plan_context demo_plan demo_plan_authority [demo_observation] recoverable_store = (Inr d, w')
     \<and> recover_evaluate k demo_plan_context demo_plan demo_plan_authority [demo_observation] = Inr r \<and> dd_checkpoint_recovery d = r"
proof -
  obtain k b g d where "dispatch_recover g b k demo_plan_context demo_plan demo_plan_authority [demo_observation] recoverable_store = (Inr d, recoverable_store)"
    using demo_recovers by blast
  with dispatch_recovery_sound [OF this] show ?thesis by blast
qed

text \<open>C3: recovery survives what others do to the database. A binding is built from a checkpoint, the budget and the
  revocations of a database. Then any operations of any users run on the database: tasks, contracts, budget charges
  (those of dispatches included, see \<open>dispatch_charge_step\<close>), revocations. As long as the checkpoint itself is accepted and the database answers, recovery from the binding always
  gives a decision: neither the budget nor the revocations are ever found rolled back. It lists exactly the
  capabilities revoked since, and says \<open>RECOVERABLE\<close> exactly when the checkpoint is recoverable, nothing was in flight, the
  scheduler was not cancelled and the task's deadline has not passed.\<close>

theorem recovery_survives:
  assumes "budgets_wf s" "revocations_wf s" "st_budgets s (bs_task_id st) = Some row" "bu_deadline_at row = At dl"
    and "task_budget_snapshot (bs_task_id st) s = Inr j" "revocation_sources (bs_task_id st) s = Inr src" "db_build k snap j src = Inr b"
    and "\<forall>x \<in> set ops. in_calendar (fst x)" "env 0 = None" "recover_evaluate k c p parent obs = Inr r"
  shows "\<exists>d. dispatch_recover (store_guards env clock st) b k c p parent obs (foldl store_step s ops) = (Inr d, foldl store_step s ops)
    \<and> dd_checkpoint_recovery d = r
    \<and> set (dd_newly_revoked_capabilities d) = revoked_since (bs_task_id st) s (foldl store_step s ops)
    \<and> (dd_status d = ''RECOVERABLE'' \<longleftrightarrow> rr_status r = ''RECOVERABLE'' \<and> db_in_flight_ticket_fingerprints b = []
         \<and> db_cancelled b = JBool False \<and> clock 0 < dl)"
proof -
  let ?t = "bs_task_id st" and ?s = "foldl store_step s ops"
  from assms(7) obtain kf rows where b: "db_validate b = Inr b" "rk_validate k = Inr k" "rk_fingerprint k = Inr kf"
    "db_runtime_checkpoint_fingerprint b = JStr kf" "\<not> binding_mismatch b k" "sb_from_mapping j = Inr (db_budget b)"
    "mapE rsn_from_revocation src = Inr rows" "db_revocations b = sort_revocations rows" by (rule db_build_binds)
  from assms(5) b(6) have snap: "bindE (task_budget_snapshot ?t s) sb_from_mapping = Inr (db_budget b)" by simp
  then have sb: "db_budget b = snapshot_of ?t row" "sb_ok (snapshot_of ?t row)" using assms(3) unfolding task_budget_snapshot_iff by auto
  then have t: "rk_task_id k = JStr ?t" "REVOCATION_COMPACT_RE ?t" "\<not> legacy_row row"
    using b(1,5) assms(4) by (auto simp: db_validate_iff db_ok_def binding_mismatch_def snapshot_of_def sb_ok_def text_where_def
        int_where_def legacy_row_def)
  note strip = compact_strip [OF t(2)]
  have find: "find_task s ?t \<noteq> None"
    using assms(6) strip by (auto simp: revocation_sources_def list_for_task_def get_task_def split: option.splits)
  have rows: "db_revocations b = map row_snapshot (task_revocations ?t s)"
    using sources_snapshots [OF assms(2) t(2) strip find] assms(6) b(7,8) by simp
  from live_budget_survives [OF assms(1) snap assms(3) t(3) refl, of ops env clock] obtain q where q: "st_budgets ?s ?t = Some q"
    "continues row q" "counters_ok q" "live_budget (store_guards env clock st) b ?s = Inr (snapshot_of ?t q)" "sb_ok (snapshot_of ?t q)" by blast
  from newly_revoked_survives [OF assms(2) t(2) strip find assms(8) t(1) rows, of env clock st] obtain new where
    new: "newly_revoked (store_guards env clock st) b k ?s = Inr new" "set new = revoked_since ?t s ?s" "distinct new" "sorted new"
    "list_all REVOCATION_COMPACT_RE new" by blast
  have "bu_deadline_at q = At dl" using q(2) assms(4) by (simp add: continues_def same_limits_def)
  from assert_active_answers [of env ?s st q dl clock, OF assms(9) q(1) q(3) this] have act: "rg_assert_active (store_guards env clock st) ?s
      = (if clock 0 < dl then Inr () else raise ExecutionBudgetExceeded ''TASK_WALL_TIME_BUDGET_EXHAUSTED'', ?s)"
    by (simp add: store_guards_def)
  from dispatch_recover_total [OF b(1-5) assms(10) q(4,5) new(1,5,3,4) act] new(2) show ?thesis by auto
qed

theorem recovery_survives_witness:
  "\<exists>k b d. dispatch_recover (store_guards (\<lambda>_. None) (\<lambda>_. 0) governed_state) b k demo_plan_context demo_plan demo_plan_authority [demo_observation]
       (foldl store_step recoverable_store [(5, Revoke 5 ''T'' ''read_file'' ''leaked'')])
     = (Inr d, foldl store_step recoverable_store [(5, Revoke 5 ''T'' ''read_file'' ''leaked'')])
     \<and> ''read_file'' \<in> set (dd_newly_revoked_capabilities d) \<and> dd_status d = ''RECOVERABLE''"
proof -
  obtain k j b r where b: "task_budget_snapshot ''T'' recoverable_store = Inr j"
    "db_build k (snapshot_for k 4 (JBool False) JNull 0 []) j [] = Inr b"
    "db_in_flight_ticket_fingerprints b = []" "db_cancelled b = JBool False"
    "recover_evaluate k demo_plan_context demo_plan demo_plan_authority [demo_observation] = Inr r" "rr_status r = ''RECOVERABLE''"
    using demo_binding by blast
  let ?ops = "[(5::int, Revoke 5 ''T'' ''read_file'' ''leaked'')]"
  have t: "bs_task_id governed_state = ''T''" by (simp add: governed_state_def)
  have cal: "\<forall>x \<in> set ?ops. in_calendar (fst x)" by (simp add: in_calendar_def tokyo_local_def MAX_LOCAL_def)
  from recovery_survives [where st = governed_state and clock = "\<lambda>_. 0" and env = "\<lambda>_. None", unfolded t,
      OF recoverable_store_wf(1-4) b(1) recoverable_store_wf(5) b(2) cal refl b(5)]
  obtain d where e: "dispatch_recover (store_guards (\<lambda>_. None) (\<lambda>_. 0) governed_state) b k demo_plan_context demo_plan demo_plan_authority [demo_observation]
        (foldl store_step recoverable_store ?ops) = (Inr d, foldl store_step recoverable_store ?ops)"
      "set (dd_newly_revoked_capabilities d) = revoked_since ''T'' recoverable_store (foldl store_step recoverable_store ?ops)"
      "dd_status d = ''RECOVERABLE'' \<longleftrightarrow> rr_status r = ''RECOVERABLE'' \<and> db_in_flight_ticket_fingerprints b = []
           \<and> db_cancelled b = JBool False \<and> 0 < (1000::int)" by (elim exE conjE) (rule that)
  have "''read_file'' \<in> set (dd_newly_revoked_capabilities d)" using recoverable_revoke by (simp only: e(2)) simp
  moreover have "dd_status d = ''RECOVERABLE''" by (simp only: e(3) b) simp
  ultimately show ?thesis using e(1) by (intro exI conjI)
qed

text \<open>C38: binding texts round trip. A binding that was built, like every valid one, is written as a text, and reading the text gives
  the same binding; and whatever text is read, the binding it gives is valid and can be written and read again.\<close>

theorem binding_roundtrip:
  "(db_build k snap j src = Inr b \<longrightarrow> (\<exists>t. db_dumps b = Inr t \<and> db_loads t = Inr b))
   \<and> (db_loads u = Inr b \<longrightarrow> db_validate b = Inr b \<and> (\<exists>t. db_dumps b = Inr t \<and> db_loads t = Inr b))"
  using db_roundtrip [of b] db_loads_valid [of u b] by (auto elim: db_build_binds)

theorem binding_roundtrip_witness:
  "\<exists>k j b t. db_build k (snapshot_for k 4 (JBool False) JNull 0 []) j [] = Inr b \<and> db_dumps b = Inr t \<and> db_loads t = Inr b"
  using demo_binding binding_roundtrip by metis

end
