(* ===== verification/Spec2Isabelle.thy ===== *)
theory Spec2Isabelle
  imports Runtime_Composition Live_Recovery
begin

text \<open>
  A verification library for the governed execution core of the local agent workspace (package \<open>three_agent\<close> under
  \<open>src/src/three_agent/\<close>).

  \<^bold>\<open>The program.\<close> A user's request becomes a task with an immutable contract, from which a capability authority and a task
  context are derived. A workflow contract (a graph of steps, proposed by a language model) is validated and compiled
  into an execution plan: one node per step, each with its own weaker authority and a share of the task budget. A
  scheduler dispatches nodes whose dependencies have succeeded, within persistent budgets and unless a capability was
  revoked, accepts their observations, and keeps a checkpoint log in the task database from which it can be restarted.
  Everything that decides is deterministic code; that code is what is modelled.

  \<^bold>\<open>Foundations.\<close> \<open>Sha256\<close> computes the hash; \<open>Prelude\<close> has results with exceptions (\<open>'a result\<close>, class and message),
  the string functions of Python that the code uses, and shared list and map lemmas; \<open>PyFloat\<close> is binary64 with the sums
  and comparisons that costs need; \<open>Json\<close> is the canonical writer (\<open>json.dumps\<close> with sorted keys) and reader with
  their round trip, on which every fingerprint rests; \<open>PyDatetime\<close> has ISO timestamps; \<open>Ip_Address\<close> the address
  classes; \<open>Field_Checks\<close> the field validators several modules repeat; \<open>Effects\<close> actions that change state and may raise;
  \<open>Monotone_Log\<close> a locale for tables that only grow.

  \<^bold>\<open>Components,\<close> each a theory with the record types, the operations in the order of the source, and their properties:

  \<^item> \<open>Workflow_Graph\<close>, \<open>Workflow_Design\<close>: \<open>workflow_design.py\<close>. The graph routine gives a topological order with longest-path
    levels exactly on acyclic graphs (its loop is bounded by the number of nodes, so no fuel is exhausted);
    validation gives well-formed contracts, and is a fixed point on its own output up to twelve warnings.
  \<^item> \<open>Task_Contract\<close>: \<open>task_contract.py\<close>. The validator decides a declarative predicate; the compiler's posture.
  \<^item> \<open>Capability_Authority\<close>: \<open>capability_authority.py\<close>. The decision on every request, condition by condition, and that delegation
    never widens what is permitted.
  \<^item> \<open>Task_Store\<close>: \<open>store.py\<close>, \<open>models.py\<close>. The tables as one record and their operations; the ids of a day's tasks
    and how many of them there can be.
  \<^item> \<open>Execution_Budget\<close>: \<open>execution_budget.py\<close>, \<open>linked_execution_budget.py\<close>, \<open>sqlite_budget_guard.py\<close>. Over every
    sequence of transactions the counters are the sum of what was granted and stay below the limits; what a retried
    reservation charges when the database is contended.
  \<^item> \<open>Capability_Revocation\<close>: \<open>capability_revocation.py\<close>, and \<open>store_step\<close>, a step of any user of the task database.
    Over all runs of such steps contracts never change once bound and revocations are permanent.
  \<^item> \<open>Context_Manifest\<close>, \<open>Task_Context\<close>: \<open>harness_context_manifest.py\<close>, \<open>task_context.py\<close> and the canonical task of
    \<open>harness_task_compiler.py\<close>.
  \<^item> \<open>Execution_Plan\<close>, \<open>Execution_Observation\<close>, \<open>Runtime_Scheduler\<close>: the files of the same names. What the builder
    accepts, how authorities and budgets are divided, what an accepted observation guarantees, and the pure decision on
    which nodes are ready, blocked or done, independent of the order of the observations.
  \<^item> \<open>Execution_Scheduler\<close>: \<open>execution_scheduler.py\<close>. The stateful scheduler over guards and a repository that are fields of
    a record, as the protocols of the source are; runs are an inductive relation with an invariant.
  \<^item> \<open>Execution_Checkpoint\<close>, \<open>Checkpoint_Receipts\<close>: \<open>execution_checkpoint.py\<close>. Rows, canonical texts, digests and the event
    chain, and the refinement to an abstract log of receipts.
  \<^item> \<open>Crash_Recovery\<close>, \<open>Governed_Runtime\<close>: how they work together. The locale \<open>receipt_repository\<close> states what the scheduler
    needs from a repository and \<open>recoverable\<close> what it needs from the whole world; they are interpreted on the checkpoint
    repository with the persistent budget and the revocation table in one database that other parties use.
  \<^item> \<open>Hash_Chain\<close>, \<open>Writer_Lease\<close>: \<open>runtime_writer_lease.py\<close>. Leases with generations over an event
    table that is a hash chain; at any time at most one lease of a plan is active, and only the latest claim is accepted.
  \<^item> \<open>Writer_Fence\<close>, \<open>Fenced_Writers\<close>: \<open>execution_checkpoint_writer_fence.py\<close>. Each recording checks the lease in the same
    transaction and binds the receipt to the writer's generation. A recording that is accepted is the plain recording
    (so \<open>receipt_repository\<close> is interpreted again, as \<open>fenced\<close>), the bindings agree with the receipts at all times, and
    a writer whose lease was taken over can record nothing more.
  \<^item> \<open>Dispatch_Budget\<close>: \<open>execution_dispatch_budget.py\<close>. A dispatch and its budget charge are one transaction: the
    interpretation \<open>atomic\<close> of \<open>recoverable\<close>, and over every run the charges are those of the recorded dispatches,
    each within the task's budget. Seen from the task tables, the charge is a \<open>store_step\<close> (\<open>dispatch_charge_step\<close>).
  \<^item> \<open>Runtime_Composition\<close>: \<open>execution_runtime_composition.py\<close>. The function that puts lease, fence, budget and scheduler
    together; a scheduler composed after a crash, under a new lease, resumes with exactly the receipts recorded before.
  \<^item> \<open>Runtime_Checkpoint\<close>: \<open>runtime_checkpoint.py\<close>. Checkpoint records of untyped JSON fields and their text codec with its
    round trip; recovery accepts exactly the set of observations the checkpoint was built from.
  \<^item> \<open>Dispatch_Recovery\<close>, \<open>Live_Recovery\<close>: \<open>runtime_dispatch_recovery.py\<close>, with the budget snapshot of
    \<open>execution_budget.py\<close> and the revocation list of \<open>capability_revocation.py\<close> as its guards. The binding of a checkpoint to
    the scheduler, budget and revocations of its time, its codec, what each decision guarantees, and that no operation of
    other users of the database makes a binding unusable.

  \<^bold>\<open>Conventions.\<close> Integers of Python are \<open>int\<close>, strings are lists of characters with code below 256, dictionaries keep their
  order as association lists, exceptions are values \<open>Inl (class, message)\<close>; an operation that changes state returns the
  state also when it raises, except inside a database transaction, which SQLite rolls back. Transactions are atomic and
  serialised, as \<open>BEGIN IMMEDIATE\<close> makes them, so concurrency is a sequence of operations in any order. The clock and
  lock errors are parameters (\<open>db_env\<close>), among them the error a budget write meets after its commit, when it reads its row back.
  Simplifications of this view: a store method that writes a row and then, in a second transaction, the activity log is one operation (no
  modelled operation reads the log); loading a checkpoint, whose verification and rows the source reads on connections of their own, is one read; the
  comparison of database paths is on paths already resolved; integers of JSON texts have no limit on their digits, where
  Python stops at 4300; and a stored budget deadline carries its zone, as the task store writes it.
  Digests are computed by the real hash function; results that need
  distinct digests say so as a premise about the concrete values or as an alternative in the conclusion, never as a general assumption.
  The recursions are structural or bounded by a length, so fuel is never exhausted; where it appears (the retry loop)
  the number of attempts is the source's.

  \<^bold>\<open>Not modelled.\<close> The language models and everything that only prepares their input or reads their free text, the web front
  ends, monitoring adapters, benchmarks and scripts: they are input and output around services outside the repository.
  The older workflow path (\<open>workflow_state_machine.py\<close>, \<open>persistent_scheduler.py\<close>) and the
  promotion and evaluation gates keep their own tables and do not change those of the execution core modelled here.
\<close>

end
